(* ===== verification/Prelude.thy ===== *)
theory Prelude
  imports Main "HOL-Library.Word"
begin

text \<open>
  Shared vocabulary of the development: the C integer types at their width, the ways in which a
  C execution can get stuck, the results that carry them, the error codes of
  \<^verbatim>\<open>esp_common/include/esp_err.h\<close>, byte-wise memory access with bounds, and the generic lemmas
  every component theory uses.
\<close>

unbundle bit_operations_syntax

section \<open>Integer types\<close>

type_synonym u8 = "8 word"
type_synonym u16 = "16 word"
type_synonym u32 = "32 word"
type_synonym u64 = "64 word"

text \<open>
  Signed C integers are words of the same width, read with \<^term>\<open>sint\<close>; a conversion to a
  narrower signed type (\<^verbatim>\<open>int16_t x = e\<close>) is \<^term>\<open>word_of_int\<close>, which keeps the low bits as
  the compiler does.
\<close>

type_synonym i16 = "16 word"
type_synonym i32 = "32 word"

text \<open>C's division truncates towards zero.\<close>

definition c_div :: "int \<Rightarrow> int \<Rightarrow> int" where
  "c_div a b = sgn a * sgn b * (\<bar>a\<bar> div \<bar>b\<bar>)"

section \<open>Executions that get stuck\<close>

text \<open>
  A failed \<^verbatim>\<open>assert\<close>, a dereferenced null pointer, an access outside an object, a division by
  zero, a wait that nothing ends, a loop that never ends and a list item linked into a second list are
  not return values of the program: they are the \<^term>\<open>Inl\<close> side of a result.
\<close>

datatype fault =
    Assert_failed
  | Null_deref
  | Out_of_bounds
  | Div_by_zero
  | Use_after_free
  | Blocked_forever
  | Diverges
  | List_corrupted

type_synonym 'a res = "fault + 'a"

definition bind_res :: "'a res \<Rightarrow> ('a \<Rightarrow> 'b res) \<Rightarrow> 'b res" where
  "bind_res m f = (case m of Inl e \<Rightarrow> Inl e | Inr x \<Rightarrow> f x)"

definition assert_res :: "bool \<Rightarrow> 'a res \<Rightarrow> 'a res" where
  "assert_res b m = (if b then m else Inl Assert_failed)"

definition deref :: "'a option \<Rightarrow> 'a res" where
  "deref p = (case p of None \<Rightarrow> Inl Null_deref | Some x \<Rightarrow> Inr x)"

named_theorems res_simps \<open>equations that execute results\<close>

lemma bind_res_Inl [simp, res_simps]: "bind_res (Inl e) f = Inl e"
  by (simp add: bind_res_def)

lemma bind_res_Inr [simp, res_simps]: "bind_res (Inr x) f = f x"
  by (simp add: bind_res_def)

lemma bind_res_assoc: "bind_res (bind_res m f) g = bind_res m (\<lambda>x. bind_res (f x) g)"
  by (simp add: bind_res_def split: sum.split)

lemma bind_res_eq_Inr_iff: "bind_res m f = Inr y \<longleftrightarrow> (\<exists>x. m = Inr x \<and> f x = Inr y)"
  by (auto simp: bind_res_def split: sum.splits)

lemma bind_res_InrE [elim]:
  assumes "bind_res m f = Inr y"
  obtains x where "m = Inr x" and "f x = Inr y"
  using assms by (auto simp: bind_res_eq_Inr_iff)

lemma assert_res_True [simp, res_simps]: "assert_res True m = m"
  by (simp add: assert_res_def)

lemma assert_res_False [simp, res_simps]: "assert_res False m = Inl Assert_failed"
  by (simp add: assert_res_def)

lemma assert_res_eq_Inr_iff: "assert_res b m = Inr y \<longleftrightarrow> b \<and> m = Inr y"
  by (simp add: assert_res_def)

lemma deref_Some [simp, res_simps]: "deref (Some x) = Inr x"
  by (simp add: deref_def)

lemma deref_None [simp, res_simps]: "deref None = Inl Null_deref"
  by (simp add: deref_def)

lemma deref_eq_Inr_iff: "deref p = Inr x \<longleftrightarrow> p = Some x"
  by (auto simp: deref_def split: option.splits)

section \<open>Error codes of the SDK\<close>

datatype esp_err =
    ESP_OK
  | ESP_FAIL
  | ESP_ERR_NO_MEM
  | ESP_ERR_INVALID_ARG
  | ESP_ERR_INVALID_STATE
  | ESP_ERR_INVALID_SIZE
  | ESP_ERR_NOT_FOUND
  | ESP_ERR_NOT_SUPPORTED
  | ESP_ERR_TIMEOUT

text \<open>The numeric values, which matter where the program compares a code with another integer.\<close>

fun esp_err_code :: "esp_err \<Rightarrow> int" where
  "esp_err_code ESP_OK = 0"
| "esp_err_code ESP_FAIL = -1"
| "esp_err_code ESP_ERR_NO_MEM = 0x101"
| "esp_err_code ESP_ERR_INVALID_ARG = 0x102"
| "esp_err_code ESP_ERR_INVALID_STATE = 0x103"
| "esp_err_code ESP_ERR_INVALID_SIZE = 0x104"
| "esp_err_code ESP_ERR_NOT_FOUND = 0x105"
| "esp_err_code ESP_ERR_NOT_SUPPORTED = 0x106"
| "esp_err_code ESP_ERR_TIMEOUT = 0x107"

section \<open>Byte memory\<close>

text \<open>
  An allocated object is its list of bytes; an access at an offset outside it is a fault.
\<close>

definition mem_write :: "u8 list \<Rightarrow> int \<Rightarrow> u8 list \<Rightarrow> u8 list res" where
  "mem_write st off bs =
     (if 0 \<le> off \<and> nat off + length bs \<le> length st
      then Inr (take (nat off) st @ bs @ drop (nat off + length bs) st)
      else Inl Out_of_bounds)"

definition mem_read :: "u8 list \<Rightarrow> int \<Rightarrow> nat \<Rightarrow> u8 list res" where
  "mem_read st off n =
     (if 0 \<le> off \<and> nat off + n \<le> length st
      then Inr (take n (drop (nat off) st))
      else Inl Out_of_bounds)"

lemma mem_write_length: "mem_write st off bs = Inr st' \<Longrightarrow> length st' = length st"
  by (auto simp: mem_write_def split: if_splits)

lemma mem_read_length: "mem_read st off n = Inr bs \<Longrightarrow> length bs = n"
  by (auto simp: mem_read_def split: if_splits)

section \<open>Array access\<close>

definition array_get :: "'a list \<Rightarrow> nat \<Rightarrow> 'a res" where
  "array_get xs i = (if i < length xs then Inr (xs ! i) else Inl Out_of_bounds)"

lemma array_get_Inr [simp, res_simps]: "i < length xs \<Longrightarrow> array_get xs i = Inr (xs ! i)"
  by (simp add: array_get_def)

lemma array_get_Inl [simp, res_simps]: "length xs \<le> i \<Longrightarrow> array_get xs i = Inl Out_of_bounds"
  by (simp add: array_get_def)

section \<open>Arrays of fixed-size items in byte memory\<close>

text \<open>Item number \<^term>\<open>j\<close> of an area that holds items of \<^term>\<open>z\<close> bytes.\<close>

definition chunk :: "nat \<Rightarrow> 'a list \<Rightarrow> nat \<Rightarrow> 'a list" where
  "chunk z st j = take z (drop (j * z) st)"

definition chunk_update :: "nat \<Rightarrow> 'a list \<Rightarrow> nat \<Rightarrow> 'a list \<Rightarrow> 'a list" where
  "chunk_update z st j bs = take (j * z) st @ bs @ drop (j * z + z) st"

lemma slot_end_le: "j < L \<Longrightarrow> j * z + z \<le> L * (z :: nat)"
  using mult_le_mono1 [of "Suc j" L z] by simp

lemma chunk_update_length:
  "length bs = z \<Longrightarrow> j < L \<Longrightarrow> length st = L * z \<Longrightarrow> length (chunk_update z st j bs) = L * z"
  using slot_end_le [of j L z] by (simp add: chunk_update_def)

lemma chunk_update_same:
  assumes "length bs = z" and "j < L" and "length st = L * z"
  shows "chunk z (chunk_update z st j bs) j = bs"
  using assms slot_end_le [of j L z] by (simp add: chunk_def chunk_update_def)

lemma chunk_update_before:
  assumes "length bs = z" and "j < L" and "length st = L * z" and "i < j"
  shows "chunk z (chunk_update z st j bs) i = chunk z st i"
  using assms slot_end_le [of j L z] slot_end_le [of i j z]
  by (simp add: chunk_def chunk_update_def drop_take)

lemma chunk_update_after:
  assumes "length bs = z" and "j < L" and "length st = L * z" and "j < i"
  shows "chunk z (chunk_update z st j bs) i = chunk z st i"
proof -
  from slot_end_le [OF assms(4), of z] obtain d where d: "i * z = j * z + z + d"
    using le_Suc_ex by blast
  from assms slot_end_le [of j L z] d show ?thesis
    by (simp add: chunk_def chunk_update_def add.commute add.left_commute)
qed

lemma chunk_update_other:
  "length bs = z \<Longrightarrow> j < L \<Longrightarrow> length st = L * z \<Longrightarrow> i \<noteq> j \<Longrightarrow>
   chunk z (chunk_update z st j bs) i = chunk z st i"
  by (metis chunk_update_before chunk_update_after nat_neq_iff)

lemma mem_write_chunk:
  "length bs = z \<Longrightarrow> j < L \<Longrightarrow> length st = L * z \<Longrightarrow>
   mem_write st (int (j * z)) bs = Inr (chunk_update z st j bs)"
  using slot_end_le [of j L z] by (simp add: mem_write_def chunk_update_def nat_mult_distrib)

lemma mem_read_chunk:
  "j < L \<Longrightarrow> length st = L * z \<Longrightarrow> mem_read st (int (j * z)) z = Inr (chunk z st j)"
  using slot_end_le [of j L z] by (simp add: mem_read_def chunk_def nat_mult_distrib)

lemma ring_index_distinct:
  assumes "i < n" and "n < (L :: nat)"
  shows "(a + i) mod L \<noteq> (a + n) mod L"
proof
  assume "(a + i) mod L = (a + n) mod L"
  then have "L dvd (a + n) - (a + i)"
    by (metis mod_eq_dvd_iff_nat add_le_cancel_left assms(1) less_imp_le)
  with assms show False by (auto dest: dvd_imp_le)
qed

section \<open>Words and numbers\<close>

lemma unat_of_nat_u32: "i < 2 ^ 32 \<Longrightarrow> unat (of_nat i :: u32) = i"
  by (simp add: unat_of_nat)

lemma unat_of_nat_pred_u32:
  assumes "0 < i" and "i < 2 ^ 32"
  shows "unat (of_nat i - 1 :: u32) = i - 1"
proof -
  have "(of_nat i :: u32) \<noteq> 0" using assms by (metis unat_of_nat_u32 unat_0 less_irrefl)
  with unat_of_nat_u32 [OF assms(2)] show ?thesis by (simp add: unat_minus_one)
qed

end
