(* ===== verification/TempConversion.thy ===== *)
theory TempConversion
  imports Prelude
begin

text \<open>
  Conversion of a raw ADC value to a temperature by table lookup and linear interpolation
  (\<^verbatim>\<open>Sensors/tempConversion.c\<close>, \<^verbatim>\<open>.h\<close>). C's integer promotions are written out: a
  \<^verbatim>\<open>uint16_t\<close> operand enters an expression as the integer \<^term>\<open>uint\<close> of the word, an
  \<^verbatim>\<open>int16_t\<close> as \<^term>\<open>sint\<close>, and an assignment to a 16-bit variable keeps the low 16 bits. None
  of the intermediate values leaves the range of \<^verbatim>\<open>int\<close>.
\<close>

section \<open>Data\<close>

definition TEMP_CONV_ERROR_INVALID :: i16 where "TEMP_CONV_ERROR_INVALID = 0x8000"
definition TEMP_CONV_ERROR_OPEN :: i16 where "TEMP_CONV_ERROR_OPEN = 0xFFFE"
definition TEMP_CONV_ERROR_SHORT :: i16 where "TEMP_CONV_ERROR_SHORT = 0xFFFD"

record TEMP_Conv_t =
  adc_value :: u16
  temperature :: i16

record TEMP_Conv_Config_t =
  pConvTable :: "TEMP_Conv_t list"
  table_size :: u32
  adc_tolerance :: u16

section \<open>Conversion\<close>

definition temperatureInterpolation :: "u16 \<Rightarrow> TEMP_Conv_t \<Rightarrow> TEMP_Conv_t \<Rightarrow> i16 res" where
  "temperatureInterpolation adc pPrev pNext =
     (let delta_adc = (word_of_int (uint (adc_value pNext) - uint (adc_value pPrev)) :: u16);
          result = (word_of_int (sint (temperature pPrev) * (uint (adc_value pNext) - uint adc)) :: i16);
          result = (word_of_int (sint result +
                      sint (temperature pNext) * (uint adc - uint (adc_value pPrev))) :: i16)
      in if delta_adc = 0 then Inl Div_by_zero
         else Inr (word_of_int (c_div (sint result) (uint delta_adc))))"

text \<open>The scan stops at the first entry above the value, or at the end of the table.\<close>

function scan_table :: "u16 \<Rightarrow> TEMP_Conv_t list \<Rightarrow> nat \<Rightarrow> nat \<Rightarrow> nat res" where
  "scan_table adc table n index =
     (if index < n
      then bind_res (array_get table index) (\<lambda>c.
             if adc < adc_value c then Inr index else scan_table adc table n (Suc index))
      else Inr index)"
  by pat_completeness auto
termination
  by (relation "measure (\<lambda>(_, _, n, index). n - index)") auto

declare scan_table.simps [simp del]

definition adcToTemp :: "u16 \<Rightarrow> TEMP_Conv_Config_t option \<Rightarrow> i16 res" where
  "adcToTemp adc pConfig =
     (case pConfig of
        None \<Rightarrow> Inr TEMP_CONV_ERROR_INVALID
      | Some cfg \<Rightarrow>
          bind_res (array_get (pConvTable cfg) 0) (\<lambda>first.
          if uint adc < uint (adc_value first) - uint (adc_tolerance cfg)
          then Inr TEMP_CONV_ERROR_OPEN
          else if uint adc > uint (adc_value first) - uint (adc_tolerance cfg) \<and>
                  adc \<le> adc_value first
          then Inr (temperature first)
          else
          bind_res (array_get (pConvTable cfg) (unat (table_size cfg - 1))) (\<lambda>final.
          if uint adc > uint (adc_value final) + uint (adc_tolerance cfg)
          then Inr TEMP_CONV_ERROR_SHORT
          else if uint adc < uint (adc_value final) + uint (adc_tolerance cfg) \<and>
                  adc \<ge> adc_value final
          then Inr (temperature final)
          else
          bind_res (scan_table adc (pConvTable cfg) (unat (table_size cfg)) 0) (\<lambda>index.
          bind_res (array_get (pConvTable cfg) (unat (of_nat index - 1 :: u32))) (\<lambda>pPrev.
          bind_res (array_get (pConvTable cfg) index) (\<lambda>pNext.
            temperatureInterpolation adc pPrev pNext))))))"

definition TCONV_ConvertToTemp :: "u16 \<Rightarrow> TEMP_Conv_Config_t option \<Rightarrow> i16 res" where
  "TCONV_ConvertToTemp adc pConfig =
     (case pConfig of
        None \<Rightarrow> Inr TEMP_CONV_ERROR_INVALID
      | Some cfg \<Rightarrow> adcToTemp adc (Some cfg))"

section \<open>The scan\<close>

definition table_ok :: "TEMP_Conv_Config_t \<Rightarrow> bool" where
  "table_ok cfg \<longleftrightarrow>
     pConvTable cfg \<noteq> [] \<and> unat (table_size cfg) = length (pConvTable cfg) \<and>
     sorted_wrt (\<lambda>a b. adc_value a < adc_value b) (pConvTable cfg) \<and>
     0 < adc_tolerance cfg"

lemma scan_table_spec:
  assumes "n \<le> length table" and "index \<le> n"
  shows "\<exists>i. scan_table adc table n index = Inr i \<and> index \<le> i \<and> i \<le> n \<and>
             (\<forall>j. index \<le> j \<and> j < i \<longrightarrow> adc_value (table ! j) \<le> adc) \<and>
             (i < n \<longrightarrow> adc < adc_value (table ! i))"
  using assms
proof (induction adc table n index rule: scan_table.induct)
  case (1 adc table n index)
  show ?case
  proof (cases "index < n \<and> \<not> adc < adc_value (table ! index)")
    case True
    with 1 obtain i where i: "scan_table adc table n (Suc index) = Inr i" "Suc index \<le> i"
      "i \<le> n" "\<forall>j. Suc index \<le> j \<and> j < i \<longrightarrow> adc_value (table ! j) \<le> adc"
      "i < n \<longrightarrow> adc < adc_value (table ! i)" by fastforce
    have "\<forall>j. index \<le> j \<and> j < i \<longrightarrow> adc_value (table ! j) \<le> adc"
      using i(4) True by (metis le_neq_implies_less not_less Suc_leI)
    with i True 1(2) show ?thesis by (simp add: scan_table.simps [of adc table n index])
  next
    case False
    then show ?thesis
      using 1(2,3) by (auto simp: scan_table.simps [of adc table n index])
  qed
qed

lemma table_sorted_le:
  assumes "sorted_wrt (\<lambda>a b. adc_value a < adc_value b) table" and "i \<le> j" and "j < length table"
  shows "adc_value (table ! i) \<le> adc_value (table ! j)"
  using assms by (cases "i = j") (auto simp: sorted_wrt_iff_nth_less intro: less_imp_le)

text \<open>
  For a value between the first and the last entry the scan finds the bracketing pair, and the
  conversion is the interpolation between the two.
\<close>

lemma adcToTemp_inside:
  assumes ok: "table_ok cfg" and lo: "adc_value (pConvTable cfg ! 0) < adc"
    and hi: "adc < adc_value (last (pConvTable cfg))"
  shows "\<exists>i. 0 < i \<and> i < length (pConvTable cfg) \<and>
             adc_value (pConvTable cfg ! (i - 1)) \<le> adc \<and> adc < adc_value (pConvTable cfg ! i) \<and>
             adcToTemp adc (Some cfg) =
               temperatureInterpolation adc (pConvTable cfg ! (i - 1)) (pConvTable cfg ! i)"
proof -
  let ?t = "pConvTable cfg"
  let ?n = "length ?t"
  from ok have ne: "?t \<noteq> []" and size: "unat (table_size cfg) = ?n" by (auto simp: table_ok_def)
  then have n: "0 < ?n" and size1: "unat (table_size cfg - 1) = ?n - 1"
    by (auto simp: unat_minus_one unat_gt_0 [symmetric])
  obtain i where i: "scan_table adc ?t ?n 0 = Inr i" "i \<le> ?n"
    "\<forall>j. j < i \<longrightarrow> adc_value (?t ! j) \<le> adc" "i < ?n \<longrightarrow> adc < adc_value (?t ! i)"
    using scan_table_spec [of ?n ?t 0 adc] by auto
  have i0: "i \<noteq> 0" using i(4) lo n by (metis less_asym)
  have iN: "i < ?n" using i(2,3) hi ne
    by (metis diff_less last_conv_nth le_neq_implies_less length_greater_0_conv not_less zero_less_one)
  have "unat (table_size cfg) < 2 ^ LENGTH(32)" by (rule unsigned_less)
  then have im1: "unat (of_nat i - 1 :: u32) = i - 1"
    using i0 iN size by (intro unat_of_nat_pred_u32) simp_all
  have tol: "0 \<le> uint (adc_tolerance cfg)" by simp
  have hi': "adc < adc_value (?t ! (?n - 1))" using hi ne by (simp add: last_conv_nth)
  have c1: "\<not> uint adc < uint (adc_value (?t ! 0)) - uint (adc_tolerance cfg)"
    and c2: "\<not> adc \<le> adc_value (?t ! 0)"
    and c3: "\<not> uint adc > uint (adc_value (?t ! (?n - 1))) + uint (adc_tolerance cfg)"
    and c4: "\<not> adc \<ge> adc_value (?t ! (?n - 1))"
    using lo hi' tol unfolding word_less_def word_le_def by linarith+
  have "adcToTemp adc (Some cfg) = temperatureInterpolation adc (?t ! (i - 1)) (?t ! i)"
    using i(1) iN im1 n size size1 c1 c2 c3 c4 by (simp add: adcToTemp_def)
  with i iN i0 show ?thesis by (intro exI [of _ i]) auto
qed

section \<open>The interpolation\<close>

text \<open>The exact linear interpolation, before the division, over the integers.\<close>

definition weighted_sum :: "u16 \<Rightarrow> TEMP_Conv_t \<Rightarrow> TEMP_Conv_t \<Rightarrow> int" where
  "weighted_sum adc pPrev pNext =
     sint (temperature pPrev) * (uint (adc_value pNext) - uint adc) +
     sint (temperature pNext) * (uint adc - uint (adc_value pPrev))"

definition fits_i16 :: "int \<Rightarrow> bool" where
  "fits_i16 x \<longleftrightarrow> - 32768 \<le> x \<and> x < 32768"

lemma sint_range_i16: "- 32768 \<le> sint (w :: i16)" "sint (w :: i16) < 32768"
  using sint_ge [of w] sint_lt [of w] by simp_all

lemma sint_word_of_int_fits: "fits_i16 x \<Longrightarrow> sint (word_of_int x :: i16) = x"
  by (simp add: fits_i16_def sint_sbintrunc' signed_take_bit_int_eq_self)

lemma word_of_int_sint_add: "(word_of_int (sint (word_of_int a :: i16) + b) :: i16) = word_of_int (a + b)"
  by simp

lemma delta_word:
  "adc_value p < adc_value q \<Longrightarrow>
   uint (adc_value q - adc_value p) = uint (adc_value q) - uint (adc_value p)"
  by (simp add: uint_minus_simple_alt [symmetric] less_imp_le)

text \<open>
  The code computes the interpolation modulo 2 to the 16 before it divides.
\<close>

lemma interpolation_eq:
  assumes "adc_value p < adc_value q"
  shows "temperatureInterpolation adc p q =
         Inr (word_of_int (c_div (sint (word_of_int (weighted_sum adc p q) :: i16))
                             (uint (adc_value q) - uint (adc_value p))))"
proof -
  have "adc_value q - adc_value p \<noteq> 0" using assms by auto
  then show ?thesis
    using delta_word [OF assms] by (simp add: temperatureInterpolation_def Let_def weighted_sum_def)
qed

lemma weighted_sum_between:
  assumes "adc_value p \<le> adc" and "adc \<le> adc_value q"
    and "sint (temperature p) \<le> sint (temperature q)"
  shows "sint (temperature p) * (uint (adc_value q) - uint (adc_value p)) \<le> weighted_sum adc p q"
    and "weighted_sum adc p q \<le> sint (temperature q) * (uint (adc_value q) - uint (adc_value p))"
proof -
  have a: "0 \<le> uint adc - uint (adc_value p)" and b: "0 \<le> uint (adc_value q) - uint adc"
    using assms(1,2) by (simp_all add: word_le_def)
  have "sint (temperature p) * (uint adc - uint (adc_value p)) \<le>
        sint (temperature q) * (uint adc - uint (adc_value p))"
    using assms(3) a by (rule mult_right_mono)
  then show "sint (temperature p) * (uint (adc_value q) - uint (adc_value p)) \<le> weighted_sum adc p q"
    by (simp add: weighted_sum_def algebra_simps)
  have "sint (temperature p) * (uint (adc_value q) - uint adc) \<le>
        sint (temperature q) * (uint (adc_value q) - uint adc)"
    using assms(3) b by (rule mult_right_mono)
  then show "weighted_sum adc p q \<le> sint (temperature q) * (uint (adc_value q) - uint (adc_value p))"
    by (simp add: weighted_sum_def algebra_simps)
qed

lemma c_div_bounds:
  assumes "0 < d" and "lo * d \<le> x" and "x \<le> hi * d" and "lo \<le> hi"
  shows "lo \<le> c_div x d" and "c_div x d \<le> hi"
proof -
  have "lo \<le> c_div x d \<and> c_div x d \<le> hi"
  proof (cases "0 \<le> x")
    case True
    then have q: "c_div x d = x div d" using assms(1) by (cases "x = 0") (simp_all add: c_div_def)
    have "lo \<le> x div d" using assms(1,2) by (metis zdiv_mono1 nonzero_mult_div_cancel_right less_irrefl)
    moreover have "x div d \<le> hi" using assms(1,3)
      by (metis zdiv_mono1 nonzero_mult_div_cancel_right less_irrefl)
    ultimately show ?thesis using q by simp
  next
    case False
    then have q: "c_div x d = - ((- x) div d)" using assms(1) by (simp add: c_div_def)
    have "(- x) div d \<le> - lo" using assms(1,2)
      by (metis zdiv_mono1 nonzero_mult_div_cancel_right less_irrefl mult_minus_left neg_le_iff_le)
    moreover have "- hi \<le> (- x) div d" using assms(1,3)
      by (metis zdiv_mono1 nonzero_mult_div_cancel_right less_irrefl mult_minus_left neg_le_iff_le)
    ultimately show ?thesis using q by simp
  qed
  then show "lo \<le> c_div x d" and "c_div x d \<le> hi" by auto
qed

text \<open>Two numbers with the same truncated quotient are less than two divisors apart.\<close>

lemma c_div_eq_imp_close:
  assumes d: "0 < d" and eq: "c_div x d = c_div y d"
  shows "\<bar>x - y\<bar> < 2 * d"
proof -
  have r: "\<bar>z - c_div z d * d\<bar> < d \<and> (0 \<le> z \<longrightarrow> c_div z d * d \<le> z) \<and> (z \<le> 0 \<longrightarrow> z \<le> c_div z d * d)"
    for z
  proof (cases "0 \<le> z")
    case True
    then have "c_div z d = z div d" using d by (cases "z = 0") (simp_all add: c_div_def)
    moreover have "z - z div d * d = z mod d" by (simp add: minus_div_mult_eq_mod)
    moreover have "0 \<le> z mod d" "z mod d < d" using d by simp_all
    ultimately show ?thesis using True by (cases "z = 0") auto
  next
    case False
    then have "c_div z d = - ((- z) div d)" using d by (simp add: c_div_def)
    moreover have "- z - (- z) div d * d = (- z) mod d" by (rule minus_div_mult_eq_mod)
    moreover have "0 \<le> (- z) mod d" "(- z) mod d < d" using d by simp_all
    ultimately show ?thesis using False by auto
  qed
  show ?thesis using r [of x] r [of y] eq by (auto simp: abs_less_iff)
qed

lemma wrap_i16: "\<exists>m. sint (word_of_int x :: i16) = x + m * 65536"
proof -
  have "take_bit 16 (sint (word_of_int x :: i16)) = take_bit 16 x"
    by (simp add: sint_sbintrunc' take_bit_signed_take_bit)
  then have "sint (word_of_int x :: i16) mod 65536 = x mod 65536"
    by (simp add: take_bit_eq_mod)
  then have "65536 dvd sint (word_of_int x :: i16) - x" by (rule mod_eq_dvd_iff [THEN iffD1])
  then obtain m where "sint (word_of_int x :: i16) - x = 65536 * m" by (elim dvdE)
  then show ?thesis by (intro exI [of _ m]) simp
qed

text \<open>
  On a segment shorter than 2 to the 15 counts the stored quotient is the quotient of the exact
  sum only when the sum fits 16 bits: a wrapped sum is never rescued by the division.
\<close>

lemma interpolation_exact_iff:
  assumes "adc_value p < adc_value q" and "uint (adc_value q) - uint (adc_value p) < 32768"
  shows "\<exists>t. temperatureInterpolation adc p q = Inr t \<and>
             (sint t = c_div (weighted_sum adc p q) (uint (adc_value q) - uint (adc_value p)) \<longleftrightarrow>
              fits_i16 (weighted_sum adc p q))"
proof -
  let ?d = "uint (adc_value q) - uint (adc_value p)" and ?s = "weighted_sum adc p q"
  let ?w = "sint (word_of_int ?s :: i16)"
  have d: "0 < ?d" using assms(1) by (simp add: word_less_def)
  have dge: "1 \<le> ?d" using d by simp
  have w: "- 32768 \<le> ?w" "?w \<le> 32767"
    using sint_range_i16 [of "word_of_int ?s"] by simp_all
  have "32768 * 1 \<le> 32768 * ?d" "32767 * 1 \<le> 32767 * ?d"
    using dge by (auto intro: mult_left_mono)
  then have "- 32768 * ?d \<le> ?w" "?w \<le> 32767 * ?d" using w by auto
  then have q: "- 32768 \<le> c_div ?w ?d" "c_div ?w ?d \<le> 32767"
    using c_div_bounds [OF d, of "- 32768" ?w 32767] by simp_all
  then have t: "sint (word_of_int (c_div ?w ?d) :: i16) = c_div ?w ?d"
    by (intro sint_word_of_int_fits) (simp add: fits_i16_def)
  have "c_div ?w ?d = c_div ?s ?d \<longleftrightarrow> fits_i16 ?s"
  proof
    assume "c_div ?w ?d = c_div ?s ?d"
    then have "\<bar>?w - ?s\<bar> < 65536" using c_div_eq_imp_close [OF d] assms(2) by force
    moreover obtain m where m: "?w = ?s + m * 65536" using wrap_i16 by blast
    ultimately have "m = 0" by (simp add: abs_mult)
    with m w show "fits_i16 ?s" by (simp add: fits_i16_def)
  qed (simp add: sint_word_of_int_fits)
  with t show ?thesis by (simp add: interpolation_eq [OF assms(1)])
qed

text \<open>A table of two entries, for the witnesses.\<close>

definition demo_config :: TEMP_Conv_Config_t where
  "demo_config = \<lparr>pConvTable = [\<lparr>adc_value = 1000, temperature = - 100\<rparr>,
                                 \<lparr>adc_value = 1080, temperature = 150\<rparr>],
                  table_size = 2, adc_tolerance = 10\<rparr>"

section \<open>Properties\<close>

text \<open>
  C11. Where the weighted sum of two neighbouring entries fits the 16-bit accumulator, the
  conversion of a value between the table's ends is the truncated linear interpolation between
  the two entries that bracket it, and lies between their temperatures.
\<close>

theorem conversion_interpolates:
  assumes "table_ok cfg" and "adc_value (pConvTable cfg ! 0) < adc"
    and "adc < adc_value (last (pConvTable cfg))"
    and mono: "sorted_wrt (\<lambda>a b. sint (temperature a) \<le> sint (temperature b)) (pConvTable cfg)"
    and fits: "\<And>i. Suc i < length (pConvTable cfg) \<Longrightarrow> adc_value (pConvTable cfg ! i) \<le> adc \<Longrightarrow>
          adc < adc_value (pConvTable cfg ! Suc i) \<Longrightarrow>
          fits_i16 (weighted_sum adc (pConvTable cfg ! i) (pConvTable cfg ! Suc i))"
  shows "\<exists>i t. Suc i < length (pConvTable cfg) \<and>
           adc_value (pConvTable cfg ! i) \<le> adc \<and> adc < adc_value (pConvTable cfg ! Suc i) \<and>
           TCONV_ConvertToTemp adc (Some cfg) = Inr t \<and>
           sint t = c_div (weighted_sum adc (pConvTable cfg ! i) (pConvTable cfg ! Suc i))
                      (uint (adc_value (pConvTable cfg ! Suc i)) - uint (adc_value (pConvTable cfg ! i))) \<and>
           sint (temperature (pConvTable cfg ! i)) \<le> sint t \<and>
           sint t \<le> sint (temperature (pConvTable cfg ! Suc i))"
proof -
  from adcToTemp_inside [OF assms(1-3)] obtain j where j: "0 < j" "j < length (pConvTable cfg)"
    "adc_value (pConvTable cfg ! (j - 1)) \<le> adc" "adc < adc_value (pConvTable cfg ! j)"
    "adcToTemp adc (Some cfg) =
       temperatureInterpolation adc (pConvTable cfg ! (j - 1)) (pConvTable cfg ! j)" by blast
  then obtain i where i: "j = Suc i" by (cases j) auto
  let ?p = "pConvTable cfg ! i" and ?q = "pConvTable cfg ! Suc i"
  let ?d = "uint (adc_value ?q) - uint (adc_value ?p)" and ?s = "weighted_sum adc ?p ?q"
  have le: "adc_value ?p \<le> adc" and lt: "adc < adc_value ?q" using j i by auto
  then have pq: "adc_value ?p < adc_value ?q" by (rule le_less_trans)
  have tpq: "sint (temperature ?p) \<le> sint (temperature ?q)"
    using mono j(2) i by (simp add: sorted_wrt_iff_nth_less)
  have d: "0 < ?d" using pq by (simp add: word_less_def)
  note bounds = weighted_sum_between [OF le less_imp_le [OF lt] tpq]
  note quot = c_div_bounds [OF d bounds tpq]
  have s: "fits_i16 ?s" using fits [of i] j i by auto
  have r: "fits_i16 (c_div ?s ?d)"
    using quot sint_range_i16 [of "temperature ?p"] sint_range_i16 [of "temperature ?q"]
    by (simp add: fits_i16_def)
  have "adcToTemp adc (Some cfg) = Inr (word_of_int (c_div ?s ?d))"
    using j(5) i interpolation_eq [OF pq, of adc] sint_word_of_int_fits [OF s] by simp
  then show ?thesis
    using j(2) i le lt sint_word_of_int_fits [OF r] quot
    by (intro exI [of _ i] exI [of _ "word_of_int (c_div ?s ?d)"])
      (simp add: TCONV_ConvertToTemp_def)
qed

theorem conversion_interpolates_witness:
  "\<exists>i t. Suc i < length (pConvTable demo_config) \<and>
     adc_value (pConvTable demo_config ! i) \<le> 1044 \<and> 1044 < adc_value (pConvTable demo_config ! Suc i) \<and>
     TCONV_ConvertToTemp 1044 (Some demo_config) = Inr t \<and>
     sint t = c_div (weighted_sum 1044 (pConvTable demo_config ! i) (pConvTable demo_config ! Suc i))
                (uint (adc_value (pConvTable demo_config ! Suc i)) - uint (adc_value (pConvTable demo_config ! i))) \<and>
     sint (temperature (pConvTable demo_config ! i)) \<le> sint t \<and>
     sint t \<le> sint (temperature (pConvTable demo_config ! Suc i))"
  by (rule conversion_interpolates)
    (auto simp: demo_config_def table_ok_def less_Suc_eq fits_i16_def weighted_sum_def)

lemma fault_at_low_end:
  assumes "table_ok cfg" and "uint adc = uint (adc_value (pConvTable cfg ! 0)) - uint (adc_tolerance cfg)"
  shows "adcToTemp adc (Some cfg) = Inl Out_of_bounds"
proof -
  let ?t = "pConvTable cfg" and ?n = "length (pConvTable cfg)"
  from assms(1) have ne: "?t \<noteq> []" and size: "unat (table_size cfg) = ?n"
    and srt: "sorted_wrt (\<lambda>a b. adc_value a < adc_value b) ?t" and tol: "0 < uint (adc_tolerance cfg)"
    by (auto simp: table_ok_def word_less_def)
  then have n: "0 < ?n" and size1: "unat (table_size cfg - 1) = ?n - 1"
    by (auto simp: unat_minus_one unat_gt_0 [symmetric])
  have "adc_value (?t ! 0) \<le> adc_value (?t ! (?n - 1))" using table_sorted_le [OF srt] n by simp
  then have low: "uint adc < uint (adc_value (?t ! 0))"
    "uint adc < uint (adc_value (?t ! (?n - 1)))" using assms(2) tol by (auto simp: word_le_def)
  have scan: "scan_table adc ?t ?n 0 = Inr 0"
    using n low by (simp add: scan_table.simps [of adc ?t ?n 0] word_less_def)
  have "?n \<le> unat (- 1 :: u32)" using size by (metis word_le_nat_alt word_n1_ge)
  with assms(2) low tol scan n size size1 show ?thesis
    by (simp add: adcToTemp_def word_le_def)
qed

lemma fault_at_high_end:
  assumes "table_ok cfg"
    and "uint adc = uint (adc_value (last (pConvTable cfg))) + uint (adc_tolerance cfg)"
  shows "adcToTemp adc (Some cfg) = Inl Out_of_bounds"
proof -
  let ?t = "pConvTable cfg" and ?n = "length (pConvTable cfg)"
  from assms(1) have ne: "?t \<noteq> []" and size: "unat (table_size cfg) = ?n"
    and srt: "sorted_wrt (\<lambda>a b. adc_value a < adc_value b) ?t" and tol: "0 < uint (adc_tolerance cfg)"
    by (auto simp: table_ok_def word_less_def)
  then have n: "0 < ?n" and size1: "unat (table_size cfg - 1) = ?n - 1"
    by (auto simp: unat_minus_one unat_gt_0 [symmetric])
  have le: "adc_value (?t ! j) \<le> adc_value (?t ! (?n - 1))" if "j < ?n" for j
    using table_sorted_le [OF srt] that by simp
  have hi: "uint adc = uint (adc_value (?t ! (?n - 1))) + uint (adc_tolerance cfg)"
    using assms(2) ne by (simp add: last_conv_nth)
  have above: "uint (adc_value (?t ! j)) < uint adc" if "j < ?n" for j
    using le [OF that] hi tol by (simp add: word_le_def)
  obtain i where i: "scan_table adc ?t ?n 0 = Inr i" "i \<le> ?n" "i < ?n \<longrightarrow> adc < adc_value (?t ! i)"
    using scan_table_spec [of ?n ?t 0 adc] by auto
  have "i = ?n" using i(2,3) above [of i] by (cases "i < ?n") (auto simp: word_less_def)
  moreover have "unat (table_size cfg) < 2 ^ LENGTH(32)" by (rule unsigned_less)
  then have "unat (of_nat ?n - 1 :: u32) = ?n - 1"
    using n size by (intro unat_of_nat_pred_u32) simp_all
  moreover have "\<not> uint adc < uint (adc_value (?t ! 0)) - uint (adc_tolerance cfg)"
    "\<not> adc \<le> adc_value (?t ! 0)" using above [OF n] tol by (auto simp: word_le_def)
  ultimately show ?thesis using hi i(1) n size size1 by (simp add: adcToTemp_def)
qed

text \<open>
  C39. Memory safety of the conversion: with a strictly increasing table and a non-zero tolerance
  the conversion reads outside the table for exactly two inputs, the values that lie precisely
  one tolerance below the first or above the last entry; for every other input it returns.
\<close>

theorem conversion_faults_iff:
  assumes "table_ok cfg"
  shows "TCONV_ConvertToTemp adc (Some cfg) = Inl Out_of_bounds \<longleftrightarrow>
           uint adc = uint (adc_value (pConvTable cfg ! 0)) - uint (adc_tolerance cfg) \<or>
           uint adc = uint (adc_value (last (pConvTable cfg))) + uint (adc_tolerance cfg)"
proof -
  let ?t = "pConvTable cfg" and ?n = "length (pConvTable cfg)"
  from assms have ne: "?t \<noteq> []" and size: "unat (table_size cfg) = ?n" by (auto simp: table_ok_def)
  then have n: "0 < ?n" and size1: "unat (table_size cfg - 1) = ?n - 1"
    by (auto simp: unat_minus_one unat_gt_0 [symmetric])
  have "\<exists>t. adcToTemp adc (Some cfg) = Inr t"
    if "uint adc \<noteq> uint (adc_value (?t ! 0)) - uint (adc_tolerance cfg)"
      "uint adc \<noteq> uint (adc_value (last ?t)) + uint (adc_tolerance cfg)"
  proof (cases "adc_value (?t ! 0) < adc \<and> adc < adc_value (last ?t)")
    case True
    with adcToTemp_inside [OF assms] obtain i where i: "adc_value (?t ! (i - 1)) \<le> adc"
      "adc < adc_value (?t ! i)" "adcToTemp adc (Some cfg) =
         temperatureInterpolation adc (?t ! (i - 1)) (?t ! i)" by blast
    then show ?thesis using interpolation_eq [OF le_less_trans [OF i(1,2)]] by auto
  next
    case False
    then show ?thesis using that n size1 ne
      by (auto simp: adcToTemp_def word_le_def word_less_def last_conv_nth)
  qed
  then show ?thesis
    using fault_at_low_end [OF assms, of adc] fault_at_high_end [OF assms, of adc]
    by (cases "uint adc = uint (adc_value (?t ! 0)) - uint (adc_tolerance cfg)";
        cases "uint adc = uint (adc_value (last ?t)) + uint (adc_tolerance cfg)")
      (auto simp: TCONV_ConvertToTemp_def)
qed

theorem conversion_faults_iff_witness:
  "table_ok demo_config \<and>
   (TCONV_ConvertToTemp 990 (Some demo_config) = Inl Out_of_bounds \<longleftrightarrow>
      uint (990 :: u16) = uint (adc_value (pConvTable demo_config ! 0)) - uint (adc_tolerance demo_config) \<or>
      uint (990 :: u16) = uint (adc_value (last (pConvTable demo_config))) + uint (adc_tolerance demo_config))"
proof -
  have ok: "table_ok demo_config" by (simp add: demo_config_def table_ok_def)
  with conversion_faults_iff [OF ok, of 990] show ?thesis by (intro conjI)
qed

end
