(* ===== verification/FreeRTOS_Tasks.thy ===== *)
theory FreeRTOS_Tasks
  imports Prelude
begin

text \<open>
  The part of the kernel (\<^verbatim>\<open>freertos/FreeRTOS-Kernel/tasks.c\<close>, \<^verbatim>\<open>list.c\<close>) on which queues and
  semaphores rest: tick count and timeouts, the event lists a blocked task waits on, and the
  priority inheritance of mutexes. The ready, delayed and suspended lists only decide which task
  runs next and are the subject of the theory \<^verbatim>\<open>Scheduler\<close>: here a blocking call stops and is resumed
  by its caller's environment.
\<close>

type_synonym task = nat

definition portMAX_DELAY :: u32 where
  "portMAX_DELAY = 0xFFFFFFFF"

definition configMAX_PRIORITIES :: u32 where
  "configMAX_PRIORITIES = 25"

definition taskEVENT_LIST_ITEM_VALUE_IN_USE :: u32 where
  "taskEVENT_LIST_ITEM_VALUE_IN_USE = 0x80000000"

record TCB_t =
  uxPriority :: u32
  uxBasePriority :: u32
  uxMutexesHeld :: u32
  xEventListItem :: u32
  ucDelayAborted :: bool

record kernel =
  pxCurrentTCB :: "task option"
  tcbs :: "task \<Rightarrow> TCB_t"
  xTickCount :: u32
  xNumOfOverflows :: u32
  uxSchedulerSuspended :: bool

record TimeOut_t =
  xOverflowCount :: u32
  xTimeOnEntering :: u32

type_synonym event_list = "task list"

definition upd_tcb :: "task \<Rightarrow> (TCB_t \<Rightarrow> TCB_t) \<Rightarrow> kernel \<Rightarrow> kernel" where
  "upd_tcb t f k = k\<lparr>tcbs := (tcbs k)(t := f (tcbs k t))\<rparr>"

section \<open>Timeouts\<close>

definition vTaskInternalSetTimeOutState :: "kernel \<Rightarrow> TimeOut_t" where
  "vTaskInternalSetTimeOutState k =
     \<lparr>xOverflowCount = xNumOfOverflows k, xTimeOnEntering = xTickCount k\<rparr>"

text \<open>Returns whether the wait is over, with the updated timeout, remaining ticks and kernel.\<close>

definition xTaskCheckForTimeOut ::
  "kernel \<Rightarrow> TimeOut_t \<Rightarrow> u32 \<Rightarrow> (bool \<times> TimeOut_t \<times> u32 \<times> kernel) res" where
  "xTaskCheckForTimeOut k pxTimeOut pxTicksToWait =
     bind_res (deref (pxCurrentTCB k)) (\<lambda>cur.
       let xConstTickCount = xTickCount k;
           xElapsedTime = xConstTickCount - xTimeOnEntering pxTimeOut
       in if ucDelayAborted (tcbs k cur)
          then Inr (True, pxTimeOut, pxTicksToWait,
                    upd_tcb cur (\<lambda>b. b\<lparr>ucDelayAborted := False\<rparr>) k)
          else if pxTicksToWait = portMAX_DELAY
          then Inr (False, pxTimeOut, pxTicksToWait, k)
          else if xNumOfOverflows k \<noteq> xOverflowCount pxTimeOut \<and>
                  xTimeOnEntering pxTimeOut \<le> xConstTickCount
          then Inr (True, pxTimeOut, 0, k)
          else if xElapsedTime < pxTicksToWait
          then Inr (False, vTaskInternalSetTimeOutState k, pxTicksToWait - xElapsedTime, k)
          else Inr (True, pxTimeOut, 0, k))"

text \<open>The kernel after \<^term>\<open>n\<close> ticks in which nothing else changed.\<close>

definition ticks_later :: "u32 \<Rightarrow> kernel \<Rightarrow> kernel" where
  "ticks_later n k =
     k\<lparr>xTickCount := xTickCount k + n,
       xNumOfOverflows := xNumOfOverflows k + (if xTickCount k + n < xTickCount k then 1 else 0)\<rparr>"

definition vTaskDelay :: "u32 \<Rightarrow> kernel \<Rightarrow> kernel res" where
  "vTaskDelay xTicksToDelay k =
     (if 0 < xTicksToDelay
      then assert_res (\<not> uxSchedulerSuspended k) (Inr (ticks_later xTicksToDelay k))
      else Inr k)"

lemma ticks_later_sel [simp]:
  "pxCurrentTCB (ticks_later n k) = pxCurrentTCB k" "tcbs (ticks_later n k) = tcbs k"
  "uxSchedulerSuspended (ticks_later n k) = uxSchedulerSuspended k"
  "xTickCount (ticks_later n k) = xTickCount k + n"
  by (simp_all add: ticks_later_def)

lemma vTaskDelay_eq: "\<not> uxSchedulerSuspended k \<Longrightarrow> vTaskDelay n k = Inr (if n = 0 then k else ticks_later n k)"
  by (auto simp: vTaskDelay_def word_gt_0)

section \<open>Event lists\<close>

text \<open>
  \<^verbatim>\<open>vListInsert\<close> walks from the head past every item whose value is not larger; the values are
  those held in the tasks' control blocks.
\<close>

fun vListInsert :: "('a \<Rightarrow> u32) \<Rightarrow> 'a list \<Rightarrow> 'a \<Rightarrow> 'a list" where
  "vListInsert val [] t = [t]"
| "vListInsert val (y # ys) t =
     (if val y \<le> val t then y # vListInsert val ys t else t # y # ys)"

definition vTaskPlaceOnEventList :: "kernel \<Rightarrow> event_list \<Rightarrow> (event_list \<times> kernel) res" where
  "vTaskPlaceOnEventList k l =
     bind_res (deref (pxCurrentTCB k)) (\<lambda>cur.
       Inr (vListInsert (\<lambda>t. xEventListItem (tcbs k t)) l cur,
            upd_tcb cur (\<lambda>b. b\<lparr>ucDelayAborted := False\<rparr>) k))"

text \<open>
  The caller has checked that the list is not empty; the head is the waiting task of highest
  priority. Making it ready and requesting a yield are scheduling and leave no trace here.
\<close>

definition xTaskRemoveFromEventList :: "event_list \<Rightarrow> event_list" where
  "xTaskRemoveFromEventList l = tl l"

section \<open>Mutex ownership and priority inheritance\<close>

definition pvTaskIncrementMutexHeldCount :: "kernel \<Rightarrow> task option \<times> kernel" where
  "pvTaskIncrementMutexHeldCount k =
     (case pxCurrentTCB k of
        None \<Rightarrow> (None, k)
      | Some cur \<Rightarrow> (Some cur, upd_tcb cur (\<lambda>b. b\<lparr>uxMutexesHeld := uxMutexesHeld b + 1\<rparr>) k))"

definition reset_event_item :: "TCB_t \<Rightarrow> u32 \<Rightarrow> TCB_t" where
  "reset_event_item b p =
     (if xEventListItem b AND taskEVENT_LIST_ITEM_VALUE_IN_USE = 0
      then b\<lparr>xEventListItem := configMAX_PRIORITIES - p\<rparr> else b)"

definition xTaskPriorityInherit :: "kernel \<Rightarrow> task option \<Rightarrow> (bool \<times> kernel) res" where
  "xTaskPriorityInherit k pxMutexHolder =
     (case pxMutexHolder of
        None \<Rightarrow> Inr (False, k)
      | Some h \<Rightarrow>
          bind_res (deref (pxCurrentTCB k)) (\<lambda>cur.
            let p = uxPriority (tcbs k cur) in
            if uxPriority (tcbs k h) < p
            then Inr (True, upd_tcb h (\<lambda>b. (reset_event_item b p)\<lparr>uxPriority := p\<rparr>) k)
            else Inr (uxBasePriority (tcbs k h) < p, k)))"

definition xTaskPriorityDisinherit :: "kernel \<Rightarrow> task option \<Rightarrow> (bool \<times> kernel) res" where
  "xTaskPriorityDisinherit k pxMutexHolder =
     (case pxMutexHolder of
        None \<Rightarrow> Inr (False, k)
      | Some t \<Rightarrow>
          assert_res (pxCurrentTCB k = Some t)
          (assert_res (uxMutexesHeld (tcbs k t) \<noteq> 0)
           (let k1 = upd_tcb t (\<lambda>b. b\<lparr>uxMutexesHeld := uxMutexesHeld b - 1\<rparr>) k;
                b = tcbs k1 t
            in if uxPriority b \<noteq> uxBasePriority b \<and> uxMutexesHeld b = 0
               then Inr (True, upd_tcb t (\<lambda>b. b\<lparr>uxPriority := uxBasePriority b,
                                 xEventListItem := configMAX_PRIORITIES - uxBasePriority b\<rparr>) k1)
               else Inr (False, k1))))"

definition vTaskPriorityDisinheritAfterTimeout ::
  "kernel \<Rightarrow> task option \<Rightarrow> u32 \<Rightarrow> kernel res" where
  "vTaskPriorityDisinheritAfterTimeout k pxMutexHolder uxHighestPriorityWaitingTask =
     (case pxMutexHolder of
        None \<Rightarrow> Inr k
      | Some t \<Rightarrow>
          assert_res (uxMutexesHeld (tcbs k t) \<noteq> 0)
          (let b = tcbs k t;
               uxPriorityToUse = (if uxBasePriority b < uxHighestPriorityWaitingTask
                                  then uxHighestPriorityWaitingTask else uxBasePriority b)
           in if uxPriority b \<noteq> uxPriorityToUse \<and> uxMutexesHeld b = 1
              then assert_res (pxCurrentTCB k \<noteq> Some t)
                     (Inr (upd_tcb t (\<lambda>b. reset_event_item (b\<lparr>uxPriority := uxPriorityToUse\<rparr>)
                                            uxPriorityToUse) k))
              else Inr k))"

section \<open>A concrete kernel state\<close>

definition demo_tcb :: TCB_t where
  "demo_tcb = \<lparr>uxPriority = 5, uxBasePriority = 5, uxMutexesHeld = 0, xEventListItem = 20,
               ucDelayAborted = False\<rparr>"

definition demo_kernel :: kernel where
  "demo_kernel = \<lparr>pxCurrentTCB = Some 1, tcbs = (\<lambda>_. demo_tcb), xTickCount = 100,
                  xNumOfOverflows = 0, uxSchedulerSuspended = False\<rparr>"

end
