(* ===== verification/FreeRTOS_Queue.thy ===== *)
theory FreeRTOS_Queue
  imports FreeRTOS_Tasks
begin

text \<open>
  Queues, binary semaphores and mutexes (\<^verbatim>\<open>freertos/FreeRTOS-Kernel/queue.c\<close>) as the firmware is
  built: two cores (\<^verbatim>\<open>queueUSE_LOCKS = 0\<close>), mutexes on, no queue sets in use
  (\<^verbatim>\<open>pxQueueSetContainer\<close> stays \<^verbatim>\<open>NULL\<close>). A queue is its control structure together with its
  storage area; pointers into that area are byte offsets. The lemmas show that the circular byte
  buffer implements a bounded first-in-first-out list and that semaphores count.
\<close>

section \<open>Data\<close>

type_synonym BaseType_t = int

definition pdFALSE :: BaseType_t where "pdFALSE = 0"
definition pdTRUE :: BaseType_t where "pdTRUE = 1"
definition pdPASS :: BaseType_t where "pdPASS = pdTRUE"
definition errQUEUE_EMPTY :: BaseType_t where "errQUEUE_EMPTY = 0"
definition errQUEUE_FULL :: BaseType_t where "errQUEUE_FULL = 0"

lemmas basetype_defs = pdFALSE_def pdTRUE_def pdPASS_def errQUEUE_EMPTY_def errQUEUE_FULL_def

datatype copy_position = queueSEND_TO_BACK | queueSEND_TO_FRONT | queueOVERWRITE

text \<open>
  The union of \<^verbatim>\<open>QueuePointers_t\<close> and \<^verbatim>\<open>SemaphoreData_t\<close> is kept as separate fields: a queue with
  items uses the first two, a mutex (item size 0, \<^verbatim>\<open>pcHead == NULL\<close>) the other two.
\<close>

record Queue_t =
  pcHead :: "int option"
  pcWriteTo :: int
  pcTail :: int
  pcReadFrom :: int
  xMutexHolder :: "task option"
  uxRecursiveCallCount :: u32
  xTasksWaitingToSend :: event_list
  xTasksWaitingToReceive :: event_list
  uxMessagesWaiting :: u32
  uxLength :: u32
  uxItemSize :: u32
  q_storage :: "u8 list"

type_synonym QueueHandle_t = "Queue_t option"

definition is_mutex :: "Queue_t \<Rightarrow> bool" where
  "is_mutex q \<longleftrightarrow> pcHead q = None"

definition head_off :: "Queue_t \<Rightarrow> int" where
  "head_off q = (case pcHead q of None \<Rightarrow> 0 | Some h \<Rightarrow> h)"

definition isz :: "Queue_t \<Rightarrow> nat" where "isz q = unat (uxItemSize q)"
definition qlen :: "Queue_t \<Rightarrow> nat" where "qlen q = unat (uxLength q)"
definition qcnt :: "Queue_t \<Rightarrow> nat" where "qcnt q = unat (uxMessagesWaiting q)"

section \<open>Waking a task that waits on the queue\<close>

definition wake_receiver :: "Queue_t \<Rightarrow> Queue_t" where
  "wake_receiver q =
     (if xTasksWaitingToReceive q \<noteq> []
      then q\<lparr>xTasksWaitingToReceive := xTaskRemoveFromEventList (xTasksWaitingToReceive q)\<rparr>
      else q)"

definition wake_sender :: "Queue_t \<Rightarrow> Queue_t" where
  "wake_sender q =
     (if xTasksWaitingToSend q \<noteq> []
      then q\<lparr>xTasksWaitingToSend := xTaskRemoveFromEventList (xTasksWaitingToSend q)\<rparr>
      else q)"

section \<open>Copying items in and out\<close>

text \<open>An item is passed by pointer: \<^term>\<open>None\<close> is the null pointer, the bytes are what it points to.\<close>

definition item_bytes :: "Queue_t \<Rightarrow> u8 list option \<Rightarrow> u8 list res" where
  "item_bytes q p = bind_res (deref p) (\<lambda>bs. mem_read bs 0 (isz q))"

definition prvCopyDataToQueue ::
  "kernel \<Rightarrow> Queue_t \<Rightarrow> u8 list option \<Rightarrow> copy_position \<Rightarrow> (bool \<times> Queue_t \<times> kernel) res" where
  "prvCopyDataToQueue k q pvItemToQueue xPosition =
     (if uxItemSize q = 0
      then if is_mutex q
           then bind_res (xTaskPriorityDisinherit k (xMutexHolder q)) (\<lambda>(r, k').
                  Inr (r, q\<lparr>xMutexHolder := None,
                            uxMessagesWaiting := uxMessagesWaiting q + 1\<rparr>, k'))
           else Inr (False, q\<lparr>uxMessagesWaiting := uxMessagesWaiting q + 1\<rparr>, k)
      else if xPosition = queueSEND_TO_BACK
      then bind_res (item_bytes q pvItemToQueue) (\<lambda>bs.
           bind_res (mem_write (q_storage q) (pcWriteTo q) bs) (\<lambda>st.
             let w = pcWriteTo q + uint (uxItemSize q);
                 w' = (if pcTail q \<le> w then head_off q else w)
             in Inr (False, q\<lparr>q_storage := st, pcWriteTo := w',
                              uxMessagesWaiting := uxMessagesWaiting q + 1\<rparr>, k)))
      else bind_res (item_bytes q pvItemToQueue) (\<lambda>bs.
           bind_res (mem_write (q_storage q) (pcReadFrom q) bs) (\<lambda>st.
             let r = pcReadFrom q - uint (uxItemSize q);
                 r' = (if r < head_off q then pcTail q - uint (uxItemSize q) else r);
                 n = (if xPosition = queueOVERWRITE \<and> 0 < uxMessagesWaiting q
                      then uxMessagesWaiting q - 1 else uxMessagesWaiting q)
             in Inr (False, q\<lparr>q_storage := st, pcReadFrom := r', uxMessagesWaiting := n + 1\<rparr>, k))))"

text \<open>Returns the bytes copied into the caller's buffer, if any.\<close>

definition prvCopyDataFromQueue :: "Queue_t \<Rightarrow> (u8 list \<times> Queue_t) res" where
  "prvCopyDataFromQueue q =
     (if uxItemSize q \<noteq> 0
      then let r = pcReadFrom q + uint (uxItemSize q);
               r' = (if pcTail q \<le> r then head_off q else r)
           in bind_res (mem_read (q_storage q) r' (isz q)) (\<lambda>bs.
                Inr (bs, q\<lparr>pcReadFrom := r'\<rparr>))
      else Inr ([], q))"

section \<open>Creation\<close>

text \<open>
  \<^verbatim>\<open>pvPortMalloc\<close> fails (\<^term>\<open>None\<close>) or hands out memory of arbitrary content, given by a function
  from offsets to bytes.
\<close>

type_synonym alloc = "(nat \<Rightarrow> u8) option"

definition SIZE_MAX :: nat where "SIZE_MAX = 2 ^ 32 - 1"
definition sizeof_Queue_t :: nat where "sizeof_Queue_t = 84"

definition xQueueGenericReset :: "Queue_t \<Rightarrow> bool \<Rightarrow> (BaseType_t \<times> Queue_t) res" where
  "xQueueGenericReset q xNewQueue =
     (if 1 \<le> uxLength q \<and> isz q \<le> SIZE_MAX div qlen q
      then let q1 = q\<lparr>pcTail := head_off q + int (qlen q * isz q),
                       uxMessagesWaiting := 0,
                       pcWriteTo := head_off q,
                       pcReadFrom := head_off q + int ((qlen q - 1) * isz q)\<rparr>;
               q2 = (if xNewQueue
                     then q1\<lparr>xTasksWaitingToSend := [], xTasksWaitingToReceive := []\<rparr>
                     else wake_sender q1)
           in Inr (pdPASS, q2)
      else Inl Assert_failed)"

definition prvInitialiseNewQueue :: "u32 \<Rightarrow> u32 \<Rightarrow> u8 list \<Rightarrow> Queue_t res" where
  "prvInitialiseNewQueue uxQueueLength uxItemSz pucQueueStorage =
     (let q = \<lparr>pcHead = Some 0, pcWriteTo = 0, pcTail = 0, pcReadFrom = 0,
               xMutexHolder = None, uxRecursiveCallCount = 0,
               xTasksWaitingToSend = [], xTasksWaitingToReceive = [],
               uxMessagesWaiting = 0, uxLength = uxQueueLength, uxItemSize = uxItemSz,
               q_storage = pucQueueStorage\<rparr>
      in bind_res (xQueueGenericReset q True) (\<lambda>(_, q'). Inr q'))"

definition xQueueGenericCreate :: "alloc \<Rightarrow> u32 \<Rightarrow> u32 \<Rightarrow> QueueHandle_t res" where
  "xQueueGenericCreate a uxQueueLength uxItemSz =
     (if 0 < uxQueueLength \<and> unat uxItemSz \<le> SIZE_MAX div unat uxQueueLength \<and>
         unat (uxQueueLength * uxItemSz) \<le> SIZE_MAX - sizeof_Queue_t
      then case a of
             None \<Rightarrow> Inr None
           | Some junk \<Rightarrow>
               bind_res (prvInitialiseNewQueue uxQueueLength uxItemSz
                           (map junk [0..<unat (uxQueueLength * uxItemSz)]))
                        (\<lambda>q. Inr (Some q))
      else Inl Assert_failed)"

section \<open>Sending\<close>

text \<open>
  A call that may block runs in passes: one pass either returns or leaves the task on an event
  list with the remaining ticks. The environment is the list of kernel and queue states the task
  finds each time it is resumed; a call that blocks with no state left has not returned.
\<close>

datatype 'r pass = Done 'r | Again TimeOut_t u32

type_synonym env = "(kernel \<times> Queue_t) list"

definition entry_time :: "kernel \<Rightarrow> TimeOut_t option \<Rightarrow> TimeOut_t" where
  "entry_time k xTimeOut = (case xTimeOut of None \<Rightarrow> vTaskInternalSetTimeOutState k | Some t \<Rightarrow> t)"

definition may_block :: "kernel \<Rightarrow> u32 \<Rightarrow> bool" where
  "may_block k xTicksToWait \<longleftrightarrow> \<not> (uxSchedulerSuspended k \<and> xTicksToWait \<noteq> 0)"

definition xQueueGenericSend_pass ::
  "kernel \<Rightarrow> Queue_t \<Rightarrow> u8 list option \<Rightarrow> u32 \<Rightarrow> TimeOut_t option \<Rightarrow> copy_position \<Rightarrow>
   (BaseType_t pass \<times> Queue_t \<times> kernel) res" where
  "xQueueGenericSend_pass k q pvItemToQueue xTicksToWait xTimeOut xCopyPosition =
     (if uxMessagesWaiting q < uxLength q \<or> xCopyPosition = queueOVERWRITE
      then bind_res (prvCopyDataToQueue k q pvItemToQueue xCopyPosition) (\<lambda>(_, q', k').
             Inr (Done pdPASS, wake_receiver q', k'))
      else if xTicksToWait = 0
      then Inr (Done errQUEUE_FULL, q, k)
      else bind_res (xTaskCheckForTimeOut k (entry_time k xTimeOut) xTicksToWait)
             (\<lambda>(expired, t, n, k').
             if expired then Inr (Done errQUEUE_FULL, q, k')
             else bind_res (vTaskPlaceOnEventList k' (xTasksWaitingToSend q)) (\<lambda>(l, k'').
                    Inr (Again t n, q\<lparr>xTasksWaitingToSend := l\<rparr>, k''))))"

fun xQueueGenericSend_loop ::
  "env \<Rightarrow> kernel \<Rightarrow> Queue_t \<Rightarrow> u8 list option \<Rightarrow> u32 \<Rightarrow> TimeOut_t option \<Rightarrow> copy_position \<Rightarrow>
   (BaseType_t \<times> Queue_t \<times> kernel) res" where
  "xQueueGenericSend_loop e k q p n t pos =
     bind_res (xQueueGenericSend_pass k q p n t pos) (\<lambda>(r, q', k').
       case r of
         Done b \<Rightarrow> Inr (b, q', k')
       | Again t' n' \<Rightarrow>
           (case e of
              [] \<Rightarrow> Inl Blocked_forever
            | (ke, qe) # e' \<Rightarrow> xQueueGenericSend_loop e' ke qe p n' (Some t') pos))"

declare xQueueGenericSend_loop.simps [simp del]

definition xQueueGenericSend ::
  "env \<Rightarrow> kernel \<Rightarrow> QueueHandle_t \<Rightarrow> u8 list option \<Rightarrow> u32 \<Rightarrow> copy_position \<Rightarrow>
   (BaseType_t \<times> Queue_t \<times> kernel) res" where
  "xQueueGenericSend e k xQueue pvItemToQueue xTicksToWait xCopyPosition =
     (case xQueue of
        None \<Rightarrow> Inl Assert_failed
      | Some q \<Rightarrow>
          assert_res (\<not> (pvItemToQueue = None \<and> uxItemSize q \<noteq> 0))
          (assert_res (\<not> (xCopyPosition = queueOVERWRITE \<and> uxLength q \<noteq> 1))
           (assert_res (may_block k xTicksToWait)
            (xQueueGenericSend_loop e k q pvItemToQueue xTicksToWait None xCopyPosition))))"

definition xQueueGenericSendFromISR ::
  "kernel \<Rightarrow> QueueHandle_t \<Rightarrow> u8 list option \<Rightarrow> copy_position \<Rightarrow>
   (BaseType_t \<times> Queue_t \<times> kernel) res" where
  "xQueueGenericSendFromISR k xQueue pvItemToQueue xCopyPosition =
     (case xQueue of
        None \<Rightarrow> Inl Assert_failed
      | Some q \<Rightarrow>
          assert_res (\<not> (pvItemToQueue = None \<and> uxItemSize q \<noteq> 0))
          (assert_res (\<not> (xCopyPosition = queueOVERWRITE \<and> uxLength q \<noteq> 1))
           (if uxMessagesWaiting q < uxLength q \<or> xCopyPosition = queueOVERWRITE
            then bind_res (prvCopyDataToQueue k q pvItemToQueue xCopyPosition) (\<lambda>(_, q', k').
                   Inr (pdPASS, wake_receiver q', k'))
            else Inr (errQUEUE_FULL, q, k))))"

definition xQueueGiveFromISR :: "QueueHandle_t \<Rightarrow> (BaseType_t \<times> Queue_t) res" where
  "xQueueGiveFromISR xQueue =
     (case xQueue of
        None \<Rightarrow> Inl Assert_failed
      | Some q \<Rightarrow>
          assert_res (uxItemSize q = 0)
          (assert_res (\<not> (is_mutex q \<and> xMutexHolder q \<noteq> None))
           (if uxMessagesWaiting q < uxLength q
            then Inr (pdPASS, wake_receiver (q\<lparr>uxMessagesWaiting := uxMessagesWaiting q + 1\<rparr>))
            else Inr (errQUEUE_FULL, q))))"

section \<open>Receiving\<close>

definition xQueueReceive_pass ::
  "kernel \<Rightarrow> Queue_t \<Rightarrow> u32 \<Rightarrow> TimeOut_t option \<Rightarrow>
   ((BaseType_t \<times> u8 list) pass \<times> Queue_t \<times> kernel) res" where
  "xQueueReceive_pass k q xTicksToWait xTimeOut =
     (if 0 < uxMessagesWaiting q
      then bind_res (prvCopyDataFromQueue q) (\<lambda>(bs, q').
             Inr (Done (pdPASS, bs),
                  wake_sender (q'\<lparr>uxMessagesWaiting := uxMessagesWaiting q - 1\<rparr>), k))
      else if xTicksToWait = 0
      then Inr (Done (errQUEUE_EMPTY, []), q, k)
      else bind_res (xTaskCheckForTimeOut k (entry_time k xTimeOut) xTicksToWait)
             (\<lambda>(expired, t, n, k').
             if expired then Inr (Done (errQUEUE_EMPTY, []), q, k')
             else bind_res (vTaskPlaceOnEventList k' (xTasksWaitingToReceive q)) (\<lambda>(l, k'').
                    Inr (Again t n, q\<lparr>xTasksWaitingToReceive := l\<rparr>, k''))))"

fun xQueueReceive_loop ::
  "env \<Rightarrow> kernel \<Rightarrow> Queue_t \<Rightarrow> u32 \<Rightarrow> TimeOut_t option \<Rightarrow>
   (BaseType_t \<times> u8 list \<times> Queue_t \<times> kernel) res" where
  "xQueueReceive_loop e k q n t =
     bind_res (xQueueReceive_pass k q n t) (\<lambda>(r, q', k').
       case r of
         Done (b, bs) \<Rightarrow> Inr (b, bs, q', k')
       | Again t' n' \<Rightarrow>
           (case e of
              [] \<Rightarrow> Inl Blocked_forever
            | (ke, qe) # e' \<Rightarrow> xQueueReceive_loop e' ke qe n' (Some t')))"

declare xQueueReceive_loop.simps [simp del]

text \<open>The caller's buffer is not null; the bytes written to it are returned.\<close>

definition xQueueReceive ::
  "env \<Rightarrow> kernel \<Rightarrow> QueueHandle_t \<Rightarrow> u32 \<Rightarrow> (BaseType_t \<times> u8 list \<times> Queue_t \<times> kernel) res" where
  "xQueueReceive e k xQueue xTicksToWait =
     (case xQueue of
        None \<Rightarrow> Inl Assert_failed
      | Some q \<Rightarrow>
          assert_res (may_block k xTicksToWait) (xQueueReceive_loop e k q xTicksToWait None))"

section \<open>Taking semaphores and mutexes\<close>

definition prvGetDisinheritPriorityAfterTimeout :: "kernel \<Rightarrow> Queue_t \<Rightarrow> u32" where
  "prvGetDisinheritPriorityAfterTimeout k q =
     (case xTasksWaitingToReceive q of
        [] \<Rightarrow> 0
      | t # _ \<Rightarrow> configMAX_PRIORITIES - xEventListItem (tcbs k t))"

text \<open>The flag carried from pass to pass is \<^verbatim>\<open>xInheritanceOccurred\<close>.\<close>

definition xQueueSemaphoreTake_pass ::
  "kernel \<Rightarrow> Queue_t \<Rightarrow> u32 \<Rightarrow> TimeOut_t option \<Rightarrow> bool \<Rightarrow>
   (BaseType_t pass \<times> bool \<times> Queue_t \<times> kernel) res" where
  "xQueueSemaphoreTake_pass k q xTicksToWait xTimeOut inh =
     (if 0 < uxMessagesWaiting q
      then let q1 = q\<lparr>uxMessagesWaiting := uxMessagesWaiting q - 1\<rparr>;
               (q2, k2) = (if is_mutex q1
                           then let (h, k') = pvTaskIncrementMutexHeldCount k
                                in (q1\<lparr>xMutexHolder := h\<rparr>, k')
                           else (q1, k))
           in Inr (Done pdPASS, inh, wake_sender q2, k2)
      else if xTicksToWait = 0
      then Inr (Done errQUEUE_EMPTY, inh, q, k)
      else bind_res (xTaskCheckForTimeOut k (entry_time k xTimeOut) xTicksToWait)
             (\<lambda>(expired, t, n, k').
             if \<not> expired
             then bind_res (if is_mutex q then xTaskPriorityInherit k' (xMutexHolder q)
                            else Inr (inh, k')) (\<lambda>(inh', k2).
                  bind_res (vTaskPlaceOnEventList k2 (xTasksWaitingToReceive q)) (\<lambda>(l, k3).
                    Inr (Again t n, inh', q\<lparr>xTasksWaitingToReceive := l\<rparr>, k3)))
             else bind_res (if inh
                            then vTaskPriorityDisinheritAfterTimeout k' (xMutexHolder q)
                                   (prvGetDisinheritPriorityAfterTimeout k' q)
                            else Inr k') (\<lambda>k2.
                    Inr (Done errQUEUE_EMPTY, inh, q, k2))))"

fun xQueueSemaphoreTake_loop ::
  "env \<Rightarrow> kernel \<Rightarrow> Queue_t \<Rightarrow> u32 \<Rightarrow> TimeOut_t option \<Rightarrow> bool \<Rightarrow>
   (BaseType_t \<times> Queue_t \<times> kernel) res" where
  "xQueueSemaphoreTake_loop e k q n t inh =
     bind_res (xQueueSemaphoreTake_pass k q n t inh) (\<lambda>(r, inh', q', k').
       case r of
         Done b \<Rightarrow> Inr (b, q', k')
       | Again t' n' \<Rightarrow>
           (case e of
              [] \<Rightarrow> Inl Blocked_forever
            | (ke, qe) # e' \<Rightarrow> xQueueSemaphoreTake_loop e' ke qe n' (Some t') inh'))"

declare xQueueSemaphoreTake_loop.simps [simp del]

definition xQueueSemaphoreTake ::
  "env \<Rightarrow> kernel \<Rightarrow> QueueHandle_t \<Rightarrow> u32 \<Rightarrow> (BaseType_t \<times> Queue_t \<times> kernel) res" where
  "xQueueSemaphoreTake e k xQueue xTicksToWait =
     (case xQueue of
        None \<Rightarrow> Inl Assert_failed
      | Some q \<Rightarrow>
          assert_res (uxItemSize q = 0)
          (assert_res (may_block k xTicksToWait)
           (xQueueSemaphoreTake_loop e k q xTicksToWait None False)))"

section \<open>Mutexes\<close>

definition prvInitialiseMutex :: "kernel \<Rightarrow> QueueHandle_t \<Rightarrow> (QueueHandle_t \<times> kernel) res" where
  "prvInitialiseMutex k pxNewQueue =
     (case pxNewQueue of
        None \<Rightarrow> Inr (None, k)
      | Some q \<Rightarrow>
          bind_res (xQueueGenericSend [] k
                      (Some (q\<lparr>xMutexHolder := None, pcHead := None, uxRecursiveCallCount := 0\<rparr>))
                      None 0 queueSEND_TO_BACK)
            (\<lambda>(_, q', k'). Inr (Some q', k')))"

definition xQueueCreateMutex :: "alloc \<Rightarrow> kernel \<Rightarrow> (QueueHandle_t \<times> kernel) res" where
  "xQueueCreateMutex a k =
     bind_res (xQueueGenericCreate a 1 0) (\<lambda>h. prvInitialiseMutex k h)"

definition uxQueueMessagesWaiting :: "QueueHandle_t \<Rightarrow> u32 res" where
  "uxQueueMessagesWaiting xQueue =
     (case xQueue of None \<Rightarrow> Inl Assert_failed | Some q \<Rightarrow> Inr (uxMessagesWaiting q))"

definition uxQueueSpacesAvailable :: "QueueHandle_t \<Rightarrow> u32 res" where
  "uxQueueSpacesAvailable xQueue =
     (case xQueue of
        None \<Rightarrow> Inl Assert_failed
      | Some q \<Rightarrow> Inr (uxLength q - uxMessagesWaiting q))"

section \<open>The circular buffer as a bounded list\<close>

definition ridx :: "Queue_t \<Rightarrow> nat" where
  "ridx q = nat (pcReadFrom q) div isz q"

definition queue_inv :: "Queue_t \<Rightarrow> bool" where
  "queue_inv q \<longleftrightarrow>
     0 < isz q \<and> 0 < qlen q \<and> qcnt q \<le> qlen q \<and> pcHead q = Some 0 \<and>
     pcTail q = int (qlen q * isz q) \<and> length (q_storage q) = qlen q * isz q \<and>
     ridx q < qlen q \<and> pcReadFrom q = int (ridx q * isz q) \<and>
     pcWriteTo q = int (((ridx q + 1 + qcnt q) mod qlen q) * isz q)"

definition q_slot :: "Queue_t \<Rightarrow> nat \<Rightarrow> u8 list" where
  "q_slot q i = chunk (isz q) (q_storage q) ((ridx q + 1 + i) mod qlen q)"

definition q_items :: "Queue_t \<Rightarrow> u8 list list" where
  "q_items q = map (q_slot q) [0..<qcnt q]"

lemma length_q_items [simp]: "length (q_items q) = qcnt q"
  by (simp add: q_items_def)

lemma uint_item_size: "uint (uxItemSize q) = int (isz q)"
  by (simp add: isz_def)

lemma isz_pos_iff: "0 < isz q \<longleftrightarrow> uxItemSize q \<noteq> 0"
  by (simp add: isz_def unat_gt_0)

lemma cnt_less_iff: "uxMessagesWaiting q < uxLength q \<longleftrightarrow> qcnt q < qlen q"
  by (simp add: qcnt_def qlen_def word_less_nat_alt)

lemma cnt_pos_iff: "0 < uxMessagesWaiting q \<longleftrightarrow> 0 < qcnt q"
  by (simp add: qcnt_def word_less_nat_alt)

lemma cnt_Suc: "qcnt q < qlen q \<Longrightarrow> unat (uxMessagesWaiting q + 1) = Suc (qcnt q)"
proof -
  assume "qcnt q < qlen q"
  moreover have "unat (uxLength q) < 2 ^ LENGTH(32)" by (rule unsigned_less)
  ultimately show ?thesis by (simp add: qcnt_def qlen_def unat_word_ariths)
qed

lemma cnt_pred: "0 < qcnt q \<Longrightarrow> unat (uxMessagesWaiting q - 1) = qcnt q - 1"
  unfolding qcnt_def by (simp add: unat_gt_0 unat_minus_one)

lemmas queue_word_simps = uint_item_size cnt_less_iff cnt_pos_iff

lemma ring_advance:
  fixes L :: nat
  assumes "w < L" and "0 < z"
  shows "(if int (L * z) \<le> int (w * z) + int z then 0 else int (w * z) + int z)
         = int ((Suc w mod L) * z)"
proof (cases "Suc w = L")
  case True
  then have "L * z = w * z + z" by auto
  with True show ?thesis by simp
next
  case False
  with assms(1) have lt: "Suc w < L" by simp
  with assms(2) have "w * z + z < L * z"
    using mult_less_mono1 [OF lt, of z] by simp
  then have "\<not> int (L * z) \<le> int (w * z) + int z"
    by (metis not_less of_nat_add of_nat_less_iff)
  with lt show ?thesis by (simp add: algebra_simps)
qed

lemma ring_retreat:
  fixes L :: nat
  assumes "r < L" and "0 < z"
  shows "(if int (r * z) - int z < 0 then int (L * z) - int z else int (r * z) - int z)
         = int ((if r = 0 then L - 1 else r - 1) * z)"
proof (cases r)
  case 0
  from assms(1) obtain m where "L = Suc m" by (cases L) auto
  with 0 assms(2) show ?thesis by simp
next
  case (Suc m)
  then show ?thesis by (simp add: mult_less_0_iff)
qed

section \<open>Each operation on the list of items\<close>

lemma head_zero: "pcHead q = Some 0 \<Longrightarrow> head_off q = 0"
  by (simp add: head_off_def)

lemma ridx_of: "0 < isz q \<Longrightarrow> pcReadFrom q = int (r * isz q) \<Longrightarrow> ridx q = r"
  by (simp add: ridx_def nat_mult_distrib)

lemma wake_receiver_frame [simp]:
  "isz (wake_receiver q) = isz q" "qlen (wake_receiver q) = qlen q"
  "qcnt (wake_receiver q) = qcnt q" "ridx (wake_receiver q) = ridx q"
  "q_items (wake_receiver q) = q_items q" "queue_inv (wake_receiver q) = queue_inv q"
  by (auto simp: wake_receiver_def isz_def qlen_def qcnt_def ridx_def q_items_def q_slot_def
      queue_inv_def)

lemma wake_sender_frame [simp]:
  "isz (wake_sender q) = isz q" "qlen (wake_sender q) = qlen q"
  "qcnt (wake_sender q) = qcnt q" "ridx (wake_sender q) = ridx q"
  "q_items (wake_sender q) = q_items q" "queue_inv (wake_sender q) = queue_inv q"
  by (auto simp: wake_sender_def isz_def qlen_def qcnt_def ridx_def q_items_def q_slot_def
      queue_inv_def)

text \<open>What appending an item at the write pointer leaves behind.\<close>

definition q_push_back :: "Queue_t \<Rightarrow> u8 list \<Rightarrow> Queue_t" where
  "q_push_back q bs =
     q\<lparr>q_storage := chunk_update (isz q) (q_storage q) ((ridx q + 1 + qcnt q) mod qlen q) bs,
       pcWriteTo := int (((ridx q + 1 + Suc (qcnt q)) mod qlen q) * isz q),
       uxMessagesWaiting := uxMessagesWaiting q + 1\<rparr>"

lemma copy_to_back:
  assumes "queue_inv q" and "length bs = isz q"
  shows "prvCopyDataToQueue k q (Some bs) queueSEND_TO_BACK = Inr (False, q_push_back q bs, k)"
proof -
  let ?w = "(ridx q + 1 + qcnt q) mod qlen q"
  from assms have inv: "0 < isz q" "0 < qlen q" "pcHead q = Some 0"
    "pcTail q = int (qlen q * isz q)" "length (q_storage q) = qlen q * isz q"
    "pcWriteTo q = int (?w * isz q)" by (auto simp: queue_inv_def)
  have w: "?w < qlen q" using inv(2) by simp
  have item: "item_bytes q (Some bs) = Inr bs"
    using assms(2) by (simp add: item_bytes_def mem_read_def)
  have next_w: "Suc ?w mod qlen q = (ridx q + 1 + Suc (qcnt q)) mod qlen q"
    by (simp add: mod_Suc_eq)
  have ptr: "(if pcTail q \<le> pcWriteTo q + uint (uxItemSize q) then head_off q
              else pcWriteTo q + uint (uxItemSize q)) = int ((Suc ?w mod qlen q) * isz q)"
    unfolding inv(4,6) head_zero [OF inv(3)] uint_item_size by (rule ring_advance [OF w inv(1)])
  have wr: "mem_write (q_storage q) (pcWriteTo q) bs =
            Inr (chunk_update (isz q) (q_storage q) ?w bs)"
    unfolding inv(6) by (rule mem_write_chunk [OF assms(2) w inv(5)])
  have "uxItemSize q \<noteq> 0" using inv(1) by (simp add: isz_pos_iff)
  then show ?thesis
    unfolding prvCopyDataToQueue_def Let_def ptr item next_w by (simp add: wr q_push_back_def)
qed

lemma push_back_frame:
  "isz (q_push_back q bs) = isz q" "qlen (q_push_back q bs) = qlen q"
  "ridx (q_push_back q bs) = ridx q" "pcReadFrom (q_push_back q bs) = pcReadFrom q"
  "pcHead (q_push_back q bs) = pcHead q" "pcTail (q_push_back q bs) = pcTail q"
  by (auto simp: q_push_back_def isz_def qlen_def ridx_def)

lemma push_back_cnt: "qcnt q < qlen q \<Longrightarrow> qcnt (q_push_back q bs) = Suc (qcnt q)"
  using cnt_Suc [of q] by (simp add: q_push_back_def qcnt_def)

lemma push_back_inv:
  assumes "queue_inv q" and "length bs = isz q" and "qcnt q < qlen q"
  shows "queue_inv (q_push_back q bs)"
proof -
  from assms(1) have inv: "0 < qlen q" "length (q_storage q) = qlen q * isz q"
    by (auto simp: queue_inv_def)
  then have "length (q_storage (q_push_back q bs)) = qlen q * isz q"
    using chunk_update_length [OF assms(2) mod_less_divisor [OF inv(1)]]
    by (simp add: q_push_back_def)
  moreover have "pcWriteTo (q_push_back q bs) = int (((ridx q + 1 + Suc (qcnt q)) mod qlen q) * isz q)"
    by (simp add: q_push_back_def)
  ultimately show ?thesis
    using assms(1,3) push_back_cnt [OF assms(3), of bs]
    unfolding queue_inv_def push_back_frame by simp
qed

lemma push_back_items:
  assumes "queue_inv q" and "length bs = isz q" and "qcnt q < qlen q"
  shows "q_items (q_push_back q bs) = q_items q @ [bs]"
proof -
  let ?w = "(ridx q + 1 + qcnt q) mod qlen q"
  from assms(1) have inv: "0 < qlen q" "length (q_storage q) = qlen q * isz q"
    by (auto simp: queue_inv_def)
  note upd = assms(2) mod_less_divisor [OF inv(1), of "ridx q + 1 + qcnt q"] inv(2)
  have st: "q_storage (q_push_back q bs) = chunk_update (isz q) (q_storage q) ?w bs"
    by (simp add: q_push_back_def)
  have "q_slot (q_push_back q bs) i = q_slot q i" if "i < qcnt q" for i
    using chunk_update_other [OF upd ring_index_distinct [OF that assms(3)]]
    by (simp only: q_slot_def push_back_frame st)
  moreover have "q_slot (q_push_back q bs) (qcnt q) = bs"
    using chunk_update_same [OF upd] by (simp only: q_slot_def push_back_frame st)
  ultimately show ?thesis
    by (simp add: q_items_def push_back_cnt [OF assms(3)])
qed

text \<open>What taking the oldest item leaves behind.\<close>

definition q_pop :: "Queue_t \<Rightarrow> Queue_t" where
  "q_pop q = q\<lparr>pcReadFrom := int ((Suc (ridx q) mod qlen q) * isz q),
               uxMessagesWaiting := uxMessagesWaiting q - 1\<rparr>"

lemma copy_from:
  assumes "queue_inv q" and "0 < qcnt q"
  shows "prvCopyDataFromQueue q =
         Inr (hd (q_items q), q\<lparr>pcReadFrom := int ((Suc (ridx q) mod qlen q) * isz q)\<rparr>)"
proof -
  let ?r = "Suc (ridx q) mod qlen q"
  from assms(1) have inv: "0 < isz q" "0 < qlen q" "pcHead q = Some 0" "ridx q < qlen q"
    "pcTail q = int (qlen q * isz q)" "length (q_storage q) = qlen q * isz q"
    "pcReadFrom q = int (ridx q * isz q)" by (auto simp: queue_inv_def)
  have r: "?r < qlen q" using inv(2) by simp
  have ptr: "(if pcTail q \<le> pcReadFrom q + uint (uxItemSize q) then head_off q
              else pcReadFrom q + uint (uxItemSize q)) = int (?r * isz q)"
    unfolding inv(5,7) head_zero [OF inv(3)] uint_item_size by (rule ring_advance [OF inv(4,1)])
  have "hd (q_items q) = chunk (isz q) (q_storage q) ?r"
    using assms(2) by (simp add: q_items_def q_slot_def hd_map upt_conv_Cons)
  moreover have "uxItemSize q \<noteq> 0" using inv(1) by (simp add: isz_pos_iff)
  ultimately show ?thesis
    unfolding prvCopyDataFromQueue_def Let_def ptr mem_read_chunk [OF r inv(6)] by simp
qed

lemma pop_frame:
  "isz (q_pop q) = isz q" "qlen (q_pop q) = qlen q" "pcHead (q_pop q) = pcHead q"
  "pcTail (q_pop q) = pcTail q" "q_storage (q_pop q) = q_storage q"
  "pcWriteTo (q_pop q) = pcWriteTo q"
  by (auto simp: q_pop_def isz_def qlen_def)

lemma pop_cnt: "0 < qcnt q \<Longrightarrow> qcnt (q_pop q) = qcnt q - 1"
  using cnt_pred [of q] by (simp add: q_pop_def qcnt_def)

lemma pop_readfrom: "pcReadFrom (q_pop q) = int ((Suc (ridx q) mod qlen q) * isz q)"
  by (simp add: q_pop_def)

lemma pop_ridx: "queue_inv q \<Longrightarrow> ridx (q_pop q) = Suc (ridx q) mod qlen q"
  by (rule ridx_of) (simp_all add: queue_inv_def pop_frame pop_readfrom)

lemma pop_inv:
  assumes "queue_inv q" and "0 < qcnt q"
  shows "queue_inv (q_pop q)"
proof -
  have "(Suc (ridx q) mod qlen q + 1 + (qcnt q - 1)) mod qlen q = (ridx q + 1 + qcnt q) mod qlen q"
    using assms(2) mod_add_left_eq [of "Suc (ridx q)" "qlen q" "1 + (qcnt q - 1)"]
    by (simp add: add.assoc)
  then show ?thesis
    using assms pop_cnt [OF assms(2)]
    unfolding queue_inv_def pop_frame pop_ridx [OF assms(1)] pop_readfrom by auto
qed

lemma pop_items:
  assumes "queue_inv q" and "0 < qcnt q"
  shows "q_items (q_pop q) = tl (q_items q)"
proof -
  obtain n where n: "qcnt q = Suc n" using assms(2) by (cases "qcnt q") auto
  have "q_slot (q_pop q) i = q_slot q (Suc i)" for i
  proof -
    have "(Suc (ridx q) mod qlen q + 1 + i) mod qlen q = (ridx q + 1 + Suc i) mod qlen q"
      using mod_add_left_eq [of "Suc (ridx q)" "qlen q" "1 + i"] by (simp add: add.assoc)
    then show ?thesis by (simp only: q_slot_def pop_frame pop_ridx [OF assms(1)])
  qed
  moreover have "[0..<Suc n] = 0 # map Suc [0..<n]"
    by (simp add: map_Suc_upt upt_conv_Cons del: upt_Suc)
  ultimately show ?thesis
    by (simp add: q_items_def pop_cnt [OF assms(2)] n del: upt_Suc)
qed

section \<open>Interface: a bounded first-in-first-out queue\<close>

text \<open>Sending a list of items one by one, and receiving a number of them.\<close>

fun send_all :: "('q \<Rightarrow> 'i \<Rightarrow> 'q option) \<Rightarrow> 'q \<Rightarrow> 'i list \<Rightarrow> 'q option" where
  "send_all send q [] = Some q"
| "send_all send q (x # xs) = (case send q x of None \<Rightarrow> None | Some q' \<Rightarrow> send_all send q' xs)"

fun recv_all :: "('q \<Rightarrow> ('i \<times> 'q) option) \<Rightarrow> nat \<Rightarrow> 'q \<Rightarrow> 'i list" where
  "recv_all recv 0 q = []"
| "recv_all recv (Suc n) q = (case recv q of None \<Rightarrow> [] | Some (x, q') \<Rightarrow> x # recv_all recv n q')"

text \<open>
  What a client of a queue relies on: an accepted item goes to the back, a full queue refuses,
  the front item comes out first, an empty queue gives nothing, and every operation keeps the
  invariant and the capacity.
\<close>

locale bounded_fifo =
  fixes invar :: "'q \<Rightarrow> bool"
    and items :: "'q \<Rightarrow> 'i list"
    and capacity :: "'q \<Rightarrow> nat"
    and valid :: "'q \<Rightarrow> 'i \<Rightarrow> bool"
    and send :: "'q \<Rightarrow> 'i \<Rightarrow> 'q option"
    and recv :: "'q \<Rightarrow> ('i \<times> 'q) option"
  assumes send_room: "invar q \<Longrightarrow> valid q x \<Longrightarrow> length (items q) < capacity q \<Longrightarrow>
      \<exists>q'. send q x = Some q' \<and> invar q' \<and> items q' = items q @ [x] \<and>
           capacity q' = capacity q \<and> valid q' = valid q"
    and send_full: "invar q \<Longrightarrow> length (items q) = capacity q \<Longrightarrow> send q x = None"
    and recv_some: "invar q \<Longrightarrow> items q \<noteq> [] \<Longrightarrow>
      \<exists>q'. recv q = Some (hd (items q), q') \<and> invar q' \<and> items q' = tl (items q) \<and>
           capacity q' = capacity q \<and> valid q' = valid q"
    and recv_none: "invar q \<Longrightarrow> items q = [] \<Longrightarrow> recv q = None"
begin

lemma send_all_items:
  assumes "invar q" and "\<forall>x \<in> set xs. valid q x" and "length (items q) + length xs \<le> capacity q"
  shows "\<exists>q'. send_all send q xs = Some q' \<and> invar q' \<and> items q' = items q @ xs"
  using assms
proof (induction xs arbitrary: q)
  case Nil
  then show ?case by simp
next
  case (Cons x xs)
  from Cons.prems have "valid q x" and "length (items q) < capacity q" by auto
  with Cons.prems(1) obtain q' where q': "send q x = Some q'" "invar q'"
    "items q' = items q @ [x]" "capacity q' = capacity q" "valid q' = valid q"
    using send_room by blast
  with Cons.prems have "\<exists>q''. send_all send q' xs = Some q'' \<and> invar q'' \<and> items q'' = items q' @ xs"
    by (intro Cons.IH) auto
  with q' show ?case by auto
qed

lemma recv_all_items: "invar q \<Longrightarrow> recv_all recv (length (items q)) q = items q"
proof (induction "items q" arbitrary: q)
  case Nil
  then show ?case by simp
next
  case (Cons x xs)
  have "items q \<noteq> []" using Cons.hyps(2) by auto
  with Cons.prems obtain q' where q': "recv q = Some (hd (items q), q')" "invar q'"
    "items q' = tl (items q)" using recv_some by blast
  from q'(2,3) Cons.hyps have "recv_all recv (length (items q')) q' = items q'"
    by (metis list.sel(3))
  moreover have "length (items q) = Suc (length (items q'))" and "items q = x # items q'"
    using q'(3) Cons.hyps(2) by (metis list.sel(3) length_Cons, metis list.sel(3))
  ultimately show ?case using q'(1) by (metis (no_types, lifting) list.sel(1) option.simps(5)
        prod.simps(2) recv_all.simps(2))
qed

text \<open>What is sent to an empty queue within its capacity comes out whole and in order.\<close>

lemma fifo:
  assumes "invar q" and "items q = []" and "\<forall>x \<in> set xs. valid q x" and "length xs \<le> capacity q"
  shows "\<exists>q'. send_all send q xs = Some q' \<and> recv_all recv (length xs) q' = xs"
  using send_all_items [OF assms(1,3)] assms(2,4) recv_all_items by fastforce

end

section \<open>Non-blocking use of a queue\<close>

definition queue_send0 :: "kernel \<Rightarrow> Queue_t \<Rightarrow> u8 list \<Rightarrow> Queue_t option" where
  "queue_send0 k q bs =
     (case xQueueGenericSend [] k (Some q) (Some bs) 0 queueSEND_TO_BACK of
        Inr (r, q', _) \<Rightarrow> if r = pdPASS then Some q' else None
      | Inl _ \<Rightarrow> None)"

definition queue_receive0 :: "kernel \<Rightarrow> Queue_t \<Rightarrow> (u8 list \<times> Queue_t) option" where
  "queue_receive0 k q =
     (case xQueueReceive [] k (Some q) 0 of
        Inr (r, bs, q', _) \<Rightarrow> if r = pdPASS then Some (bs, q') else None
      | Inl _ \<Rightarrow> None)"

lemma send_pass_room:
  assumes "queue_inv q" and "length bs = isz q" and "qcnt q < qlen q"
  shows "xQueueGenericSend_pass k q (Some bs) n t queueSEND_TO_BACK =
         Inr (Done pdPASS, wake_receiver (q_push_back q bs), k)"
  using assms by (simp add: xQueueGenericSend_pass_def copy_to_back cnt_less_iff)

lemma send_room_eq:
  assumes "queue_inv q" and "length bs = isz q" and "qcnt q < qlen q" and "may_block k n"
  shows "xQueueGenericSend e k (Some q) (Some bs) n queueSEND_TO_BACK =
         Inr (pdPASS, wake_receiver (q_push_back q bs), k)"
  using assms send_pass_room [OF assms(1-3)]
  by (simp add: xQueueGenericSend_def xQueueGenericSend_loop.simps)

lemma send_full_eq:
  assumes "queue_inv q" and "qcnt q = qlen q"
  shows "xQueueGenericSend e k (Some q) (Some bs) 0 queueSEND_TO_BACK = Inr (errQUEUE_FULL, q, k)"
  using assms by (simp add: xQueueGenericSend_def xQueueGenericSend_loop.simps may_block_def
      xQueueGenericSend_pass_def cnt_less_iff)

lemma receive_some_eq:
  assumes "queue_inv q" and "0 < qcnt q" and "may_block k n"
  shows "xQueueReceive e k (Some q) n =
         Inr (pdPASS, hd (q_items q), wake_sender (q_pop q), k)"
  using assms copy_from [OF assms(1,2)]
  by (simp add: xQueueReceive_def xQueueReceive_loop.simps xQueueReceive_pass_def cnt_pos_iff
      q_pop_def)

lemma receive_empty_eq:
  assumes "qcnt q = 0"
  shows "xQueueReceive e k (Some q) 0 = Inr (errQUEUE_EMPTY, [], q, k)"
  using assms by (simp add: xQueueReceive_def xQueueReceive_loop.simps xQueueReceive_pass_def
      cnt_pos_iff may_block_def)

text \<open>An interrupt handler appends if there is room, and otherwise drops the item.\<close>

lemma isr_send_items:
  assumes "queue_inv q" and "length bs = isz q"
  shows "\<exists>r q'. xQueueGenericSendFromISR k (Some q) (Some bs) queueSEND_TO_BACK = Inr (r, q', k) \<and> queue_inv q' \<and>
    qlen q' = qlen q \<and> isz q' = isz q \<and> q_items q' = q_items q @ (if qcnt q < qlen q then [bs] else [])"
proof (cases "qcnt q < qlen q")
  case True
  with assms show ?thesis
    by (simp add: xQueueGenericSendFromISR_def copy_to_back cnt_less_iff push_back_inv push_back_items push_back_frame)
next
  case False
  with assms show ?thesis by (simp add: xQueueGenericSendFromISR_def cnt_less_iff)
qed

lemmas queue_call_eqs = send_room_eq send_full_eq receive_some_eq receive_empty_eq

lemma may_block_0 [simp]: "may_block k 0"
  by (simp add: may_block_def)

interpretation queue_fifo: bounded_fifo queue_inv q_items qlen "\<lambda>q bs. length bs = isz q"
  "queue_send0 k" "queue_receive0 k" for k
proof unfold_locales
  fix q :: Queue_t and x :: "u8 list"
  assume "queue_inv q" "length x = isz q" "length (q_items q) < qlen q"
  then show "\<exists>q'. queue_send0 k q x = Some q' \<and> queue_inv q' \<and> q_items q' = q_items q @ [x] \<and>
      qlen q' = qlen q \<and> (\<lambda>bs. length bs = isz q') = (\<lambda>bs. length bs = isz q)"
    by (simp add: queue_send0_def send_room_eq push_back_inv push_back_items push_back_frame)
next
  fix q :: Queue_t and x :: "u8 list"
  assume "queue_inv q" "length (q_items q) = qlen q"
  then show "queue_send0 k q x = None"
    by (simp add: queue_send0_def send_full_eq basetype_defs)
next
  fix q :: Queue_t
  assume "queue_inv q" "q_items q \<noteq> []"
  then have "queue_inv q" and "0 < qcnt q" by (auto simp flip: length_q_items)
  then show "\<exists>q'. queue_receive0 k q = Some (hd (q_items q), q') \<and> queue_inv q' \<and>
      q_items q' = tl (q_items q) \<and> qlen q' = qlen q \<and>
      (\<lambda>bs. length bs = isz q') = (\<lambda>bs. length bs = isz q)"
    by (simp add: queue_receive0_def receive_some_eq pop_inv pop_items pop_frame)
next
  fix q :: Queue_t
  assume "q_items q = []"
  then have "qcnt q = 0" by (simp flip: length_q_items)
  then show "queue_receive0 k q = None"
    by (simp add: queue_receive0_def receive_empty_eq basetype_defs)
qed

section \<open>Interface: a lock around a critical section\<close>

text \<open>
  What a client of a mutex relies on: a free lock can be taken without waiting, and giving it
  back restores both the lock and the kernel.
\<close>

locale lock =
  fixes free :: "'k \<Rightarrow> 'h \<Rightarrow> bool"
    and take_lock :: "'k \<Rightarrow> 'h \<Rightarrow> ('h \<times> 'k) res"
    and give_lock :: "'k \<Rightarrow> 'h \<Rightarrow> ('h \<times> 'k) res"
  assumes cycle: "free k h \<Longrightarrow>
    \<exists>h' k'. take_lock k h = Inr (h', k') \<and> give_lock k' h' = Inr (h, k)"
begin

lemma critical_section:
  assumes "free k h"
  shows "bind_res (take_lock k h) (\<lambda>(h', k'). bind_res (give_lock k' h') f) = f (h, k)"
  using cycle [OF assms] by auto

lemma critical_section_twice:
  assumes "free k h"
  shows "bind_res (take_lock k h) (\<lambda>(h', k'). bind_res (give_lock k' h') (\<lambda>(h2, k2).
           bind_res (take_lock k2 h2) (\<lambda>(h3, k3). bind_res (give_lock k3 h3) f))) = f (h, k)"
  using critical_section [OF assms] by (simp add: critical_section assms)

end

section \<open>Mutexes as the application uses them\<close>

definition xSemaphoreTake ::
  "env \<Rightarrow> kernel \<Rightarrow> QueueHandle_t \<Rightarrow> u32 \<Rightarrow> (BaseType_t \<times> QueueHandle_t \<times> kernel) res" where
  "xSemaphoreTake e k xSemaphore xBlockTime =
     bind_res (xQueueSemaphoreTake e k xSemaphore xBlockTime) (\<lambda>(r, q, k'). Inr (r, Some q, k'))"

definition xSemaphoreGive ::
  "kernel \<Rightarrow> QueueHandle_t \<Rightarrow> (BaseType_t \<times> QueueHandle_t \<times> kernel) res" where
  "xSemaphoreGive k xSemaphore =
     bind_res (xQueueGenericSend [] k xSemaphore None 0 queueSEND_TO_BACK)
       (\<lambda>(r, q, k'). Inr (r, Some q, k'))"

text \<open>Waiting for a mutex with \<^verbatim>\<open>portMAX_DELAY\<close> and ignoring the result, as every module does.\<close>

definition mutex_take :: "kernel \<Rightarrow> QueueHandle_t \<Rightarrow> (QueueHandle_t \<times> kernel) res" where
  "mutex_take k h = bind_res (xSemaphoreTake [] k h portMAX_DELAY) (\<lambda>(_, h', k'). Inr (h', k'))"

definition mutex_give :: "kernel \<Rightarrow> QueueHandle_t \<Rightarrow> (QueueHandle_t \<times> kernel) res" where
  "mutex_give k h = bind_res (xSemaphoreGive k h) (\<lambda>(_, h', k'). Inr (h', k'))"

definition free_mutex :: "Queue_t \<Rightarrow> bool" where
  "free_mutex q \<longleftrightarrow>
     pcHead q = None \<and> uxItemSize q = 0 \<and> uxLength q = 1 \<and> uxMessagesWaiting q = 1 \<and>
     xMutexHolder q = None \<and> xTasksWaitingToSend q = [] \<and> xTasksWaitingToReceive q = []"

text \<open>
  A task is running, may block, and runs at an inherited priority only while it holds a mutex.
\<close>

definition kernel_ok :: "kernel \<Rightarrow> bool" where
  "kernel_ok k \<longleftrightarrow> \<not> uxSchedulerSuspended k \<and>
     (case pxCurrentTCB k of
        None \<Rightarrow> False
      | Some t \<Rightarrow> uxMutexesHeld (tcbs k t) \<noteq> 0xFFFFFFFF \<and>
          (uxMutexesHeld (tcbs k t) = 0 \<longrightarrow> uxPriority (tcbs k t) = uxBasePriority (tcbs k t)))"

definition mutex_ready :: "kernel \<Rightarrow> QueueHandle_t \<Rightarrow> bool" where
  "mutex_ready k h \<longleftrightarrow> kernel_ok k \<and> (case h of None \<Rightarrow> False | Some q \<Rightarrow> free_mutex q)"

definition held_by :: "kernel \<Rightarrow> Queue_t \<Rightarrow> Queue_t" where
  "held_by k q = q\<lparr>uxMessagesWaiting := 0, xMutexHolder := pxCurrentTCB k\<rparr>"

lemma mutex_take_eq:
  assumes "mutex_ready k (Some q)" and "pxCurrentTCB k = Some t"
  shows "mutex_take k (Some q) =
    Inr (Some (held_by k q), upd_tcb t (\<lambda>b. b\<lparr>uxMutexesHeld := uxMutexesHeld b + 1\<rparr>) k)"
  using assms
  by (simp add: mutex_take_def xSemaphoreTake_def xQueueSemaphoreTake_def mutex_ready_def
      free_mutex_def kernel_ok_def may_block_def xQueueSemaphoreTake_loop.simps
      xQueueSemaphoreTake_pass_def is_mutex_def pvTaskIncrementMutexHeldCount_def
      wake_sender_def held_by_def)

lemma held_count_Suc_nz: "(w :: u32) \<noteq> 0xFFFFFFFF \<Longrightarrow> w + 1 \<noteq> 0"
  by (auto simp flip: eq_neg_iff_add_eq_0)

lemma mutex_give_eq:
  assumes "mutex_ready k (Some q)" and "pxCurrentTCB k = Some t"
  shows "mutex_give (upd_tcb t (\<lambda>b. b\<lparr>uxMutexesHeld := uxMutexesHeld b + 1\<rparr>) k)
           (Some (held_by k q)) = Inr (Some q, k)"
proof -
  from assms have nz: "uxMutexesHeld (tcbs k t) + 1 \<noteq> 0"
    and pri: "uxMutexesHeld (tcbs k t) = 0 \<longrightarrow> uxPriority (tcbs k t) = uxBasePriority (tcbs k t)"
    by (auto simp: mutex_ready_def kernel_ok_def held_count_Suc_nz)
  from assms(1) have q: "pcHead q = None" "uxItemSize q = 0" "uxLength q = 1"
    "uxMessagesWaiting q = 1" "xMutexHolder q = None" "xTasksWaitingToReceive q = []"
    by (auto simp: mutex_ready_def free_mutex_def)
  have restored: "q\<lparr>uxMessagesWaiting := 1, xMutexHolder := None\<rparr> = q"
    using q(4,5) by simp
  show ?thesis using assms(2) nz pri q restored
    by (auto simp: mutex_give_def xSemaphoreGive_def xQueueGenericSend_def may_block_def
        xQueueGenericSend_loop.simps xQueueGenericSend_pass_def prvCopyDataToQueue_def
        is_mutex_def held_by_def xTaskPriorityDisinherit_def upd_tcb_def wake_receiver_def Let_def)
qed

interpretation mutex: lock mutex_ready mutex_take mutex_give
proof unfold_locales
  fix k h
  assume r: "mutex_ready k h"
  then obtain q t where h: "h = Some q" and t: "pxCurrentTCB k = Some t"
    by (auto simp: mutex_ready_def kernel_ok_def split: option.splits)
  from r show "\<exists>h' k'. mutex_take k h = Inr (h', k') \<and> mutex_give k' h' = Inr (h, k)"
    using mutex_take_eq [OF _ t, of q] mutex_give_eq [OF _ t, of q] by (auto simp: h)
qed

text \<open>A free mutex is taken at once whatever the time limit; giving it back reports success.\<close>

lemma mutex_section:
  assumes "mutex_ready k h"
  shows "\<exists>h' k'. xSemaphoreTake e k h n = Inr (pdTRUE, h', k') \<and> xSemaphoreGive k' h' = Inr (pdPASS, h, k)"
proof -
  from assms obtain q t where h: "h = Some q" and t: "pxCurrentTCB k = Some t" and r: "mutex_ready k (Some q)"
    by (auto simp: mutex_ready_def kernel_ok_def split: option.splits)
  let ?k = "upd_tcb t (\<lambda>b. b\<lparr>uxMutexesHeld := uxMutexesHeld b + 1\<rparr>) k"
  have "xSemaphoreTake e k h n = Inr (pdTRUE, Some (held_by k q), ?k)"
    using r t h
    by (simp add: xSemaphoreTake_def xQueueSemaphoreTake_def mutex_ready_def free_mutex_def kernel_ok_def may_block_def
        xQueueSemaphoreTake_loop.simps xQueueSemaphoreTake_pass_def is_mutex_def pvTaskIncrementMutexHeldCount_def
        wake_sender_def held_by_def pdPASS_def)
  moreover have "\<exists>b. xSemaphoreGive ?k (Some (held_by k q)) = Inr (b, h, k)"
    using mutex_give_eq [OF r t] h by (auto simp: mutex_give_def bind_res_eq_Inr_iff)
  moreover have "b = pdPASS" if "xSemaphoreGive ?k (Some (held_by k q)) = Inr (b, h, k)" for b
    using that r
    by (auto simp: xSemaphoreGive_def xQueueGenericSend_def xQueueGenericSend_loop.simps xQueueGenericSend_pass_def
        held_by_def mutex_ready_def free_mutex_def bind_res_eq_Inr_iff may_block_def)
  ultimately show ?thesis by blast
qed

section \<open>Creation\<close>

lemma unat_mult_fits:
  assumes "unat z \<le> SIZE_MAX div unat (n :: u32)" and "0 < unat n"
  shows "unat (n * z) = unat n * unat z"
proof -
  have "unat n * unat z \<le> SIZE_MAX"
    using assms by (metis less_eq_div_iff_mult_less_eq mult.commute)
  then have "unat n * unat z < 2 ^ LENGTH(32)" by (simp add: SIZE_MAX_def)
  then show ?thesis by (simp add: unat_word_ariths)
qed

definition fresh_queue :: "(nat \<Rightarrow> u8) \<Rightarrow> u32 \<Rightarrow> u32 \<Rightarrow> Queue_t" where
  "fresh_queue junk n z =
     \<lparr>pcHead = Some 0, pcWriteTo = 0, pcTail = int (unat n * unat z),
      pcReadFrom = int ((unat n - 1) * unat z),
      xMutexHolder = None, uxRecursiveCallCount = 0,
      xTasksWaitingToSend = [], xTasksWaitingToReceive = [],
      uxMessagesWaiting = 0, uxLength = n, uxItemSize = z,
      q_storage = map junk [0..<unat n * unat z]\<rparr>"

definition create_ok :: "u32 \<Rightarrow> u32 \<Rightarrow> bool" where
  "create_ok n z \<longleftrightarrow> 0 < n \<and> unat z \<le> SIZE_MAX div unat n \<and>
     unat n * unat z \<le> SIZE_MAX - sizeof_Queue_t"

lemma create_eq:
  assumes "create_ok n z"
  shows "xQueueGenericCreate (Some junk) n z = Inr (Some (fresh_queue junk n z))"
proof -
  from assms have pos: "0 < unat n" by (simp add: create_ok_def unat_gt_0 word_neq_0_conv)
  have le: "1 \<le> n" using assms by (simp add: create_ok_def word_le_nat_alt word_less_nat_alt)
  from assms pos le show ?thesis
    by (simp add: create_ok_def xQueueGenericCreate_def unat_mult_fits prvInitialiseNewQueue_def
        xQueueGenericReset_def fresh_queue_def head_off_def qlen_def isz_def Let_def)
qed

lemma fresh_queue_inv:
  assumes "0 < unat n" and "0 < unat z"
  shows "queue_inv (fresh_queue junk n z) \<and> q_items (fresh_queue junk n z) = []"
proof -
  let ?q = "fresh_queue junk n z"
  have f: "isz ?q = unat z" "qlen ?q = unat n" "qcnt ?q = 0"
    by (simp_all add: fresh_queue_def isz_def qlen_def qcnt_def)
  have r: "ridx ?q = unat n - 1"
    by (rule ridx_of) (simp_all add: f assms, simp add: fresh_queue_def)
  show ?thesis using assms unfolding queue_inv_def q_items_def f r
    by (simp add: fresh_queue_def)
qed

lemma create_mutex_eq:
  "xQueueCreateMutex (Some junk) k =
   Inr (Some ((fresh_queue junk 1 0)\<lparr>pcHead := None, uxMessagesWaiting := 1\<rparr>), k)"
  by (simp add: xQueueCreateMutex_def create_eq create_ok_def SIZE_MAX_def sizeof_Queue_t_def
      prvInitialiseMutex_def xQueueGenericSend_def xQueueGenericSend_loop.simps
      xQueueGenericSend_pass_def prvCopyDataToQueue_def is_mutex_def fresh_queue_def
      xTaskPriorityDisinherit_def wake_receiver_def)

lemma created_mutex_free:
  "free_mutex ((fresh_queue junk 1 0)\<lparr>pcHead := None, uxMessagesWaiting := 1\<rparr>)"
  by (simp add: free_mutex_def fresh_queue_def)

lemma create_mutex_no_memory: "xQueueCreateMutex None k = Inr (None, k)"
  by (simp add: xQueueCreateMutex_def xQueueGenericCreate_def SIZE_MAX_def sizeof_Queue_t_def
      prvInitialiseMutex_def)

lemmas mutex_creation = create_mutex_eq create_mutex_no_memory

section \<open>Binary semaphores\<close>

definition xSemaphoreCreateBinary :: "alloc \<Rightarrow> QueueHandle_t res" where
  "xSemaphoreCreateBinary a = xQueueGenericCreate a 1 0"

text \<open>A binary semaphore nobody waits for, and whether it has been given.\<close>

definition binary_sem :: "bool \<Rightarrow> Queue_t \<Rightarrow> bool" where
  "binary_sem given q \<longleftrightarrow>
     \<not> is_mutex q \<and> uxItemSize q = 0 \<and> uxLength q = 1 \<and>
     uxMessagesWaiting q = (if given then 1 else 0) \<and>
     xTasksWaitingToSend q = [] \<and> xTasksWaitingToReceive q = []"

lemma is_mutex_count [simp]: "is_mutex (q\<lparr>uxMessagesWaiting := n\<rparr>) = is_mutex q"
  by (simp add: is_mutex_def)

lemma create_binary_eq:
  "\<exists>q. xSemaphoreCreateBinary (Some junk) = Inr (Some q) \<and> binary_sem False q"
  by (simp add: xSemaphoreCreateBinary_def create_eq create_ok_def SIZE_MAX_def sizeof_Queue_t_def
      binary_sem_def fresh_queue_def is_mutex_def)

lemma create_binary_no_memory: "xSemaphoreCreateBinary None = Inr None"
  by (simp add: xSemaphoreCreateBinary_def xQueueGenericCreate_def SIZE_MAX_def sizeof_Queue_t_def)

lemma binary_give_eq:
  assumes "binary_sem b q"
  shows "xSemaphoreGive k (Some q) =
    Inr (if b then errQUEUE_FULL else pdPASS, Some (q\<lparr>uxMessagesWaiting := 1\<rparr>), k)"
proof -
  from assms have "q\<lparr>uxMessagesWaiting := 1\<rparr> = q" if b using that by (simp add: binary_sem_def)
  with assms show ?thesis
    by (auto simp: binary_sem_def xSemaphoreGive_def xQueueGenericSend_def
        xQueueGenericSend_loop.simps xQueueGenericSend_pass_def prvCopyDataToQueue_def wake_receiver_def)
qed

lemma binary_take_eq:
  assumes "binary_sem True q" and "may_block k n"
  shows "xSemaphoreTake e k (Some q) n = Inr (pdTRUE, Some (q\<lparr>uxMessagesWaiting := 0\<rparr>), k)"
  using assms
  by (simp add: binary_sem_def xSemaphoreTake_def xQueueSemaphoreTake_def
      xQueueSemaphoreTake_loop.simps xQueueSemaphoreTake_pass_def wake_sender_def pdPASS_def Let_def)

lemma binary_sem_given [simp]:
  "binary_sem b q \<Longrightarrow> binary_sem True (q\<lparr>uxMessagesWaiting := 1\<rparr>)"
  "binary_sem b q \<Longrightarrow> binary_sem False (q\<lparr>uxMessagesWaiting := 0\<rparr>)"
  by (simp_all add: binary_sem_def)

text \<open>
  A wait that nobody ends: the task blocks, and when it runs again the whole waiting time has
  passed and the semaphore is as it was; the call reports that the semaphore was not taken.
\<close>

lemma vTaskPlace_eq:
  "pxCurrentTCB k = Some t \<Longrightarrow>
   vTaskPlaceOnEventList k l =
     Inr (vListInsert (\<lambda>t. xEventListItem (tcbs k t)) l t, upd_tcb t (\<lambda>b. b\<lparr>ucDelayAborted := False\<rparr>) k)"
  by (simp add: vTaskPlaceOnEventList_def)

lemma binary_take_timeout:
  assumes "binary_sem False q" and "\<not> uxSchedulerSuspended k" and "pxCurrentTCB k = Some t"
    and "\<not> ucDelayAborted (tcbs k t)" and "0 < n" and "n \<noteq> portMAX_DELAY"
  shows "xSemaphoreTake [(ticks_later n k, q)] k (Some q) n = Inr (errQUEUE_EMPTY, Some q, ticks_later n k)"
proof -
  have first: "xQueueSemaphoreTake_pass k q n None False =
    Inr (Again \<lparr>xOverflowCount = xNumOfOverflows k, xTimeOnEntering = xTickCount k\<rparr> n, False,
         q\<lparr>xTasksWaitingToReceive := [t]\<rparr>, upd_tcb t (\<lambda>b. b\<lparr>ucDelayAborted := False\<rparr>) k)"
    using assms by (simp add: binary_sem_def xQueueSemaphoreTake_pass_def xTaskCheckForTimeOut_def
        entry_time_def vTaskInternalSetTimeOutState_def vTaskPlace_eq word_gt_0 Let_def)
  have second: "xQueueSemaphoreTake_pass (ticks_later n k) q n
      (Some \<lparr>xOverflowCount = xNumOfOverflows k, xTimeOnEntering = xTickCount k\<rparr>) False =
    Inr (Done errQUEUE_EMPTY, False, q, ticks_later n k)"
    using assms by (simp add: binary_sem_def xQueueSemaphoreTake_pass_def xTaskCheckForTimeOut_def
        entry_time_def word_gt_0 Let_def)
  show ?thesis using assms(1,2) first second
    by (simp add: xSemaphoreTake_def xQueueSemaphoreTake_def may_block_def binary_sem_def
        xQueueSemaphoreTake_loop.simps)
qed

text \<open>The same for a receive on an empty queue.\<close>

lemma receive_timeout_eq:
  assumes "qcnt q = 0" and "\<not> uxSchedulerSuspended k" and "pxCurrentTCB k = Some t"
    and "\<not> ucDelayAborted (tcbs k t)" and "0 < n" and "n \<noteq> portMAX_DELAY"
  shows "xQueueReceive [(ticks_later n k, q)] k (Some q) n = Inr (errQUEUE_EMPTY, [], q, ticks_later n k)"
proof -
  have e: "\<not> 0 < uxMessagesWaiting q" using assms(1) by (simp only: cnt_pos_iff)
  have first: "\<exists>q' k'. xQueueReceive_pass k q n None =
    Inr (Again \<lparr>xOverflowCount = xNumOfOverflows k, xTimeOnEntering = xTickCount k\<rparr> n, q', k')"
    using assms e by (simp add: xQueueReceive_pass_def xTaskCheckForTimeOut_def entry_time_def
        vTaskInternalSetTimeOutState_def vTaskPlace_eq word_gt_0 Let_def)
  have second: "xQueueReceive_pass (ticks_later n k) q n
      (Some \<lparr>xOverflowCount = xNumOfOverflows k, xTimeOnEntering = xTickCount k\<rparr>) =
    Inr (Done (errQUEUE_EMPTY, []), q, ticks_later n k)"
    using assms e by (simp add: xQueueReceive_pass_def xTaskCheckForTimeOut_def entry_time_def
        word_gt_0 Let_def)
  show ?thesis using assms(2) first second
    by (auto simp: xQueueReceive_def may_block_def xQueueReceive_loop.simps)
qed

section \<open>Creation in given memory\<close>

text \<open>
  The flag tells whether the structure was provided. The structure itself is always overwritten;
  the storage area keeps its contents.
\<close>

definition xQueueGenericCreateStatic :: "bool \<Rightarrow> u32 \<Rightarrow> u32 \<Rightarrow> u8 list option \<Rightarrow> QueueHandle_t res" where
  "xQueueGenericCreateStatic pxStaticQueue uxQueueLength uxItemSz pucQueueStorage =
     assert_res pxStaticQueue
     (if 0 < uxQueueLength \<and> \<not> (pucQueueStorage \<noteq> None \<and> uxItemSz = 0) \<and> \<not> (pucQueueStorage = None \<and> uxItemSz \<noteq> 0)
      then bind_res (prvInitialiseNewQueue uxQueueLength uxItemSz (case pucQueueStorage of None \<Rightarrow> [] | Some st \<Rightarrow> st))
             (\<lambda>q. Inr (Some q))
      else Inl Assert_failed)"

definition xQueueCreateMutexStatic :: "bool \<Rightarrow> kernel \<Rightarrow> (QueueHandle_t \<times> kernel) res" where
  "xQueueCreateMutexStatic pxStaticQueue k =
     bind_res (xQueueGenericCreateStatic pxStaticQueue 1 0 None) (\<lambda>h. prvInitialiseMutex k h)"

definition xQueueCreateWithCaps :: "bool \<Rightarrow> alloc \<Rightarrow> u32 \<Rightarrow> u32 \<Rightarrow> QueueHandle_t res" where
  "xQueueCreateWithCaps struct_alloc storage_alloc uxQueueLength uxItemSz =
     (let pucQueueStorage = (if uxItemSz = 0 then None
            else map_option (\<lambda>junk. map junk [0..<unat (uxQueueLength * uxItemSz)]) storage_alloc)
      in if \<not> struct_alloc \<or> (0 < uxItemSz \<and> pucQueueStorage = None) then Inr None
         else xQueueGenericCreateStatic struct_alloc uxQueueLength uxItemSz pucQueueStorage)"

datatype sem_type = queueQUEUE_TYPE_MUTEX | queueQUEUE_TYPE_BINARY_SEMAPHORE

definition xSemaphoreCreateGenericWithCaps :: "sem_type \<Rightarrow> bool \<Rightarrow> kernel \<Rightarrow> (QueueHandle_t \<times> kernel) res" where
  "xSemaphoreCreateGenericWithCaps ucQueueType struct_alloc k =
     (if \<not> struct_alloc then Inr (None, k)
      else case ucQueueType of
             queueQUEUE_TYPE_MUTEX \<Rightarrow> xQueueCreateMutexStatic struct_alloc k
           | queueQUEUE_TYPE_BINARY_SEMAPHORE \<Rightarrow>
               bind_res (xQueueGenericCreateStatic struct_alloc 1 0 None) (\<lambda>h. Inr (h, k)))"

lemma create_static_eq:
  assumes "0 < n" and "unat n * unat z < 2 ^ 32" and "st = map junk [0..<unat n * unat z]"
  shows "prvInitialiseNewQueue n z st = Inr (fresh_queue junk n z)"
proof -
  have "1 \<le> n" using assms(1) by (simp add: word_le_nat_alt word_less_nat_alt)
  moreover have "unat (n * z) = unat n * unat z" using assms(2) by (simp add: unat_word_ariths)
  moreover have "0 < unat n" using assms(1) by (simp add: word_less_nat_alt)
  then have "unat z \<le> SIZE_MAX div unat n" using assms(2) by (simp add: SIZE_MAX_def less_eq_div_iff_mult_less_eq mult.commute)
  ultimately show ?thesis using assms(1,3)
    by (simp add: prvInitialiseNewQueue_def xQueueGenericReset_def fresh_queue_def head_off_def qlen_def isz_def Let_def)
qed

lemma create_queue_caps:
  assumes "0 < n" and "0 < z" and "unat n * unat z < 2 ^ 32"
  shows "xQueueCreateWithCaps True (Some junk) n z = Inr (Some (fresh_queue junk n z))"
proof -
  have "unat (n * z) = unat n * unat z" using assms(3) by (simp add: unat_word_ariths)
  with assms create_static_eq [OF assms(1,3) refl, of junk] show ?thesis
    by (simp add: xQueueCreateWithCaps_def xQueueGenericCreateStatic_def)
qed

definition new_mutex :: Queue_t where
  "new_mutex = (fresh_queue (\<lambda>_. 0) 1 0)\<lparr>pcHead := None, uxMessagesWaiting := 1\<rparr>"

definition new_binary :: Queue_t where
  "new_binary = fresh_queue (\<lambda>_. 0) 1 0"

lemma create_sem_static: "xQueueGenericCreateStatic True 1 0 None = Inr (Some new_binary)"
  using create_static_eq [of 1 0 "[]" "\<lambda>_. 0"] by (simp add: xQueueGenericCreateStatic_def new_binary_def)

lemma create_mutex_caps: "xSemaphoreCreateGenericWithCaps queueQUEUE_TYPE_MUTEX True k = Inr (Some new_mutex, k)"
  using create_mutex_eq [of "\<lambda>_. 0" k] create_eq [of 1 0 "\<lambda>_. 0"]
  by (simp add: xSemaphoreCreateGenericWithCaps_def xQueueCreateMutexStatic_def create_sem_static new_mutex_def new_binary_def
      xQueueCreateMutex_def create_ok_def SIZE_MAX_def sizeof_Queue_t_def)

lemma create_binary_caps: "xSemaphoreCreateGenericWithCaps queueQUEUE_TYPE_BINARY_SEMAPHORE True k = Inr (Some new_binary, k)"
  by (simp add: xSemaphoreCreateGenericWithCaps_def create_sem_static)

lemma new_sems: "free_mutex new_mutex" "binary_sem False new_binary"
  using created_mutex_free [of "\<lambda>_. 0"]
  by (simp_all add: new_mutex_def new_binary_def binary_sem_def fresh_queue_def is_mutex_def)

text \<open>A concrete free mutex, for the witnesses.\<close>

definition demo_mutex :: QueueHandle_t where
  "demo_mutex = Some ((fresh_queue (\<lambda>_. 0) 1 0)\<lparr>pcHead := None, uxMessagesWaiting := 1\<rparr>)"

lemma demo_mutex_ready: "mutex_ready demo_kernel demo_mutex"
  by (simp add: mutex_ready_def demo_mutex_def created_mutex_free kernel_ok_def demo_kernel_def
      demo_tcb_def)

section \<open>Properties\<close>

text \<open>
  Queue send refines appending: on a well-formed queue with room, sending an item of the
  queue's item size returns \<^verbatim>\<open>pdPASS\<close> whatever the block time, leaves the kernel alone, and
  the stored items are the old ones followed by the new one; no access leaves the storage area.
\<close>

theorem xQueueGenericSend_appends:
  assumes "queue_inv q" and "length bs = isz q" and "qcnt q < qlen q" and "may_block k n"
  shows "\<exists>q'. xQueueGenericSend e k (Some q) (Some bs) n queueSEND_TO_BACK = Inr (pdPASS, q', k)
           \<and> queue_inv q' \<and> q_items q' = q_items q @ [bs]"
  using send_room_eq [OF assms] push_back_inv [OF assms(1-3)] push_back_items [OF assms(1-3)]
  by simp

theorem xQueueGenericSend_appends_witness:
  "\<exists>q'. xQueueGenericSend [] demo_kernel (Some (fresh_queue (\<lambda>_. 0) 2 1)) (Some [7]) 9
           queueSEND_TO_BACK = Inr (pdPASS, q', demo_kernel)
         \<and> queue_inv q' \<and> q_items q' = q_items (fresh_queue (\<lambda>_. 0) 2 1) @ [[7]]"
  by (rule xQueueGenericSend_appends)
    (simp_all add: fresh_queue_inv, simp_all add: fresh_queue_def isz_def qlen_def qcnt_def
      may_block_def demo_kernel_def)


text \<open>
  Queue receive refines taking the head: on a well-formed non-empty queue it returns
  \<^verbatim>\<open>pdPASS\<close> with the oldest item and leaves the remaining items in order.
\<close>

theorem xQueueReceive_takes_oldest:
  assumes "queue_inv q" and "q_items q \<noteq> []" and "may_block k n"
  shows "\<exists>q'. xQueueReceive e k (Some q) n = Inr (pdPASS, hd (q_items q), q', k)
           \<and> queue_inv q' \<and> q_items q' = tl (q_items q)"
proof -
  from assms(2) have "0 < qcnt q" by (auto simp flip: length_q_items)
  then show ?thesis
    using receive_some_eq [OF assms(1) _ assms(3)] pop_inv [OF assms(1)] pop_items [OF assms(1)]
    by simp
qed

theorem xQueueReceive_takes_oldest_witness:
  "\<exists>q'. xQueueReceive [] demo_kernel (Some (q_push_back (fresh_queue (\<lambda>_. 0) 2 1) [7])) 9 =
         Inr (pdPASS, hd (q_items (q_push_back (fresh_queue (\<lambda>_. 0) 2 1) [7])), q', demo_kernel)
       \<and> queue_inv q' \<and> q_items q' = tl (q_items (q_push_back (fresh_queue (\<lambda>_. 0) 2 1) [7]))"
proof (rule xQueueReceive_takes_oldest)
  let ?q = "fresh_queue (\<lambda>_. 0) 2 1"
  have q: "queue_inv ?q" "length [7 :: u8] = isz ?q" "qcnt ?q < qlen ?q"
    by (simp_all add: fresh_queue_inv, simp_all add: fresh_queue_def isz_def qlen_def qcnt_def)
  show "queue_inv (q_push_back ?q [7])" by (rule push_back_inv [OF q])
  show "q_items (q_push_back ?q [7]) \<noteq> []" using push_back_items [OF q] by simp
  show "may_block demo_kernel 9" by (simp add: may_block_def demo_kernel_def)
qed


text \<open>
  C27. A created queue is a first-in-first-out channel: any items of the right size, at most as
  many as its length, can all be sent without blocking, and receiving as many returns exactly
  them in the order sent.
\<close>

theorem created_queue_is_fifo:
  assumes "create_ok n z" and "0 < unat z" and "\<forall>x \<in> set xs. length x = unat z"
    and "length xs \<le> unat n"
  shows "\<exists>q q'. xQueueGenericCreate (Some junk) n z = Inr (Some q) \<and>
           send_all (queue_send0 k) q xs = Some q' \<and>
           recv_all (queue_receive0 k) (length xs) q' = xs"
proof -
  let ?q = "fresh_queue junk n z"
  have pos: "0 < unat n" using assms(1) by (simp add: create_ok_def word_less_nat_alt)
  have "isz ?q = unat z" "qlen ?q = unat n" by (simp_all add: fresh_queue_def isz_def qlen_def)
  with fresh_queue_inv [OF pos assms(2), of junk] assms(3,4)
  have "\<exists>q'. send_all (queue_send0 k) ?q xs = Some q' \<and>
          recv_all (queue_receive0 k) (length xs) q' = xs"
    by (intro queue_fifo.fifo) auto
  with create_eq [OF assms(1)] show ?thesis by blast
qed

theorem created_queue_is_fifo_witness:
  "\<exists>q q'. xQueueGenericCreate (Some (\<lambda>_. 0)) 8 4 = Inr (Some q) \<and>
     send_all (queue_send0 demo_kernel) q [[1, 0, 0, 0], [4, 0, 0, 0]] = Some q' \<and>
     recv_all (queue_receive0 demo_kernel) (length [[1 :: u8, 0, 0, 0], [4, 0, 0, 0]]) q'
       = [[1, 0, 0, 0], [4, 0, 0, 0]]"
  by (rule created_queue_is_fifo) (simp_all add: create_ok_def SIZE_MAX_def sizeof_Queue_t_def)


text \<open>
  C28. Mutex discipline: a mutex that has just been created can be taken at once by the running
  task, which becomes its holder; a second take would block; and giving it back restores mutex
  and kernel exactly.
\<close>

theorem mutex_cycle:
  assumes "kernel_ok k"
  shows "\<exists>q h' k'. xQueueCreateMutex (Some junk) k = Inr (Some q, k) \<and>
           mutex_take k (Some q) = Inr (Some h', k') \<and> xMutexHolder h' = pxCurrentTCB k \<and>
           xQueueSemaphoreTake [] k' (Some h') 0 = Inr (errQUEUE_EMPTY, h', k') \<and>
           mutex_give k' (Some h') = Inr (Some q, k)"
proof -
  let ?q = "(fresh_queue junk 1 0)\<lparr>pcHead := None, uxMessagesWaiting := 1\<rparr>"
  obtain t where t: "pxCurrentTCB k = Some t"
    using assms by (auto simp: kernel_ok_def split: option.splits)
  have r: "mutex_ready k (Some ?q)" using assms by (simp add: mutex_ready_def created_mutex_free)
  have "xQueueSemaphoreTake [] k' (Some (held_by k ?q)) 0 =
        Inr (errQUEUE_EMPTY, held_by k ?q, k')" for k'
    by (simp add: xQueueSemaphoreTake_def xQueueSemaphoreTake_loop.simps
        xQueueSemaphoreTake_pass_def held_by_def fresh_queue_def)
  moreover have "xMutexHolder (held_by k ?q) = pxCurrentTCB k" by (simp add: held_by_def)
  ultimately show ?thesis
    using create_mutex_eq [of junk k] mutex_take_eq [OF r t] mutex_give_eq [OF r t] by blast
qed

theorem mutex_cycle_witness:
  "\<exists>q h' k'. xQueueCreateMutex (Some (\<lambda>_. 0)) demo_kernel = Inr (Some q, demo_kernel) \<and>
     mutex_take demo_kernel (Some q) = Inr (Some h', k') \<and>
     xMutexHolder h' = pxCurrentTCB demo_kernel \<and>
     xQueueSemaphoreTake [] k' (Some h') 0 = Inr (errQUEUE_EMPTY, h', k') \<and>
     mutex_give k' (Some h') = Inr (Some q, demo_kernel)"
  by (rule mutex_cycle) (simp add: kernel_ok_def demo_kernel_def demo_tcb_def)


text \<open>
  A mutex can only be given back by its holder: a give by another task stops in the
  kernel's assertion.
\<close>

theorem mutex_give_by_other_asserts:
  assumes "is_mutex q" and "uxItemSize q = 0" and "uxMessagesWaiting q < uxLength q"
    and "xMutexHolder q = Some t" and "pxCurrentTCB k \<noteq> Some t"
  shows "mutex_give k (Some q) = Inl Assert_failed"
  using assms
  by (simp add: mutex_give_def xSemaphoreGive_def xQueueGenericSend_def
      xQueueGenericSend_loop.simps xQueueGenericSend_pass_def prvCopyDataToQueue_def
      xTaskPriorityDisinherit_def)

theorem mutex_give_by_other_asserts_witness:
  "mutex_give demo_kernel
     (Some ((fresh_queue (\<lambda>_. 0) 1 0)\<lparr>pcHead := None, xMutexHolder := Some 2\<rparr>)) =
   Inl Assert_failed"
  by (rule mutex_give_by_other_asserts [where t = 2])
    (simp_all add: is_mutex_def fresh_queue_def demo_kernel_def)

end
