(* ===== verification/TemperatureMonitoring.thy ===== *)
theory TemperatureMonitoring
  imports TempConversion FreeRTOS_Queue
begin

text \<open>
  The temperature monitoring module (\<^verbatim>\<open>Sensors/temperatureMonitoring.c\<close>, \<^verbatim>\<open>.h\<close>): its
  conversion table, its guarded state and its three operations, and what the conversion of
  \<^verbatim>\<open>tempConversion.c\<close> does with that table.
\<close>

section \<open>State\<close>

definition TEMP_ERROR_INVALID :: i16 where "TEMP_ERROR_INVALID = 0x8000"
definition TEMP_ERROR_SHORT :: i16 where "TEMP_ERROR_SHORT = 0xFFFE"
definition TEMP_ERROR_OPEN :: i16 where "TEMP_ERROR_OPEN = 0xFFFD"

definition TEMP_CONV_ADC_TOLERANCE :: u16 where "TEMP_CONV_ADC_TOLERANCE = 10"

datatype TEMP_Sensor_Id_t =
    TEMP_SENSOR_ID_PHASE_A
  | TEMP_SENSOR_ID_PHASE_B
  | TEMP_SENSOR_ID_LOAD
  | TEMP_SENSOR_ID_INVALID

datatype TEMP_Ret_t = TEMP_STATUS_ERROR | TEMP_STATUS_OK

record temp_state =
  temp_mutex_handle :: QueueHandle_t
  temp_load :: i16
  cumul_temp_load :: i32
  temp_phase_a :: i16
  cumul_temp_phase_a :: i32
  temp_phase_b :: i16
  cumul_temp_phase_b :: i32

definition conv_entry :: "u16 \<times> int \<Rightarrow> TEMP_Conv_t" where
  "conv_entry e = \<lparr>adc_value = fst e, temperature = word_of_int (snd e)\<rparr>"

definition conv_table :: "TEMP_Conv_t list" where
  "conv_table = map conv_entry
    [(199, -4000), (227, -3750), (258, -3500), (292, -3250),
     (330, -3000), (371, -2750), (416, -2500), (465, -2250),
     (519, -2000), (576, -1750), (638, -1500), (704, -1250),
     (774, -1000), (848, -750), (926, -500), (1008, -250),
     (1093, 0), (1182, 250), (1273, 500), (1366, 750),
     (1462, 1000), (1559, 1250), (1656, 1500), (1755, 1750),
     (1853, 2000), (1951, 2250), (2048, 2500), (2143, 2750),
     (2237, 3000), (2329, 3250), (2418, 3500), (2505, 3750),
     (2589, 4000), (2670, 4250), (2748, 4500), (2822, 4750),
     (2894, 5000), (2962, 5250), (3027, 5500), (3088, 5750),
     (3147, 6000), (3202, 6250), (3254, 6500), (3304, 6750),
     (3350, 7000), (3394, 7250), (3435, 7500), (3474, 7750),
     (3511, 8000), (3545, 8250), (3577, 8500), (3607, 8750),
     (3635, 9000), (3662, 9250), (3687, 9500), (3710, 9750),
     (3732, 10000)]"

definition conv_config :: TEMP_Conv_Config_t where
  "conv_config = \<lparr>pConvTable = conv_table, table_size = of_nat (length conv_table),
                  adc_tolerance = TEMP_CONV_ADC_TOLERANCE\<rparr>"

section \<open>Operations\<close>

definition TEMP_InitMonitoring ::
  "alloc \<Rightarrow> kernel \<Rightarrow> temp_state \<Rightarrow> (TEMP_Ret_t \<times> temp_state \<times> kernel) res" where
  "TEMP_InitMonitoring a k s =
     bind_res (xQueueCreateMutex a k) (\<lambda>(h, k1).
       let s1 = s\<lparr>temp_mutex_handle := h\<rparr> in
       if h = None then Inr (TEMP_STATUS_ERROR, s1, k1)
       else
         let s2 = s1\<lparr>temp_load := TEMP_ERROR_INVALID, cumul_temp_load := 0\<rparr>;
             s3 = s2\<lparr>temp_phase_b := TEMP_ERROR_INVALID, cumul_temp_phase_a := 0\<rparr>;
             s4 = s3\<lparr>temp_phase_b := TEMP_ERROR_INVALID, cumul_temp_phase_b := 0\<rparr>
         in Inr (TEMP_STATUS_OK, s4, k1))"

definition TEMP_ProcessRawMeasurement :: "u8 list option \<Rightarrow> u32 \<Rightarrow> temp_state \<Rightarrow> TEMP_Ret_t \<times> temp_state" where
  "TEMP_ProcessRawMeasurement pMeas_buf sz s =
     (if pMeas_buf = None \<or> sz = 0 then (TEMP_STATUS_ERROR, s) else (TEMP_STATUS_OK, s))"

text \<open>
  The out parameter is a flag (is the pointer non-null) and the value stored through it.
\<close>

definition TEMP_GetTemperature ::
  "kernel \<Rightarrow> temp_state \<Rightarrow> TEMP_Sensor_Id_t \<Rightarrow> bool \<Rightarrow>
   (TEMP_Ret_t \<times> i16 option \<times> temp_state \<times> kernel) res" where
  "TEMP_GetTemperature k s sensor_id pTemperature =
     (if sensor_id = TEMP_SENSOR_ID_INVALID \<or> \<not> pTemperature
      then Inr (TEMP_STATUS_ERROR, None, s, k)
      else bind_res (mutex_take k (temp_mutex_handle s)) (\<lambda>(h1, k1).
           let current_temp =
             (case sensor_id of
                TEMP_SENSOR_ID_LOAD \<Rightarrow> temp_load s
              | TEMP_SENSOR_ID_PHASE_A \<Rightarrow> temp_phase_a s
              | TEMP_SENSOR_ID_PHASE_B \<Rightarrow> temp_phase_b s
              | TEMP_SENSOR_ID_INVALID \<Rightarrow> TEMP_ERROR_INVALID)
           in bind_res (mutex_give k1 h1) (\<lambda>(h2, k2).
                Inr (TEMP_STATUS_OK, Some current_temp, s\<lparr>temp_mutex_handle := h2\<rparr>, k2))))"

section \<open>The table of the firmware\<close>

lemma conv_table_length: "length conv_table = 57"
  by (simp add: conv_table_def)

lemma conv_table_first: "adc_value (conv_table ! 0) = 199"
  by (simp add: conv_table_def conv_entry_def)

lemma conv_table_last: "adc_value (last conv_table) = 3732"
  by (simp add: conv_table_def conv_entry_def)

lemma conv_table_sorted: "sorted_wrt (\<lambda>a b. adc_value a < adc_value b) conv_table"
  unfolding conv_table_def sorted_wrt_map
  by (subst successively_conv_sorted_wrt [symmetric])
    (auto simp: conv_entry_def transp_on_def)

lemma conv_table_mono: "sorted_wrt (\<lambda>a b. sint (temperature a) \<le> sint (temperature b)) conv_table"
  unfolding conv_table_def sorted_wrt_map
  by (subst successively_conv_sorted_wrt [symmetric])
    (auto simp: conv_entry_def transp_on_def)

lemma conv_config_ok: "table_ok conv_config"
  by (simp add: table_ok_def conv_config_def conv_table_length conv_table_sorted
      TEMP_CONV_ADC_TOLERANCE_def) (simp add: conv_table_def)

lemma conv_config_sel [simp]:
  "pConvTable conv_config = conv_table" "adc_tolerance conv_config = 10"
  by (simp_all add: conv_config_def TEMP_CONV_ADC_TOLERANCE_def)

text \<open>Every segment of the table is short, and away from 0 degrees its products are large.\<close>

definition segment_ok :: "TEMP_Conv_t \<times> TEMP_Conv_t \<Rightarrow> bool" where
  "segment_ok s =
     (let d = uint (adc_value (snd s)) - uint (adc_value (fst s)) in
      0 < d \<and> d \<le> 99 \<and> sint (temperature (fst s)) \<le> sint (temperature (snd s)) \<and>
      (500 \<le> sint (temperature (fst s)) \<longrightarrow> 32768 \<le> sint (temperature (fst s)) * d) \<and>
      (sint (temperature (snd s)) \<le> - 500 \<longrightarrow> sint (temperature (snd s)) * d < - 32768) \<and>
      (1273 \<le> uint (adc_value (fst s)) \<longrightarrow> 500 \<le> sint (temperature (fst s))) \<and>
      (uint (adc_value (snd s)) \<le> 926 \<longrightarrow> sint (temperature (snd s)) \<le> - 500) \<and>
      (1273 \<le> uint (adc_value (fst s)) \<or> uint (adc_value (snd s)) \<le> 926 \<or>
       s \<in> {(conv_entry (926, -500), conv_entry (1008, -250)),
            (conv_entry (1008, -250), conv_entry (1093, 0)),
            (conv_entry (1093, 0), conv_entry (1182, 250)),
            (conv_entry (1182, 250), conv_entry (1273, 500))}))"

lemma segments_ok: "list_all segment_ok (zip conv_table (tl conv_table))"
  by code_simp

lemma nth_segment_ok:
  assumes "Suc i < 57"
  shows "segment_ok (conv_table ! i, conv_table ! Suc i)"
proof -
  have "(conv_table ! i, conv_table ! Suc i) = zip conv_table (tl conv_table) ! i"
    using assms by (simp add: conv_table_length nth_tl)
  moreover have "i < length (zip conv_table (tl conv_table))"
    using assms by (simp add: conv_table_length)
  ultimately show ?thesis using segments_ok by (metis list_all_length)
qed

lemma bracket_le:
  assumes "adc_value p \<le> adc" and "adc < adc_value q"
  shows "uint (adc_value p) \<le> uint adc" "uint adc < uint (adc_value q)"
  using assms by (simp_all add: word_le_def word_less_def)

lemma segment_fits_iff:
  assumes s: "segment_ok (p, q)" and b: "adc_value p \<le> adc" "adc < adc_value q"
  shows "fits_i16 (weighted_sum adc p q) \<longleftrightarrow> 959 \<le> uint adc \<and> uint adc \<le> 1222"
proof -
  let ?d = "uint (adc_value q) - uint (adc_value p)" and ?a = "uint adc"
  have "sint (temperature p) \<le> sint (temperature q)" using s by (simp add: segment_ok_def Let_def)
  note between = weighted_sum_between [OF b(1) less_imp_le [OF b(2)] this] and le = bracket_le [OF b]
  consider (hot) "1273 \<le> uint (adc_value p)" | (cold) "uint (adc_value q) \<le> 926"
    | (mid) "(p, q) \<in> {(conv_entry (926, -500), conv_entry (1008, -250)),
            (conv_entry (1008, -250), conv_entry (1093, 0)),
            (conv_entry (1093, 0), conv_entry (1182, 250)),
            (conv_entry (1182, 250), conv_entry (1273, 500))}"
    using s by (auto simp: segment_ok_def Let_def)
  then show ?thesis
  proof cases
    case hot
    have "32768 \<le> sint (temperature p) * ?d" using s hot by (simp add: segment_ok_def Let_def)
    then have "\<not> fits_i16 (weighted_sum adc p q)" using between(1) by (simp add: fits_i16_def)
    with hot le show ?thesis by simp
  next
    case cold
    have "sint (temperature q) * ?d < - 32768" using s cold by (simp add: segment_ok_def Let_def)
    then have "\<not> fits_i16 (weighted_sum adc p q)" using between(2) by (simp add: fits_i16_def)
    with cold le show ?thesis by simp
  next
    case mid
    then show ?thesis using le
      by (auto simp: conv_entry_def fits_i16_def weighted_sum_def)
  qed
qed

lemma firmware_inside:
  assumes "199 < adc" and "adc < 3732"
  shows "\<exists>i. Suc i < length conv_table \<and>
           adc_value (conv_table ! i) \<le> adc \<and> adc < adc_value (conv_table ! Suc i) \<and>
           TCONV_ConvertToTemp adc (Some conv_config) =
             temperatureInterpolation adc (conv_table ! i) (conv_table ! Suc i)"
proof -
  from adcToTemp_inside [OF conv_config_ok, of adc] assms obtain j where j: "0 < j"
    "j < length conv_table" "adc_value (conv_table ! (j - 1)) \<le> adc" "adc < adc_value (conv_table ! j)"
    "adcToTemp adc (Some conv_config) = temperatureInterpolation adc (conv_table ! (j - 1)) (conv_table ! j)"
    by (auto simp: conv_table_first conv_table_last)
  then show ?thesis by (intro exI [of _ "j - 1"]) (simp add: TCONV_ConvertToTemp_def)
qed

section \<open>The module's critical section\<close>

lemma get_temperature_eq:
  assumes "mutex_ready k (temp_mutex_handle s)" and "sensor_id \<noteq> TEMP_SENSOR_ID_INVALID"
  shows "TEMP_GetTemperature k s sensor_id True =
    Inr (TEMP_STATUS_OK,
         Some (case sensor_id of TEMP_SENSOR_ID_LOAD \<Rightarrow> temp_load s
               | TEMP_SENSOR_ID_PHASE_A \<Rightarrow> temp_phase_a s | _ \<Rightarrow> temp_phase_b s), s, k)"
  using assms by (cases sensor_id)
    (simp_all add: TEMP_GetTemperature_def Let_def mutex.critical_section)

section \<open>Properties\<close>

text \<open>
  C24. With the firmware's table the conversion of a reading strictly inside the table returns the
  truncated linear interpolation of its two neighbours exactly for the readings 959 to 1222,
  about -4 to +3.6 degrees: everywhere else the 16-bit accumulator has wrapped before the
  division and the result is wrong.
\<close>

theorem firmware_conversion_correct_iff:
  assumes "199 < adc" and "adc < 3732"
  shows "\<exists>i t. Suc i < length conv_table \<and>
           adc_value (conv_table ! i) \<le> adc \<and> adc < adc_value (conv_table ! Suc i) \<and>
           TCONV_ConvertToTemp adc (Some conv_config) = Inr t \<and>
           (sint t = c_div (weighted_sum adc (conv_table ! i) (conv_table ! Suc i))
                       (uint (adc_value (conv_table ! Suc i)) - uint (adc_value (conv_table ! i)))
            \<longleftrightarrow> 959 \<le> uint adc \<and> uint adc \<le> 1222)"
proof -
  from firmware_inside [OF assms] obtain i where i: "Suc i < length conv_table"
    "adc_value (conv_table ! i) \<le> adc" "adc < adc_value (conv_table ! Suc i)"
    "TCONV_ConvertToTemp adc (Some conv_config) =
       temperatureInterpolation adc (conv_table ! i) (conv_table ! Suc i)" by blast
  have ok: "segment_ok (conv_table ! i, conv_table ! Suc i)"
    using i(1) by (intro nth_segment_ok) (simp add: conv_table_length)
  then have "uint (adc_value (conv_table ! Suc i)) - uint (adc_value (conv_table ! i)) < 32768"
    by (simp add: segment_ok_def Let_def)
  from interpolation_exact_iff [OF le_less_trans [OF i(2,3)] this, of adc] i
    segment_fits_iff [OF ok i(2,3)]
  show ?thesis by auto
qed

theorem firmware_conversion_correct_iff_witness:
  "\<exists>i t. Suc i < length conv_table \<and>
     adc_value (conv_table ! i) \<le> 2048 \<and> 2048 < adc_value (conv_table ! Suc i) \<and>
     TCONV_ConvertToTemp 2048 (Some conv_config) = Inr t \<and>
     (sint t = c_div (weighted_sum 2048 (conv_table ! i) (conv_table ! Suc i))
                 (uint (adc_value (conv_table ! Suc i)) - uint (adc_value (conv_table ! i)))
      \<longleftrightarrow> 959 \<le> uint (2048 :: u16) \<and> uint (2048 :: u16) \<le> 1222)"
  by (rule firmware_conversion_correct_iff) simp_all

text \<open>
  Concrete readings of the firmware: the table's own 25 degree entry converts to -2.59
  degrees; a reading just below 0 degrees is reported as an open sensor although it is in range;
  and the two readings one tolerance outside the table read memory outside it.
\<close>

theorem firmware_conversion_examples:
  "TCONV_ConvertToTemp 2048 (Some conv_config) = Inr (word_of_int (- 259)) \<and>
   TCONV_ConvertToTemp 1092 (Some conv_config) = Inr TEMP_CONV_ERROR_OPEN \<and>
   TCONV_ConvertToTemp 189 (Some conv_config) = Inl Out_of_bounds \<and>
   TCONV_ConvertToTemp 3742 (Some conv_config) = Inl Out_of_bounds"
proof (intro conjI)
  show "TCONV_ConvertToTemp 2048 (Some conv_config) = Inr (word_of_int (- 259))" by code_simp
  show "TCONV_ConvertToTemp 1092 (Some conv_config) = Inr TEMP_CONV_ERROR_OPEN" by code_simp
  show "TCONV_ConvertToTemp 189 (Some conv_config) = Inl Out_of_bounds"
    using fault_at_low_end [OF conv_config_ok, of 189]
    by (simp add: TCONV_ConvertToTemp_def conv_table_first)
  show "TCONV_ConvertToTemp 3742 (Some conv_config) = Inl Out_of_bounds"
    using fault_at_high_end [OF conv_config_ok, of 3742]
    by (simp add: TCONV_ConvertToTemp_def conv_table_last)
qed

text \<open>
  Reading a temperature: with the module's mutex free every valid sensor yields the stored
  value of that sensor with status OK, and neither the module's state, the mutex nor the kernel
  has changed afterwards; an invalid sensor or a null pointer is refused before the mutex is
  touched; and before the initialisation, with no mutex, a valid call stops in the kernel's
  assertion.
\<close>

theorem get_temperature_behaviour:
  "(mutex_ready k (temp_mutex_handle s) \<and> sensor_id \<noteq> TEMP_SENSOR_ID_INVALID \<longrightarrow>
      TEMP_GetTemperature k s sensor_id True =
        Inr (TEMP_STATUS_OK,
             Some (case sensor_id of TEMP_SENSOR_ID_LOAD \<Rightarrow> temp_load s
                   | TEMP_SENSOR_ID_PHASE_A \<Rightarrow> temp_phase_a s | _ \<Rightarrow> temp_phase_b s), s, k)) \<and>
   (sensor_id = TEMP_SENSOR_ID_INVALID \<or> \<not> p \<longrightarrow>
      TEMP_GetTemperature k s sensor_id p = Inr (TEMP_STATUS_ERROR, None, s, k)) \<and>
   (temp_mutex_handle s = None \<and> sensor_id \<noteq> TEMP_SENSOR_ID_INVALID \<longrightarrow>
      TEMP_GetTemperature k s sensor_id True = Inl Assert_failed)"
proof (intro conjI impI; (elim conjE)?)
  assume "mutex_ready k (temp_mutex_handle s)" "sensor_id \<noteq> TEMP_SENSOR_ID_INVALID"
  then show "TEMP_GetTemperature k s sensor_id True =
        Inr (TEMP_STATUS_OK,
             Some (case sensor_id of TEMP_SENSOR_ID_LOAD \<Rightarrow> temp_load s
                   | TEMP_SENSOR_ID_PHASE_A \<Rightarrow> temp_phase_a s | _ \<Rightarrow> temp_phase_b s), s, k)"
    by (rule get_temperature_eq)
qed (auto simp: TEMP_GetTemperature_def mutex_take_def xSemaphoreTake_def xQueueSemaphoreTake_def)

definition demo_temp_state :: temp_state where
  "demo_temp_state = \<lparr>temp_mutex_handle = demo_mutex, temp_load = 2150, cumul_temp_load = 0,
     temp_phase_a = 2200, cumul_temp_phase_a = 0, temp_phase_b = 2300, cumul_temp_phase_b = 0\<rparr>"

theorem get_temperature_behaviour_witness:
  "TEMP_GetTemperature demo_kernel demo_temp_state TEMP_SENSOR_ID_PHASE_A True =
     Inr (TEMP_STATUS_OK, Some 2200, demo_temp_state, demo_kernel)"
proof -
  have "temp_mutex_handle demo_temp_state = demo_mutex" by (simp add: demo_temp_state_def)
  then have "mutex_ready demo_kernel (temp_mutex_handle demo_temp_state)"
    using demo_mutex_ready by simp
  with get_temperature_behaviour [of demo_kernel demo_temp_state TEMP_SENSOR_ID_PHASE_A True]
  have "TEMP_GetTemperature demo_kernel demo_temp_state TEMP_SENSOR_ID_PHASE_A True =
     Inr (TEMP_STATUS_OK, Some (temp_phase_a demo_temp_state), demo_temp_state, demo_kernel)" by simp
  then show ?thesis by (simp add: demo_temp_state_def)
qed

text \<open>
  Initialisation: with memory for the mutex it returns OK with a free mutex and every later
  reading of the load and of phase B reports an invalid temperature, but phase A keeps whatever
  value it had (its reset is written to phase B); without memory it returns the error status.
\<close>

theorem init_monitoring_behaviour:
  "(\<exists>q s'. TEMP_InitMonitoring (Some junk) k s = Inr (TEMP_STATUS_OK, s', k) \<and>
      temp_mutex_handle s' = Some q \<and> free_mutex q \<and>
      temp_load s' = TEMP_ERROR_INVALID \<and> temp_phase_b s' = TEMP_ERROR_INVALID \<and>
      temp_phase_a s' = temp_phase_a s) \<and>
   TEMP_InitMonitoring None k s = Inr (TEMP_STATUS_ERROR, s\<lparr>temp_mutex_handle := None\<rparr>, k)"
  by (simp add: TEMP_InitMonitoring_def mutex_creation created_mutex_free Let_def)

end
