(* ===== verification/PwrMonitoring.thy ===== *)
theory PwrMonitoring
  imports FreeRTOS_Queue
begin

text \<open>
  The power monitoring module (\<^verbatim>\<open>Sensors/pwrMonitoring.c\<close>, \<^verbatim>\<open>.h\<close>): bus voltage and phase
  currents behind a mutex. The processing of raw measurements is an empty critical section in
  the source.
\<close>

section \<open>State\<close>

definition PWR_INVALID_VOLTAGE :: i16 where "PWR_INVALID_VOLTAGE = 0x8000"
definition PWR_INVALID_CURRENT :: i16 where "PWR_INVALID_CURRENT = 0x8000"

datatype PWR_Ret_t = PWR_MONITORING_STATUS_ERROR | PWR_MONITORING_STATUS_OK

record pwr_state =
  pwr_mutex_handle :: QueueHandle_t
  bus_voltage_10mv :: i16
  cumul_bus_voltage :: i32
  phase_a_current_10ma :: i16
  phase_b_current_10ma :: i16
  cumul_phase_a_current :: i32
  cumul_phase_b_current :: i32

section \<open>Operations\<close>

definition PWR_InitMonitoring ::
  "alloc \<Rightarrow> kernel \<Rightarrow> pwr_state \<Rightarrow> (PWR_Ret_t \<times> pwr_state \<times> kernel) res" where
  "PWR_InitMonitoring a k s =
     (let s1 = s\<lparr>bus_voltage_10mv := PWR_INVALID_VOLTAGE, cumul_bus_voltage := 0,
                 phase_a_current_10ma := PWR_INVALID_CURRENT,
                 phase_b_current_10ma := PWR_INVALID_CURRENT,
                 cumul_phase_a_current := 0, cumul_phase_b_current := 0\<rparr>
      in bind_res (xQueueCreateMutex a k) (\<lambda>(h, k1).
           let s2 = s1\<lparr>pwr_mutex_handle := h\<rparr> in
           if h = None then Inr (PWR_MONITORING_STATUS_ERROR, s2, k1)
           else Inr (PWR_MONITORING_STATUS_OK, s2, k1)))"

definition PWR_ProcessRawMeasurement ::
  "kernel \<Rightarrow> pwr_state \<Rightarrow> u8 list option \<Rightarrow> u32 \<Rightarrow> (PWR_Ret_t \<times> pwr_state \<times> kernel) res" where
  "PWR_ProcessRawMeasurement k s pMeas_buf sz =
     (if pMeas_buf = None \<or> sz = 0
      then Inr (PWR_MONITORING_STATUS_ERROR, s, k)
      else bind_res (mutex_take k (pwr_mutex_handle s)) (\<lambda>(h1, k1).
           bind_res (mutex_give k1 h1) (\<lambda>(h2, k2).
             Inr (PWR_MONITORING_STATUS_OK, s\<lparr>pwr_mutex_handle := h2\<rparr>, k2))))"

text \<open>
  The out parameter of a getter is a flag (is the pointer non-null) and the value stored
  through it.
\<close>

definition PWR_GetBusVoltage ::
  "kernel \<Rightarrow> pwr_state \<Rightarrow> bool \<Rightarrow> (PWR_Ret_t \<times> i16 option \<times> pwr_state \<times> kernel) res" where
  "PWR_GetBusVoltage k s pVoltage =
     (if \<not> pVoltage then Inr (PWR_MONITORING_STATUS_ERROR, None, s, k)
      else bind_res (mutex_take k (pwr_mutex_handle s)) (\<lambda>(h1, k1).
           let v = bus_voltage_10mv s in
           bind_res (mutex_give k1 h1) (\<lambda>(h2, k2).
             Inr (PWR_MONITORING_STATUS_OK, Some v, s\<lparr>pwr_mutex_handle := h2\<rparr>, k2))))"

definition PWR_GetPhaseACurrent ::
  "kernel \<Rightarrow> pwr_state \<Rightarrow> bool \<Rightarrow> (PWR_Ret_t \<times> i16 option \<times> pwr_state \<times> kernel) res" where
  "PWR_GetPhaseACurrent k s pCurrent =
     (if \<not> pCurrent then Inr (PWR_MONITORING_STATUS_ERROR, None, s, k)
      else bind_res (mutex_take k (pwr_mutex_handle s)) (\<lambda>(h1, k1).
           let v = phase_a_current_10ma s in
           bind_res (mutex_give k1 h1) (\<lambda>(h2, k2).
             Inr (PWR_MONITORING_STATUS_OK, Some v, s\<lparr>pwr_mutex_handle := h2\<rparr>, k2))))"

definition PWR_GetPhaseBCurrent ::
  "kernel \<Rightarrow> pwr_state \<Rightarrow> bool \<Rightarrow> (PWR_Ret_t \<times> i16 option \<times> pwr_state \<times> kernel) res" where
  "PWR_GetPhaseBCurrent k s pCurrent =
     (if \<not> pCurrent then Inr (PWR_MONITORING_STATUS_ERROR, None, s, k)
      else bind_res (mutex_take k (pwr_mutex_handle s)) (\<lambda>(h1, k1).
           let v = phase_b_current_10ma s in
           bind_res (mutex_give k1 h1) (\<lambda>(h2, k2).
             Inr (PWR_MONITORING_STATUS_OK, Some v, s\<lparr>pwr_mutex_handle := h2\<rparr>, k2))))"

section \<open>Each operation with a free mutex\<close>

lemmas pwr_defs = PWR_ProcessRawMeasurement_def PWR_GetBusVoltage_def PWR_GetPhaseACurrent_def
  PWR_GetPhaseBCurrent_def

lemma process_eq:
  assumes "mutex_ready k (pwr_mutex_handle s)" and "sz \<noteq> 0"
  shows "PWR_ProcessRawMeasurement k s (Some buf) sz = Inr (PWR_MONITORING_STATUS_OK, s, k)"
  using assms by (simp add: PWR_ProcessRawMeasurement_def mutex.critical_section)

lemma getters_eq:
  assumes "mutex_ready k (pwr_mutex_handle s)"
  shows "PWR_GetBusVoltage k s True = Inr (PWR_MONITORING_STATUS_OK, Some (bus_voltage_10mv s), s, k)"
    and "PWR_GetPhaseACurrent k s True =
           Inr (PWR_MONITORING_STATUS_OK, Some (phase_a_current_10ma s), s, k)"
    and "PWR_GetPhaseBCurrent k s True =
           Inr (PWR_MONITORING_STATUS_OK, Some (phase_b_current_10ma s), s, k)"
  using assms by (simp_all add: pwr_defs Let_def mutex.critical_section)

lemma init_eq:
  "PWR_InitMonitoring (Some junk) k s =
     Inr (PWR_MONITORING_STATUS_OK,
          \<lparr>pwr_mutex_handle = Some ((fresh_queue junk 1 0)\<lparr>pcHead := None, uxMessagesWaiting := 1\<rparr>),
           bus_voltage_10mv = PWR_INVALID_VOLTAGE, cumul_bus_voltage = 0,
           phase_a_current_10ma = PWR_INVALID_CURRENT, phase_b_current_10ma = PWR_INVALID_CURRENT,
           cumul_phase_a_current = 0, cumul_phase_b_current = 0\<rparr>, k)"
  by (simp add: PWR_InitMonitoring_def mutex_creation)

section \<open>Properties\<close>

text \<open>
  After a successful initialisation, and however many raw buffers have been processed since,
  every getter returns OK with the invalid marker, from any running task that may block: nothing
  in the module ever stores a measurement. Every call leaves the state, the mutex and the kernel
  as they were.
\<close>

theorem pwr_values_stay_invalid:
  assumes "kernel_ok k" and "\<forall>sz \<in> set sizes. sz \<noteq> 0"
  shows "\<exists>s'. PWR_InitMonitoring (Some junk) k s = Inr (PWR_MONITORING_STATUS_OK, s', k) \<and>
     foldl (\<lambda>r sz. bind_res r (\<lambda>(_, s, k). PWR_ProcessRawMeasurement k s (Some buf) sz))
       (Inr (PWR_MONITORING_STATUS_OK, s', k)) sizes = Inr (PWR_MONITORING_STATUS_OK, s', k) \<and>
     PWR_GetBusVoltage k s' True = Inr (PWR_MONITORING_STATUS_OK, Some PWR_INVALID_VOLTAGE, s', k) \<and>
     PWR_GetPhaseACurrent k s' True = Inr (PWR_MONITORING_STATUS_OK, Some PWR_INVALID_CURRENT, s', k) \<and>
     PWR_GetPhaseBCurrent k s' True = Inr (PWR_MONITORING_STATUS_OK, Some PWR_INVALID_CURRENT, s', k)"
proof -
  from init_eq [of junk k s] created_mutex_free [of junk] assms(1)
  obtain s' where s': "PWR_InitMonitoring (Some junk) k s = Inr (PWR_MONITORING_STATUS_OK, s', k)"
    "mutex_ready k (pwr_mutex_handle s')" "bus_voltage_10mv s' = PWR_INVALID_VOLTAGE"
    "phase_a_current_10ma s' = PWR_INVALID_CURRENT" "phase_b_current_10ma s' = PWR_INVALID_CURRENT"
    by (simp add: mutex_ready_def)
  have "foldl (\<lambda>r sz. bind_res r (\<lambda>(_, s, k). PWR_ProcessRawMeasurement k s (Some buf) sz))
       (Inr (PWR_MONITORING_STATUS_OK, s', k)) sizes = Inr (PWR_MONITORING_STATUS_OK, s', k)"
    using assms(2) by (induction sizes) (simp_all add: process_eq [OF s'(2)])
  with s' getters_eq [OF s'(2)] show ?thesis by simp
qed

theorem pwr_values_stay_invalid_witness:
  "\<exists>s'. PWR_InitMonitoring (Some (\<lambda>_. 0)) demo_kernel
           \<lparr>pwr_mutex_handle = None, bus_voltage_10mv = 1200, cumul_bus_voltage = 0,
            phase_a_current_10ma = 0, phase_b_current_10ma = 0,
            cumul_phase_a_current = 0, cumul_phase_b_current = 0\<rparr> =
         Inr (PWR_MONITORING_STATUS_OK, s', demo_kernel) \<and>
     foldl (\<lambda>r sz. bind_res r (\<lambda>(_, s, k). PWR_ProcessRawMeasurement k s (Some [1, 2]) sz))
       (Inr (PWR_MONITORING_STATUS_OK, s', demo_kernel)) [2, 2] =
       Inr (PWR_MONITORING_STATUS_OK, s', demo_kernel) \<and>
     PWR_GetBusVoltage demo_kernel s' True =
       Inr (PWR_MONITORING_STATUS_OK, Some PWR_INVALID_VOLTAGE, s', demo_kernel) \<and>
     PWR_GetPhaseACurrent demo_kernel s' True =
       Inr (PWR_MONITORING_STATUS_OK, Some PWR_INVALID_CURRENT, s', demo_kernel) \<and>
     PWR_GetPhaseBCurrent demo_kernel s' True =
       Inr (PWR_MONITORING_STATUS_OK, Some PWR_INVALID_CURRENT, s', demo_kernel)"
  by (rule pwr_values_stay_invalid) (simp_all add: kernel_ok_def demo_kernel_def demo_tcb_def)

text \<open>
  Every operation of the module is balanced on the mutex: started with a free mutex it
  returns, whatever its arguments, and leaves state, mutex and kernel exactly as they were, with
  an error status just for a null pointer or an empty buffer.
\<close>

theorem pwr_operations_balanced:
  assumes "mutex_ready k (pwr_mutex_handle s)"
  shows "PWR_ProcessRawMeasurement k s buf sz =
           Inr (if buf = None \<or> sz = 0 then PWR_MONITORING_STATUS_ERROR else PWR_MONITORING_STATUS_OK, s, k) \<and>
         PWR_GetBusVoltage k s p =
           Inr (if p then PWR_MONITORING_STATUS_OK else PWR_MONITORING_STATUS_ERROR,
                if p then Some (bus_voltage_10mv s) else None, s, k) \<and>
         PWR_GetPhaseACurrent k s p =
           Inr (if p then PWR_MONITORING_STATUS_OK else PWR_MONITORING_STATUS_ERROR,
                if p then Some (phase_a_current_10ma s) else None, s, k) \<and>
         PWR_GetPhaseBCurrent k s p =
           Inr (if p then PWR_MONITORING_STATUS_OK else PWR_MONITORING_STATUS_ERROR,
                if p then Some (phase_b_current_10ma s) else None, s, k)"
  using process_eq [OF assms] getters_eq [OF assms]
  by (cases buf; cases p) (simp_all add: pwr_defs)

theorem pwr_operations_balanced_witness:
  "PWR_GetBusVoltage demo_kernel
     \<lparr>pwr_mutex_handle = demo_mutex, bus_voltage_10mv = 1200, cumul_bus_voltage = 0,
      phase_a_current_10ma = 0, phase_b_current_10ma = 0,
      cumul_phase_a_current = 0, cumul_phase_b_current = 0\<rparr> True =
   Inr (PWR_MONITORING_STATUS_OK, Some 1200,
     \<lparr>pwr_mutex_handle = demo_mutex, bus_voltage_10mv = 1200, cumul_bus_voltage = 0,
      phase_a_current_10ma = 0, phase_b_current_10ma = 0,
      cumul_phase_a_current = 0, cumul_phase_b_current = 0\<rparr>, demo_kernel)"
  using pwr_operations_balanced [where p = True and k = demo_kernel] demo_mutex_ready by simp

end
