(* ===== verification/Gpio.thy ===== *)
theory Gpio
  imports Prelude
begin

text \<open>
  The GPIO driver of the SDK (\<^verbatim>\<open>esp_driver_gpio/src/gpio.c\<close>) as far as the application uses it,
  for the ESP32-S3. The registers of a pin are a record with one field per property the hardware
  abstraction layer (\<^verbatim>\<open>hal/esp32s3/include/hal/gpio_ll.h\<close>) writes; the spin lock around the
  register writes leaves no trace in a sequential call.
\<close>

section \<open>State\<close>

record gpio_pin =
  input_en :: bool
  output_en :: bool
  od_en :: bool
  pu_en :: bool
  pd_en :: bool
  int_type :: u32
  int_ena :: bool
  out_level :: bool
  in_level :: bool
  matrix_out :: "nat option"
  rtc_mux :: bool
  func_gpio :: bool

record gpio_context =
  pins :: "nat \<Rightarrow> gpio_pin"
  isr_core_id :: u32
  isr_clr_on_entry_mask :: u64

record gpio_config_t =
  pin_bit_mask :: u64
  gpio_mode :: u32
  pull_up_en :: bool
  pull_down_en :: bool
  intr_type :: u32

definition GPIO_ISR_CORE_ID_UNINIT :: u32 where "GPIO_ISR_CORE_ID_UNINIT = 3"
definition GPIO_PIN_COUNT :: nat where "GPIO_PIN_COUNT = 49"

definition GPIO_MODE_DEF_INPUT :: u32 where "GPIO_MODE_DEF_INPUT = 1"
definition GPIO_MODE_DEF_OUTPUT :: u32 where "GPIO_MODE_DEF_OUTPUT = 2"
definition GPIO_MODE_DEF_OD :: u32 where "GPIO_MODE_DEF_OD = 4"

definition GPIO_INTR_MAX :: u32 where "GPIO_INTR_MAX = 6"

definition SOC_GPIO_VALID_GPIO_MASK :: u64 where
  "SOC_GPIO_VALID_GPIO_MASK = 0x1FFFFFFFFFFFF AND NOT (push_bit 22 1 OR push_bit 23 1 OR push_bit 24 1 OR push_bit 25 1)"

definition SOC_GPIO_VALID_OUTPUT_GPIO_MASK :: u64 where
  "SOC_GPIO_VALID_OUTPUT_GPIO_MASK = SOC_GPIO_VALID_GPIO_MASK"

definition GPIO_IS_VALID_GPIO :: "int \<Rightarrow> bool" where
  "GPIO_IS_VALID_GPIO gpio_num \<longleftrightarrow>
     0 \<le> gpio_num \<and> push_bit (nat gpio_num) (1 :: u64) AND SOC_GPIO_VALID_GPIO_MASK \<noteq> 0"

definition GPIO_IS_VALID_OUTPUT_GPIO :: "int \<Rightarrow> bool" where
  "GPIO_IS_VALID_OUTPUT_GPIO gpio_num \<longleftrightarrow>
     0 \<le> gpio_num \<and> push_bit (nat gpio_num) (1 :: u64) AND SOC_GPIO_VALID_OUTPUT_GPIO_MASK \<noteq> 0"

text \<open>\<^verbatim>\<open>rtc_io_num_map\<close> of the ESP32-S3 is non-negative for the pads 0 to 21.\<close>

definition rtc_gpio_is_valid_gpio :: "int \<Rightarrow> bool" where
  "rtc_gpio_is_valid_gpio gpio_num \<longleftrightarrow> gpio_num < 49 \<and> gpio_num < 22"

definition upd_pin :: "int \<Rightarrow> (gpio_pin \<Rightarrow> gpio_pin) \<Rightarrow> gpio_context \<Rightarrow> gpio_context" where
  "upd_pin n f g = g\<lparr>pins := (pins g)(nat n := f (pins g (nat n)))\<rparr>"

section \<open>Single-pin operations\<close>

definition on_valid_pin ::
  "int \<Rightarrow> (gpio_pin \<Rightarrow> gpio_pin) \<Rightarrow> gpio_context \<Rightarrow> esp_err \<times> gpio_context" where
  "on_valid_pin n f g = (if \<not> GPIO_IS_VALID_GPIO n then (ESP_ERR_INVALID_ARG, g) else (ESP_OK, upd_pin n f g))"

text \<open>
  The ESP32-S3 controls the pulls of a pad independently of the RTC domain
  (\<^verbatim>\<open>SOC_GPIO_SUPPORT_RTC_INDEPENDENT\<close>), so the pull functions always write the digital pad.
\<close>

definition gpio_pullup_en :: "int \<Rightarrow> gpio_context \<Rightarrow> esp_err \<times> gpio_context" where
  "gpio_pullup_en n g = on_valid_pin n (\<lambda>p. p\<lparr>pu_en := True\<rparr>) g"

definition gpio_pullup_dis :: "int \<Rightarrow> gpio_context \<Rightarrow> esp_err \<times> gpio_context" where
  "gpio_pullup_dis n g = on_valid_pin n (\<lambda>p. p\<lparr>pu_en := False\<rparr>) g"

definition gpio_pulldown_en :: "int \<Rightarrow> gpio_context \<Rightarrow> esp_err \<times> gpio_context" where
  "gpio_pulldown_en n g = on_valid_pin n (\<lambda>p. p\<lparr>pd_en := True\<rparr>) g"

definition gpio_pulldown_dis :: "int \<Rightarrow> gpio_context \<Rightarrow> esp_err \<times> gpio_context" where
  "gpio_pulldown_dis n g = on_valid_pin n (\<lambda>p. p\<lparr>pd_en := False\<rparr>) g"

definition gpio_set_intr_type :: "int \<Rightarrow> u32 \<Rightarrow> gpio_context \<Rightarrow> esp_err \<times> gpio_context" where
  "gpio_set_intr_type n ty g =
     (if \<not> GPIO_IS_VALID_GPIO n then (ESP_ERR_INVALID_ARG, g)
      else if \<not> ty < GPIO_INTR_MAX then (ESP_ERR_INVALID_ARG, g)
      else let g1 = upd_pin n (\<lambda>p. p\<lparr>int_type := ty\<rparr>) g in
           (ESP_OK,
            if ty = 1 \<or> ty = 2 \<or> ty = 3
            then g1\<lparr>isr_clr_on_entry_mask := isr_clr_on_entry_mask g1 OR push_bit (nat n) 1\<rparr>
            else g1\<lparr>isr_clr_on_entry_mask := isr_clr_on_entry_mask g1 AND NOT (push_bit (nat n) 1)\<rparr>))"

text \<open>The core that first enables an interrupt is the argument \<^term>\<open>core\<close>.\<close>

definition gpio_intr_enable :: "u32 \<Rightarrow> int \<Rightarrow> gpio_context \<Rightarrow> esp_err \<times> gpio_context" where
  "gpio_intr_enable core n g =
     (if \<not> GPIO_IS_VALID_GPIO n then (ESP_ERR_INVALID_ARG, g)
      else let g1 = (if isr_core_id g = GPIO_ISR_CORE_ID_UNINIT then g\<lparr>isr_core_id := core\<rparr> else g)
           in (ESP_OK, upd_pin n (\<lambda>p. p\<lparr>int_ena := True\<rparr>) g1))"

definition gpio_intr_disable :: "int \<Rightarrow> gpio_context \<Rightarrow> esp_err \<times> gpio_context" where
  "gpio_intr_disable n g = on_valid_pin n (\<lambda>p. p\<lparr>int_ena := False\<rparr>) g"

definition gpio_input_enable :: "int \<Rightarrow> gpio_context \<Rightarrow> esp_err \<times> gpio_context" where
  "gpio_input_enable n g = on_valid_pin n (\<lambda>p. p\<lparr>input_en := True\<rparr>) g"

definition gpio_input_disable :: "int \<Rightarrow> gpio_context \<Rightarrow> esp_err \<times> gpio_context" where
  "gpio_input_disable n g = on_valid_pin n (\<lambda>p. p\<lparr>input_en := False\<rparr>) g"

definition gpio_output_disable :: "int \<Rightarrow> gpio_context \<Rightarrow> esp_err \<times> gpio_context" where
  "gpio_output_disable n g = on_valid_pin n (\<lambda>p. p\<lparr>output_en := False, matrix_out := None\<rparr>) g"

definition gpio_output_enable :: "int \<Rightarrow> gpio_context \<Rightarrow> esp_err \<times> gpio_context" where
  "gpio_output_enable n g =
     (if \<not> GPIO_IS_VALID_OUTPUT_GPIO n then (ESP_ERR_INVALID_ARG, g)
      else (ESP_OK, upd_pin n (\<lambda>p. p\<lparr>matrix_out := None, output_en := True\<rparr>) g))"

definition gpio_od_disable :: "int \<Rightarrow> gpio_context \<Rightarrow> esp_err \<times> gpio_context" where
  "gpio_od_disable n g = on_valid_pin n (\<lambda>p. p\<lparr>od_en := False\<rparr>) g"

definition gpio_od_enable :: "int \<Rightarrow> gpio_context \<Rightarrow> esp_err \<times> gpio_context" where
  "gpio_od_enable n g = on_valid_pin n (\<lambda>p. p\<lparr>od_en := True\<rparr>) g"

definition gpio_set_level :: "int \<Rightarrow> u32 \<Rightarrow> gpio_context \<Rightarrow> esp_err \<times> gpio_context" where
  "gpio_set_level n level g =
     (if \<not> GPIO_IS_VALID_OUTPUT_GPIO n then (ESP_ERR_INVALID_ARG, g)
      else (ESP_OK, upd_pin n (\<lambda>p. p\<lparr>out_level := (level \<noteq> 0)\<rparr>) g))"

definition gpio_get_level :: "int \<Rightarrow> gpio_context \<Rightarrow> int" where
  "gpio_get_level n g = (if in_level (pins g (nat n)) then 1 else 0)"

definition gpio_set_direction :: "int \<Rightarrow> u32 \<Rightarrow> gpio_context \<Rightarrow> esp_err \<times> gpio_context" where
  "gpio_set_direction n mode g =
     (if \<not> GPIO_IS_VALID_GPIO n then (ESP_ERR_INVALID_ARG, g)
      else if \<not> GPIO_IS_VALID_OUTPUT_GPIO n \<and> mode AND GPIO_MODE_DEF_OUTPUT \<noteq> 0
      then (ESP_ERR_INVALID_ARG, g)
      else let g1 = snd (if mode AND GPIO_MODE_DEF_INPUT \<noteq> 0 then gpio_input_enable n g
                         else gpio_input_disable n g);
               g2 = snd (if mode AND GPIO_MODE_DEF_OUTPUT \<noteq> 0 then gpio_output_enable n g1
                         else gpio_output_disable n g1);
               g3 = snd (if mode AND GPIO_MODE_DEF_OD \<noteq> 0 then gpio_od_enable n g2
                         else gpio_od_disable n g2)
           in (ESP_OK, g3))"

definition rtc_gpio_deinit :: "int \<Rightarrow> gpio_context \<Rightarrow> esp_err \<times> gpio_context" where
  "rtc_gpio_deinit n g =
     (if \<not> rtc_gpio_is_valid_gpio n then (ESP_ERR_INVALID_ARG, g)
      else (ESP_OK, upd_pin n (\<lambda>p. p\<lparr>rtc_mux := False\<rparr>) g))"

section \<open>Configuration of a set of pins\<close>

text \<open>The body of the loop of \<^verbatim>\<open>gpio_config\<close> for a pin of the mask.\<close>

definition gpio_config_pin :: "u32 \<Rightarrow> gpio_config_t \<Rightarrow> nat \<Rightarrow> gpio_context \<Rightarrow> gpio_context" where
  "gpio_config_pin core cfg io_num g0 =
     (let n = int io_num;
          mode = gpio_mode cfg;
          g1 = (if rtc_gpio_is_valid_gpio n then snd (rtc_gpio_deinit n g0) else g0);
          g2 = snd (if mode AND GPIO_MODE_DEF_INPUT \<noteq> 0 then gpio_input_enable n g1
                    else gpio_input_disable n g1);
          g3 = snd (if mode AND GPIO_MODE_DEF_OD \<noteq> 0 then gpio_od_enable n g2
                    else gpio_od_disable n g2);
          g4 = snd (if mode AND GPIO_MODE_DEF_OUTPUT \<noteq> 0 then gpio_output_enable n g3
                    else gpio_output_disable n g3);
          g5 = snd (if pull_up_en cfg then gpio_pullup_en n g4 else gpio_pullup_dis n g4);
          g6 = snd (if pull_down_en cfg then gpio_pulldown_en n g5 else gpio_pulldown_dis n g5);
          g7 = snd (gpio_set_intr_type n (intr_type cfg) g6);
          g8 = snd (if intr_type cfg \<noteq> 0 then gpio_intr_enable core n g7 else gpio_intr_disable n g7)
      in upd_pin n (\<lambda>p. p\<lparr>func_gpio := True\<rparr>) g8)"

definition gpio_config_loop :: "u32 \<Rightarrow> gpio_config_t \<Rightarrow> nat list \<Rightarrow> gpio_context \<Rightarrow> gpio_context" where
  "gpio_config_loop core cfg ios g =
     fold (\<lambda>io g. if drop_bit io (pin_bit_mask cfg) AND 1 \<noteq> 0 then gpio_config_pin core cfg io g else g) ios g"

definition gpio_config :: "u32 \<Rightarrow> gpio_config_t \<Rightarrow> gpio_context \<Rightarrow> esp_err \<times> gpio_context" where
  "gpio_config core cfg g =
     (if pin_bit_mask cfg = 0 \<or> pin_bit_mask cfg AND NOT SOC_GPIO_VALID_GPIO_MASK \<noteq> 0
      then (ESP_ERR_INVALID_ARG, g)
      else if gpio_mode cfg AND GPIO_MODE_DEF_OUTPUT \<noteq> 0 \<and>
              pin_bit_mask cfg AND NOT SOC_GPIO_VALID_OUTPUT_GPIO_MASK \<noteq> 0
      then (ESP_ERR_INVALID_ARG, g)
      else (ESP_OK, gpio_config_loop core cfg [0..<GPIO_PIN_COUNT] g))"

section \<open>Valid pins\<close>

lemma valid_gpio_iff: "GPIO_IS_VALID_GPIO (int n) \<longleftrightarrow> bit SOC_GPIO_VALID_GPIO_MASK n"
  by (simp add: GPIO_IS_VALID_GPIO_def bit_iff_and_push_bit_not_eq_0 and.commute)

lemma valid_output_eq: "GPIO_IS_VALID_OUTPUT_GPIO = GPIO_IS_VALID_GPIO"
  by (simp add: fun_eq_iff GPIO_IS_VALID_GPIO_def GPIO_IS_VALID_OUTPUT_GPIO_def
      SOC_GPIO_VALID_OUTPUT_GPIO_MASK_def)

lemma shifted_bit: "drop_bit n (w :: u64) AND 1 \<noteq> 0 \<longleftrightarrow> bit w n"
  by (simp add: bit_iff_odd_drop_bit and_one_eq odd_iff_mod_2_eq_one)

lemma mask_pin_valid:
  assumes "m AND NOT SOC_GPIO_VALID_GPIO_MASK = 0" and "bit m n"
  shows "GPIO_IS_VALID_GPIO (int n)"
proof (rule ccontr)
  assume "\<not> GPIO_IS_VALID_GPIO (int n)"
  then have "bit (m AND NOT SOC_GPIO_VALID_GPIO_MASK) n"
    using assms(2) by (auto simp: valid_gpio_iff bit_simps dest: bit_imp_le_length)
  with assms(1) show False by simp
qed

section \<open>What the configuration of a pin amounts to\<close>

definition configured_pin :: "gpio_config_t \<Rightarrow> nat \<Rightarrow> gpio_pin \<Rightarrow> gpio_pin" where
  "configured_pin cfg n p =
     p\<lparr>rtc_mux := (\<not> n < 22 \<and> rtc_mux p),
       input_en := (gpio_mode cfg AND GPIO_MODE_DEF_INPUT \<noteq> 0),
       od_en := (gpio_mode cfg AND GPIO_MODE_DEF_OD \<noteq> 0),
       output_en := (gpio_mode cfg AND GPIO_MODE_DEF_OUTPUT \<noteq> 0), matrix_out := None,
       pu_en := pull_up_en cfg, pd_en := pull_down_en cfg,
       int_type := (if intr_type cfg < GPIO_INTR_MAX then intr_type cfg else int_type p),
       int_ena := (intr_type cfg \<noteq> 0), func_gpio := True\<rparr>"

lemma pins_upd_pin [simp]: "pins (upd_pin n f g) = (pins g)(nat n := f (pins g (nat n)))"
  by (simp add: upd_pin_def)

lemmas gpio_pin_ops = gpio_pullup_en_def gpio_pullup_dis_def gpio_pulldown_en_def
  gpio_pulldown_dis_def gpio_set_intr_type_def gpio_intr_enable_def gpio_intr_disable_def
  gpio_input_enable_def gpio_input_disable_def gpio_output_disable_def gpio_output_enable_def
  gpio_od_disable_def gpio_od_enable_def rtc_gpio_deinit_def on_valid_pin_def

lemma output_en_matrix: "p\<lparr>matrix_out := m, output_en := b\<rparr> = p\<lparr>output_en := b, matrix_out := m\<rparr>"
  by simp

lemma gpio_pair_ops:
  assumes "GPIO_IS_VALID_GPIO n"
  shows "snd (if b then gpio_input_enable n g else gpio_input_disable n g) =
           upd_pin n (\<lambda>p. p\<lparr>input_en := b\<rparr>) g"
    and "snd (if b then gpio_od_enable n g else gpio_od_disable n g) = upd_pin n (\<lambda>p. p\<lparr>od_en := b\<rparr>) g"
    and "snd (if b then gpio_output_enable n g else gpio_output_disable n g) =
           upd_pin n (\<lambda>p. p\<lparr>output_en := b, matrix_out := None\<rparr>) g"
    and "snd (if b then gpio_pullup_en n g else gpio_pullup_dis n g) = upd_pin n (\<lambda>p. p\<lparr>pu_en := b\<rparr>) g"
    and "snd (if b then gpio_pulldown_en n g else gpio_pulldown_dis n g) =
           upd_pin n (\<lambda>p. p\<lparr>pd_en := b\<rparr>) g"
  using assms by (simp_all add: gpio_pin_ops valid_output_eq output_en_matrix)

lemma intr_ops_pins:
  assumes "GPIO_IS_VALID_GPIO n"
  shows "pins (snd (gpio_set_intr_type n ty g)) =
           (pins g)(nat n := (pins g (nat n))
             \<lparr>int_type := if ty < GPIO_INTR_MAX then ty else int_type (pins g (nat n))\<rparr>)"
    and "pins (snd (if b then gpio_intr_enable core n g else gpio_intr_disable n g)) =
           (pins g)(nat n := (pins g (nat n))\<lparr>int_ena := b\<rparr>)"
    and "pins (if rtc_gpio_is_valid_gpio n then snd (rtc_gpio_deinit n g) else g) =
           (pins g)(nat n := (pins g (nat n))\<lparr>rtc_mux := \<not> n < 22 \<and> rtc_mux (pins g (nat n))\<rparr>)"
  using assms by (auto simp: gpio_pin_ops Let_def rtc_gpio_is_valid_gpio_def)

lemma config_pin_pins:
  assumes "GPIO_IS_VALID_GPIO (int n)"
  shows "pins (gpio_config_pin core cfg n g) = (pins g)(n := configured_pin cfg n (pins g n))"
  unfolding gpio_config_pin_def Let_def gpio_pair_ops [OF assms] pins_upd_pin intr_ops_pins [OF assms]
  by (simp add: configured_pin_def)

lemma config_loop_pins:
  assumes "distinct ios" and "\<forall>io. bit (pin_bit_mask cfg) io \<longrightarrow> GPIO_IS_VALID_GPIO (int io)"
  shows "pins (gpio_config_loop core cfg ios g) n =
    (if n \<in> set ios \<and> bit (pin_bit_mask cfg) n then configured_pin cfg n (pins g n) else pins g n)"
  using assms
  by (induction ios arbitrary: g)
    (simp_all add: gpio_config_loop_def shifted_bit config_pin_pins)

lemma bit_single_pin: "bit (push_bit k 1 :: u64) n \<longleftrightarrow> n = k \<and> n < 64"
  by (auto simp: bit_exp_iff)

lemma valid_mask_bits: "bit SOC_GPIO_VALID_GPIO_MASK n \<longleftrightarrow> n < 49 \<and> n \<notin> {22, 23, 24, 25}"
proof -
  have a: "bit (0x1FFFFFFFFFFFF :: u64) n \<longleftrightarrow> n < 49"
    using bit_mask_iff [of 49 n, where 'a = u64] by (auto simp: mask_eq_exp_minus_1)
  have c: "possible_bit TYPE(u64) n \<longleftrightarrow> n < 64" by simp
  show ?thesis
    unfolding SOC_GPIO_VALID_GPIO_MASK_def bit_and_iff bit_not_iff bit_or_iff a bit_single_pin c by auto
qed

lemma mask_valid_iff:
  "m AND NOT SOC_GPIO_VALID_GPIO_MASK = 0 \<longleftrightarrow> (\<forall>n. bit m n \<longrightarrow> n < 49 \<and> n \<notin> {22, 23, 24, 25})"
proof -
  have "m AND NOT SOC_GPIO_VALID_GPIO_MASK = 0 \<longleftrightarrow> (\<forall>n. bit m n \<longrightarrow> bit SOC_GPIO_VALID_GPIO_MASK n)"
    by (auto simp: bit_eq_iff bit_simps) (use bit_imp_le_length in fastforce)
  then show ?thesis by (simp only: valid_mask_bits)
qed

lemma gpio_config_ok:
  assumes "pin_bit_mask cfg \<noteq> 0" and "pin_bit_mask cfg AND NOT SOC_GPIO_VALID_GPIO_MASK = 0"
  shows "\<exists>g'. gpio_config core cfg g = (ESP_OK, g') \<and>
    (\<forall>n. pins g' n = (if bit (pin_bit_mask cfg) n then configured_pin cfg n (pins g n) else pins g n))"
  using assms config_loop_pins [of "[0..<GPIO_PIN_COUNT]" cfg core g]
    iffD1 [OF mask_valid_iff assms(2)] mask_pin_valid [OF assms(2)]
  by (auto simp: gpio_config_def SOC_GPIO_VALID_OUTPUT_GPIO_MASK_def GPIO_PIN_COUNT_def)

section \<open>Property\<close>

text \<open>
  Configuring a set of pins succeeds exactly for a non-empty set of pins that the chip has
  (0 to 48 without 22 to 25); then every pin of the set has the requested direction, pulls,
  interrupt and GPIO function with no peripheral routed to it, and no other pin has changed;
  otherwise the call returns \<^verbatim>\<open>ESP_ERR_INVALID_ARG\<close> and changes nothing.
\<close>

theorem gpio_config_exact:
  "(if pin_bit_mask cfg \<noteq> 0 \<and> (\<forall>n. bit (pin_bit_mask cfg) n \<longrightarrow> n < 49 \<and> n \<notin> {22, 23, 24, 25})
    then \<exists>g'. gpio_config core cfg g = (ESP_OK, g') \<and>
           (\<forall>n. pins g' n = (if bit (pin_bit_mask cfg) n then configured_pin cfg n (pins g n)
                             else pins g n))
    else gpio_config core cfg g = (ESP_ERR_INVALID_ARG, g))"
  unfolding mask_valid_iff [symmetric] using gpio_config_ok [of cfg core g]
  by (auto simp: gpio_config_def)

definition demo_pin :: gpio_pin where
  "demo_pin = \<lparr>input_en = False, output_en = False, od_en = False, pu_en = True, pd_en = False,
     int_type = 0, int_ena = False, out_level = False, in_level = False, matrix_out = None,
     rtc_mux = False, func_gpio = False\<rparr>"

definition demo_gpio :: gpio_context where
  "demo_gpio = \<lparr>pins = \<lambda>_. demo_pin, isr_core_id = 3, isr_clr_on_entry_mask = 0\<rparr>"

definition demo_output_config :: gpio_config_t where
  "demo_output_config = \<lparr>pin_bit_mask = push_bit 41 1, gpio_mode = 2, pull_up_en = False,
     pull_down_en = False, intr_type = 0\<rparr>"

theorem gpio_config_exact_witness:
  "\<exists>g'. gpio_config 0 demo_output_config demo_gpio = (ESP_OK, g') \<and>
     output_en (pins g' 41) \<and> \<not> pu_en (pins g' 41) \<and> pins g' 42 = demo_pin"
proof -
  have b: "bit (pin_bit_mask demo_output_config) n \<longleftrightarrow> n = 41" for n
    unfolding demo_output_config_def by (auto simp del: push_bit_of_1 simp: bit_single_pin)
  then have "pin_bit_mask demo_output_config \<noteq> 0" by (metis bit_0_eq bot_apply bot_bool_def)
  with gpio_config_exact [of demo_output_config 0 demo_gpio] b obtain g' where
    g': "gpio_config 0 demo_output_config demo_gpio = (ESP_OK, g')"
    "\<forall>n. pins g' n = (if n = 41 then configured_pin demo_output_config n (pins demo_gpio n)
                     else pins demo_gpio n)" by auto
  then show ?thesis
    by (simp add: configured_pin_def demo_output_config_def demo_gpio_def GPIO_MODE_DEF_OUTPUT_def)
qed

end
