(* ===== verification/SensorController.thy ===== *)
theory SensorController
  imports FreeRTOS_Queue Gpio
begin

text \<open>
  The sensor controller (\<^verbatim>\<open>Sensors/sensorController.c\<close>, \<^verbatim>\<open>.h\<close>): a task that walks through the
  steps of a measurement, paced by a binary semaphore, and drives the enable pin of the
  temperature sensors. The steps are also given as an abstract transition system, which one
  iteration of the task's loop implements.
\<close>

section \<open>State\<close>

datatype SENSOR_Step_t =
    SENSOR_STEP_IDLE
  | SENSOR_STEP_EN_SENSOR
  | SENSOR_STEP_START_ADC
  | SENSOR_STEP_PROCESS_TEMP
  | SENSOR_STEP_PROCESS_PWR
  | SENSOR_STEP_INVALID

datatype SENSOR_Ret_t = SENSOR_STATUS_ERROR | SENSOR_STATUS_OK

record sensor_state =
  sensor_task_handle :: "task option"
  sensor_semphr_handle :: QueueHandle_t
  sensor_step :: SENSOR_Step_t

definition HWI_SENSOR_EN_GPIO :: int where "HWI_SENSOR_EN_GPIO = 41"

text \<open>One tick is one millisecond, so the delays in ticks are those in milliseconds.\<close>

definition SENSOR_SEMAPHORE_TIMEOUT_MS :: u32 where "SENSOR_SEMAPHORE_TIMEOUT_MS = 1000"
definition SENSOR_LOOP_PERIOD_MS :: u32 where "SENSOR_LOOP_PERIOD_MS = 250"
definition INTER_STEP_DELAY_MS :: u32 where "INTER_STEP_DELAY_MS = 10"

section \<open>Operations\<close>

definition enableTempSensors :: "gpio_context \<Rightarrow> gpio_context" where
  "enableTempSensors g = snd (gpio_set_level HWI_SENSOR_EN_GPIO 1 g)"

definition disableTempSensors :: "gpio_context \<Rightarrow> gpio_context" where
  "disableTempSensors g = snd (gpio_set_level HWI_SENSOR_EN_GPIO 0 g)"

type_synonym sensor_sys = "sensor_state \<times> gpio_context \<times> kernel"

text \<open>The end of most steps: go to the next step, sleep, and give the semaphore back.\<close>

definition next_step :: "SENSOR_Step_t \<Rightarrow> u32 \<Rightarrow> kernel \<Rightarrow> sensor_state \<Rightarrow> gpio_context \<Rightarrow> sensor_sys res" where
  "next_step st delay k s g =
     (let s1 = s\<lparr>sensor_step := st\<rparr> in
      bind_res (vTaskDelay delay k) (\<lambda>k1.
      bind_res (xSemaphoreGive k1 (sensor_semphr_handle s1)) (\<lambda>(_, h, k2).
        Inr (s1\<lparr>sensor_semphr_handle := h\<rparr>, g, k2))))"

definition tSensorTask_iteration ::
  "env \<Rightarrow> kernel \<Rightarrow> sensor_state \<Rightarrow> gpio_context \<Rightarrow> sensor_sys res" where
  "tSensorTask_iteration e k s g =
     bind_res (xSemaphoreTake e k (sensor_semphr_handle s) SENSOR_SEMAPHORE_TIMEOUT_MS) (\<lambda>(r, h, k1).
       let s1 = s\<lparr>sensor_semphr_handle := h\<rparr> in
       if r = pdTRUE
       then case sensor_step s1 of
              SENSOR_STEP_IDLE \<Rightarrow> next_step SENSOR_STEP_EN_SENSOR INTER_STEP_DELAY_MS k1 s1 g
            | SENSOR_STEP_EN_SENSOR \<Rightarrow>
                next_step SENSOR_STEP_START_ADC INTER_STEP_DELAY_MS k1 s1 (enableTempSensors g)
            | SENSOR_STEP_START_ADC \<Rightarrow> Inr (s1\<lparr>sensor_step := SENSOR_STEP_PROCESS_PWR\<rparr>, g, k1)
            | SENSOR_STEP_PROCESS_PWR \<Rightarrow>
                next_step SENSOR_STEP_PROCESS_TEMP INTER_STEP_DELAY_MS k1 s1 (disableTempSensors g)
            | SENSOR_STEP_PROCESS_TEMP \<Rightarrow> next_step SENSOR_STEP_IDLE SENSOR_LOOP_PERIOD_MS k1 s1 g
            | SENSOR_STEP_INVALID \<Rightarrow> next_step SENSOR_STEP_IDLE INTER_STEP_DELAY_MS k1 s1 g
       else Inr (s1, g, k1))"

text \<open>
  The task's endless loop, for a number of iterations in which nobody else touches the semaphore:
  a wait then ends by its timeout.
\<close>

definition undisturbed :: "kernel \<Rightarrow> QueueHandle_t \<Rightarrow> env" where
  "undisturbed k h = (case h of None \<Rightarrow> [] | Some q \<Rightarrow> [(ticks_later SENSOR_SEMAPHORE_TIMEOUT_MS k, q)])"

fun tSensorTask_loop :: "nat \<Rightarrow> kernel \<Rightarrow> sensor_state \<Rightarrow> gpio_context \<Rightarrow> sensor_sys res" where
  "tSensorTask_loop 0 k s g = Inr (s, g, k)"
| "tSensorTask_loop (Suc n) k s g =
     bind_res (tSensorTask_iteration (undisturbed k (sensor_semphr_handle s)) k s g) (\<lambda>(s', g', k').
       tSensorTask_loop n k' s' g')"

definition tSensorTask :: "nat \<Rightarrow> kernel \<Rightarrow> sensor_state \<Rightarrow> gpio_context \<Rightarrow> sensor_sys res" where
  "tSensorTask n k s g =
     bind_res (xSemaphoreGive k (sensor_semphr_handle s)) (\<lambda>(_, h, k1).
       tSensorTask_loop n k1 (s\<lparr>sensor_semphr_handle := h\<rparr>) g)"

text \<open>
  The outcome of \<^verbatim>\<open>xTaskCreate\<close> is an argument: the handle of the new task, or \<^term>\<open>None\<close> when there
  is no memory for it.
\<close>

definition SENSOR_InitController ::
  "alloc \<Rightarrow> task option \<Rightarrow> u32 \<Rightarrow> sensor_state \<Rightarrow> gpio_context \<Rightarrow>
   (SENSOR_Ret_t \<times> sensor_state \<times> gpio_context) res" where
  "SENSOR_InitController a created core s g =
     (let s1 = s\<lparr>sensor_step := SENSOR_STEP_IDLE\<rparr>;
          gpio_cfg = \<lparr>pin_bit_mask = push_bit (nat HWI_SENSOR_EN_GPIO) 1,
                      gpio_mode = GPIO_MODE_DEF_OUTPUT,
                      pull_up_en = False, pull_down_en = False, intr_type = 0\<rparr>;
          (r, g1) = gpio_config core gpio_cfg g
      in if r \<noteq> ESP_OK then Inr (SENSOR_STATUS_ERROR, s1, g1)
         else bind_res (xSemaphoreCreateBinary a) (\<lambda>h.
              let s2 = s1\<lparr>sensor_semphr_handle := h\<rparr> in
              if h = None then Inr (SENSOR_STATUS_ERROR, s2, g1)
              else case created of
                     None \<Rightarrow> Inr (SENSOR_STATUS_ERROR, s2, g1)
                   | Some t \<Rightarrow> Inr (SENSOR_STATUS_OK, s2\<lparr>sensor_task_handle := Some t\<rparr>, g1)))"

section \<open>The abstract state machine\<close>

text \<open>The step, whether the semaphore is available, and whether the sensors are powered.\<close>

record sensor_abs =
  a_step :: SENSOR_Step_t
  a_token :: bool
  a_enabled :: bool

inductive sensor_trans :: "sensor_abs \<Rightarrow> sensor_abs \<Rightarrow> bool" where
  idle: "sensor_trans \<lparr>a_step = SENSOR_STEP_IDLE, a_token = True, a_enabled = b\<rparr>
           \<lparr>a_step = SENSOR_STEP_EN_SENSOR, a_token = True, a_enabled = b\<rparr>"
| en_sensor: "sensor_trans \<lparr>a_step = SENSOR_STEP_EN_SENSOR, a_token = True, a_enabled = b\<rparr>
           \<lparr>a_step = SENSOR_STEP_START_ADC, a_token = True, a_enabled = True\<rparr>"
| start_adc: "sensor_trans \<lparr>a_step = SENSOR_STEP_START_ADC, a_token = True, a_enabled = b\<rparr>
           \<lparr>a_step = SENSOR_STEP_PROCESS_PWR, a_token = False, a_enabled = b\<rparr>"
| process_pwr: "sensor_trans \<lparr>a_step = SENSOR_STEP_PROCESS_PWR, a_token = True, a_enabled = b\<rparr>
           \<lparr>a_step = SENSOR_STEP_PROCESS_TEMP, a_token = True, a_enabled = False\<rparr>"
| process_temp: "sensor_trans \<lparr>a_step = SENSOR_STEP_PROCESS_TEMP, a_token = True, a_enabled = b\<rparr>
           \<lparr>a_step = SENSOR_STEP_IDLE, a_token = True, a_enabled = b\<rparr>"
| invalid: "sensor_trans \<lparr>a_step = SENSOR_STEP_INVALID, a_token = True, a_enabled = b\<rparr>
           \<lparr>a_step = SENSOR_STEP_IDLE, a_token = True, a_enabled = b\<rparr>"
| timeout: "\<not> a_token a \<Longrightarrow> sensor_trans a a"

inductive_simps sensor_trans_iff: "sensor_trans a b"

text \<open>
  The states the machine reaches from its start, when in addition somebody (the end of an ADC
  conversion, in the design the comments describe) may give the semaphore at any time.
\<close>

inductive sensor_reach :: "sensor_abs \<Rightarrow> bool" where
  start: "sensor_reach \<lparr>a_step = SENSOR_STEP_IDLE, a_token = True, a_enabled = False\<rparr>"
| task_step: "sensor_reach a \<Longrightarrow> sensor_trans a b \<Longrightarrow> sensor_reach b"
| adc_done: "sensor_reach a \<Longrightarrow> sensor_reach (a\<lparr>a_token := True\<rparr>)"

definition sensor_safe :: "sensor_abs \<Rightarrow> bool" where
  "sensor_safe a \<longleftrightarrow>
     a_step a \<noteq> SENSOR_STEP_INVALID \<and>
     (a_enabled a \<longleftrightarrow> a_step a = SENSOR_STEP_START_ADC \<or> a_step a = SENSOR_STEP_PROCESS_PWR) \<and>
     (a_token a \<or> a_step a = SENSOR_STEP_PROCESS_PWR)"

lemma sensor_trans_safe: "sensor_trans a b \<Longrightarrow> sensor_safe a \<Longrightarrow> sensor_safe b"
  by (induction rule: sensor_trans.induct) (auto simp: sensor_safe_def)

lemma sensor_reach_safe: "sensor_reach a \<Longrightarrow> sensor_safe a"
  by (induction rule: sensor_reach.induct) (auto simp: sensor_safe_def dest: sensor_trans_safe)

section \<open>The task implements the state machine\<close>

definition sensor_abs_of :: "sensor_state \<Rightarrow> gpio_context \<Rightarrow> sensor_abs" where
  "sensor_abs_of s g =
     \<lparr>a_step = sensor_step s,
      a_token = (case sensor_semphr_handle s of None \<Rightarrow> False | Some q \<Rightarrow> uxMessagesWaiting q \<noteq> 0),
      a_enabled = out_level (pins g (nat HWI_SENSOR_EN_GPIO))\<rparr>"

definition sensor_task_ok :: "kernel \<Rightarrow> bool" where
  "sensor_task_ok k \<longleftrightarrow> \<not> uxSchedulerSuspended k \<and>
     (case pxCurrentTCB k of None \<Rightarrow> False | Some t \<Rightarrow> \<not> ucDelayAborted (tcbs k t))"

definition sensor_ok :: "kernel \<Rightarrow> sensor_state \<Rightarrow> bool" where
  "sensor_ok k s \<longleftrightarrow> sensor_task_ok k \<and>
     (case sensor_semphr_handle s of None \<Rightarrow> False | Some q \<Rightarrow> binary_sem True q \<or> binary_sem False q)"

lemma ticks_later_ok [simp]: "sensor_task_ok (ticks_later n k) = sensor_task_ok k"
  by (simp add: sensor_task_ok_def split: option.split)

lemma sensor_pin_valid [simp]: "GPIO_IS_VALID_OUTPUT_GPIO HWI_SENSOR_EN_GPIO"
proof -
  have "HWI_SENSOR_EN_GPIO = int 41" by (simp add: HWI_SENSOR_EN_GPIO_def)
  then show ?thesis using valid_gpio_iff [of 41] valid_mask_bits [of 41] by (simp add: valid_output_eq)
qed

lemma switch_level [simp]:
  "out_level (pins (enableTempSensors g) (nat HWI_SENSOR_EN_GPIO)) = True"
  "out_level (pins (disableTempSensors g) (nat HWI_SENSOR_EN_GPIO)) = False"
  by (simp_all add: enableTempSensors_def disableTempSensors_def gpio_set_level_def)

lemma next_step_eq:
  assumes "sensor_task_ok k" and "sensor_semphr_handle s = Some q" and "binary_sem False q"
    and "delay \<noteq> 0"
  shows "next_step st delay k s g =
    Inr (s\<lparr>sensor_step := st, sensor_semphr_handle := Some (q\<lparr>uxMessagesWaiting := 1\<rparr>)\<rparr>, g,
         ticks_later delay k)"
  using assms binary_give_eq [OF assms(3)]
  by (simp add: next_step_def vTaskDelay_eq sensor_task_ok_def Let_def)

lemmas sensor_delays = SENSOR_SEMAPHORE_TIMEOUT_MS_def SENSOR_LOOP_PERIOD_MS_def
  INTER_STEP_DELAY_MS_def

lemma iteration_timeout:
  assumes "sensor_task_ok k" and "sensor_semphr_handle s = Some q" and "binary_sem False q"
  shows "tSensorTask_iteration (undisturbed k (sensor_semphr_handle s)) k s g =
    Inr (s, g, ticks_later SENSOR_SEMAPHORE_TIMEOUT_MS k)"
proof -
  from assms(1) obtain t where "pxCurrentTCB k = Some t" "\<not> ucDelayAborted (tcbs k t)"
    "\<not> uxSchedulerSuspended k" by (auto simp: sensor_task_ok_def split: option.splits)
  with binary_take_timeout [OF assms(3), of k t SENSOR_SEMAPHORE_TIMEOUT_MS] assms(2)
  show ?thesis
    by (simp add: tSensorTask_iteration_def undisturbed_def portMAX_DELAY_def sensor_delays
        basetype_defs)
qed

definition step_effect :: "SENSOR_Step_t \<Rightarrow> SENSOR_Step_t \<times> bool \<times> (gpio_context \<Rightarrow> gpio_context) \<times> u32" where
  "step_effect st =
     (case st of
        SENSOR_STEP_IDLE \<Rightarrow> (SENSOR_STEP_EN_SENSOR, True, id, INTER_STEP_DELAY_MS)
      | SENSOR_STEP_EN_SENSOR \<Rightarrow> (SENSOR_STEP_START_ADC, True, enableTempSensors, INTER_STEP_DELAY_MS)
      | SENSOR_STEP_START_ADC \<Rightarrow> (SENSOR_STEP_PROCESS_PWR, False, id, 0)
      | SENSOR_STEP_PROCESS_PWR \<Rightarrow> (SENSOR_STEP_PROCESS_TEMP, True, disableTempSensors, INTER_STEP_DELAY_MS)
      | SENSOR_STEP_PROCESS_TEMP \<Rightarrow> (SENSOR_STEP_IDLE, True, id, SENSOR_LOOP_PERIOD_MS)
      | SENSOR_STEP_INVALID \<Rightarrow> (SENSOR_STEP_IDLE, True, id, INTER_STEP_DELAY_MS))"

lemma iteration_taken:
  assumes "sensor_task_ok k" and "sensor_semphr_handle s = Some q" and "binary_sem True q"
    and "step_effect (sensor_step s) = (st, give, f, delay)"
  shows "tSensorTask_iteration e k s g =
    Inr (s\<lparr>sensor_step := st,
           sensor_semphr_handle := Some (q\<lparr>uxMessagesWaiting := if give then 1 else 0\<rparr>)\<rparr>,
         f g, if give then ticks_later delay k else k)"
proof -
  let ?s = "s\<lparr>sensor_semphr_handle := Some (q\<lparr>uxMessagesWaiting := 0\<rparr>)\<rparr>"
  have "may_block k SENSOR_SEMAPHORE_TIMEOUT_MS" using assms(1)
    by (simp add: may_block_def sensor_task_ok_def)
  note take = binary_take_eq [OF assms(3) this, of e]
  have "binary_sem False (q\<lparr>uxMessagesWaiting := 0\<rparr>)" using assms(3) by simp
  note step = next_step_eq [OF assms(1), of ?s "q\<lparr>uxMessagesWaiting := 0\<rparr>", OF _ this]
  show ?thesis using assms(2,4) take
    by (cases "sensor_step s")
      (auto simp: tSensorTask_iteration_def step_effect_def Let_def step sensor_delays)
qed

lemma iteration_refines:
  assumes "sensor_ok k s"
  shows "\<exists>s' g' k'. tSensorTask_iteration (undisturbed k (sensor_semphr_handle s)) k s g = Inr (s', g', k') \<and>
           sensor_ok k' s' \<and> sensor_trans (sensor_abs_of s g) (sensor_abs_of s' g')"
proof -
  from assms obtain q where q: "sensor_task_ok k" "sensor_semphr_handle s = Some q"
    "binary_sem True q \<or> binary_sem False q"
    by (auto simp: sensor_ok_def split: option.splits)
  show ?thesis
  proof (cases "binary_sem True q")
    case True
    obtain st give f delay where e: "step_effect (sensor_step s) = (st, give, f, delay)"
      by (cases "step_effect (sensor_step s)") auto
    have n: "uxMessagesWaiting q \<noteq> 0" using True by (simp add: binary_sem_def)
    from iteration_taken [OF q(1,2) True e] q(1,2) True e n show ?thesis
      by (cases "sensor_step s")
        (auto simp: sensor_ok_def sensor_abs_of_def step_effect_def intro: sensor_trans.intros)
  next
    case False
    then have b: "binary_sem False q" using q(3) by simp
    then have "\<not> a_token (sensor_abs_of s g)" using q(2) by (simp add: sensor_abs_of_def binary_sem_def)
    with iteration_timeout [OF q(1,2) b] assms q(1) show ?thesis
      by (auto simp: sensor_ok_def intro: sensor_trans.timeout)
  qed
qed

section \<open>Whole runs\<close>

lemma loop_refines:
  assumes "sensor_ok k s"
  shows "\<exists>s' g' k'. tSensorTask_loop n k s g = Inr (s', g', k') \<and> sensor_ok k' s' \<and>
           sensor_trans\<^sup>*\<^sup>* (sensor_abs_of s g) (sensor_abs_of s' g')"
  using assms
proof (induction n arbitrary: k s g)
  case (Suc n)
  from iteration_refines [OF Suc.prems] obtain s1 g1 k1 where
    1: "tSensorTask_iteration (undisturbed k (sensor_semphr_handle s)) k s g = Inr (s1, g1, k1)"
    "sensor_ok k1 s1" "sensor_trans (sensor_abs_of s g) (sensor_abs_of s1 g1)" by blast
  from Suc.IH [OF 1(2), of g1] obtain s' g' k' where "tSensorTask_loop n k1 s1 g1 = Inr (s', g', k')"
    "sensor_ok k' s'" "sensor_trans\<^sup>*\<^sup>* (sensor_abs_of s1 g1) (sensor_abs_of s' g')" by blast
  with 1 show ?case by (auto intro: converse_rtranclp_into_rtranclp)
qed auto

lemma sensor_trans_star_reach: "sensor_trans\<^sup>*\<^sup>* a b \<Longrightarrow> sensor_reach a \<Longrightarrow> sensor_reach b"
  by (induction rule: rtranclp_induct) (auto intro: sensor_reach.task_step)

lemma loop_add:
  "tSensorTask_loop (m + n) k s g =
     bind_res (tSensorTask_loop m k s g) (\<lambda>(s', g', k'). tSensorTask_loop n k' s' g')"
  by (induction m arbitrary: k s g) (auto simp: bind_res_def split: sum.splits)

lemma loop_stalled:
  assumes "sensor_task_ok k" and "sensor_semphr_handle s = Some q" and "binary_sem False q"
  shows "\<exists>k'. tSensorTask_loop n k s g = Inr (s, g, k')"
  using assms(1)
proof (induction n arbitrary: k)
  case (Suc n)
  then show ?case using iteration_timeout [OF Suc.prems assms(2,3), of g] by simp
qed simp

text \<open>One iteration with the semaphore available, and its effect written out.\<close>

lemma loop_taken:
  assumes "sensor_task_ok k" and "sensor_semphr_handle s = Some q" and "binary_sem True q"
  shows "tSensorTask_loop (Suc n) k s g =
    (case step_effect (sensor_step s) of (st, give, f, delay) \<Rightarrow>
       tSensorTask_loop n (if give then ticks_later delay k else k)
         (s\<lparr>sensor_step := st,
            sensor_semphr_handle := Some (q\<lparr>uxMessagesWaiting := if give then 1 else 0\<rparr>)\<rparr>) (f g))"
  using iteration_taken [OF assms] by (cases "step_effect (sensor_step s)") simp

lemmas run_loop = loop_taken step_effect_def

lemma loop_first_three:
  assumes "sensor_task_ok k" and "sensor_semphr_handle s = Some q" and "binary_sem True q"
    and "sensor_step s = SENSOR_STEP_IDLE"
  shows "tSensorTask_loop 3 k s g =
    Inr (s\<lparr>sensor_step := SENSOR_STEP_PROCESS_PWR,
           sensor_semphr_handle := Some (q\<lparr>uxMessagesWaiting := 0\<rparr>)\<rparr>,
         enableTempSensors g, ticks_later INTER_STEP_DELAY_MS (ticks_later INTER_STEP_DELAY_MS k))"
  unfolding numeral_3_eq_3 using assms by (simp add: run_loop del: tSensorTask_loop.simps(2))

lemma loop_last_two:
  assumes "sensor_task_ok k" and "sensor_semphr_handle s = Some q" and "binary_sem True q"
    and "sensor_step s = SENSOR_STEP_PROCESS_PWR"
  shows "tSensorTask_loop 2 k s g =
    Inr (s\<lparr>sensor_step := SENSOR_STEP_IDLE,
           sensor_semphr_handle := Some (q\<lparr>uxMessagesWaiting := 1\<rparr>)\<rparr>,
         disableTempSensors g, ticks_later SENSOR_LOOP_PERIOD_MS (ticks_later INTER_STEP_DELAY_MS k))"
  unfolding numeral_2_eq_2 using assms by (simp add: run_loop del: tSensorTask_loop.simps(2))

section \<open>Properties\<close>

text \<open>
  C1. The sensor task never stops and implements the state machine: from a well-formed start any
  number of loop iterations returns, every iteration is a transition of the abstract machine,
  and in every state reached from the start (even if the semaphore is given from outside at any
  time) the temperature sensors are powered exactly in the steps between their enabling and
  their disabling, and the semaphore is missing only while the conversion is awaited.
\<close>

theorem sensor_task_safe:
  assumes "sensor_ok k s" and "sensor_reach (sensor_abs_of s g)"
  shows "\<exists>s' g' k'. tSensorTask_loop n k s g = Inr (s', g', k') \<and>
           sensor_trans\<^sup>*\<^sup>* (sensor_abs_of s g) (sensor_abs_of s' g') \<and>
           sensor_safe (sensor_abs_of s' g')"
  using loop_refines [OF assms(1), of n g] assms(2)
  by (blast intro: sensor_reach_safe sensor_trans_star_reach)

definition demo_sem :: Queue_t where "demo_sem = fresh_queue (\<lambda>_. 0) 1 0"

definition demo_sensor :: "bool \<Rightarrow> sensor_state" where
  "demo_sensor given = \<lparr>sensor_task_handle = Some 1,
     sensor_semphr_handle = Some (demo_sem\<lparr>uxMessagesWaiting := if given then 1 else 0\<rparr>),
     sensor_step = SENSOR_STEP_IDLE\<rparr>"

lemma demo_sensor_ok:
  "sensor_task_ok demo_kernel" "binary_sem b (demo_sem\<lparr>uxMessagesWaiting := if b then 1 else 0\<rparr>)"
  "sensor_semphr_handle (demo_sensor b) = Some (demo_sem\<lparr>uxMessagesWaiting := if b then 1 else 0\<rparr>)"
  "sensor_step (demo_sensor b) = SENSOR_STEP_IDLE"
  by (simp_all add: sensor_task_ok_def demo_kernel_def demo_tcb_def binary_sem_def demo_sem_def
      fresh_queue_def is_mutex_def demo_sensor_def)

theorem sensor_task_safe_witness:
  "\<exists>s' g' k'. tSensorTask_loop 7 demo_kernel (demo_sensor True) demo_gpio = Inr (s', g', k') \<and>
     sensor_trans\<^sup>*\<^sup>* (sensor_abs_of (demo_sensor True) demo_gpio) (sensor_abs_of s' g') \<and>
     sensor_safe (sensor_abs_of s' g')"
proof (rule sensor_task_safe)
  show "sensor_ok demo_kernel (demo_sensor True)"
    using demo_sensor_ok(1) demo_sensor_ok(2) [of True] by (simp add: sensor_ok_def demo_sensor_ok(3))
  have "sensor_abs_of (demo_sensor True) demo_gpio =
    \<lparr>a_step = SENSOR_STEP_IDLE, a_token = True, a_enabled = False\<rparr>"
    by (simp add: sensor_abs_of_def demo_sensor_def demo_gpio_def demo_pin_def)
  then show "sensor_reach (sensor_abs_of (demo_sensor True) demo_gpio)"
    by (simp add: sensor_reach.start)
qed

text \<open>
  C35. The measurement stalls: started on a fresh semaphore in the idle step, with nobody else
  giving the semaphore (no code of the application does), the task reaches the step that waits
  for the conversion after three iterations and stays in it for every further iteration, with
  the temperature sensors left powered.
\<close>

theorem sensor_task_stalls:
  assumes "sensor_task_ok k" and "sensor_semphr_handle s = Some q" and "binary_sem False q"
    and "sensor_step s = SENSOR_STEP_IDLE"
  shows "\<exists>s' g' k'. tSensorTask (3 + n) k s g = Inr (s', g', k') \<and>
           sensor_step s' = SENSOR_STEP_PROCESS_PWR \<and> out_level (pins g' 41)"
proof -
  let ?q1 = "q\<lparr>uxMessagesWaiting := 1\<rparr>" and ?q0 = "q\<lparr>uxMessagesWaiting := 0\<rparr>"
  let ?s1 = "s\<lparr>sensor_semphr_handle := Some ?q1\<rparr>"
  let ?s3 = "s\<lparr>sensor_step := SENSOR_STEP_PROCESS_PWR, sensor_semphr_handle := Some ?q0\<rparr>"
  let ?k = "ticks_later INTER_STEP_DELAY_MS (ticks_later INTER_STEP_DELAY_MS k)"
  have "tSensorTask_loop 3 k ?s1 g = Inr (?s3, enableTempSensors g, ?k)"
    using loop_first_three [of k ?s1 ?q1 g] assms by simp
  moreover obtain k' where "tSensorTask_loop n ?k ?s3 (enableTempSensors g) =
      Inr (?s3, enableTempSensors g, k')"
    using loop_stalled [of ?k ?s3 ?q0 n] assms(1,3) by auto
  ultimately have "tSensorTask (3 + n) k s g = Inr (?s3, enableTempSensors g, k')"
    using binary_give_eq [OF assms(3), of k] assms(2) by (simp add: tSensorTask_def loop_add)
  then show ?thesis using switch_level(1) [of g] by (simp add: HWI_SENSOR_EN_GPIO_def)
qed

theorem sensor_task_stalls_witness:
  "\<exists>s' g' k'. tSensorTask (3 + 100) demo_kernel (demo_sensor False) demo_gpio = Inr (s', g', k') \<and>
     sensor_step s' = SENSOR_STEP_PROCESS_PWR \<and> out_level (pins g' 41)"
  using demo_sensor_ok(2) [of False] by (intro sensor_task_stalls) (simp_all add: demo_sensor_ok)

text \<open>
  C36. A measurement cycle completes once its conversion is signalled: from the idle step the
  task powers the sensors and waits; after one give from outside two iterations bring it back to
  the idle step with the sensors off and the semaphore available again, 280 ticks of delays after
  its start.
\<close>

theorem sensor_cycle_completes:
  assumes "sensor_task_ok k" and "sensor_semphr_handle s = Some q" and "binary_sem True q"
    and "sensor_step s = SENSOR_STEP_IDLE"
  shows "\<exists>s1 g1 k1 h s2 g2 k2.
           tSensorTask_loop 3 k s g = Inr (s1, g1, k1) \<and> out_level (pins g1 41) \<and>
           xSemaphoreGive k1 (sensor_semphr_handle s1) = Inr (pdPASS, h, k1) \<and>
           tSensorTask_loop 2 k1 (s1\<lparr>sensor_semphr_handle := h\<rparr>) g1 = Inr (s2, g2, k2) \<and>
           s2 = s \<and> \<not> out_level (pins g2 41) \<and> xTickCount k2 = xTickCount k + 280"
proof -
  let ?q0 = "q\<lparr>uxMessagesWaiting := 0\<rparr>" and ?q1 = "q\<lparr>uxMessagesWaiting := 1\<rparr>"
  let ?s1 = "s\<lparr>sensor_step := SENSOR_STEP_PROCESS_PWR, sensor_semphr_handle := Some ?q0\<rparr>"
  let ?k1 = "ticks_later INTER_STEP_DELAY_MS (ticks_later INTER_STEP_DELAY_MS k)"
  let ?k2 = "ticks_later SENSOR_LOOP_PERIOD_MS (ticks_later INTER_STEP_DELAY_MS ?k1)"
  have q1: "?q1 = q" using assms(3) by (simp add: binary_sem_def)
  have s: "s\<lparr>sensor_step := SENSOR_STEP_IDLE, sensor_semphr_handle := Some q\<rparr> = s"
    using assms(2,4) by simp
  have one: "tSensorTask_loop 3 k s g = Inr (?s1, enableTempSensors g, ?k1)"
    by (rule loop_first_three [OF assms])
  have give: "xSemaphoreGive ?k1 (Some ?q0) = Inr (pdPASS, Some q, ?k1)"
    using binary_give_eq [of False ?q0 ?k1] assms(3) by (simp add: q1)
  have two: "tSensorTask_loop 2 ?k1 (?s1\<lparr>sensor_semphr_handle := Some q\<rparr>) (enableTempSensors g) =
      Inr (s, disableTempSensors (enableTempSensors g), ?k2)"
    using loop_last_two [of ?k1 "?s1\<lparr>sensor_semphr_handle := Some q\<rparr>" q "enableTempSensors g"]
      assms(1,3) s by (simp add: q1)
  have "xTickCount ?k2 = xTickCount k + 280" by (simp add: sensor_delays)
  with one give two show ?thesis
    using switch_level(1) [of g] switch_level(2) [of "enableTempSensors g"]
    by (simp add: HWI_SENSOR_EN_GPIO_def)
qed

theorem sensor_cycle_completes_witness:
  "\<exists>s1 g1 k1 h s2 g2 k2.
     tSensorTask_loop 3 demo_kernel (demo_sensor True) demo_gpio = Inr (s1, g1, k1) \<and>
     out_level (pins g1 41) \<and>
     xSemaphoreGive k1 (sensor_semphr_handle s1) = Inr (pdPASS, h, k1) \<and>
     tSensorTask_loop 2 k1 (s1\<lparr>sensor_semphr_handle := h\<rparr>) g1 = Inr (s2, g2, k2) \<and>
     s2 = demo_sensor True \<and> \<not> out_level (pins g2 41) \<and> xTickCount k2 = xTickCount demo_kernel + 280"
  using demo_sensor_ok(2) [of True] by (intro sensor_cycle_completes) (simp_all add: demo_sensor_ok)

text \<open>
  Initialisation: it succeeds exactly when there is memory for the semaphore and for the
  task; the enable pin is then a plain output and the semaphore exists, not yet given, with the
  step idle. In every other case it reports an error, and no other pin is ever touched.
\<close>

theorem sensor_init_behaviour:
  "\<exists>r s' g'. SENSOR_InitController a created core s g = Inr (r, s', g') \<and>
     (r = SENSOR_STATUS_OK \<longleftrightarrow> a \<noteq> None \<and> created \<noteq> None) \<and>
     sensor_step s' = SENSOR_STEP_IDLE \<and>
     output_en (pins g' 41) \<and> \<not> input_en (pins g' 41) \<and> \<not> int_ena (pins g' 41) \<and>
     (\<forall>n. n \<noteq> 41 \<longrightarrow> pins g' n = pins g n) \<and>
     (r = SENSOR_STATUS_OK \<longrightarrow> sensor_task_handle s' = created \<and>
        (\<exists>q. sensor_semphr_handle s' = Some q \<and> binary_sem False q))"
proof -
  let ?cfg = "\<lparr>pin_bit_mask = push_bit (nat HWI_SENSOR_EN_GPIO) 1, gpio_mode = GPIO_MODE_DEF_OUTPUT,
               pull_up_en = False, pull_down_en = False, intr_type = 0\<rparr> :: gpio_config_t"
  have b: "bit (pin_bit_mask ?cfg) n \<longleftrightarrow> n = 41" for n
    by (auto simp del: push_bit_of_1 simp: bit_single_pin HWI_SENSOR_EN_GPIO_def)
  then have nz: "pin_bit_mask ?cfg \<noteq> 0" by (metis bit_0_eq bot_apply bot_bool_def)
  have "pin_bit_mask ?cfg AND NOT SOC_GPIO_VALID_GPIO_MASK = 0"
    unfolding mask_valid_iff using b by auto
  from gpio_config_ok [OF nz this, of core g] obtain g' where
    g': "gpio_config core ?cfg g = (ESP_OK, g')"
    "\<forall>n. pins g' n = (if n = 41 then configured_pin ?cfg n (pins g n) else pins g n)"
    using b by auto
  show ?thesis
    using g' create_binary_eq [of "the a"] create_binary_no_memory
    by (cases a; cases created)
      (auto simp: SENSOR_InitController_def Let_def configured_pin_def GPIO_MODE_DEF_OUTPUT_def
        GPIO_MODE_DEF_INPUT_def)
qed

theorem sensor_init_behaviour_witness:
  "\<exists>r s' g'. SENSOR_InitController (Some (\<lambda>_. 0)) (Some 4) 0 (demo_sensor False) demo_gpio = Inr (r, s', g') \<and>
     r = SENSOR_STATUS_OK \<and> output_en (pins g' 41) \<and> pins g' 42 = demo_pin"
  using sensor_init_behaviour [of "Some (\<lambda>_. 0)" "Some 4" 0 "demo_sensor False" demo_gpio]
  by (auto simp: demo_gpio_def)

end
