(* ===== verification/UserInterface.thy ===== *)
theory UserInterface
  imports FreeRTOS_Queue
begin

text \<open>
  The user interface (\<^verbatim>\<open>UserInterface/userInterface.c\<close>, \<^verbatim>\<open>.h\<close>): an event queue of eight entries
  and the task that drains it. The theory shows that the pair is a bounded first-in-first-out
  channel of events, and what the status that \<^verbatim>\<open>UI_PostEvent\<close> returns says about it.
\<close>

section \<open>State\<close>

datatype UI_Event_t =
    UI_EVENT_BOOT
  | UI_EVENT_RESET
  | UI_EVENT_OVER_TEMP
  | UI_EVENT_NORMAL_TEMP
  | UI_EVENT_LOW_VOLTAGE
  | UI_EVENT_NORMAL_VOLTAGE
  | UI_EVENT_INVALID

datatype UI_Ret_t = UI_STATUS_ERROR | UI_STATUS_OK

record ui_state =
  ui_task_handle :: "task option"
  ui_event_queue_handle :: QueueHandle_t

definition UI_EVENT_QUEUE_SIZE :: u32 where "UI_EVENT_QUEUE_SIZE = 8"
definition UI_EVENT_TIMEOUT_MS :: u32 where "UI_EVENT_TIMEOUT_MS = 250"

text \<open>An enumeration is a four-byte little-endian integer in memory.\<close>

definition sizeof_UI_Event_t :: u32 where "sizeof_UI_Event_t = 4"

fun ui_event_code :: "UI_Event_t \<Rightarrow> u8" where
  "ui_event_code UI_EVENT_BOOT = 0"
| "ui_event_code UI_EVENT_RESET = 1"
| "ui_event_code UI_EVENT_OVER_TEMP = 2"
| "ui_event_code UI_EVENT_NORMAL_TEMP = 3"
| "ui_event_code UI_EVENT_LOW_VOLTAGE = 4"
| "ui_event_code UI_EVENT_NORMAL_VOLTAGE = 5"
| "ui_event_code UI_EVENT_INVALID = 6"

definition ui_event_bytes :: "UI_Event_t \<Rightarrow> u8 list" where
  "ui_event_bytes ev = [ui_event_code ev, 0, 0, 0]"

definition ui_event_of_bytes :: "u8 list \<Rightarrow> UI_Event_t" where
  "ui_event_of_bytes bs =
     (if bs = ui_event_bytes UI_EVENT_BOOT then UI_EVENT_BOOT
      else if bs = ui_event_bytes UI_EVENT_RESET then UI_EVENT_RESET
      else if bs = ui_event_bytes UI_EVENT_OVER_TEMP then UI_EVENT_OVER_TEMP
      else if bs = ui_event_bytes UI_EVENT_NORMAL_TEMP then UI_EVENT_NORMAL_TEMP
      else if bs = ui_event_bytes UI_EVENT_LOW_VOLTAGE then UI_EVENT_LOW_VOLTAGE
      else if bs = ui_event_bytes UI_EVENT_NORMAL_VOLTAGE then UI_EVENT_NORMAL_VOLTAGE
      else UI_EVENT_INVALID)"

section \<open>Operations\<close>

text \<open>One iteration of the task's loop: the local \<^verbatim>\<open>event\<close> is overwritten when one arrives.\<close>

definition tUiTask_iteration ::
  "env \<Rightarrow> kernel \<Rightarrow> ui_state \<Rightarrow> UI_Event_t \<Rightarrow> (UI_Event_t \<times> ui_state \<times> kernel) res" where
  "tUiTask_iteration e k s event =
     bind_res (xQueueReceive e k (ui_event_queue_handle s) UI_EVENT_TIMEOUT_MS) (\<lambda>(r, bs, q, k').
       let s' = s\<lparr>ui_event_queue_handle := Some q\<rparr> in
       if r = pdTRUE then Inr (ui_event_of_bytes bs, s', k') else Inr (event, s', k'))"

text \<open>The outcome of \<^verbatim>\<open>xTaskCreate\<close> is an argument, \<^term>\<open>None\<close> when there is no memory.\<close>

definition UI_Init :: "alloc \<Rightarrow> task option \<Rightarrow> ui_state \<Rightarrow> (UI_Ret_t \<times> ui_state) res" where
  "UI_Init a created s =
     bind_res (xQueueGenericCreate a UI_EVENT_QUEUE_SIZE sizeof_UI_Event_t) (\<lambda>h.
       let s1 = s\<lparr>ui_event_queue_handle := h\<rparr> in
       if h = None then Inr (UI_STATUS_ERROR, s1)
       else case created of
              None \<Rightarrow> Inr (UI_STATUS_ERROR, s1)
            | Some t \<Rightarrow> Inr (UI_STATUS_OK, s1\<lparr>ui_task_handle := Some t\<rparr>))"

definition UI_PostEvent ::
  "env \<Rightarrow> kernel \<Rightarrow> ui_state \<Rightarrow> UI_Event_t \<Rightarrow> u32 \<Rightarrow> (UI_Ret_t \<times> ui_state \<times> kernel) res" where
  "UI_PostEvent e k s event timeout_ms =
     (if event = UI_EVENT_INVALID then Inr (UI_STATUS_ERROR, s, k)
      else if ui_event_queue_handle s = None then Inr (UI_STATUS_ERROR, s, k)
      else bind_res (xQueueGenericSend e k (ui_event_queue_handle s) (Some (ui_event_bytes event))
                       timeout_ms queueSEND_TO_BACK) (\<lambda>(r, q, k').
             let s' = s\<lparr>ui_event_queue_handle := Some q\<rparr> in
             if esp_err_code ESP_OK \<noteq> r then Inr (UI_STATUS_ERROR, s', k')
             else Inr (UI_STATUS_OK, s', k')))"

section \<open>Events and their bytes\<close>

lemma ui_event_roundtrip [simp]: "ui_event_of_bytes (ui_event_bytes ev) = ev"
  by (cases ev) (simp_all add: ui_event_of_bytes_def ui_event_bytes_def)

lemma ui_event_bytes_length [simp]: "length (ui_event_bytes ev) = 4"
  by (simp add: ui_event_bytes_def)

section \<open>The event queue\<close>

definition ui_inv :: "ui_state \<Rightarrow> bool" where
  "ui_inv s \<longleftrightarrow>
     (case ui_event_queue_handle s of
        None \<Rightarrow> False
      | Some q \<Rightarrow> queue_inv q \<and> qlen q = 8 \<and> isz q = 4 \<and>
          (\<forall>bs \<in> set (q_items q). \<exists>ev. ev \<noteq> UI_EVENT_INVALID \<and> bs = ui_event_bytes ev))"

definition ui_events :: "ui_state \<Rightarrow> UI_Event_t list" where
  "ui_events s = (case ui_event_queue_handle s of None \<Rightarrow> [] | Some q \<Rightarrow> map ui_event_of_bytes (q_items q))"

lemma ui_invE:
  assumes "ui_inv s"
  obtains q where "ui_event_queue_handle s = Some q" "queue_inv q" "qlen q = 8" "isz q = 4"
    "ui_events s = map ui_event_of_bytes (q_items q)" "qcnt q = length (ui_events s)"
    "\<forall>bs \<in> set (q_items q). \<exists>ev. ev \<noteq> UI_EVENT_INVALID \<and> bs = ui_event_bytes ev"
  using assms that by (auto simp: ui_inv_def ui_events_def split: option.splits)

lemma post_room:
  assumes "ui_inv s" and "ev \<noteq> UI_EVENT_INVALID" and "length (ui_events s) < 8" and "may_block k n"
  shows "\<exists>s'. UI_PostEvent e k s ev n = Inr (UI_STATUS_ERROR, s', k) \<and> ui_inv s' \<and>
           ui_events s' = ui_events s @ [ev]"
  using assms(1)
proof (rule ui_invE)
  fix q
  assume q: "ui_event_queue_handle s = Some q" "queue_inv q" "qlen q = 8" "isz q = 4"
    "ui_events s = map ui_event_of_bytes (q_items q)" "qcnt q = length (ui_events s)"
    "\<forall>bs \<in> set (q_items q). \<exists>ev. ev \<noteq> UI_EVENT_INVALID \<and> bs = ui_event_bytes ev"
  have pre: "length (ui_event_bytes ev) = isz q" "qcnt q < qlen q" using q assms(3) by simp_all
  let ?q = "wake_receiver (q_push_back q (ui_event_bytes ev))"
  have "UI_PostEvent e k s ev n = Inr (UI_STATUS_ERROR, s\<lparr>ui_event_queue_handle := Some ?q\<rparr>, k)"
    using send_room_eq [OF q(2) pre assms(4)] assms(2) q(1) by (simp add: UI_PostEvent_def basetype_defs)
  moreover have "queue_inv ?q" "q_items ?q = q_items q @ [ui_event_bytes ev]" "qlen ?q = 8" "isz ?q = 4"
    using push_back_inv [OF q(2) pre] push_back_items [OF q(2) pre] q(3,4)
    by (simp_all add: push_back_frame)
  ultimately show ?thesis using q(5,7) assms(2) by (auto simp: ui_inv_def ui_events_def)
qed

lemma post_full:
  assumes "ui_inv s" and "ev \<noteq> UI_EVENT_INVALID" and "length (ui_events s) = 8"
  shows "UI_PostEvent e k s ev 0 = Inr (UI_STATUS_OK, s, k)"
  using assms(1)
proof (rule ui_invE)
  fix q
  assume q: "ui_event_queue_handle s = Some q" "queue_inv q" "qlen q = 8"
    "qcnt q = length (ui_events s)"
  have "s\<lparr>ui_event_queue_handle := Some q\<rparr> = s" using q(1) by simp
  with q send_full_eq [OF q(2), of e k "ui_event_bytes ev"] assms(2,3) show ?thesis
    by (simp add: UI_PostEvent_def basetype_defs)
qed

lemma task_receives:
  assumes "ui_inv s" and "ui_events s \<noteq> []" and "may_block k UI_EVENT_TIMEOUT_MS"
  shows "\<exists>s'. tUiTask_iteration e k s ev = Inr (hd (ui_events s), s', k) \<and> ui_inv s' \<and>
           ui_events s' = tl (ui_events s) \<and> hd (ui_events s) \<noteq> UI_EVENT_INVALID"
  using assms(1)
proof (rule ui_invE)
  fix q
  assume q: "ui_event_queue_handle s = Some q" "queue_inv q" "qlen q = 8" "isz q = 4"
    "ui_events s = map ui_event_of_bytes (q_items q)" "qcnt q = length (ui_events s)"
    "\<forall>bs \<in> set (q_items q). \<exists>ev. ev \<noteq> UI_EVENT_INVALID \<and> bs = ui_event_bytes ev"
  have c: "0 < qcnt q" using q(6) assms(2) by simp
  have ne: "q_items q \<noteq> []" using assms(2) q(5) by auto
  let ?q = "wake_sender (q_pop q)"
  have "tUiTask_iteration e k s ev =
      Inr (ui_event_of_bytes (hd (q_items q)), s\<lparr>ui_event_queue_handle := Some ?q\<rparr>, k)"
    using receive_some_eq [OF q(2) c assms(3)] q(1) by (simp add: tUiTask_iteration_def basetype_defs)
  moreover have "queue_inv ?q" "q_items ?q = tl (q_items q)" "qlen ?q = 8" "isz ?q = 4"
    using pop_inv [OF q(2) c] pop_items [OF q(2) c] q(3,4) by (simp_all add: pop_frame)
  moreover have "set (tl (q_items q)) \<subseteq> set (q_items q)" "hd (q_items q) \<in> set (q_items q)"
    using ne by (auto dest: list.set_sel(2))
  moreover have "ui_event_of_bytes (hd (q_items q)) \<noteq> UI_EVENT_INVALID"
    using q(7) ne by (metis list.set_sel(1) ui_event_roundtrip)
  ultimately show ?thesis using q(5,7) ne
    by (auto simp: ui_inv_def ui_events_def hd_map map_tl)
qed

lemma task_waits:
  assumes "ui_inv s" and "ui_events s = []" and "\<not> uxSchedulerSuspended k"
    and "pxCurrentTCB k = Some t" and "\<not> ucDelayAborted (tcbs k t)"
    and "ui_event_queue_handle s = Some q"
  shows "tUiTask_iteration [(ticks_later UI_EVENT_TIMEOUT_MS k, q)] k s ev =
    Inr (ev, s, ticks_later UI_EVENT_TIMEOUT_MS k)"
proof -
  have "qcnt q = 0" using ui_invE [OF assms(1)] assms(2,6) by fastforce
  with receive_timeout_eq [OF _ assms(3-5), of q UI_EVENT_TIMEOUT_MS] assms(6)
  have "tUiTask_iteration [(ticks_later UI_EVENT_TIMEOUT_MS k, q)] k s ev =
    Inr (ev, s\<lparr>ui_event_queue_handle := Some q\<rparr>, ticks_later UI_EVENT_TIMEOUT_MS k)"
    by (simp add: tUiTask_iteration_def UI_EVENT_TIMEOUT_MS_def portMAX_DELAY_def basetype_defs)
  moreover have "s\<lparr>ui_event_queue_handle := Some q\<rparr> = s" using assms(6) by simp
  ultimately show ?thesis by simp
qed

section \<open>The user interface as a channel of events\<close>

text \<open>
  Posting without waiting: the event has been accepted when the queue took it, which
  \<^verbatim>\<open>UI_PostEvent\<close> reports as \<^verbatim>\<open>UI_STATUS_ERROR\<close>.
\<close>

definition ui_post :: "kernel \<Rightarrow> ui_state \<Rightarrow> UI_Event_t \<Rightarrow> ui_state option" where
  "ui_post k s ev =
     (if ev = UI_EVENT_INVALID then None
      else case UI_PostEvent [] k s ev 0 of
             Inr (UI_STATUS_ERROR, s', _) \<Rightarrow> Some s'
           | _ \<Rightarrow> None)"

definition ui_take :: "kernel \<Rightarrow> ui_state \<Rightarrow> (UI_Event_t \<times> ui_state) option" where
  "ui_take k s =
     (case ui_event_queue_handle s of
        None \<Rightarrow> None
      | Some q \<Rightarrow>
          (case tUiTask_iteration [(ticks_later UI_EVENT_TIMEOUT_MS k, q)] k s UI_EVENT_INVALID of
             Inr (ev, s', _) \<Rightarrow> if ev = UI_EVENT_INVALID then None else Some (ev, s')
           | Inl _ \<Rightarrow> None))"

definition ui_kernel_ok :: "kernel \<Rightarrow> bool" where
  "ui_kernel_ok k \<longleftrightarrow> \<not> uxSchedulerSuspended k \<and>
     (case pxCurrentTCB k of None \<Rightarrow> False | Some t \<Rightarrow> \<not> ucDelayAborted (tcbs k t))"

lemma ui_kernel_may_block: "ui_kernel_ok k \<Longrightarrow> may_block k n"
  by (simp add: ui_kernel_ok_def may_block_def)

interpretation ui_channel: bounded_fifo "\<lambda>s. ui_inv s \<and> ui_kernel_ok k" ui_events "\<lambda>_. 8"
  "\<lambda>_ ev. ev \<noteq> UI_EVENT_INVALID" "ui_post k" "ui_take k" for k
proof unfold_locales
  fix s ev
  assume "ui_inv s \<and> ui_kernel_ok k" "ev \<noteq> UI_EVENT_INVALID" "length (ui_events s) < 8"
  then show "\<exists>s'. ui_post k s ev = Some s' \<and> (ui_inv s' \<and> ui_kernel_ok k) \<and>
      ui_events s' = ui_events s @ [ev] \<and> (8 :: nat) = 8 \<and>
      (\<lambda>ev. ev \<noteq> UI_EVENT_INVALID) = (\<lambda>ev. ev \<noteq> UI_EVENT_INVALID)"
    using post_room [of s ev k 0 "[]"] by (auto simp: ui_post_def)
next
  fix s ev
  assume "ui_inv s \<and> ui_kernel_ok k" "length (ui_events s) = 8"
  then show "ui_post k s ev = None" using post_full [of s ev "[]" k] by (simp add: ui_post_def)
next
  fix s
  assume a: "ui_inv s \<and> ui_kernel_ok k" "ui_events s \<noteq> []"
  then obtain q where "ui_event_queue_handle s = Some q" by (auto elim: ui_invE)
  with a show "\<exists>s'. ui_take k s = Some (hd (ui_events s), s') \<and> (ui_inv s' \<and> ui_kernel_ok k) \<and>
      ui_events s' = tl (ui_events s) \<and> (8 :: nat) = 8 \<and>
      (\<lambda>ev. ev \<noteq> UI_EVENT_INVALID) = (\<lambda>ev. ev \<noteq> UI_EVENT_INVALID)"
    using task_receives [of s k "[(ticks_later UI_EVENT_TIMEOUT_MS k, q)]" UI_EVENT_INVALID]
    by (auto simp: ui_take_def ui_kernel_may_block)
next
  fix s
  assume a: "ui_inv s \<and> ui_kernel_ok k" "ui_events s = []"
  then obtain q where "ui_event_queue_handle s = Some q" by (auto elim: ui_invE)
  with a show "ui_take k s = None"
    using task_waits [of s k _ q UI_EVENT_INVALID]
    by (auto simp: ui_take_def ui_kernel_ok_def split: option.splits)
qed

lemma ui_init_eq:
  "UI_Init (Some junk) (Some t) s =
     Inr (UI_STATUS_OK, s\<lparr>ui_event_queue_handle := Some (fresh_queue junk 8 4), ui_task_handle := Some t\<rparr>)"
  by (simp add: UI_Init_def UI_EVENT_QUEUE_SIZE_def sizeof_UI_Event_t_def create_eq create_ok_def
      SIZE_MAX_def sizeof_Queue_t_def)

lemma ui_init_inv:
  "ui_event_queue_handle s = Some (fresh_queue junk 8 4) \<Longrightarrow> ui_inv s \<and> ui_events s = []"
  using fresh_queue_inv [of 8 4 junk]
  by (simp add: ui_inv_def ui_events_def) (simp add: fresh_queue_def qlen_def isz_def)

section \<open>Properties\<close>

text \<open>
  C15. Events are delivered: after a successful initialisation up to eight valid events can be
  posted without waiting, and the iterations of the user interface task then receive exactly
  these events in the order in which they were posted.
\<close>

theorem ui_events_delivered_in_order:
  assumes "ui_kernel_ok k" and "\<forall>ev \<in> set evs. ev \<noteq> UI_EVENT_INVALID" and "length evs \<le> 8"
  shows "\<exists>s1 s2. UI_Init (Some junk) (Some t) s = Inr (UI_STATUS_OK, s1) \<and>
           send_all (ui_post k) s1 evs = Some s2 \<and> recv_all (ui_take k) (length evs) s2 = evs"
proof -
  let ?s1 = "s\<lparr>ui_event_queue_handle := Some (fresh_queue junk 8 4), ui_task_handle := Some t\<rparr>"
  have "ui_inv ?s1 \<and> ui_events ?s1 = []" by (rule ui_init_inv) simp
  then have "\<exists>s2. send_all (ui_post k) ?s1 evs = Some s2 \<and> recv_all (ui_take k) (length evs) s2 = evs"
    using assms by (intro ui_channel.fifo) auto
  then show ?thesis using ui_init_eq by blast
qed

theorem ui_events_delivered_in_order_witness:
  "\<exists>s1 s2. UI_Init (Some (\<lambda>_. 0)) (Some 3) \<lparr>ui_task_handle = None, ui_event_queue_handle = None\<rparr>
             = Inr (UI_STATUS_OK, s1) \<and>
     send_all (ui_post demo_kernel) s1 [UI_EVENT_BOOT, UI_EVENT_OVER_TEMP] = Some s2 \<and>
     recv_all (ui_take demo_kernel) (length [UI_EVENT_BOOT, UI_EVENT_OVER_TEMP]) s2 =
       [UI_EVENT_BOOT, UI_EVENT_OVER_TEMP]"
  by (rule ui_events_delivered_in_order) (simp_all add: ui_kernel_ok_def demo_kernel_def demo_tcb_def)

text \<open>
  The status of \<^verbatim>\<open>UI_PostEvent\<close> is inverted: an event that was put into the queue is reported
  as \<^verbatim>\<open>UI_STATUS_ERROR\<close>, and an event dropped because the queue is full is reported as
  \<^verbatim>\<open>UI_STATUS_OK\<close>. (The code compares the result of \<^verbatim>\<open>xQueueSend\<close>, 1 on success, with
  \<^verbatim>\<open>ESP_OK\<close>, 0.)
\<close>

theorem ui_post_status_inverted:
  assumes "ui_inv s" and "ev \<noteq> UI_EVENT_INVALID"
  shows "(length (ui_events s) < 8 \<longrightarrow>
            (\<exists>s'. UI_PostEvent [] k s ev 0 = Inr (UI_STATUS_ERROR, s', k) \<and>
                  ui_events s' = ui_events s @ [ev])) \<and>
         (length (ui_events s) = 8 \<longrightarrow> UI_PostEvent [] k s ev 0 = Inr (UI_STATUS_OK, s, k))"
  using post_room [OF assms, of k 0 "[]"] post_full [OF assms, of "[]" k] by auto

theorem ui_post_status_inverted_witness:
  "\<exists>s'. UI_PostEvent [] demo_kernel
          \<lparr>ui_task_handle = None, ui_event_queue_handle = Some (fresh_queue (\<lambda>_. 0) 8 4)\<rparr>
          UI_EVENT_BOOT 0 = Inr (UI_STATUS_ERROR, s', demo_kernel) \<and> ui_events s' = [UI_EVENT_BOOT]"
proof -
  let ?s = "\<lparr>ui_task_handle = None, ui_event_queue_handle = Some (fresh_queue (\<lambda>_. 0) 8 4)\<rparr>"
  have i: "ui_inv ?s \<and> ui_events ?s = []" by (rule ui_init_inv) simp
  with ui_post_status_inverted [of ?s UI_EVENT_BOOT demo_kernel] show ?thesis by simp
qed

end
