(* ===== verification/TriggerDriver.thy ===== *)
theory TriggerDriver
  imports FreeRTOS_Tasks Gpio
begin

text \<open>
  The trigger driver (\<^verbatim>\<open>UserInterface/triggerDriver.c\<close>, \<^verbatim>\<open>.h\<close>): a task samples a push button every
  20 ms and reports debounced state changes to a callback. The file is not in the list of sources
  of the build, and does not compile: before it increments \<^verbatim>\<open>trigger_release_cptr\<close> it tests
  \<^verbatim>\<open>trigger_release\<close>, which nothing declares. The model does not repair that: what the name stands
  for is a parameter, a function of the driver's state, and the theorems hold for every meaning
  that stays below the top value while fewer than three released samples are counted (the counter
  itself, which the symmetric branch suggests, is one; a constant is another).
  The calls of the callback are the trace the task leaves.
\<close>

section \<open>State\<close>

datatype TRIGGER_State_t = TRIGGER_STATE_RELEASE | TRIGGER_STATE_PRESS | TRIGGER_STATE_INVALID

datatype TRIGGER_Active_Level_t = TRIGGER_ACTIVE_LEVEL_LOW | TRIGGER_ACTIVE_LEVEL_HIGH

datatype TRIGGER_Ret_t = TRIGGER_STATUS_ERROR | TRIGGER_STATUS_OK

record TRIGGER_Config_t =
  trigger_gpio :: u8
  active_level :: TRIGGER_Active_Level_t

record trigger_state =
  trigger_config :: TRIGGER_Config_t
  state_change_callback :: bool
  current_state :: TRIGGER_State_t
  trigger_press_cptr :: u32
  trigger_release_cptr :: u32
  trigger_task_handle :: "task option"

definition TRIGGER_MONITORING_PERIOD_MS :: u32 where "TRIGGER_MONITORING_PERIOD_MS = 20"
definition TRIGGER_DEBOUNCE_FACTOR :: u32 where "TRIGGER_DEBOUNCE_FACTOR = 3"

section \<open>Operations\<close>

definition trigger_input :: "TRIGGER_Config_t \<Rightarrow> u8 \<Rightarrow> TRIGGER_State_t" where
  "trigger_input cfg level =
     (if level \<noteq> 0 \<and> active_level cfg = TRIGGER_ACTIVE_LEVEL_HIGH \<or>
         level = 0 \<and> active_level cfg = TRIGGER_ACTIVE_LEVEL_LOW
      then TRIGGER_STATE_PRESS else TRIGGER_STATE_RELEASE)"

text \<open>
  The debouncing of one sample; the list holds the calls of the callback. The first argument is
  the value of the undeclared \<^verbatim>\<open>trigger_release\<close>.
\<close>

definition trigger_sample ::
  "(trigger_state \<Rightarrow> u32) \<Rightarrow> trigger_state \<Rightarrow> TRIGGER_State_t \<Rightarrow> trigger_state \<times> TRIGGER_State_t list" where
  "trigger_sample trigger_release s new_state =
     (if new_state = TRIGGER_STATE_PRESS
      then let s1 = s\<lparr>trigger_press_cptr :=
                        (if trigger_press_cptr s < 0xFFFFFFFF then trigger_press_cptr s + 1
                         else trigger_press_cptr s),
                      trigger_release_cptr := 0\<rparr>
           in if trigger_press_cptr s1 \<ge> TRIGGER_DEBOUNCE_FACTOR \<and> trigger_press_cptr s1 \<noteq> 0xFFFFFFFF \<and>
                 new_state \<noteq> current_state s1
              then let s2 = s1\<lparr>trigger_press_cptr := 0xFFFFFFFF, current_state := new_state\<rparr>
                   in (s2, if state_change_callback s2 then [current_state s2] else [])
              else (s1, [])
      else let s1 = s\<lparr>trigger_release_cptr :=
                        (if trigger_release s < 0xFFFFFFFF then trigger_release_cptr s + 1
                         else trigger_release_cptr s),
                      trigger_press_cptr := 0\<rparr>
           in if trigger_release_cptr s1 \<ge> TRIGGER_DEBOUNCE_FACTOR \<and> trigger_release_cptr s1 \<noteq> 0xFFFFFFFF \<and>
                 new_state \<noteq> current_state s1
              then let s2 = s1\<lparr>trigger_release_cptr := 0xFFFFFFFF, current_state := new_state\<rparr>
                   in (s2, if state_change_callback s2 then [current_state s2] else [])
              else (s1, []))"

definition tTriggerTask_iteration ::
  "(trigger_state \<Rightarrow> u32) \<Rightarrow> kernel \<Rightarrow> gpio_context \<Rightarrow> trigger_state \<Rightarrow> (trigger_state \<times> TRIGGER_State_t list \<times> kernel) res" where
  "tTriggerTask_iteration trigger_release k g s =
     (let level = (word_of_int (gpio_get_level (uint (trigger_gpio (trigger_config s))) g) :: u8);
          (s', calls) = trigger_sample trigger_release s (trigger_input (trigger_config s) level)
      in bind_res (vTaskDelay TRIGGER_MONITORING_PERIOD_MS k) (\<lambda>k'. Inr (s', calls, k')))"

text \<open>The loop, for the successive states in which the task finds the pins.\<close>

fun tTriggerTask ::
  "(trigger_state \<Rightarrow> u32) \<Rightarrow> kernel \<Rightarrow> gpio_context list \<Rightarrow> trigger_state \<Rightarrow> (trigger_state \<times> TRIGGER_State_t list \<times> kernel) res" where
  "tTriggerTask trigger_release k [] s = Inr (s, [], k)"
| "tTriggerTask trigger_release k (g # gs) s =
     bind_res (tTriggerTask_iteration trigger_release k g s) (\<lambda>(s1, c1, k1).
     bind_res (tTriggerTask trigger_release k1 gs s1) (\<lambda>(s2, c2, k2). Inr (s2, c1 @ c2, k2)))"

definition TRIGGER_InitDriver ::
  "task option \<Rightarrow> u32 \<Rightarrow> TRIGGER_Config_t option \<Rightarrow> bool \<Rightarrow> trigger_state \<Rightarrow> gpio_context \<Rightarrow>
   (TRIGGER_Ret_t \<times> trigger_state \<times> gpio_context) res" where
  "TRIGGER_InitDriver created core pConfig callback s g =
     bind_res (deref pConfig) (\<lambda>c.
       let cfg = \<lparr>pin_bit_mask = push_bit (unat (trigger_gpio c)) 1, gpio_mode = GPIO_MODE_DEF_INPUT,
                  pull_up_en = (active_level c = TRIGGER_ACTIVE_LEVEL_LOW),
                  pull_down_en = (active_level c = TRIGGER_ACTIVE_LEVEL_HIGH), intr_type = 0\<rparr>;
           (r, g1) = gpio_config core cfg g
       in if r \<noteq> ESP_OK then Inr (TRIGGER_STATUS_ERROR, s, g1)
          else let s1 = s\<lparr>trigger_config := c, state_change_callback := callback,
                          current_state := TRIGGER_STATE_RELEASE\<rparr>
               in case created of
                    None \<Rightarrow> Inr (TRIGGER_STATUS_ERROR, s1, g1)
                  | Some t \<Rightarrow> Inr (TRIGGER_STATUS_OK, s1\<lparr>trigger_task_handle := Some t\<rparr>, g1))"

section \<open>Specification of the debouncing\<close>

text \<open>
  The debounced state of a history of samples, the newest first: the value of the most recent
  three equal samples in a row, and released before there are any.
\<close>

fun debounced :: "TRIGGER_State_t list \<Rightarrow> TRIGGER_State_t" where
  "debounced [] = TRIGGER_STATE_RELEASE"
| "debounced (x # xs) = (if take 3 (x # xs) = [x, x, x] then x else debounced xs)"

text \<open>The changes of the debounced state along a history, oldest first.\<close>

fun changes :: "TRIGGER_State_t list \<Rightarrow> TRIGGER_State_t list" where
  "changes [] = []"
| "changes (x # xs) =
     changes xs @ (if debounced (x # xs) = debounced xs then [] else [debounced (x # xs)])"

definition run :: "TRIGGER_State_t \<Rightarrow> TRIGGER_State_t list \<Rightarrow> nat" where
  "run x hs = length (takeWhile (\<lambda>y. y = x) hs)"

lemma run_simps [simp]:
  "run x [] = 0" "run x (y # hs) = (if y = x then Suc (run x hs) else 0)"
  by (simp_all add: run_def)

lemma take_run: "take n hs = replicate n x \<longleftrightarrow> n \<le> run x hs"
proof (induction n arbitrary: hs)
  case (Suc n)
  show ?case by (cases hs) (auto simp: Suc)
qed simp

lemma debounced_Cons: "debounced (x # hs) = (if 3 \<le> run x (x # hs) then x else debounced hs)"
  using take_run [of 3 "x # hs" x] by (simp add: numeral_3_eq_3)

lemma debounced_run: "3 \<le> run x hs \<Longrightarrow> debounced hs = x"
  by (cases hs) (auto simp: debounced_Cons simp del: debounced.simps(2) split: if_splits)

text \<open>
  What the counter of presses knows: the length of the current run, or, once it has reported the
  run, its top value. The counter of releases need not stop at its top value, which depends on
  what \<^verbatim>\<open>trigger_release\<close> is; but nothing is reported from it unless the trigger is pressed, and
  it was cleared when the press was reported, so it is only needed while it counts up to three.
\<close>

definition counts :: "u32 \<Rightarrow> TRIGGER_State_t \<Rightarrow> TRIGGER_State_t list \<Rightarrow> bool" where
  "counts c x hs \<longleftrightarrow> (c = 0xFFFFFFFF \<and> 3 \<le> run x hs) \<or> unat c = run x hs"

definition trigger_inv :: "trigger_state \<Rightarrow> TRIGGER_State_t list \<Rightarrow> bool" where
  "trigger_inv s hs \<longleftrightarrow>
     current_state s = debounced hs \<and>
     counts (trigger_press_cptr s) TRIGGER_STATE_PRESS hs \<and>
     (current_state s = TRIGGER_STATE_PRESS \<and>
        unat (trigger_release_cptr s) = run TRIGGER_STATE_RELEASE hs \<or>
      current_state s = TRIGGER_STATE_RELEASE)"

text \<open>A meaning of \<^verbatim>\<open>trigger_release\<close> that lets the counter of releases reach the debounce factor.\<close>

definition lets_count :: "(trigger_state \<Rightarrow> u32) \<Rightarrow> bool" where
  "lets_count trigger_release \<longleftrightarrow>
     (\<forall>s. trigger_release_cptr s < TRIGGER_DEBOUNCE_FACTOR \<longrightarrow> trigger_release s < 0xFFFFFFFF)"

lemma counter_lets_count: "lets_count trigger_release_cptr"
  by (simp add: lets_count_def TRIGGER_DEBOUNCE_FACTOR_def order_less_le_trans)

lemma constant_lets_count: "n < 0xFFFFFFFF \<Longrightarrow> lets_count (\<lambda>_. n)"
  by (simp add: lets_count_def)

text \<open>Under any other constant no release would be reported: the counter never moves.\<close>

lemma top_never_counts:
  assumes "\<And>s. \<not> trigger_release s < 0xFFFFFFFF" and "trigger_release_cptr s < 3"
    and "x \<noteq> TRIGGER_STATE_PRESS"
  shows "trigger_sample trigger_release s x = (s\<lparr>trigger_press_cptr := 0\<rparr>, [])"
  using assms by (auto simp: trigger_sample_def TRIGGER_DEBOUNCE_FACTOR_def Let_def not_le)

lemma counts_next:
  assumes "counts c x hs"
  defines "c' \<equiv> if c < 0xFFFFFFFF then c + 1 else c"
  shows "counts c' x (x # hs)" and "c' \<noteq> 0xFFFFFFFF \<Longrightarrow> unat c' = Suc (run x hs)"
    and "c' = 0xFFFFFFFF \<Longrightarrow> 3 \<le> run x hs"
proof -
  have "(0xFFFFFFFF :: u32) = - 1" by simp
  then have m: "c \<le> 0xFFFFFFFF" by (simp only: word_n1_ge)
  then have top: "\<not> c < 0xFFFFFFFF \<Longrightarrow> c = 0xFFFFFFFF" by simp
  have suc: "unat (c + 1) = Suc (unat c)" if "c < 0xFFFFFFFF"
    using that by (simp add: unat_word_ariths word_less_nat_alt)
  have u: "unat (0xFFFFFFFF :: u32) = 4294967295" by simp
  have lt: "c < 0xFFFFFFFF \<Longrightarrow> unat c = run x hs" using assms(1) by (auto simp: counts_def)
  show 3: "3 \<le> run x hs" if "c' = 0xFFFFFFFF"
  proof (cases "c < 0xFFFFFFFF")
    case True
    then have "Suc (run x hs) = 4294967295" using that suc lt u by (simp add: c'_def)
    then show ?thesis by simp
  next
    case False
    then show ?thesis using top assms(1) u by (auto simp: counts_def)
  qed
  show 2: "unat c' = Suc (run x hs)" if "c' \<noteq> 0xFFFFFFFF"
    using that top suc lt by (auto simp: c'_def split: if_splits)
  show "counts c' x (x # hs)" using 2 3 by (cases "c' = 0xFFFFFFFF") (auto simp: counts_def)
qed

lemma counts_reset: "y \<noteq> x \<Longrightarrow> counts 0 x (y # hs)"
  by (simp add: counts_def)

lemma counts_top: "3 \<le> run x (x # hs) \<Longrightarrow> counts 0xFFFFFFFF x (x # hs)"
  by (simp add: counts_def)

text \<open>One branch of the sampling: the counter of the sampled state decides as the history does.\<close>

lemma counter_decides:
  assumes "counts c x hs" and "cur = debounced hs"
  defines "c' \<equiv> if c < 0xFFFFFFFF then c + 1 else c"
  shows "TRIGGER_DEBOUNCE_FACTOR \<le> c' \<and> c' \<noteq> 0xFFFFFFFF \<and> x \<noteq> cur \<longleftrightarrow>
         debounced (x # hs) \<noteq> debounced hs" (is "?l \<longleftrightarrow> ?r")
    and "debounced (x # hs) \<noteq> debounced hs \<Longrightarrow> debounced (x # hs) = x \<and> 3 \<le> run x (x # hs)"
proof -
  note n = counts_next [OF assms(1), folded c'_def]
  show "?l \<longleftrightarrow> ?r"
  proof (cases "c' = 0xFFFFFFFF")
    case True
    then have "debounced hs = x" using n(3) debounced_run by simp
    then show ?thesis using assms(2) by (auto simp: debounced_Cons simp del: debounced.simps(2))
  next
    case False
    then have "TRIGGER_DEBOUNCE_FACTOR \<le> c' \<longleftrightarrow> 3 \<le> run x (x # hs)"
      using n(2) by (simp add: TRIGGER_DEBOUNCE_FACTOR_def word_le_nat_alt)
    then show ?thesis using False assms(2)
      by (auto simp: debounced_Cons simp del: debounced.simps(2) run_simps)
  qed
  show "debounced (x # hs) = x \<and> 3 \<le> run x (x # hs)" if ?r
    using that by (auto simp: debounced_Cons simp del: debounced.simps(2) run_simps split: if_splits)
qed

text \<open>A released sample while the trigger is pressed: fewer than three have been counted.\<close>

lemma release_counter_decides:
  assumes "unat c = run TRIGGER_STATE_RELEASE hs" and "debounced hs = TRIGGER_STATE_PRESS"
  defines "x \<equiv> TRIGGER_STATE_RELEASE"
  shows "c < TRIGGER_DEBOUNCE_FACTOR" and "c + 1 \<noteq> 0xFFFFFFFF"
    and "unat (c + 1) = run x (x # hs)"
    and "TRIGGER_DEBOUNCE_FACTOR \<le> c + 1 \<longleftrightarrow> debounced (x # hs) = x"
    and "debounced (x # hs) \<noteq> x \<Longrightarrow> debounced (x # hs) = TRIGGER_STATE_PRESS"
proof -
  have r: "run x hs < 3" using assms(2) debounced_run [of x hs] by (fastforce simp: x_def)
  then have c: "unat c < 3" using assms(1) by (simp add: x_def)
  then show "c < TRIGGER_DEBOUNCE_FACTOR"
    by (simp add: TRIGGER_DEBOUNCE_FACTOR_def word_less_nat_alt)
  have u: "unat (c + 1) = Suc (unat c)" using c by (simp add: unat_word_ariths)
  then show s: "unat (c + 1) = run x (x # hs)" using assms(1) by (simp add: x_def)
  have "unat (c + 1) \<noteq> unat (0xFFFFFFFF :: u32)" using u c by simp
  then show "c + 1 \<noteq> 0xFFFFFFFF" by metis
  have "TRIGGER_DEBOUNCE_FACTOR \<le> c + 1 \<longleftrightarrow> 3 \<le> run x (x # hs)"
    unfolding s [symmetric] by (simp add: TRIGGER_DEBOUNCE_FACTOR_def word_le_nat_alt)
  then show "TRIGGER_DEBOUNCE_FACTOR \<le> c + 1 \<longleftrightarrow> debounced (x # hs) = x"
    using assms(2) by (simp add: debounced_Cons x_def del: debounced.simps(2) run_simps)
  show "debounced (x # hs) \<noteq> x \<Longrightarrow> debounced (x # hs) = TRIGGER_STATE_PRESS"
    using assms(2) by (auto simp: debounced_Cons simp del: debounced.simps(2) run_simps)
qed

lemma debounced_again: "debounced hs = x \<Longrightarrow> debounced (x # hs) = x"
  by (simp add: debounced_Cons del: debounced.simps(2))

lemma sample_refines:
  assumes "lets_count trigger_release" and "trigger_inv s hs" and "x \<noteq> TRIGGER_STATE_INVALID"
    and "trigger_sample trigger_release s x = (s', calls)"
  shows "trigger_inv s' (x # hs) \<and>
         calls = (if debounced (x # hs) \<noteq> debounced hs \<and> state_change_callback s
                  then [debounced (x # hs)] else []) \<and>
         state_change_callback s' = state_change_callback s \<and> trigger_config s' = trigger_config s"
proof (cases x)
  case TRIGGER_STATE_PRESS
  let ?c = "trigger_press_cptr s"
  have c: "counts ?c x hs" "current_state s = debounced hs"
    using assms(2) TRIGGER_STATE_PRESS by (simp_all add: trigger_inv_def)
  note d = counter_decides [OF c] and n = counts_next(1) [OF c(1)]
  show ?thesis
  proof (cases "debounced (x # hs) = debounced hs")
    case True
    with assms(2,4) d(1) n TRIGGER_STATE_PRESS c(2) show ?thesis
      by (auto simp: trigger_sample_def trigger_inv_def Let_def simp del: debounced.simps(2))
  next
    case False
    with assms(4) d counts_top [of x hs] TRIGGER_STATE_PRESS c(2) show ?thesis
      by (auto simp: trigger_sample_def trigger_inv_def Let_def simp del: debounced.simps(2))
  qed
next
  case TRIGGER_STATE_RELEASE
  have cur: "current_state s = debounced hs" using assms(2) by (simp add: trigger_inv_def)
  have press: "counts 0 TRIGGER_STATE_PRESS (x # hs)"
    using TRIGGER_STATE_RELEASE by (simp add: counts_reset)
  show ?thesis
  proof (cases "debounced hs = TRIGGER_STATE_PRESS")
    case True
    then have c: "unat (trigger_release_cptr s) = run TRIGGER_STATE_RELEASE hs"
      using assms(2) by (auto simp: trigger_inv_def)
    note d = release_counter_decides [OF c True]
    have "trigger_release s < 0xFFFFFFFF" using assms(1) d(1) by (simp add: lets_count_def)
    with assms(4) d(2-5) TRIGGER_STATE_RELEASE cur True press show ?thesis
      by (auto simp: trigger_sample_def trigger_inv_def Let_def
          simp del: debounced.simps(2) run_simps split: if_splits)
  next
    case False
    then have r: "debounced hs = TRIGGER_STATE_RELEASE" using assms(2) by (auto simp: trigger_inv_def)
    with assms(4) debounced_again [OF r] TRIGGER_STATE_RELEASE cur press show ?thesis
      by (auto simp: trigger_sample_def trigger_inv_def Let_def simp del: debounced.simps(2) run_simps)
  qed
qed (use assms(3) in simp)

section \<open>The task\<close>

definition sampled :: "TRIGGER_Config_t \<Rightarrow> gpio_context \<Rightarrow> TRIGGER_State_t" where
  "sampled cfg g =
     (if in_level (pins g (unat (trigger_gpio cfg))) = (active_level cfg = TRIGGER_ACTIVE_LEVEL_HIGH)
      then TRIGGER_STATE_PRESS else TRIGGER_STATE_RELEASE)"

lemma trigger_input_sampled:
  "trigger_input cfg (word_of_int (gpio_get_level (uint (trigger_gpio cfg)) g)) = sampled cfg g"
  by (cases "active_level cfg")
    (auto simp: trigger_input_def sampled_def gpio_get_level_def)

lemma sampled_valid: "sampled cfg g \<noteq> TRIGGER_STATE_INVALID"
  by (simp add: sampled_def)

lemma task_refines:
  assumes "lets_count trigger_release"
    and "trigger_inv s hs" and "state_change_callback s" and "\<not> uxSchedulerSuspended k"
    and "trigger_config s = cfg"
  shows "\<exists>s' k' calls. tTriggerTask trigger_release k gs s = Inr (s', calls, k') \<and>
           trigger_inv s' (rev (map (sampled cfg) gs) @ hs) \<and>
           changes (rev (map (sampled cfg) gs) @ hs) = changes hs @ calls"
  using assms(2-)
proof (induction gs arbitrary: k s hs)
  case (Cons g gs)
  let ?x = "sampled cfg g"
  obtain s1 c1 where 1: "trigger_sample trigger_release s ?x = (s1, c1)"
    by (cases "trigger_sample trigger_release s ?x") auto
  have it: "tTriggerTask_iteration trigger_release k g s = Inr (s1, c1, ticks_later TRIGGER_MONITORING_PERIOD_MS k)"
    using 1 Cons.prems by (simp add: tTriggerTask_iteration_def trigger_input_sampled vTaskDelay_eq
        TRIGGER_MONITORING_PERIOD_MS_def)
  note r = sample_refines [OF assms(1) Cons.prems(1) sampled_valid 1]
  from Cons.IH [of s1 "?x # hs" "ticks_later TRIGGER_MONITORING_PERIOD_MS k"] r Cons.prems
  obtain s' k' c2 where 2: "tTriggerTask trigger_release (ticks_later TRIGGER_MONITORING_PERIOD_MS k) gs s1 = Inr (s', c2, k')"
    "trigger_inv s' (rev (map (sampled cfg) gs) @ ?x # hs)"
    "changes (rev (map (sampled cfg) gs) @ ?x # hs) = changes (?x # hs) @ c2" by auto
  have "changes (?x # hs) = changes hs @ c1" using r Cons.prems(2) by (auto simp del: debounced.simps(2))
  with it 2 show ?case by simp
qed simp

lemma changes_alternate:
  "distinct_adj (TRIGGER_STATE_RELEASE # changes hs) \<and>
   last (TRIGGER_STATE_RELEASE # changes hs) = debounced hs"
proof (induction hs)
  case (Cons x hs)
  show ?case
  proof (cases "debounced (x # hs) = debounced hs")
    case False
    then show ?thesis
      using Cons distinct_adj_append_iff [of "TRIGGER_STATE_RELEASE # changes hs" "[debounced (x # hs)]"]
      by (simp del: debounced.simps(2) distinct_adj_Cons)
  qed (use Cons in \<open>simp del: debounced.simps(2)\<close>)
qed simp

lemma trigger_init_ok:
  assumes "unat (trigger_gpio c) < 49" and "unat (trigger_gpio c) \<notin> {22, 23, 24, 25}"
  shows "\<exists>g'. TRIGGER_InitDriver (Some t) core (Some c) cb s g =
     Inr (TRIGGER_STATUS_OK, s\<lparr>trigger_config := c, state_change_callback := cb,
            current_state := TRIGGER_STATE_RELEASE, trigger_task_handle := Some t\<rparr>, g') \<and>
     input_en (pins g' (unat (trigger_gpio c))) \<and> \<not> output_en (pins g' (unat (trigger_gpio c)))"
proof -
  let ?n = "unat (trigger_gpio c)"
  let ?cfg = "\<lparr>pin_bit_mask = push_bit ?n 1, gpio_mode = GPIO_MODE_DEF_INPUT,
               pull_up_en = (active_level c = TRIGGER_ACTIVE_LEVEL_LOW),
               pull_down_en = (active_level c = TRIGGER_ACTIVE_LEVEL_HIGH), intr_type = 0\<rparr> :: gpio_config_t"
  have b: "bit (pin_bit_mask ?cfg) n \<longleftrightarrow> n = ?n" for n
    using assms by (auto simp del: push_bit_of_1 simp: bit_single_pin)
  then have nz: "pin_bit_mask ?cfg \<noteq> 0" by (metis bit_0_eq bot_apply bot_bool_def)
  have "pin_bit_mask ?cfg AND NOT SOC_GPIO_VALID_GPIO_MASK = 0"
    unfolding mask_valid_iff using b assms by auto
  from gpio_config_ok [OF nz this, of core g] obtain g' where
    g': "gpio_config core ?cfg g = (ESP_OK, g')"
    "pins g' ?n = configured_pin ?cfg ?n (pins g ?n)" using b by auto
  then show ?thesis
    by (simp add: TRIGGER_InitDriver_def Let_def configured_pin_def GPIO_MODE_DEF_INPUT_def
        GPIO_MODE_DEF_OUTPUT_def)
qed

section \<open>Properties\<close>

text \<open>
  C16. The trigger is debounced as specified, whatever the undeclared \<^verbatim>\<open>trigger_release\<close> of
  the source stands for, as long as it is below the top value while fewer than three released
  samples are counted: after the first initialisation, for any sequence of pin states the task
  returns from every iteration, its state is the value of the most recent three equal samples in
  a row (released before there are any), and the callback has been called once for every change
  of that value and never otherwise, so that presses and releases alternate, starting with a
  press. This holds for any number of samples: the counter of presses stops at its top value, and
  the counter of releases, which may wrap, is not looked at unless the trigger is pressed.
\<close>

theorem trigger_debounces:
  assumes "\<And>s. trigger_release_cptr s < 3 \<Longrightarrow> trigger_release s < 0xFFFFFFFF"
    and "unat (trigger_gpio c) < 49" and "unat (trigger_gpio c) \<notin> {22, 23, 24, 25}"
    and "trigger_press_cptr s = 0" and "\<not> uxSchedulerSuspended k"
  shows "\<exists>s1 g1 s2 calls k2.
           TRIGGER_InitDriver (Some t) core (Some c) True s g = Inr (TRIGGER_STATUS_OK, s1, g1) \<and>
           tTriggerTask trigger_release k gs s1 = Inr (s2, calls, k2) \<and>
           current_state s2 = debounced (rev (map (sampled c) gs)) \<and>
           calls = changes (rev (map (sampled c) gs)) \<and>
           distinct_adj (TRIGGER_STATE_RELEASE # calls)"
proof -
  let ?s1 = "s\<lparr>trigger_config := c, state_change_callback := True,
            current_state := TRIGGER_STATE_RELEASE, trigger_task_handle := Some t\<rparr>"
  have l: "lets_count trigger_release"
    using assms(1) by (simp add: lets_count_def TRIGGER_DEBOUNCE_FACTOR_def)
  have "trigger_inv ?s1 []" using assms(4) by (simp add: trigger_inv_def counts_def)
  from task_refines [OF l this, of k c gs] assms(5) obtain s2 k2 calls where
    "tTriggerTask trigger_release k gs ?s1 = Inr (s2, calls, k2)"
    "trigger_inv s2 (rev (map (sampled c) gs))"
    "changes (rev (map (sampled c) gs)) = calls" by auto
  moreover obtain g1 where "TRIGGER_InitDriver (Some t) core (Some c) True s g = Inr (TRIGGER_STATUS_OK, ?s1, g1)"
    using trigger_init_ok [OF assms(2,3), of t core True s g] by auto
  ultimately show ?thesis using changes_alternate [of "rev (map (sampled c) gs)"]
    by (auto simp: trigger_inv_def)
qed

definition demo_trigger :: trigger_state where
  "demo_trigger = \<lparr>trigger_config = \<lparr>trigger_gpio = 0, active_level = TRIGGER_ACTIVE_LEVEL_LOW\<rparr>,
     state_change_callback = False, current_state = TRIGGER_STATE_INVALID,
     trigger_press_cptr = 0, trigger_release_cptr = 0, trigger_task_handle = None\<rparr>"

definition pin8_high :: gpio_context where
  "pin8_high = demo_gpio\<lparr>pins := (\<lambda>_. demo_pin)(8 := demo_pin\<lparr>in_level := True\<rparr>)\<rparr>"

theorem trigger_debounces_witness:
  "\<exists>s1 g1 s2 calls k2.
     TRIGGER_InitDriver (Some 6) 0
       (Some \<lparr>trigger_gpio = 8, active_level = TRIGGER_ACTIVE_LEVEL_HIGH\<rparr>) True demo_trigger demo_gpio =
       Inr (TRIGGER_STATUS_OK, s1, g1) \<and>
     tTriggerTask trigger_release_cptr demo_kernel [pin8_high, demo_gpio, pin8_high, pin8_high, pin8_high, demo_gpio] s1 =
       Inr (s2, calls, k2) \<and>
     current_state s2 = TRIGGER_STATE_PRESS \<and> calls = [TRIGGER_STATE_PRESS]"
proof -
  let ?c = "\<lparr>trigger_gpio = 8, active_level = TRIGGER_ACTIVE_LEVEL_HIGH\<rparr>"
  let ?gs = "[pin8_high, demo_gpio, pin8_high, pin8_high, pin8_high, demo_gpio]"
  have "sampled ?c pin8_high = TRIGGER_STATE_PRESS" "sampled ?c demo_gpio = TRIGGER_STATE_RELEASE"
    by (simp_all add: sampled_def pin8_high_def demo_gpio_def demo_pin_def)
  moreover have "\<And>s :: trigger_state. trigger_release_cptr s < 3 \<Longrightarrow> trigger_release_cptr s < 0xFFFFFFFF"
    using counter_lets_count by (simp add: lets_count_def TRIGGER_DEBOUNCE_FACTOR_def)
  ultimately show ?thesis
    using trigger_debounces [of trigger_release_cptr ?c demo_trigger demo_kernel 6 0 demo_gpio ?gs]
    by (auto simp: demo_trigger_def demo_kernel_def numeral_3_eq_3)
qed

end
