(* ===== verification/Ledc.thy ===== *)
theory Ledc
  imports FreeRTOS_Queue Gpio
begin

text \<open>
  The LED PWM driver of the SDK (\<^verbatim>\<open>esp_driver_ledc/src/ledc.c\<close>) for the ESP32-S3, which has the low
  speed mode only: contexts, timer configuration, channel configuration, duty updates and the
  fade service with its interrupt handler. The registers are those of
  \<^verbatim>\<open>hal/esp32s3/include/hal/ledc_ll.h\<close>. Channels are configured with the default sleep mode, as the
  LED driver does, so that the bookkeeping for channels kept alive in sleep stays at its initial
  values and is left out; no fade callback is registered. The duty that the hardware reads back
  is a register the software never writes.
\<close>

section \<open>Registers and state\<close>

datatype ledc_clk = LEDC_USE_APB_CLK | LEDC_USE_RC_FAST_CLK | LEDC_USE_XTAL_CLK

datatype ledc_clk_cfg_t = LEDC_AUTO_CLK | LEDC_CLK ledc_clk

datatype ledc_duty_direction_t = LEDC_DUTY_DIR_DECREASE | LEDC_DUTY_DIR_INCREASE

datatype ledc_fade_fsm_t =
    LEDC_FSM_IDLE
  | LEDC_FSM_HW_FADE
  | LEDC_FSM_ISR_CAL
  | LEDC_FSM_KILLED_PENDING

datatype ledc_fade_mode_t = LEDC_FADE_NO_WAIT | LEDC_FADE_WAIT_DONE

record ledc_timer_regs =
  clock_divider :: u32
  duty_resolution :: u32
  timer_paused :: bool

record ledc_channel_regs =
  timer_sel :: nat
  duty :: u32
  duty_read :: u32
  hpoint :: u32
  duty_inc :: ledc_duty_direction_t
  duty_num :: u32
  duty_cyc :: u32
  duty_scale :: u32
  sig_out_en :: bool
  duty_start :: bool
  fade_end_intr :: bool

record ledc_fade_t =
  direction :: ledc_duty_direction_t
  target_duty :: u32
  cycle_num :: int
  scale :: int
  fade_mode :: ledc_fade_mode_t
  ledc_fade_sem :: QueueHandle_t
  ledc_fade_mux :: QueueHandle_t
  fsm :: ledc_fade_fsm_t

record ledc_obj_t =
  glb_clk :: "ledc_clk option"
  timer_is_stopped :: "nat \<Rightarrow> bool"
  glb_clk_is_acquired :: "nat \<Rightarrow> bool"

record ledc =
  p_ledc_obj :: "ledc_obj_t option"
  s_ledc_fade_rec :: "nat \<Rightarrow> ledc_fade_t option"
  s_ledc_fade_isr_handle :: bool
  s_ledc_slow_clk_rc_fast_freq :: u32
  timer_regs :: "nat \<Rightarrow> ledc_timer_regs"
  channel_regs :: "nat \<Rightarrow> ledc_channel_regs"
  apb_clk_sel :: "ledc_clk option"

text \<open>
  What the driver finds in its surroundings: the frequency of every clock source, the result of a
  calibration of the fast RC clock, and the outcome of its allocations.
\<close>

record ledc_env =
  src_freq :: "ledc_clk \<Rightarrow> u32"
  rc_fast_calibration :: "u32 option"
  obj_alloc :: bool
  fade_alloc :: bool
  sem_alloc :: alloc
  mux_alloc :: alloc
  intr_alloc :: esp_err

definition LEDC_TIMER_MAX :: nat where "LEDC_TIMER_MAX = 4"
definition LEDC_CHANNEL_MAX :: nat where "LEDC_CHANNEL_MAX = 8"
definition LEDC_TIMER_BIT_MAX :: u32 where "LEDC_TIMER_BIT_MAX = 15"
definition LEDC_LL_DUTY_NUM_MAX :: int where "LEDC_LL_DUTY_NUM_MAX = 0x3FF"
definition LEDC_LL_DUTY_CYCLE_MAX :: int where "LEDC_LL_DUTY_CYCLE_MAX = 0x3FF"
definition LEDC_LL_DUTY_SCALE_MAX :: int where "LEDC_LL_DUTY_SCALE_MAX = 0x3FF"
definition LEDC_LL_HPOINT_VAL_MAX :: u32 where "LEDC_LL_HPOINT_VAL_MAX = 0x3FFF"
definition LEDC_TIMER_DIV_NUM_MAX :: u32 where "LEDC_TIMER_DIV_NUM_MAX = 0x3FFFF"
definition LEDC_LL_FRACTIONAL_MAX :: u32 where "LEDC_LL_FRACTIONAL_MAX = 0xFF"

definition upd_channel :: "nat \<Rightarrow> (ledc_channel_regs \<Rightarrow> ledc_channel_regs) \<Rightarrow> ledc \<Rightarrow> ledc" where
  "upd_channel c f L = L\<lparr>channel_regs := (channel_regs L)(c := f (channel_regs L c))\<rparr>"

definition upd_timer :: "nat \<Rightarrow> (ledc_timer_regs \<Rightarrow> ledc_timer_regs) \<Rightarrow> ledc \<Rightarrow> ledc" where
  "upd_timer t f L = L\<lparr>timer_regs := (timer_regs L)(t := f (timer_regs L t))\<rparr>"

definition upd_fade :: "nat \<Rightarrow> (ledc_fade_t \<Rightarrow> ledc_fade_t) \<Rightarrow> ledc \<Rightarrow> ledc" where
  "upd_fade c f L = L\<lparr>s_ledc_fade_rec := (s_ledc_fade_rec L)(c := map_option f (s_ledc_fade_rec L c))\<rparr>"

definition upd_obj :: "(ledc_obj_t \<Rightarrow> ledc_obj_t) \<Rightarrow> ledc \<Rightarrow> ledc" where
  "upd_obj f L = L\<lparr>p_ledc_obj := map_option f (p_ledc_obj L)\<rparr>"

section \<open>Timers\<close>

definition ledc_enable_intr_type :: "nat \<Rightarrow> bool \<Rightarrow> ledc \<Rightarrow> ledc" where
  "ledc_enable_intr_type channel fade_end L = upd_channel channel (\<lambda>r. r\<lparr>fade_end_intr := fade_end\<rparr>) L"

definition ledc_get_max_duty :: "nat \<Rightarrow> ledc \<Rightarrow> u32" where
  "ledc_get_max_duty channel L =
     push_bit (unat (duty_resolution (timer_regs L (timer_sel (channel_regs L channel))))) 1"

definition ledc_timer_set :: "nat \<Rightarrow> u32 \<Rightarrow> u32 \<Rightarrow> ledc \<Rightarrow> esp_err \<times> ledc" where
  "ledc_timer_set t divider resolution L =
     (if \<not> t < LEDC_TIMER_MAX then (ESP_ERR_INVALID_ARG, L)
      else if p_ledc_obj L = None then (ESP_ERR_INVALID_STATE, L)
      else (ESP_OK, upd_timer t (\<lambda>r. r\<lparr>clock_divider := divider AND 0x3FFFF,
                                       duty_resolution := resolution AND 0xF\<rparr>) L))"

definition ledc_timer_rst :: "nat \<Rightarrow> ledc \<Rightarrow> esp_err \<times> ledc" where
  "ledc_timer_rst t L =
     (if \<not> t < LEDC_TIMER_MAX then (ESP_ERR_INVALID_ARG, L)
      else if p_ledc_obj L = None then (ESP_ERR_INVALID_STATE, L)
      else (ESP_OK, L))"

definition ledc_timer_resume :: "nat \<Rightarrow> ledc \<Rightarrow> esp_err \<times> ledc" where
  "ledc_timer_resume t L =
     (if \<not> t < LEDC_TIMER_MAX then (ESP_ERR_INVALID_ARG, L)
      else if p_ledc_obj L = None then (ESP_ERR_INVALID_STATE, L)
      else (ESP_OK, upd_timer t (\<lambda>r. r\<lparr>timer_paused := False\<rparr>)
                      (upd_obj (\<lambda>ob. ob\<lparr>timer_is_stopped := (timer_is_stopped ob)(t := False)\<rparr>) L)))"

definition ledc_speed_mode_ctx_create :: "ledc_env \<Rightarrow> ledc \<Rightarrow> bool \<times> ledc" where
  "ledc_speed_mode_ctx_create E L =
     (if p_ledc_obj L = None
      then if obj_alloc E
           then (True, L\<lparr>p_ledc_obj := Some \<lparr>glb_clk = None, timer_is_stopped = (\<lambda>_. False),
                                             glb_clk_is_acquired = (\<lambda>_. False)\<rparr>\<rparr>)
           else (False, L)
      else (False, L))"

text \<open>
  \<^verbatim>\<open>freq_hz * precision\<close> is a product of 32-bit operands and wraps; the division by a product of 0
  is a fault. The result is stored in 32 bits.
\<close>

definition ledc_calculate_divisor :: "u32 \<Rightarrow> u32 \<Rightarrow> u32 \<Rightarrow> u32 res" where
  "ledc_calculate_divisor src_clk_freq freq_hz precision =
     (let p = freq_hz * precision in
      if p = 0 then Inl Div_by_zero
      else Inr (of_nat ((256 * unat src_clk_freq + unat p div 2) div unat p)))"

definition LEDC_IS_DIV_INVALID :: "u32 \<Rightarrow> bool" where
  "LEDC_IS_DIV_INVALID d \<longleftrightarrow> d \<le> LEDC_LL_FRACTIONAL_MAX \<or> d > LEDC_TIMER_DIV_NUM_MAX"

definition ledc_slow_clk_calibrate :: "ledc_env \<Rightarrow> ledc \<Rightarrow> bool \<times> ledc" where
  "ledc_slow_clk_calibrate E L =
     (case rc_fast_calibration E of
        Some f \<Rightarrow> (True, L\<lparr>s_ledc_slow_clk_rc_fast_freq := f\<rparr>)
      | None \<Rightarrow> (False, L))"

fun ledc_auto_global_clk_divisor ::
  "ledc_env \<Rightarrow> u32 \<Rightarrow> u32 \<Rightarrow> ledc_clk list \<Rightarrow> ledc \<Rightarrow> ((ledc_clk \<times> u32) option \<times> ledc) res" where
  "ledc_auto_global_clk_divisor E f p [] L = Inr (None, L)"
| "ledc_auto_global_clk_divisor E f p (c # cs) L =
     (let (usable, L1) =
        (if c = LEDC_USE_RC_FAST_CLK \<and> s_ledc_slow_clk_rc_fast_freq L = 0
         then ledc_slow_clk_calibrate E L else (True, L))
      in if \<not> usable then ledc_auto_global_clk_divisor E f p cs L1
         else bind_res (ledc_calculate_divisor (src_freq E c) f p) (\<lambda>d.
              if \<not> LEDC_IS_DIV_INVALID d then Inr (Some (c, d), L1)
              else ledc_auto_global_clk_divisor E f p cs L1))"

text \<open>The clock and its divisor, or \<^term>\<open>None\<close> where the source jumps to \<^verbatim>\<open>error\<close>.\<close>

definition ledc_choose_divisor ::
  "ledc_env \<Rightarrow> ledc_clk_cfg_t \<Rightarrow> u32 \<Rightarrow> u32 \<Rightarrow> ledc \<Rightarrow> ((ledc_clk \<times> u32) option \<times> ledc) res" where
  "ledc_choose_divisor E clk_cfg freq_hz precision L =
     (case clk_cfg of
        LEDC_AUTO_CLK \<Rightarrow>
          ledc_auto_global_clk_divisor E freq_hz precision
            [LEDC_USE_APB_CLK, LEDC_USE_XTAL_CLK, LEDC_USE_RC_FAST_CLK] L
      | LEDC_CLK c \<Rightarrow>
          if c = LEDC_USE_RC_FAST_CLK
          then let (usable, L1) = (if s_ledc_slow_clk_rc_fast_freq L = 0
                                   then ledc_slow_clk_calibrate E L else (True, L))
               in if \<not> usable then Inr (None, L1)
                  else bind_res (ledc_calculate_divisor (s_ledc_slow_clk_rc_fast_freq L1) freq_hz precision)
                         (\<lambda>d. Inr (if LEDC_IS_DIV_INVALID d then None else Some (c, d), L1))
          else bind_res (ledc_calculate_divisor (src_freq E c) freq_hz precision)
                 (\<lambda>d. Inr (if LEDC_IS_DIV_INVALID d then None else Some (c, d), L)))"

text \<open>
  The context has been created before the call. Only a conflict with another timer's clock and
  an impossible divisor make it fail.
\<close>

definition ledc_set_timer_div ::
  "ledc_env \<Rightarrow> nat \<Rightarrow> ledc_clk_cfg_t \<Rightarrow> u32 \<Rightarrow> u32 \<Rightarrow> ledc \<Rightarrow> (esp_err \<times> ledc) res" where
  "ledc_set_timer_div E t clk_cfg freq_hz resolution L =
     bind_res (ledc_choose_divisor E clk_cfg freq_hz (push_bit (unat resolution) 1) L) (\<lambda>(r, L1).
       case r of
         None \<Rightarrow> Inr (ESP_FAIL, L1)
       | Some (c, div_param) \<Rightarrow>
           bind_res (deref (p_ledc_obj L1)) (\<lambda>ob.
             if glb_clk ob \<noteq> None \<and> glb_clk ob \<noteq> Some c \<and>
                (\<exists>i \<in> set [0..<LEDC_TIMER_MAX]. i \<noteq> t \<and> glb_clk_is_acquired ob i)
             then Inr (ESP_FAIL, L1)
             else let L2 = upd_obj (\<lambda>ob. ob\<lparr>glb_clk_is_acquired := (glb_clk_is_acquired ob)(t := True)\<rparr>) L1;
                      L3 = (if glb_clk ob \<noteq> Some c
                            then (upd_obj (\<lambda>ob. ob\<lparr>glb_clk := Some c\<rparr>) L2)\<lparr>apb_clk_sel := Some c\<rparr>
                            else L2)
                  in Inr (ESP_OK, snd (ledc_timer_set t div_param resolution L3))))"

text \<open>The configuration of a timer; the request to delete a timer (\<^verbatim>\<open>deconfigure\<close>) is not used.\<close>

record ledc_timer_config_t =
  tc_duty_resolution :: u32
  tc_timer_num :: nat
  tc_freq_hz :: u32
  tc_clk_cfg :: ledc_clk_cfg_t

definition ledc_timer_config :: "ledc_env \<Rightarrow> ledc_timer_config_t \<Rightarrow> ledc \<Rightarrow> (esp_err \<times> ledc) res" where
  "ledc_timer_config E conf L =
     (let freq_hz = tc_freq_hz conf; resolution = tc_duty_resolution conf; t = tc_timer_num conf in
      if \<not> t < LEDC_TIMER_MAX then Inr (ESP_ERR_INVALID_ARG, L)
      else if freq_hz = 0 \<or> resolution = 0 \<or> resolution \<ge> LEDC_TIMER_BIT_MAX
      then Inr (ESP_ERR_INVALID_ARG, L)
      else let (created, L1) = ledc_speed_mode_ctx_create E L in
           if \<not> created \<and> p_ledc_obj L1 = None then Inr (ESP_ERR_NO_MEM, L1)
           else bind_res (ledc_set_timer_div E t (tc_clk_cfg conf) freq_hz resolution L1) (\<lambda>(ret, L2).
                  if ret = ESP_OK
                  then Inr (ret, snd (ledc_timer_rst t (snd (ledc_timer_resume t L2))))
                  else Inr (ret, L2)))"

text \<open>Reading the clock selection aborts while no clock has been selected.\<close>

definition ledc_hal_get_clk_cfg :: "ledc \<Rightarrow> ledc_clk res" where
  "ledc_hal_get_clk_cfg L = (case apb_clk_sel L of None \<Rightarrow> Inl Assert_failed | Some c \<Rightarrow> Inr c)"

definition ledc_set_freq :: "ledc_env \<Rightarrow> nat \<Rightarrow> u32 \<Rightarrow> ledc \<Rightarrow> (esp_err \<times> ledc) res" where
  "ledc_set_freq E t freq_hz L =
     (if \<not> t < LEDC_TIMER_MAX then Inr (ESP_ERR_INVALID_ARG, L)
      else if p_ledc_obj L = None then Inr (ESP_ERR_INVALID_STATE, L)
      else bind_res (ledc_hal_get_clk_cfg L) (\<lambda>c.
           ledc_set_timer_div E t (LEDC_CLK c) freq_hz (duty_resolution (timer_regs L t)) L))"

text \<open>An error code is returned in the place of a frequency.\<close>

definition ledc_get_freq :: "ledc_env \<Rightarrow> nat \<Rightarrow> ledc \<Rightarrow> u32 res" where
  "ledc_get_freq E t L =
     (if \<not> t < LEDC_TIMER_MAX then Inr (word_of_int (esp_err_code ESP_ERR_INVALID_ARG))
      else if p_ledc_obj L = None then Inr (word_of_int (esp_err_code ESP_ERR_INVALID_STATE))
      else bind_res (ledc_hal_get_clk_cfg L) (\<lambda>c.
           let divider = clock_divider (timer_regs L t);
               precision = 2 ^ unat (duty_resolution (timer_regs L t))
           in if divider = 0 then Inr 0
              else Inr (of_nat ((256 * unat (src_freq E c) + precision * unat divider div 2)
                                div (precision * unat divider)))))"

section \<open>Channels\<close>

text \<open>Negative values of the two integer arguments leave the register alone.\<close>

definition ledc_duty_config ::
  "nat \<Rightarrow> int \<Rightarrow> int \<Rightarrow> ledc_duty_direction_t \<Rightarrow> u32 \<Rightarrow> u32 \<Rightarrow> u32 \<Rightarrow> ledc \<Rightarrow> ledc" where
  "ledc_duty_config channel hpoint_val duty_val dir num cyc scl L =
     upd_channel channel (\<lambda>r.
       let r1 = (if hpoint_val \<ge> 0 then r\<lparr>hpoint := word_of_int hpoint_val AND 0x3FFF\<rparr> else r);
           r2 = (if duty_val \<ge> 0 then r1\<lparr>duty := push_bit 4 (word_of_int duty_val) AND 0x7FFFF\<rparr> else r1)
       in r2\<lparr>duty_inc := dir, duty_num := num AND 0x3FF, duty_cyc := cyc AND 0x3FF,
            duty_scale := scl AND 0x3FF\<rparr>) L"

definition ledc_bind_channel_timer :: "nat \<Rightarrow> nat \<Rightarrow> ledc \<Rightarrow> esp_err \<times> ledc" where
  "ledc_bind_channel_timer channel t L =
     (if \<not> t < LEDC_TIMER_MAX then (ESP_ERR_INVALID_ARG, L)
      else if p_ledc_obj L = None then (ESP_ERR_INVALID_STATE, L)
      else (ESP_OK, upd_channel channel (\<lambda>r. r\<lparr>timer_sel := t\<rparr>) L))"

definition ledc_update_duty :: "nat \<Rightarrow> ledc \<Rightarrow> esp_err \<times> ledc" where
  "ledc_update_duty channel L =
     (if \<not> channel < LEDC_CHANNEL_MAX then (ESP_ERR_INVALID_ARG, L)
      else if p_ledc_obj L = None then (ESP_ERR_INVALID_STATE, L)
      else (ESP_OK, upd_channel channel (\<lambda>r. r\<lparr>sig_out_en := True, duty_start := True\<rparr>) L))"

text \<open>
  A channel with a fade record is acquired through the record's semaphore, which the fade
  interrupt gives back; \<^term>\<open>e\<close> holds the states in which a waiting caller is resumed.
\<close>

definition ledc_fade_hw_acquire :: "env \<Rightarrow> nat \<Rightarrow> kernel \<Rightarrow> ledc \<Rightarrow> (ledc \<times> kernel) res" where
  "ledc_fade_hw_acquire e channel k L =
     (case s_ledc_fade_rec L channel of
        None \<Rightarrow> Inr (L, k)
      | Some fade \<Rightarrow>
          bind_res (xSemaphoreTake e k (ledc_fade_sem fade) portMAX_DELAY) (\<lambda>(_, h, k').
            Inr (ledc_enable_intr_type channel False
                   (upd_fade channel (\<lambda>f. f\<lparr>ledc_fade_sem := h\<rparr>) L), k')))"

definition ledc_fade_hw_release :: "nat \<Rightarrow> kernel \<Rightarrow> ledc \<Rightarrow> (ledc \<times> kernel) res" where
  "ledc_fade_hw_release channel k L =
     (case s_ledc_fade_rec L channel of
        None \<Rightarrow> Inr (L, k)
      | Some fade \<Rightarrow>
          bind_res (xSemaphoreGive k (ledc_fade_sem fade)) (\<lambda>(_, h, k').
            Inr (upd_fade channel (\<lambda>f. f\<lparr>ledc_fade_sem := h\<rparr>) L, k')))"

definition ledc_op_lock_acquire :: "nat \<Rightarrow> kernel \<Rightarrow> ledc \<Rightarrow> (ledc \<times> kernel) res" where
  "ledc_op_lock_acquire channel k L =
     (case s_ledc_fade_rec L channel of
        None \<Rightarrow> Inr (L, k)
      | Some fade \<Rightarrow>
          bind_res (mutex_take k (ledc_fade_mux fade)) (\<lambda>(h, k').
            Inr (upd_fade channel (\<lambda>f. f\<lparr>ledc_fade_mux := h\<rparr>) L, k')))"

definition ledc_op_lock_release :: "nat \<Rightarrow> kernel \<Rightarrow> ledc \<Rightarrow> (ledc \<times> kernel) res" where
  "ledc_op_lock_release channel k L =
     (case s_ledc_fade_rec L channel of
        None \<Rightarrow> Inr (L, k)
      | Some fade \<Rightarrow>
          bind_res (mutex_give k (ledc_fade_mux fade)) (\<lambda>(h, k').
            Inr (upd_fade channel (\<lambda>f. f\<lparr>ledc_fade_mux := h\<rparr>) L, k')))"

definition ledc_set_duty_with_hpoint ::
  "env \<Rightarrow> nat \<Rightarrow> u32 \<Rightarrow> u32 \<Rightarrow> kernel \<Rightarrow> ledc \<Rightarrow> (esp_err \<times> ledc \<times> kernel) res" where
  "ledc_set_duty_with_hpoint e channel dty hp k L =
     (if \<not> channel < LEDC_CHANNEL_MAX then Inr (ESP_ERR_INVALID_ARG, L, k)
      else if \<not> hp \<le> LEDC_LL_HPOINT_VAL_MAX then Inr (ESP_ERR_INVALID_ARG, L, k)
      else if p_ledc_obj L = None then Inr (ESP_ERR_INVALID_STATE, L, k)
      else bind_res (ledc_fade_hw_acquire e channel k L) (\<lambda>(L1, k1).
           let L2 = ledc_duty_config channel (sint hp) (sint dty) LEDC_DUTY_DIR_INCREASE 1 1 0 L1 in
           bind_res (ledc_fade_hw_release channel k1 L2) (\<lambda>(L3, k2). Inr (ESP_OK, L3, k2))))"

definition ledc_set_duty ::
  "env \<Rightarrow> nat \<Rightarrow> u32 \<Rightarrow> kernel \<Rightarrow> ledc \<Rightarrow> (esp_err \<times> ledc \<times> kernel) res" where
  "ledc_set_duty e channel dty k L =
     (if \<not> channel < LEDC_CHANNEL_MAX then Inr (ESP_ERR_INVALID_ARG, L, k)
      else if p_ledc_obj L = None then Inr (ESP_ERR_INVALID_STATE, L, k)
      else bind_res (ledc_fade_hw_acquire e channel k L) (\<lambda>(L1, k1).
           let L2 = ledc_duty_config channel (- 1) (sint dty) LEDC_DUTY_DIR_INCREASE 1 1 0 L1 in
           bind_res (ledc_fade_hw_release channel k1 L2) (\<lambda>(L3, k2). Inr (ESP_OK, L3, k2))))"

text \<open>
  Routing the channel's signal to a pin; a conflict of reservations is only logged.
\<close>

definition LEDC_LS_SIG_OUT0_IDX :: nat where "LEDC_LS_SIG_OUT0_IDX = 73"

definition ledc_set_pin_raw :: "int \<Rightarrow> nat \<Rightarrow> gpio_context \<Rightarrow> gpio_context" where
  "ledc_set_pin_raw gpio_num channel g =
     upd_pin gpio_num (\<lambda>p. p\<lparr>func_gpio := True, matrix_out := Some (LEDC_LS_SIG_OUT0_IDX + channel)\<rparr>) g"

record ledc_channel_config_t =
  cc_gpio_num :: int
  cc_channel :: nat
  cc_timer_sel :: nat
  cc_intr_fade_end :: bool
  cc_duty :: u32
  cc_hpoint :: u32

definition ledc_channel_config ::
  "ledc_env \<Rightarrow> env \<Rightarrow> ledc_channel_config_t \<Rightarrow> kernel \<Rightarrow> ledc \<Rightarrow> gpio_context \<Rightarrow>
   (esp_err \<times> ledc \<times> gpio_context \<times> kernel) res" where
  "ledc_channel_config E e conf k L g =
     (let c = cc_channel conf; t = cc_timer_sel conf in
      if \<not> c < LEDC_CHANNEL_MAX then Inr (ESP_ERR_INVALID_ARG, L, g, k)
      else if \<not> GPIO_IS_VALID_OUTPUT_GPIO (cc_gpio_num conf) then Inr (ESP_ERR_INVALID_ARG, L, g, k)
      else if \<not> t < LEDC_TIMER_MAX then Inr (ESP_ERR_INVALID_ARG, L, g, k)
      else let (created, L1) = ledc_speed_mode_ctx_create E L in
           if \<not> created \<and> p_ledc_obj L1 = None then Inr (ESP_ERR_NO_MEM, L1, g, k)
           else let L2 = (if created then L1\<lparr>apb_clk_sel := Some LEDC_USE_RC_FAST_CLK\<rparr> else L1) in
                bind_res (ledc_set_duty_with_hpoint e c (cc_duty conf) (cc_hpoint conf) k L2) (\<lambda>(_, L3, k1).
                let L4 = snd (ledc_update_duty c L3);
                    L5 = snd (ledc_bind_channel_timer c t L4);
                    L6 = ledc_enable_intr_type c (cc_intr_fade_end conf) L5
                in Inr (ESP_OK, L6, ledc_set_pin_raw (cc_gpio_num conf) c g, k1)))"

section \<open>The fade service\<close>

definition ledc_fade_func_install :: "ledc_env \<Rightarrow> ledc \<Rightarrow> esp_err \<times> ledc" where
  "ledc_fade_func_install E L =
     (if s_ledc_fade_isr_handle L then (ESP_ERR_INVALID_STATE, L)
      else (intr_alloc E, if intr_alloc E = ESP_OK then L\<lparr>s_ledc_fade_isr_handle := True\<rparr> else L))"

text \<open>
  The record of a channel is made on first use. Its semaphore is given without a check, so that
  a failed allocation of the semaphore stops in the kernel's assertion.
\<close>

definition ledc_fade_channel_init_check ::
  "ledc_env \<Rightarrow> nat \<Rightarrow> kernel \<Rightarrow> ledc \<Rightarrow> (esp_err \<times> ledc \<times> kernel) res" where
  "ledc_fade_channel_init_check E channel k L =
     (if \<not> s_ledc_fade_isr_handle L then Inr (ESP_FAIL, L, k)
      else if s_ledc_fade_rec L channel \<noteq> None
      then Inr (ESP_OK, L, k)
      else if \<not> fade_alloc E then Inr (ESP_ERR_NO_MEM, L, k)
      else bind_res (xSemaphoreCreateBinary (sem_alloc E)) (\<lambda>sem.
           bind_res (xQueueCreateMutex (mux_alloc E) k) (\<lambda>(mux, k1).
           bind_res (xSemaphoreGive k1 sem) (\<lambda>(_, sem', k2).
             let rec = \<lparr>direction = LEDC_DUTY_DIR_DECREASE, target_duty = 0, cycle_num = 0, scale = 0,
                        fade_mode = LEDC_FADE_NO_WAIT, ledc_fade_sem = sem', ledc_fade_mux = mux,
                        fsm = LEDC_FSM_IDLE\<rparr>
             in if mux \<noteq> None
                then Inr (ESP_OK, L\<lparr>s_ledc_fade_rec := (s_ledc_fade_rec L)(channel := Some rec)\<rparr>, k2)
                else Inr (ESP_FAIL, L, k2)))))"

text \<open>The number of steps of the first leg of a fade, and its direction.\<close>

definition fade_steps :: "u32 \<Rightarrow> u32 \<Rightarrow> int \<Rightarrow> ledc_duty_direction_t \<times> int" where
  "fade_steps duty_cur target scl =
     (if duty_cur > target
      then (LEDC_DUTY_DIR_DECREASE, min LEDC_LL_DUTY_NUM_MAX ((uint duty_cur - uint target) div scl))
      else (LEDC_DUTY_DIR_INCREASE, min LEDC_LL_DUTY_NUM_MAX ((uint target - uint duty_cur) div scl)))"

definition ledc_set_fade_with_step_raw :: "nat \<Rightarrow> u32 \<Rightarrow> int \<Rightarrow> int \<Rightarrow> ledc \<Rightarrow> ledc" where
  "ledc_set_fade_with_step_raw channel target scl cyc L =
     (let cur0 = drop_bit 4 (duty_read (channel_regs L channel));
          duty_cur = (if cur0 = ledc_get_max_duty channel L then cur0 - 1 else cur0);
          L1 = upd_fade channel (\<lambda>f. f\<lparr>target_duty := target, cycle_num := cyc, scale := scl\<rparr>) L;
          (dir, step_num) = (if scl > 0 then fade_steps duty_cur target scl
                             else (LEDC_DUTY_DIR_DECREASE, 0));
          L2 = (if scl > 0 then upd_fade channel (\<lambda>f. f\<lparr>direction := dir\<rparr>) L1 else L1)
      in if scl > 0 \<and> step_num > 0
         then ledc_duty_config channel (- 1) (sint duty_cur) dir (word_of_int step_num)
                (word_of_int cyc) (word_of_int scl) L2
         else ledc_duty_config channel (- 1) (sint target) LEDC_DUTY_DIR_INCREASE 1 1 0 L2)"

text \<open>
  \<^verbatim>\<open>max_fade_time_ms * freq\<close> wraps at 32 bits. Returns the scale and the number of cycles.
\<close>

definition fade_parameters :: "u32 \<Rightarrow> u32 \<Rightarrow> int \<times> int" where
  "fade_parameters total_cycles duty_delta =
     (if duty_delta = 0 \<or> total_cycles = 0 then (0, 0)
      else if total_cycles > duty_delta
      then (1, min LEDC_LL_DUTY_CYCLE_MAX (uint (total_cycles div duty_delta)))
      else (min LEDC_LL_DUTY_SCALE_MAX (uint (duty_delta div total_cycles)), 1))"

definition ledc_set_fade_with_time_raw ::
  "ledc_env \<Rightarrow> nat \<Rightarrow> u32 \<Rightarrow> u32 \<Rightarrow> ledc \<Rightarrow> ledc res" where
  "ledc_set_fade_with_time_raw E channel target max_fade_time_ms L =
     (let duty_cur = drop_bit 4 (duty_read (channel_regs L channel)) in
      bind_res (ledc_get_freq E (timer_sel (channel_regs L channel)) L) (\<lambda>freq.
        let duty_delta = (if target > duty_cur then target - duty_cur else duty_cur - target);
            total_cycles = (max_fade_time_ms * freq) div 1000;
            (scl, cyc) = fade_parameters total_cycles duty_delta
        in Inr (ledc_set_fade_with_step_raw channel target scl cyc L)))"

definition ledc_fade_start_raw ::
  "env \<Rightarrow> nat \<Rightarrow> ledc_fade_mode_t \<Rightarrow> kernel \<Rightarrow> ledc \<Rightarrow> (ledc \<times> kernel) res" where
  "ledc_fade_start_raw e channel mode k L =
     bind_res (deref (s_ledc_fade_rec L channel)) (\<lambda>fade.
       let L1 = upd_fade channel (\<lambda>f. f\<lparr>fade_mode := mode\<rparr>) L;
           L2 = ledc_enable_intr_type channel True L1
       in assert_res (fsm fade = LEDC_FSM_IDLE)
          (let L3 = upd_fade channel (\<lambda>f. f\<lparr>fsm := LEDC_FSM_HW_FADE\<rparr>) L2;
               L4 = snd (ledc_update_duty channel L3)
           in if mode = LEDC_FADE_WAIT_DONE
              then bind_res (ledc_fade_hw_acquire e channel k L4) (\<lambda>(L5, k1). ledc_fade_hw_release channel k1 L5)
              else Inr (L4, k)))"

definition ledc_set_fade_time_and_start ::
  "ledc_env \<Rightarrow> env \<Rightarrow> nat \<Rightarrow> u32 \<Rightarrow> u32 \<Rightarrow> ledc_fade_mode_t \<Rightarrow> kernel \<Rightarrow> ledc \<Rightarrow>
   (esp_err \<times> ledc \<times> kernel) res" where
  "ledc_set_fade_time_and_start E e channel target max_fade_time_ms mode k L =
     (if \<not> channel < LEDC_CHANNEL_MAX then Inr (ESP_ERR_INVALID_ARG, L, k)
      else if p_ledc_obj L = None then Inr (ESP_ERR_INVALID_STATE, L, k)
      else bind_res (ledc_fade_channel_init_check E channel k L) (\<lambda>(r, L1, k1).
           if r \<noteq> ESP_OK then Inr (ESP_FAIL, L1, k1)
           else if \<not> target \<le> ledc_get_max_duty channel L1 then Inr (ESP_ERR_INVALID_ARG, L1, k1)
           else bind_res (ledc_op_lock_acquire channel k1 L1) (\<lambda>(L2, k2).
                bind_res (ledc_fade_hw_acquire e channel k2 L2) (\<lambda>(L3, k3).
                bind_res (ledc_set_fade_with_time_raw E channel target max_fade_time_ms L3) (\<lambda>L4.
                bind_res (ledc_fade_start_raw e channel mode k3 L4) (\<lambda>(L5, k4).
                bind_res (ledc_op_lock_release channel k4 L5) (\<lambda>(L6, k5). Inr (ESP_OK, L6, k5))))))))"

section \<open>The fade interrupt\<close>

text \<open>What the handler does for one channel whose fade leg has ended.\<close>

definition ledc_fade_isr_channel :: "nat \<Rightarrow> ledc \<Rightarrow> ledc res" where
  "ledc_fade_isr_channel channel L =
     (case s_ledc_fade_rec L channel of
        None \<Rightarrow> Inr L
      | Some fade \<Rightarrow>
          assert_res (fsm fade \<noteq> LEDC_FSM_ISR_CAL \<and> fsm fade \<noteq> LEDC_FSM_KILLED_PENDING)
          (if fsm fade = LEDC_FSM_IDLE then Inr L
           else let L1 = upd_fade channel (\<lambda>f. f\<lparr>fsm := LEDC_FSM_ISR_CAL\<rparr>) L;
                    duty_cur = drop_bit 4 (duty_read (channel_regs L1 channel));
                    duty_tar = target_duty fade
                in if duty_cur = duty_tar \<or> scale fade = 0
                   then bind_res (xQueueGiveFromISR (ledc_fade_sem fade)) (\<lambda>(_, q).
                          Inr (upd_fade channel (\<lambda>f. f\<lparr>fsm := LEDC_FSM_IDLE, ledc_fade_sem := Some q\<rparr>) L1))
                   else let delta = sint (if direction fade = LEDC_DUTY_DIR_DECREASE
                                          then duty_cur - duty_tar else duty_tar - duty_cur);
                            L2 = (if delta > scale fade
                                  then ledc_duty_config channel (- 1) (sint duty_cur) (direction fade)
                                         (word_of_int (min LEDC_LL_DUTY_NUM_MAX (c_div delta (scale fade))))
                                         (word_of_int (cycle_num fade)) (word_of_int (scale fade)) L1
                                  else ledc_duty_config channel (- 1) (sint duty_tar) (direction fade) 1 1 0 L1)
                        in Inr (upd_channel channel (\<lambda>r. r\<lparr>duty_start := True\<rparr>)
                                 (upd_fade channel (\<lambda>f. f\<lparr>fsm := LEDC_FSM_HW_FADE\<rparr>) L2))))"

text \<open>The handler serves the channels of the status register from the lowest bit up.\<close>

definition ledc_fade_isr :: "u32 \<Rightarrow> ledc \<Rightarrow> ledc res" where
  "ledc_fade_isr intr_status L =
     (if p_ledc_obj L = None then Inr L
      else fold (\<lambda>c r. bind_res r (ledc_fade_isr_channel c))
             (filter (bit intr_status) [0..<LEDC_CHANNEL_MAX]) (Inr L))"

section \<open>Register fields\<close>

lemma uint_field:
  assumes "0 \<le> x" and "x < 2 ^ n" and "n \<le> 32"
  shows "uint (word_of_int x AND mask n :: u32) = x"
proof -
  have "word_of_int x AND mask n = take_bit n (word_of_int x :: u32)" by (simp add: take_bit_eq_mask)
  also have "uint \<dots> = take_bit n x"
    using assms(3) by (simp add: unsigned_take_bit_eq unsigned_of_int min_def take_bit_take_bit)
  also have "\<dots> = x" using assms by (simp add: take_bit_int_eq_self)
  finally show ?thesis .
qed

lemma uint_field10: "0 \<le> x \<Longrightarrow> x \<le> 1023 \<Longrightarrow> uint (word_of_int x AND 0x3FF :: u32) = x"
  using uint_field [of x 10] by (simp add: mask_eq_exp_minus_1)

lemma uint_duty_field:
  assumes "0 \<le> x" and "x \<le> 16384"
  shows "uint (drop_bit 4 (push_bit 4 (word_of_int x) AND 0x7FFFF :: u32)) = x"
proof -
  have "(push_bit 4 (word_of_int x) :: u32) = word_of_int (x * 16)" by (simp add: push_bit_eq_mult)
  then have "uint (push_bit 4 (word_of_int x) AND 0x7FFFF :: u32) = x * 16"
    using uint_field [of "x * 16" 19] assms by (simp add: mask_eq_exp_minus_1)
  then show ?thesis by (simp add: drop_bit_eq_div uint_div)
qed

section \<open>A running fade\<close>

text \<open>
  The hardware at the end of a leg: it has moved the duty by the number of steps times the scale
  in the leg's direction. \<^term>\<open>hw\<close> gives the integer part of the duty it then shows.
\<close>

definition leg_value :: "ledc_channel_regs \<Rightarrow> int" where
  "leg_value r =
     (let d = uint (drop_bit 4 (duty r)); s = uint (duty_num r) * uint (duty_scale r)
      in if duty_inc r = LEDC_DUTY_DIR_DECREASE then d - s else d + s)"

definition fades_as_documented :: "(ledc_channel_regs \<Rightarrow> u32) \<Rightarrow> bool" where
  "fades_as_documented hw \<longleftrightarrow> (\<forall>r. 0 \<le> leg_value r \<and> leg_value r \<le> 16384 \<longrightarrow> uint (hw r) = leg_value r)"

definition leg_ends :: "(ledc_channel_regs \<Rightarrow> u32) \<Rightarrow> nat \<Rightarrow> ledc \<Rightarrow> ledc" where
  "leg_ends hw channel L = upd_channel channel (\<lambda>r. r\<lparr>duty_read := push_bit 4 (hw r)\<rparr>) L"

fun fade_interrupts :: "(ledc_channel_regs \<Rightarrow> u32) \<Rightarrow> nat \<Rightarrow> nat \<Rightarrow> ledc \<Rightarrow> ledc res" where
  "fade_interrupts hw channel 0 L = Inr L"
| "fade_interrupts hw channel (Suc n) L =
     bind_res (ledc_fade_isr_channel channel (leg_ends hw channel L)) (fade_interrupts hw channel n)"

text \<open>
  A channel in the middle of a fade: the current leg ends on the way to the target and never
  beyond it.
\<close>

definition fading :: "nat \<Rightarrow> ledc \<Rightarrow> bool" where
  "fading channel L \<longleftrightarrow>
     (case s_ledc_fade_rec L channel of
        None \<Rightarrow> False
      | Some f \<Rightarrow>
          let v = leg_value (channel_regs L channel); t = uint (target_duty f) in
          fsm f = LEDC_FSM_HW_FADE \<and> t \<le> 16384 \<and> 0 \<le> v \<and> v \<le> 16384 \<and>
          0 \<le> scale f \<and> scale f \<le> 1023 \<and> (scale f = 0 \<longrightarrow> v = t) \<and>
          (if direction f = LEDC_DUTY_DIR_DECREASE then t \<le> v else v \<le> t) \<and>
          (\<exists>q. ledc_fade_sem f = Some q \<and> binary_sem False q))"

definition fade_left :: "nat \<Rightarrow> ledc \<Rightarrow> nat" where
  "fade_left channel L =
     (case s_ledc_fade_rec L channel of
        None \<Rightarrow> 0
      | Some f \<Rightarrow> nat \<bar>leg_value (channel_regs L channel) - uint (target_duty f)\<bar>)"

text \<open>The end of a fade: idle, the semaphore given back, the shown duty the target.\<close>

definition fade_done :: "nat \<Rightarrow> u32 \<Rightarrow> ledc \<Rightarrow> bool" where
  "fade_done channel target L \<longleftrightarrow>
     drop_bit 4 (duty_read (channel_regs L channel)) = target \<and>
     (\<exists>f q. s_ledc_fade_rec L channel = Some f \<and> fsm f = LEDC_FSM_IDLE \<and>
        ledc_fade_sem f = Some q \<and> binary_sem True q)"

lemma leg_value_step:
  assumes "0 \<le> d" and "d \<le> 16384" and "0 \<le> n" and "n \<le> 1023" and "0 \<le> s" and "s \<le> 1023"
  shows "leg_value (channel_regs (ledc_duty_config c (- 1) d dir (word_of_int n) cyc (word_of_int s) L) c) =
    (if dir = LEDC_DUTY_DIR_DECREASE then d - n * s else d + n * s)"
  using assms uint_duty_field [of d] uint_field10 [of n] uint_field10 [of s]
  by (simp add: leg_value_def ledc_duty_config_def upd_channel_def Let_def)

lemma leg_value_jump:
  assumes "0 \<le> d" and "d \<le> 16384"
  shows "leg_value (channel_regs (ledc_duty_config c (- 1) d dir 1 1 0 L) c) = d"
  using assms uint_duty_field [of d] by (simp add: leg_value_def ledc_duty_config_def upd_channel_def Let_def)

lemma leg_value_frame [simp]:
  "leg_value (r\<lparr>duty_start := b\<rparr>) = leg_value r"
  "leg_value (r\<lparr>duty_read := x\<rparr>) = leg_value r"
  "leg_value (r\<lparr>fade_end_intr := b\<rparr>) = leg_value r"
  "leg_value (r\<lparr>sig_out_en := b\<rparr>) = leg_value r"
  by (simp_all add: leg_value_def Let_def)

lemma ledc_frame [simp]:
  "s_ledc_fade_rec (upd_channel c f L) = s_ledc_fade_rec L"
  "channel_regs (upd_fade c g L) = channel_regs L"
  "channel_regs (upd_channel c f L) c = f (channel_regs L c)"
  "s_ledc_fade_rec (upd_fade c g L) c = map_option g (s_ledc_fade_rec L c)"
  "s_ledc_fade_rec (ledc_duty_config c h d dir n cyc s L) = s_ledc_fade_rec L"
  by (simp_all add: upd_channel_def upd_fade_def ledc_duty_config_def)

text \<open>What remains after the steps of a leg, in either direction.\<close>

lemma steps_left:
  assumes "0 < s" and "s < d"
  shows "0 < min 1023 (d div s) \<and> min 1023 (d div s) * s \<le> (d :: int)"
proof -
  have "1 \<le> d div s" using assms pos_imp_zdiv_pos_iff [of s d] by simp
  moreover have "min 1023 (d div s) * s \<le> d div s * s" using assms by (intro mult_right_mono) auto
  moreover have "d div s * s = d - d mod s" by (simp add: minus_mod_eq_div_mult)
  moreover have "0 \<le> d mod s" using assms by simp
  ultimately show ?thesis by linarith
qed

lemma duty_read_back:
  assumes "uint (w :: u32) \<le> 16384"
  shows "drop_bit 4 (push_bit 4 w) = w"
proof (rule word_uint_eqI)
  have "(push_bit 4 w :: u32) = word_of_int (uint w * 16)" by (simp add: push_bit_eq_mult)
  moreover have "uint (word_of_int (uint w * 16) :: u32) = uint w * 16"
    using assms by (intro word_of_int_inverse [OF refl]) simp_all
  ultimately show "uint (drop_bit 4 (push_bit 4 w)) = uint w"
    by (simp add: drop_bit_eq_div uint_div)
qed

lemma sint_small: "uint (w :: u32) \<le> 16384 \<Longrightarrow> sint w = uint w"
proof -
  assume a: "uint w \<le> 16384"
  have "signed_take_bit 31 (uint w) = uint w"
    by (rule signed_take_bit_int_eq_self) (use a in \<open>auto intro: order_trans [of _ 0]\<close>)
  then show ?thesis by (simp add: sint_uint)
qed

lemma sint_diff_small:
  assumes "uint (b :: u32) \<le> uint a" and "uint a \<le> 16384"
  shows "sint (a - b) = uint a - uint b"
proof -
  have "uint (a - b) = uint a - uint b" using assms(1) by (simp add: uint_minus_simple_alt [symmetric] word_le_def)
  moreover have "uint a - uint b \<le> 16384" using assms(2) uint_ge_0 [of b] by linarith
  ultimately show ?thesis using sint_small [of "a - b"] by simp
qed

lemma c_div_pos: "0 \<le> a \<Longrightarrow> 0 < b \<Longrightarrow> c_div a b = a div b"
  by (cases "a = 0") (simp_all add: c_div_def)

lemma fadingI:
  assumes "s_ledc_fade_rec L c = Some f'"
    and "0 \<le> leg_value (channel_regs L c) \<and> leg_value (channel_regs L c) \<le> 16384 \<and>
        (if direction f = LEDC_DUTY_DIR_DECREASE then uint (target_duty f) \<le> leg_value (channel_regs L c)
         else leg_value (channel_regs L c) \<le> uint (target_duty f))"
    and "direction f' = direction f" and "target_duty f' = target_duty f"
    and "fsm f' = LEDC_FSM_HW_FADE" and "uint (target_duty f) \<le> 16384" and "0 < scale f'"
    and "scale f' \<le> 1023" and "ledc_fade_sem f' = Some q" and "binary_sem False q"
  shows "fading c L"
  unfolding fading_def assms(1) using assms(2-10) by (simp add: Let_def)

text \<open>An interrupt during a fade ends it when the target is reached, and else starts a nearer leg.\<close>

lemma isr_step:
  assumes hw: "fades_as_documented hw" and fd: "fading c L"
  shows "\<exists>L'. ledc_fade_isr_channel c (leg_ends hw c L) = Inr L' \<and>
           (fade_done c (target_duty (the (s_ledc_fade_rec L c))) L' \<or>
            fading c L' \<and> fade_left c L' < fade_left c L \<and>
            target_duty (the (s_ledc_fade_rec L' c)) = target_duty (the (s_ledc_fade_rec L c)))"
proof -
  let ?r = "channel_regs L c"
  let ?v = "leg_value ?r"
  from fd obtain f where f: "s_ledc_fade_rec L c = Some f" "fsm f = LEDC_FSM_HW_FADE"
    "uint (target_duty f) \<le> 16384" "0 \<le> ?v" "?v \<le> 16384" "0 \<le> scale f" "scale f \<le> 1023"
    "scale f = 0 \<longrightarrow> ?v = uint (target_duty f)"
    "if direction f = LEDC_DUTY_DIR_DECREASE then uint (target_duty f) \<le> ?v else ?v \<le> uint (target_duty f)"
    "\<exists>q. ledc_fade_sem f = Some q \<and> binary_sem False q"
    by (auto simp: fading_def Let_def split: option.splits)
  then obtain q where q: "ledc_fade_sem f = Some q" "binary_sem False q" by blast
  have h: "uint (hw ?r) = ?v" using hw f(4,5) by (simp add: fades_as_documented_def)
  have cur: "drop_bit 4 (push_bit 4 (hw ?r)) = hw ?r" using h f(5) by (intro duty_read_back) simp
  show ?thesis
  proof (cases "?v = uint (target_duty f)")
    case True
    then have e: "hw ?r = target_duty f" using h by (intro word_uint_eqI) simp
    have "xQueueGiveFromISR (Some q) = Inr (pdPASS, q\<lparr>uxMessagesWaiting := 1\<rparr>)"
      using q(2) by (simp add: xQueueGiveFromISR_def binary_sem_def wake_receiver_def)
    with f q e cur show ?thesis
      by (simp add: ledc_fade_isr_channel_def leg_ends_def fade_done_def Let_def)
  next
    case False
    then have ne: "hw ?r \<noteq> target_duty f" and s: "0 < scale f" using h f(6,8) by auto
    let ?d = "\<bar>?v - uint (target_duty f)\<bar>"
    have delta: "sint (if direction f = LEDC_DUTY_DIR_DECREASE then hw ?r - target_duty f
                       else target_duty f - hw ?r) = ?d"
      using f(3,5,9) h sint_diff_small [of "target_duty f" "hw ?r"] sint_diff_small [of "hw ?r" "target_duty f"]
      by (auto split: if_splits)
    have sv: "sint (hw ?r) = ?v" "sint (target_duty f) = uint (target_duty f)"
      using h f(3,5) sint_small by simp_all
    let ?L1 = "upd_fade c (\<lambda>f. f\<lparr>fsm := LEDC_FSM_ISR_CAL\<rparr>) (leg_ends hw c L)"
    define n where "n = min 1023 (?d div scale f)"
    let ?L2 = "if ?d > scale f
      then ledc_duty_config c (- 1) ?v (direction f) (word_of_int n) (word_of_int (cycle_num f))
             (word_of_int (scale f)) ?L1
      else ledc_duty_config c (- 1) (uint (target_duty f)) (direction f) 1 1 0 ?L1"
    let ?L = "upd_channel c (\<lambda>r. r\<lparr>duty_start := True\<rparr>) (upd_fade c (\<lambda>f. f\<lparr>fsm := LEDC_FSM_HW_FADE\<rparr>) ?L2)"
    have isr: "ledc_fade_isr_channel c (leg_ends hw c L) = Inr ?L"
      using f(1,2) s ne cur delta sv
      by (cases "direction f")
        (simp_all add: ledc_fade_isr_channel_def leg_ends_def Let_def c_div_pos
          LEDC_LL_DUTY_NUM_MAX_def n_def)
    have rec: "s_ledc_fade_rec ?L c = Some (f\<lparr>fsm := LEDC_FSM_HW_FADE\<rparr>)"
      using f(1) by (simp add: leg_ends_def)
    have nb: "0 \<le> n \<and> n \<le> 1023 \<and> (?d > scale f \<longrightarrow> 0 < n \<and> n * scale f \<le> ?d)"
      using steps_left [OF s, of ?d] s by (auto simp: n_def pos_imp_zdiv_nonneg_iff)
    have v: "leg_value (channel_regs ?L c) =
        (if ?d > scale f then if direction f = LEDC_DUTY_DIR_DECREASE then ?v - n * scale f else ?v + n * scale f
         else uint (target_duty f))"
      using leg_value_step [of ?v n "scale f" c "direction f" "word_of_int (cycle_num f)" ?L1]
        leg_value_jump [of "uint (target_duty f)" c "direction f" ?L1] f(3-7) nb by simp
    have pos: "?d > scale f \<Longrightarrow> 0 < n * scale f" using nb s by simp
    have left: "fade_left c ?L < fade_left c L"
      unfolding fade_left_def rec f(1) v using nb pos f(9) False by (auto split: if_splits)
    define t where "t = uint (target_duty f)"
    have t0: "0 \<le> t" by (simp add: t_def)
    have pn: "0 \<le> n * scale f" using nb s by simp
    have range: "0 \<le> leg_value (channel_regs ?L c) \<and> leg_value (channel_regs ?L c) \<le> 16384 \<and>
        (if direction f = LEDC_DUTY_DIR_DECREASE then uint (target_duty f) \<le> leg_value (channel_regs ?L c)
         else leg_value (channel_regs ?L c) \<le> uint (target_duty f))"
      unfolding v unfolding t_def [symmetric] using f(3-5,9) [folded t_def] nb [folded t_def] t0
      by (auto split: if_splits) (use pn in linarith)+
    then have "fading c ?L"
      by (rule fadingI [OF rec, where q = q]) (use f q s in simp_all)
    with isr left rec f(1) show ?thesis by auto
  qed
qed

text \<open>So a fade ends, after at most one interrupt more than it has duty steps left.\<close>

lemma fade_terminates:
  assumes "fades_as_documented hw"
  shows "fading c L \<Longrightarrow> \<exists>n L'. n \<le> Suc (fade_left c L) \<and> fade_interrupts hw c n L = Inr L' \<and>
           fade_done c (target_duty (the (s_ledc_fade_rec L c))) L'"
proof (induction "fade_left c L" arbitrary: L rule: less_induct)
  case less
  from isr_step [OF assms less.prems] obtain L1 where
    1: "ledc_fade_isr_channel c (leg_ends hw c L) = Inr L1"
    "fade_done c (target_duty (the (s_ledc_fade_rec L c))) L1 \<or>
     fading c L1 \<and> fade_left c L1 < fade_left c L \<and>
     target_duty (the (s_ledc_fade_rec L1 c)) = target_duty (the (s_ledc_fade_rec L c))" by blast
  show ?case
  proof (cases "fade_done c (target_duty (the (s_ledc_fade_rec L c))) L1")
    case True
    with 1 show ?thesis by (intro exI [of _ "Suc 0"]) simp
  next
    case False
    with 1 have n: "fading c L1" "fade_left c L1 < fade_left c L"
      "target_duty (the (s_ledc_fade_rec L1 c)) = target_duty (the (s_ledc_fade_rec L c))" by auto
    from less.hyps [OF n(2,1)] n obtain m L' where "m \<le> Suc (fade_left c L1)"
      "fade_interrupts hw c m L1 = Inr L'" "fade_done c (target_duty (the (s_ledc_fade_rec L c))) L'" by auto
    with 1 n(2) show ?thesis by (intro exI [of _ "Suc m"]) auto
  qed
qed

section \<open>Starting a fade\<close>

lemma fade_parameters_bounds:
  assumes "fade_parameters cycles delta = (scl, cyc)"
  shows "0 \<le> scl \<and> scl \<le> 1023"
  using assms uint_ge_0 [of "delta div cycles"]
  by (auto simp: fade_parameters_def LEDC_LL_DUTY_SCALE_MAX_def LEDC_LL_DUTY_CYCLE_MAX_def split: if_splits)

text \<open>The duty a fade starts from: one below the maximum instead of the maximum itself.\<close>

definition fade_from :: "nat \<Rightarrow> ledc \<Rightarrow> u32" where
  "fade_from c L =
     (let cur = drop_bit 4 (duty_read (channel_regs L c))
      in if cur = ledc_get_max_duty c L then cur - 1 else cur)"

lemma fade_from_bound:
  assumes "uint (drop_bit 4 (duty_read (channel_regs L c))) \<le> 16384" and "0 < ledc_get_max_duty c L"
  shows "uint (fade_from c L) \<le> 16384"
proof -
  let ?cur = "drop_bit 4 (duty_read (channel_regs L c))"
  have "uint (?cur - 1) \<le> uint ?cur" if "0 < ?cur"
  proof -
    have "1 \<le> ?cur" using that by (simp add: word_le_nat_alt word_less_nat_alt)
    then have "uint (?cur - 1) = uint ?cur - uint (1 :: u32)" by (simp only: uint_minus_simple_alt)
    then show ?thesis by simp
  qed
  then show ?thesis using assms by (auto simp: fade_from_def Let_def)
qed

lemma fade_steps_toward:
  assumes "fade_steps cu target scl = (dir, n)" and "0 < scl"
  shows "0 \<le> n \<and> n \<le> 1023 \<and>
    (if dir = LEDC_DUTY_DIR_DECREASE then target < cu \<and> n * scl \<le> uint cu - uint target
     else cu \<le> target \<and> n * scl \<le> uint target - uint cu)"
proof -
  have *: "0 \<le> min 1023 (x div scl) \<and> min 1023 (x div scl) * scl \<le> x" if "0 \<le> x" for x
  proof -
    have "min 1023 (x div scl) * scl \<le> x div scl * scl" using assms(2) by (intro mult_right_mono) auto
    moreover have "x div scl * scl = x - x mod scl" by (simp add: minus_mod_eq_div_mult)
    moreover have "0 \<le> x mod scl" using assms(2) by simp
    ultimately have "min 1023 (x div scl) * scl \<le> x" by linarith
    then show ?thesis using that assms(2) by (simp add: pos_imp_zdiv_nonneg_iff)
  qed
  show ?thesis
    using assms(1) * [of "uint cu - uint target"] * [of "uint target - uint cu"]
    by (auto simp: fade_steps_def LEDC_LL_DUTY_NUM_MAX_def word_less_def word_le_def split: if_splits)
qed

text \<open>
  The registers and the record after \<^verbatim>\<open>_ledc_set_fade_with_step\<close>: the first leg ends on the way
  to the target.
\<close>

lemma with_step_leg:
  assumes cur: "uint (fade_from c L) \<le> 16384" and tgt: "uint target \<le> 16384"
    and scl: "0 \<le> scl" "scl \<le> 1023" and rec: "s_ledc_fade_rec L c = Some f"
  shows "\<exists>f'. s_ledc_fade_rec (ledc_set_fade_with_step_raw c target scl cyc L) c = Some f' \<and>
     target_duty f' = target \<and> scale f' = scl \<and> fsm f' = fsm f \<and>
     ledc_fade_sem f' = ledc_fade_sem f \<and> ledc_fade_mux f' = ledc_fade_mux f \<and>
     (let v = leg_value (channel_regs (ledc_set_fade_with_step_raw c target scl cyc L) c) in
      0 \<le> v \<and> v \<le> 16384 \<and> (scl = 0 \<longrightarrow> v = uint target) \<and>
      (if direction f' = LEDC_DUTY_DIR_DECREASE then uint target \<le> v else v \<le> uint target))"
proof -
  obtain dir n where d: "fade_steps (fade_from c L) target scl = (dir, n)" by fastforce
  have st: "sint target = uint target" "sint (fade_from c L) = uint (fade_from c L)"
    using tgt cur sint_small by simp_all
  let ?L1 = "upd_fade c (\<lambda>f. f\<lparr>target_duty := target, cycle_num := cyc, scale := scl\<rparr>) L"
  let ?L2 = "if 0 < scl then upd_fade c (\<lambda>f. f\<lparr>direction := dir\<rparr>) ?L1 else ?L1"
  have eq: "ledc_set_fade_with_step_raw c target scl cyc L =
    (if 0 < scl \<and> 0 < n
     then ledc_duty_config c (- 1) (uint (fade_from c L)) dir (word_of_int n) (word_of_int cyc) (word_of_int scl) ?L2
     else ledc_duty_config c (- 1) (uint target) LEDC_DUTY_DIR_INCREASE 1 1 0 ?L2)"
    using d st unfolding ledc_set_fade_with_step_raw_def Let_def fade_from_def [symmetric, unfolded Let_def]
    by auto
  have rec': "s_ledc_fade_rec (ledc_set_fade_with_step_raw c target scl cyc L) c =
    Some (if 0 < scl then f\<lparr>target_duty := target, cycle_num := cyc, scale := scl, direction := dir\<rparr>
          else f\<lparr>target_duty := target, cycle_num := cyc, scale := scl\<rparr>)"
    unfolding eq using rec by simp
  define u and t where "u = uint (fade_from c L)" and "t = uint target"
  have ut: "0 \<le> u" "0 \<le> t" by (simp_all add: u_def t_def)
  note steps = fade_steps_toward [OF d, unfolded word_less_def word_le_def, folded u_def t_def]
  have v: "leg_value (channel_regs (ledc_set_fade_with_step_raw c target scl cyc L) c) =
    (if 0 < scl \<and> 0 < n then if dir = LEDC_DUTY_DIR_DECREASE then u - n * scl else u + n * scl else t)"
    unfolding eq u_def t_def
    using leg_value_step [of "uint (fade_from c L)" n scl c dir "word_of_int cyc" ?L2]
      leg_value_jump [of "uint target" c LEDC_DUTY_DIR_INCREASE ?L2] cur tgt scl steps
    by auto
  show ?thesis
    unfolding rec' v Let_def using steps scl cur [folded u_def] tgt [folded t_def] ut
    unfolding t_def [symmetric]
    by (auto split: if_splits) (use mult_pos_pos [of n scl] in linarith)
qed

definition fade_ready :: "kernel \<Rightarrow> nat \<Rightarrow> ledc \<Rightarrow> bool" where
  "fade_ready k c L \<longleftrightarrow>
     c < LEDC_CHANNEL_MAX \<and> p_ledc_obj L \<noteq> None \<and> s_ledc_fade_isr_handle L \<and> apb_clk_sel L \<noteq> None \<and>
     timer_sel (channel_regs L c) < LEDC_TIMER_MAX \<and>
     unat (duty_resolution (timer_regs L (timer_sel (channel_regs L c)))) \<le> 14 \<and>
     uint (drop_bit 4 (duty_read (channel_regs L c))) \<le> 16384 \<and>
     (case s_ledc_fade_rec L c of
        None \<Rightarrow> False
      | Some f \<Rightarrow> fsm f = LEDC_FSM_IDLE \<and> mutex_ready k (ledc_fade_mux f) \<and>
          (case ledc_fade_sem f of None \<Rightarrow> False | Some q \<Rightarrow> binary_sem True q))"

lemma max_duty_bounds:
  assumes "unat (duty_resolution (timer_regs L (timer_sel (channel_regs L c)))) \<le> 14"
  shows "0 < ledc_get_max_duty c L" and "uint (ledc_get_max_duty c L) \<le> 16384"
proof -
  let ?r = "unat (duty_resolution (timer_regs L (timer_sel (channel_regs L c))))"
  have p: "(2 :: int) ^ ?r \<le> 2 ^ 14" using assms by (intro power_increasing) simp_all
  have "uint (push_bit ?r 1 :: u32) = 2 ^ ?r"
  proof -
    have "(push_bit ?r 1 :: u32) = word_of_int (2 ^ ?r)" by simp
    moreover have "uint (word_of_int (2 ^ ?r) :: u32) = 2 ^ ?r"
      using p by (intro word_of_int_inverse [OF refl]) simp_all
    ultimately show ?thesis by simp
  qed
  then show "0 < ledc_get_max_duty c L" and "uint (ledc_get_max_duty c L) \<le> 16384"
    using p by (simp_all add: ledc_get_max_duty_def word_less_def)
qed

lemma ledc_frame_more [simp]:
  "p_ledc_obj (upd_fade c g L) = p_ledc_obj L" "timer_regs (upd_fade c g L) = timer_regs L"
  "apb_clk_sel (upd_fade c g L) = apb_clk_sel L"
  "p_ledc_obj (upd_channel c h L) = p_ledc_obj L" "timer_regs (upd_channel c h L) = timer_regs L"
  "apb_clk_sel (upd_channel c h L) = apb_clk_sel L"
  by (simp_all add: upd_fade_def upd_channel_def)

lemma fade_from_frame [simp]:
  "fade_from c (upd_fade d g L) = fade_from c L"
  "fade_from c (ledc_enable_intr_type c b L) = fade_from c L"
  by (simp_all add: fade_from_def ledc_get_max_duty_def ledc_enable_intr_type_def upd_channel_def)

lemma get_freq_returns:
  "t < LEDC_TIMER_MAX \<Longrightarrow> p_ledc_obj L \<noteq> None \<Longrightarrow> apb_clk_sel L \<noteq> None \<Longrightarrow> \<exists>f. ledc_get_freq E t L = Inr f"
  by (auto simp: ledc_get_freq_def ledc_hal_get_clk_cfg_def Let_def)

lemma with_step_obj [simp]: "p_ledc_obj (ledc_set_fade_with_step_raw c target scl cyc L) = p_ledc_obj L"
  by (auto simp: ledc_set_fade_with_step_raw_def ledc_duty_config_def Let_def split: prod.split)

text \<open>The parts of a start: its two locks, the programming of the first leg, the start itself.\<close>

lemma fade_leg_programmed:
  assumes "uint (fade_from c L) \<le> 16384" and "uint target \<le> 16384" and "s_ledc_fade_rec L c = Some f"
    and "ledc_fade_sem f = Some q" and "binary_sem False q" and "fsm f = LEDC_FSM_IDLE"
    and "timer_sel (channel_regs L c) < LEDC_TIMER_MAX" and "p_ledc_obj L \<noteq> None" and "apb_clk_sel L \<noteq> None"
    and "c < LEDC_CHANNEL_MAX"
  shows "\<exists>L1 L2 f'. ledc_set_fade_with_time_raw E c target ms L = Inr L1 \<and>
           ledc_fade_start_raw e c LEDC_FADE_NO_WAIT k L1 = Inr (L2, k) \<and>
           s_ledc_fade_rec L2 c = Some f' \<and> ledc_fade_mux f' = ledc_fade_mux f \<and>
           target_duty f' = target \<and> fading c (upd_fade c (\<lambda>f. f\<lparr>ledc_fade_mux := h\<rparr>) L2)"
proof -
  obtain freq where fr: "ledc_get_freq E (timer_sel (channel_regs L c)) L = Inr freq"
    using get_freq_returns assms(7-9) by blast
  obtain scl cyc where p: "fade_parameters ((ms * freq) div 1000)
      (if target > drop_bit 4 (duty_read (channel_regs L c)) then target - drop_bit 4 (duty_read (channel_regs L c))
       else drop_bit 4 (duty_read (channel_regs L c)) - target) = (scl, cyc)" by fastforce
  let ?L1 = "ledc_set_fade_with_step_raw c target scl cyc L"
  have 1: "ledc_set_fade_with_time_raw E c target ms L = Inr ?L1"
    using fr p by (simp add: ledc_set_fade_with_time_raw_def Let_def)
  from with_step_leg [OF assms(1,2) _ _ assms(3), of scl cyc] fade_parameters_bounds [OF p]
  obtain f' where f': "s_ledc_fade_rec ?L1 c = Some f'" "target_duty f' = target" "scale f' = scl"
    "fsm f' = LEDC_FSM_IDLE" "ledc_fade_sem f' = Some q" "ledc_fade_mux f' = ledc_fade_mux f"
    "let v = leg_value (channel_regs ?L1 c) in 0 \<le> v \<and> v \<le> 16384 \<and> (scl = 0 \<longrightarrow> v = uint target) \<and>
      (if direction f' = LEDC_DUTY_DIR_DECREASE then uint target \<le> v else v \<le> uint target)"
    using assms(4,6) by auto
  define v where "v = leg_value (channel_regs ?L1 c)"
  let ?L2 = "upd_channel c (\<lambda>r. r\<lparr>sig_out_en := True, duty_start := True\<rparr>)
    (upd_fade c (\<lambda>f. f\<lparr>fsm := LEDC_FSM_HW_FADE\<rparr>)
      (ledc_enable_intr_type c True (upd_fade c (\<lambda>f. f\<lparr>fade_mode := LEDC_FADE_NO_WAIT\<rparr>) ?L1)))"
  have 2: "ledc_fade_start_raw e c LEDC_FADE_NO_WAIT k ?L1 = Inr (?L2, k)"
    using f'(1,4) assms(8,10)
    by (auto simp: ledc_fade_start_raw_def ledc_update_duty_def ledc_enable_intr_type_def Let_def)
  have rec: "s_ledc_fade_rec ?L2 c = Some (f'\<lparr>fade_mode := LEDC_FADE_NO_WAIT, fsm := LEDC_FSM_HW_FADE\<rparr>)"
    using f'(1) by (simp add: ledc_enable_intr_type_def)
  have lv: "leg_value (channel_regs (upd_fade c (\<lambda>f. f\<lparr>ledc_fade_mux := h\<rparr>) ?L2) c) = v"
    by (simp add: v_def ledc_enable_intr_type_def)
  have rec2: "s_ledc_fade_rec (upd_fade c (\<lambda>f. f\<lparr>ledc_fade_mux := h\<rparr>) ?L2) c =
      Some (f'\<lparr>fade_mode := LEDC_FADE_NO_WAIT, fsm := LEDC_FSM_HW_FADE, ledc_fade_mux := h\<rparr>)"
    using f'(1) by (simp add: ledc_enable_intr_type_def)
  have "fading c (upd_fade c (\<lambda>f. f\<lparr>ledc_fade_mux := h\<rparr>) ?L2)"
    unfolding fading_def lv rec2 using f'(2-7) [folded v_def] fade_parameters_bounds [OF p] assms(2,5)
    by (simp add: Let_def)
  with 1 2 rec f' show ?thesis by auto
qed

lemma fade_starts:
  assumes "fade_ready k c L" and "target \<le> ledc_get_max_duty c L"
  shows "\<exists>L1. ledc_set_fade_time_and_start E e c target ms LEDC_FADE_NO_WAIT k L = Inr (ESP_OK, L1, k) \<and>
           fading c L1 \<and> target_duty (the (s_ledc_fade_rec L1 c)) = target"
proof -
  from assms(1) obtain f q qm where r: "c < LEDC_CHANNEL_MAX" "p_ledc_obj L \<noteq> None"
    "s_ledc_fade_isr_handle L" "apb_clk_sel L \<noteq> None" "timer_sel (channel_regs L c) < LEDC_TIMER_MAX"
    "unat (duty_resolution (timer_regs L (timer_sel (channel_regs L c)))) \<le> 14"
    "uint (drop_bit 4 (duty_read (channel_regs L c))) \<le> 16384" "s_ledc_fade_rec L c = Some f"
    "fsm f = LEDC_FSM_IDLE" "mutex_ready k (Some qm)" "ledc_fade_mux f = Some qm"
    "ledc_fade_sem f = Some q" "binary_sem True q"
    by (auto simp: fade_ready_def mutex_ready_def split: option.splits)
  obtain t where t: "pxCurrentTCB k = Some t"
    using r(10) by (auto simp: mutex_ready_def kernel_ok_def split: option.splits)
  let ?k = "upd_tcb t (\<lambda>b. b\<lparr>uxMutexesHeld := uxMutexesHeld b + 1\<rparr>) k"
  let ?L2 = "upd_fade c (\<lambda>f. f\<lparr>ledc_fade_mux := Some (held_by k qm)\<rparr>) L"
  let ?q0 = "q\<lparr>uxMessagesWaiting := 0\<rparr>"
  let ?L3 = "ledc_enable_intr_type c False (upd_fade c (\<lambda>f. f\<lparr>ledc_fade_sem := Some ?q0\<rparr>) ?L2)"
  let ?f3 = "f\<lparr>ledc_fade_mux := Some (held_by k qm), ledc_fade_sem := Some ?q0\<rparr>"
  have tgt: "uint target \<le> 16384"
    using max_duty_bounds [OF r(6)] assms(2) by (simp add: word_le_def)
  have init: "ledc_fade_channel_init_check E c k L = Inr (ESP_OK, L, k)"
    using r(3,8) by (simp add: ledc_fade_channel_init_check_def)
  have lock: "ledc_op_lock_acquire c k L = Inr (?L2, ?k)"
    using r(8,11) mutex_take_eq [OF r(10) t] by (simp add: ledc_op_lock_acquire_def)
  have "may_block ?k portMAX_DELAY" using r(10)
    by (simp add: may_block_def mutex_ready_def kernel_ok_def upd_tcb_def)
  then have acq: "ledc_fade_hw_acquire e c ?k ?L2 = Inr (?L3, ?k)"
    using r(8,12) binary_take_eq [OF r(13), of ?k portMAX_DELAY e]
    by (simp add: ledc_fade_hw_acquire_def)
  have rec3: "s_ledc_fade_rec ?L3 c = Some ?f3" using r(8) by (simp add: ledc_enable_intr_type_def)
  have ff: "uint (fade_from c ?L3) \<le> 16384"
    using fade_from_bound [OF r(7) max_duty_bounds(1) [OF r(6)]] by simp
  have q0: "binary_sem False ?q0" using r(13) by simp
  from fade_leg_programmed [OF ff tgt rec3 _ q0, of E ms e ?k "Some qm"] r(1,2,4,5,9)
  obtain L4 L5 f' where 4: "ledc_set_fade_with_time_raw E c target ms ?L3 = Inr L4"
    "ledc_fade_start_raw e c LEDC_FADE_NO_WAIT ?k L4 = Inr (L5, ?k)" "s_ledc_fade_rec L5 c = Some f'"
    "ledc_fade_mux f' = Some (held_by k qm)" "target_duty f' = target"
    "fading c (upd_fade c (\<lambda>f. f\<lparr>ledc_fade_mux := Some qm\<rparr>) L5)"
    by (auto simp: ledc_enable_intr_type_def upd_channel_def)
  have rel: "ledc_op_lock_release c ?k L5 = Inr (upd_fade c (\<lambda>f. f\<lparr>ledc_fade_mux := Some qm\<rparr>) L5, k)"
    using 4(3,4) mutex_give_eq [OF r(10) t] by (simp add: ledc_op_lock_release_def)
  have "ledc_set_fade_time_and_start E e c target ms LEDC_FADE_NO_WAIT k L =
      Inr (ESP_OK, upd_fade c (\<lambda>f. f\<lparr>ledc_fade_mux := Some qm\<rparr>) L5, k)"
    unfolding ledc_set_fade_time_and_start_def using r(1,2) init assms(2) lock acq 4(1,2) rel by simp
  with 4(3,5,6) show ?thesis by auto
qed

lemma fade_left_bound:
  assumes "fading c L"
  shows "fade_left c L \<le> 16384"
proof -
  from assms obtain f where f: "s_ledc_fade_rec L c = Some f" "uint (target_duty f) \<le> 16384"
    "0 \<le> leg_value (channel_regs L c)" "leg_value (channel_regs L c) \<le> 16384"
    by (auto simp: fading_def Let_def split: option.splits)
  have "\<bar>leg_value (channel_regs L c) - uint (target_duty f)\<bar> \<le> 16384"
    using f(2-4) uint_ge_0 [of "target_duty f"] by linarith
  with f(1) show ?thesis by (simp add: fade_left_def)
qed

section \<open>Channels that are not fading\<close>

text \<open>
  On a channel without a fade record, or with a fade that is over (its semaphore is available),
  the duty operations return at once, with the kernel and the fade records as they were.
\<close>

definition ledc_calm :: "ledc \<Rightarrow> bool" where
  "ledc_calm L \<longleftrightarrow>
     (\<forall>c. case s_ledc_fade_rec L c of
        None \<Rightarrow> True
      | Some f \<Rightarrow> (case ledc_fade_sem f of None \<Rightarrow> False | Some q \<Rightarrow> binary_sem True q))"

definition quieted :: "nat \<Rightarrow> ledc \<Rightarrow> ledc" where
  "quieted c L = (if s_ledc_fade_rec L c = None then L else ledc_enable_intr_type c False L)"

lemma ledc_calm_cong: "s_ledc_fade_rec L' = s_ledc_fade_rec L \<Longrightarrow> ledc_calm L' \<longleftrightarrow> ledc_calm L"
  by (simp add: ledc_calm_def)

lemma rec_frame [simp]:
  "s_ledc_fade_rec (upd_channel c f L) = s_ledc_fade_rec L"
  "s_ledc_fade_rec (upd_timer t h L) = s_ledc_fade_rec L"
  "s_ledc_fade_rec (upd_obj g L) = s_ledc_fade_rec L"
  "s_ledc_fade_rec (ledc_enable_intr_type c b L) = s_ledc_fade_rec L"
  "s_ledc_fade_rec (ledc_duty_config c hp d dir n cy sc L) = s_ledc_fade_rec L"
  "s_ledc_fade_isr_handle (upd_channel c f L) = s_ledc_fade_isr_handle L"
  "s_ledc_fade_isr_handle (ledc_enable_intr_type c b L) = s_ledc_fade_isr_handle L"
  "s_ledc_fade_isr_handle (ledc_duty_config c hp d dir n cy sc L) = s_ledc_fade_isr_handle L"
  by (simp_all add: upd_channel_def upd_timer_def upd_obj_def ledc_enable_intr_type_def ledc_duty_config_def)

lemma quieted_frame [simp]:
  "s_ledc_fade_rec (quieted c L) = s_ledc_fade_rec L"
  "s_ledc_fade_isr_handle (quieted c L) = s_ledc_fade_isr_handle L" "p_ledc_obj (quieted c L) = p_ledc_obj L"
  "timer_regs (quieted c L) = timer_regs L" "apb_clk_sel (quieted c L) = apb_clk_sel L"
  "duty (channel_regs (quieted c L) d) = duty (channel_regs L d)"
  "timer_sel (channel_regs (quieted c L) d) = timer_sel (channel_regs L d)"
  by (simp_all add: quieted_def ledc_enable_intr_type_def upd_channel_def)

lemma acquire_release_calm:
  assumes "ledc_calm L" and "may_block k portMAX_DELAY"
  shows "bind_res (ledc_fade_hw_acquire e c k L) (\<lambda>(L1, k1).
           bind_res (ledc_fade_hw_release c k1 (ledc_duty_config c hp d dir n cy sc L1)) (\<lambda>(L3, k2). f L3 k2)) =
         f (ledc_duty_config c hp d dir n cy sc (quieted c L)) k"
proof (cases "s_ledc_fade_rec L c")
  case None
  then show ?thesis by (simp add: ledc_fade_hw_acquire_def ledc_fade_hw_release_def quieted_def)
next
  case (Some fd)
  with assms(1) obtain q where q: "ledc_fade_sem fd = Some q" "binary_sem True q"
    by (auto simp: ledc_calm_def split: option.splits dest: spec [of _ c])
  let ?q0 = "q\<lparr>uxMessagesWaiting := 0\<rparr>"
  let ?L1 = "ledc_enable_intr_type c False (upd_fade c (\<lambda>f. f\<lparr>ledc_fade_sem := Some ?q0\<rparr>) L)"
  have acq: "ledc_fade_hw_acquire e c k L = Inr (?L1, k)"
    using Some q binary_take_eq [OF q(2) assms(2)] by (simp add: ledc_fade_hw_acquire_def)
  have give: "xSemaphoreGive k (Some ?q0) = Inr (pdPASS, Some q, k)"
    using binary_give_eq [of False ?q0 k] q(2) by (simp add: binary_sem_def)
  have restored: "upd_fade c (\<lambda>f. f\<lparr>ledc_fade_sem := Some q\<rparr>) (ledc_duty_config c hp d dir n cy sc ?L1) =
      ledc_duty_config c hp d dir n cy sc (quieted c L)"
    using Some q(1)
    by (simp add: quieted_def upd_fade_def ledc_duty_config_def ledc_enable_intr_type_def upd_channel_def fun_upd_idem)
  have rel: "ledc_fade_hw_release c k (ledc_duty_config c hp d dir n cy sc ?L1) =
      Inr (ledc_duty_config c hp d dir n cy sc (quieted c L), k)"
    unfolding restored [symmetric]
    using Some give by (simp add: ledc_fade_hw_release_def upd_fade_def)
  show ?thesis unfolding acq using rel by simp
qed

lemma set_duty_calm:
  assumes "ledc_calm L" and "may_block k portMAX_DELAY" and "c < LEDC_CHANNEL_MAX" and "p_ledc_obj L \<noteq> None"
  shows "ledc_set_duty e c d k L =
    Inr (ESP_OK, ledc_duty_config c (- 1) (sint d) LEDC_DUTY_DIR_INCREASE 1 1 0 (quieted c L), k)"
  using assms(3,4) acquire_release_calm [OF assms(1,2), of e c "- 1" "sint d" LEDC_DUTY_DIR_INCREASE 1 1 0
      "\<lambda>L3 k2. Inr (ESP_OK, L3, k2)"]
  by (auto simp: ledc_set_duty_def Let_def)

lemma set_duty_with_hpoint_calm:
  assumes "ledc_calm L" and "may_block k portMAX_DELAY"
  shows "\<exists>r L'. ledc_set_duty_with_hpoint e c d hp k L = Inr (r, L', k) \<and> s_ledc_fade_rec L' = s_ledc_fade_rec L \<and>
    s_ledc_fade_isr_handle L' = s_ledc_fade_isr_handle L"
  using acquire_release_calm [OF assms, of e c "sint hp" "sint d" LEDC_DUTY_DIR_INCREASE 1 1 0
      "\<lambda>L3 k2. Inr (ESP_OK, L3, k2)"]
  by (auto simp: ledc_set_duty_with_hpoint_def Let_def)

lemma channel_config_calm:
  assumes "ledc_calm L" and "may_block k portMAX_DELAY"
  shows "\<exists>r L' g'. ledc_channel_config E e conf k L g = Inr (r, L', g', k) \<and> s_ledc_fade_rec L' = s_ledc_fade_rec L \<and>
    s_ledc_fade_isr_handle L' = s_ledc_fade_isr_handle L"
proof -
  have ctx: "s_ledc_fade_rec (snd (ledc_speed_mode_ctx_create E L)) = s_ledc_fade_rec L"
    "s_ledc_fade_isr_handle (snd (ledc_speed_mode_ctx_create E L)) = s_ledc_fade_isr_handle L"
    by (simp_all add: ledc_speed_mode_ctx_create_def)
  obtain b L1 where c: "ledc_speed_mode_ctx_create E L = (b, L1)" by fastforce
  let ?L2 = "if b then L1\<lparr>apb_clk_sel := Some LEDC_USE_RC_FAST_CLK\<rparr> else L1"
  have "ledc_calm ?L2" using assms(1) ctx c by (simp add: ledc_calm_def)
  from set_duty_with_hpoint_calm [OF this assms(2)] obtain r L3 where
    "ledc_set_duty_with_hpoint e (cc_channel conf) (cc_duty conf) (cc_hpoint conf) k ?L2 = Inr (r, L3, k)"
    "s_ledc_fade_rec L3 = s_ledc_fade_rec ?L2" "s_ledc_fade_isr_handle L3 = s_ledc_fade_isr_handle ?L2" by blast
  with ctx c show ?thesis
    by (auto simp: ledc_channel_config_def Let_def ledc_update_duty_def ledc_bind_channel_timer_def
        ledc_enable_intr_type_def upd_channel_def)
qed

text \<open>Configuring a timer from a fixed clock changes timers and the clock selection only.\<close>

lemma timer_config_fixed:
  assumes "tc_clk_cfg conf = LEDC_CLK c" and "c \<noteq> LEDC_USE_RC_FAST_CLK"
    and "tc_freq_hz conf * push_bit (unat (tc_duty_resolution conf)) 1 \<noteq> 0"
  shows "\<exists>r L'. ledc_timer_config E conf L = Inr (r, L') \<and> s_ledc_fade_rec L' = s_ledc_fade_rec L \<and>
    s_ledc_fade_isr_handle L' = s_ledc_fade_isr_handle L \<and> channel_regs L' = channel_regs L \<and>
    (p_ledc_obj L \<noteq> None \<longrightarrow> p_ledc_obj L' \<noteq> None)"
  using assms
  by (auto simp: ledc_timer_config_def ledc_speed_mode_ctx_create_def ledc_set_timer_div_def
      ledc_choose_divisor_def ledc_calculate_divisor_def ledc_timer_set_def ledc_timer_rst_def
      ledc_timer_resume_def Let_def upd_obj_def upd_timer_def)

text \<open>The duty a channel is programmed with.\<close>

lemma programmed_duty:
  assumes "uint (d :: u32) \<le> 16384"
  shows "drop_bit 4 (duty (channel_regs (ledc_duty_config c hp (sint d) dir n cy sc L) c)) = d"
proof -
  have "sint d = uint d" using assms by (rule sint_small)
  with uint_duty_field [of "uint d"] assms show ?thesis
    by (simp add: ledc_duty_config_def upd_channel_def Let_def word_uint_eq_iff)
qed

section \<open>Property\<close>

text \<open>
  A fade reaches its target: on a ready channel, if the hardware moves the duty as documented,
  starting a fade to any duty up to the timer's maximum returns \<^verbatim>\<open>ESP_OK\<close> with both locks in
  order, the interrupt handler never trips over its assertions, and after a bounded number of
  interrupts (at most 16385) the fade is idle, the channel shows exactly the target duty and the
  channel's semaphore has been given back.
\<close>

theorem fade_reaches_target:
  assumes "fade_ready k c L" and "target \<le> ledc_get_max_duty c L" and "fades_as_documented hw"
  shows "\<exists>L1 n L2. ledc_set_fade_time_and_start E e c target ms LEDC_FADE_NO_WAIT k L = Inr (ESP_OK, L1, k) \<and>
           n \<le> 16385 \<and> fade_interrupts hw c n L1 = Inr L2 \<and> fade_done c target L2"
proof -
  from fade_starts [OF assms(1,2), of E e ms] obtain L1 where
    1: "ledc_set_fade_time_and_start E e c target ms LEDC_FADE_NO_WAIT k L = Inr (ESP_OK, L1, k)"
    "fading c L1" "target_duty (the (s_ledc_fade_rec L1 c)) = target" by blast
  from fade_terminates [OF assms(3) 1(2)] 1(3) obtain n L2 where "n \<le> Suc (fade_left c L1)"
    "fade_interrupts hw c n L1 = Inr L2" "fade_done c target L2" by auto
  moreover then have "n \<le> 16385" using fade_left_bound [OF 1(2)] by linarith
  ultimately show ?thesis using 1(1) by blast
qed

definition demo_ledc :: ledc where
  "demo_ledc = \<lparr>p_ledc_obj = Some \<lparr>glb_clk = Some LEDC_USE_XTAL_CLK, timer_is_stopped = \<lambda>_. False,
                                   glb_clk_is_acquired = (\<lambda>_. False)(0 := True)\<rparr>,
     s_ledc_fade_rec = (\<lambda>_. None)(2 := Some \<lparr>direction = LEDC_DUTY_DIR_DECREASE, target_duty = 0,
        cycle_num = 0, scale = 0, fade_mode = LEDC_FADE_NO_WAIT,
        ledc_fade_sem = Some ((fresh_queue (\<lambda>_. 0) 1 0)\<lparr>uxMessagesWaiting := 1\<rparr>),
        ledc_fade_mux = demo_mutex, fsm = LEDC_FSM_IDLE\<rparr>),
     s_ledc_fade_isr_handle = True, s_ledc_slow_clk_rc_fast_freq = 0,
     timer_regs = \<lambda>_. \<lparr>clock_divider = 40000, duty_resolution = 8, timer_paused = False\<rparr>,
     channel_regs = \<lambda>_. \<lparr>timer_sel = 0, duty = 0, duty_read = 0, hpoint = 0,
        duty_inc = LEDC_DUTY_DIR_INCREASE, duty_num = 1, duty_cyc = 1, duty_scale = 0,
        sig_out_en = True, duty_start = False, fade_end_intr = False\<rparr>,
     apb_clk_sel = Some LEDC_USE_XTAL_CLK\<rparr>"

definition demo_ledc_env :: ledc_env where
  "demo_ledc_env = \<lparr>src_freq = (\<lambda>_. 40000000), rc_fast_calibration = None, obj_alloc = True,
     fade_alloc = True, sem_alloc = Some (\<lambda>_. 0), mux_alloc = Some (\<lambda>_. 0), intr_alloc = ESP_OK\<rparr>"

theorem fade_reaches_target_witness:
  "\<exists>L1 n L2. ledc_set_fade_time_and_start demo_ledc_env [] 2 200 500 LEDC_FADE_NO_WAIT demo_kernel demo_ledc =
       Inr (ESP_OK, L1, demo_kernel) \<and>
     n \<le> 16385 \<and> fade_interrupts (\<lambda>r. word_of_int (leg_value r)) 2 n L1 = Inr L2 \<and> fade_done 2 200 L2"
proof (rule fade_reaches_target)
  show "fade_ready demo_kernel 2 demo_ledc"
    using demo_mutex_ready
    by (simp add: fade_ready_def demo_ledc_def LEDC_CHANNEL_MAX_def LEDC_TIMER_MAX_def binary_sem_def
        fresh_queue_def is_mutex_def)
  show "200 \<le> ledc_get_max_duty 2 demo_ledc" by (simp add: ledc_get_max_duty_def demo_ledc_def)
  show "fades_as_documented (\<lambda>r. word_of_int (leg_value r))"
    unfolding fades_as_documented_def by (auto intro!: word_of_int_inverse [OF refl])
qed

end
