(* ===== verification/LedDriverCfg.thy ===== *)
theory LedDriverCfg
  imports Ledc
begin

text \<open>
  The hardware layer of the LED driver (\<^verbatim>\<open>Config/ledDriver_cfg.c\<close>, \<^verbatim>\<open>.h\<close>), over the GPIO and LED PWM
  drivers of the SDK. The state of the two drivers and the LED driver's mutex travel in one
  record; \<^term>\<open>E\<close> and \<^term>\<open>e\<close> are the surroundings of the PWM driver, \<^term>\<open>core\<close> the core of the caller.
\<close>

section \<open>Data\<close>

definition LDRV_CFG_MAX_NB_LED :: nat where "LDRV_CFG_MAX_NB_LED = 3"
definition LDRV_CFG_MAX_PWM_DUTY :: u32 where "LDRV_CFG_MAX_PWM_DUTY = 255"
definition LDRV_CFG_MIN_PWM_DUTY :: u32 where "LDRV_CFG_MIN_PWM_DUTY = 0"
definition LDRV_DEFAULT_FREQ_HZ :: u32 where "LDRV_DEFAULT_FREQ_HZ = 1000"
definition LDRV_DEFAULT_DUTY_RES :: u32 where "LDRV_DEFAULT_DUTY_RES = 8"

datatype LDRV_CFG_Active_Level_t = LDRV_CFG_ACTIVE_LOW | LDRV_CFG_ACTIVE_HIGH | LDRV_CFG_ACTIVE_INVALID

datatype LDRV_CFG_Ret_t = LDRV_CFG_STATUS_ERROR | LDRV_CFG_STATUS_OK

record LDRV_CFG_Single_Config_t =
  gpio_num :: u8
  led_active_level :: LDRV_CFG_Active_Level_t

record LDRV_CFG_Single_Pwm_Config_t =
  pwm_gpio_num :: u8
  pwm_active_level :: LDRV_CFG_Active_Level_t
  led_timer :: nat
  led_channel :: nat

record LDRV_CFG_Rgb_Config_t =
  red_gpio_num :: u8
  green_gpio_num :: u8
  blue_gpio_num :: u8
  rgb_active_level :: LDRV_CFG_Active_Level_t
  rgb_timer :: nat
  red_channel :: nat
  green_channel :: nat
  blue_channel :: nat

record ldrv_cfg =
  ldrv_mutex_handle :: QueueHandle_t
  ledc_st :: ledc
  gpio_st :: gpio_context

section \<open>Setup\<close>

definition LDRV_CFG_InitDriver ::
  "alloc \<Rightarrow> kernel \<Rightarrow> ldrv_cfg \<Rightarrow> (LDRV_CFG_Ret_t \<times> ldrv_cfg \<times> kernel) res" where
  "LDRV_CFG_InitDriver a k S =
     bind_res (xQueueCreateMutex a k) (\<lambda>(h, k1).
       let S1 = S\<lparr>ldrv_mutex_handle := h\<rparr> in
       if h = None then Inr (LDRV_CFG_STATUS_ERROR, S1, k1) else Inr (LDRV_CFG_STATUS_OK, S1, k1))"

definition LDRV_CFG_StartFadeService :: "ledc_env \<Rightarrow> ldrv_cfg \<Rightarrow> LDRV_CFG_Ret_t \<times> ldrv_cfg" where
  "LDRV_CFG_StartFadeService E S =
     (let (r, L) = ledc_fade_func_install E (ledc_st S); S1 = S\<lparr>ledc_st := L\<rparr> in
      if r \<noteq> ESP_OK then (LDRV_CFG_STATUS_ERROR, S1) else (LDRV_CFG_STATUS_OK, S1))"

definition level_of :: "bool \<Rightarrow> u32" where "level_of b = (if b then 1 else 0)"

definition LDRV_CFG_SetuptLedSingle ::
  "u32 \<Rightarrow> LDRV_CFG_Single_Config_t \<Rightarrow> ldrv_cfg \<Rightarrow> LDRV_CFG_Ret_t \<times> ldrv_cfg" where
  "LDRV_CFG_SetuptLedSingle core pConfig S =
     (let cfg = \<lparr>pin_bit_mask = push_bit (unat (gpio_num pConfig)) 1, gpio_mode = GPIO_MODE_DEF_OUTPUT,
                 pull_up_en = False, pull_down_en = False, intr_type = 0\<rparr>;
          g1 = snd (gpio_config core cfg (gpio_st S));
          g2 = snd (gpio_set_level (uint (gpio_num pConfig))
                      (level_of (\<not> led_active_level pConfig = LDRV_CFG_ACTIVE_HIGH)) g1)
      in (LDRV_CFG_STATUS_OK, S\<lparr>gpio_st := g2\<rparr>))"

definition ldrv_timer :: "nat \<Rightarrow> ledc_timer_config_t" where
  "ldrv_timer t = \<lparr>tc_duty_resolution = LDRV_DEFAULT_DUTY_RES, tc_timer_num = t,
                   tc_freq_hz = LDRV_DEFAULT_FREQ_HZ, tc_clk_cfg = LEDC_CLK LEDC_USE_XTAL_CLK\<rparr>"

definition setup_channel ::
  "ledc_env \<Rightarrow> env \<Rightarrow> ledc_channel_config_t \<Rightarrow> ldrv_cfg \<Rightarrow> kernel \<Rightarrow> (ldrv_cfg \<times> kernel) res" where
  "setup_channel E e conf S k =
     bind_res (ledc_channel_config E e conf k (ledc_st S) (gpio_st S)) (\<lambda>(_, L, g, k1).
       Inr (S\<lparr>ledc_st := L, gpio_st := g\<rparr>, k1))"

definition LDRV_CFG_SetupLedSinglePwm ::
  "ledc_env \<Rightarrow> env \<Rightarrow> LDRV_CFG_Single_Pwm_Config_t \<Rightarrow> kernel \<Rightarrow> ldrv_cfg \<Rightarrow>
   (LDRV_CFG_Ret_t \<times> ldrv_cfg \<times> kernel) res" where
  "LDRV_CFG_SetupLedSinglePwm E e pConfig k S =
     bind_res (ledc_timer_config E (ldrv_timer (led_timer pConfig)) (ledc_st S)) (\<lambda>(_, L).
     let chan = \<lparr>cc_gpio_num = uint (pwm_gpio_num pConfig), cc_channel = led_channel pConfig,
                 cc_timer_sel = led_timer pConfig, cc_intr_fade_end = False,
                 cc_duty = (if pwm_active_level pConfig = LDRV_CFG_ACTIVE_LOW then LDRV_CFG_MAX_PWM_DUTY
                            else LDRV_CFG_MIN_PWM_DUTY),
                 cc_hpoint = 0\<rparr>
     in bind_res (setup_channel E e chan (S\<lparr>ledc_st := L\<rparr>) k) (\<lambda>(S1, k1).
          Inr (LDRV_CFG_STATUS_OK, S1, k1)))"

definition LDRV_CFG_SetupLedRgb ::
  "ledc_env \<Rightarrow> env \<Rightarrow> LDRV_CFG_Rgb_Config_t \<Rightarrow> kernel \<Rightarrow> ldrv_cfg \<Rightarrow>
   (LDRV_CFG_Ret_t \<times> ldrv_cfg \<times> kernel) res" where
  "LDRV_CFG_SetupLedRgb E e pConfig k S =
     bind_res (ledc_timer_config E (ldrv_timer (rgb_timer pConfig)) (ledc_st S)) (\<lambda>(_, L).
     let rgb_channel = \<lparr>cc_gpio_num = uint (red_gpio_num pConfig), cc_channel = red_channel pConfig,
                 cc_timer_sel = rgb_timer pConfig, cc_intr_fade_end = False,
                 cc_duty = (if rgb_active_level pConfig = LDRV_CFG_ACTIVE_LOW then LDRV_CFG_MAX_PWM_DUTY
                            else LDRV_CFG_MIN_PWM_DUTY),
                 cc_hpoint = 0\<rparr>;
         green = rgb_channel\<lparr>cc_channel := green_channel pConfig, cc_gpio_num := uint (green_gpio_num pConfig)\<rparr>;
         blue = green\<lparr>cc_channel := blue_channel pConfig, cc_gpio_num := uint (blue_gpio_num pConfig)\<rparr>
     in bind_res (setup_channel E e rgb_channel (S\<lparr>ledc_st := L\<rparr>) k) (\<lambda>(S1, k1).
        bind_res (setup_channel E e green S1 k1) (\<lambda>(S2, k2).
        bind_res (setup_channel E e blue S2 k2) (\<lambda>(S3, k3).
          Inr (LDRV_CFG_STATUS_OK, S3, k3)))))"

section \<open>States, duties and colours\<close>

definition LDRV_CFG_SetLedSingleState ::
  "u8 \<Rightarrow> LDRV_CFG_Single_Config_t \<Rightarrow> ldrv_cfg \<Rightarrow> LDRV_CFG_Ret_t \<times> ldrv_cfg" where
  "LDRV_CFG_SetLedSingleState state pConfig S =
     (let high = (led_active_level pConfig = LDRV_CFG_ACTIVE_HIGH);
          level = (if state \<ge> 1 \<and> high \<or> state = 0 \<and> led_active_level pConfig = LDRV_CFG_ACTIVE_LOW
                   then level_of high else level_of (\<not> high))
      in (LDRV_CFG_STATUS_OK, S\<lparr>gpio_st := snd (gpio_set_level (uint (gpio_num pConfig)) level (gpio_st S))\<rparr>))"

text \<open>Setting and updating the duty of one channel, as each of the functions below does it.\<close>

definition set_channel_duty ::
  "env \<Rightarrow> nat \<Rightarrow> u32 \<Rightarrow> kernel \<Rightarrow> ldrv_cfg \<Rightarrow> (LDRV_CFG_Ret_t \<times> ldrv_cfg \<times> kernel) res" where
  "set_channel_duty e c dty k S =
     bind_res (ledc_set_duty e c dty k (ledc_st S)) (\<lambda>(r, L, k1).
       if r \<noteq> ESP_OK then Inr (LDRV_CFG_STATUS_ERROR, S\<lparr>ledc_st := L\<rparr>, k1)
       else let (r2, L2) = ledc_update_duty c L in
            if r2 \<noteq> ESP_OK then Inr (LDRV_CFG_STATUS_ERROR, S\<lparr>ledc_st := L2\<rparr>, k1)
            else Inr (LDRV_CFG_STATUS_OK, S\<lparr>ledc_st := L2\<rparr>, k1))"

definition LDRV_CFG_SetLedSinglePwmDuty ::
  "env \<Rightarrow> u32 \<Rightarrow> LDRV_CFG_Single_Pwm_Config_t \<Rightarrow> kernel \<Rightarrow> ldrv_cfg \<Rightarrow>
   (LDRV_CFG_Ret_t \<times> ldrv_cfg \<times> kernel) res" where
  "LDRV_CFG_SetLedSinglePwmDuty e dty pConfig k S = set_channel_duty e (led_channel pConfig) dty k S"

definition fade_channel ::
  "ledc_env \<Rightarrow> env \<Rightarrow> nat \<Rightarrow> u32 \<Rightarrow> u32 \<Rightarrow> kernel \<Rightarrow> ldrv_cfg \<Rightarrow> (LDRV_CFG_Ret_t \<times> ldrv_cfg \<times> kernel) res" where
  "fade_channel E e c target fade_time_ms k S =
     bind_res (ledc_set_fade_time_and_start E e c target fade_time_ms LEDC_FADE_NO_WAIT k (ledc_st S))
       (\<lambda>(r, L, k1). Inr (if r \<noteq> ESP_OK then LDRV_CFG_STATUS_ERROR else LDRV_CFG_STATUS_OK,
                          S\<lparr>ledc_st := L\<rparr>, k1))"

definition LDRV_CFG_FadeLedSinglePwmDuty ::
  "ledc_env \<Rightarrow> env \<Rightarrow> u32 \<Rightarrow> u32 \<Rightarrow> LDRV_CFG_Single_Pwm_Config_t \<Rightarrow> kernel \<Rightarrow> ldrv_cfg \<Rightarrow>
   (LDRV_CFG_Ret_t \<times> ldrv_cfg \<times> kernel) res" where
  "LDRV_CFG_FadeLedSinglePwmDuty E e target fade_time_ms pConfig k S =
     fade_channel E e (led_channel pConfig) target fade_time_ms k S"

definition LDRV_CFG_SetLedRgbColor ::
  "env \<Rightarrow> u32 \<Rightarrow> u32 \<Rightarrow> u32 \<Rightarrow> LDRV_CFG_Rgb_Config_t \<Rightarrow> kernel \<Rightarrow> ldrv_cfg \<Rightarrow>
   (LDRV_CFG_Ret_t \<times> ldrv_cfg \<times> kernel) res" where
  "LDRV_CFG_SetLedRgbColor e red green blue pConfig k S =
     bind_res (set_channel_duty e (red_channel pConfig) red k S) (\<lambda>(r1, S1, k1).
     if r1 \<noteq> LDRV_CFG_STATUS_OK then Inr (LDRV_CFG_STATUS_ERROR, S1, k1)
     else bind_res (set_channel_duty e (green_channel pConfig) green k1 S1) (\<lambda>(r2, S2, k2).
     if r2 \<noteq> LDRV_CFG_STATUS_OK then Inr (LDRV_CFG_STATUS_ERROR, S2, k2)
     else bind_res (set_channel_duty e (blue_channel pConfig) blue k2 S2) (\<lambda>(r3, S3, k3).
     if r3 \<noteq> LDRV_CFG_STATUS_OK then Inr (LDRV_CFG_STATUS_ERROR, S3, k3)
     else Inr (LDRV_CFG_STATUS_OK, S3, k3))))"

definition LDRV_CFG_FadeLedRgbColor ::
  "ledc_env \<Rightarrow> env \<Rightarrow> u32 \<Rightarrow> u32 \<Rightarrow> u32 \<Rightarrow> u32 \<Rightarrow> LDRV_CFG_Rgb_Config_t \<Rightarrow> kernel \<Rightarrow> ldrv_cfg \<Rightarrow>
   (LDRV_CFG_Ret_t \<times> ldrv_cfg \<times> kernel) res" where
  "LDRV_CFG_FadeLedRgbColor E e red green blue fade_time_ms pConfig k S =
     bind_res (fade_channel E e (red_channel pConfig) red fade_time_ms k S) (\<lambda>(r1, S1, k1).
     if r1 \<noteq> LDRV_CFG_STATUS_OK then Inr (LDRV_CFG_STATUS_ERROR, S1, k1)
     else bind_res (fade_channel E e (green_channel pConfig) green fade_time_ms k1 S1) (\<lambda>(r2, S2, k2).
     if r2 \<noteq> LDRV_CFG_STATUS_OK then Inr (LDRV_CFG_STATUS_ERROR, S2, k2)
     else bind_res (fade_channel E e (blue_channel pConfig) blue fade_time_ms k2 S2) (\<lambda>(r3, S3, k3).
     if r3 \<noteq> LDRV_CFG_STATUS_OK then Inr (LDRV_CFG_STATUS_ERROR, S3, k3)
     else Inr (LDRV_CFG_STATUS_OK, S3, k3))))"

section \<open>Frequencies and the mutex\<close>

definition set_timer_freq :: "ledc_env \<Rightarrow> nat \<Rightarrow> u32 \<Rightarrow> ldrv_cfg \<Rightarrow> (LDRV_CFG_Ret_t \<times> ldrv_cfg) res" where
  "set_timer_freq E t freq_hz S =
     bind_res (ledc_set_freq E t freq_hz (ledc_st S)) (\<lambda>(r, L).
       Inr (if r \<noteq> ESP_OK then LDRV_CFG_STATUS_ERROR else LDRV_CFG_STATUS_OK, S\<lparr>ledc_st := L\<rparr>))"

definition LDRV_CFG_SetLedSinglePwmFreq ::
  "ledc_env \<Rightarrow> u32 \<Rightarrow> LDRV_CFG_Single_Pwm_Config_t \<Rightarrow> ldrv_cfg \<Rightarrow> (LDRV_CFG_Ret_t \<times> ldrv_cfg) res" where
  "LDRV_CFG_SetLedSinglePwmFreq E freq_hz pConfig S = set_timer_freq E (led_timer pConfig) freq_hz S"

definition LDRV_CFG_SetLedRgbFreq ::
  "ledc_env \<Rightarrow> u32 \<Rightarrow> LDRV_CFG_Rgb_Config_t \<Rightarrow> ldrv_cfg \<Rightarrow> (LDRV_CFG_Ret_t \<times> ldrv_cfg) res" where
  "LDRV_CFG_SetLedRgbFreq E freq_hz pConfig S = set_timer_freq E (rgb_timer pConfig) freq_hz S"

text \<open>The out parameter is not checked: a null pointer is a fault.\<close>

definition LDRV_CFG_GetLedSinglePwmFreq ::
  "ledc_env \<Rightarrow> bool \<Rightarrow> LDRV_CFG_Single_Pwm_Config_t \<Rightarrow> ldrv_cfg \<Rightarrow> (LDRV_CFG_Ret_t \<times> u32) res" where
  "LDRV_CFG_GetLedSinglePwmFreq E pFreq pConfig S =
     bind_res (ledc_get_freq E (led_timer pConfig) (ledc_st S)) (\<lambda>f.
       if pFreq then Inr (LDRV_CFG_STATUS_OK, f) else Inl Null_deref)"

definition LDRV_CFG_GetLedRgbFreq ::
  "ledc_env \<Rightarrow> bool \<Rightarrow> LDRV_CFG_Rgb_Config_t \<Rightarrow> ldrv_cfg \<Rightarrow> (LDRV_CFG_Ret_t \<times> u32) res" where
  "LDRV_CFG_GetLedRgbFreq E pFreq pConfig S =
     bind_res (ledc_get_freq E (rgb_timer pConfig) (ledc_st S)) (\<lambda>f.
       if pFreq then Inr (LDRV_CFG_STATUS_OK, f) else Inl Null_deref)"

definition LDRV_CFG_TakeMutex :: "kernel \<Rightarrow> ldrv_cfg \<Rightarrow> (ldrv_cfg \<times> kernel) res" where
  "LDRV_CFG_TakeMutex k S =
     bind_res (mutex_take k (ldrv_mutex_handle S)) (\<lambda>(h, k1). Inr (S\<lparr>ldrv_mutex_handle := h\<rparr>, k1))"

definition LDRV_CFG_GiveMutex :: "kernel \<Rightarrow> ldrv_cfg \<Rightarrow> (ldrv_cfg \<times> kernel) res" where
  "LDRV_CFG_GiveMutex k S =
     bind_res (mutex_give k (ldrv_mutex_handle S)) (\<lambda>(h, k1). Inr (S\<lparr>ldrv_mutex_handle := h\<rparr>, k1))"

section \<open>The mutex around the hardware\<close>

text \<open>
  Whatever the section does to the drivers, giving restores the handle and the kernel of before.
\<close>

lemma ldrv_section:
  assumes "mutex_ready k (ldrv_mutex_handle S)"
  shows "\<exists>h k'. LDRV_CFG_TakeMutex k S = Inr (S\<lparr>ldrv_mutex_handle := h\<rparr>, k') \<and>
    (may_block k portMAX_DELAY \<longrightarrow> may_block k' portMAX_DELAY) \<and>
    (\<forall>S'. ldrv_mutex_handle S' = h \<longrightarrow>
       LDRV_CFG_GiveMutex k' S' = Inr (S'\<lparr>ldrv_mutex_handle := ldrv_mutex_handle S\<rparr>, k))"
proof -
  from assms obtain q t where q: "ldrv_mutex_handle S = Some q" and t: "pxCurrentTCB k = Some t"
    and r: "mutex_ready k (Some q)"
    by (auto simp: mutex_ready_def kernel_ok_def split: option.splits)
  show ?thesis
    using mutex_take_eq [OF r t] mutex_give_eq [OF r t] q
    by (auto simp: LDRV_CFG_TakeMutex_def LDRV_CFG_GiveMutex_def may_block_def upd_tcb_def)
qed

interpretation ldrv_lock: lock "\<lambda>k (S :: ldrv_cfg). mutex_ready k (ldrv_mutex_handle S)" LDRV_CFG_TakeMutex LDRV_CFG_GiveMutex
proof unfold_locales
  fix k and S :: ldrv_cfg
  assume "mutex_ready k (ldrv_mutex_handle S)"
  from ldrv_section [OF this] show
    "\<exists>S' k'. LDRV_CFG_TakeMutex k S = Inr (S', k') \<and> LDRV_CFG_GiveMutex k' S' = Inr (S, k)" by auto
qed

lemma mutex_ready_may_block: "mutex_ready k h \<Longrightarrow> may_block k portMAX_DELAY"
  by (simp add: mutex_ready_def kernel_ok_def may_block_def split: option.splits)

section \<open>Hardware setup returns\<close>

text \<open>\<^term>\<open>S'\<close> differs from \<^term>\<open>S\<close> in registers only: same mutex, same fade records.\<close>

definition same_locks :: "ldrv_cfg \<Rightarrow> ldrv_cfg \<Rightarrow> bool" where
  "same_locks S S' \<longleftrightarrow> ldrv_mutex_handle S' = ldrv_mutex_handle S \<and>
     s_ledc_fade_rec (ledc_st S') = s_ledc_fade_rec (ledc_st S) \<and>
     s_ledc_fade_isr_handle (ledc_st S') = s_ledc_fade_isr_handle (ledc_st S)"

lemma same_locks_trans: "same_locks S S' \<Longrightarrow> same_locks S' S'' \<Longrightarrow> same_locks S S''"
  by (simp add: same_locks_def)

lemma same_locks_calm: "same_locks S S' \<Longrightarrow> ledc_calm (ledc_st S') \<longleftrightarrow> ledc_calm (ledc_st S)"
  by (simp add: same_locks_def ledc_calm_def)

lemma setup_channel_returns:
  assumes "ledc_calm (ledc_st S)" and "may_block k portMAX_DELAY"
  shows "\<exists>S'. setup_channel E e conf S k = Inr (S', k) \<and> same_locks S S'"
  using channel_config_calm [OF assms, of E e conf "gpio_st S"]
  by (auto simp: setup_channel_def same_locks_def)

lemma ldrv_timer_returns:
  "\<exists>r L'. ledc_timer_config E (ldrv_timer t) L = Inr (r, L') \<and> s_ledc_fade_rec L' = s_ledc_fade_rec L \<and>
     s_ledc_fade_isr_handle L' = s_ledc_fade_isr_handle L"
  using timer_config_fixed [of "ldrv_timer t" LEDC_USE_XTAL_CLK E L]
  by (auto simp: ldrv_timer_def LDRV_DEFAULT_FREQ_HZ_def LDRV_DEFAULT_DUTY_RES_def)

lemma setup_single_returns:
  "\<exists>S'. LDRV_CFG_SetuptLedSingle core conf S = (LDRV_CFG_STATUS_OK, S') \<and> same_locks S S'"
  by (simp add: LDRV_CFG_SetuptLedSingle_def same_locks_def Let_def)

lemma setup_single_pwm_returns:
  assumes "ledc_calm (ledc_st S)" and "may_block k portMAX_DELAY"
  shows "\<exists>S'. LDRV_CFG_SetupLedSinglePwm E e conf k S = Inr (LDRV_CFG_STATUS_OK, S', k) \<and> same_locks S S'"
proof -
  obtain r L where t: "ledc_timer_config E (ldrv_timer (led_timer conf)) (ledc_st S) = Inr (r, L)"
    and L: "same_locks S (S\<lparr>ledc_st := L\<rparr>)"
    using ldrv_timer_returns [of E "led_timer conf" "ledc_st S"] by (auto simp: same_locks_def)
  from assms(1) L have "ledc_calm (ledc_st (S\<lparr>ledc_st := L\<rparr>))" by (simp only: same_locks_calm)
  from setup_channel_returns [OF this assms(2)] t same_locks_trans [OF L] show ?thesis
    by (simp add: LDRV_CFG_SetupLedSinglePwm_def Let_def) (metis bind_res_Inr old.prod.case)
qed

lemma setup_rgb_returns:
  assumes "ledc_calm (ledc_st S)" and "may_block k portMAX_DELAY"
  shows "\<exists>S'. LDRV_CFG_SetupLedRgb E e conf k S = Inr (LDRV_CFG_STATUS_OK, S', k) \<and> same_locks S S'"
proof -
  obtain r L where t: "ledc_timer_config E (ldrv_timer (rgb_timer conf)) (ledc_st S) = Inr (r, L)"
    and L: "same_locks S (S\<lparr>ledc_st := L\<rparr>)"
    using ldrv_timer_returns [of E "rgb_timer conf" "ledc_st S"] by (auto simp: same_locks_def)
  have step: "\<exists>S2. setup_channel E e cc S1 k = Inr (S2, k) \<and> same_locks S S2" if "same_locks S S1" for cc S1
    using setup_channel_returns [OF _ assms(2), of S1 E e cc] that assms(1) same_locks_calm [OF that]
      same_locks_trans [OF that] by blast
  let ?red = "\<lparr>cc_gpio_num = uint (red_gpio_num conf), cc_channel = red_channel conf,
    cc_timer_sel = rgb_timer conf, cc_intr_fade_end = False,
    cc_duty = (if rgb_active_level conf = LDRV_CFG_ACTIVE_LOW then LDRV_CFG_MAX_PWM_DUTY
               else LDRV_CFG_MIN_PWM_DUTY), cc_hpoint = 0\<rparr>"
  let ?green = "?red\<lparr>cc_channel := green_channel conf, cc_gpio_num := uint (green_gpio_num conf)\<rparr>"
  let ?blue = "?green\<lparr>cc_channel := blue_channel conf, cc_gpio_num := uint (blue_gpio_num conf)\<rparr>"
  obtain S1 where 1: "setup_channel E e ?red (S\<lparr>ledc_st := L\<rparr>) k = Inr (S1, k)" "same_locks S S1"
    using step [OF L] by blast
  obtain S2 where 2: "setup_channel E e ?green S1 k = Inr (S2, k)" "same_locks S S2"
    using step [OF 1(2)] by blast
  obtain S3 where 3: "setup_channel E e ?blue S2 k = Inr (S3, k)" "same_locks S S3"
    using step [OF 2(2)] by blast
  show ?thesis
    unfolding LDRV_CFG_SetupLedRgb_def t bind_res_Inr prod.case Let_def 1(1) 2(1) 3(1) using 3(2) by simp
qed

section \<open>Duties\<close>

text \<open>Setting a duty on a calm channel programs exactly that duty and starts it.\<close>

definition with_duty :: "nat \<Rightarrow> u32 \<Rightarrow> ldrv_cfg \<Rightarrow> ldrv_cfg" where
  "with_duty c d S = S\<lparr>ledc_st := upd_channel c (\<lambda>r. r\<lparr>sig_out_en := True, duty_start := True\<rparr>)
     (ledc_duty_config c (- 1) (sint d) LEDC_DUTY_DIR_INCREASE 1 1 0 (quieted c (ledc_st S)))\<rparr>"

definition shown_duty :: "nat \<Rightarrow> ldrv_cfg \<Rightarrow> u32" where
  "shown_duty c S = drop_bit 4 (duty (channel_regs (ledc_st S) c))"

lemma with_duty_locks: "same_locks S (with_duty c d S)"
  by (simp add: same_locks_def with_duty_def)

lemma with_duty_obj [simp]: "p_ledc_obj (ledc_st (with_duty c d S)) = p_ledc_obj (ledc_st S)"
  by (simp add: with_duty_def ledc_duty_config_def)

lemma shown_with_duty: "uint d \<le> 16384 \<Longrightarrow> shown_duty c (with_duty c d S) = d"
  using programmed_duty [of d c "- 1" LEDC_DUTY_DIR_INCREASE 1 1 0 "quieted c (ledc_st S)"]
  by (simp add: shown_duty_def with_duty_def upd_channel_def)

lemma shown_with_duty_other: "b \<noteq> c \<Longrightarrow> shown_duty b (with_duty c d S) = shown_duty b S"
  by (simp add: shown_duty_def with_duty_def upd_channel_def ledc_duty_config_def)

lemma set_channel_duty_calm:
  assumes "ledc_calm (ledc_st S)" and "may_block k portMAX_DELAY" and "c < LEDC_CHANNEL_MAX"
    and "p_ledc_obj (ledc_st S) \<noteq> None"
  shows "set_channel_duty e c d k S = Inr (LDRV_CFG_STATUS_OK, with_duty c d S, k)"
  using set_duty_calm [OF assms] assms(3,4)
  by (simp add: set_channel_duty_def with_duty_def ledc_update_duty_def ledc_duty_config_def)

lemma set_rgb_calm:
  assumes "ledc_calm (ledc_st S)" and "may_block k portMAX_DELAY" and "p_ledc_obj (ledc_st S) \<noteq> None"
    and "red_channel conf < LEDC_CHANNEL_MAX" and "green_channel conf < LEDC_CHANNEL_MAX"
    and "blue_channel conf < LEDC_CHANNEL_MAX"
  shows "LDRV_CFG_SetLedRgbColor e r g b conf k S =
    Inr (LDRV_CFG_STATUS_OK,
         with_duty (blue_channel conf) b (with_duty (green_channel conf) g (with_duty (red_channel conf) r S)), k)"
proof -
  have calm: "ledc_calm (ledc_st (with_duty c d T)) \<longleftrightarrow> ledc_calm (ledc_st T)" for c d T
    using same_locks_calm [OF with_duty_locks] .
  show ?thesis using assms by (simp add: LDRV_CFG_SetLedRgbColor_def set_channel_duty_calm calm)
qed

end
