(* ===== verification/LedDriver.thy ===== *)
theory LedDriver
  imports LedDriverCfg
begin

text \<open>
  The LED driver (\<^verbatim>\<open>UserInterface/led/ledDriver.c\<close>, \<^verbatim>\<open>.h\<close>): a table of three LEDs behind a mutex,
  LEDs addressed by their index in it, and operations that translate states, duties, colours and
  frequencies to the hardware layer. The members of the \<^verbatim>\<open>config\<close> union are kept apart in the
  model; a member is read only where the LED's type says that it is the one stored.
\<close>

section \<open>Data\<close>

datatype LDRV_Led_Type_t =
    LDRV_LED_TYPE_SINGLE
  | LDRV_LED_TYPE_SINGLE_PWM
  | LDRV_LED_TYPE_RGB
  | LDRV_LED_TYPE_INVALID

datatype LDRV_Ret_t = LDRV_STATUS_ERROR | LDRV_STATUS_OK

record LDRV_Color_t =
  red_duty :: u32
  green_duty :: u32
  blue_duty :: u32

record LDRV_LED_Info_t =
  led_type :: LDRV_Led_Type_t
  active_flag :: bool
  single_config :: LDRV_CFG_Single_Config_t
  single_pwm_config :: LDRV_CFG_Single_Pwm_Config_t
  rgb_config :: LDRV_CFG_Rgb_Config_t

record ldrv =
  cfg_st :: ldrv_cfg
  led_table :: "LDRV_LED_Info_t list"

definition NO_AVAILABLE_INDEX :: u8 where "NO_AVAILABLE_INDEX = 0xFF"

section \<open>The table\<close>

text \<open>Both scans stop at the first inactive entry, or at the end of the table.\<close>

function first_inactive :: "LDRV_LED_Info_t list \<Rightarrow> nat \<Rightarrow> nat res" where
  "first_inactive table index =
     (if index < LDRV_CFG_MAX_NB_LED
      then bind_res (array_get table index) (\<lambda>i.
             if \<not> active_flag i then Inr index else first_inactive table (Suc index))
      else Inr index)"
  by pat_completeness auto
termination
  by (relation "measure (\<lambda>(_, index). LDRV_CFG_MAX_NB_LED - index)") auto

declare first_inactive.simps [simp del]

definition isTableFull :: "LDRV_LED_Info_t list \<Rightarrow> bool res" where
  "isTableFull table = bind_res (first_inactive table 0) (\<lambda>index. Inr (index \<ge> LDRV_CFG_MAX_NB_LED))"

definition getFirstAvailableIndex :: "LDRV_LED_Info_t list \<Rightarrow> u8 res" where
  "getFirstAvailableIndex table =
     bind_res (first_inactive table 0) (\<lambda>index.
       Inr (if index \<ge> LDRV_CFG_MAX_NB_LED then NO_AVAILABLE_INDEX else of_nat index))"

section \<open>Initialisation\<close>

definition LDRV_InitDriver :: "alloc \<Rightarrow> kernel \<Rightarrow> ldrv \<Rightarrow> (LDRV_Ret_t \<times> ldrv \<times> kernel) res" where
  "LDRV_InitDriver a k D =
     bind_res (LDRV_CFG_InitDriver a k (cfg_st D)) (\<lambda>(r, S1, k1).
     if r \<noteq> LDRV_CFG_STATUS_OK then Inr (LDRV_STATUS_ERROR, D\<lparr>cfg_st := S1\<rparr>, k1)
     else bind_res (LDRV_CFG_TakeMutex k1 S1) (\<lambda>(S2, k2).
          let table = map (\<lambda>i. i\<lparr>active_flag := False\<rparr>) (led_table D) in
          bind_res (LDRV_CFG_GiveMutex k2 S2) (\<lambda>(S3, k3).
            Inr (LDRV_STATUS_OK, D\<lparr>cfg_st := S3, led_table := table\<rparr>, k3))))"

definition LDRV_StartFadeService :: "ledc_env \<Rightarrow> ldrv \<Rightarrow> LDRV_Ret_t \<times> ldrv" where
  "LDRV_StartFadeService E D =
     (let (r, S) = LDRV_CFG_StartFadeService E (cfg_st D)
      in (if r \<noteq> LDRV_CFG_STATUS_OK then LDRV_STATUS_ERROR else LDRV_STATUS_OK, D\<lparr>cfg_st := S\<rparr>))"

section \<open>Adding LEDs\<close>

text \<open>
  The three functions that add an LED differ in the setup they call and in the fields they store.
  The handle stored through the out pointer, which the callers provide, is the second component,
  \<^term>\<open>None\<close> when nothing is stored.
\<close>

definition add_led ::
  "(kernel \<Rightarrow> ldrv_cfg \<Rightarrow> (LDRV_CFG_Ret_t \<times> ldrv_cfg \<times> kernel) res) \<Rightarrow>
   (LDRV_LED_Info_t \<Rightarrow> LDRV_LED_Info_t) \<Rightarrow> kernel \<Rightarrow> ldrv \<Rightarrow>
   (LDRV_Ret_t \<times> u8 option \<times> ldrv \<times> kernel) res" where
  "add_led setup store k D =
     bind_res (LDRV_CFG_TakeMutex k (cfg_st D)) (\<lambda>(S1, k1).
     bind_res (isTableFull (led_table D)) (\<lambda>full.
     if full
     then bind_res (LDRV_CFG_GiveMutex k1 S1) (\<lambda>(S2, k2). Inr (LDRV_STATUS_ERROR, None, D\<lparr>cfg_st := S2\<rparr>, k2))
     else bind_res (getFirstAvailableIndex (led_table D)) (\<lambda>index.
     if index = NO_AVAILABLE_INDEX
     then bind_res (LDRV_CFG_GiveMutex k1 S1) (\<lambda>(S2, k2). Inr (LDRV_STATUS_ERROR, None, D\<lparr>cfg_st := S2\<rparr>, k2))
     else bind_res (setup k1 S1) (\<lambda>(r, S2, k2).
     if r \<noteq> LDRV_CFG_STATUS_OK
     then bind_res (LDRV_CFG_GiveMutex k2 S2) (\<lambda>(S3, k3). Inr (LDRV_STATUS_ERROR, None, D\<lparr>cfg_st := S3\<rparr>, k3))
     else let table = (led_table D)[unat index := store (led_table D ! unat index)] in
          bind_res (LDRV_CFG_GiveMutex k2 S2) (\<lambda>(S3, k3).
            Inr (LDRV_STATUS_OK, Some index, D\<lparr>cfg_st := S3, led_table := table\<rparr>, k3))))))"

definition LDRV_AddLedSingle ::
  "u32 \<Rightarrow> LDRV_CFG_Single_Config_t \<Rightarrow> kernel \<Rightarrow> ldrv \<Rightarrow> (LDRV_Ret_t \<times> u8 option \<times> ldrv \<times> kernel) res" where
  "LDRV_AddLedSingle core config =
     add_led (\<lambda>k S. let (r, S') = LDRV_CFG_SetuptLedSingle core config S in Inr (r, S', k))
       (\<lambda>i. i\<lparr>led_type := LDRV_LED_TYPE_SINGLE, single_config := config, active_flag := True\<rparr>)"

definition LDRV_AddLedSinglePwm ::
  "ledc_env \<Rightarrow> env \<Rightarrow> LDRV_CFG_Single_Pwm_Config_t \<Rightarrow> kernel \<Rightarrow> ldrv \<Rightarrow>
   (LDRV_Ret_t \<times> u8 option \<times> ldrv \<times> kernel) res" where
  "LDRV_AddLedSinglePwm E e config =
     add_led (LDRV_CFG_SetupLedSinglePwm E e config)
       (\<lambda>i. i\<lparr>led_type := LDRV_LED_TYPE_SINGLE_PWM, single_pwm_config := config, active_flag := True\<rparr>)"

definition LDRV_AddLedRgb ::
  "ledc_env \<Rightarrow> env \<Rightarrow> LDRV_CFG_Rgb_Config_t \<Rightarrow> kernel \<Rightarrow> ldrv \<Rightarrow>
   (LDRV_Ret_t \<times> u8 option \<times> ldrv \<times> kernel) res" where
  "LDRV_AddLedRgb E e config =
     add_led (LDRV_CFG_SetupLedRgb E e config)
       (\<lambda>i. i\<lparr>led_type := LDRV_LED_TYPE_RGB, rgb_config := config, active_flag := True\<rparr>)"

section \<open>Operations on an LED\<close>

text \<open>
  Every operation begins with the same guards: the handle is in range, the table entry is copied
  under the mutex, and the entry is active. The continuation receives the copy.
\<close>

definition with_led ::
  "u8 \<Rightarrow> kernel \<Rightarrow> ldrv \<Rightarrow>
   (LDRV_LED_Info_t \<Rightarrow> ldrv \<Rightarrow> kernel \<Rightarrow> (LDRV_Ret_t \<times> ldrv \<times> kernel) res) \<Rightarrow>
   (LDRV_Ret_t \<times> ldrv \<times> kernel) res" where
  "with_led led_handle k D f =
     (if unat led_handle \<ge> LDRV_CFG_MAX_NB_LED then Inr (LDRV_STATUS_ERROR, D, k)
      else bind_res (LDRV_CFG_TakeMutex k (cfg_st D)) (\<lambda>(S1, k1).
           bind_res (array_get (led_table D) (unat led_handle)) (\<lambda>led_info.
           bind_res (LDRV_CFG_GiveMutex k1 S1) (\<lambda>(S2, k2).
           let D' = D\<lparr>cfg_st := S2\<rparr> in
           if \<not> active_flag led_info then Inr (LDRV_STATUS_ERROR, D', k2) else f led_info D' k2))))"

definition ret_of :: "LDRV_CFG_Ret_t \<Rightarrow> LDRV_Ret_t" where
  "ret_of r = (if r \<noteq> LDRV_CFG_STATUS_OK then LDRV_STATUS_ERROR else LDRV_STATUS_OK)"

definition LDRV_SetLedSingleState :: "u8 \<Rightarrow> u8 \<Rightarrow> kernel \<Rightarrow> ldrv \<Rightarrow> (LDRV_Ret_t \<times> ldrv \<times> kernel) res" where
  "LDRV_SetLedSingleState state led_handle k D =
     with_led led_handle k D (\<lambda>info D k.
       if led_type info \<noteq> LDRV_LED_TYPE_SINGLE then Inr (LDRV_STATUS_ERROR, D, k)
       else let (r, S) = LDRV_CFG_SetLedSingleState state (single_config info) (cfg_st D)
            in Inr (ret_of r, D\<lparr>cfg_st := S\<rparr>, k))"

definition clip_duty :: "u32 \<Rightarrow> u32" where
  "clip_duty d =
     (let d1 = (if d \<ge> LDRV_CFG_MAX_PWM_DUTY then LDRV_CFG_MAX_PWM_DUTY else d)
      in if d1 \<le> LDRV_CFG_MIN_PWM_DUTY then LDRV_CFG_MIN_PWM_DUTY else d1)"

definition invert_duty :: "u32 \<Rightarrow> u32" where
  "invert_duty d =
     (if d = LDRV_CFG_MAX_PWM_DUTY then LDRV_CFG_MIN_PWM_DUTY
      else if d = LDRV_CFG_MIN_PWM_DUTY then LDRV_CFG_MAX_PWM_DUTY + 1
      else LDRV_CFG_MAX_PWM_DUTY - d)"

definition level_duty :: "LDRV_CFG_Active_Level_t \<Rightarrow> u32 \<Rightarrow> u32" where
  "level_duty level d = (if level = LDRV_CFG_ACTIVE_LOW then invert_duty d else d)"

definition LDRV_SetLedSinglePwmDuty ::
  "env \<Rightarrow> u32 \<Rightarrow> u8 \<Rightarrow> kernel \<Rightarrow> ldrv \<Rightarrow> (LDRV_Ret_t \<times> ldrv \<times> kernel) res" where
  "LDRV_SetLedSinglePwmDuty e duty_cycle led_handle k D =
     with_led led_handle k D (\<lambda>info D k.
       if led_type info \<noteq> LDRV_LED_TYPE_SINGLE_PWM then Inr (LDRV_STATUS_ERROR, D, k)
       else let cfg = single_pwm_config info; d = level_duty (pwm_active_level cfg) (clip_duty duty_cycle)
            in bind_res (LDRV_CFG_SetLedSinglePwmDuty e d cfg k (cfg_st D)) (\<lambda>(r, S, k1).
                 Inr (ret_of r, D\<lparr>cfg_st := S\<rparr>, k1)))"

definition LDRV_FadeLedSinglePwmDuty ::
  "ledc_env \<Rightarrow> env \<Rightarrow> u32 \<Rightarrow> u32 \<Rightarrow> u8 \<Rightarrow> kernel \<Rightarrow> ldrv \<Rightarrow> (LDRV_Ret_t \<times> ldrv \<times> kernel) res" where
  "LDRV_FadeLedSinglePwmDuty E e target fade_time_ms led_handle k D =
     with_led led_handle k D (\<lambda>info D k.
       if led_type info \<noteq> LDRV_LED_TYPE_SINGLE_PWM then Inr (LDRV_STATUS_ERROR, D, k)
       else let cfg = single_pwm_config info; d = level_duty (pwm_active_level cfg) (clip_duty target)
            in bind_res (LDRV_CFG_FadeLedSinglePwmDuty E e d fade_time_ms cfg k (cfg_st D)) (\<lambda>(r, S, k1).
                 Inr (ret_of r, D\<lparr>cfg_st := S\<rparr>, k1)))"

definition LDRV_SetLedRgbColor ::
  "env \<Rightarrow> LDRV_Color_t \<Rightarrow> u8 \<Rightarrow> kernel \<Rightarrow> ldrv \<Rightarrow> (LDRV_Ret_t \<times> ldrv \<times> kernel) res" where
  "LDRV_SetLedRgbColor e color led_handle k D =
     with_led led_handle k D (\<lambda>info D k.
       if led_type info \<noteq> LDRV_LED_TYPE_RGB then Inr (LDRV_STATUS_ERROR, D, k)
       else let cfg = rgb_config info; inv = level_duty (rgb_active_level cfg)
            in bind_res (LDRV_CFG_SetLedRgbColor e (inv (clip_duty (red_duty color)))
                           (inv (clip_duty (green_duty color))) (inv (clip_duty (blue_duty color))) cfg k (cfg_st D))
                 (\<lambda>(r, S, k1). Inr (ret_of r, D\<lparr>cfg_st := S\<rparr>, k1)))"

definition LDRV_FadeLedRgbColor ::
  "ledc_env \<Rightarrow> env \<Rightarrow> LDRV_Color_t \<Rightarrow> u32 \<Rightarrow> u8 \<Rightarrow> kernel \<Rightarrow> ldrv \<Rightarrow> (LDRV_Ret_t \<times> ldrv \<times> kernel) res" where
  "LDRV_FadeLedRgbColor E e target_color fade_time_ms led_handle k D =
     with_led led_handle k D (\<lambda>info D k.
       if led_type info \<noteq> LDRV_LED_TYPE_RGB then Inr (LDRV_STATUS_ERROR, D, k)
       else let cfg = rgb_config info; inv = level_duty (rgb_active_level cfg)
            in bind_res (LDRV_CFG_FadeLedRgbColor E e (inv (red_duty target_color))
                           (inv (green_duty target_color)) (inv (blue_duty target_color)) fade_time_ms cfg k (cfg_st D))
                 (\<lambda>(r, S, k1). Inr (ret_of r, D\<lparr>cfg_st := S\<rparr>, k1)))"

definition LDRV_SetLedPwmFreq ::
  "ledc_env \<Rightarrow> u32 \<Rightarrow> u8 \<Rightarrow> kernel \<Rightarrow> ldrv \<Rightarrow> (LDRV_Ret_t \<times> ldrv \<times> kernel) res" where
  "LDRV_SetLedPwmFreq E freq_hz led_handle k D =
     with_led led_handle k D (\<lambda>info D k.
       if led_type info = LDRV_LED_TYPE_SINGLE_PWM
       then bind_res (LDRV_CFG_SetLedSinglePwmFreq E freq_hz (single_pwm_config info) (cfg_st D)) (\<lambda>(r, S).
              Inr (ret_of r, D\<lparr>cfg_st := S\<rparr>, k))
       else if led_type info = LDRV_LED_TYPE_RGB
       then bind_res (LDRV_CFG_SetLedRgbFreq E freq_hz (rgb_config info) (cfg_st D)) (\<lambda>(r, S).
              Inr (ret_of r, D\<lparr>cfg_st := S\<rparr>, k))
       else Inr (LDRV_STATUS_ERROR, D, k))"

text \<open>The frequency stored through the out pointer is the second component.\<close>

definition LDRV_GetLedPwmFreq ::
  "ledc_env \<Rightarrow> u8 \<Rightarrow> bool \<Rightarrow> kernel \<Rightarrow> ldrv \<Rightarrow> (LDRV_Ret_t \<times> u32 option \<times> ldrv \<times> kernel) res" where
  "LDRV_GetLedPwmFreq E led_handle pFreq_hz k D =
     (if unat led_handle \<ge> LDRV_CFG_MAX_NB_LED then Inr (LDRV_STATUS_ERROR, None, D, k)
      else bind_res (LDRV_CFG_TakeMutex k (cfg_st D)) (\<lambda>(S1, k1).
           bind_res (array_get (led_table D) (unat led_handle)) (\<lambda>info.
           bind_res (LDRV_CFG_GiveMutex k1 S1) (\<lambda>(S2, k2).
           let D' = D\<lparr>cfg_st := S2\<rparr> in
           if \<not> active_flag info then Inr (LDRV_STATUS_ERROR, None, D', k2)
           else if led_type info = LDRV_LED_TYPE_SINGLE_PWM
           then bind_res (LDRV_CFG_GetLedSinglePwmFreq E pFreq_hz (single_pwm_config info) S2) (\<lambda>(r, f).
                  Inr (ret_of r, Some f, D', k2))
           else if led_type info = LDRV_LED_TYPE_RGB
           then bind_res (LDRV_CFG_GetLedRgbFreq E pFreq_hz (rgb_config info) S2) (\<lambda>(r, f).
                  Inr (ret_of r, Some f, D', k2))
           else Inr (LDRV_STATUS_ERROR, None, D', k2)))))"

section \<open>Slots\<close>

text \<open>
  The contract of a table that hands out its first free slot. \<^term>\<open>slots\<close> shows the table,
  \<^term>\<open>add\<close> stores an item and returns the slot, or refuses.
\<close>

locale slot_store =
  fixes invar :: "'s \<Rightarrow> bool"
    and slots :: "'s \<Rightarrow> 'a option list"
    and add :: "'s \<Rightarrow> 'a \<Rightarrow> (nat \<times> 's) option"
  assumes add_free: "invar s \<Longrightarrow> i < length (slots s) \<Longrightarrow> slots s ! i = None \<Longrightarrow>
      \<forall>j<i. slots s ! j \<noteq> None \<Longrightarrow>
      \<exists>s'. add s x = Some (i, s') \<and> invar s' \<and> slots s' = (slots s)[i := Some x]"
    and add_full: "invar s \<Longrightarrow> None \<notin> set (slots s) \<Longrightarrow> add s x = None"
begin

primrec add_seq :: "'a list \<Rightarrow> 's \<Rightarrow> nat option list \<times> 's" where
  "add_seq [] s = ([], s)"
| "add_seq (x # xs) s =
     (case add s x of
        None \<Rightarrow> (let (r, s') = add_seq xs s in (None # r, s'))
      | Some (i, s1) \<Rightarrow> (let (r, s') = add_seq xs s1 in (Some i # r, s')))"

lemma add_seq_full:
  assumes "invar s" and "None \<notin> set (slots s)"
  shows "add_seq xs s = (replicate (length xs) None, s)"
  by (induction xs) (simp_all add: add_full [OF assms])

text \<open>Filling a table whose first slots are taken: the handles go up by one until it is full.\<close>

lemma add_seq_from:
  assumes "invar s" and "slots s = map Some ys @ replicate n None"
  shows "\<exists>s'. add_seq xs s =
      (map (\<lambda>i. if i < n then Some (length ys + i) else None) [0..<length xs], s') \<and> invar s' \<and>
    slots s' = map Some (ys @ take n xs) @ replicate (n - length xs) None"
  using assms
proof (induction n arbitrary: s ys xs)
  case 0
  then show ?case using add_seq_full [of s xs] by (auto simp: map_replicate_const)
next
  case (Suc n)
  show ?case
  proof (cases xs)
    case Nil
    with Suc.prems show ?thesis by simp
  next
    case (Cons x zs)
    have "\<exists>s'. add s x = Some (length ys, s') \<and> invar s' \<and> slots s' = (slots s)[length ys := Some x]"
      using Suc.prems by (intro add_free) (auto simp: nth_append)
    then obtain s1 where s1: "add s x = Some (length ys, s1)" "invar s1"
      "slots s1 = (slots s)[length ys := Some x]" by blast
    have "slots s1 = map Some (ys @ [x]) @ replicate n None"
      using s1(3) Suc.prems(2) by (simp add: list_update_append)
    from Suc.IH [OF s1(2) this, of zs] s1(1) show ?thesis
      by (auto simp: Cons upt_conv_Cons simp del: upt_Suc simp flip: map_Suc_upt)
  qed
qed

end

section \<open>The table of LEDs as slots\<close>

datatype led_request =
    Single LDRV_CFG_Single_Config_t
  | Single_Pwm LDRV_CFG_Single_Pwm_Config_t
  | Rgb LDRV_CFG_Rgb_Config_t

definition led_of :: "LDRV_LED_Info_t \<Rightarrow> led_request option" where
  "led_of i =
     (if \<not> active_flag i then None
      else case led_type i of
        LDRV_LED_TYPE_SINGLE \<Rightarrow> Some (Single (single_config i))
      | LDRV_LED_TYPE_SINGLE_PWM \<Rightarrow> Some (Single_Pwm (single_pwm_config i))
      | _ \<Rightarrow> Some (Rgb (rgb_config i)))"

definition stored :: "led_request \<Rightarrow> LDRV_LED_Info_t \<Rightarrow> LDRV_LED_Info_t" where
  "stored x i =
     (case x of
        Single c \<Rightarrow> i\<lparr>led_type := LDRV_LED_TYPE_SINGLE, single_config := c, active_flag := True\<rparr>
      | Single_Pwm c \<Rightarrow> i\<lparr>led_type := LDRV_LED_TYPE_SINGLE_PWM, single_pwm_config := c, active_flag := True\<rparr>
      | Rgb c \<Rightarrow> i\<lparr>led_type := LDRV_LED_TYPE_RGB, rgb_config := c, active_flag := True\<rparr>)"

definition add_request ::
  "u32 \<Rightarrow> ledc_env \<Rightarrow> env \<Rightarrow> led_request \<Rightarrow> kernel \<Rightarrow> ldrv \<Rightarrow> (LDRV_Ret_t \<times> u8 option \<times> ldrv \<times> kernel) res" where
  "add_request core E e x =
     (case x of
        Single c \<Rightarrow> LDRV_AddLedSingle core c
      | Single_Pwm c \<Rightarrow> LDRV_AddLedSinglePwm E e c
      | Rgb c \<Rightarrow> LDRV_AddLedRgb E e c)"

text \<open>The driver is ready: its mutex is free, its table has its size, no fade is running.\<close>

definition ldrv_ready :: "kernel \<Rightarrow> ldrv \<Rightarrow> bool" where
  "ldrv_ready k D \<longleftrightarrow>
     mutex_ready k (ldrv_mutex_handle (cfg_st D)) \<and> length (led_table D) = LDRV_CFG_MAX_NB_LED \<and>
     ledc_calm (ledc_st (cfg_st D))"

lemma led_of_stored [simp]: "led_of (stored x i) = Some x"
  by (cases x) (simp_all add: led_of_def stored_def)

lemma led_of_None [simp]: "led_of i = None \<longleftrightarrow> \<not> active_flag i"
  by (simp add: led_of_def split: LDRV_Led_Type_t.split)

lemma first_inactive_found:
  assumes "i \<le> n" and "n < length t" and "length t = LDRV_CFG_MAX_NB_LED" and "\<not> active_flag (t ! n)"
    and "\<forall>j. i \<le> j \<longrightarrow> j < n \<longrightarrow> active_flag (t ! j)"
  shows "first_inactive t i = Inr n"
  using assms
proof (induction "n - i" arbitrary: i)
  case 0
  then show ?case by (simp add: first_inactive.simps)
next
  case (Suc d)
  then have "first_inactive t (Suc i) = Inr n" by simp
  with Suc show ?case by (subst first_inactive.simps) auto
qed

lemma first_inactive_full:
  assumes "i \<le> length t" and "length t = LDRV_CFG_MAX_NB_LED" and "\<forall>j. i \<le> j \<longrightarrow> j < length t \<longrightarrow> active_flag (t ! j)"
  shows "first_inactive t i = Inr LDRV_CFG_MAX_NB_LED"
  using assms
proof (induction "length t - i" arbitrary: i)
  case 0
  then show ?case by (simp add: first_inactive.simps)
next
  case (Suc d)
  then have "first_inactive t (Suc i) = Inr LDRV_CFG_MAX_NB_LED" by simp
  with Suc show ?case by (subst first_inactive.simps) auto
qed

definition setup_of ::
  "u32 \<Rightarrow> ledc_env \<Rightarrow> env \<Rightarrow> led_request \<Rightarrow> kernel \<Rightarrow> ldrv_cfg \<Rightarrow> (LDRV_CFG_Ret_t \<times> ldrv_cfg \<times> kernel) res" where
  "setup_of core E e x =
     (case x of
        Single c \<Rightarrow> (\<lambda>k S. let (r, S') = LDRV_CFG_SetuptLedSingle core c S in Inr (r, S', k))
      | Single_Pwm c \<Rightarrow> LDRV_CFG_SetupLedSinglePwm E e c
      | Rgb c \<Rightarrow> LDRV_CFG_SetupLedRgb E e c)"

lemma add_request_eq: "add_request core E e x = add_led (setup_of core E e x) (stored x)"
  by (cases x) (simp_all add: add_request_def setup_of_def LDRV_AddLedSingle_def
      LDRV_AddLedSinglePwm_def LDRV_AddLedRgb_def stored_def [abs_def])

lemma setup_of_returns:
  assumes "ledc_calm (ledc_st S)" and "may_block k portMAX_DELAY"
  shows "\<exists>S'. setup_of core E e x k S = Inr (LDRV_CFG_STATUS_OK, S', k) \<and> same_locks S S'"
proof (cases x)
  case (Single c)
  then show ?thesis using setup_single_returns [of core c S] by (auto simp: setup_of_def)
next
  case (Single_Pwm c)
  then show ?thesis using setup_single_pwm_returns [OF assms, of E e c] by (simp add: setup_of_def)
next
  case (Rgb c)
  then show ?thesis using setup_rgb_returns [OF assms, of E e c] by (simp add: setup_of_def)
qed

lemma add_request_state:
  assumes "ldrv_ready k D" and "i < LDRV_CFG_MAX_NB_LED" and "\<not> active_flag (led_table D ! i)"
    and "\<forall>j<i. active_flag (led_table D ! j)"
  shows "\<exists>D' h S2 k'. add_request core E e x k D = Inr (LDRV_STATUS_OK, Some (of_nat i), D', k) \<and> ldrv_ready k D' \<and>
    led_table D' = (led_table D)[i := stored x (led_table D ! i)] \<and> may_block k' portMAX_DELAY \<and>
    setup_of core E e x k' ((cfg_st D)\<lparr>ldrv_mutex_handle := h\<rparr>) = Inr (LDRV_CFG_STATUS_OK, S2, k') \<and>
    ledc_st (cfg_st D') = ledc_st S2 \<and> gpio_st (cfg_st D') = gpio_st S2"
proof -
  let ?S = "cfg_st D"
  from assms(1) have r: "mutex_ready k (ldrv_mutex_handle ?S)" "ledc_calm (ledc_st ?S)"
    and len: "length (led_table D) = LDRV_CFG_MAX_NB_LED" by (simp_all add: ldrv_ready_def)
  have scan: "first_inactive (led_table D) 0 = Inr i"
    using assms(2-4) len by (intro first_inactive_found) auto
  have i: "i < 3" using assms(2) by (simp add: LDRV_CFG_MAX_NB_LED_def)
  have u: "unat (of_nat i :: u8) = i" "(of_nat i :: u8) \<noteq> NO_AVAILABLE_INDEX"
    using i by (auto simp: numeral_3_eq_3 less_Suc_eq NO_AVAILABLE_INDEX_def)
  from ldrv_section [OF r(1)] mutex_ready_may_block [OF r(1)] obtain h k' where
    take: "LDRV_CFG_TakeMutex k ?S = Inr (?S\<lparr>ldrv_mutex_handle := h\<rparr>, k')" "may_block k' portMAX_DELAY"
    and give: "\<And>S'. ldrv_mutex_handle S' = h \<Longrightarrow>
      LDRV_CFG_GiveMutex k' S' = Inr (S'\<lparr>ldrv_mutex_handle := ldrv_mutex_handle ?S\<rparr>, k)" by blast
  from setup_of_returns [of "?S\<lparr>ldrv_mutex_handle := h\<rparr>", OF _ take(2)] r(2) obtain S2 where
    S2: "setup_of core E e x k' (?S\<lparr>ldrv_mutex_handle := h\<rparr>) = Inr (LDRV_CFG_STATUS_OK, S2, k')"
    "same_locks (?S\<lparr>ldrv_mutex_handle := h\<rparr>) S2" by fastforce
  then have h: "ldrv_mutex_handle S2 = h" and calm: "ledc_calm (ledc_st S2)"
    using r(2) same_locks_calm [OF S2(2)] by (simp_all add: same_locks_def)
  let ?D = "D\<lparr>cfg_st := S2\<lparr>ldrv_mutex_handle := ldrv_mutex_handle ?S\<rparr>,
    led_table := (led_table D)[i := stored x (led_table D ! i)]\<rparr>"
  have "add_request core E e x k D = Inr (LDRV_STATUS_OK, Some (of_nat i), ?D, k)"
    using assms(2) scan u take(1) S2(1) give [OF h]
    by (simp add: add_request_eq add_led_def isTableFull_def getFirstAvailableIndex_def)
  moreover have "ldrv_ready k ?D" using r calm len by (simp add: ldrv_ready_def)
  ultimately show ?thesis using take(2) S2(1) by (intro exI [of _ ?D] exI [of _ h] exI [of _ S2] exI [of _ k']) simp
qed

lemma add_request_free:
  assumes "ldrv_ready k D" and "i < LDRV_CFG_MAX_NB_LED" and "\<not> active_flag (led_table D ! i)"
    and "\<forall>j<i. active_flag (led_table D ! j)"
  shows "\<exists>D'. add_request core E e x k D = Inr (LDRV_STATUS_OK, Some (of_nat i), D', k) \<and> ldrv_ready k D' \<and>
    led_table D' = (led_table D)[i := stored x (led_table D ! i)]"
  using add_request_state [OF assms] by blast

lemma add_request_full:
  assumes "ldrv_ready k D" and "\<forall>i<LDRV_CFG_MAX_NB_LED. active_flag (led_table D ! i)"
  shows "add_request core E e x k D = Inr (LDRV_STATUS_ERROR, None, D, k)"
proof -
  let ?S = "cfg_st D"
  from assms(1) have r: "mutex_ready k (ldrv_mutex_handle ?S)"
    and len: "length (led_table D) = LDRV_CFG_MAX_NB_LED" by (simp_all add: ldrv_ready_def)
  have scan: "first_inactive (led_table D) 0 = Inr LDRV_CFG_MAX_NB_LED"
    using assms(2) len by (intro first_inactive_full) auto
  from ldrv_section [OF r] obtain h k' where
    "LDRV_CFG_TakeMutex k ?S = Inr (?S\<lparr>ldrv_mutex_handle := h\<rparr>, k')"
    "\<And>S'. ldrv_mutex_handle S' = h \<Longrightarrow>
      LDRV_CFG_GiveMutex k' S' = Inr (S'\<lparr>ldrv_mutex_handle := ldrv_mutex_handle ?S\<rparr>, k)" by blast
  then show ?thesis by (simp add: add_request_eq add_led_def isTableFull_def scan)
qed

text \<open>The driver's additions as the operation of a slot store, on states with their kernel.\<close>

definition led_add ::
  "u32 \<Rightarrow> ledc_env \<Rightarrow> env \<Rightarrow> ldrv \<times> kernel \<Rightarrow> led_request \<Rightarrow> (nat \<times> ldrv \<times> kernel) option" where
  "led_add core E e s x =
     (case add_request core E e x (snd s) (fst s) of
        Inr (LDRV_STATUS_OK, Some i, D', k') \<Rightarrow> Some (unat i, D', k')
      | _ \<Rightarrow> None)"

interpretation led_slots: slot_store "\<lambda>(D, k). ldrv_ready k D" "\<lambda>(D, k). map led_of (led_table D)"
  "led_add core E e" for core E e
proof unfold_locales
  fix s :: "ldrv \<times> kernel" and i x
  assume inv: "case s of (D, k) \<Rightarrow> ldrv_ready k D" and i: "i < length (case s of (D, k) \<Rightarrow> map led_of (led_table D))"
    and free: "(case s of (D, k) \<Rightarrow> map led_of (led_table D)) ! i = None"
    and first: "\<forall>j<i. (case s of (D, k) \<Rightarrow> map led_of (led_table D)) ! j \<noteq> None"
  obtain D k where s: "s = (D, k)" by fastforce
  have len: "length (led_table D) = LDRV_CFG_MAX_NB_LED" using inv by (simp add: s ldrv_ready_def)
  have u: "unat (of_nat i :: u8) = i" using i len by (simp add: s LDRV_CFG_MAX_NB_LED_def unat_of_nat)
  show "\<exists>s'. led_add core E e s x = Some (i, s') \<and> (case s' of (D, k) \<Rightarrow> ldrv_ready k D) \<and>
    (case s' of (D, k) \<Rightarrow> map led_of (led_table D)) = (case s of (D, k) \<Rightarrow> map led_of (led_table D))[i := Some x]"
    using add_request_free [of k D i core E e x] inv i free first len u
    by (auto simp: s led_add_def map_update)
next
  fix s :: "ldrv \<times> kernel" and x
  assume inv: "case s of (D, k) \<Rightarrow> ldrv_ready k D"
    and full: "None \<notin> set (case s of (D, k) \<Rightarrow> map led_of (led_table D))"
  obtain D k where s: "s = (D, k)" by fastforce
  have "\<forall>i<LDRV_CFG_MAX_NB_LED. active_flag (led_table D ! i)"
    using full inv by (auto simp: s ldrv_ready_def in_set_conv_nth) (metis led_of_None nth_mem image_eqI)
  from add_request_full [OF _ this] inv show "led_add core E e s x = None" by (simp add: s led_add_def)
qed

text \<open>A sequence of additions by the application, with what each returns.\<close>

primrec add_leds ::
  "u32 \<Rightarrow> ledc_env \<Rightarrow> env \<Rightarrow> led_request list \<Rightarrow> kernel \<Rightarrow> ldrv \<Rightarrow>
   ((LDRV_Ret_t \<times> u8 option) list \<times> ldrv \<times> kernel) res" where
  "add_leds core E e [] k D = Inr ([], D, k)"
| "add_leds core E e (x # xs) k D =
     bind_res (add_request core E e x k D) (\<lambda>(r, h, D1, k1).
     bind_res (add_leds core E e xs k1 D1) (\<lambda>(rs, D2, k2). Inr ((r, h) # rs, D2, k2)))"

definition reply :: "nat option \<Rightarrow> LDRV_Ret_t \<times> u8 option" where
  "reply r = (case r of None \<Rightarrow> (LDRV_STATUS_ERROR, None) | Some i \<Rightarrow> (LDRV_STATUS_OK, Some (of_nat i)))"

lemma add_request_cases:
  assumes "ldrv_ready k D"
  obtains i D' where "add_request core E e x k D = Inr (LDRV_STATUS_OK, Some (of_nat i), D', k)"
    "ldrv_ready k D'" "led_add core E e (D, k) x = Some (i, D', k)"
  | "add_request core E e x k D = Inr (LDRV_STATUS_ERROR, None, D, k)" "led_add core E e (D, k) x = None"
proof (cases "\<exists>i<LDRV_CFG_MAX_NB_LED. \<not> active_flag (led_table D ! i)")
  case True
  then obtain i where i: "i < LDRV_CFG_MAX_NB_LED" "\<not> active_flag (led_table D ! i)"
    "\<forall>j<i. active_flag (led_table D ! j)"
    using exists_least_iff [of "\<lambda>i. i < LDRV_CFG_MAX_NB_LED \<and> \<not> active_flag (led_table D ! i)"]
    by (metis less_trans)
  have "unat (of_nat i :: u8) = i" using i(1) by (simp add: LDRV_CFG_MAX_NB_LED_def unat_of_nat)
  with add_request_free [OF assms i, of core E e x] that(1) show ?thesis by (auto simp: led_add_def)
next
  case False
  then have "\<forall>i<LDRV_CFG_MAX_NB_LED. active_flag (led_table D ! i)" by blast
  from add_request_full [OF assms this, of core E e x] that(2) show ?thesis by (simp add: led_add_def)
qed

lemma add_leds_eq:
  assumes "ldrv_ready k D" and "led_slots.add_seq core E e xs (D, k) = (rs, D', k')"
  shows "k' = k \<and> add_leds core E e xs k D = Inr (map reply rs, D', k)"
  using assms
proof (induction xs arbitrary: D rs)
  case (Cons x xs)
  from Cons.prems(1) show ?case
  proof (cases rule: add_request_cases [of k D core E e x])
    case (1 i D1)
    with Cons.prems(2) obtain rs' where "rs = Some i # rs'" "led_slots.add_seq core E e xs (D1, k) = (rs', D', k')"
      by (auto split: prod.splits)
    with Cons.IH [OF 1(2)] 1(1) show ?thesis by (simp add: reply_def)
  next
    case 2
    with Cons.prems(2) obtain rs' where "rs = None # rs'" "led_slots.add_seq core E e xs (D, k) = (rs', D', k')"
      by (auto split: prod.splits)
    with Cons.IH [OF Cons.prems(1)] 2(1) show ?thesis by (simp add: reply_def)
  qed
qed simp

lemma init_driver_ready:
  assumes "kernel_ok k" and "length (led_table D) = LDRV_CFG_MAX_NB_LED" and "ledc_calm (ledc_st (cfg_st D))"
  shows "\<exists>D0. LDRV_InitDriver (Some junk) k D = Inr (LDRV_STATUS_OK, D0, k) \<and> ldrv_ready k D0 \<and>
    map led_of (led_table D0) = replicate LDRV_CFG_MAX_NB_LED None"
proof -
  let ?q = "(fresh_queue junk 1 0)\<lparr>pcHead := None, uxMessagesWaiting := 1\<rparr>"
  let ?S = "(cfg_st D)\<lparr>ldrv_mutex_handle := Some ?q\<rparr>"
  let ?table = "map (\<lambda>i. i\<lparr>active_flag := False\<rparr>) (led_table D)"
  have m: "mutex_ready k (ldrv_mutex_handle ?S)"
    using assms(1) by (simp add: mutex_ready_def created_mutex_free)
  have "LDRV_InitDriver (Some junk) k D =
      bind_res (LDRV_CFG_TakeMutex k ?S) (\<lambda>(S2, k2). bind_res (LDRV_CFG_GiveMutex k2 S2)
        (\<lambda>(S3, k3). Inr (LDRV_STATUS_OK, D\<lparr>cfg_st := S3, led_table := ?table\<rparr>, k3)))"
    by (simp add: LDRV_InitDriver_def LDRV_CFG_InitDriver_def create_mutex_eq)
  also have "\<dots> = Inr (LDRV_STATUS_OK, D\<lparr>cfg_st := ?S, led_table := ?table\<rparr>, k)"
    by (subst ldrv_lock.critical_section [OF m]) simp
  finally show ?thesis
    using m assms by (auto simp: ldrv_ready_def list_eq_iff_nth_eq)
qed

section \<open>Guards of the operations\<close>

lemma with_led_eq:
  assumes "ldrv_ready k D" and "unat h < LDRV_CFG_MAX_NB_LED"
  shows "with_led h k D f =
    (if active_flag (led_table D ! unat h) then f (led_table D ! unat h) D k else Inr (LDRV_STATUS_ERROR, D, k))"
  using ldrv_section [of k "cfg_st D"] assms by (auto simp: with_led_def ldrv_ready_def)

lemma with_led_out_of_range: "LDRV_CFG_MAX_NB_LED \<le> unat h \<Longrightarrow> with_led h k D f = Inr (LDRV_STATUS_ERROR, D, k)"
  by (simp add: with_led_def)

definition active_pwm :: "u8 \<Rightarrow> LDRV_CFG_Single_Pwm_Config_t \<Rightarrow> ldrv \<Rightarrow> bool" where
  "active_pwm h cfg D \<longleftrightarrow> unat h < LDRV_CFG_MAX_NB_LED \<and> led_of (led_table D ! unat h) = Some (Single_Pwm cfg)"

definition active_rgb :: "u8 \<Rightarrow> LDRV_CFG_Rgb_Config_t \<Rightarrow> ldrv \<Rightarrow> bool" where
  "active_rgb h cfg D \<longleftrightarrow> unat h < LDRV_CFG_MAX_NB_LED \<and> led_type (led_table D ! unat h) = LDRV_LED_TYPE_RGB \<and>
     led_of (led_table D ! unat h) = Some (Rgb cfg)"

definition active_single :: "u8 \<Rightarrow> LDRV_CFG_Single_Config_t \<Rightarrow> ldrv \<Rightarrow> bool" where
  "active_single h cfg D \<longleftrightarrow> unat h < LDRV_CFG_MAX_NB_LED \<and> led_of (led_table D ! unat h) = Some (Single cfg)"

lemma led_of_eq_Some:
  "led_of i = Some (Single cs) \<longleftrightarrow> active_flag i \<and> led_type i = LDRV_LED_TYPE_SINGLE \<and> single_config i = cs"
  "led_of i = Some (Single_Pwm cp) \<longleftrightarrow>
     active_flag i \<and> led_type i = LDRV_LED_TYPE_SINGLE_PWM \<and> single_pwm_config i = cp"
  by (auto simp: led_of_def split: LDRV_Led_Type_t.splits)

lemma active_rgb_eq:
  "active_rgb h cr D \<longleftrightarrow> unat h < LDRV_CFG_MAX_NB_LED \<and> active_flag (led_table D ! unat h) \<and>
     led_type (led_table D ! unat h) = LDRV_LED_TYPE_RGB \<and> rgb_config (led_table D ! unat h) = cr"
  by (auto simp: active_rgb_def led_of_def)

lemmas active_defs = active_pwm_def active_rgb_eq active_single_def led_of_eq_Some

section \<open>Duties\<close>

lemma clip_duty_eq: "clip_duty d = min d 255"
  using linear [of d 255]
  by (auto simp: clip_duty_def LDRV_CFG_MAX_PWM_DUTY_def LDRV_CFG_MIN_PWM_DUTY_def min_def Let_def)

text \<open>The part of a period, in 256ths, for which a channel with a duty lights its LED.\<close>

definition on_time :: "LDRV_CFG_Active_Level_t \<Rightarrow> u32 \<Rightarrow> int" where
  "on_time level d = (if level = LDRV_CFG_ACTIVE_LOW then 256 - uint d else uint d)"

lemma uint_min_255: "uint (min d 255 :: u32) = min (uint d) 255"
  by (auto simp: min_def word_le_def)

lemma level_duty_on_time:
  "on_time l (level_duty l (clip_duty d)) =
     (if l = LDRV_CFG_ACTIVE_LOW \<and> d \<noteq> 0 then min (uint d) 255 + 1 else min (uint d) 255)"
proof -
  have c: "clip_duty d = 0 \<longleftrightarrow> d = 0" by (auto simp: clip_duty_eq min_def)
  have u: "uint (clip_duty d) = min (uint d) 255" by (simp add: clip_duty_eq uint_min_255)
  have "uint (255 - clip_duty d) = 255 - uint (clip_duty d)"
    using uint_sub_if' [of "255 :: u32" "clip_duty d"] u by simp
  then show ?thesis using c u
    unfolding on_time_def level_duty_def invert_duty_def LDRV_CFG_MAX_PWM_DUTY_def LDRV_CFG_MIN_PWM_DUTY_def
    by (cases "l = LDRV_CFG_ACTIVE_LOW"; cases "d = 0"; cases "clip_duty d = 255") simp_all
qed

lemma level_duty_bound: "uint (level_duty l (clip_duty d)) \<le> 256"
proof -
  have "0 \<le> on_time l (level_duty l (clip_duty d))" "on_time l (level_duty l (clip_duty d)) \<le> 256"
    unfolding level_duty_on_time by (auto simp: min_def)
  then show ?thesis by (auto simp: on_time_def split: if_splits)
qed

definition pwm_channel_ready :: "nat \<Rightarrow> ldrv \<Rightarrow> bool" where
  "pwm_channel_ready c D \<longleftrightarrow> c < LEDC_CHANNEL_MAX \<and> p_ledc_obj (ledc_st (cfg_st D)) \<noteq> None"

lemma set_pwm_duty_eq:
  assumes "ldrv_ready k D" and "active_pwm h cfg D" and "pwm_channel_ready (led_channel cfg) D"
  shows "LDRV_SetLedSinglePwmDuty e d h k D = Inr (LDRV_STATUS_OK,
    D\<lparr>cfg_st := with_duty (led_channel cfg) (level_duty (pwm_active_level cfg) (clip_duty d)) (cfg_st D)\<rparr>, k)"
proof -
  have "may_block k portMAX_DELAY" "ledc_calm (ledc_st (cfg_st D))"
    using assms(1) mutex_ready_may_block by (auto simp: ldrv_ready_def)
  with assms show ?thesis
    by (simp add: LDRV_SetLedSinglePwmDuty_def with_led_eq active_defs pwm_channel_ready_def
        LDRV_CFG_SetLedSinglePwmDuty_def set_channel_duty_calm ret_of_def)
qed

lemma set_rgb_color_eq:
  assumes "ldrv_ready k D" and "active_rgb h cfg D" and "pwm_channel_ready (red_channel cfg) D"
    and "pwm_channel_ready (green_channel cfg) D" and "pwm_channel_ready (blue_channel cfg) D"
  shows "LDRV_SetLedRgbColor e col h k D = Inr (LDRV_STATUS_OK,
    D\<lparr>cfg_st := with_duty (blue_channel cfg) (level_duty (rgb_active_level cfg) (clip_duty (blue_duty col)))
       (with_duty (green_channel cfg) (level_duty (rgb_active_level cfg) (clip_duty (green_duty col)))
         (with_duty (red_channel cfg) (level_duty (rgb_active_level cfg) (clip_duty (red_duty col))) (cfg_st D)))\<rparr>, k)"
proof -
  have "may_block k portMAX_DELAY" "ledc_calm (ledc_st (cfg_st D))"
    using assms(1) mutex_ready_may_block by (auto simp: ldrv_ready_def)
  with assms show ?thesis
    by (simp add: LDRV_SetLedRgbColor_def with_led_eq active_defs pwm_channel_ready_def set_rgb_calm ret_of_def
        Let_def)
qed

lemma shown_level_duty: "shown_duty c (with_duty c (level_duty l (clip_duty d)) S) = level_duty l (clip_duty d)"
  using level_duty_bound [of l d] by (intro shown_with_duty) simp

section \<open>Frequencies\<close>

text \<open>
  Both conversions round to the nearest: the divisor \<^term>\<open>d\<close> of a frequency \<^term>\<open>f\<close>, and the frequency
  of a divisor. A frequency below its divisor is read back exactly.
\<close>

lemma rounding_round_trip:
  fixes S f d g :: nat
  assumes "d = (2 * S + f) div (2 * f)" and "g = (2 * S + d) div (2 * d)" and "0 < f" and "f < d"
  shows "g = f"
proof -
  have 1: "2 * f * d \<le> 2 * S + f" "2 * S + f < 2 * f * d + 2 * f"
    using times_div_less_eq_dividend [of "2 * f" "2 * S + f"] dividend_less_times_div [of "2 * f" "2 * S + f"]
      assms(3) by (simp_all add: assms(1))
  then have "2 * d * f \<le> 2 * S + d" "2 * S + d < 2 * d * Suc f"
    using assms(4) by (simp_all add: mult.commute mult.left_commute)
  then show ?thesis unfolding assms(2) by (rule div_nat_eqI)
qed

definition timer_on_xtal :: "ledc_env \<Rightarrow> nat \<Rightarrow> ledc \<Rightarrow> bool" where
  "timer_on_xtal E t L \<longleftrightarrow>
     t < LEDC_TIMER_MAX \<and> src_freq E LEDC_USE_XTAL_CLK = 40000000 \<and> apb_clk_sel L = Some LEDC_USE_XTAL_CLK \<and>
     duty_resolution (timer_regs L t) = LDRV_DEFAULT_DUTY_RES \<and>
     (case p_ledc_obj L of None \<Rightarrow> False | Some ob \<Rightarrow> glb_clk ob = Some LEDC_USE_XTAL_CLK)"

definition xtal_divisor :: "nat \<Rightarrow> nat" where
  "xtal_divisor f = (80000000 + f) div (2 * f)"

lemma xtal_divisor_eq:
  assumes "0 < unat f" and "unat f < 2 ^ 24"
  shows "ledc_calculate_divisor 40000000 f (push_bit 8 1) = Inr (of_nat (xtal_divisor (unat f)))"
proof -
  have p: "unat (f * push_bit 8 1) = 256 * unat f"
    using assms(2) by (simp add: unat_word_ariths)
  then have "f * push_bit 8 1 \<noteq> 0" using assms(1) by (metis mult_is_0 neq0_conv unat_0 zero_neq_numeral)
  moreover have "(256 * 40000000 + 256 * unat f div 2) div (256 * unat f) = xtal_divisor (unat f)"
    using div_mult_mult1 [of 128 "80000000 + unat f" "2 * unat f"] by (simp add: xtal_divisor_def)
  ultimately show ?thesis by (simp add: ledc_calculate_divisor_def Let_def p [simplified])
qed

lemma xtal_divisor_bounds:
  assumes "153 \<le> f" and "f \<le> 6324"
  shows "f < xtal_divisor f" and "xtal_divisor f \<le> 0x3FFFF" and "255 < xtal_divisor f"
proof -
  have "(f + 1) * (2 * f) \<le> 80000000 + f"
  proof -
    have "f * f \<le> 6324 * 6324" using assms(2) by (intro mult_le_mono)
    then show ?thesis using assms(2) by simp
  qed
  then have "f + 1 \<le> xtal_divisor f" using assms(1) by (simp add: xtal_divisor_def less_eq_div_iff_mult_less_eq)
  then show 1: "f < xtal_divisor f" by simp
  have "80000000 + f < 0x40000 * (2 * f)" using assms(1) by simp
  then show "xtal_divisor f \<le> 0x3FFFF" using less_mult_imp_div_less [of "80000000 + f" "0x40000" "2 * f"]
    by (simp add: xtal_divisor_def)
  have "256 * (2 * f) \<le> 80000000 + f" using assms(2) by simp
  then have "256 \<le> xtal_divisor f" using assms(1) by (simp add: xtal_divisor_def less_eq_div_iff_mult_less_eq)
  then show "255 < xtal_divisor f" by simp
qed

lemma set_freq_on_xtal:
  assumes "timer_on_xtal E t L" and "153 \<le> unat f" and "unat f \<le> 6324"
  shows "\<exists>L'. ledc_set_freq E t f L = Inr (ESP_OK, L') \<and> timer_on_xtal E t L' \<and>
    clock_divider (timer_regs L' t) = of_nat (xtal_divisor (unat f)) \<and>
    s_ledc_fade_rec L' = s_ledc_fade_rec L"
proof -
  from assms(1) obtain ob where L: "t < LEDC_TIMER_MAX" "src_freq E LEDC_USE_XTAL_CLK = 40000000"
    "apb_clk_sel L = Some LEDC_USE_XTAL_CLK" "duty_resolution (timer_regs L t) = 8"
    "p_ledc_obj L = Some ob" "glb_clk ob = Some LEDC_USE_XTAL_CLK"
    by (auto simp: timer_on_xtal_def LDRV_DEFAULT_DUTY_RES_def split: option.splits)
  let ?d = "of_nat (xtal_divisor (unat f)) :: u32"
  note b = xtal_divisor_bounds [OF assms(2,3)]
  have u: "unat ?d = xtal_divisor (unat f)" using b(2) by (simp add: unat_of_nat)
  have ok: "\<not> LEDC_IS_DIV_INVALID ?d"
    using b u by (simp add: LEDC_IS_DIV_INVALID_def LEDC_LL_FRACTIONAL_MAX_def LEDC_TIMER_DIV_NUM_MAX_def
        word_le_nat_alt word_less_nat_alt)
  have field: "?d AND 0x3FFFF = ?d"
  proof -
    have "?d = word_of_int (int (xtal_divisor (unat f)))" by simp
    moreover have "uint (word_of_int (int (xtal_divisor (unat f))) AND mask 18 :: u32) = int (xtal_divisor (unat f))"
      using b(2) by (intro uint_field) simp_all
    moreover have "uint ?d = int (xtal_divisor (unat f))" using u by (metis uint_nat)
    moreover have "(mask 18 :: u32) = 0x3FFFF" by (simp add: mask_eq_exp_minus_1)
    ultimately show ?thesis by (metis word_uint_eq_iff)
  qed
  show ?thesis
    using L ok field xtal_divisor_eq [of f] assms(2,3)
    by (auto simp: ledc_set_freq_def ledc_hal_get_clk_cfg_def ledc_set_timer_div_def ledc_choose_divisor_def
        ledc_timer_set_def timer_on_xtal_def upd_timer_def upd_obj_def LDRV_DEFAULT_DUTY_RES_def Let_def)
qed

lemma get_freq_on_xtal:
  assumes "timer_on_xtal E t L" and "153 \<le> unat f" and "unat f \<le> 6324"
    and "clock_divider (timer_regs L t) = of_nat (xtal_divisor (unat f))"
  shows "ledc_get_freq E t L = Inr f"
proof -
  let ?d = "xtal_divisor (unat f)"
  note b = xtal_divisor_bounds [OF assms(2,3)]
  have u: "unat (of_nat ?d :: u32) = ?d" using b(2) by (simp add: unat_of_nat)
  have "(256 * 40000000 + 256 * ?d div 2) div (256 * ?d) = (2 * 40000000 + ?d) div (2 * ?d)"
    using div_mult_mult1 [of 128 "80000000 + ?d" "2 * ?d"] by simp
  also have "\<dots> = unat f"
    using rounding_round_trip [of ?d 40000000 "unat f"] b(1) assms(2) by (simp add: xtal_divisor_def)
  finally have g: "(256 * 40000000 + 256 * ?d div 2) div (256 * ?d) = unat f" .
  have "(of_nat ?d :: u32) \<noteq> 0" using u b(3) by (metis unat_0 not_less_zero)
  then show ?thesis
    using assms(1,4) g u
    by (auto simp: ledc_get_freq_def ledc_hal_get_clk_cfg_def timer_on_xtal_def LDRV_DEFAULT_DUTY_RES_def Let_def
        split: option.splits)
qed

lemma freq_fault:
  assumes "timer_on_xtal E t L" and "2 ^ 24 dvd unat f"
  shows "ledc_set_freq E t f L = Inl Div_by_zero"
proof -
  from assms(2) obtain m where "unat f = 2 ^ 24 * m" by blast
  then have "unat (f * 256) = 0" by (simp add: unat_word_ariths)
  then have z: "f * 256 = 0" by (simp only: unat_eq_zero)
  from assms(1) z show ?thesis
    by (auto simp: timer_on_xtal_def ledc_set_freq_def ledc_hal_get_clk_cfg_def ledc_set_timer_div_def
        ledc_choose_divisor_def ledc_calculate_divisor_def LDRV_DEFAULT_DUTY_RES_def split: option.splits)
qed

lemma get_pwm_freq_eq:
  assumes "ldrv_ready k D" and "active_pwm h cfg D" and "ledc_get_freq E (led_timer cfg) (ledc_st (cfg_st D)) = Inr f"
  shows "LDRV_GetLedPwmFreq E h True k D = Inr (LDRV_STATUS_OK, Some f, D, k)"
  using ldrv_section [of k "cfg_st D"] assms
  by (auto simp: LDRV_GetLedPwmFreq_def ldrv_ready_def active_defs LDRV_CFG_GetLedSinglePwmFreq_def ret_of_def)

lemma set_pwm_freq_eq:
  assumes "ldrv_ready k D" and "active_pwm h cfg D"
  shows "LDRV_SetLedPwmFreq E f h k D =
    bind_res (ledc_set_freq E (led_timer cfg) f (ledc_st (cfg_st D))) (\<lambda>(r, L).
      Inr (if r = ESP_OK then LDRV_STATUS_OK else LDRV_STATUS_ERROR, D\<lparr>cfg_st := (cfg_st D)\<lparr>ledc_st := L\<rparr>\<rparr>, k))"
  using assms
  by (simp add: LDRV_SetLedPwmFreq_def with_led_eq active_defs LDRV_CFG_SetLedSinglePwmFreq_def set_timer_freq_def
      bind_res_def ret_of_def split: sum.split)

section \<open>A new PWM LED\<close>

text \<open>
  The PWM timers are unused or run from the crystal already.
\<close>

definition xtal_available :: "ledc_env \<Rightarrow> ledc \<Rightarrow> bool" where
  "xtal_available E L \<longleftrightarrow>
     src_freq E LEDC_USE_XTAL_CLK = 40000000 \<and>
     (case p_ledc_obj L of
        None \<Rightarrow> obj_alloc E
      | Some ob \<Rightarrow> glb_clk ob = None \<or> glb_clk ob = Some LEDC_USE_XTAL_CLK \<and> apb_clk_sel L = Some LEDC_USE_XTAL_CLK)"

lemma default_divisor:
  "ledc_calculate_divisor 40000000 1000 (push_bit 8 1) = Inr 40000" "\<not> LEDC_IS_DIV_INVALID 40000"
  "(40000 :: u32) AND 0x3FFFF = 40000"
  by (simp_all add: ledc_calculate_divisor_def LEDC_IS_DIV_INVALID_def LEDC_LL_FRACTIONAL_MAX_def
      LEDC_TIMER_DIV_NUM_MAX_def)

lemma ldrv_timer_exact:
  assumes "xtal_available E L" and "t < LEDC_TIMER_MAX"
  shows "\<exists>L'. ledc_timer_config E (ldrv_timer t) L = Inr (ESP_OK, L') \<and> timer_on_xtal E t L' \<and>
    clock_divider (timer_regs L' t) = 40000 \<and> s_ledc_fade_rec L' = s_ledc_fade_rec L \<and> channel_regs L' = channel_regs L"
proof (cases "p_ledc_obj L")
  case None
  with assms default_divisor show ?thesis
    by (simp add: xtal_available_def ledc_timer_config_def ldrv_timer_def LDRV_DEFAULT_FREQ_HZ_def
        LDRV_DEFAULT_DUTY_RES_def LEDC_TIMER_BIT_MAX_def ledc_speed_mode_ctx_create_def ledc_set_timer_div_def
        ledc_choose_divisor_def ledc_timer_set_def ledc_timer_rst_def ledc_timer_resume_def timer_on_xtal_def
        upd_obj_def upd_timer_def)
next
  case (Some ob)
  with assms default_divisor show ?thesis
    by (auto simp: xtal_available_def ledc_timer_config_def ldrv_timer_def LDRV_DEFAULT_FREQ_HZ_def
        LDRV_DEFAULT_DUTY_RES_def LEDC_TIMER_BIT_MAX_def ledc_speed_mode_ctx_create_def ledc_set_timer_div_def
        ledc_choose_divisor_def ledc_timer_set_def ledc_timer_rst_def ledc_timer_resume_def timer_on_xtal_def
        upd_obj_def upd_timer_def)
qed

text \<open>
  The channel configuration of a new LED, once the PWM object exists: the duty and the timer of the
  channel are programmed, its output is enabled and started, and the pin carries its signal.
\<close>

lemma channel_config_exact:
  assumes "ledc_calm L" and "may_block k portMAX_DELAY" and "p_ledc_obj L \<noteq> None"
    and "cc_channel conf < LEDC_CHANNEL_MAX" and "cc_timer_sel conf < LEDC_TIMER_MAX"
    and "GPIO_IS_VALID_OUTPUT_GPIO (cc_gpio_num conf)" and "cc_hpoint conf = 0" and "uint (cc_duty conf) \<le> 16384"
  shows "\<exists>L'. ledc_channel_config E e conf k L g = Inr (ESP_OK, L', ledc_set_pin_raw (cc_gpio_num conf) (cc_channel conf) g, k) \<and>
    drop_bit 4 (duty (channel_regs L' (cc_channel conf))) = cc_duty conf \<and>
    timer_sel (channel_regs L' (cc_channel conf)) = cc_timer_sel conf \<and> sig_out_en (channel_regs L' (cc_channel conf)) \<and>
    timer_regs L' = timer_regs L \<and> p_ledc_obj L' = p_ledc_obj L \<and> apb_clk_sel L' = apb_clk_sel L"
proof -
  let ?c = "cc_channel conf"
  from assms(3) obtain ob where ob: "p_ledc_obj L = Some ob" by blast
  define L3 where "L3 = ledc_duty_config ?c 0 (sint (cc_duty conf)) LEDC_DUTY_DIR_INCREASE 1 1 0 (quieted ?c L)"
  have "ledc_set_duty_with_hpoint e ?c (cc_duty conf) 0 k L = Inr (ESP_OK, L3, k)"
    using assms(4) ob acquire_release_calm [OF assms(1,2), of e ?c 0 "sint (cc_duty conf)" LEDC_DUTY_DIR_INCREASE 1 1 0
        "\<lambda>L3 k2. Inr (ESP_OK, L3, k2)"]
    by (simp add: ledc_set_duty_with_hpoint_def L3_def)
  moreover have "p_ledc_obj L3 = Some ob" "timer_regs L3 = timer_regs L" "apb_clk_sel L3 = apb_clk_sel L"
    using ob by (simp_all add: L3_def ledc_duty_config_def upd_channel_def)
  moreover have "drop_bit 4 (duty (channel_regs L3 ?c)) = cc_duty conf"
    unfolding L3_def using assms(8) by (rule programmed_duty)
  ultimately show ?thesis
    using assms(4-7) ob
    by (simp add: ledc_channel_config_def Let_def ledc_speed_mode_ctx_create_def ledc_update_duty_def
        ledc_bind_channel_timer_def ledc_enable_intr_type_def upd_channel_def)
qed

lemma setup_pwm_exact:
  assumes "ledc_calm (ledc_st S)" and "may_block k portMAX_DELAY" and "xtal_available E (ledc_st S)"
    and "led_channel cfg < LEDC_CHANNEL_MAX" and "led_timer cfg < LEDC_TIMER_MAX"
    and "GPIO_IS_VALID_OUTPUT_GPIO (uint (pwm_gpio_num cfg))"
  shows "\<exists>S'. LDRV_CFG_SetupLedSinglePwm E e cfg k S = Inr (LDRV_CFG_STATUS_OK, S', k) \<and>
    gpio_st S' = ledc_set_pin_raw (uint (pwm_gpio_num cfg)) (led_channel cfg) (gpio_st S) \<and>
    shown_duty (led_channel cfg) S' = (if pwm_active_level cfg = LDRV_CFG_ACTIVE_LOW then 255 else 0) \<and>
    timer_sel (channel_regs (ledc_st S') (led_channel cfg)) = led_timer cfg \<and>
    sig_out_en (channel_regs (ledc_st S') (led_channel cfg)) \<and>
    timer_on_xtal E (led_timer cfg) (ledc_st S') \<and> clock_divider (timer_regs (ledc_st S') (led_timer cfg)) = 40000"
proof -
  from ldrv_timer_exact [OF assms(3,5)] obtain L where
    L: "ledc_timer_config E (ldrv_timer (led_timer cfg)) (ledc_st S) = Inr (ESP_OK, L)" "timer_on_xtal E (led_timer cfg) L"
    "clock_divider (timer_regs L (led_timer cfg)) = 40000" "s_ledc_fade_rec L = s_ledc_fade_rec (ledc_st S)" by blast
  have calm: "ledc_calm L" using assms(1) ledc_calm_cong [OF L(4)] by simp
  have ob: "p_ledc_obj L \<noteq> None" using L(2) by (auto simp: timer_on_xtal_def split: option.splits)
  show ?thesis
    using channel_config_exact [OF calm assms(2) ob, of "\<lparr>cc_gpio_num = uint (pwm_gpio_num cfg), cc_channel = led_channel cfg,
         cc_timer_sel = led_timer cfg, cc_intr_fade_end = False,
         cc_duty = (if pwm_active_level cfg = LDRV_CFG_ACTIVE_LOW then LDRV_CFG_MAX_PWM_DUTY else LDRV_CFG_MIN_PWM_DUTY),
         cc_hpoint = 0\<rparr>" E e "gpio_st S"] assms(4-6) L
    by (auto simp: LDRV_CFG_SetupLedSinglePwm_def setup_channel_def shown_duty_def level_duty_def timer_on_xtal_def
        LDRV_CFG_MAX_PWM_DUTY_def LDRV_CFG_MIN_PWM_DUTY_def)
qed

section \<open>Fades\<close>

text \<open>A fade beyond the timer's range is rejected before anything changes.\<close>

lemma fade_channel_rejects:
  assumes "c < LEDC_CHANNEL_MAX" and "p_ledc_obj (ledc_st S) \<noteq> None" and "s_ledc_fade_isr_handle (ledc_st S)"
    and "s_ledc_fade_rec (ledc_st S) c \<noteq> None" and "ledc_get_max_duty c (ledc_st S) < target"
  shows "fade_channel E e c target ms k S = Inr (LDRV_CFG_STATUS_ERROR, S, k)"
  using assms
  by (auto simp: fade_channel_def ledc_set_fade_time_and_start_def ledc_fade_channel_init_check_def)

lemma max_duty_8bit:
  "duty_resolution (timer_regs L (timer_sel (channel_regs L c))) = LDRV_DEFAULT_DUTY_RES \<Longrightarrow> ledc_get_max_duty c L = 256"
  by (simp add: ledc_get_max_duty_def LDRV_DEFAULT_DUTY_RES_def)

section \<open>A concrete driver\<close>

definition demo_single :: LDRV_CFG_Single_Config_t where
  "demo_single = \<lparr>gpio_num = 4, led_active_level = LDRV_CFG_ACTIVE_LOW\<rparr>"

definition demo_pwm :: LDRV_CFG_Single_Pwm_Config_t where
  "demo_pwm = \<lparr>pwm_gpio_num = 5, pwm_active_level = LDRV_CFG_ACTIVE_LOW, led_timer = 0, led_channel = 0\<rparr>"

definition demo_rgb :: LDRV_CFG_Rgb_Config_t where
  "demo_rgb = \<lparr>red_gpio_num = 6, green_gpio_num = 7, blue_gpio_num = 8,
     rgb_active_level = LDRV_CFG_ACTIVE_HIGH, rgb_timer = 0, red_channel = 2, green_channel = 3, blue_channel = 4\<rparr>"

definition demo_info :: "LDRV_Led_Type_t \<Rightarrow> LDRV_LED_Info_t" where
  "demo_info ty = \<lparr>led_type = ty, active_flag = True, single_config = demo_single,
     single_pwm_config = demo_pwm, rgb_config = demo_rgb\<rparr>"

definition demo_ldrv :: ldrv where
  "demo_ldrv = \<lparr>cfg_st = \<lparr>ldrv_mutex_handle = demo_mutex, ledc_st = demo_ledc, gpio_st = demo_gpio\<rparr>,
     led_table = map demo_info [LDRV_LED_TYPE_SINGLE, LDRV_LED_TYPE_SINGLE_PWM, LDRV_LED_TYPE_RGB]\<rparr>"

definition demo_free :: LDRV_LED_Info_t where
  "demo_free = (demo_info LDRV_LED_TYPE_SINGLE)\<lparr>active_flag := False\<rparr>"

lemma demo_ledc_calm: "ledc_calm demo_ledc"
  by (simp add: ledc_calm_def demo_ledc_def binary_sem_def fresh_queue_def is_mutex_def)

lemma demo_ldrv_ready: "ldrv_ready demo_kernel demo_ldrv"
  using demo_mutex_ready demo_ledc_calm by (simp add: ldrv_ready_def demo_ldrv_def LDRV_CFG_MAX_NB_LED_def)

lemma demo_ldrv_active:
  "active_single 0 demo_single demo_ldrv" "active_pwm 1 demo_pwm demo_ldrv" "active_rgb 2 demo_rgb demo_ldrv"
  by (simp_all add: active_defs demo_ldrv_def demo_info_def LDRV_CFG_MAX_NB_LED_def)

lemma demo_channels_ready: "c < 8 \<Longrightarrow> pwm_channel_ready c demo_ldrv"
  by (simp add: pwm_channel_ready_def demo_ldrv_def demo_ledc_def LEDC_CHANNEL_MAX_def)

lemma demo_timer: "timer_on_xtal demo_ledc_env (led_timer demo_pwm) (ledc_st (cfg_st demo_ldrv))"
  by (simp add: timer_on_xtal_def demo_ledc_env_def demo_pwm_def demo_ldrv_def demo_ledc_def
      LEDC_TIMER_MAX_def LDRV_DEFAULT_DUTY_RES_def)

definition demo_fade_cfg :: LDRV_CFG_Single_Pwm_Config_t where
  "demo_fade_cfg = \<lparr>pwm_gpio_num = 5, pwm_active_level = LDRV_CFG_ACTIVE_HIGH, led_timer = 0, led_channel = 2\<rparr>"

definition demo_fader :: ldrv where
  "demo_fader = demo_ldrv\<lparr>led_table := (led_table demo_ldrv)
     [0 := (demo_info LDRV_LED_TYPE_SINGLE_PWM)\<lparr>single_pwm_config := demo_fade_cfg\<rparr>]\<rparr>"

lemma demo_fader_ready: "ldrv_ready demo_kernel demo_fader"
  using demo_ldrv_ready by (simp add: demo_fader_def ldrv_ready_def)

lemma demo_fader_active: "active_pwm 0 demo_fade_cfg demo_fader"
  by (simp add: active_defs demo_fader_def demo_ldrv_def demo_info_def LDRV_CFG_MAX_NB_LED_def)

lemma demo_fade_ready: "fade_ready demo_kernel 2 demo_ledc"
  using demo_mutex_ready
  by (simp add: fade_ready_def demo_ledc_def LEDC_CHANNEL_MAX_def LEDC_TIMER_MAX_def binary_sem_def
      fresh_queue_def is_mutex_def)

section \<open>Properties\<close>

text \<open>
  C14. After initialisation, adding LEDs of any kind in any order hands out the handles 0, 1 and 2,
  one LED each, and refuses every further LED with an error and no handle; the table then holds
  the configurations of the first three requests in their order, and every call leaves the mutex
  free and the kernel as it was.
\<close>

theorem leds_get_own_handles:
  assumes "kernel_ok k" and "length (led_table D) = LDRV_CFG_MAX_NB_LED" and "ledc_calm (ledc_st (cfg_st D))"
  shows "\<exists>D0 D1. LDRV_InitDriver (Some junk) k D = Inr (LDRV_STATUS_OK, D0, k) \<and>
    add_leds core E e xs k D0 =
      Inr (map (\<lambda>i. if i < 3 then (LDRV_STATUS_OK, Some (of_nat i)) else (LDRV_STATUS_ERROR, None))
             [0..<length xs], D1, k) \<and>
    map led_of (led_table D1) = map Some (take 3 xs) @ replicate (3 - length xs) None \<and>
    mutex_ready k (ldrv_mutex_handle (cfg_st D1))"
proof -
  from init_driver_ready [OF assms] obtain D0 where
    D0: "LDRV_InitDriver (Some junk) k D = Inr (LDRV_STATUS_OK, D0, k)" "ldrv_ready k D0"
    "map led_of (led_table D0) = replicate LDRV_CFG_MAX_NB_LED None" by blast
  from led_slots.add_seq_from [of "(D0, k)" "[]" 3 core E e xs] D0(2,3) obtain D1 k1 where
    D1: "led_slots.add_seq core E e xs (D0, k) =
      (map (\<lambda>i. if i < 3 then Some i else None) [0..<length xs], D1, k1)" "ldrv_ready k1 D1"
    "map led_of (led_table D1) = map Some (take 3 xs) @ replicate (3 - length xs) None"
    by (auto simp: LDRV_CFG_MAX_NB_LED_def)
  from add_leds_eq [OF D0(2) D1(1)] have
    "k1 = k" "add_leds core E e xs k D0 = Inr (map (\<lambda>i. reply (if i < 3 then Some i else None)) [0..<length xs], D1, k)"
    by (simp_all add: comp_def)
  with D0(1) D1(2,3) show ?thesis by (simp add: reply_def ldrv_ready_def if_distrib cong: if_cong)
qed

theorem leds_get_own_handles_witness:
  "\<exists>D0 D1. LDRV_InitDriver (Some (\<lambda>_. 0)) demo_kernel demo_ldrv = Inr (LDRV_STATUS_OK, D0, demo_kernel) \<and>
     add_leds 0 demo_ledc_env [] [Rgb demo_rgb, Single demo_single, Single_Pwm demo_pwm, Single demo_single]
       demo_kernel D0 =
       Inr ([(LDRV_STATUS_OK, Some 0), (LDRV_STATUS_OK, Some 1), (LDRV_STATUS_OK, Some 2),
             (LDRV_STATUS_ERROR, None)], D1, demo_kernel) \<and>
     map led_of (led_table D1) = [Some (Rgb demo_rgb), Some (Single demo_single), Some (Single_Pwm demo_pwm)] \<and>
     mutex_ready demo_kernel (ldrv_mutex_handle (cfg_st D1))"
proof -
  have "kernel_ok demo_kernel" using demo_mutex_ready by (simp add: mutex_ready_def)
  moreover have "length (led_table demo_ldrv) = LDRV_CFG_MAX_NB_LED"
    by (simp add: demo_ldrv_def LDRV_CFG_MAX_NB_LED_def)
  moreover have "ledc_calm (ledc_st (cfg_st demo_ldrv))" using demo_ledc_calm by (simp add: demo_ldrv_def)
  ultimately show ?thesis
    using leds_get_own_handles [of demo_kernel demo_ldrv "\<lambda>_. 0" 0 demo_ledc_env "[]"
        "[Rgb demo_rgb, Single demo_single, Single_Pwm demo_pwm, Single demo_single]"]
    by (simp add: numeral_eq_Suc upt_rec)
qed

text \<open>
  C23. Setting the duty of a PWM LED: any requested duty is accepted and clipped to 255. An active
  high LED is then lit for that many 256ths of a period, so never for the whole of it. The inversion
  for the other level is off by one: an active low LED is lit for one 256th more than requested, and
  for the whole period at 255. At 0 either is off. Every other channel keeps its duty.
\<close>

theorem pwm_duty_lights:
  assumes "ldrv_ready k D" and "active_pwm h cfg D" and "pwm_channel_ready (led_channel cfg) D"
  shows "\<exists>D'. LDRV_SetLedSinglePwmDuty e d h k D = Inr (LDRV_STATUS_OK, D', k) \<and>
    on_time (pwm_active_level cfg) (shown_duty (led_channel cfg) (cfg_st D')) =
      (if pwm_active_level cfg = LDRV_CFG_ACTIVE_LOW \<and> d \<noteq> 0 then min (uint d) 255 + 1 else min (uint d) 255) \<and>
    (\<forall>c. c = led_channel cfg \<or> shown_duty c (cfg_st D') = shown_duty c (cfg_st D)) \<and>
    led_table D' = led_table D"
  unfolding set_pwm_duty_eq [OF assms]
  by (auto simp: shown_level_duty level_duty_on_time) (metis shown_with_duty_other)

theorem pwm_duty_lights_witness:
  "\<exists>D'. LDRV_SetLedSinglePwmDuty [] 300 1 demo_kernel demo_ldrv = Inr (LDRV_STATUS_OK, D', demo_kernel) \<and>
     on_time LDRV_CFG_ACTIVE_LOW (shown_duty 0 (cfg_st D')) = 256 \<and>
     (\<forall>c. c = 0 \<or> shown_duty c (cfg_st D') = shown_duty c (cfg_st demo_ldrv)) \<and>
     led_table D' = led_table demo_ldrv"
  using pwm_duty_lights [OF demo_ldrv_ready demo_ldrv_active(2), of "[]" 300] demo_channels_ready [of 0]
  by (simp add: demo_pwm_def)

text \<open>
  Setting the colour of an RGB LED on three different channels lights each of them by its
  clipped share, on either active level, and leaves every other channel alone.
\<close>

theorem rgb_color_lights:
  assumes "ldrv_ready k D" and "active_rgb h cfg D" and "pwm_channel_ready (red_channel cfg) D"
    and "pwm_channel_ready (green_channel cfg) D" and "pwm_channel_ready (blue_channel cfg) D"
    and "distinct [red_channel cfg, green_channel cfg, blue_channel cfg]"
  shows "\<exists>D'. LDRV_SetLedRgbColor e col h k D = Inr (LDRV_STATUS_OK, D', k) \<and>
    shown_duty (red_channel cfg) (cfg_st D') = level_duty (rgb_active_level cfg) (clip_duty (red_duty col)) \<and>
    shown_duty (green_channel cfg) (cfg_st D') = level_duty (rgb_active_level cfg) (clip_duty (green_duty col)) \<and>
    shown_duty (blue_channel cfg) (cfg_st D') = level_duty (rgb_active_level cfg) (clip_duty (blue_duty col)) \<and>
    (\<forall>c. c \<in> set [red_channel cfg, green_channel cfg, blue_channel cfg] \<or>
         shown_duty c (cfg_st D') = shown_duty c (cfg_st D))"
  unfolding set_rgb_color_eq [OF assms(1-5)]
  using assms(6) by (auto simp: shown_level_duty shown_with_duty_other) (metis shown_with_duty_other)

theorem rgb_color_lights_witness:
  "\<exists>D'. LDRV_SetLedRgbColor [] \<lparr>red_duty = 300, green_duty = 0, blue_duty = 7\<rparr> 2 demo_kernel demo_ldrv =
       Inr (LDRV_STATUS_OK, D', demo_kernel) \<and>
     shown_duty 2 (cfg_st D') = 255 \<and> shown_duty 3 (cfg_st D') = 0 \<and> shown_duty 4 (cfg_st D') = 7"
  using rgb_color_lights [OF demo_ldrv_ready demo_ldrv_active(3), of "[]" "\<lparr>red_duty = 300, green_duty = 0, blue_duty = 7\<rparr>"]
    demo_channels_ready [of 2] demo_channels_ready [of 3] demo_channels_ready [of 4]
  by (simp add: demo_rgb_def level_duty_def clip_duty_eq) blast

text \<open>
  The state of an on/off LED follows the request only on an active high LED: the pin is driven
  high for any state but 0 whatever the active level, so that an active low LED is lit by a
  request for off and dark after a request for on.
\<close>

definition lit :: "LDRV_CFG_Active_Level_t \<Rightarrow> gpio_pin \<Rightarrow> bool" where
  "lit level p \<longleftrightarrow> out_level p = (level = LDRV_CFG_ACTIVE_HIGH)"

theorem single_state_ignores_level:
  assumes "ldrv_ready k D" and "active_single h cfg D" and "GPIO_IS_VALID_OUTPUT_GPIO (uint (gpio_num cfg))"
    and "led_active_level cfg \<noteq> LDRV_CFG_ACTIVE_INVALID"
  shows "\<exists>D'. LDRV_SetLedSingleState st h k D = Inr (LDRV_STATUS_OK, D', k) \<and>
    out_level (pins (gpio_st (cfg_st D')) (unat (gpio_num cfg))) = (st \<noteq> 0) \<and>
    lit (led_active_level cfg) (pins (gpio_st (cfg_st D')) (unat (gpio_num cfg))) =
      (if led_active_level cfg = LDRV_CFG_ACTIVE_HIGH then st \<noteq> 0 else st = 0) \<and>
    (\<forall>n. n = unat (gpio_num cfg) \<or> pins (gpio_st (cfg_st D')) n = pins (gpio_st (cfg_st D)) n)"
proof -
  have st: "1 \<le> st \<longleftrightarrow> st \<noteq> 0" by (simp add: word_le_nat_alt unat_gt_0 Suc_le_eq)
  have "led_active_level cfg = LDRV_CFG_ACTIVE_HIGH \<or> led_active_level cfg = LDRV_CFG_ACTIVE_LOW"
    using assms(4) by (cases "led_active_level cfg") simp_all
  then show ?thesis
    using assms(1-3)
    by (auto simp: LDRV_SetLedSingleState_def with_led_eq active_defs LDRV_CFG_SetLedSingleState_def
        gpio_set_level_def level_of_def ret_of_def lit_def st unsigned_eq_0_iff nat_uint_eq Let_def)
qed

theorem single_state_ignores_level_witness:
  "\<exists>D'. LDRV_SetLedSingleState 1 0 demo_kernel demo_ldrv = Inr (LDRV_STATUS_OK, D', demo_kernel) \<and>
     \<not> lit LDRV_CFG_ACTIVE_LOW (pins (gpio_st (cfg_st D')) 4)"
proof -
  have "GPIO_IS_VALID_OUTPUT_GPIO (uint (gpio_num demo_single))"
    using valid_gpio_iff [of 4] by (simp add: demo_single_def valid_output_eq valid_mask_bits)
  with single_state_ignores_level [OF demo_ldrv_ready demo_ldrv_active(1), of 1] show ?thesis
    by (auto simp: demo_single_def)
qed

text \<open>
  The frequency of a PWM LED survives the two conversions between frequencies and divisors: on
  the 40 MHz crystal with the driver's 8-bit duties, every frequency from 153 to 6324 Hz is
  accepted and read back exactly.
\<close>

theorem pwm_frequency_round_trip:
  assumes "ldrv_ready k D" and "active_pwm h cfg D" and "timer_on_xtal E (led_timer cfg) (ledc_st (cfg_st D))"
    and "153 \<le> unat f" and "unat f \<le> 6324"
  shows "\<exists>D'. LDRV_SetLedPwmFreq E f h k D = Inr (LDRV_STATUS_OK, D', k) \<and>
    LDRV_GetLedPwmFreq E h True k D' = Inr (LDRV_STATUS_OK, Some f, D', k)"
proof -
  from set_freq_on_xtal [OF assms(3-5)] obtain L where
    L: "ledc_set_freq E (led_timer cfg) f (ledc_st (cfg_st D)) = Inr (ESP_OK, L)" "timer_on_xtal E (led_timer cfg) L"
    "clock_divider (timer_regs L (led_timer cfg)) = of_nat (xtal_divisor (unat f))"
    "s_ledc_fade_rec L = s_ledc_fade_rec (ledc_st (cfg_st D))" by blast
  let ?D = "D\<lparr>cfg_st := (cfg_st D)\<lparr>ledc_st := L\<rparr>\<rparr>"
  have "ldrv_ready k ?D" using assms(1) ledc_calm_cong [OF L(4)] by (simp add: ldrv_ready_def)
  moreover have "active_pwm h cfg ?D" using assms(2) by (simp add: active_pwm_def)
  ultimately have "LDRV_GetLedPwmFreq E h True k ?D = Inr (LDRV_STATUS_OK, Some f, ?D, k)"
    using get_freq_on_xtal [OF L(2) assms(4,5) L(3)] by (intro get_pwm_freq_eq) simp_all
  then show ?thesis using set_pwm_freq_eq [OF assms(1,2), of E f] L(1) by simp
qed

theorem pwm_frequency_round_trip_witness:
  "\<exists>D'. LDRV_SetLedPwmFreq demo_ledc_env 4321 1 demo_kernel demo_ldrv = Inr (LDRV_STATUS_OK, D', demo_kernel) \<and>
     LDRV_GetLedPwmFreq demo_ledc_env 1 True demo_kernel D' = Inr (LDRV_STATUS_OK, Some 4321, D', demo_kernel)"
  by (rule pwm_frequency_round_trip [OF demo_ldrv_ready demo_ldrv_active(2) demo_timer, of 4321]) simp_all

text \<open>
  A frequency request of 0 Hz, or of any multiple of \<^verbatim>\<open>2^24\<close> Hz, is not rejected: the product of
  frequency and precision wraps to 0 and the driver divides by it.
\<close>

theorem pwm_frequency_fault:
  assumes "ldrv_ready k D" and "active_pwm h cfg D" and "timer_on_xtal E (led_timer cfg) (ledc_st (cfg_st D))"
    and "2 ^ 24 dvd unat f"
  shows "LDRV_SetLedPwmFreq E f h k D = Inl Div_by_zero"
  using set_pwm_freq_eq [OF assms(1,2)] freq_fault [OF assms(3,4)] by simp

theorem pwm_frequency_fault_witness: "LDRV_SetLedPwmFreq demo_ledc_env 0 1 demo_kernel demo_ldrv = Inl Div_by_zero"
  by (rule pwm_frequency_fault [OF demo_ldrv_ready demo_ldrv_active(2) demo_timer]) simp

text \<open>
  C37. Fading a PWM LED: any requested duty is accepted, and if the hardware moves the duty as
  documented the LED ends, after finitely many interrupts, at the clipped duty for its active level.
\<close>

theorem pwm_fade_completes:
  assumes "ldrv_ready k D" and "active_pwm h cfg D" and "fade_ready k (led_channel cfg) (ledc_st (cfg_st D))"
    and "duty_resolution (timer_regs (ledc_st (cfg_st D)) (timer_sel (channel_regs (ledc_st (cfg_st D)) (led_channel cfg))))
         = LDRV_DEFAULT_DUTY_RES"
    and "fades_as_documented hw"
  shows "\<exists>D' n L. LDRV_FadeLedSinglePwmDuty E e d ms h k D = Inr (LDRV_STATUS_OK, D', k) \<and>
    fade_interrupts hw (led_channel cfg) n (ledc_st (cfg_st D')) = Inr L \<and>
    fade_done (led_channel cfg) (level_duty (pwm_active_level cfg) (clip_duty d)) L"
proof -
  let ?t = "level_duty (pwm_active_level cfg) (clip_duty d)"
  have "?t \<le> ledc_get_max_duty (led_channel cfg) (ledc_st (cfg_st D))"
    using max_duty_8bit [OF assms(4)] level_duty_bound by (simp add: word_le_def)
  from fade_starts [OF assms(3) this, of E e ms] obtain L1 where
    L1: "ledc_set_fade_time_and_start E e (led_channel cfg) ?t ms LEDC_FADE_NO_WAIT k (ledc_st (cfg_st D)) =
      Inr (ESP_OK, L1, k)" "fading (led_channel cfg) L1"
    "target_duty (the (s_ledc_fade_rec L1 (led_channel cfg))) = ?t" by blast
  from fade_terminates [OF assms(5) L1(2)] L1(3) obtain n L2 where
    "fade_interrupts hw (led_channel cfg) n L1 = Inr L2" "fade_done (led_channel cfg) ?t L2" by auto
  with L1(1) assms(1,2) show ?thesis
    by (auto simp: LDRV_FadeLedSinglePwmDuty_def with_led_eq active_defs LDRV_CFG_FadeLedSinglePwmDuty_def
        fade_channel_def ret_of_def Let_def)
qed

theorem pwm_fade_completes_witness:
  "\<exists>D' n L. LDRV_FadeLedSinglePwmDuty demo_ledc_env [] 1000 500 0 demo_kernel demo_fader =
       Inr (LDRV_STATUS_OK, D', demo_kernel) \<and>
     fade_interrupts (\<lambda>r. word_of_int (leg_value r)) 2 n (ledc_st (cfg_st D')) = Inr L \<and> fade_done 2 255 L"
proof -
  have "fades_as_documented (\<lambda>r. word_of_int (leg_value r))"
    unfolding fades_as_documented_def by (auto intro!: word_of_int_inverse [OF refl])
  with pwm_fade_completes [OF demo_fader_ready demo_fader_active, of _ demo_ledc_env "[]" 1000 500] demo_fade_ready
  show ?thesis
    by (simp add: demo_fader_def demo_fade_cfg_def demo_ldrv_def demo_ledc_def LDRV_DEFAULT_DUTY_RES_def
        level_duty_def clip_duty_eq)
qed

text \<open>
  Fading an RGB LED does not clip its duties as setting its colour does: a colour with a red
  duty above 256 is refused on an active high LED, although the same colour can be set.
\<close>

theorem rgb_fade_refuses_unclipped:
  assumes "ldrv_ready k D" and "active_rgb h cfg D" and "rgb_active_level cfg = LDRV_CFG_ACTIVE_HIGH"
    and "pwm_channel_ready (red_channel cfg) D" and "pwm_channel_ready (green_channel cfg) D"
    and "pwm_channel_ready (blue_channel cfg) D" and "s_ledc_fade_isr_handle (ledc_st (cfg_st D))"
    and "s_ledc_fade_rec (ledc_st (cfg_st D)) (red_channel cfg) \<noteq> None"
    and "duty_resolution (timer_regs (ledc_st (cfg_st D)) (timer_sel (channel_regs (ledc_st (cfg_st D)) (red_channel cfg))))
         = LDRV_DEFAULT_DUTY_RES"
    and "256 < red_duty col"
  shows "LDRV_FadeLedRgbColor E e col ms h k D = Inr (LDRV_STATUS_ERROR, D, k) \<and>
    (\<exists>D'. LDRV_SetLedRgbColor e col h k D = Inr (LDRV_STATUS_OK, D', k))"
proof -
  have "fade_channel E e (red_channel cfg) (red_duty col) ms k (cfg_st D) = Inr (LDRV_CFG_STATUS_ERROR, cfg_st D, k)"
    using assms(4,7-10) max_duty_8bit [OF assms(9)] by (intro fade_channel_rejects) (simp_all add: pwm_channel_ready_def)
  then show ?thesis
    using assms(1-3) set_rgb_color_eq [OF assms(1,2,4-6)]
    by (simp add: LDRV_FadeLedRgbColor_def with_led_eq active_defs LDRV_CFG_FadeLedRgbColor_def level_duty_def
        ret_of_def Let_def)
qed

theorem rgb_fade_refuses_unclipped_witness:
  "LDRV_FadeLedRgbColor demo_ledc_env [] \<lparr>red_duty = 300, green_duty = 0, blue_duty = 0\<rparr> 500 2 demo_kernel demo_ldrv =
     Inr (LDRV_STATUS_ERROR, demo_ldrv, demo_kernel) \<and>
   (\<exists>D'. LDRV_SetLedRgbColor [] \<lparr>red_duty = 300, green_duty = 0, blue_duty = 0\<rparr> 2 demo_kernel demo_ldrv =
      Inr (LDRV_STATUS_OK, D', demo_kernel))"
  using demo_channels_ready [of 2] demo_channels_ready [of 3] demo_channels_ready [of 4]
  by (intro rgb_fade_refuses_unclipped [OF demo_ldrv_ready demo_ldrv_active(3)])
    (simp_all add: demo_rgb_def demo_ldrv_def demo_ledc_def LDRV_DEFAULT_DUTY_RES_def)

text \<open>
  A PWM LED added to a driver with a free slot, on a valid pin, channel and timer, gets the first
  free slot and runs at once: its channel is enabled on its timer, its pin carries the channel's
  signal, the timer runs from the crystal at 1000 Hz, and the LED is dark. An active low LED is an
  exception: it is lit for 1 of the 256 parts of the period.
\<close>

theorem added_pwm_led_runs:
  assumes "ldrv_ready k D" and "i < LDRV_CFG_MAX_NB_LED" and "\<not> active_flag (led_table D ! i)"
    and "\<forall>j<i. active_flag (led_table D ! j)" and "xtal_available E (ledc_st (cfg_st D))"
    and "led_channel cfg < LEDC_CHANNEL_MAX" and "led_timer cfg < LEDC_TIMER_MAX"
    and "GPIO_IS_VALID_OUTPUT_GPIO (uint (pwm_gpio_num cfg))"
  shows "\<exists>D'. LDRV_AddLedSinglePwm E e cfg k D = Inr (LDRV_STATUS_OK, Some (of_nat i), D', k) \<and>
    ldrv_ready k D' \<and> active_pwm (of_nat i) cfg D' \<and> pwm_channel_ready (led_channel cfg) D' \<and>
    timer_sel (channel_regs (ledc_st (cfg_st D')) (led_channel cfg)) = led_timer cfg \<and>
    sig_out_en (channel_regs (ledc_st (cfg_st D')) (led_channel cfg)) \<and>
    matrix_out (pins (gpio_st (cfg_st D')) (unat (pwm_gpio_num cfg))) = Some (LEDC_LS_SIG_OUT0_IDX + led_channel cfg) \<and>
    LDRV_GetLedPwmFreq E (of_nat i) True k D' = Inr (LDRV_STATUS_OK, Some 1000, D', k) \<and>
    on_time (pwm_active_level cfg) (shown_duty (led_channel cfg) (cfg_st D')) =
      (if pwm_active_level cfg = LDRV_CFG_ACTIVE_LOW then 1 else 0)"
proof -
  from add_request_state [OF assms(1-4), of undefined E e "Single_Pwm cfg"] obtain D' h S2 k' where
    add: "LDRV_AddLedSinglePwm E e cfg k D = Inr (LDRV_STATUS_OK, Some (of_nat i), D', k)" and rdy: "ldrv_ready k D'"
    and tab: "led_table D' = (led_table D)[i := stored (Single_Pwm cfg) (led_table D ! i)]" and mb: "may_block k' portMAX_DELAY"
    and S2: "LDRV_CFG_SetupLedSinglePwm E e cfg k' ((cfg_st D)\<lparr>ldrv_mutex_handle := h\<rparr>) = Inr (LDRV_CFG_STATUS_OK, S2, k')"
    and same: "ledc_st (cfg_st D') = ledc_st S2" "gpio_st (cfg_st D') = gpio_st S2"
    by (auto simp: add_request_def setup_of_def)
  have act: "active_pwm (of_nat i) cfg D'"
    using assms(1,2) tab by (auto simp: active_pwm_def ldrv_ready_def LDRV_CFG_MAX_NB_LED_def unat_of_nat)
  have calm: "ledc_calm (ledc_st ((cfg_st D)\<lparr>ldrv_mutex_handle := h\<rparr>))" using assms(1) by (simp add: ldrv_ready_def)
  from setup_pwm_exact [OF calm mb, of E cfg e] assms(5-8) S2 have
    g: "gpio_st S2 = ledc_set_pin_raw (uint (pwm_gpio_num cfg)) (led_channel cfg) (gpio_st (cfg_st D))"
    and d: "shown_duty (led_channel cfg) S2 = (if pwm_active_level cfg = LDRV_CFG_ACTIVE_LOW then 255 else 0)"
    and t: "timer_sel (channel_regs (ledc_st S2) (led_channel cfg)) = led_timer cfg"
      "sig_out_en (channel_regs (ledc_st S2) (led_channel cfg))" "timer_on_xtal E (led_timer cfg) (ledc_st S2)"
      "clock_divider (timer_regs (ledc_st S2) (led_timer cfg)) = 40000" by auto
  have "ledc_get_freq E (led_timer cfg) (ledc_st (cfg_st D')) = Inr 1000"
    using t(3,4) by (intro get_freq_on_xtal) (simp_all add: same xtal_divisor_def)
  from get_pwm_freq_eq [OF rdy act this] have "LDRV_GetLedPwmFreq E (of_nat i) True k D' = Inr (LDRV_STATUS_OK, Some 1000, D', k)" .
  moreover have "pwm_channel_ready (led_channel cfg) D'"
    using assms(6) t(3) by (auto simp: pwm_channel_ready_def same timer_on_xtal_def split: option.splits)
  moreover have "on_time (pwm_active_level cfg) (shown_duty (led_channel cfg) (cfg_st D')) =
      (if pwm_active_level cfg = LDRV_CFG_ACTIVE_LOW then 1 else 0)"
    using d by (simp add: on_time_def shown_duty_def same)
  ultimately show ?thesis using add rdy act t(1,2) g by (auto simp: same ledc_set_pin_raw_def upd_pin_def nat_uint_eq)
qed

theorem added_pwm_led_runs_witness:
  "\<exists>D'. LDRV_AddLedSinglePwm demo_ledc_env [] demo_pwm demo_kernel (demo_ldrv\<lparr>led_table := replicate 3 demo_free\<rparr>) =
      Inr (LDRV_STATUS_OK, Some 0, D', demo_kernel) \<and>
    LDRV_GetLedPwmFreq demo_ledc_env 0 True demo_kernel D' = Inr (LDRV_STATUS_OK, Some 1000, D', demo_kernel)"
proof -
  have "ldrv_ready demo_kernel (demo_ldrv\<lparr>led_table := replicate 3 demo_free\<rparr>)"
    using demo_ldrv_ready by (simp add: ldrv_ready_def LDRV_CFG_MAX_NB_LED_def)
  moreover have "xtal_available demo_ledc_env (ledc_st (cfg_st (demo_ldrv\<lparr>led_table := replicate 3 demo_free\<rparr>)))"
    by (simp add: xtal_available_def demo_ledc_env_def demo_ldrv_def demo_ledc_def)
  moreover have "led_channel demo_pwm < LEDC_CHANNEL_MAX" "led_timer demo_pwm < LEDC_TIMER_MAX"
    "GPIO_IS_VALID_OUTPUT_GPIO (uint (pwm_gpio_num demo_pwm))"
    by (simp_all add: demo_pwm_def LEDC_CHANNEL_MAX_def LEDC_TIMER_MAX_def GPIO_IS_VALID_OUTPUT_GPIO_def
      SOC_GPIO_VALID_OUTPUT_GPIO_MASK_def SOC_GPIO_VALID_GPIO_MASK_def)
  ultimately have "\<exists>D'. LDRV_AddLedSinglePwm demo_ledc_env [] demo_pwm demo_kernel
      (demo_ldrv\<lparr>led_table := replicate 3 demo_free\<rparr>) = Inr (LDRV_STATUS_OK, Some (of_nat 0), D', demo_kernel) \<and>
    LDRV_GetLedPwmFreq demo_ledc_env (of_nat 0) True demo_kernel D' = Inr (LDRV_STATUS_OK, Some 1000, D', demo_kernel)"
    using added_pwm_led_runs [of demo_kernel "demo_ldrv\<lparr>led_table := replicate 3 demo_free\<rparr>" 0 demo_ledc_env demo_pwm "[]"]
    by (simp add: LDRV_CFG_MAX_NB_LED_def demo_free_def) blast
  then show ?thesis by simp
qed

end
