(* ===== verification/AdcDriver.thy ===== *)
theory AdcDriver
  imports Prelude
begin

text \<open>
  The ADC drivers of the SDK as the ESP32-S3 build has them: the locks and reference counts shared
  by the modes (\<^verbatim>\<open>esp_hw_support/adc_share_hw_ctrl.c\<close>, \<^verbatim>\<open>sar_periph_ctrl.c\<close>), the one-shot mode
  (\<^verbatim>\<open>esp_adc/adc_oneshot.c\<close>) and the continuous mode (\<^verbatim>\<open>esp_adc/adc_continuous.c\<close>). Driver contexts live
  in a heap of their own: a handle is an address, and using a context after it was freed is a fault.
  The configuration of the pads and the register writes of a start are left out. The conversions
  the hardware delivers are an input: a conversion that never comes keeps the caller waiting.
\<close>

section \<open>State\<close>

record adc_oneshot_unit_ctx_t =
  unit_id :: nat
  chan_configs :: "nat \<Rightarrow> u32 option"

datatype adc_fsm_t = ADC_FSM_INIT | ADC_FSM_STARTED

record adc_digi_pattern_config_t =
  pat_atten :: u32
  pat_channel :: nat
  pat_unit :: nat
  pat_bit_width :: nat

record adc_continuous_ctx_t =
  adc_fsm :: adc_fsm_t
  ringbuf_size :: u32
  conv_frame_size :: u32
  use_adc1 :: bool
  adc1_atten :: u32
  adc_pattern :: "adc_digi_pattern_config_t list"
  sample_freq_hz :: u32
  on_conv_done :: bool
  on_pool_ovf :: bool

record adc_hw =
  units :: "nat \<Rightarrow> adc_oneshot_unit_ctx_t option"
  s_adc_unit_claimed :: "nat \<Rightarrow> bool"
  apb_periph_ref_cnts :: int
  ctxs :: "nat \<Rightarrow> adc_continuous_ctx_t option"
  adc1_lock :: bool
  s_adc_digi_ctrlr_cnt :: int
  s_sar_power_on_cnt :: int
  conversions :: "int list"

definition SOC_ADC_PERIPH_NUM :: nat where "SOC_ADC_PERIPH_NUM = 2"
definition SOC_ADC_CHANNEL_NUM :: nat where "SOC_ADC_CHANNEL_NUM = 10"
definition SOC_ADC_ATTEN_NUM :: u32 where "SOC_ADC_ATTEN_NUM = 4"
definition SOC_ADC_RTC_BITWIDTH :: nat where "SOC_ADC_RTC_BITWIDTH = 12"
definition SOC_ADC_DIGI_BITWIDTH :: nat where "SOC_ADC_DIGI_BITWIDTH = 12"
definition SOC_ADC_PATT_LEN_MAX :: nat where "SOC_ADC_PATT_LEN_MAX = 24"
definition SOC_ADC_DIGI_DATA_BYTES_PER_CONV :: u32 where "SOC_ADC_DIGI_DATA_BYTES_PER_CONV = 4"
definition SOC_ADC_SAMPLE_FREQ_THRES_HIGH :: u32 where "SOC_ADC_SAMPLE_FREQ_THRES_HIGH = 83333"
definition SOC_ADC_SAMPLE_FREQ_THRES_LOW :: u32 where "SOC_ADC_SAMPLE_FREQ_THRES_LOW = 611"

section \<open>Shared resources\<close>

definition adc_apb_periph_claim :: "adc_hw \<Rightarrow> adc_hw" where
  "adc_apb_periph_claim H = H\<lparr>s_adc_digi_ctrlr_cnt := s_adc_digi_ctrlr_cnt H + 1\<rparr>"

text \<open>Both counters abort the program below zero.\<close>

definition adc_apb_periph_free :: "adc_hw \<Rightarrow> adc_hw res" where
  "adc_apb_periph_free H =
     assert_res (s_adc_digi_ctrlr_cnt H - 1 \<ge> 0) (Inr (H\<lparr>s_adc_digi_ctrlr_cnt := s_adc_digi_ctrlr_cnt H - 1\<rparr>))"

definition sar_power_acquire :: "adc_hw \<Rightarrow> adc_hw" where
  "sar_power_acquire H = H\<lparr>s_sar_power_on_cnt := s_sar_power_on_cnt H + 1\<rparr>"

definition sar_power_release :: "adc_hw \<Rightarrow> adc_hw res" where
  "sar_power_release H =
     assert_res (s_sar_power_on_cnt H - 1 \<ge> 0) (Inr (H\<lparr>s_sar_power_on_cnt := s_sar_power_on_cnt H - 1\<rparr>))"

text \<open>The lock of unit 1; an acquisition while the lock is held waits for a release by somebody else.\<close>

definition adc_lock_acquire :: "adc_hw \<Rightarrow> adc_hw res" where
  "adc_lock_acquire H = (if adc1_lock H then Inl Blocked_forever else Inr (H\<lparr>adc1_lock := True\<rparr>))"

definition adc_lock_try_acquire :: "adc_hw \<Rightarrow> esp_err \<times> adc_hw" where
  "adc_lock_try_acquire H = (if adc1_lock H then (ESP_ERR_TIMEOUT, H) else (ESP_OK, H\<lparr>adc1_lock := True\<rparr>))"

definition adc_lock_release :: "adc_hw \<Rightarrow> adc_hw" where
  "adc_lock_release H = H\<lparr>adc1_lock := False\<rparr>"

section \<open>One-shot mode\<close>

definition live_unit :: "adc_hw \<Rightarrow> nat \<Rightarrow> adc_oneshot_unit_ctx_t res" where
  "live_unit H a = (case units H a of None \<Rightarrow> Inl Use_after_free | Some u \<Rightarrow> Inr u)"

text \<open>
  The first argument is the address the allocator returns. The handle is stored through the out
  pointer on success only; the query of the default clock cannot fail.
\<close>

definition adc_oneshot_new_unit :: "nat option \<Rightarrow> nat \<Rightarrow> adc_hw \<Rightarrow> esp_err \<times> nat option \<times> adc_hw" where
  "adc_oneshot_new_unit a unit H =
     (if \<not> unit < SOC_ADC_PERIPH_NUM then (ESP_ERR_INVALID_ARG, None, H)
      else case a of
        None \<Rightarrow> (ESP_ERR_NO_MEM, None, H)
      | Some p \<Rightarrow>
          if s_adc_unit_claimed H unit then (ESP_ERR_NOT_FOUND, None, H)
          else let H1 = H\<lparr>s_adc_unit_claimed := (s_adc_unit_claimed H)(unit := True),
                          units := (units H)(p \<mapsto> \<lparr>unit_id = unit, chan_configs = (\<lambda>_. None)\<rparr>),
                          apb_periph_ref_cnts := apb_periph_ref_cnts H + 1\<rparr>;
                   H2 = (if apb_periph_ref_cnts H1 = 1 then adc_apb_periph_claim H1 else H1)
               in (ESP_OK, Some p, sar_power_acquire H2))"

definition adc_oneshot_config_channel ::
  "nat option \<Rightarrow> nat \<Rightarrow> u32 \<Rightarrow> nat \<Rightarrow> adc_hw \<Rightarrow> (esp_err \<times> adc_hw) res" where
  "adc_oneshot_config_channel h chan atten bitwidth H =
     (case h of
        None \<Rightarrow> Inr (ESP_ERR_INVALID_ARG, H)
      | Some a \<Rightarrow>
          if \<not> atten < SOC_ADC_ATTEN_NUM then Inr (ESP_ERR_INVALID_ARG, H)
          else if bitwidth \<noteq> SOC_ADC_RTC_BITWIDTH \<and> bitwidth \<noteq> 0 then Inr (ESP_ERR_INVALID_ARG, H)
          else bind_res (live_unit H a) (\<lambda>u.
               if \<not> chan < SOC_ADC_CHANNEL_NUM then Inr (ESP_ERR_INVALID_ARG, H)
               else Inr (ESP_OK, H\<lparr>units := (units H)(a \<mapsto> u\<lparr>chan_configs := (chan_configs u)(chan \<mapsto> atten)\<rparr>)\<rparr>)))"

text \<open>Waits for the end of the conversion and returns its result.\<close>

definition adc_oneshot_hal_convert :: "adc_hw \<Rightarrow> (int \<times> adc_hw) res" where
  "adc_oneshot_hal_convert H =
     (case conversions H of [] \<Rightarrow> Inl Blocked_forever | v # vs \<Rightarrow> Inr (v, H\<lparr>conversions := vs\<rparr>))"

text \<open>The value stored through the out pointer is the second component.\<close>

definition adc_oneshot_read :: "nat option \<Rightarrow> nat \<Rightarrow> adc_hw \<Rightarrow> (esp_err \<times> int option \<times> adc_hw) res" where
  "adc_oneshot_read h chan H =
     (case h of
        None \<Rightarrow> Inr (ESP_ERR_INVALID_ARG, None, H)
      | Some a \<Rightarrow>
          bind_res (live_unit H a) (\<lambda>u.
          if \<not> chan < SOC_ADC_CHANNEL_NUM then Inr (ESP_ERR_INVALID_ARG, None, H)
          else let (r, H1) = adc_lock_try_acquire H in
               if r \<noteq> ESP_OK then Inr (ESP_ERR_TIMEOUT, None, H1)
               else bind_res (adc_oneshot_hal_convert H1) (\<lambda>(v, H2).
                    Inr (ESP_OK, Some v, adc_lock_release H2))))"

text \<open>
  On this chip the reference count of the shared clock is not decremented when a unit is deleted.
\<close>

definition adc_oneshot_del_unit :: "nat option \<Rightarrow> adc_hw \<Rightarrow> (esp_err \<times> adc_hw) res" where
  "adc_oneshot_del_unit h H =
     (case h of
        None \<Rightarrow> Inr (ESP_ERR_INVALID_ARG, H)
      | Some a \<Rightarrow>
          bind_res (live_unit H a) (\<lambda>u.
          if \<not> s_adc_unit_claimed H (unit_id u) then Inr (ESP_ERR_NOT_FOUND, H)
          else bind_res (sar_power_release
                 (H\<lparr>s_adc_unit_claimed := (s_adc_unit_claimed H)(unit_id u := False), units := (units H)(a := None)\<rparr>))
                 (\<lambda>H1. Inr (ESP_OK, H1))))"

section \<open>Continuous mode\<close>

definition live_ctx :: "adc_hw \<Rightarrow> nat \<Rightarrow> adc_continuous_ctx_t res" where
  "live_ctx H a = (case ctxs H a of None \<Rightarrow> Inl Use_after_free | Some u \<Rightarrow> Inr u)"

definition adc_continuous_deinit :: "nat option \<Rightarrow> adc_hw \<Rightarrow> (esp_err \<times> adc_hw) res" where
  "adc_continuous_deinit h H =
     (case h of
        None \<Rightarrow> Inr (ESP_ERR_INVALID_STATE, H)
      | Some a \<Rightarrow>
          bind_res (live_ctx H a) (\<lambda>c.
          if adc_fsm c \<noteq> ADC_FSM_INIT then Inr (ESP_ERR_INVALID_STATE, H)
          else bind_res (adc_apb_periph_free (H\<lparr>ctxs := (ctxs H)(a := None)\<rparr>)) (\<lambda>H1. Inr (ESP_OK, H1))))"

text \<open>
  The allocations of a new handle: the address of the context, and whether its buffers,
  descriptors and DMA channel were obtained (the source ignores the result of connecting that
  channel to the converter). A failure after the context's is cleaned up by
  \<^verbatim>\<open>adc_continuous_deinit\<close>, which releases a clock reference that was not taken.
\<close>

definition adc_continuous_new_handle ::
  "nat option \<Rightarrow> bool \<Rightarrow> esp_err \<Rightarrow> u32 \<Rightarrow> u32 \<Rightarrow> adc_hw \<Rightarrow> (esp_err \<times> nat option \<times> adc_hw) res" where
  "adc_continuous_new_handle a buffers dma max_store_buf_size frame_size H =
     (if frame_size mod SOC_ADC_DIGI_DATA_BYTES_PER_CONV \<noteq> 0 then Inr (ESP_ERR_INVALID_ARG, None, H)
      else case a of
        None \<Rightarrow> Inr (ESP_ERR_NO_MEM, None, H)
      | Some p \<Rightarrow>
          let H1 = H\<lparr>ctxs := (ctxs H)(p \<mapsto> \<lparr>adc_fsm = ADC_FSM_INIT, ringbuf_size = max_store_buf_size,
                       conv_frame_size = frame_size, use_adc1 = False, adc1_atten = 0, adc_pattern = [],
                       sample_freq_hz = 0, on_conv_done = False, on_pool_ovf = False\<rparr>)\<rparr>
          in if \<not> buffers
             then bind_res (adc_continuous_deinit (Some p) H1) (\<lambda>(_, H2). Inr (ESP_ERR_NO_MEM, None, H2))
             else if dma \<noteq> ESP_OK
             then bind_res (adc_continuous_deinit (Some p) H1) (\<lambda>(_, H2). Inr (dma, None, H2))
             else Inr (ESP_OK, Some p, adc_apb_periph_claim H1))"

text \<open>All patterns of a unit must agree in their attenuation; \<^term>\<open>None\<close> is the error.\<close>

fun common_atten :: "u32 option \<Rightarrow> adc_digi_pattern_config_t list \<Rightarrow> u32 option option" where
  "common_atten at [] = Some at"
| "common_atten at (p # ps) =
     (case at of
        None \<Rightarrow> common_atten (Some (pat_atten p)) ps
      | Some v \<Rightarrow> if v \<noteq> pat_atten p then None else common_atten at ps)"

text \<open>The data format is the one this chip requires.\<close>

definition adc_continuous_config ::
  "nat option \<Rightarrow> adc_digi_pattern_config_t list \<Rightarrow> u32 \<Rightarrow> adc_hw \<Rightarrow> (esp_err \<times> adc_hw) res" where
  "adc_continuous_config h patterns freq H =
     (case h of
        None \<Rightarrow> Inr (ESP_ERR_INVALID_STATE, H)
      | Some a \<Rightarrow>
          bind_res (live_ctx H a) (\<lambda>c.
          if adc_fsm c \<noteq> ADC_FSM_INIT then Inr (ESP_ERR_INVALID_STATE, H)
          else if \<not> length patterns \<le> SOC_ADC_PATT_LEN_MAX then Inr (ESP_ERR_INVALID_ARG, H)
          else if \<not> (\<forall>p \<in> set patterns. pat_bit_width p \<ge> SOC_ADC_DIGI_BITWIDTH \<and>
                        pat_bit_width (hd patterns) \<le> SOC_ADC_DIGI_BITWIDTH)
          then Inr (ESP_ERR_INVALID_ARG, H)
          else if \<not> (\<forall>p \<in> set patterns. pat_unit p = 0) then Inr (ESP_ERR_INVALID_ARG, H)
          else if \<not> (freq \<le> SOC_ADC_SAMPLE_FREQ_THRES_HIGH \<and> freq \<ge> SOC_ADC_SAMPLE_FREQ_THRES_LOW)
          then Inr (ESP_ERR_INVALID_ARG, H)
          else let c1 = c\<lparr>adc_pattern := patterns, sample_freq_hz := freq, use_adc1 := patterns \<noteq> [],
                          adc1_atten := (case patterns of [] \<Rightarrow> 999 | p # _ \<Rightarrow> pat_atten p)\<rparr>;
                   H1 = H\<lparr>ctxs := (ctxs H)(a \<mapsto> c1)\<rparr>
               in if common_atten None patterns = None then Inr (ESP_ERR_INVALID_ARG, H1) else Inr (ESP_OK, H1)))"

definition adc_continuous_register_event_callbacks ::
  "nat option \<Rightarrow> bool \<Rightarrow> bool \<Rightarrow> adc_hw \<Rightarrow> (esp_err \<times> adc_hw) res" where
  "adc_continuous_register_event_callbacks h conv_done pool_ovf H =
     (case h of
        None \<Rightarrow> Inr (ESP_ERR_INVALID_ARG, H)
      | Some a \<Rightarrow>
          bind_res (live_ctx H a) (\<lambda>c.
          if adc_fsm c \<noteq> ADC_FSM_INIT then Inr (ESP_ERR_INVALID_STATE, H)
          else Inr (ESP_OK, H\<lparr>ctxs := (ctxs H)(a \<mapsto> c\<lparr>on_conv_done := conv_done, on_pool_ovf := pool_ovf\<rparr>)\<rparr>)))"

definition adc_continuous_start :: "nat option \<Rightarrow> adc_hw \<Rightarrow> (esp_err \<times> adc_hw) res" where
  "adc_continuous_start h H =
     (case h of
        None \<Rightarrow> Inr (ESP_ERR_INVALID_STATE, H)
      | Some a \<Rightarrow>
          bind_res (live_ctx H a) (\<lambda>c.
          if adc_fsm c \<noteq> ADC_FSM_INIT then Inr (ESP_ERR_INVALID_STATE, H)
          else let H1 = sar_power_acquire (H\<lparr>ctxs := (ctxs H)(a \<mapsto> c\<lparr>adc_fsm := ADC_FSM_STARTED\<rparr>)\<rparr>) in
               if use_adc1 c then bind_res (adc_lock_acquire H1) (\<lambda>H2. Inr (ESP_OK, H2))
               else Inr (ESP_OK, H1)))"

definition adc_continuous_stop :: "nat option \<Rightarrow> adc_hw \<Rightarrow> (esp_err \<times> adc_hw) res" where
  "adc_continuous_stop h H =
     (case h of
        None \<Rightarrow> Inr (ESP_ERR_INVALID_STATE, H)
      | Some a \<Rightarrow>
          bind_res (live_ctx H a) (\<lambda>c.
          if adc_fsm c \<noteq> ADC_FSM_STARTED then Inr (ESP_ERR_INVALID_STATE, H)
          else let H1 = H\<lparr>ctxs := (ctxs H)(a \<mapsto> c\<lparr>adc_fsm := ADC_FSM_INIT\<rparr>)\<rparr>;
                   H2 = (if use_adc1 c then adc_lock_release H1 else H1)
               in bind_res (sar_power_release H2) (\<lambda>H3. Inr (ESP_OK, H3))))"

text \<open>
  The interrupt for finished frames: each comes with its bytes and with whether the pool took it.
  The result lists the calls of the registered callback: the frame, or nothing (a null buffer of
  size 0) when the pool overflowed.
\<close>

datatype adc_event = Conv_done "u8 list" | Pool_ovf

fun adc_dma_intr :: "adc_continuous_ctx_t \<Rightarrow> (u8 list \<times> bool) list \<Rightarrow> adc_event list" where
  "adc_dma_intr c [] = []"
| "adc_dma_intr c ((frame, ret) # fs) =
     (if on_conv_done c then [Conv_done frame] else []) @
     (if \<not> ret \<and> on_pool_ovf c then [Pool_ovf] else []) @ adc_dma_intr c fs"

end
