(* ===== verification/AdcCali.thy ===== *)
theory AdcCali
  imports Prelude
begin

text \<open>
  The calibration of ADC readings by curve fitting (\<^verbatim>\<open>esp_adc/adc_cali.c\<close>,
  \<^verbatim>\<open>adc_cali_curve_fitting.c\<close>, \<^verbatim>\<open>esp32s3/curve_fitting_coefficients.c\<close>,
  \<^verbatim>\<open>efuse/esp32s3/esp_efuse_rtc_calib.c\<close>) for unit 1, at the width of the C types. What the factory burnt
  into the chip's fuses is an input.
\<close>

section \<open>Fuses\<close>

record efuse =
  blk_version_major :: u32
  cal_vol_diff :: "nat \<Rightarrow> u32"

definition esp_efuse_rtc_calib_get_ver :: "efuse \<Rightarrow> nat" where
  "esp_efuse_rtc_calib_get_ver F = (if blk_version_major F = 1 then 1 else 0)"

text \<open>The reading of the reference voltage of 850 mV, by attenuation (unit 1).\<close>

definition adc1_vol :: "efuse \<Rightarrow> nat \<Rightarrow> u32" where
  "adc1_vol F atten =
     (let v3 = cal_vol_diff F 3 + 900;
          v2 = cal_vol_diff F 2 + v3 + 800;
          v1 = cal_vol_diff F 1 + v2 + 700;
          v0 = cal_vol_diff F 0 + v1 + 800
      in if atten = 0 then v0 else if atten = 1 then v1 else if atten = 2 then v2 else v3)"

definition esp_efuse_rtc_calib_get_cal_voltage :: "efuse \<Rightarrow> nat \<Rightarrow> nat \<Rightarrow> esp_err \<times> u32 \<times> u32" where
  "esp_efuse_rtc_calib_get_cal_voltage F version atten =
     (if version \<noteq> 1 then (ESP_ERR_INVALID_ARG, 0, 0)
      else if atten \<ge> 4 then (ESP_ERR_INVALID_ARG, 0, 0)
      else (ESP_OK, adc1_vol F atten, 850))"

section \<open>Curve fitting\<close>

record cali_chars_second_step_t =
  coeff :: "(u64 \<times> u64) list"
  sign_of :: "int list"

record cali_chars_curve_fitting_t =
  coeff_a :: u32
  chars_second_step :: cali_chars_second_step_t

definition coeff_a_scaling :: u32 where "coeff_a_scaling = 65536"

definition adc1_error_coef_atten :: "nat \<Rightarrow> (u64 \<times> u64) list" where
  "adc1_error_coef_atten atten =
     (if atten = 0 then
        [(27856531419538344, 10000000000000000), (50871540569528, 10000000000000000), (9798249589, 1000000000000000)]
      else if atten = 1 then
        [(29831022915028695, 10000000000000000), (49393185868806, 10000000000000000), (101379430548, 10000000000000000)]
      else if atten = 2 then
        [(23285545746296417, 10000000000000000), (147640181047414, 10000000000000000), (208385525314, 10000000000000000)]
      else
        [(644403418269478, 1000000000000000), (644334888647536, 10000000000000000), (1297891447611, 10000000000000000),
         (70769718, 1000000000000000), (13515, 1000000000000000)])"

definition adc1_error_sign :: "nat \<Rightarrow> int list" where
  "adc1_error_sign atten = (if atten \<le> 2 then [-1, -1, 1] else [-1, -1, 1, -1, 1])"

definition curve_fitting_get_second_step_coeff :: "nat \<Rightarrow> cali_chars_second_step_t" where
  "curve_fitting_get_second_step_coeff atten =
     \<lparr>coeff = adc1_error_coef_atten atten, sign_of = adc1_error_sign atten\<rparr>"

text \<open>The product of two 32-bit operands wraps before the division.\<close>

definition calc_first_step_coefficients :: "u32 \<Rightarrow> u32 \<Rightarrow> u32 res" where
  "calc_first_step_coefficients voltage digi =
     (if digi = 0 then Inl Div_by_zero else Inr (coeff_a_scaling * voltage div digi))"

text \<open>
  The terms are 64 bits wide, the error is summed up at 32: a term is cut to 32 bits when it is
  added, with its sign.
\<close>

fun error_terms :: "u64 \<Rightarrow> u64 \<Rightarrow> (u64 \<times> u64) list \<Rightarrow> int list \<Rightarrow> i32" where
  "error_terms v variable ((k, d) # ks) (s # ss) =
     ucast (variable * k div d) * word_of_int s + error_terms v (variable * v) ks ss"
| "error_terms v variable ks ss = 0"

definition get_reading_error :: "u64 \<Rightarrow> cali_chars_second_step_t \<Rightarrow> i32" where
  "get_reading_error v_cali_1 param =
     (if v_cali_1 = 0 \<or> coeff param = [] then 0 else error_terms v_cali_1 1 (coeff param) (sign_of param))"

definition check_valid :: "nat \<Rightarrow> u32 \<Rightarrow> nat \<Rightarrow> esp_err" where
  "check_valid unit atten bitwidth =
     (if \<not> unit < 2 then ESP_ERR_INVALID_ARG
      else if \<not> atten < 4 then ESP_ERR_INVALID_ARG
      else if bitwidth \<noteq> 12 \<and> bitwidth \<noteq> 0 then ESP_ERR_INVALID_ARG
      else ESP_OK)"

text \<open>
  Creating a scheme for unit 1; \<^term>\<open>scheme_mem\<close> and \<^term>\<open>chars_mem\<close> are the outcomes of its two
  allocations. The handle is stored on success only.
\<close>

definition adc_cali_create_scheme_curve_fitting ::
  "efuse \<Rightarrow> bool \<Rightarrow> bool \<Rightarrow> u32 \<Rightarrow> nat \<Rightarrow> (esp_err \<times> cali_chars_curve_fitting_t option) res" where
  "adc_cali_create_scheme_curve_fitting F scheme_mem chars_mem atten bitwidth =
     (let ret = check_valid 0 atten bitwidth; version = esp_efuse_rtc_calib_get_ver F in
      if ret \<noteq> ESP_OK then Inr (ret, None)
      else if version \<noteq> 1 then Inr (ESP_ERR_NOT_SUPPORTED, None)
      else if \<not> scheme_mem then Inr (ESP_ERR_NO_MEM, None)
      else if \<not> chars_mem then Inr (ESP_ERR_NO_MEM, None)
      else let (r, digi, voltage) = esp_efuse_rtc_calib_get_cal_voltage F version (unat atten) in
           assert_res (r = ESP_OK)
             (bind_res (calc_first_step_coefficients voltage digi) (\<lambda>a.
                Inr (ESP_OK, Some \<lparr>coeff_a = a,
                       chars_second_step = curve_fitting_get_second_step_coeff (unat atten)\<rparr>))))"

definition cali_raw_to_voltage :: "cali_chars_curve_fitting_t \<Rightarrow> int \<Rightarrow> int" where
  "cali_raw_to_voltage ctx raw =
     (let v_cali_1 = word_of_int raw * ucast (coeff_a ctx) div (ucast coeff_a_scaling) :: u64
      in sint (ucast v_cali_1 - get_reading_error v_cali_1 (chars_second_step ctx)))"

text \<open>The voltage is stored on success only.\<close>

definition adc_cali_raw_to_voltage ::
  "cali_chars_curve_fitting_t option \<Rightarrow> int \<Rightarrow> esp_err \<times> int option" where
  "adc_cali_raw_to_voltage h raw =
     (case h of None \<Rightarrow> (ESP_ERR_INVALID_ARG, None) | Some ctx \<Rightarrow> (ESP_OK, Some (cali_raw_to_voltage ctx raw)))"

section \<open>The error polynomial\<close>

text \<open>
  The error as the formula in the source has it, on unbounded integers: each term is
  coefficient times power, divided by its multiple and rounded down, with its sign.
\<close>

fun exact_terms :: "nat \<Rightarrow> nat \<Rightarrow> (nat \<times> nat) list \<Rightarrow> int list \<Rightarrow> int" where
  "exact_terms v x ((k, d) # ks) (s # ss) = int (x * k div d) * s + exact_terms v (x * v) ks ss"
| "exact_terms v x ks ss = 0"

text \<open>The same with the products at 64 bits, as the machine has them.\<close>

fun terms64 :: "nat \<Rightarrow> nat \<Rightarrow> (nat \<times> nat) list \<Rightarrow> int list \<Rightarrow> int" where
  "terms64 v x ((k, d) # ks) (s # ss) = int (x * k mod 2 ^ 64 div d) * s + terms64 v (x * v) ks ss"
| "terms64 v x ks ss = 0"

definition word_coeffs :: "(nat \<times> nat) list \<Rightarrow> (u64 \<times> u64) list" where
  "word_coeffs ks = map (\<lambda>(k, d). (of_nat k, of_nat d)) ks"

lemma unat_of_nat_u64: "unat (of_nat n :: u64) = n mod 2 ^ 64"
  by (simp add: unat_of_nat)

lemma div_of_nat_u64:
  "d < 2 ^ 64 \<Longrightarrow> (of_nat n div of_nat d :: u64) = of_nat (n mod 2 ^ 64 div d)"
  by (simp add: word_arith_nat_div unat_of_nat_u64)

lemma ucast_of_nat_u64:
  assumes "n < 2 ^ 64"
  shows "(ucast (of_nat n :: u64) :: i32) = of_nat n"
  using assms by (simp add: unsigned_of_nat take_bit_nat_eq_self)

lemma error_terms_terms64:
  "\<forall>(k, d) \<in> set ks. d < 2 ^ 64 \<Longrightarrow>
   error_terms (of_nat v) (of_nat x) (word_coeffs ks) ss = of_int (terms64 v x ks ss)"
proof (induction v x ks ss rule: terms64.induct)
  case (1 v x k d ks s ss)
  let ?t = "x * k mod 2 ^ 64 div d"
  have "?t < 2 ^ 64" by (rule le_less_trans [OF div_le_dividend]) simp
  moreover have "(of_nat x * of_nat k div of_nat d :: u64) = of_nat ?t"
    using 1(2) by (simp add: div_of_nat_u64 flip: of_nat_mult)
  ultimately have "(ucast (of_nat x * of_nat k div of_nat d :: u64) :: i32) = of_nat ?t"
    by (simp only: ucast_of_nat_u64)
  then show ?case using 1 by (simp add: word_coeffs_def)
qed (simp_all add: word_coeffs_def)

text \<open>No product leaves 64 bits and no term 28.\<close>

fun fits :: "nat \<Rightarrow> nat \<Rightarrow> (nat \<times> nat) list \<Rightarrow> bool" where
  "fits v x [] \<longleftrightarrow> True"
| "fits v x ((k, d) # ks) \<longleftrightarrow> x * k < 2 ^ 64 \<and> x * k div d < 2 ^ 28 \<and> fits v (x * v) ks"

lemma fits_terms64: "fits v x ks \<Longrightarrow> terms64 v x ks ss = exact_terms v x ks ss"
  by (induction v x ks ss rule: exact_terms.induct) simp_all

lemma fits_mono:
  assumes "fits V X ks" and "v \<le> V" and "x \<le> X"
  shows "fits v x ks"
  using assms
proof (induction ks arbitrary: x X)
  case (Cons kd ks)
  obtain k d where kd: "kd = (k, d)" by fastforce
  have le: "x * k \<le> X * k" "x * k div d \<le> X * k div d" "x * v \<le> X * V"
    using Cons.prems(2,3) by (simp_all add: div_le_mono mult_le_mono)
  have "X * k < 2 ^ 64" "X * k div d < 2 ^ 28" "fits V (X * V) ks"
    using Cons.prems(1) by (simp_all add: kd)
  with le_less_trans [OF le(1)] le_less_trans [OF le(2)] Cons.IH [OF _ Cons.prems(2) le(3)]
  show ?case by (simp only: kd fits.simps)
qed simp

lemma fits_bound:
  "fits v x ks \<Longrightarrow> set ss \<subseteq> {- 1, 1} \<Longrightarrow> \<bar>exact_terms v x ks ss\<bar> \<le> 2 ^ 28 * int (length ks)"
proof (induction v x ks ss rule: exact_terms.induct)
  case (1 v x k d ks s ss)
  have "int (x * k div d) < 2 ^ 28" using 1(2) by (simp del: of_nat_mult zdiv_int)
  moreover have "s = 1 \<or> s = - 1" using 1(3) by auto
  ultimately have "\<bar>int (x * k div d) * s\<bar> \<le> 2 ^ 28" by auto
  with 1 show ?case
    using abs_triangle_ineq [of "int (x * k div d) * s" "exact_terms v (x * v) ks ss"]
    by (simp add: algebra_simps)
qed simp_all

lemma sint_of_int_i32: "- (2 ^ 31) \<le> n \<Longrightarrow> n < 2 ^ 31 \<Longrightarrow> sint (of_int n :: i32) = n"
  by (simp add: signed_of_int signed_take_bit_int_eq_self)

section \<open>The coefficients of the chip\<close>

definition exact_coeffs :: "nat \<Rightarrow> (nat \<times> nat) list" where
  "exact_coeffs atten = map (\<lambda>(k, d). (unat k, unat d)) (adc1_error_coef_atten atten)"

lemma exact_coeffs_word: "word_coeffs (exact_coeffs atten) = adc1_error_coef_atten atten"
  by (induction "adc1_error_coef_atten atten")
    (simp_all add: word_coeffs_def exact_coeffs_def comp_def case_prod_unfold)

lemma exact_coeffs_less: "\<forall>(k, d) \<in> set (exact_coeffs atten). d < 2 ^ 64"
proof -
  have "unat d < 2 ^ 64" for d :: u64 using unsigned_less [of d] by simp
  then show ?thesis by (auto simp: exact_coeffs_def)
qed

lemma exact_coeffs_3:
  "exact_coeffs 3 =
     [(644403418269478, 10 ^ 15), (644334888647536, 10 ^ 16), (1297891447611, 10 ^ 16),
      (70769718, 10 ^ 15), (13515, 10 ^ 15)]"
  by (simp add: exact_coeffs_def adc1_error_coef_atten_def)

lemma length_exact_coeffs: "length (exact_coeffs atten) \<le> 5"
  by (simp add: exact_coeffs_def adc1_error_coef_atten_def)

lemma signs: "set (adc1_error_sign atten) \<subseteq> {- 1, 1}"
  by (simp add: adc1_error_sign_def)

text \<open>Up to what voltage in mV the products of an attenuation fit.\<close>

definition fitting :: "nat \<Rightarrow> nat" where
  "fitting atten = (if atten = 3 then 3769 else 9408)"

lemma exact_coeffs_fit: "atten < 4 \<Longrightarrow> fits (fitting atten) 1 (exact_coeffs atten)"
proof -
  assume "atten < 4"
  then have "atten = 0 \<or> atten = 1 \<or> atten = 2 \<or> atten = 3" by arith
  then show ?thesis
    by (auto simp: exact_coeffs_def adc1_error_coef_atten_def fitting_def)
qed

text \<open>The error at the width of the machine is the wrapped polynomial, when that is small.\<close>

lemma reading_error_terms64:
  assumes "0 < v" and "v < 2 ^ 64"
    and "\<bar>terms64 v 1 (exact_coeffs atten) (adc1_error_sign atten)\<bar> < 2 ^ 31"
  shows "sint (get_reading_error (of_nat v) (curve_fitting_get_second_step_coeff atten)) =
     terms64 v 1 (exact_coeffs atten) (adc1_error_sign atten)"
proof -
  have "(of_nat v :: u64) \<noteq> 0"
  proof
    assume "(of_nat v :: u64) = 0"
    then have "unat (of_nat v :: u64) = 0" by (simp only: unat_0)
    with assms(1,2) show False by (simp add: unat_of_nat_u64)
  qed
  moreover have "adc1_error_coef_atten atten \<noteq> []" by (simp add: adc1_error_coef_atten_def)
  moreover note error_terms_terms64 [OF exact_coeffs_less, of v 1 atten "adc1_error_sign atten"]
  ultimately have "get_reading_error (of_nat v) (curve_fitting_get_second_step_coeff atten) =
      of_int (terms64 v 1 (exact_coeffs atten) (adc1_error_sign atten))"
    by (simp add: get_reading_error_def curve_fitting_get_second_step_coeff_def exact_coeffs_word)
  then show ?thesis using assms(3) by (simp only: sint_of_int_i32)
qed

section \<open>The first wrap at 12 dB\<close>

text \<open>
  From 3770 mV to 5331 mV the product of the quadratic term is between one and two times the
  64-bit range; the products of the two higher terms still fit.
\<close>

lemma atten3_products:
  fixes v :: nat
  assumes "3770 \<le> v" and "v \<le> 5331"
  shows "2 ^ 64 \<le> v * v * 1297891447611" and "v * v * 1297891447611 < 2 ^ 65"
    and "v * v * v * 70769718 < 2 ^ 64" and "v * v * v * v * 13515 < 2 ^ 64"
proof -
  have l: "3770 * 3770 \<le> v * v" and h: "v * v \<le> 5331 * 5331" "v * v * v \<le> 5331 * 5331 * 5331"
    "v * v * v * v \<le> 5331 * 5331 * 5331 * 5331"
    using assms by (intro mult_le_mono; simp)+
  show "2 ^ 64 \<le> v * v * 1297891447611" and "v * v * 1297891447611 < 2 ^ 65"
    and "v * v * v * 70769718 < 2 ^ 64" and "v * v * v * v * 13515 < 2 ^ 64"
    using l h by simp_all
qed

lemma wrapped_quotient:
  fixes p :: nat
  assumes "2 ^ 64 \<le> p" and "p < 2 ^ 65"
  shows "p div 10 ^ 16 = p mod 2 ^ 64 div 10 ^ 16 + 1844 \<or> p div 10 ^ 16 = p mod 2 ^ 64 div 10 ^ 16 + 1845"
proof -
  have "p mod 2 ^ 64 = p - 2 ^ 64" using assms by (simp add: le_mod_geq)
  then show ?thesis using assms by simp arith
qed

lemma small_sum:
  assumes "a < 2 ^ 20" and "b < 2 ^ 20" and "c < 2 ^ 20" and "d < 2 ^ 20" and "e < 2 ^ 20"
  shows "\<bar>- int a - int b + int c - int d + int e\<bar> < 2 ^ 31"
  using assms by simp

lemma terms64_atten3:
  assumes "3770 \<le> v" and "v \<le> 5331"
  defines "e \<equiv> exact_terms v 1 (exact_coeffs 3) (adc1_error_sign 3)"
  shows "terms64 v 1 (exact_coeffs 3) (adc1_error_sign 3) \<in> {e - 1845, e - 1844}"
    and "\<bar>terms64 v 1 (exact_coeffs 3) (adc1_error_sign 3)\<bar> < 2 ^ 31"
proof -
  note p = atten3_products [OF assms(1,2)]
  let ?t = "terms64 v 1 (exact_coeffs 3) (adc1_error_sign 3)"
  let ?q = "v * v * 1297891447611"
  let ?lin = "v * 644334888647536 div 10 ^ 16" and ?cub = "v * v * v * 70769718 div 10 ^ 15"
    and ?quart = "v * v * v * v * 13515 div 10 ^ 15"
  have t: "?t = - int (644403418269478 div 10 ^ 15) - int ?lin + int (?q mod 2 ^ 64 div 10 ^ 16)
      - int ?cub + int ?quart"
    and e: "e = - int (644403418269478 div 10 ^ 15) - int ?lin + int (?q div 10 ^ 16) - int ?cub + int ?quart"
    using p(3,4) assms(2) unfolding e_def exact_coeffs_3 adc1_error_sign_def by simp_all
  show "?t \<in> {e - 1845, e - 1844}"
    using wrapped_quotient [OF p(1,2)] unfolding t e by auto
  have "?lin < 2 ^ 20" "?cub < 2 ^ 20" "?quart < 2 ^ 20" "?q mod 2 ^ 64 div 10 ^ 16 < 2 ^ 20"
    using p assms(2) by (simp_all add: div_less_iff_less_mult)
  then show "\<bar>?t\<bar> < 2 ^ 31" unfolding t by (intro small_sum) simp_all
qed

section \<open>Property\<close>

text \<open>
  C40. The correction of a voltage is exactly the polynomial of the source's comment, at 12 dB
  from 1 to 3769 mV and at the smaller attenuations from 1 to 9408 mV. At 12 dB the quadratic term
  wraps at 64 bits from 3770 mV on: the correction of every voltage from 3770 to 5331 mV is 1844 or
  1845 mV below the polynomial.
\<close>

theorem calibration_exact_below_3770:
  assumes "0 < v" and "atten < 4"
  shows "(v \<le> (if atten = 3 then 3769 else 9408) \<longrightarrow>
           sint (get_reading_error (of_nat v) (curve_fitting_get_second_step_coeff atten)) =
             exact_terms v 1 (exact_coeffs atten) (adc1_error_sign atten)) \<and>
         (atten = 3 \<and> 3770 \<le> v \<and> v \<le> 5331 \<longrightarrow>
           sint (get_reading_error (of_nat v) (curve_fitting_get_second_step_coeff atten)) \<in>
             {exact_terms v 1 (exact_coeffs atten) (adc1_error_sign atten) - 1845,
              exact_terms v 1 (exact_coeffs atten) (adc1_error_sign atten) - 1844})"
proof (intro conjI impI)
  assume v: "v \<le> (if atten = 3 then 3769 else 9408)"
  then have f: "fits v 1 (exact_coeffs atten)"
    using fits_mono [OF exact_coeffs_fit [OF assms(2)]] by (simp add: fitting_def)
  have "int (length (exact_coeffs atten)) \<le> 5" using length_exact_coeffs [of atten] by simp
  with fits_bound [OF f signs, of atten]
  have "\<bar>exact_terms v 1 (exact_coeffs atten) (adc1_error_sign atten)\<bar> < 2 ^ 31" by simp
  with reading_error_terms64 [OF assms(1), of atten] fits_terms64 [OF f] v
  show "sint (get_reading_error (of_nat v) (curve_fitting_get_second_step_coeff atten)) =
      exact_terms v 1 (exact_coeffs atten) (adc1_error_sign atten)" by (simp split: if_splits)
next
  assume v: "atten = 3 \<and> 3770 \<le> v \<and> v \<le> 5331"
  then have "v < 2 ^ 64" by simp
  with reading_error_terms64 [OF assms(1), of 3] terms64_atten3 [of v] v
  show "sint (get_reading_error (of_nat v) (curve_fitting_get_second_step_coeff atten)) \<in>
      {exact_terms v 1 (exact_coeffs atten) (adc1_error_sign atten) - 1845,
       exact_terms v 1 (exact_coeffs atten) (adc1_error_sign atten) - 1844}" by simp
qed

theorem calibration_exact_below_3770_witness:
  "sint (get_reading_error 1500 (curve_fitting_get_second_step_coeff 3)) =
      exact_terms 1500 1 (exact_coeffs 3) (adc1_error_sign 3) \<and>
   sint (get_reading_error 4000 (curve_fitting_get_second_step_coeff 3)) <
      exact_terms 4000 1 (exact_coeffs 3) (adc1_error_sign 3) - 1800"
  using calibration_exact_below_3770 [of 1500 3] calibration_exact_below_3770 [of 4000 3] by auto

end
