(* ===== verification/AdcController.thy ===== *)
theory AdcController
  imports FreeRTOS_Queue AdcDriver AdcCali
begin

text \<open>
  The ADC controller (\<^verbatim>\<open>HWI/adcController.c\<close>, \<^verbatim>\<open>.h\<close>, \<^verbatim>\<open>Config/adcController_cfg.h\<close>): one ADC unit shared by
  one-shot, time-critical and continuous sampling. The channels in use are a bit mask
  (\<^verbatim>\<open>active_ctrl_channels\<close>, 0 when the unit is free) that every operation but the time-critical read
  checks under a mutex. Channels and attenuations are the integers that the enumerations stand for.
\<close>

section \<open>Data\<close>

datatype ADC_Ctrl_Ret_t = ADC_CTRL_STATUS_FAIL | ADC_CTRL_STATUS_SUCCESS

definition ADC_CTRL_CHANNEL_INVALID :: nat where "ADC_CTRL_CHANNEL_INVALID = 7"
definition ADC_CTRL_MAX_SAMPLING_FREQ_HZ :: u32 where
  "ADC_CTRL_MAX_SAMPLING_FREQ_HZ = SOC_ADC_SAMPLE_FREQ_THRES_HIGH"
definition ADC_UNIT :: nat where "ADC_UNIT = 0"
definition ADC_BITWIDTH_12 :: nat where "ADC_BITWIDTH_12 = 12"

text \<open>Whether the pointers of a configuration (\<^verbatim>\<open>pResult\<close>, \<^verbatim>\<open>callback\<close>) are set is a flag.\<close>

record ADC_Ctrl_OneShotConfig_t =
  os_channel :: nat
  os_atten :: u32
  os_nb_sample :: u32
  os_result :: bool

record ADC_Ctrl_ContinuousConfig_t =
  co_channel_mask :: u8
  co_atten :: u32
  co_nb_sample :: u32
  co_freq_hz :: u32
  co_callback :: bool

text \<open>A mode with the configuration it points to; a null pointer is \<^term>\<open>None\<close>.\<close>

datatype adc_request =
    ADC_CTRL_MODE_ONE_SHOT "ADC_Ctrl_OneShotConfig_t option"
  | ADC_CTRL_MODE_CONTINUOUS "ADC_Ctrl_ContinuousConfig_t option"
  | ADC_CTRL_MODE_INVALID

record adc_ctrl =
  oneshot_handle :: "nat option"
  continuous_handle :: "nat option"
  active_ctrl_channels :: u32
  active_continuous_callback :: bool
  adc_mutex_handle :: QueueHandle_t
  adc :: adc_hw

text \<open>The outcomes of the allocations of one call.\<close>

record adc_alloc =
  unit_addr :: "nat option"
  ctx_addr :: "nat option"
  ctx_buffers :: bool
  ctx_dma :: esp_err

text \<open>
  The bit of a channel is 64 bits wide in the source and the set of active channels 32: it is cut
  when it is stored, and not when it is compared.
\<close>

definition channel_bit :: "nat \<Rightarrow> u64" where "channel_bit c = push_bit c 1"

lemma channel_bit_stored: "c < 32 \<Longrightarrow> ucast (ucast (channel_bit c) :: u32) = channel_bit c"
  by (rule bit_word_eqI) (auto simp: channel_bit_def bit_simps)

section \<open>The mutex\<close>

definition take_adc :: "kernel \<Rightarrow> adc_ctrl \<Rightarrow> (adc_ctrl \<times> kernel) res" where
  "take_adc k C = bind_res (mutex_take k (adc_mutex_handle C)) (\<lambda>(h, k1). Inr (C\<lparr>adc_mutex_handle := h\<rparr>, k1))"

definition give_adc :: "kernel \<Rightarrow> adc_ctrl \<Rightarrow> (adc_ctrl \<times> kernel) res" where
  "give_adc k C = bind_res (mutex_give k (adc_mutex_handle C)) (\<lambda>(h, k1). Inr (C\<lparr>adc_mutex_handle := h\<rparr>, k1))"

text \<open>The body of an operation between taking and giving the mutex; every return gives it back.\<close>

definition locked_adc ::
  "kernel \<Rightarrow> adc_ctrl \<Rightarrow> (adc_ctrl \<Rightarrow> ('r \<times> adc_ctrl) res) \<Rightarrow> ('r \<times> adc_ctrl \<times> kernel) res" where
  "locked_adc k C body =
     bind_res (take_adc k C) (\<lambda>(C1, k1).
     bind_res (body C1) (\<lambda>(r, C2).
     bind_res (give_adc k1 C2) (\<lambda>(C3, k2). Inr (r, C3, k2))))"

section \<open>Operations\<close>

definition ADC_InitController :: "alloc \<Rightarrow> kernel \<Rightarrow> adc_ctrl \<Rightarrow> (ADC_Ctrl_Ret_t \<times> adc_ctrl \<times> kernel) res" where
  "ADC_InitController a k C =
     (let C1 = C\<lparr>oneshot_handle := None, continuous_handle := None, active_ctrl_channels := 0\<rparr> in
      bind_res (xQueueCreateMutex a k) (\<lambda>(h, k1).
        let C2 = C1\<lparr>adc_mutex_handle := h\<rparr> in
        if h = None then Inr (ADC_CTRL_STATUS_FAIL, C2, k1) else Inr (ADC_CTRL_STATUS_SUCCESS, C2, k1)))"

definition new_unit :: "adc_alloc \<Rightarrow> adc_ctrl \<Rightarrow> esp_err \<times> adc_ctrl" where
  "new_unit A C =
     (let (r, h, H) = adc_oneshot_new_unit (unit_addr A) ADC_UNIT (adc C)
      in (r, C\<lparr>adc := H, oneshot_handle := (case h of None \<Rightarrow> oneshot_handle C | Some a \<Rightarrow> Some a)\<rparr>))"

definition config_channel :: "nat \<Rightarrow> u32 \<Rightarrow> adc_ctrl \<Rightarrow> (esp_err \<times> adc_ctrl) res" where
  "config_channel channel atten C =
     bind_res (adc_oneshot_config_channel (oneshot_handle C) channel atten ADC_BITWIDTH_12 (adc C))
       (\<lambda>(r, H). Inr (r, C\<lparr>adc := H\<rparr>))"

text \<open>The results of the two driver calls are not looked at.\<close>

definition setup_critical :: "adc_alloc \<Rightarrow> nat \<Rightarrow> u32 \<Rightarrow> adc_ctrl \<Rightarrow> (ADC_Ctrl_Ret_t \<times> adc_ctrl) res" where
  "setup_critical A channel atten C =
     (let free = (channel \<noteq> ADC_CTRL_CHANNEL_INVALID \<and> active_ctrl_channels C = 0) in
      if \<not> free \<and> ucast (active_ctrl_channels C) \<noteq> channel_bit channel then Inr (ADC_CTRL_STATUS_FAIL, C)
      else let C1 = (if free then C\<lparr>active_ctrl_channels := active_ctrl_channels C OR ucast (channel_bit channel)\<rparr> else C);
               C2 = snd (new_unit A C1)
           in bind_res (config_channel channel atten C2) (\<lambda>(_, C3). Inr (ADC_CTRL_STATUS_SUCCESS, C3)))"

definition ADC_SetupTimeCriticalSampling ::
  "adc_alloc \<Rightarrow> nat \<Rightarrow> u32 \<Rightarrow> kernel \<Rightarrow> adc_ctrl \<Rightarrow> (ADC_Ctrl_Ret_t \<times> adc_ctrl \<times> kernel) res" where
  "ADC_SetupTimeCriticalSampling A ctrl_channel ctrl_atten k C =
     locked_adc k C (setup_critical A ctrl_channel ctrl_atten)"

text \<open>A failed time-critical read adds 0 to the sum.\<close>

fun critical_samples :: "nat \<Rightarrow> nat option \<Rightarrow> nat \<Rightarrow> u32 \<Rightarrow> adc_hw \<Rightarrow> (u32 \<times> adc_hw) res" where
  "critical_samples 0 h channel acc H = Inr (acc, H)"
| "critical_samples (Suc n) h channel acc H =
     bind_res (adc_oneshot_read h channel H) (\<lambda>(_, v, H1).
       critical_samples n h channel (acc + word_of_int (case v of None \<Rightarrow> 0 | Some x \<Rightarrow> x)) H1)"

text \<open>The value stored through \<^verbatim>\<open>pResult\<close> is the second component.\<close>

definition ADC_StartTimeCriticalSampling ::
  "nat \<Rightarrow> u32 \<Rightarrow> bool \<Rightarrow> adc_ctrl \<Rightarrow> (ADC_Ctrl_Ret_t \<times> u16 option \<times> adc_ctrl) res" where
  "ADC_StartTimeCriticalSampling ctrl_channel nb_samples pResult C =
     (if ctrl_channel = ADC_CTRL_CHANNEL_INVALID \<or> ucast (active_ctrl_channels C) \<noteq> channel_bit ctrl_channel
      then Inr (ADC_CTRL_STATUS_FAIL, None, C)
      else bind_res (critical_samples (unat nb_samples) (oneshot_handle C) ctrl_channel 0 (adc C)) (\<lambda>(s, H).
           if nb_samples = 0 then Inl Div_by_zero
           else Inr (ADC_CTRL_STATUS_SUCCESS, if pResult then Some (ucast (s div nb_samples)) else None, C\<lparr>adc := H\<rparr>)))"

text \<open>The one-shot loop stops at the first failed read.\<close>

fun oneshot_samples :: "nat \<Rightarrow> nat option \<Rightarrow> nat \<Rightarrow> u32 \<Rightarrow> adc_hw \<Rightarrow> (u32 \<times> adc_hw) res" where
  "oneshot_samples 0 h channel acc H = Inr (acc, H)"
| "oneshot_samples (Suc n) h channel acc H =
     bind_res (adc_oneshot_read h channel H) (\<lambda>(r, v, H1).
       if r \<noteq> ESP_OK then Inr (acc, H1)
       else oneshot_samples n h channel (acc + word_of_int (case v of None \<Rightarrow> 0 | Some x \<Rightarrow> x)) H1)"

definition release :: "adc_ctrl \<Rightarrow> adc_ctrl" where
  "release C = C\<lparr>active_ctrl_channels := 0\<rparr>"

definition oneshot_sampling ::
  "adc_alloc \<Rightarrow> ADC_Ctrl_OneShotConfig_t \<Rightarrow> adc_ctrl \<Rightarrow> ((ADC_Ctrl_Ret_t \<times> u16 option) \<times> adc_ctrl) res" where
  "oneshot_sampling A cfg C =
     (let channel = os_channel cfg; n = os_nb_sample cfg in
      if channel \<ge> ADC_CTRL_CHANNEL_INVALID then Inr ((ADC_CTRL_STATUS_FAIL, None), C)
      else if active_ctrl_channels C \<noteq> 0 \<and> ucast (active_ctrl_channels C) \<noteq> channel_bit channel
      then Inr ((ADC_CTRL_STATUS_FAIL, None), C)
      else let C1 = (if active_ctrl_channels C = 0
                     then C\<lparr>active_ctrl_channels := active_ctrl_channels C OR ucast (channel_bit channel)\<rparr> else C) in
      if \<not> os_result cfg then Inr ((ADC_CTRL_STATUS_FAIL, None), release C1)
      else let (r, C2) = new_unit A C1 in
      if r \<noteq> ESP_OK then Inr ((ADC_CTRL_STATUS_FAIL, None), release C2)
      else bind_res (config_channel channel (os_atten cfg) C2) (\<lambda>(r, C3).
      if r \<noteq> ESP_OK
      then bind_res (adc_oneshot_del_unit (oneshot_handle C3) (adc C3)) (\<lambda>(_, H).
             Inr ((ADC_CTRL_STATUS_FAIL, None), (release C3)\<lparr>adc := H\<rparr>))
      else bind_res (oneshot_samples (unat n) (oneshot_handle C3) channel 0 (adc C3)) (\<lambda>(s, H).
      if n = 0 then Inl Div_by_zero
      else let result = Some (ucast (s div n)) in
           bind_res (adc_oneshot_del_unit (oneshot_handle C3) H) (\<lambda>(r, H1).
             if r \<noteq> ESP_OK then Inr ((ADC_CTRL_STATUS_FAIL, result), (release C3)\<lparr>adc := H1\<rparr>)
             else Inr ((ADC_CTRL_STATUS_SUCCESS, result), (release C3)\<lparr>adc := H1, oneshot_handle := None\<rparr>)))))"

definition mask_channels :: "u8 \<Rightarrow> nat list" where
  "mask_channels channel_mask = filter (\<lambda>i. channel_mask AND push_bit i 1 \<noteq> 0) [0..<8]"

definition continuous_sampling ::
  "adc_alloc \<Rightarrow> ADC_Ctrl_ContinuousConfig_t \<Rightarrow> adc_ctrl \<Rightarrow> ((ADC_Ctrl_Ret_t \<times> u16 option) \<times> adc_ctrl) res" where
  "continuous_sampling A cfg C =
     (let cmask = co_channel_mask cfg; nb_channel_mask = length (mask_channels cmask);
          fail = (\<lambda>C'. Inr ((ADC_CTRL_STATUS_FAIL, None), C')) in
      if cmask = 0 then fail C
      else if nb_channel_mask = 0 then fail C
      else if co_nb_sample cfg = 0 then fail C
      else if \<not> co_callback cfg then fail C
      else if co_freq_hz cfg = 0 \<or> co_freq_hz cfg > ADC_CTRL_MAX_SAMPLING_FREQ_HZ then fail C
      else if active_ctrl_channels C \<noteq> 0 \<and> active_ctrl_channels C \<noteq> ucast cmask then fail C
      else let C1 = (if active_ctrl_channels C = 0 then C\<lparr>active_ctrl_channels := ucast cmask\<rparr> else C);
               bytes = co_nb_sample cfg * SOC_ADC_DIGI_DATA_BYTES_PER_CONV * of_nat nb_channel_mask in
      bind_res (adc_continuous_new_handle (ctx_addr A) (ctx_buffers A) (ctx_dma A) bytes bytes (adc C1)) (\<lambda>(r, h, H).
      let C2 = C1\<lparr>adc := H, continuous_handle := (case h of None \<Rightarrow> continuous_handle C1 | Some a \<Rightarrow> Some a)\<rparr> in
      if r \<noteq> ESP_OK then fail (release C2)
      else let patterns = map (\<lambda>i. \<lparr>pat_atten = co_atten cfg, pat_channel = i, pat_unit = ADC_UNIT,
                                   pat_bit_width = ADC_BITWIDTH_12\<rparr>) (mask_channels cmask) in
      bind_res (adc_continuous_config (continuous_handle C2) patterns (co_freq_hz cfg) (adc C2)) (\<lambda>(r, H).
      let C3 = C2\<lparr>adc := H\<rparr> in
      if r \<noteq> ESP_OK then fail (release C3)
      else let C4 = C3\<lparr>active_continuous_callback := True\<rparr> in
      bind_res (adc_continuous_register_event_callbacks (continuous_handle C4) False True (adc C4)) (\<lambda>(r, H).
      let C5 = C4\<lparr>adc := H\<rparr> in
      if r \<noteq> ESP_OK then fail (release C5)
      else bind_res (adc_continuous_start (continuous_handle C5) (adc C5)) (\<lambda>(r, H).
      let C6 = C5\<lparr>adc := H\<rparr> in
      if r \<noteq> ESP_OK then fail (release C6)
      else Inr ((ADC_CTRL_STATUS_SUCCESS, None), C6))))))"

definition ADC_StartSampling ::
  "adc_alloc \<Rightarrow> adc_request \<Rightarrow> kernel \<Rightarrow> adc_ctrl \<Rightarrow> ((ADC_Ctrl_Ret_t \<times> u16 option) \<times> adc_ctrl \<times> kernel) res" where
  "ADC_StartSampling A req k C =
     locked_adc k C (\<lambda>C1.
       case req of
         ADC_CTRL_MODE_ONE_SHOT (Some cfg) \<Rightarrow> oneshot_sampling A cfg C1
       | ADC_CTRL_MODE_CONTINUOUS (Some cfg) \<Rightarrow> continuous_sampling A cfg C1
       | _ \<Rightarrow> Inr ((ADC_CTRL_STATUS_FAIL, None), C1))"

text \<open>
  Calibration in place. The result of creating the scheme and those of the conversions are not
  looked at: a value that was not converted becomes 0.
\<close>

definition calibrate :: "cali_chars_curve_fitting_t option \<Rightarrow> u16 \<Rightarrow> u16" where
  "calibrate h raw = word_of_int (case snd (adc_cali_raw_to_voltage h (uint raw)) of None \<Rightarrow> 0 | Some v \<Rightarrow> v)"

definition ADC_ApplyCalibration ::
  "efuse \<Rightarrow> bool \<Rightarrow> bool \<Rightarrow> nat \<Rightarrow> u32 \<Rightarrow> u16 list option \<Rightarrow> kernel \<Rightarrow> adc_ctrl \<Rightarrow>
   ((ADC_Ctrl_Ret_t \<times> u16 list option) \<times> adc_ctrl \<times> kernel) res" where
  "ADC_ApplyCalibration F scheme_mem chars_mem ctrl_channel ctrl_atten pResult k C =
     locked_adc k C (\<lambda>C1.
       if ctrl_channel \<ge> ADC_CTRL_CHANNEL_INVALID then Inr ((ADC_CTRL_STATUS_FAIL, pResult), C1)
       else case pResult of
              None \<Rightarrow> Inr ((ADC_CTRL_STATUS_FAIL, None), C1)
            | Some xs \<Rightarrow>
                bind_res (adc_cali_create_scheme_curve_fitting F scheme_mem chars_mem ctrl_atten ADC_BITWIDTH_12)
                  (\<lambda>(_, h). Inr ((ADC_CTRL_STATUS_SUCCESS, Some (map (calibrate h) xs)), C1)))"

definition ADC_ReleaseAdcController :: "u8 \<Rightarrow> kernel \<Rightarrow> adc_ctrl \<Rightarrow> (ADC_Ctrl_Ret_t \<times> adc_ctrl \<times> kernel) res" where
  "ADC_ReleaseAdcController channel_mask k C =
     locked_adc k C (\<lambda>C1.
       if channel_mask = 0 then Inr (ADC_CTRL_STATUS_FAIL, C1)
       else if active_ctrl_channels C1 \<noteq> ucast channel_mask then Inr (ADC_CTRL_STATUS_FAIL, C1)
       else let C2 = C1\<lparr>active_ctrl_channels := 0, active_continuous_callback := False\<rparr> in
            bind_res (adc_continuous_stop (continuous_handle C2) (adc C2)) (\<lambda>(_, H).
            bind_res (adc_continuous_deinit (continuous_handle C2) H) (\<lambda>(_, H1).
              Inr (ADC_CTRL_STATUS_SUCCESS, C2\<lparr>adc := H1\<rparr>))))"

definition ADC_ReleaseAdcFromCriticalSampling ::
  "nat \<Rightarrow> kernel \<Rightarrow> adc_ctrl \<Rightarrow> (ADC_Ctrl_Ret_t \<times> adc_ctrl \<times> kernel) res" where
  "ADC_ReleaseAdcFromCriticalSampling ctrl_channel k C =
     locked_adc k C (\<lambda>C1.
       if ctrl_channel \<ge> ADC_CTRL_CHANNEL_INVALID then Inr (ADC_CTRL_STATUS_FAIL, C1)
       else if ucast (active_ctrl_channels C1) \<noteq> channel_bit ctrl_channel then Inr (ADC_CTRL_STATUS_FAIL, C1)
       else bind_res (adc_oneshot_del_unit (oneshot_handle C1) (adc C1)) (\<lambda>(_, H).
              Inr (ADC_CTRL_STATUS_SUCCESS, C1\<lparr>adc := H, active_ctrl_channels := 0\<rparr>)))"

definition ADC_IsControllerAvailable :: "kernel \<Rightarrow> adc_ctrl \<Rightarrow> (bool \<times> adc_ctrl \<times> kernel) res" where
  "ADC_IsControllerAvailable k C = locked_adc k C (\<lambda>C1. Inr (active_ctrl_channels C1 = 0, C1))"

text \<open>The application's callback is called by the handler it registered, with what the event carries.\<close>

definition continuous_conv_done_callback :: "adc_ctrl \<Rightarrow> adc_event \<Rightarrow> (u8 list option \<times> nat) list" where
  "continuous_conv_done_callback C ev =
     (if active_continuous_callback C
      then [case ev of Conv_done frame \<Rightarrow> (Some frame, length frame) | Pool_ovf \<Rightarrow> (None, 0)]
      else [])"

section \<open>Bodies and the mutex\<close>

lemma adc_section:
  assumes "mutex_ready k (adc_mutex_handle C)"
  shows "\<exists>h k'. take_adc k C = Inr (C\<lparr>adc_mutex_handle := h\<rparr>, k') \<and>
    (\<forall>C'. adc_mutex_handle C' = h \<longrightarrow> give_adc k' C' = Inr (C'\<lparr>adc_mutex_handle := adc_mutex_handle C\<rparr>, k))"
proof -
  from assms obtain q t where q: "adc_mutex_handle C = Some q" and t: "pxCurrentTCB k = Some t"
    and r: "mutex_ready k (Some q)"
    by (auto simp: mutex_ready_def kernel_ok_def split: option.splits)
  show ?thesis
    using mutex_take_eq [OF r t] mutex_give_eq [OF r t] q by (auto simp: take_adc_def give_adc_def)
qed

interpretation adc_mutex: lock "\<lambda>k (C :: adc_ctrl). mutex_ready k (adc_mutex_handle C)" take_adc give_adc
proof unfold_locales
  fix k and C :: adc_ctrl
  assume "mutex_ready k (adc_mutex_handle C)"
  from adc_section [OF this] show
    "\<exists>C' k'. take_adc k C = Inr (C', k') \<and> give_adc k' C' = Inr (C, k)" by auto
qed

text \<open>A body that neither reads nor writes the mutex handle runs under the mutex as it does alone.\<close>

definition with_mutex :: "QueueHandle_t \<Rightarrow> 'r \<times> adc_ctrl \<Rightarrow> 'r \<times> adc_ctrl" where
  "with_mutex h p = (fst p, (snd p)\<lparr>adc_mutex_handle := h\<rparr>)"

definition mutex_blind :: "(adc_ctrl \<Rightarrow> ('r \<times> adc_ctrl) res) \<Rightarrow> bool" where
  "mutex_blind body \<longleftrightarrow> (\<forall>C h. body (C\<lparr>adc_mutex_handle := h\<rparr>) = map_sum id (with_mutex h) (body C))"

lemma with_mutex_pair [simp]: "with_mutex h (r, C) = (r, C\<lparr>adc_mutex_handle := h\<rparr>)"
  by (simp add: with_mutex_def)

lemma locked_adc_eq:
  assumes "mutex_ready k (adc_mutex_handle C)" and "mutex_blind body"
  shows "locked_adc k C body = bind_res (body C) (\<lambda>(r, C'). Inr (r, C', k))"
proof -
  from adc_section [OF assms(1)] obtain h k' where
    take: "take_adc k C = Inr (C\<lparr>adc_mutex_handle := h\<rparr>, k')" and
    give: "\<And>C'. adc_mutex_handle C' = h \<Longrightarrow> give_adc k' C' = Inr (C'\<lparr>adc_mutex_handle := adc_mutex_handle C\<rparr>, k)"
    by blast
  have body: "body (C\<lparr>adc_mutex_handle := g\<rparr>) = map_sum id (with_mutex g) (body C)" for g
    using assms(2) by (simp add: mutex_blind_def)
  show ?thesis
  proof (cases "body C")
    case (Inl f)
    then show ?thesis by (simp add: locked_adc_def take body)
  next
    case (Inr p)
    obtain r C' where p: "p = (r, C')" by fastforce
    have "adc_mutex_handle C' = adc_mutex_handle C"
      using body [of "adc_mutex_handle C"] by (simp add: Inr p) (metis adc_ctrl.select_convs(5) adc_ctrl.surjective adc_ctrl.update_convs(5))
    then have "C'\<lparr>adc_mutex_handle := adc_mutex_handle C\<rparr> = C'" by simp
    then show ?thesis by (simp add: locked_adc_def take body Inr p give)
  qed
qed

lemma map_sum_bind: "map_sum id g (bind_res m f) = bind_res m (\<lambda>x. map_sum id g (f x))"
  by (simp add: bind_res_def split: sum.split)

lemma bind_map_sum: "bind_res (map_sum id g m) f = bind_res m (\<lambda>x. f (g x))"
  by (simp add: bind_res_def split: sum.split)

text \<open>Updates of the other fields pass under an update of the handle.\<close>

lemma mutex_upd_swap:
  "C\<lparr>adc_mutex_handle := h, adc := x\<rparr> = C\<lparr>adc := x, adc_mutex_handle := h\<rparr>"
  "C\<lparr>adc_mutex_handle := h, oneshot_handle := a\<rparr> = C\<lparr>oneshot_handle := a, adc_mutex_handle := h\<rparr>"
  "C\<lparr>adc_mutex_handle := h, continuous_handle := a\<rparr> = C\<lparr>continuous_handle := a, adc_mutex_handle := h\<rparr>"
  "C\<lparr>adc_mutex_handle := h, active_ctrl_channels := m\<rparr> = C\<lparr>active_ctrl_channels := m, adc_mutex_handle := h\<rparr>"
  "C\<lparr>adc_mutex_handle := h, active_continuous_callback := b\<rparr> =
     C\<lparr>active_continuous_callback := b, adc_mutex_handle := h\<rparr>"
  by simp_all

lemmas blind_simps = mutex_blind_def map_sum_bind bind_map_sum prod.case_distrib [of "map_sum id (with_mutex _)"]
  if_distrib [of "map_sum id (with_mutex _)"] release_def Let_def bind_res_assoc mutex_upd_swap with_mutex_def split_def

lemma new_unit_blind: "new_unit A (C\<lparr>adc_mutex_handle := h\<rparr>) = with_mutex h (new_unit A C)"
  by (simp add: new_unit_def blind_simps split: option.split)

lemma config_channel_blind:
  "config_channel c at (C\<lparr>adc_mutex_handle := h\<rparr>) = map_sum id (with_mutex h) (config_channel c at C)"
  by (simp add: config_channel_def blind_simps)

lemma setup_critical_blind: "mutex_blind (setup_critical A c at)"
  by (auto simp: setup_critical_def blind_simps new_unit_blind config_channel_blind)

lemma oneshot_blind: "mutex_blind (oneshot_sampling A cfg)"
  by (simp add: oneshot_sampling_def blind_simps new_unit_blind config_channel_blind cong: if_cong)

lemma continuous_blind: "mutex_blind (continuous_sampling A cfg)"
  by (simp add: continuous_sampling_def blind_simps cong: if_cong option.case_cong)

section \<open>One-shot sampling\<close>

lemma read_ok:
  assumes "units H p = Some u" and "chan < SOC_ADC_CHANNEL_NUM" and "\<not> adc1_lock H" and "conversions H = v # vs"
  shows "adc_oneshot_read (Some p) chan H = Inr (ESP_OK, Some v, H\<lparr>conversions := vs\<rparr>)"
  using assms
  by (simp add: adc_oneshot_read_def live_unit_def adc_lock_try_acquire_def adc_oneshot_hal_convert_def
      adc_lock_release_def)

lemma oneshot_samples_sum:
  assumes "units H p = Some u" and "chan < SOC_ADC_CHANNEL_NUM" and "\<not> adc1_lock H"
    and "conversions H = vs @ rest" and "length vs = n"
  shows "oneshot_samples n (Some p) chan acc H = Inr (acc + word_of_int (sum_list vs), H\<lparr>conversions := rest\<rparr>)"
  using assms
proof (induction n arbitrary: H vs acc)
  case 0
  then show ?case by simp
next
  case (Suc n)
  then obtain v ws where vs: "vs = v # ws" by (cases vs) auto
  have "oneshot_samples n (Some p) chan (acc + word_of_int v) (H\<lparr>conversions := ws @ rest\<rparr>) =
      Inr (acc + word_of_int v + word_of_int (sum_list ws), H\<lparr>conversions := rest\<rparr>)"
    using Suc.IH [of "H\<lparr>conversions := ws @ rest\<rparr>" ws] Suc.prems by (simp add: vs)
  then show ?case
    using read_ok [OF Suc.prems(1-3), of v "ws @ rest"] Suc.prems(4) by (simp add: vs add.assoc)
qed

lemma sum_list_bounds:
  "\<forall>v \<in> set vs. 0 \<le> v \<and> v \<le> 4095 \<Longrightarrow> 0 \<le> sum_list vs \<and> sum_list vs \<le> 4095 * int (length vs)"
  by (induction vs) auto

text \<open>The mean of 12-bit readings is exact: the 32-bit sum does not wrap for up to a million of them.\<close>

lemma mean_exact:
  assumes "\<forall>v \<in> set vs. 0 \<le> v \<and> v \<le> 4095" and "length vs = unat n" and "unat n \<le> 1048576"
  shows "(ucast (word_of_int (sum_list vs) div n :: u32) :: u16) = word_of_int (sum_list vs div int (unat n))"
proof -
  have b: "0 \<le> sum_list vs" "sum_list vs \<le> 4095 * int (unat n)"
    using sum_list_bounds [OF assms(1)] assms(2) by simp_all
  have "int (unat n) \<le> 1048576" using assms(3) of_nat_le_iff [of "unat n" 1048576] by (simp only: of_nat_numeral)
  then have "sum_list vs < 4294967296" using b(2) by linarith
  then have s: "uint (word_of_int (sum_list vs) :: u32) = sum_list vs"
    using b(1) by (intro word_of_int_inverse [OF refl]) simp_all
  have "uint (word_of_int (sum_list vs) div n :: u32) = sum_list vs div int (unat n)"
    unfolding uint_div s by (simp only: uint_nat)
  then show ?thesis by (simp only: ucast_eq)
qed

text \<open>The controller is free and the hardware idle.\<close>

definition adc_idle :: "adc_ctrl \<Rightarrow> bool" where
  "adc_idle C \<longleftrightarrow> active_ctrl_channels C = 0 \<and> \<not> s_adc_unit_claimed (adc C) ADC_UNIT \<and> \<not> adc1_lock (adc C) \<and>
     0 \<le> s_sar_power_on_cnt (adc C) \<and> 0 \<le> s_adc_digi_ctrlr_cnt (adc C)"

definition unit_opened :: "nat \<Rightarrow> adc_hw \<Rightarrow> adc_hw" where
  "unit_opened p H = snd (snd (adc_oneshot_new_unit (Some p) ADC_UNIT H))"

lemma new_unit_ok:
  assumes "\<not> s_adc_unit_claimed (adc C) ADC_UNIT" and "unit_addr A = Some p"
  shows "new_unit A C = (ESP_OK, C\<lparr>adc := unit_opened p (adc C), oneshot_handle := Some p\<rparr>)"
  using assms
  by (simp add: new_unit_def unit_opened_def adc_oneshot_new_unit_def ADC_UNIT_def SOC_ADC_PERIPH_NUM_def Let_def)

lemma unit_opened_simps:
  assumes "\<not> s_adc_unit_claimed H ADC_UNIT"
  shows "units (unit_opened p H) = (units H)(p \<mapsto> \<lparr>unit_id = ADC_UNIT, chan_configs = (\<lambda>_. None)\<rparr>)"
    and "s_adc_unit_claimed (unit_opened p H) = (s_adc_unit_claimed H)(ADC_UNIT := True)"
    and "adc1_lock (unit_opened p H) = adc1_lock H"
    and "s_sar_power_on_cnt (unit_opened p H) = s_sar_power_on_cnt H + 1"
    and "conversions (unit_opened p H) = conversions H" and "ctxs (unit_opened p H) = ctxs H"
    and "0 \<le> s_adc_digi_ctrlr_cnt H \<Longrightarrow> 0 \<le> s_adc_digi_ctrlr_cnt (unit_opened p H)"
  using assms
  by (simp_all add: unit_opened_def adc_oneshot_new_unit_def ADC_UNIT_def SOC_ADC_PERIPH_NUM_def Let_def
      sar_power_acquire_def adc_apb_periph_claim_def)

lemma config_channel_ok:
  assumes "oneshot_handle C = Some p" and "units (adc C) p = Some u" and "chan < SOC_ADC_CHANNEL_NUM" and "at < SOC_ADC_ATTEN_NUM"
  shows "config_channel chan at C =
    Inr (ESP_OK, C\<lparr>adc := (adc C)\<lparr>units := (units (adc C))(p \<mapsto> u\<lparr>chan_configs := (chan_configs u)(chan \<mapsto> at)\<rparr>)\<rparr>\<rparr>)"
  using assms
  by (simp add: config_channel_def adc_oneshot_config_channel_def live_unit_def ADC_BITWIDTH_12_def SOC_ADC_RTC_BITWIDTH_def)

lemma del_unit_ok:
  assumes "units H p = Some u" and "unit_id u = ADC_UNIT" and "s_adc_unit_claimed H ADC_UNIT" and "0 < s_sar_power_on_cnt H"
  shows "adc_oneshot_del_unit (Some p) H =
    Inr (ESP_OK, H\<lparr>s_adc_unit_claimed := (s_adc_unit_claimed H)(ADC_UNIT := False), units := (units H)(p := None),
                  s_sar_power_on_cnt := s_sar_power_on_cnt H - 1\<rparr>)"
  using assms by (simp add: adc_oneshot_del_unit_def live_unit_def sar_power_release_def)

lemma oneshot_measures:
  assumes "adc_idle C" and "unit_addr A = Some p" and "os_channel cfg < ADC_CTRL_CHANNEL_INVALID"
    and "os_atten cfg < SOC_ADC_ATTEN_NUM" and "os_result cfg" and "os_nb_sample cfg \<noteq> 0"
    and "conversions (adc C) = vs @ rest" and "length vs = unat (os_nb_sample cfg)"
  shows "\<exists>C'. oneshot_sampling A cfg C =
      Inr ((ADC_CTRL_STATUS_SUCCESS, Some (ucast (word_of_int (sum_list vs) div os_nb_sample cfg))), C') \<and>
    adc_idle C' \<and> oneshot_handle C' = None \<and> conversions (adc C') = rest \<and> ctxs (adc C') = ctxs (adc C)"
proof -
  let ?C1 = "C\<lparr>active_ctrl_channels := active_ctrl_channels C OR ucast (channel_bit (os_channel cfg))\<rparr>"
  let ?H = "unit_opened p (adc C)"
  let ?C2 = "?C1\<lparr>adc := ?H, oneshot_handle := Some p\<rparr>"
  have idle: "active_ctrl_channels C = 0" "\<not> s_adc_unit_claimed (adc C) ADC_UNIT" "\<not> adc1_lock (adc C)"
    "0 \<le> s_sar_power_on_cnt (adc C)" "0 \<le> s_adc_digi_ctrlr_cnt (adc C)" using assms(1) by (auto simp: adc_idle_def)
  note opened = unit_opened_simps [OF idle(2)]
  have chan: "os_channel cfg < SOC_ADC_CHANNEL_NUM"
    using assms(3) by (simp add: ADC_CTRL_CHANNEL_INVALID_def SOC_ADC_CHANNEL_NUM_def)
  have new: "new_unit A ?C1 = (ESP_OK, ?C2)" using new_unit_ok [of ?C1 A p] idle(2) assms(2) by simp
  let ?u = "\<lparr>unit_id = ADC_UNIT, chan_configs = (\<lambda>_. None)(os_channel cfg \<mapsto> os_atten cfg)\<rparr>"
  let ?H3 = "?H\<lparr>units := (units ?H)(p \<mapsto> ?u)\<rparr>"
  have conf: "config_channel (os_channel cfg) (os_atten cfg) ?C2 = Inr (ESP_OK, ?C2\<lparr>adc := ?H3\<rparr>)"
    using config_channel_ok [of ?C2 p] chan assms(4) opened(1) by simp
  have samples: "oneshot_samples (unat (os_nb_sample cfg)) (Some p) (os_channel cfg) 0 ?H3 =
      Inr (word_of_int (sum_list vs), ?H3\<lparr>conversions := rest\<rparr>)"
    using oneshot_samples_sum [of ?H3 p ?u "os_channel cfg" vs rest] chan idle(3) opened assms(7,8) by simp
  have del: "adc_oneshot_del_unit (Some p) (?H3\<lparr>conversions := rest\<rparr>) = Inr (ESP_OK, (?H3\<lparr>conversions := rest\<rparr>)
      \<lparr>s_adc_unit_claimed := (s_adc_unit_claimed (adc C))(ADC_UNIT := False), units := (units (adc C))(p := None),
       s_sar_power_on_cnt := s_sar_power_on_cnt (adc C)\<rparr>)"
    using del_unit_ok [of "?H3\<lparr>conversions := rest\<rparr>" p ?u] opened idle(4) by simp
  show ?thesis
    unfolding oneshot_sampling_def Let_def
    using assms(3,5,6) idle new conf samples del opened
    by (simp add: adc_idle_def release_def)
qed

section \<open>Continuous sampling\<close>

text \<open>A configuration the controller and the driver accept.\<close>

definition continuous_ok :: "ADC_Ctrl_ContinuousConfig_t \<Rightarrow> bool" where
  "continuous_ok cfg \<longleftrightarrow>
     co_channel_mask cfg \<noteq> 0 \<and> co_nb_sample cfg \<noteq> 0 \<and> co_callback cfg \<and>
     SOC_ADC_SAMPLE_FREQ_THRES_LOW \<le> co_freq_hz cfg \<and> co_freq_hz cfg \<le> SOC_ADC_SAMPLE_FREQ_THRES_HIGH"

definition ctx_allocated :: "adc_alloc \<Rightarrow> nat \<Rightarrow> bool" where
  "ctx_allocated A p \<longleftrightarrow> ctx_addr A = Some p \<and> ctx_buffers A \<and> ctx_dma A = ESP_OK"

lemma mask_channels_nonempty:
  assumes "m \<noteq> (0 :: u8)"
  shows "mask_channels m \<noteq> []" and "length (mask_channels m) \<le> 8"
proof -
  from assms obtain i where i: "bit m i" by (auto simp: bit_eq_iff)
  then have "i < 8" using bit_imp_le_length [OF i] by simp
  moreover have "m AND push_bit i 1 \<noteq> 0" using i by (simp add: bit_iff_and_push_bit_not_eq_0)
  ultimately have "i \<in> set (mask_channels m)" by (simp add: mask_channels_def)
  then show "mask_channels m \<noteq> []" by auto
  show "length (mask_channels m) \<le> 8"
    using length_filter_le [of "\<lambda>i. m AND push_bit i 1 \<noteq> 0" "[0..<8]"] by (simp add: mask_channels_def)
qed

definition cfg_patterns :: "ADC_Ctrl_ContinuousConfig_t \<Rightarrow> adc_digi_pattern_config_t list" where
  "cfg_patterns cfg = map (\<lambda>i. \<lparr>pat_atten = co_atten cfg, pat_channel = i, pat_unit = ADC_UNIT,
                               pat_bit_width = ADC_BITWIDTH_12\<rparr>) (mask_channels (co_channel_mask cfg))"

definition frame_bytes :: "ADC_Ctrl_ContinuousConfig_t \<Rightarrow> u32" where
  "frame_bytes cfg = co_nb_sample cfg * SOC_ADC_DIGI_DATA_BYTES_PER_CONV * of_nat (length (mask_channels (co_channel_mask cfg)))"

lemma frame_bytes_mod: "frame_bytes cfg mod SOC_ADC_DIGI_DATA_BYTES_PER_CONV = 0"
proof -
  have "frame_bytes cfg = push_bit 2 (co_nb_sample cfg * of_nat (length (mask_channels (co_channel_mask cfg))))"
    by (simp add: frame_bytes_def SOC_ADC_DIGI_DATA_BYTES_PER_CONV_def push_bit_eq_mult)
  then have "take_bit 2 (frame_bytes cfg) = 0" by (simp only: take_bit_push_bit) simp
  then show ?thesis by (simp add: SOC_ADC_DIGI_DATA_BYTES_PER_CONV_def take_bit_eq_mod)
qed

definition fresh_ctx :: "ADC_Ctrl_ContinuousConfig_t \<Rightarrow> adc_continuous_ctx_t" where
  "fresh_ctx cfg = \<lparr>adc_fsm = ADC_FSM_INIT, ringbuf_size = frame_bytes cfg, conv_frame_size = frame_bytes cfg,
     use_adc1 = False, adc1_atten = 0, adc_pattern = [], sample_freq_hz = 0, on_conv_done = False, on_pool_ovf = False\<rparr>"

definition running_ctx :: "ADC_Ctrl_ContinuousConfig_t \<Rightarrow> adc_continuous_ctx_t" where
  "running_ctx cfg = (fresh_ctx cfg)\<lparr>adc_fsm := ADC_FSM_STARTED, use_adc1 := True, adc1_atten := co_atten cfg,
     adc_pattern := cfg_patterns cfg, sample_freq_hz := co_freq_hz cfg, on_pool_ovf := True\<rparr>"

lemma new_handle_ok:
  assumes "ctx_allocated A p"
  shows "adc_continuous_new_handle (ctx_addr A) (ctx_buffers A) (ctx_dma A) (frame_bytes cfg) (frame_bytes cfg) H =
    Inr (ESP_OK, Some p, H\<lparr>ctxs := (ctxs H)(p \<mapsto> fresh_ctx cfg), s_adc_digi_ctrlr_cnt := s_adc_digi_ctrlr_cnt H + 1\<rparr>)"
  using assms frame_bytes_mod [of cfg]
  by (simp add: adc_continuous_new_handle_def ctx_allocated_def fresh_ctx_def adc_apb_periph_claim_def)

lemma common_atten_replicate:
  "\<forall>p \<in> set ps. pat_atten p = v \<Longrightarrow> common_atten None ps \<noteq> None \<and> common_atten (Some v) ps \<noteq> None"
  by (induction ps) auto

lemma config_ok:
  assumes "ctxs H p = Some (fresh_ctx cfg)" and "continuous_ok cfg"
  shows "adc_continuous_config (Some p) (cfg_patterns cfg) (co_freq_hz cfg) H =
    Inr (ESP_OK, H\<lparr>ctxs := (ctxs H)(p \<mapsto> (fresh_ctx cfg)\<lparr>adc_pattern := cfg_patterns cfg, sample_freq_hz := co_freq_hz cfg,
      use_adc1 := True, adc1_atten := co_atten cfg\<rparr>)\<rparr>)"
proof -
  have ne: "cfg_patterns cfg \<noteq> []" "length (cfg_patterns cfg) \<le> SOC_ADC_PATT_LEN_MAX"
    using mask_channels_nonempty [of "co_channel_mask cfg"] assms(2)
    by (simp_all add: cfg_patterns_def continuous_ok_def SOC_ADC_PATT_LEN_MAX_def)
  have all: "\<forall>q \<in> set (cfg_patterns cfg). pat_bit_width q = 12 \<and> pat_unit q = 0 \<and> pat_atten q = co_atten cfg"
    by (auto simp: cfg_patterns_def ADC_BITWIDTH_12_def ADC_UNIT_def)
  then have hd: "pat_bit_width (hd (cfg_patterns cfg)) = 12" "pat_atten (hd (cfg_patterns cfg)) = co_atten cfg"
    using ne(1) by simp_all
  obtain q qs where q: "cfg_patterns cfg = q # qs" using ne(1) by (cases "cfg_patterns cfg") auto
  have "common_atten None (cfg_patterns cfg) \<noteq> None" using common_atten_replicate all by blast
  with assms ne all hd show ?thesis
    by (auto simp: adc_continuous_config_def live_ctx_def continuous_ok_def fresh_ctx_def SOC_ADC_DIGI_BITWIDTH_def Let_def q)
qed

text \<open>What a start has done to the controller.\<close>

definition started :: "ADC_Ctrl_ContinuousConfig_t \<Rightarrow> nat \<Rightarrow> adc_ctrl \<Rightarrow> adc_ctrl" where
  "started cfg p C = C\<lparr>active_ctrl_channels := ucast (co_channel_mask cfg), continuous_handle := Some p,
     active_continuous_callback := True,
     adc := (adc C)\<lparr>ctxs := (ctxs (adc C))(p \<mapsto> running_ctx cfg), adc1_lock := True,
       s_adc_digi_ctrlr_cnt := s_adc_digi_ctrlr_cnt (adc C) + 1, s_sar_power_on_cnt := s_sar_power_on_cnt (adc C) + 1\<rparr>\<rparr>"

lemma continuous_sampling_eq:
  assumes "continuous_ok cfg" and "ctx_allocated A p"
    and "active_ctrl_channels C = 0 \<or> active_ctrl_channels C = ucast (co_channel_mask cfg)"
  shows "continuous_sampling A cfg C =
    (if adc1_lock (adc C) then Inl Blocked_forever
     else Inr ((ADC_CTRL_STATUS_SUCCESS, None), started cfg p C))"
proof -
  have ne: "mask_channels (co_channel_mask cfg) \<noteq> []" "co_channel_mask cfg \<noteq> 0" "co_nb_sample cfg \<noteq> 0" "co_callback cfg"
    "co_freq_hz cfg \<noteq> 0" "\<not> ADC_CTRL_MAX_SAMPLING_FREQ_HZ < co_freq_hz cfg"
    using assms(1) mask_channels_nonempty
    by (auto simp: continuous_ok_def ADC_CTRL_MAX_SAMPLING_FREQ_HZ_def SOC_ADC_SAMPLE_FREQ_THRES_LOW_def)
  note new = new_handle_ok [OF assms(2), of cfg, unfolded frame_bytes_def]
  note conf = config_ok [OF _ assms(1), of _ p, unfolded cfg_patterns_def]
  show ?thesis
    using assms(3) ne
    by (auto simp: continuous_sampling_def Let_def new conf adc_continuous_register_event_callbacks_def
        adc_continuous_start_def live_ctx_def adc_lock_acquire_def sar_power_acquire_def started_def running_ctx_def
        fresh_ctx_def cfg_patterns_def)
qed

section \<open>Operations without their mutex\<close>

lemma start_oneshot_eq:
  "mutex_ready k (adc_mutex_handle C) \<Longrightarrow>
   ADC_StartSampling A (ADC_CTRL_MODE_ONE_SHOT (Some cfg)) k C =
     bind_res (oneshot_sampling A cfg C) (\<lambda>(r, C'). Inr (r, C', k))"
  using locked_adc_eq [OF _ oneshot_blind [of A cfg]] by (simp add: ADC_StartSampling_def)

lemma start_continuous_eq:
  "mutex_ready k (adc_mutex_handle C) \<Longrightarrow>
   ADC_StartSampling A (ADC_CTRL_MODE_CONTINUOUS (Some cfg)) k C =
     bind_res (continuous_sampling A cfg C) (\<lambda>(r, C'). Inr (r, C', k))"
  using locked_adc_eq [OF _ continuous_blind [of A cfg]] by (simp add: ADC_StartSampling_def)

lemma setup_critical_eq:
  "mutex_ready k (adc_mutex_handle C) \<Longrightarrow>
   ADC_SetupTimeCriticalSampling A c at k C = bind_res (setup_critical A c at C) (\<lambda>(r, C'). Inr (r, C', k))"
  using locked_adc_eq [OF _ setup_critical_blind [of A c at]] by (simp add: ADC_SetupTimeCriticalSampling_def)

lemma release_controller_eq:
  "mutex_ready k (adc_mutex_handle C) \<Longrightarrow>
   ADC_ReleaseAdcController m k C =
     (if m = 0 \<or> active_ctrl_channels C \<noteq> ucast m then Inr (ADC_CTRL_STATUS_FAIL, C, k)
      else bind_res (adc_continuous_stop (continuous_handle C) (adc C)) (\<lambda>(_, H).
           bind_res (adc_continuous_deinit (continuous_handle C) H) (\<lambda>(_, H1).
             Inr (ADC_CTRL_STATUS_SUCCESS,
                  C\<lparr>active_ctrl_channels := 0, active_continuous_callback := False, adc := H1\<rparr>, k))))"
  unfolding ADC_ReleaseAdcController_def
  by (subst locked_adc_eq) (auto simp: blind_simps cong: if_cong)

lemma release_critical_eq:
  "mutex_ready k (adc_mutex_handle C) \<Longrightarrow>
   ADC_ReleaseAdcFromCriticalSampling c k C =
     (if c \<ge> ADC_CTRL_CHANNEL_INVALID \<or> ucast (active_ctrl_channels C) \<noteq> channel_bit c then Inr (ADC_CTRL_STATUS_FAIL, C, k)
      else bind_res (adc_oneshot_del_unit (oneshot_handle C) (adc C)) (\<lambda>(_, H).
             Inr (ADC_CTRL_STATUS_SUCCESS, C\<lparr>adc := H, active_ctrl_channels := 0\<rparr>, k)))"
  unfolding ADC_ReleaseAdcFromCriticalSampling_def
  by (subst locked_adc_eq) (auto simp: blind_simps cong: if_cong)

lemma is_available_eq:
  "mutex_ready k (adc_mutex_handle C) \<Longrightarrow> ADC_IsControllerAvailable k C = Inr (active_ctrl_channels C = 0, C, k)"
  unfolding ADC_IsControllerAvailable_def by (subst locked_adc_eq) (auto simp: blind_simps)

lemma apply_calibration_eq:
  "mutex_ready k (adc_mutex_handle C) \<Longrightarrow> c < ADC_CTRL_CHANNEL_INVALID \<Longrightarrow>
   ADC_ApplyCalibration F m1 m2 c at (Some xs) k C =
     bind_res (adc_cali_create_scheme_curve_fitting F m1 m2 at ADC_BITWIDTH_12) (\<lambda>(_, h).
       Inr ((ADC_CTRL_STATUS_SUCCESS, Some (map (calibrate h) xs)), C, k))"
  unfolding ADC_ApplyCalibration_def
  by (subst locked_adc_eq) (auto simp: blind_simps cong: if_cong)

text \<open>The handler is registered for the overflow of the pool only.\<close>

lemma intr_overflow_only:
  "\<not> on_conv_done c \<Longrightarrow> set (adc_dma_intr c fs) \<subseteq> {Pool_ovf}"
  "\<not> on_conv_done c \<Longrightarrow> \<forall>f \<in> set fs. snd f \<Longrightarrow> adc_dma_intr c fs = []"
  by (induction fs) auto

lemma critical_samples_null:
  "critical_samples n None chan acc H = Inr (acc, H)"
  by (induction n arbitrary: acc) (simp_all add: adc_oneshot_read_def)

lemma create_scheme_uncalibrated:
  "blk_version_major F \<noteq> 1 \<Longrightarrow> \<exists>r. adc_cali_create_scheme_curve_fitting F m1 m2 at bw = Inr (r, None)"
  by (simp add: adc_cali_create_scheme_curve_fitting_def esp_efuse_rtc_calib_get_ver_def Let_def)

section \<open>A concrete controller\<close>

definition demo_adc :: adc_ctrl where
  "demo_adc = \<lparr>oneshot_handle = None, continuous_handle = None, active_ctrl_channels = 0,
     active_continuous_callback = False, adc_mutex_handle = demo_mutex,
     adc = \<lparr>units = (\<lambda>_. None), s_adc_unit_claimed = (\<lambda>_. False), apb_periph_ref_cnts = 0, ctxs = (\<lambda>_. None),
            adc1_lock = False, s_adc_digi_ctrlr_cnt = 0, s_sar_power_on_cnt = 0, conversions = [4000, 4095, 3001, 7]\<rparr>\<rparr>"

definition demo_alloc :: adc_alloc where
  "demo_alloc = \<lparr>unit_addr = Some 16, ctx_addr = Some 32, ctx_buffers = True, ctx_dma = ESP_OK\<rparr>"

definition demo_continuous :: ADC_Ctrl_ContinuousConfig_t where
  "demo_continuous = \<lparr>co_channel_mask = 0x0C, co_atten = 3, co_nb_sample = 100, co_freq_hz = 20000, co_callback = True\<rparr>"

lemma demo_adc_ready: "mutex_ready demo_kernel (adc_mutex_handle demo_adc)"
  using demo_mutex_ready by (simp add: demo_adc_def)

lemma demo_adc_idle: "adc_idle demo_adc"
  by (simp add: adc_idle_def demo_adc_def)

lemma demo_continuous_ok: "continuous_ok demo_continuous"
  by (simp add: continuous_ok_def demo_continuous_def SOC_ADC_SAMPLE_FREQ_THRES_LOW_def SOC_ADC_SAMPLE_FREQ_THRES_HIGH_def)

lemma demo_ctx_allocated: "ctx_allocated demo_alloc 32"
  by (simp add: ctx_allocated_def demo_alloc_def)

section \<open>Properties\<close>

text \<open>
  C13. A one-shot measurement on a free controller returns the mean of its samples, rounded down and
  without overflow for up to a million 12-bit samples, consumes exactly those conversions, and
  leaves the controller free, the unit released and the mutex and kernel as they were.
\<close>

theorem one_shot_measures_mean:
  assumes "mutex_ready k (adc_mutex_handle C)" and "adc_idle C" and "unit_addr A = Some p"
    and "os_channel cfg < ADC_CTRL_CHANNEL_INVALID" and "os_atten cfg < SOC_ADC_ATTEN_NUM" and "os_result cfg"
    and "os_nb_sample cfg \<noteq> 0" and "unat (os_nb_sample cfg) \<le> 1048576"
    and "conversions (adc C) = vs @ rest" and "length vs = unat (os_nb_sample cfg)"
    and "\<forall>v \<in> set vs. 0 \<le> v \<and> v \<le> 4095"
  shows "\<exists>C'. ADC_StartSampling A (ADC_CTRL_MODE_ONE_SHOT (Some cfg)) k C =
      Inr ((ADC_CTRL_STATUS_SUCCESS, Some (word_of_int (sum_list vs div int (unat (os_nb_sample cfg))))), C', k) \<and>
    adc_idle C' \<and> oneshot_handle C' = None \<and> conversions (adc C') = rest"
  using oneshot_measures [OF assms(2-7,9,10)] start_oneshot_eq [OF assms(1)] mean_exact [OF assms(11,10,8)] by auto

theorem one_shot_measures_mean_witness:
  "\<exists>C'. ADC_StartSampling demo_alloc
      (ADC_CTRL_MODE_ONE_SHOT (Some \<lparr>os_channel = 4, os_atten = 3, os_nb_sample = 3, os_result = True\<rparr>)) demo_kernel demo_adc =
      Inr ((ADC_CTRL_STATUS_SUCCESS, Some 3698), C', demo_kernel) \<and>
    adc_idle C' \<and> oneshot_handle C' = None \<and> conversions (adc C') = [7]"
  using one_shot_measures_mean [OF demo_adc_ready demo_adc_idle, of demo_alloc 16
      "\<lparr>os_channel = 4, os_atten = 3, os_nb_sample = 3, os_result = True\<rparr>" "[4000, 4095, 3001]" "[7]"]
  by (simp add: demo_alloc_def demo_adc_def ADC_CTRL_CHANNEL_INVALID_def SOC_ADC_ATTEN_NUM_def)

text \<open>
  C21. The controller has one owner at a time: while some channels are active, a one-shot or
  continuous request, a time-critical setup or a release for any other channels fails, and nothing
  changes; the controller reports that it is not available.
\<close>

theorem adc_exclusive:
  assumes "mutex_ready k (adc_mutex_handle C)" and "active_ctrl_channels C \<noteq> 0"
    and "ucast (active_ctrl_channels C) \<noteq> channel_bit c" and "active_ctrl_channels C \<noteq> ucast m"
    and "os_channel cfg = c" and "co_channel_mask ccfg = m"
  shows "ADC_StartSampling A (ADC_CTRL_MODE_ONE_SHOT (Some cfg)) k C = Inr ((ADC_CTRL_STATUS_FAIL, None), C, k) \<and>
    ADC_StartSampling A (ADC_CTRL_MODE_CONTINUOUS (Some ccfg)) k C = Inr ((ADC_CTRL_STATUS_FAIL, None), C, k) \<and>
    ADC_SetupTimeCriticalSampling A c at k C = Inr (ADC_CTRL_STATUS_FAIL, C, k) \<and>
    ADC_StartTimeCriticalSampling c n True C = Inr (ADC_CTRL_STATUS_FAIL, None, C) \<and>
    ADC_ReleaseAdcController m k C = Inr (ADC_CTRL_STATUS_FAIL, C, k) \<and>
    ADC_ReleaseAdcFromCriticalSampling c k C = Inr (ADC_CTRL_STATUS_FAIL, C, k) \<and>
    ADC_IsControllerAvailable k C = Inr (False, C, k)"
  using assms
  by (simp add: start_oneshot_eq start_continuous_eq setup_critical_eq release_controller_eq release_critical_eq
      is_available_eq oneshot_sampling_def continuous_sampling_def setup_critical_def ADC_StartTimeCriticalSampling_def Let_def)

theorem adc_exclusive_witness:
  "ADC_StartSampling demo_alloc (ADC_CTRL_MODE_CONTINUOUS (Some demo_continuous)) demo_kernel
     (demo_adc\<lparr>active_ctrl_channels := 2\<rparr>) =
   Inr ((ADC_CTRL_STATUS_FAIL, None), demo_adc\<lparr>active_ctrl_channels := 2\<rparr>, demo_kernel)"
  using adc_exclusive [of demo_kernel "demo_adc\<lparr>active_ctrl_channels := 2\<rparr>" 2 "0x0C"
      "\<lparr>os_channel = 2, os_atten = 3, os_nb_sample = 3, os_result = True\<rparr>" demo_continuous demo_alloc 3 1]
    demo_adc_ready
  by (simp add: channel_bit_def demo_continuous_def)

text \<open>
  C22. Continuous sampling on a free controller starts with any configuration in the driver's range,
  makes the mask the owner, and is undone by one release with the same mask: the driver's context
  is freed, its lock and its references are returned, and the controller is available again.
\<close>

theorem continuous_cycle:
  assumes "mutex_ready k (adc_mutex_handle C)" and "adc_idle C" and "continuous_ok cfg" and "ctx_allocated A p"
  shows "\<exists>C1 C2. ADC_StartSampling A (ADC_CTRL_MODE_CONTINUOUS (Some cfg)) k C =
      Inr ((ADC_CTRL_STATUS_SUCCESS, None), C1, k) \<and>
    active_ctrl_channels C1 = ucast (co_channel_mask cfg) \<and> ctxs (adc C1) p = Some (running_ctx cfg) \<and>
    adc1_lock (adc C1) \<and>
    ADC_ReleaseAdcController (co_channel_mask cfg) k C1 = Inr (ADC_CTRL_STATUS_SUCCESS, C2, k) \<and>
    adc C2 = (adc C)\<lparr>ctxs := (ctxs (adc C))(p := None)\<rparr> \<and>
    ADC_IsControllerAvailable k C2 = Inr (True, C2, k)"
proof -
  have idle: "active_ctrl_channels C = 0" "\<not> adc1_lock (adc C)" "0 \<le> s_sar_power_on_cnt (adc C)"
    "0 \<le> s_adc_digi_ctrlr_cnt (adc C)" using assms(2) by (simp_all add: adc_idle_def)
  have "ADC_StartSampling A (ADC_CTRL_MODE_CONTINUOUS (Some cfg)) k C =
      Inr ((ADC_CTRL_STATUS_SUCCESS, None), started cfg p C, k)"
    using start_continuous_eq [OF assms(1)] continuous_sampling_eq [OF assms(3,4)] idle by simp
  moreover have m: "mutex_ready k (adc_mutex_handle (started cfg p C))" using assms(1) by (simp add: started_def)
  moreover have "co_channel_mask cfg \<noteq> 0" using assms(3) by (simp add: continuous_ok_def)
  ultimately show ?thesis
    using idle assms(1)
    by (simp add: release_controller_eq is_available_eq)
      (auto simp: started_def running_ctx_def fresh_ctx_def adc_continuous_stop_def adc_continuous_deinit_def live_ctx_def
        adc_lock_release_def sar_power_release_def adc_apb_periph_free_def is_available_eq)
qed

theorem continuous_cycle_witness:
  "\<exists>C1 C2. ADC_StartSampling demo_alloc (ADC_CTRL_MODE_CONTINUOUS (Some demo_continuous)) demo_kernel demo_adc =
      Inr ((ADC_CTRL_STATUS_SUCCESS, None), C1, demo_kernel) \<and>
    active_ctrl_channels C1 = 0x0C \<and>
    ADC_ReleaseAdcController 0x0C demo_kernel C1 = Inr (ADC_CTRL_STATUS_SUCCESS, C2, demo_kernel) \<and>
    ADC_IsControllerAvailable demo_kernel C2 = Inr (True, C2, demo_kernel)"
  using continuous_cycle [OF demo_adc_ready demo_adc_idle demo_continuous_ok demo_ctx_allocated]
  by (auto simp: demo_continuous_def)

text \<open>
  Starting continuous sampling again on the channels that are being sampled is not refused: the
  call creates a second driver context and then waits, with the controller's mutex held, for the
  ADC lock that only a release of the first sampling could return.
\<close>

theorem continuous_restart_deadlocks:
  assumes "mutex_ready k (adc_mutex_handle C)" and "adc_idle C" and "continuous_ok cfg" and "ctx_allocated A p"
    and "continuous_ok cfg'" and "ctx_allocated A' p'" and "co_channel_mask cfg' = co_channel_mask cfg"
  shows "\<exists>C1. ADC_StartSampling A (ADC_CTRL_MODE_CONTINUOUS (Some cfg)) k C =
      Inr ((ADC_CTRL_STATUS_SUCCESS, None), C1, k) \<and>
    ADC_StartSampling A' (ADC_CTRL_MODE_CONTINUOUS (Some cfg')) k C1 = Inl Blocked_forever"
proof -
  have idle: "active_ctrl_channels C = 0" "\<not> adc1_lock (adc C)" using assms(2) by (simp_all add: adc_idle_def)
  have "mutex_ready k (adc_mutex_handle (started cfg p C))" using assms(1) by (simp add: started_def)
  from start_continuous_eq [OF this] continuous_sampling_eq [OF assms(5,6), of "started cfg p C"] assms(7) have
    "ADC_StartSampling A' (ADC_CTRL_MODE_CONTINUOUS (Some cfg')) k (started cfg p C) = Inl Blocked_forever"
    by (simp add: started_def)
  then show ?thesis
    using start_continuous_eq [OF assms(1)] continuous_sampling_eq [OF assms(3,4)] idle by simp
qed

theorem continuous_restart_deadlocks_witness:
  "\<exists>C1. ADC_StartSampling demo_alloc (ADC_CTRL_MODE_CONTINUOUS (Some demo_continuous)) demo_kernel demo_adc =
      Inr ((ADC_CTRL_STATUS_SUCCESS, None), C1, demo_kernel) \<and>
    ADC_StartSampling (demo_alloc\<lparr>ctx_addr := Some 48\<rparr>) (ADC_CTRL_MODE_CONTINUOUS (Some demo_continuous)) demo_kernel C1 =
      Inl Blocked_forever"
  by (rule continuous_restart_deadlocks [OF demo_adc_ready demo_adc_idle demo_continuous_ok demo_ctx_allocated
        demo_continuous_ok])
    (simp_all add: ctx_allocated_def demo_alloc_def)

text \<open>
  The callback of continuous sampling never receives samples: whatever frames the converter
  finishes and whatever the pool takes, every call carries a null buffer of size 0; and as long as
  the pool has room for the frames there is no call at all.
\<close>

theorem continuous_callback_gets_no_data:
  assumes "mutex_ready k (adc_mutex_handle C)" and "adc_idle C" and "continuous_ok cfg" and "ctx_allocated A p"
  shows "\<exists>C1 ctx. ADC_StartSampling A (ADC_CTRL_MODE_CONTINUOUS (Some cfg)) k C =
      Inr ((ADC_CTRL_STATUS_SUCCESS, None), C1, k) \<and> ctxs (adc C1) p = Some ctx \<and>
    set (concat (map (continuous_conv_done_callback C1) (adc_dma_intr ctx fs))) \<subseteq> {(None, 0)} \<and>
    ((\<forall>f \<in> set fs. snd f) \<longrightarrow> concat (map (continuous_conv_done_callback C1) (adc_dma_intr ctx fs)) = [])"
proof -
  have idle: "active_ctrl_channels C = 0" "\<not> adc1_lock (adc C)" using assms(2) by (simp_all add: adc_idle_def)
  have "ADC_StartSampling A (ADC_CTRL_MODE_CONTINUOUS (Some cfg)) k C =
      Inr ((ADC_CTRL_STATUS_SUCCESS, None), started cfg p C, k)"
    using start_continuous_eq [OF assms(1)] continuous_sampling_eq [OF assms(3,4)] idle by simp
  moreover have "ctxs (adc (started cfg p C)) p = Some (running_ctx cfg)" by (simp add: started_def)
  moreover have "\<not> on_conv_done (running_ctx cfg)" by (simp add: running_ctx_def fresh_ctx_def)
  note ev = intr_overflow_only [OF this, of fs]
  ultimately show ?thesis using ev by (fastforce simp: continuous_conv_done_callback_def)
qed

theorem continuous_callback_gets_no_data_witness:
  "\<exists>C1 ctx. ADC_StartSampling demo_alloc (ADC_CTRL_MODE_CONTINUOUS (Some demo_continuous)) demo_kernel demo_adc =
      Inr ((ADC_CTRL_STATUS_SUCCESS, None), C1, demo_kernel) \<and> ctxs (adc C1) 32 = Some ctx \<and>
    set (concat (map (continuous_conv_done_callback C1) (adc_dma_intr ctx [([1, 2], True), ([3, 4], False)]))) \<subseteq> {(None, 0)}"
  using continuous_callback_gets_no_data [OF demo_adc_ready demo_adc_idle demo_continuous_ok demo_ctx_allocated,
      of "[([1, 2], True), ([3, 4], False)]"]
  by blast

text \<open>
  Sampling frequencies from 1 to 610 Hz pass the controller's check but not the driver's: the
  request fails and the controller is free again, but the driver context it had created stays
  allocated, with its reference on the shared clock.
\<close>

theorem low_frequency_leaks:
  assumes "mutex_ready k (adc_mutex_handle C)" and "adc_idle C" and "ctx_allocated A p" and "co_channel_mask cfg \<noteq> 0"
    and "co_nb_sample cfg \<noteq> 0" and "co_callback cfg" and "co_freq_hz cfg \<noteq> 0"
    and "co_freq_hz cfg < SOC_ADC_SAMPLE_FREQ_THRES_LOW"
  shows "\<exists>C'. ADC_StartSampling A (ADC_CTRL_MODE_CONTINUOUS (Some cfg)) k C = Inr ((ADC_CTRL_STATUS_FAIL, None), C', k) \<and>
    active_ctrl_channels C' = 0 \<and> ctxs (adc C') = (ctxs (adc C))(p \<mapsto> fresh_ctx cfg) \<and>
    s_adc_digi_ctrlr_cnt (adc C') = s_adc_digi_ctrlr_cnt (adc C) + 1"
proof -
  have idle: "active_ctrl_channels C = 0" using assms(2) by (simp add: adc_idle_def)
  have f: "\<not> ADC_CTRL_MAX_SAMPLING_FREQ_HZ < co_freq_hz cfg" "\<not> SOC_ADC_SAMPLE_FREQ_THRES_LOW \<le> co_freq_hz cfg"
    using assms(8) by (auto simp: ADC_CTRL_MAX_SAMPLING_FREQ_HZ_def SOC_ADC_SAMPLE_FREQ_THRES_LOW_def
        SOC_ADC_SAMPLE_FREQ_THRES_HIGH_def dest: less_trans)
  note new = new_handle_ok [OF assms(3), of cfg, unfolded frame_bytes_def]
  show ?thesis
    using assms(4-7) idle f mask_channels_nonempty [OF assms(4)] start_continuous_eq [OF assms(1), of A cfg]
    by (auto simp: continuous_sampling_def Let_def new release_def adc_continuous_config_def live_ctx_def)
qed

theorem low_frequency_leaks_witness:
  "\<exists>C'. ADC_StartSampling demo_alloc (ADC_CTRL_MODE_CONTINUOUS (Some (demo_continuous\<lparr>co_freq_hz := 500\<rparr>)))
      demo_kernel demo_adc = Inr ((ADC_CTRL_STATUS_FAIL, None), C', demo_kernel) \<and>
    active_ctrl_channels C' = 0 \<and> ctxs (adc C') 32 \<noteq> None \<and> s_adc_digi_ctrlr_cnt (adc C') = 1"
  using low_frequency_leaks [OF demo_adc_ready demo_adc_idle demo_ctx_allocated, of "demo_continuous\<lparr>co_freq_hz := 500\<rparr>"]
  by (auto simp: demo_continuous_def SOC_ADC_SAMPLE_FREQ_THRES_LOW_def demo_adc_def)

text \<open>
  On a chip whose calibration fuses are not burnt, applying the calibration overwrites every
  reading with 0 and reports success.
\<close>

theorem uncalibrated_chip_zeroes_readings:
  assumes "mutex_ready k (adc_mutex_handle C)" and "c < ADC_CTRL_CHANNEL_INVALID" and "blk_version_major F \<noteq> 1"
  shows "ADC_ApplyCalibration F m1 m2 c at (Some xs) k C =
    Inr ((ADC_CTRL_STATUS_SUCCESS, Some (replicate (length xs) 0)), C, k)"
proof -
  from create_scheme_uncalibrated [OF assms(3)] obtain r where
    "adc_cali_create_scheme_curve_fitting F m1 m2 at ADC_BITWIDTH_12 = Inr (r, None)" by blast
  moreover have "map (calibrate None) xs = replicate (length xs) 0"
    by (induction xs) (simp_all add: calibrate_def adc_cali_raw_to_voltage_def)
  ultimately show ?thesis using apply_calibration_eq [OF assms(1,2)] by simp
qed

theorem uncalibrated_chip_zeroes_readings_witness:
  "ADC_ApplyCalibration \<lparr>blk_version_major = 0, cal_vol_diff = (\<lambda>_. 0)\<rparr> True True 4 3 (Some [1000, 2000]) demo_kernel demo_adc =
    Inr ((ADC_CTRL_STATUS_SUCCESS, Some [0, 0]), demo_adc, demo_kernel)"
  using uncalibrated_chip_zeroes_readings [OF demo_adc_ready, of 4 "\<lparr>blk_version_major = 0, cal_vol_diff = (\<lambda>_. 0)\<rparr>"
      True True 3 "[1000, 2000]"]
  by (simp add: ADC_CTRL_CHANNEL_INVALID_def numeral_2_eq_2)

text \<open>
  Time-critical sampling does not notice a unit that could not be created: after
  initialisation, with no memory for the unit, the setup reports success and every later
  measurement reports success with the value 0.
\<close>

theorem critical_sampling_unchecked:
  assumes "mutex_ready k (adc_mutex_handle C)" and "active_ctrl_channels C = 0" and "oneshot_handle C = None"
    and "unit_addr A = None" and "c < ADC_CTRL_CHANNEL_INVALID" and "n \<noteq> 0"
  shows "\<exists>C'. ADC_SetupTimeCriticalSampling A c at k C = Inr (ADC_CTRL_STATUS_SUCCESS, C', k) \<and>
    ADC_StartTimeCriticalSampling c n True C' = Inr (ADC_CTRL_STATUS_SUCCESS, Some 0, C')"
  using assms
  by (simp add: setup_critical_eq setup_critical_def new_unit_def adc_oneshot_new_unit_def config_channel_def
      adc_oneshot_config_channel_def ADC_StartTimeCriticalSampling_def critical_samples_null channel_bit_stored Let_def
      ADC_CTRL_CHANNEL_INVALID_def
      ADC_UNIT_def SOC_ADC_PERIPH_NUM_def)

theorem critical_sampling_unchecked_witness:
  "\<exists>C'. ADC_SetupTimeCriticalSampling (demo_alloc\<lparr>unit_addr := None\<rparr>) 2 3 demo_kernel demo_adc =
      Inr (ADC_CTRL_STATUS_SUCCESS, C', demo_kernel) \<and>
    ADC_StartTimeCriticalSampling 2 16 True C' = Inr (ADC_CTRL_STATUS_SUCCESS, Some 0, C')"
  by (rule critical_sampling_unchecked [OF demo_adc_ready])
    (simp_all add: demo_adc_def demo_alloc_def ADC_CTRL_CHANNEL_INVALID_def)

end
