(* ===== verification/RingBuffer.thy ===== *)
theory RingBuffer
  imports FreeRTOS_Queue
begin

text \<open>
  The ring buffers of \<^verbatim>\<open>esp_ringbuf/ringbuf.c\<close>, which the UART driver uses for received bytes (a byte
  buffer) and for data to transmit (a no-split buffer): all three kinds of buffer, their creation,
  and the sending, acquiring, receiving and returning operations for tasks and interrupts. A byte
  buffer is shown to be a queue of bytes of which a part is lent to the reader.

  Pointers into the storage are offsets from its first byte, which is aligned to a word. The five
  function pointers of the structure are chosen together from the type of the buffer and never
  changed: the type stands for them. A buffer in a queue set is not modelled.
\<close>

section \<open>Data\<close>

datatype RingbufferType_t = RINGBUF_TYPE_NOSPLIT | RINGBUF_TYPE_ALLOWSPLIT | RINGBUF_TYPE_BYTEBUF

record Ringbuffer_t =
  xSize :: u32
  xMaxItemSize :: u32
  uxRingbufferFlags :: u32
  rbType :: RingbufferType_t
  pucAcquire :: int
  pucWrite :: int
  pucRead :: int
  pucFree :: int
  pucHead :: int
  pucTail :: int
  xItemsWaiting :: i32
  rbWaitingToSend :: event_list
  rbWaitingToReceive :: event_list
  rb_storage :: "u8 list"

type_synonym rb_env = "(kernel \<times> Ringbuffer_t) list"

definition rbALIGN_SIZE :: "u32 \<Rightarrow> u32" where
  "rbALIGN_SIZE n = (n + 3) AND NOT 3"

definition rbCHECK_ALIGNED :: "int \<Rightarrow> bool" where
  "rbCHECK_ALIGNED p \<longleftrightarrow> p mod 4 = 0"

definition rbHEADER_SIZE :: u32 where "rbHEADER_SIZE = 8"

definition rbALLOW_SPLIT_FLAG :: u32 where "rbALLOW_SPLIT_FLAG = 1"
definition rbBYTE_BUFFER_FLAG :: u32 where "rbBYTE_BUFFER_FLAG = 2"
definition rbBUFFER_FULL_FLAG :: u32 where "rbBUFFER_FULL_FLAG = 4"
definition rbBUFFER_STATIC_FLAG :: u32 where "rbBUFFER_STATIC_FLAG = 8"

definition rbITEM_FREE_FLAG :: u32 where "rbITEM_FREE_FLAG = 1"
definition rbITEM_DUMMY_DATA_FLAG :: u32 where "rbITEM_DUMMY_DATA_FLAG = 2"
definition rbITEM_SPLIT_FLAG :: u32 where "rbITEM_SPLIT_FLAG = 4"
definition rbITEM_WRITTEN_FLAG :: u32 where "rbITEM_WRITTEN_FLAG = 8"

definition has_flag :: "u32 \<Rightarrow> u32 \<Rightarrow> bool" where
  "has_flag w f \<longleftrightarrow> w AND f \<noteq> 0"

definition rb_has :: "u32 \<Rightarrow> Ringbuffer_t \<Rightarrow> bool" where
  "rb_has f rb \<longleftrightarrow> has_flag (uxRingbufferFlags rb) f"

definition rb_set :: "u32 \<Rightarrow> Ringbuffer_t \<Rightarrow> Ringbuffer_t" where
  "rb_set f rb = rb\<lparr>uxRingbufferFlags := uxRingbufferFlags rb OR f\<rparr>"

definition rb_clear :: "u32 \<Rightarrow> Ringbuffer_t \<Rightarrow> Ringbuffer_t" where
  "rb_clear f rb = rb\<lparr>uxRingbufferFlags := uxRingbufferFlags rb AND NOT f\<rparr>"

text \<open>A difference of pointers where the code uses it as a \<^verbatim>\<open>size_t\<close>.\<close>

definition ptr_diff :: "int \<Rightarrow> int \<Rightarrow> u32" where
  "ptr_diff p q = word_of_int (p - q)"

definition rb_memcpy :: "int \<Rightarrow> u8 list \<Rightarrow> Ringbuffer_t \<Rightarrow> Ringbuffer_t res" where
  "rb_memcpy p bs rb = bind_res (mem_write (rb_storage rb) p bs) (\<lambda>st. Inr (rb\<lparr>rb_storage := st\<rparr>))"

text \<open>
  An item header occupies eight bytes in front of the item: its length and its flags, least
  significant byte first.
\<close>

record ItemHeader_t =
  xItemLen :: u32
  uxItemFlags :: u32

definition word_bytes :: "u32 \<Rightarrow> u8 list" where
  "word_bytes w = map (\<lambda>i. ucast (drop_bit (8 * i) w)) [0..<4]"

definition bytes_word :: "u8 list \<Rightarrow> u32" where
  "bytes_word bs = foldr (\<lambda>b w. ucast b + push_bit 8 w) bs 0"

definition header_bytes :: "ItemHeader_t \<Rightarrow> u8 list" where
  "header_bytes h = word_bytes (xItemLen h) @ word_bytes (uxItemFlags h)"

definition bytes_header :: "u8 list \<Rightarrow> ItemHeader_t" where
  "bytes_header bs = \<lparr>xItemLen = bytes_word (take 4 bs), uxItemFlags = bytes_word (drop 4 bs)\<rparr>"

definition get_header :: "int \<Rightarrow> Ringbuffer_t \<Rightarrow> ItemHeader_t res" where
  "get_header p rb = bind_res (mem_read (rb_storage rb) p 8) (\<lambda>bs. Inr (bytes_header bs))"

definition put_header :: "int \<Rightarrow> ItemHeader_t \<Rightarrow> Ringbuffer_t \<Rightarrow> Ringbuffer_t res" where
  "put_header p h rb = rb_memcpy p (header_bytes h) rb"

section \<open>Creation\<close>

definition prvInitializeNewRingbuffer :: "u32 \<Rightarrow> RingbufferType_t \<Rightarrow> u8 list \<Rightarrow> Ringbuffer_t" where
  "prvInitializeNewRingbuffer xBufferSize xBufferType storage =
     \<lparr>xSize = xBufferSize,
      xMaxItemSize = (case xBufferType of
          RINGBUF_TYPE_NOSPLIT \<Rightarrow> rbALIGN_SIZE (xBufferSize div 2) - rbHEADER_SIZE
        | RINGBUF_TYPE_ALLOWSPLIT \<Rightarrow> xBufferSize - rbHEADER_SIZE * 2
        | RINGBUF_TYPE_BYTEBUF \<Rightarrow> xBufferSize),
      uxRingbufferFlags = (case xBufferType of
          RINGBUF_TYPE_NOSPLIT \<Rightarrow> 0
        | RINGBUF_TYPE_ALLOWSPLIT \<Rightarrow> 0 OR rbALLOW_SPLIT_FLAG
        | RINGBUF_TYPE_BYTEBUF \<Rightarrow> 0 OR rbBYTE_BUFFER_FLAG),
      rbType = xBufferType,
      pucAcquire = 0, pucWrite = 0, pucRead = 0, pucFree = 0,
      pucHead = 0, pucTail = uint xBufferSize, xItemsWaiting = 0,
      rbWaitingToSend = [], rbWaitingToReceive = [], rb_storage = storage\<rparr>"

text \<open>
  The two allocations succeed or not; the contents of the fresh storage are not initialised.
\<close>

definition aligned_size :: "RingbufferType_t \<Rightarrow> u32 \<Rightarrow> u32" where
  "aligned_size ty n = (if ty \<noteq> RINGBUF_TYPE_BYTEBUF then rbALIGN_SIZE n else n)"

definition xRingbufferCreate :: "bool \<Rightarrow> alloc \<Rightarrow> u32 \<Rightarrow> RingbufferType_t \<Rightarrow> Ringbuffer_t option res" where
  "xRingbufferCreate struct_alloc storage_alloc xBufferSize xBufferType =
     assert_res (0 < xBufferSize)
     (let n = aligned_size xBufferType xBufferSize in
      case storage_alloc of
        None \<Rightarrow> Inr None
      | Some junk \<Rightarrow>
          if \<not> struct_alloc then Inr None
          else Inr (Some (prvInitializeNewRingbuffer n xBufferType (map junk [0..<unat n]))))"

definition xRingbufferCreateNoSplit :: "bool \<Rightarrow> alloc \<Rightarrow> u32 \<Rightarrow> u32 \<Rightarrow> Ringbuffer_t option res" where
  "xRingbufferCreateNoSplit struct_alloc storage_alloc xItemSize xItemNum =
     xRingbufferCreate struct_alloc storage_alloc ((rbALIGN_SIZE xItemSize + rbHEADER_SIZE) * xItemNum) RINGBUF_TYPE_NOSPLIT"

definition xRingbufferCreateStatic :: "u32 \<Rightarrow> RingbufferType_t \<Rightarrow> u8 list option \<Rightarrow> Ringbuffer_t res" where
  "xRingbufferCreateStatic xBufferSize xBufferType pucRingbufferStorage =
     assert_res (0 < xBufferSize)
     (case pucRingbufferStorage of
        None \<Rightarrow> Inl Assert_failed
      | Some st \<Rightarrow>
          assert_res (xBufferType \<noteq> RINGBUF_TYPE_BYTEBUF \<longrightarrow> xBufferSize AND 3 = 0)
          (Inr (rb_set rbBUFFER_STATIC_FLAG (prvInitializeNewRingbuffer xBufferSize xBufferType st))))"

definition xRingbufferCreateWithCaps :: "bool \<Rightarrow> alloc \<Rightarrow> u32 \<Rightarrow> RingbufferType_t \<Rightarrow> Ringbuffer_t option res" where
  "xRingbufferCreateWithCaps struct_alloc storage_alloc xBufferSize xBufferType =
     (let n = aligned_size xBufferType xBufferSize in
      case storage_alloc of
        None \<Rightarrow> Inr None
      | Some junk \<Rightarrow>
          if \<not> struct_alloc then Inr None
          else bind_res (xRingbufferCreateStatic n xBufferType (Some (map junk [0..<unat n]))) (\<lambda>rb. Inr (Some rb)))"

section \<open>Free space\<close>

definition prvGetFreeSize :: "Ringbuffer_t \<Rightarrow> u32 res" where
  "prvGetFreeSize rb =
     (let r = (if rb_has rbBUFFER_FULL_FLAG rb then 0
               else let d = pucFree rb - pucAcquire rb in
                    word_of_int (if d \<le> 0 then d + uint (xSize rb) else d))
      in assert_res (r \<le> xSize rb) (Inr r))"

definition acquire_in_bounds :: "Ringbuffer_t \<Rightarrow> bool" where
  "acquire_in_bounds rb \<longleftrightarrow> pucHead rb \<le> pucAcquire rb \<and> pucAcquire rb < pucTail rb"

definition prvCheckItemFitsDefault :: "u32 \<Rightarrow> Ringbuffer_t \<Rightarrow> bool res" where
  "prvCheckItemFitsDefault xItemSize rb =
     assert_res (rbCHECK_ALIGNED (pucAcquire rb)) (assert_res (acquire_in_bounds rb)
     (let xTotalItemSize = rbALIGN_SIZE xItemSize + rbHEADER_SIZE in
      if pucAcquire rb = pucFree rb then Inr (\<not> rb_has rbBUFFER_FULL_FLAG rb)
      else if pucAcquire rb < pucFree rb
      then Inr (xTotalItemSize \<le> ptr_diff (pucFree rb) (pucAcquire rb))
      else if xTotalItemSize \<le> ptr_diff (pucTail rb) (pucAcquire rb) then Inr True
      else if rb_has rbALLOW_SPLIT_FLAG rb
      then Inr (xTotalItemSize + rbHEADER_SIZE \<le> xSize rb - ptr_diff (pucAcquire rb) (pucFree rb))
      else Inr (xTotalItemSize \<le> ptr_diff (pucFree rb) (pucHead rb))))"

definition prvCheckItemFitsByteBuffer :: "u32 \<Rightarrow> Ringbuffer_t \<Rightarrow> bool res" where
  "prvCheckItemFitsByteBuffer xItemSize rb =
     assert_res (acquire_in_bounds rb)
     (if pucAcquire rb = pucFree rb then Inr (\<not> rb_has rbBUFFER_FULL_FLAG rb)
      else if pucAcquire rb < pucFree rb then Inr (xItemSize \<le> ptr_diff (pucFree rb) (pucAcquire rb))
      else Inr (xItemSize \<le> xSize rb - ptr_diff (pucAcquire rb) (pucFree rb)))"

text \<open>
  The intermediate results are of type \<^verbatim>\<open>BaseType_t\<close>, a signed word; the last comparison is
  unsigned, after negative values have been ruled out.
\<close>

definition limit_free_size :: "i32 \<Rightarrow> Ringbuffer_t \<Rightarrow> u32" where
  "limit_free_size xFreeSize rb =
     (if sint xFreeSize < 0 then 0 else if xMaxItemSize rb < xFreeSize then xMaxItemSize rb else xFreeSize)"

definition prvGetCurMaxSizeNoSplit :: "Ringbuffer_t \<Rightarrow> u32" where
  "prvGetCurMaxSizeNoSplit rb =
     (if rb_has rbBUFFER_FULL_FLAG rb then 0
      else let xFreeSize = (if pucAcquire rb < pucFree rb then ptr_diff (pucFree rb) (pucAcquire rb)
                            else max (ptr_diff (pucTail rb) (pucAcquire rb)) (ptr_diff (pucFree rb) (pucHead rb)))
           in limit_free_size (xFreeSize - rbHEADER_SIZE) rb)"

definition prvGetCurMaxSizeAllowSplit :: "Ringbuffer_t \<Rightarrow> u32" where
  "prvGetCurMaxSizeAllowSplit rb =
     (if rb_has rbBUFFER_FULL_FLAG rb then 0
      else limit_free_size
        (if pucAcquire rb = pucHead rb \<and> pucFree rb = pucHead rb then xSize rb - rbHEADER_SIZE
         else if pucAcquire rb < pucFree rb then ptr_diff (pucFree rb) (pucAcquire rb) - rbHEADER_SIZE
         else ptr_diff (pucFree rb) (pucHead rb) + ptr_diff (pucTail rb) (pucAcquire rb) - rbHEADER_SIZE * 2) rb)"

definition prvGetCurMaxSizeByteBuf :: "Ringbuffer_t \<Rightarrow> u32" where
  "prvGetCurMaxSizeByteBuf rb =
     (if rb_has rbBUFFER_FULL_FLAG rb then 0
      else let d = pucFree rb - pucAcquire rb in
           word_of_int (if d \<le> 0 then d + uint (xSize rb) else d))"

section \<open>Copying an item in\<close>

text \<open>Where too little is left for a header before the end of the storage, a pointer wraps around.\<close>

definition wrap_for_header :: "int \<Rightarrow> Ringbuffer_t \<Rightarrow> int" where
  "wrap_for_header p rb = (if ptr_diff (pucTail rb) p < rbHEADER_SIZE then pucHead rb else p)"

definition mark_if_full :: "Ringbuffer_t \<Rightarrow> Ringbuffer_t" where
  "mark_if_full rb = (if pucAcquire rb = pucFree rb then rb_set rbBUFFER_FULL_FLAG rb else rb)"

definition prvAcquireItemNoSplit :: "u32 \<Rightarrow> Ringbuffer_t \<Rightarrow> (int \<times> Ringbuffer_t) res" where
  "prvAcquireItemNoSplit xItemSize rb =
     (let xAlignedItemSize = rbALIGN_SIZE xItemSize; xRemLen = ptr_diff (pucTail rb) (pucAcquire rb) in
      assert_res (rbCHECK_ALIGNED (pucAcquire rb)) (assert_res (acquire_in_bounds rb)
      (assert_res (rbHEADER_SIZE \<le> xRemLen)
       (bind_res (if xRemLen < xAlignedItemSize + rbHEADER_SIZE
                  then bind_res (put_header (pucAcquire rb) \<lparr>xItemLen = 0, uxItemFlags = rbITEM_DUMMY_DATA_FLAG\<rparr> rb) (\<lambda>rb'.
                         Inr (rb'\<lparr>pucAcquire := pucHead rb'\<rparr>))
                  else Inr rb) (\<lambda>rb1.
        bind_res (put_header (pucAcquire rb1) \<lparr>xItemLen = xItemSize, uxItemFlags = 0\<rparr> rb1) (\<lambda>rb2.
        let item_address = pucAcquire rb2 + uint rbHEADER_SIZE;
            rb3 = rb2\<lparr>pucAcquire := pucAcquire rb2 + uint (rbHEADER_SIZE + xAlignedItemSize)\<rparr>
        in Inr (item_address, mark_if_full (rb3\<lparr>pucAcquire := wrap_for_header (pucAcquire rb3) rb3\<rparr>))))))))"

text \<open>
  The write pointer moves over items that have been written. Every turn of the loop moves the
  pointer to a multiple of the alignment or back to the head: after more turns than the storage
  has bytes a position has come twice and the loop never ends.
\<close>

fun advance_write :: "nat \<Rightarrow> Ringbuffer_t \<Rightarrow> Ringbuffer_t res" where
  "advance_write 0 rb = Inl Diverges"
| "advance_write (Suc n) rb =
     bind_res (get_header (pucWrite rb) rb) (\<lambda>h.
     if \<not> (has_flag (uxItemFlags h) rbITEM_WRITTEN_FLAG \<or> has_flag (uxItemFlags h) rbITEM_DUMMY_DATA_FLAG) then Inr rb
     else bind_res
       (if has_flag (uxItemFlags h) rbITEM_DUMMY_DATA_FLAG
        then bind_res (put_header (pucWrite rb) (h\<lparr>uxItemFlags := uxItemFlags h OR rbITEM_WRITTEN_FLAG\<rparr>) rb) (\<lambda>rb'.
               Inr (rb'\<lparr>pucWrite := pucHead rb'\<rparr>))
        else let p = pucWrite rb + uint (rbALIGN_SIZE (xItemLen h) + rbHEADER_SIZE) in
             assert_res (p \<le> pucHead rb + uint (xSize rb)) (Inr (rb\<lparr>pucWrite := p\<rparr>))) (\<lambda>rb1.
       let rb2 = rb1\<lparr>pucWrite := wrap_for_header (pucWrite rb1) rb1\<rparr> in
       if pucWrite rb2 = pucAcquire rb2 then Inr rb2 else advance_write n rb2))"

declare advance_write.simps [simp del]

definition loop_bound :: "Ringbuffer_t \<Rightarrow> nat" where
  "loop_bound rb = Suc (Suc (unat (xSize rb)))"

definition prvSendItemDoneNoSplit :: "int \<Rightarrow> Ringbuffer_t \<Rightarrow> Ringbuffer_t res" where
  "prvSendItemDoneNoSplit pucItem rb =
     assert_res (rbCHECK_ALIGNED pucItem) (assert_res (pucHead rb \<le> pucItem) (assert_res (pucItem \<le> pucTail rb)
     (bind_res (get_header (pucItem - uint rbHEADER_SIZE) rb) (\<lambda>h.
      assert_res (xItemLen h \<le> xMaxItemSize rb)
      (assert_res (\<not> has_flag (uxItemFlags h) rbITEM_DUMMY_DATA_FLAG)
      (assert_res (\<not> has_flag (uxItemFlags h) rbITEM_WRITTEN_FLAG)
       (bind_res (put_header (pucItem - uint rbHEADER_SIZE)
                   (h\<lparr>uxItemFlags := (uxItemFlags h AND NOT rbITEM_SPLIT_FLAG) OR rbITEM_WRITTEN_FLAG\<rparr>) rb) (\<lambda>rb1.
        advance_write (loop_bound rb1) (rb1\<lparr>xItemsWaiting := xItemsWaiting rb1 + 1\<rparr>)))))))))"

definition prvCopyItemNoSplit :: "u8 list \<Rightarrow> Ringbuffer_t \<Rightarrow> Ringbuffer_t res" where
  "prvCopyItemNoSplit bs rb =
     bind_res (prvAcquireItemNoSplit (of_nat (length bs)) rb) (\<lambda>(item_addr, rb1).
     bind_res (rb_memcpy item_addr bs rb1) (\<lambda>rb2. prvSendItemDoneNoSplit item_addr rb2))"

definition prvCopyItemAllowSplit :: "u8 list \<Rightarrow> Ringbuffer_t \<Rightarrow> Ringbuffer_t res" where
  "prvCopyItemAllowSplit bs rb =
     (let xItemSize = of_nat (length bs); xAlignedItemSize = rbALIGN_SIZE xItemSize;
          xRemLen = ptr_diff (pucTail rb) (pucAcquire rb) in
      assert_res (rbCHECK_ALIGNED (pucAcquire rb)) (assert_res (acquire_in_bounds rb)
      (assert_res (rbHEADER_SIZE \<le> xRemLen)
       (bind_res (if xRemLen < xAlignedItemSize + rbHEADER_SIZE
                  then let rem = xRemLen - rbHEADER_SIZE; p = pucAcquire rb in
                       bind_res (put_header p \<lparr>xItemLen = rem,
                           uxItemFlags = (if 0 < rem then rbITEM_SPLIT_FLAG else rbITEM_DUMMY_DATA_FLAG)\<rparr> rb) (\<lambda>rb1.
                       bind_res (if 0 < rem
                                 then bind_res (mem_read bs 0 (unat rem)) (\<lambda>part.
                                      bind_res (rb_memcpy (p + uint rbHEADER_SIZE) part rb1) (\<lambda>rb2.
                                        Inr (drop (unat rem) bs, xAlignedItemSize - rem,
                                             rb2\<lparr>xItemsWaiting := xItemsWaiting rb2 + 1\<rparr>)))
                                 else Inr (bs, xAlignedItemSize, rb1)) (\<lambda>(bs', aln, rb3).
                         Inr (bs', aln, rb3\<lparr>pucAcquire := pucHead rb3\<rparr>)))
                  else Inr (bs, xAlignedItemSize, rb)) (\<lambda>(bs2, aln2, rb4).
        bind_res (put_header (pucAcquire rb4) \<lparr>xItemLen = of_nat (length bs2), uxItemFlags = 0\<rparr> rb4) (\<lambda>rb5.
        bind_res (rb_memcpy (pucAcquire rb5 + uint rbHEADER_SIZE) bs2 rb5) (\<lambda>rb6.
        let rb7 = rb6\<lparr>pucAcquire := pucAcquire rb6 + uint rbHEADER_SIZE + uint aln2,
                       xItemsWaiting := xItemsWaiting rb6 + 1\<rparr>;
            rb8 = mark_if_full (rb7\<lparr>pucAcquire := wrap_for_header (pucAcquire rb7) rb7\<rparr>)
        in Inr (rb8\<lparr>pucWrite := pucAcquire rb8\<rparr>))))))))"

definition prvCopyItemByteBuf :: "u8 list \<Rightarrow> Ringbuffer_t \<Rightarrow> Ringbuffer_t res" where
  "prvCopyItemByteBuf bs rb =
     assert_res (acquire_in_bounds rb)
     (let xRemLen = ptr_diff (pucTail rb) (pucAcquire rb) in
      bind_res (if xRemLen < of_nat (length bs)
                then bind_res (rb_memcpy (pucAcquire rb) (take (unat xRemLen) bs) rb) (\<lambda>rb1.
                       Inr (drop (unat xRemLen) bs,
                            rb1\<lparr>xItemsWaiting := xItemsWaiting rb1 + xRemLen, pucAcquire := pucHead rb1\<rparr>))
                else Inr (bs, rb)) (\<lambda>(bs', rb2).
      bind_res (rb_memcpy (pucAcquire rb2) bs' rb2) (\<lambda>rb3.
      let rb4 = rb3\<lparr>xItemsWaiting := xItemsWaiting rb3 + of_nat (length bs'),
                     pucAcquire := pucAcquire rb3 + int (length bs')\<rparr>;
          rb5 = mark_if_full (if pucAcquire rb4 = pucTail rb4 then rb4\<lparr>pucAcquire := pucHead rb4\<rparr> else rb4)
      in Inr (rb5\<lparr>pucWrite := pucAcquire rb5\<rparr>))))"

definition vCopyItem :: "u8 list \<Rightarrow> Ringbuffer_t \<Rightarrow> Ringbuffer_t res" where
  "vCopyItem bs rb =
     (case rbType rb of
        RINGBUF_TYPE_NOSPLIT \<Rightarrow> prvCopyItemNoSplit bs rb
      | RINGBUF_TYPE_ALLOWSPLIT \<Rightarrow> prvCopyItemAllowSplit bs rb
      | RINGBUF_TYPE_BYTEBUF \<Rightarrow> prvCopyItemByteBuf bs rb)"

definition xCheckItemFits :: "u32 \<Rightarrow> Ringbuffer_t \<Rightarrow> bool res" where
  "xCheckItemFits xItemSize rb =
     (if rbType rb = RINGBUF_TYPE_BYTEBUF then prvCheckItemFitsByteBuffer xItemSize rb
      else prvCheckItemFitsDefault xItemSize rb)"

definition xGetCurMaxSize :: "Ringbuffer_t \<Rightarrow> u32" where
  "xGetCurMaxSize rb =
     (case rbType rb of
        RINGBUF_TYPE_NOSPLIT \<Rightarrow> prvGetCurMaxSizeNoSplit rb
      | RINGBUF_TYPE_ALLOWSPLIT \<Rightarrow> prvGetCurMaxSizeAllowSplit rb
      | RINGBUF_TYPE_BYTEBUF \<Rightarrow> prvGetCurMaxSizeByteBuf rb)"

section \<open>Retrieving an item\<close>

definition something_to_read :: "Ringbuffer_t \<Rightarrow> bool" where
  "something_to_read rb \<longleftrightarrow>
     0 < sint (xItemsWaiting rb) \<and> (pucRead rb \<noteq> pucWrite rb \<or> rb_has rbBUFFER_FULL_FLAG rb)"

definition prvCheckItemAvail :: "Ringbuffer_t \<Rightarrow> bool res" where
  "prvCheckItemAvail rb =
     (if rb_has rbBYTE_BUFFER_FLAG rb \<and> pucRead rb \<noteq> pucFree rb then Inr False
      else if something_to_read rb
      then if \<not> rb_has (rbBYTE_BUFFER_FLAG OR rbALLOW_SPLIT_FLAG) rb
           then bind_res (get_header (pucRead rb) rb) (\<lambda>h. Inr (has_flag (uxItemFlags h) rbITEM_WRITTEN_FLAG))
           else Inr True
      else Inr False)"

text \<open>A retrieved item is its address and its size.\<close>

type_synonym rb_item = "int \<times> u32"

definition prvGetItemDefault :: "Ringbuffer_t \<Rightarrow> (rb_item \<times> bool \<times> Ringbuffer_t) res" where
  "prvGetItemDefault rb =
     bind_res (get_header (pucRead rb) rb) (\<lambda>h0.
     assert_res (something_to_read rb) (assert_res (rbCHECK_ALIGNED (pucRead rb))
     (assert_res (pucHead rb \<le> pucRead rb \<and> pucRead rb < pucTail rb)
     (assert_res (xItemLen h0 \<le> xMaxItemSize rb \<or> has_flag (uxItemFlags h0) rbITEM_DUMMY_DATA_FLAG)
     (bind_res (if has_flag (uxItemFlags h0) rbITEM_DUMMY_DATA_FLAG
                then bind_res (get_header (pucHead rb) rb) (\<lambda>h1.
                       assert_res (xItemLen h1 \<le> xMaxItemSize rb) (Inr (h1, rb\<lparr>pucRead := pucHead rb\<rparr>)))
                else Inr (h0, rb)) (\<lambda>(h, rb1).
      let pcReturn = pucRead rb1 + uint rbHEADER_SIZE in
      assert_res (pucHead rb1 \<le> pcReturn \<and>
                  (if xItemLen h = 0 then pcReturn \<le> pucTail rb1 else pcReturn < pucTail rb1))
      (let p = pucRead rb1 + uint (rbHEADER_SIZE + rbALIGN_SIZE (xItemLen h)) in
       Inr ((pcReturn, xItemLen h), has_flag (uxItemFlags h) rbITEM_SPLIT_FLAG,
            rb1\<lparr>xItemsWaiting := xItemsWaiting rb1 - 1, pucRead := wrap_for_header p rb1\<rparr>))))))))"

definition prvGetItemByteBuf :: "u32 \<Rightarrow> Ringbuffer_t \<Rightarrow> (rb_item \<times> Ringbuffer_t) res" where
  "prvGetItemByteBuf xMaxSize rb =
     assert_res (something_to_read rb) (assert_res (pucHead rb \<le> pucRead rb \<and> pucRead rb < pucTail rb)
     (assert_res (pucRead rb = pucFree rb)
      (let ret = pucRead rb;
           wraps = (pucWrite rb < pucRead rb \<or> rb_has rbBUFFER_FULL_FLAG rb);
           n = ptr_diff (if wraps then pucTail rb else pucWrite rb) (pucRead rb)
       in if xMaxSize = 0 \<or> n \<le> xMaxSize
          then Inr ((ret, n), rb\<lparr>xItemsWaiting := xItemsWaiting rb - n,
                                 pucRead := (if wraps then pucHead rb else pucWrite rb)\<rparr>)
          else Inr ((ret, xMaxSize), rb\<lparr>xItemsWaiting := xItemsWaiting rb - xMaxSize,
                                        pucRead := pucRead rb + uint xMaxSize\<rparr>))))"

text \<open>
  What the generic receive functions do once an item is available; the flag tells whether the
  caller passed pointers for the second part of a split item.
\<close>

definition retrieve :: "bool \<Rightarrow> u32 \<Rightarrow> Ringbuffer_t \<Rightarrow> ((rb_item \<times> rb_item option) \<times> Ringbuffer_t) res" where
  "retrieve two xMaxSize rb =
     bind_res (if rbType rb = RINGBUF_TYPE_BYTEBUF
               then bind_res (prvGetItemByteBuf xMaxSize rb) (\<lambda>(it, rb1). Inr (it, False, rb1))
               else prvGetItemDefault rb) (\<lambda>(it1, xIsSplit, rb1).
     if \<not> rb_has rbALLOW_SPLIT_FLAG rb1 then Inr ((it1, None), rb1)
     else if \<not> two then Inl Null_deref
     else if xIsSplit
     then bind_res (prvGetItemDefault rb1) (\<lambda>(it2, again, rb2).
            assert_res (fst it2 < fst it1) (assert_res (\<not> again) (Inr ((it1, Some it2), rb2))))
     else Inr ((it1, None), rb1))"

section \<open>Returning an item\<close>

text \<open>The free pointer moves over returned items up to the read pointer.\<close>

fun advance_free :: "nat \<Rightarrow> Ringbuffer_t \<Rightarrow> Ringbuffer_t res" where
  "advance_free 0 rb = Inl Diverges"
| "advance_free (Suc n) rb =
     bind_res (get_header (pucFree rb) rb) (\<lambda>h.
     if \<not> ((has_flag (uxItemFlags h) rbITEM_FREE_FLAG \<or> has_flag (uxItemFlags h) rbITEM_DUMMY_DATA_FLAG) \<and>
           pucFree rb \<noteq> pucRead rb) then Inr rb
     else bind_res
       (if has_flag (uxItemFlags h) rbITEM_DUMMY_DATA_FLAG
        then bind_res (put_header (pucFree rb) (h\<lparr>uxItemFlags := uxItemFlags h OR rbITEM_FREE_FLAG\<rparr>) rb) (\<lambda>rb'.
               Inr (rb'\<lparr>pucFree := pucHead rb'\<rparr>))
        else let p = pucFree rb + uint (rbALIGN_SIZE (xItemLen h) + rbHEADER_SIZE) in
             assert_res (p \<le> pucHead rb + uint (xSize rb)) (Inr (rb\<lparr>pucFree := p\<rparr>))) (\<lambda>rb1.
       advance_free n (rb1\<lparr>pucFree := wrap_for_header (pucFree rb1) rb1\<rparr>)))"

declare advance_free.simps [simp del]

definition prvReturnItemDefault :: "int \<Rightarrow> Ringbuffer_t \<Rightarrow> Ringbuffer_t res" where
  "prvReturnItemDefault pucItem rb =
     assert_res (rbCHECK_ALIGNED pucItem) (assert_res (pucHead rb \<le> pucItem) (assert_res (pucItem \<le> pucTail rb)
     (bind_res (get_header (pucItem - uint rbHEADER_SIZE) rb) (\<lambda>h.
      assert_res (xItemLen h \<le> xMaxItemSize rb)
      (assert_res (\<not> has_flag (uxItemFlags h) rbITEM_DUMMY_DATA_FLAG)
      (assert_res (\<not> has_flag (uxItemFlags h) rbITEM_FREE_FLAG)
       (bind_res (put_header (pucItem - uint rbHEADER_SIZE)
                   (h\<lparr>uxItemFlags := (uxItemFlags h AND NOT rbITEM_SPLIT_FLAG) OR rbITEM_FREE_FLAG\<rparr>) rb) (\<lambda>rb1.
        bind_res (advance_free (loop_bound rb1) rb1) (\<lambda>rb2.
          Inr (if rb_has rbBUFFER_FULL_FLAG rb2 \<and>
                  (pucFree rb2 \<noteq> pucAcquire rb2 \<or> pucFree rb2 = pucAcquire rb2 \<and> pucFree rb2 = pucRead rb2)
               then rb_clear rbBUFFER_FULL_FLAG rb2 else rb2))))))))))"

definition prvReturnItemByteBuf :: "int \<Rightarrow> Ringbuffer_t \<Rightarrow> Ringbuffer_t res" where
  "prvReturnItemByteBuf pucItem rb =
     assert_res (pucHead rb \<le> pucItem) (assert_res (pucItem < pucTail rb)
     (let rb1 = rb\<lparr>pucFree := pucRead rb\<rparr>
      in Inr (if rb_has rbBUFFER_FULL_FLAG rb1 then rb_clear rbBUFFER_FULL_FLAG rb1 else rb1)))"

definition vReturnItem :: "int \<Rightarrow> Ringbuffer_t \<Rightarrow> Ringbuffer_t res" where
  "vReturnItem pucItem rb =
     (if rbType rb = RINGBUF_TYPE_BYTEBUF then prvReturnItemByteBuf pucItem rb else prvReturnItemDefault pucItem rb)"

section \<open>Waking tasks\<close>

definition rb_wake_receiver :: "Ringbuffer_t \<Rightarrow> Ringbuffer_t" where
  "rb_wake_receiver rb =
     (if rbWaitingToReceive rb \<noteq> []
      then rb\<lparr>rbWaitingToReceive := xTaskRemoveFromEventList (rbWaitingToReceive rb)\<rparr> else rb)"

definition rb_wake_sender :: "Ringbuffer_t \<Rightarrow> Ringbuffer_t" where
  "rb_wake_sender rb =
     (if rbWaitingToSend rb \<noteq> []
      then rb\<lparr>rbWaitingToSend := xTaskRemoveFromEventList (rbWaitingToSend rb)\<rparr> else rb)"

section \<open>Sending and acquiring\<close>

text \<open>
  What a sender passes: the bytes of an item to copy, or a request for space of which it wants the
  address. As with queues, a call runs in passes, and the environment holds the states in which a
  blocked caller is resumed.
\<close>

datatype rb_request = Send_Item "u8 list" | Acquire_Space u32

definition request_size :: "rb_request \<Rightarrow> u32" where
  "request_size q = (case q of Send_Item bs \<Rightarrow> of_nat (length bs) | Acquire_Space n \<Rightarrow> n)"

definition prvSendAcquireGeneric_pass ::
  "rb_request \<Rightarrow> u32 \<Rightarrow> TimeOut_t option \<Rightarrow> kernel \<Rightarrow> Ringbuffer_t \<Rightarrow>
   ((BaseType_t \<times> int option) pass \<times> Ringbuffer_t \<times> kernel) res" where
  "prvSendAcquireGeneric_pass q xTicksToWait xTimeOut k rb =
     bind_res (xCheckItemFits (request_size q) rb) (\<lambda>fits.
     if fits
     then (case q of
             Acquire_Space n \<Rightarrow> bind_res (prvAcquireItemNoSplit n rb) (\<lambda>(p, rb1). Inr (Done (pdTRUE, Some p), rb1, k))
           | Send_Item bs \<Rightarrow> bind_res (vCopyItem bs rb) (\<lambda>rb1. Inr (Done (pdTRUE, None), rb_wake_receiver rb1, k)))
     else if xTicksToWait = 0 then Inr (Done (pdFALSE, None), rb, k)
     else bind_res (xTaskCheckForTimeOut k (entry_time k xTimeOut) xTicksToWait) (\<lambda>(expired, t, n, k1).
          if expired then Inr (Done (pdFALSE, None), rb, k1)
          else bind_res (vTaskPlaceOnEventList k1 (rbWaitingToSend rb)) (\<lambda>(l, k2).
                 Inr (Again t n, rb\<lparr>rbWaitingToSend := l\<rparr>, k2))))"

fun prvSendAcquireGeneric ::
  "rb_env \<Rightarrow> rb_request \<Rightarrow> u32 \<Rightarrow> TimeOut_t option \<Rightarrow> kernel \<Rightarrow> Ringbuffer_t \<Rightarrow>
   (BaseType_t \<times> int option \<times> Ringbuffer_t \<times> kernel) res" where
  "prvSendAcquireGeneric e q n t k rb =
     bind_res (prvSendAcquireGeneric_pass q n t k rb) (\<lambda>(r, rb', k').
       case r of
         Done (b, p) \<Rightarrow> Inr (b, p, rb', k')
       | Again t' n' \<Rightarrow>
           (case e of
              [] \<Rightarrow> Inl Blocked_forever
            | (ke, rbe) # e' \<Rightarrow> prvSendAcquireGeneric e' q n' (Some t') ke rbe))"

declare prvSendAcquireGeneric.simps [simp del]

definition item_of :: "u8 list option \<Rightarrow> u32 \<Rightarrow> u8 list res" where
  "item_of pvItem xItemSize =
     (case pvItem of
        None \<Rightarrow> assert_res (xItemSize = 0) (Inr [])
      | Some bs \<Rightarrow> mem_read bs 0 (unat xItemSize))"

definition xRingbufferSend ::
  "rb_env \<Rightarrow> Ringbuffer_t option \<Rightarrow> u8 list option \<Rightarrow> u32 \<Rightarrow> u32 \<Rightarrow> kernel \<Rightarrow> (BaseType_t \<times> Ringbuffer_t \<times> kernel) res" where
  "xRingbufferSend e xRingbuffer pvItem xItemSize xTicksToWait k =
     (case xRingbuffer of
        None \<Rightarrow> Inl Assert_failed
      | Some rb \<Rightarrow>
          assert_res (pvItem \<noteq> None \<or> xItemSize = 0)
          (if xMaxItemSize rb < xItemSize then Inr (pdFALSE, rb, k)
           else if rb_has rbBYTE_BUFFER_FLAG rb \<and> xItemSize = 0 then Inr (pdTRUE, rb, k)
           else bind_res (item_of pvItem xItemSize) (\<lambda>bs.
                bind_res (prvSendAcquireGeneric e (Send_Item bs) xTicksToWait None k rb) (\<lambda>(r, _, rb', k').
                  Inr (r, rb', k')))))"

definition xRingbufferSendAcquire ::
  "rb_env \<Rightarrow> Ringbuffer_t option \<Rightarrow> u32 \<Rightarrow> u32 \<Rightarrow> kernel \<Rightarrow> (BaseType_t \<times> int option \<times> Ringbuffer_t \<times> kernel) res" where
  "xRingbufferSendAcquire e xRingbuffer xItemSize xTicksToWait k =
     (case xRingbuffer of
        None \<Rightarrow> Inl Assert_failed
      | Some rb \<Rightarrow>
          assert_res (\<not> rb_has (rbBYTE_BUFFER_FLAG OR rbALLOW_SPLIT_FLAG) rb)
          (if xMaxItemSize rb < xItemSize then Inr (pdFALSE, None, rb, k)
           else prvSendAcquireGeneric e (Acquire_Space xItemSize) xTicksToWait None k rb))"

definition xRingbufferSendComplete ::
  "Ringbuffer_t option \<Rightarrow> int option \<Rightarrow> (BaseType_t \<times> Ringbuffer_t) res" where
  "xRingbufferSendComplete xRingbuffer pvItem =
     (case (xRingbuffer, pvItem) of
        (Some rb, Some p) \<Rightarrow>
          assert_res (\<not> rb_has (rbBYTE_BUFFER_FLAG OR rbALLOW_SPLIT_FLAG) rb)
          (bind_res (prvSendItemDoneNoSplit p rb) (\<lambda>rb1. Inr (pdTRUE, rb_wake_receiver rb1)))
      | _ \<Rightarrow> Inl Assert_failed)"

definition xRingbufferSendFromISR ::
  "Ringbuffer_t option \<Rightarrow> u8 list option \<Rightarrow> u32 \<Rightarrow> (BaseType_t \<times> Ringbuffer_t) res" where
  "xRingbufferSendFromISR xRingbuffer pvItem xItemSize =
     (case xRingbuffer of
        None \<Rightarrow> Inl Assert_failed
      | Some rb \<Rightarrow>
          assert_res (pvItem \<noteq> None \<or> xItemSize = 0)
          (if xMaxItemSize rb < xItemSize then Inr (pdFALSE, rb)
           else if rb_has rbBYTE_BUFFER_FLAG rb \<and> xItemSize = 0 then Inr (pdTRUE, rb)
           else bind_res (xCheckItemFits xItemSize rb) (\<lambda>fits.
                if fits
                then bind_res (item_of pvItem xItemSize) (\<lambda>bs.
                     bind_res (vCopyItem bs rb) (\<lambda>rb1. Inr (pdTRUE, rb_wake_receiver rb1)))
                else Inr (pdFALSE, rb))))"

section \<open>Receiving\<close>

definition prvReceiveGeneric_pass ::
  "bool \<Rightarrow> u32 \<Rightarrow> u32 \<Rightarrow> TimeOut_t option \<Rightarrow> kernel \<Rightarrow> Ringbuffer_t \<Rightarrow>
   ((rb_item \<times> rb_item option) option pass \<times> Ringbuffer_t \<times> kernel) res" where
  "prvReceiveGeneric_pass two xMaxSize xTicksToWait xTimeOut k rb =
     bind_res (prvCheckItemAvail rb) (\<lambda>avail.
     if avail then bind_res (retrieve two xMaxSize rb) (\<lambda>(it, rb1). Inr (Done (Some it), rb1, k))
     else if xTicksToWait = 0 then Inr (Done None, rb, k)
     else bind_res (xTaskCheckForTimeOut k (entry_time k xTimeOut) xTicksToWait) (\<lambda>(expired, t, n, k1).
          if expired then Inr (Done None, rb, k1)
          else bind_res (vTaskPlaceOnEventList k1 (rbWaitingToReceive rb)) (\<lambda>(l, k2).
                 Inr (Again t n, rb\<lparr>rbWaitingToReceive := l\<rparr>, k2))))"

fun prvReceiveGeneric ::
  "rb_env \<Rightarrow> bool \<Rightarrow> u32 \<Rightarrow> u32 \<Rightarrow> TimeOut_t option \<Rightarrow> kernel \<Rightarrow> Ringbuffer_t \<Rightarrow>
   ((rb_item \<times> rb_item option) option \<times> Ringbuffer_t \<times> kernel) res" where
  "prvReceiveGeneric e two m n t k rb =
     bind_res (prvReceiveGeneric_pass two m n t k rb) (\<lambda>(r, rb', k').
       case r of
         Done it \<Rightarrow> Inr (it, rb', k')
       | Again t' n' \<Rightarrow>
           (case e of
              [] \<Rightarrow> Inl Blocked_forever
            | (ke, rbe) # e' \<Rightarrow> prvReceiveGeneric e' two m n' (Some t') ke rbe))"

declare prvReceiveGeneric.simps [simp del]

definition prvReceiveGenericFromISR ::
  "bool \<Rightarrow> u32 \<Rightarrow> Ringbuffer_t \<Rightarrow> ((rb_item \<times> rb_item option) option \<times> Ringbuffer_t) res" where
  "prvReceiveGenericFromISR two xMaxSize rb =
     bind_res (prvCheckItemAvail rb) (\<lambda>avail.
     if avail then bind_res (retrieve two xMaxSize rb) (\<lambda>(it, rb1). Inr (Some it, rb1))
     else Inr (None, rb))"

definition xRingbufferReceive ::
  "rb_env \<Rightarrow> Ringbuffer_t option \<Rightarrow> u32 \<Rightarrow> kernel \<Rightarrow> (rb_item option \<times> Ringbuffer_t \<times> kernel) res" where
  "xRingbufferReceive e xRingbuffer xTicksToWait k =
     (case xRingbuffer of
        None \<Rightarrow> Inl Assert_failed
      | Some rb \<Rightarrow> bind_res (prvReceiveGeneric e False 0 xTicksToWait None k rb) (\<lambda>(it, rb', k').
                     Inr (map_option fst it, rb', k')))"

definition xRingbufferReceiveFromISR :: "Ringbuffer_t option \<Rightarrow> (rb_item option \<times> Ringbuffer_t) res" where
  "xRingbufferReceiveFromISR xRingbuffer =
     (case xRingbuffer of
        None \<Rightarrow> Inl Assert_failed
      | Some rb \<Rightarrow> bind_res (prvReceiveGenericFromISR False 0 rb) (\<lambda>(it, rb'). Inr (map_option fst it, rb')))"

definition xRingbufferReceiveSplit ::
  "rb_env \<Rightarrow> Ringbuffer_t option \<Rightarrow> u32 \<Rightarrow> kernel \<Rightarrow> ((rb_item \<times> rb_item option) option \<times> Ringbuffer_t \<times> kernel) res" where
  "xRingbufferReceiveSplit e xRingbuffer xTicksToWait k =
     (case xRingbuffer of
        None \<Rightarrow> Inl Assert_failed
      | Some rb \<Rightarrow> assert_res (rb_has rbALLOW_SPLIT_FLAG rb) (prvReceiveGeneric e True 0 xTicksToWait None k rb))"

definition xRingbufferReceiveSplitFromISR ::
  "Ringbuffer_t option \<Rightarrow> ((rb_item \<times> rb_item option) option \<times> Ringbuffer_t) res" where
  "xRingbufferReceiveSplitFromISR xRingbuffer =
     (case xRingbuffer of
        None \<Rightarrow> Inl Assert_failed
      | Some rb \<Rightarrow> assert_res (rb_has rbALLOW_SPLIT_FLAG rb) (prvReceiveGenericFromISR True 0 rb))"

definition xRingbufferReceiveUpTo ::
  "rb_env \<Rightarrow> Ringbuffer_t option \<Rightarrow> u32 \<Rightarrow> u32 \<Rightarrow> kernel \<Rightarrow> (rb_item option \<times> Ringbuffer_t \<times> kernel) res" where
  "xRingbufferReceiveUpTo e xRingbuffer xTicksToWait xMaxSize k =
     (case xRingbuffer of
        None \<Rightarrow> Inl Assert_failed
      | Some rb \<Rightarrow>
          assert_res (rb_has rbBYTE_BUFFER_FLAG rb)
          (if xMaxSize = 0 then Inr (None, rb, k)
           else bind_res (prvReceiveGeneric e False xMaxSize xTicksToWait None k rb) (\<lambda>(it, rb', k').
                  Inr (map_option fst it, rb', k'))))"

definition xRingbufferReceiveUpToFromISR ::
  "Ringbuffer_t option \<Rightarrow> u32 \<Rightarrow> (rb_item option \<times> Ringbuffer_t) res" where
  "xRingbufferReceiveUpToFromISR xRingbuffer xMaxSize =
     (case xRingbuffer of
        None \<Rightarrow> Inl Assert_failed
      | Some rb \<Rightarrow>
          assert_res (rb_has rbBYTE_BUFFER_FLAG rb)
          (if xMaxSize = 0 then Inr (None, rb)
           else bind_res (prvReceiveGenericFromISR False xMaxSize rb) (\<lambda>(it, rb'). Inr (map_option fst it, rb'))))"

section \<open>Returning and inspecting\<close>

definition vRingbufferReturnItem :: "Ringbuffer_t option \<Rightarrow> int option \<Rightarrow> Ringbuffer_t res" where
  "vRingbufferReturnItem xRingbuffer pvItem =
     (case (xRingbuffer, pvItem) of
        (Some rb, Some p) \<Rightarrow> bind_res (vReturnItem p rb) (\<lambda>rb1. Inr (rb_wake_sender rb1))
      | _ \<Rightarrow> Inl Assert_failed)"

text \<open>The version for interrupts differs in how a context switch is requested only.\<close>

definition vRingbufferReturnItemFromISR :: "Ringbuffer_t option \<Rightarrow> int option \<Rightarrow> Ringbuffer_t res" where
  "vRingbufferReturnItemFromISR xRingbuffer pvItem =
     (case (xRingbuffer, pvItem) of
        (Some rb, Some p) \<Rightarrow> bind_res (vReturnItem p rb) (\<lambda>rb1. Inr (rb_wake_sender rb1))
      | _ \<Rightarrow> Inl Assert_failed)"

definition xRingbufferGetMaxItemSize :: "Ringbuffer_t option \<Rightarrow> u32 res" where
  "xRingbufferGetMaxItemSize xRingbuffer =
     (case xRingbuffer of None \<Rightarrow> Inl Assert_failed | Some rb \<Rightarrow> Inr (xMaxItemSize rb))"

definition xRingbufferGetCurFreeSize :: "Ringbuffer_t option \<Rightarrow> u32 res" where
  "xRingbufferGetCurFreeSize xRingbuffer =
     (case xRingbuffer of None \<Rightarrow> Inl Assert_failed | Some rb \<Rightarrow> Inr (xGetCurMaxSize rb))"

text \<open>Free, read, write and acquire position, and the number of items waiting.\<close>

definition vRingbufferGetInfo :: "Ringbuffer_t option \<Rightarrow> (u32 \<times> u32 \<times> u32 \<times> u32 \<times> u32) res" where
  "vRingbufferGetInfo xRingbuffer =
     (case xRingbuffer of
        None \<Rightarrow> Inl Assert_failed
      | Some rb \<Rightarrow> Inr (ptr_diff (pucFree rb) (pucHead rb), ptr_diff (pucRead rb) (pucHead rb),
                         ptr_diff (pucWrite rb) (pucHead rb), ptr_diff (pucAcquire rb) (pucHead rb), xItemsWaiting rb))"

section \<open>Flags and pointer differences\<close>

lemma has_flag_bit:
  "has_flag w rbALLOW_SPLIT_FLAG \<longleftrightarrow> bit w 0" "has_flag w rbBYTE_BUFFER_FLAG \<longleftrightarrow> bit w 1"
  "has_flag w rbBUFFER_FULL_FLAG \<longleftrightarrow> bit w 2" "has_flag w rbBUFFER_STATIC_FLAG \<longleftrightarrow> bit w 3"
  "has_flag w (rbBYTE_BUFFER_FLAG OR rbALLOW_SPLIT_FLAG) \<longleftrightarrow> bit w 0 \<or> bit w 1"
proof -
  have e: "has_flag w (push_bit n 1) \<longleftrightarrow> bit w n" for n
    by (simp add: has_flag_def bit_iff_and_push_bit_not_eq_0)
  show "has_flag w rbALLOW_SPLIT_FLAG \<longleftrightarrow> bit w 0" "has_flag w rbBYTE_BUFFER_FLAG \<longleftrightarrow> bit w 1"
    "has_flag w rbBUFFER_FULL_FLAG \<longleftrightarrow> bit w 2" "has_flag w rbBUFFER_STATIC_FLAG \<longleftrightarrow> bit w 3"
    using e [of 0] e [of 1] e [of 2] e [of 3]
    by (simp_all add: rbALLOW_SPLIT_FLAG_def rbBYTE_BUFFER_FLAG_def rbBUFFER_FULL_FLAG_def rbBUFFER_STATIC_FLAG_def)
  then show "has_flag w (rbBYTE_BUFFER_FLAG OR rbALLOW_SPLIT_FLAG) \<longleftrightarrow> bit w 0 \<or> bit w 1"
    by (auto simp: has_flag_def word_ao_dist2 or_eq_0_iff)
qed

lemma rb_has_bit:
  "rb_has rbALLOW_SPLIT_FLAG rb \<longleftrightarrow> bit (uxRingbufferFlags rb) 0"
  "rb_has rbBYTE_BUFFER_FLAG rb \<longleftrightarrow> bit (uxRingbufferFlags rb) 1"
  "rb_has rbBUFFER_FULL_FLAG rb \<longleftrightarrow> bit (uxRingbufferFlags rb) 2"
  "rb_has (rbBYTE_BUFFER_FLAG OR rbALLOW_SPLIT_FLAG) rb \<longleftrightarrow> bit (uxRingbufferFlags rb) 0 \<or> bit (uxRingbufferFlags rb) 1"
  by (simp_all add: rb_has_def has_flag_bit)

lemma full_flag_bits:
  "bit (w OR rbBUFFER_FULL_FLAG) n \<longleftrightarrow> n = 2 \<or> bit w n"
  "bit (w AND NOT rbBUFFER_FULL_FLAG) n \<longleftrightarrow> n \<noteq> 2 \<and> bit w n"
proof -
  have "bit (2 ^ 2 :: u32) n \<longleftrightarrow> n = 2" by (auto simp only: bit_exp_iff possible_bit_word) simp
  then have b: "bit rbBUFFER_FULL_FLAG n \<longleftrightarrow> n = 2" by (simp add: rbBUFFER_FULL_FLAG_def)
  show "bit (w OR rbBUFFER_FULL_FLAG) n \<longleftrightarrow> n = 2 \<or> bit w n" by (auto simp: bit_or_iff b)
  show "bit (w AND NOT rbBUFFER_FULL_FLAG) n \<longleftrightarrow> n \<noteq> 2 \<and> bit w n"
    by (auto simp: bit_and_iff bit_not_iff b dest: bit_imp_le_length)
qed

lemma unat_ptr_diff: "q \<le> p \<Longrightarrow> p - q < 2 ^ 32 \<Longrightarrow> unat (ptr_diff p q) = nat (p - q)"
  by (simp only: ptr_diff_def unsigned_of_int) (simp add: take_bit_int_eq_self)

lemma sint_of_nat_u32: "n < 2 ^ 31 \<Longrightarrow> sint (of_nat n :: i32) = int n"
  using int_word_sint [of "int n", where ?'a = 32] by simp

section \<open>Byte buffers: lent and waiting bytes\<close>

text \<open>
  The storage of a byte buffer is a ring: from the free pointer come the bytes lent to the reader,
  from the read pointer the bytes that wait, and from the write pointer the free space.
\<close>

definition rb_cap :: "Ringbuffer_t \<Rightarrow> nat" where "rb_cap rb = unat (xSize rb)"

definition ring_seg :: "'a list \<Rightarrow> nat \<Rightarrow> nat \<Rightarrow> 'a list" where
  "ring_seg st p n = map (\<lambda>i. st ! ((p + i) mod length st)) [0..<n]"

definition waiting_count :: "Ringbuffer_t \<Rightarrow> nat" where
  "waiting_count rb = unat (xItemsWaiting rb)"

definition lent_count :: "Ringbuffer_t \<Rightarrow> nat" where
  "lent_count rb =
     (if rb_has rbBUFFER_FULL_FLAG rb then rb_cap rb - waiting_count rb
      else nat ((pucRead rb - pucFree rb) mod int (rb_cap rb)))"

definition lent :: "Ringbuffer_t \<Rightarrow> u8 list" where
  "lent rb = ring_seg (rb_storage rb) (nat (pucFree rb)) (lent_count rb)"

definition waiting :: "Ringbuffer_t \<Rightarrow> u8 list" where
  "waiting rb = ring_seg (rb_storage rb) (nat (pucRead rb)) (waiting_count rb)"

definition byte_at :: "nat \<Rightarrow> nat \<Rightarrow> nat \<Rightarrow> Ringbuffer_t \<Rightarrow> bool" where
  "byte_at f l w rb \<longleftrightarrow>
     rbType rb = RINGBUF_TYPE_BYTEBUF \<and> rb_has rbBYTE_BUFFER_FLAG rb \<and> \<not> rb_has rbALLOW_SPLIT_FLAG rb \<and>
     xMaxItemSize rb = xSize rb \<and> rb_cap rb < 2 ^ 31 \<and> length (rb_storage rb) = rb_cap rb \<and>
     pucHead rb = 0 \<and> pucTail rb = int (rb_cap rb) \<and> f < rb_cap rb \<and> l + w \<le> rb_cap rb \<and>
     pucFree rb = int f \<and> pucRead rb = int ((f + l) mod rb_cap rb) \<and>
     pucWrite rb = int ((f + l + w) mod rb_cap rb) \<and> pucAcquire rb = int ((f + l + w) mod rb_cap rb) \<and>
     xItemsWaiting rb = of_nat w \<and> (rb_has rbBUFFER_FULL_FLAG rb \<longleftrightarrow> l + w = rb_cap rb)"

definition byte_inv :: "Ringbuffer_t \<Rightarrow> bool" where
  "byte_inv rb \<longleftrightarrow> byte_at (nat (pucFree rb)) (lent_count rb) (waiting_count rb) rb"

text \<open>A word stored in memory reads back as itself.\<close>

lemma length_word_bytes [simp]: "length (word_bytes w) = 4"
  by (simp add: word_bytes_def)

lemma bytes_word_of_word [simp]: "bytes_word (word_bytes w) = w"
proof -
  have byte: "(ucast (ucast x :: u8) :: u32) = take_bit 8 x" for x :: u32
    by (rule bit_word_eqI) (auto simp: bit_simps)
  have join: "take_bit 8 (drop_bit k w) + push_bit 8 (drop_bit (k + 8) w) = drop_bit k w" for k
    using bits_ident [of 8 "drop_bit k w"] by (simp add: add.commute)
  have "take_bit 8 (drop_bit 24 w) = drop_bit 24 w" by (rule bit_word_eqI) (auto simp: bit_simps dest: bit_imp_le_length)
  then show ?thesis using join [of 16] join [of 8] join [of 0]
    by (simp add: bytes_word_def word_bytes_def byte upt_rec)
qed

lemma mod_below_double: "a < 2 * N \<Longrightarrow> a mod N = (if a < N then a else a - (N :: nat))"
  by (simp add: mod_if)

lemma ring_index:
  assumes "0 < N" and "i \<le> N"
  shows "(q + i) mod N = (if q mod N + i < N then q mod N + i else q mod N + i - (N :: nat))"
proof -
  have "q mod N + i < 2 * N" using assms mod_less_divisor [OF assms(1), of q] by linarith
  from mod_below_double [OF this] show ?thesis by (simp only: mod_add_left_eq)
qed

lemma byte_at_counts:
  assumes "byte_at f l w rb"
  shows "nat (pucFree rb) = f" "lent_count rb = l" "waiting_count rb = w"
proof -
  note a = assms [unfolded byte_at_def]
  show "nat (pucFree rb) = f" using a by simp
  have "w < 2 ^ 32" using a by simp
  then show w: "waiting_count rb = w" using a by (simp add: waiting_count_def unat_of_nat_u32)
  show "lent_count rb = l"
  proof (cases "l + w = rb_cap rb")
    case True
    then show ?thesis using a w by (simp add: lent_count_def)
  next
    case False
    then have "l < rb_cap rb" using a by simp
    then have "(int ((f + l) mod rb_cap rb) - int f) mod int (rb_cap rb) = int l"
      by (simp add: zmod_int mod_diff_left_eq)
    with False a show ?thesis by (simp add: lent_count_def)
  qed
qed

lemma byte_inv_iff: "byte_inv rb \<longleftrightarrow> (\<exists>f l w. byte_at f l w rb)"
  unfolding byte_inv_def using byte_at_counts by blast

lemma length_ring_seg [simp]: "length (ring_seg st p n) = n"
  by (simp add: ring_seg_def)

lemma nth_ring_seg [simp]: "i < n \<Longrightarrow> ring_seg st p n ! i = st ! ((p + i) mod length st)"
  by (simp add: ring_seg_def)

lemma ring_seg_mod: "ring_seg st (p mod length st) n = ring_seg st p n"
  by (simp add: ring_seg_def mod_add_left_eq)

lemma byte_at_bytes:
  assumes "byte_at f l w rb"
  shows "lent rb = ring_seg (rb_storage rb) f l" "waiting rb = ring_seg (rb_storage rb) (f + l) w"
  using byte_at_counts [OF assms] ring_seg_mod [of "rb_storage rb" "f + l" w] assms
  by (simp_all add: lent_def waiting_def byte_at_def)

lemma byte_fits:
  assumes "byte_at f l w rb" and "0 < s" and "s \<le> xSize rb"
  shows "prvCheckItemFitsByteBuffer s rb = Inr (l + w + unat s \<le> rb_cap rb)"
proof -
  let ?N = "rb_cap rb"
  note a = assms(1) [unfolded byte_at_def]
  have N: "?N < 2 ^ 31" "f < ?N" "l + w \<le> ?N" using a by blast+
  have s: "0 < unat s" "unat s \<le> ?N"
    using assms(2,3) by (simp_all add: unat_gt_0 word_gt_0 rb_cap_def word_le_nat_alt)
  have acq: "pucAcquire rb = int ((f + l + w) mod ?N)" and fr: "pucFree rb = int f" using a by blast+
  have m: "(f + l + w) mod ?N = (if f + l + w < ?N then f + l + w else f + l + w - ?N)"
    using N by (intro mod_below_double) linarith
  have bounds: "acquire_in_bounds rb" using a N by (simp add: acquire_in_bounds_def)
  consider (eq) "pucAcquire rb = pucFree rb" | (below) "pucAcquire rb < pucFree rb" | (above) "pucFree rb < pucAcquire rb"
    by linarith
  then show ?thesis
  proof cases
    case eq
    then have "l + w = 0 \<or> l + w = ?N" using acq fr m N by (auto split: if_splits)
    with eq bounds a s N show ?thesis by (auto simp: prvCheckItemFitsByteBuffer_def)
  next
    case below
    then have "unat (ptr_diff (pucFree rb) (pucAcquire rb)) = ?N - (l + w)"
      using acq fr m N by (subst unat_ptr_diff) (auto split: if_splits)
    with below bounds N show ?thesis by (auto simp: prvCheckItemFitsByteBuffer_def word_le_nat_alt)
  next
    case above
    then have "unat (ptr_diff (pucAcquire rb) (pucFree rb)) = l + w"
      using acq fr m N by (subst unat_ptr_diff) (auto split: if_splits)
    then have "unat (xSize rb - ptr_diff (pucAcquire rb) (pucFree rb)) = ?N - (l + w)"
      using N(3) by (simp add: unat_sub word_le_nat_alt rb_cap_def)
    with above bounds N show ?thesis by (auto simp: prvCheckItemFitsByteBuffer_def word_le_nat_alt)
  qed
qed

subsection \<open>Copying bytes in\<close>

text \<open>Writing bytes from a position on, around the end of the storage.\<close>

definition ring_write :: "'a list \<Rightarrow> nat \<Rightarrow> 'a list \<Rightarrow> 'a list" where
  "ring_write st p bs =
     map (\<lambda>j. let d = (j + (length st - p)) mod length st in if d < length bs then bs ! d else st ! j) [0..<length st]"

lemma length_ring_write [simp]: "length (ring_write st p bs) = length st"
  by (simp add: ring_write_def)

lemma nth_ring_write:
  assumes "j < length st" and "p < length st"
  shows "ring_write st p bs ! j =
    (let d = (if p \<le> j then j - p else j + length st - p) in if d < length bs then bs ! d else st ! j)"
proof -
  have "(j + (length st - p)) mod length st = (if p \<le> j then j - p else j + length st - p)"
    using assms mod_below_double [of "j + (length st - p)" "length st"] by auto
  then show ?thesis using assms by (simp add: ring_write_def Let_def)
qed

lemma mem_write_ring:
  assumes "p < length st" and "p + length bs \<le> length st"
  shows "mem_write st (int p) bs = Inr (ring_write st p bs)"
proof -
  have "take p st @ bs @ drop (p + length bs) st = ring_write st p bs"
    using assms by (intro nth_equalityI) (auto simp: nth_ring_write nth_append Let_def)
  with assms show ?thesis by (simp add: mem_write_def)
qed

lemma ring_write_twice:
  assumes "p < length st" and "length st - p \<le> length bs" and "length bs \<le> length st"
  shows "ring_write (ring_write st p (take (length st - p) bs)) 0 (drop (length st - p) bs) = ring_write st p bs"
proof (rule nth_equalityI)
  fix j assume "j < length (ring_write (ring_write st p (take (length st - p) bs)) 0 (drop (length st - p) bs))"
  then have j: "j < length st" by simp
  then have "0 < length st" by linarith
  with assms j show "ring_write (ring_write st p (take (length st - p) bs)) 0 (drop (length st - p) bs) ! j = ring_write st p bs ! j"
    by (auto simp: nth_ring_write Let_def add.commute)
qed simp

lemma ring_seg_write_other:
  assumes "length st = N" and "n + length bs \<le> N" and "p = (q + n) mod N"
  shows "ring_seg (ring_write st p bs) q n = ring_seg st q n"
proof (rule nth_equalityI)
  fix i assume "i < length (ring_seg (ring_write st p bs) q n)"
  then have i: "i < n" by simp
  then have N: "0 < N" using assms(2) by simp
  define r where "r = q mod N"
  have r: "r < N" using N by (simp add: r_def)
  have i': "(q + i) mod N = (if r + i < N then r + i else r + i - N)"
    unfolding r_def using N i assms(2) by (intro ring_index) auto
  have p': "p = (if r + n < N then r + n else r + n - N)"
    unfolding r_def assms(3) using N assms(2) by (intro ring_index) auto
  have "ring_write st p bs ! ((q + i) mod N) = st ! ((q + i) mod N)"
    unfolding i' using assms(1,2) i r p' by (subst nth_ring_write) (auto simp: Let_def split: if_splits)
  with i assms(1) show "ring_seg (ring_write st p bs) q n ! i = ring_seg st q n ! i" by simp
qed simp

lemma ring_seg_write_same:
  assumes "length st = N" and "length bs \<le> N" and "0 < N" and "p = q mod N"
  shows "ring_seg (ring_write st p bs) q (length bs) = bs"
proof (rule nth_equalityI)
  fix i assume "i < length (ring_seg (ring_write st p bs) q (length bs))"
  then have i: "i < length bs" by simp
  have p: "p < N" using assms(3,4) by simp
  have "(q + i) mod N = (if p + i < N then p + i else p + i - N)"
    unfolding assms(4) using assms(2,3) i by (intro ring_index) auto
  with assms(1,2) i p have "ring_write st p bs ! ((q + i) mod N) = bs ! i"
    by (simp only:) (subst nth_ring_write, auto simp: Let_def split: if_splits)
  with i assms(1) show "ring_seg (ring_write st p bs) q (length bs) ! i = bs ! i" by simp
qed simp

lemma ring_seg_append: "ring_seg st q (m + n) = ring_seg st q m @ ring_seg st (q + m) n"
  by (rule nth_equalityI) (auto simp: nth_append add.assoc)

text \<open>The state after bytes have been copied in.\<close>

definition with_bytes :: "nat \<Rightarrow> u8 list \<Rightarrow> nat \<Rightarrow> Ringbuffer_t \<Rightarrow> Ringbuffer_t" where
  "with_bytes p bs w rb =
     (let a = int ((p + length bs) mod rb_cap rb) in
      (mark_if_full (rb\<lparr>rb_storage := ring_write (rb_storage rb) (p mod rb_cap rb) bs, pucAcquire := a,
                        xItemsWaiting := of_nat (w + length bs)\<rparr>))\<lparr>pucWrite := a\<rparr>)"

lemma copy_byte_eq:
  assumes "byte_at f l w rb" and "bs \<noteq> []" and "l + w + length bs \<le> rb_cap rb"
  shows "prvCopyItemByteBuf bs rb = Inr (with_bytes (f + l + w) bs w rb)"
proof -
  let ?N = "rb_cap rb" and ?p = "(f + l + w) mod rb_cap rb"
  note a = assms(1) [unfolded byte_at_def]
  have N: "?N < 2 ^ 31" "f < ?N" and len: "length (rb_storage rb) = ?N" using a by blast+
  have p: "?p < ?N" using N(2) by simp
  have acq: "pucAcquire rb = int ?p" "pucHead rb = 0" "pucTail rb = int ?N" "xItemsWaiting rb = of_nat w" using a by blast+
  have bounds: "acquire_in_bounds rb" using acq p by (simp add: acquire_in_bounds_def)
  have rem: "unat (ptr_diff (int ?N) (int ?p)) = ?N - ?p"
    using p N by (subst unat_ptr_diff) (auto simp: of_nat_diff)
  have bl: "unat (of_nat (length bs) :: u32) = length bs" using assms(3) N by (intro unat_of_nat_u32) simp
  have new: "(f + l + w + length bs) mod ?N = (if ?p + length bs < ?N then ?p + length bs else ?p + length bs - ?N)"
    using N(2) assms(3) by (intro ring_index) auto
  show ?thesis
  proof (cases "?N - ?p < length bs")
    case True
    have w1: "mem_write (rb_storage rb) (int ?p) (take (?N - ?p) bs) = Inr (ring_write (rb_storage rb) ?p (take (?N - ?p) bs))"
      using p len by (intro mem_write_ring) auto
    have "mem_write (ring_write (rb_storage rb) ?p (take (?N - ?p) bs)) (int 0) (drop (?N - ?p) bs) =
        Inr (ring_write (ring_write (rb_storage rb) ?p (take (?N - ?p) bs)) 0 (drop (?N - ?p) bs))"
      using p len assms(3) by (intro mem_write_ring) auto
    also have "\<dots> = Inr (ring_write (rb_storage rb) ?p bs)"
      using ring_write_twice [of ?p "rb_storage rb" bs] True p len assms(3) by simp
    finally have w2: "mem_write (ring_write (rb_storage rb) ?p (take (?N - ?p) bs)) 0 (drop (?N - ?p) bs) =
        Inr (ring_write (rb_storage rb) ?p bs)" by simp
    have "ptr_diff (int ?N) (int ?p) = of_nat (?N - ?p)"
      using p by (simp add: ptr_diff_def of_nat_diff)
    then have cnt: "of_nat w + ptr_diff (int ?N) (int ?p) + of_nat (length bs - (?N - ?p)) = (of_nat w + of_nat (length bs) :: u32)"
      using True by (simp add: of_nat_diff)
    from True have "ptr_diff (int ?N) (int ?p) < of_nat (length bs)" by (simp add: word_less_nat_alt rem bl)
    moreover have "\<not> ?p + length bs < ?N" using True by linarith
    then have "(f + l + w + length bs) mod ?N = ?p + length bs - ?N" by (simp only: new if_False)
    with True p assms(3) have "length bs - (?N - ?p) < ?N" "length bs - (?N - ?p) = (f + l + w + length bs) mod ?N"
      by linarith+
    ultimately show ?thesis
      using bounds w1 w2 acq
      by (simp add: prvCopyItemByteBuf_def rb_memcpy_def rem with_bytes_def mark_if_full_def Let_def rb_set_def
          cnt [unfolded \<open>length bs - (?N - ?p) = _\<close>])
  next
    case False
    then have "\<not> ptr_diff (int ?N) (int ?p) < of_nat (length bs)" by (simp add: word_less_nat_alt rem bl)
    moreover have "mem_write (rb_storage rb) (int ?p) bs = Inr (ring_write (rb_storage rb) ?p bs)"
      using p len False by (intro mem_write_ring) auto
    moreover have "(if int ?p + int (length bs) = int ?N then 0 else int ?p + int (length bs)) = int ((f + l + w + length bs) mod ?N)"
      using False new p by auto
    ultimately show ?thesis
      using bounds acq by (auto simp: prvCopyItemByteBuf_def rb_memcpy_def with_bytes_def mark_if_full_def Let_def rb_set_def)
  qed
qed

lemma with_bytes_frame [simp]:
  "xSize (with_bytes p bs w rb) = xSize rb" "rbType (with_bytes p bs w rb) = rbType rb"
  "xMaxItemSize (with_bytes p bs w rb) = xMaxItemSize rb" "pucHead (with_bytes p bs w rb) = pucHead rb"
  "pucTail (with_bytes p bs w rb) = pucTail rb" "pucFree (with_bytes p bs w rb) = pucFree rb"
  "pucRead (with_bytes p bs w rb) = pucRead rb" "rb_cap (with_bytes p bs w rb) = rb_cap rb"
  "rb_storage (with_bytes p bs w rb) = ring_write (rb_storage rb) (p mod rb_cap rb) bs"
  by (simp_all add: with_bytes_def mark_if_full_def rb_set_def rb_cap_def Let_def)

lemma rb_flag_frame:
  "rb_has f (rb_set g rb) \<longleftrightarrow> has_flag (uxRingbufferFlags rb OR g) f"
  "rb_has f (rb_clear g rb) \<longleftrightarrow> has_flag (uxRingbufferFlags rb AND NOT g) f"
  by (simp_all add: rb_has_def rb_set_def rb_clear_def)

lemma with_bytes_at:
  assumes "byte_at f l w rb" and "bs \<noteq> []" and "l + w + length bs \<le> rb_cap rb"
  shows "byte_at f l (w + length bs) (with_bytes (f + l + w) bs w rb)"
proof -
  let ?N = "rb_cap rb"
  note a = assms(1) [unfolded byte_at_def]
  have N: "f < ?N" and fr: "pucFree rb = int f" using a by blast+
  have wrap: "(f + (l + w + length bs)) mod ?N = f \<longleftrightarrow> l + w + length bs = ?N"
    using ring_index [of ?N "l + w + length bs" f] assms(2,3) N by (auto split: if_splits)
  have nf: "\<not> bit (uxRingbufferFlags rb) 2" using a assms(2,3) by (cases bs) (auto simp: rb_has_bit)
  show ?thesis
    using a assms(3) wrap nf
    by (auto simp: byte_at_def with_bytes_def mark_if_full_def Let_def rb_cap_def rb_has_bit rb_set_def full_flag_bits
        add.assoc)
qed

lemma with_bytes_contents:
  assumes "byte_at f l w rb" and "bs \<noteq> []" and "l + w + length bs \<le> rb_cap rb"
  shows "lent (with_bytes (f + l + w) bs w rb) = lent rb" "waiting (with_bytes (f + l + w) bs w rb) = waiting rb @ bs"
proof -
  let ?N = "rb_cap rb" and ?st = "ring_write (rb_storage rb) ((f + l + w) mod rb_cap rb) bs"
  note b = byte_at_bytes [OF assms(1)] byte_at_bytes [OF with_bytes_at [OF assms]]
  have len: "length (rb_storage rb) = ?N" "f < ?N" using assms(1) by (simp_all add: byte_at_def)
  have other: "ring_seg ?st f (l + w) = ring_seg (rb_storage rb) f (l + w)"
    using len assms(3) by (intro ring_seg_write_other) (auto simp: add.assoc)
  then have split: "ring_seg ?st f l = ring_seg (rb_storage rb) f l" "ring_seg ?st (f + l) w = ring_seg (rb_storage rb) (f + l) w"
    by (simp_all add: ring_seg_append)
  have "ring_seg ?st (f + l + w) (length bs) = bs" using len assms(3) by (intro ring_seg_write_same) auto
  with split b show "lent (with_bytes (f + l + w) bs w rb) = lent rb" "waiting (with_bytes (f + l + w) bs w rb) = waiting rb @ bs"
    by (simp_all add: ring_seg_append)
qed

subsection \<open>Lending and returning bytes\<close>

text \<open>
  How many bytes a reader gets at most: those up to the end of the storage, and no more than it
  asked for, where 0 asks for all.
\<close>

definition lend_size :: "nat \<Rightarrow> Ringbuffer_t \<Rightarrow> nat" where
  "lend_size m rb =
     (let c = min (waiting_count rb) (rb_cap rb - nat (pucRead rb)) in if m = 0 then c else min c m)"

lemma lend_size_bounds:
  assumes "byte_at f 0 w rb" and "0 < w"
  shows "0 < lend_size m rb" "lend_size m rb \<le> w" "f + lend_size m rb \<le> rb_cap rb" "m \<noteq> 0 \<Longrightarrow> lend_size m rb \<le> m"
  using assms byte_at_counts [OF assms(1)] by (auto simp: lend_size_def Let_def byte_at_def)

lemma something_to_read_iff:
  assumes "byte_at f l w rb" and "0 < w"
  shows "something_to_read rb"
proof -
  let ?N = "rb_cap rb"
  note a = assms(1) [unfolded byte_at_def]
  have N: "?N < 2 ^ 31" "f < ?N" "l + w \<le> ?N" using a by blast+
  have "0 < sint (xItemsWaiting rb)" using a assms(2) N by (simp add: sint_of_nat_u32)
  moreover have "(f + l) mod ?N \<noteq> (f + l + w) mod ?N" if "l + w \<noteq> ?N"
    using ring_index_distinct [of 0 w ?N "f + l"] N assms(2) that by simp
  ultimately show ?thesis using a by (auto simp: something_to_read_def)
qed

lemma byte_avail:
  assumes "byte_at f l w rb"
  shows "prvCheckItemAvail rb = Inr (l = 0 \<and> 0 < w)"
proof -
  let ?N = "rb_cap rb"
  note a = assms [unfolded byte_at_def]
  have N: "f < ?N" "l + w \<le> ?N" using a by blast+
  have away: "pucRead rb = pucFree rb \<longleftrightarrow> l = 0 \<or> l = ?N"
    using ring_index [of ?N l f] a N by (auto split: if_splits)
  have byte: "rb_has rbBYTE_BUFFER_FLAG rb" "rb_has (rbBYTE_BUFFER_FLAG OR rbALLOW_SPLIT_FLAG) rb"
    using a by (simp_all add: rb_has_bit)
  show ?thesis
  proof (cases "w = 0")
    case True
    then show ?thesis using a byte by (simp add: prvCheckItemAvail_def something_to_read_def)
  next
    case False
    with something_to_read_iff [OF assms] away byte N show ?thesis by (auto simp: prvCheckItemAvail_def)
  qed
qed

lemma get_byte_eq:
  assumes "byte_at f 0 w rb" and "0 < w"
  shows "\<exists>rb'. prvGetItemByteBuf m rb = Inr ((int f, of_nat (lend_size (unat m) rb)), rb') \<and>
    rb' = rb\<lparr>xItemsWaiting := of_nat (w - lend_size (unat m) rb), pucRead := int ((f + lend_size (unat m) rb) mod rb_cap rb)\<rparr>"
proof -
  let ?N = "rb_cap rb"
  note a = assms(1) [unfolded byte_at_def]
  have N: "?N < 2 ^ 31" "f < ?N" "w \<le> ?N" using a by simp_all
  have ptrs: "pucRead rb = int f" "pucWrite rb = int ((f + w) mod ?N)" "pucFree rb = int f" "pucHead rb = 0"
    "pucTail rb = int ?N" "xItemsWaiting rb = of_nat w" using a by simp_all
  have wr: "(f + w) mod ?N = (if f + w < ?N then f + w else f + w - ?N)" using ring_index [of ?N w f] N by simp
  define wraps where "wraps \<longleftrightarrow> pucWrite rb < pucRead rb \<or> rb_has rbBUFFER_FULL_FLAG rb"
  have wraps: "wraps \<longleftrightarrow> ?N \<le> f + w"
    using a ptrs wr N assms(2) by (auto simp: wraps_def split: if_splits)
  define c where "c = min w (?N - f)"
  have cc: "c = (if wraps then ?N - f else w)" using wraps by (auto simp: c_def min_def)
  have c: "c < 2 ^ 32" "0 < c" "c \<le> w" using N assms(2) by (simp_all add: c_def)
  have diff: "ptr_diff (if wraps then pucTail rb else pucWrite rb) (pucRead rb) = of_nat c"
    unfolding cc using wraps ptrs wr N(2) by (simp add: ptr_diff_def of_nat_diff)
  have ls: "lend_size (unat m) rb = (if m = 0 then c else min c (unat m))"
    using byte_at_counts [OF assms(1)] ptrs by (auto simp: lend_size_def c_def unat_eq_0)
  have u: "unat (of_nat c :: u32) = c" using c(1) by (rule unat_of_nat_u32)
  have nxt: "(if wraps then pucHead rb else pucWrite rb) = int ((f + c) mod ?N)"
    using wraps ptrs wr N by (auto simp: c_def)
  have eq: "prvGetItemByteBuf m rb =
    (if m = 0 \<or> of_nat c \<le> m
     then Inr ((int f, of_nat c), rb\<lparr>xItemsWaiting := of_nat w - of_nat c, pucRead := int ((f + c) mod ?N)\<rparr>)
     else Inr ((int f, m), rb\<lparr>xItemsWaiting := of_nat w - m, pucRead := int f + uint m\<rparr>))"
    unfolding prvGetItemByteBuf_def Let_def wraps_def [symmetric] diff nxt
    using something_to_read_iff [OF assms] ptrs N by simp
  show ?thesis
  proof (cases "m = 0 \<or> c \<le> unat m")
    case True
    then have "m = 0 \<or> (of_nat c :: u32) \<le> m" by (simp add: word_le_nat_alt u)
    moreover from True have "lend_size (unat m) rb = c" using ls by auto
    ultimately show ?thesis using eq c(3) by (simp add: of_nat_diff)
  next
    case False
    then have "\<not> (m = 0 \<or> (of_nat c :: u32) \<le> m)" by (simp add: word_le_nat_alt u)
    moreover from False have "lend_size (unat m) rb = unat m" "unat m \<le> w" "f + unat m < ?N" using ls c(3) by (auto simp: c_def)
    ultimately show ?thesis using eq by (simp add: of_nat_diff)
  qed
qed

text \<open>The state after a number of waiting bytes have been lent.\<close>

definition lend :: "nat \<Rightarrow> Ringbuffer_t \<Rightarrow> Ringbuffer_t" where
  "lend n rb = rb\<lparr>xItemsWaiting := of_nat (waiting_count rb - n),
                  pucRead := int ((nat (pucFree rb) + n) mod rb_cap rb)\<rparr>"

lemma lend_at: "byte_at f 0 w rb \<Longrightarrow> n \<le> w \<Longrightarrow> byte_at f n (w - n) (lend n rb)"
  using byte_at_counts [of f 0 w rb] by (auto simp: byte_at_def lend_def rb_cap_def rb_has_def)

lemma lend_contents:
  assumes "byte_at f 0 w rb" and "n \<le> w"
  shows "lent (lend n rb) = take n (waiting rb)" "waiting (lend n rb) = drop n (waiting rb)"
proof -
  have "ring_seg (rb_storage rb) f w = ring_seg (rb_storage rb) f n @ ring_seg (rb_storage rb) (f + n) (w - n)"
    using ring_seg_append [of "rb_storage rb" f n "w - n"] assms(2) by simp
  with byte_at_bytes [OF assms(1)] byte_at_bytes [OF lend_at [OF assms]]
  show "lent (lend n rb) = take n (waiting rb)" "waiting (lend n rb) = drop n (waiting rb)"
    by (simp_all add: lend_def)
qed

text \<open>The lent bytes are contiguous: the reader finds them at the address it was given.\<close>

lemma read_lent:
  assumes "byte_at f l w rb" and "f + l \<le> rb_cap rb"
  shows "mem_read (rb_storage rb) (int f) l = Inr (lent rb)"
proof -
  have len: "length (rb_storage rb) = rb_cap rb" using assms(1) by (simp add: byte_at_def)
  then have "take l (drop f (rb_storage rb)) = ring_seg (rb_storage rb) f l"
    using assms(2) by (intro nth_equalityI) auto
  with assms(2) len byte_at_bytes(1) [OF assms(1)] show ?thesis by (simp add: mem_read_def)
qed

lemma rb_cap_frame [simp]:
  "rb_cap (rb\<lparr>pucFree := x\<rparr>) = rb_cap rb" "rb_cap (rb_clear g rb) = rb_cap rb" "rb_cap (rb_set g rb) = rb_cap rb"
  "rb_cap (rb_wake_receiver rb) = rb_cap rb" "rb_cap (rb_wake_sender rb) = rb_cap rb"
  by (simp_all add: rb_cap_def rb_clear_def rb_set_def rb_wake_receiver_def rb_wake_sender_def)

definition returned :: "Ringbuffer_t \<Rightarrow> Ringbuffer_t" where
  "returned rb = (let rb1 = rb\<lparr>pucFree := pucRead rb\<rparr>
     in if rb_has rbBUFFER_FULL_FLAG rb1 then rb_clear rbBUFFER_FULL_FLAG rb1 else rb1)"

lemma return_byte_eq:
  "byte_at f l w rb \<Longrightarrow> p < rb_cap rb \<Longrightarrow> prvReturnItemByteBuf (int p) rb = Inr (returned rb)"
  by (simp add: prvReturnItemByteBuf_def returned_def byte_at_def Let_def)

lemma returned_at:
  assumes "byte_at f l w rb" and "0 < l \<or> w < rb_cap rb"
  shows "byte_at ((f + l) mod rb_cap rb) 0 w (returned rb)"
proof (cases "rb_has rbBUFFER_FULL_FLAG rb")
  case True
  then have f: "rb_has rbBUFFER_FULL_FLAG (rb\<lparr>pucFree := pucRead rb\<rparr>)" by (simp add: rb_has_def)
  show ?thesis unfolding returned_def Let_def if_P [OF f]
    using assms by (auto simp: byte_at_def rb_clear_def rb_has_bit full_flag_bits mod_add_left_eq rb_cap_def)
next
  case False
  then have f: "\<not> rb_has rbBUFFER_FULL_FLAG (rb\<lparr>pucFree := pucRead rb\<rparr>)" by (simp add: rb_has_def)
  show ?thesis unfolding returned_def Let_def if_not_P [OF f]
    using assms False by (auto simp: byte_at_def rb_has_bit mod_add_left_eq)
qed

lemma returned_contents:
  assumes "byte_at f l w rb" and "0 < l \<or> w < rb_cap rb"
  shows "lent (returned rb) = []" "waiting (returned rb) = waiting rb"
proof -
  have st: "rb_storage (returned rb) = rb_storage rb" "length (rb_storage rb) = rb_cap rb"
    using assms(1) by (simp_all add: returned_def Let_def rb_clear_def byte_at_def)
  have "ring_seg (rb_storage rb) ((f + l) mod rb_cap rb) w = ring_seg (rb_storage rb) (f + l) w"
    using ring_seg_mod [of "rb_storage rb" "f + l" w] st(2) by simp
  with byte_at_bytes [OF assms(1)] byte_at_bytes [OF returned_at [OF assms]] st(1)
  show "lent (returned rb) = []" "waiting (returned rb) = waiting rb" by (simp_all add: ring_seg_def)
qed

section \<open>Interface: a queue that lends its oldest elements\<close>

text \<open>
  A schedule of the operations of a writer and a reader. The reader looks at what it was lent when
  it gives it back, after any writes that came in between; the result collects what the queue
  accepted and what the reader saw.
\<close>

datatype 'a lend_op = Send "'a list" | Recv u32 | Give

fun run_lending ::
  "('a list \<Rightarrow> 's \<Rightarrow> (bool \<times> 's) res) \<Rightarrow> (u32 \<Rightarrow> 's \<Rightarrow> ('p option \<times> 's) res) \<Rightarrow>
   ('p \<Rightarrow> 's \<Rightarrow> 'a list res) \<Rightarrow> ('p \<Rightarrow> 's \<Rightarrow> 's res) \<Rightarrow> 'a lend_op list \<Rightarrow> 's \<Rightarrow> 'p option \<Rightarrow>
   ('a list \<times> 'a list \<times> 's \<times> 'p option) res" where
  "run_lending send recv peek give [] s h = Inr ([], [], s, h)"
| "run_lending send recv peek give (Send bs # ops) s h =
     bind_res (send bs s) (\<lambda>(ok, s1).
     bind_res (run_lending send recv peek give ops s1 h) (\<lambda>(acc, got, r). Inr ((if ok then bs else []) @ acc, got, r)))"
| "run_lending send recv peek give (Recv m # ops) s h =
     bind_res (recv m s) (\<lambda>(po, s1). run_lending send recv peek give ops s1 (case po of None \<Rightarrow> h | Some p \<Rightarrow> Some p))"
| "run_lending send recv peek give (Give # ops) s h =
     (case h of
        None \<Rightarrow> run_lending send recv peek give ops s h
      | Some p \<Rightarrow>
          bind_res (peek p s) (\<lambda>bs. bind_res (give p s) (\<lambda>s1.
          bind_res (run_lending send recv peek give ops s1 None) (\<lambda>(acc, got, r). Inr (acc, bs @ got, r)))))"

locale lending_fifo =
  fixes invar :: "'s \<Rightarrow> bool"
    and capacity :: "'s \<Rightarrow> nat"
    and on_loan :: "'s \<Rightarrow> 'a list"
    and queued :: "'s \<Rightarrow> 'a list"
    and holds :: "'p \<Rightarrow> 's \<Rightarrow> bool"
    and valid :: "'a list \<Rightarrow> bool"
    and send :: "'a list \<Rightarrow> 's \<Rightarrow> (bool \<times> 's) res"
    and recv :: "u32 \<Rightarrow> 's \<Rightarrow> ('p option \<times> 's) res"
    and peek :: "'p \<Rightarrow> 's \<Rightarrow> 'a list res"
    and give :: "'p \<Rightarrow> 's \<Rightarrow> 's res"
  assumes send_fits: "invar s \<Longrightarrow> valid bs \<Longrightarrow> length (on_loan s) + length (queued s) + length bs \<le> capacity s \<Longrightarrow>
      \<exists>s'. send bs s = Inr (True, s') \<and> invar s' \<and> capacity s' = capacity s \<and> on_loan s' = on_loan s \<and>
           queued s' = queued s @ bs \<and> (\<forall>p. holds p s \<longrightarrow> holds p s')"
    and send_refused: "invar s \<Longrightarrow> valid bs \<Longrightarrow> \<not> length (on_loan s) + length (queued s) + length bs \<le> capacity s \<Longrightarrow>
      send bs s = Inr (False, s)"
    and recv_lends: "invar s \<Longrightarrow> on_loan s = [] \<Longrightarrow> queued s \<noteq> [] \<Longrightarrow>
      \<exists>n p s'. 0 < n \<and> n \<le> length (queued s) \<and> (m \<noteq> 0 \<longrightarrow> n \<le> unat m) \<and> recv m s = Inr (Some p, s') \<and> invar s' \<and>
           capacity s' = capacity s \<and> on_loan s' = take n (queued s) \<and> queued s' = drop n (queued s) \<and> holds p s'"
    and recv_nothing: "invar s \<Longrightarrow> on_loan s \<noteq> [] \<or> queued s = [] \<Longrightarrow> recv m s = Inr (None, s)"
    and peek_holds: "invar s \<Longrightarrow> holds p s \<Longrightarrow> peek p s = Inr (on_loan s) \<and> on_loan s \<noteq> []"
    and give_returns: "invar s \<Longrightarrow> holds p s \<Longrightarrow>
      \<exists>s'. give p s = Inr s' \<and> invar s' \<and> capacity s' = capacity s \<and> on_loan s' = [] \<and> queued s' = queued s"
begin

definition linked :: "'s \<Rightarrow> 'p option \<Rightarrow> bool" where
  "linked s h \<longleftrightarrow> (case h of None \<Rightarrow> on_loan s = [] | Some p \<Rightarrow> holds p s)"

lemma send_cases:
  assumes "invar s" and "valid bs"
  obtains s' where "send bs s = Inr (True, s')" "invar s'" "on_loan s' = on_loan s" "queued s' = queued s @ bs"
    "\<And>p. holds p s \<Longrightarrow> holds p s'"
  | "send bs s = Inr (False, s)"
  using send_fits [OF assms] send_refused [OF assms] by blast

lemma recv_cases:
  assumes "invar s"
  obtains p s' where "recv m s = Inr (Some p, s')" "invar s'" "on_loan s = []" "on_loan s' @ queued s' = queued s" "holds p s'"
  | "recv m s = Inr (None, s)"
  using recv_lends [OF assms, of m] recv_nothing [OF assms, of m] by (metis append_take_drop_id)

text \<open>
  Whatever the order of the operations, nothing faults, and what the reader has seen, followed by
  what it holds and what still waits, is what was there followed by what was accepted.
\<close>

lemma stream:
  assumes "invar s" and "linked s h" and "\<forall>bs. Send bs \<in> set ops \<longrightarrow> valid bs"
  shows "\<exists>acc got s' h'. run_lending send recv peek give ops s h = Inr (acc, got, s', h') \<and> invar s' \<and> linked s' h' \<and>
    got @ on_loan s' @ queued s' = on_loan s @ queued s @ acc"
  using assms
proof (induction ops arbitrary: s h)
  case Nil
  then show ?case by simp
next
  case (Cons x ops)
  have ok: "\<forall>bs. Send bs \<in> set ops \<longrightarrow> valid bs" using Cons.prems(3) by simp
  show ?case
  proof (cases x)
    case (Send bs)
    then have "valid bs" using Cons.prems(3) by simp
    with Cons.prems(1) show ?thesis
    proof (cases rule: send_cases)
      case (1 s1)
      then have "linked s1 h" using Cons.prems(2) by (auto simp: linked_def split: option.splits)
      from Cons.IH [OF 1(2) this ok] 1(1,3,4) Send show ?thesis by auto
    next
      case 2
      from Cons.IH [OF Cons.prems(1,2) ok] 2 Send show ?thesis by auto
    qed
  next
    case (Recv m)
    from Cons.prems(1) show ?thesis
    proof (cases rule: recv_cases [of s m])
      case (1 p s1)
      from 1(5) have "linked s1 (Some p)" by (simp add: linked_def)
      from Cons.IH [OF 1(2) this ok] 1(1,3,4) Recv show ?thesis by auto
    next
      case 2
      from Cons.IH [OF Cons.prems(1,2) ok] 2 Recv show ?thesis by auto
    qed
  next
    case Give
    show ?thesis
    proof (cases h)
      case None
      with Cons.IH [OF Cons.prems(1,2) ok] Give show ?thesis by auto
    next
      case (Some p)
      with Cons.prems(2) have p: "holds p s" by (simp add: linked_def)
      from give_returns [OF Cons.prems(1) p] obtain s1 where
        s1: "give p s = Inr s1" "invar s1" "on_loan s1 = []" "queued s1 = queued s" by blast
      then have "linked s1 None" by (simp add: linked_def)
      from Cons.IH [OF s1(2) this ok] s1 peek_holds [OF Cons.prems(1) p] Some Give show ?thesis by auto
    qed
  qed
qed

text \<open>Receiving, looking and giving back at once takes elements from the front.\<close>

definition read_chunk :: "u32 \<Rightarrow> 's \<Rightarrow> ('a list option \<times> 's) res" where
  "read_chunk m s =
     bind_res (recv m s) (\<lambda>(po, s1).
     case po of
       None \<Rightarrow> Inr (None, s1)
     | Some p \<Rightarrow> bind_res (peek p s1) (\<lambda>bs. bind_res (give p s1) (\<lambda>s2. Inr (Some bs, s2))))"

lemma read_chunk_front:
  assumes "invar s" and "on_loan s = []" and "queued s \<noteq> []"
  shows "\<exists>n s'. 0 < n \<and> n \<le> length (queued s) \<and> (m \<noteq> 0 \<longrightarrow> n \<le> unat m) \<and> read_chunk m s = Inr (Some (take n (queued s)), s') \<and>
    invar s' \<and> on_loan s' = [] \<and> queued s' = drop n (queued s) \<and> capacity s' = capacity s"
proof -
  from recv_lends [OF assms, of m] obtain n p s1 where
    s1: "0 < n" "n \<le> length (queued s)" "m \<noteq> 0 \<longrightarrow> n \<le> unat m" "recv m s = Inr (Some p, s1)" "invar s1"
      "capacity s1 = capacity s" "on_loan s1 = take n (queued s)" "queued s1 = drop n (queued s)" "holds p s1" by blast
  from give_returns [OF s1(5,9)] obtain s2 where
    "give p s1 = Inr s2" "invar s2" "capacity s2 = capacity s1" "on_loan s2 = []" "queued s2 = queued s1" by blast
  with s1 peek_holds [OF s1(5,9)] show ?thesis by (auto simp: read_chunk_def)
qed

end

section \<open>Byte buffers lend their bytes\<close>

lemma wake_frame [simp]:
  "byte_at f l w (rb_wake_receiver rb) = byte_at f l w rb" "byte_at f l w (rb_wake_sender rb) = byte_at f l w rb"
  "rb_storage (rb_wake_receiver rb) = rb_storage rb" "rb_storage (rb_wake_sender rb) = rb_storage rb"
  "pucFree (rb_wake_receiver rb) = pucFree rb" "lent_count (rb_wake_receiver rb) = lent_count rb"
  "lent (rb_wake_receiver rb) = lent rb" "waiting (rb_wake_receiver rb) = waiting rb"
  "lent (rb_wake_sender rb) = lent rb" "waiting (rb_wake_sender rb) = waiting rb"
  by (simp_all add: rb_wake_receiver_def rb_wake_sender_def byte_at_def rb_cap_def rb_has_def lent_def waiting_def
      lent_count_def waiting_count_def)

text \<open>What a send of a number of bytes does to a byte buffer, and the state it leaves.\<close>

definition sent :: "u8 list \<Rightarrow> Ringbuffer_t \<Rightarrow> Ringbuffer_t" where
  "sent bs rb =
     (if bs = [] then rb
      else rb_wake_receiver (with_bytes (nat (pucFree rb) + lent_count rb + waiting_count rb) bs (waiting_count rb) rb))"

lemma sent_state:
  assumes "byte_inv rb" and "length (lent rb) + length (waiting rb) + length bs \<le> rb_cap rb"
  shows "byte_inv (sent bs rb)" "lent (sent bs rb) = lent rb" "waiting (sent bs rb) = waiting rb @ bs"
    "rb_cap (sent bs rb) = rb_cap rb" "pucFree (sent bs rb) = pucFree rb" "lent_count (sent bs rb) = lent_count rb"
proof -
  obtain f l w where at: "byte_at f l w rb" using assms(1) by (auto simp: byte_inv_iff)
  note c = byte_at_counts [OF at] and b = byte_at_bytes [OF at]
  have room: "l + w + length bs \<le> rb_cap rb" using assms(2) b by simp
  have "byte_at f l (w + length bs) (sent bs rb) \<and> lent (sent bs rb) = lent rb \<and> waiting (sent bs rb) = waiting rb @ bs"
  proof (cases "bs = []")
    case True
    then show ?thesis using at by (simp add: sent_def)
  next
    case False
    with with_bytes_at [OF at False room] with_bytes_contents [OF at False room] c show ?thesis by (simp add: sent_def)
  qed
  with byte_at_counts(2) [of f l "w + length bs" "sent bs rb"] c
  show "byte_inv (sent bs rb)" "lent (sent bs rb) = lent rb" "waiting (sent bs rb) = waiting rb @ bs"
    "lent_count (sent bs rb) = lent_count rb" by (auto simp: byte_inv_iff)
  show "rb_cap (sent bs rb) = rb_cap rb" "pucFree (sent bs rb) = pucFree rb" by (simp_all add: sent_def)
qed

lemma fits_iff:
  assumes "byte_inv rb" and "0 < n" and "n < 2 ^ 32"
  shows "\<not> xMaxItemSize rb < of_nat n \<and> xCheckItemFits (of_nat n) rb = Inr True \<longleftrightarrow>
      length (lent rb) + length (waiting rb) + n \<le> rb_cap rb"
    "xMaxItemSize rb < of_nat n \<or> (\<exists>b. xCheckItemFits (of_nat n) rb = Inr b)"
proof -
  obtain f l w where at: "byte_at f l w rb" using assms(1) by (auto simp: byte_inv_iff)
  note b = byte_at_bytes [OF at]
  have u: "unat (of_nat n :: u32) = n" using assms(3) by (rule unat_of_nat_u32)
  have nz: "0 < (of_nat n :: u32)" using assms(2) u by (simp add: word_less_nat_alt)
  have m: "xMaxItemSize rb < of_nat n \<longleftrightarrow> rb_cap rb < n" "rbType rb = RINGBUF_TYPE_BYTEBUF"
    using at u by (simp_all add: byte_at_def word_less_nat_alt rb_cap_def)
  have fit: "xCheckItemFits (of_nat n) rb = Inr (l + w + n \<le> rb_cap rb)" if "\<not> xMaxItemSize rb < of_nat n"
    using byte_fits [OF at nz] that at m(2) u by (simp add: xCheckItemFits_def byte_at_def)
  show "\<not> xMaxItemSize rb < of_nat n \<and> xCheckItemFits (of_nat n) rb = Inr True \<longleftrightarrow>
      length (lent rb) + length (waiting rb) + n \<le> rb_cap rb"
    using fit m(1) b by auto
  show "xMaxItemSize rb < of_nat n \<or> (\<exists>b. xCheckItemFits (of_nat n) rb = Inr b)" using fit by blast
qed

lemma copy_sent:
  assumes "byte_inv rb" and "bs \<noteq> []" and "length (lent rb) + length (waiting rb) + length bs \<le> rb_cap rb"
  shows "bind_res (vCopyItem bs rb) (\<lambda>rb1. f (rb_wake_receiver rb1)) = f (sent bs rb)"
proof -
  obtain fr l w where at: "byte_at fr l w rb" using assms(1) by (auto simp: byte_inv_iff)
  note c = byte_at_counts [OF at] and b = byte_at_bytes [OF at]
  have "l + w + length bs \<le> rb_cap rb" using assms(3) b by simp
  with copy_byte_eq [OF at assms(2)] c assms(2) at show ?thesis by (simp add: vCopyItem_def sent_def byte_at_def)
qed

lemma byte_flag: "byte_inv rb \<Longrightarrow> rb_has rbBYTE_BUFFER_FLAG rb"
  by (auto simp: byte_inv_iff byte_at_def)

lemma byte_inv_room:
  assumes "byte_inv rb"
  shows "length (lent rb) + length (waiting rb) \<le> rb_cap rb" "rb_cap rb < 2 ^ 31"
proof -
  obtain f l w where at: "byte_at f l w rb" using assms by (auto simp: byte_inv_iff)
  with byte_at_bytes [OF at] show "length (lent rb) + length (waiting rb) \<le> rb_cap rb" "rb_cap rb < 2 ^ 31"
    by (simp_all add: byte_at_def)
qed

lemma isr_send_fits:
  assumes "byte_inv rb" and "n \<le> length src" and "length (lent rb) + length (waiting rb) + n \<le> rb_cap rb" and "n < 2 ^ 32"
  shows "xRingbufferSendFromISR (Some rb) (Some src) (of_nat n) = Inr (pdTRUE, sent (take n src) rb)"
proof (cases "n = 0")
  case True
  then show ?thesis using byte_flag [OF assms(1)] by (simp add: xRingbufferSendFromISR_def sent_def)
next
  case False
  then have n: "0 < n" by simp
  have u: "unat (of_nat n :: u32) = n" using assms(4) by (rule unat_of_nat_u32)
  then have nz: "(of_nat n :: u32) \<noteq> 0" using n by (metis unat_0 less_irrefl)
  have "take n src \<noteq> []" using n assms(2) by auto
  from copy_sent [OF assms(1) this, of "\<lambda>r. Inr (pdTRUE, r)"] fits_iff(1) [OF assms(1) n assms(4)] assms(2,3) nz u
  show ?thesis by (simp add: xRingbufferSendFromISR_def item_of_def mem_read_def)
qed

lemma isr_send_refused:
  assumes "byte_inv rb" and "\<not> length (lent rb) + length (waiting rb) + n \<le> rb_cap rb" and "n < 2 ^ 32"
  shows "xRingbufferSendFromISR (Some rb) (Some src) (of_nat n) = Inr (pdFALSE, rb)"
proof -
  have n: "0 < n" using byte_inv_room(1) [OF assms(1)] assms(2) by simp
  then have nz: "(of_nat n :: u32) \<noteq> 0" using assms(3) by (metis unat_of_nat_u32 unat_0 less_irrefl)
  with fits_iff [OF assms(1) n assms(3)] assms(2) show ?thesis by (auto simp: xRingbufferSendFromISR_def)
qed

text \<open>The sends of tasks do the same, and do not wait when there is room.\<close>

lemma task_send_fits:
  assumes "byte_inv rb" and "n \<le> length src" and "length (lent rb) + length (waiting rb) + n \<le> rb_cap rb" and "n < 2 ^ 32"
  shows "xRingbufferSend e (Some rb) (Some src) (of_nat n) t k = Inr (pdTRUE, sent (take n src) rb, k)"
proof (cases "n = 0")
  case True
  then show ?thesis using byte_flag [OF assms(1)] by (simp add: xRingbufferSend_def sent_def)
next
  case False
  then have n: "0 < n" by simp
  have u: "unat (of_nat n :: u32) = n" using assms(4) by (rule unat_of_nat_u32)
  then have nz: "(of_nat n :: u32) \<noteq> 0" using n by (metis unat_0 less_irrefl)
  have ne: "take n src \<noteq> []" and len: "length (take n src) = n" using n assms(2) by auto
  note copy = copy_sent [OF assms(1) ne, of "\<lambda>r. Inr (Done (pdTRUE, None), r, k)"]
  have "prvSendAcquireGeneric_pass (Send_Item (take n src)) t None k rb = Inr (Done (pdTRUE, None), sent (take n src) rb, k)"
    using copy fits_iff(1) [OF assms(1) n assms(4)] assms(3) len by (simp add: prvSendAcquireGeneric_pass_def request_size_def)
  then show ?thesis
    using fits_iff(1) [OF assms(1) n assms(4)] assms(2,3) nz u
    by (simp add: xRingbufferSend_def item_of_def mem_read_def prvSendAcquireGeneric.simps)
qed

lemma task_send_refused:
  assumes "byte_inv rb" and "n \<le> length src" and "\<not> length (lent rb) + length (waiting rb) + n \<le> rb_cap rb" and "n < 2 ^ 32"
  shows "xRingbufferSend e (Some rb) (Some src) (of_nat n) 0 k = Inr (pdFALSE, rb, k)"
proof -
  have n: "0 < n" using byte_inv_room(1) [OF assms(1)] assms(3) by simp
  have u: "unat (of_nat n :: u32) = n" using assms(4) by (rule unat_of_nat_u32)
  then have nz: "(of_nat n :: u32) \<noteq> 0" using n by (metis unat_0 less_irrefl)
  have len: "length (take n src) = n" using assms(2) by simp
  have "prvSendAcquireGeneric_pass (Send_Item (take n src)) 0 None k rb = Inr (Done (pdFALSE, None), rb, k)"
    if "\<not> xMaxItemSize rb < of_nat n"
    using that fits_iff [OF assms(1) n assms(4)] assms(3) len by (auto simp: prvSendAcquireGeneric_pass_def request_size_def)
  then show ?thesis
    using assms(2) nz u by (simp add: xRingbufferSend_def item_of_def mem_read_def prvSendAcquireGeneric.simps)
qed

text \<open>Receiving lends the oldest bytes; a second receive gets nothing before they are returned.\<close>

definition rb_holds :: "rb_item \<Rightarrow> Ringbuffer_t \<Rightarrow> bool" where
  "rb_holds it rb \<longleftrightarrow> fst it = pucFree rb \<and> unat (snd it) = lent_count rb \<and> 0 < lent_count rb \<and>
     nat (pucFree rb) + lent_count rb \<le> rb_cap rb"

lemma retrieve_byte:
  assumes "byte_inv rb" and "lent rb = []" and "waiting rb \<noteq> []"
  shows "\<exists>n. 0 < n \<and> n \<le> length (waiting rb) \<and> (m \<noteq> 0 \<longrightarrow> n \<le> unat m) \<and>
    retrieve False m rb = Inr (((pucFree rb, of_nat n), None), lend n rb) \<and> prvCheckItemAvail rb = Inr True \<and>
    byte_inv (lend n rb) \<and> rb_holds (pucFree rb, of_nat n) (lend n rb) \<and>
    lent (lend n rb) = take n (waiting rb) \<and> waiting (lend n rb) = drop n (waiting rb)"
proof -
  obtain f l w where at0: "byte_at f l w rb" using assms(1) by (auto simp: byte_inv_iff)
  with assms(2,3) byte_at_bytes [OF at0] have lw: "l = 0" "0 < w" by (auto simp: ring_seg_def)
  note at = at0 [unfolded lw(1)]
  define n where "n = lend_size (unat m) rb"
  note bd = lend_size_bounds [OF at lw(2), of "unat m", folded n_def]
  have cap: "rb_cap rb < 2 ^ 31" "pucFree rb = int f" "rbType rb = RINGBUF_TYPE_BYTEBUF" "\<not> rb_has rbALLOW_SPLIT_FLAG rb"
    using at by (simp_all add: byte_at_def)
  note c = byte_at_counts [OF at]
  have get: "prvGetItemByteBuf m rb = Inr ((int f, of_nat n), lend n rb)"
    using get_byte_eq [OF at lw(2), of m] c by (simp add: lend_def n_def)
  have "\<not> rb_has rbALLOW_SPLIT_FLAG (lend n rb)" using cap(4) by (simp add: lend_def rb_has_def)
  with get cap(2,3) have ret: "retrieve False m rb = Inr (((pucFree rb, of_nat n), None), lend n rb)" by (simp add: retrieve_def)
  have at': "byte_at f n (w - n) (lend n rb)" using at bd(2) by (rule lend_at)
  have "rb_holds (pucFree rb, of_nat n) (lend n rb)"
    using byte_at_counts [OF at'] bd cap by (simp add: rb_holds_def lend_def unat_of_nat_u32 rb_cap_def)
  moreover have "m \<noteq> 0 \<longrightarrow> n \<le> unat m" using bd(4) by (auto simp: unat_eq_0)
  ultimately show ?thesis
    using ret bd(1,2) at' lend_contents [OF at bd(2)] byte_avail [OF at] lw(2) byte_at_bytes [OF at]
    by (intro exI [of _ n]) (auto simp: byte_inv_iff)
qed

lemma nothing_to_read:
  assumes "byte_inv rb" and "lent rb \<noteq> [] \<or> waiting rb = []"
  shows "prvCheckItemAvail rb = Inr False"
proof -
  obtain f l w where at: "byte_at f l w rb" using assms(1) by (auto simp: byte_inv_iff)
  from byte_avail [OF at] byte_at_bytes [OF at] assms(2) show ?thesis by (auto simp: ring_seg_def)
qed

lemma return_bytes:
  assumes "byte_inv rb" and "rb_holds it rb"
  shows "vRingbufferReturnItem (Some rb) (Some (fst it)) = Inr (rb_wake_sender (returned rb))"
    "byte_inv (rb_wake_sender (returned rb))" "lent (rb_wake_sender (returned rb)) = []"
    "waiting (rb_wake_sender (returned rb)) = waiting rb" "rb_cap (rb_wake_sender (returned rb)) = rb_cap rb"
proof -
  obtain f l w where at: "byte_at f l w rb" using assms(1) by (auto simp: byte_inv_iff)
  note c = byte_at_counts [OF at]
  have l: "0 < l \<or> w < rb_cap rb" and p: "fst it = int f" "f < rb_cap rb" "rbType rb = RINGBUF_TYPE_BYTEBUF"
    using assms(2) at c by (auto simp: rb_holds_def byte_at_def)
  show "vRingbufferReturnItem (Some rb) (Some (fst it)) = Inr (rb_wake_sender (returned rb))"
    using return_byte_eq [OF at p(2)] p by (simp add: vRingbufferReturnItem_def vReturnItem_def)
  show "byte_inv (rb_wake_sender (returned rb))" using returned_at [OF at l] by (auto simp: byte_inv_iff)
  show "lent (rb_wake_sender (returned rb)) = []" "waiting (rb_wake_sender (returned rb)) = waiting rb"
    using returned_contents [OF at l] by simp_all
  show "rb_cap (rb_wake_sender (returned rb)) = rb_cap rb" by (simp add: returned_def Let_def)
qed

lemma peek_bytes:
  assumes "byte_inv rb" and "rb_holds it rb"
  shows "mem_read (rb_storage rb) (fst it) (unat (snd it)) = Inr (lent rb)" "lent rb \<noteq> []"
proof -
  obtain f l w where at: "byte_at f l w rb" using assms(1) by (auto simp: byte_inv_iff)
  with assms(2) byte_at_counts [OF at] read_lent [OF at] byte_at_bytes [OF at]
  show "mem_read (rb_storage rb) (fst it) (unat (snd it)) = Inr (lent rb)" "lent rb \<noteq> []"
    by (auto simp: rb_holds_def byte_at_def ring_seg_def)
qed

text \<open>The operations a task uses without waiting.\<close>

definition rb_send0 :: "kernel \<Rightarrow> u8 list \<Rightarrow> Ringbuffer_t \<Rightarrow> (bool \<times> Ringbuffer_t) res" where
  "rb_send0 k bs rb =
     bind_res (xRingbufferSend [] (Some rb) (Some bs) (of_nat (length bs)) 0 k) (\<lambda>(r, rb', _). Inr (r = pdTRUE, rb'))"

definition rb_recv0 :: "kernel \<Rightarrow> u32 \<Rightarrow> Ringbuffer_t \<Rightarrow> (rb_item option \<times> Ringbuffer_t) res" where
  "rb_recv0 k m rb =
     bind_res (if m = 0 then xRingbufferReceive [] (Some rb) 0 k else xRingbufferReceiveUpTo [] (Some rb) 0 m k)
       (\<lambda>(it, rb', _). Inr (it, rb'))"

definition rb_peek :: "rb_item \<Rightarrow> Ringbuffer_t \<Rightarrow> u8 list res" where
  "rb_peek it rb = mem_read (rb_storage rb) (fst it) (unat (snd it))"

definition rb_give :: "rb_item \<Rightarrow> Ringbuffer_t \<Rightarrow> Ringbuffer_t res" where
  "rb_give it rb = vRingbufferReturnItem (Some rb) (Some (fst it))"

lemma recv_byte:
  "byte_inv rb \<Longrightarrow> prvCheckItemAvail rb = Inr True \<Longrightarrow> retrieve False m rb = Inr ((it, None), rb') \<Longrightarrow>
   xRingbufferReceive e (Some rb) t k = Inr (Some it, rb', k) \<or> m \<noteq> 0"
  "byte_inv rb \<Longrightarrow> prvCheckItemAvail rb = Inr True \<Longrightarrow> retrieve False m rb = Inr ((it, None), rb') \<Longrightarrow> m \<noteq> 0 \<Longrightarrow>
   xRingbufferReceiveUpTo e (Some rb) t m k = Inr (Some it, rb', k)"
  "byte_inv rb \<Longrightarrow> prvCheckItemAvail rb = Inr False \<Longrightarrow> xRingbufferReceive e (Some rb) 0 k = Inr (None, rb, k)"
  "byte_inv rb \<Longrightarrow> prvCheckItemAvail rb = Inr False \<Longrightarrow> xRingbufferReceiveUpTo e (Some rb) 0 m k = Inr (None, rb, k)"
  using byte_flag [of rb]
  by (auto simp: xRingbufferReceive_def xRingbufferReceiveUpTo_def prvReceiveGeneric.simps prvReceiveGeneric_pass_def)

interpretation byte_buffer: lending_fifo byte_inv rb_cap lent waiting rb_holds "\<lambda>bs. length bs < 2 ^ 32"
  "rb_send0 k" "rb_recv0 k" rb_peek rb_give for k
proof (unfold_locales, goal_cases)
  case (1 rb bs)
  then have "rb_send0 k bs rb = Inr (True, sent bs rb)"
    using task_send_fits [of rb "length bs" bs "[]" 0 k] by (simp add: rb_send0_def)
  with sent_state [of rb bs] 1 show ?case by (auto simp: rb_holds_def)
next
  case (2 rb bs)
  then show ?case using task_send_refused [of rb "length bs" bs "[]" k] by (simp add: rb_send0_def basetype_defs)
next
  case (3 rb m)
  from retrieve_byte [OF 3, of m] obtain n where
    n: "0 < n" "n \<le> length (waiting rb)" "m \<noteq> 0 \<longrightarrow> n \<le> unat m" "retrieve False m rb = Inr (((pucFree rb, of_nat n), None), lend n rb)"
      "prvCheckItemAvail rb = Inr True" "byte_inv (lend n rb)" "rb_holds (pucFree rb, of_nat n) (lend n rb)"
      "lent (lend n rb) = take n (waiting rb)" "waiting (lend n rb) = drop n (waiting rb)" by blast
  then have "rb_recv0 k m rb = Inr (Some (pucFree rb, of_nat n), lend n rb)"
    using recv_byte(1,2) [OF 3(1) n(5), of m] by (fastforce simp: rb_recv0_def)
  moreover have "rb_cap (lend n rb) = rb_cap rb" by (simp add: lend_def rb_cap_def)
  ultimately show ?case using n by blast
next
  case (4 rb m)
  with nothing_to_read [OF 4] recv_byte(3,4) [OF 4(1)] show ?case by (simp add: rb_recv0_def)
next
  case (5 rb it)
  then show ?case using peek_bytes [OF 5] by (simp add: rb_peek_def)
next
  case (6 rb it)
  then show ?case using return_bytes [OF 6] by (simp add: rb_give_def)
qed

section \<open>New buffers and free space\<close>

definition fresh_bytebuf :: "(nat \<Rightarrow> u8) \<Rightarrow> u32 \<Rightarrow> Ringbuffer_t" where
  "fresh_bytebuf junk n = prvInitializeNewRingbuffer n RINGBUF_TYPE_BYTEBUF (map junk [0..<unat n])"

lemma fresh_bytebuf_at:
  assumes "0 < n" and "unat n < 2 ^ 31"
  shows "byte_at 0 0 0 (fresh_bytebuf junk n)" "byte_at 0 0 0 (rb_set rbBUFFER_STATIC_FLAG (fresh_bytebuf junk n))"
proof -
  have n: "0 < unat n" using assms(1) by (simp add: word_less_nat_alt)
  have b: "bit rbBYTE_BUFFER_FLAG m \<longleftrightarrow> m = 1" "bit rbBUFFER_STATIC_FLAG m \<longleftrightarrow> m = 3" for m
  proof -
    have "bit (2 ^ 1 :: u32) m \<longleftrightarrow> m = 1" "bit (2 ^ 3 :: u32) m \<longleftrightarrow> m = 3"
      by (auto simp only: bit_exp_iff possible_bit_word) simp_all
    then show "bit rbBYTE_BUFFER_FLAG m \<longleftrightarrow> m = 1" "bit rbBUFFER_STATIC_FLAG m \<longleftrightarrow> m = 3"
      by (simp_all add: rbBYTE_BUFFER_FLAG_def rbBUFFER_STATIC_FLAG_def)
  qed
  show "byte_at 0 0 0 (fresh_bytebuf junk n)" "byte_at 0 0 0 (rb_set rbBUFFER_STATIC_FLAG (fresh_bytebuf junk n))"
    using n assms(2)
    by (simp_all add: byte_at_def fresh_bytebuf_def prvInitializeNewRingbuffer_def rb_cap_def rb_has_bit b rb_set_def bit_or_iff)
qed

lemma fresh_bytebuf_state:
  assumes "0 < n" and "unat n < 2 ^ 31"
  shows "byte_inv (fresh_bytebuf junk n)" "lent (fresh_bytebuf junk n) = []" "waiting (fresh_bytebuf junk n) = []"
    "rb_cap (fresh_bytebuf junk n) = unat n"
  using fresh_bytebuf_at(1) [OF assms, of junk] byte_at_bytes [OF fresh_bytebuf_at(1) [OF assms, of junk]]
  by (auto simp: byte_inv_iff ring_seg_def fresh_bytebuf_def prvInitializeNewRingbuffer_def rb_cap_def)

lemma static_bytebuf_state:
  assumes "0 < n" and "unat n < 2 ^ 31"
  shows "byte_inv (rb_set rbBUFFER_STATIC_FLAG (fresh_bytebuf junk n))"
    "lent (rb_set rbBUFFER_STATIC_FLAG (fresh_bytebuf junk n)) = []"
    "waiting (rb_set rbBUFFER_STATIC_FLAG (fresh_bytebuf junk n)) = []"
  using fresh_bytebuf_at(2) [OF assms, of junk] byte_at_bytes [OF fresh_bytebuf_at(2) [OF assms, of junk]]
  by (auto simp: byte_inv_iff ring_seg_def)

lemma create_bytebuf: "0 < n \<Longrightarrow> xRingbufferCreate True (Some junk) n RINGBUF_TYPE_BYTEBUF = Inr (Some (fresh_bytebuf junk n))"
  by (simp add: xRingbufferCreate_def aligned_size_def fresh_bytebuf_def)

lemma create_bytebuf_caps:
  "0 < n \<Longrightarrow> xRingbufferCreateWithCaps True (Some junk) n RINGBUF_TYPE_BYTEBUF =
     Inr (Some (rb_set rbBUFFER_STATIC_FLAG (fresh_bytebuf junk n)))"
  by (simp add: xRingbufferCreateWithCaps_def xRingbufferCreateStatic_def aligned_size_def fresh_bytebuf_def)

lemma byte_free_size:
  assumes "byte_inv rb"
  shows "unat (prvGetCurMaxSizeByteBuf rb) = rb_cap rb - (length (lent rb) + length (waiting rb))"
    "prvGetFreeSize rb = Inr (prvGetCurMaxSizeByteBuf rb)"
proof -
  let ?N = "rb_cap rb"
  obtain f l w where at: "byte_at f l w rb" using assms by (auto simp: byte_inv_iff)
  note a = at [unfolded byte_at_def]
  have N: "?N < 2 ^ 31" "f < ?N" "l + w \<le> ?N" "uint (xSize rb) = int ?N" using a by (simp_all add: rb_cap_def)
  have acq: "pucAcquire rb = int ((f + (l + w)) mod ?N)" "pucFree rb = int f" using a by (simp_all add: add.assoc)
  have "(if pucFree rb - pucAcquire rb \<le> 0 then pucFree rb - pucAcquire rb + uint (xSize rb)
         else pucFree rb - pucAcquire rb) = int (?N - (l + w))" if "l + w \<noteq> ?N"
    using ring_index [of ?N "l + w" f] N that acq by (auto split: if_splits)
  then have m: "prvGetCurMaxSizeByteBuf rb = of_nat (?N - (l + w))"
    using a by (cases "l + w = ?N") (simp_all only: prvGetCurMaxSizeByteBuf_def Let_def, simp_all)
  then show u: "unat (prvGetCurMaxSizeByteBuf rb) = ?N - (length (lent rb) + length (waiting rb))"
    using byte_at_bytes [OF at] N(1) by (simp add: unat_of_nat_u32)
  have "prvGetCurMaxSizeByteBuf rb \<le> xSize rb" by (simp add: word_le_nat_alt u rb_cap_def [symmetric])
  then show "prvGetFreeSize rb = Inr (prvGetCurMaxSizeByteBuf rb)"
    by (simp add: prvGetFreeSize_def prvGetCurMaxSizeByteBuf_def Let_def)
qed

section \<open>Properties\<close>

text \<open>
  C20. A new byte buffer of any size below 2 GB, under any schedule of sends by writers and of
  receives (of all or up to a number of bytes) and returns by a reader: no operation faults, and
  the bytes the reader saw, followed by those it holds and those still waiting, are exactly the
  accepted bytes in their order, even when writes wrapped around the storage while bytes were lent.
\<close>

theorem byte_buffer_stream:
  assumes "0 < n" and "unat n < 2 ^ 31" and "\<forall>bs. Send bs \<in> set ops \<longrightarrow> length bs < 2 ^ 32"
  shows "\<exists>rb acc got rb' h. xRingbufferCreate True (Some junk) n RINGBUF_TYPE_BYTEBUF = Inr (Some rb) \<and>
    run_lending (rb_send0 k) (rb_recv0 k) rb_peek rb_give ops rb None = Inr (acc, got, rb', h) \<and>
    byte_inv rb' \<and> got @ lent rb' @ waiting rb' = acc"
proof -
  note fresh = fresh_bytebuf_state [OF assms(1,2), of junk]
  have "byte_buffer.linked (fresh_bytebuf junk n) None" using fresh(2) by (simp add: byte_buffer.linked_def)
  from byte_buffer.stream [OF fresh(1) this assms(3), of k] create_bytebuf [OF assms(1), of junk] fresh(2,3)
  show ?thesis by fastforce
qed

theorem byte_buffer_stream_witness:
  "\<exists>rb acc got rb' h. xRingbufferCreate True (Some (\<lambda>_. 0)) 4 RINGBUF_TYPE_BYTEBUF = Inr (Some rb) \<and>
    run_lending (rb_send0 demo_kernel) (rb_recv0 demo_kernel) rb_peek rb_give
      [Send [1, 2, 3], Recv 2, Send [4], Give, Send [5, 6], Recv 0, Give, Recv 0] rb None = Inr (acc, got, rb', h) \<and>
    byte_inv rb' \<and> got @ lent rb' @ waiting rb' = acc"
  by (rule byte_buffer_stream) auto

text \<open>
  The free space a byte buffer reports is its size less the bytes lent and waiting, the two
  routines that compute it agree, and a send of n bytes that does not wait succeeds exactly if n is
  at most the reported space; it appends the bytes, and a refused send changes nothing.
\<close>

theorem byte_buffer_space:
  assumes "byte_inv rb" and "length bs < 2 ^ 32"
  shows "\<exists>s. xRingbufferGetCurFreeSize (Some rb) = Inr s \<and> prvGetFreeSize rb = Inr s \<and>
    unat s + length (lent rb) + length (waiting rb) = rb_cap rb \<and>
    (if length bs \<le> unat s
     then \<exists>rb'. xRingbufferSend [] (Some rb) (Some bs) (of_nat (length bs)) 0 k = Inr (pdTRUE, rb', k) \<and>
            byte_inv rb' \<and> lent rb' = lent rb \<and> waiting rb' = waiting rb @ bs
     else xRingbufferSend [] (Some rb) (Some bs) (of_nat (length bs)) 0 k = Inr (pdFALSE, rb, k))"
proof -
  note free = byte_free_size [OF assms(1)] and room = byte_inv_room(1) [OF assms(1)]
  have "rbType rb = RINGBUF_TYPE_BYTEBUF" using assms(1) by (auto simp: byte_inv_iff byte_at_def)
  then have "xRingbufferGetCurFreeSize (Some rb) = Inr (prvGetCurMaxSizeByteBuf rb)"
    by (simp add: xRingbufferGetCurFreeSize_def xGetCurMaxSize_def)
  moreover have "\<not> length bs \<le> unat (prvGetCurMaxSizeByteBuf rb) \<Longrightarrow>
      \<not> length (lent rb) + length (waiting rb) + length bs \<le> rb_cap rb" using free(1) by simp
  moreover have "length bs \<le> unat (prvGetCurMaxSizeByteBuf rb) \<Longrightarrow>
      length (lent rb) + length (waiting rb) + length bs \<le> rb_cap rb" using free(1) room by simp
  ultimately show ?thesis
    using free room task_send_fits [OF assms(1), of "length bs" bs "[]" 0 k] sent_state [OF assms(1), of bs]
      task_send_refused [OF assms(1), of "length bs" bs "[]" k] assms(2) by auto
qed

theorem byte_buffer_space_witness:
  "\<exists>s. xRingbufferGetCurFreeSize (Some (fresh_bytebuf (\<lambda>_. 0) 4)) = Inr s \<and> prvGetFreeSize (fresh_bytebuf (\<lambda>_. 0) 4) = Inr s \<and>
    unat s + length (lent (fresh_bytebuf (\<lambda>_. 0) 4)) + length (waiting (fresh_bytebuf (\<lambda>_. 0) 4)) = rb_cap (fresh_bytebuf (\<lambda>_. 0) 4)"
proof -
  have "byte_inv (fresh_bytebuf (\<lambda>_. 0) 4)" by (rule fresh_bytebuf_state) simp_all
  from byte_buffer_space [OF this, of "[7]"] show ?thesis by auto
qed

text \<open>
  A no-split buffer created with a size of 5 to 8 bytes writes outside its storage on the first
  item that is not empty: its greatest item size, the rounded half less the 8 bytes of a header, is
  computed modulo the word size and becomes almost 4 GB, so no item is too long, and an empty buffer
  is taken to have room.
\<close>

theorem tiny_no_split_buffer_overflows:
  assumes "4 < n" and "n \<le> 8" and "bs \<noteq> []" and "length bs < 2 ^ 31"
  shows "\<exists>rb. xRingbufferCreate True (Some junk) n RINGBUF_TYPE_NOSPLIT = Inr (Some rb) \<and>
    xMaxItemSize rb = 0xFFFFFFFC \<and>
    xRingbufferSend [] (Some rb) (Some bs) (of_nat (length bs)) 0 k = Inl Out_of_bounds"
proof -
  have "unat n \<in> {5, 6, 7, 8}" using assms(1,2) by (auto simp: word_less_nat_alt word_le_nat_alt)
  then have "n \<in> {5, 6, 7, 8}" by (auto simp: word_unat_eq_iff)
  then have al: "aligned_size RINGBUF_TYPE_NOSPLIT n = 8" by (auto simp: aligned_size_def rbALIGN_SIZE_def)
  let ?rb = "prvInitializeNewRingbuffer 8 RINGBUF_TYPE_NOSPLIT (map junk [0..<8])"
  have create: "xRingbufferCreate True (Some junk) n RINGBUF_TYPE_NOSPLIT = Inr (Some ?rb)"
    using \<open>n \<in> {5, 6, 7, 8}\<close> al by (auto simp: xRingbufferCreate_def)
  have mx: "xMaxItemSize ?rb = 0xFFFFFFFC"
    by (simp add: prvInitializeNewRingbuffer_def rbALIGN_SIZE_def rbHEADER_SIZE_def)
  have hl: "length (header_bytes h) = 8" for h by (simp add: header_bytes_def word_bytes_def)
  have u: "unat (of_nat (length bs) :: u32) = length bs" using assms(4) by (simp add: unat_of_nat_u32)
  have small: "\<not> 0xFFFFFFFC < (of_nat (length bs) :: u32)" using assms(4) by (simp add: word_less_nat_alt u)
  have "vCopyItem bs ?rb = Inl Out_of_bounds"
    using assms(3)
    by (auto simp: vCopyItem_def prvCopyItemNoSplit_def prvAcquireItemNoSplit_def prvInitializeNewRingbuffer_def
        acquire_in_bounds_def rbCHECK_ALIGNED_def ptr_diff_def rbHEADER_SIZE_def put_header_def rb_memcpy_def mem_write_def
        hl mark_if_full_def rb_set_def Let_def)
  moreover have "xCheckItemFits s ?rb = Inr True" for s
    by (simp add: xCheckItemFits_def prvCheckItemFitsDefault_def prvInitializeNewRingbuffer_def acquire_in_bounds_def
        rbCHECK_ALIGNED_def rb_has_def has_flag_def)
  moreover have "\<not> rb_has rbBYTE_BUFFER_FLAG ?rb" by (simp add: prvInitializeNewRingbuffer_def rb_has_def has_flag_def)
  ultimately have "xRingbufferSend [] (Some ?rb) (Some bs) (of_nat (length bs)) 0 k = Inl Out_of_bounds"
    using mx small u
    by (simp add: xRingbufferSend_def item_of_def mem_read_def prvSendAcquireGeneric.simps prvSendAcquireGeneric_pass_def)
  with create mx show ?thesis by blast
qed

theorem tiny_no_split_buffer_overflows_witness:
  "\<exists>rb. xRingbufferCreate True (Some (\<lambda>_. 0)) 8 RINGBUF_TYPE_NOSPLIT = Inr (Some rb) \<and> xMaxItemSize rb = 0xFFFFFFFC \<and>
    xRingbufferSend [] (Some rb) (Some [1, 2, 3]) 3 0 demo_kernel = Inl Out_of_bounds"
  using tiny_no_split_buffer_overflows [of 8 "[1, 2, 3]" "\<lambda>_. 0" demo_kernel] by simp

end
