(* ===== verification/NoSplit.thy ===== *)
theory NoSplit
  imports RingBuffer
begin

text \<open>
  No-split ring buffers as queues of items (\<^verbatim>\<open>esp_ringbuf/ringbuf.c\<close>). An item is stored in one piece behind
  a header; where it does not fit before the end of the storage a dummy header is written there and the
  item goes to the start. The four pointers and the headers stand for a list of items of which the
  oldest may be on loan: sending, receiving and returning an item act on that list, as long as the
  reader holds at most one item. With two on loan the buffer may forget one of them.
\<close>

section \<open>Sizes\<close>

definition al4 :: "nat \<Rightarrow> nat" where
  "al4 n = (n + 3) div 4 * 4"

lemma al4_bounds: "n \<le> al4 n" "al4 n \<le> n + 3"
  by (simp_all add: al4_def)

lemma al4_dvd [simp]: "al4 n mod 4 = 0"
  by (simp add: al4_def)

lemma al4_least: "n \<le> m \<Longrightarrow> m mod 4 = 0 \<Longrightarrow> al4 n \<le> m"
  by (simp add: al4_def) presburger

lemma and_not_mask_eq: "(w :: u32) AND NOT (mask k) = push_bit k (drop_bit k w)"
  by (rule bit_eqI) (auto simp: bit_and_iff bit_not_iff bit_push_bit_iff bit_drop_bit_eq possible_bit_def bit_mask_iff not_less)

lemma unat_align:
  assumes "unat n + 3 < 2 ^ 32"
  shows "unat (rbALIGN_SIZE n) = al4 (unat n)"
proof -
  have "rbALIGN_SIZE n = (n + 3) AND NOT (mask 2)" by (simp add: rbALIGN_SIZE_def mask_eq_exp_minus_1)
  also have "\<dots> = push_bit 2 (drop_bit 2 (n + 3))" by (rule and_not_mask_eq)
  finally have "rbALIGN_SIZE n = push_bit 2 (drop_bit 2 (n + 3))" .
  moreover have "unat (n + 3) = unat n + 3" using assms by (subst unat_add_lem [THEN iffD1]) simp_all
  moreover have "(unat n + 3) div 4 * 4 < 2 ^ 32" using assms by (meson div_times_less_eq_dividend le_less_trans)
  ultimately show ?thesis
    by (simp add: al4_def unsigned_push_bit_eq unsigned_drop_bit_eq take_bit_nat_def push_bit_nat_def drop_bit_nat_def)
qed

text \<open>The bytes an item takes with its header, and a part of the storage.\<close>

definition need :: "u8 list \<Rightarrow> nat" where
  "need bs = 8 + al4 (length bs)"

definition part :: "u8 list \<Rightarrow> nat \<Rightarrow> nat \<Rightarrow> u8 list" where
  "part st p n = take n (drop p st)"

definition patch :: "u8 list \<Rightarrow> nat \<Rightarrow> u8 list \<Rightarrow> u8 list" where
  "patch st p bs = take p st @ bs @ drop (p + length bs) st"

lemma mem_read_part: "p + n \<le> length st \<Longrightarrow> mem_read st (int p) n = Inr (part st p n)"
  by (simp add: mem_read_def part_def)

lemma mem_write_patch: "p + length bs \<le> length st \<Longrightarrow> mem_write st (int p) bs = Inr (patch st p bs)"
  by (simp add: mem_write_def patch_def)

lemma length_patch [simp]: "p + length bs \<le> length st \<Longrightarrow> length (patch st p bs) = length st"
  by (simp add: patch_def)

lemma part_eqI:
  assumes "length st' = length st" and "\<And>i. p \<le> i \<Longrightarrow> i < p + n \<Longrightarrow> st' ! i = st ! i"
  shows "part st' p n = part st p n"
  using assms by (intro nth_equalityI) (auto simp: part_def)

lemma nth_patch: "p + length bs \<le> length st \<Longrightarrow> i < length st \<Longrightarrow>
    patch st p bs ! i = (if p \<le> i \<and> i < p + length bs then bs ! (i - p) else st ! i)"
  by (auto simp: patch_def nth_append)

lemma part_patch_same: "p + length bs \<le> length st \<Longrightarrow> part (patch st p bs) p (length bs) = bs"
  by (simp add: part_def patch_def)

lemma part_patch_other:
  "p + length bs \<le> length st \<Longrightarrow> q + n \<le> length st \<Longrightarrow> q + n \<le> p \<or> p + length bs \<le> q \<Longrightarrow>
   part (patch st p bs) q n = part st q n"
  by (rule part_eqI) (auto simp: nth_patch)

section \<open>Headers\<close>

lemma length_header_bytes [simp]: "length (header_bytes h) = 8"
  by (simp add: header_bytes_def)

lemma bytes_header_of_header [simp]: "bytes_header (header_bytes h) = h"
  by (cases h) (simp add: bytes_header_def header_bytes_def)

definition written :: "nat \<Rightarrow> ItemHeader_t" where
  "written n = \<lparr>xItemLen = of_nat n, uxItemFlags = rbITEM_WRITTEN_FLAG\<rparr>"

definition passed_dummy :: ItemHeader_t where
  "passed_dummy = \<lparr>xItemLen = 0, uxItemFlags = rbITEM_DUMMY_DATA_FLAG OR rbITEM_WRITTEN_FLAG\<rparr>"

lemma get_header_eq:
  "part (rb_storage rb) p 8 = header_bytes h \<Longrightarrow> p + 8 \<le> length (rb_storage rb) \<Longrightarrow> get_header (int p) rb = Inr h"
  by (simp add: get_header_def mem_read_part)

lemma get_header_some: "p + 8 \<le> length (rb_storage rb) \<Longrightarrow> \<exists>h. get_header (int p) rb = Inr h"
  by (simp add: get_header_def mem_read_part)

lemma put_header_eq:
  "p + 8 \<le> length (rb_storage rb) \<Longrightarrow> put_header (int p) h rb = Inr (rb\<lparr>rb_storage := patch (rb_storage rb) p (header_bytes h)\<rparr>)"
  by (simp add: put_header_def rb_memcpy_def mem_write_patch)

lemmas item_flag_defs = rbITEM_FREE_FLAG_def rbITEM_DUMMY_DATA_FLAG_def rbITEM_SPLIT_FLAG_def rbITEM_WRITTEN_FLAG_def

lemma item_flags [simp]:
  "has_flag rbITEM_WRITTEN_FLAG rbITEM_WRITTEN_FLAG" "\<not> has_flag rbITEM_WRITTEN_FLAG rbITEM_DUMMY_DATA_FLAG"
  "\<not> has_flag rbITEM_WRITTEN_FLAG rbITEM_FREE_FLAG" "\<not> has_flag rbITEM_WRITTEN_FLAG rbITEM_SPLIT_FLAG"
  "\<not> has_flag 0 f" "has_flag rbITEM_DUMMY_DATA_FLAG rbITEM_DUMMY_DATA_FLAG"
  "has_flag (rbITEM_DUMMY_DATA_FLAG OR rbITEM_WRITTEN_FLAG) rbITEM_DUMMY_DATA_FLAG"
  "has_flag (rbITEM_DUMMY_DATA_FLAG OR rbITEM_WRITTEN_FLAG) rbITEM_WRITTEN_FLAG"
  "has_flag ((rbITEM_WRITTEN_FLAG AND NOT rbITEM_SPLIT_FLAG) OR rbITEM_FREE_FLAG) rbITEM_FREE_FLAG"
  "\<not> has_flag ((rbITEM_WRITTEN_FLAG AND NOT rbITEM_SPLIT_FLAG) OR rbITEM_FREE_FLAG) rbITEM_DUMMY_DATA_FLAG"
  "(0 AND NOT rbITEM_SPLIT_FLAG) OR rbITEM_WRITTEN_FLAG = rbITEM_WRITTEN_FLAG"
  by (simp_all add: has_flag_def item_flag_defs)

section \<open>Chains of items\<close>

text \<open>
  An item behind position \<^term>\<open>p\<close> of a storage of \<^term>\<open>N\<close> bytes is stored there, or at the start if it does not fit
  before the end. The position behind it is the start again if no header fits there. What is passed over counts as used.
\<close>

definition item_pos :: "nat \<Rightarrow> nat \<Rightarrow> u8 list \<Rightarrow> nat" where
  "item_pos N p bs = (if N < p + need bs then 0 else p)"

definition pos_after :: "nat \<Rightarrow> nat \<Rightarrow> u8 list \<Rightarrow> nat" where
  "pos_after N p bs = (let e = item_pos N p bs + need bs in if N < e + 8 then 0 else e)"

definition used :: "nat \<Rightarrow> nat \<Rightarrow> u8 list \<Rightarrow> nat" where
  "used N p bs = (if N < p + need bs then N - p + need bs else if N < p + need bs + 8 then N - p else need bs)"

definition entry_ok :: "nat \<Rightarrow> u8 list \<Rightarrow> nat \<Rightarrow> u8 list \<Rightarrow> bool" where
  "entry_ok N st p bs \<longleftrightarrow>
     (N < p + need bs \<longrightarrow> part st p 8 = header_bytes passed_dummy) \<and>
     part st (item_pos N p bs) 8 = header_bytes (written (length bs)) \<and>
     part st (item_pos N p bs + 8) (length bs) = bs"

fun chain :: "nat \<Rightarrow> u8 list \<Rightarrow> nat \<Rightarrow> u8 list list \<Rightarrow> nat \<Rightarrow> bool" where
  "chain N st p [] q \<longleftrightarrow> p = q"
| "chain N st p (bs # bss) q \<longleftrightarrow> entry_ok N st p bs \<and> chain N st (pos_after N p bs) bss q"

fun occupied :: "nat \<Rightarrow> nat \<Rightarrow> u8 list list \<Rightarrow> nat" where
  "occupied N p [] = 0"
| "occupied N p (bs # bss) = used N p bs + occupied N (pos_after N p bs) bss"

text \<open>Where a header may be, and which items the buffer accepts.\<close>

definition place :: "nat \<Rightarrow> nat \<Rightarrow> bool" where
  "place N p \<longleftrightarrow> p + 8 \<le> N \<and> p mod 4 = 0"

definition small :: "nat \<Rightarrow> u8 list \<Rightarrow> bool" where
  "small N bs \<longleftrightarrow> length bs + 8 \<le> al4 (N div 2)"

definition storage_ok :: "nat \<Rightarrow> bool" where
  "storage_ok N \<longleftrightarrow> N mod 4 = 0 \<and> 16 \<le> N \<and> N < 2 ^ 31"

lemma need_mod [simp]: "need bs mod 4 = 0"
  using al4_dvd [of "length bs"] by (simp add: need_def mod_add_eq flip: mod_add_right_eq)

lemma need_bounds: "8 + length bs \<le> need bs" "8 \<le> need bs"
  using al4_bounds [of "length bs"] by (simp_all add: need_def)

lemma need_small:
  assumes "storage_ok N" and "small N bs"
  shows "need bs + 8 \<le> N" "need bs < N div 2 + 4"
proof -
  have "al4 (length bs) \<le> al4 (N div 2) - 8"
  proof (rule al4_least)
    show "length bs \<le> al4 (N div 2) - 8" using assms(2) by (simp add: small_def)
    show "(al4 (N div 2) - 8) mod 4 = 0" using al4_dvd [of "N div 2"] assms(2) unfolding small_def by presburger
  qed
  then have "need bs \<le> al4 (N div 2)" using assms(2) by (simp add: need_def small_def)
  moreover have "al4 (N div 2) \<le> N div 2 + 3" by (rule al4_bounds)
  ultimately show "need bs < N div 2 + 4" by linarith
  have "al4 (N div 2) + 8 \<le> N" using assms(1) by (simp add: storage_ok_def al4_def) presburger
  then show "need bs + 8 \<le> N" using \<open>need bs \<le> al4 (N div 2)\<close> by linarith
qed

lemma place_after: "storage_ok N \<Longrightarrow> place N p \<Longrightarrow> small N bs \<Longrightarrow> place N (pos_after N p bs)"
  using need_small [of N bs] need_mod [of bs]
  by (auto simp: place_def pos_after_def item_pos_def Let_def mod_add_eq simp flip: mod_add_eq)

lemma used_bounds: "place N p \<Longrightarrow> 8 \<le> used N p bs" "place N p \<Longrightarrow> need bs \<le> used N p bs"
  using need_bounds [of bs] by (auto simp: used_def place_def)

lemma pos_after_mod:
  assumes "storage_ok N" and "place N p" and "small N bs"
  shows "pos_after N p bs = (p + used N p bs) mod N"
  using need_small [OF assms(1,3)] assms(2) need_bounds [of bs]
  by (auto simp: pos_after_def item_pos_def used_def place_def Let_def)

lemma chain_append: "chain N st p (xs @ ys) q \<longleftrightarrow> (\<exists>m. chain N st p xs m \<and> chain N st m ys q)"
  by (induction xs arbitrary: p) auto

lemma chain_end:
  assumes "chain N st p bss q" and "storage_ok N" and "place N p" and "\<forall>bs \<in> set bss. small N bs"
  shows "place N q" "q = (p + occupied N p bss) mod N"
proof -
  have "place N q \<and> q = (p + occupied N p bss) mod N" using assms
  proof (induction bss arbitrary: p)
    case Nil
    then show ?case by (simp add: place_def)
  next
    case (Cons bs bss)
    have pl: "place N (pos_after N p bs)" using Cons.prems place_after by simp
    have "q = (pos_after N p bs + occupied N (pos_after N p bs) bss) mod N" "place N q"
      using Cons.IH [of "pos_after N p bs"] Cons.prems pl by auto
    moreover have "pos_after N p bs = (p + used N p bs) mod N" using pos_after_mod Cons.prems by simp
    ultimately show ?case by (simp add: mod_add_left_eq add.assoc)
  qed
  then show "place N q" "q = (p + occupied N p bss) mod N" by blast+
qed

lemma occupied_append:
  assumes "chain N st p xs m"
  shows "occupied N p (xs @ ys) = occupied N p xs + occupied N m ys"
  using assms by (induction xs arbitrary: p) auto

lemma occupied_length:
  "storage_ok N \<Longrightarrow> place N p \<Longrightarrow> \<forall>bs \<in> set bss. small N bs \<Longrightarrow> 8 * length bss \<le> occupied N p bss"
proof (induction bss arbitrary: p)
  case (Cons bs bss)
  have "8 * length bss \<le> occupied N (pos_after N p bs) bss" using Cons.IH [of "pos_after N p bs"] place_after [of N p bs] Cons.prems by simp
  then show ?case using used_bounds(1) [of N p bs] Cons.prems(2) by simp
qed simp

section \<open>What a change of the storage keeps\<close>

definition agree :: "nat \<Rightarrow> u8 list \<Rightarrow> u8 list \<Rightarrow> nat \<Rightarrow> nat \<Rightarrow> bool" where
  "agree N st st' p n \<longleftrightarrow> (\<forall>d<n. st' ! ((p + d) mod N) = st ! ((p + d) mod N))"

lemma agree_append: "agree N st st' p (m + n) \<longleftrightarrow> agree N st st' p m \<and> agree N st st' ((p + m) mod N) n"
proof -
  have "(\<forall>d<m + n. P d) \<longleftrightarrow> (\<forall>d<m. P d) \<and> (\<forall>d<n. P (m + d))" for P :: "nat \<Rightarrow> bool"
    by (metis add_less_cancel_left le_add_diff_inverse not_less trans_less_add1)
  from this [of "\<lambda>d. st' ! ((p + d) mod N) = st ! ((p + d) mod N)"] show ?thesis
    by (simp add: agree_def mod_add_left_eq add.assoc)
qed

lemma agree_part:
  assumes "agree N st st' p n" and "length st = N" and "length st' = N" and "off + m \<le> n" and "q + m \<le> N" and "m = 0 \<or> q = (p + off) mod N"
  shows "part st' q m = part st q m"
proof (rule part_eqI)
  fix i assume i: "q \<le> i" "i < q + m"
  then have q: "q = (p + off) mod N" using assms(6) by auto
  have "i = i mod N" using i assms(5) by simp
  also have "\<dots> = (q + (i - q)) mod N" using i by simp
  also have "\<dots> = (p + (off + (i - q))) mod N" by (simp add: q mod_add_left_eq add.assoc)
  finally have "i = (p + (off + (i - q))) mod N" .
  moreover have "off + (i - q) < n" using i assms(4) by simp
  ultimately show "st' ! i = st ! i" using assms(1) by (metis agree_def)
qed (simp add: assms)

lemma entry_agree:
  assumes "agree N st st' p (used N p bs)" and "length st = N" and "length st' = N" and "storage_ok N" and "place N p" and "small N bs"
    and "entry_ok N st p bs"
  shows "entry_ok N st' p bs"
proof (cases "N < p + need bs")
  case True
  have u: "used N p bs = N - p + need bs" using True by (simp add: used_def)
  have pN: "p < N" "p + 8 \<le> N" using assms(5) by (simp_all add: place_def)
  have z: "item_pos N p bs = 0" using True by (simp add: item_pos_def)
  have nd: "need bs + 8 \<le> N" "8 + length bs \<le> need bs" using need_small(1) [OF assms(4,6)] need_bounds by simp_all
  have "part st' p 8 = part st p 8"
    by (rule agree_part [OF assms(1-3), of 0]) (use u pN nd in simp_all)
  moreover have "part st' 0 8 = part st 0 8"
    by (rule agree_part [OF assms(1-3), of "N - p"]) (use u pN nd in simp_all)
  moreover have "part st' 8 (length bs) = part st 8 (length bs)"
    by (rule agree_part [OF assms(1-3), of "N - p + 8"]) (use u pN nd in simp_all)
  ultimately show ?thesis using assms(7) z by (simp add: entry_ok_def)
next
  case False
  have z: "item_pos N p bs = p" using False by (simp add: item_pos_def)
  have nd: "p + need bs \<le> N" "8 + length bs \<le> need bs" "need bs \<le> used N p bs"
    using False need_bounds used_bounds(2) [OF assms(5)] by simp_all
  have "part st' p 8 = part st p 8"
    by (rule agree_part [OF assms(1-3), of 0]) (use nd assms(5) in \<open>simp_all add: place_def\<close>)
  moreover have "part st' (p + 8) (length bs) = part st (p + 8) (length bs)"
  proof (rule agree_part [OF assms(1-3), of 8])
    have "bs = [] \<or> p + 8 < N" using nd by (cases bs) auto
    then show "length bs = 0 \<or> p + 8 = (p + 8) mod N" by auto
  qed (use nd in simp_all)
  ultimately show ?thesis using assms(7) z False by (simp add: entry_ok_def)
qed

lemma chain_agree:
  assumes "chain N st p bss q" and "agree N st st' p (occupied N p bss)" and "length st = N" and "length st' = N" and "storage_ok N"
    and "place N p" and "\<forall>bs \<in> set bss. small N bs"
  shows "chain N st' p bss q"
  using assms
proof (induction bss arbitrary: p)
  case (Cons bs bss)
  have sm: "small N bs" "\<forall>bs \<in> set bss. small N bs" using Cons.prems(7) by simp_all
  have a: "agree N st st' p (used N p bs)" "agree N st st' (pos_after N p bs) (occupied N (pos_after N p bs) bss)"
    using Cons.prems(2) pos_after_mod [OF Cons.prems(5,6) sm(1)] by (simp_all add: agree_append)
  have e: "entry_ok N st p bs" "chain N st (pos_after N p bs) bss q" using Cons.prems(1) by simp_all
  have "entry_ok N st' p bs" by (rule entry_agree [OF a(1) Cons.prems(3,4,5,6) sm(1) e(1)])
  moreover have "chain N st' (pos_after N p bs) bss q"
    by (rule Cons.IH [OF e(2) a(2) Cons.prems(3,4,5) place_after [OF Cons.prems(5,6) sm(1)] sm(2)])
  ultimately show ?case by simp
qed simp

lemma patch_agree:
  assumes "length st = N" and "a + length bs \<le> N" and "a = (p + off) mod N" and "n \<le> off" and "off + length bs \<le> N"
  shows "agree N st (patch st a bs) p n"
  unfolding agree_def
proof (intro allI impI)
  fix d assume d: "d < n"
  let ?i = "(p + d) mod N"
  show "patch st a bs ! ?i = st ! ?i"
  proof (cases "bs = []")
    case True
    then show ?thesis by (simp add: patch_def)
  next
    case False
    then have N: "0 < N" using assms(2) by (cases bs) auto
    have "\<not> (a \<le> ?i \<and> ?i < a + length bs)"
    proof
      assume i: "a \<le> ?i \<and> ?i < a + length bs"
      define j where "j = ?i - a"
      have j: "?i = a + j" "j < length bs" using i by (auto simp: j_def)
      then have "a + j = (a + j) mod N" using assms(2) by simp
      also have "\<dots> = (p + (off + j)) mod N" by (simp add: assms(3) mod_add_left_eq add.assoc)
      finally have "(p + d) mod N = (p + (off + j)) mod N" using j(1) by simp
      moreover have "d < off + j" "off + j < N" using d assms(4,5) j(2) by simp_all
      ultimately show False using ring_index_distinct [of d "off + j" N p] by simp
    qed
    then show ?thesis using assms(1,2) N by (auto simp: nth_patch)
  qed
qed

section \<open>The items of a buffer\<close>

text \<open>
  From the free pointer come the items on loan, at most one, and from the read pointer those that
  wait; the write and the acquire pointer are behind them.
\<close>

definition geometry_ok :: "Ringbuffer_t \<Rightarrow> bool" where
  "geometry_ok rb \<longleftrightarrow>
     (let N = length (rb_storage rb) in
      rbType rb = RINGBUF_TYPE_NOSPLIT \<and> \<not> bit (uxRingbufferFlags rb) 0 \<and> \<not> bit (uxRingbufferFlags rb) 1 \<and> pucHead rb = 0 \<and>
      pucTail rb = int N \<and> xSize rb = of_nat N \<and> storage_ok N \<and> xMaxItemSize rb = of_nat (al4 (N div 2) - 8))"

definition items_at :: "nat \<Rightarrow> nat \<Rightarrow> nat \<Rightarrow> u8 list list \<Rightarrow> u8 list list \<Rightarrow> Ringbuffer_t \<Rightarrow> bool" where
  "items_at f r a ls ws rb \<longleftrightarrow>
     (let N = length (rb_storage rb) in
      geometry_ok rb \<and> place N f \<and> pucFree rb = int f \<and> pucRead rb = int r \<and> pucWrite rb = int a \<and> pucAcquire rb = int a \<and>
      chain N (rb_storage rb) f ls r \<and> chain N (rb_storage rb) r ws a \<and>
      occupied N f (ls @ ws) \<le> N \<and> (bit (uxRingbufferFlags rb) 2 \<longleftrightarrow> occupied N f (ls @ ws) = N) \<and>
      (\<forall>bs \<in> set (ls @ ws). small N bs) \<and> length ls \<le> 1 \<and> xItemsWaiting rb = of_nat (length ws))"

text \<open>The same with any number of items on loan, as a reader may have that returns none for a while.\<close>

definition items_on :: "nat \<Rightarrow> nat \<Rightarrow> nat \<Rightarrow> u8 list list \<Rightarrow> u8 list list \<Rightarrow> Ringbuffer_t \<Rightarrow> bool" where
  "items_on f r a ls ws rb \<longleftrightarrow>
     (let N = length (rb_storage rb) in
      geometry_ok rb \<and> place N f \<and> pucFree rb = int f \<and> pucRead rb = int r \<and> pucWrite rb = int a \<and> pucAcquire rb = int a \<and>
      chain N (rb_storage rb) f ls r \<and> chain N (rb_storage rb) r ws a \<and>
      occupied N f (ls @ ws) \<le> N \<and> (bit (uxRingbufferFlags rb) 2 \<longleftrightarrow> occupied N f (ls @ ws) = N) \<and>
      (\<forall>bs \<in> set (ls @ ws). small N bs) \<and> xItemsWaiting rb = of_nat (length ws))"

lemma items_at_iff: "items_at f r a ls ws rb \<longleftrightarrow> items_on f r a ls ws rb \<and> length ls \<le> 1"
  by (auto simp: items_at_def items_on_def Let_def)

lemma items_at_on: "items_at f r a ls ws rb \<Longrightarrow> items_on f r a ls ws rb"
  by (simp add: items_at_iff)

lemma items_onD:
  assumes "items_on f r a ls ws rb"
  defines "N \<equiv> length (rb_storage rb)"
  shows "geometry_ok rb" "storage_ok N" "place N f" "place N r" "place N a" "chain N (rb_storage rb) f (ls @ ws) a"
    "a = (f + occupied N f (ls @ ws)) mod N" "r = (f + occupied N f ls) mod N" "occupied N f (ls @ ws) \<le> N"
    "a = (r + occupied N r ws) mod N" "occupied N f (ls @ ws) = occupied N f ls + occupied N r ws" "8 * length (ls @ ws) \<le> N"
proof -
  have h: "geometry_ok rb" "place N f" "chain N (rb_storage rb) f ls r" "chain N (rb_storage rb) r ws a" "occupied N f (ls @ ws) \<le> N"
    "\<forall>bs \<in> set (ls @ ws). small N bs" using assms by (simp_all add: items_on_def Let_def)
  then show s: "geometry_ok rb" "storage_ok N" "place N f" "occupied N f (ls @ ws) \<le> N"
    using N_def by (simp_all add: geometry_ok_def Let_def)
  show c: "chain N (rb_storage rb) f (ls @ ws) a" using h by (auto simp: chain_append)
  show "place N r" "r = (f + occupied N f ls) mod N" using chain_end [OF h(3) s(2,3)] h(6) by auto
  moreover show "a = (r + occupied N r ws) mod N" using chain_end [OF h(4) s(2)] calculation(1) h(6) by auto
  show "place N a" "a = (f + occupied N f (ls @ ws)) mod N" using chain_end [OF c s(2,3) h(6)] by auto
  show "occupied N f (ls @ ws) = occupied N f ls + occupied N r ws" by (rule occupied_append [OF h(3)])
  show "8 * length (ls @ ws) \<le> N" using occupied_length [OF s(2,3) h(6)] h(5) by linarith
qed

lemmas items_atD = items_onD [OF items_at_on]

lemma geometryD:
  assumes "geometry_ok rb"
  defines "N \<equiv> length (rb_storage rb)"
  shows "rbType rb = RINGBUF_TYPE_NOSPLIT" "\<not> rb_has rbALLOW_SPLIT_FLAG rb" "\<not> rb_has rbBYTE_BUFFER_FLAG rb"
    "\<not> rb_has (rbBYTE_BUFFER_FLAG OR rbALLOW_SPLIT_FLAG) rb" "pucHead rb = 0" "pucTail rb = int N" "unat (xSize rb) = N" "storage_ok N"
    "unat (xMaxItemSize rb) = al4 (N div 2) - 8" "N < 2 ^ 31"
proof -
  have h: "storage_ok N" "xSize rb = of_nat N" "xMaxItemSize rb = of_nat (al4 (N div 2) - 8)" using assms by (simp_all add: geometry_ok_def Let_def)
  then show "N < 2 ^ 31" by (simp add: storage_ok_def)
  then have "al4 (N div 2) - 8 < 2 ^ 32" using al4_bounds(2) [of "N div 2"] by simp
  then show "unat (xMaxItemSize rb) = al4 (N div 2) - 8" using h(3) by (simp add: unat_of_nat)
  show "unat (xSize rb) = N" using h(2) \<open>N < 2 ^ 31\<close> by (simp add: unat_of_nat)
qed (use assms in \<open>auto simp: geometry_ok_def Let_def rb_has_bit\<close>)

lemma small_words:
  assumes "storage_ok N" and "small N bs"
  shows "unat (of_nat (length bs) :: u32) = length bs" "unat (rbALIGN_SIZE (of_nat (length bs))) = al4 (length bs)"
    "unat (rbALIGN_SIZE (of_nat (length bs)) + rbHEADER_SIZE) = need bs" "uint (rbALIGN_SIZE (of_nat (length bs)) + rbHEADER_SIZE) = int (need bs)"
    "uint (rbHEADER_SIZE + rbALIGN_SIZE (of_nat (length bs))) = int (need bs)"
proof -
  have b: "need bs < 2 ^ 31" "length bs + 8 \<le> need bs" using need_small(1) [OF assms] assms(1) need_bounds(1) [of bs] by (simp_all add: storage_ok_def)
  then show l: "unat (of_nat (length bs) :: u32) = length bs" by (simp add: unat_of_nat)
  then show a: "unat (rbALIGN_SIZE (of_nat (length bs))) = al4 (length bs)" using unat_align [of "of_nat (length bs)"] b by simp
  then show n: "unat (rbALIGN_SIZE (of_nat (length bs)) + rbHEADER_SIZE) = need bs"
    using b by (simp add: unat_word_ariths rbHEADER_SIZE_def need_def)
  then show "uint (rbALIGN_SIZE (of_nat (length bs)) + rbHEADER_SIZE) = int (need bs)" by (simp add: uint_nat)
  then show "uint (rbHEADER_SIZE + rbALIGN_SIZE (of_nat (length bs))) = int (need bs)" by (simp add: add.commute)
qed

text \<open>The check whether an item fits is exact: it fits if what it would use is free.\<close>

lemma empty_room:
  assumes "storage_ok N" and "place N a" and "small N bs"
  shows "used N a bs \<le> N"
proof -
  obtain x y z where m: "a = 4 * x" "N = 4 * y" "need bs = 4 * z"
    using assms(1,2) need_mod [of bs] unfolding place_def storage_ok_def mod_eq_0_iff_dvd dvd_def by blast
  have "z \<le> x" if "y < x + z" using need_small(2) [OF assms(1,3)] that by (simp add: m)
  then show ?thesis using need_small(1) [OF assms(1,3)] by (auto simp: used_def m)
qed

lemma ring_cases:
  fixes a f t N :: nat
  assumes "a = (f + t) mod N" and "f < N" and "t \<le> N"
  obtains "a = f" "t = 0" | "a = f" "t = N" | "a < f" "t = N - (f - a)" | "f < a" "t = a - f"
proof -
  have "a = f + t \<and> f + t < N \<or> a + N = f + t" using assms(1) mod_below_double [of "f + t" N] assms(2,3) by simp
  then consider "a = f" "t = 0" | "a = f" "t = N" | "a < f" "t + f = N + a" | "f < a" "t + f = a" using assms(2,3) by linarith
  then show thesis using that by cases auto
qed

lemma fits_items:
  assumes "items_at f r a ls ws rb" and "small (length (rb_storage rb)) bs"
  defines "N \<equiv> length (rb_storage rb)"
  shows "prvCheckItemFitsDefault (of_nat (length bs)) rb = Inr (occupied N f (ls @ ws) + used N a bs \<le> N)"
proof -
  note d = items_atD [OF assms(1), folded N_def]
  note g = geometryD [OF d(1), folded N_def]
  let ?t = "occupied N f (ls @ ws)"
  have p: "pucAcquire rb = int a" "pucFree rb = int f" "rb_has rbBUFFER_FULL_FLAG rb \<longleftrightarrow> ?t = N"
    using assms(1) by (simp_all add: items_at_def Let_def N_def rb_has_bit)
  have pl: "a + 8 \<le> N" "f + 8 \<le> N" "a mod 4 = 0" using d(3,5) by (simp_all add: place_def)
  have al: "rbCHECK_ALIGNED (pucAcquire rb)" "acquire_in_bounds rb"
    using p pl g by (auto simp: rbCHECK_ALIGNED_def acquire_in_bounds_def zmod_int simp flip: of_nat_mod)
  have w: "unat (rbALIGN_SIZE (of_nat (length bs)) + rbHEADER_SIZE) = need bs" using small_words(3) [OF d(2)] assms(2) N_def by simp
  have nd: "need bs + 8 \<le> N" "8 \<le> need bs" "need bs \<le> used N a bs"
    using need_small(1) [OF d(2)] assms(2) need_bounds used_bounds(2) [OF d(5)] N_def by simp_all
  have "f < N" using pl by simp
  from d(7) this d(9) show ?thesis
  proof (cases rule: ring_cases)
    case 1
    then have "rb_has rbBUFFER_FULL_FLAG rb \<longleftrightarrow> False" using p(3) d(2) by (auto simp: storage_ok_def)
    then show ?thesis using 1 p(1,2) al empty_room [OF d(2,5)] assms(2) N_def by (simp add: prvCheckItemFitsDefault_def Let_def)
  next
    case 2
    then show ?thesis using p al nd by (simp add: prvCheckItemFitsDefault_def Let_def)
  next
    case 3
    have u: "unat (ptr_diff (int f) (int a)) = f - a" using 3 pl g(10) by (subst unat_ptr_diff) auto
    have "need bs \<le> f - a \<longleftrightarrow> ?t + used N a bs \<le> N" using 3 pl nd by (auto simp: used_def)
    then show ?thesis using 3 p al u w by (simp add: prvCheckItemFitsDefault_def Let_def word_le_nat_alt)
  next
    case 4
    have u: "unat (ptr_diff (int N) (int a)) = N - a" "unat (ptr_diff (int f) 0) = f"
      using 4 pl g(10) unat_ptr_diff [of 0 "int f"] by (auto simp: unat_ptr_diff nat_diff_distrib)
    have "need bs \<le> N - a \<or> need bs \<le> f \<longleftrightarrow> ?t + used N a bs \<le> N" using 4 pl nd by (auto simp: used_def)
    then show ?thesis using 4 p al u w g by (auto simp: prvCheckItemFitsDefault_def Let_def word_le_nat_alt)
  qed
qed

section \<open>Copying an item in\<close>

lemma mark_if_full_frame [simp]:
  "rb_storage (mark_if_full rb) = rb_storage rb" "pucWrite (mark_if_full rb) = pucWrite rb" "pucAcquire (mark_if_full rb) = pucAcquire rb"
  "pucHead (mark_if_full rb) = pucHead rb" "pucTail (mark_if_full rb) = pucTail rb" "xSize (mark_if_full rb) = xSize rb"
  "xMaxItemSize (mark_if_full rb) = xMaxItemSize rb" "pucFree (mark_if_full rb) = pucFree rb" "pucRead (mark_if_full rb) = pucRead rb"
  "rbType (mark_if_full rb) = rbType rb" "xItemsWaiting (mark_if_full rb) = xItemsWaiting rb"
  by (simp_all add: mark_if_full_def rb_set_def)

lemma wrap_for_header_eq:
  "pucHead rb = 0 \<Longrightarrow> pucTail rb = int N \<Longrightarrow> e \<le> N \<Longrightarrow> N < 2 ^ 31 \<Longrightarrow> wrap_for_header (int e) rb = int (if N < e + 8 then 0 else e)"
  using unat_ptr_diff [of "int e" "int N"]
  by (auto simp: wrap_for_header_def rbHEADER_SIZE_def word_less_nat_alt nat_diff_distrib)

text \<open>The storage after the space was acquired: a dummy where the item does not fit, and its header.\<close>

definition acquired :: "nat \<Rightarrow> u8 list \<Rightarrow> nat \<Rightarrow> u8 list \<Rightarrow> u8 list" where
  "acquired N st a bs =
     patch (if N < a + need bs then patch st a (header_bytes \<lparr>xItemLen = 0, uxItemFlags = rbITEM_DUMMY_DATA_FLAG\<rparr>) else st)
       (item_pos N a bs) (header_bytes \<lparr>xItemLen = of_nat (length bs), uxItemFlags = 0\<rparr>)"

lemma acquire_eq:
  assumes "geometry_ok rb" and "pucAcquire rb = int a"
  defines "N \<equiv> length (rb_storage rb)"
  assumes "place N a" and "small N bs"
  shows "prvAcquireItemNoSplit (of_nat (length bs)) rb =
    Inr (int (item_pos N a bs + 8), mark_if_full (rb\<lparr>rb_storage := acquired N (rb_storage rb) a bs, pucAcquire := int (pos_after N a bs)\<rparr>))"
proof -
  note g = geometryD [OF assms(1), folded N_def]
  note w = small_words [OF g(8) assms(5)]
  have pl: "a + 8 \<le> N" "a mod 4 = 0" using assms(4) by (simp_all add: place_def)
  have nd: "need bs + 8 \<le> N" using need_small(1) [OF g(8) assms(5)] .
  have rem: "unat (ptr_diff (int N) (int a)) = N - a" using pl g(10) unat_ptr_diff [of "int a" "int N"] by (simp add: nat_diff_distrib)
  have al: "rbCHECK_ALIGNED (int a)" "acquire_in_bounds rb" "rbHEADER_SIZE \<le> ptr_diff (int N) (int a)"
    using pl assms(2) g rem by (auto simp: rbCHECK_ALIGNED_def acquire_in_bounds_def rbHEADER_SIZE_def word_le_nat_alt simp flip: of_nat_mod)
  have dummy: "ptr_diff (int N) (int a) < rbALIGN_SIZE (of_nat (length bs)) + rbHEADER_SIZE \<longleftrightarrow> N < a + need bs"
    using w(3) rem pl by (auto simp: word_less_nat_alt)
  let ?i = "item_pos N a bs"
  have i: "?i + need bs \<le> N" using nd by (simp add: item_pos_def)
  have len: "length (rb_storage rb) = N" by (simp add: N_def)
  have wrap: "wrap_for_header (int (?i + need bs)) rb' = int (pos_after N a bs)" if "pucHead rb' = 0" "pucTail rb' = int N" for rb'
    using wrap_for_header_eq [OF that i g(10)] by (simp add: pos_after_def Let_def)
  have h: "uint rbHEADER_SIZE = 8" by (simp add: rbHEADER_SIZE_def)
  have "?i + 8 \<le> N" using i need_bounds(2) [of bs] by simp
  then show ?thesis
    using assms(2) g(5,6) al w(5) i wrap len pl h dummy
    by (cases "N < a + need bs")
      (simp_all add: prvAcquireItemNoSplit_def Let_def put_header_eq put_header_eq [of 0, simplified] acquired_def item_pos_def)
qed

text \<open>The write pointer moves over the one item that was written.\<close>

lemma advance_written:
  assumes "geometry_ok rb" and "pucWrite rb = int a" and "pucAcquire rb = int (pos_after N a bs)"
  assumes "N = length (rb_storage rb)" and "place N a" and "small N bs" and "\<not> N < a + need bs"
    and "part (rb_storage rb) a 8 = header_bytes (written (length bs))"
  shows "advance_write (Suc n) rb = Inr (rb\<lparr>pucWrite := int (pos_after N a bs)\<rparr>)"
proof -
  note g = geometryD [OF assms(1), folded assms(4)]
  note w = small_words [OF g(8) assms(6)]
  have h: "get_header (int a) rb = Inr (written (length bs))" using assms(4,5,8) by (intro get_header_eq) (simp_all add: place_def)
  have wrap: "wrap_for_header (int (a + need bs)) (rb\<lparr>pucWrite := int (a + need bs)\<rparr>) = int (pos_after N a bs)"
    using wrap_for_header_eq [of "rb\<lparr>pucWrite := int (a + need bs)\<rparr>" N "a + need bs"] g assms(7)
    by (simp add: pos_after_def item_pos_def Let_def)
  have sz: "uint (xSize rb) = int N" using g(7) by (simp add: uint_nat)
  show ?thesis using assms(2,3,7) h w(4) wrap g(5) sz by (simp add: advance_write.simps written_def)
qed

lemma advance_wrapped:
  assumes "geometry_ok rb" and "pucWrite rb = int a" and "pucAcquire rb = int (pos_after N a bs)"
  assumes "N = length (rb_storage rb)" and "place N a" and "small N bs" and "N < a + need bs" and "need bs \<le> a"
    and "part (rb_storage rb) 0 8 = header_bytes (written (length bs))"
    and "part (rb_storage rb) a 8 = header_bytes \<lparr>xItemLen = 0, uxItemFlags = rbITEM_DUMMY_DATA_FLAG\<rparr>"
  shows "advance_write (Suc (Suc n)) rb =
    Inr (rb\<lparr>rb_storage := patch (rb_storage rb) a (header_bytes passed_dummy), pucWrite := int (pos_after N a bs)\<rparr>)"
proof -
  note g = geometryD [OF assms(1), folded assms(4)]
  let ?st = "patch (rb_storage rb) a (header_bytes passed_dummy)"
  let ?rb = "rb\<lparr>rb_storage := ?st, pucWrite := 0\<rparr>"
  have pl: "a + 8 \<le> N" using assms(5) by (simp add: place_def)
  have nd: "need bs + 8 \<le> N" "8 \<le> need bs" using need_small(1) [OF g(8) assms(6)] need_bounds by auto
  have len: "length ?st = N" using pl assms(4) by simp
  have after: "pos_after N a bs = need bs" "pos_after N 0 bs = need bs" using assms(7) nd by (simp_all add: pos_after_def item_pos_def)
  have h: "get_header (int a) rb = Inr \<lparr>xItemLen = 0, uxItemFlags = rbITEM_DUMMY_DATA_FLAG\<rparr>"
    using assms(4,10) pl by (intro get_header_eq) simp_all
  have p: "put_header (int a) passed_dummy rb = Inr (rb\<lparr>rb_storage := ?st\<rparr>)" using pl assms(4) by (intro put_header_eq) simp
  have wrap: "wrap_for_header 0 ?rb = 0" using wrap_for_header_eq [of ?rb N 0] g nd by simp
  have geo: "geometry_ok ?rb" using assms(1) len assms(4) by (simp add: geometry_ok_def)
  have "part ?st 0 8 = header_bytes (written (length bs))"
    using assms(4,8,9) nd pl by (subst part_patch_other) simp_all
  then have "advance_write (Suc n) ?rb = Inr (?rb\<lparr>pucWrite := int (pos_after N 0 bs)\<rparr>)"
    using nd assms(3,6) after len g(8) by (intro advance_written [OF geo]) (simp_all add: place_def storage_ok_def)
  then show ?thesis using h p wrap assms(2,3) after nd g(5) by (subst advance_write.simps) (simp add: passed_dummy_def)
qed

text \<open>The storage while an item is copied in: its data, then its header, then the dummy it passed.\<close>

definition filled :: "nat \<Rightarrow> u8 list \<Rightarrow> nat \<Rightarrow> u8 list \<Rightarrow> u8 list" where
  "filled N st a bs = patch (acquired N st a bs) (item_pos N a bs + 8) bs"

definition marked :: "nat \<Rightarrow> u8 list \<Rightarrow> nat \<Rightarrow> u8 list \<Rightarrow> u8 list" where
  "marked N st a bs = patch (filled N st a bs) (item_pos N a bs) (header_bytes (written (length bs)))"

definition stored :: "nat \<Rightarrow> u8 list \<Rightarrow> nat \<Rightarrow> u8 list \<Rightarrow> u8 list" where
  "stored N st a bs = (if N < a + need bs then patch (marked N st a bs) a (header_bytes passed_dummy) else marked N st a bs)"

lemma item_within: "storage_ok N \<Longrightarrow> small N bs \<Longrightarrow> item_pos N a bs + need bs \<le> N"
  using need_small(1) [of N bs] by (simp add: item_pos_def)

lemma stored_parts:
  assumes "length st = N" and "storage_ok N" and "place N a" and "small N bs" and "N < a + need bs \<longrightarrow> need bs \<le> a"
  defines "i \<equiv> item_pos N a bs"
  shows "length (acquired N st a bs) = N" "length (filled N st a bs) = N" "length (marked N st a bs) = N" "length (stored N st a bs) = N"
    "part (filled N st a bs) i 8 = header_bytes \<lparr>xItemLen = of_nat (length bs), uxItemFlags = 0\<rparr>"
    "part (marked N st a bs) i 8 = header_bytes (written (length bs))"
    "N < a + need bs \<longrightarrow> part (marked N st a bs) a 8 = header_bytes \<lparr>xItemLen = 0, uxItemFlags = rbITEM_DUMMY_DATA_FLAG\<rparr>"
    "entry_ok N (stored N st a bs) a bs"
proof -
  have b: "i + need bs \<le> N" "8 + length bs \<le> need bs" "a + 8 \<le> N"
    using item_within [OF assms(2,4)] need_bounds assms(3) by (simp_all add: i_def place_def)
  have z: "N < a + need bs \<Longrightarrow> i = 0 \<and> need bs \<le> a" "\<not> N < a + need bs \<Longrightarrow> i = a" using assms(5) by (simp_all add: i_def item_pos_def)
  show l1: "length (acquired N st a bs) = N" using b assms(1) by (simp add: acquired_def flip: i_def)
  then show l2: "length (filled N st a bs) = N" using b by (simp add: filled_def flip: i_def)
  then show l3: "length (marked N st a bs) = N" using b by (simp add: marked_def flip: i_def)
  then show l4: "length (stored N st a bs) = N" using b by (simp add: stored_def)
  have "part (acquired N st a bs) i 8 = header_bytes \<lparr>xItemLen = of_nat (length bs), uxItemFlags = 0\<rparr>"
    using b assms(1) by (simp add: acquired_def part_patch_same [where bs = "header_bytes h" for h, simplified] flip: i_def)
  then show "part (filled N st a bs) i 8 = header_bytes \<lparr>xItemLen = of_nat (length bs), uxItemFlags = 0\<rparr>"
    using b l1 by (simp add: filled_def part_patch_other flip: i_def)
  show m: "part (marked N st a bs) i 8 = header_bytes (written (length bs))"
    using b l2 by (simp add: marked_def part_patch_same [where bs = "header_bytes h" for h, simplified] flip: i_def)
  have d: "part (filled N st a bs) (i + 8) (length bs) = bs" using b l1 by (simp add: filled_def part_patch_same flip: i_def)
  then have md: "part (marked N st a bs) (i + 8) (length bs) = bs" using b l2 by (simp add: marked_def part_patch_other flip: i_def)
  show "N < a + need bs \<longrightarrow> part (marked N st a bs) a 8 = header_bytes \<lparr>xItemLen = 0, uxItemFlags = rbITEM_DUMMY_DATA_FLAG\<rparr>"
  proof
    assume dm: "N < a + need bs"
    note z = z(1) [OF dm]
    have "part (acquired N st a bs) a 8 = header_bytes \<lparr>xItemLen = 0, uxItemFlags = rbITEM_DUMMY_DATA_FLAG\<rparr>"
      using b z dm assms(1)
      by (simp add: acquired_def part_patch_other part_patch_same [where bs = "header_bytes h" for h, simplified] flip: i_def)
    then show "part (marked N st a bs) a 8 = header_bytes \<lparr>xItemLen = 0, uxItemFlags = rbITEM_DUMMY_DATA_FLAG\<rparr>"
      using b z l1 l2 by (simp add: marked_def filled_def part_patch_other flip: i_def)
  qed
  show "entry_ok N (stored N st a bs) a bs"
  proof (cases "N < a + need bs")
    case True
    note z = z(1) [OF True]
    have "part (stored N st a bs) a 8 = header_bytes passed_dummy"
      using True b l3 by (simp add: stored_def part_patch_same [where bs = "header_bytes h" for h, simplified])
    moreover have "part (stored N st a bs) i 8 = header_bytes (written (length bs))" "part (stored N st a bs) (i + 8) (length bs) = bs"
      using True b l3 m md z by (simp_all add: stored_def part_patch_other)
    ultimately show ?thesis by (simp add: entry_ok_def flip: i_def)
  next
    case False
    then show ?thesis using m md by (simp add: entry_ok_def stored_def flip: i_def)
  qed
qed

lemma agree_trans: "agree N st st' p n \<Longrightarrow> agree N st' st'' p n \<Longrightarrow> agree N st st'' p n"
  by (simp add: agree_def)

lemma stored_agree:
  assumes "length st = N" and "storage_ok N" and "place N a" and "small N bs" and "a = (f + t) mod N" and "t + used N a bs \<le> N"
  shows "agree N st (stored N st a bs) f t"
proof -
  let ?i = "item_pos N a bs"
  have b: "?i + need bs \<le> N" "8 + length bs \<le> need bs" "a + 8 \<le> N" "8 \<le> used N a bs"
    using item_within [OF assms(2,4)] need_bounds assms(3) used_bounds(1) [OF assms(3)] by (simp_all add: place_def)
  have z: "N < a + need bs \<longrightarrow> need bs \<le> a" using assms(3,6) by (auto simp: used_def place_def)
  note l = stored_parts(1-4) [OF assms(1-4) z]
  have "\<exists>off. ?i = (f + off) mod N \<and> t \<le> off \<and> off + need bs \<le> N"
  proof (cases "N < a + need bs")
    case True
    have "(f + (t + (N - a))) mod N = (a + (N - a)) mod N" by (simp add: assms(5) mod_add_left_eq flip: add.assoc)
    then show ?thesis using True assms(6) b(3) by (intro exI [of _ "t + (N - a)"] conjI) (simp_all add: item_pos_def used_def)
  next
    case False
    then show ?thesis using assms(5,6) used_bounds(2) [OF assms(3), of bs] by (intro exI [of _ t]) (simp add: item_pos_def)
  qed
  then obtain off where off: "?i = (f + off) mod N" "t \<le> off" "off + need bs \<le> N" by blast
  have hdr: "agree N st' (patch st' ?i (header_bytes h)) f t" if "length st' = N" for st' h
    using off b that by (intro patch_agree [where off = off]) simp_all
  have dum: "agree N st' (patch st' a (header_bytes h)) f t" if "length st' = N" for st' h
    using b that assms(5,6) by (intro patch_agree [where off = t]) simp_all
  have dat: "agree N st' (patch st' (?i + 8) bs) f t" if "length st' = N" for st'
  proof (cases "bs = []")
    case True
    then show ?thesis by (simp add: patch_def agree_def)
  next
    case False
    then have "?i + 8 < N" using b by (cases bs) auto
    then have "?i + 8 = (f + (off + 8)) mod N" using off(1) by (metis add.assoc mod_add_left_eq mod_less)
    then show ?thesis using off b that by (intro patch_agree [where off = "off + 8"]) simp_all
  qed
  have "agree N st (acquired N st a bs) f t"
  proof (cases "N < a + need bs")
    case True
    let ?st = "patch st a (header_bytes \<lparr>xItemLen = 0, uxItemFlags = rbITEM_DUMMY_DATA_FLAG\<rparr>)"
    have "length ?st = N" using assms(1) b by simp
    from agree_trans [OF dum [OF assms(1)] hdr [OF this]] True show ?thesis by (simp add: acquired_def)
  next
    case False
    then show ?thesis using hdr [OF assms(1)] by (simp add: acquired_def)
  qed
  then have "agree N st (filled N st a bs) f t" using dat [OF l(1)] agree_trans by (auto simp: filled_def)
  then have "agree N st (marked N st a bs) f t" using hdr [OF l(2)] agree_trans by (auto simp: marked_def)
  then show ?thesis using dum [OF l(3)] agree_trans by (auto simp: stored_def)
qed

lemma check_aligned_item: "p mod 4 = 0 \<Longrightarrow> rbCHECK_ALIGNED (int p + 8)"
  by (simp add: rbCHECK_ALIGNED_def) presburger

lemma occupied_snoc:
  assumes "chain N st p bss q"
  shows "occupied N p (bss @ [bs]) = occupied N p bss + used N q bs"
  using occupied_append [OF assms, of "[bs]"] by simp

text \<open>
  Copying an item that fits appends it to the waiting ones. Nothing else changes but the pointers
  behind it, its storage, the number of items and the full flag.
\<close>

lemma copy_item_eq:
  assumes "items_at f r a ls ws rb"
  defines "N \<equiv> length (rb_storage rb)"
  assumes "small N bs" and "occupied N f (ls @ ws) + used N a bs \<le> N"
  shows "prvCopyItemNoSplit bs rb =
    Inr ((mark_if_full (rb\<lparr>rb_storage := stored N (rb_storage rb) a bs, pucAcquire := int (pos_after N a bs)\<rparr>))
           \<lparr>xItemsWaiting := xItemsWaiting rb + 1, pucWrite := int (pos_after N a bs)\<rparr>)"
proof -
  note d = items_atD [OF assms(1), folded N_def]
  note g = geometryD [OF d(1), folded N_def]
  let ?st = "rb_storage rb" and ?i = "item_pos N a bs" and ?a = "pos_after N a bs"
  have z: "N < a + need bs \<longrightarrow> need bs \<le> a" using assms(4) d(5) by (auto simp: used_def place_def)
  have len0: "length (rb_storage rb) = N" by (simp add: N_def)
  note s = stored_parts [OF len0 d(2,5) assms(3) z]
  have b: "?i + need bs \<le> N" "8 + length bs \<le> need bs" "?i mod 4 = 0"
    using item_within [OF d(2) assms(3)] need_bounds d(5) by (simp_all add: item_pos_def place_def)
  have p: "pucAcquire rb = int a" "pucWrite rb = int a" using assms(1) by (simp_all add: items_at_def Let_def)
  define rb1 where "rb1 = mark_if_full (rb\<lparr>rb_storage := acquired N ?st a bs, pucAcquire := int ?a\<rparr>)"
  have acq: "prvAcquireItemNoSplit (of_nat (length bs)) rb = Inr (int (?i + 8), rb1)"
    unfolding rb1_def N_def by (rule acquire_eq [OF d(1) p(1)]) (use d(5) assms(3) in \<open>simp_all add: N_def\<close>)
  have cp: "rb_memcpy (int (?i + 8)) bs rb1 = Inr (rb1\<lparr>rb_storage := filled N ?st a bs\<rparr>)"
    using b s(1) mem_write_patch [of "?i + 8" bs "acquired N ?st a bs"] by (simp add: rb_memcpy_def rb1_def filled_def)
  let ?rb2 = "rb1\<lparr>rb_storage := filled N ?st a bs\<rparr>" and ?rb3 = "rb1\<lparr>rb_storage := marked N ?st a bs\<rparr>"
  have hd: "get_header (int ?i) ?rb2 = Inr \<lparr>xItemLen = of_nat (length bs), uxItemFlags = 0\<rparr>"
    using s(2,5) b by (intro get_header_eq) simp_all
  have pt: "put_header (int ?i) (written (length bs)) ?rb2 = Inr ?rb3"
    using s(2) b put_header_eq [of ?i ?rb2 "written (length bs)"] by (simp add: marked_def)
  have len: "(of_nat (length bs) :: u32) \<le> xMaxItemSize rb"
    using g(9) small_words(1) [OF d(2) assms(3)] assms(3) by (simp add: word_le_nat_alt small_def)
  have geo: "geometry_ok (?rb3\<lparr>xItemsWaiting := n\<rparr>)" for n
    using d(1) s(3) by (simp add: geometry_ok_def rb1_def N_def mark_if_full_def rb_set_def full_flag_bits Let_def)
  let ?rb4 = "?rb3\<lparr>xItemsWaiting := xItemsWaiting rb + 1\<rparr>"
  have adv: "advance_write (loop_bound ?rb3) ?rb4 = Inr (?rb4\<lparr>rb_storage := stored N ?st a bs, pucWrite := int ?a\<rparr>)"
  proof (cases "N < a + need bs")
    case True
    have "?i = 0" using True by (simp add: item_pos_def)
    then show ?thesis using True s(3,6,7) z d(5) assms(3) p
      unfolding loop_bound_def stored_def
      by (subst advance_wrapped [OF geo]) (simp_all add: rb1_def)
  next
    case False
    have "?i = a" using False by (simp add: item_pos_def)
    then have "advance_write (loop_bound ?rb3) ?rb4 = Inr (?rb4\<lparr>pucWrite := int ?a\<rparr>)" using False s(3,6) d(5) assms(3) p
      unfolding loop_bound_def by (intro advance_written [OF geo]) (simp_all add: rb1_def)
    then show ?thesis using False by (simp add: stored_def)
  qed
  have "prvSendItemDoneNoSplit (int (?i + 8)) ?rb2 = advance_write (loop_bound ?rb3) ?rb4"
    using hd pt len b g(5,6) check_aligned_item [OF b(3)]
    by (simp add: prvSendItemDoneNoSplit_def rbHEADER_SIZE_def written_def rb1_def)
  then show ?thesis using acq cp adv by (simp add: prvCopyItemNoSplit_def rb1_def mark_if_full_def rb_set_def)
qed

lemma copy_item:
  assumes "items_at f r a ls ws rb"
  defines "N \<equiv> length (rb_storage rb)"
  assumes "small N bs" and "occupied N f (ls @ ws) + used N a bs \<le> N"
  shows "\<exists>rb'. prvCopyItemNoSplit bs rb = Inr rb' \<and> items_at f r (pos_after N a bs) ls (ws @ [bs]) rb' \<and>
    length (rb_storage rb') = N \<and> rbWaitingToSend rb' = rbWaitingToSend rb \<and> rbWaitingToReceive rb' = rbWaitingToReceive rb"
proof -
  note d = items_atD [OF assms(1), folded N_def]
  let ?st = "rb_storage rb" and ?a = "pos_after N a bs" and ?t = "occupied N f (ls @ ws)"
  let ?st' = "stored N ?st a bs"
  define rb' where "rb' = (mark_if_full (rb\<lparr>rb_storage := ?st', pucAcquire := int ?a\<rparr>))
      \<lparr>xItemsWaiting := xItemsWaiting rb + 1, pucWrite := int ?a\<rparr>"
  have z: "N < a + need bs \<longrightarrow> need bs \<le> a" using assms(4) d(5) by (auto simp: used_def place_def)
  have len0: "length (rb_storage rb) = N" by (simp add: N_def)
  note s = stored_parts [OF len0 d(2,5) assms(3) z]
  have i: "chain N ?st f ls r" "chain N ?st r ws a" "\<forall>bs \<in> set (ls @ ws). small N bs" "length ls \<le> 1" "xItemsWaiting rb = of_nat (length ws)"
    "pucFree rb = int f" "pucRead rb = int r" "bit (uxRingbufferFlags rb) 2 \<longleftrightarrow> ?t = N"
    using assms(1) by (simp_all add: items_at_def Let_def N_def)
  have ag: "agree N ?st ?st' f ?t" by (rule stored_agree [OF len0 d(2,5) assms(3) d(7) assms(4)])
  then have "agree N ?st ?st' f (occupied N f ls)" "agree N ?st ?st' r (occupied N r ws)" using d(8,11) by (simp_all add: agree_append)
  then have c: "chain N ?st' f ls r" "chain N ?st' r ws a"
    using chain_agree [OF i(1) _ len0 s(4) d(2,3)] chain_agree [OF i(2) _ len0 s(4) d(2,4)] i(3) by simp_all
  have t: "occupied N f (ls @ ws @ [bs]) = ?t + used N a bs" using occupied_snoc [OF d(6)] by simp
  have c2: "chain N ?st' r (ws @ [bs]) ?a" using c(2) s(8) by (auto simp: chain_append)
  have a': "?a = (f + (?t + used N a bs)) mod N" using pos_after_mod [OF d(2,5) assms(3)] d(7) by (simp add: mod_add_left_eq add.assoc)
  have "0 < used N a bs" "f < N" using used_bounds(1) [OF d(5), of bs] d(3) by (simp_all add: place_def)
  then have full: "?a = f \<longleftrightarrow> ?t + used N a bs = N"
    using a' assms(4) place_after [OF d(2,5) assms(3)] unfolding place_def by (cases rule: ring_cases [OF a' _ assms(4)]) auto
  have "?t < N" using assms(4) \<open>0 < used N a bs\<close> by simp
  then have fl: "bit (uxRingbufferFlags rb') 2 \<longleftrightarrow> ?t + used N a bs = N"
    using full i(6,8) by (simp add: rb'_def mark_if_full_def rb_set_def full_flag_bits)
  have geo: "geometry_ok rb'"
    using d(1) s(4) by (simp add: geometry_ok_def rb'_def N_def mark_if_full_def rb_set_def full_flag_bits Let_def)
  have st': "rb_storage rb' = ?st'" "pucFree rb' = int f" "pucRead rb' = int r" "pucWrite rb' = int ?a" "pucAcquire rb' = int ?a"
    "xItemsWaiting rb' = of_nat (length (ws @ [bs]))" using i by (simp_all add: rb'_def)
  have "items_at f r ?a ls (ws @ [bs]) rb'"
    unfolding items_at_def Let_def st' s(4) using geo d(3) c(1) c2 t fl assms(3,4) i(3,4) st' by simp
  moreover have "prvCopyItemNoSplit bs rb = Inr rb'"
    unfolding rb'_def N_def by (rule copy_item_eq [OF assms(1)]) (use assms(3,4) in \<open>simp_all add: N_def\<close>)
  ultimately show ?thesis using s(4) st'(1) by (auto simp: rb'_def mark_if_full_def rb_set_def)
qed

section \<open>Receiving an item\<close>

lemma items_full: "items_on f r a ls ws rb \<Longrightarrow> rb_has rbBUFFER_FULL_FLAG rb \<longleftrightarrow> occupied (length (rb_storage rb)) f (ls @ ws) = length (rb_storage rb)"
  by (simp add: items_on_def Let_def rb_has_bit)

lemma entry_headers:
  assumes "entry_ok N (rb_storage rb) p bs" and "storage_ok N" and "place N p" and "small N bs" and "length (rb_storage rb) = N"
  shows "get_header (int (item_pos N p bs)) rb = Inr (written (length bs))" "N < p + need bs \<Longrightarrow> get_header (int p) rb = Inr passed_dummy"
  using assms item_within [OF assms(2,4), of p] need_bounds(2) [of bs] by (auto simp: entry_ok_def place_def intro!: get_header_eq)

lemma avail_on:
  assumes "items_on f r a ls ws rb"
  shows "prvCheckItemAvail rb = Inr (ws \<noteq> [])" "ws \<noteq> [] \<Longrightarrow> something_to_read rb"
proof -
  define N where "N = length (rb_storage rb)"
  note d = items_onD [OF assms, folded N_def]
  note g = geometryD [OF d(1), folded N_def]
  have w: "xItemsWaiting rb = of_nat (length ws)" "pucRead rb = int r" "pucWrite rb = int a" "chain N (rb_storage rb) r ws a"
    using assms by (simp_all add: items_on_def Let_def N_def)
  have "length ws < 2 ^ 31" using d(12) g(10) by simp
  then have c: "sint (xItemsWaiting rb) = int (length ws)" using w(1) by (simp add: sint_of_nat_u32)
  show s: "something_to_read rb" if ne: "ws \<noteq> []"
  proof -
    have "0 < occupied N r ws" using ne occupied_length [OF d(2,4), of ws] assms by (cases ws) (auto simp: items_on_def Let_def N_def)
    moreover have "r < N" using d(4) by (simp add: place_def)
    moreover have "occupied N r ws \<le> N" using d(9,11) by simp
    ultimately have "r \<noteq> a \<or> occupied N f (ls @ ws) = N"
      using ring_cases [OF d(10) \<open>r < N\<close>] d(9,11) by fastforce
    then show ?thesis using items_full [OF assms] c ne w(2,3) by (auto simp: something_to_read_def N_def)
  qed
  show "prvCheckItemAvail rb = Inr (ws \<noteq> [])"
  proof (cases ws)
    case Nil
    then show ?thesis using c g(3) by (simp add: prvCheckItemAvail_def something_to_read_def)
  next
    case (Cons bs bss)
    have "entry_ok N (rb_storage rb) r bs" "small N bs" using w(4) Cons assms by (simp_all add: items_on_def Let_def N_def)
    note h = entry_headers [OF this(1) d(2,4) this(2) N_def [symmetric]]
    have "\<exists>h. get_header (int r) rb = Inr h \<and> has_flag (uxItemFlags h) rbITEM_WRITTEN_FLAG"
      using h by (cases "N < r + need bs") (simp_all add: item_pos_def written_def passed_dummy_def)
    then show ?thesis using s Cons g(3,4) w(2) by (auto simp: prvCheckItemAvail_def)
  qed
qed

lemmas avail_items = avail_on [OF items_at_on]

text \<open>The oldest item is handed out where it is stored.\<close>

definition lend_item :: "u8 list \<Rightarrow> Ringbuffer_t \<Rightarrow> Ringbuffer_t" where
  "lend_item bs rb =
     rb\<lparr>xItemsWaiting := xItemsWaiting rb - 1, pucRead := int (pos_after (length (rb_storage rb)) (nat (pucRead rb)) bs)\<rparr>"

lemma get_on:
  assumes "items_on f r a ls (bs # ws) rb"
  defines "N \<equiv> length (rb_storage rb)"
  shows "prvGetItemDefault rb = Inr ((int (item_pos N r bs + 8), of_nat (length bs)), False, lend_item bs rb)"
    "items_on f (pos_after N r bs) a (ls @ [bs]) ws (lend_item bs rb)"
proof -
  note d = items_onD [OF assms(1), folded N_def]
  note g = geometryD [OF d(1), folded N_def]
  have w: "pucRead rb = int r" "chain N (rb_storage rb) r (bs # ws) a" "small N bs" "chain N (rb_storage rb) f ls r"
    using assms(1) by (simp_all add: items_on_def Let_def N_def)
  have e: "entry_ok N (rb_storage rb) r bs" using w(2) by simp
  have len0: "length (rb_storage rb) = N" by (simp add: N_def)
  note h = entry_headers [OF e d(2,4) w(3) len0]
  let ?i = "item_pos N r bs"
  have b: "?i + need bs \<le> N" "8 + length bs \<le> need bs" "r + 8 \<le> N" "r mod 4 = 0" using item_within [OF d(2) w(3)] need_bounds d(4) by (simp_all add: place_def)
  have len: "(of_nat (length bs) :: u32) \<le> xMaxItemSize rb" "(of_nat (length bs) :: u32) = 0 \<longleftrightarrow> bs = []"
    using g(9) small_words(1) [OF d(2) w(3)] w(3) by (auto simp: word_le_nat_alt small_def unat_eq_0 simp flip: unat_0)
  have sz: "uint (rbHEADER_SIZE + rbALIGN_SIZE (of_nat (length bs))) = int (need bs)" using small_words(5) [OF d(2) w(3)] .
  have wrap: "wrap_for_header (int ?i + int (need bs)) rb' = int (pos_after N r bs)" if "pucHead rb' = 0" "pucTail rb' = int N" for rb'
    using wrap_for_header_eq [OF that b(1) g(10)] by (simp add: pos_after_def Let_def)
  have al: "rbCHECK_ALIGNED (int r)" using b(4) by (simp add: rbCHECK_ALIGNED_def flip: of_nat_mod) presburger
  have lt: "bs \<noteq> [] \<Longrightarrow> int ?i + 8 < int N" using b by (cases bs) auto
  have s: "something_to_read rb" by (rule avail_on(2) [OF assms(1)]) simp
  have i0: "N < r + need bs \<Longrightarrow> ?i = 0" "\<not> N < r + need bs \<Longrightarrow> ?i = r" by (simp_all add: item_pos_def)
  show "prvGetItemDefault rb = Inr ((int (?i + 8), of_nat (length bs)), False, lend_item bs rb)"
  proof (cases "N < r + need bs")
    case True
    then show ?thesis
      using h i0 b s al len sz lt w(1) g(5,6) wrap [of rb] wrap [of "rb\<lparr>pucRead := 0\<rparr>"]
      by (simp add: prvGetItemDefault_def lend_item_def rbHEADER_SIZE_def passed_dummy_def written_def Let_def flip: N_def)
  next
    case False
    then show ?thesis
      using h i0 b s al len sz lt w(1) g(5,6) wrap [of rb]
      by (simp add: prvGetItemDefault_def lend_item_def rbHEADER_SIZE_def written_def Let_def flip: N_def)
  qed
  have "chain N (rb_storage rb) f (ls @ [bs]) (pos_after N r bs)" using w(4) e by (auto simp: chain_append)
  then show "items_on f (pos_after N r bs) a (ls @ [bs]) ws (lend_item bs rb)"
    using assms(1) w e by (simp add: items_on_def lend_item_def geometry_ok_def Let_def flip: N_def)
qed

lemma get_item:
  assumes "items_at f r a [] (bs # ws) rb"
  shows "items_at f (pos_after (length (rb_storage rb)) r bs) a [bs] ws (lend_item bs rb)"
  using get_on(2) [OF items_at_on [OF assms]] by (simp add: items_at_iff)

section \<open>Returning an item\<close>

definition freed :: "nat \<Rightarrow> ItemHeader_t" where
  "freed n = \<lparr>xItemLen = of_nat n, uxItemFlags = (rbITEM_WRITTEN_FLAG AND NOT rbITEM_SPLIT_FLAG) OR rbITEM_FREE_FLAG\<rparr>"

definition freed_dummy :: ItemHeader_t where
  "freed_dummy = \<lparr>xItemLen = 0, uxItemFlags = (rbITEM_DUMMY_DATA_FLAG OR rbITEM_WRITTEN_FLAG) OR rbITEM_FREE_FLAG\<rparr>"

lemma advance_free_stop:
  assumes "pucFree rb = int p" and "pucRead rb = int p" and "p + 8 \<le> length (rb_storage rb)"
  shows "advance_free (Suc n) rb = Inr rb"
proof -
  obtain h where "get_header (int p) rb = Inr h" using get_header_some [OF assms(3)] by blast
  then show ?thesis using assms(1,2) by (simp add: advance_free.simps)
qed

text \<open>The free pointer moves over a returned item that is stored where it points, and stops at the read pointer behind it.\<close>

lemma advance_freed:
  assumes "geometry_ok rb" and "N = length (rb_storage rb)" and "pucFree rb = int p" and "pucRead rb = int (pos_after N p bs)"
    and "place N p" and "small N bs" and "\<not> N < p + need bs" and "p \<noteq> pos_after N p bs"
    and "part (rb_storage rb) p 8 = header_bytes (freed (length bs))"
  shows "advance_free (Suc (Suc n)) rb = Inr (rb\<lparr>pucFree := int (pos_after N p bs)\<rparr>)"
proof -
  note g = geometryD [OF assms(1), folded assms(2)]
  have h: "get_header (int p) rb = Inr (freed (length bs))" using assms(2,5,9) by (intro get_header_eq) (simp_all add: place_def)
  let ?rb = "rb\<lparr>pucFree := int (p + need bs)\<rparr>" and ?q = "pos_after N p bs"
  have wrap: "wrap_for_header (int (p + need bs)) ?rb = int ?q"
    using wrap_for_header_eq [of ?rb N "p + need bs"] g assms(7) by (simp add: pos_after_def item_pos_def Let_def)
  have sz: "uint (xSize rb) = int N" using g(7) by (simp add: uint_nat)
  have q: "?q + 8 \<le> N" using place_after [OF g(8) assms(5,6)] by (simp add: place_def)
  have "advance_free (Suc n) (rb\<lparr>pucFree := int ?q\<rparr>) = Inr (rb\<lparr>pucFree := int ?q\<rparr>)"
    using assms(2,4) q by (intro advance_free_stop) simp_all
  then show ?thesis using assms(3,4,7,8) h wrap sz g(5) small_words(4) [OF g(8) assms(6)]
    by (subst advance_free.simps) (simp add: freed_def)
qed

lemma advance_freed_wrapped:
  assumes "geometry_ok rb" and "N = length (rb_storage rb)" and "pucFree rb = int p" and "pucRead rb = int (pos_after N p bs)"
    and "place N p" and "small N bs" and "N < p + need bs" and "need bs \<le> p" and "p \<noteq> pos_after N p bs"
    and "part (rb_storage rb) p 8 = header_bytes passed_dummy" and "part (rb_storage rb) 0 8 = header_bytes (freed (length bs))"
  shows "advance_free (Suc (Suc (Suc n))) rb =
    Inr (rb\<lparr>rb_storage := patch (rb_storage rb) p (header_bytes freed_dummy), pucFree := int (pos_after N p bs)\<rparr>)"
proof -
  note g = geometryD [OF assms(1), folded assms(2)]
  let ?st = "patch (rb_storage rb) p (header_bytes freed_dummy)"
  let ?rb = "rb\<lparr>rb_storage := ?st, pucFree := 0\<rparr>"
  have pl: "p + 8 \<le> N" using assms(5) by (simp add: place_def)
  have nd: "need bs + 8 \<le> N" "8 \<le> need bs" using need_small(1) [OF g(8) assms(6)] need_bounds by auto
  have len: "length ?st = N" using pl assms(2) by simp
  have after: "pos_after N p bs = need bs" "pos_after N 0 bs = need bs" using assms(7) nd by (simp_all add: pos_after_def item_pos_def)
  have h: "get_header (int p) rb = Inr passed_dummy" using assms(2,10) pl by (intro get_header_eq) simp_all
  have pt: "put_header (int p) freed_dummy rb = Inr (rb\<lparr>rb_storage := ?st\<rparr>)" using pl assms(2) by (intro put_header_eq) simp
  have wrap: "wrap_for_header 0 ?rb = 0" using wrap_for_header_eq [of ?rb N 0] g nd by simp
  have geo: "geometry_ok ?rb" using assms(1) len assms(2) by (simp add: geometry_ok_def)
  have "part ?st 0 8 = header_bytes (freed (length bs))" using assms(2,8,11) nd pl by (subst part_patch_other) simp_all
  then have "advance_free (Suc (Suc n)) ?rb = Inr (?rb\<lparr>pucFree := int (pos_after N 0 bs)\<rparr>)"
    using nd assms(4,6) after len g(8) by (intro advance_freed [OF geo]) (simp_all add: place_def storage_ok_def)
  then show ?thesis using h pt wrap assms(3,4,9) after g(5) by (subst advance_free.simps) (simp add: passed_dummy_def freed_dummy_def)
qed

text \<open>The storage after the return: the header of the item is marked, and that of the dummy in front of it if the pointer moved.\<close>

definition released :: "nat \<Rightarrow> u8 list \<Rightarrow> nat \<Rightarrow> bool \<Rightarrow> u8 list \<Rightarrow> u8 list" where
  "released N st f moved bs =
     (let st1 = patch st (item_pos N f bs) (header_bytes (freed (length bs)))
      in if moved \<and> N < f + need bs then patch st1 f (header_bytes freed_dummy) else st1)"

lemma released_agree:
  assumes "length st = N" and "storage_ok N" and "place N f" and "small N bs" and "r = (f + used N f bs) mod N" and "used N f bs + n \<le> N"
  shows "length (released N st f moved bs) = N" "agree N st (released N st f moved bs) r n"
proof -
  let ?i = "item_pos N f bs" and ?u = "used N f bs"
  have b: "?i + need bs \<le> N" "8 \<le> need bs" "f + 8 \<le> N" "8 \<le> ?u" "?u \<le> N"
    using item_within [OF assms(2,4)] need_bounds assms(3,6) used_bounds(1) [OF assms(3)] by (simp_all add: place_def)
  have "(r + (N - ?u)) mod N = (f + (?u + (N - ?u))) mod N" by (simp add: assms(5) mod_add_left_eq add.assoc)
  then have f: "f = (r + (N - ?u)) mod N" using b by simp
  have "\<exists>off. ?i = (r + off) mod N \<and> n \<le> off \<and> off + 8 \<le> N"
  proof (cases "N < f + need bs")
    case True
    have "(r + (N - ?u + (N - f))) mod N = (f + (N - f)) mod N" using f by (metis mod_add_left_eq add.assoc)
    then show ?thesis using True assms(6) b by (intro exI [of _ "N - ?u + (N - f)"] conjI) (simp_all add: item_pos_def used_def)
  next
    case False
    then show ?thesis using f assms(6) b by (intro exI [of _ "N - ?u"] conjI) (simp_all add: item_pos_def)
  qed
  then obtain off where off: "?i = (r + off) mod N" "n \<le> off" "off + 8 \<le> N" by blast
  let ?st1 = "patch st ?i (header_bytes (freed (length bs)))"
  have l: "length ?st1 = N" using assms(1) b by simp
  then show "length (released N st f moved bs) = N" using b by (simp add: released_def Let_def)
  have "agree N st ?st1 r n" using off b assms(1) by (intro patch_agree [where off = off]) simp_all
  moreover have "agree N ?st1 (patch ?st1 f (header_bytes freed_dummy)) r n"
    using f assms(6) b l by (intro patch_agree [where off = "N - ?u"]) simp_all
  ultimately show "agree N st (released N st f moved bs) r n" using agree_trans by (auto simp: released_def Let_def)
qed

lemma advance_returned:
  assumes "items_at f r a [bs] ws rb"
  defines "N \<equiv> length (rb_storage rb)"
  defines "rb1 \<equiv> rb\<lparr>rb_storage := patch (rb_storage rb) (item_pos N f bs) (header_bytes (freed (length bs)))\<rparr>"
  shows "advance_free (loop_bound rb1) rb1 = Inr (rb\<lparr>rb_storage := released N (rb_storage rb) f (f \<noteq> r) bs, pucFree := int r\<rparr>)"
proof -
  note d = items_atD [OF assms(1), folded N_def]
  let ?i = "item_pos N f bs"
  have w: "pucFree rb = int f" "pucRead rb = int r" "entry_ok N (rb_storage rb) f bs" "r = pos_after N f bs" "small N bs"
    using assms(1) by (simp_all add: items_at_def Let_def N_def)
  have b: "?i + need bs \<le> N" "8 \<le> need bs" "f + 8 \<le> N" "r + 8 \<le> N" using item_within [OF d(2) w(5)] need_bounds d(3,4) by (simp_all add: place_def)
  have z: "N < f + need bs \<longrightarrow> need bs \<le> f" using d(3,9) by (auto simp: used_def place_def)
  have l: "length (rb_storage rb1) = N" using b by (simp add: rb1_def flip: N_def)
  have lb: "loop_bound rb1 = Suc (Suc (Suc (N - 1)))" using geometryD(7) [OF d(1)] b by (simp add: loop_bound_def rb1_def flip: N_def)
  have geo: "geometry_ok rb1" using d(1) l by (simp add: geometry_ok_def rb1_def flip: N_def)
  have hd: "part (rb_storage rb1) ?i 8 = header_bytes (freed (length bs))"
    using b by (simp add: rb1_def part_patch_same [where bs = "header_bytes h" for h, simplified] flip: N_def)
  show ?thesis
  proof (cases "f = r")
    case True
    have "advance_free (Suc (Suc (Suc (N - 1)))) rb1 = Inr rb1"
      by (rule advance_free_stop [where p = f]) (use w(1,2) True l b(3) in \<open>simp_all add: rb1_def\<close>)
    moreover have "rb\<lparr>rb_storage := s, pucFree := int r\<rparr> = rb\<lparr>rb_storage := s\<rparr>" for s using w(1) True by (cases rb) simp
    ultimately show ?thesis using True unfolding lb by (simp add: rb1_def released_def)
  next
    case ne: False
    show ?thesis
    proof (cases "N < f + need bs")
      case True
      have "?i = 0" using True by (simp add: item_pos_def)
      moreover have "part (rb_storage rb1) f 8 = header_bytes passed_dummy"
        using True z b w(3) \<open>?i = 0\<close> by (simp add: rb1_def part_patch_other entry_ok_def flip: N_def)
      ultimately show ?thesis using True ne z w d(3) hd l
        unfolding lb by (subst advance_freed_wrapped [OF geo, where p = f and bs = bs and N = N]) (simp_all add: rb1_def released_def Let_def)
    next
      case False
      then have "?i = f" by (simp add: item_pos_def)
      then show ?thesis using False ne w d(3) hd l
        unfolding lb by (subst advance_freed [OF geo, where p = f and bs = bs and N = N]) (simp_all add: rb1_def released_def Let_def)
    qed
  qed
qed

lemma return_item:
  assumes "items_at f r a [bs] ws rb"
  defines "N \<equiv> length (rb_storage rb)"
  shows "\<exists>rb'. prvReturnItemDefault (int (item_pos N f bs + 8)) rb = Inr rb' \<and> items_at r r a [] ws rb' \<and> length (rb_storage rb') = N \<and>
    rbWaitingToSend rb' = rbWaitingToSend rb \<and> rbWaitingToReceive rb' = rbWaitingToReceive rb"
proof -
  note d = items_atD [OF assms(1), folded N_def]
  note g = geometryD [OF d(1), folded N_def]
  let ?i = "item_pos N f bs" and ?st = "rb_storage rb"
  let ?st' = "released N ?st f (f \<noteq> r) bs"
  have w: "pucAcquire rb = int a" "pucRead rb = int r" "entry_ok N ?st f bs" "r = pos_after N f bs" "small N bs" "chain N ?st r ws a"
    "\<forall>bs \<in> set ws. small N bs" "pucWrite rb = int a" "xItemsWaiting rb = of_nat (length ws)"
    using assms(1) by (simp_all add: items_at_def Let_def N_def)
  have len0: "length ?st = N" by (simp add: N_def)
  have b: "?i + need bs \<le> N" "8 + length bs \<le> need bs" "f + 8 \<le> N" "?i mod 4 = 0"
    using item_within [OF d(2) w(5)] need_bounds d(3) by (simp_all add: place_def item_pos_def)
  have r: "r = (f + used N f bs) mod N" using d(8) by simp
  have u: "used N f bs + occupied N r ws \<le> N" "0 < used N f bs" using d(9,11) used_bounds(1) [OF d(3), of bs] by simp_all
  note rel = released_agree [OF len0 d(2,3) w(5) r u(1), where moved = "f \<noteq> r"]
  have ch: "chain N ?st' r ws a" by (rule chain_agree [OF w(6) rel(2) len0 rel(1) d(2,4) w(7)])
  note h = entry_headers(1) [OF w(3) d(2,3) w(5) len0]
  have len: "(of_nat (length bs) :: u32) \<le> xMaxItemSize rb"
    using g(9) small_words(1) [OF d(2) w(5)] w(5) by (simp add: word_le_nat_alt small_def)
  let ?rb1 = "rb\<lparr>rb_storage := patch ?st ?i (header_bytes (freed (length bs)))\<rparr>"
  have pt: "put_header (int ?i) (freed (length bs)) rb = Inr ?rb1" using b by (intro put_header_eq) (simp flip: N_def)
  let ?rb2 = "rb\<lparr>rb_storage := ?st', pucFree := int r\<rparr>"
  let ?rb' = "if rb_has rbBUFFER_FULL_FLAG ?rb2 \<and> (int r \<noteq> int a \<or> int r = int a) then rb_clear rbBUFFER_FULL_FLAG ?rb2 else ?rb2"
  have adv: "advance_free (loop_bound ?rb1) ?rb1 = Inr ?rb2" using advance_returned [OF assms(1)] by (simp flip: N_def)
  have "prvReturnItemDefault (int (?i + 8)) rb = Inr ?rb'"
    using h pt adv len b g(5,6) check_aligned_item [OF b(4)] w(1,2)
    by (simp add: prvReturnItemDefault_def rbHEADER_SIZE_def written_def freed_def)
  moreover have "items_at r r a [] ws ?rb'"
    using d(1,4) rel(1) ch u w len0 by (auto simp: items_at_def geometry_ok_def Let_def rb_clear_def rb_has_bit full_flag_bits)
  moreover have "length (rb_storage ?rb') = N" "rbWaitingToSend ?rb' = rbWaitingToSend rb" "rbWaitingToReceive ?rb' = rbWaitingToReceive rb"
    using rel(1) by (simp_all add: rb_clear_def)
  ultimately show ?thesis by blast
qed

section \<open>The operations on the list of items\<close>

lemma items_wake [simp]:
  "items_at f r a ls ws (rb_wake_sender rb) = items_at f r a ls ws rb" "items_at f r a ls ws (rb_wake_receiver rb) = items_at f r a ls ws rb"
  by (simp_all add: items_at_def geometry_ok_def rb_wake_sender_def rb_wake_receiver_def)

text \<open>Whether an item would be accepted: it is not too long, and what it would use is free.\<close>

definition accepts :: "nat \<Rightarrow> nat \<Rightarrow> u8 list list \<Rightarrow> nat \<Rightarrow> u8 list \<Rightarrow> bool" where
  "accepts N f bss a bs \<longleftrightarrow> small N bs \<and> occupied N f bss + used N a bs \<le> N"

lemma max_item:
  assumes "geometry_ok rb" and "length bs < 2 ^ 32"
  shows "xMaxItemSize rb < of_nat (length bs) \<longleftrightarrow> \<not> small (length (rb_storage rb)) bs"
proof -
  have "8 \<le> al4 (length (rb_storage rb) div 2)" using geometryD(8) [OF assms(1)] by (simp add: storage_ok_def al4_def) presburger
  then show ?thesis using geometryD(9) [OF assms(1)] assms(2) by (auto simp: word_less_nat_alt small_def unat_of_nat)
qed

lemma item_of_all: "length bs < 2 ^ 32 \<Longrightarrow> item_of (Some bs) (of_nat (length bs)) = Inr bs"
  by (simp add: item_of_def mem_read_def unat_of_nat)

lemma pass_items:
  assumes "items_at f r a ls ws rb" and "small (length (rb_storage rb)) bs"
  defines "N \<equiv> length (rb_storage rb)"
  shows "if accepts N f (ls @ ws) a bs
    then \<exists>rb'. prvSendAcquireGeneric_pass (Send_Item bs) t tm k rb = Inr (Done (pdTRUE, None), rb', k) \<and>
      items_at f r (pos_after N a bs) ls (ws @ [bs]) rb' \<and> length (rb_storage rb') = N
    else prvCheckItemFitsDefault (of_nat (length bs)) rb = Inr False"
proof -
  note d = items_atD [OF assms(1), folded N_def]
  note ty = geometryD(1) [OF d(1)]
  note fit = fits_items [OF assms(1,2), folded N_def]
  show ?thesis
  proof (cases "accepts N f (ls @ ws) a bs")
    case True
    then obtain rb' where "prvCopyItemNoSplit bs rb = Inr rb'" "items_at f r (pos_after N a bs) ls (ws @ [bs]) rb'" "length (rb_storage rb') = N"
      using copy_item [OF assms(1), of bs] by (auto simp: accepts_def N_def)
    then show ?thesis using True fit ty
      by (auto simp: prvSendAcquireGeneric_pass_def xCheckItemFits_def request_size_def vCopyItem_def accepts_def)
  next
    case False
    then show ?thesis using fit assms(2) by (auto simp: accepts_def N_def)
  qed
qed

text \<open>Sending without waiting, from a task and from an interrupt.\<close>

lemma send_item:
  assumes "items_at f r a ls ws rb" and "length bs < 2 ^ 32"
  defines "N \<equiv> length (rb_storage rb)"
  shows "if accepts N f (ls @ ws) a bs
    then \<exists>rb'. xRingbufferSend e (Some rb) (Some bs) (of_nat (length bs)) t k = Inr (pdTRUE, rb', k) \<and>
      items_at f r (pos_after N a bs) ls (ws @ [bs]) rb' \<and> length (rb_storage rb') = N
    else xRingbufferSend [] (Some rb) (Some bs) (of_nat (length bs)) 0 k = Inr (pdFALSE, rb, k)"
proof -
  note d = items_atD [OF assms(1), folded N_def]
  note g = geometryD [OF d(1)] and mx = max_item [OF d(1) assms(2), folded N_def]
  show ?thesis
  proof (cases "small N bs")
    case True
    then show ?thesis
      using pass_items [OF assms(1), of bs t None k] mx g(1,3) item_of_all [OF assms(2)]
      by (auto simp: N_def xRingbufferSend_def prvSendAcquireGeneric.simps prvSendAcquireGeneric_pass_def xCheckItemFits_def
          request_size_def split: if_splits)
  next
    case False
    then show ?thesis using mx by (simp add: accepts_def xRingbufferSend_def)
  qed
qed

lemma receive_on:
  assumes "items_on f r a ls (bs # ws) rb"
  defines "N \<equiv> length (rb_storage rb)"
  shows "xRingbufferReceiveFromISR (Some rb) = Inr (Some (int (item_pos N r bs + 8), of_nat (length bs)), lend_item bs rb)"
    "xRingbufferReceive e (Some rb) t k = Inr (Some (int (item_pos N r bs + 8), of_nat (length bs)), lend_item bs rb, k)"
proof -
  note d = items_onD [OF assms(1), folded N_def]
  have "rbType rb = RINGBUF_TYPE_NOSPLIT" "\<not> rb_has rbALLOW_SPLIT_FLAG (lend_item bs rb)"
    using geometryD(1,2) [OF d(1)] by (simp_all add: lend_item_def rb_has_def)
  then have "retrieve False 0 rb = Inr (((int (item_pos N r bs + 8), of_nat (length bs)), None), lend_item bs rb)"
    using get_on(1) [OF assms(1)] by (simp add: retrieve_def N_def)
  then show "xRingbufferReceiveFromISR (Some rb) = Inr (Some (int (item_pos N r bs + 8), of_nat (length bs)), lend_item bs rb)"
    "xRingbufferReceive e (Some rb) t k = Inr (Some (int (item_pos N r bs + 8), of_nat (length bs)), lend_item bs rb, k)"
    using avail_on(1) [OF assms(1)]
    by (simp_all add: xRingbufferReceiveFromISR_def prvReceiveGenericFromISR_def xRingbufferReceive_def prvReceiveGeneric.simps
        prvReceiveGeneric_pass_def)
qed

lemmas isr_receive_item = receive_on [OF items_at_on]

lemma receive_nothing:
  assumes "items_at f r a [] [] rb"
  shows "xRingbufferReceiveFromISR (Some rb) = Inr (None, rb)" "xRingbufferReceive [] (Some rb) 0 k = Inr (None, rb, k)"
  using avail_items(1) [OF assms]
  by (simp_all add: xRingbufferReceiveFromISR_def prvReceiveGenericFromISR_def xRingbufferReceive_def prvReceiveGeneric.simps
      prvReceiveGeneric_pass_def)

lemma give_item:
  assumes "items_at f r a [bs] ws rb"
  defines "N \<equiv> length (rb_storage rb)"
  shows "\<exists>rb'. vRingbufferReturnItem (Some rb) (Some (int (item_pos N f bs + 8))) = Inr rb' \<and>
    vRingbufferReturnItemFromISR (Some rb) (Some (int (item_pos N f bs + 8))) = Inr rb' \<and>
    items_at r r a [] ws rb' \<and> length (rb_storage rb') = N"
proof -
  have "rbType rb = RINGBUF_TYPE_NOSPLIT" using geometryD(1) [OF items_atD(1) [OF assms(1)]] .
  with return_item [OF assms(1)] show ?thesis
    by (auto simp: vRingbufferReturnItem_def vRingbufferReturnItemFromISR_def vReturnItem_def N_def)
qed

lemma lent_bytes:
  assumes "items_at f r a [bs] ws rb"
  defines "N \<equiv> length (rb_storage rb)"
  shows "n \<le> length bs \<Longrightarrow> m \<le> length bs - n \<Longrightarrow> mem_read (rb_storage rb) (int (item_pos N f bs + 8 + n)) m = Inr (take m (drop n bs))"
proof -
  note d = items_atD [OF assms(1), folded N_def]
  have e: "entry_ok N (rb_storage rb) f bs" "small N bs" using assms(1) by (simp_all add: items_at_def Let_def N_def)
  have b: "item_pos N f bs + need bs \<le> N" "8 + length bs \<le> need bs" using item_within [OF d(2) e(2)] need_bounds by simp_all
  assume nm: "n \<le> length bs" "m \<le> length bs - n"
  then have "mem_read (rb_storage rb) (int (item_pos N f bs + 8 + n)) m = Inr (part (rb_storage rb) (item_pos N f bs + 8 + n) m)"
    using b by (intro mem_read_part) (simp flip: N_def)
  moreover have "part (rb_storage rb) (item_pos N f bs + 8 + n) m = take m (drop n (part (rb_storage rb) (item_pos N f bs + 8) (length bs)))"
    using nm by (simp add: part_def drop_take add.commute min_def)
  ultimately show ?thesis using e(1) by (simp add: entry_ok_def)
qed

section \<open>Reading the items off the storage\<close>

fun read_items :: "Ringbuffer_t \<Rightarrow> nat \<Rightarrow> nat \<Rightarrow> u8 list list" where
  "read_items rb p 0 = []"
| "read_items rb p (Suc n) =
     (let st = rb_storage rb;
          q = (if has_flag (uxItemFlags (bytes_header (part st p 8))) rbITEM_DUMMY_DATA_FLAG then 0 else p);
          bs = part st (q + 8) (unat (xItemLen (bytes_header (part st q 8))))
      in bs # read_items rb (pos_after (length st) p bs) n)"

definition queued_items :: "Ringbuffer_t \<Rightarrow> u8 list list" where
  "queued_items rb = read_items rb (nat (pucRead rb)) (unat (xItemsWaiting rb))"

definition lent_items :: "Ringbuffer_t \<Rightarrow> u8 list list" where
  "lent_items rb =
     read_items rb (nat (pucFree rb)) (if pucFree rb \<noteq> pucRead rb \<or> rb_has rbBUFFER_FULL_FLAG rb \<and> xItemsWaiting rb = 0 then 1 else 0)"

definition item_inv :: "Ringbuffer_t \<Rightarrow> bool" where
  "item_inv rb \<longleftrightarrow> items_at (nat (pucFree rb)) (nat (pucRead rb)) (nat (pucWrite rb)) (lent_items rb) (queued_items rb) rb"

lemma read_chain:
  assumes "chain N (rb_storage rb) p bss q" and "length (rb_storage rb) = N" and "storage_ok N" and "place N p" and "\<forall>bs \<in> set bss. small N bs"
  shows "read_items rb p (length bss) = bss"
  using assms
proof (induction bss arbitrary: p)
  case (Cons bs bss)
  have sm: "small N bs" and e: "entry_ok N (rb_storage rb) p bs" using Cons.prems by simp_all
  have fl: "has_flag (uxItemFlags (bytes_header (part (rb_storage rb) p 8))) rbITEM_DUMMY_DATA_FLAG \<longleftrightarrow> N < p + need bs"
    using e by (cases "N < p + need bs") (simp_all add: entry_ok_def item_pos_def passed_dummy_def written_def)
  have it: "part (rb_storage rb) (item_pos N p bs + 8) (unat (xItemLen (bytes_header (part (rb_storage rb) (item_pos N p bs) 8)))) = bs"
    using e small_words(1) [OF Cons.prems(3) sm] by (simp add: entry_ok_def written_def)
  have "read_items rb (pos_after N p bs) (length bss) = bss"
    using Cons.IH [of "pos_after N p bs"] Cons.prems place_after [OF Cons.prems(3,4) sm] by simp
  then show ?case using fl it Cons.prems(2) by (simp add: item_pos_def Let_def)
qed simp

lemma items_atI_lists:
  assumes "items_at f r a ls ws rb"
  shows "lent_items rb = ls" "queued_items rb = ws" "item_inv rb"
proof -
  define N where "N = length (rb_storage rb)"
  note d = items_atD [OF assms, folded N_def]
  have w: "pucFree rb = int f" "pucRead rb = int r" "pucWrite rb = int a" "xItemsWaiting rb = of_nat (length ws)" "chain N (rb_storage rb) f ls r"
    "chain N (rb_storage rb) r ws a" "\<forall>bs \<in> set (ls @ ws). small N bs" "length ls \<le> 1"
    using assms by (simp_all add: items_at_def Let_def N_def)
  have "length ws < 2 ^ 32" using d(12) geometryD(10) [OF d(1)] by (simp add: N_def)
  then have c: "unat (xItemsWaiting rb) = length ws" using w(4) by (simp add: unat_of_nat)
  then have c0: "xItemsWaiting rb = 0 \<longleftrightarrow> ws = []" by (auto simp: unat_eq_0 simp flip: length_0_conv)
  show q: "queued_items rb = ws"
    using read_chain [OF w(6) N_def [symmetric] d(2,4)] w(2,7) c by (simp add: queued_items_def)
  have sm: "\<forall>bs \<in> set ls. small N bs" "\<forall>bs \<in> set ws. small N bs" using w(7) by simp_all
  have fN: "f < N" "0 < N" using d(3) by (auto simp: place_def)
  have "(if pucFree rb \<noteq> pucRead rb \<or> rb_has rbBUFFER_FULL_FLAG rb \<and> xItemsWaiting rb = 0 then 1 else 0) = length ls"
  proof (cases ls)
    case Nil
    then show ?thesis using w(1,2,5) items_full [OF items_at_on [OF assms]] c0 fN by (auto simp: N_def)
  next
    case (Cons bs bss)
    then have ls: "ls = [bs]" using w(8) by simp
    have "0 < occupied N f ls" using occupied_length [OF d(2,3) sm(1)] ls by simp
    moreover have "occupied N f ls \<le> N" using d(9,11) by simp
    ultimately have "r \<noteq> f \<or> occupied N f ls = N" using ring_cases [OF d(8) fN(1)] by fastforce
    moreover have "ws = []" "occupied N f (ls @ ws) = N" if "occupied N f ls = N"
      using that d(9,11) occupied_length [OF d(2,4) sm(2)] by simp_all
    ultimately show ?thesis using ls w(1,2) items_full [OF items_at_on [OF assms]] c0 by (auto simp: N_def)
  qed
  then show l: "lent_items rb = ls" using read_chain [OF w(5) N_def [symmetric] d(2,3) sm(1)] w(1) by (simp add: lent_items_def)
  show "item_inv rb" using assms l q w(1-3) by (simp add: item_inv_def)
qed

lemma item_invE:
  assumes "item_inv rb"
  obtains f r a where "items_at f r a (lent_items rb) (queued_items rb) rb" "pucFree rb = int f" "pucRead rb = int r" "pucAcquire rb = int a"
  using assms that [of "nat (pucFree rb)" "nat (pucRead rb)" "nat (pucWrite rb)"] by (auto simp: item_inv_def items_at_def Let_def)

section \<open>Interface: a queue that lends one item\<close>

text \<open>
  A schedule of the operations of a writer and of a reader that holds at most one item: a reader that
  has one does not ask for another. It looks at the item when it gives it back.
\<close>

datatype 'a item_op = Put 'a | Get | Back

fun run_items ::
  "('a \<Rightarrow> 's \<Rightarrow> (bool \<times> 's) res) \<Rightarrow> ('s \<Rightarrow> ('p option \<times> 's) res) \<Rightarrow> ('p \<Rightarrow> 's \<Rightarrow> 'a res) \<Rightarrow> ('p \<Rightarrow> 's \<Rightarrow> 's res) \<Rightarrow>
   'a item_op list \<Rightarrow> 's \<Rightarrow> 'p option \<Rightarrow> ('a list \<times> 'a list \<times> 's \<times> 'p option) res" where
  "run_items put get look give [] s h = Inr ([], [], s, h)"
| "run_items put get look give (Put x # ops) s h =
     bind_res (put x s) (\<lambda>(ok, s1).
     bind_res (run_items put get look give ops s1 h) (\<lambda>(acc, got, r). Inr ((if ok then [x] else []) @ acc, got, r)))"
| "run_items put get look give (Get # ops) s h =
     (case h of
        None \<Rightarrow> bind_res (get s) (\<lambda>(po, s1). run_items put get look give ops s1 po)
      | Some _ \<Rightarrow> run_items put get look give ops s h)"
| "run_items put get look give (Back # ops) s h =
     (case h of
        None \<Rightarrow> run_items put get look give ops s h
      | Some p \<Rightarrow>
          bind_res (look p s) (\<lambda>x. bind_res (give p s) (\<lambda>s1.
          bind_res (run_items put get look give ops s1 None) (\<lambda>(acc, got, r). Inr (acc, x # got, r)))))"

locale item_queue =
  fixes invar :: "'s \<Rightarrow> bool"
    and on_loan :: "'s \<Rightarrow> 'a list"
    and queued :: "'s \<Rightarrow> 'a list"
    and holds :: "'p \<Rightarrow> 's \<Rightarrow> bool"
    and valid :: "'a \<Rightarrow> bool"
    and fits :: "'a \<Rightarrow> 's \<Rightarrow> bool"
    and put :: "'a \<Rightarrow> 's \<Rightarrow> (bool \<times> 's) res"
    and get :: "'s \<Rightarrow> ('p option \<times> 's) res"
    and look :: "'p \<Rightarrow> 's \<Rightarrow> 'a res"
    and give :: "'p \<Rightarrow> 's \<Rightarrow> 's res"
  assumes put_fits: "invar s \<Longrightarrow> valid x \<Longrightarrow> fits x s \<Longrightarrow>
      \<exists>s'. put x s = Inr (True, s') \<and> invar s' \<and> on_loan s' = on_loan s \<and> queued s' = queued s @ [x] \<and> (\<forall>p. holds p s \<longrightarrow> holds p s')"
    and put_refused: "invar s \<Longrightarrow> valid x \<Longrightarrow> \<not> fits x s \<Longrightarrow> put x s = Inr (False, s)"
    and get_oldest: "invar s \<Longrightarrow> on_loan s = [] \<Longrightarrow> queued s = x # xs \<Longrightarrow>
      \<exists>p s'. get s = Inr (Some p, s') \<and> invar s' \<and> on_loan s' = [x] \<and> queued s' = xs \<and> holds p s'"
    and get_nothing: "invar s \<Longrightarrow> on_loan s = [] \<Longrightarrow> queued s = [] \<Longrightarrow> get s = Inr (None, s)"
    and look_lent: "invar s \<Longrightarrow> holds p s \<Longrightarrow> \<exists>x. on_loan s = [x] \<and> look p s = Inr x"
    and back_returns: "invar s \<Longrightarrow> holds p s \<Longrightarrow> \<exists>s'. give p s = Inr s' \<and> invar s' \<and> on_loan s' = [] \<and> queued s' = queued s"
begin

definition held :: "'s \<Rightarrow> 'p option \<Rightarrow> bool" where
  "held s h \<longleftrightarrow> (case h of None \<Rightarrow> on_loan s = [] | Some p \<Rightarrow> holds p s)"

text \<open>
  Whatever the order of the operations, nothing faults, and the items given back, followed by the one
  held and those that wait, are the ones that were there followed by the ones accepted.
\<close>

lemma channel:
  assumes "invar s" and "held s h" and "\<forall>x. Put x \<in> set ops \<longrightarrow> valid x"
  shows "\<exists>acc got s' h'. run_items put get look give ops s h = Inr (acc, got, s', h') \<and> invar s' \<and> held s' h' \<and>
    got @ on_loan s' @ queued s' = on_loan s @ queued s @ acc"
  using assms
proof (induction ops arbitrary: s h)
  case (Cons op ops)
  have ok: "\<forall>x. Put x \<in> set ops \<longrightarrow> valid x" using Cons.prems(3) by simp
  note IH = Cons.IH [OF _ _ ok]
  show ?case
  proof (cases op)
    case (Put x)
    then have v: "valid x" using Cons.prems(3) by simp
    show ?thesis
    proof (cases "fits x s")
      case True
      obtain s1 where s1: "put x s = Inr (True, s1)" "invar s1" "on_loan s1 = on_loan s" "queued s1 = queued s @ [x]" "\<forall>p. holds p s \<longrightarrow> holds p s1"
        using put_fits [OF Cons.prems(1) v True] by blast
      then have "held s1 h" using Cons.prems(2) by (auto simp: held_def split: option.splits)
      from IH [OF s1(2) this] s1 Put show ?thesis by auto
    next
      case False
      from IH [OF Cons.prems(1,2)] put_refused [OF Cons.prems(1) v False] Put show ?thesis by auto
    qed
  next
    case Get
    show ?thesis
    proof (cases h)
      case None
      then have l: "on_loan s = []" using Cons.prems(2) by (simp add: held_def)
      show ?thesis
      proof (cases "queued s")
        case Nil
        with IH [OF Cons.prems(1,2)] get_nothing [OF Cons.prems(1) l] None Get show ?thesis by auto
      next
        case (Cons x xs)
        obtain p s1 where s1: "get s = Inr (Some p, s1)" "invar s1" "on_loan s1 = [x]" "queued s1 = xs" "holds p s1"
          using get_oldest [OF \<open>invar s\<close> l Cons] by blast
        then have "held s1 (Some p)" by (simp add: held_def)
        from IH [OF s1(2) this] s1 l Cons None Get show ?thesis by auto
      qed
    next
      case (Some p)
      with IH [OF Cons.prems(1,2)] Get show ?thesis by auto
    qed
  next
    case Back
    show ?thesis
    proof (cases h)
      case None
      with IH [OF Cons.prems(1,2)] Back show ?thesis by auto
    next
      case (Some p)
      then have p: "holds p s" using Cons.prems(2) by (simp add: held_def)
      obtain x where x: "on_loan s = [x]" "look p s = Inr x" using look_lent [OF Cons.prems(1) p] by blast
      obtain s1 where s1: "give p s = Inr s1" "invar s1" "on_loan s1 = []" "queued s1 = queued s" using back_returns [OF Cons.prems(1) p] by blast
      then have "held s1 None" by (simp add: held_def)
      from IH [OF s1(2) this] s1 x Some Back show ?thesis by auto
    qed
  qed
qed simp

end

section \<open>No-split buffers lend one item\<close>

definition holds_item :: "rb_item \<Rightarrow> Ringbuffer_t \<Rightarrow> bool" where
  "holds_item it rb \<longleftrightarrow>
     (case lent_items rb of
        [bs] \<Rightarrow> it = (int (item_pos (length (rb_storage rb)) (nat (pucFree rb)) bs + 8), of_nat (length bs))
      | _ \<Rightarrow> False)"

definition takes_item :: "u8 list \<Rightarrow> Ringbuffer_t \<Rightarrow> bool" where
  "takes_item bs rb \<longleftrightarrow>
     accepts (length (rb_storage rb)) (nat (pucFree rb)) (lent_items rb @ queued_items rb) (nat (pucAcquire rb)) bs"

interpretation no_split: item_queue item_inv lent_items queued_items holds_item "\<lambda>bs. length bs < 2 ^ 32" takes_item
  "rb_send0 k" "rb_recv0 k 0" rb_peek rb_give for k
proof (unfold_locales, goal_cases)
  case (1 rb bs)
  obtain f r a where at: "items_at f r a (lent_items rb) (queued_items rb) rb" "pucFree rb = int f" "pucRead rb = int r" "pucAcquire rb = int a"
    using 1(1) by (rule item_invE)
  obtain rb' where rb': "xRingbufferSend [] (Some rb) (Some bs) (of_nat (length bs)) 0 k = Inr (pdTRUE, rb', k)"
    "items_at f r (pos_after (length (rb_storage rb)) a bs) (lent_items rb) (queued_items rb @ [bs]) rb'" "length (rb_storage rb') = length (rb_storage rb)"
    using send_item [OF at(1) 1(2), of "[]" 0 k] 1(3) at(2,4) by (auto simp: takes_item_def)
  have "pucFree rb' = int f" using rb'(2) by (simp add: items_at_def Let_def)
  then show ?case using rb' items_atI_lists [OF rb'(2)] at(2) by (auto simp: rb_send0_def holds_item_def split: list.splits)
next
  case (2 rb bs)
  obtain f r a where at: "items_at f r a (lent_items rb) (queued_items rb) rb" "pucFree rb = int f" "pucRead rb = int r" "pucAcquire rb = int a"
    using 2(1) by (rule item_invE)
  then show ?case using send_item [OF at(1) 2(2), of "[]" 0 k] 2(3) by (simp add: takes_item_def rb_send0_def basetype_defs)
next
  case (3 rb bs bss)
  obtain f r a where at: "items_at f r a [] (bs # bss) rb" "pucFree rb = int f" using 3 item_invE [OF 3(1)] by metis
  have "f = r" using at(1) by (simp add: items_at_def Let_def)
  note g = get_item [OF at(1)]
  note l = items_atI_lists [OF g] and e = isr_receive_item(2) [OF at(1), of "[]" 0 k]
  have "holds_item (int (item_pos (length (rb_storage rb)) r bs + 8), of_nat (length bs)) (lend_item bs rb)"
    using l(1) at(2) \<open>f = r\<close> by (simp add: holds_item_def lend_item_def)
  then show ?case using e l by (auto simp: rb_recv0_def)
next
  case (4 rb)
  then obtain f r a where "items_at f r a [] [] rb" using item_invE [OF 4(1)] by metis
  then show ?case using receive_nothing(2) by (simp add: rb_recv0_def)
next
  case (5 rb it)
  then obtain f r a where at: "items_at f r a (lent_items rb) (queued_items rb) rb" "pucFree rb = int f" using item_invE [OF 5(1)] by metis
  obtain bs where l: "lent_items rb = [bs]" using 5(2) by (auto simp: holds_item_def split: list.splits)
  have "it = (int (item_pos (length (rb_storage rb)) f bs + 8), of_nat (length bs))" using 5(2) l at(2) by (simp add: holds_item_def)
  moreover have "small (length (rb_storage rb)) bs" using at(1) l by (simp add: items_at_def Let_def)
  note w = small_words(1) [OF items_atD(2) [OF at(1)] this]
  ultimately show ?case using lent_bytes [of f r a bs "queued_items rb" rb 0 "length bs"] at(1) l w by (simp add: rb_peek_def)
next
  case (6 rb it)
  then obtain f r a where at: "items_at f r a (lent_items rb) (queued_items rb) rb" "pucFree rb = int f" using item_invE [OF 6(1)] by metis
  obtain bs where l: "lent_items rb = [bs]" using 6(2) by (auto simp: holds_item_def split: list.splits)
  have it: "it = (int (item_pos (length (rb_storage rb)) f bs + 8), of_nat (length bs))" using 6(2) l at(2) by (simp add: holds_item_def)
  obtain rb' where "vRingbufferReturnItem (Some rb) (Some (fst it)) = Inr rb'" "items_at r r a [] (queued_items rb) rb'"
    using give_item [of f r a bs "queued_items rb" rb] at(1) l it by auto
  then show ?case using items_atI_lists by (auto simp: rb_give_def)
qed

section \<open>New buffers\<close>

definition fresh_nosplit :: "(nat \<Rightarrow> u8) \<Rightarrow> u32 \<Rightarrow> Ringbuffer_t" where
  "fresh_nosplit junk n = prvInitializeNewRingbuffer n RINGBUF_TYPE_NOSPLIT (map junk [0..<unat n])"

lemma of_nat_of_unat: "unat (w :: 'a::len word) = n \<Longrightarrow> w = of_nat n"
  by (drule sym) simp

lemma fresh_nosplit_at:
  assumes "storage_ok (unat n)"
  shows "items_at 0 0 0 [] [] (fresh_nosplit junk n)" "items_at 0 0 0 [] [] (rb_set rbBUFFER_STATIC_FLAG (fresh_nosplit junk n))"
proof -
  let ?N = "unat n"
  have N: "?N mod 4 = 0" "16 \<le> ?N" "?N < 2 ^ 31" using assms by (simp_all add: storage_ok_def)
  have h: "unat (n div 2) = ?N div 2" by (simp add: unat_div)
  have "unat (rbALIGN_SIZE (n div 2)) = al4 (?N div 2)" using unat_align [of "n div 2"] h N(3) by simp
  moreover have "8 \<le> al4 (?N div 2)" using N by (simp add: al4_def)
  ultimately have "unat (rbALIGN_SIZE (n div 2) - rbHEADER_SIZE) = al4 (?N div 2) - 8" by (simp add: unat_sub_if_size rbHEADER_SIZE_def)
  then have mx: "rbALIGN_SIZE (n div 2) - rbHEADER_SIZE = of_nat (al4 (?N div 2) - 8)" by (intro of_nat_of_unat)
  have bits: "\<not> bit (rbBUFFER_STATIC_FLAG) i" if "i < 3" for i
    using that by (auto simp: rbBUFFER_STATIC_FLAG_def bit_numeral_rec less_Suc_eq numeral_3_eq_3)
  show "items_at 0 0 0 [] [] (fresh_nosplit junk n)"
    using assms N mx by (simp add: fresh_nosplit_def prvInitializeNewRingbuffer_def items_at_def geometry_ok_def place_def)
  then show "items_at 0 0 0 [] [] (rb_set rbBUFFER_STATIC_FLAG (fresh_nosplit junk n))"
    using bits [of 0] bits [of 1] bits [of 2] by (simp add: items_at_def geometry_ok_def rb_set_def bit_or_iff Let_def)
qed

lemma create_nosplit:
  assumes "13 \<le> n" and "n < 2 ^ 30"
  shows "xRingbufferCreate True (Some junk) n RINGBUF_TYPE_NOSPLIT = Inr (Some (fresh_nosplit junk (rbALIGN_SIZE n)))"
    "storage_ok (unat (rbALIGN_SIZE n))"
proof -
  have u: "13 \<le> unat n" "unat n < 2 ^ 30" using assms by (simp_all add: word_le_nat_alt word_less_nat_alt)
  then have a: "unat (rbALIGN_SIZE n) = al4 (unat n)" by (intro unat_align) simp
  then show "storage_ok (unat (rbALIGN_SIZE n))" using u al4_bounds(2) [of "unat n"] by (simp add: storage_ok_def) (simp add: al4_def)
  have "0 < n" using u by (simp add: word_less_nat_alt)
  then show "xRingbufferCreate True (Some junk) n RINGBUF_TYPE_NOSPLIT = Inr (Some (fresh_nosplit junk (rbALIGN_SIZE n)))"
    by (simp add: xRingbufferCreate_def aligned_size_def fresh_nosplit_def Let_def)
qed

section \<open>The reported free space\<close>

text \<open>The greatest number of bytes of an item that the pointers leave room for.\<close>

lemma used_room:
  assumes "storage_ok N" and "place N a" and "place N f" and "small N bs" and "a = (f + t) mod N" and "t < N"
  shows "t + used N a bs \<le> N \<longleftrightarrow> t = 0 \<or> need bs \<le> (if a < f then f - a else max (N - a) f)"
proof -
  have b: "a + 8 \<le> N" "f + 8 \<le> N" "f < N" "need bs + 8 \<le> N" "8 \<le> need bs"
    using assms(2,3) need_small(1) [OF assms(1,4)] need_bounds(2) by (simp_all add: place_def)
  from assms(5) b(3) less_imp_le [OF assms(6)] show ?thesis
  proof (cases rule: ring_cases)
    case 1
    then show ?thesis using empty_room [OF assms(1,2,4)] by simp
  next
    case 3
    then show ?thesis using b by (auto simp: used_def)
  next
    case 4
    then show ?thesis using b by (auto simp: used_def max_def)
  qed (use assms(6) in simp)
qed

lemma need_le_iff: "m mod 4 = 0 \<Longrightarrow> 8 \<le> m \<Longrightarrow> need bs \<le> m \<longleftrightarrow> length bs + 8 \<le> m"
proof -
  assume m: "m mod 4 = 0" "8 \<le> m"
  then have "(m - 8) mod 4 = 0" by presburger
  then have "length bs \<le> m - 8 \<Longrightarrow> al4 (length bs) \<le> m - 8" by (intro al4_least)
  then show ?thesis unfolding need_def using al4_bounds(1) [of "length bs"] m(2) by linarith
qed

lemma limit_eq:
  assumes "m < 2 ^ 31" and "unat (xMaxItemSize rb) < 2 ^ 31"
  shows "unat (limit_free_size (of_nat m - rbHEADER_SIZE) rb) = min (m - 8) (unat (xMaxItemSize rb))"
proof (cases "m < 8")
  case True
  have "of_nat m - rbHEADER_SIZE = (word_of_int (int m - 8) :: i32)" by (simp add: rbHEADER_SIZE_def)
  then have "sint (of_nat m - rbHEADER_SIZE :: i32) = int m - 8"
    using True int_word_sint [of "int m - 8", where ?'a = 32] by simp
  then show ?thesis using True by (simp add: limit_free_size_def)
next
  case False
  then have e: "of_nat m - rbHEADER_SIZE = (of_nat (m - 8) :: i32)" by (simp add: rbHEADER_SIZE_def of_nat_diff)
  have "sint (of_nat (m - 8) :: i32) = int (m - 8)" "unat (of_nat (m - 8) :: i32) = m - 8"
    using assms(1) by (simp_all add: sint_of_nat_u32 unat_of_nat)
  then show ?thesis unfolding e by (simp add: limit_free_size_def word_less_nat_alt min_def)
qed

lemma free_size_exact:
  assumes "items_at f r a ls ws rb" and "bs \<noteq> []"
  shows "accepts (length (rb_storage rb)) f (ls @ ws) a bs \<longleftrightarrow> length bs \<le> unat (prvGetCurMaxSizeNoSplit rb)"
proof -
  define N where "N = length (rb_storage rb)"
  note d = items_atD [OF assms(1), folded N_def]
  note g = geometryD [OF d(1), folded N_def]
  let ?t = "occupied N f (ls @ ws)"
  define m where "m = (if a < f then f - a else max (N - a) f)"
  have p: "pucAcquire rb = int a" "pucFree rb = int f" using assms(1) by (simp_all add: items_at_def Let_def)
  have pl: "a + 8 \<le> N" "f + 8 \<le> N" "a mod 4 = 0" "f mod 4 = 0" "N mod 4 = 0" using d(2,3,5) by (simp_all add: place_def storage_ok_def)
  have mx: "unat (xMaxItemSize rb) = al4 (N div 2) - 8" "8 \<le> al4 (N div 2)" "al4 (N div 2) - 8 < 2 ^ 31"
    using g(9,10) d(2) al4_bounds(2) [of "N div 2"] by (auto simp: storage_ok_def al4_def)
  show ?thesis
  proof (cases "?t = N")
    case True
    then have "\<not> accepts N f (ls @ ws) a bs" using used_bounds(1) [OF d(5), of bs] by (simp add: accepts_def)
    moreover have "prvGetCurMaxSizeNoSplit rb = 0" using True items_full [OF items_at_on [OF assms(1)]] by (simp add: prvGetCurMaxSizeNoSplit_def N_def)
    ultimately show ?thesis using assms(2) by (simp add: N_def)
  next
    case False
    then have t: "?t < N" using d(9) by simp
    have pd: "q \<le> p \<Longrightarrow> ptr_diff (int p) (int q) = of_nat (p - q)" for p q by (simp add: ptr_diff_def of_nat_diff)
    then have "ptr_diff (int f) (int a) = of_nat (f - a)" if "a < f" using that by simp
    moreover have "max (ptr_diff (int N) (int a)) (ptr_diff (int f) 0) = of_nat (max (N - a) f)"
      using pd [of a N] pd [of 0 f] pl(1,2) g(10) unat_of_nat [of "N - a", where ?'a = 32] unat_of_nat [of f, where ?'a = 32]
      by (simp del: of_nat_diff add: max_def word_le_nat_alt)
    ultimately have "prvGetCurMaxSizeNoSplit rb = limit_free_size (of_nat m - rbHEADER_SIZE) rb"
      using items_full [OF items_at_on [OF assms(1)]] False p g(5,6) by (simp add: prvGetCurMaxSizeNoSplit_def N_def m_def Let_def)
    moreover have "m < 2 ^ 31" using pl g(10) by (auto simp: m_def)
    ultimately have s: "unat (prvGetCurMaxSizeNoSplit rb) = min (m - 8) (al4 (N div 2) - 8)" using limit_eq mx by simp
    have m4: "m mod 4 = 0" using pl by (auto simp: m_def max_def)
    have "accepts N f (ls @ ws) a bs \<longleftrightarrow> length bs + 8 \<le> m" if sm: "small N bs"
    proof (cases "?t = 0")
      case True
      then have "a = f" using d(7) pl by simp
      then have "al4 (N div 2) \<le> m" using al4_least [of "N div 2" m] m4 by (auto simp: m_def)
      then show ?thesis using True used_room [OF d(2,5,3) sm d(7) t, folded m_def] sm by (simp add: accepts_def small_def)
    next
      case False
      then show ?thesis using used_room [OF d(2,5,3) sm d(7) t, folded m_def] sm need_le_iff [OF m4, of bs] need_bounds(1) [of bs]
        by (cases "8 \<le> m") (auto simp: accepts_def)
    qed
    moreover have "length bs \<le> m - 8 \<longleftrightarrow> length bs + 8 \<le> m" "length bs \<le> al4 (N div 2) - 8 \<longleftrightarrow> length bs + 8 \<le> al4 (N div 2)"
      using assms(2) by (cases bs; auto)+
    ultimately show ?thesis using s mx(2) unfolding N_def [symmetric] by (cases "small N bs") (auto simp: accepts_def small_def)
  qed
qed

section \<open>Several items on loan\<close>

text \<open>A reader that takes several items before it returns any, and the items it then holds.\<close>

fun rb_take :: "kernel \<Rightarrow> nat \<Rightarrow> Ringbuffer_t \<Rightarrow> (rb_item list \<times> Ringbuffer_t) res" where
  "rb_take k 0 rb = Inr ([], rb)"
| "rb_take k (Suc n) rb =
     bind_res (rb_recv0 k 0 rb) (\<lambda>(item, rb1). bind_res (deref item) (\<lambda>it.
     bind_res (rb_take k n rb1) (\<lambda>(its, rb2). Inr (it # its, rb2))))"

definition item_at :: "nat \<Rightarrow> nat \<Rightarrow> u8 list \<Rightarrow> rb_item" where
  "item_at N p bs = (int (item_pos N p bs + 8), of_nat (length bs))"

fun held :: "nat \<Rightarrow> nat \<Rightarrow> u8 list list \<Rightarrow> rb_item list" where
  "held N p [] = []"
| "held N p (bs # bss) = item_at N p bs # held N (pos_after N p bs) bss"

lemma length_held [simp]: "length (held N p bss) = length bss"
  by (induction bss arbitrary: p) simp_all

lemma held_nth: "chain N st p xs m \<Longrightarrow> held N p (xs @ bs # ys) ! length xs = item_at N m bs"
  by (induction xs arbitrary: p) auto

lemma take_on:
  assumes "items_on f r a ls ws rb"
  shows "\<exists>rb'. rb_take k (length ws) rb = Inr (held (length (rb_storage rb)) r ws, rb') \<and> items_on f a a (ls @ ws) [] rb' \<and>
    rb_storage rb' = rb_storage rb"
  using assms
proof (induction ws arbitrary: r ls rb)
  case Nil
  then show ?case by (auto simp: items_on_def Let_def)
next
  case (Cons bs ws)
  have st: "rb_storage (lend_item bs rb) = rb_storage rb" by (simp add: lend_item_def)
  show ?case using receive_on(2) [OF Cons.prems, of "[]" 0 k] Cons.IH [OF get_on(2) [OF Cons.prems]] st
    by (auto simp: rb_recv0_def item_at_def)
qed

lemma peek_entry:
  assumes "entry_ok N (rb_storage rb) p bs" and "storage_ok N" and "small N bs" and "length (rb_storage rb) = N" and "place N p"
  shows "rb_peek (item_at N p bs) rb = Inr bs"
proof -
  have "item_pos N p bs + 8 + length bs \<le> N" using item_within [OF assms(2,3), of p] need_bounds(1) [of bs] assms(5) by (simp add: place_def)
  then show ?thesis
    using assms mem_read_part [of "item_pos N p bs + 8" "length bs" "rb_storage rb"] small_words(1) [OF assms(2,3)]
    by (simp add: rb_peek_def item_at_def entry_ok_def)
qed

text \<open>The header of an item is among the bytes it uses.\<close>

lemma item_offset:
  assumes "place N p"
  shows "\<exists>d. item_pos N p bs = (p + d) mod N \<and> d + need bs \<le> used N p bs"
proof (cases "N < p + need bs")
  case True
  then show ?thesis using assms by (intro exI [of _ "N - p"]) (simp add: item_pos_def used_def place_def)
next
  case False
  then show ?thesis using assms used_bounds(2) [OF assms, of bs] by (intro exI [of _ 0]) (simp add: item_pos_def place_def)
qed

text \<open>
  Returning one item of a full buffer of which all are on loan: the free pointer is at the read
  pointer, so it does not move, and for the same reason the full flag is cleared. Only the header of
  the item changes, and the buffer is in the state of an empty one.
\<close>

lemma return_all_lent:
  assumes "items_on f f f (xs @ bs # ys) [] rb" and "rb_has rbBUFFER_FULL_FLAG rb" and "chain (length (rb_storage rb)) (rb_storage rb) f xs p"
  defines "N \<equiv> length (rb_storage rb)"
  shows "\<exists>rb'. rb_give (item_at N p bs) rb = Inr rb' \<and> items_at f f f [] [] rb' \<and> length (rb_storage rb') = N \<and>
    agree N (rb_storage rb) (rb_storage rb') f (occupied N f xs)"
proof -
  note d = items_onD [OF assms(1), folded N_def]
  note g = geometryD [OF d(1), folded N_def]
  let ?i = "item_pos N p bs" and ?st = "rb_storage rb"
  have w: "pucFree rb = int f" "pucRead rb = int f" "pucAcquire rb = int f" "pucWrite rb = int f" "\<forall>b \<in> set (xs @ bs # ys). small N b"
    "xItemsWaiting rb = 0" "chain N ?st f (xs @ bs # ys) f"
    using assms(1) by (simp_all add: items_on_def Let_def N_def)
  have len0: "length ?st = N" and sm: "small N bs" using w(5) by (simp_all add: N_def)
  have c: "chain N ?st f xs p" "\<forall>b \<in> set xs. small N b" using assms(3) w(5) by (simp_all add: N_def)
  note p = chain_end [OF c(1) d(2,3) c(2)]
  have "entry_ok N ?st p bs" using w(7) chain_append [of N ?st f xs "bs # ys" f] chain_end(2) [OF _ d(2,3) c(2)] p(2) by auto
  note h = entry_headers(1) [OF this d(2) p(1) sm len0]
  have b: "?i + need bs \<le> N" "8 + length bs \<le> need bs" "?i mod 4 = 0" "f + 8 \<le> N"
    using item_within [OF d(2) sm] need_bounds p(1) d(3) by (simp_all add: place_def item_pos_def)
  let ?st' = "patch ?st ?i (header_bytes (freed (length bs)))"
  let ?rb1 = "rb\<lparr>rb_storage := ?st'\<rparr>"
  have len: "(of_nat (length bs) :: u32) \<le> xMaxItemSize rb"
    using g(9) small_words(1) [OF d(2) sm] sm by (simp add: word_le_nat_alt small_def)
  have pt: "put_header (int ?i) (freed (length bs)) rb = Inr ?rb1" using b by (intro put_header_eq) (simp flip: N_def)
  have l: "length ?st' = N" using b len0 by simp
  have adv: "advance_free (loop_bound ?rb1) ?rb1 = Inr ?rb1"
    unfolding loop_bound_def by (simp, intro advance_free_stop [where p = f]) (use w(1,2) l b(4) in simp_all)
  have "rb_give (item_at N p bs) rb = Inr (rb_wake_sender (rb_clear rbBUFFER_FULL_FLAG ?rb1))"
    using h pt adv len b g(1,5,6) check_aligned_item [OF b(3)] w(1-3) assms(2)
    by (simp add: rb_give_def item_at_def vRingbufferReturnItem_def vReturnItem_def prvReturnItemDefault_def rbHEADER_SIZE_def
        written_def freed_def rb_has_def)
  moreover have "items_at f f f [] [] (rb_wake_sender (rb_clear rbBUFFER_FULL_FLAG ?rb1))"
    unfolding items_wake using d(1-3) w(1-4,6) l by (auto simp: items_at_def geometry_ok_def Let_def rb_clear_def full_flag_bits storage_ok_def simp flip: N_def)
  moreover have "agree N ?st ?st' f (occupied N f xs)"
  proof -
    obtain o' where o': "?i = (p + o') mod N" "o' + need bs \<le> used N p bs" using item_offset [OF p(1)] by blast
    have "occupied N f xs + used N p bs \<le> N" using d(9) occupied_append [OF c(1), of "bs # ys"] by simp
    moreover have "?i = (f + (occupied N f xs + o')) mod N" using o'(1) p(2) by (simp add: mod_add_left_eq add.assoc)
    ultimately show ?thesis using o'(2) b len0 by (intro patch_agree [where off = "occupied N f xs + o'"]) simp_all
  qed
  ultimately show ?thesis using l by (auto simp: rb_clear_def rb_wake_sender_def)
qed

section \<open>Properties\<close>

text \<open>
  C5. A no-split buffer is a first-in-first-out channel of items. After creating one of at least 13
  bytes, for every sequence of sends, receives and returns in which the reader holds at most one item,
  every operation returns without a failed assertion, an access out of bounds or an endless walk over
  the headers, and the items the reader has given back, the one it holds and those that wait are
  exactly the items accepted, in order, wherever they wrapped around in the storage.
\<close>

theorem no_split_channel:
  assumes "13 \<le> n" and "n < 2 ^ 30" and "\<forall>bs. Put bs \<in> set ops \<longrightarrow> length bs < 2 ^ 32"
  shows "\<exists>rb acc got rb' h. xRingbufferCreate True (Some junk) n RINGBUF_TYPE_NOSPLIT = Inr (Some rb) \<and>
    run_items (rb_send0 k) (rb_recv0 k 0) rb_peek rb_give ops rb None = Inr (acc, got, rb', h) \<and>
    item_inv rb' \<and> got @ lent_items rb' @ queued_items rb' = acc"
proof -
  let ?rb = "fresh_nosplit junk (rbALIGN_SIZE n)"
  note l = items_atI_lists [OF fresh_nosplit_at(1) [OF create_nosplit(2) [OF assms(1,2)], of junk]]
  have "no_split.held ?rb None" using l(1) by (simp add: no_split.held_def)
  from no_split.channel [OF l(3) this assms(3), of k] l(1,2) create_nosplit(1) [OF assms(1,2), of junk] show ?thesis by auto
qed

theorem no_split_channel_witness:
  "\<exists>rb acc got rb' h. xRingbufferCreate True (Some (\<lambda>_. 0)) 40 RINGBUF_TYPE_NOSPLIT = Inr (Some rb) \<and>
    run_items (rb_send0 demo_kernel) (rb_recv0 demo_kernel 0) rb_peek rb_give [Put [1, 2], Get, Put [3], Back, Get, Put [4, 5, 6, 7, 8]] rb None =
      Inr (acc, got, rb', h) \<and> got @ lent_items rb' @ queued_items rb' = acc"
  using no_split_channel [of 40 "[Put [1, 2], Get, Put [3], Back, Get, Put [4, 5, 6, 7, 8]]" "\<lambda>_. 0" demo_kernel] by auto

text \<open>
  C31. The free space a no-split buffer reports is exact while at most one item is on loan: an item that is not empty is accepted by a
  send that does not wait if and only if its length is at most the reported size, although the space is
  spread over two parts of which an item needs one.
\<close>

theorem no_split_space_exact:
  assumes "item_inv rb" and "bs \<noteq> []" and "length bs < 2 ^ 32"
  shows "\<exists>s. xRingbufferGetCurFreeSize (Some rb) = Inr s \<and>
    (if length bs \<le> unat s
     then \<exists>rb'. xRingbufferSend [] (Some rb) (Some bs) (of_nat (length bs)) 0 k = Inr (pdTRUE, rb', k) \<and> item_inv rb' \<and>
            lent_items rb' = lent_items rb \<and> queued_items rb' = queued_items rb @ [bs]
     else xRingbufferSend [] (Some rb) (Some bs) (of_nat (length bs)) 0 k = Inr (pdFALSE, rb, k))"
proof -
  obtain f r a where at: "items_at f r a (lent_items rb) (queued_items rb) rb" using assms(1) by (rule item_invE)
  have "xRingbufferGetCurFreeSize (Some rb) = Inr (prvGetCurMaxSizeNoSplit rb)"
    using geometryD(1) [OF items_atD(1) [OF at]] by (simp add: xRingbufferGetCurFreeSize_def xGetCurMaxSize_def)
  with send_item [OF at assms(3), of "[]" 0 k] free_size_exact [OF at assms(2)] items_atI_lists show ?thesis
    by (auto split: if_splits)
qed

theorem no_split_space_exact_witness:
  "\<exists>s. xRingbufferGetCurFreeSize (Some (fresh_nosplit (\<lambda>_. 0) 16)) = Inr s \<and>
    (if 1 \<le> unat s
     then \<exists>rb'. xRingbufferSend [] (Some (fresh_nosplit (\<lambda>_. 0) 16)) (Some [7]) 1 0 demo_kernel = Inr (pdTRUE, rb', demo_kernel) \<and>
            queued_items rb' = [[7]]
     else xRingbufferSend [] (Some (fresh_nosplit (\<lambda>_. 0) 16)) (Some [7]) 1 0 demo_kernel = Inr (pdFALSE, fresh_nosplit (\<lambda>_. 0) 16, demo_kernel))"
proof -
  have "storage_ok (unat (16 :: u32))" by (simp add: storage_ok_def)
  note l = items_atI_lists [OF fresh_nosplit_at(1) [OF this, of "\<lambda>_. 0"]]
  from no_split_space_exact [OF l(3), of "[7]" demo_kernel] l(2) show ?thesis by (auto split: if_splits)
qed


text \<open>
  C32. An item on loan can be overwritten. Take any no-split buffer that is full of items of which
  none is on loan, at least two. A reader takes all of them, and returns one that is not the oldest:
  although it still holds the others the buffer now counts as empty, and the oldest item is still what
  it was. The next item sent with as many bytes as the oldest is accepted, and is what the reader
  finds in place of the oldest item, which it never returned. (The free pointer is on the read
  pointer already, so the walk that frees items does not start, yet the full flag is cleared as for
  a buffer that has been freed completely.)
\<close>

theorem lent_item_overwritten:
  assumes "item_inv rb" and "rb_has rbBUFFER_FULL_FLAG rb" and "lent_items rb = []" and "queued_items rb = oldest # others"
    and "0 < i" and "i \<le> length others" and "length bs = length oldest"
  shows "\<exists>items rb1 rb2 rb3.
    rb_take k (Suc (length others)) rb = Inr (items, rb1) \<and> length items = Suc (length others) \<and>
    rb_peek (items ! 0) rb1 = Inr oldest \<and>
    rb_give (items ! i) rb1 = Inr rb2 \<and> item_inv rb2 \<and> lent_items rb2 = [] \<and> queued_items rb2 = [] \<and> rb_peek (items ! 0) rb2 = Inr oldest \<and>
    rb_send0 k bs rb2 = Inr (True, rb3) \<and> rb_peek (items ! 0) rb3 = Inr bs"
proof -
  obtain f r a where at: "items_at f r a [] (oldest # others) rb" using item_invE [OF assms(1)] assms(3,4) by metis
  define N where "N = length (rb_storage rb)"
  note on = items_at_on [OF at]
  note d = items_onD [OF on, folded N_def]
  have full: "occupied N f (oldest # others) = N" using items_full [OF on] assms(2) by (simp add: N_def)
  have fr: "f = r" "a = f" "small N oldest" "f < N"
    using at d(7) full d(3) by (simp_all add: items_at_def Let_def place_def flip: N_def)
  obtain rb1 where rb1: "rb_take k (Suc (length others)) rb = Inr (held N f (oldest # others), rb1)"
    "items_on f f f (oldest # others) [] rb1" "rb_storage rb1 = rb_storage rb"
    using take_on [OF on, of k] fr by (auto simp: N_def)
  have len: "length (rb_storage rb1) = N" using rb1(3) by (simp add: N_def)
  have c1: "chain N (rb_storage rb1) f (oldest # others) f" using rb1(2) len by (simp add: items_on_def Let_def)
  then have e1: "entry_ok N (rb_storage rb1) f oldest" by simp
  define xs where "xs = oldest # take (i - 1) others"
  have split: "oldest # others = xs @ others ! (i - 1) # drop i others" "length xs = i"
    using assms(5,6) id_take_nth_drop [of "i - 1" others] by (simp_all add: xs_def)
  obtain p where p: "chain N (rb_storage rb1) f xs p" using c1 unfolding split(1) chain_append by blast
  have it: "held N f (oldest # others) ! i = item_at N p (others ! (i - 1))"
    using held_nth [OF p, of "others ! (i - 1)" "drop i others"] unfolding split by simp
  have "rb_has rbBUFFER_FULL_FLAG rb1" using items_full [OF rb1(2)] full len by simp
  then obtain rb2 where rb2: "rb_give (held N f (oldest # others) ! i) rb1 = Inr rb2" "items_at f f f [] [] rb2" "length (rb_storage rb2) = N"
    "agree N (rb_storage rb1) (rb_storage rb2) f (occupied N f xs)"
    using return_all_lent [of f xs "others ! (i - 1)" "drop i others" rb1 p] rb1(2) p len it unfolding split(1) by auto
  have "occupied N f xs = used N f oldest + occupied N (pos_after N f oldest) (take (i - 1) others)" by (simp add: xs_def)
  then have "agree N (rb_storage rb1) (rb_storage rb2) f (used N f oldest)" using rb2(4) by (simp add: agree_append)
  from entry_agree [OF this len rb2(3) d(2,3) fr(3) e1] have e2: "entry_ok N (rb_storage rb2) f oldest" .
  have same: "need bs = need oldest" "small N bs" "item_at N f bs = item_at N f oldest" "used N f bs = used N f oldest" "length bs < 2 ^ 32"
    using assms(7) fr(3) need_small(1) [OF d(2) fr(3)] need_bounds(1) [of oldest] d(2)
    by (simp_all add: need_def small_def item_at_def item_pos_def used_def storage_ok_def)
  have "accepts N f [] f bs" using same(2,4) full by (simp add: accepts_def)
  then obtain rb3 where rb3: "rb_send0 k bs rb2 = Inr (True, rb3)" "items_at f f (pos_after N f bs) [] [bs] rb3" "length (rb_storage rb3) = N"
    using send_item [OF rb2(2) same(5), of "[]" 0 k] rb2(3) by (auto simp: rb_send0_def)
  have e3: "entry_ok N (rb_storage rb3) f bs" using rb3(2,3) by (simp add: items_at_def Let_def)
  show ?thesis
    using rb1(1) rb2(1) rb3(1) it items_atI_lists [OF rb2(2)] peek_entry [OF e1 d(2) fr(3) len d(3)] peek_entry [OF e2 d(2) fr(3) rb2(3) d(3)]
      peek_entry [OF e3 d(2) same(2) rb3(3) d(3)] same(3) by auto
qed

text \<open>A buffer of 32 bytes with two items of eight, after the sends that fill it.\<close>

definition demo_full :: Ringbuffer_t where
  "demo_full =
     (case bind_res (rb_send0 demo_kernel [11, 12, 13, 14, 15, 16, 17, 18] (fresh_nosplit (\<lambda>_. 0) 32)) (\<lambda>(_, rb).
           rb_send0 demo_kernel [21, 22, 23, 24, 25, 26, 27, 28] rb) of
        Inl _ \<Rightarrow> fresh_nosplit (\<lambda>_. 0) 32 | Inr (_, rb) \<Rightarrow> rb)"

theorem lent_item_overwritten_witness:
  "\<exists>items rb1 rb2 rb3.
    rb_take demo_kernel 2 demo_full = Inr (items, rb1) \<and> rb_peek (items ! 0) rb1 = Inr [11, 12, 13, 14, 15, 16, 17, 18] \<and>
    rb_give (items ! 1) rb1 = Inr rb2 \<and> queued_items rb2 = [] \<and>
    rb_send0 demo_kernel [1, 2, 3, 4, 5, 6, 7, 8] rb2 = Inr (True, rb3) \<and> rb_peek (items ! 0) rb3 = Inr [1, 2, 3, 4, 5, 6, 7, 8]"
proof -
  let ?x = "[11, 12, 13, 14, 15, 16, 17, 18] :: u8 list" and ?y = "[21, 22, 23, 24, 25, 26, 27, 28] :: u8 list"
  let ?rb0 = "fresh_nosplit (\<lambda>_. 0) 32"
  have "storage_ok (unat (32 :: u32))" by (simp add: storage_ok_def)
  note at0 = fresh_nosplit_at(1) [OF this, of "\<lambda>_. 0"]
  have N: "length (rb_storage ?rb0) = 32" by (simp add: fresh_nosplit_def prvInitializeNewRingbuffer_def)
  obtain rb1 where rb1: "rb_send0 demo_kernel ?x ?rb0 = Inr (True, rb1)" "items_at 0 0 16 [] [?x] rb1" "length (rb_storage rb1) = 32"
    using send_item [OF at0, of ?x "[]" 0 demo_kernel] N
    by (auto simp: rb_send0_def accepts_def small_def need_def al4_def used_def pos_after_def item_pos_def Let_def)
  obtain rb2 where rb2: "rb_send0 demo_kernel ?y rb1 = Inr (True, rb2)" "items_at 0 0 0 [] [?x, ?y] rb2" "length (rb_storage rb2) = 32"
    using send_item [OF rb1(2), of ?y "[]" 0 demo_kernel] rb1(3)
    by (auto simp: rb_send0_def accepts_def small_def need_def al4_def used_def pos_after_def item_pos_def Let_def)
  have "demo_full = rb2" using rb1(1) rb2(1) by (simp add: demo_full_def)
  moreover have "rb_has rbBUFFER_FULL_FLAG rb2"
    using items_full [OF items_at_on [OF rb2(2)]] rb2(3) by (simp add: need_def al4_def used_def pos_after_def item_pos_def Let_def)
  ultimately show ?thesis
    using lent_item_overwritten [of demo_full ?x "[?y]" 1 "[1, 2, 3, 4, 5, 6, 7, 8]" demo_kernel] items_atI_lists [OF rb2(2)]
    by (auto simp: numeral_2_eq_2)
qed

text \<open>
  A producer may acquire several items and complete them in any order. When the oldest of them had to
  wrap around, completing a younger one marks the filler in front of it as written, and the filler is
  all that the check for an available item looks at: the reader is handed the item that has not been
  completed, here with the bytes 0 that were in the storage.
\<close>

lemma unfinished_item_received:
  "bind_res (xRingbufferCreate True (Some (\<lambda>_. 0)) 64 RINGBUF_TYPE_NOSPLIT) (\<lambda>created. case created of None \<Rightarrow> Inl Assert_failed | Some rb0 \<Rightarrow>
   bind_res (rb_send0 demo_kernel (replicate 16 0) rb0) (\<lambda>(_, rb1).
   bind_res (rb_send0 demo_kernel (replicate 16 0) rb1) (\<lambda>(_, rb2).
   bind_res (rb_recv0 demo_kernel 0 rb2) (\<lambda>(item1, rb3).
   bind_res (rb_give (the item1) rb3) (\<lambda>rb4.
   bind_res (rb_recv0 demo_kernel 0 rb4) (\<lambda>(item2, rb5).
   bind_res (rb_give (the item2) rb5) (\<lambda>rb6.
   bind_res (xRingbufferSendAcquire [] (Some rb6) 12 0 demo_kernel) (\<lambda>(_, older, rb7, _).
   bind_res (xRingbufferSendAcquire [] (Some rb7) 8 0 demo_kernel) (\<lambda>(_, younger, rb8, _).
   bind_res (rb_memcpy (the younger) [1, 2, 3, 4, 5, 6, 7, 8] rb8) (\<lambda>rb9.
   bind_res (xRingbufferSendComplete (Some rb9) younger) (\<lambda>(_, rb10).
   bind_res (rb_recv0 demo_kernel 0 rb10) (\<lambda>(item3, rb11).
     Inr (older, younger, item3))))))))))))) =
   Inr (Some 8, Some 28, Some (8, 12))"
  by code_simp

end
