(* ===== verification/Uart.thy ===== *)
theory Uart
  imports RingBuffer
begin

text \<open>
  The UART driver of the SDK (\<^verbatim>\<open>esp_driver_uart/src/uart.c\<close>) over the registers of the ESP32-S3
  (\<^verbatim>\<open>hal/esp32s3/include/hal/uart_ll.h\<close>, \<^verbatim>\<open>hal/uart_hal_iram.c\<close>): the interrupt handler, the queue of pattern
  positions, reading, flushing, writing, and the installation of the driver.

  The interrupt status word and the contents of the receive FIFO are the hardware's: the handler
  runs over the sequence of status words it reads. The callback for \<^verbatim>\<open>select\<close>, which only the virtual
  file system sets, is null throughout.
\<close>

section \<open>Registers\<close>

definition UART_NUM_MAX :: nat where "UART_NUM_MAX = 3"
definition SOC_UART_FIFO_LEN :: nat where "SOC_UART_FIFO_LEN = 128"

definition UART_INTR_RXFIFO_FULL :: u32 where "UART_INTR_RXFIFO_FULL = 0x1"
definition UART_INTR_TXFIFO_EMPTY :: u32 where "UART_INTR_TXFIFO_EMPTY = 0x2"
definition UART_INTR_PARITY_ERR :: u32 where "UART_INTR_PARITY_ERR = 0x4"
definition UART_INTR_FRAM_ERR :: u32 where "UART_INTR_FRAM_ERR = 0x8"
definition UART_INTR_RXFIFO_OVF :: u32 where "UART_INTR_RXFIFO_OVF = 0x10"
definition UART_INTR_BRK_DET :: u32 where "UART_INTR_BRK_DET = 0x80"
definition UART_INTR_RXFIFO_TOUT :: u32 where "UART_INTR_RXFIFO_TOUT = 0x100"
definition UART_INTR_TX_BRK_DONE :: u32 where "UART_INTR_TX_BRK_DONE = 0x1000"
definition UART_INTR_TX_BRK_IDLE :: u32 where "UART_INTR_TX_BRK_IDLE = 0x2000"
definition UART_INTR_TX_DONE :: u32 where "UART_INTR_TX_DONE = 0x4000"
definition UART_INTR_RS485_PARITY_ERR :: u32 where "UART_INTR_RS485_PARITY_ERR = 0x8000"
definition UART_INTR_RS485_FRM_ERR :: u32 where "UART_INTR_RS485_FRM_ERR = 0x10000"
definition UART_INTR_RS485_CLASH :: u32 where "UART_INTR_RS485_CLASH = 0x20000"
definition UART_INTR_CMD_CHAR_DET :: u32 where "UART_INTR_CMD_CHAR_DET = 0x40000"
definition UART_INTR_WAKEUP :: u32 where "UART_INTR_WAKEUP = 0x80000"
definition UART_LL_INTR_MASK :: u32 where "UART_LL_INTR_MASK = 0x7ffff"

definition UART_INTR_CONFIG_FLAG :: u32 where
  "UART_INTR_CONFIG_FLAG = UART_INTR_RXFIFO_FULL OR UART_INTR_RXFIFO_TOUT OR UART_INTR_RXFIFO_OVF OR
     UART_INTR_BRK_DET OR UART_INTR_PARITY_ERR OR UART_INTR_WAKEUP"

text \<open>The fields have the widths of the register map, so writing a wider value truncates it.\<close>

record uart_dev =
  uart_int_ena :: u32
  rx_fifo :: "u8 list"
  tx_fifo :: "u8 list"
  st_utx_idle :: bool
  txd_brk :: bool
  tx_brk_num :: u8
  rxfifo_full_thrhd :: "10 word"
  txfifo_empty_thrhd :: "10 word"
  rx_tout_thrhd :: "10 word"
  rx_tout_en :: bool
  at_cmd_char :: u8
  at_cmd_num :: u8
  post_idle_num :: u16
  pre_idle_num :: u16
  rx_gap_tout :: u16
  sw_rts :: bool
  sw_dtr :: bool
  sclk_sel :: "2 word"
  clkdiv :: "12 word"
  clkdiv_frag :: "4 word"
  sclk_div_num :: u8
  parity_en :: bool
  parity_odd :: bool
  bit_num :: "2 word"
  stop_bit_num :: "2 word"
  tx_idle_num :: "10 word"
  rx_flow_en :: bool
  tx_flow_en :: bool
  rx_flow_thrhd :: "10 word"
  xonoff_del :: bool
  sw_flow_con_en :: bool
  xon_threshold :: "10 word"
  xoff_threshold :: "10 word"
  xon_character :: u8
  xoff_character :: u8
  active_threshold :: "10 word"
  rs485_en :: bool
  rs485tx_rx_en :: bool
  rs485rxby_tx_en :: bool
  irda_en :: bool
  loopback :: bool
  line_inv :: u8

definition uart_ll_is_tx_idle :: "uart_dev \<Rightarrow> bool" where
  "uart_ll_is_tx_idle hw \<longleftrightarrow> tx_fifo hw = [] \<and> st_utx_idle hw"

definition uart_hal_ena_intr_mask :: "u32 \<Rightarrow> uart_dev \<Rightarrow> uart_dev" where
  "uart_hal_ena_intr_mask m hw = hw\<lparr>uart_int_ena := uart_int_ena hw OR m\<rparr>"

definition uart_hal_disable_intr_mask :: "u32 \<Rightarrow> uart_dev \<Rightarrow> uart_dev" where
  "uart_hal_disable_intr_mask m hw = hw\<lparr>uart_int_ena := uart_int_ena hw AND NOT m\<rparr>"

definition uart_hal_get_txfifo_len :: "uart_dev \<Rightarrow> nat" where
  "uart_hal_get_txfifo_len hw = SOC_UART_FIFO_LEN - length (tx_fifo hw)"

text \<open>As much of the data as the transmit FIFO has room for is written; the number is returned.\<close>

definition uart_hal_write_txfifo :: "u8 list \<Rightarrow> uart_dev \<Rightarrow> nat \<times> uart_dev" where
  "uart_hal_write_txfifo buf hw =
     (let fill_len = min (uart_hal_get_txfifo_len hw) (length buf)
      in (fill_len, hw\<lparr>tx_fifo := tx_fifo hw @ take fill_len buf\<rparr>))"

text \<open>A length that is not positive asks for all; the bytes read leave the FIFO.\<close>

definition uart_hal_read_rxfifo :: "int \<Rightarrow> uart_dev \<Rightarrow> u8 list \<times> uart_dev" where
  "uart_hal_read_rxfifo rd_len hw =
     (let n = (if rd_len \<le> 0 then length (rx_fifo hw) else nat rd_len)
      in (take n (rx_fifo hw), hw\<lparr>rx_fifo := drop n (rx_fifo hw)\<rparr>))"

definition uart_hal_rxfifo_rst :: "uart_dev \<Rightarrow> uart_dev" where
  "uart_hal_rxfifo_rst hw = hw\<lparr>rx_fifo := []\<rparr>"

definition uart_hal_txfifo_rst :: "uart_dev \<Rightarrow> uart_dev" where
  "uart_hal_txfifo_rst hw = hw\<lparr>tx_fifo := []\<rparr>"

definition uart_hal_tx_break :: "u32 \<Rightarrow> uart_dev \<Rightarrow> uart_dev" where
  "uart_hal_tx_break break_num hw =
     (if 0 < break_num then hw\<lparr>tx_brk_num := ucast break_num, txd_brk := True\<rparr> else hw\<lparr>txd_brk := False\<rparr>)"

section \<open>Driver state\<close>

datatype uart_event_type_t =
    UART_DATA
  | UART_BREAK
  | UART_BUFFER_FULL
  | UART_FIFO_OVF
  | UART_FRAME_ERR
  | UART_PARITY_ERR
  | UART_DATA_BREAK
  | UART_PATTERN_DET
  | UART_WAKEUP
  | UART_EVENT_MAX

fun event_code :: "uart_event_type_t \<Rightarrow> u32" where
  "event_code UART_DATA = 0"
| "event_code UART_BREAK = 1"
| "event_code UART_BUFFER_FULL = 2"
| "event_code UART_FIFO_OVF = 3"
| "event_code UART_FRAME_ERR = 4"
| "event_code UART_PARITY_ERR = 5"
| "event_code UART_DATA_BREAK = 6"
| "event_code UART_PATTERN_DET = 7"
| "event_code UART_WAKEUP = 8"
| "event_code UART_EVENT_MAX = 9"

record uart_event_t =
  event_type :: uart_event_type_t
  event_size :: u32
  timeout_flag :: bool

text \<open>An event in memory: type and size, then a flag and the padding of the structure.\<close>

definition event_bytes :: "uart_event_t \<Rightarrow> u8 list" where
  "event_bytes ev =
     word_bytes (event_code (event_type ev)) @ word_bytes (event_size ev) @ [if timeout_flag ev then 1 else 0, 0, 0, 0]"

datatype uart_mode_t =
    UART_MODE_UART
  | UART_MODE_RS485_HALF_DUPLEX
  | UART_MODE_IRDA
  | UART_MODE_RS485_COLLISION_DETECT
  | UART_MODE_RS485_APP_CTRL

record uart_pat_rb_t =
  pat_wr :: int
  pat_rd :: int
  pat_len :: int
  pat_data :: "int list option"

record uart_obj_t =
  uart_mode :: uart_mode_t
  coll_det_flg :: bool
  rx_always_timeout_flg :: bool
  rx_buffered_len :: int
  rx_buffer_full_flg :: bool
  rx_data_buf :: "u8 list"
  rx_stash_len :: u8
  rx_int_usr_mask :: u32
  rx_pattern_pos :: uart_pat_rb_t
  tx_buf_size :: int
  tx_waiting_fifo :: bool
  tx_ptr :: "int option"
  tx_head :: "int option"
  tx_len_tot :: u32
  tx_len_cur :: u32
  tx_brk_flg :: bool
  tx_brk_len :: u8
  tx_waiting_brk :: bool
  event_queue :: QueueHandle_t
  rx_ring_buf :: "Ringbuffer_t option"
  tx_ring_buf :: "Ringbuffer_t option"
  rx_mux :: QueueHandle_t
  tx_mux :: QueueHandle_t
  tx_fifo_sem :: QueueHandle_t
  tx_done_sem :: QueueHandle_t
  tx_brk_sem :: QueueHandle_t

text \<open>
  The driver objects, the registers of the ports, the handler's static flag, and the clock and reset
  registers of the system.
\<close>

record uart =
  p_uart_obj :: "nat \<Rightarrow> uart_obj_t option"
  uart_hw :: "nat \<Rightarrow> uart_dev"
  hw_enabled :: "nat \<Rightarrow> bool"
  pat_flg :: bool
  perip_clk_en0 :: u32
  perip_clk_en1 :: u32
  perip_rst_en0 :: u32
  perip_rst_en1 :: u32

type_synonym uart_env = "(kernel \<times> uart) list"

definition put_obj :: "nat \<Rightarrow> uart_obj_t \<Rightarrow> uart \<Rightarrow> uart" where
  "put_obj n ob U = U\<lparr>p_uart_obj := (p_uart_obj U)(n := Some ob)\<rparr>"

definition on_hw :: "nat \<Rightarrow> (uart_dev \<Rightarrow> uart_dev) \<Rightarrow> uart \<Rightarrow> uart" where
  "on_hw n f U = U\<lparr>uart_hw := (uart_hw U)(n := f (uart_hw U n))\<rparr>"

section \<open>Interrupt masks\<close>

definition uart_enable_intr_mask :: "nat \<Rightarrow> u32 \<Rightarrow> uart \<Rightarrow> (esp_err \<times> uart) res" where
  "uart_enable_intr_mask n enable_mask U =
     (if \<not> n < UART_NUM_MAX then Inr (ESP_FAIL, U)
      else bind_res (deref (p_uart_obj U n)) (\<lambda>ob.
           Inr (ESP_OK, on_hw n (uart_hal_ena_intr_mask enable_mask)
                          (put_obj n (ob\<lparr>rx_int_usr_mask := rx_int_usr_mask ob OR enable_mask\<rparr>) U))))"

definition uart_reenable_intr_mask :: "nat \<Rightarrow> u32 \<Rightarrow> uart \<Rightarrow> (esp_err \<times> uart) res" where
  "uart_reenable_intr_mask n enable_mask U =
     (if \<not> n < UART_NUM_MAX then Inr (ESP_FAIL, U)
      else bind_res (deref (p_uart_obj U n)) (\<lambda>ob.
           Inr (ESP_OK, on_hw n (uart_hal_ena_intr_mask (rx_int_usr_mask ob AND enable_mask)) U)))"

definition uart_disable_intr_mask :: "nat \<Rightarrow> u32 \<Rightarrow> uart \<Rightarrow> (esp_err \<times> uart) res" where
  "uart_disable_intr_mask n disable_mask U =
     (if \<not> n < UART_NUM_MAX then Inr (ESP_FAIL, U)
      else bind_res (deref (p_uart_obj U n)) (\<lambda>ob.
           Inr (ESP_OK, on_hw n (uart_hal_disable_intr_mask disable_mask)
                          (put_obj n (ob\<lparr>rx_int_usr_mask := rx_int_usr_mask ob AND NOT disable_mask\<rparr>) U))))"

definition uart_enable_tx_intr :: "nat \<Rightarrow> int \<Rightarrow> uart \<Rightarrow> esp_err \<times> uart" where
  "uart_enable_tx_intr n thresh U =
     (if \<not> n < UART_NUM_MAX then (ESP_FAIL, U)
      else if \<not> thresh < int SOC_UART_FIFO_LEN then (ESP_FAIL, U)
      else (ESP_OK, on_hw n (\<lambda>hw. uart_hal_ena_intr_mask UART_INTR_TXFIFO_EMPTY
                                    (hw\<lparr>txfifo_empty_thrhd := word_of_int thresh\<rparr>)) U))"

section \<open>The queue of pattern positions\<close>

definition array_put :: "'a list \<Rightarrow> int \<Rightarrow> 'a \<Rightarrow> 'a list res" where
  "array_put xs i v = (if 0 \<le> i \<and> nat i < length xs then Inr (xs[nat i := v]) else Inl Out_of_bounds)"

definition array_at :: "'a list \<Rightarrow> int \<Rightarrow> 'a res" where
  "array_at xs i = (if 0 \<le> i \<and> nat i < length xs then Inr (xs ! nat i) else Inl Out_of_bounds)"

definition pat_step :: "uart_pat_rb_t \<Rightarrow> int \<Rightarrow> int" where
  "pat_step p i = (if i + 1 \<ge> pat_len p then 0 else i + 1)"

definition uart_pattern_enqueue :: "int \<Rightarrow> uart_pat_rb_t \<Rightarrow> (esp_err \<times> uart_pat_rb_t) res" where
  "uart_pattern_enqueue pos p =
     (if pat_step p (pat_wr p) = pat_rd p then Inr (ESP_FAIL, p)
      else bind_res (deref (pat_data p)) (\<lambda>d. bind_res (array_put d (pat_wr p) pos) (\<lambda>d'.
             Inr (ESP_OK, p\<lparr>pat_data := Some d', pat_wr := pat_step p (pat_wr p)\<rparr>))))"

definition uart_pattern_dequeue :: "uart_pat_rb_t \<Rightarrow> esp_err \<times> uart_pat_rb_t" where
  "uart_pattern_dequeue p =
     (if pat_data p = None then (ESP_ERR_INVALID_STATE, p)
      else let (r, rd) = (if pat_rd p = pat_wr p then (ESP_FAIL, pat_rd p) else (ESP_OK, pat_rd p + 1))
           in (r, p\<lparr>pat_rd := (if rd \<ge> pat_len p then 0 else rd)\<rparr>))"

text \<open>
  After bytes have been read, every recorded position moves to the front by their number, and
  positions that fall before the start are dropped. The loop visits the entries from \<^verbatim>\<open>rd\<close> to \<^verbatim>\<open>wr\<close>
  around the ring; it never ends if it does not meet \<^verbatim>\<open>wr\<close> within as many steps as the ring has
  entries.
\<close>

fun pattern_update_loop :: "nat \<Rightarrow> int \<Rightarrow> int \<Rightarrow> uart_pat_rb_t \<Rightarrow> uart_pat_rb_t res" where
  "pattern_update_loop 0 diff_len rd p = (if rd \<noteq> pat_wr p then Inl Diverges else Inr p)"
| "pattern_update_loop (Suc n) diff_len rd p =
     (if rd \<noteq> pat_wr p
      then bind_res (deref (pat_data p)) (\<lambda>d.
           bind_res (array_at d rd) (\<lambda>v.
           bind_res (array_put d rd (v - diff_len)) (\<lambda>d'.
           let rd' = pat_step p rd; p' = p\<lparr>pat_data := Some d'\<rparr>
           in pattern_update_loop n diff_len rd' (if v - diff_len < 0 then p'\<lparr>pat_rd := rd'\<rparr> else p'))))
      else Inr p)"

definition uart_pattern_queue_update :: "int \<Rightarrow> uart_pat_rb_t \<Rightarrow> uart_pat_rb_t res" where
  "uart_pattern_queue_update diff_len p = pattern_update_loop (nat (pat_len p)) diff_len (pat_rd p) p"

definition uart_pattern_pop_pos :: "nat \<Rightarrow> uart \<Rightarrow> (int \<times> uart) res" where
  "uart_pattern_pop_pos n U =
     (case p_uart_obj U n of
        None \<Rightarrow> Inr (- 1, U)
      | Some ob \<Rightarrow>
          let p = rx_pattern_pos ob in
          if pat_rd p \<noteq> pat_wr p
          then bind_res (deref (pat_data p)) (\<lambda>d. bind_res (array_at d (pat_rd p)) (\<lambda>v.
                 Inr (v, put_obj n (ob\<lparr>rx_pattern_pos := snd (uart_pattern_dequeue p)\<rparr>) U)))
          else Inr (- 1, U))"

definition uart_pattern_get_pos :: "nat \<Rightarrow> uart \<Rightarrow> int res" where
  "uart_pattern_get_pos n U =
     (case p_uart_obj U n of
        None \<Rightarrow> Inr (- 1)
      | Some ob \<Rightarrow>
          let p = rx_pattern_pos ob in
          if pat_rd p \<noteq> pat_wr p then bind_res (deref (pat_data p)) (\<lambda>d. array_at d (pat_rd p)) else Inr (- 1))"

text \<open>The new array is not initialised.\<close>

definition uart_pattern_queue_reset :: "(nat \<Rightarrow> int) option \<Rightarrow> nat \<Rightarrow> int \<Rightarrow> uart \<Rightarrow> esp_err \<times> uart" where
  "uart_pattern_queue_reset a n queue_length U =
     (if \<not> n < UART_NUM_MAX then (ESP_FAIL, U)
      else case p_uart_obj U n of
             None \<Rightarrow> (ESP_ERR_INVALID_STATE, U)
           | Some ob \<Rightarrow>
               (case a of
                  None \<Rightarrow> (ESP_ERR_NO_MEM, U)
                | Some junk \<Rightarrow>
                    (ESP_OK, put_obj n (ob\<lparr>rx_pattern_pos :=
                       \<lparr>pat_wr = 0, pat_rd = 0, pat_len = queue_length,
                        pat_data = Some (map junk [0..<nat queue_length])\<rparr>\<rparr>) U)))"

definition uart_pattern_link_free :: "nat \<Rightarrow> uart \<Rightarrow> (esp_err \<times> uart) res" where
  "uart_pattern_link_free n U =
     bind_res (deref (p_uart_obj U n)) (\<lambda>ob.
     Inr (ESP_OK, if pat_data (rx_pattern_pos ob) \<noteq> None
                  then put_obj n (ob\<lparr>rx_pattern_pos := (rx_pattern_pos ob)\<lparr>pat_data := None, pat_wr := 0, pat_rd := 0\<rparr>\<rparr>) U
                  else U))"

text \<open>
  The pattern is looked for from the end: the position of the first of \<^term>\<open>pat_num\<close> equal
  characters, or -1. The first argument is one more than the position to look at.
\<close>

fun find_pattern_loop :: "nat \<Rightarrow> nat \<Rightarrow> u8 list \<Rightarrow> u8 \<Rightarrow> u8 \<Rightarrow> int res" where
  "find_pattern_loop 0 cnt buf pat_chr pat_num = Inr (- 1)"
| "find_pattern_loop (Suc len) cnt buf pat_chr pat_num =
     bind_res (array_get buf len) (\<lambda>b.
     let cnt' = (if b = pat_chr then Suc cnt else 0)
     in if unat pat_num \<le> cnt' then Inr (int len) else find_pattern_loop len cnt' buf pat_chr pat_num)"

definition uart_find_pattern_from_last :: "u8 list \<Rightarrow> int \<Rightarrow> u8 \<Rightarrow> u8 \<Rightarrow> int res" where
  "uart_find_pattern_from_last buf len pat_chr pat_num = find_pattern_loop (nat (len + 1)) 0 buf pat_chr pat_num"

section \<open>The interrupt handler\<close>

definition uart_enable_tx_write_fifo :: "nat \<Rightarrow> u8 list \<Rightarrow> uart \<Rightarrow> (nat \<times> uart) res" where
  "uart_enable_tx_write_fifo n pbuf U =
     bind_res (deref (p_uart_obj U n)) (\<lambda>ob.
     let hw = uart_hw U n;
         hw1 = (if uart_mode ob = UART_MODE_RS485_HALF_DUPLEX
                then uart_hal_ena_intr_mask UART_INTR_TX_DONE (hw\<lparr>sw_rts := False\<rparr>) else hw);
         (sent_len, hw2) = uart_hal_write_txfifo pbuf hw1
     in Inr (sent_len, on_hw n (\<lambda>_. hw2) U))"

definition send_event :: "kernel \<Rightarrow> uart_event_t \<Rightarrow> nat \<Rightarrow> uart \<Rightarrow> (uart \<times> kernel) res" where
  "send_event k ev n U =
     bind_res (deref (p_uart_obj U n)) (\<lambda>ob.
     bind_res (xQueueGenericSendFromISR k (event_queue ob) (Some (event_bytes ev)) queueSEND_TO_BACK) (\<lambda>(_, q, k').
     Inr (put_obj n (ob\<lparr>event_queue := Some q\<rparr>) U, k')))"

text \<open>
  An item that describes a transmission: type, length of the break and number of bytes to send, as
  words in this order.
\<close>

definition sizeof_tx_data :: nat where "sizeof_tx_data = 12"

definition tx_data_bytes :: "uart_event_type_t \<Rightarrow> u32 \<Rightarrow> u32 \<Rightarrow> u8 list" where
  "tx_data_bytes ty brk_len sz = word_bytes (event_code ty) @ word_bytes brk_len @ word_bytes sz"

definition tx_field :: "nat \<Rightarrow> int \<Rightarrow> Ringbuffer_t \<Rightarrow> u32 res" where
  "tx_field i p rb = bind_res (mem_read (rb_storage rb) (p + int (4 * i)) 4) (\<lambda>bs. Inr (bytes_word bs))"

definition give_back_head :: "uart_obj_t \<Rightarrow> uart_obj_t res" where
  "give_back_head ob =
     bind_res (vRingbufferReturnItemFromISR (tx_ring_buf ob) (tx_head ob)) (\<lambda>rb. Inr (ob\<lparr>tx_ring_buf := Some rb\<rparr>))"

text \<open>
  One turn of the loop that fills the transmit FIFO: fetch the next item if there is none in work,
  then push bytes. The result tells whether the loop goes on, and carries \<^verbatim>\<open>en_tx_flg\<close> and the room
  that is left.
\<close>

definition tx_fetch :: "uart_obj_t \<Rightarrow> bool \<Rightarrow> (bool \<times> uart_obj_t \<times> bool) res" where
  "tx_fetch ob en =
     (if tx_len_tot ob = 0 \<or> tx_ptr ob = None \<or> tx_len_cur ob = 0
      then bind_res (xRingbufferReceiveFromISR (tx_ring_buf ob)) (\<lambda>(it, rb).
           let ob1 = ob\<lparr>tx_ring_buf := Some rb, tx_head := map_option fst it\<rparr> in
           case it of
             None \<Rightarrow> Inr (False, ob1, en)
           | Some (p, sz) \<Rightarrow>
               if tx_len_tot ob1 = 0
               then bind_res (tx_field 2 p rb) (\<lambda>tot. bind_res (tx_field 0 p rb) (\<lambda>ty. bind_res (tx_field 1 p rb) (\<lambda>brk.
                    let ob2 = ob1\<lparr>tx_ptr := None, tx_len_tot := tot\<rparr>;
                        ob3 = (if ty = event_code UART_DATA_BREAK then ob2\<lparr>tx_brk_flg := True, tx_brk_len := ucast brk\<rparr> else ob2)
                    in bind_res (give_back_head ob3) (\<lambda>ob4. Inr (True, ob4, en)))))
               else if tx_ptr ob1 = None then Inr (True, ob1\<lparr>tx_ptr := Some p, tx_len_cur := sz\<rparr>, True)
               else Inr (True, ob1, en))
      else Inr (True, ob, en))"

definition tx_push :: "nat \<Rightarrow> nat \<Rightarrow> bool \<Rightarrow> uart \<Rightarrow> (bool \<times> nat \<times> uart) res" where
  "tx_push n fifo_rem en U =
     bind_res (deref (p_uart_obj U n)) (\<lambda>ob.
     case tx_ptr ob of
       None \<Rightarrow> Inr (en, fifo_rem, U)
     | Some p \<Rightarrow>
         if \<not> (0 < tx_len_tot ob \<and> 0 < tx_len_cur ob) then Inr (en, fifo_rem, U)
         else bind_res (deref (tx_ring_buf ob)) (\<lambda>rb.
              bind_res (mem_read (rb_storage rb) p (min (unat (tx_len_cur ob)) fifo_rem)) (\<lambda>buf.
              bind_res (uart_enable_tx_write_fifo n buf U) (\<lambda>(send_len, U1).
              let ob1 = ob\<lparr>tx_ptr := Some (p + int send_len), tx_len_tot := tx_len_tot ob - of_nat send_len,
                           tx_len_cur := tx_len_cur ob - of_nat send_len\<rparr>;
                  rem' = fifo_rem - send_len
              in if tx_len_cur ob1 = 0
                 then bind_res (give_back_head ob1) (\<lambda>ob2.
                      let ob3 = ob2\<lparr>tx_head := None, tx_ptr := None\<rparr> in
                      if tx_len_tot ob3 = 0 \<and> tx_brk_flg ob3
                      then Inr (False, rem',
                                on_hw n (\<lambda>hw. uart_hal_ena_intr_mask UART_INTR_TX_BRK_DONE
                                               (uart_hal_tx_break (ucast (tx_brk_len ob3)) hw))
                                  (put_obj n (ob3\<lparr>tx_waiting_brk := True\<rparr>) U1))
                      else Inr (True, rem', put_obj n ob3 U1))
                 else Inr (True, rem', put_obj n ob1 U1)))))"

fun tx_fill_loop :: "nat \<Rightarrow> nat \<Rightarrow> nat \<Rightarrow> bool \<Rightarrow> uart \<Rightarrow> (bool \<times> uart) res" where
  "tx_fill_loop 0 n fifo_rem en U = (if fifo_rem = 0 then Inr (en, U) else Inl Diverges)"
| "tx_fill_loop (Suc f) n fifo_rem en U =
     (if fifo_rem = 0 then Inr (en, U)
      else bind_res (deref (p_uart_obj U n)) (\<lambda>ob.
           bind_res (tx_fetch ob en) (\<lambda>(go, ob1, en1).
           if \<not> go then Inr (en1, put_obj n ob1 U)
           else bind_res (tx_push n fifo_rem en1 (put_obj n ob1 U)) (\<lambda>(en2, rem', U2).
                tx_fill_loop f n rem' en2 U2))))"

text \<open>
  A turn fetches an item, or pushes at least one byte, or both: the loop ends within as many turns
  as there are items waiting and room in the FIFO.
\<close>

definition isr_tx_empty :: "nat \<Rightarrow> uart \<Rightarrow> uart res" where
  "isr_tx_empty n U =
     (let U1 = on_hw n (uart_hal_disable_intr_mask UART_INTR_TXFIFO_EMPTY) U in
      bind_res (deref (p_uart_obj U1 n)) (\<lambda>ob.
      if tx_waiting_brk ob then Inr U1
      else if tx_waiting_fifo ob \<and> tx_buf_size ob = 0
      then bind_res (xQueueGiveFromISR (tx_fifo_sem ob)) (\<lambda>(_, q).
             Inr (put_obj n (ob\<lparr>tx_waiting_fifo := False, tx_fifo_sem := Some q\<rparr>) U1))
      else if tx_buf_size ob = 0 then Inr U1
      else let room = uart_hal_get_txfifo_len (uart_hw U1 n);
               items = (case tx_ring_buf ob of None \<Rightarrow> 0 | Some rb \<Rightarrow> unat (xItemsWaiting rb))
           in bind_res (tx_fill_loop (Suc (items + room)) n room False U1) (\<lambda>(en_tx_flg, U2).
              Inr (if en_tx_flg then on_hw n (uart_hal_ena_intr_mask UART_INTR_TXFIFO_EMPTY) U2 else U2))))"

definition event_of :: "uart_event_type_t \<Rightarrow> uart_event_t" where
  "event_of ty = \<lparr>event_type = ty, event_size = 0, timeout_flag = False\<rparr>"

text \<open>The position at which a detected pattern is recorded, if any.\<close>

definition record_pattern :: "int \<Rightarrow> uart_obj_t \<Rightarrow> uart_obj_t res" where
  "record_pattern pos ob = bind_res (uart_pattern_enqueue pos (rx_pattern_pos ob)) (\<lambda>(_, p). Inr (ob\<lparr>rx_pattern_pos := p\<rparr>))"

text \<open>
  The number of bytes last read from the FIFO is a variable of the handler that lives across its
  turns: it is passed in and returned.
\<close>

definition isr_rx :: "kernel \<Rightarrow> u32 \<Rightarrow> u32 \<Rightarrow> nat \<Rightarrow> uart \<Rightarrow> (uart_event_t \<times> u32 \<times> uart \<times> kernel) res" where
  "isr_rx k rx_fifo_len status0 n U0 =
     (let status = (if pat_flg U0 then status0 OR UART_INTR_CMD_CHAR_DET else status0);
          U = U0\<lparr>pat_flg := False\<rparr>;
          cmd = has_flag status UART_INTR_CMD_CHAR_DET; tout = has_flag status UART_INTR_RXFIFO_TOUT in
      bind_res (deref (p_uart_obj U n)) (\<lambda>ob.
      if \<not> rx_buffer_full_flg ob
      then let hw = uart_hw U n;
               want = (if rx_always_timeout_flg ob \<and> \<not> tout then int (length (rx_fifo hw)) - 1 else int (length (rx_fifo hw)));
               (bs, hw1) = uart_hal_read_rxfifo want hw;
               len = int (length bs); pat_num = at_cmd_num hw in
           bind_res (mem_write (rx_data_buf ob) 0 bs) (\<lambda>buf.
           bind_res (if cmd then uart_find_pattern_from_last buf (len - 1) (at_cmd_char hw) pat_num else Inr (- 1)) (\<lambda>pat_idx.
           let ev = \<lparr>event_type = (if cmd then UART_PATTERN_DET else UART_DATA), event_size = of_nat (length bs),
                     timeout_flag = (\<not> cmd \<and> tout)\<rparr>;
               ob1 = ob\<lparr>rx_data_buf := buf, rx_stash_len := of_nat (length bs)\<rparr>;
               U1 = on_hw n (\<lambda>_. hw1) U in
           bind_res (xRingbufferSendFromISR (rx_ring_buf ob1) (Some (rx_data_buf ob1)) (ucast (rx_stash_len ob1))) (\<lambda>(sent, rb).
           let ob2 = ob1\<lparr>rx_ring_buf := Some rb\<rparr> in
           if sent = pdFALSE
           then let ob3 = ob2\<lparr>rx_buffer_full_flg := True\<rparr>;
                    U2 = on_hw n (uart_hal_disable_intr_mask (UART_INTR_RXFIFO_TOUT OR UART_INTR_RXFIFO_FULL)) U1;
                    full = ev\<lparr>event_type := UART_BUFFER_FULL\<rparr> in
                if cmd
                then bind_res (record_pattern
                       (if len < uint pat_num then rx_buffered_len ob3 - (uint pat_num - len)
                        else if pat_idx \<le> - 1 then rx_buffered_len ob3 + uint (rx_stash_len ob3)
                        else rx_buffered_len ob3 + pat_idx) ob3) (\<lambda>ob4.
                     bind_res (send_event k ev n (put_obj n ob4 U2)) (\<lambda>(U3, k'). Inr (full, event_size ev, U3, k')))
                else Inr (full, event_size ev, put_obj n ob3 U2, k)
           else bind_res (if cmd
                          then if len < uint pat_num then record_pattern (rx_buffered_len ob2 - (uint pat_num - len)) ob2
                               else if 0 \<le> pat_idx then record_pattern (rx_buffered_len ob2 + pat_idx) ob2 else Inr ob2
                          else Inr ob2) (\<lambda>ob3.
                Inr (ev, event_size ev, put_obj n (ob3\<lparr>rx_buffered_len := rx_buffered_len ob3 + uint (rx_stash_len ob3)\<rparr>) U1, k)))))
      else let U1 = on_hw n (uart_hal_disable_intr_mask (UART_INTR_RXFIFO_FULL OR UART_INTR_RXFIFO_TOUT)) U in
           Inr (if cmd then ((event_of UART_PATTERN_DET)\<lparr>event_size := rx_fifo_len\<rparr>, rx_fifo_len, U1\<lparr>pat_flg := True\<rparr>, k)
                else (event_of UART_EVENT_MAX, rx_fifo_len, U1, k))))"

definition isr_tx_break_done :: "nat \<Rightarrow> uart \<Rightarrow> uart res" where
  "isr_tx_break_done n U =
     bind_res (deref (p_uart_obj U n)) (\<lambda>ob.
     let U1 = on_hw n (\<lambda>hw. let hw1 = uart_hal_disable_intr_mask UART_INTR_TX_BRK_DONE (uart_hal_tx_break 0 hw)
                            in if tx_brk_flg ob then uart_hal_ena_intr_mask UART_INTR_TXFIFO_EMPTY hw1 else hw1) U
     in if tx_brk_flg ob then Inr (put_obj n (ob\<lparr>tx_brk_flg := False, tx_waiting_brk := False\<rparr>) U1)
        else bind_res (xQueueGiveFromISR (tx_brk_sem ob)) (\<lambda>(_, q). Inr (put_obj n (ob\<lparr>tx_brk_sem := Some q\<rparr>) U1)))"

definition isr_tx_done :: "nat \<Rightarrow> uart \<Rightarrow> uart res" where
  "isr_tx_done n U =
     bind_res (deref (p_uart_obj U n)) (\<lambda>ob.
     if uart_mode ob = UART_MODE_RS485_HALF_DUPLEX \<and> \<not> uart_ll_is_tx_idle (uart_hw U n) then Inr U
     else let U1 = on_hw n (\<lambda>hw. let hw1 = uart_hal_disable_intr_mask UART_INTR_TX_DONE hw
                                 in if uart_mode ob = UART_MODE_RS485_HALF_DUPLEX
                                    then (uart_hal_rxfifo_rst hw1)\<lparr>sw_rts := True\<rparr> else hw1) U
          in bind_res (xQueueGiveFromISR (tx_done_sem ob)) (\<lambda>(_, q). Inr (put_obj n (ob\<lparr>tx_done_sem := Some q\<rparr>) U1)))"

text \<open>
  One turn of the handler for a status word that is not zero. A transmit interrupt that finds
  nothing to do goes on with the next status word before the event is sent; its event would be
  \<^const>\<open>UART_EVENT_MAX\<close>, which is not sent either.
\<close>

definition isr_turn :: "kernel \<Rightarrow> u32 \<Rightarrow> u32 \<Rightarrow> nat \<Rightarrow> uart \<Rightarrow> (uart_event_t \<times> u32 \<times> uart \<times> kernel) res" where
  "isr_turn k rx_fifo_len status n U =
     (let quiet = (\<lambda>U'. Inr (event_of UART_EVENT_MAX, rx_fifo_len, U', k));
          notify = (\<lambda>ty U'. Inr (event_of ty, rx_fifo_len, U', k)) in
      if has_flag status UART_INTR_TXFIFO_EMPTY then bind_res (isr_tx_empty n U) quiet
      else if has_flag status UART_INTR_RXFIFO_TOUT \<or> has_flag status UART_INTR_RXFIFO_FULL \<or>
              has_flag status UART_INTR_CMD_CHAR_DET then isr_rx k rx_fifo_len status n U
      else if has_flag status UART_INTR_RXFIFO_OVF then notify UART_FIFO_OVF (on_hw n uart_hal_rxfifo_rst U)
      else if has_flag status UART_INTR_BRK_DET then notify UART_BREAK U
      else if has_flag status UART_INTR_FRAM_ERR then notify UART_FRAME_ERR U
      else if has_flag status UART_INTR_PARITY_ERR then notify UART_PARITY_ERR U
      else if has_flag status UART_INTR_TX_BRK_DONE then bind_res (isr_tx_break_done n U) quiet
      else if has_flag status UART_INTR_TX_BRK_IDLE then quiet (on_hw n (uart_hal_disable_intr_mask UART_INTR_TX_BRK_IDLE) U)
      else if has_flag status UART_INTR_RS485_PARITY_ERR \<or> has_flag status UART_INTR_RS485_FRM_ERR \<or>
              has_flag status UART_INTR_RS485_CLASH
      then bind_res (deref (p_uart_obj U n)) (\<lambda>ob.
             quiet (on_hw n uart_hal_rxfifo_rst (put_obj n (ob\<lparr>coll_det_flg := True\<rparr>) U)))
      else if has_flag status UART_INTR_TX_DONE then bind_res (isr_tx_done n U) quiet
      else if has_flag status UART_INTR_WAKEUP then notify UART_WAKEUP U
      else quiet U)"

text \<open>The status words the handler reads; it leaves at the first that is zero.\<close>

fun isr_loop :: "kernel \<Rightarrow> u32 \<Rightarrow> u32 list \<Rightarrow> nat \<Rightarrow> uart \<Rightarrow> (uart \<times> kernel) res" where
  "isr_loop k rx_fifo_len [] n U = Inr (U, k)"
| "isr_loop k rx_fifo_len (status # rest) n U =
     (if status = 0 then Inr (U, k)
      else bind_res (isr_turn k rx_fifo_len status n U) (\<lambda>(ev, len, U1, k1).
           bind_res (deref (p_uart_obj U1 n)) (\<lambda>ob.
           bind_res (if event_type ev \<noteq> UART_EVENT_MAX \<and> event_queue ob \<noteq> None then send_event k1 ev n U1 else Inr (U1, k1))
             (\<lambda>(U2, k2). isr_loop k2 len rest n U2))))"

definition uart_rx_intr_handler_default :: "kernel \<Rightarrow> u32 list \<Rightarrow> nat \<Rightarrow> uart \<Rightarrow> (uart \<times> kernel) res" where
  "uart_rx_intr_handler_default k statuses n U = isr_loop k 0 statuses n U"

section \<open>Reading\<close>

definition uart_check_buf_full :: "kernel \<Rightarrow> nat \<Rightarrow> uart \<Rightarrow> (bool \<times> uart \<times> kernel) res" where
  "uart_check_buf_full k n U =
     bind_res (deref (p_uart_obj U n)) (\<lambda>ob.
     if rx_buffer_full_flg ob
     then bind_res (xRingbufferSend [] (rx_ring_buf ob) (Some (rx_data_buf ob)) (ucast (rx_stash_len ob)) 0 k) (\<lambda>(res, rb, k1).
          let ob1 = ob\<lparr>rx_ring_buf := Some rb\<rparr> in
          if res = pdTRUE
          then let U1 = put_obj n (ob1\<lparr>rx_buffered_len := rx_buffered_len ob1 + uint (rx_stash_len ob1),
                                       rx_buffer_full_flg := False\<rparr>) U
               in bind_res (uart_reenable_intr_mask n (UART_INTR_RXFIFO_TOUT OR UART_INTR_RXFIFO_FULL) U1) (\<lambda>(_, U2).
                    Inr (True, U2, k1))
          else Inr (False, put_obj n ob1 U, k1))
     else Inr (False, U, k))"

text \<open>
  Waiting for data on the receive ring buffer: the passes of the ring buffer's receive function,
  where the environment holds the states of the whole driver in which the caller is resumed, since
  the interrupt handler runs in between.
\<close>

fun rx_receive :: "uart_env \<Rightarrow> u32 \<Rightarrow> u32 \<Rightarrow> TimeOut_t option \<Rightarrow> kernel \<Rightarrow> nat \<Rightarrow> uart \<Rightarrow>
    (rb_item option \<times> uart_env \<times> uart \<times> kernel) res" where
  "rx_receive e xMaxSize ticks t k n U =
     bind_res (deref (p_uart_obj U n)) (\<lambda>ob.
     case rx_ring_buf ob of
       None \<Rightarrow> Inl Assert_failed
     | Some rb \<Rightarrow>
         assert_res (xMaxSize \<noteq> 0 \<longrightarrow> rb_has rbBYTE_BUFFER_FLAG rb)
         (bind_res (prvReceiveGeneric_pass False xMaxSize ticks t k rb) (\<lambda>(r, rb', k').
         let U' = put_obj n (ob\<lparr>rx_ring_buf := Some rb'\<rparr>) U in
         case r of
           Done it \<Rightarrow> Inr (map_option fst it, e, U', k')
         | Again t' ticks' \<Rightarrow>
             (case e of
                [] \<Rightarrow> Inl Blocked_forever
              | (ke, Ue) # e' \<Rightarrow> rx_receive e' xMaxSize ticks' (Some t') ke n Ue))))"

declare rx_receive.simps [simp del]

text \<open>Accounting for bytes taken from the ring buffer, and giving them back to it.\<close>

definition rx_taken :: "rb_item \<Rightarrow> nat \<Rightarrow> uart \<Rightarrow> uart res" where
  "rx_taken it n U =
     bind_res (deref (p_uart_obj U n)) (\<lambda>ob.
     bind_res (uart_pattern_queue_update (uint (snd it)) (rx_pattern_pos ob)) (\<lambda>p.
     bind_res (vRingbufferReturnItem (rx_ring_buf ob) (Some (fst it))) (\<lambda>rb.
     Inr (put_obj n (ob\<lparr>rx_buffered_len := rx_buffered_len ob - uint (snd it), rx_pattern_pos := p,
                        rx_ring_buf := Some rb\<rparr>) U))))"

text \<open>
  The loop of \<^verbatim>\<open>uart_read_bytes\<close>. A turn takes at least one byte, or moves the stashed bytes to the
  ring buffer, which happens once unless the caller was resumed in between: the bound covers both.
\<close>

fun read_loop :: "nat \<Rightarrow> uart_env \<Rightarrow> u32 \<Rightarrow> u32 \<Rightarrow> kernel \<Rightarrow> nat \<Rightarrow> uart \<Rightarrow> (u8 list \<times> uart \<times> kernel) res" where
  "read_loop 0 e len ticks k n U = Inl Diverges"
| "read_loop (Suc f) e len ticks k n U =
     (if len = 0 then Inr ([], U, k)
      else bind_res (rx_receive e len ticks None k n U) (\<lambda>(it, e1, U1, k1).
           case it of
             None \<Rightarrow>
               bind_res (uart_check_buf_full k1 n U1) (\<lambda>(again, U2, k2).
               if again then read_loop f e1 len ticks k2 n U2 else Inr ([], U2, k2))
           | Some item \<Rightarrow>
               bind_res (deref (p_uart_obj U1 n)) (\<lambda>ob.
               bind_res (deref (rx_ring_buf ob)) (\<lambda>rb.
               bind_res (rb_peek item rb) (\<lambda>bs.
               bind_res (rx_taken item n U1) (\<lambda>U2.
               bind_res (uart_check_buf_full k1 n U2) (\<lambda>(_, U3, k3).
               bind_res (read_loop f e1 (len - snd item) ticks k3 n U3) (\<lambda>(more, U4, k4).
                 Inr (bs @ more, U4, k4)))))))))"

declare read_loop.simps [simp del]

text \<open>The result is the returned number and the bytes written to the caller's buffer.\<close>

definition uart_read_bytes ::
  "env \<Rightarrow> uart_env \<Rightarrow> nat \<Rightarrow> u32 \<Rightarrow> u32 \<Rightarrow> kernel \<Rightarrow> uart \<Rightarrow> (int \<times> u8 list \<times> uart \<times> kernel) res" where
  "uart_read_bytes em e n len ticks k U =
     (if \<not> n < UART_NUM_MAX then Inr (- 1, [], U, k)
      else case p_uart_obj U n of
             None \<Rightarrow> Inr (- 1, [], U, k)
           | Some ob \<Rightarrow>
               bind_res (xSemaphoreTake em k (rx_mux ob) ticks) (\<lambda>(r, mux, k1).
               let U1 = put_obj n (ob\<lparr>rx_mux := mux\<rparr>) U in
               if r \<noteq> pdTRUE then Inr (- 1, [], U1, k1)
               else bind_res (read_loop (2 * (unat len + length e) + 2) e len ticks k1 n U1) (\<lambda>(bs, U2, k2).
                    bind_res (deref (p_uart_obj U2 n)) (\<lambda>ob2.
                    bind_res (xSemaphoreGive k2 (rx_mux ob2)) (\<lambda>(_, mux2, k3).
                    Inr (int (length bs), bs, put_obj n (ob2\<lparr>rx_mux := mux2\<rparr>) U2, k3))))))"

definition uart_get_buffered_data_len :: "nat \<Rightarrow> uart \<Rightarrow> esp_err \<times> int option" where
  "uart_get_buffered_data_len n U =
     (if \<not> n < UART_NUM_MAX then (ESP_FAIL, None)
      else case p_uart_obj U n of None \<Rightarrow> (ESP_FAIL, None) | Some ob \<Rightarrow> (ESP_OK, Some (rx_buffered_len ob)))"

section \<open>Flushing\<close>

text \<open>A turn of the loop of \<^verbatim>\<open>uart_flush_input\<close> takes at least one byte from the ring buffer, or it is the last.\<close>

fun flush_loop :: "nat \<Rightarrow> kernel \<Rightarrow> nat \<Rightarrow> uart \<Rightarrow> (uart \<times> kernel) res" where
  "flush_loop 0 k n U = Inl Diverges"
| "flush_loop (Suc f) k n U =
     bind_res (rx_receive [] 0 0 None k n U) (\<lambda>(it, _, U1, k1).
     bind_res (deref (p_uart_obj U1 n)) (\<lambda>ob1.
     case it of
       None \<Rightarrow> Inr (put_obj n (ob1\<lparr>rx_buffered_len := 0, rx_buffer_full_flg := False\<rparr>) U1, k1)
     | Some item \<Rightarrow>
         bind_res (rx_taken item n U1) (\<lambda>U2.
         bind_res (deref (p_uart_obj U2 n)) (\<lambda>ob2.
         if rx_buffer_full_flg ob2
         then bind_res (xRingbufferSend [] (rx_ring_buf ob2) (Some (rx_data_buf ob2)) (ucast (rx_stash_len ob2)) 0 k1)
                (\<lambda>(res, rb, k2).
                let ob3 = ob2\<lparr>rx_ring_buf := Some rb\<rparr> in
                flush_loop f k2 n (put_obj n (if res = pdTRUE
                    then ob3\<lparr>rx_buffered_len := rx_buffered_len ob3 + uint (rx_stash_len ob3), rx_buffer_full_flg := False\<rparr>
                    else ob3) U2))
         else flush_loop f k1 n U2))))"

declare flush_loop.simps [simp del]

definition flush_bound :: "uart_obj_t \<Rightarrow> nat" where
  "flush_bound ob = (case rx_ring_buf ob of None \<Rightarrow> 1 | Some rb \<Rightarrow> unat (xItemsWaiting rb) + 257)"

definition uart_flush_input :: "env \<Rightarrow> nat \<Rightarrow> kernel \<Rightarrow> uart \<Rightarrow> (esp_err \<times> uart \<times> kernel) res" where
  "uart_flush_input em n k U =
     (if \<not> n < UART_NUM_MAX then Inr (ESP_FAIL, U, k)
      else case p_uart_obj U n of
             None \<Rightarrow> Inr (ESP_FAIL, U, k)
           | Some ob \<Rightarrow>
               bind_res (xSemaphoreTake em k (rx_mux ob) portMAX_DELAY) (\<lambda>(_, mux, k1).
               let U1 = on_hw n (uart_hal_disable_intr_mask (UART_INTR_RXFIFO_FULL OR UART_INTR_RXFIFO_TOUT))
                          (put_obj n (ob\<lparr>rx_mux := mux\<rparr>) U) in
               bind_res (flush_loop (flush_bound ob) k1 n U1) (\<lambda>(U2, k2).
               bind_res (uart_reenable_intr_mask n (UART_INTR_RXFIFO_TOUT OR UART_INTR_RXFIFO_FULL)
                           (on_hw n uart_hal_rxfifo_rst U2)) (\<lambda>(_, U3).
               bind_res (deref (p_uart_obj U3 n)) (\<lambda>ob3.
               bind_res (xSemaphoreGive k2 (rx_mux ob3)) (\<lambda>(_, mux3, k3).
               Inr (ESP_OK, put_obj n (ob3\<lparr>rx_mux := mux3\<rparr>) U3, k3)))))))"

section \<open>Pattern positions\<close>

text \<open>Either no position is recorded, or the ring is allocated and both indices are inside.\<close>

definition pat_ok :: "uart_pat_rb_t \<Rightarrow> bool" where
  "pat_ok p \<longleftrightarrow> pat_rd p = pat_wr p \<or>
     (case pat_data p of
        None \<Rightarrow> False
      | Some d \<Rightarrow> length d = nat (pat_len p) \<and> 0 \<le> pat_rd p \<and> pat_rd p < pat_len p \<and> 0 \<le> pat_wr p \<and> pat_wr p < pat_len p)"

definition pat_room :: "uart_pat_rb_t \<Rightarrow> int \<Rightarrow> nat" where
  "pat_room p i = nat (if i \<le> pat_wr p then pat_wr p - i else pat_wr p - i + pat_len p)"

lemma pat_update_loop_ok:
  assumes "pat_data p = Some d" and "length d = nat (pat_len p)" and "0 \<le> pat_wr p" and "pat_wr p < pat_len p"
    and "0 \<le> rd" and "rd < pat_len p" and "0 \<le> pat_rd p" and "pat_rd p < pat_len p" and "pat_room p rd \<le> f"
  shows "\<exists>p' d'. pattern_update_loop f m rd p = Inr p' \<and> pat_data p' = Some d' \<and> length d' = nat (pat_len p') \<and>
    pat_len p' = pat_len p \<and> pat_wr p' = pat_wr p \<and> 0 \<le> pat_rd p' \<and> pat_rd p' < pat_len p'"
  using assms
proof (induction f arbitrary: rd p d)
  case 0
  then have "rd = pat_wr p" by (auto simp: pat_room_def split: if_splits)
  with 0 show ?case by simp
next
  case (Suc f)
  show ?case
  proof (cases "rd = pat_wr p")
    case True
    with Suc.prems show ?thesis by simp
  next
    case False
    let ?rd = "pat_step p rd" and ?d = "d[nat rd := d ! nat rd - m]"
    let ?p = "if d ! nat rd - m < 0 then p\<lparr>pat_data := Some ?d, pat_rd := ?rd\<rparr> else p\<lparr>pat_data := Some ?d\<rparr>"
    have step: "0 \<le> ?rd" "?rd < pat_len p" using Suc.prems(4-6) by (auto simp: pat_step_def)
    have "pat_room p ?rd \<le> f" using Suc.prems(3-6,9) False by (auto simp: pat_room_def pat_step_def split: if_splits)
    then have room: "pat_room ?p ?rd \<le> f" by (simp add: pat_room_def split: if_splits)
    have "\<exists>p' d'. pattern_update_loop f m ?rd ?p = Inr p' \<and> pat_data p' = Some d' \<and> length d' = nat (pat_len p') \<and>
        pat_len p' = pat_len ?p \<and> pat_wr p' = pat_wr ?p \<and> 0 \<le> pat_rd p' \<and> pat_rd p' < pat_len p'"
      by (rule Suc.IH [of ?p ?d]) (use Suc.prems step room in auto)
    moreover have "pattern_update_loop (Suc f) m rd p = pattern_update_loop f m ?rd ?p"
      using Suc.prems False by (simp add: array_at_def array_put_def Let_def)
    ultimately show ?thesis by auto
  qed
qed

lemma pat_update_ok:
  assumes "pat_ok p"
  shows "\<exists>p'. uart_pattern_queue_update m p = Inr p' \<and> pat_ok p'"
proof (cases "pat_rd p = pat_wr p")
  case True
  then have "uart_pattern_queue_update m p = Inr p"
    by (cases "nat (pat_len p)") (simp_all add: uart_pattern_queue_update_def)
  then show ?thesis using assms by blast
next
  case False
  with assms obtain d where d: "pat_data p = Some d" "length d = nat (pat_len p)" "0 \<le> pat_rd p" "pat_rd p < pat_len p"
    "0 \<le> pat_wr p" "pat_wr p < pat_len p" by (auto simp: pat_ok_def split: option.splits)
  have "pat_room p (pat_rd p) \<le> nat (pat_len p)" using d by (auto simp: pat_room_def)
  from pat_update_loop_ok [OF d(1,2,5,6,3,4,3,4) this, of m] d(5,6) show ?thesis
    by (fastforce simp: uart_pattern_queue_update_def pat_ok_def)
qed

section \<open>The received stream\<close>

text \<open>
  The bytes a reader will get, in order: those in the ring buffer, then those the interrupt handler
  had to stash because the ring buffer had no room for them.
\<close>

definition rx_ring :: "uart_obj_t \<Rightarrow> Ringbuffer_t" where
  "rx_ring ob = (case rx_ring_buf ob of Some rb \<Rightarrow> rb)"

definition rx_stash :: "uart_obj_t \<Rightarrow> u8 list" where
  "rx_stash ob = (if rx_buffer_full_flg ob then take (unat (rx_stash_len ob)) (rx_data_buf ob) else [])"

definition rx_stream :: "uart_obj_t \<Rightarrow> u8 list" where
  "rx_stream ob = waiting (rx_ring ob) @ rx_stash ob"

text \<open>
  The receive side between calls: the ring buffer is a byte buffer larger than the FIFO of which
  nothing is lent, the count of buffered bytes agrees with it, and the stash is in use only while
  it does not fit.
\<close>

definition rx_base :: "uart_obj_t \<Rightarrow> bool" where
  "rx_base ob \<longleftrightarrow> rx_ring_buf ob \<noteq> None \<and> byte_inv (rx_ring ob) \<and> lent (rx_ring ob) = [] \<and>
     SOC_UART_FIFO_LEN < rb_cap (rx_ring ob) \<and> rx_buffered_len ob = int (length (waiting (rx_ring ob))) \<and>
     length (rx_data_buf ob) = 4 * SOC_UART_FIFO_LEN \<and> unat (rx_stash_len ob) \<le> SOC_UART_FIFO_LEN \<and> pat_ok (rx_pattern_pos ob)"

definition rx_ok :: "uart_obj_t \<Rightarrow> bool" where
  "rx_ok ob \<longleftrightarrow> rx_base ob \<and>
     (rx_buffer_full_flg ob \<longrightarrow> rb_cap (rx_ring ob) < length (waiting (rx_ring ob)) + unat (rx_stash_len ob))"

text \<open>The transmit side of an object and of the registers of a port.\<close>

definition tx_view ::
  "uart_obj_t \<Rightarrow> Ringbuffer_t option \<times> int option \<times> int option \<times> u32 \<times> u32 \<times> bool \<times> bool \<times> int \<times> QueueHandle_t" where
  "tx_view ob = (tx_ring_buf ob, tx_ptr ob, tx_head ob, tx_len_tot ob, tx_len_cur ob, tx_brk_flg ob, tx_waiting_brk ob, tx_buf_size ob, tx_mux ob)"

definition tx_hw_view :: "uart_dev \<Rightarrow> u8 list \<times> bool" where
  "tx_hw_view hw = (tx_fifo hw, has_flag (uart_int_ena hw) UART_INTR_TXFIFO_EMPTY)"

lemma tx_view_rx [simp]:
  "tx_view (ob\<lparr>rx_ring_buf := a\<rparr>) = tx_view ob" "tx_view (ob\<lparr>rx_data_buf := b\<rparr>) = tx_view ob" "tx_view (ob\<lparr>rx_stash_len := c\<rparr>) = tx_view ob"
  "tx_view (ob\<lparr>rx_buffered_len := d\<rparr>) = tx_view ob" "tx_view (ob\<lparr>rx_buffer_full_flg := e\<rparr>) = tx_view ob" "tx_view (ob\<lparr>rx_pattern_pos := f\<rparr>) = tx_view ob"
  "tx_view (ob\<lparr>rx_mux := g\<rparr>) = tx_view ob" "tx_view (ob\<lparr>event_queue := h\<rparr>) = tx_view ob"
  by (simp_all add: tx_view_def)

lemma rx_masks_tx_flag [simp]:
  "has_flag (w AND NOT UART_INTR_RXFIFO_FULL AND NOT UART_INTR_RXFIFO_TOUT) UART_INTR_TXFIFO_EMPTY = has_flag w UART_INTR_TXFIFO_EMPTY"
  "has_flag (w AND NOT UART_INTR_RXFIFO_TOUT AND NOT UART_INTR_RXFIFO_FULL) UART_INTR_TXFIFO_EMPTY = has_flag w UART_INTR_TXFIFO_EMPTY"
  "has_flag (w OR (m AND (UART_INTR_RXFIFO_TOUT OR UART_INTR_RXFIFO_FULL))) UART_INTR_TXFIFO_EMPTY = has_flag w UART_INTR_TXFIFO_EMPTY"
  by (simp_all add: has_flag_def and.assoc word_ao_dist UART_INTR_RXFIFO_FULL_def UART_INTR_RXFIFO_TOUT_def UART_INTR_TXFIFO_EMPTY_def)

text \<open>What the receive path leaves alone.\<close>

definition rx_frame :: "uart_obj_t \<Rightarrow> uart_obj_t \<Rightarrow> bool" where
  "rx_frame ob ob' \<longleftrightarrow> rx_mux ob' = rx_mux ob \<and> event_queue ob' = event_queue ob \<and>
     rx_int_usr_mask ob' = rx_int_usr_mask ob \<and> tx_view ob' = tx_view ob \<and>
     rb_cap (rx_ring ob') = rb_cap (rx_ring ob)"

lemma rx_frame_refl [simp]: "rx_frame ob ob"
  by (simp add: rx_frame_def)

lemma rx_frame_trans: "rx_frame a b \<Longrightarrow> rx_frame b c \<Longrightarrow> rx_frame a c"
  by (simp add: rx_frame_def)

lemma put_obj_sel [simp]:
  "p_uart_obj (put_obj n ob U) n = Some ob" "put_obj n ob (put_obj n ob' U) = put_obj n ob U"
  "uart_hw (put_obj n ob U) = uart_hw U" "pat_flg (put_obj n ob U) = pat_flg U"
  "p_uart_obj (on_hw n f U) = p_uart_obj U" "pat_flg (on_hw n f U) = pat_flg U"
  by (simp_all add: put_obj_def on_hw_def)

lemma rx_base_ring: "rx_base ob \<Longrightarrow> rx_ring_buf ob = Some (rx_ring ob)"
  by (auto simp: rx_base_def rx_ring_def)

text \<open>
  The stash goes to the ring buffer if it fits. The stream stays, and afterwards the stash is in use
  only if it does not fit.
\<close>

definition stash_fits :: "uart_obj_t \<Rightarrow> bool" where
  "stash_fits ob \<longleftrightarrow> length (waiting (rx_ring ob)) + unat (rx_stash_len ob) \<le> rb_cap (rx_ring ob)"

definition stash_moved :: "uart_obj_t \<Rightarrow> uart_obj_t" where
  "stash_moved ob =
     (if stash_fits ob
      then ob\<lparr>rx_ring_buf := Some (sent (take (unat (rx_stash_len ob)) (rx_data_buf ob)) (rx_ring ob)),
              rx_buffered_len := rx_buffered_len ob + uint (rx_stash_len ob), rx_buffer_full_flg := False\<rparr>
      else ob)"

lemma stash_send:
  assumes "rx_base ob"
  shows "xRingbufferSend [] (rx_ring_buf ob) (Some (rx_data_buf ob)) (ucast (rx_stash_len ob)) 0 k =
    Inr (if stash_fits ob then (pdTRUE, sent (take (unat (rx_stash_len ob)) (rx_data_buf ob)) (rx_ring ob), k)
         else (pdFALSE, rx_ring ob, k))"
proof -
  note base = assms [unfolded rx_base_def]
  have m: "unat (rx_stash_len ob) \<le> length (rx_data_buf ob)" "unat (rx_stash_len ob) < 2 ^ 32"
    using base by (auto simp: SOC_UART_FIFO_LEN_def)
  show ?thesis
    using task_send_fits [OF _ m(1) _ m(2), of "rx_ring ob" "[]" 0 k] task_send_refused [OF _ m(1) _ m(2), of "rx_ring ob" "[]" k]
      base rx_base_ring [OF assms] by (simp add: stash_fits_def)
qed

lemma stash_moved_ok:
  assumes "rx_base ob" and "rx_buffer_full_flg ob"
  shows "rx_ok (stash_moved ob)" "rx_stream (stash_moved ob) = rx_stream ob" "rx_frame ob (stash_moved ob)"
  using assms sent_state [of "rx_ring ob" "take (unat (rx_stash_len ob)) (rx_data_buf ob)"]
  by (auto simp: stash_moved_def stash_fits_def rx_ok_def rx_base_def rx_stream_def rx_stash_def rx_frame_def
      rx_ring_def SOC_UART_FIFO_LEN_def not_le split: option.splits)

lemma put_ring_same:
  assumes "rx_base ob"
  shows "put_obj n (ob\<lparr>rx_ring_buf := Some (rx_ring ob)\<rparr>) U = put_obj n ob U"
proof -
  have "ob\<lparr>rx_ring_buf := Some (rx_ring ob)\<rparr> = ob" using rx_base_ring [OF assms] by (cases ob) simp
  then show ?thesis by simp
qed

lemma put_same: "p_uart_obj U n = Some ob \<Longrightarrow> put_obj n ob U = U"
  by (simp add: put_obj_def fun_upd_idem)

lemma check_buf_full_keeps:
  assumes "n < UART_NUM_MAX" and "p_uart_obj U n = Some ob" and "rx_base ob"
  shows "\<exists>b U' ob'. uart_check_buf_full k n U = Inr (b, U', k) \<and> p_uart_obj U' n = Some ob' \<and> rx_ok ob' \<and>
    rx_stream ob' = rx_stream ob \<and> rx_frame ob ob' \<and> (rx_ok ob \<longrightarrow> \<not> b \<and> U' = U) \<and> rx_fifo (uart_hw U' n) = rx_fifo (uart_hw U n) \<and>
    pat_flg U' = pat_flg U \<and> tx_hw_view (uart_hw U' n) = tx_hw_view (uart_hw U n)"
proof -
  consider "\<not> rx_buffer_full_flg ob" | "rx_buffer_full_flg ob" "stash_fits ob" | "rx_buffer_full_flg ob" "\<not> stash_fits ob" by blast
  then show ?thesis
  proof cases
    case 1
    then show ?thesis using assms by (auto simp: uart_check_buf_full_def rx_ok_def)
  next
    case 2
    then have "\<not> rx_ok ob" by (simp add: rx_ok_def stash_fits_def)
    moreover have "uart_check_buf_full k n U = Inr (True, on_hw n (uart_hal_ena_intr_mask
        (rx_int_usr_mask (stash_moved ob) AND (UART_INTR_RXFIFO_TOUT OR UART_INTR_RXFIFO_FULL))) (put_obj n (stash_moved ob) U), k)"
      using 2 assms(1,2) stash_send [OF assms(3)]
      by (simp add: uart_check_buf_full_def uart_reenable_intr_mask_def stash_moved_def)
    ultimately show ?thesis using stash_moved_ok [OF assms(3) 2(1)] by (auto simp: on_hw_def uart_hal_ena_intr_mask_def tx_hw_view_def)
  next
    case 3
    then have "uart_check_buf_full k n U = Inr (False, U, k)"
      using assms(2) stash_send [OF assms(3)] put_ring_same [OF assms(3)] put_same [OF assms(2)]
      by (simp add: uart_check_buf_full_def basetype_defs)
    moreover have "rx_ok ob" using 3 assms(3) by (simp add: rx_ok_def stash_fits_def)
    ultimately show ?thesis using assms(2) by auto
  qed
qed

text \<open>One chunk is taken from the ring buffer and given back: it is the front of the stream.\<close>

lemma rx_take:
  assumes "p_uart_obj U n = Some ob" and "rx_base ob" and "waiting (rx_ring ob) \<noteq> []"
  shows "\<exists>it bs ob1 ob2. rx_receive e m ticks t k n U = Inr (Some it, e, put_obj n ob1 U, k) \<and>
    rx_ring_buf ob1 = Some (rx_ring ob1) \<and> rb_peek it (rx_ring ob1) = Inr bs \<and> bs \<noteq> [] \<and> length bs = unat (snd it) \<and>
    (m \<noteq> 0 \<longrightarrow> unat (snd it) \<le> unat m) \<and> rx_taken it n (put_obj n ob1 U) = Inr (put_obj n ob2 U) \<and> rx_base ob2 \<and>
    waiting (rx_ring ob) = bs @ waiting (rx_ring ob2) \<and> rx_stash ob2 = rx_stash ob \<and>
    rx_buffer_full_flg ob2 = rx_buffer_full_flg ob \<and> rx_stash_len ob2 = rx_stash_len ob \<and> rx_frame ob ob2"
proof -
  let ?rb = "rx_ring ob"
  note base = assms(2) [unfolded rx_base_def] and ring = rx_base_ring [OF assms(2)]
  obtain j where j: "0 < j" "j \<le> length (waiting ?rb)" "m \<noteq> 0 \<longrightarrow> j \<le> unat m"
      "retrieve False m ?rb = Inr (((pucFree ?rb, of_nat j), None), lend j ?rb)" "prvCheckItemAvail ?rb = Inr True"
      "byte_inv (lend j ?rb)" "rb_holds (pucFree ?rb, of_nat j) (lend j ?rb)"
      "lent (lend j ?rb) = take j (waiting ?rb)" "waiting (lend j ?rb) = drop j (waiting ?rb)"
    using retrieve_byte [of ?rb m] base assms(3) by blast
  have "length (waiting ?rb) < 2 ^ 32" using byte_inv_room [of ?rb] base by simp
  then have u: "unat (of_nat j :: u32) = j" "uint (of_nat j :: u32) = int j"
    using j(2) by (simp_all add: unat_of_nat_u32 uint_nat)
  let ?it = "(pucFree ?rb, of_nat j) :: rb_item"
  define ob1 where "ob1 = ob\<lparr>rx_ring_buf := Some (lend j ?rb)\<rparr>"
  obtain p where p: "uart_pattern_queue_update (int j) (rx_pattern_pos ob) = Inr p" "pat_ok p"
    using pat_update_ok base by blast
  note ret = return_bytes [OF j(6,7)] and bs = peek_bytes [OF j(6,7)]
  define ob2 where "ob2 = ob1\<lparr>rx_buffered_len := rx_buffered_len ob1 - int j, rx_pattern_pos := p,
    rx_ring_buf := Some (rb_wake_sender (returned (lend j ?rb)))\<rparr>"
  have R: "rx_ring ob2 = rb_wake_sender (returned (lend j ?rb))" by (simp add: ob2_def rx_ring_def)
  have "rx_receive e m ticks t k n U = Inr (Some ?it, e, put_obj n ob1 U, k)"
    using assms(1) ring j(4,5) byte_flag base
    by (simp add: rx_receive.simps prvReceiveGeneric_pass_def ob1_def)
  moreover have "rx_taken ?it n (put_obj n ob1 U) = Inr (put_obj n ob2 U)"
    using p(1) ret(1) u(2) by (simp add: rx_taken_def ob1_def ob2_def)
  moreover have "rx_base ob2" "rx_frame ob ob2"
    using base p(2) ret(2-5) j(2,8,9) R
    by (simp_all add: rx_base_def rx_frame_def of_nat_diff lend_def rb_cap_def) (simp_all add: ob1_def ob2_def of_nat_diff)
  moreover have "rb_peek ?it (rx_ring ob1) = Inr (take j (waiting ?rb))"
    using bs(1) j(8) by (simp add: rb_peek_def ob1_def rx_ring_def)
  moreover have "waiting ?rb = take j (waiting ?rb) @ waiting (rx_ring ob2)"
    using ret(4) j(9) R by simp
  moreover have "length (take j (waiting ?rb)) = unat (snd ?it)" "take j (waiting ?rb) \<noteq> []" using j(1,2) u(1) by auto
  moreover have "m \<noteq> 0 \<longrightarrow> unat (snd ?it) \<le> unat m" using j(3) u(1) by simp
  ultimately show ?thesis
    by (intro exI [of _ ?it] exI [of _ "take j (waiting ?rb)"] exI [of _ ob1] exI [of _ ob2])
       (simp add: ob1_def ob2_def rx_ring_def rx_stash_def)
qed

lemma rx_nothing:
  assumes "p_uart_obj U n = Some ob" and "rx_base ob" and "waiting (rx_ring ob) = []"
  shows "rx_receive e m 0 t k n U = Inr (None, e, U, k)"
proof -
  note same = put_ring_same [OF assms(2)] put_same [OF assms(1)]
  have "prvCheckItemAvail (rx_ring ob) = Inr False" "rb_has rbBYTE_BUFFER_FLAG (rx_ring ob)"
    using nothing_to_read byte_flag assms(2,3) by (auto simp: rx_base_def)
  then show ?thesis using assms(1) rx_base_ring [OF assms(2)] same
    by (simp add: rx_receive.simps prvReceiveGeneric_pass_def)
qed

lemma rx_ok_empty: "rx_ok ob \<Longrightarrow> waiting (rx_ring ob) = [] \<Longrightarrow> rx_stream ob = []"
  by (auto simp: rx_ok_def rx_base_def rx_stream_def rx_stash_def)

text \<open>
  Reading takes the front of the stream, whatever chunks the ring buffer hands out, and ends within
  one turn per byte.
\<close>

lemma read_loop_front:
  assumes "n < UART_NUM_MAX" and "p_uart_obj U n = Some ob" and "rx_ok ob" and "unat len < f"
    and "unat len \<le> length (rx_stream ob) \<or> ticks = 0"
  shows "\<exists>U' ob'. read_loop f e len ticks k n U = Inr (take (unat len) (rx_stream ob), U', k) \<and> p_uart_obj U' n = Some ob' \<and>
    rx_ok ob' \<and> rx_stream ob' = drop (unat len) (rx_stream ob) \<and> rx_frame ob ob' \<and> rx_fifo (uart_hw U' n) = rx_fifo (uart_hw U n) \<and>
    pat_flg U' = pat_flg U \<and> tx_hw_view (uart_hw U' n) = tx_hw_view (uart_hw U n)"
  using assms(2-)
proof (induction f arbitrary: len U ob)
  case 0
  then show ?case by simp
next
  case (Suc f)
  have base: "rx_base ob" using Suc.prems(2) by (simp add: rx_ok_def)
  consider "len = 0" | "len \<noteq> 0" "waiting (rx_ring ob) = []" | "len \<noteq> 0" "waiting (rx_ring ob) \<noteq> []" by blast
  then show ?case
  proof cases
    case 1
    then show ?thesis using Suc.prems by (simp add: read_loop.simps)
  next
    case 2
    then have "rx_stream ob = []" "0 < unat len" using rx_ok_empty [OF Suc.prems(2)] by (auto simp: unat_gt_0)
    moreover from this have "ticks = 0" using Suc.prems(4) by simp
    moreover obtain b U' where "uart_check_buf_full k n U = Inr (b, U', k)" "\<not> b" "U' = U"
      using check_buf_full_keeps [OF assms(1) Suc.prems(1) base, of k] Suc.prems(2) by blast
    ultimately show ?thesis using rx_nothing [OF Suc.prems(1) base 2(2)] 2 Suc.prems(1,2) by (simp add: read_loop.simps)
  next
    case 3
    from rx_take [OF Suc.prems(1) base 3(2), of e len ticks None k] 3(1) obtain it bs ob1 ob2 where
      it: "rx_receive e len ticks None k n U = Inr (Some it, e, put_obj n ob1 U, k)" "rx_ring_buf ob1 = Some (rx_ring ob1)"
        "rb_peek it (rx_ring ob1) = Inr bs" "bs \<noteq> []" "length bs = unat (snd it)" "unat (snd it) \<le> unat len"
        "rx_taken it n (put_obj n ob1 U) = Inr (put_obj n ob2 U)" "rx_base ob2"
        "waiting (rx_ring ob) = bs @ waiting (rx_ring ob2)" "rx_stash ob2 = rx_stash ob" "rx_frame ob ob2" by auto
    have ob2: "p_uart_obj (put_obj n ob2 U) n = Some ob2" by simp
    obtain b U3 ob3 where c: "uart_check_buf_full k n (put_obj n ob2 U) = Inr (b, U3, k)" "p_uart_obj U3 n = Some ob3" "rx_ok ob3"
        "rx_stream ob3 = rx_stream ob2" "rx_frame ob2 ob3" "rx_fifo (uart_hw U3 n) = rx_fifo (uart_hw U n)" "pat_flg U3 = pat_flg U"
        "tx_hw_view (uart_hw U3 n) = tx_hw_view (uart_hw U n)"
      using check_buf_full_keeps [OF assms(1) ob2 it(8), of k] by auto
    have st: "rx_stream ob = bs @ rx_stream ob3" using it(9,10) c(4) by (simp add: rx_stream_def)
    have left: "unat (len - snd it) = unat len - length bs"
      using it(5,6) by (simp add: unat_sub word_le_nat_alt)
    have "unat (len - snd it) < f" "unat (len - snd it) \<le> length (rx_stream ob3) \<or> ticks = 0"
      using left Suc.prems(3,4) it(4-6) st by (auto simp: Suc_le_eq length_greater_0_conv [symmetric] simp del: length_greater_0_conv)
    from Suc.IH [OF c(2,3) this] obtain U' ob' where
      r: "read_loop f e (len - snd it) ticks k n U3 = Inr (take (unat (len - snd it)) (rx_stream ob3), U', k)"
        "p_uart_obj U' n = Some ob'" "rx_ok ob'" "rx_stream ob' = drop (unat (len - snd it)) (rx_stream ob3)"
        "rx_frame ob3 ob'" "rx_fifo (uart_hw U' n) = rx_fifo (uart_hw U3 n)" "pat_flg U' = pat_flg U3" "tx_hw_view (uart_hw U' n) = tx_hw_view (uart_hw U3 n)" by blast
    have "read_loop (Suc f) e len ticks k n U = Inr (bs @ take (unat (len - snd it)) (rx_stream ob3), U', k)"
      using 3(1) it(1-3,7) c(1) r(1) by (simp add: read_loop.simps)
    moreover have "rx_frame ob ob'" using it(11) c(5) r(5) rx_frame_trans by blast
    ultimately show ?thesis using r(2-4,6-8) c(6-8) st left it(5,6) by simp
  qed
qed

section \<open>Receiving in the interrupt handler\<close>

definition event_queue_ok :: "uart_obj_t \<Rightarrow> bool" where
  "event_queue_ok ob \<longleftrightarrow> (case event_queue ob of None \<Rightarrow> False | Some q \<Rightarrow> queue_inv q \<and> isz q = 12)"

definition events :: "uart_obj_t \<Rightarrow> u8 list list" where
  "events ob = (case event_queue ob of None \<Rightarrow> [] | Some q \<Rightarrow> q_items q)"

definition posted :: "uart_event_t \<Rightarrow> uart_obj_t \<Rightarrow> u8 list list" where
  "posted ev ob = (case event_queue ob of None \<Rightarrow> [] | Some q \<Rightarrow> if qcnt q < qlen q then [event_bytes ev] else [])"

lemma length_event_bytes [simp]: "length (event_bytes ev) = 12"
  by (simp add: event_bytes_def word_bytes_def)

lemma send_event_posts:
  assumes "p_uart_obj U n = Some ob" and "event_queue_ok ob"
  shows "\<exists>q. send_event k ev n U = Inr (put_obj n (ob\<lparr>event_queue := Some q\<rparr>) U, k) \<and>
    event_queue_ok (ob\<lparr>event_queue := Some q\<rparr>) \<and> events (ob\<lparr>event_queue := Some q\<rparr>) = events ob @ posted ev ob"
proof -
  obtain q where q: "event_queue ob = Some q" "queue_inv q" "isz q = 12"
    using assms(2) by (auto simp: event_queue_ok_def split: option.splits)
  from isr_send_items [OF q(2), of "event_bytes ev" k] q(3) obtain r q' where
    "xQueueGenericSendFromISR k (Some q) (Some (event_bytes ev)) queueSEND_TO_BACK = Inr (r, q', k)"
    "queue_inv q'" "isz q' = 12" "q_items q' = q_items q @ (if qcnt q < qlen q then [event_bytes ev] else [])" by auto
  with assms(1) q show ?thesis by (auto simp: send_event_def event_queue_ok_def events_def posted_def)
qed

lemma rx_event_queue [simp]:
  "rx_ok (ob\<lparr>event_queue := q\<rparr>) = rx_ok ob" "rx_stream (ob\<lparr>event_queue := q\<rparr>) = rx_stream ob"
  by (simp_all add: rx_ok_def rx_base_def rx_ring_def rx_stream_def rx_stash_def)

text \<open>How many bytes of the FIFO the handler takes: one stays behind to provoke a timeout interrupt.\<close>

definition fifo_taken :: "uart_obj_t \<Rightarrow> u32 \<Rightarrow> u8 list \<Rightarrow> nat" where
  "fifo_taken ob status fifo =
     (if rx_always_timeout_flg ob \<and> \<not> has_flag status UART_INTR_RXFIFO_TOUT \<and> 2 \<le> length fifo
      then length fifo - 1 else length fifo)"

lemma read_rxfifo_taken:
  "uart_hal_read_rxfifo (if rx_always_timeout_flg ob \<and> \<not> has_flag status UART_INTR_RXFIFO_TOUT
                         then int (length (rx_fifo hw)) - 1 else int (length (rx_fifo hw))) hw =
   (take (fifo_taken ob status (rx_fifo hw)) (rx_fifo hw), hw\<lparr>rx_fifo := drop (fifo_taken ob status (rx_fifo hw)) (rx_fifo hw)\<rparr>)"
  by (auto simp: uart_hal_read_rxfifo_def fifo_taken_def nat_diff_distrib Let_def)

lemma isr_rx_stores:
  assumes "p_uart_obj U n = Some ob" and "rx_ok ob" and "\<not> rx_buffer_full_flg ob" and "\<not> pat_flg U"
    and "\<not> has_flag status UART_INTR_CMD_CHAR_DET" and "length (rx_fifo (uart_hw U n)) \<le> SOC_UART_FIFO_LEN"
  defines "m \<equiv> fifo_taken ob status (rx_fifo (uart_hw U n))"
  defines "fits \<equiv> length (rx_stream ob) + m \<le> rb_cap (rx_ring ob)"
  shows "\<exists>U' ob'. isr_rx k l status n U =
      Inr (\<lparr>event_type = (if fits then UART_DATA else UART_BUFFER_FULL), event_size = of_nat m,
            timeout_flag = has_flag status UART_INTR_RXFIFO_TOUT\<rparr>, of_nat m, U', k) \<and>
    p_uart_obj U' n = Some ob' \<and> rx_ok ob' \<and> rx_stream ob' = rx_stream ob @ take m (rx_fifo (uart_hw U n)) \<and>
    rx_fifo (uart_hw U' n) = drop m (rx_fifo (uart_hw U n)) \<and> rx_frame ob ob' \<and> rx_buffer_full_flg ob' = (\<not> fits) \<and> \<not> pat_flg U' \<and>
    tx_hw_view (uart_hw U' n) = tx_hw_view (uart_hw U n)"
proof -
  let ?bs = "take m (rx_fifo (uart_hw U n))" and ?rb = "rx_ring ob"
  have base: "rx_base ob" using assms(2) by (simp add: rx_ok_def)
  note b = base [unfolded rx_base_def] and ring = rx_base_ring [OF base]
  have m: "m \<le> length (rx_fifo (uart_hw U n))" "m \<le> 128"
    using assms(6) by (auto simp: m_def fifo_taken_def SOC_UART_FIFO_LEN_def)
  have "rx_data_buf ob \<noteq> []" using b by (auto simp: SOC_UART_FIFO_LEN_def)
  then obtain buf where buf: "mem_write (rx_data_buf ob) 0 ?bs = Inr buf" "length buf = length (rx_data_buf ob)" "take m buf = ?bs"
    using m b by (auto simp: mem_write_def SOC_UART_FIFO_LEN_def)
  have st: "rx_stream ob = waiting ?rb" using assms(3) by (simp add: rx_stream_def rx_stash_def)
  define ob1 where "ob1 = ob\<lparr>rx_data_buf := buf, rx_stash_len := of_nat m\<rparr>"
  have ob1: "unat (rx_stash_len ob1) = m" "uint (rx_stash_len ob1) = int m"
    using m by (simp_all add: ob1_def unat_of_nat uint_nat)
  have "ucast (rx_stash_len ob1) = (of_nat (unat (rx_stash_len ob1)) :: u32)" by simp
  then have cast: "ucast (of_nat m :: u8) = (of_nat m :: u32)" unfolding ob1(1) by (simp add: ob1_def)
  have lenbs: "length ?bs = m" using m by simp
  define U1 where "U1 = on_hw n (\<lambda>_. (uart_hw U n)\<lparr>rx_fifo := drop m (rx_fifo (uart_hw U n))\<rparr>) (U\<lparr>pat_flg := False\<rparr>)"
  note run = isr_rx_def read_rxfifo_taken [of ob status "uart_hw U n", folded m_def]
  show ?thesis
  proof (cases fits)
    case True
    let ?ob' = "ob1\<lparr>rx_ring_buf := Some (sent ?bs ?rb), rx_buffered_len := rx_buffered_len ob + int m\<rparr>"
    have room: "length (lent ?rb) + length (waiting ?rb) + m \<le> rb_cap ?rb" using True b st by (simp add: fits_def)
    have sends: "xRingbufferSendFromISR (Some ?rb) (Some buf) (of_nat m) = Inr (pdTRUE, sent ?bs ?rb)"
      using isr_send_fits [of ?rb m buf] b buf m room by (simp add: SOC_UART_FIFO_LEN_def)
    have "isr_rx k l status n U = Inr (\<lparr>event_type = UART_DATA, event_size = of_nat m,
        timeout_flag = has_flag status UART_INTR_RXFIFO_TOUT\<rparr>, of_nat m, put_obj n ?ob' U1, k)"
      using assms(1,3-5) buf sends ring cast lenbs ob1(2) by (simp add: run U1_def ob1_def Let_def pdTRUE_def pdFALSE_def)
    moreover have "rx_ok ?ob'" "rx_stream ?ob' = rx_stream ob @ ?bs" "rx_frame ob ?ob'"
      using sent_state [of ?rb ?bs] b room m lenbs buf ob1 assms(3) st
      by (simp_all add: rx_ok_def rx_base_def rx_ring_def rx_stream_def rx_stash_def rx_frame_def ob1_def SOC_UART_FIFO_LEN_def)
    ultimately show ?thesis using True assms(3) by (simp add: U1_def on_hw_def ob1_def tx_hw_view_def)
  next
    case False
    let ?ob' = "ob1\<lparr>rx_ring_buf := Some ?rb, rx_buffer_full_flg := True\<rparr>"
    let ?U = "on_hw n (uart_hal_disable_intr_mask (UART_INTR_RXFIFO_TOUT OR UART_INTR_RXFIFO_FULL)) U1"
    have room: "\<not> length (lent ?rb) + length (waiting ?rb) + m \<le> rb_cap ?rb" using False b st by (simp add: fits_def)
    have sends: "xRingbufferSendFromISR (Some ?rb) (Some buf) (of_nat m) = Inr (pdFALSE, ?rb)"
      using isr_send_refused [OF _ room] b m by simp
    have "isr_rx k l status n U = Inr (\<lparr>event_type = UART_BUFFER_FULL, event_size = of_nat m,
        timeout_flag = has_flag status UART_INTR_RXFIFO_TOUT\<rparr>, of_nat m, put_obj n ?ob' ?U, k)"
      using assms(1,3-5) buf sends ring cast lenbs ob1(2) by (simp add: run U1_def ob1_def Let_def)
    moreover have "rx_ok ?ob'" "rx_stream ?ob' = rx_stream ob @ ?bs" "rx_frame ob ?ob'"
      using b m lenbs buf ob1 room st
      by (simp_all add: rx_ok_def rx_base_def rx_ring_def rx_stream_def rx_stash_def rx_frame_def ob1_def SOC_UART_FIFO_LEN_def)
    ultimately show ?thesis using False by (simp add: U1_def on_hw_def ob1_def uart_hal_disable_intr_mask_def tx_hw_view_def)
  qed
qed

text \<open>The receive interrupts: bytes are waiting, nothing else is reported first, and no pattern was seen.\<close>

definition rx_interrupt :: "u32 \<Rightarrow> bool" where
  "rx_interrupt status \<longleftrightarrow> \<not> has_flag status UART_INTR_TXFIFO_EMPTY \<and> \<not> has_flag status UART_INTR_CMD_CHAR_DET \<and>
     (has_flag status UART_INTR_RXFIFO_TOUT \<or> has_flag status UART_INTR_RXFIFO_FULL)"

definition rx_event :: "uart_obj_t \<Rightarrow> u32 \<Rightarrow> u8 list \<Rightarrow> uart_event_t" where
  "rx_event ob status fifo =
     (let m = fifo_taken ob status fifo
      in \<lparr>event_type = (if length (rx_stream ob) + m \<le> rb_cap (rx_ring ob) then UART_DATA else UART_BUFFER_FULL),
          event_size = of_nat m, timeout_flag = has_flag status UART_INTR_RXFIFO_TOUT\<rparr>)"

text \<open>What a port needs for receiving: the object with its stream and event queue, and a FIFO that has not overflown.\<close>

definition port_ok :: "nat \<Rightarrow> uart \<Rightarrow> bool" where
  "port_ok n U \<longleftrightarrow> n < UART_NUM_MAX \<and> \<not> pat_flg U \<and> length (rx_fifo (uart_hw U n)) \<le> SOC_UART_FIFO_LEN \<and>
     (case p_uart_obj U n of None \<Rightarrow> False | Some ob \<Rightarrow> rx_ok ob \<and> event_queue_ok ob)"

definition port_obj :: "nat \<Rightarrow> uart \<Rightarrow> uart_obj_t" where
  "port_obj n U = the (p_uart_obj U n)"

lemma port_okE:
  assumes "port_ok n U"
  obtains ob where "p_uart_obj U n = Some ob" "port_obj n U = ob" "rx_ok ob" "event_queue_ok ob" "\<not> pat_flg U" "n < UART_NUM_MAX"
    "length (rx_fifo (uart_hw U n)) \<le> SOC_UART_FIFO_LEN"
  using assms by (auto simp: port_ok_def port_obj_def split: option.splits)

text \<open>Nothing of the transmit side has changed.\<close>

definition tx_quiet :: "nat \<Rightarrow> uart \<Rightarrow> uart \<Rightarrow> bool" where
  "tx_quiet n U U' \<longleftrightarrow> tx_view (port_obj n U') = tx_view (port_obj n U) \<and> tx_hw_view (uart_hw U' n) = tx_hw_view (uart_hw U n)"

lemma tx_quiet_refl [simp]: "tx_quiet n U U"
  by (simp add: tx_quiet_def)

lemma tx_quiet_trans: "tx_quiet n U V \<Longrightarrow> tx_quiet n V W \<Longrightarrow> tx_quiet n U W"
  by (simp add: tx_quiet_def)

lemma has_flag_zero [simp]: "\<not> has_flag 0 m"
  by (simp add: has_flag_def)

lemma handler_once:
  assumes "rx_interrupt status" and "isr_rx k 0 status n U = Inr (ev, l, U1, k)" and "p_uart_obj U1 n = Some ob"
  shows "uart_rx_intr_handler_default k [status] n U =
    bind_res (if event_type ev \<noteq> UART_EVENT_MAX \<and> event_queue ob \<noteq> None then send_event k ev n U1 else Inr (U1, k)) (\<lambda>(U2, k2). Inr (U2, k2))"
proof -
  have "status \<noteq> 0" using assms(1) by (auto simp: rx_interrupt_def)
  then show ?thesis using assms by (auto simp: uart_rx_intr_handler_default_def isr_turn_def rx_interrupt_def)
qed

lemma rx_handler_stores:
  assumes "port_ok n U" and "rx_interrupt status"
  defines "ob \<equiv> port_obj n U" and "fifo \<equiv> rx_fifo (uart_hw U n)"
  shows "\<exists>U'. uart_rx_intr_handler_default k [status] n U = Inr (U', k) \<and> port_ok n U' \<and>
    rx_stream (port_obj n U') @ rx_fifo (uart_hw U' n) = rx_stream ob @ fifo \<and> rx_mux (port_obj n U') = rx_mux ob \<and>
    tx_quiet n U U' \<and> (rx_buffer_full_flg ob \<longrightarrow> events (port_obj n U') = events ob \<and> rx_fifo (uart_hw U' n) = fifo) \<and>
    (\<not> rx_buffer_full_flg ob \<longrightarrow> events (port_obj n U') = events ob @ posted (rx_event ob status fifo) ob \<and>
       rx_fifo (uart_hw U' n) = drop (fifo_taken ob status fifo) fifo \<and>
       rx_buffer_full_flg (port_obj n U') = (event_type (rx_event ob status fifo) = UART_BUFFER_FULL))"
proof (cases "rx_buffer_full_flg ob")
  case True
  from assms(1) obtain o' where o': "p_uart_obj U n = Some o'" "ob = o'" "rx_ok o'" "event_queue_ok o'" "\<not> pat_flg U" "n < UART_NUM_MAX"
    "length fifo \<le> SOC_UART_FIFO_LEN" by (rule port_okE) (auto simp: ob_def fifo_def)
  let ?U = "on_hw n (uart_hal_disable_intr_mask (UART_INTR_RXFIFO_FULL OR UART_INTR_RXFIFO_TOUT)) (U\<lparr>pat_flg := False\<rparr>)"
  have "isr_rx k 0 status n U = Inr (event_of UART_EVENT_MAX, 0, ?U, k)"
    using o' True assms(2) by (simp add: isr_rx_def rx_interrupt_def Let_def)
  from handler_once [OF assms(2) this, of o'] o'
  have "uart_rx_intr_handler_default k [status] n U = Inr (?U, k)" by (simp add: event_of_def)
  then show ?thesis using o' True
    by (simp add: port_ok_def port_obj_def on_hw_def uart_hal_disable_intr_mask_def fifo_def tx_quiet_def tx_hw_view_def)
next
  case False
  from assms(1) obtain o' where o': "p_uart_obj U n = Some o'" "ob = o'" "rx_ok o'" "event_queue_ok o'" "\<not> pat_flg U" "n < UART_NUM_MAX"
    "length fifo \<le> SOC_UART_FIFO_LEN" by (rule port_okE) (auto simp: ob_def fifo_def)
  let ?m = "fifo_taken ob status fifo"
  from isr_rx_stores [OF o'(1,3) _ o'(5), of status k 0] False o'(2,7) assms(2)
  obtain U1 ob1 where i: "isr_rx k 0 status n U = Inr (rx_event ob status fifo, of_nat ?m, U1, k)"
      "p_uart_obj U1 n = Some ob1" "rx_ok ob1" "rx_stream ob1 = rx_stream ob @ take ?m fifo"
      "rx_fifo (uart_hw U1 n) = drop ?m fifo" "rx_frame ob ob1"
      "rx_buffer_full_flg ob1 = (\<not> length (rx_stream ob) + ?m \<le> rb_cap (rx_ring ob))" "\<not> pat_flg U1"
      "tx_hw_view (uart_hw U1 n) = tx_hw_view (uart_hw U n)"
    by (auto simp: rx_interrupt_def rx_event_def fifo_def Let_def)
  have eq: "event_queue_ok ob1" "events ob1 = events ob" "posted ev ob1 = posted ev ob" "rx_mux ob1 = rx_mux ob" "tx_view ob1 = tx_view ob" for ev
    using i(6) o'(2,4) by (simp_all add: rx_frame_def event_queue_ok_def events_def posted_def)
  from send_event_posts [OF i(2) eq(1), of k "rx_event ob status fifo"] obtain q where
    q: "send_event k (rx_event ob status fifo) n U1 = Inr (put_obj n (ob1\<lparr>event_queue := Some q\<rparr>) U1, k)"
      "event_queue_ok (ob1\<lparr>event_queue := Some q\<rparr>)"
      "events (ob1\<lparr>event_queue := Some q\<rparr>) = events ob @ posted (rx_event ob status fifo) ob" by (auto simp: eq)
  have "uart_rx_intr_handler_default k [status] n U = Inr (put_obj n (ob1\<lparr>event_queue := Some q\<rparr>) U1, k)"
    using handler_once [OF assms(2) i(1,2)] q(1) eq(1) by (auto simp: rx_event_def Let_def event_queue_ok_def)
  then show ?thesis using i(3-5,7-9) q(2,3) eq(4,5) False o'(1,2,6,7)
    by (simp add: port_ok_def port_obj_def rx_event_def tx_quiet_def Let_def)
qed

section \<open>Reading and flushing a port\<close>

lemma rx_mux_irrelevant [simp]:
  "rx_ok (ob\<lparr>rx_mux := h\<rparr>) = rx_ok ob" "rx_base (ob\<lparr>rx_mux := h\<rparr>) = rx_base ob"
  "rx_stream (ob\<lparr>rx_mux := h\<rparr>) = rx_stream ob" "rx_ring (ob\<lparr>rx_mux := h\<rparr>) = rx_ring ob"
  "event_queue_ok (ob\<lparr>rx_mux := h\<rparr>) = event_queue_ok ob" "events (ob\<lparr>rx_mux := h\<rparr>) = events ob"
  by (simp_all add: rx_ok_def rx_base_def rx_ring_def rx_stream_def rx_stash_def event_queue_ok_def events_def)

lemma read_bytes_front:
  assumes "port_ok n U" and "mutex_ready k (rx_mux (port_obj n U))"
    and "unat len \<le> length (rx_stream (port_obj n U)) \<or> ticks = 0"
  shows "\<exists>U'. uart_read_bytes em e n len ticks k U =
      Inr (int (min (unat len) (length (rx_stream (port_obj n U)))), take (unat len) (rx_stream (port_obj n U)), U', k) \<and>
    port_ok n U' \<and> rx_stream (port_obj n U') = drop (unat len) (rx_stream (port_obj n U)) \<and>
    rx_fifo (uart_hw U' n) = rx_fifo (uart_hw U n) \<and> rx_mux (port_obj n U') = rx_mux (port_obj n U) \<and>
    events (port_obj n U') = events (port_obj n U) \<and> tx_quiet n U U'"
proof -
  from assms(1) obtain ob where ob: "p_uart_obj U n = Some ob" "port_obj n U = ob" "rx_ok ob" "event_queue_ok ob" "\<not> pat_flg U"
    "n < UART_NUM_MAX" "length (rx_fifo (uart_hw U n)) \<le> SOC_UART_FIFO_LEN" by (rule port_okE)
  from mutex_section [of k "rx_mux ob" em ticks] assms(2) ob(2) obtain h' k' where
    m: "xSemaphoreTake em k (rx_mux ob) ticks = Inr (pdTRUE, h', k')" "xSemaphoreGive k' h' = Inr (pdPASS, rx_mux ob, k)" by auto
  let ?ob = "ob\<lparr>rx_mux := h'\<rparr>"
  have "p_uart_obj (put_obj n ?ob U) n = Some ?ob" by simp
  from read_loop_front [OF ob(6) this, of len "2 * (unat len + length e) + 2" ticks e k'] ob(2,3) assms(3)
  obtain U1 ob1 where r:
    "read_loop (2 * (unat len + length e) + 2) e len ticks k' n (put_obj n ?ob U) = Inr (take (unat len) (rx_stream ob), U1, k')"
    "p_uart_obj U1 n = Some ob1" "rx_ok ob1" "rx_stream ob1 = drop (unat len) (rx_stream ob)" "rx_frame ?ob ob1"
    "rx_fifo (uart_hw U1 n) = rx_fifo (uart_hw U n)" "pat_flg U1 = pat_flg U" "tx_hw_view (uart_hw U1 n) = tx_hw_view (uart_hw U n)"
    by auto
  let ?ob1 = "ob1\<lparr>rx_mux := rx_mux ob\<rparr>"
  have mux: "rx_mux ob1 = h'" using r(5) by (simp add: rx_frame_def)
  have ev: "event_queue_ok ob1" "events ob1 = events ob" "tx_view ob1 = tx_view ob"
    using r(5) ob(4) by (simp_all add: rx_frame_def event_queue_ok_def events_def)
  have "uart_read_bytes em e n len ticks k U =
    Inr (int (length (take (unat len) (rx_stream ob))), take (unat len) (rx_stream ob), put_obj n ?ob1 U1, k)"
    using ob(1,6) m r(1,2) mux by (simp add: uart_read_bytes_def Let_def)
  then show ?thesis using ob r(3,4,6-8) ev by (simp add: port_ok_def port_obj_def tx_quiet_def min.commute)
qed

text \<open>A flush takes at least one byte per turn, and drops a stash that never fitted.\<close>

lemma flush_loop_empties:
  assumes "p_uart_obj U n = Some ob" and "rx_base ob" and "length (rx_stream ob) < f"
  shows "\<exists>ob'. flush_loop f k n U = Inr (put_obj n ob' U, k) \<and> rx_ok ob' \<and> rx_stream ob' = [] \<and> rx_buffered_len ob' = 0 \<and>
    rx_frame ob ob'"
  using assms
proof (induction f arbitrary: U ob)
  case 0
  then show ?case by simp
next
  case (Suc f)
  show ?case
  proof (cases "waiting (rx_ring ob) = []")
    case True
    let ?ob = "ob\<lparr>rx_buffered_len := 0, rx_buffer_full_flg := False\<rparr>"
    have "flush_loop (Suc f) k n U = Inr (put_obj n ?ob U, k)"
      using Suc.prems(1) rx_nothing [OF Suc.prems(1,2) True, of "[]" 0 None k] by (simp add: flush_loop.simps)
    moreover have "rx_ok ?ob" "rx_stream ?ob = []" "rx_frame ob ?ob"
      using Suc.prems(2) True by (simp_all add: rx_ok_def rx_base_def rx_ring_def rx_stream_def rx_stash_def rx_frame_def)
    ultimately show ?thesis by auto
  next
    case False
    from rx_take [OF Suc.prems(1,2) False, of "[]" 0 0 None k] obtain it bs ob1 ob2 where
      it: "rx_receive [] 0 0 None k n U = Inr (Some it, [], put_obj n ob1 U, k)" "bs \<noteq> []"
        "rx_taken it n (put_obj n ob1 U) = Inr (put_obj n ob2 U)" "rx_base ob2" "waiting (rx_ring ob) = bs @ waiting (rx_ring ob2)"
        "rx_stash ob2 = rx_stash ob" "rx_frame ob ob2" by auto
    have "length (rx_stream ob2) < length (rx_stream ob)" using it(2,5,6) by (simp add: rx_stream_def)
    with Suc.prems(3) have less: "length (rx_stream ob2) < f" by simp
    obtain ob3 where o3: "flush_loop (Suc f) k n U = flush_loop f k n (put_obj n ob3 U)" "rx_base ob3"
        "length (rx_stream ob3) < f" "rx_frame ob ob3"
    proof (cases "rx_buffer_full_flg ob2")
      case True
      have "flush_loop (Suc f) k n U = flush_loop f k n (put_obj n (stash_moved ob2) U)"
        using it(1,3) True stash_send [OF it(4), of k] put_ring_same [OF it(4)]
        by (simp add: flush_loop.simps stash_moved_def basetype_defs)
      moreover have "rx_base (stash_moved ob2)" using stash_moved_ok(1) [OF it(4) True] by (simp add: rx_ok_def)
      ultimately show thesis
        using stash_moved_ok(2,3) [OF it(4) True] less rx_frame_trans [OF it(7)] that by simp
    next
      case False
      show thesis
        by (rule that [of ob2]) (use it False less in \<open>simp_all add: flush_loop.simps\<close>)
    qed
    have "p_uart_obj (put_obj n ob3 U) n = Some ob3" by simp
    from Suc.IH [OF this o3(2,3)] o3(1,4) show ?thesis by (auto intro: rx_frame_trans)
  qed
qed

lemma flush_input_empties:
  assumes "port_ok n U" and "mutex_ready k (rx_mux (port_obj n U))"
  shows "\<exists>U'. uart_flush_input em n k U = Inr (ESP_OK, U', k) \<and> port_ok n U' \<and> rx_stream (port_obj n U') = [] \<and>
    rx_fifo (uart_hw U' n) = [] \<and> uart_get_buffered_data_len n U' = (ESP_OK, Some 0) \<and>
    rx_mux (port_obj n U') = rx_mux (port_obj n U) \<and> events (port_obj n U') = events (port_obj n U) \<and> tx_quiet n U U' \<and>
    uart_int_ena (uart_hw U' n) = (uart_int_ena (uart_hw U n) AND NOT (UART_INTR_RXFIFO_FULL OR UART_INTR_RXFIFO_TOUT)) OR
      (rx_int_usr_mask (port_obj n U) AND (UART_INTR_RXFIFO_TOUT OR UART_INTR_RXFIFO_FULL))"
proof -
  from assms(1) obtain ob where ob: "p_uart_obj U n = Some ob" "port_obj n U = ob" "rx_ok ob" "event_queue_ok ob" "\<not> pat_flg U"
    "n < UART_NUM_MAX" "length (rx_fifo (uart_hw U n)) \<le> SOC_UART_FIFO_LEN" by (rule port_okE)
  from mutex_section [of k "rx_mux ob" em portMAX_DELAY] assms(2) ob(2) obtain h' k' where
    m: "xSemaphoreTake em k (rx_mux ob) portMAX_DELAY = Inr (pdTRUE, h', k')" "xSemaphoreGive k' h' = Inr (pdPASS, rx_mux ob, k)" by auto
  let ?ob = "ob\<lparr>rx_mux := h'\<rparr>"
  let ?U = "on_hw n (uart_hal_disable_intr_mask (UART_INTR_RXFIFO_FULL OR UART_INTR_RXFIFO_TOUT)) (put_obj n ?ob U)"
  have base: "rx_base ob" using ob(3) by (simp add: rx_ok_def)
  have "length (waiting (rx_ring ob)) = unat (xItemsWaiting (rx_ring ob))" by (simp add: waiting_def waiting_count_def)
  moreover have "length (rx_stash ob) \<le> unat (rx_stash_len ob)" by (simp add: rx_stash_def)
  moreover have "unat (rx_stash_len ob) < 256" using unsigned_less [of "rx_stash_len ob", where 'a = nat] by simp
  ultimately have "length (rx_stream ob) < flush_bound ob"
    using rx_base_ring [OF base] by (simp add: rx_stream_def flush_bound_def)
  moreover have "p_uart_obj ?U n = Some ?ob" by simp
  ultimately obtain ob1 where f: "flush_loop (flush_bound ob) k' n ?U = Inr (put_obj n ob1 ?U, k')" "rx_ok ob1"
      "rx_stream ob1 = []" "rx_buffered_len ob1 = 0" "rx_frame ?ob ob1"
    using flush_loop_empties [of ?U n ?ob "flush_bound ob" k'] base by auto
  have ev: "event_queue_ok ob1" "events ob1 = events ob" "rx_mux ob1 = h'" "rx_int_usr_mask ob1 = rx_int_usr_mask ob" "tx_view ob1 = tx_view ob"
    using f(5) ob(4) by (simp_all add: rx_frame_def event_queue_ok_def events_def)
  let ?U' = "on_hw n (uart_hal_ena_intr_mask (rx_int_usr_mask ob AND (UART_INTR_RXFIFO_TOUT OR UART_INTR_RXFIFO_FULL)))
    (on_hw n uart_hal_rxfifo_rst (put_obj n ob1 ?U))"
  have "uart_flush_input em n k U = Inr (ESP_OK, put_obj n (ob1\<lparr>rx_mux := rx_mux ob\<rparr>) ?U', k)"
    using ob(1,6) m f(1) ev by (simp add: uart_flush_input_def uart_reenable_intr_mask_def Let_def)
  then show ?thesis using ob f(2-4) ev
    by (simp add: port_ok_def port_obj_def uart_get_buffered_data_len_def on_hw_def uart_hal_rxfifo_rst_def
        uart_hal_ena_intr_mask_def uart_hal_disable_intr_mask_def tx_quiet_def tx_hw_view_def)
qed

end
