(* ===== verification/UartConfig.thy ===== *)
theory UartConfig
  imports Uart Gpio
begin

text \<open>
  The configuration of a UART: the low-level register functions of the ESP32-S3
  (\<^verbatim>\<open>hal/esp32s3/include/hal/uart_ll.h\<close>, \<^verbatim>\<open>hal/uart_hal.c\<close>) and the functions of
  \<^verbatim>\<open>esp_driver_uart/src/uart.c\<close> that set or read one parameter of a port.

  The frequency of a clock source comes from the clock tree of the SDK: it is the argument
  \<^verbatim>\<open>clk\<close> of the functions that ask for it, with an error for a source that is refused.
\<close>

section \<open>Clock and baud rate\<close>

datatype uart_sclk = UART_SCLK_APB | UART_SCLK_RTC | UART_SCLK_XTAL

definition uart_ll_set_sclk :: "uart_sclk \<Rightarrow> uart_dev \<Rightarrow> uart_dev" where
  "uart_ll_set_sclk src hw =
     hw\<lparr>sclk_sel := (case src of UART_SCLK_APB \<Rightarrow> 1 | UART_SCLK_RTC \<Rightarrow> 2 | UART_SCLK_XTAL \<Rightarrow> 3)\<rparr>"

definition uart_ll_get_sclk :: "uart_dev \<Rightarrow> uart_sclk" where
  "uart_ll_get_sclk hw =
     (if sclk_sel hw = 2 then UART_SCLK_RTC else if sclk_sel hw = 3 then UART_SCLK_XTAL else UART_SCLK_APB)"

text \<open>A divider of zero stops in \<^verbatim>\<open>abort\<close>.\<close>

definition uart_ll_set_baudrate :: "u32 \<Rightarrow> u32 \<Rightarrow> uart_dev \<Rightarrow> uart_dev res" where
  "uart_ll_set_baudrate baud sclk_freq hw =
     (let b = 4095 * ucast baud :: u64 in
      if b = 0 then Inl Div_by_zero
      else let sclk_div = ucast ((ucast sclk_freq + b - 1) div b) :: u32 in
           assert_res (sclk_div \<noteq> 0)
           (if baud * sclk_div = 0 then Inl Div_by_zero
            else let clk_div = push_bit 4 sclk_freq div (baud * sclk_div)
                 in Inr (hw\<lparr>clkdiv := ucast (drop_bit 4 clk_div), clkdiv_frag := ucast (clk_div AND 0xf),
                            sclk_div_num := ucast (sclk_div - 1)\<rparr>)))"

definition clk_divider :: "uart_dev \<Rightarrow> u32" where
  "clk_divider hw = push_bit 4 (ucast (clkdiv hw)) OR ucast (clkdiv_frag hw)"

definition uart_ll_get_baudrate :: "u32 \<Rightarrow> uart_dev \<Rightarrow> u32 res" where
  "uart_ll_get_baudrate sclk_freq hw =
     (let d = clk_divider hw * (ucast (sclk_div_num hw) + 1)
      in if d = 0 then Inl Div_by_zero else Inr (push_bit 4 sclk_freq div d))"

definition uart_set_baudrate :: "(uart_sclk \<Rightarrow> esp_err + u32) \<Rightarrow> nat \<Rightarrow> u32 \<Rightarrow> uart \<Rightarrow> (esp_err \<times> uart) res" where
  "uart_set_baudrate clk n baud_rate U =
     (if \<not> n < UART_NUM_MAX then Inr (ESP_FAIL, U)
      else case clk (uart_ll_get_sclk (uart_hw U n)) of
             Inl err \<Rightarrow> Inr (err, U)
           | Inr sclk_freq \<Rightarrow>
               bind_res (uart_ll_set_baudrate baud_rate sclk_freq (uart_hw U n)) (\<lambda>hw.
               Inr (ESP_OK, on_hw n (\<lambda>_. hw) U)))"

definition uart_get_baudrate :: "(uart_sclk \<Rightarrow> esp_err + u32) \<Rightarrow> nat \<Rightarrow> uart \<Rightarrow> (esp_err \<times> u32 option) res" where
  "uart_get_baudrate clk n U =
     (if \<not> n < UART_NUM_MAX then Inr (ESP_FAIL, None)
      else case clk (uart_ll_get_sclk (uart_hw U n)) of
             Inl err \<Rightarrow> Inr (err, None)
           | Inr sclk_freq \<Rightarrow> bind_res (uart_ll_get_baudrate sclk_freq (uart_hw U n)) (\<lambda>b. Inr (ESP_OK, Some b)))"

section \<open>Format of a character\<close>

definition UART_DATA_BITS_MAX :: u32 where "UART_DATA_BITS_MAX = 4"
definition UART_DATA_8_BITS :: u32 where "UART_DATA_8_BITS = 3"
definition UART_STOP_BITS_1 :: u32 where "UART_STOP_BITS_1 = 1"
definition UART_STOP_BITS_MAX :: u32 where "UART_STOP_BITS_MAX = 4"
definition UART_PARITY_DISABLE :: u32 where "UART_PARITY_DISABLE = 0"
definition UART_HW_FLOWCTRL_DISABLE :: u32 where "UART_HW_FLOWCTRL_DISABLE = 0"
definition UART_HW_FLOWCTRL_RTS :: u32 where "UART_HW_FLOWCTRL_RTS = 1"
definition UART_HW_FLOWCTRL_CTS :: u32 where "UART_HW_FLOWCTRL_CTS = 2"
definition UART_HW_FLOWCTRL_MAX :: u32 where "UART_HW_FLOWCTRL_MAX = 4"

lemmas uart_consts = UART_DATA_BITS_MAX_def UART_DATA_8_BITS_def UART_STOP_BITS_1_def UART_STOP_BITS_MAX_def
  UART_PARITY_DISABLE_def UART_HW_FLOWCTRL_DISABLE_def UART_HW_FLOWCTRL_RTS_def UART_HW_FLOWCTRL_CTS_def
  UART_HW_FLOWCTRL_MAX_def

definition uart_ll_set_data_bit_num :: "u32 \<Rightarrow> uart_dev \<Rightarrow> uart_dev" where
  "uart_ll_set_data_bit_num data_bit hw = hw\<lparr>bit_num := ucast data_bit\<rparr>"

definition uart_ll_get_data_bit_num :: "uart_dev \<Rightarrow> u32" where
  "uart_ll_get_data_bit_num hw = ucast (bit_num hw)"

definition uart_ll_set_stop_bits :: "u32 \<Rightarrow> uart_dev \<Rightarrow> uart_dev" where
  "uart_ll_set_stop_bits stop_bit hw = hw\<lparr>stop_bit_num := ucast stop_bit\<rparr>"

definition uart_ll_get_stop_bits :: "uart_dev \<Rightarrow> u32" where
  "uart_ll_get_stop_bits hw = ucast (stop_bit_num hw)"

definition uart_ll_set_parity :: "u32 \<Rightarrow> uart_dev \<Rightarrow> uart_dev" where
  "uart_ll_set_parity parity_mode hw =
     (let hw1 = (if parity_mode \<noteq> UART_PARITY_DISABLE then hw\<lparr>parity_odd := bit parity_mode 0\<rparr> else hw)
      in hw1\<lparr>parity_en := bit parity_mode 1\<rparr>)"

definition uart_ll_get_parity :: "uart_dev \<Rightarrow> u32" where
  "uart_ll_get_parity hw =
     (if parity_en hw then 2 OR (if parity_odd hw then 1 else 0) else UART_PARITY_DISABLE)"

definition uart_set_word_length :: "nat \<Rightarrow> u32 \<Rightarrow> uart \<Rightarrow> esp_err \<times> uart" where
  "uart_set_word_length n data_bit U =
     (if \<not> n < UART_NUM_MAX then (ESP_FAIL, U)
      else if \<not> data_bit < UART_DATA_BITS_MAX then (ESP_FAIL, U)
      else (ESP_OK, on_hw n (uart_ll_set_data_bit_num data_bit) U))"

definition uart_get_word_length :: "nat \<Rightarrow> uart \<Rightarrow> esp_err \<times> u32 option" where
  "uart_get_word_length n U =
     (if \<not> n < UART_NUM_MAX then (ESP_FAIL, None) else (ESP_OK, Some (uart_ll_get_data_bit_num (uart_hw U n))))"

definition uart_set_stop_bits :: "nat \<Rightarrow> u32 \<Rightarrow> uart \<Rightarrow> esp_err \<times> uart" where
  "uart_set_stop_bits n stop_bit U =
     (if \<not> n < UART_NUM_MAX then (ESP_FAIL, U)
      else if \<not> stop_bit < UART_STOP_BITS_MAX then (ESP_FAIL, U)
      else (ESP_OK, on_hw n (uart_ll_set_stop_bits stop_bit) U))"

definition uart_get_stop_bits :: "nat \<Rightarrow> uart \<Rightarrow> esp_err \<times> u32 option" where
  "uart_get_stop_bits n U =
     (if \<not> n < UART_NUM_MAX then (ESP_FAIL, None) else (ESP_OK, Some (uart_ll_get_stop_bits (uart_hw U n))))"

definition uart_set_parity :: "nat \<Rightarrow> u32 \<Rightarrow> uart \<Rightarrow> esp_err \<times> uart" where
  "uart_set_parity n parity_mode U =
     (if \<not> n < UART_NUM_MAX then (ESP_FAIL, U) else (ESP_OK, on_hw n (uart_ll_set_parity parity_mode) U))"

definition uart_get_parity :: "nat \<Rightarrow> uart \<Rightarrow> esp_err \<times> u32 option" where
  "uart_get_parity n U =
     (if \<not> n < UART_NUM_MAX then (ESP_FAIL, None) else (ESP_OK, Some (uart_ll_get_parity (uart_hw U n))))"

section \<open>Flow control\<close>

definition uart_ll_set_hw_flow_ctrl :: "u32 \<Rightarrow> u32 \<Rightarrow> uart_dev \<Rightarrow> uart_dev" where
  "uart_ll_set_hw_flow_ctrl flow_ctrl rx_thrs hw =
     (let hw1 = (if has_flag flow_ctrl UART_HW_FLOWCTRL_RTS
                 then hw\<lparr>rx_flow_thrhd := ucast rx_thrs, rx_flow_en := True\<rparr> else hw\<lparr>rx_flow_en := False\<rparr>)
      in hw1\<lparr>tx_flow_en := has_flag flow_ctrl UART_HW_FLOWCTRL_CTS\<rparr>)"

definition uart_ll_get_hw_flow_ctrl :: "uart_dev \<Rightarrow> u32" where
  "uart_ll_get_hw_flow_ctrl hw =
     (let f = (if rx_flow_en hw then UART_HW_FLOWCTRL_DISABLE OR UART_HW_FLOWCTRL_RTS else UART_HW_FLOWCTRL_DISABLE)
      in if tx_flow_en hw then f OR UART_HW_FLOWCTRL_CTS else f)"

definition uart_set_hw_flow_ctrl :: "nat \<Rightarrow> u32 \<Rightarrow> u8 \<Rightarrow> uart \<Rightarrow> esp_err \<times> uart" where
  "uart_set_hw_flow_ctrl n flow_ctrl rx_thresh U =
     (if \<not> n < UART_NUM_MAX then (ESP_FAIL, U)
      else if \<not> unat rx_thresh < SOC_UART_FIFO_LEN then (ESP_FAIL, U)
      else if \<not> flow_ctrl < UART_HW_FLOWCTRL_MAX then (ESP_FAIL, U)
      else (ESP_OK, on_hw n (uart_ll_set_hw_flow_ctrl flow_ctrl (ucast rx_thresh)) U))"

definition uart_get_hw_flow_ctrl :: "nat \<Rightarrow> uart \<Rightarrow> esp_err \<times> u32 option" where
  "uart_get_hw_flow_ctrl n U =
     (if \<not> n < UART_NUM_MAX then (ESP_FAIL, None) else (ESP_OK, Some (uart_ll_get_hw_flow_ctrl (uart_hw U n))))"

definition uart_ll_set_sw_flow_ctrl :: "u8 \<Rightarrow> u8 \<Rightarrow> u8 \<Rightarrow> u8 \<Rightarrow> bool \<Rightarrow> uart_dev \<Rightarrow> uart_dev" where
  "uart_ll_set_sw_flow_ctrl xon_char xoff_char xon_thrd xoff_thrd sw_flow_ctrl_en hw =
     (if sw_flow_ctrl_en
      then hw\<lparr>xonoff_del := True, sw_flow_con_en := True, xon_threshold := ucast xon_thrd,
              xoff_threshold := ucast xoff_thrd, xon_character := xon_char, xoff_character := xoff_char\<rparr>
      else hw\<lparr>sw_flow_con_en := False, xonoff_del := False\<rparr>)"

definition uart_set_sw_flow_ctrl :: "nat \<Rightarrow> bool \<Rightarrow> u8 \<Rightarrow> u8 \<Rightarrow> uart \<Rightarrow> esp_err \<times> uart" where
  "uart_set_sw_flow_ctrl n enable rx_thresh_xon rx_thresh_xoff U =
     (if \<not> n < UART_NUM_MAX then (ESP_FAIL, U)
      else if \<not> unat rx_thresh_xon < SOC_UART_FIFO_LEN then (ESP_FAIL, U)
      else if \<not> unat rx_thresh_xoff < SOC_UART_FIFO_LEN then (ESP_FAIL, U)
      else (ESP_OK, on_hw n (uart_ll_set_sw_flow_ctrl 0x11 0x13 rx_thresh_xon rx_thresh_xoff enable) U))"

section \<open>Lines and modes\<close>

definition uart_set_line_inverse :: "nat \<Rightarrow> u32 \<Rightarrow> uart \<Rightarrow> esp_err \<times> uart" where
  "uart_set_line_inverse n inverse_mask U =
     (if \<not> n < UART_NUM_MAX then (ESP_FAIL, U)
      else (ESP_OK, on_hw n (\<lambda>hw. hw\<lparr>line_inv := ucast inverse_mask\<rparr>) U))"

definition uart_set_rts :: "nat \<Rightarrow> int \<Rightarrow> uart \<Rightarrow> esp_err \<times> uart" where
  "uart_set_rts n level U =
     (if \<not> n < UART_NUM_MAX then (ESP_FAIL, U)
      else if rx_flow_en (uart_hw U n) then (ESP_FAIL, U)
      else (ESP_OK, on_hw n (\<lambda>hw. hw\<lparr>sw_rts := odd level\<rparr>) U))"

definition uart_set_dtr :: "nat \<Rightarrow> int \<Rightarrow> uart \<Rightarrow> esp_err \<times> uart" where
  "uart_set_dtr n level U =
     (if \<not> n < UART_NUM_MAX then (ESP_FAIL, U) else (ESP_OK, on_hw n (\<lambda>hw. hw\<lparr>sw_dtr := odd level\<rparr>) U))"

definition uart_set_tx_idle_num :: "nat \<Rightarrow> u16 \<Rightarrow> uart \<Rightarrow> esp_err \<times> uart" where
  "uart_set_tx_idle_num n idle_num U =
     (if \<not> n < UART_NUM_MAX then (ESP_FAIL, U)
      else if \<not> idle_num \<le> 0x3FF then (ESP_FAIL, U)
      else (ESP_OK, on_hw n (\<lambda>hw. hw\<lparr>tx_idle_num := ucast idle_num\<rparr>) U))"

definition uart_set_loop_back :: "nat \<Rightarrow> bool \<Rightarrow> uart \<Rightarrow> esp_err \<times> uart" where
  "uart_set_loop_back n loop_back_en U =
     (if \<not> n < UART_NUM_MAX then (ESP_ERR_INVALID_ARG, U)
      else (ESP_OK, on_hw n (\<lambda>hw. hw\<lparr>loopback := loop_back_en\<rparr>) U))"

fun uart_ll_set_mode :: "uart_mode_t \<Rightarrow> uart_dev \<Rightarrow> uart_dev" where
  "uart_ll_set_mode UART_MODE_UART hw =
     hw\<lparr>rs485_en := False, rs485tx_rx_en := False, rs485rxby_tx_en := False, irda_en := False\<rparr>"
| "uart_ll_set_mode UART_MODE_RS485_COLLISION_DETECT hw =
     hw\<lparr>irda_en := False, rs485tx_rx_en := True, rs485rxby_tx_en := True, sw_rts := False, rs485_en := True\<rparr>"
| "uart_ll_set_mode UART_MODE_RS485_APP_CTRL hw =
     hw\<lparr>rs485rxby_tx_en := True, irda_en := False, sw_rts := False, rs485_en := True\<rparr>"
| "uart_ll_set_mode UART_MODE_RS485_HALF_DUPLEX hw =
     hw\<lparr>sw_rts := True, rs485tx_rx_en := False, rs485rxby_tx_en := True, irda_en := False, rs485_en := True\<rparr>"
| "uart_ll_set_mode UART_MODE_IRDA hw =
     hw\<lparr>rs485_en := False, rs485tx_rx_en := False, rs485rxby_tx_en := False, sw_rts := False, irda_en := True\<rparr>"

definition is_rs485 :: "uart_mode_t \<Rightarrow> bool" where
  "is_rs485 mode \<longleftrightarrow> mode = UART_MODE_RS485_COLLISION_DETECT \<or> mode = UART_MODE_RS485_APP_CTRL \<or>
     mode = UART_MODE_RS485_HALF_DUPLEX"

definition uart_set_mode :: "nat \<Rightarrow> uart_mode_t \<Rightarrow> uart \<Rightarrow> esp_err \<times> uart" where
  "uart_set_mode n mode U =
     (if \<not> n < UART_NUM_MAX then (ESP_ERR_INVALID_ARG, U)
      else case p_uart_obj U n of
             None \<Rightarrow> (ESP_ERR_INVALID_STATE, U)
           | Some ob \<Rightarrow>
               if is_rs485 mode \<and> rx_flow_en (uart_hw U n) then (ESP_ERR_INVALID_ARG, U)
               else let U1 = on_hw n (uart_ll_set_mode mode) U;
                        (ob2, U2) =
                          (if mode = UART_MODE_RS485_COLLISION_DETECT
                           then (ob\<lparr>coll_det_flg := False\<rparr>,
                                 on_hw n (uart_hal_ena_intr_mask (UART_INTR_RXFIFO_TOUT OR UART_INTR_RXFIFO_FULL OR
                                   UART_INTR_RS485_CLASH OR UART_INTR_RS485_FRM_ERR OR UART_INTR_RS485_PARITY_ERR)) U1)
                           else (ob, U1))
                    in (ESP_OK, put_obj n (ob2\<lparr>uart_mode := mode\<rparr>) U2))"

definition uart_get_collision_flag :: "nat \<Rightarrow> uart \<Rightarrow> esp_err \<times> bool option" where
  "uart_get_collision_flag n U =
     (if \<not> n < UART_NUM_MAX then (ESP_ERR_INVALID_ARG, None)
      else case p_uart_obj U n of
             None \<Rightarrow> (ESP_FAIL, None)
           | Some ob \<Rightarrow>
               if uart_mode ob = UART_MODE_RS485_HALF_DUPLEX \<or> uart_mode ob = UART_MODE_RS485_COLLISION_DETECT
               then (ESP_OK, Some (coll_det_flg ob)) else (ESP_ERR_INVALID_ARG, None))"

section \<open>Thresholds and timeouts\<close>

text \<open>The number of bits of a character, with its start bit.\<close>

definition uart_hal_get_symb_len :: "uart_dev \<Rightarrow> u8" where
  "uart_hal_get_symb_len hw =
     1 + (if uart_ll_get_data_bit_num hw < UART_DATA_BITS_MAX then ucast (uart_ll_get_data_bit_num hw) + 5 else 8)
       + (if UART_STOP_BITS_1 < uart_ll_get_stop_bits hw then 2 else 1)
       + (if UART_PARITY_DISABLE < uart_ll_get_parity hw then 1 else 0)"

definition uart_ll_set_rx_tout :: "u16 \<Rightarrow> uart_dev \<Rightarrow> uart_dev" where
  "uart_ll_set_rx_tout tout_thrd hw =
     (if 0 < tout_thrd then hw\<lparr>rx_tout_thrhd := ucast tout_thrd, rx_tout_en := True\<rparr> else hw\<lparr>rx_tout_en := False\<rparr>)"

definition uart_ll_get_rx_tout_thr :: "uart_dev \<Rightarrow> u16" where
  "uart_ll_get_rx_tout_thr hw = (if rx_tout_en hw then ucast (rx_tout_thrhd hw) else 0)"

definition uart_hal_set_rx_timeout :: "u8 \<Rightarrow> uart_dev \<Rightarrow> uart_dev" where
  "uart_hal_set_rx_timeout tout hw = uart_ll_set_rx_tout (ucast (uart_hal_get_symb_len hw) * ucast tout) hw"

definition uart_hal_get_max_rx_timeout_thrd :: "uart_dev \<Rightarrow> u16" where
  "uart_hal_get_max_rx_timeout_thrd hw = 0x3FF div ucast (uart_hal_get_symb_len hw)"

definition uart_set_rx_timeout :: "nat \<Rightarrow> u8 \<Rightarrow> uart \<Rightarrow> esp_err \<times> uart" where
  "uart_set_rx_timeout n tout_thresh U =
     (if \<not> n < UART_NUM_MAX then (ESP_ERR_INVALID_ARG, U)
      else if uart_hal_get_max_rx_timeout_thrd (uart_hw U n) < ucast tout_thresh then (ESP_ERR_INVALID_ARG, U)
      else (ESP_OK, on_hw n (uart_hal_set_rx_timeout tout_thresh) U))"

definition uart_set_rx_full_threshold :: "nat \<Rightarrow> int \<Rightarrow> uart \<Rightarrow> esp_err \<times> uart" where
  "uart_set_rx_full_threshold n threshold U =
     (if \<not> n < UART_NUM_MAX then (ESP_ERR_INVALID_ARG, U)
      else if \<not> (threshold < 0x3FF \<and> 0 < threshold) then (ESP_ERR_INVALID_ARG, U)
      else if p_uart_obj U n = None then (ESP_ERR_INVALID_STATE, U)
      else (ESP_OK, if has_flag (uart_int_ena (uart_hw U n)) UART_INTR_RXFIFO_FULL
                    then on_hw n (\<lambda>hw. hw\<lparr>rxfifo_full_thrhd := word_of_int threshold\<rparr>) U else U))"

definition uart_set_tx_empty_threshold :: "nat \<Rightarrow> int \<Rightarrow> uart \<Rightarrow> esp_err \<times> uart" where
  "uart_set_tx_empty_threshold n threshold U =
     (if \<not> n < UART_NUM_MAX then (ESP_ERR_INVALID_ARG, U)
      else if \<not> (threshold < 0x3FF \<and> 0 < threshold) then (ESP_ERR_INVALID_ARG, U)
      else if p_uart_obj U n = None then (ESP_ERR_INVALID_STATE, U)
      else (ESP_OK, if has_flag (uart_int_ena (uart_hw U n)) UART_INTR_TXFIFO_EMPTY
                    then on_hw n (\<lambda>hw. hw\<lparr>txfifo_empty_thrhd := word_of_int threshold\<rparr>) U else U))"

definition uart_set_wakeup_threshold :: "nat \<Rightarrow> int \<Rightarrow> uart \<Rightarrow> esp_err \<times> uart" where
  "uart_set_wakeup_threshold n wakeup_threshold U =
     (if \<not> n < UART_NUM_MAX then (ESP_ERR_INVALID_ARG, U)
      else if \<not> (wakeup_threshold \<le> 0x3FF \<and> 3 \<le> wakeup_threshold) then (ESP_ERR_INVALID_ARG, U)
      else (ESP_OK, on_hw n (\<lambda>hw. hw\<lparr>active_threshold := word_of_int (wakeup_threshold - 3)\<rparr>) U))"

definition uart_get_wakeup_threshold :: "nat \<Rightarrow> uart \<Rightarrow> esp_err \<times> int option" where
  "uart_get_wakeup_threshold n U =
     (if \<not> n < UART_NUM_MAX then (ESP_ERR_INVALID_ARG, None)
      else (ESP_OK, Some (uint (active_threshold (uart_hw U n)) + 3)))"

definition uart_set_always_rx_timeout :: "nat \<Rightarrow> bool \<Rightarrow> uart \<Rightarrow> uart res" where
  "uart_set_always_rx_timeout n always_rx_timeout U =
     bind_res (deref (p_uart_obj U n)) (\<lambda>ob.
     Inr (put_obj n (ob\<lparr>rx_always_timeout_flg :=
       (if uart_ll_get_rx_tout_thr (uart_hw U n) \<noteq> 0 then always_rx_timeout else False)\<rparr>) U))"

definition uart_enable_pattern_det_baud_intr ::
  "nat \<Rightarrow> u8 \<Rightarrow> u8 \<Rightarrow> int \<Rightarrow> int \<Rightarrow> int \<Rightarrow> uart \<Rightarrow> esp_err \<times> uart" where
  "uart_enable_pattern_det_baud_intr n pattern_chr chr_num chr_tout post_idle pre_idle U =
     (if \<not> n < UART_NUM_MAX then (ESP_FAIL, U)
      else if \<not> (0 \<le> chr_tout \<and> chr_tout \<le> 0xFFFF) then (ESP_FAIL, U)
      else if \<not> (0 \<le> post_idle \<and> post_idle \<le> 0xFFFF) then (ESP_FAIL, U)
      else if \<not> (0 \<le> pre_idle \<and> pre_idle \<le> 0xFFFF) then (ESP_FAIL, U)
      else (ESP_OK, on_hw n (\<lambda>hw. uart_hal_ena_intr_mask UART_INTR_CMD_CHAR_DET
              (hw\<lparr>at_cmd_char := pattern_chr, at_cmd_num := chr_num, post_idle_num := word_of_int post_idle,
                  pre_idle_num := word_of_int pre_idle, rx_gap_tout := word_of_int chr_tout\<rparr>)) U))"

section \<open>Clock gating\<close>

definition SYSTEM_UART_CLK_EN :: u32 where "SYSTEM_UART_CLK_EN = push_bit 2 1"
definition SYSTEM_UART1_CLK_EN :: u32 where "SYSTEM_UART1_CLK_EN = push_bit 5 1"
definition SYSTEM_UART2_CLK_EN :: u32 where "SYSTEM_UART2_CLK_EN = push_bit 9 1"

text \<open>The reset bits are at the positions of the clock bits, in the reset registers.\<close>

definition uart_en_bit :: "nat \<Rightarrow> u32" where
  "uart_en_bit n = (if n = 0 then SYSTEM_UART_CLK_EN else if n = 1 then SYSTEM_UART1_CLK_EN
                    else if n = 2 then SYSTEM_UART2_CLK_EN else 0)"

definition uart_ll_is_enabled :: "nat \<Rightarrow> uart \<Rightarrow> bool" where
  "uart_ll_is_enabled n U \<longleftrightarrow> perip_rst_en0 U AND uart_en_bit n = 0 \<and> perip_clk_en0 U AND uart_en_bit n \<noteq> 0"

definition set_bit_mask :: "bool \<Rightarrow> u32 \<Rightarrow> u32 \<Rightarrow> u32" where
  "set_bit_mask b m w = (if b then w OR m else w AND NOT m)"

definition uart_ll_enable_bus_clock :: "nat \<Rightarrow> bool \<Rightarrow> uart \<Rightarrow> uart" where
  "uart_ll_enable_bus_clock n enable U =
     (if n = 2 then U\<lparr>perip_clk_en1 := set_bit_mask enable SYSTEM_UART2_CLK_EN (perip_clk_en1 U)\<rparr>
      else U\<lparr>perip_clk_en0 := set_bit_mask enable (uart_en_bit n) (perip_clk_en0 U)\<rparr>)"

text \<open>
  A reset sets and clears the reset bit; what the registers of the port hold afterwards is the
  hardware's, the argument \<^verbatim>\<open>reset_hw\<close>.
\<close>

definition uart_ll_reset_register :: "uart_dev \<Rightarrow> nat \<Rightarrow> uart \<Rightarrow> uart" where
  "uart_ll_reset_register reset_hw n U =
     on_hw n (\<lambda>_. reset_hw)
       (if n = 2 then U\<lparr>perip_rst_en1 := set_bit_mask False (uart_en_bit n) (perip_rst_en1 U)\<rparr>
        else U\<lparr>perip_rst_en0 := set_bit_mask False (uart_en_bit n) (perip_rst_en0 U)\<rparr>)"

definition CONFIG_ESP_CONSOLE_UART_NUM :: nat where "CONFIG_ESP_CONSOLE_UART_NUM = 0"

definition uart_module_enable :: "uart_dev \<Rightarrow> nat \<Rightarrow> uart \<Rightarrow> uart" where
  "uart_module_enable reset_hw n U =
     (if \<not> hw_enabled U n
      then let U1 = uart_ll_enable_bus_clock n True U;
               U2 = (if n \<noteq> CONFIG_ESP_CONSOLE_UART_NUM then uart_ll_reset_register reset_hw n U1 else U1)
           in U2\<lparr>hw_enabled := (hw_enabled U2)(n := True)\<rparr>
      else U)"

definition uart_module_disable :: "nat \<Rightarrow> uart \<Rightarrow> uart" where
  "uart_module_disable n U =
     (if hw_enabled U n
      then let U1 = (if n \<noteq> CONFIG_ESP_CONSOLE_UART_NUM then uart_ll_enable_bus_clock n False U else U)
           in U1\<lparr>hw_enabled := (hw_enabled U1)(n := False)\<rparr>
      else U)"

text \<open>
  Polling for an idle transmitter: the states the port goes through while it is polled; if none of
  them is idle the loop does not end.
\<close>

fun wait_idle :: "uart_dev list \<Rightarrow> nat \<Rightarrow> uart \<Rightarrow> uart res" where
  "wait_idle hws n U =
     (if uart_ll_is_tx_idle (uart_hw U n) then Inr U
      else case hws of [] \<Rightarrow> Inl Diverges | hw # rest \<Rightarrow> wait_idle rest n (on_hw n (\<lambda>_. hw) U))"

definition uart_wait_tx_idle_polling :: "uart_dev list \<Rightarrow> nat \<Rightarrow> uart \<Rightarrow> (esp_err \<times> uart) res" where
  "uart_wait_tx_idle_polling hws n U =
     (if \<not> n < UART_NUM_MAX then Inr (ESP_ERR_INVALID_ARG, U)
      else if uart_ll_is_enabled n U then bind_res (wait_idle hws n U) (\<lambda>U'. Inr (ESP_OK, U'))
      else Inr (ESP_OK, U))"

section \<open>The dividers for a baud rate\<close>

text \<open>
  The prescaler is the least that lets the integer part of the divider fit; the rate that comes out
  is never below the one asked for, and above it by less than one part in the divider.
\<close>

lemma baud_arith:
  fixes b f :: nat
  assumes "0 < b" and "b \<le> f" and "f \<le> 4095 * 256 * b"
  defines "s \<equiv> (f + 4095 * b - 1) div (4095 * b)"
  defines "c \<equiv> 16 * f div (b * s)"
  defines "q \<equiv> 16 * f div (c * s)"
  shows "0 < s" "s \<le> 256" "b * s \<le> f" "16 \<le> c" "c \<le> 65520" "c * s \<le> 16 * f" "b \<le> q" "(q - b) * c < b"
proof -
  let ?d = "4095 * b"
  have s1: "s * ?d \<le> f + ?d - 1" unfolding s_def by (rule div_times_less_eq_dividend)
  have "f + ?d - 1 < s * ?d + ?d" unfolding s_def using dividend_less_div_times [of ?d "f + ?d - 1"] assms(1) by simp
  then have s2: "f \<le> s * ?d" using assms(1) by simp
  show s0: "0 < s" using s2 assms(1,2) by (cases "s = 0") auto
  have "s < 257"
  proof (rule ccontr)
    assume "\<not> s < 257"
    then have "257 * ?d \<le> s * ?d" by (intro mult_le_mono1) simp
    with s1 assms(1,3) show False by linarith
  qed
  then show "s \<le> 256" by simp
  show bs: "b * s \<le> f"
  proof (cases "s = 1")
    case False
    then have "2 \<le> s" using s0 by simp
    then obtain t where t: "s = t + 2" using le_Suc_ex by (metis add.commute)
    have "b * t + 2 * b \<le> t * ?d + ?d" by (simp add: algebra_simps)
    also have "\<dots> \<le> f" using s1 t assms(1) by (simp add: algebra_simps)
    finally show ?thesis using t by (simp add: algebra_simps)
  qed (use assms(2) in simp)
  have pos: "0 < b * s" using assms(1) s0 by simp
  have c1: "c * (b * s) \<le> 16 * f" unfolding c_def by (rule div_times_less_eq_dividend)
  have c2: "16 * f < c * (b * s) + b * s" unfolding c_def using dividend_less_div_times [OF pos, of "16 * f"] by (simp only: add.commute)
  show c16: "16 \<le> c" unfolding c_def using bs pos by (simp add: less_eq_div_iff_mult_less_eq)
  have "16 * f \<le> 65520 * (b * s)" using s2 by (simp add: algebra_simps)
  then show "c \<le> 65520" unfolding c_def using pos by (metis div_le_mono nonzero_mult_div_cancel_right less_numeral_extra(3))
  have cs: "0 < c * s" using c16 s0 by simp
  have "c * s \<le> c * (b * s)" using assms(1) by simp
  then show "c * s \<le> 16 * f" using c1 by (rule order_trans)
  show bq: "b \<le> q" unfolding q_def using c1 cs by (simp add: less_eq_div_iff_mult_less_eq algebra_simps)
  have "q * (c * s) \<le> 16 * f" unfolding q_def by (rule div_times_less_eq_dividend)
  with c2 have "(q * c) * s < (c * b + b) * s" by (simp add: algebra_simps)
  then have "q * c < c * b + b" by simp
  moreover obtain e where "q = b + e" using bq le_Suc_ex by blast
  ultimately show "(q - b) * c < b" by (simp add: algebra_simps)
qed
lemma divider_parts:
  assumes "unat (c :: u32) < 2 ^ 16"
  shows "push_bit 4 (ucast (ucast (drop_bit 4 c) :: 12 word)) OR ucast (ucast (c AND 0xf) :: 4 word) = c"
proof (rule bit_word_eqI)
  fix n assume "n < LENGTH(32)"
  have hi: "n < 16" if "bit c n" for n
  proof (rule ccontr)
    assume "\<not> n < 16"
    then have "(2 :: nat) ^ 16 \<le> 2 ^ n" by (intro power_increasing) simp_all
    then have "unat c div 2 ^ n = 0" using assms by (simp only: div_less)
    then have "\<not> bit (unat c) n" by (simp add: bit_iff_odd)
    with that show False by (simp add: bit_unsigned_iff)
  qed
  have f: "(0xf :: u32) = mask 4" by (simp add: mask_eq_exp_minus_1)
  show "bit (push_bit 4 (ucast (ucast (drop_bit 4 c) :: 12 word)) OR ucast (ucast (c AND 0xf) :: 4 word) :: u32) n = bit c n"
    unfolding f using hi [of n] by (auto simp: bit_simps)
qed

definition baud_ok :: "u32 \<Rightarrow> u32 \<Rightarrow> bool" where
  "baud_ok baud sclk_freq \<longleftrightarrow> 0 < baud \<and> baud \<le> sclk_freq \<and> unat sclk_freq < 2 ^ 28 \<and> unat sclk_freq \<le> 4095 * 256 * unat baud"

lemma set_baudrate_divider:
  assumes "baud_ok baud f"
  shows "\<exists>hw' s. uart_ll_set_baudrate baud f hw = Inr hw' \<and> s = (unat f + 4095 * unat baud - 1) div (4095 * unat baud) \<and>
    unat (clk_divider hw') = 16 * unat f div (unat baud * s) \<and> unat (sclk_div_num hw') + 1 = s \<and>
    sclk_sel hw' = sclk_sel hw"
proof -
  let ?b = "unat baud" and ?f = "unat f"
  define s where "s = (?f + 4095 * ?b - 1) div (4095 * ?b)"
  have b: "0 < ?b" "?b \<le> ?f" "?f \<le> 4095 * 256 * ?b" "?f < 2 ^ 28"
    using assms by (simp_all add: baud_ok_def word_less_nat_alt word_le_nat_alt)
  note ar = baud_arith [OF b(1-3), folded s_def]
  have up: "unat (ucast x :: u64) = unat x" for x :: u32
    using unsigned_less [of x, where 'a = nat] by (simp add: unsigned_ucast_eq take_bit_nat_def unsigned_take_bit_eq)
  have u: "unat (4095 * ucast baud :: u64) = 4095 * ?b" using b(2,4) by (simp add: unat_word_ariths up)
  have "unat (ucast f + 4095 * ucast baud :: u64) = ?f + 4095 * ?b" using b(2,4) by (simp add: unat_word_ariths up)
  moreover from this have "(1 :: u64) \<le> ucast f + 4095 * ucast baud" using b(1) by (simp add: word_le_nat_alt)
  ultimately have "unat (ucast f + 4095 * ucast baud - 1 :: u64) = ?f + 4095 * ?b - 1" by (simp add: unat_sub)
  then have "unat ((ucast f + 4095 * ucast baud - 1 :: u64) div (4095 * ucast baud)) = s"
    by (simp only: unat_div u s_def)
  moreover define w where "w = (ucast ((ucast f + 4095 * ucast baud - 1 :: u64) div (4095 * ucast baud)) :: u32)"
  ultimately have w: "unat w = s" using ar(2) by (simp add: unsigned_ucast_eq take_bit_nat_def unsigned_take_bit_eq)
  have bw: "unat (baud * w) = ?b * s" using ar(3) b(4) w by (simp add: unat_word_ariths)
  have "unat (push_bit 4 f) = 16 * ?f" using b(4) by (simp add: push_bit_eq_mult unat_word_ariths)
  then have c: "unat (push_bit 4 f div (baud * w)) = 16 * ?f div (?b * s)" by (simp only: unat_div bw)
  have nz: "(4095 * ucast baud :: u64) \<noteq> 0" "w \<noteq> 0" "baud * w \<noteq> 0"
    using u w bw ar(1) b(1) by (auto simp flip: unat_0 unat_eq_zero)
  let ?c = "push_bit 4 f div (baud * w)"
  let ?hw = "hw\<lparr>clkdiv := ucast (drop_bit 4 ?c), clkdiv_frag := ucast (?c AND 0xf), sclk_div_num := ucast (w - 1)\<rparr>"
  have "uart_ll_set_baudrate baud f hw = Inr ?hw"
    using nz by (simp add: uart_ll_set_baudrate_def w_def [symmetric] Let_def)
  moreover have "clk_divider ?hw = ?c" using divider_parts [of ?c] c ar(5) by (simp add: clk_divider_def)
  moreover have "unat (w - 1) = s - 1" using w ar(1) by (simp add: unat_sub word_le_nat_alt)
  then have "unat (ucast (w - 1) :: u8) + 1 = s" using ar(1,2) by (simp add: unsigned_ucast_eq take_bit_nat_def unsigned_take_bit_eq)
  ultimately show ?thesis using c by (intro exI [of _ ?hw] exI [of _ s]) (simp add: s_def)
qed

lemma get_baudrate_divider:
  assumes "baud_ok baud f" and "uart_ll_set_baudrate baud f hw = Inr hw'"
  shows "\<exists>q. uart_ll_get_baudrate f hw' = Inr q \<and> baud \<le> q \<and> (unat q - unat baud) * unat (clk_divider hw') < unat baud \<and>
    16 \<le> unat (clk_divider hw') \<and> uart_ll_get_sclk hw' = uart_ll_get_sclk hw"
proof -
  let ?b = "unat baud" and ?f = "unat f"
  obtain s where d: "s = (?f + 4095 * ?b - 1) div (4095 * ?b)" "unat (clk_divider hw') = 16 * ?f div (?b * s)"
    "unat (sclk_div_num hw') + 1 = s" "sclk_sel hw' = sclk_sel hw"
    using set_baudrate_divider [OF assms(1), of hw] assms(2) by auto
  have b: "0 < ?b" "?b \<le> ?f" "?f \<le> 4095 * 256 * ?b" "?f < 2 ^ 28"
    using assms by (simp_all add: baud_ok_def word_less_nat_alt word_le_nat_alt)
  note ar = baud_arith [OF b(1-3), folded d(1)]
  have sn: "unat (ucast (sclk_div_num hw') + 1 :: u32) = s"
    using d(3) ar(2) by (simp add: unat_word_ariths unsigned_ucast_eq take_bit_nat_def unsigned_take_bit_eq)
  have cs: "unat (clk_divider hw' * (ucast (sclk_div_num hw') + 1)) = 16 * ?f div (?b * s) * s"
    using ar(6) b(4) d(2) sn by (simp add: unat_mult_lem [THEN iffD1])
  have nz: "clk_divider hw' * (ucast (sclk_div_num hw') + 1) \<noteq> 0"
    using cs ar(1,4) by (auto simp flip: unat_0 unat_eq_zero)
  have "unat (push_bit 4 f) = 16 * ?f" using b(4) by (simp add: push_bit_eq_mult unat_word_ariths)
  then have "unat (push_bit 4 f div (clk_divider hw' * (ucast (sclk_div_num hw') + 1))) = 16 * ?f div (16 * ?f div (?b * s) * s)"
    by (simp only: unat_div cs)
  with nz ar(4,7,8) d(2,4) show ?thesis
    by (simp add: uart_ll_get_baudrate_def uart_ll_get_sclk_def word_le_nat_alt Let_def)
qed

section \<open>Properties\<close>

lemma on_hw_same [simp]: "uart_hw (on_hw n f U) n = f (uart_hw U n)"
  by (simp add: on_hw_def)

lemma symb_len_bounds: "7 \<le> unat (uart_hal_get_symb_len hw)" "unat (uart_hal_get_symb_len hw) \<le> 12"
proof -
  have "unat (uart_ll_get_data_bit_num hw) < 4"
    using unsigned_less [of "bit_num hw", where 'a = nat]
    by (simp add: uart_ll_get_data_bit_num_def unsigned_ucast_eq take_bit_nat_def unsigned_take_bit_eq)
  then have d: "unat (ucast (uart_ll_get_data_bit_num hw) :: u8) = unat (uart_ll_get_data_bit_num hw)"
      "uart_ll_get_data_bit_num hw < UART_DATA_BITS_MAX"
    by (simp_all add: unat_word_ariths unsigned_ucast_eq take_bit_nat_def unsigned_take_bit_eq uart_consts word_less_nat_alt)
  with \<open>unat (uart_ll_get_data_bit_num hw) < 4\<close>
  show "7 \<le> unat (uart_hal_get_symb_len hw)" "unat (uart_hal_get_symb_len hw) \<le> 12"
    by (simp_all add: uart_hal_get_symb_len_def unat_word_ariths)
qed

lemma rx_timeout_exact:
  assumes "\<not> uart_hal_get_max_rx_timeout_thrd hw < ucast tout"
  shows "unat (uart_ll_get_rx_tout_thr (uart_hal_set_rx_timeout tout hw)) = unat (uart_hal_get_symb_len hw) * unat tout"
proof -
  let ?s = "unat (uart_hal_get_symb_len hw)"
  have u: "unat (ucast x :: u16) = unat x" for x :: u8
    using unsigned_less [of x, where 'a = nat] by (simp add: unsigned_ucast_eq take_bit_nat_def unsigned_take_bit_eq)
  have "unat tout \<le> 1023 div ?s"
    using assms by (simp add: uart_hal_get_max_rx_timeout_thrd_def word_less_nat_alt unat_div u)
  then have le: "?s * unat tout \<le> 1023" using symb_len_bounds [of hw] by (simp add: less_eq_div_iff_mult_less_eq mult.commute)
  then have w: "unat (ucast (uart_hal_get_symb_len hw) * ucast tout :: u16) = ?s * unat tout" by (simp add: unat_word_ariths u)
  show ?thesis
  proof (cases "0 < (ucast (uart_hal_get_symb_len hw) * ucast tout :: u16)")
    case True
    then show ?thesis using w le
      by (simp add: uart_hal_set_rx_timeout_def uart_ll_set_rx_tout_def uart_ll_get_rx_tout_thr_def
          unsigned_ucast_eq take_bit_nat_def unsigned_take_bit_eq)
  next
    case False
    then show ?thesis using w
      by (auto simp: uart_hal_set_rx_timeout_def uart_ll_set_rx_tout_def uart_ll_get_rx_tout_thr_def word_less_nat_alt)
  qed
qed

text \<open>
  C34. Setting a baud rate and reading it back: for every rate the dividers can reach, setting
  succeeds, and the rate in effect, as read back, is at least the one asked for and above it by less
  than one part in the clock divider, which is at least 16.
\<close>

theorem baud_rate_accurate:
  assumes "n < UART_NUM_MAX" and "clk (uart_ll_get_sclk (uart_hw U n)) = Inr f" and "baud_ok baud f"
  shows "\<exists>U' q. uart_set_baudrate clk n baud U = Inr (ESP_OK, U') \<and> uart_get_baudrate clk n U' = Inr (ESP_OK, Some q) \<and>
    baud \<le> q \<and> (unat q - unat baud) * unat (clk_divider (uart_hw U' n)) < unat baud \<and> 16 \<le> unat (clk_divider (uart_hw U' n))"
proof -
  obtain hw where hw: "uart_ll_set_baudrate baud f (uart_hw U n) = Inr hw" using set_baudrate_divider [OF assms(3)] by blast
  from get_baudrate_divider [OF assms(3) hw] hw assms(1,2) show ?thesis
    by (auto simp: uart_set_baudrate_def uart_get_baudrate_def)
qed

definition demo_uart_dev :: uart_dev where
  "demo_uart_dev =
     \<lparr>uart_int_ena = 0, rx_fifo = [], tx_fifo = [], st_utx_idle = True, txd_brk = False, tx_brk_num = 10,
      rxfifo_full_thrhd = 96, txfifo_empty_thrhd = 96, rx_tout_thrhd = 10, rx_tout_en = False,
      at_cmd_char = 43, at_cmd_num = 3, post_idle_num = 2305, pre_idle_num = 2305, rx_gap_tout = 11,
      sw_rts = False, sw_dtr = False, sclk_sel = 3, clkdiv = 694, clkdiv_frag = 0, sclk_div_num = 1,
      parity_en = False, parity_odd = False, bit_num = 3, stop_bit_num = 1, tx_idle_num = 256,
      rx_flow_en = False, tx_flow_en = False, rx_flow_thrhd = 0, xonoff_del = False, sw_flow_con_en = False,
      xon_threshold = 0, xoff_threshold = 224, xon_character = 17, xoff_character = 19, active_threshold = 240,
      rs485_en = False, rs485tx_rx_en = False, rs485rxby_tx_en = False, irda_en = False, loopback = False, line_inv = 0\<rparr>"

definition demo_uart :: uart where
  "demo_uart =
     \<lparr>p_uart_obj = \<lambda>_. None, uart_hw = \<lambda>_. demo_uart_dev, hw_enabled = \<lambda>_. False, pat_flg = False,
      perip_clk_en0 = 4, perip_clk_en1 = 0x600, perip_rst_en0 = 0, perip_rst_en1 = 0x1BF\<rparr>"

theorem baud_rate_accurate_witness:
  "\<exists>U' q. uart_set_baudrate (\<lambda>_. Inr 80000000) 1 115200 demo_uart = Inr (ESP_OK, U') \<and>
     uart_get_baudrate (\<lambda>_. Inr 80000000) 1 U' = Inr (ESP_OK, Some q) \<and> 115200 \<le> q \<and>
     (unat q - unat (115200 :: u32)) * unat (clk_divider (uart_hw U' 1)) < unat (115200 :: u32) \<and>
     16 \<le> unat (clk_divider (uart_hw U' 1))"
  by (rule baud_rate_accurate [of 1 "\<lambda>_. Inr 80000000" demo_uart 80000000]) (simp_all add: UART_NUM_MAX_def baud_ok_def)

text \<open>
  Rates outside that range are not refused. A rate of zero divides by zero; and a rate too low
  for the prescaler is set silently wrong: asked for 50 baud on the 80 MHz clock the port runs at 144,
  because only eight bits of the prescaler 391 are stored.
\<close>

theorem low_baud_rates_not_refused:
  assumes "n < UART_NUM_MAX" and "clk (uart_ll_get_sclk (uart_hw U n)) = Inr 80000000"
  shows "uart_set_baudrate clk n 0 U = Inl Div_by_zero \<and>
    (\<exists>U'. uart_set_baudrate clk n 50 U = Inr (ESP_OK, U') \<and> uart_get_baudrate clk n U' = Inr (ESP_OK, Some 144))"
proof
  show "uart_set_baudrate clk n 0 U = Inl Div_by_zero"
    using assms by (simp add: uart_set_baudrate_def uart_ll_set_baudrate_def)
  let ?hw = "(uart_hw U n)\<lparr>clkdiv := 4092, clkdiv_frag := 1, sclk_div_num := 134\<rparr>"
  have "uart_ll_set_baudrate 50 80000000 (uart_hw U n) = Inr ?hw"
    by (simp add: uart_ll_set_baudrate_def Let_def)
  moreover have "uart_ll_get_baudrate 80000000 ?hw = Inr 144"
    by (simp add: uart_ll_get_baudrate_def clk_divider_def Let_def)
  moreover have "uart_ll_get_sclk ?hw = uart_ll_get_sclk (uart_hw U n)" by (simp add: uart_ll_get_sclk_def)
  ultimately show "\<exists>U'. uart_set_baudrate clk n 50 U = Inr (ESP_OK, U') \<and> uart_get_baudrate clk n U' = Inr (ESP_OK, Some 144)"
    using assms by (simp add: uart_set_baudrate_def uart_get_baudrate_def)
qed

theorem low_baud_rates_not_refused_witness:
  "uart_set_baudrate (\<lambda>_. Inr 80000000) 1 0 demo_uart = Inl Div_by_zero \<and>
   (\<exists>U'. uart_set_baudrate (\<lambda>_. Inr 80000000) 1 50 demo_uart = Inr (ESP_OK, U') \<and>
     uart_get_baudrate (\<lambda>_. Inr 80000000) 1 U' = Inr (ESP_OK, Some 144))"
  by (rule low_baud_rates_not_refused) (simp_all add: UART_NUM_MAX_def)

text \<open>
  What is set is what is read back: word length, stop bits, parity, hardware flow control and
  the wake-up threshold, for every value a setter accepts; and a receive timeout that is accepted is
  stored as that many character times, never truncated.
\<close>

theorem uart_settings_roundtrip:
  assumes "n < UART_NUM_MAX"
  shows "(d < UART_DATA_BITS_MAX \<longrightarrow> (\<exists>U'. uart_set_word_length n d U = (ESP_OK, U') \<and> uart_get_word_length n U' = (ESP_OK, Some d))) \<and>
    (d < UART_STOP_BITS_MAX \<longrightarrow> (\<exists>U'. uart_set_stop_bits n d U = (ESP_OK, U') \<and> uart_get_stop_bits n U' = (ESP_OK, Some d))) \<and>
    (d \<in> {0, 2, 3} \<longrightarrow> (\<exists>U'. uart_set_parity n d U = (ESP_OK, U') \<and> uart_get_parity n U' = (ESP_OK, Some d))) \<and>
    (d < UART_HW_FLOWCTRL_MAX \<and> unat t < SOC_UART_FIFO_LEN \<longrightarrow>
       (\<exists>U'. uart_set_hw_flow_ctrl n d t U = (ESP_OK, U') \<and> uart_get_hw_flow_ctrl n U' = (ESP_OK, Some d))) \<and>
    (3 \<le> w \<and> w \<le> 0x3FF \<longrightarrow> (\<exists>U'. uart_set_wakeup_threshold n w U = (ESP_OK, U') \<and> uart_get_wakeup_threshold n U' = (ESP_OK, Some w))) \<and>
    (\<forall>U'. uart_set_rx_timeout n t U = (ESP_OK, U') \<longrightarrow>
       unat (uart_ll_get_rx_tout_thr (uart_hw U' n)) = unat (uart_hal_get_symb_len (uart_hw U n)) * unat t)"
proof -
  have d4: "d < 4 \<Longrightarrow> d = 0 \<or> d = 1 \<or> d = 2 \<or> d = 3"
    unfolding word_less_nat_alt word_unat_eq_iff by auto
  have 1: "d < UART_DATA_BITS_MAX \<longrightarrow> (\<exists>U'. uart_set_word_length n d U = (ESP_OK, U') \<and> uart_get_word_length n U' = (ESP_OK, Some d))"
    using assms d4 by (auto simp: uart_set_word_length_def uart_get_word_length_def uart_ll_set_data_bit_num_def
        uart_ll_get_data_bit_num_def uart_consts)
  have 2: "d < UART_STOP_BITS_MAX \<longrightarrow> (\<exists>U'. uart_set_stop_bits n d U = (ESP_OK, U') \<and> uart_get_stop_bits n U' = (ESP_OK, Some d))"
    using assms d4 by (auto simp: uart_set_stop_bits_def uart_get_stop_bits_def uart_ll_set_stop_bits_def
        uart_ll_get_stop_bits_def uart_consts)
  have 3: "d \<in> {0, 2, 3} \<longrightarrow> (\<exists>U'. uart_set_parity n d U = (ESP_OK, U') \<and> uart_get_parity n U' = (ESP_OK, Some d))"
    using assms by (auto simp: uart_set_parity_def uart_get_parity_def uart_ll_set_parity_def uart_ll_get_parity_def uart_consts)
  have 4: "d < UART_HW_FLOWCTRL_MAX \<and> unat t < SOC_UART_FIFO_LEN \<longrightarrow>
       (\<exists>U'. uart_set_hw_flow_ctrl n d t U = (ESP_OK, U') \<and> uart_get_hw_flow_ctrl n U' = (ESP_OK, Some d))"
    using assms d4 by (auto simp: uart_set_hw_flow_ctrl_def uart_get_hw_flow_ctrl_def uart_ll_set_hw_flow_ctrl_def
        uart_ll_get_hw_flow_ctrl_def has_flag_def uart_consts)
  have 5: "3 \<le> w \<and> w \<le> 0x3FF \<longrightarrow> (\<exists>U'. uart_set_wakeup_threshold n w U = (ESP_OK, U') \<and> uart_get_wakeup_threshold n U' = (ESP_OK, Some w))"
    using assms uint_word_of_int [of "w - 3", where 'a = 10]
    by (auto simp: uart_set_wakeup_threshold_def uart_get_wakeup_threshold_def)
  have 6: "\<forall>U'. uart_set_rx_timeout n t U = (ESP_OK, U') \<longrightarrow>
       unat (uart_ll_get_rx_tout_thr (uart_hw U' n)) = unat (uart_hal_get_symb_len (uart_hw U n)) * unat t"
    using rx_timeout_exact by (auto simp: uart_set_rx_timeout_def split: if_splits)
  show ?thesis by (intro conjI 1 2 3 4 5 6)
qed

theorem uart_settings_roundtrip_witness:
  "(\<exists>U'. uart_set_word_length 1 3 demo_uart = (ESP_OK, U') \<and> uart_get_word_length 1 U' = (ESP_OK, Some 3)) \<and>
   (\<exists>U'. uart_set_parity 1 3 demo_uart = (ESP_OK, U') \<and> uart_get_parity 1 U' = (ESP_OK, Some 3))"
  using uart_settings_roundtrip [of 1 3 demo_uart 10 100] by (simp add: UART_NUM_MAX_def uart_consts)

text \<open>
  The check whether a port's clock is on looks at the wrong register for port 2: its bit is read
  from the register that holds the bit of the remote-control peripheral. With that peripheral off,
  port 2 is taken for disabled after its clock has been enabled, and waiting for its transmitter to
  become idle returns success at once while bytes are still in the FIFO. Ports 0 and 1 are checked
  where their clock is switched.
\<close>

theorem uart2_idle_wait_skipped:
  assumes "perip_clk_en0 U AND push_bit 9 1 = 0"
  shows "\<not> uart_ll_is_enabled 2 (uart_ll_enable_bus_clock 2 True U) \<and>
    uart_wait_tx_idle_polling hws 2 (uart_ll_enable_bus_clock 2 True U) = Inr (ESP_OK, uart_ll_enable_bus_clock 2 True U) \<and>
    (n < 2 \<and> perip_rst_en0 U AND uart_en_bit n = 0 \<longrightarrow>
       uart_ll_is_enabled n (uart_ll_enable_bus_clock n True U) \<and> \<not> uart_ll_is_enabled n (uart_ll_enable_bus_clock n False U))"
proof -
  have off: "\<not> uart_ll_is_enabled 2 (uart_ll_enable_bus_clock 2 True U)"
    using assms by (simp add: uart_ll_is_enabled_def uart_ll_enable_bus_clock_def uart_en_bit_def SYSTEM_UART2_CLK_EN_def)
  have "(w AND NOT m) AND m = 0" "m \<noteq> 0 \<Longrightarrow> (w OR m) AND m \<noteq> 0" for w m :: u32
    by (simp_all add: word_ao_absorbs(8) and.assoc)
  moreover have "uart_en_bit n \<noteq> 0" if "n < 2"
    using that by (auto simp: uart_en_bit_def SYSTEM_UART_CLK_EN_def SYSTEM_UART1_CLK_EN_def)
  ultimately have "n < 2 \<and> perip_rst_en0 U AND uart_en_bit n = 0 \<longrightarrow>
      uart_ll_is_enabled n (uart_ll_enable_bus_clock n True U) \<and> \<not> uart_ll_is_enabled n (uart_ll_enable_bus_clock n False U)"
    by (auto simp: uart_ll_is_enabled_def uart_ll_enable_bus_clock_def set_bit_mask_def)
  then show ?thesis using off by (simp add: uart_wait_tx_idle_polling_def UART_NUM_MAX_def)
qed

theorem uart2_idle_wait_skipped_witness:
  "\<not> uart_ll_is_enabled 2 (uart_ll_enable_bus_clock 2 True demo_uart) \<and>
   uart_wait_tx_idle_polling [] 2 (uart_ll_enable_bus_clock 2 True demo_uart) =
     Inr (ESP_OK, uart_ll_enable_bus_clock 2 True demo_uart)"
  using uart2_idle_wait_skipped [of demo_uart "[]" 0] by (simp add: demo_uart_def)

end
