(* ===== verification/UartDriver.thy ===== *)
theory UartDriver
  imports UartConfig
begin

text \<open>
  The life of a UART driver (\<^verbatim>\<open>esp_driver_uart/src/uart.c\<close>): routing of the pins, allocation and
  installation, parameters, writing, waiting for the end of a transmission, and removal.

  Whether each allocation succeeds, and what an allocated storage area holds, are inputs. The answer
  of the interrupt allocator is an input too. The count of users of the internal RC oscillator, which
  a port clocked by it holds, is not part of the state.
\<close>

section \<open>Pins\<close>

record uart_periph_sig_t =
  default_gpio :: int
  iomux_func :: int
  sig_input :: bool
  signal :: nat

definition SOC_UART_TX_PIN_IDX :: nat where "SOC_UART_TX_PIN_IDX = 0"
definition SOC_UART_RX_PIN_IDX :: nat where "SOC_UART_RX_PIN_IDX = 1"
definition SOC_UART_RTS_PIN_IDX :: nat where "SOC_UART_RTS_PIN_IDX = 2"
definition SOC_UART_CTS_PIN_IDX :: nat where "SOC_UART_CTS_PIN_IDX = 3"

definition uart_periph_signal :: "nat \<Rightarrow> uart_periph_sig_t list" where
  "uart_periph_signal n =
     (if n = 0
      then [\<lparr>default_gpio = 43, iomux_func = 0, sig_input = False, signal = 12\<rparr>,
            \<lparr>default_gpio = 44, iomux_func = 0, sig_input = True, signal = 12\<rparr>,
            \<lparr>default_gpio = 15, iomux_func = 2, sig_input = False, signal = 13\<rparr>,
            \<lparr>default_gpio = 16, iomux_func = 2, sig_input = True, signal = 13\<rparr>]
      else if n = 1
      then [\<lparr>default_gpio = 17, iomux_func = 2, sig_input = False, signal = 15\<rparr>,
            \<lparr>default_gpio = 18, iomux_func = 2, sig_input = True, signal = 15\<rparr>,
            \<lparr>default_gpio = 19, iomux_func = 2, sig_input = False, signal = 16\<rparr>,
            \<lparr>default_gpio = 20, iomux_func = 2, sig_input = True, signal = 16\<rparr>]
      else [\<lparr>default_gpio = - 1, iomux_func = - 1, sig_input = False, signal = 18\<rparr>,
            \<lparr>default_gpio = - 1, iomux_func = - 1, sig_input = True, signal = 18\<rparr>,
            \<lparr>default_gpio = - 1, iomux_func = - 1, sig_input = False, signal = 19\<rparr>,
            \<lparr>default_gpio = - 1, iomux_func = - 1, sig_input = True, signal = 19\<rparr>])"

text \<open>
  The pads, the function selected for each pad, the pad each peripheral input takes its signal from
  when it goes through the GPIO matrix, and the pads in use by peripherals.
\<close>

record pin_matrix =
  pads :: gpio_context
  pad_func :: "nat \<Rightarrow> int"
  in_from :: "nat \<Rightarrow> nat option"
  s_reserved_pin_mask :: u64

definition PIN_FUNC_GPIO :: int where "PIN_FUNC_GPIO = 1"

definition gpio_func_sel :: "int \<Rightarrow> int \<Rightarrow> pin_matrix \<Rightarrow> esp_err \<times> pin_matrix" where
  "gpio_func_sel gpio_num func P =
     (if \<not> GPIO_IS_VALID_GPIO gpio_num then (ESP_ERR_INVALID_ARG, P)
      else (ESP_OK, P\<lparr>pad_func := (pad_func P)(nat gpio_num := func)\<rparr>))"

definition gpio_iomux_out :: "int \<Rightarrow> int \<Rightarrow> pin_matrix \<Rightarrow> pin_matrix" where
  "gpio_iomux_out gpio_num func P = P\<lparr>pad_func := (pad_func P)(nat gpio_num := func)\<rparr>"

definition gpio_iomux_in :: "int \<Rightarrow> nat \<Rightarrow> pin_matrix \<Rightarrow> pin_matrix" where
  "gpio_iomux_in gpio_num sig P =
     P\<lparr>in_from := (in_from P)(sig := None), pads := upd_pin gpio_num (\<lambda>p. p\<lparr>input_en := True\<rparr>) (pads P)\<rparr>"

text \<open>The routing functions of the ROM connect a pad with a signal; an output is switched on as well.\<close>

definition connect_out_signal :: "int \<Rightarrow> nat \<Rightarrow> pin_matrix \<Rightarrow> pin_matrix" where
  "connect_out_signal gpio_num sig P =
     P\<lparr>pads := upd_pin gpio_num (\<lambda>p. p\<lparr>matrix_out := Some sig, output_en := True\<rparr>) (pads P)\<rparr>"

definition connect_in_signal :: "int \<Rightarrow> nat \<Rightarrow> pin_matrix \<Rightarrow> pin_matrix" where
  "connect_in_signal gpio_num sig P = P\<lparr>in_from := (in_from P)(sig := Some (nat gpio_num))\<rparr>"

definition esp_gpio_reserve :: "u64 \<Rightarrow> pin_matrix \<Rightarrow> u64 \<times> pin_matrix" where
  "esp_gpio_reserve gpio_mask P =
     (s_reserved_pin_mask P, P\<lparr>s_reserved_pin_mask := s_reserved_pin_mask P OR gpio_mask\<rparr>)"

definition uart_try_set_iomux_pin :: "nat \<Rightarrow> int \<Rightarrow> nat \<Rightarrow> pin_matrix \<Rightarrow> bool \<times> pin_matrix" where
  "uart_try_set_iomux_pin n io_num idx P =
     (let upin = uart_periph_signal n ! idx in
      if iomux_func upin = - 1 \<or> default_gpio upin = - 1 \<or> default_gpio upin \<noteq> io_num then (False, P)
      else let P1 = gpio_iomux_out io_num (iomux_func upin) P
           in (True, if sig_input upin then gpio_iomux_in io_num (signal upin) P1 else P1))"

text \<open>
  One line of the port: nothing for a negative pad, the direct connection where the pad has one,
  the matrix otherwise. The first component tells whether the matrix was used.
\<close>

definition route_line :: "(int \<Rightarrow> nat \<Rightarrow> pin_matrix \<Rightarrow> pin_matrix) \<Rightarrow> bool \<Rightarrow> nat \<Rightarrow> int \<Rightarrow> nat \<Rightarrow> pin_matrix \<Rightarrow> bool \<times> pin_matrix" where
  "route_line connect force n io_num idx P =
     (if io_num < 0 then (False, P)
      else let (direct, P1) = (if force then (False, P) else uart_try_set_iomux_pin n io_num idx P)
           in if direct then (False, P1)
              else (True, connect io_num (signal (uart_periph_signal n ! idx)) (snd (gpio_func_sel io_num PIN_FUNC_GPIO P1))))"

definition connect_rx :: "int \<Rightarrow> nat \<Rightarrow> pin_matrix \<Rightarrow> pin_matrix" where
  "connect_rx io_num sig P = connect_in_signal io_num sig (P\<lparr>pads := snd (gpio_input_enable io_num (pads P))\<rparr>)"

definition connect_cts :: "int \<Rightarrow> nat \<Rightarrow> pin_matrix \<Rightarrow> pin_matrix" where
  "connect_cts io_num sig P = connect_rx io_num sig (P\<lparr>pads := snd (gpio_pullup_en io_num (pads P))\<rparr>)"

definition BIT64 :: "int \<Rightarrow> u64" where
  "BIT64 i = push_bit (nat i) 1"

definition reserve_bit :: "int \<Rightarrow> u64" where
  "reserve_bit io_num = (if io_num > 0 then BIT64 io_num else 0)"

definition uart_set_pin :: "nat \<Rightarrow> int \<Rightarrow> int \<Rightarrow> int \<Rightarrow> int \<Rightarrow> pin_matrix \<Rightarrow> esp_err \<times> pin_matrix" where
  "uart_set_pin n tx_io_num rx_io_num rts_io_num cts_io_num P =
     (if \<not> n < UART_NUM_MAX then (ESP_FAIL, P)
      else if \<not> (tx_io_num < 0 \<or> GPIO_IS_VALID_OUTPUT_GPIO tx_io_num) then (ESP_FAIL, P)
      else if \<not> (rx_io_num < 0 \<or> GPIO_IS_VALID_GPIO rx_io_num) then (ESP_FAIL, P)
      else if \<not> (rts_io_num < 0 \<or> GPIO_IS_VALID_OUTPUT_GPIO rts_io_num) then (ESP_FAIL, P)
      else if \<not> (cts_io_num < 0 \<or> GPIO_IS_VALID_GPIO cts_io_num) then (ESP_FAIL, P)
      else let io_reserve_mask = reserve_bit tx_io_num OR reserve_bit rx_io_num OR reserve_bit rts_io_num OR reserve_bit cts_io_num;
               tx_rx_same_io = (tx_io_num = rx_io_num);
               (_, P1) = route_line connect_out_signal tx_rx_same_io n tx_io_num SOC_UART_TX_PIN_IDX P;
               (rx_matrix, P2) = route_line connect_rx tx_rx_same_io n rx_io_num SOC_UART_RX_PIN_IDX P1;
               m2 = (if rx_matrix then io_reserve_mask AND NOT (BIT64 rx_io_num) else io_reserve_mask);
               (_, P3) = route_line connect_out_signal False n rts_io_num SOC_UART_RTS_PIN_IDX P2;
               (cts_matrix, P4) = route_line connect_cts False n cts_io_num SOC_UART_CTS_PIN_IDX P3;
               m4 = (if cts_matrix then m2 AND NOT (BIT64 cts_io_num) else m2)
           in (ESP_OK, snd (esp_gpio_reserve m4 P4)))"

section \<open>Interrupt configuration\<close>

record uart_intr_config_t =
  intr_enable_mask :: u32
  rx_timeout_thresh :: u8
  txfifo_empty_intr_thresh :: u8
  rxfifo_full_thresh :: u8

definition uart_intr_config :: "nat \<Rightarrow> uart_intr_config_t option \<Rightarrow> uart \<Rightarrow> esp_err \<times> uart" where
  "uart_intr_config n intr_conf U =
     (if \<not> n < UART_NUM_MAX then (ESP_FAIL, U)
      else case intr_conf of
             None \<Rightarrow> (ESP_FAIL, U)
           | Some c \<Rightarrow>
               (ESP_OK, on_hw n (\<lambda>hw.
                  let en = intr_enable_mask c;
                      hw1 = uart_hal_set_rx_timeout (if has_flag en UART_INTR_RXFIFO_TOUT then rx_timeout_thresh c else 0) hw;
                      hw2 = (if has_flag en UART_INTR_RXFIFO_FULL then hw1\<lparr>rxfifo_full_thrhd := ucast (rxfifo_full_thresh c)\<rparr> else hw1);
                      hw3 = (if has_flag en UART_INTR_TXFIFO_EMPTY then hw2\<lparr>txfifo_empty_thrhd := ucast (txfifo_empty_intr_thresh c)\<rparr> else hw2)
                  in uart_hal_ena_intr_mask en hw3) U))"

section \<open>Allocation\<close>

record uart_allocs =
  a_obj :: bool
  a_data_buf :: bool
  a_event_struct :: bool
  a_event_storage :: alloc
  a_tx_struct :: bool
  a_tx_storage :: alloc
  a_rx_struct :: bool
  a_rx_storage :: alloc
  a_tx_mux :: bool
  a_rx_mux :: bool
  a_brk_sem :: bool
  a_done_sem :: bool
  a_fifo_sem :: bool
  a_pattern :: "(nat \<Rightarrow> int) option"

text \<open>The object is allocated with zeros.\<close>

definition zero_obj :: uart_obj_t where
  "zero_obj =
     \<lparr>uart_mode = UART_MODE_UART, coll_det_flg = False, rx_always_timeout_flg = False, rx_buffered_len = 0,
      rx_buffer_full_flg = False, rx_data_buf = replicate (4 * SOC_UART_FIFO_LEN) 0, rx_stash_len = 0, rx_int_usr_mask = 0,
      rx_pattern_pos = \<lparr>pat_wr = 0, pat_rd = 0, pat_len = 0, pat_data = None\<rparr>, tx_buf_size = 0, tx_waiting_fifo = False,
      tx_ptr = None, tx_head = None, tx_len_tot = 0, tx_len_cur = 0, tx_brk_flg = False, tx_brk_len = 0,
      tx_waiting_brk = False, event_queue = None, rx_ring_buf = None, tx_ring_buf = None, rx_mux = None, tx_mux = None,
      tx_fifo_sem = None, tx_done_sem = None, tx_brk_sem = None\<rparr>"

text \<open>Every early exit frees what was allocated and returns no object.\<close>

definition uart_alloc_driver_obj :: "uart_allocs \<Rightarrow> int \<Rightarrow> int \<Rightarrow> int \<Rightarrow> kernel \<Rightarrow> (uart_obj_t option \<times> kernel) res" where
  "uart_alloc_driver_obj al event_queue_size tx_buffer_size rx_buffer_size k =
     (if \<not> a_obj al \<or> \<not> a_data_buf al then Inr (None, k)
      else bind_res (if event_queue_size > 0
                     then xQueueCreateWithCaps (a_event_struct al) (a_event_storage al) (word_of_int event_queue_size) 12
                     else Inr None) (\<lambda>evq.
      if event_queue_size > 0 \<and> evq = None then Inr (None, k)
      else bind_res (if tx_buffer_size > 0
                     then xRingbufferCreateWithCaps (a_tx_struct al) (a_tx_storage al) (word_of_int tx_buffer_size) RINGBUF_TYPE_NOSPLIT
                     else Inr None) (\<lambda>txr.
      if tx_buffer_size > 0 \<and> txr = None then Inr (None, k)
      else bind_res (xRingbufferCreateWithCaps (a_rx_struct al) (a_rx_storage al) (word_of_int rx_buffer_size) RINGBUF_TYPE_BYTEBUF) (\<lambda>rxr.
      bind_res (xSemaphoreCreateGenericWithCaps queueQUEUE_TYPE_MUTEX (a_tx_mux al) k) (\<lambda>(txm, k1).
      bind_res (xSemaphoreCreateGenericWithCaps queueQUEUE_TYPE_MUTEX (a_rx_mux al) k1) (\<lambda>(rxm, k2).
      bind_res (xSemaphoreCreateGenericWithCaps queueQUEUE_TYPE_BINARY_SEMAPHORE (a_brk_sem al) k2) (\<lambda>(brk, k3).
      bind_res (xSemaphoreCreateGenericWithCaps queueQUEUE_TYPE_BINARY_SEMAPHORE (a_done_sem al) k3) (\<lambda>(don, k4).
      bind_res (xSemaphoreCreateGenericWithCaps queueQUEUE_TYPE_BINARY_SEMAPHORE (a_fifo_sem al) k4) (\<lambda>(fif, k5).
      if rxr = None \<or> rxm = None \<or> txm = None \<or> brk = None \<or> don = None \<or> fif = None then Inr (None, k5)
      else Inr (Some (zero_obj\<lparr>event_queue := evq, tx_ring_buf := txr, rx_ring_buf := rxr, tx_mux := txm, rx_mux := rxm,
                               tx_brk_sem := brk, tx_done_sem := don, tx_fifo_sem := fif\<rparr>), k5))))))))))"

section \<open>Installation and removal\<close>

definition uart_disable_rx_intr :: "nat \<Rightarrow> uart \<Rightarrow> (esp_err \<times> uart) res" where
  "uart_disable_rx_intr n U = uart_disable_intr_mask n (UART_INTR_RXFIFO_FULL OR UART_INTR_RXFIFO_TOUT) U"

definition uart_enable_rx_intr :: "nat \<Rightarrow> uart \<Rightarrow> (esp_err \<times> uart) res" where
  "uart_enable_rx_intr n U = uart_enable_intr_mask n (UART_INTR_RXFIFO_FULL OR UART_INTR_RXFIFO_TOUT) U"

definition uart_disable_tx_intr :: "nat \<Rightarrow> uart \<Rightarrow> (esp_err \<times> uart) res" where
  "uart_disable_tx_intr n U = uart_disable_intr_mask n UART_INTR_TXFIFO_EMPTY U"

definition uart_disable_pattern_det_intr :: "nat \<Rightarrow> uart \<Rightarrow> (esp_err \<times> uart) res" where
  "uart_disable_pattern_det_intr n U = uart_disable_intr_mask n UART_INTR_CMD_CHAR_DET U"

definition uart_is_driver_installed :: "nat \<Rightarrow> uart \<Rightarrow> bool" where
  "uart_is_driver_installed n U \<longleftrightarrow> n < UART_NUM_MAX \<and> p_uart_obj U n \<noteq> None"

definition uart_driver_delete :: "nat \<Rightarrow> uart \<Rightarrow> (esp_err \<times> uart) res" where
  "uart_driver_delete n U =
     (if \<not> n < UART_NUM_MAX then Inr (ESP_FAIL, U)
      else if p_uart_obj U n = None then Inr (ESP_OK, U)
      else bind_res (uart_disable_rx_intr n U) (\<lambda>(_, U1).
           bind_res (uart_disable_tx_intr n U1) (\<lambda>(_, U2).
           bind_res (uart_pattern_link_free n U2) (\<lambda>(_, U3).
           Inr (ESP_OK, uart_module_disable n (U3\<lparr>p_uart_obj := (p_uart_obj U3)(n := None)\<rparr>))))))"

text \<open>
  The flag tells whether the caller asks for the handle of the event queue, which is the queue of
  the object: the caller shares it with the driver. The number of its free places is logged.
\<close>

definition uart_driver_install ::
  "uart_allocs \<Rightarrow> uart_dev \<Rightarrow> esp_err \<Rightarrow> nat \<Rightarrow> int \<Rightarrow> int \<Rightarrow> int \<Rightarrow> bool \<Rightarrow> kernel \<Rightarrow> uart \<Rightarrow> (esp_err \<times> uart \<times> kernel) res" where
  "uart_driver_install al reset_hw intr_alloc n rx_buffer_size tx_buffer_size event_queue_size uart_queue k U =
     (if \<not> n < UART_NUM_MAX then Inr (ESP_FAIL, U, k)
      else if \<not> rx_buffer_size > int SOC_UART_FIFO_LEN then Inr (ESP_FAIL, U, k)
      else if \<not> (tx_buffer_size > int SOC_UART_FIFO_LEN \<or> tx_buffer_size = 0) then Inr (ESP_FAIL, U, k)
      else if p_uart_obj U n \<noteq> None then Inr (ESP_FAIL, U, k)
      else bind_res (uart_alloc_driver_obj al event_queue_size tx_buffer_size rx_buffer_size k) (\<lambda>(o', k1).
           case o' of
             None \<Rightarrow> Inr (ESP_FAIL, U, k1)
           | Some ob \<Rightarrow>
               let ob1 = ob\<lparr>uart_mode := UART_MODE_UART, coll_det_flg := False, rx_always_timeout_flg := False,
                            tx_ptr := None, tx_head := None, tx_len_tot := 0, tx_brk_flg := False, tx_brk_len := 0,
                            tx_waiting_brk := False, rx_buffered_len := 0, rx_buffer_full_flg := False, tx_waiting_fifo := False,
                            rx_int_usr_mask := UART_INTR_RXFIFO_FULL OR UART_INTR_RXFIFO_TOUT, tx_buf_size := tx_buffer_size\<rparr> in
               bind_res (xSemaphoreGive k1 (tx_fifo_sem ob1)) (\<lambda>(_, sem, k2).
               bind_res (if uart_queue then uxQueueSpacesAvailable (event_queue ob1) else Inr 0) (\<lambda>_.
               let U1 = snd (uart_pattern_queue_reset (a_pattern al) n 10 (put_obj n (ob1\<lparr>tx_fifo_sem := sem\<rparr>) U));
                   U2 = on_hw n (uart_hal_disable_intr_mask UART_LL_INTR_MASK) (uart_module_enable reset_hw n U1) in
               if intr_alloc \<noteq> ESP_OK
               then bind_res (uart_driver_delete n U2) (\<lambda>(_, U3). Inr (intr_alloc, U3, k2))
               else let (r, U3) = uart_intr_config n (Some \<lparr>intr_enable_mask = UART_INTR_CONFIG_FLAG, rx_timeout_thresh = 10,
                                     txfifo_empty_intr_thresh = 10, rxfifo_full_thresh = 120\<rparr>) U2 in
                    if r \<noteq> ESP_OK then bind_res (uart_driver_delete n U3) (\<lambda>(_, U4). Inr (r, U4, k2))
                    else Inr (ESP_OK, U3, k2)))))"

section \<open>Parameters\<close>

record uart_config_t =
  baud_rate :: u32
  data_bits :: u32
  cfg_parity :: u32
  stop_bits :: u32
  flow_ctrl :: u32
  rx_flow_ctrl_thresh :: u8
  source_clk :: "uart_sclk option"
  allow_pd :: bool
  backup_before_sleep :: bool

text \<open>A source that is not given is the default, the APB clock.\<close>

definition uart_sclk_sel :: "uart_config_t \<Rightarrow> uart_sclk" where
  "uart_sclk_sel c = (case source_clk c of None \<Rightarrow> UART_SCLK_APB | Some s \<Rightarrow> s)"

definition uart_hal_init :: "uart_dev \<Rightarrow> uart_dev" where
  "uart_hal_init hw =
     uart_ll_set_hw_flow_ctrl UART_HW_FLOWCTRL_DISABLE 100
       ((uart_ll_set_stop_bits UART_STOP_BITS_1 (uart_ll_set_data_bit_num UART_DATA_8_BITS
          (uart_ll_set_parity UART_PARITY_DISABLE (uart_ll_set_mode UART_MODE_UART hw))))\<lparr>tx_idle_num := 0\<rparr>)"

definition uart_param_config ::
  "(uart_sclk \<Rightarrow> esp_err + u32) \<Rightarrow> uart_dev \<Rightarrow> nat \<Rightarrow> uart_config_t option \<Rightarrow> uart \<Rightarrow> (esp_err \<times> uart) res" where
  "uart_param_config clk reset_hw n uart_config U =
     (if \<not> n < UART_NUM_MAX then Inr (ESP_FAIL, U)
      else case uart_config of
             None \<Rightarrow> Inr (ESP_FAIL, U)
           | Some c \<Rightarrow>
               if \<not> unat (rx_flow_ctrl_thresh c) < SOC_UART_FIFO_LEN then Inr (ESP_FAIL, U)
               else if \<not> flow_ctrl c < UART_HW_FLOWCTRL_MAX then Inr (ESP_FAIL, U)
               else if \<not> data_bits c < UART_DATA_BITS_MAX then Inr (ESP_FAIL, U)
               else if allow_pd c \<or> backup_before_sleep c then Inr (ESP_ERR_NOT_SUPPORTED, U)
               else let U1 = uart_module_enable reset_hw n U in
                    case clk (uart_sclk_sel c) of
                      Inl err \<Rightarrow> Inr (err, U1)
                    | Inr sclk_freq \<Rightarrow>
                        bind_res (uart_ll_set_baudrate (baud_rate c) sclk_freq
                                    (uart_ll_set_sclk (uart_sclk_sel c) (uart_hal_init (uart_hw U1 n)))) (\<lambda>hw.
                        let hw1 = uart_ll_set_parity (cfg_parity c) hw;
                            hw2 = uart_ll_set_data_bit_num (data_bits c) hw1;
                            hw3 = uart_ll_set_stop_bits (stop_bits c) hw2;
                            hw4 = hw3\<lparr>tx_idle_num := 0\<rparr>;
                            hw5 = uart_ll_set_hw_flow_ctrl (flow_ctrl c) (ucast (rx_flow_ctrl_thresh c)) hw4
                        in Inr (ESP_OK, on_hw n (\<lambda>_. uart_hal_txfifo_rst (uart_hal_rxfifo_rst hw5)) U1)))"

section \<open>Writing\<close>

text \<open>
  Waiting on the transmit ring buffer and on a semaphore of the driver: passes as in the kernel,
  where the environment holds the states of the whole driver in which the caller is resumed, since
  the interrupt handler runs in between.
\<close>

fun tx_send_passes :: "uart_env \<Rightarrow> u8 list \<Rightarrow> u32 \<Rightarrow> TimeOut_t option \<Rightarrow> kernel \<Rightarrow> nat \<Rightarrow> uart \<Rightarrow>
    (BaseType_t \<times> uart_env \<times> uart \<times> kernel) res" where
  "tx_send_passes e bs ticks t k n U =
     bind_res (deref (p_uart_obj U n)) (\<lambda>ob.
     bind_res (deref (tx_ring_buf ob)) (\<lambda>rb.
     bind_res (prvSendAcquireGeneric_pass (Send_Item bs) ticks t k rb) (\<lambda>(r, rb', k').
     let U' = put_obj n (ob\<lparr>tx_ring_buf := Some rb'\<rparr>) U in
     case r of
       Done (b, _) \<Rightarrow> Inr (b, e, U', k')
     | Again t' ticks' \<Rightarrow>
         (case e of
            [] \<Rightarrow> Inl Blocked_forever
          | (ke, Ue) # e' \<Rightarrow> tx_send_passes e' bs ticks' (Some t') ke n Ue))))"

declare tx_send_passes.simps [simp del]

definition tx_ring_send :: "uart_env \<Rightarrow> u8 list \<Rightarrow> kernel \<Rightarrow> nat \<Rightarrow> uart \<Rightarrow> (BaseType_t \<times> uart_env \<times> uart \<times> kernel) res" where
  "tx_ring_send e bs k n U =
     bind_res (deref (p_uart_obj U n)) (\<lambda>ob.
     case tx_ring_buf ob of
       None \<Rightarrow> Inl Assert_failed
     | Some rb \<Rightarrow>
         if unat (xMaxItemSize rb) < length bs then Inr (pdFALSE, e, U, k)
         else tx_send_passes e bs portMAX_DELAY None k n U)"

fun sem_wait ::
  "uart_env \<Rightarrow> (uart_obj_t \<Rightarrow> QueueHandle_t) \<Rightarrow> (QueueHandle_t \<Rightarrow> uart_obj_t \<Rightarrow> uart_obj_t) \<Rightarrow> u32 \<Rightarrow> TimeOut_t option \<Rightarrow>
   bool \<Rightarrow> kernel \<Rightarrow> nat \<Rightarrow> uart \<Rightarrow> (BaseType_t \<times> uart_env \<times> uart \<times> kernel) res" where
  "sem_wait e sem upd ticks t inh k n U =
     bind_res (deref (p_uart_obj U n)) (\<lambda>ob.
     case sem ob of
       None \<Rightarrow> Inl Assert_failed
     | Some q \<Rightarrow>
         assert_res (uxItemSize q = 0)
         (bind_res (xQueueSemaphoreTake_pass k q ticks t inh) (\<lambda>(r, inh', q', k').
         let U' = put_obj n (upd (Some q') ob) U in
         case r of
           Done b \<Rightarrow> Inr (b, e, U', k')
         | Again t' ticks' \<Rightarrow>
             (case e of
                [] \<Rightarrow> Inl Blocked_forever
              | (ke, Ue) # e' \<Rightarrow> sem_wait e' sem upd ticks' (Some t') inh' ke n Ue))))"

declare sem_wait.simps [simp del]

definition wait_fifo_sem :: "uart_env \<Rightarrow> kernel \<Rightarrow> nat \<Rightarrow> uart \<Rightarrow> (BaseType_t \<times> uart_env \<times> uart \<times> kernel) res" where
  "wait_fifo_sem e k n U = sem_wait e tx_fifo_sem (\<lambda>q ob. ob\<lparr>tx_fifo_sem := q\<rparr>) portMAX_DELAY None False k n U"

definition wait_brk_sem :: "uart_env \<Rightarrow> kernel \<Rightarrow> nat \<Rightarrow> uart \<Rightarrow> (BaseType_t \<times> uart_env \<times> uart \<times> kernel) res" where
  "wait_brk_sem e k n U = sem_wait e tx_brk_sem (\<lambda>q ob. ob\<lparr>tx_brk_sem := q\<rparr>) portMAX_DELAY None False k n U"

definition wait_done_sem :: "uart_env \<Rightarrow> u32 \<Rightarrow> kernel \<Rightarrow> nat \<Rightarrow> uart \<Rightarrow> (BaseType_t \<times> uart_env \<times> uart \<times> kernel) res" where
  "wait_done_sem e ticks k n U = sem_wait e tx_done_sem (\<lambda>q ob. ob\<lparr>tx_done_sem := q\<rparr>) ticks None False k n U"

text \<open>
  The data goes to the ring buffer in pieces of at most half its largest item; a piece is at least one
  byte, so the number of bytes bounds the number of turns.
\<close>

fun tx_pieces :: "nat \<Rightarrow> uart_env \<Rightarrow> nat \<Rightarrow> u8 list \<Rightarrow> kernel \<Rightarrow> nat \<Rightarrow> uart \<Rightarrow> (uart_env \<times> uart \<times> kernel) res" where
  "tx_pieces f e half src k n U =
     (if src = [] then Inr (e, U, k)
      else case f of
             0 \<Rightarrow> Inl Diverges
           | Suc f' \<Rightarrow>
               let send_size = (if half < length src then half else length src) in
               bind_res (tx_ring_send e (take send_size src) k n U) (\<lambda>(_, e1, U1, k1).
               tx_pieces f' e1 half (drop send_size src) k1 n (snd (uart_enable_tx_intr n 10 U1))))"

declare tx_pieces.simps [simp del]

text \<open>
  Without a ring buffer the data goes to the FIFO whenever the interrupt handler has said that it has
  room. The semaphore is taken in every turn and given only by the handler, so after the first turn
  the caller waits, and the number of times it is resumed bounds the number of turns.
\<close>

fun tx_direct :: "nat \<Rightarrow> uart_env \<Rightarrow> u8 list \<Rightarrow> kernel \<Rightarrow> nat \<Rightarrow> uart \<Rightarrow> (uart_env \<times> uart \<times> kernel) res" where
  "tx_direct f e src k n U =
     (if src = [] then Inr (e, U, k)
      else case f of
             0 \<Rightarrow> Inl Diverges
           | Suc f' \<Rightarrow>
               bind_res (wait_fifo_sem e k n U) (\<lambda>(r, e1, U1, k1).
               if r = pdTRUE
               then bind_res (uart_enable_tx_write_fifo n src U1) (\<lambda>(sent_len, U2).
                    bind_res (deref (p_uart_obj U2 n)) (\<lambda>ob.
                    let U3 = (if sent_len < length src
                              then snd (uart_enable_tx_intr n 10 (put_obj n (ob\<lparr>tx_waiting_fifo := True\<rparr>) U2)) else U2)
                    in tx_direct f' e1 (drop sent_len src) k1 n U3))
               else tx_direct f' e1 src k1 n U1))"

declare tx_direct.simps [simp del]

definition give_fifo_sem :: "kernel \<Rightarrow> nat \<Rightarrow> uart \<Rightarrow> (uart \<times> kernel) res" where
  "give_fifo_sem k n U =
     bind_res (deref (p_uart_obj U n)) (\<lambda>ob.
     bind_res (xSemaphoreGive k (tx_fifo_sem ob)) (\<lambda>(_, q, k'). Inr (put_obj n (ob\<lparr>tx_fifo_sem := q\<rparr>) U, k')))"

definition tx_break :: "uart_env \<Rightarrow> int \<Rightarrow> kernel \<Rightarrow> nat \<Rightarrow> uart \<Rightarrow> (uart_env \<times> uart \<times> kernel) res" where
  "tx_break e brk_len k n U =
     bind_res (wait_brk_sem e k n
                 (on_hw n (\<lambda>hw. uart_hal_ena_intr_mask UART_INTR_TX_BRK_DONE (uart_hal_tx_break (word_of_int brk_len) hw)) U))
       (\<lambda>(_, e', U', k'). Inr (e', U', k'))"

definition uart_tx_all ::
  "env \<Rightarrow> uart_env \<Rightarrow> nat \<Rightarrow> u8 list \<Rightarrow> bool \<Rightarrow> int \<Rightarrow> kernel \<Rightarrow> uart \<Rightarrow> (int \<times> uart \<times> kernel) res" where
  "uart_tx_all em e n src brk_en brk_len k U =
     (if src = [] then Inr (0, U, k)
      else bind_res (deref (p_uart_obj U n)) (\<lambda>ob.
           bind_res (xSemaphoreTake em k (tx_mux ob) portMAX_DELAY) (\<lambda>(_, mux, k1).
           let U1 = put_obj n (ob\<lparr>tx_mux := mux, coll_det_flg := False\<rparr>) U in
           bind_res
             (if tx_buf_size ob > 0
              then bind_res (deref (tx_ring_buf ob)) (\<lambda>rb.
                   bind_res (tx_ring_send e (tx_data_bytes (if brk_en then UART_DATA_BREAK else UART_DATA) (word_of_int brk_len)
                                               (of_nat (length src))) k1 n U1) (\<lambda>(_, e1, U2, k2).
                   tx_pieces (length src) e1 (unat (xMaxItemSize rb) div 2) src k2 n U2))
              else bind_res (tx_direct (length e + 1) e src k1 n U1) (\<lambda>(e1, U2, k2).
                   bind_res (if brk_en then tx_break e1 brk_len k2 n U2 else Inr (e1, U2, k2)) (\<lambda>(e2, U3, k3).
                   bind_res (give_fifo_sem k3 n U3) (\<lambda>(U4, k4). Inr (e2, U4, k4)))))
             (\<lambda>(_, U5, k5).
             bind_res (deref (p_uart_obj U5 n)) (\<lambda>ob5.
             bind_res (xSemaphoreGive k5 (tx_mux ob5)) (\<lambda>(_, mux5, k6).
             Inr (int (length src), put_obj n (ob5\<lparr>tx_mux := mux5\<rparr>) U5, k6)))))))"

definition uart_write_bytes ::
  "env \<Rightarrow> uart_env \<Rightarrow> nat \<Rightarrow> u8 list option \<Rightarrow> kernel \<Rightarrow> uart \<Rightarrow> (int \<times> uart \<times> kernel) res" where
  "uart_write_bytes em e n src k U =
     (if \<not> n < UART_NUM_MAX then Inr (- 1, U, k)
      else if p_uart_obj U n = None then Inr (- 1, U, k)
      else case src of None \<Rightarrow> Inr (- 1, U, k) | Some bs \<Rightarrow> uart_tx_all em e n bs False 0 k U)"

definition uart_write_bytes_with_break ::
  "env \<Rightarrow> uart_env \<Rightarrow> nat \<Rightarrow> u8 list option \<Rightarrow> int \<Rightarrow> kernel \<Rightarrow> uart \<Rightarrow> (int \<times> uart \<times> kernel) res" where
  "uart_write_bytes_with_break em e n src brk_len k U =
     (if \<not> n < UART_NUM_MAX then Inr (- 1, U, k)
      else if p_uart_obj U n = None then Inr (- 1, U, k)
      else if src = Some [] then Inr (- 1, U, k)
      else case src of
             None \<Rightarrow> Inr (- 1, U, k)
           | Some bs \<Rightarrow> if 0 < brk_len \<and> brk_len < 256 then uart_tx_all em e n bs True brk_len k U else Inr (- 1, U, k))"

definition uart_tx_chars :: "env \<Rightarrow> nat \<Rightarrow> u8 list option \<Rightarrow> kernel \<Rightarrow> uart \<Rightarrow> (int \<times> uart \<times> kernel) res" where
  "uart_tx_chars em n buffer k U =
     (if \<not> n < UART_NUM_MAX then Inr (- 1, U, k)
      else case p_uart_obj U n of
             None \<Rightarrow> Inr (- 1, U, k)
           | Some ob \<Rightarrow>
               (case buffer of
                  None \<Rightarrow> Inr (- 1, U, k)
                | Some bs \<Rightarrow>
                    if bs = [] then Inr (0, U, k)
                    else bind_res (xSemaphoreTake em k (tx_mux ob) portMAX_DELAY) (\<lambda>(_, mux, k1).
                         bind_res (uart_enable_tx_write_fifo n bs (put_obj n (ob\<lparr>tx_mux := mux\<rparr>) U)) (\<lambda>(tx_len, U1).
                         bind_res (xSemaphoreGive k1 mux) (\<lambda>(_, mux1, k2).
                         Inr (int tx_len, put_obj n (ob\<lparr>tx_mux := mux1\<rparr>) U1, k2))))))"

definition uart_get_tx_buffer_free_size :: "nat \<Rightarrow> uart \<Rightarrow> esp_err \<times> int option" where
  "uart_get_tx_buffer_free_size n U =
     (if \<not> n < UART_NUM_MAX then (ESP_ERR_INVALID_ARG, None)
      else case p_uart_obj U n of
             None \<Rightarrow> (ESP_ERR_INVALID_ARG, None)
           | Some ob \<Rightarrow> (ESP_OK, Some (uint (word_of_int (tx_buf_size ob) - tx_len_tot ob :: u32))))"

text \<open>
  Waiting for the end of a transmission. The raw interrupt bits are the hardware's; the time spent
  waiting for the mutex counts against the time allowed.
\<close>

definition uart_wait_tx_done ::
  "env \<Rightarrow> uart_env \<Rightarrow> u32 \<Rightarrow> nat \<Rightarrow> u32 \<Rightarrow> kernel \<Rightarrow> uart \<Rightarrow> (esp_err \<times> uart \<times> kernel) res" where
  "uart_wait_tx_done em e raw n ticks k U =
     (if \<not> n < UART_NUM_MAX then Inr (ESP_FAIL, U, k)
      else case p_uart_obj U n of
             None \<Rightarrow> Inr (ESP_FAIL, U, k)
           | Some ob \<Rightarrow>
               bind_res (xSemaphoreTake em k (tx_mux ob) ticks) (\<lambda>(r, mux, k1).
               let U1 = put_obj n (ob\<lparr>tx_mux := mux\<rparr>) U in
               if r = pdFALSE then Inr (ESP_ERR_TIMEOUT, U1, k1)
               else assert_res (\<not> (uart_mode ob = UART_MODE_RS485_HALF_DUPLEX \<and>
                      \<not> has_flag (uart_int_ena (uart_hw U n)) UART_INTR_TX_DONE \<and> has_flag raw UART_INTR_TX_DONE))
                    (bind_res (wait_done_sem [] 0 k1 n U1) (\<lambda>(_, _, U2, k2).
                    if uart_ll_is_tx_idle (uart_hw U2 n)
                    then bind_res (deref (p_uart_obj U2 n)) (\<lambda>ob2.
                         bind_res (xSemaphoreGive k2 (tx_mux ob2)) (\<lambda>(_, mux2, k3).
                         Inr (ESP_OK, put_obj n (ob2\<lparr>tx_mux := mux2\<rparr>) U2, k3)))
                    else let U3 = on_hw n (uart_hal_ena_intr_mask UART_INTR_TX_DONE) U2;
                             spent = xTickCount k2 - xTickCount k;
                             left = (if ticks < spent then 0 else ticks - spent) in
                         bind_res (wait_done_sem e left k2 n U3) (\<lambda>(r2, _, U4, k4).
                         bind_res (deref (p_uart_obj U4 n)) (\<lambda>ob4.
                         bind_res (xSemaphoreGive k4 (tx_mux ob4)) (\<lambda>(_, mux4, k5).
                         Inr (if r2 = pdFALSE then ESP_ERR_TIMEOUT else ESP_OK, put_obj n (ob4\<lparr>tx_mux := mux4\<rparr>) U4, k5))))))))"

section \<open>A port after installation\<close>

text \<open>
  The allocations whose results the installation checks, for a transmit buffer of \<^term>\<open>tx\<close> bytes
  and \<^term>\<open>ev\<close> places for events, of which there may be none. The one of the pattern positions is
  not among them: nothing looks at the result of \<^verbatim>\<open>uart_pattern_queue_reset\<close>.
\<close>

definition mem_ok :: "int \<Rightarrow> int \<Rightarrow> uart_allocs \<Rightarrow> bool" where
  "mem_ok tx ev al \<longleftrightarrow> a_obj al \<and> a_data_buf al \<and> (0 < ev \<longrightarrow> a_event_struct al \<and> a_event_storage al \<noteq> None) \<and>
     (0 < tx \<longrightarrow> a_tx_struct al \<and> a_tx_storage al \<noteq> None) \<and> a_rx_struct al \<and> a_rx_storage al \<noteq> None \<and>
     a_tx_mux al \<and> a_rx_mux al \<and> a_brk_sem al \<and> a_done_sem al \<and> a_fifo_sem al"

text \<open>
  The sizes that are not refused, a transmit buffer of no bytes and an event queue of no places
  included; the upper bounds are far above the memory of the chip.
\<close>

definition sizes_ok :: "int \<Rightarrow> int \<Rightarrow> int \<Rightarrow> bool" where
  "sizes_ok rx tx ev \<longleftrightarrow> int SOC_UART_FIFO_LEN < rx \<and> rx < 2 ^ 31 \<and> (int SOC_UART_FIFO_LEN < tx \<or> tx = 0) \<and> tx < 2 ^ 30 \<and> ev < 2 ^ 28"

lemma unat_word_of_int_small:
  assumes "0 \<le> i" and "i < 2 ^ 31"
  shows "unat (word_of_int i :: u32) = nat i"
proof -
  have "uint (word_of_int i :: u32) = i" using assms by (simp add: uint_word_of_int)
  then show ?thesis by (simp flip: nat_uint_eq)
qed

lemma align_pos:
  assumes "0 < n" and "n < 2 ^ 31"
  shows "0 < rbALIGN_SIZE (word_of_int n)" "rbALIGN_SIZE m AND 3 = 0"
proof -
  have "rbALIGN_SIZE (word_of_int n) \<noteq> 0"
  proof
    let ?x = "word_of_int n + 3 :: u32"
    assume "rbALIGN_SIZE (word_of_int n) = 0"
    then have "?x AND NOT 3 = 0" by (simp add: rbALIGN_SIZE_def)
    moreover have "?x = (?x AND NOT 3) OR (?x AND 3)" by (rule bit_word_eqI) (auto simp: bit_simps)
    ultimately have "?x = ?x AND 3" by simp
    moreover have "?x AND 3 \<le> 3" by (rule word_and_le1)
    moreover have "unat ?x = nat n + 3" using assms unat_word_of_int_small [of n] by (simp add: unat_word_ariths)
    ultimately show False using assms(1) by (simp add: word_le_nat_alt)
  qed
  then show "0 < rbALIGN_SIZE (word_of_int n)" by (simp add: word_gt_0)
  show "rbALIGN_SIZE m AND 3 = 0" by (simp add: rbALIGN_SIZE_def and.assoc)
qed

text \<open>What each creation returns, whether or not its memory is there.\<close>

lemma uart_creations:
  assumes "sizes_ok rx tx ev"
  shows "0 < ev \<Longrightarrow> xQueueCreateWithCaps a b (word_of_int ev) 12 =
      Inr (if a \<and> b \<noteq> None then Some (fresh_queue (the b) (word_of_int ev) 12) else None)"
    and "xRingbufferCreateWithCaps a b (word_of_int rx) RINGBUF_TYPE_BYTEBUF =
      Inr (if a \<and> b \<noteq> None then Some (rb_set rbBUFFER_STATIC_FLAG (fresh_bytebuf (the b) (word_of_int rx))) else None)"
    and "0 < tx \<Longrightarrow> xRingbufferCreateWithCaps a b (word_of_int tx) RINGBUF_TYPE_NOSPLIT =
      Inr (if a \<and> b \<noteq> None
           then Some (rb_set rbBUFFER_STATIC_FLAG (prvInitializeNewRingbuffer (rbALIGN_SIZE (word_of_int tx)) RINGBUF_TYPE_NOSPLIT
                  (map (the b) [0..<unat (rbALIGN_SIZE (word_of_int tx))]))) else None)"
proof -
  have u: "0 < (word_of_int i :: u32)" if "0 < i" "i < 2 ^ 31" for i
    using that unat_word_of_int_small [of i] by (simp add: word_less_nat_alt)
  show "xQueueCreateWithCaps a b (word_of_int ev) 12 =
      Inr (if a \<and> b \<noteq> None then Some (fresh_queue (the b) (word_of_int ev) 12) else None)" if "0 < ev"
    using that assms unat_word_of_int_small [of ev] u [of ev] create_queue_caps [of "word_of_int ev" 12]
    by (cases b; cases a) (auto simp: sizes_ok_def, auto simp: xQueueCreateWithCaps_def)
  show "xRingbufferCreateWithCaps a b (word_of_int rx) RINGBUF_TYPE_BYTEBUF =
      Inr (if a \<and> b \<noteq> None then Some (rb_set rbBUFFER_STATIC_FLAG (fresh_bytebuf (the b) (word_of_int rx))) else None)"
    using assms u [of rx] create_bytebuf_caps [of "word_of_int rx"]
    by (cases b; cases a) (auto simp: sizes_ok_def SOC_UART_FIFO_LEN_def, auto simp: xRingbufferCreateWithCaps_def)
  show "xRingbufferCreateWithCaps a b (word_of_int tx) RINGBUF_TYPE_NOSPLIT =
      Inr (if a \<and> b \<noteq> None
           then Some (rb_set rbBUFFER_STATIC_FLAG (prvInitializeNewRingbuffer (rbALIGN_SIZE (word_of_int tx)) RINGBUF_TYPE_NOSPLIT
                  (map (the b) [0..<unat (rbALIGN_SIZE (word_of_int tx))]))) else None)" if "0 < tx"
    using that align_pos [of tx] assms
    by (cases b; cases a) (simp_all add: xRingbufferCreateWithCaps_def xRingbufferCreateStatic_def aligned_size_def sizes_ok_def SOC_UART_FIFO_LEN_def Let_def)
qed

lemma sem_creations:
  "xSemaphoreCreateGenericWithCaps queueQUEUE_TYPE_MUTEX a k = Inr (if a then Some new_mutex else None, k)"
  "xSemaphoreCreateGenericWithCaps queueQUEUE_TYPE_BINARY_SEMAPHORE a k = Inr (if a then Some new_binary else None, k)"
  using create_mutex_caps [of k] create_binary_caps [of k] by (cases a; simp add: xSemaphoreCreateGenericWithCaps_def)+

text \<open>The object that comes out; if any allocation fails nothing is left behind.\<close>

definition new_obj :: "uart_allocs \<Rightarrow> int \<Rightarrow> int \<Rightarrow> int \<Rightarrow> uart_obj_t" where
  "new_obj al rx tx ev =
     zero_obj\<lparr>event_queue := (if 0 < ev then Some (fresh_queue (the (a_event_storage al)) (word_of_int ev) 12) else None),
       tx_ring_buf := (if 0 < tx then Some (rb_set rbBUFFER_STATIC_FLAG (prvInitializeNewRingbuffer (rbALIGN_SIZE (word_of_int tx))
         RINGBUF_TYPE_NOSPLIT (map (the (a_tx_storage al)) [0..<unat (rbALIGN_SIZE (word_of_int tx))]))) else None),
       rx_ring_buf := Some (rb_set rbBUFFER_STATIC_FLAG (fresh_bytebuf (the (a_rx_storage al)) (word_of_int rx))),
       tx_mux := Some new_mutex, rx_mux := Some new_mutex, tx_brk_sem := Some new_binary, tx_done_sem := Some new_binary,
       tx_fifo_sem := Some new_binary\<rparr>"

lemma alloc_all_or_nothing:
  assumes "sizes_ok rx tx ev"
  shows "uart_alloc_driver_obj al ev tx rx k = Inr (if mem_ok tx ev al then Some (new_obj al rx tx ev) else None, k)"
  by (cases "0 < ev"; cases "0 < tx")
    (auto simp: uart_alloc_driver_obj_def mem_ok_def uart_creations [OF assms] sem_creations new_obj_def zero_obj_def)

text \<open>The object after installation, and that it is ready for receiving.\<close>

definition installed_obj :: "uart_allocs \<Rightarrow> int \<Rightarrow> int \<Rightarrow> int \<Rightarrow> uart_obj_t" where
  "installed_obj al rx tx ev =
     (new_obj al rx tx ev)\<lparr>rx_int_usr_mask := UART_INTR_RXFIFO_FULL OR UART_INTR_RXFIFO_TOUT, tx_buf_size := tx,
        tx_fifo_sem := Some (new_binary\<lparr>uxMessagesWaiting := 1\<rparr>),
        rx_pattern_pos := (case a_pattern al of
            None \<Rightarrow> \<lparr>pat_wr = 0, pat_rd = 0, pat_len = 0, pat_data = None\<rparr>
          | Some junk \<Rightarrow> \<lparr>pat_wr = 0, pat_rd = 0, pat_len = 10, pat_data = Some (map junk [0..<10])\<rparr>)\<rparr>"

lemma installed_obj_ok:
  assumes "sizes_ok rx tx ev"
  shows "rx_ok (installed_obj al rx tx ev)" "rx_stream (installed_obj al rx tx ev) = []"
    "rb_cap (rx_ring (installed_obj al rx tx ev)) = nat rx"
    "0 < ev \<Longrightarrow> event_queue_ok (installed_obj al rx tx ev)" "events (installed_obj al rx tx ev) = []"
proof -
  let ?o = "installed_obj al rx tx ev"
  have u: "unat (word_of_int rx :: u32) = nat rx" "0 \<le> ev \<Longrightarrow> unat (word_of_int ev :: u32) = nat ev"
    using assms unat_word_of_int_small [of rx] unat_word_of_int_small [of ev] by (simp_all add: sizes_ok_def SOC_UART_FIFO_LEN_def)
  then have pos: "0 < (word_of_int rx :: u32)" "unat (word_of_int rx :: u32) < 2 ^ 31"
    using assms by (auto simp: sizes_ok_def SOC_UART_FIFO_LEN_def word_less_nat_alt)
  note st = static_bytebuf_state [OF pos, of "the (a_rx_storage al)"] fresh_bytebuf_state(4) [OF pos, of "the (a_rx_storage al)"]
  have ring: "rx_ring ?o = rb_set rbBUFFER_STATIC_FLAG (fresh_bytebuf (the (a_rx_storage al)) (word_of_int rx))"
    by (simp add: rx_ring_def installed_obj_def new_obj_def)
  show cap: "rb_cap (rx_ring ?o) = nat rx" using st(4) u(1) by (simp add: ring rb_set_def rb_cap_def)
  show "rx_ok ?o" using st assms cap
    by (auto simp: rx_ok_def rx_base_def ring) (auto simp: installed_obj_def new_obj_def zero_obj_def pat_ok_def sizes_ok_def split: option.splits)
  show "rx_stream ?o = []" using st(3) by (simp add: rx_stream_def ring rx_stash_def) (simp add: installed_obj_def new_obj_def zero_obj_def)
  have "queue_inv (fresh_queue (the (a_event_storage al)) (word_of_int ev) 12) \<and> q_items (fresh_queue (the (a_event_storage al)) (word_of_int ev) 12) = []"
    if "0 < ev" using that u(2) assms by (intro fresh_queue_inv) (simp_all add: sizes_ok_def)
  then show "0 < ev \<Longrightarrow> event_queue_ok ?o" "events ?o = []"
    by (simp_all add: event_queue_ok_def events_def installed_obj_def new_obj_def zero_obj_def) (simp add: fresh_queue_def isz_def)
qed

lemma uart_module_enable_frame [simp]:
  "p_uart_obj (uart_module_enable hw n U) = p_uart_obj U" "pat_flg (uart_module_enable hw n U) = pat_flg U"
  "hw_enabled (uart_module_enable hw n U) n"
  by (simp_all add: uart_module_enable_def uart_ll_enable_bus_clock_def uart_ll_reset_register_def on_hw_def Let_def)

lemma module_enable_fifo:
  "length (rx_fifo hw) \<le> m \<Longrightarrow> length (rx_fifo (uart_hw U n)) \<le> m \<Longrightarrow> length (rx_fifo (uart_hw (uart_module_enable hw n U) n)) \<le> m"
  by (auto simp: uart_module_enable_def uart_ll_enable_bus_clock_def uart_ll_reset_register_def on_hw_def Let_def)

definition config_intr :: "uart_intr_config_t" where
  "config_intr = \<lparr>intr_enable_mask = UART_INTR_CONFIG_FLAG, rx_timeout_thresh = 10, txfifo_empty_intr_thresh = 10, rxfifo_full_thresh = 120\<rparr>"

definition installed :: "uart_allocs \<Rightarrow> uart_dev \<Rightarrow> nat \<Rightarrow> int \<Rightarrow> int \<Rightarrow> int \<Rightarrow> uart \<Rightarrow> uart" where
  "installed al reset_hw n rx tx ev U =
     on_hw n (uart_hal_disable_intr_mask UART_LL_INTR_MASK) (uart_module_enable reset_hw n (put_obj n (installed_obj al rx tx ev) U))"

lemma install_eq:
  assumes "n < UART_NUM_MAX" and "p_uart_obj U n = None" and "sizes_ok rx tx ev" and "mem_ok tx ev al" and "b \<longrightarrow> 0 < ev"
  shows "uart_driver_install al reset_hw ia n rx tx ev b k U =
    (if ia \<noteq> ESP_OK then bind_res (uart_driver_delete n (installed al reset_hw n rx tx ev U)) (\<lambda>(_, U3). Inr (ia, U3, k))
     else Inr (ESP_OK, snd (uart_intr_config n (Some config_intr) (installed al reset_hw n rx tx ev U)), k))"
proof -
  let ?ob = "(new_obj al rx tx ev)\<lparr>uart_mode := UART_MODE_UART, coll_det_flg := False, rx_always_timeout_flg := False,
                            tx_ptr := None, tx_head := None, tx_len_tot := 0, tx_brk_flg := False, tx_brk_len := 0,
                            tx_waiting_brk := False, rx_buffered_len := 0, rx_buffer_full_flg := False, tx_waiting_fifo := False,
                            rx_int_usr_mask := UART_INTR_RXFIFO_FULL OR UART_INTR_RXFIFO_TOUT, tx_buf_size := tx\<rparr>"
  have g: "xSemaphoreGive k (tx_fifo_sem (new_obj al rx tx ev)) = Inr (pdPASS, Some (new_binary\<lparr>uxMessagesWaiting := 1\<rparr>), k)"
    using binary_give_eq [OF new_sems(2), of k] by (simp add: new_obj_def)
  have p: "snd (uart_pattern_queue_reset (a_pattern al) n 10 (put_obj n (?ob\<lparr>tx_fifo_sem := Some (new_binary\<lparr>uxMessagesWaiting := 1\<rparr>)\<rparr>) U)) =
      put_obj n (installed_obj al rx tx ev) U"
    using assms(1) by (auto simp: uart_pattern_queue_reset_def installed_obj_def new_obj_def zero_obj_def split: option.splits)
  obtain x where x: "b \<longrightarrow> uxQueueSpacesAvailable (event_queue (new_obj al rx tx ev)) = Inr x"
    using assms(5) by (auto simp: uxQueueSpacesAvailable_def new_obj_def)
  have i: "uart_intr_config n (Some c) V = (ESP_OK, snd (uart_intr_config n (Some c) V))" for c V
    using assms(1) by (simp add: uart_intr_config_def)
  have sizes: "rx > int SOC_UART_FIFO_LEN" "tx > int SOC_UART_FIFO_LEN \<or> tx = 0" using assms(3) by (simp_all add: sizes_ok_def)
  have "uart_driver_install al reset_hw ia n rx tx ev b k U =
    (let U2 = installed al reset_hw n rx tx ev U in
     if ia \<noteq> ESP_OK then bind_res (uart_driver_delete n U2) (\<lambda>(_, U3). Inr (ia, U3, k))
     else let (r, U3) = uart_intr_config n (Some config_intr) U2 in
          if r \<noteq> ESP_OK then bind_res (uart_driver_delete n U3) (\<lambda>(_, U4). Inr (r, U4, k)) else Inr (ESP_OK, U3, k))"
    unfolding uart_driver_install_def alloc_all_or_nothing [OF assms(3)] Let_def
    using assms(1,2,4) sizes x by (cases b) (simp_all add: g p installed_def config_intr_def Let_def)
  then show ?thesis unfolding Let_def by (subst (asm) i) simp
qed

lemma delete_removes:
  assumes "n < UART_NUM_MAX" and "p_uart_obj U n = Some ob"
  shows "\<exists>U'. uart_driver_delete n U = Inr (ESP_OK, U') \<and> p_uart_obj U' = (p_uart_obj U)(n := None) \<and> \<not> hw_enabled U' n"
  using assms
  by (auto simp: uart_driver_delete_def uart_disable_rx_intr_def uart_disable_tx_intr_def uart_disable_intr_mask_def
      uart_pattern_link_free_def uart_module_disable_def uart_ll_enable_bus_clock_def put_obj_def on_hw_def Let_def)

lemma masked_flags:
  "has_flag ((w AND NOT UART_LL_INTR_MASK) OR UART_INTR_CONFIG_FLAG) UART_INTR_RXFIFO_FULL"
  "has_flag ((w AND NOT UART_LL_INTR_MASK) OR UART_INTR_CONFIG_FLAG) UART_INTR_RXFIFO_TOUT"
  "has_flag ((w AND NOT UART_LL_INTR_MASK) OR UART_INTR_CONFIG_FLAG) UART_INTR_RXFIFO_OVF"
  "\<not> has_flag ((w AND NOT UART_LL_INTR_MASK) OR UART_INTR_CONFIG_FLAG) UART_INTR_TXFIFO_EMPTY"
  by (simp_all add: has_flag_def UART_INTR_CONFIG_FLAG_def UART_LL_INTR_MASK_def UART_INTR_RXFIFO_FULL_def UART_INTR_RXFIFO_TOUT_def
      UART_INTR_RXFIFO_OVF_def UART_INTR_BRK_DET_def UART_INTR_PARITY_ERR_def UART_INTR_WAKEUP_def UART_INTR_TXFIFO_EMPTY_def
      word_ao_dist and.assoc)

text \<open>Configuring a port sets what was asked for, empties the FIFOs, and leaves driver and interrupts alone.\<close>

lemma set_baudrate_frame:
  assumes "uart_ll_set_baudrate b f hw = Inr hw'"
  shows "\<exists>x y z. hw' = hw\<lparr>clkdiv := x, clkdiv_frag := y, sclk_div_num := z\<rparr>"
  using assms by (auto simp: uart_ll_set_baudrate_def assert_res_eq_Inr_iff Let_def split: if_splits)

lemma param_config_keeps_driver:
  assumes "uart_param_config clk reset_hw n c U = Inr (r, U')"
  shows "p_uart_obj U' = p_uart_obj U" "pat_flg U' = pat_flg U"
  using assms by (auto simp: uart_param_config_def bind_res_eq_Inr_iff Let_def split: if_splits option.splits sum.splits)

lemma param_config_sets:
  assumes "n < UART_NUM_MAX" and "clk (uart_sclk_sel c) = Inr f" and "baud_ok (baud_rate c) f"
    and "unat (rx_flow_ctrl_thresh c) < SOC_UART_FIFO_LEN" and "flow_ctrl c < UART_HW_FLOWCTRL_MAX"
    and "data_bits c < UART_DATA_BITS_MAX" and "\<not> allow_pd c" and "\<not> backup_before_sleep c" and "hw_enabled U n"
  shows "\<exists>U'. uart_param_config clk reset_hw n (Some c) U = Inr (ESP_OK, U') \<and> rx_fifo (uart_hw U' n) = [] \<and> tx_fifo (uart_hw U' n) = [] \<and>
    uart_int_ena (uart_hw U' n) = uart_int_ena (uart_hw U n)"
proof -
  let ?hw = "uart_ll_set_sclk (uart_sclk_sel c) (uart_hal_init (uart_hw U n))"
  obtain hw' where hw: "uart_ll_set_baudrate (baud_rate c) f ?hw = Inr hw'" using set_baudrate_divider [OF assms(3)] by blast
  obtain x y z where "hw' = ?hw\<lparr>clkdiv := x, clkdiv_frag := y, sclk_div_num := z\<rparr>" using set_baudrate_frame [OF hw] by blast
  then have "uart_int_ena hw' = uart_int_ena (uart_hw U n)"
    by (simp add: uart_ll_set_sclk_def uart_hal_init_def uart_ll_set_hw_flow_ctrl_def uart_ll_set_stop_bits_def
        uart_ll_set_data_bit_num_def uart_ll_set_parity_def Let_def)
  then show ?thesis using assms hw
    by (simp add: uart_param_config_def uart_module_enable_def uart_hal_txfifo_rst_def uart_hal_rxfifo_rst_def
        uart_ll_set_hw_flow_ctrl_def uart_ll_set_stop_bits_def uart_ll_set_data_bit_num_def uart_ll_set_parity_def Let_def)
qed

lemma install_ready_state:
  assumes "n < UART_NUM_MAX" and "p_uart_obj U n = None" and "sizes_ok rx tx ev" and "mem_ok tx ev al" and "b \<longrightarrow> 0 < ev"
    and "\<not> pat_flg U" and "length (rx_fifo reset_hw) \<le> SOC_UART_FIFO_LEN" and "length (rx_fifo (uart_hw U n)) \<le> SOC_UART_FIFO_LEN"
    and "kernel_ok k"
  shows "\<exists>U'. uart_driver_install al reset_hw ESP_OK n rx tx ev b k U = Inr (ESP_OK, U', k) \<and> (0 < ev \<longrightarrow> port_ok n U') \<and>
    rx_ok (port_obj n U') \<and>
    rx_stream (port_obj n U') = [] \<and> rb_cap (rx_ring (port_obj n U')) = nat rx \<and> events (port_obj n U') = [] \<and>
    mutex_ready k (rx_mux (port_obj n U')) \<and> mutex_ready k (tx_mux (port_obj n U')) \<and>
    has_flag (uart_int_ena (uart_hw U' n)) UART_INTR_RXFIFO_FULL \<and> has_flag (uart_int_ena (uart_hw U' n)) UART_INTR_RXFIFO_TOUT \<and>
    \<not> has_flag (uart_int_ena (uart_hw U' n)) UART_INTR_TXFIFO_EMPTY \<and> rxfifo_full_thrhd (uart_hw U' n) = 120 \<and>
    p_uart_obj U' = (p_uart_obj U)(n := Some (installed_obj al rx tx ev)) \<and> hw_enabled U' n \<and>
    rx_int_usr_mask (port_obj n U') = UART_INTR_RXFIFO_FULL OR UART_INTR_RXFIFO_TOUT \<and> port_obj n U' = installed_obj al rx tx ev"
proof -
  let ?U2 = "installed al reset_hw n rx tx ev U"
  let ?U' = "snd (uart_intr_config n (Some config_intr) ?U2)"
  have tout: "uart_int_ena (uart_hal_set_rx_timeout t hw) = uart_int_ena hw" "rx_fifo (uart_hal_set_rx_timeout t hw) = rx_fifo hw" for t hw
    by (simp_all add: uart_hal_set_rx_timeout_def uart_ll_set_rx_tout_def)
  have fifo: "length (rx_fifo (uart_hw ?U' n)) \<le> SOC_UART_FIFO_LEN"
    using assms(1,7,8) by (simp add: uart_intr_config_def config_intr_def installed_def tout module_enable_fifo
        uart_hal_ena_intr_mask_def uart_hal_disable_intr_mask_def Let_def)
  have obj: "p_uart_obj ?U' = (p_uart_obj U)(n := Some (installed_obj al rx tx ev))" "pat_flg ?U' = pat_flg U"
    using assms(1) by (simp_all add: uart_intr_config_def installed_def put_obj_def)
  have ena: "uart_int_ena (uart_hw ?U' n) =
      (uart_int_ena (uart_hw (uart_module_enable reset_hw n (put_obj n (installed_obj al rx tx ev) U)) n) AND NOT UART_LL_INTR_MASK) OR UART_INTR_CONFIG_FLAG"
    using assms(1) by (simp add: uart_intr_config_def config_intr_def installed_def tout uart_hal_ena_intr_mask_def
        uart_hal_disable_intr_mask_def Let_def)
  have full: "has_flag UART_INTR_CONFIG_FLAG UART_INTR_RXFIFO_FULL" "\<not> has_flag UART_INTR_CONFIG_FLAG UART_INTR_TXFIFO_EMPTY"
    using masked_flags(1,4) [of 0] by simp_all
  then have thr: "rxfifo_full_thrhd (uart_hw ?U' n) = 120"
    using assms(1) by (simp add: uart_intr_config_def config_intr_def uart_hal_ena_intr_mask_def Let_def)
  have mux: "rx_mux (installed_obj al rx tx ev) = Some new_mutex" "tx_mux (installed_obj al rx tx ev) = Some new_mutex"
    by (simp_all add: installed_obj_def new_obj_def)
  have "0 < ev \<longrightarrow> port_ok n ?U'" "port_obj n ?U' = installed_obj al rx tx ev"
    using assms(1,6) fifo obj installed_obj_ok [OF assms(3), of al] by (simp_all add: port_ok_def port_obj_def)
  moreover have "mutex_ready k (Some new_mutex)" using assms(9) new_sems(1) by (simp add: mutex_ready_def)
  moreover have "hw_enabled ?U' n" "rx_int_usr_mask (installed_obj al rx tx ev) = UART_INTR_RXFIFO_FULL OR UART_INTR_RXFIFO_TOUT"
    using assms(1) by (simp_all add: uart_intr_config_def installed_def on_hw_def installed_obj_def new_obj_def)
  ultimately show ?thesis
    using install_eq [OF assms(1-5), of reset_hw ESP_OK k] installed_obj_ok [OF assms(3), of al] mux ena thr masked_flags obj
    by simp
qed

section \<open>Properties\<close>

definition demo_allocs :: uart_allocs where
  "demo_allocs =
     \<lparr>a_obj = True, a_data_buf = True, a_event_struct = True, a_event_storage = Some (\<lambda>_. 0), a_tx_struct = True,
      a_tx_storage = Some (\<lambda>_. 0), a_rx_struct = True, a_rx_storage = Some (\<lambda>_. 0), a_tx_mux = True, a_rx_mux = True,
      a_brk_sem = True, a_done_sem = True, a_fifo_sem = True, a_pattern = Some (\<lambda>_. 0)\<rparr>"

lemma demo_kernel_ok: "kernel_ok demo_kernel"
  by (simp add: kernel_ok_def demo_kernel_def demo_tcb_def)

text \<open>
  C38. Installation is all or nothing, except for the pattern positions. A second installation, and
  one in which any of the checked allocations fails (thirteen of them with a transmit buffer and an
  event queue), report failure and change nothing; when no interrupt line is to be had its error is
  reported and the driver is removed again, so that no port keeps a half-installed driver and the
  port's clock is off. The allocation of the pattern positions is not checked: when it is the only
  one to fail, the installation reports success and leaves a driver without room for any.
\<close>

theorem uart_install_all_or_nothing:
  assumes "n < UART_NUM_MAX" and "sizes_ok rx tx ev" and "b \<longrightarrow> 0 < ev"
  shows "(p_uart_obj U n \<noteq> None \<longrightarrow> uart_driver_install al reset_hw ia n rx tx ev b k U = Inr (ESP_FAIL, U, k)) \<and>
    (p_uart_obj U n = None \<and> \<not> mem_ok tx ev al \<longrightarrow> uart_driver_install al reset_hw ia n rx tx ev b k U = Inr (ESP_FAIL, U, k)) \<and>
    (p_uart_obj U n = None \<and> mem_ok tx ev al \<and> ia \<noteq> ESP_OK \<longrightarrow>
       (\<exists>U'. uart_driver_install al reset_hw ia n rx tx ev b k U = Inr (ia, U', k) \<and> p_uart_obj U' = p_uart_obj U \<and> \<not> hw_enabled U' n)) \<and>
    (p_uart_obj U n = None \<and> mem_ok tx ev al \<and> ia = ESP_OK \<longrightarrow>
       (\<exists>U' ob. uart_driver_install al reset_hw ia n rx tx ev b k U = Inr (ESP_OK, U', k) \<and> p_uart_obj U' = (p_uart_obj U)(n := Some ob) \<and>
          pat_len (rx_pattern_pos ob) = (if a_pattern al = None then 0 else 10) \<and>
          (pat_data (rx_pattern_pos ob) = None \<longleftrightarrow> a_pattern al = None)))"
proof -
  have sizes: "rx > int SOC_UART_FIFO_LEN" "tx > int SOC_UART_FIFO_LEN \<or> tx = 0" using assms(2) by (simp_all add: sizes_ok_def)
  let ?U = "installed al reset_hw n rx tx ev U" and ?ob = "installed_obj al rx tx ev"
  have p: "p_uart_obj ?U = (p_uart_obj U)(n := Some ?ob)" by (simp add: installed_def put_obj_def)
  have "\<exists>U'. uart_driver_install al reset_hw ia n rx tx ev b k U = Inr (ia, U', k) \<and> p_uart_obj U' = p_uart_obj U \<and> \<not> hw_enabled U' n"
    if c: "p_uart_obj U n = None" "mem_ok tx ev al" "ia \<noteq> ESP_OK"
  proof -
    have o': "p_uart_obj ?U n = Some ?ob" "(p_uart_obj ?U)(n := None) = p_uart_obj U" using c(1) p by auto
    from delete_removes [OF assms(1) o'(1)] o'(2) install_eq [OF assms(1) c(1) assms(2) c(2) assms(3), of reset_hw ia k] c(3)
    show ?thesis by auto
  qed
  moreover have "\<exists>U' ob. uart_driver_install al reset_hw ia n rx tx ev b k U = Inr (ESP_OK, U', k) \<and> p_uart_obj U' = (p_uart_obj U)(n := Some ob) \<and>
      pat_len (rx_pattern_pos ob) = (if a_pattern al = None then 0 else 10) \<and> (pat_data (rx_pattern_pos ob) = None \<longleftrightarrow> a_pattern al = None)"
    if c: "p_uart_obj U n = None" "mem_ok tx ev al" "ia = ESP_OK"
  proof -
    have "p_uart_obj (snd (uart_intr_config n (Some config_intr) ?U)) = (p_uart_obj U)(n := Some ?ob)"
      using assms(1) p by (simp add: uart_intr_config_def)
    moreover have "pat_len (rx_pattern_pos ?ob) = (if a_pattern al = None then 0 else 10)"
      "pat_data (rx_pattern_pos ?ob) = None \<longleftrightarrow> a_pattern al = None" by (auto simp: installed_obj_def split: option.splits)
    ultimately show ?thesis using install_eq [OF assms(1) c(1) assms(2) c(2) assms(3), of reset_hw ia k] c(3) by auto
  qed
  ultimately show ?thesis using assms(1) sizes by (simp add: uart_driver_install_def alloc_all_or_nothing [OF assms(2)])
qed

theorem uart_install_all_or_nothing_witness:
  "uart_driver_install (demo_allocs\<lparr>a_rx_storage := None\<rparr>) demo_uart_dev ESP_OK 0 256 256 16 True demo_kernel demo_uart =
     Inr (ESP_FAIL, demo_uart, demo_kernel) \<and>
   (\<exists>U'. uart_driver_install demo_allocs demo_uart_dev ESP_ERR_NOT_FOUND 0 256 256 16 True demo_kernel demo_uart =
      Inr (ESP_ERR_NOT_FOUND, U', demo_kernel) \<and> p_uart_obj U' = p_uart_obj demo_uart \<and> \<not> hw_enabled U' 0) \<and>
   (\<exists>U'. uart_driver_install (demo_allocs\<lparr>a_pattern := None\<rparr>) demo_uart_dev ESP_OK 0 256 0 0 False demo_kernel demo_uart =
      Inr (ESP_OK, U', demo_kernel) \<and> uart_is_driver_installed 0 U' \<and> pat_data (rx_pattern_pos (port_obj 0 U')) = None)"
proof -
  note ok = UART_NUM_MAX_def demo_uart_def sizes_ok_def SOC_UART_FIFO_LEN_def mem_ok_def demo_allocs_def
  have "uart_driver_install (demo_allocs\<lparr>a_rx_storage := None\<rparr>) demo_uart_dev ESP_OK 0 256 256 16 True demo_kernel demo_uart =
     Inr (ESP_FAIL, demo_uart, demo_kernel)"
    using uart_install_all_or_nothing [of 0 256 256 16 True demo_uart "demo_allocs\<lparr>a_rx_storage := None\<rparr>" demo_uart_dev ESP_OK demo_kernel]
    by (simp add: ok)
  moreover have "\<exists>U'. uart_driver_install demo_allocs demo_uart_dev ESP_ERR_NOT_FOUND 0 256 256 16 True demo_kernel demo_uart =
      Inr (ESP_ERR_NOT_FOUND, U', demo_kernel) \<and> p_uart_obj U' = p_uart_obj demo_uart \<and> \<not> hw_enabled U' 0"
    using uart_install_all_or_nothing [of 0 256 256 16 True demo_uart demo_allocs demo_uart_dev ESP_ERR_NOT_FOUND demo_kernel]
    by (simp add: ok)
  moreover have "\<exists>U'. uart_driver_install (demo_allocs\<lparr>a_pattern := None\<rparr>) demo_uart_dev ESP_OK 0 256 0 0 False demo_kernel demo_uart =
      Inr (ESP_OK, U', demo_kernel) \<and> uart_is_driver_installed 0 U' \<and> pat_data (rx_pattern_pos (port_obj 0 U')) = None"
    using uart_install_all_or_nothing [of 0 256 0 0 False demo_uart "demo_allocs\<lparr>a_pattern := None\<rparr>" demo_uart_dev ESP_OK demo_kernel]
    by (auto simp: ok uart_is_driver_installed_def port_obj_def)
  ultimately show ?thesis by blast
qed

text \<open>
  A caller that asks for the handle of the event queue and for a queue of no places: the driver reads
  the number of free places of a queue it never created, for its log message.
\<close>

lemma install_without_queue_asserts:
  assumes "n < UART_NUM_MAX" and "p_uart_obj U n = None" and "sizes_ok rx tx ev" and "ev \<le> 0" and "mem_ok tx ev al"
  shows "uart_driver_install al reset_hw ia n rx tx ev True k U = Inl Assert_failed"
proof -
  have g: "xSemaphoreGive k (Some new_binary) = Inr (pdPASS, Some (new_binary\<lparr>uxMessagesWaiting := 1\<rparr>), k)"
    using binary_give_eq [OF new_sems(2), of k] by simp
  have "\<exists>ob. uart_alloc_driver_obj al ev tx rx k = Inr (Some ob, k) \<and> event_queue ob = None \<and> tx_fifo_sem ob = Some new_binary"
    using assms(4,5) by (simp add: alloc_all_or_nothing [OF assms(3)] new_obj_def)
  then show ?thesis using assms g
    by (auto simp: uart_driver_install_def sizes_ok_def uxQueueSpacesAvailable_def)
qed

text \<open>What the lines of a port are connected with after the pins have been set.\<close>

definition out_connected :: "nat \<Rightarrow> nat \<Rightarrow> int \<Rightarrow> pin_matrix \<Rightarrow> bool" where
  "out_connected n idx io P \<longleftrightarrow>
     (let s = uart_periph_signal n ! idx in
      if default_gpio s = io then pad_func P (nat io) = iomux_func s
      else pad_func P (nat io) = PIN_FUNC_GPIO \<and> matrix_out (pins (pads P) (nat io)) = Some (signal s) \<and> output_en (pins (pads P) (nat io)))"

definition in_connected :: "nat \<Rightarrow> nat \<Rightarrow> int \<Rightarrow> pin_matrix \<Rightarrow> bool" where
  "in_connected n idx io P \<longleftrightarrow>
     (let s = uart_periph_signal n ! idx in
      input_en (pins (pads P) (nat io)) \<and>
      (if default_gpio s = io then pad_func P (nat io) = iomux_func s \<and> in_from P (signal s) = None
       else pad_func P (nat io) = PIN_FUNC_GPIO \<and> in_from P (signal s) = Some (nat io)))"

lemma periph_default: "0 \<le> default_gpio (uart_periph_signal n ! idx) \<Longrightarrow> idx < 4 \<Longrightarrow> iomux_func (uart_periph_signal n ! idx) \<noteq> - 1"
  "n < 3 \<Longrightarrow> sig_input (uart_periph_signal n ! 1)" "n < 3 \<Longrightarrow> \<not> sig_input (uart_periph_signal n ! 0)"
  by (auto simp: uart_periph_signal_def less_Suc_eq numeral_eq_Suc split: if_splits)

lemma valid_output_pad: "GPIO_IS_VALID_OUTPUT_GPIO io = GPIO_IS_VALID_GPIO io"
  by (simp add: GPIO_IS_VALID_OUTPUT_GPIO_def GPIO_IS_VALID_GPIO_def SOC_GPIO_VALID_OUTPUT_GPIO_MASK_def)

lemma valid_pad_small: "GPIO_IS_VALID_GPIO io \<Longrightarrow> 0 \<le> io \<and> io < 64"
proof -
  assume v: "GPIO_IS_VALID_GPIO io"
  have "(2 :: u64) ^ nat io = 0" if "64 \<le> io" using that by (simp add: exp_eq_zero_iff)
  with v show ?thesis by (fastforce simp: GPIO_IS_VALID_GPIO_def push_bit_eq_mult)
qed

lemma route_tx:
  assumes "n < 3" and "GPIO_IS_VALID_GPIO io"
  shows "\<exists>m P'. route_line connect_out_signal False n io SOC_UART_TX_PIN_IDX P = (m, P') \<and> out_connected n SOC_UART_TX_PIN_IDX io P' \<and>
    in_from P' = in_from P \<and> s_reserved_pin_mask P' = s_reserved_pin_mask P \<and>
    (\<forall>j. j \<noteq> nat io \<longrightarrow> pins (pads P') j = pins (pads P) j \<and> pad_func P' j = pad_func P j)"
  using assms valid_pad_small [OF assms(2)] periph_default(1) [of n 0] periph_default(2,3) [of n]
  by (auto simp: route_line_def uart_try_set_iomux_pin_def out_connected_def gpio_func_sel_def gpio_iomux_out_def
      connect_out_signal_def upd_pin_def SOC_UART_TX_PIN_IDX_def Let_def)

lemma route_rx:
  assumes "n < 3" and "GPIO_IS_VALID_GPIO io"
  shows "\<exists>m P'. route_line connect_rx False n io SOC_UART_RX_PIN_IDX P = (m, P') \<and> in_connected n SOC_UART_RX_PIN_IDX io P' \<and>
    m = (default_gpio (uart_periph_signal n ! SOC_UART_RX_PIN_IDX) \<noteq> io) \<and> s_reserved_pin_mask P' = s_reserved_pin_mask P \<and>
    (\<forall>j. j \<noteq> nat io \<longrightarrow> pins (pads P') j = pins (pads P) j \<and> pad_func P' j = pad_func P j)"
  using assms valid_pad_small [OF assms(2)] periph_default(1) [of n 1] periph_default(2,3) [of n]
  by (auto simp: route_line_def uart_try_set_iomux_pin_def in_connected_def gpio_func_sel_def gpio_iomux_out_def gpio_iomux_in_def
      connect_rx_def connect_in_signal_def gpio_input_enable_def on_valid_pin_def upd_pin_def SOC_UART_RX_PIN_IDX_def Let_def)

lemma pins_connected:
  assumes "n < UART_NUM_MAX" and "GPIO_IS_VALID_GPIO tx" and "GPIO_IS_VALID_GPIO rx" and "tx \<noteq> rx"
  shows "\<exists>P'. uart_set_pin n tx rx (- 1) (- 1) P = (ESP_OK, P') \<and> out_connected n SOC_UART_TX_PIN_IDX tx P' \<and>
    in_connected n SOC_UART_RX_PIN_IDX rx P' \<and> (0 < tx \<longrightarrow> bit (s_reserved_pin_mask P') (nat tx)) \<and>
    (tx = 0 \<longrightarrow> bit (s_reserved_pin_mask P') 0 = bit (s_reserved_pin_mask P) 0) \<and>
    (\<forall>j. j \<noteq> nat tx \<and> j \<noteq> nat rx \<longrightarrow> pins (pads P') j = pins (pads P) j \<and> pad_func P' j = pad_func P j)"
proof -
  have n: "n < 3" using assms(1) by (simp add: UART_NUM_MAX_def)
  note v = valid_pad_small [OF assms(2)] valid_pad_small [OF assms(3)]
  have ne: "nat tx \<noteq> nat rx" using v assms(4) by auto
  obtain m1 P1 where p1: "route_line connect_out_signal False n tx SOC_UART_TX_PIN_IDX P = (m1, P1)" "out_connected n SOC_UART_TX_PIN_IDX tx P1"
    "in_from P1 = in_from P" "s_reserved_pin_mask P1 = s_reserved_pin_mask P"
    "\<And>j. j \<noteq> nat tx \<Longrightarrow> pins (pads P1) j = pins (pads P) j \<and> pad_func P1 j = pad_func P j" using route_tx [OF n assms(2), of P] by blast
  obtain m2 P2 where p2: "route_line connect_rx False n rx SOC_UART_RX_PIN_IDX P1 = (m2, P2)" "in_connected n SOC_UART_RX_PIN_IDX rx P2"
    "s_reserved_pin_mask P2 = s_reserved_pin_mask P1"
    "\<And>j. j \<noteq> nat rx \<Longrightarrow> pins (pads P2) j = pins (pads P1) j \<and> pad_func P2 j = pad_func P1 j" using route_rx [OF n assms(3), of P1] by blast
  let ?m = "if m2 then (reserve_bit tx OR reserve_bit rx) AND NOT (BIT64 rx) else reserve_bit tx OR reserve_bit rx"
  let ?P = "P2\<lparr>s_reserved_pin_mask := s_reserved_pin_mask P2 OR ?m\<rparr>"
  have off: "route_line c f n (- 1) idx Q = (False, Q)" for c f idx Q by (simp add: route_line_def)
  have "uart_set_pin n tx rx (- 1) (- 1) P = (ESP_OK, ?P)"
    using assms p1(1) p2(1) by (simp add: uart_set_pin_def valid_output_pad off esp_gpio_reserve_def reserve_bit_def Let_def)
  moreover have "out_connected n SOC_UART_TX_PIN_IDX tx ?P" using p1(2) p2(4) [of "nat tx"] ne by (simp add: out_connected_def Let_def)
  moreover have "in_connected n SOC_UART_RX_PIN_IDX rx ?P" using p2(2) by (simp add: in_connected_def Let_def)
  moreover have "0 < tx \<longrightarrow> bit ?m (nat tx)" "tx = 0 \<longrightarrow> \<not> bit ?m 0"
    using v ne assms(4) by (auto simp: reserve_bit_def BIT64_def bit_simps)
  ultimately show ?thesis using p1(4,5) p2(3,4) by (auto simp: bit_or_iff)
qed

text \<open>
  Setting the pins of a port: for two different valid pads, transmit and receive are connected,
  directly where the pad is the port's own and through the GPIO matrix otherwise; no other pad
  changes; and a pad other than pad 0 that drives the transmit line is entered in the set of pads in
  use. Pad 0 is not.
\<close>

theorem uart_pins_connected:
  assumes "n < UART_NUM_MAX" and "GPIO_IS_VALID_GPIO tx" and "GPIO_IS_VALID_GPIO rx" and "tx \<noteq> rx"
  shows "\<exists>P'. uart_set_pin n tx rx (- 1) (- 1) P = (ESP_OK, P') \<and> out_connected n SOC_UART_TX_PIN_IDX tx P' \<and>
    in_connected n SOC_UART_RX_PIN_IDX rx P' \<and> (0 < tx \<longrightarrow> bit (s_reserved_pin_mask P') (nat tx)) \<and>
    (tx = 0 \<longrightarrow> bit (s_reserved_pin_mask P') 0 = bit (s_reserved_pin_mask P) 0) \<and>
    (\<forall>j. j \<noteq> nat tx \<and> j \<noteq> nat rx \<longrightarrow> pins (pads P') j = pins (pads P) j \<and> pad_func P' j = pad_func P j)"
  by (rule pins_connected [OF assms])

definition demo_pins :: pin_matrix where
  "demo_pins = \<lparr>pads = demo_gpio, pad_func = \<lambda>_. PIN_FUNC_GPIO, in_from = \<lambda>_. None, s_reserved_pin_mask = 0\<rparr>"

theorem uart_pins_connected_witness:
  "\<exists>P'. uart_set_pin 0 43 5 (- 1) (- 1) demo_pins = (ESP_OK, P') \<and> out_connected 0 SOC_UART_TX_PIN_IDX 43 P' \<and>
     in_connected 0 SOC_UART_RX_PIN_IDX 5 P' \<and> bit (s_reserved_pin_mask P') 43"
  using uart_pins_connected [of 0 43 5 demo_pins]
  by (auto simp: UART_NUM_MAX_def GPIO_IS_VALID_GPIO_def SOC_GPIO_VALID_GPIO_MASK_def)

end
