(* ===== verification/ShellCom.thy ===== *)
theory ShellCom
  imports UartDriver "HOL-Library.Sublist"
begin

text \<open>
  The serial line of the shell (\<^verbatim>\<open>main/HWI/shellComUART.c\<close>): initialisation of the port, the task
  that listens to it and hands characters to the shell, and printing; and the table of shell commands
  (\<^verbatim>\<open>main/Config/myShell_cfg.c\<close>).

  The shell itself is a submodule that is not part of the sources: what \<^verbatim>\<open>SHELL_RecvChar\<close> does with a
  character is an argument of the task.
\<close>

section \<open>State\<close>

record SHCOM_Config_t =
  tx_gpio :: u8
  rx_gpio :: u8
  baudrate :: u32
  port :: nat

datatype SHCOM_Ret_t = SHCOM_STATUS_ERROR | SHCOM_STATUS_OK

definition UART_EVENT_QUEUE_SIZE :: int where "UART_EVENT_QUEUE_SIZE = 16"
definition UART_RX_TIMEOUT_MS :: nat where "UART_RX_TIMEOUT_MS = 250"
definition portTICK_PERIOD_MS :: nat where "portTICK_PERIOD_MS = 1"

text \<open>
  The handle of the event queue names the port whose queue it is: the queue is shared with the
  driver. The variable \<^verbatim>\<open>incoming_byte\<close> of the task is never initialised and keeps its value from one
  turn to the next.
\<close>

record shcom =
  uart_event_queue_handle :: "nat option"
  uart_listener_task_handle :: bool
  uart_port :: nat
  uart_tx_gpio :: u32
  uart_rx_gpio :: u32
  incoming_byte :: u8

section \<open>Initialisation\<close>

definition shcom_uart_config :: "SHCOM_Config_t \<Rightarrow> uart_config_t" where
  "shcom_uart_config c =
     \<lparr>baud_rate = baudrate c, data_bits = UART_DATA_8_BITS, cfg_parity = UART_PARITY_DISABLE, stop_bits = UART_STOP_BITS_1,
      flow_ctrl = UART_HW_FLOWCTRL_DISABLE, rx_flow_ctrl_thresh = 0, source_clk = Some UART_SCLK_APB,
      allow_pd = False, backup_before_sleep = False\<rparr>"

text \<open>
  The results of the allocations, of the interrupt allocator, of the clock tree and of the creation
  of the task are inputs. An installation that fails may have written the handle of the queue; only
  the task reads it, which is not created then.
\<close>

record shcom_inputs =
  in_allocs :: uart_allocs
  in_reset :: uart_dev
  in_intr :: esp_err
  in_clk :: "uart_sclk \<Rightarrow> esp_err + u32"
  in_task :: bool
  in_env :: env

definition SHCOM_InitCom ::
  "shcom_inputs \<Rightarrow> SHCOM_Config_t \<Rightarrow> kernel \<Rightarrow> shcom \<Rightarrow> uart \<Rightarrow> pin_matrix \<Rightarrow>
   (SHCOM_Ret_t \<times> shcom \<times> uart \<times> pin_matrix \<times> kernel) res" where
  "SHCOM_InitCom i c k S U P =
     (let fifo = 2 * int SOC_UART_FIFO_LEN in
      bind_res (uart_driver_install (in_allocs i) (in_reset i) (in_intr i) (port c) fifo fifo UART_EVENT_QUEUE_SIZE True k U)
        (\<lambda>(r, U1, k1).
      if r \<noteq> ESP_OK then Inr (SHCOM_STATUS_ERROR, S, U1, P, k1)
      else let S1 = S\<lparr>uart_event_queue_handle := Some (port c)\<rparr> in
      bind_res (uart_param_config (in_clk i) (in_reset i) (port c) (Some (shcom_uart_config c)) U1) (\<lambda>(r2, U2).
      if r2 \<noteq> ESP_OK then Inr (SHCOM_STATUS_ERROR, S1, U2, P, k1)
      else let (r3, P3) = uart_set_pin (port c) (uint (tx_gpio c)) (uint (rx_gpio c)) (- 1) (- 1) P in
      if r3 \<noteq> ESP_OK then Inr (SHCOM_STATUS_ERROR, S1, U2, P3, k1)
      else bind_res (uart_flush_input (in_env i) (port c) k1 U2) (\<lambda>(_, U4, k4).
      let S4 = S1\<lparr>uart_port := port c, uart_tx_gpio := ucast (tx_gpio c), uart_rx_gpio := ucast (rx_gpio c)\<rparr> in
      if \<not> in_task i then Inr (SHCOM_STATUS_ERROR, S4, U4, P3, k4)
      else Inr (SHCOM_STATUS_OK, S4\<lparr>uart_listener_task_handle := True\<rparr>, U4, P3, k4)))))"

section \<open>The listener task\<close>

text \<open>The number of the event's type, as the driver stores it in the queue.\<close>

definition event_type_code :: "u8 list \<Rightarrow> u32" where
  "event_type_code bs = bytes_word (take 4 bs)"

definition overflow_event :: "u8 list \<Rightarrow> bool" where
  "overflow_event bs \<longleftrightarrow> event_type_code bs = event_code UART_BUFFER_FULL \<or> event_type_code bs = event_code UART_FIFO_OVF"

text \<open>
  Events are taken until there are none. Data events only read the number of buffered bytes, which is
  not used; an overflow empties the port. The flush may wait for the receive mutex, with an environment
  of its own for every flush. No event is added in between, so the number of waiting events bounds the
  number of turns.
\<close>

fun drain_events :: "nat \<Rightarrow> env list \<Rightarrow> kernel \<Rightarrow> shcom \<Rightarrow> uart \<Rightarrow> (uart \<times> kernel) res" where
  "drain_events f es k S U =
     (case uart_event_queue_handle S of
        None \<Rightarrow> Inl Assert_failed
      | Some p \<Rightarrow>
          (case p_uart_obj U p of
             None \<Rightarrow> Inl Use_after_free
           | Some ob \<Rightarrow>
               bind_res (xQueueReceive [] k (event_queue ob) 0) (\<lambda>(r, ev, q, k1).
               let U1 = put_obj p (ob\<lparr>event_queue := Some q\<rparr>) U in
               if r \<noteq> pdTRUE then Inr (U1, k1)
               else case f of
                      0 \<Rightarrow> Inl Diverges
                    | Suc f' \<Rightarrow>
                        if overflow_event ev
                        then bind_res (uart_flush_input (case es of [] \<Rightarrow> [] | em # _ \<Rightarrow> em) (uart_port S) k1 U1) (\<lambda>(_, U2, k2).
                             drain_events f' (tl es) k2 S U2)
                        else drain_events f' es k1 S U1)))"

declare drain_events.simps [simp del]

definition events_waiting :: "shcom \<Rightarrow> uart \<Rightarrow> nat" where
  "events_waiting S U =
     (case uart_event_queue_handle S of
        None \<Rightarrow> 0
      | Some p \<Rightarrow> (case p_uart_obj U p of None \<Rightarrow> 0 | Some ob \<Rightarrow> (case event_queue ob of None \<Rightarrow> 0 | Some q \<Rightarrow> qcnt q)))"

text \<open>
  One turn of the task. The number of bytes read is kept in one unsigned byte, so the -1 of a failed
  read becomes 255. The buffer keeps its old contents when nothing was read.
\<close>

definition listener_read ::
  "(u8 \<Rightarrow> 's \<Rightarrow> 's) \<Rightarrow> env \<Rightarrow> uart_env \<Rightarrow> kernel \<Rightarrow> shcom \<Rightarrow> uart \<Rightarrow> 's \<Rightarrow> ('s \<times> shcom \<times> uart \<times> kernel) res" where
  "listener_read SHELL_RecvChar em e k S U sh =
     bind_res (uart_read_bytes em e (uart_port S) 1 (of_nat (UART_RX_TIMEOUT_MS div portTICK_PERIOD_MS)) k U)
       (\<lambda>(ret, bs, U', k').
     let read_len = (word_of_int ret :: u8);
         byte = (case bs of [] \<Rightarrow> incoming_byte S | b # _ \<Rightarrow> b)
     in Inr (if 0 < read_len then SHELL_RecvChar byte sh else sh, S\<lparr>incoming_byte := byte\<rparr>, U', k'))"

definition tUartListenerTask_turn ::
  "(u8 \<Rightarrow> 's \<Rightarrow> 's) \<Rightarrow> env list \<Rightarrow> env \<Rightarrow> uart_env \<Rightarrow> kernel \<Rightarrow> shcom \<Rightarrow> uart \<Rightarrow> 's \<Rightarrow> ('s \<times> shcom \<times> uart \<times> kernel) res" where
  "tUartListenerTask_turn SHELL_RecvChar es em e k S U sh =
     bind_res (drain_events (events_waiting S U) es k S U) (\<lambda>(U1, k1). listener_read SHELL_RecvChar em e k1 S U1 sh)"

section \<open>Printing\<close>

definition SHCOM_PrintCharacter ::
  "env \<Rightarrow> uart_env \<Rightarrow> u8 \<Rightarrow> kernel \<Rightarrow> shcom \<Rightarrow> uart \<Rightarrow> (SHCOM_Ret_t \<times> uart \<times> kernel) res" where
  "SHCOM_PrintCharacter em e c k S U =
     bind_res (uart_write_bytes em e (uart_port S) (Some [c]) k U) (\<lambda>(_, U', k'). Inr (SHCOM_STATUS_OK, U', k'))"

section \<open>Command table\<close>

text \<open>A command: its name, its handler and its description. The handlers are the shell's.\<close>

record 'h SHELL_Command_t =
  cmd_name :: string
  cmd_handler :: 'h
  cmd_help :: string

record 'h SHELL_Commands_Context_t =
  pTable :: "'h SHELL_Command_t list"
  nb_command :: u32

definition SHELL_CFG_GetCommandTable :: "'h \<Rightarrow> 'h SHELL_Commands_Context_t" where
  "SHELL_CFG_GetCommandTable SHELL_HelpHandler =
     (let shell_cmd_table = [\<lparr>cmd_name = ''help'', cmd_handler = SHELL_HelpHandler, cmd_help = ''Lists all commands''\<rparr>]
      in \<lparr>pTable = shell_cmd_table, nb_command = of_nat (length shell_cmd_table)\<rparr>)"

section \<open>Draining the event queue\<close>

text \<open>The task runs on a port that is ready for receiving and whose receive mutex is free.\<close>

definition shell_ready :: "kernel \<Rightarrow> shcom \<Rightarrow> uart \<Rightarrow> bool" where
  "shell_ready k S U \<longleftrightarrow> uart_event_queue_handle S = Some (uart_port S) \<and> port_ok (uart_port S) U \<and>
     mutex_ready k (rx_mux (port_obj (uart_port S) U))"

abbreviation pending :: "shcom \<Rightarrow> uart \<Rightarrow> u8 list list" where
  "pending S U \<equiv> events (port_obj (uart_port S) U)"

abbreviation received :: "shcom \<Rightarrow> uart \<Rightarrow> u8 list" where
  "received S U \<equiv> rx_stream (port_obj (uart_port S) U)"

abbreviation in_fifo :: "shcom \<Rightarrow> uart \<Rightarrow> u8 list" where
  "in_fifo S U \<equiv> rx_fifo (uart_hw U (uart_port S))"

lemma take_event:
  assumes "shell_ready k S U"
  shows "\<exists>ob q. p_uart_obj U (uart_port S) = Some ob \<and> event_queue ob = Some q \<and>
    (pending S U = [] \<longrightarrow> xQueueReceive [] k (Some q) 0 = Inr (errQUEUE_EMPTY, [], q, k) \<and>
       put_obj (uart_port S) (ob\<lparr>event_queue := Some q\<rparr>) U = U) \<and>
    (pending S U \<noteq> [] \<longrightarrow> (\<exists>q'. xQueueReceive [] k (Some q) 0 = Inr (pdPASS, hd (pending S U), q', k) \<and>
       (let U' = put_obj (uart_port S) (ob\<lparr>event_queue := Some q'\<rparr>) U
        in shell_ready k S U' \<and> pending S U' = tl (pending S U) \<and> received S U' = received S U \<and> in_fifo S U' = in_fifo S U \<and>
           tx_quiet (uart_port S) U U')))"
proof -
  let ?n = "uart_port S"
  have ok: "port_ok ?n U" "mutex_ready k (rx_mux (port_obj ?n U))" "uart_event_queue_handle S = Some ?n"
    using assms by (simp_all add: shell_ready_def)
  obtain ob where ob: "p_uart_obj U ?n = Some ob" "port_obj ?n U = ob" "rx_ok ob" "event_queue_ok ob" "\<not> pat_flg U" "?n < UART_NUM_MAX"
    "length (rx_fifo (uart_hw U ?n)) \<le> SOC_UART_FIFO_LEN" using ok(1) by (rule port_okE)
  obtain q where q: "event_queue ob = Some q" "queue_inv q" "isz q = 12"
    using ob(4) by (auto simp: event_queue_ok_def split: option.splits)
  have ev: "pending S U = q_items q" using ob(2) q(1) by (simp add: events_def)
  have "xQueueReceive [] k (Some q) 0 = Inr (errQUEUE_EMPTY, [], q, k)" if "pending S U = []"
    using that ev receive_empty_eq [of q "[]" k] by (simp flip: length_q_items)
  moreover have "put_obj ?n (ob\<lparr>event_queue := Some q\<rparr>) U = U"
  proof -
    have "ob\<lparr>event_queue := Some q\<rparr> = ob" using q(1) by (cases ob) simp
    then show ?thesis using put_same [OF ob(1)] by simp
  qed
  moreover have "\<exists>q'. xQueueReceive [] k (Some q) 0 = Inr (pdPASS, hd (pending S U), q', k) \<and>
       (let U' = put_obj ?n (ob\<lparr>event_queue := Some q'\<rparr>) U
        in shell_ready k S U' \<and> pending S U' = tl (pending S U) \<and> received S U' = received S U \<and> in_fifo S U' = in_fifo S U \<and>
           tx_quiet ?n U U')"
    if ne: "pending S U \<noteq> []"
  proof -
    have c: "0 < qcnt q" using ne ev by (auto simp flip: length_q_items)
    let ?q = "wake_sender (q_pop q)"
    have "queue_inv ?q" "q_items ?q = tl (q_items q)" "isz ?q = 12"
      using pop_inv [OF q(2) c] pop_items [OF q(2) c] pop_frame [of q] q(3) by simp_all
    then show ?thesis using receive_some_eq [OF q(2) c, of k 0 "[]"] ev ok ob
      by (intro exI [of _ ?q]) (simp add: shell_ready_def port_ok_def port_obj_def event_queue_ok_def events_def tx_quiet_def Let_def)
  qed
  ultimately show ?thesis using ob(1) q(1) by blast
qed

lemma drain_all:
  assumes "shell_ready k S U" and "length (pending S U) \<le> f"
  shows "\<exists>U'. drain_events f es k S U = Inr (U', k) \<and> shell_ready k S U' \<and> pending S U' = [] \<and> tx_quiet (uart_port S) U U' \<and>
    (if \<exists>ev \<in> set (pending S U). overflow_event ev then received S U' = [] \<and> in_fifo S U' = []
     else received S U' = received S U \<and> in_fifo S U' = in_fifo S U)"
  using assms
proof (induction f arbitrary: es U)
  case 0
  obtain ob q where "p_uart_obj U (uart_port S) = Some ob" "event_queue ob = Some q"
    "xQueueReceive [] k (Some q) 0 = Inr (errQUEUE_EMPTY, [], q, k)" "put_obj (uart_port S) (ob\<lparr>event_queue := Some q\<rparr>) U = U"
    using take_event [OF 0(1)] 0(2) by auto
  then show ?case using 0 by (simp add: drain_events.simps shell_ready_def basetype_defs)
next
  case (Suc f)
  show ?case
  proof (cases "pending S U = []")
    case True
    obtain ob q where "p_uart_obj U (uart_port S) = Some ob" "event_queue ob = Some q"
      "xQueueReceive [] k (Some q) 0 = Inr (errQUEUE_EMPTY, [], q, k)" "put_obj (uart_port S) (ob\<lparr>event_queue := Some q\<rparr>) U = U"
      using take_event [OF Suc.prems(1)] True by auto
    then show ?thesis using Suc.prems(1) True by (simp add: drain_events.simps shell_ready_def basetype_defs)
  next
    case False
    then obtain ob q q' where t: "p_uart_obj U (uart_port S) = Some ob" "event_queue ob = Some q"
      "xQueueReceive [] k (Some q) 0 = Inr (pdPASS, hd (pending S U), q', k)" and
      U1: "let U' = put_obj (uart_port S) (ob\<lparr>event_queue := Some q'\<rparr>) U
        in shell_ready k S U' \<and> pending S U' = tl (pending S U) \<and> received S U' = received S U \<and> in_fifo S U' = in_fifo S U \<and>
           tx_quiet (uart_port S) U U'"
      using take_event [OF Suc.prems(1)] by blast
    define U1 where "U1 = put_obj (uart_port S) (ob\<lparr>event_queue := Some q'\<rparr>) U"
    have u1: "shell_ready k S U1" "pending S U1 = tl (pending S U)" "received S U1 = received S U" "in_fifo S U1 = in_fifo S U"
      "tx_quiet (uart_port S) U U1"
      using U1 by (simp_all add: U1_def Let_def)
    have h: "uart_event_queue_handle S = Some (uart_port S)" using Suc.prems(1) by (simp add: shell_ready_def)
    obtain ev rest where p: "pending S U = ev # rest" using False by (cases "pending S U") auto
    show ?thesis
    proof (cases "overflow_event ev")
      case True
      obtain U2 where f2: "uart_flush_input (case es of [] \<Rightarrow> [] | em # _ \<Rightarrow> em) (uart_port S) k U1 = Inr (ESP_OK, U2, k)"
        "port_ok (uart_port S) U2" "received S U2 = []" "in_fifo S U2 = []" "rx_mux (port_obj (uart_port S) U2) = rx_mux (port_obj (uart_port S) U1)"
        "pending S U2 = pending S U1" "tx_quiet (uart_port S) U1 U2"
        using flush_input_empties [of "uart_port S" U1 k] u1(1) by (auto simp: shell_ready_def)
      have r2: "shell_ready k S U2" using f2(2,5) u1(1) by (simp add: shell_ready_def)
      have "length (pending S U2) \<le> f" using f2(6) u1(2) p Suc.prems(2) by simp
      from Suc.IH [OF r2 this, of "tl es"] obtain U' where
        "drain_events f (tl es) k S U2 = Inr (U', k)" "shell_ready k S U'" "pending S U' = []" "received S U' = []" "in_fifo S U' = []"
        "tx_quiet (uart_port S) U2 U'"
        using f2(3,4) by (auto split: if_splits)
      moreover have "drain_events (Suc f) es k S U = drain_events f (tl es) k S U2"
        using t h p True f2(1) by (subst drain_events.simps) (simp add: U1_def [symmetric] basetype_defs)
      ultimately show ?thesis using p True tx_quiet_trans [OF tx_quiet_trans [OF u1(5) f2(7)]] by simp
    next
      case no: False
      have "length (pending S U1) \<le> f" using u1(2) p Suc.prems(2) by simp
      from Suc.IH [OF u1(1) this, of es] obtain U' where
        "drain_events f es k S U1 = Inr (U', k)" "shell_ready k S U'" "pending S U' = []" "tx_quiet (uart_port S) U1 U'"
        "if \<exists>ev \<in> set rest. overflow_event ev then received S U' = [] \<and> in_fifo S U' = []
         else received S U' = received S U \<and> in_fifo S U' = in_fifo S U"
        using u1(2-4) p by auto
      moreover have "drain_events (Suc f) es k S U = drain_events f es k S U1"
        using t h p no by (subst drain_events.simps) (simp add: U1_def [symmetric] basetype_defs)
      ultimately show ?thesis using p no tx_quiet_trans [OF u1(5)] by auto
    qed
  qed
qed

section \<open>Delivering characters\<close>

lemma events_waiting_eq: "shell_ready k S U \<Longrightarrow> events_waiting S U = length (pending S U)"
  by (auto simp: shell_ready_def port_ok_def port_obj_def event_queue_ok_def events_waiting_def events_def split: option.splits)

lemma read_delivers:
  assumes "shell_ready k S U" and "received S U = b # rest"
  shows "\<exists>U'. listener_read recv em e k S U sh = Inr (recv b sh, S\<lparr>incoming_byte := b\<rparr>, U', k) \<and>
    shell_ready k (S\<lparr>incoming_byte := b\<rparr>) U' \<and> pending S U' = pending S U \<and> received S U' = rest \<and> in_fifo S U' = in_fifo S U \<and>
    tx_quiet (uart_port S) U U'"
proof -
  have ok: "port_ok (uart_port S) U" "mutex_ready k (rx_mux (port_obj (uart_port S) U))" using assms(1) by (simp_all add: shell_ready_def)
  obtain U' where "uart_read_bytes em e (uart_port S) 1 (of_nat (UART_RX_TIMEOUT_MS div portTICK_PERIOD_MS)) k U = Inr (1, [b], U', k)"
    "port_ok (uart_port S) U'" "received S U' = rest" "in_fifo S U' = in_fifo S U"
    "rx_mux (port_obj (uart_port S) U') = rx_mux (port_obj (uart_port S) U)" "pending S U' = pending S U" "tx_quiet (uart_port S) U U'"
    using read_bytes_front [OF ok, of 1 "of_nat (UART_RX_TIMEOUT_MS div portTICK_PERIOD_MS)" em e] assms(2) by auto
  then show ?thesis using assms(1) by (simp add: listener_read_def shell_ready_def)
qed

lemma turn_delivers:
  assumes "shell_ready k S U" and "\<forall>ev \<in> set (pending S U). \<not> overflow_event ev" and "received S U = b # rest"
  shows "\<exists>U'. tUartListenerTask_turn recv es em e k S U sh = Inr (recv b sh, S\<lparr>incoming_byte := b\<rparr>, U', k) \<and>
    shell_ready k (S\<lparr>incoming_byte := b\<rparr>) U' \<and> pending S U' = [] \<and> received S U' = rest \<and> in_fifo S U' = in_fifo S U"
proof -
  obtain U1 where d: "drain_events (events_waiting S U) es k S U = Inr (U1, k)" "shell_ready k S U1" "pending S U1 = []"
    "received S U1 = b # rest" "in_fifo S U1 = in_fifo S U"
    using drain_all [OF assms(1), of "events_waiting S U" es] events_waiting_eq [OF assms(1)] assms(2,3) by auto
  from read_delivers [OF d(2,4), of recv em e sh] d show ?thesis by (auto simp: tUartListenerTask_turn_def)
qed

text \<open>Turns of the task in which nobody else is waited for.\<close>

fun listener_turns :: "(u8 \<Rightarrow> 's \<Rightarrow> 's) \<Rightarrow> nat \<Rightarrow> kernel \<Rightarrow> shcom \<Rightarrow> uart \<Rightarrow> 's \<Rightarrow> ('s \<times> shcom \<times> uart \<times> kernel) res" where
  "listener_turns recv 0 k S U sh = Inr (sh, S, U, k)"
| "listener_turns recv (Suc m) k S U sh =
     bind_res (tUartListenerTask_turn recv [] [] [] k S U sh) (\<lambda>(sh', S', U', k'). listener_turns recv m k' S' U' sh')"

lemma turns_deliver:
  assumes "shell_ready k S U" and "\<forall>ev \<in> set (pending S U). \<not> overflow_event ev" and "m \<le> length (received S U)"
  shows "\<exists>S' U'. listener_turns recv m k S U sh = Inr (fold recv (take m (received S U)) sh, S', U', k) \<and> shell_ready k S' U' \<and>
    received S' U' = drop m (received S U) \<and> in_fifo S' U' = in_fifo S U"
  using assms
proof (induction m arbitrary: S U sh)
  case 0
  then show ?case by simp
next
  case (Suc m)
  obtain b rest where st: "received S U = b # rest" using Suc.prems(3) by (cases "received S U") auto
  obtain U1 where t: "tUartListenerTask_turn recv [] [] [] k S U sh = Inr (recv b sh, S\<lparr>incoming_byte := b\<rparr>, U1, k)"
    "shell_ready k (S\<lparr>incoming_byte := b\<rparr>) U1" "pending S U1 = []" "received S U1 = rest" "in_fifo S U1 = in_fifo S U"
    using turn_delivers [OF Suc.prems(1,2) st, of recv "[]" "[]" "[]" sh] by blast
  with Suc.IH [of "S\<lparr>incoming_byte := b\<rparr>" U1 "recv b sh"] Suc.prems(3) st show ?case by simp
qed

section \<open>The line from the wire to the shell\<close>

lemma overflow_event_iff: "overflow_event (event_bytes ev) \<longleftrightarrow> event_type ev = UART_BUFFER_FULL \<or> event_type ev = UART_FIFO_OVF"
proof -
  have "event_type_code (event_bytes ev) = event_code (event_type ev)"
    using bytes_word_of_word by (simp add: event_type_code_def event_bytes_def)
  then show ?thesis by (cases "event_type ev") (simp_all add: overflow_event_def)
qed

text \<open>An overflow of the FIFO alone: it is emptied and an event tells so.\<close>

definition overflow_interrupt :: "u32 \<Rightarrow> bool" where
  "overflow_interrupt status \<longleftrightarrow> \<not> has_flag status UART_INTR_TXFIFO_EMPTY \<and> \<not> has_flag status UART_INTR_CMD_CHAR_DET \<and>
     \<not> has_flag status UART_INTR_RXFIFO_TOUT \<and> \<not> has_flag status UART_INTR_RXFIFO_FULL \<and> has_flag status UART_INTR_RXFIFO_OVF"

lemma overflow_handler:
  assumes "port_ok n U" and "overflow_interrupt status"
  shows "\<exists>U'. uart_rx_intr_handler_default k [status] n U = Inr (U', k) \<and> port_ok n U' \<and>
    rx_stream (port_obj n U') = rx_stream (port_obj n U) \<and> rx_fifo (uart_hw U' n) = [] \<and> rx_mux (port_obj n U') = rx_mux (port_obj n U) \<and>
    tx_quiet n U U'"
proof -
  obtain ob where ob: "p_uart_obj U n = Some ob" "port_obj n U = ob" "rx_ok ob" "event_queue_ok ob" "\<not> pat_flg U" "n < UART_NUM_MAX"
    "length (rx_fifo (uart_hw U n)) \<le> SOC_UART_FIFO_LEN" using assms(1) by (rule port_okE)
  let ?U = "on_hw n uart_hal_rxfifo_rst U"
  have "p_uart_obj ?U n = Some ob" using ob(1) by simp
  from send_event_posts [OF this ob(4), of k "event_of UART_FIFO_OVF"] obtain q where
    q: "send_event k (event_of UART_FIFO_OVF) n ?U = Inr (put_obj n (ob\<lparr>event_queue := Some q\<rparr>) ?U, k)"
      "event_queue_ok (ob\<lparr>event_queue := Some q\<rparr>)" by blast
  have nz: "status \<noteq> 0" using assms(2) by (auto simp: overflow_interrupt_def)
  have some: "event_queue ob \<noteq> None" using ob(4) by (auto simp: event_queue_ok_def split: option.splits)
  have "uart_rx_intr_handler_default k [status] n U = Inr (put_obj n (ob\<lparr>event_queue := Some q\<rparr>) ?U, k)"
    using nz assms(2) ob(1) some q(1)
    by (simp add: uart_rx_intr_handler_default_def isr_turn_def overflow_interrupt_def Let_def) (simp add: event_of_def)
  then show ?thesis using ob q(2) by (simp add: port_ok_def port_obj_def uart_hal_rxfifo_rst_def tx_quiet_def tx_hw_view_def on_hw_def)
qed

text \<open>
  Everything that happens on the line, in any order: a byte arrives in the FIFO, the hardware raises a
  receive or an overflow interrupt, the task drains the events, the task reads a byte. The state holds
  the bytes the shell has been given and those that have arrived, and whether an overflow was seen.
\<close>

record line =
  l_com :: shcom
  l_uart :: uart
  l_given :: "u8 list"
  l_arrived :: "u8 list"
  l_lost :: bool

definition arrive :: "u8 \<Rightarrow> line \<Rightarrow> line" where
  "arrive b s = s\<lparr>l_uart := on_hw (uart_port (l_com s)) (\<lambda>hw. hw\<lparr>rx_fifo := rx_fifo hw @ [b]\<rparr>) (l_uart s),
                 l_arrived := l_arrived s @ [b]\<rparr>"

abbreviation deliver :: "u8 \<Rightarrow> u8 list \<Rightarrow> u8 list" where
  "deliver b bs \<equiv> bs @ [b]"

inductive line_step :: "kernel \<Rightarrow> line \<Rightarrow> line \<Rightarrow> bool" for k where
  byte: "length (in_fifo (l_com s) (l_uart s)) < SOC_UART_FIFO_LEN \<Longrightarrow> line_step k s (arrive b s)"
| receive: "rx_interrupt st \<Longrightarrow> uart_rx_intr_handler_default k [st] (uart_port (l_com s)) (l_uart s) = Inr (U', k) \<Longrightarrow>
    line_step k s (s\<lparr>l_uart := U', l_lost := (l_lost s \<or> (\<exists>ev \<in> set (pending (l_com s) U'). overflow_event ev))\<rparr>)"
| overflow: "overflow_interrupt st \<Longrightarrow> uart_rx_intr_handler_default k [st] (uart_port (l_com s)) (l_uart s) = Inr (U', k) \<Longrightarrow>
    line_step k s (s\<lparr>l_uart := U', l_lost := True\<rparr>)"
| drain: "drain_events (events_waiting (l_com s) (l_uart s)) es k (l_com s) (l_uart s) = Inr (U', k) \<Longrightarrow>
    line_step k s (s\<lparr>l_uart := U'\<rparr>)"
| read: "received (l_com s) (l_uart s) \<noteq> [] \<Longrightarrow>
    listener_read deliver em e k (l_com s) (l_uart s) (l_given s) = Inr (g, S', U', k) \<Longrightarrow>
    line_step k s (s\<lparr>l_com := S', l_uart := U', l_given := g\<rparr>)"

definition on_the_way :: "line \<Rightarrow> u8 list" where
  "on_the_way s = l_given s @ received (l_com s) (l_uart s) @ in_fifo (l_com s) (l_uart s)"

definition line_ok :: "kernel \<Rightarrow> line \<Rightarrow> bool" where
  "line_ok k s \<longleftrightarrow> shell_ready k (l_com s) (l_uart s) \<and> subseq (on_the_way s) (l_arrived s) \<and>
     (\<not> l_lost s \<longrightarrow> on_the_way s = l_arrived s \<and> (\<forall>ev \<in> set (pending (l_com s) (l_uart s)). \<not> overflow_event ev))"

lemma line_step_ok:
  assumes "line_step k s s'" and "line_ok k s"
  shows "line_ok k s'"
  using assms
proof (induction rule: line_step.induct)
  case (byte s b)
  then have "shell_ready k (l_com s) (l_uart (arrive b s))"
    by (simp add: line_ok_def shell_ready_def port_ok_def port_obj_def arrive_def split: option.splits)
  moreover have "pending (l_com s) (l_uart (arrive b s)) = pending (l_com s) (l_uart s)"
    "on_the_way (arrive b s) = on_the_way s @ [b]" "l_arrived (arrive b s) = l_arrived s @ [b]" "l_lost (arrive b s) = l_lost s"
    "l_com (arrive b s) = l_com s"
    by (simp_all add: arrive_def on_the_way_def port_obj_def)
  ultimately show ?case using byte.prems by (simp add: line_ok_def list_emb_append_mono)
next
  case (receive st s U')
  let ?S = "l_com s" and ?U = "l_uart s"
  have r: "shell_ready k ?S ?U" using receive.prems by (simp add: line_ok_def)
  have p: "port_ok (uart_port ?S) ?U" using r by (simp add: shell_ready_def)
  from rx_handler_stores [OF p receive.hyps(1), of k] receive.hyps(2)
  have h: "port_ok (uart_port ?S) U'" "received ?S U' @ in_fifo ?S U' = received ?S ?U @ in_fifo ?S ?U"
    "rx_mux (port_obj (uart_port ?S) U') = rx_mux (port_obj (uart_port ?S) ?U)" by auto
  then have "shell_ready k ?S U'" using r by (simp add: shell_ready_def)
  then show ?case using receive.prems h(2) by (auto simp: line_ok_def on_the_way_def)
next
  case (overflow st s U')
  let ?S = "l_com s" and ?U = "l_uart s"
  have r: "shell_ready k ?S ?U" using overflow.prems by (simp add: line_ok_def)
  have p: "port_ok (uart_port ?S) ?U" using r by (simp add: shell_ready_def)
  from overflow_handler [OF p overflow.hyps(1), of k] overflow.hyps(2)
  have h: "port_ok (uart_port ?S) U'" "received ?S U' = received ?S ?U" "in_fifo ?S U' = []"
    "rx_mux (port_obj (uart_port ?S) U') = rx_mux (port_obj (uart_port ?S) ?U)" by auto
  have "shell_ready k ?S U'" using r h(1,4) by (simp add: shell_ready_def)
  moreover have "subseq (l_given s @ received ?S ?U @ []) (on_the_way s)"
    unfolding on_the_way_def by (intro list_emb_append_mono) auto
  ultimately show ?case using overflow.prems h(2,3) subseq_order.trans by (fastforce simp: line_ok_def on_the_way_def)
next
  case (drain s es U')
  let ?S = "l_com s" and ?U = "l_uart s"
  have r: "shell_ready k ?S ?U" using drain.prems by (simp add: line_ok_def)
  from drain_all [OF r, of "events_waiting ?S ?U" es] events_waiting_eq [OF r] drain.hyps
  have h: "shell_ready k ?S U'" "pending ?S U' = []"
    "if \<exists>ev \<in> set (pending ?S ?U). overflow_event ev then received ?S U' = [] \<and> in_fifo ?S U' = []
     else received ?S U' = received ?S ?U \<and> in_fifo ?S U' = in_fifo ?S ?U" by auto
  have "subseq (l_given s @ []) (on_the_way s)" unfolding on_the_way_def by (intro list_emb_append_mono) auto
  with drain.prems have "subseq (l_given s) (l_arrived s)" using subseq_order.trans by (fastforce simp: line_ok_def)
  with h drain.prems show ?case by (auto simp: line_ok_def on_the_way_def split: if_splits)
next
  case (read s em e g S' U')
  let ?S = "l_com s" and ?U = "l_uart s"
  have r: "shell_ready k ?S ?U" using read.prems by (simp add: line_ok_def)
  obtain b rest where st: "received ?S ?U = b # rest" using read.hyps(1) by (cases "received ?S ?U") auto
  from read_delivers [OF r st, of deliver em e "l_given s"] read.hyps(2)
  have h: "g = l_given s @ [b]" "S' = ?S\<lparr>incoming_byte := b\<rparr>" "shell_ready k S' U'" "pending ?S U' = pending ?S ?U"
    "received ?S U' = rest" "in_fifo ?S U' = in_fifo ?S ?U" by auto
  then have "on_the_way (s\<lparr>l_com := S', l_uart := U', l_given := g\<rparr>) = on_the_way s" using st by (simp add: on_the_way_def)
  then show ?case using read.prems h by (simp add: line_ok_def)
qed

text \<open>No step of receiving touches the transmit side.\<close>

lemma line_step_quiet:
  assumes "line_step k s s'" and "line_ok k s"
  shows "tx_quiet (uart_port (l_com s)) (l_uart s) (l_uart s') \<and> uart_port (l_com s') = uart_port (l_com s)"
  using assms
proof (induction rule: line_step.induct)
  case (byte s b)
  then show ?case by (simp add: arrive_def tx_quiet_def tx_hw_view_def port_obj_def on_hw_def)
next
  case (receive st s U')
  have "port_ok (uart_port (l_com s)) (l_uart s)" using receive.prems by (simp add: line_ok_def shell_ready_def)
  from rx_handler_stores [OF this receive.hyps(1), of k] receive.hyps(2) show ?case by auto
next
  case (overflow st s U')
  have "port_ok (uart_port (l_com s)) (l_uart s)" using overflow.prems by (simp add: line_ok_def shell_ready_def)
  from overflow_handler [OF this overflow.hyps(1), of k] overflow.hyps(2) show ?case by auto
next
  case (drain s es U')
  have r: "shell_ready k (l_com s) (l_uart s)" using drain.prems by (simp add: line_ok_def)
  from drain_all [OF r, of "events_waiting (l_com s) (l_uart s)" es] events_waiting_eq [OF r] drain.hyps show ?case by auto
next
  case (read s em e g S' U')
  have r: "shell_ready k (l_com s) (l_uart s)" using read.prems by (simp add: line_ok_def)
  obtain b rest where "received (l_com s) (l_uart s) = b # rest" using read.hyps(1) by (cases "received (l_com s) (l_uart s)") auto
  from read_delivers [OF r this, of deliver em e "l_given s"] read.hyps(2) show ?case by auto
qed

section \<open>After initialisation\<close>

text \<open>A serial line the hardware and the memory allow for.\<close>

definition init_inputs_ok :: "shcom_inputs \<Rightarrow> SHCOM_Config_t \<Rightarrow> uart \<Rightarrow> bool" where
  "init_inputs_ok i c U \<longleftrightarrow> port c < UART_NUM_MAX \<and> p_uart_obj U (port c) = None \<and> \<not> pat_flg U \<and> mem_ok (2 * int SOC_UART_FIFO_LEN) UART_EVENT_QUEUE_SIZE (in_allocs i) \<and> in_intr i = ESP_OK \<and>
     length (rx_fifo (in_reset i)) \<le> SOC_UART_FIFO_LEN \<and> length (rx_fifo (uart_hw U (port c))) \<le> SOC_UART_FIFO_LEN"

definition config_ok :: "shcom_inputs \<Rightarrow> SHCOM_Config_t \<Rightarrow> bool" where
  "config_ok i c \<longleftrightarrow> (case in_clk i UART_SCLK_APB of Inl _ \<Rightarrow> False | Inr f \<Rightarrow> baud_ok (baudrate c) f) \<and>
     GPIO_IS_VALID_GPIO (uint (tx_gpio c)) \<and> GPIO_IS_VALID_GPIO (uint (rx_gpio c)) \<and> tx_gpio c \<noteq> rx_gpio c"

lemma shell_sizes: "sizes_ok (2 * int SOC_UART_FIFO_LEN) (2 * int SOC_UART_FIFO_LEN) UART_EVENT_QUEUE_SIZE"
  by (simp add: sizes_ok_def SOC_UART_FIFO_LEN_def UART_EVENT_QUEUE_SIZE_def)

lemma init_installs:
  assumes "init_inputs_ok i c U" and "kernel_ok k"
  shows "\<exists>U1. uart_driver_install (in_allocs i) (in_reset i) (in_intr i) (port c) (2 * int SOC_UART_FIFO_LEN) (2 * int SOC_UART_FIFO_LEN)
      UART_EVENT_QUEUE_SIZE True k U = Inr (ESP_OK, U1, k) \<and> port_ok (port c) U1 \<and> rx_stream (port_obj (port c) U1) = [] \<and>
    events (port_obj (port c) U1) = [] \<and> mutex_ready k (rx_mux (port_obj (port c) U1)) \<and> hw_enabled U1 (port c) \<and>
    rx_int_usr_mask (port_obj (port c) U1) = UART_INTR_RXFIFO_FULL OR UART_INTR_RXFIFO_TOUT \<and>
    port_obj (port c) U1 = installed_obj (in_allocs i) (2 * int SOC_UART_FIFO_LEN) (2 * int SOC_UART_FIFO_LEN) UART_EVENT_QUEUE_SIZE"
  using assms install_ready_state [OF _ _ shell_sizes, of "port c" U "in_allocs i" True "in_reset i" k]
  by (auto simp: init_inputs_ok_def UART_EVENT_QUEUE_SIZE_def)

lemma init_ready:
  assumes "init_inputs_ok i c U" and "kernel_ok k" and "config_ok i c" and "in_task i"
  shows "\<exists>S' U' P'. SHCOM_InitCom i c k S U P = Inr (SHCOM_STATUS_OK, S', U', P', k) \<and> shell_ready k S' U' \<and> uart_port S' = port c \<and>
    received S' U' = [] \<and> in_fifo S' U' = [] \<and> pending S' U' = [] \<and>
    has_flag (uart_int_ena (uart_hw U' (port c))) UART_INTR_RXFIFO_FULL \<and> has_flag (uart_int_ena (uart_hw U' (port c))) UART_INTR_RXFIFO_TOUT \<and>
    out_connected (port c) SOC_UART_TX_PIN_IDX (uint (tx_gpio c)) P' \<and> in_connected (port c) SOC_UART_RX_PIN_IDX (uint (rx_gpio c)) P' \<and>
    tx_view (port_obj (port c) U') =
      tx_view (installed_obj (in_allocs i) (2 * int SOC_UART_FIFO_LEN) (2 * int SOC_UART_FIFO_LEN) UART_EVENT_QUEUE_SIZE) \<and>
    tx_fifo (uart_hw U' (port c)) = []"
proof -
  let ?n = "port c"
  have n: "?n < UART_NUM_MAX" using assms(1) by (simp add: init_inputs_ok_def)
  obtain U1 where U1: "uart_driver_install (in_allocs i) (in_reset i) (in_intr i) ?n (2 * int SOC_UART_FIFO_LEN) (2 * int SOC_UART_FIFO_LEN)
      UART_EVENT_QUEUE_SIZE True k U = Inr (ESP_OK, U1, k)" "port_ok ?n U1" "rx_stream (port_obj ?n U1) = []"
      "events (port_obj ?n U1) = []" "mutex_ready k (rx_mux (port_obj ?n U1))" "hw_enabled U1 ?n"
      "rx_int_usr_mask (port_obj ?n U1) = UART_INTR_RXFIFO_FULL OR UART_INTR_RXFIFO_TOUT"
      "port_obj ?n U1 = installed_obj (in_allocs i) (2 * int SOC_UART_FIFO_LEN) (2 * int SOC_UART_FIFO_LEN) UART_EVENT_QUEUE_SIZE"
    using init_installs [OF assms(1,2)] by blast
  obtain f where f: "in_clk i (uart_sclk_sel (shcom_uart_config c)) = Inr f" "baud_ok (baud_rate (shcom_uart_config c)) f"
    using assms(3) by (auto simp: config_ok_def uart_sclk_sel_def shcom_uart_config_def split: sum.splits)
  obtain U2 where U2: "uart_param_config (in_clk i) (in_reset i) ?n (Some (shcom_uart_config c)) U1 = Inr (ESP_OK, U2)"
      "rx_fifo (uart_hw U2 ?n) = []" "tx_fifo (uart_hw U2 ?n) = []"
    using param_config_sets [of ?n "in_clk i" "shcom_uart_config c" f U1 "in_reset i"] n f U1(6)
    by (auto simp: shcom_uart_config_def SOC_UART_FIFO_LEN_def uart_consts)
  note k2 = param_config_keeps_driver [OF U2(1)]
  have p2: "port_ok ?n U2" "port_obj ?n U2 = port_obj ?n U1" using U1(2) U2(2) k2 by (simp_all add: port_ok_def port_obj_def)
  have ne: "uint (tx_gpio c) \<noteq> uint (rx_gpio c)" using assms(3) by (simp add: config_ok_def word_uint_eq_iff)
  obtain P' where P': "uart_set_pin ?n (uint (tx_gpio c)) (uint (rx_gpio c)) (- 1) (- 1) P = (ESP_OK, P')"
      "out_connected ?n SOC_UART_TX_PIN_IDX (uint (tx_gpio c)) P'" "in_connected ?n SOC_UART_RX_PIN_IDX (uint (rx_gpio c)) P'"
    using pins_connected [OF n _ _ ne, of P] assms(3) by (auto simp: config_ok_def)
  obtain U3 where U3: "uart_flush_input (in_env i) ?n k U2 = Inr (ESP_OK, U3, k)" "port_ok ?n U3" "rx_stream (port_obj ?n U3) = []"
      "rx_fifo (uart_hw U3 ?n) = []" "rx_mux (port_obj ?n U3) = rx_mux (port_obj ?n U2)" "events (port_obj ?n U3) = events (port_obj ?n U2)"
      "tx_quiet ?n U2 U3"
      "uart_int_ena (uart_hw U3 ?n) = (uart_int_ena (uart_hw U2 ?n) AND NOT (UART_INTR_RXFIFO_FULL OR UART_INTR_RXFIFO_TOUT)) OR
         (rx_int_usr_mask (port_obj ?n U2) AND (UART_INTR_RXFIFO_TOUT OR UART_INTR_RXFIFO_FULL))"
    using flush_input_empties [OF p2(1), of k "in_env i"] U1(5) p2(2) by auto
  have fl: "has_flag (w OR (m AND (UART_INTR_RXFIFO_TOUT OR UART_INTR_RXFIFO_FULL))) UART_INTR_RXFIFO_FULL"
    "has_flag (w OR (m AND (UART_INTR_RXFIFO_TOUT OR UART_INTR_RXFIFO_FULL))) UART_INTR_RXFIFO_TOUT"
    if "m = UART_INTR_RXFIFO_FULL OR UART_INTR_RXFIFO_TOUT" for w m
    using that by (simp_all add: has_flag_def UART_INTR_RXFIFO_FULL_def UART_INTR_RXFIFO_TOUT_def word_ao_dist)
  have "SHCOM_InitCom i c k S U P = Inr (SHCOM_STATUS_OK, S\<lparr>uart_event_queue_handle := Some ?n, uart_port := ?n,
      uart_tx_gpio := ucast (tx_gpio c), uart_rx_gpio := ucast (rx_gpio c), uart_listener_task_handle := True\<rparr>, U3, P', k)"
    using U1(1) U2(1) P'(1) U3(1) assms(4) by (simp add: SHCOM_InitCom_def Let_def)
  then show ?thesis using U1(4,5,7,8) U2(3) p2(2) U3 P' fl [OF U1(7)] by (simp add: shell_ready_def tx_quiet_def tx_hw_view_def)
qed

lemma flush_keeps_driver:
  "uart_flush_input em n k U = Inr (r, U', k') \<Longrightarrow> p_uart_obj U n \<noteq> None \<Longrightarrow> p_uart_obj U' n \<noteq> None"
  by (auto simp: uart_flush_input_def bind_res_eq_Inr_iff Let_def split: if_splits)

lemma init_installed_error:
  assumes "p_uart_obj U (port c) \<noteq> None"
  shows "SHCOM_InitCom i c k S U P = Inr (SHCOM_STATUS_ERROR, S, U, P, k)"
  using assms by (auto simp: SHCOM_InitCom_def uart_driver_install_def Let_def)

lemma init_keeps_driver:
  assumes "init_inputs_ok i c U" and "kernel_ok k" and "SHCOM_InitCom i c k S U P = Inr (r, S', U', P', k')"
  shows "p_uart_obj U' (port c) \<noteq> None"
proof -
  obtain U1 where U1: "uart_driver_install (in_allocs i) (in_reset i) (in_intr i) (port c) (2 * int SOC_UART_FIFO_LEN) (2 * int SOC_UART_FIFO_LEN)
      UART_EVENT_QUEUE_SIZE True k U = Inr (ESP_OK, U1, k)" "port_ok (port c) U1" using init_installs [OF assms(1,2)] by blast
  then have "p_uart_obj U1 (port c) \<noteq> None" by (auto simp: port_ok_def split: option.splits)
  with assms(3) U1(1) show ?thesis
    by (auto simp: SHCOM_InitCom_def bind_res_eq_Inr_iff Let_def split: if_splits prod.splits
        dest!: param_config_keeps_driver(1) flush_keeps_driver)
qed

section \<open>Errors that go unnoticed\<close>

text \<open>
  A failed read, of a port without a driver or whose receive mutex stays taken, returns -1. The task keeps
  it in one unsigned byte, takes it for 255 bytes read, and hands the byte of an earlier turn to the shell.
\<close>

lemma failed_read_repeats_byte:
  assumes "uart_read_bytes em e (uart_port S) 1 (of_nat (UART_RX_TIMEOUT_MS div portTICK_PERIOD_MS)) k U = Inr (- 1, [], U', k')"
  shows "listener_read recv em e k S U sh = Inr (recv (incoming_byte S) sh, S, U', k')"
  using assms by (simp add: listener_read_def word_gt_0)

lemma read_without_driver:
  "p_uart_obj U n = None \<Longrightarrow> uart_read_bytes em e n l t k U = Inr (- 1, [], U, k)"
  by (simp add: uart_read_bytes_def)

text \<open>Printing reports success whatever becomes of the character, also without a driver.\<close>

lemma print_always_succeeds:
  "SHCOM_PrintCharacter em e c k S U = Inr (r, U', k') \<Longrightarrow> r = SHCOM_STATUS_OK"
  "p_uart_obj U (uart_port S) = None \<Longrightarrow> SHCOM_PrintCharacter em e c k S U = Inr (SHCOM_STATUS_OK, U, k)"
  by (auto simp: SHCOM_PrintCharacter_def uart_write_bytes_def bind_res_eq_Inr_iff)

section \<open>A concrete line\<close>

text \<open>Port 0, installed with the sizes the shell asks for, with two bytes in the FIFO.\<close>

definition demo_shcom :: shcom where
  "demo_shcom =
     \<lparr>uart_event_queue_handle = Some 0, uart_listener_task_handle = True, uart_port = 0, uart_tx_gpio = 43, uart_rx_gpio = 44,
      incoming_byte = 0\<rparr>"

definition demo_port :: "u8 list \<Rightarrow> uart" where
  "demo_port fifo = on_hw 0 (\<lambda>hw. hw\<lparr>rx_fifo := fifo\<rparr>) (put_obj 0 (installed_obj demo_allocs 256 256 16) demo_uart)"

definition demo_inputs :: shcom_inputs where
  "demo_inputs =
     \<lparr>in_allocs = demo_allocs, in_reset = demo_uart_dev, in_intr = ESP_OK, in_clk = \<lambda>_. Inr 80000000, in_task = True, in_env = []\<rparr>"

definition demo_shcom_config :: SHCOM_Config_t where
  "demo_shcom_config = \<lparr>tx_gpio = 43, rx_gpio = 44, baudrate = 115200, port = 0\<rparr>"

lemma demo_port_ready:
  assumes "length fifo \<le> SOC_UART_FIFO_LEN"
  shows "shell_ready demo_kernel demo_shcom (demo_port fifo)" "received demo_shcom (demo_port fifo) = []"
    "in_fifo demo_shcom (demo_port fifo) = fifo" "pending demo_shcom (demo_port fifo) = []"
    "\<not> rx_buffer_full_flg (port_obj 0 (demo_port fifo))" "rb_cap (rx_ring (port_obj 0 (demo_port fifo))) = 256"
proof -
  let ?o = "installed_obj demo_allocs 256 256 16"
  have "sizes_ok 256 256 16" using shell_sizes by (simp add: SOC_UART_FIFO_LEN_def UART_EVENT_QUEUE_SIZE_def)
  note ok = installed_obj_ok [OF this, of demo_allocs]
  have o: "p_uart_obj (demo_port fifo) 0 = Some ?o" "port_obj 0 (demo_port fifo) = ?o" by (simp_all add: demo_port_def port_obj_def)
  have mux: "rx_mux ?o = Some new_mutex" by (simp add: installed_obj_def new_obj_def)
  show f: "in_fifo demo_shcom (demo_port fifo) = fifo" by (simp add: demo_port_def demo_shcom_def on_hw_def)
  then show "shell_ready demo_kernel demo_shcom (demo_port fifo)"
    using ok o assms mux new_sems(1) demo_kernel_ok
    by (simp add: shell_ready_def port_ok_def mutex_ready_def demo_shcom_def UART_NUM_MAX_def) (simp add: demo_port_def demo_uart_def)
  show "received demo_shcom (demo_port fifo) = []" "pending demo_shcom (demo_port fifo) = []"
    "rb_cap (rx_ring (port_obj 0 (demo_port fifo))) = 256" using ok o by (simp_all add: demo_shcom_def)
  show "\<not> rx_buffer_full_flg (port_obj 0 (demo_port fifo))"
    using o by (simp add: installed_obj_def new_obj_def zero_obj_def)
qed

text \<open>After the timeout interrupt the two bytes are in the ring buffer and one data event waits.\<close>

lemma demo_received:
  "\<exists>U. uart_rx_intr_handler_default demo_kernel [UART_INTR_RXFIFO_TOUT] 0 (demo_port [104, 105]) = Inr (U, demo_kernel) \<and>
    shell_ready demo_kernel demo_shcom U \<and> received demo_shcom U = [104, 105] \<and>
    (\<forall>ev \<in> set (pending demo_shcom U). \<not> overflow_event ev)"
proof -
  let ?U = "demo_port [104, 105]" and ?o = "port_obj 0 (demo_port [104, 105])"
  note d = demo_port_ready [of "[104, 105]", simplified SOC_UART_FIFO_LEN_def, simplified]
  have s: "uart_port demo_shcom = 0" by (simp add: demo_shcom_def)
  have st: "rx_interrupt UART_INTR_RXFIFO_TOUT" by (simp add: rx_interrupt_def has_flag_def UART_INTR_TXFIFO_EMPTY_def UART_INTR_CMD_CHAR_DET_def UART_INTR_RXFIFO_TOUT_def)
  have p: "port_ok 0 ?U" using d(1) s by (simp add: shell_ready_def)
  have tout: "has_flag UART_INTR_RXFIFO_TOUT UART_INTR_RXFIFO_TOUT" by (simp add: has_flag_def UART_INTR_TXFIFO_EMPTY_def UART_INTR_CMD_CHAR_DET_def UART_INTR_RXFIFO_TOUT_def)
  have t: "fifo_taken ?o UART_INTR_RXFIFO_TOUT [104, 105] = 2" by (simp add: fifo_taken_def tout)
  have e: "event_type (rx_event ?o UART_INTR_RXFIFO_TOUT [104, 105]) = UART_DATA" using d(2,6) s by (simp add: rx_event_def t)
  obtain U where U: "uart_rx_intr_handler_default demo_kernel [UART_INTR_RXFIFO_TOUT] 0 ?U = Inr (U, demo_kernel)" "port_ok 0 U"
    "rx_stream (port_obj 0 U) = [104, 105]" "rx_mux (port_obj 0 U) = rx_mux ?o"
    "events (port_obj 0 U) = posted (rx_event ?o UART_INTR_RXFIFO_TOUT [104, 105]) ?o"
    using rx_handler_stores [OF p st, of demo_kernel] d s t by auto
  have "\<not> overflow_event ev" if "ev \<in> set (events (port_obj 0 U))" for ev
    using that e by (auto simp: U(5) posted_def overflow_event_iff split: option.splits if_splits)
  then show ?thesis using U d(1) s by (simp add: shell_ready_def)
qed

lemma demo_init_inputs: "init_inputs_ok demo_inputs demo_shcom_config demo_uart" "config_ok demo_inputs demo_shcom_config"
  by (simp_all add: init_inputs_ok_def config_ok_def demo_inputs_def demo_shcom_config_def demo_uart_def demo_uart_dev_def demo_allocs_def
      mem_ok_def UART_NUM_MAX_def SOC_UART_FIFO_LEN_def baud_ok_def GPIO_IS_VALID_GPIO_def SOC_GPIO_VALID_GPIO_MASK_def)

section \<open>Properties\<close>

text \<open>
  The listener hands the received bytes to the shell, one per turn, in the order in which the
  interrupt handler stored them and each exactly once: as long as no overflow is reported, after any
  number of turns up to the number of bytes received the shell has seen that many first bytes, and
  the rest is still waiting.
\<close>

theorem listener_delivers_in_order:
  assumes "shell_ready k S U" and "\<forall>ev \<in> set (pending S U). \<not> overflow_event ev" and "m \<le> length (received S U)"
  shows "\<exists>S' U'. listener_turns SHELL_RecvChar m k S U sh = Inr (fold SHELL_RecvChar (take m (received S U)) sh, S', U', k) \<and>
    shell_ready k S' U' \<and> received S' U' = drop m (received S U) \<and> in_fifo S' U' = in_fifo S U"
  by (rule turns_deliver [OF assms])

theorem listener_delivers_in_order_witness:
  "\<exists>U S' U'. uart_rx_intr_handler_default demo_kernel [UART_INTR_RXFIFO_TOUT] 0 (demo_port [104, 105]) = Inr (U, demo_kernel) \<and>
     listener_turns deliver 2 demo_kernel demo_shcom U [] = Inr ([104, 105], S', U', demo_kernel) \<and> received S' U' = []"
proof -
  obtain U where U: "uart_rx_intr_handler_default demo_kernel [UART_INTR_RXFIFO_TOUT] 0 (demo_port [104, 105]) = Inr (U, demo_kernel)"
    "shell_ready demo_kernel demo_shcom U" "received demo_shcom U = [104, 105]"
    "\<forall>ev \<in> set (pending demo_shcom U). \<not> overflow_event ev" using demo_received by blast
  from listener_delivers_in_order [OF U(2,4), of 2 deliver "[]"] U(1,3) show ?thesis by auto
qed

text \<open>
  C29. Draining the event queue always ends with the queue empty. If one of the events reports that
  the buffer was full or the FIFO overflowed, everything received so far is thrown away, in the driver
  and in the FIFO, also what arrived before the overflow; otherwise nothing is touched.
\<close>

theorem listener_drains_events:
  assumes "shell_ready k S U"
  shows "\<exists>U'. drain_events (events_waiting S U) es k S U = Inr (U', k) \<and> shell_ready k S U' \<and> pending S U' = [] \<and>
    (if \<exists>ev \<in> set (pending S U). overflow_event ev then received S U' = [] \<and> in_fifo S U' = []
     else received S U' = received S U \<and> in_fifo S U' = in_fifo S U)"
  using drain_all [OF assms, of "events_waiting S U" es] events_waiting_eq [OF assms] by (auto split: if_splits)

theorem listener_drains_events_witness:
  "\<exists>U U'. uart_rx_intr_handler_default demo_kernel [UART_INTR_RXFIFO_TOUT] 0 (demo_port [104, 105]) = Inr (U, demo_kernel) \<and>
     drain_events (events_waiting demo_shcom U) [] demo_kernel demo_shcom U = Inr (U', demo_kernel) \<and>
     pending demo_shcom U' = [] \<and> received demo_shcom U' = [104, 105]"
proof -
  obtain U where U: "uart_rx_intr_handler_default demo_kernel [UART_INTR_RXFIFO_TOUT] 0 (demo_port [104, 105]) = Inr (U, demo_kernel)"
    "shell_ready demo_kernel demo_shcom U" "received demo_shcom U = [104, 105]"
    "\<forall>ev \<in> set (pending demo_shcom U). \<not> overflow_event ev" using demo_received by blast
  from listener_drains_events [OF U(2), of "[]"] U(1,3,4) show ?thesis by auto
qed

text \<open>
  C10. From the wire to the shell: however bytes arriving, interrupts, draining and reading interleave,
  the bytes the shell has been given followed by those in the driver and in the FIFO are a
  subsequence of the bytes that arrived: none is duplicated, changed or overtaken. As long as no
  overflow has been reported they are exactly the bytes that arrived, and in every such state the next
  receive interrupt, drain and read all return.
\<close>

theorem shell_line_order:
  assumes "(line_step k)\<^sup>*\<^sup>* s0 s" and "shell_ready k (l_com s0) (l_uart s0)" and "received (l_com s0) (l_uart s0) = []"
    and "in_fifo (l_com s0) (l_uart s0) = []" and "pending (l_com s0) (l_uart s0) = []" and "l_given s0 = []" and "l_arrived s0 = []"
  shows "subseq (on_the_way s) (l_arrived s) \<and> (\<not> l_lost s \<longrightarrow> on_the_way s = l_arrived s) \<and>
    (rx_interrupt st \<longrightarrow> (\<exists>U'. uart_rx_intr_handler_default k [st] (uart_port (l_com s)) (l_uart s) = Inr (U', k))) \<and>
    (\<exists>U'. drain_events (events_waiting (l_com s) (l_uart s)) es k (l_com s) (l_uart s) = Inr (U', k)) \<and>
    (received (l_com s) (l_uart s) \<noteq> [] \<longrightarrow>
       (\<exists>S' U'. listener_read deliver em e k (l_com s) (l_uart s) (l_given s) = Inr (deliver (hd (received (l_com s) (l_uart s))) (l_given s), S', U', k)))"
proof -
  have "line_ok k s0" using assms(2-) by (simp add: line_ok_def on_the_way_def)
  with assms(1) have ok: "line_ok k s" by (induction rule: rtranclp_induct) (auto intro: line_step_ok)
  let ?S = "l_com s" and ?U = "l_uart s"
  have r: "shell_ready k ?S ?U" using ok by (simp add: line_ok_def)
  have "\<exists>U'. drain_events (events_waiting ?S ?U) es k ?S ?U = Inr (U', k)"
    using drain_all [OF r, of "events_waiting ?S ?U" es] events_waiting_eq [OF r] by auto
  moreover have "\<exists>U'. uart_rx_intr_handler_default k [st] (uart_port ?S) ?U = Inr (U', k)" if "rx_interrupt st"
    using rx_handler_stores [of "uart_port ?S" ?U st k] that r by (auto simp: shell_ready_def)
  moreover have "\<exists>S' U'. listener_read deliver em e k ?S ?U (l_given s) = Inr (deliver (hd (received ?S ?U)) (l_given s), S', U', k)"
    if "received ?S ?U \<noteq> []"
  proof -
    from that obtain b rest where st: "received ?S ?U = b # rest" by (auto simp: neq_Nil_conv)
    from read_delivers [OF r st, of deliver em e "l_given s"] st show ?thesis by auto
  qed
  ultimately show ?thesis using ok by (auto simp: line_ok_def)
qed

theorem shell_line_order_witness:
  "\<exists>s. (line_step demo_kernel)\<^sup>*\<^sup>* \<lparr>l_com = demo_shcom, l_uart = demo_port [], l_given = [], l_arrived = [], l_lost = False\<rparr> s \<and>
     l_arrived s = [104] \<and> on_the_way s = [104]"
proof -
  let ?s = "\<lparr>l_com = demo_shcom, l_uart = demo_port [], l_given = [], l_arrived = [], l_lost = False\<rparr>"
  note d = demo_port_ready [of "[]", simplified]
  have "line_step demo_kernel ?s (arrive 104 ?s)" by (rule line_step.byte) (simp add: d SOC_UART_FIFO_LEN_def)
  then have r: "(line_step demo_kernel)\<^sup>*\<^sup>* ?s (arrive 104 ?s)" by (rule r_into_rtranclp)
  from shell_line_order [OF r] d have "on_the_way (arrive 104 ?s) = [104]" by (simp add: arrive_def)
  with r show ?thesis by (intro exI [of _ "arrive 104 ?s"]) (simp add: arrive_def)
qed

text \<open>
  Initialisation makes the line ready: with memory, an interrupt line, a rate the clock can
  produce and two valid pads it succeeds, the listener's port is ready with nothing received and no
  event pending, receive interrupts are on, and both lines are connected.
\<close>

theorem shell_init_ready:
  assumes "init_inputs_ok i c U" and "kernel_ok k" and "config_ok i c" and "in_task i"
  shows "\<exists>S' U' P'. SHCOM_InitCom i c k S U P = Inr (SHCOM_STATUS_OK, S', U', P', k) \<and> shell_ready k S' U' \<and> uart_port S' = port c \<and>
    received S' U' = [] \<and> in_fifo S' U' = [] \<and> pending S' U' = [] \<and>
    has_flag (uart_int_ena (uart_hw U' (port c))) UART_INTR_RXFIFO_FULL \<and> has_flag (uart_int_ena (uart_hw U' (port c))) UART_INTR_RXFIFO_TOUT \<and>
    out_connected (port c) SOC_UART_TX_PIN_IDX (uint (tx_gpio c)) P' \<and> in_connected (port c) SOC_UART_RX_PIN_IDX (uint (rx_gpio c)) P'"
  using init_ready [OF assms, of S P] by blast

theorem shell_init_ready_witness:
  "\<exists>S' U' P'. SHCOM_InitCom demo_inputs demo_shcom_config demo_kernel demo_shcom demo_uart demo_pins =
       Inr (SHCOM_STATUS_OK, S', U', P', demo_kernel) \<and>
     received S' U' = [] \<and> out_connected 0 SOC_UART_TX_PIN_IDX 43 P' \<and> in_connected 0 SOC_UART_RX_PIN_IDX 44 P'"
  using shell_init_ready [OF demo_init_inputs(1) demo_kernel_ok demo_init_inputs(2), of demo_shcom demo_pins]
  by (auto simp: demo_inputs_def demo_shcom_config_def)

text \<open>
  A failed initialisation cannot be repeated. Whatever fails after the driver was installed, the
  clock, a pad or the creation of the task, the driver stays installed, and every later attempt on the
  same port fails at once, with whatever configuration.
\<close>

theorem shell_init_failure_is_final:
  assumes "init_inputs_ok i c U" and "kernel_ok k" and "SHCOM_InitCom i c k S U P = Inr (SHCOM_STATUS_ERROR, S', U', P', k')"
  shows "port c' = port c \<longrightarrow> SHCOM_InitCom i' c' k'' S' U' P'' = Inr (SHCOM_STATUS_ERROR, S', U', P'', k'')"
  using init_keeps_driver [OF assms] init_installed_error [of U' c'] by simp

theorem shell_init_failure_is_final_witness:
  "\<exists>S' U' P' k'. SHCOM_InitCom (demo_inputs\<lparr>in_clk := \<lambda>_. Inl ESP_FAIL\<rparr>) demo_shcom_config demo_kernel demo_shcom demo_uart demo_pins =
       Inr (SHCOM_STATUS_ERROR, S', U', P', k') \<and>
     SHCOM_InitCom demo_inputs demo_shcom_config k' S' U' P' = Inr (SHCOM_STATUS_ERROR, S', U', P', k')"
proof -
  let ?i = "demo_inputs\<lparr>in_clk := \<lambda>_. Inl ESP_FAIL\<rparr>" and ?c = demo_shcom_config
  have i: "init_inputs_ok ?i ?c demo_uart" using demo_init_inputs(1) by (simp add: init_inputs_ok_def)
  obtain U1 where "uart_driver_install (in_allocs ?i) (in_reset ?i) (in_intr ?i) (port ?c) (2 * int SOC_UART_FIFO_LEN) (2 * int SOC_UART_FIFO_LEN)
      UART_EVENT_QUEUE_SIZE True demo_kernel demo_uart = Inr (ESP_OK, U1, demo_kernel)"
    using init_installs [OF i demo_kernel_ok] by blast
  then have "\<exists>S' U' P' k'. SHCOM_InitCom ?i ?c demo_kernel demo_shcom demo_uart demo_pins = Inr (SHCOM_STATUS_ERROR, S', U', P', k')"
    by (simp add: SHCOM_InitCom_def uart_param_config_def shcom_uart_config_def uart_sclk_sel_def demo_shcom_config_def UART_NUM_MAX_def
        SOC_UART_FIFO_LEN_def uart_consts Let_def)
  then obtain S' U' P' k' where f: "SHCOM_InitCom ?i ?c demo_kernel demo_shcom demo_uart demo_pins = Inr (SHCOM_STATUS_ERROR, S', U', P', k')"
    by blast
  from shell_init_failure_is_final [OF i demo_kernel_ok f, of ?c demo_inputs k' P'] f show ?thesis by blast
qed

end
