(* ===== verification/UartTx.thy ===== *)
theory UartTx
  imports NoSplit ShellCom
begin

text \<open>
  The transmit side of the UART driver, from \<^verbatim>\<open>uart_write_bytes\<close> to the line. A write puts a description
  of the transmission and then the data, in pieces, into the transmit ring buffer; the interrupt handler
  takes the items out, reads the descriptions and pushes the data into the FIFO, as much as fits. The
  items that wait, the item in work and the counters of the driver stand for one stream of bytes: a
  write appends to it, the handler moves bytes from its front to the FIFO, and nothing is lost,
  repeated or reordered.
\<close>

section \<open>The bytes that items stand for\<close>

text \<open>
  Items are read with the number of bytes that are still to come of the transmission in work. When it
  is 0 the next item is a description, which carries the number of bytes that follow.
\<close>

definition described :: "u8 list \<Rightarrow> nat" where
  "described bs = unat (bytes_word (take 4 (drop 8 bs)))"

definition describes :: "u8 list \<Rightarrow> bool" where
  "describes bs \<longleftrightarrow> length bs = sizeof_tx_data \<and> bytes_word (take 4 bs) \<noteq> event_code UART_DATA_BREAK \<and> 0 < described bs"

fun payload :: "nat \<Rightarrow> u8 list list \<Rightarrow> u8 list" where
  "payload t [] = []"
| "payload t (bs # bss) = (if t = 0 then payload (described bs) bss else bs @ payload (t - length bs) bss)"

fun owed :: "nat \<Rightarrow> u8 list list \<Rightarrow> nat" where
  "owed t [] = t"
| "owed t (bs # bss) = (if t = 0 then owed (described bs) bss else owed (t - length bs) bss)"

fun announced :: "nat \<Rightarrow> u8 list list \<Rightarrow> bool" where
  "announced t [] \<longleftrightarrow> True"
| "announced t (bs # bss) \<longleftrightarrow>
     (if t = 0 then describes bs \<and> announced (described bs) bss else bs \<noteq> [] \<and> length bs \<le> t \<and> announced (t - length bs) bss)"

lemma payload_append: "payload t (xs @ ys) = payload t xs @ payload (owed t xs) ys"
  by (induction t xs rule: payload.induct) simp_all

lemma owed_append: "owed t (xs @ ys) = owed (owed t xs) ys"
  by (induction t xs rule: owed.induct) simp_all

lemma announced_append: "announced t (xs @ ys) \<longleftrightarrow> announced t xs \<and> announced (owed t xs) ys"
  by (induction t xs rule: announced.induct) simp_all

lemma tx_data_described:
  "length (tx_data_bytes ty b s) = 12" "described (tx_data_bytes ty b s) = unat s" "bytes_word (take 4 (tx_data_bytes ty b s)) = event_code ty"
  by (simp_all add: tx_data_bytes_def described_def)

section \<open>The state of the transmit side\<close>

definition tx_rest :: "uart_obj_t \<Rightarrow> u8 list" where
  "tx_rest ob =
     (case (tx_ptr ob, lent_items (the (tx_ring_buf ob))) of
        (Some _, [bs]) \<Rightarrow> drop (length bs - unat (tx_len_cur ob)) bs
      | _ \<Rightarrow> [])"

definition to_send :: "uart_obj_t \<Rightarrow> u8 list" where
  "to_send ob = tx_rest ob @ payload (unat (tx_len_tot ob) - length (tx_rest ob)) (queued_items (the (tx_ring_buf ob)))"

definition tx_owed :: "uart_obj_t \<Rightarrow> nat" where
  "tx_owed ob = owed (unat (tx_len_tot ob) - length (tx_rest ob)) (queued_items (the (tx_ring_buf ob)))"

definition items_left :: "uart_obj_t \<Rightarrow> nat" where
  "items_left ob = length (queued_items (the (tx_ring_buf ob)))"

text \<open>
  Between two items none is on loan; within one, the loan is the item in work, and the pointer of the
  driver stands where its rest begins. Only transmissions without a break are considered.
\<close>

definition tx_ok :: "uart_obj_t \<Rightarrow> bool" where
  "tx_ok ob \<longleftrightarrow> 0 < tx_buf_size ob \<and> \<not> tx_brk_flg ob \<and> \<not> tx_waiting_brk ob \<and>
     (case tx_ring_buf ob of
        None \<Rightarrow> False
      | Some rb \<Rightarrow> item_inv rb \<and>
          (case (tx_ptr ob, lent_items rb) of
             (None, []) \<Rightarrow> announced (unat (tx_len_tot ob)) (queued_items rb)
           | (Some p, [bs]) \<Rightarrow>
               0 < tx_len_cur ob \<and> unat (tx_len_cur ob) \<le> length bs \<and> unat (tx_len_cur ob) \<le> unat (tx_len_tot ob) \<and>
               announced (unat (tx_len_tot ob) - unat (tx_len_cur ob)) (queued_items rb) \<and>
               (case tx_head ob of
                  None \<Rightarrow> False
                | Some h \<Rightarrow> holds_item (h, of_nat (length bs)) rb \<and> p = h + int (length bs - unat (tx_len_cur ob)))
           | _ \<Rightarrow> False))"

text \<open>The two kinds of state, with the positions in the storage.\<close>

lemma tx_idle:
  assumes "tx_ring_buf ob = Some rb" and "items_at f r a [] ws rb" and "tx_ptr ob = None" and "0 < tx_buf_size ob"
    and "\<not> tx_brk_flg ob" and "\<not> tx_waiting_brk ob"
  shows "tx_ok ob \<longleftrightarrow> announced (unat (tx_len_tot ob)) ws" "to_send ob = payload (unat (tx_len_tot ob)) ws"
    "tx_owed ob = owed (unat (tx_len_tot ob)) ws" "items_left ob = length ws"
  using assms items_atI_lists [OF assms(2)] by (simp_all add: tx_ok_def to_send_def tx_owed_def tx_rest_def items_left_def)

lemma tx_busy:
  assumes "tx_ring_buf ob = Some rb" and "items_at f r a [bs] ws rb" and "tx_ptr ob = Some p" and "0 < tx_buf_size ob"
    and "\<not> tx_brk_flg ob" and "\<not> tx_waiting_brk ob" and "unat (tx_len_cur ob) \<le> length bs"
  defines "h \<equiv> int (item_pos (length (rb_storage rb)) f bs + 8)" and "rest \<equiv> drop (length bs - unat (tx_len_cur ob)) bs"
  shows "tx_ok ob \<longleftrightarrow> 0 < tx_len_cur ob \<and> unat (tx_len_cur ob) \<le> unat (tx_len_tot ob) \<and>
      announced (unat (tx_len_tot ob) - unat (tx_len_cur ob)) ws \<and> tx_head ob = Some h \<and> p = h + int (length bs - unat (tx_len_cur ob))"
    "to_send ob = rest @ payload (unat (tx_len_tot ob) - unat (tx_len_cur ob)) ws"
    "tx_owed ob = owed (unat (tx_len_tot ob) - unat (tx_len_cur ob)) ws" "items_left ob = length ws"
proof -
  note l = items_atI_lists [OF assms(2)]
  have "pucFree rb = int f" using assms(2) by (simp add: items_at_def Let_def)
  then have "holds_item (x, of_nat (length bs)) rb \<longleftrightarrow> x = h" for x using l(1) by (simp add: holds_item_def h_def)
  then show "tx_ok ob \<longleftrightarrow> 0 < tx_len_cur ob \<and> unat (tx_len_cur ob) \<le> unat (tx_len_tot ob) \<and>
      announced (unat (tx_len_tot ob) - unat (tx_len_cur ob)) ws \<and> tx_head ob = Some h \<and> p = h + int (length bs - unat (tx_len_cur ob))"
    using assms(1,3-7) l by (auto simp: tx_ok_def split: option.splits)
  have "tx_rest ob = rest" using assms(1,3) l by (simp add: tx_rest_def rest_def)
  then show "to_send ob = rest @ payload (unat (tx_len_tot ob) - unat (tx_len_cur ob)) ws"
    "tx_owed ob = owed (unat (tx_len_tot ob) - unat (tx_len_cur ob)) ws" "items_left ob = length ws"
    using assms(1,7) l by (simp_all add: to_send_def tx_owed_def rest_def items_left_def)
qed

lemma tx_okE:
  assumes "tx_ok ob"
  obtains (idle) rb f r a ws where "tx_ring_buf ob = Some rb" "items_at f r a [] ws rb" "tx_ptr ob = None"
    | (busy) rb f r a bs ws p where "tx_ring_buf ob = Some rb" "items_at f r a [bs] ws rb" "tx_ptr ob = Some p"
        "unat (tx_len_cur ob) \<le> length bs"
proof -
  obtain rb where rb: "tx_ring_buf ob = Some rb" "item_inv rb" using assms by (auto simp: tx_ok_def split: option.splits)
  obtain f r a where at: "items_at f r a (lent_items rb) (queued_items rb) rb" using rb(2) by (rule item_invE)
  consider "tx_ptr ob = None" "lent_items rb = []" |
    p bs where "tx_ptr ob = Some p" "lent_items rb = [bs]" "unat (tx_len_cur ob) \<le> length bs"
    using assms rb(1) by (auto simp: tx_ok_def split: option.splits list.splits)
  then show thesis
  proof cases
    case 1
    then show thesis using idle rb(1) at by simp
  next
    case 2
    then show thesis using busy rb(1) at by simp
  qed
qed

lemma tx_okD: "tx_ok ob \<Longrightarrow> 0 < tx_buf_size ob \<and> \<not> tx_brk_flg ob \<and> \<not> tx_waiting_brk ob"
  by (simp add: tx_ok_def)

text \<open>The driver's fields that transmitting changes.\<close>

definition tx_frame :: "uart_obj_t \<Rightarrow> uart_obj_t \<Rightarrow> bool" where
  "tx_frame ob ob' \<longleftrightarrow>
     ob' = ob\<lparr>tx_ring_buf := tx_ring_buf ob', tx_ptr := tx_ptr ob', tx_head := tx_head ob', tx_len_tot := tx_len_tot ob',
              tx_len_cur := tx_len_cur ob'\<rparr>"

lemma tx_frame_refl [simp]: "tx_frame ob ob"
  by (simp add: tx_frame_def)

lemma tx_frame_trans: "tx_frame a b \<Longrightarrow> tx_frame b c \<Longrightarrow> tx_frame a c"
  by (cases a; cases b; cases c) (simp add: tx_frame_def)

section \<open>One turn of the handler's loop\<close>

lemma receive_tx:
  assumes "items_at f r a [] (bs # ws) rb"
  defines "h \<equiv> int (item_pos (length (rb_storage rb)) r bs + 8)"
  shows "xRingbufferReceiveFromISR (Some rb) = Inr (Some (h, of_nat (length bs)), lend_item bs rb)"
    "items_at f (pos_after (length (rb_storage rb)) r bs) a [bs] ws (lend_item bs rb)" "f = r"
    "rb_storage (lend_item bs rb) = rb_storage rb" "length bs < 2 ^ 32"
proof -
  show "xRingbufferReceiveFromISR (Some rb) = Inr (Some (h, of_nat (length bs)), lend_item bs rb)"
    using isr_receive_item(1) [OF assms(1)] by (simp add: h_def)
  show "items_at f (pos_after (length (rb_storage rb)) r bs) a [bs] ws (lend_item bs rb)" using get_item [OF assms(1)] .
  show "f = r" using assms(1) by (simp add: items_at_def Let_def)
  show "rb_storage (lend_item bs rb) = rb_storage rb" by (simp add: lend_item_def)
  have "small (length (rb_storage rb)) bs" "storage_ok (length (rb_storage rb))"
    using assms(1) items_atD(2) [OF assms(1)] by (simp_all add: items_at_def Let_def)
  then show "length bs < 2 ^ 32" using need_small(1) need_bounds(1) [of bs] by (fastforce simp: storage_ok_def)
qed

lemma described_fields:
  assumes "items_at f r a [bs] ws rb" and "length bs = 12"
  defines "h \<equiv> int (item_pos (length (rb_storage rb)) f bs + 8)"
  shows "tx_field 2 h rb = Inr (of_nat (described bs))" "tx_field 0 h rb = Inr (bytes_word (take 4 bs))"
    "tx_field 1 h rb = Inr (bytes_word (take 4 (drop 4 bs)))"
proof -
  have rd: "mem_read (rb_storage rb) (h + int (4 * i)) 4 = Inr (take 4 (drop (4 * i) bs))" if "i \<le> 2" for i
    using lent_bytes [OF assms(1), of "4 * i" 4] assms(2) that by (simp add: h_def add.assoc)
  show "tx_field 2 h rb = Inr (of_nat (described bs))" using rd [of 2] by (simp add: tx_field_def described_def)
  show "tx_field 0 h rb = Inr (bytes_word (take 4 bs))" using rd [of 0] by (simp add: tx_field_def)
  show "tx_field 1 h rb = Inr (bytes_word (take 4 (drop 4 bs)))" using rd [of 1] by (simp add: tx_field_def)
qed

text \<open>
  Fetching leaves the stream alone: it takes a description off, or an item of data into work, or finds
  nothing, or has work already.
\<close>

lemma fetch_ok:
  assumes "tx_ok ob"
  shows "\<exists>go ob' en'. tx_fetch ob en = Inr (go, ob', en') \<and> tx_ok ob' \<and> to_send ob' = to_send ob \<and> tx_owed ob' = tx_owed ob \<and>
    tx_frame ob ob' \<and> (\<not> go \<longrightarrow> to_send ob = [] \<and> items_left ob = 0) \<and>
    (go \<longrightarrow> items_left ob' \<le> items_left ob \<and> (tx_ptr ob' = None \<longrightarrow> items_left ob' < items_left ob))"
  using assms
proof (cases rule: tx_okE)
  case (busy rb f r a bs ws p)
  from tx_busy(1) [OF busy(1-3) _ _ _ busy(4)] assms tx_okD [OF assms]
  have "0 < tx_len_cur ob" "unat (tx_len_cur ob) \<le> unat (tx_len_tot ob)" by blast+
  then have "tx_len_cur ob \<noteq> 0" "tx_len_tot ob \<noteq> 0" by (auto simp: word_greater_zero_iff unat_eq_0)
  then have "tx_fetch ob en = Inr (True, ob, en)" using busy(3) by (simp add: tx_fetch_def)
  then show ?thesis using assms busy(3) by auto
next
  case (idle rb f r a ws)
  note ok = tx_okD [OF assms]
  note i = tx_idle [OF idle(1,2,3)]
  show ?thesis
  proof (cases ws)
    case Nil
    let ?ob = "ob\<lparr>tx_ring_buf := Some rb, tx_head := None\<rparr>"
    have "tx_fetch ob en = Inr (False, ?ob, en)" using idle Nil receive_nothing(1) by (simp add: tx_fetch_def)
    moreover have "tx_ok ?ob" "to_send ?ob = to_send ob" "tx_owed ?ob = tx_owed ob"
      using tx_idle [of ?ob rb f r a ws] idle i ok Nil by simp_all
    moreover have "tx_frame ob ?ob" by (cases ob) (simp add: tx_frame_def)
    ultimately show ?thesis using i ok Nil by auto
  next
    case (Cons bs bss)
    note rc = receive_tx [OF idle(2) [unfolded Cons]]
    let ?h = "int (item_pos (length (rb_storage rb)) f bs + 8)" and ?rb = "lend_item bs rb"
    let ?ob1 = "ob\<lparr>tx_ring_buf := Some ?rb, tx_head := Some ?h\<rparr>"
    have an: "announced (unat (tx_len_tot ob)) (bs # bss)" using i(1) ok assms Cons by blast
    show ?thesis
    proof (cases "tx_len_tot ob = 0")
      case True
      then have ds: "describes bs" "announced (described bs) bss" using an by simp_all
      then have l12: "length bs = 12" "described bs < 2 ^ 32"
        using unsigned_less [of "bytes_word (take 4 (drop 8 bs))"] by (simp_all add: describes_def sizeof_tx_data_def described_def)
      note fd = described_fields [OF rc(2) l12(1), unfolded rc(4)]
      obtain rb2 where gv: "vRingbufferReturnItemFromISR (Some ?rb) (Some ?h) = Inr rb2"
        "items_at (pos_after (length (rb_storage rb)) r bs) (pos_after (length (rb_storage rb)) r bs) a [] bss rb2"
        using give_item [OF rc(2)] rc(4) by auto
      let ?ob = "ob\<lparr>tx_ring_buf := Some rb2, tx_head := Some ?h, tx_ptr := None, tx_len_tot := of_nat (described bs)\<rparr>"
      have "tx_fetch ob en = Inr (True, ?ob, en)"
        using idle True rc(1) fd gv(1) ds(1) by (simp add: tx_fetch_def give_back_head_def describes_def rc(3) Let_def)
      moreover have "tx_ok ?ob" "to_send ?ob = to_send ob" "tx_owed ?ob = tx_owed ob" "items_left ?ob = length bss"
        using tx_idle [OF _ gv(2), of ?ob] i ok Cons True ds l12(2) by (simp_all add: unat_of_nat)
      moreover have "tx_frame ob ?ob" by (cases ob) (simp add: tx_frame_def)
      ultimately show ?thesis using i(4) ok Cons by auto
    next
      case False
      then have t: "unat (tx_len_tot ob) \<noteq> 0" by (simp add: unat_eq_0)
      let ?ob = "?ob1\<lparr>tx_ptr := Some ?h, tx_len_cur := of_nat (length bs)\<rparr>"
      have u: "unat (of_nat (length bs) :: u32) = length bs" using rc(5) by (simp add: unat_of_nat)
      have a2: "bs \<noteq> []" "length bs \<le> unat (tx_len_tot ob)" "announced (unat (tx_len_tot ob) - length bs) bss" using an t by simp_all
      then have "0 < (of_nat (length bs) :: u32)" using u by (simp add: word_less_nat_alt)
      moreover have "tx_fetch ob en = Inr (True, ?ob, True)" using idle False rc(1) by (simp add: tx_fetch_def rc(3) Let_def)
      ultimately show ?thesis
        using tx_busy [of ?ob ?rb _ _ _ bs bss ?h, OF _ rc(2)] i ok Cons t a2 u rc(4)
        by (intro exI [of _ True] exI [of _ ?ob] exI [of _ True]) (cases ob; simp add: tx_frame_def)
    qed
  qed
qed

lemma unat_less_u32: "unat (w :: u32) < 2 ^ 32"
  using unsigned_less [of w, where ?'a = nat] by simp

text \<open>What transmitting changes of the port's registers, and of the whole driver.\<close>

definition tx_hw_frame :: "uart_dev \<Rightarrow> uart_dev \<Rightarrow> bool" where
  "tx_hw_frame hw hw' \<longleftrightarrow> hw' = hw\<lparr>tx_fifo := tx_fifo hw', uart_int_ena := uart_int_ena hw', sw_rts := sw_rts hw',
     txfifo_empty_thrhd := txfifo_empty_thrhd hw'\<rparr>"

lemma tx_hw_frame_refl [simp]: "tx_hw_frame hw hw"
  by (simp add: tx_hw_frame_def)

lemma tx_hw_frame_trans: "tx_hw_frame a b \<Longrightarrow> tx_hw_frame b c \<Longrightarrow> tx_hw_frame a c"
  by (cases a; cases b; cases c) (simp add: tx_hw_frame_def)

lemma tx_hw_updates [simp]:
  "tx_hw_frame hw (uart_hal_ena_intr_mask m hw)" "tx_hw_frame hw (uart_hal_disable_intr_mask m hw)" "tx_hw_frame hw (hw\<lparr>tx_fifo := bs\<rparr>)"
  "tx_fifo (uart_hal_ena_intr_mask m hw) = tx_fifo hw" "tx_fifo (uart_hal_disable_intr_mask m hw) = tx_fifo hw"
  by (cases hw; simp add: tx_hw_frame_def uart_hal_ena_intr_mask_def uart_hal_disable_intr_mask_def)+

definition tx_only :: "nat \<Rightarrow> uart \<Rightarrow> uart \<Rightarrow> bool" where
  "tx_only n U U' \<longleftrightarrow>
     U'\<lparr>p_uart_obj := p_uart_obj U, uart_hw := uart_hw U\<rparr> = U \<and>
     (\<forall>m. m \<noteq> n \<longrightarrow> p_uart_obj U' m = p_uart_obj U m \<and> uart_hw U' m = uart_hw U m) \<and>
     tx_frame (port_obj n U) (port_obj n U') \<and> tx_hw_frame (uart_hw U n) (uart_hw U' n)"

lemma tx_only_refl [simp]: "tx_only n U U"
  by (simp add: tx_only_def)

lemma tx_only_trans: "tx_only n U V \<Longrightarrow> tx_only n V W \<Longrightarrow> tx_only n U W"
  by (cases U; cases V; cases W) (auto simp: tx_only_def intro: tx_frame_trans tx_hw_frame_trans)

lemma tx_only_put: "p_uart_obj U n = Some ob \<Longrightarrow> tx_frame ob ob' \<Longrightarrow> tx_only n U (put_obj n ob' U)"
  by (cases U) (simp add: tx_only_def put_obj_def port_obj_def)

lemma tx_only_hw: "tx_hw_frame (uart_hw U n) (f (uart_hw U n)) \<Longrightarrow> tx_only n U (on_hw n f U)"
  by (cases U) (simp add: tx_only_def on_hw_def port_obj_def)

lemma uart_hw_on [simp]: "uart_hw (on_hw n f U) n = f (uart_hw U n)"
  by (simp add: on_hw_def)

text \<open>The transmit side of a port.\<close>

definition tx_port :: "nat \<Rightarrow> uart \<Rightarrow> bool" where
  "tx_port n U \<longleftrightarrow> n < UART_NUM_MAX \<and>
     (case p_uart_obj U n of None \<Rightarrow> False | Some ob \<Rightarrow> tx_ok ob) \<and> length (tx_fifo (uart_hw U n)) \<le> SOC_UART_FIFO_LEN"

definition tx_stream :: "nat \<Rightarrow> uart \<Rightarrow> u8 list" where
  "tx_stream n U = tx_fifo (uart_hw U n) @ to_send (port_obj n U)"

lemma write_fifo_all:
  assumes "p_uart_obj U n = Some ob" and "length (tx_fifo (uart_hw U n)) + length bs \<le> SOC_UART_FIFO_LEN"
  shows "\<exists>hw. uart_enable_tx_write_fifo n bs U = Inr (length bs, on_hw n (\<lambda>_. hw) U) \<and>
    tx_fifo hw = tx_fifo (uart_hw U n) @ bs \<and> tx_hw_frame (uart_hw U n) hw"
proof -
  let ?hw1 = "if uart_mode ob = UART_MODE_RS485_HALF_DUPLEX
    then uart_hal_ena_intr_mask UART_INTR_TX_DONE (uart_hw U n\<lparr>sw_rts := False\<rparr>) else uart_hw U n"
  have f: "tx_fifo ?hw1 = tx_fifo (uart_hw U n)" by simp
  moreover have "min (SOC_UART_FIFO_LEN - length (tx_fifo (uart_hw U n))) (length bs) = length bs" using assms(2) by linarith
  ultimately have w: "uart_hal_write_txfifo bs ?hw1 = (length bs, ?hw1\<lparr>tx_fifo := tx_fifo (uart_hw U n) @ bs\<rparr>)"
    by (simp add: uart_hal_write_txfifo_def uart_hal_get_txfifo_len_def)
  have "tx_hw_frame (uart_hw U n) (?hw1\<lparr>tx_fifo := tx_fifo (uart_hw U n) @ bs\<rparr>)"
    by (cases "uart_hw U n") (simp add: tx_hw_frame_def uart_hal_ena_intr_mask_def)
  moreover have "uart_enable_tx_write_fifo n bs U = Inr (length bs, on_hw n (\<lambda>_. ?hw1\<lparr>tx_fifo := tx_fifo (uart_hw U n) @ bs\<rparr>) U)"
    using assms(1) w by (simp add: uart_enable_tx_write_fifo_def Let_def)
  ultimately show ?thesis by (intro exI conjI) (assumption, simp, assumption)
qed

lemma push_ok:
  assumes "tx_port n U" and "p_uart_obj U n = Some ob" and "0 < room" and "room = SOC_UART_FIFO_LEN - length (tx_fifo (uart_hw U n))"
  shows "\<exists>en' room' U'. tx_push n room en U = Inr (en', room', U') \<and> tx_port n U' \<and> tx_stream n U' = tx_stream n U \<and>
    tx_owed (port_obj n U') = tx_owed ob \<and> tx_only n U U' \<and> room' = SOC_UART_FIFO_LEN - length (tx_fifo (uart_hw U' n)) \<and>
    items_left (port_obj n U') = items_left ob \<and> (if tx_ptr ob = None then room' = room \<and> en' = en else room' < room \<and> en')"
proof -
  have ok: "tx_ok ob" "length (tx_fifo (uart_hw U n)) \<le> SOC_UART_FIFO_LEN" "n < UART_NUM_MAX" using assms(1,2) by (simp_all add: tx_port_def)
  have po: "port_obj n U = ob" using assms(2) by (simp add: port_obj_def)
  note okd = tx_okD [OF ok(1)]
  from ok(1) show ?thesis
  proof (cases rule: tx_okE)
    case (idle rb f r a ws)
    then show ?thesis using assms po by (simp add: tx_push_def)
  next
    case (busy rb f r a bs ws p)
    define c where "c = unat (tx_len_cur ob)"
    define m where "m = min c room"
    let ?h = "int (item_pos (length (rb_storage rb)) f bs + 8)"
    note b = tx_busy [OF busy(1-3) _ _ _ busy(4)]
    have w: "0 < tx_len_cur ob" "c \<le> unat (tx_len_tot ob)" "announced (unat (tx_len_tot ob) - c) ws" "tx_head ob = Some ?h"
      "p = ?h + int (length bs - c)" using b(1) ok(1) okd by (auto simp: c_def)
    have c: "0 < c" "c \<le> length bs" "m \<le> c" "0 < m" "m \<le> room" using w(1) busy(4) assms(3) by (auto simp: c_def m_def word_less_nat_alt)
    let ?buf = "take m (drop (length bs - c) bs)"
    have len: "length ?buf = m" using c by simp
    have "p = int (item_pos (length (rb_storage rb)) f bs + 8 + (length bs - c))" using w(5) by simp
    then have rd: "mem_read (rb_storage rb) p m = Inr ?buf" using lent_bytes [OF busy(2), of "length bs - c" m] c by simp
    have fit: "length (tx_fifo (uart_hw U n)) + length ?buf \<le> SOC_UART_FIFO_LEN" using len c(5) assms(4) ok(2) by linarith
    obtain hw where hw: "uart_enable_tx_write_fifo n ?buf U = Inr (m, on_hw n (\<lambda>_. hw) U)" "tx_fifo hw = tx_fifo (uart_hw U n) @ ?buf"
      "tx_hw_frame (uart_hw U n) hw" using write_fifo_all [OF assms(2) fit] len by auto
    let ?U = "on_hw n (\<lambda>_. hw) U"
    have um: "unat (of_nat m :: u32) = m" using c(3) unat_less_u32 [of "tx_len_cur ob"] by (simp add: c_def unat_of_nat)
    have cur: "unat (tx_len_cur ob - of_nat m) = c - m" "unat (tx_len_tot ob - of_nat m) = unat (tx_len_tot ob) - m"
      using um c(3) w(2) by (simp_all add: unat_sub_if_size c_def)
    have cz: "tx_len_cur ob - of_nat m = 0 \<longleftrightarrow> m = c" unfolding unat_eq_0 [symmetric] cur(1) using c(3) by linarith
    have pos: "0 < tx_len_tot ob" using w(2) c(1) by (simp add: word_less_nat_alt)
    let ?ob1 = "ob\<lparr>tx_ptr := Some (p + int m), tx_len_tot := tx_len_tot ob - of_nat m, tx_len_cur := tx_len_cur ob - of_nat m\<rparr>"
    have "drop (length bs - (c - m)) bs = drop m (drop (length bs - c) bs)" using c by (simp add: add.commute)
    then have st: "?buf @ drop (length bs - (c - m)) bs = drop (length bs - c) bs" by (simp only: append_take_drop_id)
    have rm: "room - m = SOC_UART_FIFO_LEN - length (tx_fifo hw)" using hw(2) len assms(4) by simp
    have less: "room - m < room" using c(4,5) by simp
    have fl: "length (tx_fifo hw) \<le> SOC_UART_FIFO_LEN" using hw(2) len c(5) assms(4) ok(2) by simp
    have steps: "tx_push n room en U =
      (if m = c then bind_res (give_back_head ?ob1) (\<lambda>ob2. let ob3 = ob2\<lparr>tx_head := None, tx_ptr := None\<rparr> in
         if tx_len_tot ob3 = 0 \<and> tx_brk_flg ob3
         then Inr (False, room - m, on_hw n (\<lambda>hw. uart_hal_ena_intr_mask UART_INTR_TX_BRK_DONE
           (uart_hal_tx_break (ucast (tx_brk_len ob3)) hw)) (put_obj n (ob3\<lparr>tx_waiting_brk := True\<rparr>) ?U))
         else Inr (True, room - m, put_obj n ob3 ?U))
       else Inr (True, room - m, put_obj n ?ob1 ?U))"
      using assms(2) busy(1,3) w(1) pos rd hw(1) cz by (simp add: tx_push_def c_def [symmetric] m_def [symmetric] Let_def)
    have fin: "?thesis" if t: "tx_push n room en U = Inr (True, room - m, put_obj n ob' ?U)" and o': "tx_ok ob'" "tx_owed ob' = tx_owed ob"
      "to_send ob = ?buf @ to_send ob'" "items_left ob' = items_left ob" "tx_frame ob ob'" for ob'
    proof -
      have "tx_only n U ?U" using tx_only_hw [of U n "\<lambda>_. hw"] hw(3) by simp
      then have "tx_only n U (put_obj n ob' ?U)" using tx_only_put [of ?U n ob ob'] o'(5) assms(2) tx_only_trans by simp
      moreover have v: "port_obj n (put_obj n ob' ?U) = ob'" "tx_fifo (uart_hw (put_obj n ob' ?U) n) = tx_fifo hw" by (simp_all add: port_obj_def)
      moreover have "tx_port n (put_obj n ob' ?U)" using o'(1) fl ok(3) by (simp add: tx_port_def)
      moreover have "tx_stream n (put_obj n ob' ?U) = tx_stream n U" using v o'(3) hw(2) po by (simp add: tx_stream_def)
      moreover have "if tx_ptr ob = None then room - m = room \<and> True = en else room - m < room \<and> True" using busy(3) less by simp
      ultimately show ?thesis using t o'(2,4) rm by (intro exI [of _ True] exI [of _ "room - m"] exI [of _ "put_obj n ob' ?U"]) metis
    qed
    show ?thesis
    proof (cases "m = c")
      case True
      obtain rb2 where gv: "vRingbufferReturnItemFromISR (Some rb) (Some ?h) = Inr rb2" "items_at r r a [] ws rb2"
        using give_item [OF busy(2)] by auto
      let ?ob = "ob\<lparr>tx_len_tot := tx_len_tot ob - of_nat m, tx_len_cur := tx_len_cur ob - of_nat m, tx_ring_buf := Some rb2,
        tx_head := None, tx_ptr := None\<rparr>"
      have "tx_push n room en U = Inr (True, room - m, put_obj n ?ob ?U)"
        using steps True gv(1) busy(1) w(4) okd by (simp add: give_back_head_def)
      moreover have "tx_frame ob ?ob" by (cases ob) (simp add: tx_frame_def)
      ultimately show ?thesis
        using tx_idle [OF _ gv(2), of ?ob] b(2-4) okd cur(2) w(3) True c(2) by (intro fin) (simp_all add: c_def [symmetric])
    next
      case False
      have "tx_push n room en U = Inr (True, room - m, put_obj n ?ob1 ?U)" using steps False by simp
      moreover have "tx_frame ob ?ob1" by (cases ob) (simp add: tx_frame_def)
      moreover have "tx_ring_buf ?ob1 = Some rb" "tx_ptr ?ob1 = Some (p + int m)" "0 < tx_buf_size ?ob1" "\<not> tx_brk_flg ?ob1"
        "\<not> tx_waiting_brk ?ob1" "unat (tx_len_cur ?ob1) \<le> length bs" using busy(1) okd cur(1) c(2,3) by simp_all
      note b1 = tx_busy [OF this(1) busy(2) this(2-6)]
      have x: "0 < tx_len_cur ?ob1" "unat (tx_len_cur ?ob1) = c - m" "unat (tx_len_tot ?ob1) = unat (tx_len_tot ob) - m"
        "c - m \<le> unat (tx_len_tot ob) - m" "unat (tx_len_tot ob) - m - (c - m) = unat (tx_len_tot ob) - c" "tx_head ?ob1 = Some ?h"
        "p + int m = ?h + int (length bs - (c - m))"
        using cz False cur w(2,4,5) c(2,3) by (simp_all add: word_greater_zero_iff)
      ultimately show ?thesis
        using b1 [unfolded x(2,3,5)] x(1,4,6,7) w(3) st b(2-4) okd by (intro fin) (simp_all only: append_assoc [symmetric] c_def [symmetric] simp_thms)
    qed
  qed
qed

section \<open>The handler\<close>

text \<open>
  The loop ends within the number of turns that the items and the room allow, keeps the stream, and
  ends with the FIFO full or with nothing left to send. The interrupt stays on unless nothing is left.
\<close>

lemma tx_portE:
  assumes "tx_port n U"
  obtains ob where "p_uart_obj U n = Some ob" "port_obj n U = ob" "tx_ok ob" "n < UART_NUM_MAX" "length (tx_fifo (uart_hw U n)) \<le> SOC_UART_FIFO_LEN"
  using assms that by (auto simp: tx_port_def port_obj_def split: option.splits)

lemma fill_loop_ok:
  assumes "tx_port n U" and "items_left (port_obj n U) + room < fuel" and "room = SOC_UART_FIFO_LEN - length (tx_fifo (uart_hw U n))"
    and "room = 0 \<longrightarrow> en"
  shows "\<exists>en' U'. tx_fill_loop fuel n room en U = Inr (en', U') \<and> tx_port n U' \<and> tx_stream n U' = tx_stream n U \<and>
    tx_owed (port_obj n U') = tx_owed (port_obj n U) \<and> tx_only n U U' \<and>
    (length (tx_fifo (uart_hw U' n)) = SOC_UART_FIFO_LEN \<and> en' \<or> to_send (port_obj n U') = [])"
  using assms
proof (induction fuel arbitrary: room en U)
  case (Suc fuel)
  obtain ob where ob: "p_uart_obj U n = Some ob" "port_obj n U = ob" "tx_ok ob" "n < UART_NUM_MAX"
    "length (tx_fifo (uart_hw U n)) \<le> SOC_UART_FIFO_LEN" using Suc.prems(1) by (rule tx_portE)
  show ?case
  proof (cases "room = 0")
    case True
    then have "length (tx_fifo (uart_hw U n)) = SOC_UART_FIFO_LEN" en using Suc.prems(3,4) ob(5) by simp_all
    then show ?thesis using True Suc.prems(1) by auto
  next
    case False
    from fetch_ok [OF ob(3), of en] obtain go ob1 en1 where f: "tx_fetch ob en = Inr (go, ob1, en1)" "tx_ok ob1" "to_send ob1 = to_send ob"
      "tx_owed ob1 = tx_owed ob" "tx_frame ob ob1" "\<not> go \<longrightarrow> to_send ob = []"
      "go \<longrightarrow> items_left ob1 \<le> items_left ob \<and> (tx_ptr ob1 = None \<longrightarrow> items_left ob1 < items_left ob)" by metis
    let ?U1 = "put_obj n ob1 U"
    have u1: "tx_port n ?U1" "p_uart_obj ?U1 n = Some ob1" "port_obj n ?U1 = ob1" "tx_stream n ?U1 = tx_stream n U" "tx_only n U ?U1"
      "uart_hw ?U1 = uart_hw U"
      using f(2,3) ob tx_only_put [OF ob(1) f(5)] by (simp_all add: tx_port_def port_obj_def tx_stream_def)
    show ?thesis
    proof (cases go)
      case no: False
      then have "tx_fill_loop (Suc fuel) n room en U = Inr (en1, ?U1)" using False ob(1) f(1) by simp
      then show ?thesis using u1 f no ob(2) by auto
    next
      case True
      have "room = SOC_UART_FIFO_LEN - length (tx_fifo (uart_hw ?U1 n))" using Suc.prems(3) u1(6) by simp
      from push_ok [OF u1(1,2) _ this, of en1] False obtain en2 room' U2 where
        p: "tx_push n room en1 ?U1 = Inr (en2, room', U2)" "tx_port n U2" "tx_stream n U2 = tx_stream n ?U1" "tx_owed (port_obj n U2) = tx_owed ob1"
          "tx_only n ?U1 U2" "room' = SOC_UART_FIFO_LEN - length (tx_fifo (uart_hw U2 n))" "items_left (port_obj n U2) = items_left ob1"
          "if tx_ptr ob1 = None then room' = room \<and> en2 = en1 else room' < room \<and> en2" by auto
      have "tx_fill_loop (Suc fuel) n room en U = tx_fill_loop fuel n room' en2 U2" using False True ob(1) f(1) p(1) by simp
      moreover have "items_left (port_obj n U2) + room' < fuel" "room' = 0 \<longrightarrow> en2"
        using p(7,8) f(7) True False Suc.prems(2) ob(2) by (auto split: if_splits)
      moreover note Suc.IH [OF p(2) _ p(6), of en2]
      ultimately show ?thesis using tx_only_trans [OF tx_only_trans [OF u1(5) p(5)]] p(3,4) u1(4) f(4) ob(2) by auto
    qed
  qed
qed simp

definition tx_empty_interrupt :: "u32 \<Rightarrow> bool" where
  "tx_empty_interrupt status \<longleftrightarrow> has_flag status UART_INTR_TXFIFO_EMPTY"

abbreviation tx_intr_on :: "nat \<Rightarrow> uart \<Rightarrow> bool" where
  "tx_intr_on n U \<equiv> has_flag (uart_int_ena (uart_hw U n)) UART_INTR_TXFIFO_EMPTY"

lemma items_counted:
  assumes "tx_ok ob" and "tx_ring_buf ob = Some rb"
  shows "unat (xItemsWaiting rb) = items_left ob"
proof -
  have "item_inv rb" using assms by (simp add: tx_ok_def)
  then obtain f r a where at: "items_at f r a (lent_items rb) (queued_items rb) rb" by (rule item_invE)
  have "8 * length (lent_items rb @ queued_items rb) \<le> length (rb_storage rb)" "length (rb_storage rb) < 2 ^ 31"
    using items_atD(12) [OF at] geometryD(10) [OF items_atD(1) [OF at]] by simp_all
  then have "length (queued_items rb) < 2 ^ 32" by simp
  moreover have "xItemsWaiting rb = of_nat (length (queued_items rb))" using at by (simp add: items_at_def Let_def)
  ultimately show ?thesis using assms(2) by (simp add: items_left_def unat_of_nat)
qed

lemma tx_flag_on [simp]: "has_flag (uart_int_ena (uart_hal_ena_intr_mask UART_INTR_TXFIFO_EMPTY hw)) UART_INTR_TXFIFO_EMPTY"
  by (simp add: uart_hal_ena_intr_mask_def has_flag_def word_ao_absorbs UART_INTR_TXFIFO_EMPTY_def)

lemma isr_tx_ok:
  assumes "tx_port n U" and "length (tx_fifo (uart_hw U n)) < SOC_UART_FIFO_LEN"
  shows "\<exists>U'. isr_tx_empty n U = Inr U' \<and> tx_port n U' \<and> tx_stream n U' = tx_stream n U \<and> tx_only n U U' \<and>
    tx_owed (port_obj n U') = tx_owed (port_obj n U) \<and>
    (length (tx_fifo (uart_hw U' n)) = SOC_UART_FIFO_LEN \<and> tx_intr_on n U' \<or> to_send (port_obj n U') = [])"
proof -
  obtain ob where ob: "p_uart_obj U n = Some ob" "port_obj n U = ob" "tx_ok ob" "n < UART_NUM_MAX"
    "length (tx_fifo (uart_hw U n)) \<le> SOC_UART_FIFO_LEN" using assms(1) by (rule tx_portE)
  obtain rb where rb: "tx_ring_buf ob = Some rb" using ob(3) by (auto simp: tx_ok_def split: option.splits)
  let ?U1 = "on_hw n (uart_hal_disable_intr_mask UART_INTR_TXFIFO_EMPTY) U"
  let ?room = "SOC_UART_FIFO_LEN - length (tx_fifo (uart_hw U n))"
  have u1: "tx_port n ?U1" "p_uart_obj ?U1 n = Some ob" "port_obj n ?U1 = ob" "tx_stream n ?U1 = tx_stream n U" "tx_only n U ?U1"
    using ob tx_only_hw [of U n] by (simp_all add: tx_port_def port_obj_def tx_stream_def)
  have room: "?room = SOC_UART_FIFO_LEN - length (tx_fifo (uart_hw ?U1 n))" "items_left (port_obj n ?U1) + ?room < Suc (items_left ob + ?room)"
    "?room = 0 \<longrightarrow> False" using u1(3) assms(2) by simp_all
  from fill_loop_ok [OF u1(1) room(2,1,3)] u1(3)
  obtain en' U' where l: "tx_fill_loop (Suc (items_left ob + ?room)) n ?room False ?U1 = Inr (en', U')" "tx_port n U'"
    "tx_stream n U' = tx_stream n ?U1" "tx_owed (port_obj n U') = tx_owed ob" "tx_only n ?U1 U'"
    "length (tx_fifo (uart_hw U' n)) = SOC_UART_FIFO_LEN \<and> en' \<or> to_send (port_obj n U') = []" by auto
  let ?U2 = "if en' then on_hw n (uart_hal_ena_intr_mask UART_INTR_TXFIFO_EMPTY) U' else U'"
  have "isr_tx_empty n U = Inr ?U2"
    using ob(1) tx_okD [OF ob(3)] rb items_counted [OF ob(3) rb] l(1)
    by (simp add: isr_tx_empty_def uart_hal_get_txfifo_len_def Let_def)
  moreover have "tx_only n U' ?U2" using tx_only_hw [of U' n] by simp
  moreover have "tx_port n ?U2" "tx_stream n ?U2 = tx_stream n U'" "port_obj n ?U2 = port_obj n U'" "tx_fifo (uart_hw ?U2 n) = tx_fifo (uart_hw U' n)"
    "en' \<longrightarrow> tx_intr_on n ?U2"
    using l(2) by (simp_all add: tx_port_def tx_stream_def port_obj_def)
  ultimately show ?thesis using l(3-6) u1(4,5) ob(2) tx_only_trans by (intro exI [of _ ?U2]) (metis (no_types, lifting))
qed

section \<open>Room in the ring buffer\<close>

text \<open>Whether items find room one after the other, and a region of the storage that is large enough for all of them.\<close>

fun room_for :: "nat \<Rightarrow> nat \<Rightarrow> nat \<Rightarrow> u8 list list \<Rightarrow> bool" where
  "room_for N t a [] \<longleftrightarrow> True"
| "room_for N t a (bs # bss) \<longleftrightarrow> small N bs \<and> t + used N a bs \<le> N \<and> room_for N (t + used N a bs) (pos_after N a bs) bss"

definition region :: "nat \<Rightarrow> nat \<Rightarrow> nat \<Rightarrow> nat" where
  "region N f a = (if a < f then f - a else max (N - a) f)"

lemma sum_need: "bss \<noteq> [] \<Longrightarrow> 8 \<le> sum_list (map need bss)"
  using need_bounds(2) [of "hd bss"] by (cases bss) simp_all

lemma room_for_region:
  assumes "storage_ok N" and "place N a" and "place N f" and "\<forall>bs \<in> set bss. small N bs" and "a = (f + t) mod N" and "t < N"
    and "sum_list (map need bss) \<le> region N f a"
  shows "room_for N t a bss"
  using assms
proof (induction bss arbitrary: a t)
  case (Cons bs bss)
  let ?S = "sum_list (map need bss)"
  have sm: "small N bs" and S: "need bs + ?S \<le> region N f a" using Cons.prems(4,7) by simp_all
  have b: "a + 8 \<le> N" "f + 8 \<le> N" "f < N" "need bs + 8 \<le> N" "8 \<le> need bs"
    using Cons.prems(2,3) need_small(1) [OF Cons.prems(1) sm] need_bounds(2) by (simp_all add: place_def)
  have t': "t + used N a bs \<le> N"
    using used_room [OF Cons.prems(1-3) sm Cons.prems(5,6)] S by (simp add: region_def)
  have pa: "pos_after N a bs = (f + (t + used N a bs)) mod N" 
    using pos_after_mod [OF Cons.prems(1,2) sm] Cons.prems(5) by (simp add: mod_add_left_eq add.assoc)
  show ?case
  proof (cases "bss = []")
    case True
    then show ?thesis using sm t' by simp
  next
    case False
    then have S8: "8 \<le> ?S" by (rule sum_need)
    have reg: "?S \<le> region N f (pos_after N a bs) \<and> t + used N a bs < N"
    proof -
      from Cons.prems(5) b(3) less_imp_le [OF Cons.prems(6)] show ?thesis
      proof (cases rule: ring_cases)
        case 1
        then show ?thesis using S S8 b by (auto simp: region_def used_def pos_after_def item_pos_def max_def Let_def split: if_splits)
      next
        case 3
        then show ?thesis using S S8 b by (auto simp: region_def used_def pos_after_def item_pos_def max_def Let_def split: if_splits)
      next
        case 4
        then show ?thesis using S S8 b by (auto simp: region_def used_def pos_after_def item_pos_def max_def Let_def split: if_splits)
      qed (use Cons.prems(6) in simp)
    qed
    then have "room_for N (t + used N a bs) (pos_after N a bs) bss"
      using Cons.IH [OF Cons.prems(1) place_after [OF Cons.prems(1,2) sm] Cons.prems(3) _ pa] Cons.prems(4) by simp
    then show ?thesis using sm t' by simp
  qed
qed simp

section \<open>Writing\<close>

definition tx_room :: "uart_obj_t \<Rightarrow> u8 list list \<Rightarrow> bool" where
  "tx_room ob bss \<longleftrightarrow>
     (let rb = the (tx_ring_buf ob); N = length (rb_storage rb)
      in room_for N (occupied N (nat (pucFree rb)) (lent_items rb @ queued_items rb)) (nat (pucAcquire rb)) bss)"

lemma tx_room_at:
  assumes "tx_ring_buf ob = Some rb" and "items_at f r a ls ws rb"
  shows "tx_room ob bss \<longleftrightarrow> room_for (length (rb_storage rb)) (occupied (length (rb_storage rb)) f (ls @ ws)) a bss"
proof -
  have "pucFree rb = int f" "pucAcquire rb = int a" using assms(2) by (simp_all add: items_at_def Let_def)
  then show ?thesis using assms(1) items_atI_lists [OF assms(2)] by (simp add: tx_room_def Let_def)
qed

text \<open>An item more in the ring buffer, at the end of the stream.\<close>

lemma tx_ok_append:
  assumes "tx_ok ob" and "tx_ring_buf ob = Some rb" and "items_at f r a ls ws rb" and "items_at f r a' ls (ws @ [bs]) rb'"
    and "length (rb_storage rb') = length (rb_storage rb)" and "announced (tx_owed ob) [bs]"
  defines "ob' \<equiv> ob\<lparr>tx_ring_buf := Some rb'\<rparr>"
  shows "tx_ok ob'" "to_send ob' = to_send ob @ payload (tx_owed ob) [bs]" "tx_owed ob' = owed (tx_owed ob) [bs]"
proof -
  note ok = tx_okD [OF assms(1)]
  have ob': "tx_ring_buf ob' = Some rb'" "tx_ptr ob' = tx_ptr ob" "0 < tx_buf_size ob'" "\<not> tx_brk_flg ob'" "\<not> tx_waiting_brk ob'"
    "tx_len_cur ob' = tx_len_cur ob" "tx_len_tot ob' = tx_len_tot ob" "tx_head ob' = tx_head ob" using ok by (simp_all add: ob'_def)
  have "tx_ok ob' \<and> to_send ob' = to_send ob @ payload (tx_owed ob) [bs] \<and> tx_owed ob' = owed (tx_owed ob) [bs]"
    using assms(1)
  proof (cases rule: tx_okE)
    case (idle rb0 f0 r0 a0 ws0)
    then have l: "ls = []" using items_atI_lists(1) [OF assms(3)] items_atI_lists(1) assms(2) by fastforce
    note i = tx_idle [OF assms(2) assms(3) [unfolded l] idle(3)] tx_idle [OF ob'(1) assms(4) [unfolded l] _ ob'(3-5)]
    show ?thesis using i ok ob' idle(3) assms(1,6) by (simp add: payload_append owed_append announced_append)
  next
    case (busy rb0 f0 r0 a0 b0 ws0 p)
    then have l: "ls = [b0]" using items_atI_lists(1) [OF assms(3)] items_atI_lists(1) assms(2) by fastforce
    note i = tx_busy [OF assms(2) assms(3) [unfolded l] busy(3) _ _ _ busy(4)]
    have "tx_ptr ob' = Some p" "unat (tx_len_cur ob') \<le> length b0" using busy(3,4) ob' by simp_all
    note i' = tx_busy [OF ob'(1) assms(4) [unfolded l] this(1) ob'(3-5) this(2)]
    show ?thesis using i i' ok ob' assms(1,5,6) by (simp add: payload_append owed_append announced_append)
  qed
  then show "tx_ok ob'" "to_send ob' = to_send ob @ payload (tx_owed ob) [bs]" "tx_owed ob' = owed (tx_owed ob) [bs]" by simp_all
qed

lemma max_item_size:
  assumes "items_at f r a ls ws rb"
  shows "unat (xMaxItemSize rb) < length bs \<longleftrightarrow> \<not> small (length (rb_storage rb)) bs"
proof -
  note g = geometryD [OF items_atD(1) [OF assms]]
  have "8 \<le> al4 (length (rb_storage rb) div 2)" using g(8) by (simp add: storage_ok_def al4_def) presburger
  then show ?thesis using g(9) by (auto simp: small_def)
qed

lemma ring_send_ok:
  assumes "tx_port n U" and "p_uart_obj U n = Some ob" and "tx_room ob (bs # bss)" and "announced (tx_owed ob) [bs]"
  shows "\<exists>rb'. tx_ring_send e bs k n U = Inr (pdTRUE, e, put_obj n (ob\<lparr>tx_ring_buf := Some rb'\<rparr>) U, k) \<and> tx_ok (ob\<lparr>tx_ring_buf := Some rb'\<rparr>) \<and>
    to_send (ob\<lparr>tx_ring_buf := Some rb'\<rparr>) = to_send ob @ payload (tx_owed ob) [bs] \<and>
    tx_owed (ob\<lparr>tx_ring_buf := Some rb'\<rparr>) = owed (tx_owed ob) [bs] \<and> tx_room (ob\<lparr>tx_ring_buf := Some rb'\<rparr>) bss"
proof -
  have ok: "tx_ok ob" using assms(1,2) by (simp add: tx_port_def)
  then obtain rb where rb: "tx_ring_buf ob = Some rb" "item_inv rb" by (auto simp: tx_ok_def split: option.splits)
  obtain f r a where at: "items_at f r a (lent_items rb) (queued_items rb) rb" using rb(2) by (rule item_invE)
  let ?N = "length (rb_storage rb)" and ?bss = "lent_items rb @ queued_items rb"
  have room: "small ?N bs" "occupied ?N f ?bss + used ?N a bs \<le> ?N" "room_for ?N (occupied ?N f ?bss + used ?N a bs) (pos_after ?N a bs) bss"
    using assms(3) tx_room_at [OF rb(1) at] by simp_all
  then have acc: "accepts ?N f ?bss a bs" by (simp add: accepts_def)
  with pass_items [OF at room(1), of portMAX_DELAY None k] obtain rb' where
    p: "prvSendAcquireGeneric_pass (Send_Item bs) portMAX_DELAY None k rb = Inr (Done (pdTRUE, None), rb', k)"
      "items_at f r (pos_after ?N a bs) (lent_items rb) (queued_items rb @ [bs]) rb'" "length (rb_storage rb') = ?N" by auto
  have "tx_ring_send e bs k n U = Inr (pdTRUE, e, put_obj n (ob\<lparr>tx_ring_buf := Some rb'\<rparr>) U, k)"
    using assms(2) rb(1) p(1) max_item_size [OF at, of bs] room(1) by (simp add: tx_ring_send_def tx_send_passes.simps)
  moreover have "tx_room (ob\<lparr>tx_ring_buf := Some rb'\<rparr>) bss"
    using tx_room_at [OF _ p(2), of "ob\<lparr>tx_ring_buf := Some rb'\<rparr>"] room(3) p(3) occupied_snoc [OF items_atD(6) [OF at], of bs] by simp
  ultimately show ?thesis using tx_ok_append [OF ok rb(1) at p(2,3) assms(4)] by blast
qed

text \<open>The pieces in which the data is sent.\<close>

function pieces :: "nat \<Rightarrow> u8 list \<Rightarrow> u8 list list" where
  "pieces half src = (if src = [] \<or> half = 0 then [] else take half src # pieces half (drop half src))"
  by auto
termination by (relation "measure (length \<circ> snd)") auto

declare pieces.simps [simp del]

lemma put_obj_only: "p_uart_obj U n = Some ob \<Longrightarrow> tx_only n U (put_obj n (ob\<lparr>tx_ring_buf := x\<rparr>) U)"
  by (rule tx_only_put, assumption) (cases ob, simp add: tx_frame_def)

lemma enable_tx_intr_ok:
  fixes U :: uart
  assumes "n < UART_NUM_MAX"
  defines "U' \<equiv> snd (uart_enable_tx_intr n 10 U)"
  shows "tx_intr_on n U'" "p_uart_obj U' = p_uart_obj U" "tx_fifo (uart_hw U' n) = tx_fifo (uart_hw U n)" "tx_only n U U'"
proof -
  let ?f = "\<lambda>hw. uart_hal_ena_intr_mask UART_INTR_TXFIFO_EMPTY (hw\<lparr>txfifo_empty_thrhd := word_of_int 10\<rparr>)"
  have U': "U' = on_hw n ?f U" using assms by (simp add: uart_enable_tx_intr_def SOC_UART_FIFO_LEN_def)
  have "tx_hw_frame hw (?f hw)" for hw by (cases hw) (simp add: tx_hw_frame_def uart_hal_ena_intr_mask_def)
  then show "tx_only n U U'" unfolding U' by (rule tx_only_hw)
  show "tx_intr_on n U'" "p_uart_obj U' = p_uart_obj U" "tx_fifo (uart_hw U' n) = tx_fifo (uart_hw U n)" by (simp_all add: U')
qed

lemma pieces_ok:
  assumes "tx_port n U" and "p_uart_obj U n = Some ob" and "0 < half" and "length src \<le> f" and "tx_owed ob = length src"
    and "tx_room ob (pieces half src)"
  shows "\<exists>U'. tx_pieces f e half src k n U = Inr (e, U', k) \<and> tx_port n U' \<and> tx_stream n U' = tx_stream n U @ src \<and>
    tx_owed (port_obj n U') = 0 \<and> tx_only n U U' \<and> (src \<noteq> [] \<longrightarrow> tx_intr_on n U')"
  using assms
proof (induction f arbitrary: src U ob)
  case 0
  then show ?case by (simp add: tx_pieces.simps port_obj_def)
next
  case (Suc f)
  show ?case
  proof (cases "src = []")
    case True
    then show ?thesis using Suc.prems by (simp add: tx_pieces.simps port_obj_def)
  next
    case False
    let ?b = "take half src" and ?rest = "drop half src"
    have p: "pieces half src = ?b # pieces half ?rest" using False Suc.prems(3) by (subst pieces.simps) simp
    have b: "?b \<noteq> []" "length ?b \<le> length src" "length src \<noteq> 0" using False Suc.prems(3) by simp_all
    have "announced (tx_owed ob) [?b]" using b Suc.prems(5) by simp
    from ring_send_ok [OF Suc.prems(1,2,6) [unfolded p] this, of e k] obtain rb' where
      s: "tx_ring_send e ?b k n U = Inr (pdTRUE, e, put_obj n (ob\<lparr>tx_ring_buf := Some rb'\<rparr>) U, k)" "tx_ok (ob\<lparr>tx_ring_buf := Some rb'\<rparr>)"
        "to_send (ob\<lparr>tx_ring_buf := Some rb'\<rparr>) = to_send ob @ ?b" "tx_owed (ob\<lparr>tx_ring_buf := Some rb'\<rparr>) = length ?rest"
        "tx_room (ob\<lparr>tx_ring_buf := Some rb'\<rparr>) (pieces half ?rest)"
      using b Suc.prems(5) by auto
    let ?ob = "ob\<lparr>tx_ring_buf := Some rb'\<rparr>"
    let ?U1 = "put_obj n ?ob U"
    let ?U2 = "snd (uart_enable_tx_intr n 10 ?U1)"
    have n: "n < UART_NUM_MAX" "length (tx_fifo (uart_hw U n)) \<le> SOC_UART_FIFO_LEN" using Suc.prems(1) by (simp_all add: tx_port_def)
    note en = enable_tx_intr_ok [OF n(1), of ?U1]
    have u2: "tx_port n ?U2" "p_uart_obj ?U2 n = Some ?ob" "tx_stream n ?U2 = tx_stream n U @ ?b" "tx_only n U ?U2"
      using en s(2,3) n Suc.prems(2) tx_only_trans [OF put_obj_only [OF Suc.prems(2)] en(4)] by (simp_all add: tx_port_def tx_stream_def port_obj_def)
    have step: "tx_pieces (Suc f) e half src k n U = tx_pieces f e half ?rest k n ?U2"
      using False s(1) by (subst tx_pieces.simps) (cases "half < length src", simp_all add: Let_def)
    have "length ?rest \<le> f" using Suc.prems(3,4) False by (cases src) auto
    from Suc.IH [OF u2(1,2) Suc.prems(3) this s(4,5)] obtain U' where
      r: "tx_pieces f e half ?rest k n ?U2 = Inr (e, U', k)" "tx_port n U'" "tx_stream n U' = tx_stream n ?U2 @ ?rest"
        "tx_owed (port_obj n U') = 0" "tx_only n ?U2 U'" "?rest \<noteq> [] \<longrightarrow> tx_intr_on n U'" by blast
    have "tx_intr_on n U'"
    proof (cases "?rest = []")
      case True
      then have "U' = ?U2" using r(1) by (simp add: tx_pieces.simps)
      then show ?thesis using en(1) by simp
    qed (use r(6) in simp)
    then show ?thesis using step r u2 tx_only_trans [OF u2(4) r(5)] by simp
  qed
qed

definition tx_items :: "uart_obj_t \<Rightarrow> u8 list \<Rightarrow> u8 list list" where
  "tx_items ob src =
     tx_data_bytes UART_DATA 0 (of_nat (length src)) # pieces (unat (xMaxItemSize (the (tx_ring_buf ob))) div 2) src"

lemma tx_other_fields [simp]:
  "tx_ok (ob\<lparr>tx_mux := h, coll_det_flg := c\<rparr>) = tx_ok ob" "to_send (ob\<lparr>tx_mux := h, coll_det_flg := c\<rparr>) = to_send ob"
  "tx_owed (ob\<lparr>tx_mux := h, coll_det_flg := c\<rparr>) = tx_owed ob" "tx_room (ob\<lparr>tx_mux := h, coll_det_flg := c\<rparr>) = tx_room ob"
  "tx_ok (ob\<lparr>tx_mux := h\<rparr>) = tx_ok ob" "to_send (ob\<lparr>tx_mux := h\<rparr>) = to_send ob" "tx_owed (ob\<lparr>tx_mux := h\<rparr>) = tx_owed ob"
  by (simp_all add: tx_ok_def to_send_def tx_owed_def tx_rest_def tx_room_def fun_eq_iff cong: option.case_cong list.case_cong)

lemma tx_frame_mux: "tx_frame (ob\<lparr>tx_mux := h, coll_det_flg := c\<rparr>) ob' \<Longrightarrow> tx_frame (ob\<lparr>coll_det_flg := c\<rparr>) (ob'\<lparr>tx_mux := tx_mux ob\<rparr>)"
  by (cases ob; cases ob') (simp add: tx_frame_def)

lemma tx_frame_fields:
  assumes "tx_frame ob ob'"
  shows "tx_mux ob' = tx_mux ob" "rx_mux ob' = rx_mux ob" "rx_ok ob' = rx_ok ob" "rx_stream ob' = rx_stream ob"
    "event_queue_ok ob' = event_queue_ok ob" "events ob' = events ob"
proof -
  have "ob' = ob\<lparr>tx_ring_buf := tx_ring_buf ob', tx_ptr := tx_ptr ob', tx_head := tx_head ob', tx_len_tot := tx_len_tot ob',
      tx_len_cur := tx_len_cur ob'\<rparr>" using assms by (simp add: tx_frame_def)
  then obtain a b c d e where "ob' = ob\<lparr>tx_ring_buf := a, tx_ptr := b, tx_head := c, tx_len_tot := d, tx_len_cur := e\<rparr>" by blast
  then show "tx_mux ob' = tx_mux ob" "rx_mux ob' = rx_mux ob" "rx_ok ob' = rx_ok ob" "rx_stream ob' = rx_stream ob"
    "event_queue_ok ob' = event_queue_ok ob" "events ob' = events ob"
    by (simp_all add: rx_ok_def rx_base_def rx_ring_def rx_stream_def rx_stash_def event_queue_ok_def events_def)
qed

lemma write_ok:
  assumes "tx_port n U" and "p_uart_obj U n = Some ob" and "mutex_ready k (tx_mux ob)" and "src \<noteq> []" and "length src < 2 ^ 31"
    and "tx_owed ob = 0" and "tx_room ob (tx_items ob src)"
  shows "\<exists>U'. uart_write_bytes em e n (Some src) k U = Inr (int (length src), U', k) \<and> tx_port n U' \<and> tx_stream n U' = tx_stream n U @ src \<and>
    tx_owed (port_obj n U') = 0 \<and> tx_intr_on n U' \<and> tx_only n (put_obj n (ob\<lparr>coll_det_flg := False\<rparr>) U) U'"
proof -
  obtain h' k' where m: "xSemaphoreTake em k (tx_mux ob) portMAX_DELAY = Inr (pdTRUE, h', k')" "xSemaphoreGive k' h' = Inr (pdPASS, tx_mux ob, k)"
    using mutex_section [OF assms(3), of em portMAX_DELAY] by auto
  have n: "n < UART_NUM_MAX" "tx_ok ob" "length (tx_fifo (uart_hw U n)) \<le> SOC_UART_FIFO_LEN" using assms(1,2) by (simp_all add: tx_port_def)
  then obtain rb where rb: "tx_ring_buf ob = Some rb" "item_inv rb" by (auto simp: tx_ok_def split: option.splits)
  obtain f r a where at: "items_at f r a (lent_items rb) (queued_items rb) rb" using rb(2) by (rule item_invE)
  let ?ob1 = "ob\<lparr>tx_mux := h', coll_det_flg := False\<rparr>"
  let ?U1 = "put_obj n ?ob1 U" and ?hd = "tx_data_bytes UART_DATA 0 (of_nat (length src)) :: u8 list" and ?half = "unat (xMaxItemSize rb) div 2"
  have u: "unat (of_nat (length src) :: u32) = length src" using assms(5) by (simp add: unat_of_nat)
  have ds: "describes ?hd" "described ?hd = length src"
    using u assms(4) tx_data_described by (simp_all add: describes_def sizeof_tx_data_def)
  have u1: "tx_port n ?U1" "p_uart_obj ?U1 n = Some ?ob1" using n by (simp_all add: tx_port_def)
  have room: "tx_room ?ob1 (?hd # pieces ?half src)" using assms(7) rb(1) by (simp add: tx_items_def)
  have an: "announced (tx_owed ?ob1) [?hd]" using assms(6) ds(1) by simp
  from ring_send_ok [OF u1 room an, of e k'] obtain rb1 where
    s: "tx_ring_send e ?hd k' n ?U1 = Inr (pdTRUE, e, put_obj n (?ob1\<lparr>tx_ring_buf := Some rb1\<rparr>) U, k')"
      "tx_ok (?ob1\<lparr>tx_ring_buf := Some rb1\<rparr>)" "to_send (?ob1\<lparr>tx_ring_buf := Some rb1\<rparr>) = to_send ob"
      "tx_owed (?ob1\<lparr>tx_ring_buf := Some rb1\<rparr>) = length src" "tx_room (?ob1\<lparr>tx_ring_buf := Some rb1\<rparr>) (pieces ?half src)"
    using assms(6) ds(2) by auto
  let ?ob2 = "?ob1\<lparr>tx_ring_buf := Some rb1\<rparr>" and ?U2 = "put_obj n (?ob1\<lparr>tx_ring_buf := Some rb1\<rparr>) U"
  have u2: "tx_port n ?U2" "p_uart_obj ?U2 n = Some ?ob2" using n s(2) by (simp_all add: tx_port_def)
  have "small (length (rb_storage rb)) ?hd" using room tx_room_at [OF _ at, of ?ob1] rb(1) by simp
  then have "\<not> unat (xMaxItemSize rb) < 12" using max_item_size [OF at, of ?hd] tx_data_described(1) by simp
  then have half: "0 < ?half" by simp
  from pieces_ok [OF u2 half order.refl s(4,5), of e k'] obtain U3 where
    p: "tx_pieces (length src) e ?half src k' n ?U2 = Inr (e, U3, k')" "tx_port n U3" "tx_stream n U3 = tx_stream n ?U2 @ src"
      "tx_owed (port_obj n U3) = 0" "tx_only n ?U2 U3" "tx_intr_on n U3" using assms(4) by auto
  obtain ob3 where ob3: "p_uart_obj U3 n = Some ob3" "port_obj n U3 = ob3" "tx_ok ob3" using p(2) by (rule tx_portE)
  have fr: "tx_frame ?ob1 ob3"
    using p(5) ob3(2) tx_frame_trans [of ?ob1 ?ob2 ob3] by (simp add: tx_only_def port_obj_def) (cases ob, simp add: tx_frame_def)
  note mux = tx_frame_fields(1) [OF fr]
  let ?ob4 = "ob3\<lparr>tx_mux := tx_mux ob\<rparr>" and ?U' = "put_obj n (ob3\<lparr>tx_mux := tx_mux ob\<rparr>) U3"
  have "uart_tx_all em e n src False 0 k U = Inr (int (length src), ?U', k)"
    using assms(2,4) m tx_okD [OF n(2)] rb(1) s(1) p(1) ob3(1) mux by (simp add: uart_tx_all_def Let_def)
  then have "uart_write_bytes em e n (Some src) k U = Inr (int (length src), ?U', k)" using n(1) assms(2) by (simp add: uart_write_bytes_def)
  moreover have "tx_port n ?U'" "tx_stream n ?U' = tx_stream n U3" "port_obj n ?U' = ?ob4" "tx_intr_on n ?U'"
    using p(2,6) ob3 by (simp_all add: tx_port_def tx_stream_def port_obj_def)
  moreover have "tx_stream n ?U2 = tx_stream n U" using s(3) assms(2) by (simp add: tx_stream_def port_obj_def)
  moreover have "tx_only n (put_obj n (ob\<lparr>coll_det_flg := False\<rparr>) U) ?U'"
    using p(5) tx_frame_mux [OF fr] by (cases U; cases U3) (simp add: tx_only_def port_obj_def put_obj_def)
  ultimately show ?thesis using p(3,4) ob3(2) by simp
qed

section \<open>Printing a character\<close>

lemma accepted_region:
  assumes "items_at f r a ls ws rb" and "bs \<noteq> []"
  defines "N \<equiv> length (rb_storage rb)"
  assumes "length bs \<le> unat (prvGetCurMaxSizeNoSplit rb)"
  shows "small N bs" "need bs \<le> region N f a" "occupied N f (ls @ ws) < N"
proof -
  note d = items_atD [OF assms(1), folded N_def]
  have "accepts N f (ls @ ws) a bs" using free_size_exact [OF assms(1,2)] assms(4) by (simp add: N_def)
  then have ac: "small N bs" "occupied N f (ls @ ws) + used N a bs \<le> N" by (simp_all add: accepts_def)
  then show "small N bs" "occupied N f (ls @ ws) < N" using used_bounds(1) [OF d(5), of bs] by simp_all
  have m4: "region N f a mod 4 = 0" using d(2,3,5) by (auto simp: region_def place_def storage_ok_def max_def)
  consider "occupied N f (ls @ ws) = 0" | "need bs \<le> region N f a"
    using used_room [OF d(2,5,3) ac(1) d(7)] ac(2) \<open>occupied N f (ls @ ws) < N\<close> by (auto simp: region_def)
  then show "need bs \<le> region N f a"
  proof cases
    case 1
    then have "a = f" using d(7,3) by (simp add: place_def)
    then have "N div 2 \<le> region N f a" by (auto simp: region_def)
    then have "al4 (N div 2) \<le> region N f a" using m4 by (rule al4_least)
    moreover have "need bs \<le> al4 (N div 2)"
      using ac(1) need_le_iff [of "al4 (N div 2)" bs] by (simp add: small_def)
    ultimately show ?thesis by simp
  qed
qed

lemma print_room:
  assumes "tx_port n U" and "p_uart_obj U n = Some ob" and "xRingbufferGetCurFreeSize (tx_ring_buf ob) = Inr free" and "24 \<le> free"
  shows "tx_room ob (tx_items ob [c])"
proof -
  have ok: "tx_ok ob" using assms(1,2) by (simp add: tx_port_def)
  then obtain rb where rb: "tx_ring_buf ob = Some rb" "item_inv rb" by (auto simp: tx_ok_def split: option.splits)
  obtain f r a where at: "items_at f r a (lent_items rb) (queued_items rb) rb" using rb(2) by (rule item_invE)
  let ?N = "length (rb_storage rb)" and ?hd = "tx_data_bytes UART_DATA 0 1 :: u8 list"
  note d = items_atD [OF at]
  have "free = prvGetCurMaxSizeNoSplit rb"
    using assms(3) rb(1) geometryD(1) [OF d(1)] by (simp add: xRingbufferGetCurFreeSize_def xGetCurMaxSize_def)
  then have "length (replicate 24 (0 :: u8)) \<le> unat (prvGetCurMaxSizeNoSplit rb)" using assms(4) by (simp add: word_le_nat_alt)
  note ar = accepted_region [OF at _ this, simplified]
  have "need (replicate 24 0) = 32" "need ?hd = 20" "need [c] = 12" using tx_data_described(1) by (simp_all add: need_def al4_def)
  then have sum: "sum_list (map need [?hd, [c]]) \<le> region ?N f a" using ar(2) by simp
  have sm: "small ?N ?hd" "small ?N [c]" using ar(1) tx_data_described(1) [of UART_DATA 0 1] by (simp_all add: small_def)
  have "\<not> unat (xMaxItemSize rb) < 12" using max_item_size [OF at, of ?hd] sm(1) tx_data_described(1) by simp
  then have "0 < unat (xMaxItemSize rb) div 2" by simp
  then have p: "pieces (unat (xMaxItemSize rb) div 2) [c] = [[c]]" by (simp add: pieces.simps)
  have "room_for ?N (occupied ?N f (lent_items rb @ queued_items rb)) a [?hd, [c]]"
    using room_for_region [OF d(2,5,3) _ d(7) ar(3) sum] sm by simp
  then show ?thesis using tx_room_at [OF rb(1) at] p rb(1) by (simp add: tx_items_def)
qed

lemma print_ok:
  assumes "tx_port (uart_port S) U" and "p_uart_obj U (uart_port S) = Some ob" and "mutex_ready k (tx_mux ob)" and "tx_owed ob = 0"
    and "xRingbufferGetCurFreeSize (tx_ring_buf ob) = Inr free" and "24 \<le> free"
  defines "n \<equiv> uart_port S"
  shows "\<exists>U'. SHCOM_PrintCharacter em e c k S U = Inr (SHCOM_STATUS_OK, U', k) \<and> tx_port n U' \<and> tx_stream n U' = tx_stream n U @ [c] \<and>
    tx_owed (port_obj n U') = 0 \<and> tx_intr_on n U' \<and> tx_only n (put_obj n (ob\<lparr>coll_det_flg := False\<rparr>) U) U'"
proof -
  have "tx_room ob (tx_items ob [c])" using print_room [OF assms(1,2,5,6)] .
  from write_ok [OF assms(1-3) _ _ assms(4) this, of em e] show ?thesis by (auto simp: SHCOM_PrintCharacter_def n_def)
qed

section \<open>The handler as a whole\<close>

lemma tx_handler:
  assumes "tx_port n U" and "length (tx_fifo (uart_hw U n)) < SOC_UART_FIFO_LEN" and "has_flag status UART_INTR_TXFIFO_EMPTY"
  shows "\<exists>U'. uart_rx_intr_handler_default k [status] n U = Inr (U', k) \<and> tx_port n U' \<and> tx_stream n U' = tx_stream n U \<and> tx_only n U U' \<and>
    tx_owed (port_obj n U') = tx_owed (port_obj n U) \<and>
    (length (tx_fifo (uart_hw U' n)) = SOC_UART_FIFO_LEN \<and> tx_intr_on n U' \<or> to_send (port_obj n U') = [])"
proof -
  obtain U' where i: "isr_tx_empty n U = Inr U'" "tx_port n U'" "tx_stream n U' = tx_stream n U" "tx_only n U U'"
    "tx_owed (port_obj n U') = tx_owed (port_obj n U)"
    "length (tx_fifo (uart_hw U' n)) = SOC_UART_FIFO_LEN \<and> tx_intr_on n U' \<or> to_send (port_obj n U') = []"
    using isr_tx_ok [OF assms(1,2)] by blast
  obtain ob where ob: "p_uart_obj U' n = Some ob" using i(2) by (rule tx_portE)
  have "status \<noteq> 0" using assms(3) by auto
  then have "uart_rx_intr_handler_default k [status] n U = Inr (U', k)"
    using assms(3) i(1) ob by (simp add: uart_rx_intr_handler_default_def isr_turn_def event_of_def)
  then show ?thesis using i by blast
qed

text \<open>Interrupts, each when everything in the FIFO has left. The bytes that left are collected.\<close>

fun transmit_rounds :: "nat \<Rightarrow> kernel \<Rightarrow> nat \<Rightarrow> uart \<Rightarrow> (u8 list \<times> uart) res" where
  "transmit_rounds 0 k n U = Inr ([], U)"
| "transmit_rounds (Suc m) k n U =
     bind_res (uart_rx_intr_handler_default k [UART_INTR_TXFIFO_EMPTY] n U) (\<lambda>(U1, k1).
     bind_res (transmit_rounds m k1 n (on_hw n (\<lambda>hw. hw\<lparr>tx_fifo := []\<rparr>) U1)) (\<lambda>(out, U2).
       Inr (tx_fifo (uart_hw U1 n) @ out, U2)))"

lemma rounds_send:
  assumes "tx_port n U" and "length (tx_fifo (uart_hw U n)) < SOC_UART_FIFO_LEN" and "length (tx_stream n U) \<le> SOC_UART_FIFO_LEN * m"
  shows "\<exists>U'. transmit_rounds m k n U = Inr (tx_stream n U, U') \<and> tx_port n U' \<and> tx_stream n U' = []"
  using assms
proof (induction m arbitrary: U)
  case (Suc m)
  have fl: "has_flag UART_INTR_TXFIFO_EMPTY UART_INTR_TXFIFO_EMPTY" by (simp add: has_flag_def UART_INTR_TXFIFO_EMPTY_def)
  obtain U1 where h: "uart_rx_intr_handler_default k [UART_INTR_TXFIFO_EMPTY] n U = Inr (U1, k)" "tx_port n U1" "tx_stream n U1 = tx_stream n U"
    "length (tx_fifo (uart_hw U1 n)) = SOC_UART_FIFO_LEN \<or> to_send (port_obj n U1) = []"
    using tx_handler [OF Suc.prems(1,2) fl] by blast
  let ?U2 = "on_hw n (\<lambda>hw. hw\<lparr>tx_fifo := []\<rparr>) U1"
  have u2: "tx_port n ?U2" "tx_stream n U = tx_fifo (uart_hw U1 n) @ tx_stream n ?U2" "tx_stream n ?U2 = to_send (port_obj n U1)"
    using h(2) h(3) [symmetric] by (simp_all add: tx_port_def tx_stream_def port_obj_def)
  have "length (tx_stream n ?U2) \<le> SOC_UART_FIFO_LEN * m" using h(4) u2(2,3) Suc.prems(3) by auto
  with Suc.IH [OF u2(1)] obtain U' where "transmit_rounds m k n ?U2 = Inr (tx_stream n ?U2, U')" "tx_port n U'" "tx_stream n U' = []"
    by (auto simp: SOC_UART_FIFO_LEN_def)
  then show ?case using h(1) u2(2) by simp
qed simp

section \<open>Both directions of the line\<close>

lemma tx_view_same:
  assumes "tx_view ob' = tx_view ob"
  shows "tx_ok ob' = tx_ok ob" "to_send ob' = to_send ob" "tx_owed ob' = tx_owed ob" "tx_mux ob' = tx_mux ob"
  using assms by (simp_all add: tx_view_def tx_ok_def to_send_def tx_owed_def tx_rest_def cong: option.case_cong list.case_cong)

lemma tx_quiet_port:
  assumes "tx_quiet n U U'" and "tx_port n U" and "p_uart_obj U' n \<noteq> None"
  shows "tx_port n U'" "tx_stream n U' = tx_stream n U" "tx_owed (port_obj n U') = tx_owed (port_obj n U)"
    "tx_mux (port_obj n U') = tx_mux (port_obj n U)" "to_send (port_obj n U') = to_send (port_obj n U)" "tx_intr_on n U' = tx_intr_on n U"
proof -
  have v: "tx_view (port_obj n U') = tx_view (port_obj n U)" "tx_fifo (uart_hw U' n) = tx_fifo (uart_hw U n)" "tx_intr_on n U' = tx_intr_on n U"
    using assms(1) by (simp_all add: tx_quiet_def tx_hw_view_def)
  note s = tx_view_same [OF v(1)]
  show "tx_stream n U' = tx_stream n U" "tx_owed (port_obj n U') = tx_owed (port_obj n U)"
    "tx_mux (port_obj n U') = tx_mux (port_obj n U)" "to_send (port_obj n U') = to_send (port_obj n U)" "tx_intr_on n U' = tx_intr_on n U"
    using s v by (simp_all add: tx_stream_def)
  show "tx_port n U'" using assms(2,3) s(1) v(2) by (auto simp: tx_port_def port_obj_def split: option.splits)
qed

lemma tx_only_rx:
  assumes "tx_only n U U'" and "port_ok n U" and "p_uart_obj U' n \<noteq> None"
  shows "port_ok n U'" "rx_stream (port_obj n U') = rx_stream (port_obj n U)" "events (port_obj n U') = events (port_obj n U)"
    "rx_mux (port_obj n U') = rx_mux (port_obj n U)" "rx_fifo (uart_hw U' n) = rx_fifo (uart_hw U n)" "tx_mux (port_obj n U') = tx_mux (port_obj n U)"
proof -
  have f: "tx_frame (port_obj n U) (port_obj n U')" "tx_hw_frame (uart_hw U n) (uart_hw U' n)" "pat_flg U' = pat_flg U"
    using assms(1) by (cases U; cases U'; simp add: tx_only_def)+
  have hw: "rx_fifo (uart_hw U' n) = rx_fifo (uart_hw U n)"
    using f(2) by (cases "uart_hw U n"; cases "uart_hw U' n") (simp add: tx_hw_frame_def)
  note ff = tx_frame_fields [OF f(1)]
  show "rx_stream (port_obj n U') = rx_stream (port_obj n U)" "events (port_obj n U') = events (port_obj n U)"
    "rx_mux (port_obj n U') = rx_mux (port_obj n U)" "rx_fifo (uart_hw U' n) = rx_fifo (uart_hw U n)" "tx_mux (port_obj n U') = tx_mux (port_obj n U)"
    using ff hw by simp_all
  show "port_ok n U'" using assms(2,3) ff(3,5) f(3) hw by (auto simp: port_ok_def port_obj_def split: option.splits)
qed

lemma coll_det_rx:
  fixes c :: bool
  assumes "port_ok n U" and "p_uart_obj U n = Some ob"
  defines "V \<equiv> put_obj n (ob\<lparr>coll_det_flg := c\<rparr>) U"
  shows "port_ok n V" "rx_stream (port_obj n V) = rx_stream (port_obj n U)" "events (port_obj n V) = events (port_obj n U)"
    "rx_mux (port_obj n V) = rx_mux (port_obj n U)" "rx_fifo (uart_hw V n) = rx_fifo (uart_hw U n)" "tx_mux (port_obj n V) = tx_mux (port_obj n U)"
  using assms(1,2)
  by (simp_all add: V_def port_ok_def port_obj_def rx_ok_def rx_base_def rx_ring_def rx_stream_def rx_stash_def event_queue_ok_def events_def)

text \<open>
  The line of the shell with both directions. A step is one of receiving (a byte arrives, an interrupt
  stores, the task drains or reads), the printing of a character that finds room in the transmit ring
  buffer, a transmit interrupt, or a byte that leaves the FIFO. The state adds what was printed and
  what has left.
\<close>

record duplex =
  d_line :: line
  d_printed :: "u8 list"
  d_sent :: "u8 list"

abbreviation d_port :: "duplex \<Rightarrow> nat" where
  "d_port s \<equiv> uart_port (l_com (d_line s))"

abbreviation d_uart :: "duplex \<Rightarrow> uart" where
  "d_uart s \<equiv> l_uart (d_line s)"

definition d_with :: "uart \<Rightarrow> duplex \<Rightarrow> duplex" where
  "d_with U s = s\<lparr>d_line := (d_line s)\<lparr>l_uart := U\<rparr>\<rparr>"

text \<open>
  The steps. A character is printed only when the transmit ring buffer reports at least 24 free
  bytes, room for its description and itself: printing then does not wait. Each step is taken as a
  whole: an interrupt comes before or after a write, not within it.
\<close>

inductive duplex_step :: "kernel \<Rightarrow> duplex \<Rightarrow> duplex \<Rightarrow> bool" for k where
  receiving: "line_step k (d_line s) l \<Longrightarrow> duplex_step k s (s\<lparr>d_line := l\<rparr>)"
| printing: "xRingbufferGetCurFreeSize (tx_ring_buf (port_obj (d_port s) (d_uart s))) = Inr free \<Longrightarrow> 24 \<le> free \<Longrightarrow>
    SHCOM_PrintCharacter em e c k (l_com (d_line s)) (d_uart s) = Inr (r, U', k') \<Longrightarrow>
    duplex_step k s ((d_with U' s)\<lparr>d_printed := d_printed s @ [c]\<rparr>)"
| interrupt: "has_flag status UART_INTR_TXFIFO_EMPTY \<Longrightarrow> length (tx_fifo (uart_hw (d_uart s) (d_port s))) < SOC_UART_FIFO_LEN \<Longrightarrow>
    uart_rx_intr_handler_default k [status] (d_port s) (d_uart s) = Inr (U', k') \<Longrightarrow> duplex_step k s (d_with U' s)"
| leaving: "tx_fifo (uart_hw (d_uart s) (d_port s)) = b # bs \<Longrightarrow>
    duplex_step k s ((d_with (on_hw (d_port s) (\<lambda>hw. hw\<lparr>tx_fifo := bs\<rparr>) (d_uart s)) s)\<lparr>d_sent := d_sent s @ [b]\<rparr>)"

definition duplex_ok :: "kernel \<Rightarrow> duplex \<Rightarrow> bool" where
  "duplex_ok k s \<longleftrightarrow> line_ok k (d_line s) \<and> tx_port (d_port s) (d_uart s) \<and> mutex_ready k (tx_mux (port_obj (d_port s) (d_uart s))) \<and>
     tx_owed (port_obj (d_port s) (d_uart s)) = 0 \<and> d_sent s @ tx_stream (d_port s) (d_uart s) = d_printed s \<and>
     (to_send (port_obj (d_port s) (d_uart s)) \<noteq> [] \<longrightarrow> tx_intr_on (d_port s) (d_uart s))"

lemma line_ok_same:
  assumes "line_ok k l" and "port_ok (uart_port (l_com l)) U'"
    and "rx_stream (port_obj (uart_port (l_com l)) U') = received (l_com l) (l_uart l)" and "events (port_obj (uart_port (l_com l)) U') = pending (l_com l) (l_uart l)"
    and "rx_mux (port_obj (uart_port (l_com l)) U') = rx_mux (port_obj (uart_port (l_com l)) (l_uart l))"
    and "rx_fifo (uart_hw U' (uart_port (l_com l))) = in_fifo (l_com l) (l_uart l)"
  shows "line_ok k (l\<lparr>l_uart := U'\<rparr>)"
  using assms by (simp add: line_ok_def shell_ready_def on_the_way_def)

lemma d_with_sel [simp]:
  "d_line (d_with U s) = (d_line s)\<lparr>l_uart := U\<rparr>" "d_printed (d_with U s) = d_printed s" "d_sent (d_with U s) = d_sent s"
  by (simp_all add: d_with_def)

lemma duplex_step_ok:
  assumes "duplex_step k s s'" and "duplex_ok k s"
  shows "duplex_ok k s'"
  using assms
proof (induction rule: duplex_step.induct)
  case (receiving s l)
  have lo: "line_ok k (d_line s)" using receiving.prems by (simp add: duplex_ok_def)
  note l = line_step_ok [OF receiving.hyps lo]
  have q: "tx_quiet (d_port s) (d_uart s) (l_uart l)" "uart_port (l_com l) = d_port s" using line_step_quiet [OF receiving.hyps lo] by simp_all
  have "port_ok (d_port s) (l_uart l)" using l q(2) by (simp add: line_ok_def shell_ready_def)
  then have "p_uart_obj (l_uart l) (d_port s) \<noteq> None" by (rule port_okE) simp
  from tx_quiet_port [OF q(1) _ this] receiving.prems l q(2) show ?case by (simp add: duplex_ok_def)
next
  case (printing s free em e c r U' k')
  let ?n = "d_port s" and ?U = "d_uart s"
  have i: "tx_port ?n ?U" "mutex_ready k (tx_mux (port_obj ?n ?U))" "tx_owed (port_obj ?n ?U) = 0" "line_ok k (d_line s)"
    using printing.prems by (simp_all add: duplex_ok_def)
  obtain ob where ob: "p_uart_obj ?U ?n = Some ob" "port_obj ?n ?U = ob" using i(1) by (rule tx_portE)
  have po: "port_ok ?n ?U" using i(4) by (simp add: line_ok_def shell_ready_def)
  note cd = coll_det_rx [OF po ob(1), of False]
  from print_ok [OF i(1) ob(1), of k free em e c] i ob(2) printing.hyps have
    p: "tx_port ?n U'" "tx_stream ?n U' = tx_stream ?n ?U @ [c]" "tx_owed (port_obj ?n U') = 0" "tx_intr_on ?n U'"
      "tx_only ?n (put_obj ?n (ob\<lparr>coll_det_flg := False\<rparr>) ?U) U'" by auto
  have "p_uart_obj U' ?n \<noteq> None" using p(1) by (rule tx_portE) simp
  note rx = tx_only_rx [OF p(5) cd(1) this]
  have "line_ok k ((d_line s)\<lparr>l_uart := U'\<rparr>)" by (rule line_ok_same [OF i(4)]) (simp_all add: rx cd)
  then show ?case using p printing.prems rx(6) cd(6) by (simp add: duplex_ok_def)
next
  case (interrupt status s U' k')
  let ?n = "d_port s" and ?U = "d_uart s"
  have i: "tx_port ?n ?U" "line_ok k (d_line s)" using interrupt.prems by (simp_all add: duplex_ok_def)
  have po: "port_ok ?n ?U" using i(2) by (simp add: line_ok_def shell_ready_def)
  from tx_handler [OF i(1) interrupt.hyps(2,1), of k] interrupt.hyps(3) have
    p: "tx_port ?n U'" "tx_stream ?n U' = tx_stream ?n ?U" "tx_only ?n ?U U'" "tx_owed (port_obj ?n U') = tx_owed (port_obj ?n ?U)"
      "tx_intr_on ?n U' \<or> to_send (port_obj ?n U') = []" by auto
  have "p_uart_obj U' ?n \<noteq> None" using p(1) by (rule tx_portE) simp
  note rx = tx_only_rx [OF p(3) po this]
  have "line_ok k ((d_line s)\<lparr>l_uart := U'\<rparr>)" by (rule line_ok_same [OF i(2)]) (simp_all add: rx)
  then show ?case using p interrupt.prems rx(6) by (auto simp: duplex_ok_def)
next
  case (leaving s b bs)
  let ?n = "d_port s" and ?U = "d_uart s"
  let ?U' = "on_hw ?n (\<lambda>hw. hw\<lparr>tx_fifo := bs\<rparr>) ?U"
  have i: "tx_port ?n ?U" "line_ok k (d_line s)" using leaving.prems by (simp_all add: duplex_ok_def)
  have po: "port_ok ?n ?U" using i(2) by (simp add: line_ok_def shell_ready_def)
  have "line_ok k ((d_line s)\<lparr>l_uart := ?U'\<rparr>)"
    by (rule line_ok_same [OF i(2)]) (use po in \<open>simp_all add: port_ok_def port_obj_def\<close>)
  moreover have "tx_port ?n ?U'" "port_obj ?n ?U' = port_obj ?n ?U" "tx_stream ?n ?U = b # tx_stream ?n ?U'" "tx_intr_on ?n ?U' = tx_intr_on ?n ?U"
    using i(1) leaving.hyps by (simp_all add: tx_port_def port_obj_def tx_stream_def)
  ultimately show ?case using leaving.prems by (simp add: duplex_ok_def)
qed

section \<open>After installation\<close>

lemma installed_tx:
  assumes "13 \<le> tx" and "tx < 2 ^ 30"
  shows "tx_ok (installed_obj al rx tx ev)" "to_send (installed_obj al rx tx ev) = []" "tx_owed (installed_obj al rx tx ev) = 0"
    "tx_mux (installed_obj al rx tx ev) = Some new_mutex" "lent_items (the (tx_ring_buf (installed_obj al rx tx ev))) = []"
    "queued_items (the (tx_ring_buf (installed_obj al rx tx ev))) = []"
    "xSize (the (tx_ring_buf (installed_obj al rx tx ev))) = rbALIGN_SIZE (word_of_int tx)"
proof -
  let ?ob = "installed_obj al rx tx ev" and ?junk = "the (a_tx_storage al)"
  have w: "unat (word_of_int tx :: u32) = nat tx" using assms by (intro unat_word_of_int_small) auto
  have "13 \<le> (word_of_int tx :: u32)" "(word_of_int tx :: u32) < 2 ^ 30"
    using w assms by (simp_all add: word_le_nat_alt word_less_nat_alt nat_less_iff nat_le_eq_zle [of 13 tx, symmetric])
  then have "storage_ok (unat (rbALIGN_SIZE (word_of_int tx :: u32)))" by (rule create_nosplit(2))
  note at = fresh_nosplit_at(2) [OF this, of ?junk]
  have ob: "tx_ring_buf ?ob = Some (rb_set rbBUFFER_STATIC_FLAG (fresh_nosplit ?junk (rbALIGN_SIZE (word_of_int tx))))"
    "tx_ptr ?ob = None" "0 < tx_buf_size ?ob" "\<not> tx_brk_flg ?ob" "\<not> tx_waiting_brk ?ob" "tx_len_tot ?ob = 0"
    using assms(1) by (simp_all add: installed_obj_def new_obj_def zero_obj_def fresh_nosplit_def)
  have "items_at 0 0 0 [] [] (the (tx_ring_buf ?ob))" using at ob(1) by simp
  from items_atI_lists [OF this] show "lent_items (the (tx_ring_buf ?ob)) = []" "queued_items (the (tx_ring_buf ?ob)) = []" by simp_all
  show "xSize (the (tx_ring_buf ?ob)) = rbALIGN_SIZE (word_of_int tx)" using ob(1)
    by (simp add: fresh_nosplit_def prvInitializeNewRingbuffer_def rb_set_def)
  note i = tx_idle [OF ob(1) at ob(2-5)]
  show "tx_ok ?ob" "to_send ?ob = []" "tx_owed ?ob = 0" using i ob(6) by simp_all
  show "tx_mux ?ob = Some new_mutex" by (simp add: installed_obj_def new_obj_def)
qed

definition duplex_start :: "shcom \<Rightarrow> uart \<Rightarrow> duplex" where
  "duplex_start S U =
     \<lparr>d_line = \<lparr>l_com = S, l_uart = U, l_given = [], l_arrived = [], l_lost = False\<rparr>, d_printed = [], d_sent = []\<rparr>"

lemma init_duplex_ok:
  assumes "init_inputs_ok i c U" and "kernel_ok k" and "config_ok i c" and "in_task i"
    and "SHCOM_InitCom i c k S U P = Inr (r, S', U', P', k')"
  shows "duplex_ok k (duplex_start S' U')" "uart_port S' = port c"
    "tx_view (port_obj (port c) U') = tx_view (installed_obj (in_allocs i) 256 256 16)"
proof -
  have n: "port c < UART_NUM_MAX" using assms(1) by (simp add: init_inputs_ok_def)
  let ?ob = "installed_obj (in_allocs i) 256 256 16"
  from init_ready [OF assms(1-4), of S P] assms(5) have
    s: "shell_ready k S' U'" "uart_port S' = port c" "received S' U' = []" "in_fifo S' U' = []" "pending S' U' = []"
      "tx_view (port_obj (port c) U') = tx_view ?ob" "tx_fifo (uart_hw U' (port c)) = []"
    by (auto simp: SOC_UART_FIFO_LEN_def UART_EVENT_QUEUE_SIZE_def)
  note t = installed_tx [of 256 "in_allocs i" 256 16, simplified] and v = tx_view_same [OF s(6)]
  have po: "port_ok (port c) U'" using s(1,2) by (simp add: shell_ready_def)
  then obtain ob where ob: "p_uart_obj U' (port c) = Some ob" "port_obj (port c) U' = ob" by (rule port_okE)
  have "tx_port (port c) U'" using n ob v(1) t(1) s(7) by (simp add: tx_port_def)
  moreover have "mutex_ready k (tx_mux (port_obj (port c) U'))" using v(4) t(4) assms(2) new_sems(1) by (simp add: mutex_ready_def)
  moreover have "line_ok k \<lparr>l_com = S', l_uart = U', l_given = [], l_arrived = [], l_lost = False\<rparr>"
    using s(1,3-5) by (simp add: line_ok_def on_the_way_def)
  ultimately show "duplex_ok k (duplex_start S' U')"
    using v(2,3) t(2,3) s(2,7) by (simp add: duplex_ok_def duplex_start_def tx_stream_def)
  show "uart_port S' = port c" "tx_view (port_obj (port c) U') = tx_view ?ob" by fact+
qed

section \<open>Properties\<close>

text \<open>
  C30. Installation establishes what both directions rely on. For every size of the buffers and of
  the event queue that is not refused, no transmit buffer and no event queue included, with enough
  memory and an interrupt line, the driver of a port that has none is installed: the receive ring
  buffer is empty and as large as asked for; the event queue is empty, or there is none if none was
  asked for; the transmit ring buffer is empty, with the size rounded up to a multiple of four, or
  there is none, and nothing is left to be sent; both mutexes and the semaphore of the transmit FIFO
  are free; the receive interrupts are on, at 120 bytes or after a pause, the transmit interrupt is
  off, and no other port is touched. A caller that asks for the handle of the event queue has to
  ask for a queue.
\<close>

theorem uart_install_ready:
  assumes "n < UART_NUM_MAX" and "p_uart_obj U n = None" and "sizes_ok rx tx ev" and "mem_ok tx ev al" and "b \<longrightarrow> 0 < ev"
    and "\<not> pat_flg U" and "length (rx_fifo reset_hw) \<le> SOC_UART_FIFO_LEN" and "length (rx_fifo (uart_hw U n)) \<le> SOC_UART_FIFO_LEN"
    and "kernel_ok k"
  shows "\<exists>U' ob. uart_driver_install al reset_hw ESP_OK n rx tx ev b k U = Inr (ESP_OK, U', k) \<and>
    p_uart_obj U' = (p_uart_obj U)(n := Some ob) \<and>
    rx_ok ob \<and> rx_stream ob = [] \<and> rb_cap (rx_ring ob) = nat rx \<and>
    (if 0 < ev then port_ok n U' \<and> events ob = [] else event_queue ob = None) \<and>
    (if 0 < tx
     then tx_ok ob \<and> (\<exists>rb. tx_ring_buf ob = Some rb \<and> xSize rb = rbALIGN_SIZE (word_of_int tx) \<and> lent_items rb = [] \<and> queued_items rb = [])
     else tx_ring_buf ob = None) \<and>
    tx_buf_size ob = tx \<and> tx_ptr ob = None \<and> tx_head ob = None \<and> tx_len_tot ob = 0 \<and> \<not> tx_waiting_fifo ob \<and> \<not> tx_waiting_brk ob \<and>
    mutex_ready k (rx_mux ob) \<and> mutex_ready k (tx_mux ob) \<and> tx_fifo_sem ob = Some (new_binary\<lparr>uxMessagesWaiting := 1\<rparr>) \<and>
    has_flag (uart_int_ena (uart_hw U' n)) UART_INTR_RXFIFO_FULL \<and> has_flag (uart_int_ena (uart_hw U' n)) UART_INTR_RXFIFO_TOUT \<and>
    \<not> has_flag (uart_int_ena (uart_hw U' n)) UART_INTR_TXFIFO_EMPTY \<and> rxfifo_full_thrhd (uart_hw U' n) = 120"
proof -
  let ?ob = "installed_obj al rx tx ev"
  obtain U' where U': "uart_driver_install al reset_hw ESP_OK n rx tx ev b k U = Inr (ESP_OK, U', k)" "0 < ev \<longrightarrow> port_ok n U'"
    "rx_ok ?ob" "rx_stream ?ob = []" "rb_cap (rx_ring ?ob) = nat rx" "events ?ob = []" "mutex_ready k (rx_mux ?ob)" "mutex_ready k (tx_mux ?ob)"
    "has_flag (uart_int_ena (uart_hw U' n)) UART_INTR_RXFIFO_FULL" "has_flag (uart_int_ena (uart_hw U' n)) UART_INTR_RXFIFO_TOUT"
    "\<not> has_flag (uart_int_ena (uart_hw U' n)) UART_INTR_TXFIFO_EMPTY" "rxfifo_full_thrhd (uart_hw U' n) = 120"
    "p_uart_obj U' = (p_uart_obj U)(n := Some ?ob)"
    using install_ready_state [OF assms] by metis
  have f: "tx_buf_size ?ob = tx" "tx_ptr ?ob = None" "tx_head ?ob = None" "tx_len_tot ?ob = 0" "\<not> tx_waiting_fifo ?ob" "\<not> tx_waiting_brk ?ob"
    "tx_fifo_sem ?ob = Some (new_binary\<lparr>uxMessagesWaiting := 1\<rparr>)"
    "\<not> 0 < ev \<longrightarrow> event_queue ?ob = None" "tx_ring_buf ?ob = None \<longleftrightarrow> \<not> 0 < tx"
    by (simp_all add: installed_obj_def new_obj_def zero_obj_def)
  have "13 \<le> tx" "tx < 2 ^ 30" if "0 < tx" using that assms(3) by (auto simp: sizes_ok_def SOC_UART_FIFO_LEN_def)
  note t = installed_tx [OF this, of al rx ev]
  have "0 < tx \<longrightarrow> tx_ok ?ob \<and> (\<exists>rb. tx_ring_buf ?ob = Some rb \<and> xSize rb = rbALIGN_SIZE (word_of_int tx) \<and> lent_items rb = [] \<and> queued_items rb = [])"
    using t(1,5-7) f(9) by (cases "tx_ring_buf ?ob") auto
  then show ?thesis using U' f by (intro exI [of _ U'] exI [of _ ?ob]) simp
qed

theorem uart_install_ready_witness:
  "(\<exists>U'. uart_driver_install demo_allocs demo_uart_dev ESP_OK 0 256 258 16 True demo_kernel demo_uart = Inr (ESP_OK, U', demo_kernel) \<and>
     port_ok 0 U' \<and> rx_stream (port_obj 0 U') = [] \<and> rb_cap (rx_ring (port_obj 0 U')) = 256 \<and>
     xSize (the (tx_ring_buf (port_obj 0 U'))) = 260 \<and> queued_items (the (tx_ring_buf (port_obj 0 U'))) = []) \<and>
   (\<exists>U'. uart_driver_install demo_allocs demo_uart_dev ESP_OK 0 256 0 0 False demo_kernel demo_uart = Inr (ESP_OK, U', demo_kernel) \<and>
     rx_stream (port_obj 0 U') = [] \<and> tx_ring_buf (port_obj 0 U') = None \<and> event_queue (port_obj 0 U') = None)"
  using uart_install_ready [of 0 demo_uart 256 258 16 demo_allocs True demo_uart_dev demo_kernel]
    uart_install_ready [of 0 demo_uart 256 0 0 demo_allocs False demo_uart_dev demo_kernel]
  by (auto simp: UART_NUM_MAX_def demo_uart_def sizes_ok_def SOC_UART_FIFO_LEN_def mem_ok_def demo_allocs_def demo_uart_dev_def
      demo_kernel_ok port_obj_def rbALIGN_SIZE_def)

text \<open>
  C3. The line of the shell in both directions. After a successful initialisation, in whatever order
  bytes arrive and leave, interrupts of both directions occur, the task reads, and characters are
  printed that find room (24 bytes, for the description and the character): the bytes that have left, followed by those in the FIFO and those in the
  transmit ring buffer, are exactly the characters printed, in order; while any is in the ring buffer
  the transmit interrupt is on, so that it will be fetched; and the bytes received keep their order as
  if nothing were printed. In every such state a character that finds room is accepted at once, and
  a transmit interrupt is served.
\<close>

theorem shell_line_both_directions:
  assumes "init_inputs_ok i c U" and "kernel_ok k" and "config_ok i c" and "in_task i"
    and "SHCOM_InitCom i c k S U P = Inr (SHCOM_STATUS_OK, S', U', P', k)" and "(duplex_step k)\<^sup>*\<^sup>* (duplex_start S' U') s"
  shows "d_sent s @ tx_fifo (uart_hw (d_uart s) (d_port s)) @ to_send (port_obj (d_port s) (d_uart s)) = d_printed s \<and>
    (to_send (port_obj (d_port s) (d_uart s)) \<noteq> [] \<longrightarrow> tx_intr_on (d_port s) (d_uart s)) \<and>
    subseq (on_the_way (d_line s)) (l_arrived (d_line s)) \<and> (\<not> l_lost (d_line s) \<longrightarrow> on_the_way (d_line s) = l_arrived (d_line s)) \<and>
    (xRingbufferGetCurFreeSize (tx_ring_buf (port_obj (d_port s) (d_uart s))) = Inr free \<and> 24 \<le> free \<longrightarrow>
       (\<exists>V. SHCOM_PrintCharacter em e b k (l_com (d_line s)) (d_uart s) = Inr (SHCOM_STATUS_OK, V, k))) \<and>
    (length (tx_fifo (uart_hw (d_uart s) (d_port s))) < SOC_UART_FIFO_LEN \<longrightarrow>
       (\<exists>V. uart_rx_intr_handler_default k [UART_INTR_TXFIFO_EMPTY] (d_port s) (d_uart s) = Inr (V, k)))"
proof -
  have "duplex_ok k s" using assms(6) init_duplex_ok(1) [OF assms(1-5)] by (induction rule: rtranclp_induct) (auto intro: duplex_step_ok)
  then have o: "line_ok k (d_line s)" "tx_port (d_port s) (d_uart s)" "mutex_ready k (tx_mux (port_obj (d_port s) (d_uart s)))"
    "tx_owed (port_obj (d_port s) (d_uart s)) = 0" "d_sent s @ tx_stream (d_port s) (d_uart s) = d_printed s"
    "to_send (port_obj (d_port s) (d_uart s)) \<noteq> [] \<longrightarrow> tx_intr_on (d_port s) (d_uart s)" by (simp_all add: duplex_ok_def)
  obtain ob where ob: "p_uart_obj (d_uart s) (d_port s) = Some ob" "port_obj (d_port s) (d_uart s) = ob" using o(2) by (rule tx_portE)
  have "\<exists>V. SHCOM_PrintCharacter em e b k (l_com (d_line s)) (d_uart s) = Inr (SHCOM_STATUS_OK, V, k)"
    if "xRingbufferGetCurFreeSize (tx_ring_buf ob) = Inr free" "24 \<le> free"
    using print_ok [OF o(2) ob(1), of k free em e b] o(3,4) ob(2) that by auto
  moreover have "has_flag UART_INTR_TXFIFO_EMPTY UART_INTR_TXFIFO_EMPTY" by (simp add: has_flag_def UART_INTR_TXFIFO_EMPTY_def)
  ultimately show ?thesis
    using o ob(2) tx_handler [OF o(2), of UART_INTR_TXFIFO_EMPTY k] by (auto simp: line_ok_def tx_stream_def)
qed

lemma demo_printed:
  "\<exists>S' U' P' s. SHCOM_InitCom demo_inputs demo_shcom_config demo_kernel demo_shcom demo_uart demo_pins =
      Inr (SHCOM_STATUS_OK, S', U', P', demo_kernel) \<and> (duplex_step demo_kernel)\<^sup>*\<^sup>* (duplex_start S' U') s \<and> d_printed s = [104]"
proof -
  note d = demo_init_inputs(1) demo_kernel_ok demo_init_inputs(2)
  have it: "in_task demo_inputs" by (simp add: demo_inputs_def)
  obtain S' U' P' where i: "SHCOM_InitCom demo_inputs demo_shcom_config demo_kernel demo_shcom demo_uart demo_pins =
      Inr (SHCOM_STATUS_OK, S', U', P', demo_kernel)" using init_ready [OF d it] by blast
  note ok = init_duplex_ok [OF d it i]
  let ?s = "duplex_start S' U'"
  have s: "d_port ?s = 0" "d_uart ?s = U'" "l_com (d_line ?s) = S'" "uart_port S' = 0" using ok(2) by (simp_all add: duplex_start_def demo_shcom_config_def)
  have o: "tx_port 0 U'" "mutex_ready demo_kernel (tx_mux (port_obj 0 U'))" "tx_owed (port_obj 0 U') = 0"
    using ok(1) s by (simp_all add: duplex_ok_def)
  obtain ob where ob: "p_uart_obj U' 0 = Some ob" "port_obj 0 U' = ob" using o(1) by (rule tx_portE)
  have "tx_ring_buf ob = tx_ring_buf (installed_obj demo_allocs 256 256 16)"
    using ok(3) ob(2) by (simp add: tx_view_def demo_inputs_def demo_shcom_config_def)
  moreover have "xRingbufferGetCurFreeSize (tx_ring_buf (installed_obj demo_allocs 256 256 16)) = Inr 120" by code_simp
  ultimately have free: "xRingbufferGetCurFreeSize (tx_ring_buf ob) = Inr 120" by simp
  obtain V where "SHCOM_PrintCharacter [] [] 104 demo_kernel S' U' = Inr (SHCOM_STATUS_OK, V, demo_kernel)"
    using print_ok [of S' U' ob demo_kernel 120 "[]" "[]" 104] s(4) o ob free by auto
  with duplex_step.printing [of ?s 120 "[]" "[]" 104 demo_kernel] s ob(2) free
  have "duplex_step demo_kernel ?s ((d_with V ?s)\<lparr>d_printed := d_printed ?s @ [104]\<rparr>)" by auto
  moreover have "d_printed ((d_with V ?s)\<lparr>d_printed := d_printed ?s @ [104]\<rparr>) = [104]" by (simp add: duplex_start_def)
  ultimately show ?thesis using i by blast
qed

theorem shell_line_both_directions_witness:
  "\<exists>S' U' P' s. SHCOM_InitCom demo_inputs demo_shcom_config demo_kernel demo_shcom demo_uart demo_pins =
      Inr (SHCOM_STATUS_OK, S', U', P', demo_kernel) \<and> (duplex_step demo_kernel)\<^sup>*\<^sup>* (duplex_start S' U') s \<and>
    d_sent s @ tx_fifo (uart_hw (d_uart s) (d_port s)) @ to_send (port_obj (d_port s) (d_uart s)) = [104]"
proof -
  obtain S' U' P' s where d: "SHCOM_InitCom demo_inputs demo_shcom_config demo_kernel demo_shcom demo_uart demo_pins =
      Inr (SHCOM_STATUS_OK, S', U', P', demo_kernel)" "(duplex_step demo_kernel)\<^sup>*\<^sup>* (duplex_start S' U') s" "d_printed s = [104]"
    using demo_printed by blast
  have "in_task demo_inputs" by (simp add: demo_inputs_def)
  from shell_line_both_directions [OF demo_init_inputs(1) demo_kernel_ok demo_init_inputs(2) this d(1,2)] d show ?thesis by auto
qed

lemma write_state:
  assumes "tx_port n U" and "port_ok n U" and "mutex_ready k (tx_mux (port_obj n U))" and "src \<noteq> []" and "length src < 2 ^ 31"
    and "tx_owed (port_obj n U) = 0" and "tx_room (port_obj n U) (tx_items (port_obj n U) src)"
  shows "\<exists>U'. uart_write_bytes em e n (Some src) k U = Inr (int (length src), U', k) \<and> tx_port n U' \<and> port_ok n U' \<and>
    tx_stream n U' = tx_stream n U @ src \<and> tx_owed (port_obj n U') = 0 \<and> tx_intr_on n U' \<and> tx_mux (port_obj n U') = tx_mux (port_obj n U) \<and>
    rx_stream (port_obj n U') = rx_stream (port_obj n U) \<and> rx_fifo (uart_hw U' n) = rx_fifo (uart_hw U n) \<and>
    events (port_obj n U') = events (port_obj n U)"
proof -
  obtain ob where ob: "p_uart_obj U n = Some ob" "port_obj n U = ob" using assms(1) by (rule tx_portE)
  from write_ok [OF assms(1) ob(1), of k src em e] assms(3-) ob(2) obtain U' where
    w: "uart_write_bytes em e n (Some src) k U = Inr (int (length src), U', k)" "tx_port n U'" "tx_stream n U' = tx_stream n U @ src"
      "tx_owed (port_obj n U') = 0" "tx_intr_on n U'" "tx_only n (put_obj n (ob\<lparr>coll_det_flg := False\<rparr>) U) U'" by auto
  note cd = coll_det_rx [OF assms(2) ob(1), of False]
  have "p_uart_obj U' n \<noteq> None" using w(2) by (rule tx_portE) simp
  note rx = tx_only_rx [OF w(6) cd(1) this]
  show ?thesis using w rx cd by auto
qed

text \<open>
  C26. A write of any length that finds room for the description and all pieces returns at once with the
  number of bytes, appends exactly these bytes to the stream to be sent, after everything written
  before, leaves the transmit interrupt on and gives the transmit mutex back. The receive side is not
  touched.
\<close>

theorem write_appends_to_stream:
  assumes "tx_port n U" and "port_ok n U" and "mutex_ready k (tx_mux (port_obj n U))" and "src \<noteq> []" and "length src < 2 ^ 31"
    and "tx_owed (port_obj n U) = 0" and "tx_room (port_obj n U) (tx_items (port_obj n U) src)"
  shows "\<exists>U'. uart_write_bytes em e n (Some src) k U = Inr (int (length src), U', k) \<and> tx_port n U' \<and> port_ok n U' \<and>
    tx_stream n U' = tx_stream n U @ src \<and> tx_owed (port_obj n U') = 0 \<and> tx_intr_on n U' \<and> tx_mux (port_obj n U') = tx_mux (port_obj n U) \<and>
    rx_stream (port_obj n U') = rx_stream (port_obj n U) \<and> rx_fifo (uart_hw U' n) = rx_fifo (uart_hw U n) \<and>
    events (port_obj n U') = events (port_obj n U)"
  by (rule write_state [OF assms])

lemma demo_tx_port:
  "tx_port 0 (demo_port [])" "port_ok 0 (demo_port [])" "mutex_ready demo_kernel (tx_mux (port_obj 0 (demo_port [])))"
  "tx_owed (port_obj 0 (demo_port [])) = 0" "tx_stream 0 (demo_port []) = []"
  "tx_room (port_obj 0 (demo_port [])) (tx_items (port_obj 0 (demo_port [])) [1, 2, 3])"
proof -
  let ?ob = "installed_obj demo_allocs 256 256 16"
  have o: "p_uart_obj (demo_port []) 0 = Some ?ob" "port_obj 0 (demo_port []) = ?ob" by (simp_all add: demo_port_def port_obj_def)
  note t = installed_tx [of 256 demo_allocs 256 16, simplified]
  have f: "tx_fifo (uart_hw (demo_port []) 0) = []" by (simp add: demo_port_def demo_uart_def demo_uart_dev_def)
  show tp: "tx_port 0 (demo_port [])" using o t(1) f by (simp add: tx_port_def UART_NUM_MAX_def)
  show "port_ok 0 (demo_port [])" using demo_port_ready(1) [of "[]"] by (simp add: shell_ready_def demo_shcom_def)
  show "mutex_ready demo_kernel (tx_mux (port_obj 0 (demo_port [])))" using o(2) t(4) demo_kernel_ok new_sems(1) by (simp add: mutex_ready_def)
  show "tx_owed (port_obj 0 (demo_port [])) = 0" "tx_stream 0 (demo_port []) = []" using o(2) t(2,3) f by (simp_all add: tx_stream_def)
  show "tx_room (port_obj 0 (demo_port [])) (tx_items (port_obj 0 (demo_port [])) [1, 2, 3])" unfolding o(2) by code_simp
qed

theorem write_appends_to_stream_witness:
  "\<exists>U'. uart_write_bytes [] [] 0 (Some [1, 2, 3]) demo_kernel (demo_port []) = Inr (3, U', demo_kernel) \<and> tx_stream 0 U' = [1, 2, 3]"
  using write_appends_to_stream [OF demo_tx_port(1-3) _ _ demo_tx_port(4,6), of "[]" "[]"] demo_tx_port(5) by auto

lemma demo_written:
  "\<exists>U. uart_write_bytes [] [] 0 (Some [1, 2, 3]) demo_kernel (demo_port []) = Inr (3, U, demo_kernel) \<and> tx_port 0 U \<and>
    tx_stream 0 U = [1, 2, 3] \<and> length (tx_fifo (uart_hw U 0)) < SOC_UART_FIFO_LEN \<and> port_ok 0 U"
proof -
  obtain U where w: "uart_write_bytes [] [] 0 (Some [1, 2, 3]) demo_kernel (demo_port []) = Inr (3, U, demo_kernel)" "tx_port 0 U"
    "tx_stream 0 U = [1, 2, 3]" "port_ok 0 U"
    using write_state [OF demo_tx_port(1-3) _ _ demo_tx_port(4,6), of "[]" "[]"] demo_tx_port(5) by auto
  moreover from w(3) have "length (tx_fifo (uart_hw U 0)) \<le> length [1, 2, 3 :: u8]" unfolding w(3) [symmetric] by (simp add: tx_stream_def)
  ultimately show ?thesis by (auto simp: SOC_UART_FIFO_LEN_def)
qed

text \<open>
  The transmit interrupt, on any state of the transmit side with room in the FIFO: the handler's
  loop ends, items are taken from the ring buffer, descriptions read and data pushed such that FIFO and
  stream together stay what they were, and it stops only with the FIFO full, the interrupt on again, or
  with nothing left to send. Nothing of the receive side changes.
\<close>

theorem transmit_interrupt_moves_stream:
  assumes "tx_port n U" and "port_ok n U" and "length (tx_fifo (uart_hw U n)) < SOC_UART_FIFO_LEN" and "has_flag status UART_INTR_TXFIFO_EMPTY"
  shows "\<exists>U'. uart_rx_intr_handler_default k [status] n U = Inr (U', k) \<and> tx_port n U' \<and> port_ok n U' \<and>
    tx_fifo (uart_hw U' n) @ to_send (port_obj n U') = tx_fifo (uart_hw U n) @ to_send (port_obj n U) \<and>
    (length (tx_fifo (uart_hw U' n)) = SOC_UART_FIFO_LEN \<and> tx_intr_on n U' \<or> to_send (port_obj n U') = []) \<and>
    rx_stream (port_obj n U') = rx_stream (port_obj n U) \<and> rx_fifo (uart_hw U' n) = rx_fifo (uart_hw U n) \<and>
    events (port_obj n U') = events (port_obj n U)"
proof -
  obtain U' where h: "uart_rx_intr_handler_default k [status] n U = Inr (U', k)" "tx_port n U'" "tx_stream n U' = tx_stream n U" "tx_only n U U'"
    "length (tx_fifo (uart_hw U' n)) = SOC_UART_FIFO_LEN \<and> tx_intr_on n U' \<or> to_send (port_obj n U') = []"
    using tx_handler [OF assms(1,3,4)] by blast
  have "p_uart_obj U' n \<noteq> None" using h(2) by (rule tx_portE) simp
  note rx = tx_only_rx [OF h(4) assms(2) this]
  show ?thesis using h rx by (auto simp: tx_stream_def)
qed

theorem transmit_interrupt_moves_stream_witness:
  "\<exists>U U'. uart_write_bytes [] [] 0 (Some [1, 2, 3]) demo_kernel (demo_port []) = Inr (3, U, demo_kernel) \<and>
    uart_rx_intr_handler_default demo_kernel [UART_INTR_TXFIFO_EMPTY] 0 U = Inr (U', demo_kernel) \<and>
    tx_fifo (uart_hw U' 0) @ to_send (port_obj 0 U') = [1, 2, 3]"
proof -
  obtain U where w: "uart_write_bytes [] [] 0 (Some [1, 2, 3]) demo_kernel (demo_port []) = Inr (3, U, demo_kernel)" "tx_port 0 U"
    "tx_stream 0 U = [1, 2, 3]" "length (tx_fifo (uart_hw U 0)) < SOC_UART_FIFO_LEN" "port_ok 0 U" using demo_written by blast
  have "has_flag UART_INTR_TXFIFO_EMPTY UART_INTR_TXFIFO_EMPTY" by (simp add: has_flag_def UART_INTR_TXFIFO_EMPTY_def)
  then show ?thesis
    using transmit_interrupt_moves_stream [OF w(2,5,4), of UART_INTR_TXFIFO_EMPTY demo_kernel] w(1,3) by (auto simp: tx_stream_def)
qed

text \<open>
  C25. Everything written is sent: from any state of the transmit side, as many transmit interrupts as
  it takes to fill the FIFO with the stream, each served when the FIFO has run empty, put exactly the
  stream on the line, in order, and nothing is left.
\<close>

theorem stream_is_sent:
  assumes "tx_port n U" and "length (tx_fifo (uart_hw U n)) < SOC_UART_FIFO_LEN" and "length (tx_stream n U) \<le> SOC_UART_FIFO_LEN * m"
  shows "\<exists>U'. transmit_rounds m k n U = Inr (tx_stream n U, U') \<and> tx_port n U' \<and> tx_stream n U' = []"
  by (rule rounds_send [OF assms])

theorem stream_is_sent_witness:
  "\<exists>U U'. uart_write_bytes [] [] 0 (Some [1, 2, 3]) demo_kernel (demo_port []) = Inr (3, U, demo_kernel) \<and>
    transmit_rounds 1 demo_kernel 0 U = Inr ([1, 2, 3], U') \<and> tx_stream 0 U' = []"
proof -
  obtain U where w: "uart_write_bytes [] [] 0 (Some [1, 2, 3]) demo_kernel (demo_port []) = Inr (3, U, demo_kernel)" "tx_port 0 U"
    "tx_stream 0 U = [1, 2, 3]" "length (tx_fifo (uart_hw U 0)) < SOC_UART_FIFO_LEN" using demo_written by blast
  from stream_is_sent [OF w(2,4), of 1 demo_kernel] w(1,3) show ?thesis by (auto simp: SOC_UART_FIFO_LEN_def)
qed

end
