(* ===== verification/AppMain.thy ===== *)
theory AppMain
  imports FreeRTOS_Tasks
begin

text \<open>
  The entry point of the firmware (\<^verbatim>\<open>main/main.c\<close>): it reads the size of the flash, starts the main task
  and returns, and the main task only sleeps. The result of reading the size and whether the task could
  be created are inputs; what is printed is left out.
\<close>

definition app_main :: "esp_err + u32 \<Rightarrow> bool \<Rightarrow> bool \<Rightarrow> bool res" where
  "app_main flash_size task_created main_task_handle =
     (case flash_size of
        Inl _ \<Rightarrow> Inr main_task_handle
      | Inr _ \<Rightarrow> if \<not> task_created then Inl Diverges else Inr True)"

text \<open>The loop of the main task, for any number of turns.\<close>

fun tMainTask :: "nat \<Rightarrow> kernel \<Rightarrow> kernel res" where
  "tMainTask 0 k = Inr k"
| "tMainTask (Suc n) k = bind_res (vTaskDelay 1000 k) (tMainTask n)"

text \<open>
  The firmware runs its main task exactly if the size of the flash can be read and the task created; a
  failed reading returns silently, a failed creation hangs the start-up task.
\<close>

lemma app_main_outcome:
  "app_main flash_size task_created False = Inr True \<longleftrightarrow> (\<exists>size. flash_size = Inr size) \<and> task_created"
  "app_main flash_size task_created False = Inl Diverges \<longleftrightarrow> (\<exists>size. flash_size = Inr size) \<and> \<not> task_created"
  by (auto simp: app_main_def split: sum.splits)

text \<open>Every turn of the main task takes a second and changes nothing but the time.\<close>

lemma main_task_only_sleeps:
  "\<not> uxSchedulerSuspended k \<Longrightarrow>
   \<exists>k'. tMainTask n k = Inr k' \<and> tcbs k' = tcbs k \<and> pxCurrentTCB k' = pxCurrentTCB k \<and> xTickCount k' = xTickCount k + of_nat (1000 * n)"
proof (induction n arbitrary: k)
  case (Suc n)
  from Suc.IH [of "ticks_later 1000 k"] Suc.prems show ?case by (simp add: vTaskDelay_eq) (auto simp: algebra_simps)
qed simp

end
