(* ===== verification/KernelList.thy ===== *)
theory KernelList
  imports FreeRTOS_Tasks
begin

text \<open>
  The linked lists of the kernel (\<^verbatim>\<open>freertos/FreeRTOS-Kernel/list.c\<close> and the macros of
  \<^verbatim>\<open>include/freertos/list.h\<close>), twice. First as the code has them: items and end markers that point
  to each other in a ring, a walking index and a count per list, updated one pointer at a time.
  Then as sequences of items with a cursor, which is the form the scheduler is modelled on. The
  lemmas show that every pointer operation does on the rings what its counterpart does on the
  sequences, whatever the other lists hold.
\<close>

section \<open>Items, end markers and lists in memory\<close>

text \<open>
  A node is an item or the end marker \<^verbatim>\<open>xListEnd\<close> of a list. The owner of an item (\<^verbatim>\<open>pvOwner\<close>) is
  fixed when its task is created and is a function of the item's address.
\<close>

datatype ('i, 'l) node = Item 'i | ListEnd 'l

record ('i, 'l) ListItem_t =
  xItemValue :: u32
  pxNext :: "('i, 'l) node"
  pxPrevious :: "('i, 'l) node"
  pxContainer :: "'l option"

record ('i, 'l) List_t =
  uxNumberOfItems :: u32
  pxIndex :: "('i, 'l) node"

record ('i, 'l) list_heap =
  node_at :: "('i, 'l) node \<Rightarrow> ('i, 'l) ListItem_t"
  list_at :: "'l \<Rightarrow> ('i, 'l) List_t"

definition upd_node ::
  "('i, 'l) node \<Rightarrow> (('i, 'l) ListItem_t \<Rightarrow> ('i, 'l) ListItem_t) \<Rightarrow> ('i, 'l) list_heap \<Rightarrow> ('i, 'l) list_heap" where
  "upd_node n f h = h\<lparr>node_at := (node_at h)(n := f (node_at h n))\<rparr>"

definition upd_list ::
  "'l \<Rightarrow> (('i, 'l) List_t \<Rightarrow> ('i, 'l) List_t) \<Rightarrow> ('i, 'l) list_heap \<Rightarrow> ('i, 'l) list_heap" where
  "upd_list l f h = h\<lparr>list_at := (list_at h)(l := f (list_at h l))\<rparr>"

definition set_next :: "('i, 'l) node \<Rightarrow> ('i, 'l) node \<Rightarrow> ('i, 'l) list_heap \<Rightarrow> ('i, 'l) list_heap" where
  "set_next n m = upd_node n (\<lambda>x. x\<lparr>pxNext := m\<rparr>)"

definition set_previous :: "('i, 'l) node \<Rightarrow> ('i, 'l) node \<Rightarrow> ('i, 'l) list_heap \<Rightarrow> ('i, 'l) list_heap" where
  "set_previous n m = upd_node n (\<lambda>x. x\<lparr>pxPrevious := m\<rparr>)"

definition set_container :: "'i \<Rightarrow> 'l option \<Rightarrow> ('i, 'l) list_heap \<Rightarrow> ('i, 'l) list_heap" where
  "set_container i c = upd_node (Item i) (\<lambda>x. x\<lparr>pxContainer := c\<rparr>)"

definition next_of :: "('i, 'l) list_heap \<Rightarrow> ('i, 'l) node \<Rightarrow> ('i, 'l) node" where
  "next_of h n = pxNext (node_at h n)"

definition previous_of :: "('i, 'l) list_heap \<Rightarrow> ('i, 'l) node \<Rightarrow> ('i, 'l) node" where
  "previous_of h n = pxPrevious (node_at h n)"

definition value_at :: "('i, 'l) list_heap \<Rightarrow> ('i, 'l) node \<Rightarrow> u32" where
  "value_at h n = xItemValue (node_at h n)"

lemmas heap_update_defs = upd_node_def upd_list_def set_next_def set_previous_def set_container_def
lemmas heap_access_defs = next_of_def previous_of_def value_at_def

section \<open>The operations of list.c\<close>

definition vListInitialise_h :: "'l \<Rightarrow> ('i, 'l) list_heap \<Rightarrow> ('i, 'l) list_heap" where
  "vListInitialise_h l h =
     upd_list l (\<lambda>x. x\<lparr>uxNumberOfItems := 0\<rparr>)
      (upd_node (ListEnd l)
        (\<lambda>x. x\<lparr>xItemValue := portMAX_DELAY, pxNext := ListEnd l, pxPrevious := ListEnd l\<rparr>)
        (upd_list l (\<lambda>x. x\<lparr>pxIndex := ListEnd l\<rparr>) h))"

definition vListInitialiseItem_h :: "'i \<Rightarrow> ('i, 'l) list_heap \<Rightarrow> ('i, 'l) list_heap" where
  "vListInitialiseItem_h i h = set_container i None h"

definition listSET_LIST_ITEM_VALUE_h :: "'i \<Rightarrow> u32 \<Rightarrow> ('i, 'l) list_heap \<Rightarrow> ('i, 'l) list_heap" where
  "listSET_LIST_ITEM_VALUE_h i v = upd_node (Item i) (\<lambda>x. x\<lparr>xItemValue := v\<rparr>)"

definition count_up :: "'l \<Rightarrow> ('i, 'l) list_heap \<Rightarrow> ('i, 'l) list_heap" where
  "count_up l = upd_list l (\<lambda>x. x\<lparr>uxNumberOfItems := uxNumberOfItems x + 1\<rparr>)"

text \<open>\<^verbatim>\<open>vListInsertEnd\<close> and the macro \<^verbatim>\<open>listINSERT_END\<close> have the same body.\<close>

definition vListInsertEnd_h :: "'l \<Rightarrow> 'i \<Rightarrow> ('i, 'l) list_heap \<Rightarrow> ('i, 'l) list_heap" where
  "vListInsertEnd_h l i h =
     (let ix = pxIndex (list_at h l);
          h1 = set_next (Item i) ix h;
          h2 = set_previous (Item i) (previous_of h1 ix) h1;
          h3 = set_next (previous_of h2 ix) (Item i) h2;
          h4 = set_previous ix (Item i) h3
      in count_up l (set_container i (Some l) h4))"

text \<open>The search loop of \<^verbatim>\<open>vListInsert\<close> ends only if it meets a larger value.\<close>

partial_function (option) insert_walk ::
  "('i, 'l) list_heap \<Rightarrow> u32 \<Rightarrow> ('i, 'l) node \<Rightarrow> ('i, 'l) node option" where
  "insert_walk h v it =
     (if value_at h (next_of h it) \<le> v then insert_walk h v (next_of h it) else Some it)"

definition link_after :: "'l \<Rightarrow> 'i \<Rightarrow> ('i, 'l) node \<Rightarrow> ('i, 'l) list_heap \<Rightarrow> ('i, 'l) list_heap" where
  "link_after l i it h =
     (let h1 = set_next (Item i) (next_of h it) h;
          h2 = set_previous (next_of h1 (Item i)) (Item i) h1;
          h3 = set_previous (Item i) it h2;
          h4 = set_next it (Item i) h3
      in count_up l (set_container i (Some l) h4))"

definition vListInsert_h :: "'l \<Rightarrow> 'i \<Rightarrow> ('i, 'l) list_heap \<Rightarrow> ('i, 'l) list_heap res" where
  "vListInsert_h l i h =
     (let v = value_at h (Item i) in
      if v = portMAX_DELAY
      then Inr (link_after l i (previous_of h (ListEnd l)) h)
      else case insert_walk h v (ListEnd l) of
             None \<Rightarrow> Inl Diverges
           | Some it \<Rightarrow> Inr (link_after l i it h))"

text \<open>\<^verbatim>\<open>uxListRemove\<close>, and \<^verbatim>\<open>listREMOVE_ITEM\<close> which does not return the count.\<close>

definition uxListRemove_h :: "'i \<Rightarrow> ('i, 'l) list_heap \<Rightarrow> (u32 \<times> ('i, 'l) list_heap) res" where
  "uxListRemove_h i h =
     bind_res (deref (pxContainer (node_at h (Item i)))) (\<lambda>l.
       let h1 = set_previous (next_of h (Item i)) (previous_of h (Item i)) h;
           h2 = set_next (previous_of h1 (Item i)) (next_of h1 (Item i)) h1;
           h3 = (if pxIndex (list_at h2 l) = Item i
                 then upd_list l (\<lambda>x. x\<lparr>pxIndex := previous_of h2 (Item i)\<rparr>) h2 else h2);
           h4 = upd_list l (\<lambda>x. x\<lparr>uxNumberOfItems := uxNumberOfItems x - 1\<rparr>) (set_container i None h3)
       in Inr (uxNumberOfItems (list_at h4 l), h4))"

text \<open>\<^verbatim>\<open>listGET_OWNER_OF_NEXT_ENTRY\<close>: the end marker has no owner to return.\<close>

definition listGET_NEXT_ENTRY_h :: "'l \<Rightarrow> ('i, 'l) list_heap \<Rightarrow> ('i \<times> ('i, 'l) list_heap) res" where
  "listGET_NEXT_ENTRY_h l h =
     (let n1 = next_of h (pxIndex (list_at h l));
          n2 = (if n1 = ListEnd l then next_of h n1 else n1);
          h' = upd_list l (\<lambda>x. x\<lparr>pxIndex := n2\<rparr>) h
      in case n2 of Item i \<Rightarrow> Inr (i, h') | ListEnd _ \<Rightarrow> Inl Out_of_bounds)"

definition listRESET_INDEX_h :: "'l \<Rightarrow> ('i, 'l) list_heap \<Rightarrow> ('i, 'l) list_heap" where
  "listRESET_INDEX_h l = upd_list l (\<lambda>x. x\<lparr>pxIndex := ListEnd l\<rparr>)"

definition listLIST_IS_EMPTY_h :: "'l \<Rightarrow> ('i, 'l) list_heap \<Rightarrow> bool" where
  "listLIST_IS_EMPTY_h l h \<longleftrightarrow> uxNumberOfItems (list_at h l) = 0"

definition listGET_HEAD_ENTRY_h :: "'l \<Rightarrow> ('i, 'l) list_heap \<Rightarrow> ('i, 'l) node" where
  "listGET_HEAD_ENTRY_h l h = next_of h (ListEnd l)"

section \<open>Lists as sequences with a cursor\<close>

text \<open>A cursor of \<^term>\<open>None\<close> stands on the end marker.\<close>

record ('i, 'l) lists =
  items :: "'l \<Rightarrow> 'i list"
  cursor :: "'l \<Rightarrow> 'i option"
  item_value :: "'i \<Rightarrow> u32"
  container :: "'i \<Rightarrow> 'l option"

definition item_before :: "'i list \<Rightarrow> 'i \<Rightarrow> 'i option" where
  "item_before xs i = (let ys = takeWhile (\<lambda>x. x \<noteq> i) xs in if ys = [] then None else Some (last ys))"

definition item_after :: "'i list \<Rightarrow> 'i option \<Rightarrow> 'i option" where
  "item_after xs c =
     (let ys = (case c of None \<Rightarrow> xs | Some j \<Rightarrow> tl (dropWhile (\<lambda>x. x \<noteq> j) xs))
      in if ys = [] then None else Some (hd ys))"

definition put_before :: "'i list \<Rightarrow> 'i option \<Rightarrow> 'i \<Rightarrow> 'i list" where
  "put_before xs c i =
     (case c of None \<Rightarrow> xs @ [i]
      | Some j \<Rightarrow> takeWhile (\<lambda>x. x \<noteq> j) xs @ i # dropWhile (\<lambda>x. x \<noteq> j) xs)"

definition insert_end :: "'l \<Rightarrow> 'i \<Rightarrow> ('i, 'l, 'z) lists_scheme \<Rightarrow> ('i, 'l, 'z) lists_scheme res" where
  "insert_end l i s =
     (if container s i = None
      then Inr (s\<lparr>items := (items s)(l := put_before (items s l) (cursor s l) i),
                  container := (container s)(i := Some l)\<rparr>)
      else Inl List_corrupted)"

definition insert_sorted :: "'l \<Rightarrow> 'i \<Rightarrow> ('i, 'l, 'z) lists_scheme \<Rightarrow> ('i, 'l, 'z) lists_scheme res" where
  "insert_sorted l i s =
     (if container s i = None
      then Inr (s\<lparr>items := (items s)(l := vListInsert (item_value s) (items s l) i),
                  container := (container s)(i := Some l)\<rparr>)
      else Inl List_corrupted)"

definition remove_item :: "'i \<Rightarrow> ('i, 'l, 'z) lists_scheme \<Rightarrow> (nat \<times> ('i, 'l, 'z) lists_scheme) res" where
  "remove_item i s =
     bind_res (deref (container s i)) (\<lambda>l.
       Inr (length (remove1 i (items s l)),
            s\<lparr>items := (items s)(l := remove1 i (items s l)),
              cursor := (cursor s)(l := if cursor s l = Some i then item_before (items s l) i
                                        else cursor s l),
              container := (container s)(i := None)\<rparr>))"

definition next_entry :: "'l \<Rightarrow> ('i, 'l, 'z) lists_scheme \<Rightarrow> ('i \<times> ('i, 'l, 'z) lists_scheme) res" where
  "next_entry l s =
     (case (case item_after (items s l) (cursor s l) of
              None \<Rightarrow> item_after (items s l) None | Some i \<Rightarrow> Some i) of
        None \<Rightarrow> Inl Out_of_bounds
      | Some i \<Rightarrow> Inr (i, s\<lparr>cursor := (cursor s)(l := Some i)\<rparr>))"

definition reset_index :: "'l \<Rightarrow> ('i, 'l, 'z) lists_scheme \<Rightarrow> ('i, 'l, 'z) lists_scheme" where
  "reset_index l s = s\<lparr>cursor := (cursor s)(l := None)\<rparr>"

definition set_value :: "'i \<Rightarrow> u32 \<Rightarrow> ('i, 'l, 'z) lists_scheme \<Rightarrow> ('i, 'l, 'z) lists_scheme" where
  "set_value i v s = s\<lparr>item_value := (item_value s)(i := v)\<rparr>"

text \<open>Every list holds the items that name it as their container, once each.\<close>

definition lists_ok :: "('i, 'l, 'z) lists_scheme \<Rightarrow> bool" where
  "lists_ok s \<longleftrightarrow>
     (\<forall>l. distinct (items s l)) \<and>
     (\<forall>l i. i \<in> set (items s l) \<longleftrightarrow> container s i = Some l) \<and>
     (\<forall>l i. cursor s l = Some i \<longrightarrow> container s i = Some l)"

section \<open>Rings\<close>

text \<open>The nodes met on the way from one node to another, with the links in both directions.\<close>

primrec seg :: "('i, 'l) list_heap \<Rightarrow> ('i, 'l) node \<Rightarrow> ('i, 'l) node list \<Rightarrow> ('i, 'l) node \<Rightarrow> bool" where
  "seg h a [] b \<longleftrightarrow> next_of h a = b \<and> previous_of h b = a"
| "seg h a (x # xs) b \<longleftrightarrow> next_of h a = x \<and> previous_of h x = a \<and> seg h x xs b"

lemma seg_append: "seg h a (xs @ y # ys) b \<longleftrightarrow> seg h a xs y \<and> seg h y ys b"
  by (induction xs arbitrary: a) auto

lemma seg_frame:
  assumes "\<And>n. n = a \<or> n \<in> set xs \<Longrightarrow> next_of h' n = next_of h n"
    and "\<And>n. n = b \<or> n \<in> set xs \<Longrightarrow> previous_of h' n = previous_of h n"
  shows "seg h' a xs b = seg h a xs b"
  using assms by (induction xs arbitrary: a) auto

lemma seg_boundary:
  assumes "seg h a (xs @ ys) b"
  shows "next_of h (last (a # xs)) = hd (ys @ [b])" "previous_of h (hd (ys @ [b])) = last (a # xs)"
  using assms by (induction xs arbitrary: a; cases ys; auto)+

lemma seg_link:
  assumes "seg h a (xs @ ys) b" and "distinct (xs @ ys)" and "a \<notin> set (xs @ ys)" "b \<notin> set (xs @ ys)"
    and n: "n \<noteq> a" "n \<noteq> b" "n \<notin> set (xs @ ys)"
    and p: "p = last (a # xs)" and q: "q = hd (ys @ [b])"
    and nx: "next_of h' = (next_of h)(p := n, n := q)"
    and pv: "previous_of h' = (previous_of h)(q := n, n := p)"
  shows "seg h' a (xs @ n # ys) b"
  using assms(1-4) n p
proof (induction xs arbitrary: a)
  case Nil
  show ?case
  proof (cases ys)
    case (Cons y zs)
    then have "seg h' y zs b = seg h y zs b"
      by (intro seg_frame) (use Nil q nx pv in auto)
    then show ?thesis using Nil Cons q nx pv by auto
  qed (use Nil q nx pv in auto)
next
  case (Cons x xs)
  then have "seg h' x (xs @ n # ys) b" by (intro Cons.IH) auto
  moreover have "a \<noteq> p" using Cons.prems by (auto split: if_splits dest: last_in_set)
  moreover have "x \<noteq> q" using Cons.prems q by (cases ys) auto
  ultimately show ?case using Cons.prems nx pv by auto
qed

lemma seg_unlink:
  assumes "seg h a (xs @ n # ys) b" and "distinct (xs @ n # ys)"
    and "a \<notin> set (xs @ n # ys)" "b \<notin> set (xs @ n # ys)"
    and p: "p = last (a # xs)" and q: "q = hd (ys @ [b])"
    and nx: "next_of h' = (next_of h)(p := q, n := x')"
    and pv: "previous_of h' = (previous_of h)(q := p, n := y')"
  shows "seg h' a (xs @ ys) b"
  using assms(1-4) p
proof (induction xs arbitrary: a)
  case Nil
  show ?case
  proof (cases ys)
    case (Cons y zs)
    then have "seg h' y zs b = seg h y zs b"
      by (intro seg_frame) (use Nil q nx pv in auto)
    then show ?thesis using Nil Cons q nx pv by auto
  qed (use Nil q nx pv in auto)
next
  case (Cons x xs)
  then have "seg h' x (xs @ ys) b" by (intro Cons.IH) auto
  moreover have "a \<noteq> p" using Cons.prems by (auto split: if_splits dest: last_in_set)
  moreover have "x \<noteq> q" using Cons.prems q by (cases ys) auto
  ultimately show ?case using Cons.prems nx pv by auto
qed

section \<open>Sequences represented by rings\<close>

fun node_of :: "'l \<Rightarrow> 'i option \<Rightarrow> ('i, 'l) node" where
  "node_of l None = ListEnd l"
| "node_of l (Some i) = Item i"

text \<open>The lists of \<^term>\<open>L\<close> have been initialised.\<close>

definition list_rep :: "'l set \<Rightarrow> ('i, 'l) list_heap \<Rightarrow> ('i, 'l, 'z) lists_scheme \<Rightarrow> bool" where
  "list_rep L h s \<longleftrightarrow>
     lists_ok s \<and>
     (\<forall>i. value_at h (Item i) = item_value s i \<and> pxContainer (node_at h (Item i)) = container s i) \<and>
     (\<forall>i l. container s i = Some l \<longrightarrow> l \<in> L) \<and>
     (\<forall>l \<in> L. seg h (ListEnd l) (map Item (items s l)) (ListEnd l) \<and>
              value_at h (ListEnd l) = portMAX_DELAY \<and>
              uxNumberOfItems (list_at h l) = of_nat (length (items s l)) \<and>
              pxIndex (list_at h l) = node_of l (cursor s l))"

lemma lists_okD:
  assumes "lists_ok s"
  shows "distinct (items s l)" "i \<in> set (items s l) \<longleftrightarrow> container s i = Some l"
    "cursor s l = Some i \<Longrightarrow> container s i = Some l"
  using assms by (simp_all add: lists_ok_def)

lemma list_repD:
  assumes "list_rep L h s"
  shows "lists_ok s" "value_at h (Item i) = item_value s i"
    "pxContainer (node_at h (Item i)) = container s i" "container s i = Some l \<Longrightarrow> l \<in> L"
    "l \<in> L \<Longrightarrow> seg h (ListEnd l) (map Item (items s l)) (ListEnd l)"
    "l \<in> L \<Longrightarrow> value_at h (ListEnd l) = portMAX_DELAY"
    "l \<in> L \<Longrightarrow> uxNumberOfItems (list_at h l) = of_nat (length (items s l))"
    "l \<in> L \<Longrightarrow> pxIndex (list_at h l) = node_of l (cursor s l)"
  using assms by (simp_all add: list_rep_def)

lemma put_before_split:
  assumes "c = None \<or> (\<exists>j. c = Some j \<and> j \<in> set xs)"
  shows "\<exists>ys zs. xs = ys @ zs \<and> put_before xs c i = ys @ i # zs \<and>
           node_of l c = hd (map Item zs @ [ListEnd l])"
proof (cases c)
  case (Some j)
  with assms have "dropWhile (\<lambda>x. x \<noteq> j) xs \<noteq> []" by (auto simp: dropWhile_eq_Nil_conv)
  then have "hd (dropWhile (\<lambda>x. x \<noteq> j) xs) = j" using hd_dropWhile [of "\<lambda>x. x \<noteq> j" xs] by simp
  with Some \<open>dropWhile (\<lambda>x. x \<noteq> j) xs \<noteq> []\<close> show ?thesis
    by (intro exI [of _ "takeWhile (\<lambda>x. x \<noteq> j) xs"] exI [of _ "dropWhile (\<lambda>x. x \<noteq> j) xs"])
       (simp add: put_before_def hd_append hd_map)
next
  case None
  then show ?thesis by (intro exI [of _ xs] exI [of _ "[]"]) (simp add: put_before_def)
qed

lemma vListInsert_split:
  "vListInsert val xs i =
     takeWhile (\<lambda>x. val x \<le> val i) xs @ i # dropWhile (\<lambda>x. val x \<le> val i) xs"
  by (induction xs) auto

lemma lists_ok_insert:
  assumes "lists_ok s" "container s i = None" "items s l = ys @ zs"
  shows "lists_ok (s\<lparr>items := (items s)(l := ys @ i # zs), container := (container s)(i := Some l)\<rparr>)"
proof -
  have new: "i \<notin> set (items s k)" for k using assms(1,2) by (simp add: lists_okD(2))
  have mem: "x \<in> set (items s k) \<longleftrightarrow> container s x = Some k" for x k
    by (rule lists_okD(2) [OF assms(1)])
  have "set (ys @ i # zs) = insert i (set (items s l))" by (auto simp: assms(3))
  moreover have "distinct (ys @ i # zs)"
    using new [of l] lists_okD(1) [OF assms(1), of l] by (simp add: assms(3))
  ultimately show ?thesis
    unfolding lists_ok_def using lists_okD(1,3) [OF assms(1)] mem assms(2) new
    by (auto simp del: set_append)
qed

lemma lists_ok_remove:
  assumes "lists_ok s" "container s i = Some l"
    and "c = None \<or> (\<exists>j. c = Some j \<and> j \<noteq> i \<and> container s j = Some l)"
  shows "lists_ok (s\<lparr>items := (items s)(l := remove1 i (items s l)), cursor := (cursor s)(l := c),
                     container := (container s)(i := None)\<rparr>)"
proof -
  have mem: "x \<in> set (items s k) \<longleftrightarrow> container s x = Some k" for x k
    by (rule lists_okD(2) [OF assms(1)])
  have "set (remove1 i (items s l)) = set (items s l) - {i}"
    using lists_okD(1) [OF assms(1)] by (simp add: set_remove1_eq)
  moreover have "distinct (remove1 i (items s l))"
    using lists_okD(1) [OF assms(1)] by (simp add: distinct_remove1)
  moreover have "cursor s k \<noteq> Some i" if "k \<noteq> l" for k
    using that lists_okD(3) [OF assms(1), of k i] assms(2) by auto
  ultimately show ?thesis
    unfolding lists_ok_def using lists_okD(1,3) [OF assms(1)] mem assms(2,3) by auto
qed

lemma item_before_in:
  assumes "item_before xs i = Some j"
  shows "j \<in> set xs" "j \<noteq> i"
proof -
  have "takeWhile (\<lambda>x. x \<noteq> i) xs \<noteq> []" "j = last (takeWhile (\<lambda>x. x \<noteq> i) xs)"
    using assms by (auto simp: item_before_def Let_def split: if_splits)
  then have "j \<in> set (takeWhile (\<lambda>x. x \<noteq> i) xs)" using last_in_set by blast
  then show "j \<in> set xs" "j \<noteq> i" by (auto dest: set_takeWhileD)
qed

section \<open>What each update leaves alone\<close>

lemma heap_reads [simp]:
  "next_of (set_next n m h) = (next_of h)(n := m)"
  "next_of (set_previous n m h) = next_of h"
  "next_of (set_container i c h) = next_of h"
  "next_of (upd_list l f h) = next_of h"
  "previous_of (set_next n m h) = previous_of h"
  "previous_of (set_previous n m h) = (previous_of h)(n := m)"
  "previous_of (set_container i c h) = previous_of h"
  "previous_of (upd_list l f h) = previous_of h"
  "value_at (set_next n m h) = value_at h"
  "value_at (set_previous n m h) = value_at h"
  "value_at (set_container i c h) = value_at h"
  "value_at (upd_list l f h) = value_at h"
  "list_at (set_next n m h) = list_at h"
  "list_at (set_previous n m h) = list_at h"
  "list_at (set_container i c h) = list_at h"
  "list_at (upd_list l f h) = (list_at h)(l := f (list_at h l))"
  by (auto simp: heap_update_defs heap_access_defs fun_eq_iff)

lemma heap_containers [simp]:
  "pxContainer (node_at (set_next n m h) k) = pxContainer (node_at h k)"
  "pxContainer (node_at (set_previous n m h) k) = pxContainer (node_at h k)"
  "pxContainer (node_at (set_container i c h) k) = (if k = Item i then c else pxContainer (node_at h k))"
  "pxContainer (node_at (upd_list l f h) k) = pxContainer (node_at h k)"
  by (auto simp: heap_update_defs)

lemma other_ring:
  assumes rep: "list_rep L h s" and "k \<in> L"
    and "\<And>n. n \<notin> D \<Longrightarrow> next_of h' n = next_of h n" "\<And>n. n \<notin> D \<Longrightarrow> previous_of h' n = previous_of h n"
    and "\<And>n. n \<in> D \<Longrightarrow> n \<noteq> ListEnd k \<and> n \<notin> Item ` set (items s k)"
  shows "seg h' (ListEnd k) (map Item (items s k)) (ListEnd k)"
proof -
  have "seg h' (ListEnd k) (map Item (items s k)) (ListEnd k) =
        seg h (ListEnd k) (map Item (items s k)) (ListEnd k)"
    by (intro seg_frame) (use assms(3-5) in auto)
  with list_repD(5) [OF rep \<open>k \<in> L\<close>] show ?thesis by simp
qed

section \<open>Linking an item\<close>

lemma list_rep_link:
  assumes rep: "list_rep L h s" and l: "l \<in> L" and free: "container s i = None"
    and sp: "items s l = ys @ zs"
    and p: "p = last (ListEnd l # map Item ys)" and q: "q = hd (map Item zs @ [ListEnd l])"
    and nx: "next_of h' = (next_of h)(p := Item i, Item i := q)"
    and pv: "previous_of h' = (previous_of h)(q := Item i, Item i := p)"
    and vals: "value_at h' = value_at h"
    and cont: "\<And>j. pxContainer (node_at h' (Item j)) = (if j = i then Some l else pxContainer (node_at h (Item j)))"
    and lst: "list_at h' = (list_at h)(l := (list_at h l)\<lparr>uxNumberOfItems := uxNumberOfItems (list_at h l) + 1\<rparr>)"
  shows "list_rep L h' (s\<lparr>items := (items s)(l := ys @ i # zs), container := (container s)(i := Some l)\<rparr>)"
proof -
  note ok = list_repD(1) [OF rep]
  have mem: "x \<in> set (items s k) \<longleftrightarrow> container s x = Some k" for x k by (rule lists_okD(2) [OF ok])
  have new: "i \<notin> set (items s k)" for k using free by (simp add: mem)
  have ring: "seg h' (ListEnd l) (map Item ys @ Item i # map Item zs) (ListEnd l)"
  proof (rule seg_link [OF _ _ _ _ _ _ _ p q nx pv])
    show "seg h (ListEnd l) (map Item ys @ map Item zs) (ListEnd l)"
      using list_repD(5) [OF rep l] by (simp add: sp)
    show "distinct (map Item ys @ map Item zs)"
      using lists_okD(1) [OF ok, of l] by (auto simp: sp distinct_map inj_on_def)
    show "Item i \<notin> set (map Item ys @ map Item zs)" using new [of l] by (auto simp: sp)
  qed auto
  have pq: "p \<in> insert (ListEnd l) (Item ` set (items s l))"
    "q \<in> insert (ListEnd l) (Item ` set (items s l))"
    unfolding p q sp by (cases ys rule: rev_cases; auto) (cases zs; auto)
  have rest: "seg h' (ListEnd k) (map Item (items s k)) (ListEnd k)" if "k \<in> L" "k \<noteq> l" for k
  proof (rule other_ring [OF rep \<open>k \<in> L\<close>, where D = "{p, q, Item i}"])
    show "n \<noteq> ListEnd k \<and> n \<notin> Item ` set (items s k)" if "n \<in> {p, q, Item i}" for n
      using that pq \<open>k \<noteq> l\<close> new [of k] by (auto simp: mem)
  qed (auto simp: nx pv)
  show ?thesis
    unfolding list_rep_def
    using lists_ok_insert [OF ok free sp] ring rest rep l
    by (auto simp: vals cont lst sp list_rep_def)
qed

lemma boundary_nodes:
  "i \<notin> set zs \<Longrightarrow> hd (map Item zs @ [ListEnd l]) \<noteq> Item i"
  "i \<notin> set ys \<Longrightarrow> last (ListEnd l # map Item ys) \<noteq> Item i"
  by (cases zs; auto) (cases ys rule: rev_cases; auto)

lemma vListInsertEnd_rep:
  assumes rep: "list_rep L h s" and l: "l \<in> L" and ins: "insert_end l i s = Inr s'"
  shows "list_rep L (vListInsertEnd_h l i h) s'"
proof -
  from ins have free: "container s i = None"
    and s': "s' = s\<lparr>items := (items s)(l := put_before (items s l) (cursor s l) i),
                    container := (container s)(i := Some l)\<rparr>"
    by (auto simp: insert_end_def split: if_splits)
  have "cursor s l = None \<or> (\<exists>j. cursor s l = Some j \<and> j \<in> set (items s l))"
    using lists_okD [OF list_repD(1) [OF rep]] by (cases "cursor s l") auto
  from put_before_split [OF this, of i l] obtain ys zs where
    sp: "items s l = ys @ zs" and pb: "put_before (items s l) (cursor s l) i = ys @ i # zs"
    and q: "node_of l (cursor s l) = hd (map Item zs @ [ListEnd l])" by blast
  have ix: "pxIndex (list_at h l) = hd (map Item zs @ [ListEnd l])"
    using list_repD(8) [OF rep l] q by simp
  have pr: "previous_of h (hd (map Item zs @ [ListEnd l])) = last (ListEnd l # map Item ys)"
    using seg_boundary(2) [of h "ListEnd l" "map Item ys" "map Item zs" "ListEnd l"]
      list_repD(5) [OF rep l] by (simp add: sp)
  have "i \<notin> set ys" "i \<notin> set zs"
    using free lists_okD(2) [OF list_repD(1) [OF rep], of i l] by (auto simp: sp)
  then have "hd (map Item zs @ [ListEnd l]) \<noteq> Item i" "last (ListEnd l # map Item ys) \<noteq> Item i"
    by (simp_all add: boundary_nodes del: last.simps)
  then show ?thesis
    unfolding s' pb
    by (intro list_rep_link [OF rep l free sp refl refl])
       (auto simp: vListInsertEnd_h_def Let_def count_up_def ix pr fun_eq_iff simp del: last.simps)
qed

lemma link_after_rep:
  assumes rep: "list_rep L h s" and l: "l \<in> L" and free: "container s i = None"
    and sp: "items s l = ys @ zs"
  shows "list_rep L (link_after l i (last (ListEnd l # map Item ys)) h)
           (s\<lparr>items := (items s)(l := ys @ i # zs), container := (container s)(i := Some l)\<rparr>)"
proof -
  have nx: "next_of h (last (ListEnd l # map Item ys)) = hd (map Item zs @ [ListEnd l])"
    using seg_boundary(1) [of h "ListEnd l" "map Item ys" "map Item zs" "ListEnd l"]
      list_repD(5) [OF rep l] by (simp add: sp)
  have "i \<notin> set ys" "i \<notin> set zs"
    using free lists_okD(2) [OF list_repD(1) [OF rep], of i l] by (auto simp: sp)
  then have "hd (map Item zs @ [ListEnd l]) \<noteq> Item i" "last (ListEnd l # map Item ys) \<noteq> Item i"
    by (simp_all add: boundary_nodes del: last.simps)
  then show ?thesis
    by (intro list_rep_link [OF rep l free sp refl refl])
       (auto simp: link_after_def Let_def count_up_def nx fun_eq_iff simp del: last.simps)
qed

lemma max_delay_top: "v \<le> portMAX_DELAY"
proof -
  have "(- 1 :: u32) = portMAX_DELAY" by (simp add: portMAX_DELAY_def)
  then show ?thesis using word_n1_ge [of v] by (simp only:)
qed

lemma insert_walk_stops:
  assumes "seg h a (map Item xs) (ListEnd l)" "value_at h (ListEnd l) = portMAX_DELAY"
    and "v \<noteq> portMAX_DELAY"
  shows "insert_walk h v a =
           Some (last (a # map Item (takeWhile (\<lambda>x. value_at h (Item x) \<le> v) xs)))"
  using assms(1)
proof (induction xs arbitrary: a)
  case Nil
  have "v < portMAX_DELAY"
    using assms(3) max_delay_top [of v] by simp
  then have "\<not> portMAX_DELAY \<le> v" by (simp add: not_le)
  with Nil assms(2) show ?case by (subst insert_walk.simps) simp
next
  case (Cons x xs)
  then show ?case by (subst insert_walk.simps) simp
qed

lemma vListInsert_rep:
  assumes rep: "list_rep L h s" and l: "l \<in> L" and ins: "insert_sorted l i s = Inr s'"
  shows "\<exists>h'. vListInsert_h l i h = Inr h' \<and> list_rep L h' s'"
proof -
  let ?low = "\<lambda>x. item_value s x \<le> item_value s i"
  let ?ys = "takeWhile ?low (items s l)" and ?zs = "dropWhile ?low (items s l)"
  from ins have free: "container s i = None"
    and s': "s' = s\<lparr>items := (items s)(l := ?ys @ i # ?zs), container := (container s)(i := Some l)\<rparr>"
    by (auto simp: insert_sorted_def vListInsert_split split: if_splits)
  have val: "value_at h (Item x) = item_value s x" for x by (rule list_repD(2) [OF rep])
  have "vListInsert_h l i h = Inr (link_after l i (last (ListEnd l # map Item ?ys)) h)"
  proof (cases "item_value s i = portMAX_DELAY")
    case True
    then have all: "?ys = items s l" by (simp add: takeWhile_eq_all_conv max_delay_top)
    have "previous_of h (ListEnd l) = last (ListEnd l # map Item (items s l))"
      using seg_boundary(2) [of h "ListEnd l" "map Item (items s l)" "[]" "ListEnd l"]
        list_repD(5) [OF rep l] by simp
    then show ?thesis unfolding all using True by (simp add: vListInsert_h_def val del: last.simps)
  next
    case False
    from insert_walk_stops [OF list_repD(5) [OF rep l] list_repD(6) [OF rep l] this]
    show ?thesis using False by (simp add: vListInsert_h_def val del: last.simps)
  qed
  with link_after_rep [OF rep l free, of ?ys ?zs] show ?thesis unfolding s' by simp
qed

section \<open>Unlinking an item\<close>

lemma split_at_item:
  assumes "distinct xs" "i \<in> set xs"
  obtains ys zs where "xs = ys @ i # zs" "i \<notin> set ys" "i \<notin> set zs" "remove1 i xs = ys @ zs"
    "takeWhile (\<lambda>x. x \<noteq> i) xs = ys"
proof -
  from assms(2) obtain ys zs where xs: "xs = ys @ i # zs" "i \<notin> set ys" by (meson split_list_first)
  then have "takeWhile (\<lambda>x. x \<noteq> i) (ys @ i # zs) = ys" by (subst takeWhile_append2) auto
  with xs assms(1) show thesis by (intro that [of ys zs]) (auto simp: remove1_append)
qed

lemma item_before_node:
  assumes "takeWhile (\<lambda>x. x \<noteq> i) xs = ys"
  shows "node_of l (item_before xs i) = last (ListEnd l # map Item ys)"
  by (simp add: item_before_def assms last_map)

lemma uxListRemove_rep:
  assumes rep: "list_rep L h s" and rem: "remove_item i s = Inr (n, s')"
  shows "\<exists>h'. uxListRemove_h i h = Inr (of_nat n, h') \<and> list_rep L h' s'"
proof -
  let ?c = "\<lambda>l. if cursor s l = Some i then item_before (items s l) i else cursor s l"
  from rem obtain l where at: "container s i = Some l"
    and n: "n = length (remove1 i (items s l))"
    and s': "s' = s\<lparr>items := (items s)(l := remove1 i (items s l)),
                    cursor := (cursor s)(l := ?c l), container := (container s)(i := None)\<rparr>"
    by (auto simp: remove_item_def deref_eq_Inr_iff)
  note ok = list_repD(1) [OF rep] and l = list_repD(4) [OF rep at]
  have mem: "x \<in> set (items s k) \<longleftrightarrow> container s x = Some k" for x k by (rule lists_okD(2) [OF ok])
  obtain ys zs where sp: "items s l = ys @ i # zs" "i \<notin> set ys" "i \<notin> set zs"
    and rm: "remove1 i (items s l) = ys @ zs" and tw: "takeWhile (\<lambda>x. x \<noteq> i) (items s l) = ys"
    using lists_okD(1) [OF ok, of l] at by (auto simp: mem [symmetric] elim: split_at_item)
  let ?p = "last (ListEnd l # map Item ys)" and ?q = "hd (map Item zs @ [ListEnd l])"
  have seg: "seg h (ListEnd l) (map Item ys @ Item i # map Item zs) (ListEnd l)"
    using list_repD(5) [OF rep l] by (simp add: sp(1))
  have nxi: "next_of h (Item i) = ?q" and pvi: "previous_of h (Item i) = ?p"
    using seg_boundary(1) [of h "ListEnd l" "map Item ys @ [Item i]" "map Item zs" "ListEnd l"]
      seg_boundary(2) [of h "ListEnd l" "map Item ys" "Item i # map Item zs" "ListEnd l"] seg
    by simp_all
  have ne: "?q \<noteq> Item i" "?p \<noteq> Item i" using sp(2,3) by (simp_all add: boundary_nodes del: last.simps)
  obtain h' where run: "uxListRemove_h i h = Inr (uxNumberOfItems (list_at h l) - 1, h')"
    and nx: "next_of h' = (next_of h)(?p := ?q)" and pv: "previous_of h' = (previous_of h)(?q := ?p)"
    and vals: "value_at h' = value_at h"
    and cont: "\<And>j. pxContainer (node_at h' (Item j)) = (if j = i then None else pxContainer (node_at h (Item j)))"
    and lst: "list_at h' = (list_at h)(l := (list_at h l)\<lparr>uxNumberOfItems := uxNumberOfItems (list_at h l) - 1,
                pxIndex := if pxIndex (list_at h l) = Item i then ?p else pxIndex (list_at h l)\<rparr>)"
    using ne list_repD(3) [OF rep, of i] at
    by (auto simp: uxListRemove_h_def Let_def nxi pvi fun_eq_iff simp del: last.simps)
  have ring: "seg h' (ListEnd l) (map Item ys @ map Item zs) (ListEnd l)"
  proof (rule seg_unlink [OF seg _ _ _ refl refl, where x' = "next_of h (Item i)" and y' = "previous_of h (Item i)"])
    show "distinct (map Item ys @ Item i # map Item zs)"
      using lists_okD(1) [OF ok, of l] by (auto simp: sp distinct_map inj_on_def)
  qed (use ne in \<open>auto simp: nx pv fun_eq_iff simp del: last.simps\<close>)
  have pq: "?p \<in> insert (ListEnd l) (Item ` set (items s l))"
    "?q \<in> insert (ListEnd l) (Item ` set (items s l))"
    unfolding sp by (cases ys rule: rev_cases; auto) (cases zs; auto)
  have rest: "seg h' (ListEnd k) (map Item (items s k)) (ListEnd k)" if "k \<in> L" "k \<noteq> l" for k
  proof (rule other_ring [OF rep \<open>k \<in> L\<close>, where D = "{?p, ?q}"])
    show "n \<noteq> ListEnd k \<and> n \<notin> Item ` set (items s k)" if "n \<in> {?p, ?q}" for n
      using that pq \<open>k \<noteq> l\<close> by (auto simp: mem simp del: last.simps)
  qed (auto simp: nx pv simp del: last.simps)
  have idx: "(if pxIndex (list_at h l) = Item i then ?p else pxIndex (list_at h l)) = node_of l (?c l)"
    using list_repD(8) [OF rep l] item_before_node [OF tw, of l] by (cases "cursor s l") auto
  have okc: "?c l = None \<or> (\<exists>j. ?c l = Some j \<and> j \<noteq> i \<and> container s j = Some l)"
    using item_before_in [of "items s l" i] lists_okD(3) [OF ok, of l] by (cases "?c l") (auto simp: mem split: if_splits)
  have cnt: "uxNumberOfItems (list_at h l) - 1 = of_nat (length (remove1 i (items s l)))"
    unfolding rm using list_repD(7) [OF rep l] by (simp add: sp(1))
  have "list_rep L h' s'"
    unfolding list_rep_def s'
    using lists_ok_remove [OF ok at okc] ring rest rep l cnt
    by (auto simp: vals cont lst [unfolded idx] rm list_rep_def simp del: last.simps)
  with run cnt show ?thesis by (simp add: n)
qed

section \<open>Walking a list\<close>

lemma item_after_node:
  assumes "seg h (ListEnd l) (map Item xs) (ListEnd l)" "distinct xs"
    and "c = None \<or> (\<exists>j. c = Some j \<and> j \<in> set xs)"
  shows "next_of h (node_of l c) = node_of l (item_after xs c)"
proof (cases c)
  case None
  with assms(1) show ?thesis by (cases xs) (auto simp: item_after_def)
next
  case (Some j)
  with assms(3) obtain ys zs where xs: "xs = ys @ j # zs" "j \<notin> set ys" by (auto dest: split_list_first)
  then have "dropWhile (\<lambda>x. x \<noteq> j) xs = j # zs" by (subst xs(1), subst dropWhile_append2) auto
  moreover have "next_of h (Item j) = hd (map Item zs @ [ListEnd l])"
    using seg_boundary(1) [of h "ListEnd l" "map Item ys @ [Item j]" "map Item zs" "ListEnd l"] assms(1)
    by (simp add: xs(1))
  ultimately show ?thesis by (cases zs) (auto simp: Some item_after_def)
qed

lemma item_after_in: "item_after xs c = Some i \<Longrightarrow> i \<in> set xs"
  by (auto simp: item_after_def Let_def split: option.splits if_splits
      dest!: hd_in_set dest: list.set_sel(2) set_dropWhileD) (metis list.sel(2) list.set_sel(2) set_dropWhileD)

lemma cursor_in:
  assumes "lists_ok s"
  shows "cursor s l = None \<or> (\<exists>j. cursor s l = Some j \<and> j \<in> set (items s l))"
  using lists_okD(2,3) [OF assms] by (cases "cursor s l") auto

lemma list_rep_move_index:
  assumes rep: "list_rep L h s" and l: "l \<in> L" and c: "c = None \<or> (\<exists>j. c = Some j \<and> container s j = Some l)"
  shows "list_rep L (upd_list l (\<lambda>x. x\<lparr>pxIndex := node_of l c\<rparr>) h) (s\<lparr>cursor := (cursor s)(l := c)\<rparr>)"
proof -
  have "seg (upd_list l f h) a xs b = seg h a xs b" for f a xs b by (rule seg_frame) simp_all
  then show ?thesis using rep l c unfolding list_rep_def lists_ok_def by auto
qed

lemma next_entry_rep:
  assumes rep: "list_rep L h s" and l: "l \<in> L" and nxt: "next_entry l s = Inr (i, s')"
  shows "\<exists>h'. listGET_NEXT_ENTRY_h l h = Inr (i, h') \<and> list_rep L h' s'"
proof -
  note ok = list_repD(1) [OF rep]
  note step = item_after_node [OF list_repD(5) [OF rep l] lists_okD(1) [OF ok]]
  from nxt have found: "(case item_after (items s l) (cursor s l) of
       None \<Rightarrow> item_after (items s l) None | Some i \<Rightarrow> Some i) = Some i"
    and s': "s' = s\<lparr>cursor := (cursor s)(l := Some i)\<rparr>"
    by (auto simp: next_entry_def split: option.splits)
  have n1: "next_of h (pxIndex (list_at h l)) = node_of l (item_after (items s l) (cursor s l))"
    using step [OF cursor_in [OF ok]] list_repD(8) [OF rep l] by simp
  have n0: "next_of h (ListEnd l) = node_of l (item_after (items s l) None)" using step [of None] by simp
  have "listGET_NEXT_ENTRY_h l h = Inr (i, upd_list l (\<lambda>x. x\<lparr>pxIndex := node_of l (Some i)\<rparr>) h)"
    using found by (auto simp: listGET_NEXT_ENTRY_h_def Let_def n1 n0 split: option.splits)
  moreover have "container s i = Some l"
    using found lists_okD(2) [OF ok, of i l] by (auto split: option.splits dest: item_after_in)
  ultimately show ?thesis unfolding s' using list_rep_move_index [OF rep l, of "Some i"] by auto
qed

lemma reset_index_rep:
  assumes "list_rep L h s" "l \<in> L"
  shows "list_rep L (listRESET_INDEX_h l h) (reset_index l s)"
  using list_rep_move_index [OF assms, of None] by (simp add: listRESET_INDEX_h_def reset_index_def)

lemma head_entry_rep:
  assumes "list_rep L h s" "l \<in> L"
  shows "listGET_HEAD_ENTRY_h l h = node_of l (item_after (items s l) None)"
  using item_after_node [OF list_repD(5) [OF assms] lists_okD(1) [OF list_repD(1) [OF assms(1)]], of None]
  by (simp add: listGET_HEAD_ENTRY_h_def)

lemma is_empty_rep:
  assumes "list_rep L h s" "l \<in> L" "length (items s l) < 2 ^ 32"
  shows "listLIST_IS_EMPTY_h l h \<longleftrightarrow> items s l = []"
proof -
  have "(of_nat (length (items s l)) :: u32) = 0 \<longleftrightarrow> length (items s l) = 0"
    using assms(3) by (simp add: unat_eq_0 [symmetric] unat_of_nat take_bit_nat_eq_self del: unat_eq_0)
  then show ?thesis using list_repD(7) [OF assms(1,2)] by (simp add: listLIST_IS_EMPTY_h_def)
qed

lemma set_value_rep:
  assumes "list_rep L h s"
  shows "list_rep L (listSET_LIST_ITEM_VALUE_h i v h) (set_value i v s)"
proof -
  have same: "next_of (listSET_LIST_ITEM_VALUE_h i v h) = next_of h"
    "previous_of (listSET_LIST_ITEM_VALUE_h i v h) = previous_of h"
    "list_at (listSET_LIST_ITEM_VALUE_h i v h) = list_at h"
    by (auto simp: listSET_LIST_ITEM_VALUE_h_def heap_update_defs heap_access_defs fun_eq_iff)
  have "seg (listSET_LIST_ITEM_VALUE_h i v h) a xs b = seg h a xs b" for a xs b
    by (rule seg_frame) (simp_all add: same)
  then show ?thesis
    using assms unfolding list_rep_def
    by (auto simp: same set_value_def lists_ok_def value_at_def listSET_LIST_ITEM_VALUE_h_def upd_node_def)
qed

section \<open>Initialised lists\<close>

definition no_lists :: "('i \<Rightarrow> u32) \<Rightarrow> ('i, 'l) lists" where
  "no_lists v = \<lparr>items = (\<lambda>_. []), cursor = (\<lambda>_. None), item_value = v, container = (\<lambda>_. None)\<rparr>"

lemma initialise_rep:
  assumes rep: "list_rep L h s" and new: "items s l = []" "cursor s l = None"
  shows "list_rep (insert l L) (vListInitialise_h l h) s"
proof -
  let ?h = "vListInitialise_h l h"
  have reads: "next_of ?h = (next_of h)(ListEnd l := ListEnd l)"
    "previous_of ?h = (previous_of h)(ListEnd l := ListEnd l)"
    "value_at ?h = (value_at h)(ListEnd l := portMAX_DELAY)"
    "list_at ?h = (list_at h)(l := (list_at h l)\<lparr>uxNumberOfItems := 0, pxIndex := ListEnd l\<rparr>)"
    "\<And>i. pxContainer (node_at ?h (Item i)) = pxContainer (node_at h (Item i))"
    by (auto simp: vListInitialise_h_def heap_update_defs heap_access_defs fun_eq_iff)
  have "seg ?h (ListEnd k) (map Item (items s k)) (ListEnd k)" if "k \<in> L" "k \<noteq> l" for k
    by (rule other_ring [OF rep \<open>k \<in> L\<close>, where D = "{ListEnd l}"]) (use that in \<open>auto simp: reads\<close>)
  then show ?thesis
    using rep new unfolding list_rep_def by (auto simp: reads)
qed

fun initialise_lists :: "'l list \<Rightarrow> ('i, 'l) list_heap \<Rightarrow> ('i, 'l) list_heap" where
  "initialise_lists [] h = h"
| "initialise_lists (l # ls) h = vListInitialise_h l (initialise_lists ls h)"

lemma initialise_lists_rep:
  assumes "\<And>i. pxContainer (node_at h (Item i)) = None"
  shows "list_rep (set ls) (initialise_lists ls h) (no_lists (\<lambda>i. value_at h (Item i)))"
proof (induction ls)
  case Nil
  then show ?case using assms by (simp add: list_rep_def no_lists_def lists_ok_def)
next
  case (Cons l ls)
  then show ?case using initialise_rep [OF Cons.IH, of l] by (simp add: no_lists_def)
qed

section \<open>Sequences of calls\<close>

text \<open>A component whose steps are matched, with the same results, by those of another.\<close>

fun run_calls :: "('c \<Rightarrow> 's \<Rightarrow> ('r \<times> 's) res) \<Rightarrow> 'c list \<Rightarrow> 's \<Rightarrow> ('r list \<times> 's) res" where
  "run_calls step [] s = Inr ([], s)"
| "run_calls step (c # cs) s =
     bind_res (step c s) (\<lambda>(r, s').
     bind_res (run_calls step cs s') (\<lambda>(rs, s''). Inr (r # rs, s'')))"

locale simulation =
  fixes rel :: "'h \<Rightarrow> 's \<Rightarrow> bool"
    and impl :: "'c \<Rightarrow> 'h \<Rightarrow> ('r \<times> 'h) res"
    and spec :: "'c \<Rightarrow> 's \<Rightarrow> ('r \<times> 's) res"
  assumes step_sim: "rel h s \<Longrightarrow> spec c s = Inr (r, s') \<Longrightarrow> \<exists>h'. impl c h = Inr (r, h') \<and> rel h' s'"
begin

lemma run_sim:
  assumes "rel h s" "run_calls spec cs s = Inr (rs, s')"
  shows "\<exists>h'. run_calls impl cs h = Inr (rs, h') \<and> rel h' s'"
  using assms
proof (induction cs arbitrary: h s rs)
  case (Cons c cs)
  from Cons.prems(2) obtain r s1 rs' where "spec c s = Inr (r, s1)"
    and rest: "run_calls spec cs s1 = Inr (rs', s')" and rs: "rs = r # rs'"
    by (auto simp: bind_res_eq_Inr_iff split: prod.splits)
  with step_sim Cons.prems(1) obtain h1 where "impl c h = Inr (r, h1)" "rel h1 s1" by blast
  with Cons.IH [OF _ rest] rs show ?case by fastforce
qed simp

end

datatype ('i, 'l) list_call =
    InsertEnd 'l 'i
  | InsertSorted 'l 'i
  | RemoveItem 'i
  | SetValue 'i u32
  | NextEntry 'l
  | ResetIndex 'l
  | HeadEntry 'l

datatype 'i list_answer = Nothing | Count u32 | Entry "'i option"

definition entry_of :: "('i, 'l) node \<Rightarrow> 'i list_answer" where
  "entry_of n = Entry (case n of Item i \<Rightarrow> Some i | ListEnd _ \<Rightarrow> None)"

fun list_call_h :: "('i, 'l) list_call \<Rightarrow> ('i, 'l) list_heap \<Rightarrow> ('i list_answer \<times> ('i, 'l) list_heap) res" where
  "list_call_h (InsertEnd l i) h = Inr (Nothing, vListInsertEnd_h l i h)"
| "list_call_h (InsertSorted l i) h = bind_res (vListInsert_h l i h) (\<lambda>h'. Inr (Nothing, h'))"
| "list_call_h (RemoveItem i) h = bind_res (uxListRemove_h i h) (\<lambda>(n, h'). Inr (Count n, h'))"
| "list_call_h (SetValue i v) h = Inr (Nothing, listSET_LIST_ITEM_VALUE_h i v h)"
| "list_call_h (NextEntry l) h = bind_res (listGET_NEXT_ENTRY_h l h) (\<lambda>(i, h'). Inr (Entry (Some i), h'))"
| "list_call_h (ResetIndex l) h = Inr (Nothing, listRESET_INDEX_h l h)"
| "list_call_h (HeadEntry l) h = Inr (entry_of (listGET_HEAD_ENTRY_h l h), h)"

text \<open>The same calls on sequences; a call on a list that was not initialised is an error.\<close>

fun list_call_spec :: "'l list \<Rightarrow> ('i, 'l) list_call \<Rightarrow> ('i, 'l) lists \<Rightarrow> ('i list_answer \<times> ('i, 'l) lists) res" where
  "list_call_spec L (InsertEnd l i) s =
     (if l \<in> set L then bind_res (insert_end l i s) (\<lambda>s'. Inr (Nothing, s')) else Inl List_corrupted)"
| "list_call_spec L (InsertSorted l i) s =
     (if l \<in> set L then bind_res (insert_sorted l i s) (\<lambda>s'. Inr (Nothing, s')) else Inl List_corrupted)"
| "list_call_spec L (RemoveItem i) s = bind_res (remove_item i s) (\<lambda>(n, s'). Inr (Count (of_nat n), s'))"
| "list_call_spec L (SetValue i v) s = Inr (Nothing, set_value i v s)"
| "list_call_spec L (NextEntry l) s =
     (if l \<in> set L then bind_res (next_entry l s) (\<lambda>(i, s'). Inr (Entry (Some i), s')) else Inl List_corrupted)"
| "list_call_spec L (ResetIndex l) s = (if l \<in> set L then Inr (Nothing, reset_index l s) else Inl List_corrupted)"
| "list_call_spec L (HeadEntry l) s =
     (if l \<in> set L then Inr (Entry (item_after (items s l) None), s) else Inl List_corrupted)"

interpretation ring_lists: simulation
  "list_rep (set L) :: ('i, 'l) list_heap \<Rightarrow> ('i, 'l) lists \<Rightarrow> bool" list_call_h "list_call_spec L"
  for L :: "'l list"
proof
  fix h :: "('i, 'l) list_heap" and s :: "('i, 'l) lists" and c r s'
  assume rep: "list_rep (set L) h s" and step: "list_call_spec L c s = Inr (r, s')"
  show "\<exists>h'. list_call_h c h = Inr (r, h') \<and> list_rep (set L) h' s'"
  proof (cases c)
    case (HeadEntry l)
    with step show ?thesis
      using head_entry_rep [OF rep, of l] rep
      by (cases "item_after (items s l) None") (auto simp: entry_of_def split: if_splits)
  next
    case (InsertEnd l i)
    with step show ?thesis by (auto simp: bind_res_eq_Inr_iff intro: vListInsertEnd_rep [OF rep] split: if_splits)
  next
    case (InsertSorted l i)
    with step obtain "l \<in> set L" "insert_sorted l i s = Inr s'" "r = Nothing"
      by (auto simp: bind_res_eq_Inr_iff split: if_splits)
    with vListInsert_rep [OF rep this(1,2)] InsertSorted show ?thesis by auto
  next
    case (RemoveItem i)
    with step obtain n where "remove_item i s = Inr (n, s')" "r = Count (of_nat n)"
      by (auto simp: bind_res_eq_Inr_iff)
    with uxListRemove_rep [OF rep this(1)] RemoveItem show ?thesis by auto
  next
    case (NextEntry l)
    with step obtain i where "l \<in> set L" "next_entry l s = Inr (i, s')" "r = Entry (Some i)"
      by (auto simp: bind_res_eq_Inr_iff split: if_splits)
    with next_entry_rep [OF rep this(1,2)] NextEntry show ?thesis by auto
  qed (use step set_value_rep [OF rep] reset_index_rep [OF rep] in \<open>auto split: if_splits\<close>)
qed

text \<open>
  C7. The pointer operations of the kernel's lists behave as operations on sequences. Take any heap in
  which no item is in a list, initialise the lists \<^term>\<open>ls\<close>, and perform any calls: appending at the
  walking index, inserting in value order, removing, reading the head or the next entry, resetting
  the index, changing a value. As long as no call links an item that is still in a list, removes one
  that is in none or reads the owner of an empty list, every call returns on the rings what it
  returns on the sequences (the search of \<^verbatim>\<open>vListInsert\<close> ends), and afterwards every list is a ring
  of exactly the items of its sequence, linked in both directions, with the right count.
\<close>

theorem list_calls_refine:
  assumes "\<And>i. pxContainer (node_at h (Item i)) = None"
    and "run_calls (list_call_spec ls) cs (no_lists (\<lambda>i. value_at h (Item i))) = Inr (rs, s)"
  shows "\<exists>h'. run_calls list_call_h cs (initialise_lists ls h) = Inr (rs, h') \<and> list_rep (set ls) h' s"
  by (rule ring_lists.run_sim [OF initialise_lists_rep [OF assms(1)] assms(2)])

definition demo_heap :: "(nat, nat) list_heap" where
  "demo_heap = \<lparr>node_at = (\<lambda>n. \<lparr>xItemValue = 0, pxNext = n, pxPrevious = n, pxContainer = None\<rparr>),
                list_at = (\<lambda>l. \<lparr>uxNumberOfItems = 7, pxIndex = ListEnd l\<rparr>)\<rparr>"

definition demo_calls :: "(nat, nat) list_call list" where
  "demo_calls = [SetValue 1 30, SetValue 2 10, SetValue 3 20, InsertSorted 0 1, InsertSorted 0 2,
                 InsertSorted 0 3, HeadEntry 0, RemoveItem 2, InsertEnd 1 2, NextEntry 0, NextEntry 0,
                 NextEntry 0, InsertEnd 0 5]"

lemma list_calls_refine_witness:
  "\<exists>h' (s :: (nat, nat) lists). run_calls list_call_h demo_calls (initialise_lists [0, 1] demo_heap) =
       Inr ([Nothing, Nothing, Nothing, Nothing, Nothing, Nothing, Entry (Some 2), Count 2, Nothing,
             Entry (Some 3), Entry (Some 1), Entry (Some 3), Nothing], h') \<and>
     list_rep {0, 1} h' s \<and> items s 0 = [5, 3, 1] \<and> items s 1 = [2]"
proof -
  obtain s where run: "run_calls (list_call_spec [0, 1]) demo_calls (no_lists (\<lambda>i. value_at demo_heap (Item i))) =
       Inr ([Nothing, Nothing, Nothing, Nothing, Nothing, Nothing, Entry (Some 2), Count 2, Nothing,
             Entry (Some 3), Entry (Some 1), Entry (Some 3), Nothing], s)"
    and its: "items s 0 = [5, 3, 1]" "items s 1 = [2]"
    by (simp add: demo_calls_def no_lists_def value_at_def demo_heap_def insert_sorted_def insert_end_def
        set_value_def remove_item_def next_entry_def item_after_def item_before_def put_before_def)
  have "pxContainer (node_at demo_heap (Item i)) = None" for i by (simp add: demo_heap_def)
  from list_calls_refine [OF this run] obtain h' where
    "run_calls list_call_h demo_calls (initialise_lists [0, 1] demo_heap) =
       Inr ([Nothing, Nothing, Nothing, Nothing, Nothing, Nothing, Entry (Some 2), Count 2, Nothing,
             Entry (Some 3), Entry (Some 1), Entry (Some 3), Nothing], h')"
    "list_rep {0, 1} h' s" by auto
  with its show ?thesis by blast
qed

end
