(* ===== verification/Scheduler.thy ===== *)
theory Scheduler
  imports KernelList
begin

text \<open>
  The scheduler of the two-core kernel (\<^verbatim>\<open>freertos/FreeRTOS-Kernel/tasks.c\<close>, with the tick handler of
  core 1 in \<^verbatim>\<open>esp_additions/freertos_tasks_c_additions.h\<close> and the cross-core yield of
  \<^verbatim>\<open>esp_system/crosscore_int.c\<close>) in the configuration of the firmware: \<^verbatim>\<open>configNUMBER_OF_CORES = 2\<close>,
  preemption and time slicing on, generic task selection, no tickless idle, no tick hook. Every
  operation runs inside a critical section that holds the kernel lock, so each is one step of the
  model (\<^verbatim>\<open>vTaskDelete\<close> and the idle task's clean-up release the lock in between, where they only free
  memory and yield). A yield is the cross-core interrupt the code raises (\<^verbatim>\<open>reason[core]\<close>): it is taken by a later
  step on that core. Stacks, names and the saved context of a task are not part of the state.
\<close>

section \<open>Data\<close>

datatype core = Core0 | Core1

fun other :: "core \<Rightarrow> core" where
  "other Core0 = Core1"
| "other Core1 = Core0"

text \<open>The two list items embedded in a task control block, and the lists of the kernel.\<close>

datatype item = StateItem task | EventItem task

fun owner :: "item \<Rightarrow> task" where
  "owner (StateItem t) = t"
| "owner (EventItem t) = t"

datatype list_id =
    ReadyTasks nat
  | DelayedTaskList1
  | DelayedTaskList2
  | PendingReady core
  | TasksWaitingTermination
  | SuspendedTaskList
  | EventList nat

datatype notify_state =
    taskNOT_WAITING_NOTIFICATION
  | taskWAITING_NOTIFICATION
  | taskNOTIFICATION_RECEIVED

text \<open>\<^verbatim>\<open>tskNO_AFFINITY\<close> is \<^term>\<open>None\<close>.\<close>

record tskTCB =
  uxPriority :: u32
  uxBasePriority :: u32
  uxMutexesHeld :: u32
  xCoreID :: "core option"
  ulNotifiedValue :: u32
  ucNotifyState :: notify_state
  ucDelayAborted :: bool

text \<open>
  The file-level variables of \<^verbatim>\<open>tasks.c\<close>. The lists, their cursors and the item values and containers
  are those of the parent record; \<^term>\<open>tcb_live\<close> tells which control blocks are allocated, \<^term>\<open>reason\<close>
  which cores have a yield interrupt pending.
\<close>

record sched = "(item, list_id) lists" +
  pxCurrentTCBs :: "core \<Rightarrow> task option"
  tcb :: "task \<Rightarrow> tskTCB"
  tcb_live :: "task \<Rightarrow> bool"
  pxDelayedTaskList :: list_id
  pxOverflowDelayedTaskList :: list_id
  uxDeletedTasksWaitingCleanUp :: u32
  uxCurrentNumberOfTasks :: u32
  xTickCount :: u32
  uxTopReadyPriority :: u32
  xSchedulerRunning :: bool
  xPendedTicks :: u32
  xYieldPending :: "core \<Rightarrow> bool"
  xNumOfOverflows :: u32
  uxTaskNumber :: u32
  xNextTaskUnblockTime :: u32
  xIdleTaskHandle :: "core \<Rightarrow> task option"
  uxSchedulerSuspended :: "core \<Rightarrow> u32"
  reason :: "core \<Rightarrow> bool"

type_synonym TaskHandle_t = "task option"

definition prio :: "sched \<Rightarrow> task \<Rightarrow> u32" where
  "prio s t = uxPriority (tcb s t)"

definition upd_task :: "task \<Rightarrow> (tskTCB \<Rightarrow> tskTCB) \<Rightarrow> sched \<Rightarrow> sched" where
  "upd_task t f s = s\<lparr>tcb := (tcb s)(t := f (tcb s t))\<rparr>"

definition set_yield_pending :: "core \<Rightarrow> bool \<Rightarrow> sched \<Rightarrow> sched" where
  "set_yield_pending c b s = s\<lparr>xYieldPending := (xYieldPending s)(c := b)\<rparr>"

definition current :: "core \<Rightarrow> sched \<Rightarrow> task res" where
  "current c s = deref (pxCurrentTCBs s c)"

text \<open>An index outside \<^verbatim>\<open>pxReadyTasksLists[configMAX_PRIORITIES]\<close> is an access out of bounds.\<close>

definition ready_list :: "u32 \<Rightarrow> list_id res" where
  "ready_list p = (if p < configMAX_PRIORITIES then Inr (ReadyTasks (unat p)) else Inl Out_of_bounds)"

section \<open>Yields\<close>

text \<open>\<^verbatim>\<open>portYIELD_CORE\<close> and \<^verbatim>\<open>portYIELD_WITHIN_API\<close> both raise the cross-core interrupt.\<close>

definition esp_crosscore_int_send_yield :: "core \<Rightarrow> sched \<Rightarrow> sched" where
  "esp_crosscore_int_send_yield c s = s\<lparr>reason := (reason s)(c := True)\<rparr>"

definition taskIS_AFFINITY_COMPATIBLE :: "core \<Rightarrow> sched \<Rightarrow> task \<Rightarrow> bool" where
  "taskIS_AFFINITY_COMPATIBLE c s t \<longleftrightarrow> xCoreID (tcb s t) = Some c \<or> xCoreID (tcb s t) = None"

definition taskIS_CURRENTLY_RUNNING :: "sched \<Rightarrow> task \<Rightarrow> bool" where
  "taskIS_CURRENTLY_RUNNING s t \<longleftrightarrow> pxCurrentTCBs s Core0 = Some t \<or> pxCurrentTCBs s Core1 = Some t"

definition taskIS_SCHEDULER_SUSPENDED :: "core \<Rightarrow> sched \<Rightarrow> bool" where
  "taskIS_SCHEDULER_SUSPENDED c s \<longleftrightarrow> xSchedulerRunning s \<and> uxSchedulerSuspended s c \<noteq> 0"

definition yields_core :: "core \<Rightarrow> task \<Rightarrow> u32 \<Rightarrow> sched \<Rightarrow> bool res" where
  "yields_core c t p s =
     (if taskIS_AFFINITY_COMPATIBLE c s t
      then bind_res (current c s) (\<lambda>b. Inr (prio s b < p \<and> uxSchedulerSuspended s c = 0))
      else Inr False)"

definition prvIsYieldRequiredSMP :: "core \<Rightarrow> task \<Rightarrow> u32 \<Rightarrow> bool \<Rightarrow> sched \<Rightarrow> (bool \<times> sched) res" where
  "prvIsYieldRequiredSMP c t uxTaskPriority xYieldEqualPriority s =
     assert_res (uxTaskPriority < configMAX_PRIORITIES)
      (let p = (if xYieldEqualPriority then uxTaskPriority + 1 else uxTaskPriority) in
       bind_res (yields_core c t p s) (\<lambda>here.
         if here then Inr (True, s)
         else bind_res (yields_core (other c) t p s) (\<lambda>there.
           Inr (False, if there then esp_crosscore_int_send_yield (other c) s else s))))"

definition prvCheckTaskCanBeScheduledSMP :: "sched \<Rightarrow> task \<Rightarrow> bool" where
  "prvCheckTaskCanBeScheduledSMP s t =
     (case xCoreID (tcb s t) of
        None \<Rightarrow> uxSchedulerSuspended s Core0 = 0 \<or> uxSchedulerSuspended s Core1 = 0
      | Some c \<Rightarrow> uxSchedulerSuspended s c = 0)"

section \<open>Moving tasks between lists\<close>

definition taskRECORD_READY_PRIORITY :: "u32 \<Rightarrow> sched \<Rightarrow> sched" where
  "taskRECORD_READY_PRIORITY p s = (if uxTopReadyPriority s < p then s\<lparr>uxTopReadyPriority := p\<rparr> else s)"

definition prvAddTaskToReadyList :: "task \<Rightarrow> sched \<Rightarrow> sched res" where
  "prvAddTaskToReadyList t s =
     (let s1 = taskRECORD_READY_PRIORITY (prio s t) s in
      bind_res (ready_list (prio s t)) (\<lambda>l. insert_end l (StateItem t) s1))"

definition remove_state :: "task \<Rightarrow> sched \<Rightarrow> sched res" where
  "remove_state t s = bind_res (remove_item (StateItem t) s) (\<lambda>(_, s'). Inr s')"

text \<open>\<^verbatim>\<open>if( listLIST_ITEM_CONTAINER( &( pxTCB->xEventListItem ) ) != NULL ) uxListRemove( ... )\<close>\<close>

definition unlink_event :: "task \<Rightarrow> sched \<Rightarrow> sched res" where
  "unlink_event t s =
     (if container s (EventItem t) \<noteq> None
      then bind_res (remove_item (EventItem t) s) (\<lambda>(_, s'). Inr s') else Inr s)"

definition prvResetNextTaskUnblockTime :: "sched \<Rightarrow> sched" where
  "prvResetNextTaskUnblockTime s =
     (case items s (pxDelayedTaskList s) of
        [] \<Rightarrow> s\<lparr>xNextTaskUnblockTime := portMAX_DELAY\<rparr>
      | i # _ \<Rightarrow> s\<lparr>xNextTaskUnblockTime := item_value s i\<rparr>)"

definition taskSWITCH_DELAYED_LISTS :: "sched \<Rightarrow> sched res" where
  "taskSWITCH_DELAYED_LISTS s =
     assert_res (items s (pxDelayedTaskList s) = [])
      (Inr (prvResetNextTaskUnblockTime
             (s\<lparr>pxDelayedTaskList := pxOverflowDelayedTaskList s,
                pxOverflowDelayedTaskList := pxDelayedTaskList s,
                xNumOfOverflows := xNumOfOverflows s + 1\<rparr>)))"

definition prvAddCurrentTaskToDelayedList :: "core \<Rightarrow> u32 \<Rightarrow> bool \<Rightarrow> sched \<Rightarrow> sched res" where
  "prvAddCurrentTaskToDelayedList c xTicksToWait xCanBlockIndefinitely s =
     bind_res (current c s) (\<lambda>t.
       if container s (StateItem t) = Some TasksWaitingTermination then Inr s
       else
         bind_res (remove_state t (upd_task t (\<lambda>b. b\<lparr>ucDelayAborted := False\<rparr>) s)) (\<lambda>s1.
           if xTicksToWait = portMAX_DELAY \<and> xCanBlockIndefinitely
           then insert_end SuspendedTaskList (StateItem t) s1
           else
             let xTimeToWake = xTickCount s + xTicksToWait;
                 s2 = set_value (StateItem t) xTimeToWake s1
             in if xTimeToWake < xTickCount s
                then insert_sorted (pxOverflowDelayedTaskList s2) (StateItem t) s2
                else bind_res (insert_sorted (pxDelayedTaskList s2) (StateItem t) s2) (\<lambda>s3.
                       Inr (if xTimeToWake < xNextTaskUnblockTime s3
                            then s3\<lparr>xNextTaskUnblockTime := xTimeToWake\<rparr> else s3))))"

section \<open>Choosing the task to run\<close>

text \<open>
  The inner loop of \<^verbatim>\<open>prvSelectHighestPriorityTaskSMP\<close> over one ready list, from the task \<^term>\<open>cur\<close> that
  the walk has reached until it is back at \<^term>\<open>first\<close>. The fuel is the length of the list.
\<close>

fun walk_ready_list :: "nat \<Rightarrow> core \<Rightarrow> list_id \<Rightarrow> task \<Rightarrow> task \<Rightarrow> sched \<Rightarrow> (bool \<times> sched) res" where
  "walk_ready_list 0 c l first cur s = Inl Diverges"
| "walk_ready_list (Suc n) c l first cur s =
     (if pxCurrentTCBs s (other c) = Some cur \<or> \<not> taskIS_AFFINITY_COMPATIBLE c s cur
      then bind_res (next_entry l s) (\<lambda>(i, s').
             if owner i = first then Inr (False, s')
             else walk_ready_list n c l first (owner i) s')
      else bind_res (remove_state cur (reset_index l (s\<lparr>pxCurrentTCBs := (pxCurrentTCBs s)(c := Some cur)\<rparr>)))
             (\<lambda>s1. bind_res (insert_end l (StateItem cur) s1) (\<lambda>s2. Inr (True, s2))))"

definition search_priority :: "core \<Rightarrow> list_id \<Rightarrow> sched \<Rightarrow> (bool \<times> sched) res" where
  "search_priority c l s =
     bind_res (next_entry l (reset_index l s)) (\<lambda>(i, s1).
       walk_ready_list (length (items s l)) c l (owner i) (owner i) s1)"

text \<open>The outer loop, from a priority down to 0; \<^term>\<open>top_set\<close> is \<^verbatim>\<open>xNewTopPrioritySet\<close>.\<close>

fun search_from :: "core \<Rightarrow> nat \<Rightarrow> bool \<Rightarrow> sched \<Rightarrow> (bool \<times> sched) res" where
  "search_from c p top_set s =
     bind_res (ready_list (of_nat p)) (\<lambda>l.
       if items s l = []
       then (if p = 0 then Inr (False, s) else search_from c (p - 1) top_set s)
       else bind_res (search_priority c l (if top_set then s else s\<lparr>uxTopReadyPriority := of_nat p\<rparr>))
              (\<lambda>(found, s'). if found \<or> p = 0 then Inr (found, s') else search_from c (p - 1) True s'))"

declare search_from.simps [simp del]

definition prvSelectHighestPriorityTaskSMP :: "core \<Rightarrow> sched \<Rightarrow> sched res" where
  "prvSelectHighestPriorityTaskSMP c s =
     bind_res (search_from c (unat (uxTopReadyPriority s)) False s) (\<lambda>(found, s').
       assert_res found (Inr s'))"

definition vTaskSwitchContext :: "core \<Rightarrow> sched \<Rightarrow> sched res" where
  "vTaskSwitchContext c s =
     (if uxSchedulerSuspended s c \<noteq> 0 then Inr (set_yield_pending c True s)
      else prvSelectHighestPriorityTaskSMP c (set_yield_pending c False s))"

text \<open>The interrupt behind a yield: \<^verbatim>\<open>portYIELD_FROM_ISR\<close> switches context when the handler returns.\<close>

definition esp_crosscore_isr :: "core \<Rightarrow> sched \<Rightarrow> sched res" where
  "esp_crosscore_isr c s =
     (if reason s c then vTaskSwitchContext c (s\<lparr>reason := (reason s)(c := False)\<rparr>) else Inr s)"

section \<open>The tick\<close>

text \<open>What \<^verbatim>\<open>xTaskIncrementTick\<close> does about preemption for a task it has made ready.\<close>

definition tick_preempt :: "task \<Rightarrow> bool \<Rightarrow> sched \<Rightarrow> (bool \<times> sched) res" where
  "tick_preempt t xSwitchRequired s =
     (if taskIS_AFFINITY_COMPATIBLE Core0 s t
      then bind_res (current Core0 s) (\<lambda>b0.
             if prio s b0 < prio s t then Inr (True, s)
             else if xCoreID (tcb s t) = None
             then bind_res (current Core1 s) (\<lambda>b1.
                    Inr (xSwitchRequired, if prio s b1 < prio s t then set_yield_pending Core1 True s else s))
             else Inr (xSwitchRequired, s))
      else bind_res (current Core1 s) (\<lambda>b1.
             Inr (xSwitchRequired, if prio s b1 < prio s t then set_yield_pending Core1 True s else s)))"

text \<open>
  The loop over the delayed list. Every turn but the last takes a task out of the list, so one more
  than its length is enough fuel.
\<close>

fun unblock_expired :: "nat \<Rightarrow> u32 \<Rightarrow> bool \<Rightarrow> sched \<Rightarrow> (bool \<times> sched) res" where
  "unblock_expired 0 now sw s = Inl Diverges"
| "unblock_expired (Suc n) now sw s =
     (case items s (pxDelayedTaskList s) of
        [] \<Rightarrow> Inr (sw, s\<lparr>xNextTaskUnblockTime := portMAX_DELAY\<rparr>)
      | i # _ \<Rightarrow>
          let t = owner i; xItemValue = item_value s (StateItem t) in
          if now < xItemValue then Inr (sw, s\<lparr>xNextTaskUnblockTime := xItemValue\<rparr>)
          else bind_res (remove_state t s) (\<lambda>s1.
               bind_res (unlink_event t s1) (\<lambda>s2.
               bind_res (prvAddTaskToReadyList t s2) (\<lambda>s3.
               bind_res (tick_preempt t sw s3) (\<lambda>(sw', s4).
                 unblock_expired n now sw' s4)))))"

definition time_slice :: "core \<Rightarrow> sched \<Rightarrow> bool res" where
  "time_slice c s =
     bind_res (current c s) (\<lambda>b.
     bind_res (ready_list (prio s b)) (\<lambda>l. Inr (1 < length (items s l))))"

definition xTaskIncrementTick :: "core \<Rightarrow> sched \<Rightarrow> (bool \<times> sched) res" where
  "xTaskIncrementTick c s =
     assert_res (c = Core0)
      (if uxSchedulerSuspended s Core0 = 0
       then let xConstTickCount = xTickCount s + 1;
                s1 = s\<lparr>xTickCount := xConstTickCount\<rparr>
            in bind_res (if xConstTickCount = 0 then taskSWITCH_DELAYED_LISTS s1 else Inr s1) (\<lambda>s2.
               bind_res (if xNextTaskUnblockTime s2 \<le> xConstTickCount
                         then unblock_expired (Suc (length (items s2 (pxDelayedTaskList s2))))
                                xConstTickCount False s2
                         else Inr (False, s2)) (\<lambda>(sw, s3).
               bind_res (time_slice Core0 s3) (\<lambda>slice.
                 Inr (sw \<or> slice \<or> xYieldPending s3 Core0, s3))))
       else Inr (False, s\<lparr>xPendedTicks := xPendedTicks s + 1\<rparr>))"

definition xTaskIncrementTickOtherCores :: "core \<Rightarrow> sched \<Rightarrow> (bool \<times> sched) res" where
  "xTaskIncrementTickOtherCores c s =
     assert_res (c \<noteq> Core0)
      (if uxSchedulerSuspended s c = 0
       then bind_res (time_slice c s) (\<lambda>slice. Inr (slice \<or> xYieldPending s c, s))
       else Inr (False, s))"

text \<open>The systick interrupt of a core, up to the context switch at its exit.\<close>

definition xPortSysTickHandler :: "core \<Rightarrow> sched \<Rightarrow> sched res" where
  "xPortSysTickHandler c s =
     bind_res (if c = Core0 then xTaskIncrementTick c s else xTaskIncrementTickOtherCores c s)
      (\<lambda>(xSwitchRequired, s'). if xSwitchRequired then vTaskSwitchContext c s' else Inr s')"

section \<open>Suspending the scheduler\<close>

definition vTaskSuspendAll :: "core \<Rightarrow> sched \<Rightarrow> sched" where
  "vTaskSuspendAll c s =
     s\<lparr>uxSchedulerSuspended := (uxSchedulerSuspended s)(c := uxSchedulerSuspended s c + 1)\<rparr>"

text \<open>
  The loop that empties the pending list of a core; one turn per task, so the length of the list is
  enough fuel. The result tells whether a task was moved (\<^verbatim>\<open>pxTCB != NULL\<close>).
\<close>

fun move_pending :: "nat \<Rightarrow> core \<Rightarrow> bool \<Rightarrow> sched \<Rightarrow> (bool \<times> sched) res" where
  "move_pending n c moved s =
     (case items s (PendingReady c) of
        [] \<Rightarrow> Inr (moved, s)
      | i # _ \<Rightarrow>
          (case n of 0 \<Rightarrow> Inl Diverges
           | Suc m \<Rightarrow>
               let t = owner i in
               bind_res (remove_item (EventItem t) s) (\<lambda>(_, s1).
               bind_res (remove_state t s1) (\<lambda>s2.
               bind_res (prvAddTaskToReadyList t s2) (\<lambda>s3.
               bind_res (prvIsYieldRequiredSMP c t (prio s3 t) True s3) (\<lambda>(y, s4).
                 move_pending m c True (if y then set_yield_pending c True s4 else s4)))))))"

declare move_pending.simps [simp del]

primrec unwind_ticks :: "nat \<Rightarrow> core \<Rightarrow> sched \<Rightarrow> sched res" where
  "unwind_ticks 0 c s = Inr s"
| "unwind_ticks (Suc n) c s =
     bind_res (xTaskIncrementTick c s) (\<lambda>(sw, s').
       unwind_ticks n c (if sw then set_yield_pending c True s' else s'))"

definition xTaskResumeAll :: "core \<Rightarrow> sched \<Rightarrow> (bool \<times> sched) res" where
  "xTaskResumeAll c s =
     assert_res (taskIS_SCHEDULER_SUSPENDED c s)
      (let s1 = s\<lparr>uxSchedulerSuspended := (uxSchedulerSuspended s)(c := uxSchedulerSuspended s c - 1)\<rparr> in
       if uxSchedulerSuspended s1 c = 0 \<and> 0 < uxCurrentNumberOfTasks s1
       then bind_res (move_pending (length (items s1 (PendingReady c))) c False s1) (\<lambda>(moved, s2).
            let s3 = (if moved then prvResetNextTaskUnblockTime s2 else s2) in
            bind_res (if c = Core0 \<and> 0 < xPendedTicks s3
                      then bind_res (unwind_ticks (unat (xPendedTicks s3)) c s3)
                             (\<lambda>s4. Inr (s4\<lparr>xPendedTicks := 0\<rparr>))
                      else Inr s3) (\<lambda>s5.
              Inr (if xYieldPending s5 c then (True, esp_crosscore_int_send_yield c s5) else (False, s5))))
       else Inr (False, s1))"

definition xTaskCatchUpTicks :: "core \<Rightarrow> u32 \<Rightarrow> sched \<Rightarrow> (bool \<times> sched) res" where
  "xTaskCatchUpTicks c xTicksToCatchUp s =
     assert_res (\<not> taskIS_SCHEDULER_SUSPENDED c s)
      (let s1 = vTaskSuspendAll c s in
       xTaskResumeAll c (s1\<lparr>xPendedTicks := xPendedTicks s1 + xTicksToCatchUp\<rparr>))"

section \<open>Delays\<close>

definition vTaskDelay_smp :: "core \<Rightarrow> u32 \<Rightarrow> sched \<Rightarrow> sched res" where
  "vTaskDelay_smp c xTicksToDelay s =
     bind_res (if 0 < xTicksToDelay
               then assert_res (\<not> taskIS_SCHEDULER_SUSPENDED c s)
                      (prvAddCurrentTaskToDelayedList c xTicksToDelay False s)
               else Inr s) (\<lambda>s1.
       Inr (esp_crosscore_int_send_yield c s1))"

text \<open>Returns \<^verbatim>\<open>xShouldDelay\<close> and the updated wake time.\<close>

definition xTaskDelayUntil :: "core \<Rightarrow> u32 option \<Rightarrow> u32 \<Rightarrow> sched \<Rightarrow> (bool \<times> u32 \<times> sched) res" where
  "xTaskDelayUntil c pxPreviousWakeTime xTimeIncrement s =
     (case pxPreviousWakeTime of
        None \<Rightarrow> Inl Assert_failed
      | Some prev \<Rightarrow>
          assert_res (0 < xTimeIncrement)
          (assert_res (\<not> taskIS_SCHEDULER_SUSPENDED c s)
           (let now = xTickCount s;
                xTimeToWake = prev + xTimeIncrement;
                xShouldDelay = (if now < prev then xTimeToWake < prev \<and> now < xTimeToWake
                                else xTimeToWake < prev \<or> now < xTimeToWake)
            in bind_res (if xShouldDelay then prvAddCurrentTaskToDelayedList c (xTimeToWake - now) False s
                         else Inr s) (\<lambda>s1.
                 Inr (xShouldDelay, xTimeToWake, esp_crosscore_int_send_yield c s1)))))"

datatype eTaskState = eRunning | eReady | eBlocked | eSuspended | eDeleted | eInvalid

definition eTaskGetState :: "TaskHandle_t \<Rightarrow> sched \<Rightarrow> eTaskState res" where
  "eTaskGetState xTask s =
     (case xTask of
        None \<Rightarrow> Inl Assert_failed
      | Some t \<Rightarrow> Inr
          (if taskIS_CURRENTLY_RUNNING s t then eRunning
           else let l = container s (StateItem t) in
             if l = Some (pxDelayedTaskList s) \<or> l = Some (pxOverflowDelayedTaskList s) then eBlocked
             else if l = Some SuspendedTaskList
             then (if container s (EventItem t) = None
                   then (if ucNotifyState (tcb s t) = taskWAITING_NOTIFICATION then eBlocked else eSuspended)
                   else eBlocked)
             else if l = Some TasksWaitingTermination \<or> l = None then eDeleted
             else eReady))"

definition xTaskAbortDelay :: "core \<Rightarrow> TaskHandle_t \<Rightarrow> sched \<Rightarrow> (bool \<times> sched) res" where
  "xTaskAbortDelay c xTask s =
     bind_res (eTaskGetState xTask s) (\<lambda>st.
     bind_res (deref xTask) (\<lambda>t.
       if st = eBlocked
       then bind_res (remove_state t s) (\<lambda>s1.
            bind_res (unlink_event t s1) (\<lambda>s2.
            let s3 = (if container s1 (EventItem t) \<noteq> None
                      then upd_task t (\<lambda>b. b\<lparr>ucDelayAborted := True\<rparr>) s2 else s2) in
            bind_res (prvAddTaskToReadyList t s3) (\<lambda>s4.
            bind_res (prvIsYieldRequiredSMP c t (prio s4 t) False s4) (\<lambda>(y, s5).
              Inr (True, if y then set_yield_pending c True s5 else s5)))))
       else Inr (False, s)))"

section \<open>Suspending and resuming tasks\<close>

definition prvGetTCBFromHandle :: "core \<Rightarrow> TaskHandle_t \<Rightarrow> sched \<Rightarrow> task res" where
  "prvGetTCBFromHandle c pxHandle s = (case pxHandle of None \<Rightarrow> current c s | Some t \<Rightarrow> Inr t)"

definition stop_waiting_notification :: "tskTCB \<Rightarrow> tskTCB" where
  "stop_waiting_notification b =
     (if ucNotifyState b = taskWAITING_NOTIFICATION
      then b\<lparr>ucNotifyState := taskNOT_WAITING_NOTIFICATION\<rparr> else b)"

text \<open>The end of \<^verbatim>\<open>vTaskSuspend\<close>: switching away from a task that is running on this or the other core.\<close>

definition leave_suspended :: "core \<Rightarrow> task \<Rightarrow> sched \<Rightarrow> sched res" where
  "leave_suspended c t s =
     (if pxCurrentTCBs s c = Some t
      then if xSchedulerRunning s
           then assert_res (uxSchedulerSuspended s c = 0) (Inr (esp_crosscore_int_send_yield c s))
           else if of_nat (length (items s SuspendedTaskList)) = uxCurrentNumberOfTasks s
           then Inr (s\<lparr>pxCurrentTCBs := (pxCurrentTCBs s)(c := None)\<rparr>)
           else vTaskSwitchContext c s
      else if pxCurrentTCBs s (other c) = Some t
      then if xSchedulerRunning s then Inr (esp_crosscore_int_send_yield (other c) s)
           else Inr (s\<lparr>pxCurrentTCBs := (pxCurrentTCBs s)(other c := None)\<rparr>)
      else Inr s)"

definition vTaskSuspend :: "core \<Rightarrow> TaskHandle_t \<Rightarrow> sched \<Rightarrow> sched res" where
  "vTaskSuspend c xTaskToSuspend s =
     bind_res (prvGetTCBFromHandle c xTaskToSuspend s) (\<lambda>t.
     bind_res (remove_state t s) (\<lambda>s1.
     bind_res (unlink_event t s1) (\<lambda>s2.
     bind_res (insert_end SuspendedTaskList (StateItem t) s2) (\<lambda>s3.
       let s4 = upd_task t stop_waiting_notification s3;
           s5 = (if xSchedulerRunning s4 then prvResetNextTaskUnblockTime s4 else s4)
       in leave_suspended c t s5))))"

definition prvTaskIsTaskSuspended :: "task \<Rightarrow> sched \<Rightarrow> bool" where
  "prvTaskIsTaskSuspended t s \<longleftrightarrow>
     container s (StateItem t) = Some SuspendedTaskList \<and>
     container s (EventItem t) \<noteq> Some (PendingReady Core0) \<and>
     container s (EventItem t) \<noteq> Some (PendingReady Core1) \<and>
     container s (EventItem t) = None"

definition vTaskResume :: "core \<Rightarrow> TaskHandle_t \<Rightarrow> sched \<Rightarrow> sched res" where
  "vTaskResume c xTaskToResume s =
     (case xTaskToResume of
        None \<Rightarrow> Inl Assert_failed
      | Some t \<Rightarrow>
          if \<not> taskIS_CURRENTLY_RUNNING s t \<and> prvTaskIsTaskSuspended t s
          then bind_res (remove_state t s) (\<lambda>s1.
               bind_res (prvAddTaskToReadyList t s1) (\<lambda>s2.
               bind_res (prvIsYieldRequiredSMP c t (prio s2 t) True s2) (\<lambda>(y, s3).
                 Inr (if y then esp_crosscore_int_send_yield c s3 else s3))))
          else Inr s)"

definition xTaskResumeFromISR :: "core \<Rightarrow> TaskHandle_t \<Rightarrow> sched \<Rightarrow> (bool \<times> sched) res" where
  "xTaskResumeFromISR c xTaskToResume s =
     (case xTaskToResume of
        None \<Rightarrow> Inl Assert_failed
      | Some t \<Rightarrow>
          if prvTaskIsTaskSuspended t s
          then if prvCheckTaskCanBeScheduledSMP s t
               then bind_res (prvIsYieldRequiredSMP c t (prio s t) True s) (\<lambda>(y, s1).
                    let s2 = (if y then set_yield_pending c True s1 else s1) in
                    bind_res (remove_state t s2) (\<lambda>s3.
                    bind_res (prvAddTaskToReadyList t s3) (\<lambda>s4. Inr (y, s4))))
               else bind_res (insert_end (PendingReady c) (EventItem t) s) (\<lambda>s1. Inr (False, s1))
          else Inr (False, s))"

section \<open>Priorities\<close>

text \<open>Moves a task that is in the ready list of its old priority to that of its new one.\<close>

definition requeue_ready :: "u32 \<Rightarrow> task \<Rightarrow> sched \<Rightarrow> sched res" where
  "requeue_ready old t s =
     bind_res (ready_list old) (\<lambda>l.
       if container s (StateItem t) = Some l
       then bind_res (remove_state t s) (prvAddTaskToReadyList t) else Inr s)"

definition reset_event_value :: "task \<Rightarrow> u32 \<Rightarrow> sched \<Rightarrow> sched" where
  "reset_event_value t p s =
     (if item_value s (EventItem t) AND taskEVENT_LIST_ITEM_VALUE_IN_USE = 0
      then set_value (EventItem t) (configMAX_PRIORITIES - p) s else s)"

definition vTaskPrioritySet :: "core \<Rightarrow> TaskHandle_t \<Rightarrow> u32 \<Rightarrow> sched \<Rightarrow> sched res" where
  "vTaskPrioritySet c xTask uxNewPriority s =
     assert_res (uxNewPriority < configMAX_PRIORITIES)
      (bind_res (prvGetTCBFromHandle c xTask s) (\<lambda>t.
        let base = uxBasePriority (tcb s t) in
        if base \<noteq> uxNewPriority
        then bind_res
              (if base < uxNewPriority
               then (if taskIS_CURRENTLY_RUNNING s t then Inr (False, s)
                     else prvIsYieldRequiredSMP c t uxNewPriority True s)
               else if pxCurrentTCBs s c = Some t then Inr (True, s)
               else if pxCurrentTCBs s (other c) = Some t
               then Inr (False, esp_crosscore_int_send_yield (other c) s)
               else Inr (False, s)) (\<lambda>(xYieldRequired, s1).
             let old = prio s1 t;
                 s2 = upd_task t (\<lambda>b. (if uxBasePriority b = uxPriority b then b\<lparr>uxPriority := uxNewPriority\<rparr> else b)
                                      \<lparr>uxBasePriority := uxNewPriority\<rparr>) s1
             in bind_res (requeue_ready old t (reset_event_value t uxNewPriority s2)) (\<lambda>s3.
                  Inr (if xYieldRequired then esp_crosscore_int_send_yield c s3 else s3)))
        else Inr s))"

definition xTaskPriorityInherit_smp :: "core \<Rightarrow> TaskHandle_t \<Rightarrow> sched \<Rightarrow> (bool \<times> sched) res" where
  "xTaskPriorityInherit_smp c pxMutexHolder s =
     (case pxMutexHolder of
        None \<Rightarrow> Inr (False, s)
      | Some h \<Rightarrow>
          bind_res (current c s) (\<lambda>cur.
            let p = prio s cur in
            if prio s h < p
            then let s1 = reset_event_value h p s in
                 bind_res (ready_list (prio s1 h)) (\<lambda>l.
                   if container s1 (StateItem h) = Some l
                   then bind_res (remove_state h s1) (\<lambda>s2.
                        bind_res (prvAddTaskToReadyList h (upd_task h (\<lambda>b. b\<lparr>uxPriority := p\<rparr>) s2)) (\<lambda>s3.
                          Inr (True, s3)))
                   else Inr (True, upd_task h (\<lambda>b. b\<lparr>uxPriority := p\<rparr>) s1))
            else Inr (uxBasePriority (tcb s h) < p, s)))"

definition xTaskPriorityDisinherit_smp :: "core \<Rightarrow> TaskHandle_t \<Rightarrow> sched \<Rightarrow> (bool \<times> sched) res" where
  "xTaskPriorityDisinherit_smp c pxMutexHolder s =
     (case pxMutexHolder of
        None \<Rightarrow> Inr (False, s)
      | Some t \<Rightarrow>
          assert_res (pxCurrentTCBs s c = Some t)
          (assert_res (uxMutexesHeld (tcb s t) \<noteq> 0)
           (let s1 = upd_task t (\<lambda>b. b\<lparr>uxMutexesHeld := uxMutexesHeld b - 1\<rparr>) s;
                b = tcb s1 t
            in if uxPriority b \<noteq> uxBasePriority b \<and> uxMutexesHeld b = 0
               then bind_res (remove_state t s1) (\<lambda>s2.
                    let s3 = upd_task t (\<lambda>b. b\<lparr>uxPriority := uxBasePriority b\<rparr>) s2 in
                    bind_res (prvAddTaskToReadyList t
                       (set_value (EventItem t) (configMAX_PRIORITIES - prio s3 t) s3)) (\<lambda>s4.
                      Inr (True, s4)))
               else Inr (False, s1))))"

definition vTaskPriorityDisinheritAfterTimeout_smp :: "core \<Rightarrow> TaskHandle_t \<Rightarrow> u32 \<Rightarrow> sched \<Rightarrow> sched res" where
  "vTaskPriorityDisinheritAfterTimeout_smp c pxMutexHolder uxHighestPriorityWaitingTask s =
     (case pxMutexHolder of
        None \<Rightarrow> Inr s
      | Some t \<Rightarrow>
          assert_res (uxMutexesHeld (tcb s t) \<noteq> 0)
          (let b = tcb s t;
               use = (if uxBasePriority b < uxHighestPriorityWaitingTask
                      then uxHighestPriorityWaitingTask else uxBasePriority b)
           in if uxPriority b \<noteq> use \<and> uxMutexesHeld b = 1
              then assert_res (pxCurrentTCBs s c \<noteq> Some t)
                     (requeue_ready (uxPriority b) t
                        (reset_event_value t use (upd_task t (\<lambda>b. b\<lparr>uxPriority := use\<rparr>) s)))
              else Inr s))"

section \<open>Waiting for events\<close>

definition vTaskPlaceOnEventList_smp :: "core \<Rightarrow> nat \<Rightarrow> u32 \<Rightarrow> sched \<Rightarrow> sched res" where
  "vTaskPlaceOnEventList_smp c pxEventList xTicksToWait s =
     bind_res (current c s) (\<lambda>t.
     bind_res (insert_sorted (EventList pxEventList) (EventItem t) s)
      (prvAddCurrentTaskToDelayedList c xTicksToWait True))"

definition vTaskPlaceOnEventListRestricted :: "core \<Rightarrow> nat \<Rightarrow> u32 \<Rightarrow> bool \<Rightarrow> sched \<Rightarrow> sched res" where
  "vTaskPlaceOnEventListRestricted c pxEventList xTicksToWait xWaitIndefinitely s =
     bind_res (current c s) (\<lambda>t.
     bind_res (insert_end (EventList pxEventList) (EventItem t) s)
      (prvAddCurrentTaskToDelayedList c (if xWaitIndefinitely then portMAX_DELAY else xTicksToWait)
         xWaitIndefinitely))"

definition xTaskRemoveFromEventList_smp :: "core \<Rightarrow> nat \<Rightarrow> sched \<Rightarrow> (bool \<times> sched) res" where
  "xTaskRemoveFromEventList_smp c pxEventList s =
     (case items s (EventList pxEventList) of
        [] \<Rightarrow> Inr (False, s)
      | i # _ \<Rightarrow>
          let t = owner i in
          bind_res (remove_item (EventItem t) s) (\<lambda>(_, s1).
          bind_res (if prvCheckTaskCanBeScheduledSMP s1 t
                    then bind_res (remove_state t s1) (prvAddTaskToReadyList t)
                    else let pend = (case xCoreID (tcb s1 t) of None \<Rightarrow> c | Some k \<Rightarrow> k) in
                         assert_res (uxSchedulerSuspended s1 pend \<noteq> 0)
                          (insert_end (PendingReady pend) (EventItem t) s1)) (\<lambda>s2.
          bind_res (prvIsYieldRequiredSMP c t (prio s2 t) False s2) (\<lambda>(y, s3).
            Inr (if y then (True, set_yield_pending c True s3) else (False, s3))))))"

section \<open>Creating and deleting tasks\<close>

definition kernel_list :: "list_id \<Rightarrow> bool" where
  "kernel_list l =
     (case l of ReadyTasks p \<Rightarrow> p < unat configMAX_PRIORITIES | EventList _ \<Rightarrow> False | _ \<Rightarrow> True)"

definition prvInitialiseTaskLists :: "sched \<Rightarrow> sched" where
  "prvInitialiseTaskLists s =
     s\<lparr>items := (\<lambda>l. if kernel_list l then [] else items s l),
       cursor := (\<lambda>l. if kernel_list l then None else cursor s l),
       pxDelayedTaskList := DelayedTaskList1,
       pxOverflowDelayedTaskList := DelayedTaskList2\<rparr>"

text \<open>The control block is zeroed before (\<^verbatim>\<open>memset\<close>) by both callers.\<close>

definition prvInitialiseNewTask :: "task \<Rightarrow> u32 \<Rightarrow> core option \<Rightarrow> sched \<Rightarrow> sched res" where
  "prvInitialiseNewTask t p core s =
     assert_res (p < configMAX_PRIORITIES)
      (Inr (s\<lparr>tcb := (tcb s)(t := \<lparr>uxPriority = p, uxBasePriority = p, uxMutexesHeld = 0, xCoreID = core,
                ulNotifiedValue = 0, ucNotifyState = taskNOT_WAITING_NOTIFICATION, ucDelayAborted = False\<rparr>),
              tcb_live := (tcb_live s)(t := True),
              container := (container s)(StateItem t := None, EventItem t := None),
              item_value := (item_value s)(StateItem t := 0, EventItem t := configMAX_PRIORITIES - p)\<rparr>))"

text \<open>Which core, if any, takes a new task as its current one.\<close>

definition adopt_new_task :: "task \<Rightarrow> sched \<Rightarrow> sched" where
  "adopt_new_task t s =
     (let set_cur = (\<lambda>c. s\<lparr>pxCurrentTCBs := (pxCurrentTCBs s)(c := Some t)\<rparr>);
          beats = (\<lambda>c. taskIS_AFFINITY_COMPATIBLE c s t \<and>
                       (case pxCurrentTCBs s c of None \<Rightarrow> False | Some b \<Rightarrow> prio s b \<le> prio s t))
      in if pxCurrentTCBs s Core0 = None \<and> taskIS_AFFINITY_COMPATIBLE Core0 s t then set_cur Core0
         else if pxCurrentTCBs s Core1 = None \<and> taskIS_AFFINITY_COMPATIBLE Core1 s t then set_cur Core1
         else if xSchedulerRunning s then s
         else if beats Core0 then set_cur Core0
         else if beats Core1 then set_cur Core1
         else s)"

definition prvAddNewTaskToReadyList :: "core \<Rightarrow> task \<Rightarrow> sched \<Rightarrow> sched res" where
  "prvAddNewTaskToReadyList c t s =
     (let s1 = s\<lparr>uxCurrentNumberOfTasks := uxCurrentNumberOfTasks s + 1\<rparr>;
          s2 = (if uxCurrentNumberOfTasks s1 = 1 then prvInitialiseTaskLists s1 else s1);
          s3 = adopt_new_task t s2;
          s4 = s3\<lparr>uxTaskNumber := uxTaskNumber s3 + 1\<rparr>
      in bind_res (prvAddTaskToReadyList t s4) (\<lambda>s5.
           if xSchedulerRunning s5
           then bind_res (prvIsYieldRequiredSMP c t (prio s5 t) True s5) (\<lambda>(y, s6).
                  Inr (if y then esp_crosscore_int_send_yield c s6 else s6))
           else Inr s5))"

text \<open>
  The memory for the stack and the control block comes from the heap: \<^term>\<open>stack\<close> tells whether the
  first allocation succeeds, \<^term>\<open>block\<close> is the result of the second. Failures return
  \<^verbatim>\<open>errCOULD_NOT_ALLOCATE_REQUIRED_MEMORY\<close> (\<^term>\<open>False\<close>), the stack having been freed.
\<close>

definition xTaskCreatePinnedToCore ::
  "core \<Rightarrow> bool \<Rightarrow> task option \<Rightarrow> u32 \<Rightarrow> core option \<Rightarrow> sched \<Rightarrow> (bool \<times> sched) res" where
  "xTaskCreatePinnedToCore c stack block p core s =
     (case (if stack then block else None) of
        None \<Rightarrow> Inr (False, s)
      | Some t \<Rightarrow>
          bind_res (prvInitialiseNewTask t p core s) (\<lambda>s1.
          bind_res (prvAddNewTaskToReadyList c t s1) (\<lambda>s2. Inr (True, s2))))"

definition prvDeleteTCB :: "task \<Rightarrow> sched \<Rightarrow> sched" where
  "prvDeleteTCB t s = s\<lparr>tcb_live := (tcb_live s)(t := False)\<rparr>"

definition vTaskDelete :: "core \<Rightarrow> TaskHandle_t \<Rightarrow> sched \<Rightarrow> sched res" where
  "vTaskDelete c xTaskToDelete s =
     bind_res (prvGetTCBFromHandle c xTaskToDelete s) (\<lambda>t.
     bind_res (remove_state t s) (\<lambda>s1.
     bind_res (unlink_event t s1) (\<lambda>s2.
       let s3 = s2\<lparr>uxTaskNumber := uxTaskNumber s2 + 1\<rparr> in
       if pxCurrentTCBs s3 c = Some t \<or> pxCurrentTCBs s3 (other c) = Some t
       then bind_res (insert_end TasksWaitingTermination (StateItem t) s3) (\<lambda>s4.
              let s5 = s4\<lparr>uxDeletedTasksWaitingCleanUp := uxDeletedTasksWaitingCleanUp s4 + 1\<rparr> in
              if pxCurrentTCBs s3 c = Some t
              then if xSchedulerRunning s5
                   then assert_res (\<not> taskIS_SCHEDULER_SUSPENDED c s5) (Inr (esp_crosscore_int_send_yield c s5))
                   else Inr s5
              else Inr (esp_crosscore_int_send_yield (other c) s5))
       else Inr (prvDeleteTCB t (prvResetNextTaskUnblockTime
                  (s3\<lparr>uxCurrentNumberOfTasks := uxCurrentNumberOfTasks s3 - 1\<rparr>))))))"

text \<open>
  The idle task frees what is waiting for it. The loop of \<^verbatim>\<open>prvCheckTasksWaitingTermination\<close> takes a
  turn per deleted task and stops when every one left is still running.
\<close>

primrec check_termination :: "nat \<Rightarrow> sched \<Rightarrow> sched res" where
  "check_termination 0 s = Inr s"
| "check_termination (Suc n) s =
     (case filter (\<lambda>i. \<not> taskIS_CURRENTLY_RUNNING s (owner i)) (items s TasksWaitingTermination) of
        [] \<Rightarrow> Inr s
      | i # _ \<Rightarrow>
          let t = owner i in
          bind_res (remove_state t s) (\<lambda>s1.
            check_termination n
              (prvDeleteTCB t (s1\<lparr>uxCurrentNumberOfTasks := uxCurrentNumberOfTasks s1 - 1,
                 uxDeletedTasksWaitingCleanUp := uxDeletedTasksWaitingCleanUp s1 - 1\<rparr>))))"

definition prvCheckTasksWaitingTermination :: "sched \<Rightarrow> sched res" where
  "prvCheckTasksWaitingTermination s = check_termination (unat (uxDeletedTasksWaitingCleanUp s)) s"

section \<open>Starting\<close>

text \<open>
  The idle tasks and the timer service task are created in static memory, so that nothing can fail;
  \<^term>\<open>idle\<close> and \<^term>\<open>tmr\<close> are the addresses of their control blocks
  (\<^verbatim>\<open>vApplicationGetIdleTaskMemory\<close>, \<^verbatim>\<open>vApplicationGetTimerTaskMemory\<close>).
\<close>

definition xTaskCreateStaticPinnedToCore :: "core \<Rightarrow> task \<Rightarrow> u32 \<Rightarrow> core option \<Rightarrow> sched \<Rightarrow> sched res" where
  "xTaskCreateStaticPinnedToCore c t p core s =
     bind_res (prvInitialiseNewTask t p core s) (prvAddNewTaskToReadyList c t)"

definition prvCreateIdleTasks :: "core \<Rightarrow> (core \<Rightarrow> task) \<Rightarrow> sched \<Rightarrow> sched res" where
  "prvCreateIdleTasks c idle s =
     bind_res (xTaskCreateStaticPinnedToCore c (idle Core0) 0 (Some Core0) s) (\<lambda>s1.
     bind_res (xTaskCreateStaticPinnedToCore c (idle Core1) 0 (Some Core1)
                (s1\<lparr>xIdleTaskHandle := (xIdleTaskHandle s1)(Core0 := Some (idle Core0))\<rparr>)) (\<lambda>s2.
       Inr (s2\<lparr>xIdleTaskHandle := (xIdleTaskHandle s2)(Core1 := Some (idle Core1))\<rparr>)))"

definition vTaskStartScheduler :: "core \<Rightarrow> (core \<Rightarrow> task) \<Rightarrow> task \<Rightarrow> sched \<Rightarrow> sched res" where
  "vTaskStartScheduler c idle tmr s =
     bind_res (prvCreateIdleTasks c idle s) (\<lambda>s1.
     bind_res (xTaskCreateStaticPinnedToCore c tmr 1 None s1) (\<lambda>s2.
       Inr (s2\<lparr>xNextTaskUnblockTime := portMAX_DELAY, xSchedulerRunning := True, xTickCount := 0\<rparr>)))"

text \<open>
  The kernel's variables as the program starts: zeroed, no task allocated. The content of control
  blocks and of list structures that were never initialised is arbitrary.
\<close>

definition reset_state ::
  "(task \<Rightarrow> tskTCB) \<Rightarrow> (item \<Rightarrow> u32) \<Rightarrow> sched" where
  "reset_state mem vals =
     \<lparr>items = (\<lambda>_. []), cursor = (\<lambda>_. None), item_value = vals, container = (\<lambda>_. None),
      pxCurrentTCBs = (\<lambda>_. None), tcb = mem, tcb_live = (\<lambda>_. False),
      pxDelayedTaskList = DelayedTaskList1, pxOverflowDelayedTaskList = DelayedTaskList2,
      uxDeletedTasksWaitingCleanUp = 0, uxCurrentNumberOfTasks = 0, xTickCount = 0,
      uxTopReadyPriority = 0, xSchedulerRunning = False, xPendedTicks = 0,
      xYieldPending = (\<lambda>_. False), xNumOfOverflows = 0, uxTaskNumber = 0,
      xNextTaskUnblockTime = 0, xIdleTaskHandle = (\<lambda>_. None), uxSchedulerSuspended = (\<lambda>_. 0),
      reason = (\<lambda>_. False)\<rparr>"

text \<open>\<^verbatim>\<open>esp_startup_start_app\<close>: the main task (priority 1, core 0), then the scheduler.\<close>

definition esp_startup_start_app :: "task \<Rightarrow> (core \<Rightarrow> task) \<Rightarrow> task \<Rightarrow> sched \<Rightarrow> sched res" where
  "esp_startup_start_app main idle tmr s =
     bind_res (xTaskCreatePinnedToCore Core0 True (Some main) 1 (Some Core0) s) (\<lambda>(r, s1).
       assert_res r (vTaskStartScheduler Core0 idle tmr s1))"

end
