(* ===== verification/SchedulerInv.thy ===== *)
theory SchedulerInv
  imports Scheduler
begin

text \<open>
  The invariant of the scheduler and the steps that keep it. The invariant says where the two list
  items of every task may be, how the delayed lists relate to the tick count, that every core has
  an idle task to fall back on, and that a core whose current task is no longer ready has a switch
  pending. The last section runs the kernel from its start: every permitted call returns, and the
  invariant holds ever after.
\<close>

section \<open>The invariant\<close>

definition is_ready :: "list_id option \<Rightarrow> bool" where
  "is_ready l \<longleftrightarrow> (\<exists>p. l = Some (ReadyTasks p))"

definition is_blocked :: "list_id option \<Rightarrow> bool" where
  "is_blocked l \<longleftrightarrow> l \<in> {Some DelayedTaskList1, Some DelayedTaskList2, Some SuspendedTaskList}"

lemma list_kinds [simp]:
  "is_ready (Some (ReadyTasks p))" "\<not> is_ready None" "\<not> is_ready (Some SuspendedTaskList)"
  "\<not> is_ready (Some TasksWaitingTermination)" "\<not> is_ready (Some DelayedTaskList1)"
  "\<not> is_ready (Some DelayedTaskList2)" "is_blocked (Some DelayedTaskList1)"
  "is_blocked (Some DelayedTaskList2)" "is_blocked (Some SuspendedTaskList)" "\<not> is_blocked None"
  "\<not> is_blocked (Some (ReadyTasks p))" "\<not> is_blocked (Some TasksWaitingTermination)"
  by (auto simp: is_ready_def is_blocked_def)

text \<open>State items are ready, blocked or deleted; event items wait for an event or for a core.\<close>

definition typed :: "sched \<Rightarrow> bool" where
  "typed s \<longleftrightarrow>
     (\<forall>t. container s (StateItem t) = None \<or> is_ready (container s (StateItem t)) \<or>
          is_blocked (container s (StateItem t)) \<or>
          container s (StateItem t) = Some TasksWaitingTermination) \<and>
     (\<forall>t l. container s (EventItem t) = Some l \<longrightarrow>
          (\<exists>e. l = EventList e) \<or> (\<exists>c. l = PendingReady c))"

text \<open>A ready task is in the list of its priority, which is not above the recorded top priority.\<close>

definition ready_ok :: "sched \<Rightarrow> bool" where
  "ready_ok s \<longleftrightarrow> uxTopReadyPriority s < configMAX_PRIORITIES \<and>
     (\<forall>t p. container s (StateItem t) = Some (ReadyTasks p) \<longrightarrow>
            p = unat (prio s t) \<and> prio s t \<le> uxTopReadyPriority s)"

text \<open>Exactly the allocated tasks are in a state list; their priorities are in range.\<close>

definition live_ok :: "sched \<Rightarrow> bool" where
  "live_ok s \<longleftrightarrow> (\<forall>t. tcb_live s t \<longleftrightarrow> container s (StateItem t) \<noteq> None) \<and>
     (\<forall>t. tcb_live s t \<longrightarrow> prio s t < configMAX_PRIORITIES \<and> uxBasePriority (tcb s t) < configMAX_PRIORITIES)"

text \<open>Only a blocked task waits for an event.\<close>

definition wait_ok :: "sched \<Rightarrow> bool" where
  "wait_ok s \<longleftrightarrow> (\<forall>t. container s (EventItem t) \<noteq> None \<longrightarrow> is_blocked (container s (StateItem t)))"

text \<open>
  Wake times in the current delayed list lie ahead of the tick count and not before the next unblock
  time; those in the overflow list lie behind it.
\<close>

definition delay_ok :: "sched \<Rightarrow> bool" where
  "delay_ok s \<longleftrightarrow>
     ((pxDelayedTaskList s = DelayedTaskList1 \<and> pxOverflowDelayedTaskList s = DelayedTaskList2) \<or>
      (pxDelayedTaskList s = DelayedTaskList2 \<and> pxOverflowDelayedTaskList s = DelayedTaskList1)) \<and>
     (\<forall>t. container s (StateItem t) = Some (pxDelayedTaskList s) \<longrightarrow>
          xTickCount s < item_value s (StateItem t) \<and> xNextTaskUnblockTime s \<le> item_value s (StateItem t)) \<and>
     (\<forall>t. container s (StateItem t) = Some (pxOverflowDelayedTaskList s) \<longrightarrow>
          item_value s (StateItem t) < xTickCount s)"

text \<open>The idle task of a core is pinned to it and always ready.\<close>

definition idle_ok :: "sched \<Rightarrow> bool" where
  "idle_ok s \<longleftrightarrow> (\<forall>c. \<exists>t. xIdleTaskHandle s c = Some t \<and> xCoreID (tcb s t) = Some c \<and>
                       is_ready (container s (StateItem t)))"

text \<open>
  Both cores run a task of their own; if it is no longer ready, a switch is pending: the interrupt has
  been raised, or the next tick of that core (or the end of its suspension) will do it.
\<close>

definition switch_due :: "sched \<Rightarrow> core \<Rightarrow> bool" where
  "switch_due s c \<longleftrightarrow> reason s c \<or> xYieldPending s c"

definition cur_ok :: "sched \<Rightarrow> bool" where
  "cur_ok s \<longleftrightarrow> xSchedulerRunning s \<and> pxCurrentTCBs s Core0 \<noteq> pxCurrentTCBs s Core1 \<and>
     (\<forall>c. \<exists>t. pxCurrentTCBs s c = Some t \<and> tcb_live s t \<and> taskIS_AFFINITY_COMPATIBLE c s t \<and>
              (is_ready (container s (StateItem t)) \<or> switch_due s c))"

text \<open>A task waits in the pending list of a core only while that core's scheduler is suspended.\<close>

definition pend_ok :: "sched \<Rightarrow> bool" where
  "pend_ok s \<longleftrightarrow> (\<forall>t c. container s (EventItem t) = Some (PendingReady c) \<longrightarrow> uxSchedulerSuspended s c \<noteq> 0)"

definition count_ok :: "sched \<Rightarrow> bool" where
  "count_ok s \<longleftrightarrow> finite {t. tcb_live s t} \<and> card {t. tcb_live s t} < 2 ^ 32 \<and>
     uxCurrentNumberOfTasks s = of_nat (card {t. tcb_live s t}) \<and>
     uxDeletedTasksWaitingCleanUp s =
       of_nat (card {t. container s (StateItem t) = Some TasksWaitingTermination})"

text \<open>Everything but the delays and the order of the lists.\<close>

definition base_ok :: "sched \<Rightarrow> bool" where
  "base_ok s \<longleftrightarrow> typed s \<and> ready_ok s \<and> live_ok s \<and> wait_ok s \<and> idle_ok s \<and> cur_ok s \<and> pend_ok s \<and> count_ok s"

definition wake_order :: "sched \<Rightarrow> list_id \<Rightarrow> bool" where
  "wake_order s l \<longleftrightarrow> sorted_wrt (\<lambda>i j. item_value s i \<le> item_value s j) (items s l)"

definition sched_ok :: "sched \<Rightarrow> bool" where
  "sched_ok s \<longleftrightarrow> lists_ok s \<and> base_ok s \<and> delay_ok s \<and>
     wake_order s DelayedTaskList1 \<and> wake_order s DelayedTaskList2"

lemmas base_parts = typed_def ready_ok_def live_ok_def wait_ok_def idle_ok_def cur_ok_def pend_ok_def count_ok_def

lemma base_okD:
  assumes "base_ok s"
  shows "typed s" "ready_ok s" "live_ok s" "wait_ok s" "idle_ok s" "cur_ok s" "pend_ok s" "count_ok s"
  using assms by (simp_all add: base_ok_def)

lemma sched_okD:
  assumes "sched_ok s"
  shows "lists_ok s" "base_ok s" "delay_ok s" "wake_order s DelayedTaskList1" "wake_order s DelayedTaskList2"
  using assms by (simp_all add: sched_ok_def)

lemma core_all: "(\<forall>c. P c) \<longleftrightarrow> P Core0 \<and> P Core1"
  by (metis core.exhaust)

lemma other_simps [simp]: "other (other c) = c" "other c \<noteq> c" "c \<noteq> other c"
  by (cases c; simp)+

lemma current_run:
  assumes "cur_ok s"
  obtains t where "current c s = Inr t" "pxCurrentTCBs s c = Some t" "tcb_live s t"
    "taskIS_AFFINITY_COMPATIBLE c s t" "is_ready (container s (StateItem t)) \<or> switch_due s c"
  using assms by (auto simp: cur_ok_def current_def)

lemma affinity_cong: "tcb s' = tcb s \<Longrightarrow> taskIS_AFFINITY_COMPATIBLE c s' t = taskIS_AFFINITY_COMPATIBLE c s t"
  by (simp add: taskIS_AFFINITY_COMPATIBLE_def)

section \<open>What the invariant reads\<close>

lemma base_ok_frame:
  assumes ok: "base_ok s"
    and same: "container s' = container s" "tcb s' = tcb s" "tcb_live s' = tcb_live s"
      "uxTopReadyPriority s' = uxTopReadyPriority s" "xSchedulerRunning s' = xSchedulerRunning s"
      "pxCurrentTCBs s' = pxCurrentTCBs s" "xIdleTaskHandle s' = xIdleTaskHandle s"
      "uxCurrentNumberOfTasks s' = uxCurrentNumberOfTasks s"
      "uxDeletedTasksWaitingCleanUp s' = uxDeletedTasksWaitingCleanUp s"
      "uxSchedulerSuspended s' = uxSchedulerSuspended s"
    and due: "\<And>c. switch_due s c \<Longrightarrow> switch_due s' c"
  shows "base_ok s'"
  unfolding base_ok_def
proof (intro conjI)
  show "typed s'" using base_okD(1) [OF ok] by (simp add: typed_def same)
  show "ready_ok s'" using base_okD(2) [OF ok] by (simp add: ready_ok_def prio_def same)
  show "live_ok s'" using base_okD(3) [OF ok] unfolding live_ok_def prio_def same .
  show "wait_ok s'" using base_okD(4) [OF ok] unfolding wait_ok_def same .
  show "idle_ok s'" using base_okD(5) [OF ok] unfolding idle_ok_def same .
  show "cur_ok s'"
    using base_okD(6) [OF ok] due unfolding cur_ok_def same taskIS_AFFINITY_COMPATIBLE_def by blast
  show "pend_ok s'" using base_okD(7) [OF ok] unfolding pend_ok_def same .
  show "count_ok s'" using base_okD(8) [OF ok] unfolding count_ok_def same .
qed

lemma delay_ok_frame:
  assumes "container s' = container s" "item_value s' = item_value s"
    "pxDelayedTaskList s' = pxDelayedTaskList s" "pxOverflowDelayedTaskList s' = pxOverflowDelayedTaskList s"
    "xTickCount s' = xTickCount s" "xNextTaskUnblockTime s' = xNextTaskUnblockTime s"
  shows "delay_ok s' = delay_ok s"
  by (simp only: delay_ok_def assms)

section \<open>Requests for a switch\<close>

lemma send_yield_sel [simp]:
  "items (esp_crosscore_int_send_yield c s) = items s" "cursor (esp_crosscore_int_send_yield c s) = cursor s"
  "item_value (esp_crosscore_int_send_yield c s) = item_value s"
  "container (esp_crosscore_int_send_yield c s) = container s"
  "pxCurrentTCBs (esp_crosscore_int_send_yield c s) = pxCurrentTCBs s"
  "tcb (esp_crosscore_int_send_yield c s) = tcb s" "prio (esp_crosscore_int_send_yield c s) = prio s"
  "tcb_live (esp_crosscore_int_send_yield c s) = tcb_live s"
  "pxDelayedTaskList (esp_crosscore_int_send_yield c s) = pxDelayedTaskList s"
  "pxOverflowDelayedTaskList (esp_crosscore_int_send_yield c s) = pxOverflowDelayedTaskList s"
  "xTickCount (esp_crosscore_int_send_yield c s) = xTickCount s"
  "uxSchedulerSuspended (esp_crosscore_int_send_yield c s) = uxSchedulerSuspended s"
  "xPendedTicks (esp_crosscore_int_send_yield c s) = xPendedTicks s"
  "xYieldPending (esp_crosscore_int_send_yield c s) = xYieldPending s"
  "xSchedulerRunning (esp_crosscore_int_send_yield c s) = xSchedulerRunning s"
  "reason (esp_crosscore_int_send_yield c s) = (reason s)(c := True)"
  "xNumOfOverflows (esp_crosscore_int_send_yield c s) = xNumOfOverflows s"
  "xNextTaskUnblockTime (esp_crosscore_int_send_yield c s) = xNextTaskUnblockTime s"
  "uxTopReadyPriority (esp_crosscore_int_send_yield c s) = uxTopReadyPriority s"
  "uxCurrentNumberOfTasks (esp_crosscore_int_send_yield c s) = uxCurrentNumberOfTasks s"
  "uxDeletedTasksWaitingCleanUp (esp_crosscore_int_send_yield c s) = uxDeletedTasksWaitingCleanUp s"
  "xIdleTaskHandle (esp_crosscore_int_send_yield c s) = xIdleTaskHandle s"
  by (simp_all add: esp_crosscore_int_send_yield_def prio_def fun_eq_iff)

lemma set_yield_pending_sel [simp]:
  "items (set_yield_pending c b s) = items s" "cursor (set_yield_pending c b s) = cursor s"
  "item_value (set_yield_pending c b s) = item_value s"
  "container (set_yield_pending c b s) = container s"
  "pxCurrentTCBs (set_yield_pending c b s) = pxCurrentTCBs s"
  "tcb (set_yield_pending c b s) = tcb s" "prio (set_yield_pending c b s) = prio s"
  "tcb_live (set_yield_pending c b s) = tcb_live s"
  "pxDelayedTaskList (set_yield_pending c b s) = pxDelayedTaskList s"
  "pxOverflowDelayedTaskList (set_yield_pending c b s) = pxOverflowDelayedTaskList s"
  "xTickCount (set_yield_pending c b s) = xTickCount s"
  "uxSchedulerSuspended (set_yield_pending c b s) = uxSchedulerSuspended s"
  "xPendedTicks (set_yield_pending c b s) = xPendedTicks s"
  "xYieldPending (set_yield_pending c b s) = (xYieldPending s)(c := b)"
  "xSchedulerRunning (set_yield_pending c b s) = xSchedulerRunning s"
  "reason (set_yield_pending c b s) = reason s"
  "xNumOfOverflows (set_yield_pending c b s) = xNumOfOverflows s"
  "xNextTaskUnblockTime (set_yield_pending c b s) = xNextTaskUnblockTime s"
  "uxTopReadyPriority (set_yield_pending c b s) = uxTopReadyPriority s"
  "uxCurrentNumberOfTasks (set_yield_pending c b s) = uxCurrentNumberOfTasks s"
  "uxDeletedTasksWaitingCleanUp (set_yield_pending c b s) = uxDeletedTasksWaitingCleanUp s"
  "xIdleTaskHandle (set_yield_pending c b s) = xIdleTaskHandle s"
  by (simp_all add: set_yield_pending_def prio_def fun_eq_iff)

text \<open>Asking for a switch never harms.\<close>

lemma send_yield_ok:
  "lists_ok (esp_crosscore_int_send_yield c s) = lists_ok s"
  "base_ok s \<Longrightarrow> base_ok (esp_crosscore_int_send_yield c s)"
  "delay_ok (esp_crosscore_int_send_yield c s) = delay_ok s"
  "wake_order (esp_crosscore_int_send_yield c s) l = wake_order s l"
  "sched_ok s \<Longrightarrow> sched_ok (esp_crosscore_int_send_yield c s)"
proof -
  show lists: "lists_ok (esp_crosscore_int_send_yield c s) = lists_ok s" by (simp add: lists_ok_def)
  show delay: "delay_ok (esp_crosscore_int_send_yield c s) = delay_ok s"
    by (rule delay_ok_frame) (simp_all add: esp_crosscore_int_send_yield_def)
  show order: "wake_order (esp_crosscore_int_send_yield c s) l = wake_order s l" for l by (simp add: wake_order_def)
  show base: "base_ok s \<Longrightarrow> base_ok (esp_crosscore_int_send_yield c s)"
    by (erule base_ok_frame) (auto simp: switch_due_def esp_crosscore_int_send_yield_def)
  show "sched_ok s \<Longrightarrow> sched_ok (esp_crosscore_int_send_yield c s)"
    by (simp add: sched_ok_def lists delay order base)
qed

lemma set_yield_pending_ok:
  "lists_ok (set_yield_pending c b s) = lists_ok s"
  "base_ok s \<Longrightarrow> base_ok (set_yield_pending c True s)"
  "delay_ok (set_yield_pending c b s) = delay_ok s"
  "wake_order (set_yield_pending c b s) l = wake_order s l"
  "sched_ok s \<Longrightarrow> sched_ok (set_yield_pending c True s)"
proof -
  show lists: "lists_ok (set_yield_pending c b s) = lists_ok s" for b by (simp add: lists_ok_def)
  show delay: "delay_ok (set_yield_pending c b s) = delay_ok s" for b
    by (rule delay_ok_frame) (simp_all add: set_yield_pending_def)
  show order: "wake_order (set_yield_pending c b s) l = wake_order s l" for l b by (simp add: wake_order_def)
  show base: "base_ok s \<Longrightarrow> base_ok (set_yield_pending c True s)"
    by (erule base_ok_frame) (auto simp: switch_due_def set_yield_pending_def)
  show "sched_ok s \<Longrightarrow> sched_ok (set_yield_pending c True s)"
    by (simp add: sched_ok_def lists delay order base)
qed

text \<open>The test whether a task made ready preempts a core returns, and at most asks the other core to switch.\<close>

lemma yields_core_run:
  assumes "cur_ok s"
  obtains b where "yields_core c t p s = Inr b"
proof -
  obtain x where "current c s = Inr x" using current_run [OF assms] by blast
  then show thesis
    by (intro that [of "taskIS_AFFINITY_COMPATIBLE c s t \<and> prio s x < p \<and> uxSchedulerSuspended s c = 0"])
       (simp add: yields_core_def)
qed

lemma yield_required_run:
  assumes "cur_ok s" "p < configMAX_PRIORITIES"
  obtains y s' where "prvIsYieldRequiredSMP c t p eq s = Inr (y, s')"
    "s' = s \<or> s' = esp_crosscore_int_send_yield (other c) s"
proof -
  let ?p = "if eq then p + 1 else p"
  obtain b1 where "yields_core c t ?p s = Inr b1" using yields_core_run [OF assms(1)] by blast
  moreover obtain b2 where "yields_core (other c) t ?p s = Inr b2" using yields_core_run [OF assms(1)] by blast
  ultimately show thesis
    using assms(2)
    by (intro that [of b1 "if \<not> b1 \<and> b2 then esp_crosscore_int_send_yield (other c) s else s"])
       (auto simp: prvIsYieldRequiredSMP_def)
qed

section \<open>List operations on well-formed lists\<close>

lemma lists_ok_sched_fields:
  fixes s :: sched
  assumes "items s' = items s" "cursor s' = cursor s" "container s' = container s"
  shows "lists_ok s' = lists_ok s"
  using assms by (simp add: lists_ok_def)

lemma filter_absent: "i \<notin> set xs \<Longrightarrow> filter (\<lambda>j. j \<noteq> i) xs = xs"
  by (rule filter_True) auto

lemma removeAll_as_filter: "removeAll i xs = filter (\<lambda>j. j \<noteq> i) xs"
  by (induction xs) auto

text \<open>The state with an item taken out of its list.\<close>

definition without :: "item \<Rightarrow> (list_id \<Rightarrow> item option) \<Rightarrow> sched \<Rightarrow> sched" where
  "without i Y s = s\<lparr>items := (\<lambda>k. filter (\<lambda>j. j \<noteq> i) (items s k)), cursor := Y,
                     container := (container s)(i := None)\<rparr>"

lemma without_sel [simp]:
  "items (without i Y s) = (\<lambda>k. filter (\<lambda>j. j \<noteq> i) (items s k))" "cursor (without i Y s) = Y"
  "container (without i Y s) = (container s)(i := None)" "item_value (without i Y s) = item_value s"
  "tcb (without i Y s) = tcb s" "prio (without i Y s) = prio s" "tcb_live (without i Y s) = tcb_live s"
  "pxCurrentTCBs (without i Y s) = pxCurrentTCBs s" "uxTopReadyPriority (without i Y s) = uxTopReadyPriority s"
  "uxSchedulerSuspended (without i Y s) = uxSchedulerSuspended s" "xTickCount (without i Y s) = xTickCount s"
  "xNextTaskUnblockTime (without i Y s) = xNextTaskUnblockTime s"
  "pxDelayedTaskList (without i Y s) = pxDelayedTaskList s"
  "pxOverflowDelayedTaskList (without i Y s) = pxOverflowDelayedTaskList s"
  "xSchedulerRunning (without i Y s) = xSchedulerRunning s"
  by (simp_all add: without_def prio_def fun_eq_iff)

lemma remove_item_run:
  assumes ok: "lists_ok s" and at: "container s i = Some l"
  obtains n Y where "remove_item i s = Inr (n, without i Y s)" "lists_ok (without i Y s)"
proof -
  let ?c = "if cursor s l = Some i then item_before (items s l) i else cursor s l"
  have "i \<notin> set (items s k)" if "k \<noteq> l" for k using that at by (simp add: lists_okD(2) [OF ok])
  then have upd: "(items s)(l := remove1 i (items s l)) = (\<lambda>k. filter (\<lambda>j. j \<noteq> i) (items s k))"
    using lists_okD(1) [OF ok, of l]
    by (auto simp: fun_eq_iff distinct_remove1_removeAll filter_absent removeAll_as_filter)
  have "?c = None \<or> (\<exists>j. ?c = Some j \<and> j \<noteq> i \<and> container s j = Some l)"
    using item_before_in [of "items s l" i] lists_okD(2,3) [OF ok]
    by (cases ?c) (auto split: if_splits)
  from lists_ok_remove [OF ok at this] at show thesis
    by (intro that [of "length (remove1 i (items s l))" "(cursor s)(l := ?c)"])
       (simp_all add: remove_item_def upd without_def)
qed

lemma insert_end_run:
  assumes ok: "lists_ok s" and free: "container s i = None"
  obtains X where
    "insert_end l i s = Inr (s\<lparr>items := (items s)(l := X), container := (container s)(i := Some l)\<rparr>)"
    "lists_ok (s\<lparr>items := (items s)(l := X), container := (container s)(i := Some l)\<rparr>)"
proof -
  from put_before_split [OF cursor_in [OF ok], of l i l] obtain ys zs where
    "items s l = ys @ zs" "put_before (items s l) (cursor s l) i = ys @ i # zs" by blast
  with lists_ok_insert [OF ok free] free show thesis by (intro that [of "ys @ i # zs"]) (simp_all add: insert_end_def)
qed

lemma insert_sorted_run:
  assumes ok: "lists_ok s" and free: "container s i = None"
  shows "insert_sorted l i s = Inr (s\<lparr>items := (items s)(l := vListInsert (item_value s) (items s l) i),
                                      container := (container s)(i := Some l)\<rparr>)"
    and "lists_ok (s\<lparr>items := (items s)(l := vListInsert (item_value s) (items s l) i),
                     container := (container s)(i := Some l)\<rparr>)"
proof -
  show "insert_sorted l i s = Inr (s\<lparr>items := (items s)(l := vListInsert (item_value s) (items s l) i),
                                      container := (container s)(i := Some l)\<rparr>)"
    using free by (simp add: insert_sorted_def)
  show "lists_ok (s\<lparr>items := (items s)(l := vListInsert (item_value s) (items s l) i),
                     container := (container s)(i := Some l)\<rparr>)"
    unfolding vListInsert_split by (rule lists_ok_insert [OF ok free]) simp
qed

lemma vListInsert_sorted:
  assumes "sorted_wrt (\<lambda>i j. v i \<le> v j) xs"
  shows "sorted_wrt (\<lambda>i j. v i \<le> v j) (vListInsert v xs (i :: 'a))"
  using assms
proof (induction xs)
  case (Cons x xs)
  have "set (vListInsert v xs i) = insert i (set xs)"
    by (induction xs) auto
  with Cons show ?case by (auto simp: not_le dest: less_imp_le)
qed simp

section \<open>Making a task ready\<close>

lemma remove_state_run:
  assumes "lists_ok s" "container s (StateItem t) = Some l"
  obtains Y where "remove_state t s = Inr (without (StateItem t) Y s)" "lists_ok (without (StateItem t) Y s)"
proof -
  from remove_item_run [OF assms] obtain n Y where
    "remove_item (StateItem t) s = Inr (n, without (StateItem t) Y s)" "lists_ok (without (StateItem t) Y s)"
    by blast
  then show thesis by (intro that [of Y]) (simp_all add: remove_state_def)
qed

lemma unlink_event_run:
  assumes ok: "lists_ok s"
  obtains Y where "unlink_event t s = Inr (without (EventItem t) Y s)" "lists_ok (without (EventItem t) Y s)"
proof (cases "container s (EventItem t)")
  case None
  then have "(\<lambda>k. filter (\<lambda>j. j \<noteq> EventItem t) (items s k)) = items s"
    by (auto simp: fun_eq_iff filter_absent lists_okD(2) [OF ok])
  moreover have "(container s)(EventItem t := None) = container s" using None by (simp add: fun_upd_idem)
  ultimately have "without (EventItem t) (cursor s) s = s" by (simp add: without_def)
  then show thesis using None ok by (intro that [of "cursor s"]) (simp_all add: unlink_event_def)
next
  case (Some l)
  from remove_item_run [OF ok Some] obtain n Y where
    "remove_item (EventItem t) s = Inr (n, without (EventItem t) Y s)" "lists_ok (without (EventItem t) Y s)"
    by blast
  then show thesis using Some by (intro that [of Y]) (simp_all add: unlink_event_def)
qed

text \<open>The state after a task has been made ready, up to the order of the lists.\<close>

definition readied :: "(list_id \<Rightarrow> item list) \<Rightarrow> (list_id \<Rightarrow> item option) \<Rightarrow> task \<Rightarrow> sched \<Rightarrow> sched" where
  "readied X Y t s =
     s\<lparr>items := X, cursor := Y,
       container := (container s)(StateItem t := Some (ReadyTasks (unat (prio s t))), EventItem t := None),
       uxTopReadyPriority := max (uxTopReadyPriority s) (prio s t)\<rparr>"

lemma readied_sel [simp]:
  "items (readied X Y t s) = X" "cursor (readied X Y t s) = Y"
  "container (readied X Y t s) = (container s)(StateItem t := Some (ReadyTasks (unat (prio s t))), EventItem t := None)"
  "item_value (readied X Y t s) = item_value s"
  "uxTopReadyPriority (readied X Y t s) = max (uxTopReadyPriority s) (prio s t)"
  "tcb (readied X Y t s) = tcb s" "prio (readied X Y t s) = prio s" "tcb_live (readied X Y t s) = tcb_live s"
  "pxCurrentTCBs (readied X Y t s) = pxCurrentTCBs s" "reason (readied X Y t s) = reason s"
  "xYieldPending (readied X Y t s) = xYieldPending s" "uxSchedulerSuspended (readied X Y t s) = uxSchedulerSuspended s"
  "xTickCount (readied X Y t s) = xTickCount s" "xNextTaskUnblockTime (readied X Y t s) = xNextTaskUnblockTime s"
  "pxDelayedTaskList (readied X Y t s) = pxDelayedTaskList s"
  "pxOverflowDelayedTaskList (readied X Y t s) = pxOverflowDelayedTaskList s"
  "xSchedulerRunning (readied X Y t s) = xSchedulerRunning s" "xIdleTaskHandle (readied X Y t s) = xIdleTaskHandle s"
  "uxCurrentNumberOfTasks (readied X Y t s) = uxCurrentNumberOfTasks s"
  "uxDeletedTasksWaitingCleanUp (readied X Y t s) = uxDeletedTasksWaitingCleanUp s"
  "xPendedTicks (readied X Y t s) = xPendedTicks s" "xNumOfOverflows (readied X Y t s) = xNumOfOverflows s"
  by (simp_all add: readied_def prio_def fun_eq_iff)

lemma add_ready_run:
  assumes "lists_ok s" "container s (StateItem t) = None" "container s (EventItem t) = None"
    and pr: "prio s t < configMAX_PRIORITIES"
  obtains X where "prvAddTaskToReadyList t s = Inr (readied X (cursor s) t s)" "lists_ok (readied X (cursor s) t s)"
    "\<And>l. \<forall>p. l \<noteq> ReadyTasks p \<Longrightarrow> X l = items s l"
proof -
  let ?s = "s\<lparr>uxTopReadyPriority := max (uxTopReadyPriority s) (prio s t)\<rparr>" and ?l = "ReadyTasks (unat (prio s t))"
  have rec: "taskRECORD_READY_PRIORITY (prio s t) s = ?s"
    by (simp add: taskRECORD_READY_PRIORITY_def max_def not_less)
  have "lists_ok ?s" "container ?s (StateItem t) = None" using assms(1,2) by (simp_all add: lists_ok_def)
  from insert_end_run [OF this, of ?l] obtain X where
    X: "insert_end ?l (StateItem t) ?s = Inr (?s\<lparr>items := (items ?s)(?l := X), container := (container ?s)(StateItem t := Some ?l)\<rparr>)"
    "lists_ok (?s\<lparr>items := (items ?s)(?l := X), container := (container ?s)(StateItem t := Some ?l)\<rparr>)" by blast
  have "?s\<lparr>items := (items ?s)(?l := X), container := (container ?s)(StateItem t := Some ?l)\<rparr> =
        readied ((items s)(?l := X)) (cursor s) t s"
    using assms(3) by (intro sched.equality) (simp_all add: readied_def fun_eq_iff)
  with X pr show thesis
    by (intro that [of "(items s)(?l := X)"]) (simp_all add: prvAddTaskToReadyList_def ready_list_def rec)
qed

lemma readied_ready: "is_ready (container s (StateItem u)) \<Longrightarrow> is_ready (container (readied X Y t s) (StateItem u))"
  by (simp add: is_ready_def)

lemma readied_base:
  assumes ok: "base_ok s" and live: "tcb_live s t"
    and "container s (StateItem t) \<noteq> Some TasksWaitingTermination"
  shows "base_ok (readied X Y t s)"
  unfolding base_ok_def
proof (intro conjI)
  have pr: "prio s t < configMAX_PRIORITIES" using base_okD(3) [OF ok] live by (simp add: live_ok_def)
  show "typed (readied X Y t s)" using base_okD(1) [OF ok] by (simp add: typed_def)
  show "ready_ok (readied X Y t s)"
    using base_okD(2) [OF ok] pr by (auto simp: ready_ok_def max_def intro: order_trans)
  show "live_ok (readied X Y t s)" using base_okD(3) [OF ok] live by (simp add: live_ok_def)
  show "wait_ok (readied X Y t s)" using base_okD(4) [OF ok] by (simp add: wait_ok_def)
  show "idle_ok (readied X Y t s)"
    using base_okD(5) [OF ok] readied_ready [of s] unfolding idle_ok_def readied_sel(6,18) by blast
  show "cur_ok (readied X Y t s)"
    using base_okD(6) [OF ok] readied_ready [of s]
    unfolding cur_ok_def switch_due_def taskIS_AFFINITY_COMPATIBLE_def readied_sel(6,8,9,10,11,12,17) by blast
  show "pend_ok (readied X Y t s)" using base_okD(7) [OF ok] by (simp add: pend_ok_def)
  have "{u. container (readied X Y t s) (StateItem u) = Some TasksWaitingTermination} =
        {u. container s (StateItem u) = Some TasksWaitingTermination}" using assms(3) by auto
  then show "count_ok (readied X Y t s)"
    using base_okD(8) [OF ok] unfolding count_ok_def readied_sel(8,19,20) by simp
qed

lemma readied_delay: "delay_ok s \<Longrightarrow> delay_ok (readied X Y t s)"
  by (auto simp: delay_ok_def)

lemma wake_order_filter:
  "wake_order s l \<Longrightarrow> sorted_wrt (\<lambda>i j. item_value s i \<le> item_value s j) (filter P (items s l))"
  by (simp add: wake_order_def sorted_wrt_filter)

text \<open>Unlinking both items of a task and appending it to its ready list, in either order.\<close>

definition kept :: "task \<Rightarrow> item \<Rightarrow> bool" where
  "kept t i \<longleftrightarrow> i \<noteq> StateItem t \<and> i \<noteq> EventItem t"

lemma filter_kept:
  "(\<lambda>i. i \<noteq> StateItem t \<and> i \<noteq> EventItem t) = kept t" "(\<lambda>i. i \<noteq> EventItem t \<and> i \<noteq> StateItem t) = kept t"
  by (auto simp: kept_def fun_eq_iff)

definition ready_result :: "task \<Rightarrow> sched \<Rightarrow> sched \<Rightarrow> bool" where
  "ready_result t s s' \<longleftrightarrow> lists_ok s' \<and> (\<exists>X Y. s' = readied X Y t s \<and>
     (\<forall>l. (\<forall>p. l \<noteq> ReadyTasks p) \<longrightarrow> X l = filter (kept t) (items s l)))"

lemma ready_resultI:
  assumes "lists_ok (readied X Y t s)" "\<And>l. \<forall>p. l \<noteq> ReadyTasks p \<Longrightarrow> X l = filter (kept t) (items s l)"
  shows "ready_result t s (readied X Y t s)"
  unfolding ready_result_def using assms by blast

lemma readied_without [simp]:
  "readied X Y t (without (StateItem t) Z s) = readied X Y t s"
  "readied X Y t (without (EventItem t) Z s) = readied X Y t s"
  by (rule sched.equality; simp add: readied_def without_def fun_eq_iff prio_def)+

lemma ready_from_state:
  assumes "lists_ok s" "container s (StateItem t) = Some l" "prio s t < configMAX_PRIORITIES"
  obtains s' where
    "bind_res (remove_state t s) (\<lambda>s1. bind_res (unlink_event t s1) (prvAddTaskToReadyList t)) = Inr s'"
    "ready_result t s s'"
proof -
  obtain Y1 where r1: "remove_state t s = Inr (without (StateItem t) Y1 s)"
    and ok1: "lists_ok (without (StateItem t) Y1 s)" using remove_state_run [OF assms(1,2)] by blast
  let ?s1 = "without (StateItem t) Y1 s"
  obtain Y2 where r2: "unlink_event t ?s1 = Inr (without (EventItem t) Y2 ?s1)"
    and ok2: "lists_ok (without (EventItem t) Y2 ?s1)" using unlink_event_run [OF ok1] by blast
  let ?s2 = "without (EventItem t) Y2 ?s1"
  obtain X where r3: "prvAddTaskToReadyList t ?s2 = Inr (readied X (cursor ?s2) t ?s2)"
    and ok3: "lists_ok (readied X (cursor ?s2) t ?s2)"
    and X: "\<And>l. \<forall>p. l \<noteq> ReadyTasks p \<Longrightarrow> X l = items ?s2 l"
    using add_ready_run [OF ok2, of t] assms(3) by auto
  have "ready_result t s (readied X Y2 t s)"
    by (rule ready_resultI) (use ok3 X in \<open>simp_all add: filter_kept\<close>)
  with r1 r2 r3 show thesis by (intro that [of "readied X Y2 t s"]) simp_all
qed

lemma ready_from_event:
  assumes "lists_ok s" "container s (StateItem t) = Some l" "prio s t < configMAX_PRIORITIES"
    and "container s (EventItem t) = Some e"
  obtains n s1 s' where "remove_item (EventItem t) s = Inr (n, s1)" "s1 = without (EventItem t) (cursor s1) s"
    "lists_ok s1" "bind_res (remove_state t s1) (prvAddTaskToReadyList t) = Inr s'" "ready_result t s s'"
proof -
  obtain n Y1 where r1: "remove_item (EventItem t) s = Inr (n, without (EventItem t) Y1 s)"
    and ok1: "lists_ok (without (EventItem t) Y1 s)" using remove_item_run [OF assms(1,4)] by blast
  let ?s1 = "without (EventItem t) Y1 s"
  have "container ?s1 (StateItem t) = Some l" using assms(2) by simp
  with ok1 obtain Y2 where r2: "remove_state t ?s1 = Inr (without (StateItem t) Y2 ?s1)"
    and ok2: "lists_ok (without (StateItem t) Y2 ?s1)" using remove_state_run by blast
  let ?s2 = "without (StateItem t) Y2 ?s1"
  obtain X where r3: "prvAddTaskToReadyList t ?s2 = Inr (readied X (cursor ?s2) t ?s2)"
    and ok3: "lists_ok (readied X (cursor ?s2) t ?s2)"
    and X: "\<And>l. \<forall>p. l \<noteq> ReadyTasks p \<Longrightarrow> X l = items ?s2 l"
    using add_ready_run [OF ok2, of t] assms(3) by auto
  have "ready_result t s (readied X Y2 t s)"
    by (rule ready_resultI) (use ok3 X in \<open>simp_all add: filter_kept\<close>)
  with r1 r2 r3 ok1 show thesis by (intro that [of n ?s1 "readied X Y2 t s"]) simp_all
qed

lemma ready_plain:
  assumes "lists_ok s" "container s (StateItem t) = Some l" "prio s t < configMAX_PRIORITIES"
    and "container s (EventItem t) = None"
  obtains s' where "bind_res (remove_state t s) (prvAddTaskToReadyList t) = Inr s'" "ready_result t s s'"
proof -
  have "unlink_event t s1 = Inr s1" if "remove_state t s = Inr s1" for s1
    using remove_state_run [OF assms(1,2)] that assms(4) by (metis Inr_inject fun_upd_other item.distinct(1) unlink_event_def without_sel(3))
  moreover obtain s1 where "remove_state t s = Inr s1" using remove_state_run [OF assms(1,2)] by blast
  ultimately show thesis using ready_from_state [OF assms(1-3)] that by auto
qed

lemma ready_result_ok:
  assumes res: "ready_result t s s'" and base: "base_ok s" and live: "tcb_live s t"
    and nt: "container s (StateItem t) \<noteq> Some TasksWaitingTermination"
  shows "lists_ok s'" "base_ok s'" "delay_ok s \<Longrightarrow> delay_ok s'"
    "wake_order s DelayedTaskList1 \<Longrightarrow> wake_order s' DelayedTaskList1"
    "wake_order s DelayedTaskList2 \<Longrightarrow> wake_order s' DelayedTaskList2"
proof -
  from res obtain X Y where s': "s' = readied X Y t s"
    and X: "\<And>l. \<forall>p. l \<noteq> ReadyTasks p \<Longrightarrow> X l = filter (kept t) (items s l)"
    by (auto simp: ready_result_def)
  show "lists_ok s'" using res by (simp add: ready_result_def)
  show "base_ok s'" unfolding s' by (rule readied_base [OF base live nt])
  show "delay_ok s \<Longrightarrow> delay_ok s'" unfolding s' by (rule readied_delay)
  show "wake_order s DelayedTaskList1 \<Longrightarrow> wake_order s' DelayedTaskList1"
    using wake_order_filter [of s DelayedTaskList1 "kept t"] unfolding s' by (simp add: wake_order_def X)
  show "wake_order s DelayedTaskList2 \<Longrightarrow> wake_order s' DelayedTaskList2"
    using wake_order_filter [of s DelayedTaskList2 "kept t"] unfolding s' by (simp add: wake_order_def X)
qed

lemma ready_result_sched:
  assumes "ready_result t s s'" "sched_ok s" "tcb_live s t"
    "container s (StateItem t) \<noteq> Some TasksWaitingTermination"
  shows "sched_ok s'"
  using ready_result_ok [OF assms(1) sched_okD(2) [OF assms(2)] assms(3,4)] sched_okD [OF assms(2)]
  by (simp add: sched_ok_def)

section \<open>The tick\<close>

lemma ready_list_prio:
  assumes "base_ok s" "tcb_live s t"
  shows "ready_list (prio s t) = Inr (ReadyTasks (unat (prio s t)))"
  using base_okD(3) [OF assms(1)] assms(2) by (simp add: live_ok_def ready_list_def)

lemma tick_preempt_run:
  assumes "cur_ok s"
  obtains sw' s' where "tick_preempt t sw s = Inr (sw', s')" "s' = s \<or> s' = set_yield_pending Core1 True s"
proof -
  obtain b0 where "current Core0 s = Inr b0" using current_run [OF assms] by blast
  moreover obtain b1 where "current Core1 s = Inr b1" using current_run [OF assms] by blast
  ultimately have "\<exists>sw' s'. tick_preempt t sw s = Inr (sw', s') \<and> (s' = s \<or> s' = set_yield_pending Core1 True s)"
    by (auto simp: tick_preempt_def)
  then show thesis using that by blast
qed

text \<open>Between the increment and the end of the loop, tasks whose time is the present tick are still delayed.\<close>

definition delay_due :: "sched \<Rightarrow> bool" where
  "delay_due s \<longleftrightarrow>
     ((pxDelayedTaskList s = DelayedTaskList1 \<and> pxOverflowDelayedTaskList s = DelayedTaskList2) \<or>
      (pxDelayedTaskList s = DelayedTaskList2 \<and> pxOverflowDelayedTaskList s = DelayedTaskList1)) \<and>
     (\<forall>t. container s (StateItem t) = Some (pxDelayedTaskList s) \<longrightarrow> xTickCount s \<le> item_value s (StateItem t)) \<and>
     (\<forall>t. container s (StateItem t) = Some (pxOverflowDelayedTaskList s) \<longrightarrow> item_value s (StateItem t) < xTickCount s)"

lemma delayed_list_items:
  assumes "lists_ok s" "typed s" "i \<in> set (items s l)" "l = DelayedTaskList1 \<or> l = DelayedTaskList2"
  obtains t where "i = StateItem t" "container s (StateItem t) = Some l"
  using assms by (cases i) (auto simp: lists_okD(2) typed_def)

text \<open>The fields a wake-up does not touch.\<close>

definition same_tasks :: "sched \<Rightarrow> sched \<Rightarrow> bool" where
  "same_tasks s s' \<longleftrightarrow> tcb s' = tcb s \<and> tcb_live s' = tcb_live s \<and> pxCurrentTCBs s' = pxCurrentTCBs s \<and>
     item_value s' = item_value s \<and> pxDelayedTaskList s' = pxDelayedTaskList s \<and>
     pxOverflowDelayedTaskList s' = pxOverflowDelayedTaskList s \<and> xTickCount s' = xTickCount s \<and>
     uxSchedulerSuspended s' = uxSchedulerSuspended s \<and> xPendedTicks s' = xPendedTicks s \<and>
     xNumOfOverflows s' = xNumOfOverflows s \<and> reason s' = reason s \<and>
     (\<forall>c. xYieldPending s c \<longrightarrow> xYieldPending s' c)"

lemma same_tasks_refl: "same_tasks s s" by (simp add: same_tasks_def)

lemma same_tasks_trans: "same_tasks s s' \<Longrightarrow> same_tasks s' s'' \<Longrightarrow> same_tasks s s''"
  by (simp add: same_tasks_def)

text \<open>Exactly the tasks whose time has come leave the delayed list.\<close>

definition woken :: "sched \<Rightarrow> sched \<Rightarrow> bool" where
  "woken s s' \<longleftrightarrow> (\<forall>t. container s' (StateItem t) =
     (if container s (StateItem t) = Some (pxDelayedTaskList s) \<and> item_value s (StateItem t) = xTickCount s
      then Some (ReadyTasks (unat (prio s t))) else container s (StateItem t)))"

lemma unblock_stop:
  assumes lists: "lists_ok s" and base: "base_ok s" and due: "delay_due s"
    and ord: "wake_order s DelayedTaskList1" "wake_order s DelayedTaskList2"
    and v: "\<And>t. container s (StateItem t) = Some (pxDelayedTaskList s) \<Longrightarrow>
              xTickCount s < item_value s (StateItem t) \<and> v \<le> item_value s (StateItem t)"
  shows "sched_ok (s\<lparr>xNextTaskUnblockTime := v\<rparr>)" "woken s (s\<lparr>xNextTaskUnblockTime := v\<rparr>)"
    "same_tasks s (s\<lparr>xNextTaskUnblockTime := v\<rparr>)"
proof -
  have "base_ok (s\<lparr>xNextTaskUnblockTime := v\<rparr>)"
    by (rule base_ok_frame [OF base]) (auto simp: switch_due_def)
  moreover have "delay_ok (s\<lparr>xNextTaskUnblockTime := v\<rparr>)"
    using due v by (simp add: delay_ok_def delay_due_def)
  ultimately show "sched_ok (s\<lparr>xNextTaskUnblockTime := v\<rparr>)"
    using lists ord by (simp add: sched_ok_def lists_ok_def wake_order_def)
  show "woken s (s\<lparr>xNextTaskUnblockTime := v\<rparr>)" using v by (auto simp: woken_def dest!: v)
  show "same_tasks s (s\<lparr>xNextTaskUnblockTime := v\<rparr>)" by (simp add: same_tasks_def)
qed

lemma unblock_step:
  assumes lists: "lists_ok s" and base: "base_ok s" and due: "delay_due s"
    and ord: "wake_order s DelayedTaskList1" "wake_order s DelayedTaskList2"
    and at: "container s (StateItem t) = Some (pxDelayedTaskList s)" and now: "item_value s (StateItem t) = xTickCount s"
  obtains sw' s' where
    "bind_res (remove_state t s) (\<lambda>s1. bind_res (unlink_event t s1) (\<lambda>s2.
       bind_res (prvAddTaskToReadyList t s2) (tick_preempt t sw))) = Inr (sw', s')"
    "lists_ok s'" "base_ok s'" "delay_due s'" "wake_order s' DelayedTaskList1" "wake_order s' DelayedTaskList2"
    "same_tasks s s'" "length (items s' (pxDelayedTaskList s')) < length (items s (pxDelayedTaskList s))"
    "\<And>u. container s' (StateItem u) =
       (if u = t then Some (ReadyTasks (unat (prio s t))) else container s (StateItem u))"
proof -
  have live: "tcb_live s t" using base_okD(3) [OF base] at by (simp add: live_ok_def)
  have pr: "prio s t < configMAX_PRIORITIES" using base_okD(3) [OF base] live by (simp add: live_ok_def)
  have nt: "container s (StateItem t) \<noteq> Some TasksWaitingTermination"
    using at due by (auto simp: delay_due_def)
  obtain s1 where run: "bind_res (remove_state t s) (\<lambda>s1. bind_res (unlink_event t s1) (prvAddTaskToReadyList t)) = Inr s1"
    and res: "ready_result t s s1" using ready_from_state [OF lists at pr] by blast
  note ok = ready_result_ok [OF res base live nt]
  from res obtain X Y where s1: "s1 = readied X Y t s"
    and X: "\<And>l. \<forall>p. l \<noteq> ReadyTasks p \<Longrightarrow> X l = filter (kept t) (items s l)" by (auto simp: ready_result_def)
  obtain sw' s' where pre: "tick_preempt t sw s1 = Inr (sw', s')"
    and s': "s' = s1 \<or> s' = set_yield_pending Core1 True s1" using tick_preempt_run [OF base_okD(6) [OF ok(2)]] by blast
  have full: "bind_res (remove_state t s) (\<lambda>s1. bind_res (unlink_event t s1) (\<lambda>s2.
       bind_res (prvAddTaskToReadyList t s2) (tick_preempt t sw))) = Inr (sw', s')"
    using run pre by (auto simp: bind_res_eq_Inr_iff)
  have "StateItem t \<in> set (items s (pxDelayedTaskList s))" using at by (simp add: lists_okD(2) [OF lists])
  then have "length (filter (kept t) (items s (pxDelayedTaskList s))) < length (items s (pxDelayedTaskList s))"
    by (intro length_filter_less) (auto simp: kept_def)
  moreover have "pxDelayedTaskList s \<noteq> ReadyTasks p" for p using due by (auto simp: delay_due_def)
  ultimately have len: "length (X (pxDelayedTaskList s)) < length (items s (pxDelayedTaskList s))" by (simp add: X)
  have due1: "delay_due s1" using due unfolding s1 by (auto simp: delay_due_def)
  then have "delay_due s'" using s' by (auto simp: delay_due_def)
  then show thesis
    using full s' ok ord len set_yield_pending_ok [where s = s1 and c = Core1]
    by (intro that [of sw' s']) (auto simp: s1 same_tasks_def)
qed

lemma unblock_expired_run:
  assumes "lists_ok s" "base_ok s" "delay_due s" "wake_order s DelayedTaskList1" "wake_order s DelayedTaskList2"
    and "length (items s (pxDelayedTaskList s)) < n"
  shows "\<exists>sw' s'. unblock_expired n (xTickCount s) sw s = Inr (sw', s') \<and> sched_ok s' \<and> woken s s' \<and> same_tasks s s'"
  using assms
proof (induction n arbitrary: s sw)
  case (Suc n)
  note lists = Suc.prems(1) and base = Suc.prems(2) and due = Suc.prems(3) and ord = Suc.prems(4,5)
  have two: "pxDelayedTaskList s = DelayedTaskList1 \<or> pxDelayedTaskList s = DelayedTaskList2"
    using due by (auto simp: delay_due_def)
  show ?case
  proof (cases "items s (pxDelayedTaskList s)")
    case Nil
    then have "container s (StateItem t) \<noteq> Some (pxDelayedTaskList s)" for t
      using lists_okD(2) [OF lists, of "StateItem t" "pxDelayedTaskList s"] by simp
    with unblock_stop [OF lists base due ord, of portMAX_DELAY] Nil show ?thesis by auto
  next
    case (Cons i js)
    obtain t where i: "i = StateItem t" and at: "container s (StateItem t) = Some (pxDelayedTaskList s)"
      using delayed_list_items [OF lists base_okD(1) [OF base] _ two, of i] Cons by auto
    let ?v = "item_value s (StateItem t)"
    have head: "?v \<le> item_value s (StateItem u)" if "container s (StateItem u) = Some (pxDelayedTaskList s)" for u
    proof -
      have "StateItem u \<in> set (items s (pxDelayedTaskList s))" using that by (simp add: lists_okD(2) [OF lists])
      then have "StateItem u \<in> set (i # js)" using Cons by simp
      moreover have "wake_order s (pxDelayedTaskList s)" using two ord by auto
      ultimately show ?thesis using Cons i by (auto simp: wake_order_def)
    qed
    show ?thesis
    proof (cases "xTickCount s < ?v")
      case True
      with head have "\<And>u. container s (StateItem u) = Some (pxDelayedTaskList s) \<Longrightarrow>
          xTickCount s < item_value s (StateItem u) \<and> ?v \<le> item_value s (StateItem u)"
        by (meson order.strict_trans1 order.strict_trans2)
      from unblock_stop [OF lists base due ord this] True Cons i show ?thesis by auto
    next
      case False
      have "xTickCount s \<le> ?v" using due at by (simp add: delay_due_def)
      with False have now: "?v = xTickCount s" by simp
      obtain sw1 s1 where run: "bind_res (remove_state t s) (\<lambda>s1. bind_res (unlink_event t s1) (\<lambda>s2.
           bind_res (prvAddTaskToReadyList t s2) (tick_preempt t sw))) = Inr (sw1, s1)"
        and ok: "lists_ok s1" "base_ok s1" "delay_due s1" "wake_order s1 DelayedTaskList1" "wake_order s1 DelayedTaskList2"
        and same: "same_tasks s s1"
        and len: "length (items s1 (pxDelayedTaskList s1)) < length (items s (pxDelayedTaskList s))"
        and cont: "\<And>u. container s1 (StateItem u) =
           (if u = t then Some (ReadyTasks (unat (prio s t))) else container s (StateItem u))"
        using unblock_step [OF lists base due ord at now] by blast
      have tick: "xTickCount s1 = xTickCount s" using same by (simp add: same_tasks_def)
      have "length (items s1 (pxDelayedTaskList s1)) < n" using len Suc.prems(6) by simp
      from Suc.IH [OF ok this, of sw1] obtain sw' s' where
        rest: "unblock_expired n (xTickCount s) sw1 s1 = Inr (sw', s')" "sched_ok s'" "woken s1 s'" "same_tasks s1 s'"
        unfolding tick by blast
      have "unblock_expired (Suc n) (xTickCount s) sw s = Inr (sw', s')"
        using run rest(1) Cons i now by (auto simp: bind_res_eq_Inr_iff)
      moreover have "woken s s'"
        using rest(3) cont same at now two
        by (auto simp: woken_def same_tasks_def prio_def)
      ultimately show ?thesis using rest(2,4) same_tasks_trans [OF same] by blast
    qed
  qed
qed simp

lemma word_step:
  fixes x v :: u32
  assumes "x + 1 \<noteq> 0"
  shows "x < x + 1" "x < v \<Longrightarrow> x + 1 \<le> v" "v < x \<Longrightarrow> v < x + 1"
proof -
  have u: "unat (x + 1) = Suc (unat x)" using unatSuc [of x] assms by (simp add: add.commute)
  then show "x < x + 1" "x < v \<Longrightarrow> x + 1 \<le> v" "v < x \<Longrightarrow> v < x + 1"
    by (simp_all add: word_less_nat_alt word_le_nat_alt)
qed

lemma word_at_top:
  fixes x v :: u32
  assumes "x + 1 = 0" shows "\<not> x < v"
proof -
  have "x = - 1" using assms by (simp add: eq_neg_iff_add_eq_0)
  then show ?thesis by (simp add: not_less)
qed

lemma time_slice_run:
  assumes "base_ok s"
  obtains b where "time_slice c s = Inr b"
proof -
  obtain x where "current c s = Inr x" "tcb_live s x" using current_run [OF base_okD(6) [OF assms]] by blast
  then show thesis
    using ready_list_prio [OF assms, of x] that [of "1 < length (items s (ReadyTasks (unat (prio s x))))"]
    by (simp add: time_slice_def)
qed

lemma tick_tail_run:
  assumes "lists_ok s" "base_ok s" "delay_due s" "wake_order s DelayedTaskList1" "wake_order s DelayedTaskList2"
    and nxt: "\<And>t. container s (StateItem t) = Some (pxDelayedTaskList s) \<Longrightarrow>
               xNextTaskUnblockTime s \<le> item_value s (StateItem t)"
  obtains sw s' where
    "(if xNextTaskUnblockTime s \<le> xTickCount s
      then unblock_expired (Suc (length (items s (pxDelayedTaskList s)))) (xTickCount s) False s
      else Inr (False, s)) = Inr (sw, s')"
    "sched_ok s'" "woken s s'" "same_tasks s s'"
proof (cases "xNextTaskUnblockTime s \<le> xTickCount s")
  case True
  then show thesis using unblock_expired_run [OF assms(1-5), of "Suc (length (items s (pxDelayedTaskList s)))" False] that
    by auto
next
  case False
  then have later: "xTickCount s < item_value s (StateItem t)" if "container s (StateItem t) = Some (pxDelayedTaskList s)" for t
    using nxt [OF that] by simp
  then have "delay_ok s" using assms(3) nxt by (simp add: delay_ok_def delay_due_def)
  then have "sched_ok s" using assms(1,2,4,5) by (simp add: sched_ok_def)
  moreover have "woken s s" by (auto simp: woken_def dest!: later)
  ultimately show thesis using False same_tasks_refl that by auto
qed

text \<open>The delayed lists are exchanged when the tick count wraps around.\<close>

definition after_switch :: "sched \<Rightarrow> sched" where
  "after_switch s =
     (if xTickCount s + 1 = 0
      then prvResetNextTaskUnblockTime
             (s\<lparr>xTickCount := 0, pxDelayedTaskList := pxOverflowDelayedTaskList s,
                pxOverflowDelayedTaskList := pxDelayedTaskList s, xNumOfOverflows := xNumOfOverflows s + 1\<rparr>)
      else s\<lparr>xTickCount := xTickCount s + 1\<rparr>)"

lemma reset_next_sel [simp]:
  "items (prvResetNextTaskUnblockTime s) = items s"
  "cursor (prvResetNextTaskUnblockTime s) = cursor s"
  "container (prvResetNextTaskUnblockTime s) = container s"
  "item_value (prvResetNextTaskUnblockTime s) = item_value s"
  "tcb (prvResetNextTaskUnblockTime s) = tcb s"
  "prio (prvResetNextTaskUnblockTime s) = prio s"
  "tcb_live (prvResetNextTaskUnblockTime s) = tcb_live s"
  "pxCurrentTCBs (prvResetNextTaskUnblockTime s) = pxCurrentTCBs s"
  "reason (prvResetNextTaskUnblockTime s) = reason s"
  "xYieldPending (prvResetNextTaskUnblockTime s) = xYieldPending s"
  "uxSchedulerSuspended (prvResetNextTaskUnblockTime s) = uxSchedulerSuspended s"
  "xPendedTicks (prvResetNextTaskUnblockTime s) = xPendedTicks s"
  "xTickCount (prvResetNextTaskUnblockTime s) = xTickCount s"
  "xNumOfOverflows (prvResetNextTaskUnblockTime s) = xNumOfOverflows s"
  "pxDelayedTaskList (prvResetNextTaskUnblockTime s) = pxDelayedTaskList s"
  "pxOverflowDelayedTaskList (prvResetNextTaskUnblockTime s) = pxOverflowDelayedTaskList s"
  "uxTopReadyPriority (prvResetNextTaskUnblockTime s) = uxTopReadyPriority s"
  "uxCurrentNumberOfTasks (prvResetNextTaskUnblockTime s) = uxCurrentNumberOfTasks s"
  "uxDeletedTasksWaitingCleanUp (prvResetNextTaskUnblockTime s) = uxDeletedTasksWaitingCleanUp s"
  "xIdleTaskHandle (prvResetNextTaskUnblockTime s) = xIdleTaskHandle s"
  "xSchedulerRunning (prvResetNextTaskUnblockTime s) = xSchedulerRunning s"
  by (simp_all add: prvResetNextTaskUnblockTime_def prio_def fun_eq_iff split: list.splits)

lemma reset_next_value:
  assumes lists: "lists_ok s" and two: "pxDelayedTaskList s = DelayedTaskList1 \<or> pxDelayedTaskList s = DelayedTaskList2"
    and ord: "wake_order s (pxDelayedTaskList s)" and at: "container s (StateItem t) = Some (pxDelayedTaskList s)"
  shows "xNextTaskUnblockTime (prvResetNextTaskUnblockTime s) \<le> item_value s (StateItem t)"
proof (cases "items s (pxDelayedTaskList s)")
  case Nil
  then show ?thesis using lists_okD(2) [OF lists, of "StateItem t" "pxDelayedTaskList s"] at by simp
next
  case (Cons i js)
  have "StateItem t \<in> set (items s (pxDelayedTaskList s))" using at by (simp add: lists_okD(2) [OF lists])
  then have "item_value s i \<le> item_value s (StateItem t)" using ord Cons by (auto simp: wake_order_def)
  then show ?thesis by (simp add: prvResetNextTaskUnblockTime_def Cons)
qed

lemma after_switch_sel [simp]:
  "items (after_switch s) = items s" "cursor (after_switch s) = cursor s" "container (after_switch s) = container s"
  "item_value (after_switch s) = item_value s" "tcb (after_switch s) = tcb s" "prio (after_switch s) = prio s"
  "tcb_live (after_switch s) = tcb_live s" "pxCurrentTCBs (after_switch s) = pxCurrentTCBs s"
  "reason (after_switch s) = reason s" "xYieldPending (after_switch s) = xYieldPending s"
  "uxSchedulerSuspended (after_switch s) = uxSchedulerSuspended s" "xPendedTicks (after_switch s) = xPendedTicks s"
  "xTickCount (after_switch s) = xTickCount s + 1"
  "xNumOfOverflows (after_switch s) = xNumOfOverflows s + (if xTickCount s + 1 = 0 then 1 else 0)"
  "pxDelayedTaskList (after_switch s) =
     (if xTickCount s + 1 = 0 then pxOverflowDelayedTaskList s else pxDelayedTaskList s)"
  "pxOverflowDelayedTaskList (after_switch s) =
     (if xTickCount s + 1 = 0 then pxDelayedTaskList s else pxOverflowDelayedTaskList s)"
  by (simp_all add: after_switch_def prio_def fun_eq_iff prvResetNextTaskUnblockTime_def split: list.splits)

lemma after_switch_ok:
  assumes ok: "sched_ok s"
  shows "lists_ok (after_switch s)" "base_ok (after_switch s)" "delay_due (after_switch s)"
    "wake_order (after_switch s) DelayedTaskList1" "wake_order (after_switch s) DelayedTaskList2"
    "container s (StateItem t) = Some (pxDelayedTaskList (after_switch s)) \<Longrightarrow>
       xNextTaskUnblockTime (after_switch s) \<le> item_value s (StateItem t)"
    "xTickCount s + 1 = 0 \<Longrightarrow> items s (pxDelayedTaskList s) = []"
proof -
  note lists = sched_okD(1) [OF ok] and base = sched_okD(2) [OF ok] and delay = sched_okD(3) [OF ok]
  show "lists_ok (after_switch s)" using lists by (simp add: lists_ok_def)
  show "base_ok (after_switch s)"
    by (rule base_ok_frame [OF base])
       (simp_all add: switch_due_def after_switch_def prvResetNextTaskUnblockTime_def split: list.splits)
  show "wake_order (after_switch s) DelayedTaskList1" "wake_order (after_switch s) DelayedTaskList2"
    using sched_okD(4,5) [OF ok] by (simp_all add: wake_order_def)
  have none: "container s (StateItem t) \<noteq> Some (pxDelayedTaskList s)" if "xTickCount s + 1 = 0" for t
    using delay word_at_top [OF that, of "item_value s (StateItem t)"] by (auto simp: delay_ok_def)
  show "delay_due (after_switch s)"
  proof (cases "xTickCount s + 1 = 0")
    case True
    then show ?thesis using delay none by (auto simp: delay_due_def delay_ok_def)
  next
    case False
    then show ?thesis using delay word_step(2,3) [OF False] by (auto simp: delay_due_def delay_ok_def)
  qed
  show "xNextTaskUnblockTime (after_switch s) \<le> item_value s (StateItem t)"
    if "container s (StateItem t) = Some (pxDelayedTaskList (after_switch s))"
  proof (cases "xTickCount s + 1 = 0")
    case True
    let ?s = "s\<lparr>xTickCount := 0, pxDelayedTaskList := pxOverflowDelayedTaskList s,
                pxOverflowDelayedTaskList := pxDelayedTaskList s, xNumOfOverflows := xNumOfOverflows s + 1\<rparr>"
    have "lists_ok ?s" "wake_order ?s (pxDelayedTaskList ?s)"
      "pxDelayedTaskList ?s = DelayedTaskList1 \<or> pxDelayedTaskList ?s = DelayedTaskList2"
      using lists sched_okD(4,5) [OF ok] delay by (auto simp: lists_ok_def wake_order_def delay_ok_def)
    from reset_next_value [OF this(1,3,2), of t] True that show ?thesis by (simp add: after_switch_def)
  next
    case False
    with delay that show ?thesis by (simp add: delay_ok_def after_switch_def)
  qed
  show "items s (pxDelayedTaskList s) = []" if "xTickCount s + 1 = 0"
  proof -
    have "i \<notin> set (items s (pxDelayedTaskList s))" for i
      using delayed_list_items [OF lists base_okD(1) [OF base], of i "pxDelayedTaskList s"] none [OF that] delay
      by (auto simp: delay_ok_def)
    then show ?thesis by (metis list.set_intros(1) neq_Nil_conv)
  qed
qed

text \<open>
  One tick: the count advances, exactly the delayed tasks whose wake time it reaches become ready,
  whichever of the two lists they are in, and nothing else changes its state.
\<close>

definition tick_wakes :: "sched \<Rightarrow> task \<Rightarrow> bool" where
  "tick_wakes s t \<longleftrightarrow>
     (container s (StateItem t) = Some DelayedTaskList1 \<or> container s (StateItem t) = Some DelayedTaskList2) \<and>
     item_value s (StateItem t) = xTickCount s + 1"

definition ticked :: "sched \<Rightarrow> sched \<Rightarrow> bool" where
  "ticked s s' \<longleftrightarrow> same_tasks (after_switch s) s' \<and>
     (\<forall>t. container s' (StateItem t) =
        (if tick_wakes s t then Some (ReadyTasks (unat (prio s t))) else container s (StateItem t)))"

lemma tick_run:
  assumes ok: "sched_ok s" and on: "uxSchedulerSuspended s Core0 = 0"
  obtains sw s' where "xTaskIncrementTick Core0 s = Inr (sw, s')" "sched_ok s'" "ticked s s'"
    "xYieldPending s Core0 \<Longrightarrow> sw"
proof -
  note sw_ok = after_switch_ok [OF ok] and delay = sched_okD(3) [OF ok]
  have switch: "(if xTickCount s + 1 = 0 then taskSWITCH_DELAYED_LISTS (s\<lparr>xTickCount := xTickCount s + 1\<rparr>)
                 else Inr (s\<lparr>xTickCount := xTickCount s + 1\<rparr>)) = Inr (after_switch s)"
    using sw_ok(7) by (simp add: taskSWITCH_DELAYED_LISTS_def after_switch_def)
  obtain sw s' where tail: "(if xNextTaskUnblockTime (after_switch s) \<le> xTickCount (after_switch s)
      then unblock_expired (Suc (length (items (after_switch s) (pxDelayedTaskList (after_switch s)))))
             (xTickCount (after_switch s)) False (after_switch s)
      else Inr (False, after_switch s)) = Inr (sw, s')"
    and s': "sched_ok s'" "woken (after_switch s) s'" "same_tasks (after_switch s) s'"
    using tick_tail_run [OF sw_ok(1-5)] sw_ok(6) by auto
  obtain b where slice: "time_slice Core0 s' = Inr b" using time_slice_run [OF sched_okD(2) [OF s'(1)]] by blast
  have run: "xTaskIncrementTick Core0 s = Inr (sw \<or> b \<or> xYieldPending s' Core0, s')"
    by (simp only: xTaskIncrementTick_def Let_def on switch tail [unfolded after_switch_sel(13)] slice
        res_simps simp_thms if_True case_prod_conv)
  have "tick_wakes s t \<longleftrightarrow> container s (StateItem t) = Some (pxDelayedTaskList (after_switch s)) \<and>
          item_value s (StateItem t) = xTickCount s + 1" for t
  proof -
    have "item_value s (StateItem t) \<noteq> xTickCount s + 1"
      if "container s (StateItem t) = Some (pxOverflowDelayedTaskList (after_switch s))"
      using that sw_ok(3) by (auto simp: delay_due_def)
    then show ?thesis using delay by (auto simp: tick_wakes_def delay_ok_def split: if_splits)
  qed
  then have "ticked s s'" using s'(2,3) by (simp add: ticked_def woken_def)
  moreover have "xYieldPending s Core0 \<Longrightarrow> xYieldPending s' Core0" using s'(3) by (simp add: same_tasks_def)
  ultimately show thesis using run s'(1) that by blast
qed

section \<open>Choosing the task to run\<close>

text \<open>A core may run a ready task that is not running on the other core and not pinned to it.\<close>

definition suitable :: "core \<Rightarrow> sched \<Rightarrow> item \<Rightarrow> bool" where
  "suitable c s i \<longleftrightarrow> pxCurrentTCBs s (other c) \<noteq> Some (owner i) \<and> taskIS_AFFINITY_COMPATIBLE c s (owner i)"

lemma suitable_cursor [simp]:
  "suitable c (s\<lparr>cursor := Y\<rparr>) = suitable c s" "suitable c (s\<lparr>uxTopReadyPriority := T\<rparr>) = suitable c s"
  "suitable c (set_yield_pending k b s) = suitable c s"
  by (simp_all add: suitable_def taskIS_AFFINITY_COMPATIBLE_def fun_eq_iff)

text \<open>The chosen task becomes the current one and goes to the back of its list.\<close>

definition picked :: "core \<Rightarrow> list_id \<Rightarrow> task \<Rightarrow> sched \<Rightarrow> sched" where
  "picked c l t s =
     s\<lparr>items := (items s)(l := filter (\<lambda>i. i \<noteq> StateItem t) (items s l) @ [StateItem t]),
       cursor := (cursor s)(l := None),
       pxCurrentTCBs := (pxCurrentTCBs s)(c := Some t)\<rparr>"

lemma picked_sel [simp]:
  "items (picked c l t s) = (items s)(l := filter (\<lambda>i. i \<noteq> StateItem t) (items s l) @ [StateItem t])"
  "cursor (picked c l t s) = (cursor s)(l := None)" "container (picked c l t s) = container s"
  "pxCurrentTCBs (picked c l t s) = (pxCurrentTCBs s)(c := Some t)" "item_value (picked c l t s) = item_value s"
  "tcb (picked c l t s) = tcb s" "prio (picked c l t s) = prio s" "tcb_live (picked c l t s) = tcb_live s"
  "uxTopReadyPriority (picked c l t s) = uxTopReadyPriority s" "reason (picked c l t s) = reason s"
  "xYieldPending (picked c l t s) = xYieldPending s" "uxSchedulerSuspended (picked c l t s) = uxSchedulerSuspended s"
  "xTickCount (picked c l t s) = xTickCount s" "xNextTaskUnblockTime (picked c l t s) = xNextTaskUnblockTime s"
  "pxDelayedTaskList (picked c l t s) = pxDelayedTaskList s"
  "pxOverflowDelayedTaskList (picked c l t s) = pxOverflowDelayedTaskList s"
  "xSchedulerRunning (picked c l t s) = xSchedulerRunning s" "xIdleTaskHandle (picked c l t s) = xIdleTaskHandle s"
  "uxCurrentNumberOfTasks (picked c l t s) = uxCurrentNumberOfTasks s"
  "uxDeletedTasksWaitingCleanUp (picked c l t s) = uxDeletedTasksWaitingCleanUp s"
  "xPendedTicks (picked c l t s) = xPendedTicks s" "xNumOfOverflows (picked c l t s) = xNumOfOverflows s"
  by (simp_all add: picked_def prio_def fun_eq_iff)

lemma picked_run:
  assumes ok: "lists_ok s" and at: "container s (StateItem t) = Some l"
  shows "bind_res (remove_state t (reset_index l (s\<lparr>pxCurrentTCBs := (pxCurrentTCBs s)(c := Some t)\<rparr>)))
           (\<lambda>s1. bind_res (insert_end l (StateItem t) s1) (\<lambda>s2. Inr (True, s2))) = Inr (True, picked c l t s)"
    and "lists_ok (picked c l t s)"
proof -
  have eq: "remove1 (StateItem t) (items s l) = filter (\<lambda>i. i \<noteq> StateItem t) (items s l)"
    using lists_okD(1) [OF ok, of l] by (simp add: distinct_remove1_removeAll removeAll_as_filter)
  have same: "(container s)(StateItem t := Some l) = container s" using at by (simp add: fun_upd_idem)
  show "bind_res (remove_state t (reset_index l (s\<lparr>pxCurrentTCBs := (pxCurrentTCBs s)(c := Some t)\<rparr>)))
           (\<lambda>s1. bind_res (insert_end l (StateItem t) s1) (\<lambda>s2. Inr (True, s2))) = Inr (True, picked c l t s)"
    using at by (simp add: remove_state_def remove_item_def reset_index_def insert_end_def put_before_def
        picked_def eq same)
  have "set (filter (\<lambda>i. i \<noteq> StateItem t) (items s l) @ [StateItem t]) = set (items s l)"
    using at lists_okD(2) [OF ok, of "StateItem t" l] by auto
  then show "lists_ok (picked c l t s)"
    using ok unfolding lists_ok_def by (auto simp del: set_append)
qed

lemma next_entry_mid:
  assumes "items s l = ys @ j # z # zs" "distinct (items s l)" "cursor s l = Some j"
  shows "next_entry l s = Inr (z, s\<lparr>cursor := (cursor s)(l := Some z)\<rparr>)"
proof -
  have "j \<notin> set ys" using assms(1,2) by auto
  then have "dropWhile (\<lambda>x. x \<noteq> j) (ys @ j # z # zs) = j # z # zs" by (subst dropWhile_append2) auto
  then show ?thesis using assms(1,3) by (simp add: next_entry_def item_after_def)
qed

lemma next_entry_last:
  assumes "items s l = ys @ [j]" "distinct (items s l)" "cursor s l = Some j"
  shows "next_entry l s = Inr (hd (items s l), s\<lparr>cursor := (cursor s)(l := Some (hd (items s l)))\<rparr>)"
proof -
  have "j \<notin> set ys" using assms(1,2) by auto
  then have "dropWhile (\<lambda>x. x \<noteq> j) (ys @ [j]) = [j]" by (subst dropWhile_append2) auto
  then show ?thesis using assms(1,3) by (simp add: next_entry_def item_after_def)
qed

text \<open>The result of walking a list: the first suitable task, or none and the cursor back on the first.\<close>

definition walk_result :: "core \<Rightarrow> list_id \<Rightarrow> item list \<Rightarrow> sched \<Rightarrow> bool \<times> sched" where
  "walk_result c l xs s =
     (case find (suitable c s) xs of
        None \<Rightarrow> (False, s\<lparr>cursor := (cursor s)(l := Some (hd (items s l)))\<rparr>)
      | Some i \<Rightarrow> (True, picked c l (owner i) s))"

lemma walk_ready_run:
  assumes "lists_ok s" "items s l = ys @ StateItem cur # zs" "\<And>i. i \<in> set (items s l) \<Longrightarrow> \<exists>t. i = StateItem t"
    and "cursor s l = Some (StateItem cur)" "length zs < n"
  shows "walk_ready_list n c l (owner (hd (items s l))) cur s = Inr (walk_result c l (StateItem cur # zs) s)"
  using assms
proof (induction n arbitrary: ys cur zs s)
  case (Suc n)
  note ok = Suc.prems(1) and its = Suc.prems(2) and kind = Suc.prems(3) and cur = Suc.prems(4)
  have dist: "distinct (items s l)" by (rule lists_okD(1) [OF ok])
  have at: "container s (StateItem cur) = Some l" using lists_okD(3) [OF ok cur] .
  show ?case
  proof (cases "suitable c s (StateItem cur)")
    case True
    then show ?thesis using picked_run(1) [OF ok at, of c] by (simp add: walk_result_def suitable_def)
  next
    case False
    then have skip: "walk_ready_list (Suc n) c l f cur s =
        bind_res (next_entry l s) (\<lambda>(i, s'). if owner i = f then Inr (False, s') else walk_ready_list n c l f (owner i) s')"
      for f by (auto simp: suitable_def)
    show ?thesis
    proof (cases zs)
      case Nil
      then show ?thesis
        unfolding skip using next_entry_last [OF _ dist cur] its False by (simp add: walk_result_def)
    next
      case (Cons z zs')
      obtain t where z: "z = StateItem t" using kind [of z] its Cons by auto
      let ?s = "s\<lparr>cursor := (cursor s)(l := Some z)\<rparr>"
      have "container s z = Some l" using lists_okD(2) [OF ok, of z l] its Cons by simp
      then have ok': "lists_ok ?s" using ok by (simp add: lists_ok_def)
      have "hd (items s l) \<in> set (ys @ [StateItem cur])" using its by (cases ys) auto
      moreover have "z \<notin> set (ys @ [StateItem cur])" using dist its Cons by auto
      moreover obtain f where "hd (items s l) = StateItem f" using kind [of "hd (items s l)"] its by (cases ys) auto
      ultimately have ne: "t \<noteq> owner (hd (items s l))" using z by auto
      have "walk_ready_list n c l (owner (hd (items ?s l))) t ?s = Inr (walk_result c l (StateItem t # zs') ?s)"
        by (rule Suc.IH [OF ok', of "ys @ [StateItem cur]"]) (use its Cons z kind Suc.prems(5) in auto)
      moreover have "walk_result c l (StateItem t # zs') ?s = walk_result c l (StateItem cur # zs) s"
        using False Cons z by (simp add: walk_result_def picked_def split: option.split)
      ultimately show ?thesis
        unfolding skip using next_entry_mid [OF _ dist cur, of ys z zs'] its Cons z ne by simp
    qed
  qed
qed simp

lemma search_priority_run:
  assumes ok: "lists_ok s" and ne: "items s l \<noteq> []" and kind: "\<And>i. i \<in> set (items s l) \<Longrightarrow> \<exists>t. i = StateItem t"
  shows "search_priority c l s = Inr (walk_result c l (items s l) s)"
proof -
  obtain t zs where its: "items s l = StateItem t # zs" using ne kind by (cases "items s l") auto
  let ?s = "s\<lparr>cursor := (cursor s)(l := Some (StateItem t))\<rparr>"
  have "next_entry l (reset_index l s) = Inr (StateItem t, ?s)"
    by (simp add: next_entry_def reset_index_def item_after_def its)
  moreover have "lists_ok ?s" using ok lists_okD(2) [OF ok, of "StateItem t" l] its by (simp add: lists_ok_def)
  then have "walk_ready_list (length (items s l)) c l (owner (hd (items ?s l))) t ?s =
      Inr (walk_result c l (StateItem t # zs) ?s)"
    by (intro walk_ready_run [of _ _ "[]"]) (use its kind in auto)
  moreover have "walk_result c l (StateItem t # zs) ?s = walk_result c l (items s l) s"
    using its by (simp add: walk_result_def picked_def split: option.split)
  moreover have "owner (hd (items ?s l)) = t" by (simp add: its)
  ultimately show ?thesis by (simp add: search_priority_def del: walk_ready_list.simps)
qed

text \<open>Ready tasks of a priority, and those a core may run.\<close>

definition ready_at :: "sched \<Rightarrow> nat \<Rightarrow> task \<Rightarrow> bool" where
  "ready_at s p t \<longleftrightarrow> container s (StateItem t) = Some (ReadyTasks p)"

definition runnable :: "core \<Rightarrow> sched \<Rightarrow> nat \<Rightarrow> task \<Rightarrow> bool" where
  "runnable c s p t \<longleftrightarrow> ready_at s p t \<and> suitable c s (StateItem t)"

lemma runnable_cursor [simp]:
  "runnable c (s\<lparr>cursor := Y\<rparr>) = runnable c s" "runnable c (s\<lparr>uxTopReadyPriority := T\<rparr>) = runnable c s"
  "runnable c (set_yield_pending k b s) = runnable c s"
  by (simp_all add: runnable_def ready_at_def fun_eq_iff)

text \<open>The task that is chosen: the first one in its list that the core may run.\<close>

definition chosen :: "core \<Rightarrow> sched \<Rightarrow> nat \<Rightarrow> task \<Rightarrow> bool" where
  "chosen c s p t \<longleftrightarrow> runnable c s p t \<and> find (suitable c s) (items s (ReadyTasks p)) = Some (StateItem t)"

lemma chosen_cursor [simp]:
  "chosen c (s\<lparr>cursor := Y\<rparr>) = chosen c s" "chosen c (s\<lparr>uxTopReadyPriority := T\<rparr>) = chosen c s"
  "chosen c (set_yield_pending k b s) = chosen c s"
  by (simp_all add: chosen_def fun_eq_iff)

lemma ready_list_kind:
  assumes "lists_ok s" "typed s" "i \<in> set (items s (ReadyTasks p))"
  shows "\<exists>t. i = StateItem t" "ready_at s p (owner i)"
proof -
  have "container s i = Some (ReadyTasks p)" using assms(1,3) by (simp add: lists_okD(2))
  then show "\<exists>t. i = StateItem t" "ready_at s p (owner i)"
    using assms(2) by (cases i; auto simp: typed_def ready_at_def)+
qed

lemma find_suitable:
  assumes "lists_ok s" "typed s"
  shows "find (suitable c s) (items s (ReadyTasks p)) = None \<Longrightarrow> \<not> runnable c s p t"
    and "find (suitable c s) (items s (ReadyTasks p)) = Some i \<Longrightarrow> \<exists>t. i = StateItem t \<and> runnable c s p t"
proof -
  show "\<not> runnable c s p t" if "find (suitable c s) (items s (ReadyTasks p)) = None"
    using that lists_okD(2) [OF assms(1), of "StateItem t" "ReadyTasks p"]
    by (auto simp: find_None_iff runnable_def ready_at_def)
  assume "find (suitable c s) (items s (ReadyTasks p)) = Some i"
  then have "i \<in> set (items s (ReadyTasks p))" "suitable c s i" by (auto simp: find_Some_iff)
  then show "\<exists>t. i = StateItem t \<and> runnable c s p t"
    using ready_list_kind [OF assms, of i p] by (auto simp: runnable_def)
qed

text \<open>
  The search from priority \<^term>\<open>p\<close> picks a task of the highest priority at which there is one the core
  may run. On the way it moves cursors and, before the first non-empty list, lowers the top priority.
\<close>

definition search_post :: "core \<Rightarrow> nat \<Rightarrow> bool \<Rightarrow> sched \<Rightarrow> (bool \<times> sched) res \<Rightarrow> bool" where
  "search_post c p fixed s r \<longleftrightarrow>
     (\<exists>q t Y T. r = Inr (True, picked c (ReadyTasks q) t (s\<lparr>cursor := Y, uxTopReadyPriority := T\<rparr>)) \<and>
       lists_ok (s\<lparr>cursor := Y, uxTopReadyPriority := T\<rparr>) \<and> chosen c s q t \<and>
       (\<forall>q' t'. q' \<le> p \<longrightarrow> runnable c s q' t' \<longrightarrow> q' \<le> q) \<and>
       (if fixed then T = uxTopReadyPriority s
        else T \<le> of_nat p \<and> (\<forall>q' t'. q' \<le> p \<longrightarrow> ready_at s q' t' \<longrightarrow> of_nat q' \<le> T)))"

lemma search_postI:
  assumes "r = Inr (True, picked c (ReadyTasks q) t (s\<lparr>cursor := Y, uxTopReadyPriority := T\<rparr>))"
    and "lists_ok (s\<lparr>cursor := Y, uxTopReadyPriority := T\<rparr>)" "chosen c s q t"
    and "\<And>q' t'. q' \<le> p \<Longrightarrow> runnable c s q' t' \<Longrightarrow> q' \<le> q"
    and "fixed \<Longrightarrow> T = uxTopReadyPriority s" "\<not> fixed \<Longrightarrow> T \<le> of_nat p"
    and "\<And>q' t'. \<not> fixed \<Longrightarrow> q' \<le> p \<Longrightarrow> ready_at s q' t' \<Longrightarrow> of_nat q' \<le> T"
  shows "search_post c p fixed s r"
  unfolding search_post_def using assms by (cases fixed) (simp_all, blast+)

lemma search_from_run:
  assumes "lists_ok s" "typed s" "p < 25" "\<exists>q t. q \<le> p \<and> runnable c s q t"
  shows "search_post c p fixed s (search_from c p fixed s)"
  using assms
proof (induction p arbitrary: s fixed rule: less_induct)
  case (less p)
  note ok = less.prems(1) and ty = less.prems(2) and p = less.prems(3) and ex = less.prems(4)
  let ?l = "ReadyTasks p" and ?s = "if fixed then s else s\<lparr>uxTopReadyPriority := of_nat p\<rparr>"
  have p32: "(of_nat p :: u32) < configMAX_PRIORITIES" "unat (of_nat p :: u32) = p"
    using p by (simp_all add: configMAX_PRIORITIES_def word_less_nat_alt unat_of_nat take_bit_nat_eq_self)
  have mono: "(of_nat q :: u32) \<le> of_nat p" if "q \<le> p" for q
    using that p by (simp add: word_le_nat_alt unat_of_nat take_bit_nat_eq_self)
  have rl: "ready_list (of_nat p) = Inr ?l" using p32 by (simp add: ready_list_def)
  show ?case
  proof (cases "items s ?l = []")
    case True
    then have none: "\<not> ready_at s p t" for t using lists_okD(2) [OF ok, of "StateItem t" ?l] by (simp add: ready_at_def)
    then have below: "q \<le> p - 1 \<and> p \<noteq> 0" if "q \<le> p" "ready_at s q t" for q t
      using that by (cases "q = p") auto
    with ex have "p \<noteq> 0" and ex': "\<exists>q t. q \<le> p - 1 \<and> runnable c s q t" by (auto simp: runnable_def)
    have "search_from c p fixed s = search_from c (p - 1) fixed s"
      using True \<open>p \<noteq> 0\<close> by (subst search_from.simps) (simp add: rl)
    moreover have lt: "p - 1 < p" "p - 1 < 25" using \<open>p \<noteq> 0\<close> p by simp_all
    from less.IH [OF lt(1) ok ty lt(2) ex', of fixed] obtain q t Y T where
      "search_from c (p - 1) fixed s = Inr (True, picked c (ReadyTasks q) t (s\<lparr>cursor := Y, uxTopReadyPriority := T\<rparr>))"
      "lists_ok (s\<lparr>cursor := Y, uxTopReadyPriority := T\<rparr>)" "chosen c s q t"
      and best: "\<And>q' t'. q' \<le> p - 1 \<Longrightarrow> runnable c s q' t' \<Longrightarrow> q' \<le> q"
      and T: "if fixed then T = uxTopReadyPriority s
       else T \<le> of_nat (p - 1) \<and> (\<forall>q' t'. q' \<le> p - 1 \<longrightarrow> ready_at s q' t' \<longrightarrow> of_nat q' \<le> T)"
      unfolding search_post_def by blast
    ultimately show ?thesis
    proof (intro search_postI [where q = q and t = t and Y = Y and T = T])
      show "q' \<le> q" if "q' \<le> p" "runnable c s q' t'" for q' t'
        using best below that unfolding runnable_def by blast
      show "T \<le> of_nat p" if "\<not> fixed" using that T mono [of "p - 1"] by (auto intro: order_trans)
      show "of_nat q' \<le> T" if "\<not> fixed" "q' \<le> p" "ready_at s q' t'" for q' t'
        using that T below [OF that(2,3)] by auto
    qed (use T in auto)
  next
    case False
    have ok': "lists_ok ?s" using ok by (simp add: lists_ok_def)
    have its: "items ?s = items s" by simp
    have run: "search_priority c ?l ?s = Inr (walk_result c ?l (items s ?l) ?s)"
      using search_priority_run [OF ok', of ?l c] ready_list_kind(1) [OF ok ty] False unfolding its by blast
    have suit: "suitable c ?s = suitable c s" by simp
    show ?thesis
    proof (cases "find (suitable c s) (items s ?l)")
      case (Some i)
      with find_suitable(2) [OF ok ty] obtain t where i: "i = StateItem t" and "runnable c s p t" by blast
      then have t: "chosen c s p t" using Some by (simp add: chosen_def)
      have "search_from c p fixed s = Inr (True, picked c ?l t ?s)"
        using False by (subst search_from.simps) (simp add: rl run walk_result_def suit Some i)
      moreover have "?s = s\<lparr>cursor := cursor s, uxTopReadyPriority := if fixed then uxTopReadyPriority s else of_nat p\<rparr>"
        by simp
      ultimately show ?thesis
        using t ok mono by (intro search_postI [where q = p and t = t and Y = "cursor s" and T = "if fixed then uxTopReadyPriority s else of_nat p"])
          (auto simp: lists_ok_def)
    next
      case None
      let ?s' = "?s\<lparr>cursor := (cursor s)(?l := Some (hd (items s ?l)))\<rparr>"
      from find_suitable(1) [OF ok ty None] have none: "\<not> runnable c s p t" for t .
      have below: "q \<le> p - 1 \<and> p \<noteq> 0" if "q \<le> p" "runnable c s q t" for q t
        using that none by (cases "q = p") auto
      with ex have "p \<noteq> 0" and ex': "\<exists>q t. q \<le> p - 1 \<and> runnable c ?s' q t" by auto
      have lt: "p - 1 < p" "p - 1 < 25" using \<open>p \<noteq> 0\<close> p by simp_all
      have run': "search_from c p fixed s = search_from c (p - 1) True ?s'"
        using False \<open>p \<noteq> 0\<close> by (subst search_from.simps) (simp add: rl run walk_result_def suit None)
      have "container s (hd (items s ?l)) = Some ?l"
        using lists_okD(2) [OF ok, of "hd (items s ?l)" ?l] False by simp
      then have okt: "lists_ok ?s'" "typed ?s'" using ok ty by (simp_all add: lists_ok_def typed_def)
      obtain q t Y T where
        run2: "search_from c p fixed s = Inr (True, picked c (ReadyTasks q) t (?s'\<lparr>cursor := Y, uxTopReadyPriority := T\<rparr>))"
        and lists2: "lists_ok (?s'\<lparr>cursor := Y, uxTopReadyPriority := T\<rparr>)" and t: "chosen c ?s' q t"
        and best: "\<And>q' t'. q' \<le> p - 1 \<Longrightarrow> runnable c ?s' q' t' \<Longrightarrow> q' \<le> q" and T: "T = uxTopReadyPriority ?s'"
        using less.IH [OF lt(1) okt lt(2) ex', of True] unfolding search_post_def if_True run' by blast
      have eq: "?s'\<lparr>cursor := Y, uxTopReadyPriority := T\<rparr> = s\<lparr>cursor := Y, uxTopReadyPriority := T\<rparr>" by simp
      have same: "runnable c ?s' = runnable c s" "chosen c ?s' = chosen c s" by simp_all
      show ?thesis
      proof (rule search_postI [where q = q and t = t and Y = Y and T = T])
        show "search_from c p fixed s = Inr (True, picked c (ReadyTasks q) t (s\<lparr>cursor := Y, uxTopReadyPriority := T\<rparr>))"
          using run2 unfolding eq .
        show "lists_ok (s\<lparr>cursor := Y, uxTopReadyPriority := T\<rparr>)" using lists2 unfolding eq .
        show "chosen c s q t" using t unfolding same .
        show "q' \<le> q" if "q' \<le> p" "runnable c s q' t'" for q' t'
          using best below that unfolding same by blast
        show "T = uxTopReadyPriority s" if fixed using T that by simp
        show "T \<le> of_nat p" if "\<not> fixed" using T that by simp
        show "of_nat q' \<le> T" if "\<not> fixed" "q' \<le> p" for q' using T that mono by simp
      qed
    qed
  qed
qed

text \<open>The invariant of a kernel whose core \<^term>\<open>c\<close> is about to choose a task.\<close>

definition switching :: "core \<Rightarrow> sched \<Rightarrow> bool" where
  "switching c s \<longleftrightarrow> typed s \<and> ready_ok s \<and> live_ok s \<and> wait_ok s \<and> idle_ok s \<and> pend_ok s \<and> count_ok s \<and>
     xSchedulerRunning s \<and> pxCurrentTCBs s Core0 \<noteq> pxCurrentTCBs s Core1 \<and>
     (\<forall>k. \<exists>t. pxCurrentTCBs s k = Some t \<and> tcb_live s t \<and> taskIS_AFFINITY_COMPATIBLE k s t \<and>
              (is_ready (container s (StateItem t)) \<or> switch_due s k \<or> k = c))"

lemma base_switching: "base_ok s \<Longrightarrow> switching c s"
  unfolding base_ok_def switching_def cur_ok_def by blast

lemma idle_runnable:
  assumes "switching c s"
  obtains q t where "runnable c s q t" "q \<le> unat (uxTopReadyPriority s)"
proof -
  from assms obtain t q where t: "xCoreID (tcb s t) = Some c" "container s (StateItem t) = Some (ReadyTasks q)"
    unfolding switching_def idle_ok_def is_ready_def by blast
  obtain b where "pxCurrentTCBs s (other c) = Some b" "taskIS_AFFINITY_COMPATIBLE (other c) s b"
    using assms unfolding switching_def by blast
  then have "pxCurrentTCBs s (other c) \<noteq> Some t" using t(1) by (auto simp: taskIS_AFFINITY_COMPATIBLE_def)
  then have "runnable c s q t"
    using t by (simp add: runnable_def ready_at_def suitable_def taskIS_AFFINITY_COMPATIBLE_def)
  moreover have "q \<le> unat (uxTopReadyPriority s)"
    using assms t(2) by (auto simp: switching_def ready_ok_def word_le_nat_alt)
  ultimately show thesis using that by blast
qed

lemma picked_ok:
  assumes sw: "switching c s" and lists: "lists_ok (s\<lparr>cursor := Y, uxTopReadyPriority := T\<rparr>)"
    and delay: "delay_ok s" and ord: "wake_order s DelayedTaskList1" "wake_order s DelayedTaskList2"
    and run: "runnable c s q t" and T: "T \<le> uxTopReadyPriority s" "\<And>q' t'. ready_at s q' t' \<Longrightarrow> of_nat q' \<le> T"
  shows "sched_ok (picked c (ReadyTasks q) t (s\<lparr>cursor := Y, uxTopReadyPriority := T\<rparr>))" (is "sched_ok ?s'")
proof -
  have at: "container s (StateItem t) = Some (ReadyTasks q)" using run by (simp add: runnable_def ready_at_def)
  have "tcb_live s t" using sw at by (simp add: switching_def live_ok_def)
  note parts = sw [unfolded switching_def]
  have "typed ?s'" "live_ok ?s'" "wait_ok ?s'" "pend_ok ?s'"
    using parts by (simp_all add: typed_def live_ok_def wait_ok_def pend_ok_def prio_def)
  moreover have "idle_ok ?s'" using parts unfolding idle_ok_def by simp
  moreover have "count_ok ?s'" using parts unfolding count_ok_def by simp
  moreover have "ready_ok ?s'"
  proof -
    have "prio s u \<le> T" if "container s (StateItem u) = Some (ReadyTasks (unat (prio s u)))" for u
      using T(2) [of "unat (prio s u)" u] that by (simp add: ready_at_def)
    then show ?thesis using parts T(1) by (auto simp: ready_ok_def prio_def)
  qed
  moreover have "cur_ok ?s'"
  proof -
    have "\<exists>u. pxCurrentTCBs ?s' k = Some u \<and> tcb_live ?s' u \<and> taskIS_AFFINITY_COMPATIBLE k ?s' u \<and>
            (is_ready (container ?s' (StateItem u)) \<or> switch_due ?s' k)" for k
    proof (cases "k = c")
      case True
      then show ?thesis
        using \<open>tcb_live s t\<close> at run by (simp add: runnable_def suitable_def taskIS_AFFINITY_COMPATIBLE_def)
    next
      case False
      then show ?thesis using parts by (simp add: taskIS_AFFINITY_COMPATIBLE_def switch_due_def) blast
    qed
    moreover have "pxCurrentTCBs ?s' Core0 \<noteq> pxCurrentTCBs ?s' Core1"
      using run parts by (cases c) (auto simp: runnable_def suitable_def)
    ultimately show ?thesis using parts by (simp add: cur_ok_def)
  qed
  moreover have "lists_ok ?s'" by (rule picked_run(2) [OF lists]) (simp add: at)
  moreover have "delay_ok ?s'" using delay by (simp add: delay_ok_def)
  ultimately show ?thesis using ord by (simp add: sched_ok_def base_ok_def wake_order_def)
qed

text \<open>
  Selection always succeeds, and the chosen task has the highest priority among the ready tasks the
  core may run.
\<close>

lemma select_run:
  assumes sw: "switching c s" and lists: "lists_ok s" and delay: "delay_ok s"
    and ord: "wake_order s DelayedTaskList1" "wake_order s DelayedTaskList2"
  obtains q t Y T where
    "prvSelectHighestPriorityTaskSMP c s = Inr (picked c (ReadyTasks q) t (s\<lparr>cursor := Y, uxTopReadyPriority := T\<rparr>))"
    "sched_ok (picked c (ReadyTasks q) t (s\<lparr>cursor := Y, uxTopReadyPriority := T\<rparr>))"
    "chosen c s q t" "\<And>q' t'. runnable c s q' t' \<Longrightarrow> q' \<le> q"
proof -
  let ?p = "unat (uxTopReadyPriority s)"
  have below: "q' \<le> ?p" if "ready_at s q' t'" for q' t'
    using that sw by (auto simp: switching_def ready_ok_def ready_at_def word_le_nat_alt)
  have "?p < 25" using sw by (simp add: switching_def ready_ok_def configMAX_PRIORITIES_def word_less_nat_alt)
  moreover have "\<exists>q t. q \<le> ?p \<and> runnable c s q t" using idle_runnable [OF sw] by blast
  moreover have "typed s" using sw by (simp add: switching_def)
  ultimately have "search_post c ?p False s (search_from c ?p False s)"
    by (intro search_from_run lists)
  then obtain q t Y T where
    run: "search_from c ?p False s = Inr (True, picked c (ReadyTasks q) t (s\<lparr>cursor := Y, uxTopReadyPriority := T\<rparr>))"
    and lists': "lists_ok (s\<lparr>cursor := Y, uxTopReadyPriority := T\<rparr>)" and t: "chosen c s q t"
    and best: "\<And>q' t'. q' \<le> ?p \<Longrightarrow> runnable c s q' t' \<Longrightarrow> q' \<le> q"
    and T: "T \<le> of_nat ?p" "\<And>q' t'. q' \<le> ?p \<Longrightarrow> ready_at s q' t' \<Longrightarrow> of_nat q' \<le> T"
    unfolding search_post_def if_False by blast
  have "sched_ok (picked c (ReadyTasks q) t (s\<lparr>cursor := Y, uxTopReadyPriority := T\<rparr>))"
    using T below by (intro picked_ok [OF sw lists' delay ord t [unfolded chosen_def, THEN conjunct1]]) auto
  moreover have "prvSelectHighestPriorityTaskSMP c s =
      Inr (picked c (ReadyTasks q) t (s\<lparr>cursor := Y, uxTopReadyPriority := T\<rparr>))"
    using run by (simp add: prvSelectHighestPriorityTaskSMP_def)
  ultimately show thesis using t best below that unfolding runnable_def by blast
qed

lemma set_yield_pending_parts [simp]:
  "typed (set_yield_pending c b s) = typed s" "ready_ok (set_yield_pending c b s) = ready_ok s"
  "live_ok (set_yield_pending c b s) = live_ok s" "wait_ok (set_yield_pending c b s) = wait_ok s"
  "idle_ok (set_yield_pending c b s) = idle_ok s" "pend_ok (set_yield_pending c b s) = pend_ok s"
  "count_ok (set_yield_pending c b s) = count_ok s"
  by (simp_all add: base_parts)

text \<open>A context switch moves no task from one list to another.\<close>

definition calm :: "sched \<Rightarrow> sched \<Rightarrow> bool" where
  "calm s s' \<longleftrightarrow> container s' = container s \<and> item_value s' = item_value s \<and> tcb s' = tcb s \<and>
     xTickCount s' = xTickCount s \<and> uxSchedulerSuspended s' = uxSchedulerSuspended s"

lemma switch_context_run:
  assumes sw: "switching c s" and lists: "lists_ok s" and delay: "delay_ok s"
    and ord: "wake_order s DelayedTaskList1" "wake_order s DelayedTaskList2"
  obtains s' where "vTaskSwitchContext c s = Inr s'" "sched_ok s'" "calm s s'"
proof (cases "uxSchedulerSuspended s c = 0")
  case True
  let ?s = "set_yield_pending c False s"
  have "switching c ?s"
  proof -
    have "\<exists>t. pxCurrentTCBs s k = Some t \<and> tcb_live s t \<and> taskIS_AFFINITY_COMPATIBLE k s t \<and>
            (is_ready (container s (StateItem t)) \<or> switch_due ?s k \<or> k = c)" for k
      using sw True unfolding switching_def switch_due_def by (cases "k = c") (simp_all, blast+)
    with sw show ?thesis by (simp add: switching_def taskIS_AFFINITY_COMPATIBLE_def)
  qed
  moreover have "lists_ok ?s" "delay_ok ?s" "wake_order ?s DelayedTaskList1" "wake_order ?s DelayedTaskList2"
    using lists delay ord by (simp_all add: set_yield_pending_ok)
  ultimately obtain q t Y T where
    "prvSelectHighestPriorityTaskSMP c ?s = Inr (picked c (ReadyTasks q) t (?s\<lparr>cursor := Y, uxTopReadyPriority := T\<rparr>))"
    "sched_ok (picked c (ReadyTasks q) t (?s\<lparr>cursor := Y, uxTopReadyPriority := T\<rparr>))" using select_run by metis
  then show thesis
    using True by (intro that [of "picked c (ReadyTasks q) t (?s\<lparr>cursor := Y, uxTopReadyPriority := T\<rparr>)"])
      (simp_all add: vTaskSwitchContext_def calm_def)
next
  case False
  let ?s = "set_yield_pending c True s"
  have "cur_ok ?s"
  proof -
    have "\<exists>t. pxCurrentTCBs s k = Some t \<and> tcb_live s t \<and> taskIS_AFFINITY_COMPATIBLE k s t \<and>
            (is_ready (container s (StateItem t)) \<or> switch_due ?s k)" for k
      using sw False unfolding switching_def switch_due_def by (cases "k = c") (simp_all, blast+)
    with sw show ?thesis by (simp add: cur_ok_def switching_def taskIS_AFFINITY_COMPATIBLE_def)
  qed
  with sw have "base_ok ?s" by (simp add: base_ok_def switching_def)
  then have "sched_ok ?s" using lists delay ord by (simp add: sched_ok_def set_yield_pending_ok)
  then show thesis using that False by (simp add: vTaskSwitchContext_def calm_def)
qed

lemma switch_context_ok:
  assumes "sched_ok s"
  obtains s' where "vTaskSwitchContext c s = Inr s'" "sched_ok s'" "calm s s'"
  using switch_context_run [OF base_switching] sched_okD [OF assms] by metis

end
