(* ===== verification/SchedulerSteps.thy ===== *)
theory SchedulerSteps
  imports SchedulerInv
begin

text \<open>
  Every operation of the scheduler returns and keeps the invariant, when it is called the way the
  kernel's documentation allows.
\<close>

section \<open>Interrupts\<close>

text \<open>Clearing a request is safe for a core that is about to switch.\<close>

lemma crosscore_isr_ok:
  assumes ok: "sched_ok s"
  obtains s' where "esp_crosscore_isr c s = Inr s'" "sched_ok s'" "calm s s'"
proof (cases "reason s c")
  case True
  let ?s = "s\<lparr>reason := (reason s)(c := False)\<rparr>"
  note base = sched_okD(2) [OF ok]
  have "\<exists>t. pxCurrentTCBs s k = Some t \<and> tcb_live s t \<and> taskIS_AFFINITY_COMPATIBLE k s t \<and>
            (is_ready (container s (StateItem t)) \<or> switch_due ?s k \<or> k = c)" for k
    using base_okD(6) [OF base] unfolding cur_ok_def switch_due_def by (cases "k = c") (simp_all, blast+)
  moreover have "typed ?s = typed s" "ready_ok ?s = ready_ok s" "live_ok ?s = live_ok s" "wait_ok ?s = wait_ok s"
    "idle_ok ?s = idle_ok s" "pend_ok ?s = pend_ok s" "count_ok ?s = count_ok s"
    by (simp_all add: base_parts prio_def)
  ultimately have "switching c ?s"
    using base_okD [OF base] by (simp add: switching_def cur_ok_def taskIS_AFFINITY_COMPATIBLE_def)
  moreover have "lists_ok ?s" "delay_ok ?s" "wake_order ?s DelayedTaskList1" "wake_order ?s DelayedTaskList2"
    using sched_okD [OF ok] by (simp_all add: lists_ok_def delay_ok_def wake_order_def)
  ultimately obtain s' where "vTaskSwitchContext c ?s = Inr s'" "sched_ok s'" "calm ?s s'" by (rule switch_context_run)
  then show thesis using that True by (simp add: esp_crosscore_isr_def calm_def)
next
  case False
  then show thesis using that ok by (simp add: esp_crosscore_isr_def calm_def)
qed

lemma sched_ok_frame:
  assumes ok: "sched_ok s"
    and same: "items s' = items s" "cursor s' = cursor s" "container s' = container s" "item_value s' = item_value s"
      "tcb s' = tcb s" "tcb_live s' = tcb_live s" "uxTopReadyPriority s' = uxTopReadyPriority s"
      "xSchedulerRunning s' = xSchedulerRunning s" "pxCurrentTCBs s' = pxCurrentTCBs s"
      "xIdleTaskHandle s' = xIdleTaskHandle s" "uxCurrentNumberOfTasks s' = uxCurrentNumberOfTasks s"
      "uxDeletedTasksWaitingCleanUp s' = uxDeletedTasksWaitingCleanUp s"
      "uxSchedulerSuspended s' = uxSchedulerSuspended s" "pxDelayedTaskList s' = pxDelayedTaskList s"
      "pxOverflowDelayedTaskList s' = pxOverflowDelayedTaskList s" "xTickCount s' = xTickCount s"
      "xNextTaskUnblockTime s' = xNextTaskUnblockTime s"
    and due: "\<And>c. switch_due s c \<Longrightarrow> switch_due s' c"
  shows "sched_ok s'"
proof -
  have "base_ok s'" by (rule base_ok_frame [OF sched_okD(2) [OF ok]]) (use same due in auto)
  moreover have "delay_ok s'" using sched_okD(3) [OF ok] delay_ok_frame [of s' s] same by simp
  moreover have "lists_ok s'" using sched_okD(1) [OF ok] lists_ok_sched_fields [of s' s] same by simp
  ultimately show ?thesis using sched_okD(4,5) [OF ok] same by (simp add: sched_ok_def wake_order_def)
qed

text \<open>The tick interrupt: core 0 counts (or remembers the tick for later), core 1 only switches.\<close>

definition systick_effect :: "core \<Rightarrow> sched \<Rightarrow> sched \<Rightarrow> bool" where
  "systick_effect c s s' \<longleftrightarrow> (\<exists>s1. calm s1 s' \<and>
     (if c = Core0 \<and> uxSchedulerSuspended s Core0 = 0 then ticked s s1 else calm s s1))"

lemma tick_handler_run:
  assumes ok: "sched_ok s"
  shows "\<exists>sw s1. (if c = Core0 then xTaskIncrementTick c s else xTaskIncrementTickOtherCores c s) = Inr (sw, s1) \<and>
    sched_ok s1 \<and> (if c = Core0 \<and> uxSchedulerSuspended s Core0 = 0 then ticked s s1 else calm s s1)"
proof (cases c)
  case Core0
  show ?thesis
  proof (cases "uxSchedulerSuspended s Core0 = 0")
    case True
    then obtain sw s1 where "xTaskIncrementTick Core0 s = Inr (sw, s1)" "sched_ok s1" "ticked s s1"
      using tick_run [OF ok] by blast
    then show ?thesis using Core0 True by auto
  next
    case False
    have "sched_ok (s\<lparr>xPendedTicks := xPendedTicks s + 1\<rparr>)"
      by (rule sched_ok_frame [OF ok]) (simp_all add: switch_due_def)
    then show ?thesis using False Core0 by (auto simp: xTaskIncrementTick_def calm_def intro: exI [of _ False])
  qed
next
  case Core1
  obtain b where "time_slice Core1 s = Inr b" using time_slice_run [OF sched_okD(2) [OF ok]] by blast
  then have "\<exists>sw. xTaskIncrementTickOtherCores Core1 s = Inr (sw, s)"
    by (auto simp: xTaskIncrementTickOtherCores_def intro: exI [of _ False])
  then show ?thesis using ok Core1 by (auto simp: calm_def)
qed

lemma systick_ok:
  assumes ok: "sched_ok s"
  obtains s' where "xPortSysTickHandler c s = Inr s'" "sched_ok s'" "systick_effect c s s'"
proof -
  obtain sw s1 where run: "(if c = Core0 then xTaskIncrementTick c s else xTaskIncrementTickOtherCores c s) = Inr (sw, s1)"
    and ok1: "sched_ok s1" and eff: "if c = Core0 \<and> uxSchedulerSuspended s Core0 = 0 then ticked s s1 else calm s s1"
    using tick_handler_run [OF ok] by blast
  obtain s2 where s2: "vTaskSwitchContext c s1 = Inr s2" "sched_ok s2" "calm s1 s2"
    using switch_context_ok [OF ok1, of c] by blast
  let ?s' = "if sw then s2 else s1"
  have "xPortSysTickHandler c s = Inr ?s'" using run s2(1) by (simp add: xPortSysTickHandler_def)
  moreover have "calm s1 ?s'" using s2(3) by (simp add: calm_def)
  then have "systick_effect c s ?s'" using eff unfolding systick_effect_def by blast
  ultimately show thesis using ok1 s2(2) that by simp
qed

section \<open>Suspending the scheduler\<close>

lemma susp_ok:
  assumes ok: "sched_ok s" and v: "v \<noteq> 0"
  shows "sched_ok (s\<lparr>uxSchedulerSuspended := (uxSchedulerSuspended s)(c := v)\<rparr>)" (is "sched_ok ?s")
proof -
  note base = sched_okD(2) [OF ok]
  have "typed ?s = typed s" "ready_ok ?s = ready_ok s" "live_ok ?s = live_ok s" "wait_ok ?s = wait_ok s"
    "idle_ok ?s = idle_ok s" "cur_ok ?s = cur_ok s" "count_ok ?s = count_ok s"
    by (simp_all add: base_parts prio_def taskIS_AFFINITY_COMPATIBLE_def switch_due_def)
  moreover have "pend_ok ?s" using base_okD(7) [OF base] v by (simp add: pend_ok_def)
  ultimately have "base_ok ?s" using base_okD [OF base] by (simp add: base_ok_def)
  then show ?thesis using sched_okD [OF ok] by (simp add: sched_ok_def lists_ok_def delay_ok_def wake_order_def)
qed

lemma suspend_all_ok:
  assumes "sched_ok s" "uxSchedulerSuspended s c + 1 \<noteq> 0"
  shows "sched_ok (vTaskSuspendAll c s)"
  unfolding vTaskSuspendAll_def by (rule susp_ok [OF assms])

text \<open>
  While a core resumes, its pending tasks are still in its list although its scheduler runs again: the
  invariant is the one of a kernel in which that core is suspended.
\<close>

definition held :: "core \<Rightarrow> sched \<Rightarrow> sched" where
  "held c s = s\<lparr>uxSchedulerSuspended := (uxSchedulerSuspended s)(c := 1)\<rparr>"

lemma held_sel [simp]:
  "items (held c s) = items s" "cursor (held c s) = cursor s" "container (held c s) = container s"
  "item_value (held c s) = item_value s" "tcb (held c s) = tcb s" "prio (held c s) = prio s"
  "tcb_live (held c s) = tcb_live s" "pxCurrentTCBs (held c s) = pxCurrentTCBs s" "lists_ok (held c s) = lists_ok s"
  "uxCurrentNumberOfTasks (held c s) = uxCurrentNumberOfTasks s"
  by (simp_all add: held_def prio_def fun_eq_iff lists_ok_def)

lemma held_commute:
  "held c (readied X Y t s) = readied X Y t (held c s)"
  "held c (esp_crosscore_int_send_yield k s) = esp_crosscore_int_send_yield k (held c s)"
  "held c (set_yield_pending k b s) = set_yield_pending k b (held c s)"
  by (simp_all add: held_def readied_def esp_crosscore_int_send_yield_def set_yield_pending_def prio_def)

lemma held_cur: "cur_ok (held c s) = cur_ok s"
  by (simp add: held_def cur_ok_def taskIS_AFFINITY_COMPATIBLE_def switch_due_def)

lemma held_release:
  assumes ok: "sched_ok (held c s)" and empty: "items s (PendingReady c) = []"
  shows "sched_ok s"
proof -
  note base = sched_okD(2) [OF ok]
  have none: "container s (EventItem t) \<noteq> Some (PendingReady c)" for t
    using lists_okD(2) [OF sched_okD(1) [OF ok], of "EventItem t" "PendingReady c"] empty by simp
  have "typed (held c s) = typed s" "ready_ok (held c s) = ready_ok s" "live_ok (held c s) = live_ok s"
    "wait_ok (held c s) = wait_ok s" "idle_ok (held c s) = idle_ok s" "count_ok (held c s) = count_ok s"
    by (simp_all add: held_def base_parts prio_def)
  moreover have "pend_ok s" using base_okD(7) [OF base] none by (auto simp: held_def pend_ok_def split: if_splits)
  ultimately have "base_ok s" using base_okD [OF base] by (simp add: base_ok_def held_cur)
  then show ?thesis
    using sched_okD [OF ok] by (simp add: sched_ok_def held_def lists_ok_def delay_ok_def wake_order_def)
qed

lemma event_item_kind:
  assumes "typed s" "container s i = Some l" "(\<exists>e. l = EventList e) \<or> (\<exists>c. l = PendingReady c)"
  obtains t where "i = EventItem t"
proof (cases i)
  case (StateItem t)
  then have "container s (StateItem t) = Some l" using assms(2) by simp
  moreover have "container s (StateItem t) = None \<or> is_ready (container s (StateItem t)) \<or>
      is_blocked (container s (StateItem t)) \<or> container s (StateItem t) = Some TasksWaitingTermination"
    using assms(1) by (simp add: typed_def)
  ultimately show thesis using assms(3) by (auto simp: is_ready_def is_blocked_def)
qed

lemma move_pending_run:
  assumes "sched_ok (held c s)" "length (items s (PendingReady c)) \<le> n"
  shows "\<exists>m s'. move_pending n c moved s = Inr (m, s') \<and> sched_ok s' \<and>
     uxCurrentNumberOfTasks s' = uxCurrentNumberOfTasks s \<and> uxSchedulerSuspended s' = uxSchedulerSuspended s \<and>
     xPendedTicks s' = xPendedTicks s"
  using assms
proof (induction n arbitrary: s moved)
  case 0
  then show ?case using held_release [OF 0(1)] by (subst move_pending.simps) simp
next
  case (Suc n)
  note ok = Suc.prems(1)
  show ?case
  proof (cases "items s (PendingReady c)")
    case Nil
    then show ?thesis using held_release [OF ok] by (subst move_pending.simps) simp
  next
    case (Cons i js)
    note lists = sched_okD(1) [OF ok] and base = sched_okD(2) [OF ok]
    have at: "container s i = Some (PendingReady c)"
      using lists_okD(2) [OF lists, of i "PendingReady c"] Cons by simp
    then obtain t where i: "i = EventItem t"
      using event_item_kind [OF base_okD(1) [OF base], of i "PendingReady c"] by auto
    have bl: "is_blocked (container s (StateItem t))" using base_okD(4) [OF base] at i by (auto simp: wait_ok_def)
    then obtain l where l: "container s (StateItem t) = Some l" by (cases "container s (StateItem t)") auto
    have live: "tcb_live s t" and pr: "prio s t < configMAX_PRIORITIES"
      using base_okD(3) [OF base] l by (auto simp: live_ok_def)
    have nt: "container s (StateItem t) \<noteq> Some TasksWaitingTermination" using bl by auto
    have lists0: "lists_ok s" using lists by simp
    obtain k s1 s2 where run: "remove_item (EventItem t) s = Inr (k, s1)"
        "bind_res (remove_state t s1) (prvAddTaskToReadyList t) = Inr s2" and res: "ready_result t s s2"
      using ready_from_event [OF lists0 l pr, of "PendingReady c"] at i by metis
    from res obtain X Y where s2: "s2 = readied X Y t s"
      and X: "\<And>l. \<forall>p. l \<noteq> ReadyTasks p \<Longrightarrow> X l = filter (kept t) (items s l)" by (auto simp: ready_result_def)
    have "ready_result t (held c s) (held c s2)"
      unfolding s2 held_commute by (rule ready_resultI) (use res X in \<open>auto simp: s2 ready_result_def held_commute lists_ok_def\<close>)
    then have ok2: "sched_ok (held c s2)"
      using ready_result_sched [OF _ ok, of t] live nt by simp
    have cur2: "cur_ok s2" using base_okD(6) [OF sched_okD(2) [OF ok2]] by (simp add: held_cur)
    have pr2: "prio s2 t < configMAX_PRIORITIES" using pr by (simp add: s2)
    obtain y s3 where yr: "prvIsYieldRequiredSMP c t (prio s2 t) True s2 = Inr (y, s3)"
      and s3: "s3 = s2 \<or> s3 = esp_crosscore_int_send_yield (other c) s2" using yield_required_run [OF cur2 pr2] by blast
    let ?s4 = "if y then set_yield_pending c True s3 else s3"
    have ok4: "sched_ok (held c ?s4)"
      using s3 ok2 by (auto simp: held_commute intro!: send_yield_ok(5) set_yield_pending_ok(5))
    have i4: "items ?s4 (PendingReady c) = filter (kept t) (items s (PendingReady c))"
      using s3 by (auto simp: s2 X)
    have "length (filter (kept t) (items s (PendingReady c))) < length (items s (PendingReady c))"
      by (rule length_filter_less [of i]) (simp_all add: Cons i kept_def)
    then have len: "length (items ?s4 (PendingReady c)) \<le> n" unfolding i4 using Suc.prems(2) by simp
    from run obtain s1' where run': "remove_state t s1 = Inr s1'" "prvAddTaskToReadyList t s1' = Inr s2" by auto
    have "move_pending (Suc n) c moved s = move_pending n c True ?s4"
      using run(1) run' yr by (subst move_pending.simps) (simp add: Cons i)
    moreover have "uxCurrentNumberOfTasks ?s4 = uxCurrentNumberOfTasks s"
      "uxSchedulerSuspended ?s4 = uxSchedulerSuspended s" "xPendedTicks ?s4 = xPendedTicks s" using s3 by (auto simp: s2)
    ultimately show ?thesis using Suc.IH [OF ok4 len, of True] by simp
  qed
qed

lemma reset_next_ok:
  assumes ok: "sched_ok s"
  shows "sched_ok (prvResetNextTaskUnblockTime s)"
proof -
  note lists = sched_okD(1) [OF ok] and delay = sched_okD(3) [OF ok]
  have two: "pxDelayedTaskList s = DelayedTaskList1 \<or> pxDelayedTaskList s = DelayedTaskList2"
    using delay by (auto simp: delay_ok_def)
  then have "wake_order s (pxDelayedTaskList s)" using sched_okD(4,5) [OF ok] by auto
  note bound = reset_next_value [OF lists two this]
  have "delay_ok (prvResetNextTaskUnblockTime s)" using delay bound by (simp add: delay_ok_def)
  moreover have "base_ok (prvResetNextTaskUnblockTime s)"
    by (rule base_ok_frame [OF sched_okD(2) [OF ok]]) (simp_all add: switch_due_def)
  ultimately show ?thesis
    using lists sched_okD(4,5) [OF ok] by (simp add: sched_ok_def lists_ok_def wake_order_def)
qed

lemma unwind_run:
  assumes "sched_ok s" "uxSchedulerSuspended s Core0 = 0"
  shows "\<exists>s'. unwind_ticks n Core0 s = Inr s' \<and> sched_ok s' \<and> uxSchedulerSuspended s' Core0 = 0 \<and>
              xTickCount s' = xTickCount s + of_nat n"
  using assms
proof (induction n arbitrary: s)
  case (Suc n)
  obtain sw s1 where run: "xTaskIncrementTick Core0 s = Inr (sw, s1)" and ok1: "sched_ok s1" and t: "ticked s s1"
    using tick_run [OF Suc.prems] by blast
  let ?s = "if sw then set_yield_pending Core0 True s1 else s1"
  have "sched_ok ?s" using ok1 set_yield_pending_ok(5) by simp
  moreover have "uxSchedulerSuspended ?s Core0 = 0" using t Suc.prems(2) by (auto simp: ticked_def same_tasks_def)
  moreover have "xTickCount ?s = xTickCount s + 1" using t by (auto simp: ticked_def same_tasks_def)
  ultimately show ?case using Suc.IH [of ?s] run by (simp add: add.assoc)
qed simp

lemma count_pos:
  assumes "base_ok s"
  shows "0 < uxCurrentNumberOfTasks s"
proof -
  obtain t where "tcb_live s t" using current_run [OF base_okD(6) [OF assms]] by blast
  with base_okD(8) [OF assms] have "0 < card {t. tcb_live s t}" by (auto simp: count_ok_def card_gt_0_iff)
  with base_okD(8) [OF assms] show ?thesis
    by (simp add: count_ok_def word_less_nat_alt unat_of_nat take_bit_nat_eq_self)
qed

lemma resume_all_ok:
  assumes ok: "sched_ok s" and susp: "uxSchedulerSuspended s c \<noteq> 0"
  obtains y s' where "xTaskResumeAll c s = Inr (y, s')" "sched_ok s'"
    "uxSchedulerSuspended s' c = uxSchedulerSuspended s c - 1"
proof -
  let ?s1 = "s\<lparr>uxSchedulerSuspended := (uxSchedulerSuspended s)(c := uxSchedulerSuspended s c - 1)\<rparr>"
  have run: "xSchedulerRunning s" using base_okD(6) [OF sched_okD(2) [OF ok]] by (simp add: cur_ok_def)
  show thesis
  proof (cases "uxSchedulerSuspended s c - 1 = 0")
    case False
    then show thesis
      using susp_ok [OF ok False, of c] run susp that [of False ?s1]
      by (simp add: xTaskResumeAll_def taskIS_SCHEDULER_SUSPENDED_def)
  next
    case True
    have "held c ?s1 = s\<lparr>uxSchedulerSuspended := (uxSchedulerSuspended s)(c := 1)\<rparr>" by (simp add: held_def)
    then have "sched_ok (held c ?s1)" using susp_ok [OF ok, of 1 c] by simp
    from move_pending_run [OF this order_refl, of False] obtain m s2 where
      mv: "move_pending (length (items ?s1 (PendingReady c))) c False ?s1 = Inr (m, s2)" and ok2: "sched_ok s2"
      and same: "uxSchedulerSuspended s2 = uxSchedulerSuspended ?s1" by blast
    let ?s3 = "if m then prvResetNextTaskUnblockTime s2 else s2"
    have ok3: "sched_ok ?s3" using ok2 reset_next_ok by simp
    have susp3: "uxSchedulerSuspended ?s3 c = 0" using same True by simp
    obtain s5 where s5: "(if c = Core0 \<and> 0 < xPendedTicks ?s3
                      then bind_res (unwind_ticks (unat (xPendedTicks ?s3)) c ?s3) (\<lambda>s4. Inr (s4\<lparr>xPendedTicks := 0\<rparr>))
                      else Inr ?s3) = Inr s5" and ok5: "sched_ok s5" and susp5: "uxSchedulerSuspended s5 c = 0"
    proof (cases "c = Core0 \<and> 0 < xPendedTicks ?s3")
      case c0: True
      obtain s4 where s4: "unwind_ticks (unat (xPendedTicks ?s3)) Core0 ?s3 = Inr s4" "sched_ok s4"
          "uxSchedulerSuspended s4 Core0 = 0"
        using unwind_run [OF ok3] susp3 c0 by metis
      have "sched_ok (s4\<lparr>xPendedTicks := 0\<rparr>)" by (rule sched_ok_frame [OF s4(2)]) (simp_all add: switch_due_def)
      then show thesis using that [of "s4\<lparr>xPendedTicks := 0\<rparr>"] s4 c0 by simp
    next
      case False
      then show thesis using that [of ?s3] ok3 susp3 by (simp only: if_False)
    qed
    have cnt: "0 < uxCurrentNumberOfTasks s" by (rule count_pos [OF sched_okD(2) [OF ok]])
    have "xTaskResumeAll c s = Inr (if xYieldPending s5 c then (True, esp_crosscore_int_send_yield c s5) else (False, s5))"
      using run susp True mv s5 cnt
      by (simp add: xTaskResumeAll_def taskIS_SCHEDULER_SUSPENDED_def Let_def)
    then have fin: "xTaskResumeAll c s = Inr (xYieldPending s5 c,
        if xYieldPending s5 c then esp_crosscore_int_send_yield c s5 else s5)" by simp
    show thesis by (rule that [OF fin]) (use ok5 susp5 True send_yield_ok(5) in auto)
  qed
qed

lemma catch_up_ok:
  assumes ok: "sched_ok s" and on: "uxSchedulerSuspended s c = 0"
  obtains y s' where "xTaskCatchUpTicks c n s = Inr (y, s')" "sched_ok s'"
proof -
  let ?s = "(vTaskSuspendAll c s)\<lparr>xPendedTicks := xPendedTicks (vTaskSuspendAll c s) + n\<rparr>"
  have "sched_ok (vTaskSuspendAll c s)" by (rule suspend_all_ok [OF ok]) (simp add: on)
  then have "sched_ok ?s" by (rule sched_ok_frame) (simp_all add: switch_due_def)
  then show thesis
    using resume_all_ok [of ?s c] on that
    by (auto simp: xTaskCatchUpTicks_def taskIS_SCHEDULER_SUSPENDED_def vTaskSuspendAll_def Let_def)
qed

section \<open>Leaving the ready state\<close>

text \<open>
  A task that is not an idle task may leave its list for a blocked one or for the list of deleted
  tasks, when a switch is pending on the core that runs it.
\<close>

definition attributes :: "tskTCB \<Rightarrow> u32 \<times> u32 \<times> core option" where
  "attributes b = (uxPriority b, uxBasePriority b, xCoreID b)"

definition same_attributes :: "sched \<Rightarrow> sched \<Rightarrow> bool" where
  "same_attributes s s' \<longleftrightarrow> (\<forall>u. attributes (tcb s' u) = attributes (tcb s u)) \<and> tcb_live s' = tcb_live s \<and>
     uxTopReadyPriority s' = uxTopReadyPriority s \<and> xSchedulerRunning s' = xSchedulerRunning s \<and>
     pxCurrentTCBs s' = pxCurrentTCBs s \<and> xIdleTaskHandle s' = xIdleTaskHandle s \<and>
     uxCurrentNumberOfTasks s' = uxCurrentNumberOfTasks s \<and> uxSchedulerSuspended s' = uxSchedulerSuspended s"

lemma same_attributesD:
  assumes "same_attributes s s'"
  shows "prio s' = prio s" "uxBasePriority (tcb s' u) = uxBasePriority (tcb s u)" "xCoreID (tcb s' u) = xCoreID (tcb s u)"
    "tcb_live s' = tcb_live s" "uxTopReadyPriority s' = uxTopReadyPriority s" "xSchedulerRunning s' = xSchedulerRunning s"
    "pxCurrentTCBs s' = pxCurrentTCBs s" "xIdleTaskHandle s' = xIdleTaskHandle s"
    "uxCurrentNumberOfTasks s' = uxCurrentNumberOfTasks s" "uxSchedulerSuspended s' = uxSchedulerSuspended s"
    "taskIS_AFFINITY_COMPATIBLE c s' = taskIS_AFFINITY_COMPATIBLE c s"
  using assms by (simp_all add: same_attributes_def attributes_def prio_def fun_eq_iff taskIS_AFFINITY_COMPATIBLE_def)

lemma same_attributes_yield [simp]:
  "same_attributes r (esp_crosscore_int_send_yield c s) = same_attributes r s"
  by (simp add: same_attributes_def)

definition is_idle :: "sched \<Rightarrow> task \<Rightarrow> bool" where
  "is_idle s t \<longleftrightarrow> xIdleTaskHandle s Core0 = Some t \<or> xIdleTaskHandle s Core1 = Some t"

definition left_for :: "task \<Rightarrow> list_id \<Rightarrow> list_id option \<Rightarrow> sched \<Rightarrow> sched \<Rightarrow> bool" where
  "left_for t l e s s' \<longleftrightarrow> same_attributes s s' \<and>
     container s' = (container s)(StateItem t := Some l, EventItem t := e) \<and>
     (is_blocked (Some l) \<and> (e = None \<or> (\<exists>n. e = Some (EventList n))) \<or> l = TasksWaitingTermination \<and> e = None) \<and>
     uxDeletedTasksWaitingCleanUp s' =
       uxDeletedTasksWaitingCleanUp s + (if l = TasksWaitingTermination then 1 else 0)"

lemma left_for_base:
  assumes ok: "base_ok s" and lf: "left_for t l e s s'" and live: "tcb_live s t"
    and nt: "container s (StateItem t) \<noteq> Some TasksWaitingTermination" and ni: "\<not> is_idle s t"
    and due: "\<And>c. switch_due s c \<Longrightarrow> switch_due s' c" "\<And>c. pxCurrentTCBs s c = Some t \<Longrightarrow> switch_due s' c"
  shows "base_ok s'"
  unfolding base_ok_def
proof (intro conjI)
  note attr = same_attributesD [of s s'] and l = lf [unfolded left_for_def]
  have cont: "container s' = (container s)(StateItem t := Some l, EventItem t := e)"
    and at: "same_attributes s s'" using l by simp_all
  note sel = attr [OF at]
  show "typed s'" using base_okD(1) [OF ok] l by (auto simp: typed_def cont)
  show "ready_ok s'" using base_okD(2) [OF ok] l by (auto simp: ready_ok_def cont sel)
  show "live_ok s'" using base_okD(3) [OF ok] live by (simp add: live_ok_def cont sel)
  show "wait_ok s'" using base_okD(4) [OF ok] l by (auto simp: wait_ok_def cont)
  show "idle_ok s'"
    unfolding idle_ok_def sel
  proof
    fix c
    obtain u where u: "xIdleTaskHandle s c = Some u" "xCoreID (tcb s u) = Some c" "is_ready (container s (StateItem u))"
      using base_okD(5) [OF ok] unfolding idle_ok_def by blast
    moreover have "u \<noteq> t" using u(1) ni by (cases c) (auto simp: is_idle_def)
    ultimately show "\<exists>u. xIdleTaskHandle s c = Some u \<and> xCoreID (tcb s u) = Some c \<and> is_ready (container s' (StateItem u))"
      by (auto simp: cont)
  qed
  show "cur_ok s'"
    unfolding cur_ok_def sel
  proof (intro conjI allI)
    show "xSchedulerRunning s" "pxCurrentTCBs s Core0 \<noteq> pxCurrentTCBs s Core1"
      using base_okD(6) [OF ok] by (simp_all add: cur_ok_def)
    fix c
    obtain u where u: "pxCurrentTCBs s c = Some u" "tcb_live s u" "taskIS_AFFINITY_COMPATIBLE c s u"
      "is_ready (container s (StateItem u)) \<or> switch_due s c" using current_run [OF base_okD(6) [OF ok]] by blast
    then show "\<exists>u. pxCurrentTCBs s c = Some u \<and> tcb_live s u \<and> taskIS_AFFINITY_COMPATIBLE c s u \<and>
          (is_ready (container s' (StateItem u)) \<or> switch_due s' c)"
      using due by (cases "u = t") (auto simp: cont)
  qed
  show "pend_ok s'" using base_okD(7) [OF ok] l by (auto simp: pend_ok_def cont sel)
  let ?D = "\<lambda>s. {u. container s (StateItem u) = Some TasksWaitingTermination}"
  have sub: "?D s \<subseteq> {u. tcb_live s u}" using base_okD(3) [OF ok] by (auto simp: live_ok_def)
  then have fin: "finite (?D s)" using base_okD(8) [OF ok] by (auto simp: count_ok_def intro: finite_subset)
  have "?D s' = (if l = TasksWaitingTermination then insert t (?D s) else ?D s)"
    using nt l by (auto simp: cont)
  then have "of_nat (card (?D s')) = (of_nat (card (?D s)) + (if l = TasksWaitingTermination then 1 else 0) :: u32)"
    using nt fin by simp
  then show "count_ok s'" using base_okD(8) [OF ok] l unfolding count_ok_def sel by simp
qed

text \<open>Wake times, when one task has been given a new place.\<close>

lemma moved_delay:
  assumes ok: "delay_ok s" and cont: "\<And>u. u \<noteq> t \<Longrightarrow> container s' (StateItem u) = container s (StateItem u)"
    and v: "\<And>u. u \<noteq> t \<Longrightarrow> item_value s' (StateItem u) = item_value s (StateItem u)"
    and same: "pxDelayedTaskList s' = pxDelayedTaskList s" "pxOverflowDelayedTaskList s' = pxOverflowDelayedTaskList s"
      "xTickCount s' = xTickCount s" "xNextTaskUnblockTime s' \<le> xNextTaskUnblockTime s"
    and t: "container s' (StateItem t) = Some (pxDelayedTaskList s) \<Longrightarrow>
              xTickCount s < item_value s' (StateItem t) \<and> xNextTaskUnblockTime s' \<le> item_value s' (StateItem t)"
      "container s' (StateItem t) = Some (pxOverflowDelayedTaskList s) \<Longrightarrow> item_value s' (StateItem t) < xTickCount s"
  shows "delay_ok s'"
  unfolding delay_ok_def same
proof (intro conjI allI impI)
  note d = ok [unfolded delay_ok_def]
  show "pxDelayedTaskList s = DelayedTaskList1 \<and> pxOverflowDelayedTaskList s = DelayedTaskList2 \<or>
     pxDelayedTaskList s = DelayedTaskList2 \<and> pxOverflowDelayedTaskList s = DelayedTaskList1" using d by blast
  fix u
  show "xTickCount s < item_value s' (StateItem u)" if "container s' (StateItem u) = Some (pxDelayedTaskList s)"
    using that d t(1) cont v by (cases "u = t") auto
  show "xNextTaskUnblockTime s' \<le> item_value s' (StateItem u)" if "container s' (StateItem u) = Some (pxDelayedTaskList s)"
    using that d t(1) cont v same(4) by (cases "u = t") (auto intro: order_trans)
  show "item_value s' (StateItem u) < xTickCount s" if "container s' (StateItem u) = Some (pxOverflowDelayedTaskList s)"
    using that d t(2) cont v by (cases "u = t") auto
qed

lemma one_core:
  assumes "base_ok s" "pxCurrentTCBs s c = Some t" "pxCurrentTCBs s k = Some t"
  shows "k = c"
  using base_okD(6) [OF assms(1)] assms(2,3) by (cases c; cases k) (auto simp: cur_ok_def)

section \<open>Blocking\<close>

text \<open>What \<^verbatim>\<open>prvAddCurrentTaskToDelayedList\<close> leaves behind for a task that was ready.\<close>

definition parked :: "(list_id \<Rightarrow> item list) \<Rightarrow> (list_id \<Rightarrow> item option) \<Rightarrow> list_id \<Rightarrow> (item \<Rightarrow> u32) \<Rightarrow> u32 \<Rightarrow> task \<Rightarrow> sched \<Rightarrow> sched" where
  "parked X Y l V N t s = s\<lparr>items := X, cursor := Y, item_value := V, container := (container s)(StateItem t := Some l),
     tcb := (tcb s)(t := (tcb s t)\<lparr>ucDelayAborted := False\<rparr>), xNextTaskUnblockTime := N\<rparr>"

lemma parked_sel [simp]:
  "items (parked X Y l V N t s) = X" "cursor (parked X Y l V N t s) = Y"
  "container (parked X Y l V N t s) = (container s)(StateItem t := Some l)"
  "item_value (parked X Y l V N t s) = V" "xNextTaskUnblockTime (parked X Y l V N t s) = N"
  "tcb (parked X Y l V N t s) = (tcb s)(t := (tcb s t)\<lparr>ucDelayAborted := False\<rparr>)"
  "pxCurrentTCBs (parked X Y l V N t s) = pxCurrentTCBs s" "tcb_live (parked X Y l V N t s) = tcb_live s"
  "pxDelayedTaskList (parked X Y l V N t s) = pxDelayedTaskList s"
  "pxOverflowDelayedTaskList (parked X Y l V N t s) = pxOverflowDelayedTaskList s"
  "xTickCount (parked X Y l V N t s) = xTickCount s" "reason (parked X Y l V N t s) = reason s"
  "xYieldPending (parked X Y l V N t s) = xYieldPending s"
  "uxDeletedTasksWaitingCleanUp (parked X Y l V N t s) = uxDeletedTasksWaitingCleanUp s"
  "same_attributes r (parked X Y l V N t s) = same_attributes r s"
  by (auto simp: parked_def same_attributes_def attributes_def)

definition wake_place :: "u32 \<Rightarrow> bool \<Rightarrow> sched \<Rightarrow> list_id" where
  "wake_place n forever s =
     (if n = portMAX_DELAY \<and> forever then SuspendedTaskList
      else if xTickCount s + n < xTickCount s then pxOverflowDelayedTaskList s else pxDelayedTaskList s)"

lemma order_insert:
  assumes "sorted_wrt (\<lambda>i j. v i \<le> v j) xs" "\<And>i. i \<in> set xs \<Longrightarrow> v' i = v i"
  shows "sorted_wrt (\<lambda>i j. v' i \<le> v' j) (vListInsert v' xs (x :: item))"
proof -
  have "sorted_wrt (\<lambda>i j. v' i \<le> v' j) xs" using assms by (auto intro: sorted_wrt_mono_rel [of xs "\<lambda>i j. v i \<le> v j"])
  then show ?thesis by (rule vListInsert_sorted)
qed

definition parked_at :: "u32 \<Rightarrow> list_id \<Rightarrow> task \<Rightarrow> sched \<Rightarrow> sched \<Rightarrow> bool" where
  "parked_at n l t s s' \<longleftrightarrow> (\<exists>X Y V N. s' = parked X Y l V N t s \<and> lists_ok s' \<and>
     wake_order s' DelayedTaskList1 \<and> wake_order s' DelayedTaskList2 \<and>
     (\<forall>i. i \<noteq> StateItem t \<longrightarrow> V i = item_value s i) \<and> N \<le> xNextTaskUnblockTime s \<and>
     (l \<noteq> SuspendedTaskList \<longrightarrow> V (StateItem t) = xTickCount s + n) \<and>
     (l = pxDelayedTaskList s \<longrightarrow> N \<le> xTickCount s + n))"

lemma parked_atI:
  assumes "s' = parked X Y l V N t s" "lists_ok s'" "wake_order s' DelayedTaskList1" "wake_order s' DelayedTaskList2"
    "\<And>i. i \<noteq> StateItem t \<Longrightarrow> V i = item_value s i" "N \<le> xNextTaskUnblockTime s"
    "l \<noteq> SuspendedTaskList \<Longrightarrow> V (StateItem t) = xTickCount s + n"
    "l = pxDelayedTaskList s \<Longrightarrow> N \<le> xTickCount s + n"
  shows "parked_at n l t s s'"
  unfolding parked_at_def using assms by blast

lemma add_delayed_run:
  assumes lists: "lists_ok s" and cur: "pxCurrentTCBs s c = Some t" and at: "container s (StateItem t) = Some k" "k \<noteq> TasksWaitingTermination"
    and two: "(pxDelayedTaskList s, pxOverflowDelayedTaskList s) \<in> {(DelayedTaskList1, DelayedTaskList2), (DelayedTaskList2, DelayedTaskList1)}"
    and ord: "wake_order s DelayedTaskList1" "wake_order s DelayedTaskList2"
  obtains s' where "prvAddCurrentTaskToDelayedList c n forever s = Inr s'" "parked_at n (wake_place n forever s) t s s'"
proof -
  let ?s0 = "upd_task t (\<lambda>b. b\<lparr>ucDelayAborted := False\<rparr>) s" and ?l = "wake_place n forever s"
  have lists0: "lists_ok ?s0" using lists by (simp add: upd_task_def lists_ok_def)
  have "container ?s0 (StateItem t) = Some k" using at by (simp add: upd_task_def)
  from remove_state_run [OF lists0 this] obtain Y where
    r1: "remove_state t ?s0 = Inr (without (StateItem t) Y ?s0)" and ok1: "lists_ok (without (StateItem t) Y ?s0)" by blast
  let ?s1 = "without (StateItem t) Y ?s0" and ?v = "xTickCount s + n"
  let ?F = "\<lambda>k. filter (\<lambda>j. j \<noteq> StateItem t) (items s k)"
  have start: "prvAddCurrentTaskToDelayedList c n forever s =
      (if n = portMAX_DELAY \<and> forever then insert_end SuspendedTaskList (StateItem t) ?s1
       else let s2 = set_value (StateItem t) ?v ?s1 in
            if ?v < xTickCount s then insert_sorted (pxOverflowDelayedTaskList s2) (StateItem t) s2
            else bind_res (insert_sorted (pxDelayedTaskList s2) (StateItem t) s2) (\<lambda>s3.
                   Inr (if ?v < xNextTaskUnblockTime s3 then s3\<lparr>xNextTaskUnblockTime := ?v\<rparr> else s3)))"
    using at by (simp add: prvAddCurrentTaskToDelayedList_def current_def cur r1 Let_def)
  have "\<exists>s'. prvAddCurrentTaskToDelayedList c n forever s = Inr s' \<and> parked_at n ?l t s s'"
  proof (cases "n = portMAX_DELAY \<and> forever")
    case True
    have "container ?s1 (StateItem t) = None" by simp
    from insert_end_run [OF ok1 this, of SuspendedTaskList] obtain X where
      X: "insert_end SuspendedTaskList (StateItem t) ?s1 = Inr (?s1\<lparr>items := (items ?s1)(SuspendedTaskList := X),
            container := (container ?s1)(StateItem t := Some SuspendedTaskList)\<rparr>)"
      "lists_ok (?s1\<lparr>items := (items ?s1)(SuspendedTaskList := X), container := (container ?s1)(StateItem t := Some SuspendedTaskList)\<rparr>)"
      by blast
    have place: "?l = SuspendedTaskList" using True by (simp add: wake_place_def)
    have eq: "?s1\<lparr>items := (items ?s1)(SuspendedTaskList := X), container := (container ?s1)(StateItem t := Some SuspendedTaskList)\<rparr> =
        parked (?F(SuspendedTaskList := X)) Y ?l (item_value s) (xNextTaskUnblockTime s) t s"
      by (rule sched.equality) (simp_all add: parked_def without_def upd_task_def place)
    let ?s' = "parked (?F(SuspendedTaskList := X)) Y ?l (item_value s) (xNextTaskUnblockTime s) t s"
    have run: "prvAddCurrentTaskToDelayedList c n forever s = Inr ?s'"
      unfolding start using True X(1) eq by simp
    have "wake_order ?s' k" if "k = DelayedTaskList1 \<or> k = DelayedTaskList2" for k
      using that ord wake_order_filter [of s k] by (auto simp: wake_order_def)
    then have "parked_at n ?l t s ?s'"
      using X(2) [unfolded eq] two by (intro parked_atI [OF refl]) (auto simp: place)
    with run show ?thesis by blast
  next
    case False
    let ?s2 = "set_value (StateItem t) ?v ?s1" and ?V = "(item_value s)(StateItem t := ?v)"
    let ?X = "?F(?l := vListInsert ?V (?F ?l) (StateItem t))"
      and ?N = "if ?l = pxDelayedTaskList s \<and> ?v < xNextTaskUnblockTime s then ?v else xNextTaskUnblockTime s"
    have l: "?l = (if ?v < xTickCount s then pxOverflowDelayedTaskList s else pxDelayedTaskList s)"
      using False by (auto simp: wake_place_def)
    have lk: "?l = DelayedTaskList1 \<or> ?l = DelayedTaskList2" using l two by auto
    have ne: "pxOverflowDelayedTaskList s \<noteq> pxDelayedTaskList s" using two by auto
    have lists2: "lists_ok ?s2" using ok1 by (simp add: set_value_def lists_ok_def)
    have V2: "item_value ?s2 = ?V" by (simp add: set_value_def upd_task_def)
    have free: "container ?s2 (StateItem t) = None" by (simp add: set_value_def)
    note ins = insert_sorted_run [OF lists2 free, of ?l, unfolded V2]
    let ?s' = "parked ?X Y ?l ?V ?N t s"
    have fields: "items ?s2 = ?F" "pxOverflowDelayedTaskList ?s2 = pxOverflowDelayedTaskList s"
      "pxDelayedTaskList ?s2 = pxDelayedTaskList s" by (simp_all add: set_value_def upd_task_def)
    define s3 where "s3 = ?s2\<lparr>items := (items ?s2)(?l := vListInsert ?V (items ?s2 ?l) (StateItem t)), container := (container ?s2)(StateItem t := Some ?l)\<rparr>"
    have ins3: "insert_sorted ?l (StateItem t) ?s2 = Inr s3" "lists_ok s3" unfolding s3_def by (rule ins)+
    have n3: "xNextTaskUnblockTime s3 = xNextTaskUnblockTime s" by (simp add: s3_def set_value_def upd_task_def)
    have eq: "s3\<lparr>xNextTaskUnblockTime := M\<rparr> = parked ?X Y ?l ?V M t s" for M
      by (rule sched.equality) (simp_all add: s3_def parked_def without_def upd_task_def set_value_def fields)
    have same3: "s3 = parked ?X Y ?l ?V (xNextTaskUnblockTime s) t s"
      unfolding eq [symmetric] by (rule sched.equality) (simp_all add: n3)
    have run: "prvAddCurrentTaskToDelayedList c n forever s = Inr ?s'"
    proof (cases "?v < xTickCount s")
      case True
      then have "pxOverflowDelayedTaskList s = ?l" using l by simp
      then show ?thesis unfolding start Let_def fields using False True ins3(1) same3 ne by auto
    next
      case nw: False
      then have "pxDelayedTaskList s = ?l" using l by simp
      then have "prvAddCurrentTaskToDelayedList c n forever s =
          Inr (if ?v < xNextTaskUnblockTime s then s3\<lparr>xNextTaskUnblockTime := ?v\<rparr> else s3)"
        unfolding start Let_def fields if_not_P [OF False] if_not_P [OF nw] using ins3(1) n3 by simp
      with \<open>pxDelayedTaskList s = ?l\<close> show ?thesis using eq [of ?v] same3 by simp
    qed
    have ord': "wake_order ?s' k" if "k = DelayedTaskList1 \<or> k = DelayedTaskList2" for k
    proof -
      have srt: "sorted_wrt (\<lambda>i j. item_value s i \<le> item_value s j) (?F k)" using that ord wake_order_filter by blast
      have "sorted_wrt (\<lambda>i j. ?V i \<le> ?V j) (?F k)"
        by (rule sorted_wrt_mono_rel [OF _ srt]) auto
      moreover have "sorted_wrt (\<lambda>i j. ?V i \<le> ?V j) (vListInsert ?V (?F k) (StateItem t))"
        by (rule order_insert [OF srt]) auto
      moreover have "?X k = (if k = ?l then vListInsert ?V (?F k) (StateItem t) else ?F k)" by simp
      ultimately show ?thesis by (simp only: wake_order_def parked_sel simp_thms split: if_splits)
    qed
    have "lists_ok ?s'" using ins3(2) by (simp add: eq [symmetric] lists_ok_def)
    then have "parked_at n ?l t s ?s'"
    proof (rule parked_atI [OF refl])
      show "wake_order ?s' DelayedTaskList1" "wake_order ?s' DelayedTaskList2" by (rule ord', simp)+
    qed auto
    with run show ?thesis by blast
  qed
  then show thesis using that by blast
qed

lemma parked_ok:
  assumes ok: "sched_ok s" and r: "pxCurrentTCBs s c = Some t" "is_ready (container s (StateItem t))" "\<not> is_idle s t"
    and start: "same_attributes s s0" "container s0 = (container s)(EventItem t := e)" "e = None \<or> (\<exists>n. e = Some (EventList n))"
      "uxDeletedTasksWaitingCleanUp s0 = uxDeletedTasksWaitingCleanUp s" "reason s0 = reason s" "xYieldPending s0 = xYieldPending s"
      "\<And>u. item_value s0 (StateItem u) = item_value s (StateItem u)" "pxDelayedTaskList s0 = pxDelayedTaskList s"
      "pxOverflowDelayedTaskList s0 = pxOverflowDelayedTaskList s" "xTickCount s0 = xTickCount s"
      "xNextTaskUnblockTime s0 = xNextTaskUnblockTime s"
    and n: "0 < n" and p: "parked_at n (wake_place n forever s) t s0 s'"
  shows "sched_ok (esp_crosscore_int_send_yield c s')"
proof -
  let ?l = "wake_place n forever s" and ?s = "esp_crosscore_int_send_yield c s'"
  note delay = sched_okD(3) [OF ok] and base = sched_okD(2) [OF ok]
  from p obtain X Y V N where s': "s' = parked X Y ?l V N t s0" and lists: "lists_ok s'"
    and ord: "wake_order s' DelayedTaskList1" "wake_order s' DelayedTaskList2"
    and V: "\<And>i. i \<noteq> StateItem t \<Longrightarrow> V i = item_value s0 i" and N: "N \<le> xNextTaskUnblockTime s"
    and vt: "?l \<noteq> SuspendedTaskList \<Longrightarrow> V (StateItem t) = xTickCount s + n"
    and nt: "?l = pxDelayedTaskList s \<Longrightarrow> N \<le> xTickCount s + n" unfolding parked_at_def start by blast
  have two: "pxDelayedTaskList s = DelayedTaskList1 \<and> pxOverflowDelayedTaskList s = DelayedTaskList2 \<or>
      pxDelayedTaskList s = DelayedTaskList2 \<and> pxOverflowDelayedTaskList s = DelayedTaskList1"
    using delay by (simp add: delay_ok_def)
  then have bl: "is_blocked (Some ?l)" "?l \<noteq> TasksWaitingTermination" by (auto simp: wake_place_def)
  have "same_attributes s ?s" using start(1) by (simp add: s')
  moreover have "container ?s = (container s)(StateItem t := Some ?l, EventItem t := e)"
    by (simp add: s' start fun_upd_twist)
  ultimately have lf: "left_for t ?l e s ?s" using bl start(3,4) by (simp add: left_for_def s')
  have live: "tcb_live s t" using base_okD(3) [OF base] r(2) by (auto simp: live_ok_def)
  have "base_ok ?s"
  proof (rule left_for_base [OF base lf live])
    show "container s (StateItem t) \<noteq> Some TasksWaitingTermination" using r(2) by auto
    show "switch_due ?s k" if "switch_due s k" for k using that start(5,6) by (simp add: switch_due_def s')
    show "switch_due ?s k" if "pxCurrentTCBs s k = Some t" for k
      using one_core [OF base r(1) that] by (simp add: switch_due_def)
  qed (rule r(3))
  moreover have "delay_ok ?s"
  proof (rule moved_delay [OF delay, of t])
    have grow: "xTickCount s < xTickCount s + n" if "\<not> xTickCount s + n < xTickCount s"
      using that n by (auto simp: not_less order_le_less)
    show "xTickCount s < item_value ?s (StateItem t) \<and> xNextTaskUnblockTime ?s \<le> item_value ?s (StateItem t)"
      if "container ?s (StateItem t) = Some (pxDelayedTaskList s)"
    proof -
      have l: "?l = pxDelayedTaskList s" using that by (simp add: s')
      then have "\<not> xTickCount s + n < xTickCount s" using two by (auto simp: wake_place_def split: if_splits)
      moreover have "?l \<noteq> SuspendedTaskList" using l two by auto
      ultimately show ?thesis using grow vt nt [OF l] by (simp add: s')
    qed
    show "item_value ?s (StateItem t) < xTickCount s" if "container ?s (StateItem t) = Some (pxOverflowDelayedTaskList s)"
    proof -
      have l: "?l = pxOverflowDelayedTaskList s" using that by (simp add: s')
      then have "xTickCount s + n < xTickCount s" using two by (auto simp: wake_place_def split: if_splits)
      moreover have "?l \<noteq> SuspendedTaskList" using l two by auto
      ultimately show ?thesis using vt by (simp add: s')
    qed
  qed (use V N start in \<open>simp_all add: s'\<close>)
  ultimately show ?thesis using lists ord by (simp add: sched_ok_def send_yield_ok)
qed

text \<open>A task that may block: it runs on this core, is ready, is not an idle task, and its scheduler runs.\<close>

definition may_block :: "core \<Rightarrow> sched \<Rightarrow> bool" where
  "may_block c s \<longleftrightarrow> uxSchedulerSuspended s c = 0 \<and>
     (\<exists>t. pxCurrentTCBs s c = Some t \<and> is_ready (container s (StateItem t)) \<and> \<not> is_idle s t)"

lemma ready_place: "is_ready l \<Longrightarrow> \<exists>p. l = Some (ReadyTasks p)"
  by (simp add: is_ready_def)

lemma block_run:
  assumes ok: "sched_ok s" and r: "pxCurrentTCBs s c = Some t" "is_ready (container s (StateItem t))" "\<not> is_idle s t"
    and n: "0 < n"
  obtains s' where "prvAddCurrentTaskToDelayedList c n forever s = Inr s'" "parked_at n (wake_place n forever s) t s s'"
    "sched_ok (esp_crosscore_int_send_yield c s')"
proof -
  obtain p where at: "container s (StateItem t) = Some (ReadyTasks p)" using ready_place [OF r(2)] by blast
  have two: "(pxDelayedTaskList s, pxOverflowDelayedTaskList s) \<in> {(DelayedTaskList1, DelayedTaskList2), (DelayedTaskList2, DelayedTaskList1)}"
    using sched_okD(3) [OF ok] by (auto simp: delay_ok_def)
  obtain s' where run: "prvAddCurrentTaskToDelayedList c n forever s = Inr s'"
    and p: "parked_at n (wake_place n forever s) t s s'"
    using add_delayed_run [OF sched_okD(1) [OF ok] r(1) at _ two sched_okD(4,5) [OF ok]] by blast
  have "container s (EventItem t) = None"
    using base_okD(4) [OF sched_okD(2) [OF ok]] r(2) at by (auto simp: wait_ok_def)
  then have "container s = (container s)(EventItem t := None)" by (simp add: fun_upd_idem)
  from parked_ok [OF ok r _ this _ _ _ _ _ _ _ _ _ n p] have "sched_ok (esp_crosscore_int_send_yield c s')"
    by (simp add: same_attributes_def)
  with run p show thesis by (rule that)
qed

lemma delay_call_ok:
  assumes ok: "sched_ok s" and mb: "may_block c s"
  obtains s' where "vTaskDelay_smp c n s = Inr s'" "sched_ok s'"
proof (cases "0 < n")
  case True
  from mb obtain t where r: "pxCurrentTCBs s c = Some t" "is_ready (container s (StateItem t))" "\<not> is_idle s t"
    by (auto simp: may_block_def)
  from block_run [OF ok r True, of False] obtain s' where
    "prvAddCurrentTaskToDelayedList c n False s = Inr s'" "sched_ok (esp_crosscore_int_send_yield c s')" by blast
  then show thesis
    using True mb by (intro that) (simp_all add: vTaskDelay_smp_def may_block_def taskIS_SCHEDULER_SUSPENDED_def)
next
  case False
  then show thesis using that send_yield_ok(5) [OF ok, of c] by (auto simp: vTaskDelay_smp_def)
qed

lemma delay_until_call_ok:
  assumes ok: "sched_ok s" and mb: "may_block c s" and inc: "0 < n"
  obtains d w s' where "xTaskDelayUntil c (Some prev) n s = Inr (d, w, s')" "sched_ok s'"
proof -
  from mb obtain t where r: "pxCurrentTCBs s c = Some t" "is_ready (container s (StateItem t))" "\<not> is_idle s t"
    by (auto simp: may_block_def)
  let ?w = "prev + n" and ?now = "xTickCount s"
  define d where "d = (if ?now < prev then ?w < prev \<and> ?now < ?w else ?w < prev \<or> ?now < ?w)"
  have on: "\<not> taskIS_SCHEDULER_SUSPENDED c s" using mb by (simp add: may_block_def taskIS_SCHEDULER_SUSPENDED_def)
  have run: "xTaskDelayUntil c (Some prev) n s =
      bind_res (if d then prvAddCurrentTaskToDelayedList c (?w - ?now) False s else Inr s)
        (\<lambda>s1. Inr (d, ?w, esp_crosscore_int_send_yield c s1))"
    by (simp only: xTaskDelayUntil_def Let_def option.case res_simps on inc not_False_eq_True d_def)
  show thesis
  proof (cases d)
    case True
    then have "?w - ?now \<noteq> 0" by (auto simp: d_def split: if_splits)
    then have "0 < ?w - ?now" by (simp only: word_neq_0_conv)
    from block_run [OF ok r this, of False] obtain s' where
      "prvAddCurrentTaskToDelayedList c (?w - ?now) False s = Inr s'" "sched_ok (esp_crosscore_int_send_yield c s')" by blast
    with run show thesis by (intro that [of d ?w]) (simp_all only: True if_True res_simps)
  next
    case False
    with run send_yield_ok(5) [OF ok, of c] show thesis
      by (intro that [of d ?w]) (simp_all only: False if_False res_simps)
  qed
qed

section \<open>Waiting for events\<close>

lemma delay_two:
  "delay_ok s \<Longrightarrow> (pxDelayedTaskList s, pxOverflowDelayedTaskList s) \<in>
     {(DelayedTaskList1, DelayedTaskList2), (DelayedTaskList2, DelayedTaskList1)}"
  by (auto simp: delay_ok_def)

text \<open>Queueing the running task for an event, by whichever insertion, then blocking it.\<close>

lemma wait_run:
  assumes ok: "sched_ok s" and r: "pxCurrentTCBs s c = Some t" "is_ready (container s (StateItem t))" "\<not> is_idle s t"
    and n: "0 < n"
    and s0: "s0 = s\<lparr>items := (items s)(EventList e := X), container := (container s)(EventItem t := Some (EventList e))\<rparr>"
    and lists: "lists_ok s0"
  obtains s' where "prvAddCurrentTaskToDelayedList c n forever s0 = Inr s'"
    "sched_ok (esp_crosscore_int_send_yield c s')" "container s' (StateItem t) = Some (wake_place n forever s)"
    "container s' (EventItem t) = Some (EventList e)"
proof -
  obtain p where at: "container s (StateItem t) = Some (ReadyTasks p)" using ready_place [OF r(2)] by blast
  have "wake_order s0 DelayedTaskList1" "wake_order s0 DelayedTaskList2"
    using sched_okD(4,5) [OF ok] by (simp_all add: wake_order_def s0)
  moreover have "pxCurrentTCBs s0 c = Some t" "container s0 (StateItem t) = Some (ReadyTasks p)"
    "wake_place n forever s0 = wake_place n forever s" using r(1) at by (simp_all add: s0 wake_place_def)
  moreover have "(pxDelayedTaskList s0, pxOverflowDelayedTaskList s0) \<in>
     {(DelayedTaskList1, DelayedTaskList2), (DelayedTaskList2, DelayedTaskList1)}"
    using delay_two [OF sched_okD(3) [OF ok]] by (simp add: s0)
  ultimately obtain s' where run: "prvAddCurrentTaskToDelayedList c n forever s0 = Inr s'"
    and p: "parked_at n (wake_place n forever s) t s0 s'"
    using add_delayed_run [OF lists, of c t "ReadyTasks p"] by (metis list_id.distinct(7))
  have cont: "container s0 = (container s)(EventItem t := Some (EventList e))" by (simp add: s0)
  have "sched_ok (esp_crosscore_int_send_yield c s')"
    by (rule parked_ok [OF ok r _ cont _ _ _ _ _ _ _ _ _ n p]) (simp_all add: s0 same_attributes_def)
  then show thesis using run p by (intro that) (auto simp: parked_at_def cont)
qed

lemma event_free:
  assumes "sched_ok s" "is_ready (container s (StateItem t))"
  shows "container s (EventItem t) = None"
  using base_okD(4) [OF sched_okD(2) [OF assms(1)]] ready_place [OF assms(2)] by (auto simp: wait_ok_def)

lemma place_on_event_list_ok:
  assumes ok: "sched_ok s" and mb: "may_block c s" and n: "0 < n"
  obtains s' where "vTaskPlaceOnEventList_smp c e n s = Inr s'" "sched_ok (esp_crosscore_int_send_yield c s')"
proof -
  from mb obtain t where r: "pxCurrentTCBs s c = Some t" "is_ready (container s (StateItem t))" "\<not> is_idle s t"
    by (auto simp: may_block_def)
  note ins = insert_sorted_run [OF sched_okD(1) [OF ok] event_free [OF ok r(2)], of "EventList e"]
  from wait_run [OF ok r n refl ins(2), of True] obtain s' where
    "prvAddCurrentTaskToDelayedList c n True (s\<lparr>items := (items s)(EventList e := vListInsert (item_value s) (items s (EventList e)) (EventItem t)),
       container := (container s)(EventItem t := Some (EventList e))\<rparr>) = Inr s'"
    "sched_ok (esp_crosscore_int_send_yield c s')" by blast
  with ins(1) r(1) show thesis by (intro that) (simp_all add: vTaskPlaceOnEventList_smp_def current_def)
qed

lemma place_restricted_ok:
  assumes ok: "sched_ok s" and mb: "may_block c s" and n: "0 < n \<or> forever"
  obtains s' where "vTaskPlaceOnEventListRestricted c e n forever s = Inr s'"
    "sched_ok (esp_crosscore_int_send_yield c s')"
proof -
  from mb obtain t where r: "pxCurrentTCBs s c = Some t" "is_ready (container s (StateItem t))" "\<not> is_idle s t"
    by (auto simp: may_block_def)
  obtain X where ins: "insert_end (EventList e) (EventItem t) s =
      Inr (s\<lparr>items := (items s)(EventList e := X), container := (container s)(EventItem t := Some (EventList e))\<rparr>)"
    "lists_ok (s\<lparr>items := (items s)(EventList e := X), container := (container s)(EventItem t := Some (EventList e))\<rparr>)"
    using insert_end_run [OF sched_okD(1) [OF ok] event_free [OF ok r(2)]] by blast
  have "0 < (if forever then portMAX_DELAY else n)" using n by (auto simp: portMAX_DELAY_def)
  from wait_run [OF ok r this refl ins(2), of forever] obtain s' where
    "prvAddCurrentTaskToDelayedList c (if forever then portMAX_DELAY else n) forever
       (s\<lparr>items := (items s)(EventList e := X), container := (container s)(EventItem t := Some (EventList e))\<rparr>) = Inr s'"
    "sched_ok (esp_crosscore_int_send_yield c s')" by blast
  with ins(1) r(1) show thesis by (intro that) (simp_all add: vTaskPlaceOnEventListRestricted_def current_def)
qed

text \<open>A blocked task whose event item goes to the pending list of a suspended core.\<close>

lemma pending_ok:
  assumes ok: "sched_ok s" and bl: "is_blocked (container s (StateItem t))" and susp: "uxSchedulerSuspended s k \<noteq> 0"
    and s': "s' = s\<lparr>items := X, cursor := Y, container := (container s)(EventItem t := Some (PendingReady k))\<rparr>"
    and lists: "lists_ok s'" and ord: "wake_order s' DelayedTaskList1" "wake_order s' DelayedTaskList2"
  shows "sched_ok s'"
proof -
  note base = sched_okD(2) [OF ok]
  have "typed s'" using base_okD(1) [OF base] by (simp add: typed_def s')
  moreover have "ready_ok s'" "live_ok s'" "idle_ok s'" "cur_ok s'" "count_ok s'"
    using base_okD [OF base]
    by (simp_all add: base_parts prio_def s' taskIS_AFFINITY_COMPATIBLE_def switch_due_def)
  moreover have "wait_ok s'" using base_okD(4) [OF base] bl by (simp add: wait_ok_def s')
  moreover have "pend_ok s'" using base_okD(7) [OF base] susp by (simp add: pend_ok_def s')
  moreover have "delay_ok s'" using sched_okD(3) [OF ok] by (simp add: delay_ok_def s')
  ultimately show ?thesis using lists ord by (simp add: sched_ok_def base_ok_def)
qed

lemma yield_required_ok:
  assumes ok: "sched_ok s" and p: "p < configMAX_PRIORITIES"
  obtains y s' where "prvIsYieldRequiredSMP c t p eq s = Inr (y, s')" "sched_ok s'"
    "s' = s \<or> s' = esp_crosscore_int_send_yield (other c) s"
  using yield_required_run [OF base_okD(6) [OF sched_okD(2) [OF ok]] p, of c t eq] ok send_yield_ok(5) by metis

lemma blocked_live:
  assumes "sched_ok s" "is_blocked (container s (StateItem t)) \<or> is_ready (container s (StateItem t))"
  obtains l where "container s (StateItem t) = Some l" "tcb_live s t" "prio s t < configMAX_PRIORITIES"
    "container s (StateItem t) \<noteq> Some TasksWaitingTermination"
proof -
  obtain l where l: "container s (StateItem t) = Some l" using assms(2) by (cases "container s (StateItem t)") auto
  have "container s (StateItem t) \<noteq> Some TasksWaitingTermination" using assms(2) by auto
  with base_okD(3) [OF sched_okD(2) [OF assms(1)]] that [OF l] l show thesis by (auto simp: live_ok_def)
qed

lemma remove_from_event_list_ok:
  assumes ok: "sched_ok s"
  obtains y s' where "xTaskRemoveFromEventList_smp c e s = Inr (y, s')" "sched_ok s'"
proof (cases "items s (EventList e)")
  case Nil
  then show thesis using that ok by (auto simp: xTaskRemoveFromEventList_smp_def)
next
  case (Cons i js)
  note lists = sched_okD(1) [OF ok] and base = sched_okD(2) [OF ok]
  have at: "container s i = Some (EventList e)" using lists_okD(2) [OF lists, of i "EventList e"] Cons by simp
  then obtain t where i: "i = EventItem t" using event_item_kind [OF base_okD(1) [OF base], of i "EventList e"] by auto
  have ev: "container s (EventItem t) = Some (EventList e)" using at i by simp
  have bl: "is_blocked (container s (StateItem t))" using base_okD(4) [OF base] ev by (auto simp: wait_ok_def)
  obtain l where l: "container s (StateItem t) = Some l" "tcb_live s t" and pr: "prio s t < configMAX_PRIORITIES"
    and nt: "container s (StateItem t) \<noteq> Some TasksWaitingTermination" using blocked_live [OF ok] bl by blast
  obtain k s1 s2 where r1: "remove_item (EventItem t) s = Inr (k, s1)" and s1: "s1 = without (EventItem t) (cursor s1) s"
    and lists1: "lists_ok s1" and r2: "bind_res (remove_state t s1) (prvAddTaskToReadyList t) = Inr s2"
    and res: "ready_result t s s2" using ready_from_event [OF lists l(1) pr ev] by blast
  have can: "prvCheckTaskCanBeScheduledSMP s1 t = prvCheckTaskCanBeScheduledSMP s t"
    by (subst s1, simp only: prvCheckTaskCanBeScheduledSMP_def without_sel)
  let ?k = "case xCoreID (tcb s t) of None \<Rightarrow> c | Some k \<Rightarrow> k"
  obtain s3 where s3: "(if prvCheckTaskCanBeScheduledSMP s t then bind_res (remove_state t s1) (prvAddTaskToReadyList t)
      else assert_res (uxSchedulerSuspended s ?k \<noteq> 0) (insert_end (PendingReady ?k) (EventItem t) s1)) = Inr s3"
    and ok3: "sched_ok s3" and p3: "prio s3 = prio s"
  proof (cases "prvCheckTaskCanBeScheduledSMP s t")
    case True
    moreover have "prio s2 = prio s" using res by (auto simp: ready_result_def)
    ultimately show thesis using that [of s2] r2 ready_result_sched [OF res ok l(2) nt] by simp
  next
    case False
    then have susp: "uxSchedulerSuspended s ?k \<noteq> 0"
      by (cases c) (auto simp: prvCheckTaskCanBeScheduledSMP_def split: option.splits)
    have "container s1 (EventItem t) = None" by (subst s1) simp
    from insert_end_run [OF lists1 this] obtain X where
      ins: "insert_end (PendingReady ?k) (EventItem t) s1 = Inr (s1\<lparr>items := (items s1)(PendingReady ?k := X),
         container := (container s1)(EventItem t := Some (PendingReady ?k))\<rparr>)"
      and lists3: "lists_ok (s1\<lparr>items := (items s1)(PendingReady ?k := X),
         container := (container s1)(EventItem t := Some (PendingReady ?k))\<rparr>)" by blast
    let ?s3 = "s1\<lparr>items := (items s1)(PendingReady ?k := X), container := (container s1)(EventItem t := Some (PendingReady ?k))\<rparr>"
    have items1: "items s1 = (\<lambda>l. filter (\<lambda>j. j \<noteq> EventItem t) (items s l))" by (subst s1) simp
    have cont1: "container s1 = (container s)(EventItem t := None)" by (subst s1) simp
    have eq: "?s3 = s\<lparr>items := (items s1)(PendingReady ?k := X), cursor := cursor s1,
        container := (container s)(EventItem t := Some (PendingReady ?k))\<rparr>"
      unfolding cont1 by (subst s1) (simp add: without_def)
    have v3: "item_value ?s3 = item_value s" "prio ?s3 = prio s" by (subst eq, simp add: prio_def fun_eq_iff)+
    have "wake_order ?s3 d" if "d = DelayedTaskList1 \<or> d = DelayedTaskList2" for d
      using that sched_okD(4,5) [OF ok] wake_order_filter [of s d] unfolding wake_order_def v3 by (auto simp: items1)
    then have "sched_ok ?s3" by (intro pending_ok [OF ok bl susp eq lists3]) auto
    then show thesis using that [of ?s3] False susp ins v3 by simp
  qed
  obtain y s4 where y: "prvIsYieldRequiredSMP c t (prio s3 t) False s3 = Inr (y, s4)" and ok4: "sched_ok s4"
    using yield_required_ok [OF ok3] pr p3 by metis
  have sel1: "tcb s1 = tcb s" "uxSchedulerSuspended s1 = uxSchedulerSuspended s" by (subst s1, simp)+
  have "xTaskRemoveFromEventList_smp c e s = Inr (if y then (True, set_yield_pending c True s4) else (False, s4))"
    by (simp only: xTaskRemoveFromEventList_smp_def Cons list.case i owner.simps Let_def r1 res_simps case_prod_conv
        can sel1 s3 y)
  then have fin: "xTaskRemoveFromEventList_smp c e s = Inr (y, if y then set_yield_pending c True s4 else s4)" by simp
  show thesis by (rule that [OF fin]) (use ok4 set_yield_pending_ok(5) in auto)
qed

section \<open>Suspending, resuming and deleting tasks\<close>

lemma upd_task_sel [simp]:
  "items (upd_task t f s) = items s" "cursor (upd_task t f s) = cursor s" "container (upd_task t f s) = container s"
  "item_value (upd_task t f s) = item_value s" "tcb (upd_task t f s) = (tcb s)(t := f (tcb s t))"
  "tcb_live (upd_task t f s) = tcb_live s" "pxCurrentTCBs (upd_task t f s) = pxCurrentTCBs s"
  "reason (upd_task t f s) = reason s" "xYieldPending (upd_task t f s) = xYieldPending s"
  "uxSchedulerSuspended (upd_task t f s) = uxSchedulerSuspended s" "xTickCount (upd_task t f s) = xTickCount s"
  "xNextTaskUnblockTime (upd_task t f s) = xNextTaskUnblockTime s"
  "pxDelayedTaskList (upd_task t f s) = pxDelayedTaskList s"
  "pxOverflowDelayedTaskList (upd_task t f s) = pxOverflowDelayedTaskList s"
  "xSchedulerRunning (upd_task t f s) = xSchedulerRunning s" "xIdleTaskHandle (upd_task t f s) = xIdleTaskHandle s"
  "uxCurrentNumberOfTasks (upd_task t f s) = uxCurrentNumberOfTasks s"
  "uxDeletedTasksWaitingCleanUp (upd_task t f s) = uxDeletedTasksWaitingCleanUp s"
  "uxTopReadyPriority (upd_task t f s) = uxTopReadyPriority s"
  by (simp_all add: upd_task_def)

lemma upd_task_ok:
  assumes ok: "sched_ok s" and f: "attributes (f (tcb s t)) = attributes (tcb s t)"
  shows "sched_ok (upd_task t f s)"
proof -
  let ?s = "upd_task t f s"
  note base = sched_okD(2) [OF ok]
  have a: "prio ?s = prio s" "\<And>u. uxBasePriority (tcb ?s u) = uxBasePriority (tcb s u)" "\<And>u. xCoreID (tcb ?s u) = xCoreID (tcb s u)"
    using f by (auto simp: prio_def fun_eq_iff attributes_def)
  have "typed ?s = typed s" "ready_ok ?s = ready_ok s" "live_ok ?s = live_ok s" "wait_ok ?s = wait_ok s"
    "idle_ok ?s = idle_ok s" "cur_ok ?s = cur_ok s" "pend_ok ?s = pend_ok s" "count_ok ?s = count_ok s"
    by (simp_all only: base_parts taskIS_AFFINITY_COMPATIBLE_def switch_due_def upd_task_sel(1-4,6-) a)
  then have "base_ok ?s" using base_okD [OF base] by (simp add: base_ok_def)
  then show ?thesis
    using sched_okD [OF ok] by (simp add: sched_ok_def lists_ok_def delay_ok_def wake_order_def)
qed

lemma upd_without: "upd_task t f (without i Y s) = without i Y (upd_task t f s)"
  by (simp add: upd_task_def without_def)

lemma get_state_blocked:
  assumes "eTaskGetState (Some t) s = Inr eBlocked" "delay_ok s"
  shows "is_blocked (container s (StateItem t))"
  using assms delay_two [OF assms(2)] by (auto simp: eTaskGetState_def Let_def split: if_splits)

lemma abort_delay_ok:
  assumes ok: "sched_ok s"
  obtains r s' where "xTaskAbortDelay c (Some t) s = Inr (r, s')" "sched_ok s'"
proof -
  obtain st where st: "eTaskGetState (Some t) s = Inr st" by (simp add: eTaskGetState_def)
  show thesis
  proof (cases "st = eBlocked")
    case False
    then show thesis using that [of False s] st ok by (simp add: xTaskAbortDelay_def)
  next
    case True
    then have bl: "is_blocked (container s (StateItem t))" using get_state_blocked [OF _ sched_okD(3) [OF ok]] st by simp
    obtain l where l: "container s (StateItem t) = Some l" and live: "tcb_live s t" and pr: "prio s t < configMAX_PRIORITIES"
      and nt: "container s (StateItem t) \<noteq> Some TasksWaitingTermination" using blocked_live [OF ok] bl by blast
    obtain Y1 where r1: "remove_state t s = Inr (without (StateItem t) Y1 s)"
      and ok1: "lists_ok (without (StateItem t) Y1 s)" using remove_state_run [OF sched_okD(1) [OF ok] l] by blast
    let ?s1 = "without (StateItem t) Y1 s"
    obtain Y2 where r2: "unlink_event t ?s1 = Inr (without (EventItem t) Y2 ?s1)"
      and ok2: "lists_ok (without (EventItem t) Y2 ?s1)" using unlink_event_run [OF ok1] by blast
    let ?s2 = "without (EventItem t) Y2 ?s1"
    define f where "f = (if container ?s1 (EventItem t) \<noteq> None then (\<lambda>b. b\<lparr>ucDelayAborted := True\<rparr>) else (\<lambda>b :: tskTCB. b))"
    have s3: "(if container ?s1 (EventItem t) \<noteq> None then upd_task t (\<lambda>b. b\<lparr>ucDelayAborted := True\<rparr>) ?s2 else ?s2) = upd_task t f ?s2"
      by (simp add: f_def upd_task_def)
    have at: "attributes (f (tcb s t)) = attributes (tcb s t)" by (simp add: f_def attributes_def)
    then have pf: "prio (upd_task t f s) = prio s" by (auto simp: prio_def attributes_def fun_eq_iff)
    let ?u = "upd_task t f s"
    have "lists_ok (upd_task t f ?s2)" using ok2 by (simp add: lists_ok_def)
    moreover have "prio (upd_task t f ?s2) t < configMAX_PRIORITIES" using pr pf by (simp add: upd_without)
    ultimately obtain X where r3: "prvAddTaskToReadyList t (upd_task t f ?s2) = Inr (readied X Y2 t ?u)"
      and lists4: "lists_ok (readied X Y2 t ?u)"
      and X: "\<And>l. \<forall>p. l \<noteq> ReadyTasks p \<Longrightarrow> X l = filter (\<lambda>j. j \<noteq> EventItem t) (filter (\<lambda>j. j \<noteq> StateItem t) (items s l))"
      using add_ready_run [of "upd_task t f ?s2" t] by (auto simp: upd_without)
    have res: "ready_result t ?u (readied X Y2 t ?u)"
      by (rule ready_resultI [OF lists4]) (simp add: X filter_kept)
    have ok4: "sched_ok (readied X Y2 t ?u)"
      by (rule ready_result_sched [OF res upd_task_ok [of s f t, OF ok at]]) (use live nt in simp_all)
    obtain y s5 where y: "prvIsYieldRequiredSMP c t (prio (readied X Y2 t ?u) t) False (readied X Y2 t ?u) = Inr (y, s5)"
      and ok5: "sched_ok s5" using yield_required_ok [OF ok4] pr pf by (metis readied_sel(7))
    have "xTaskAbortDelay c (Some t) s = Inr (True, if y then set_yield_pending c True s5 else s5)"
      by (simp only: xTaskAbortDelay_def st True res_simps r1 r2 Let_def s3 r3 y case_prod_conv if_True simp_thms)
    then show thesis by (rule that) (use ok5 set_yield_pending_ok(5) in auto)
  qed
qed

end
