(* ===== verification/SchedulerTasks.thy ===== *)
theory SchedulerTasks
  imports SchedulerSteps
begin

text \<open>
  The life of a task: suspending, resuming, deleting and creating tasks, changing their priority, and
  the start of the kernel. Every call returns and keeps the invariant, when it is made the way the
  kernel's documentation allows.
\<close>

section \<open>Suspending and resuming\<close>

lemma reset_yield: "prvResetNextTaskUnblockTime (esp_crosscore_int_send_yield c s) =
    esp_crosscore_int_send_yield c (prvResetNextTaskUnblockTime s)"
  by (simp add: prvResetNextTaskUnblockTime_def esp_crosscore_int_send_yield_def split: list.split)

text \<open>The cores that are told to switch away from a task.\<close>

definition tell :: "task \<Rightarrow> sched \<Rightarrow> sched" where
  "tell t s = (if pxCurrentTCBs s Core0 = Some t then esp_crosscore_int_send_yield Core0 s
               else if pxCurrentTCBs s Core1 = Some t then esp_crosscore_int_send_yield Core1 s else s)"

lemma tell_cases: "tell t s = s \<and> \<not> taskIS_CURRENTLY_RUNNING s t \<or>
    (\<exists>c. pxCurrentTCBs s c = Some t \<and> tell t s = esp_crosscore_int_send_yield c s)"
  by (auto simp: tell_def taskIS_CURRENTLY_RUNNING_def)

lemma tell_sel [simp]:
  "items (tell t s) = items s" "cursor (tell t s) = cursor s" "container (tell t s) = container s"
  "item_value (tell t s) = item_value s" "pxDelayedTaskList (tell t s) = pxDelayedTaskList s"
  "pxOverflowDelayedTaskList (tell t s) = pxOverflowDelayedTaskList s" "xTickCount (tell t s) = xTickCount s"
  "xNextTaskUnblockTime (tell t s) = xNextTaskUnblockTime s" "same_attributes r (tell t s) = same_attributes r s"
  "uxDeletedTasksWaitingCleanUp (tell t s) = uxDeletedTasksWaitingCleanUp s"
  by (simp_all add: tell_def)

lemma tell_due:
  assumes "base_ok s" "reason s' = reason s" "xYieldPending s' = xYieldPending s" "pxCurrentTCBs s' = pxCurrentTCBs s"
  shows "switch_due s k \<Longrightarrow> switch_due (tell t s') k" "pxCurrentTCBs s k = Some t \<Longrightarrow> switch_due (tell t s') k"
proof -
  show "switch_due s k \<Longrightarrow> switch_due (tell t s') k" using assms(2-4) by (auto simp: tell_def switch_due_def)
  show "switch_due (tell t s') k" if "pxCurrentTCBs s k = Some t"
    using that one_core [OF assms(1) that] assms(4) by (cases k) (auto simp: tell_def switch_due_def)
qed

text \<open>Taking a task out of both of its lists.\<close>

lemma unlink_both_run:
  assumes "lists_ok s" "container s (StateItem t) = Some l"
  obtains Y1 Y2 where "remove_state t s = Inr (without (StateItem t) Y1 s)"
    "unlink_event t (without (StateItem t) Y1 s) = Inr (without (EventItem t) Y2 (without (StateItem t) Y1 s))"
    "lists_ok (without (EventItem t) Y2 (without (StateItem t) Y1 s))"
  using remove_state_run [OF assms] unlink_event_run by metis

definition may_leave :: "core \<Rightarrow> task \<Rightarrow> sched \<Rightarrow> bool" where
  "may_leave c t s \<longleftrightarrow> tcb_live s t \<and> container s (StateItem t) \<noteq> Some TasksWaitingTermination \<and> \<not> is_idle s t \<and>
     (pxCurrentTCBs s c = Some t \<longrightarrow> uxSchedulerSuspended s c = 0)"

lemma live_place:
  assumes "sched_ok s" "tcb_live s t"
  obtains l where "container s (StateItem t) = Some l" "prio s t < configMAX_PRIORITIES"
  using base_okD(3) [OF sched_okD(2) [OF assms(1)]] assms(2) by (auto simp: live_ok_def)

lemma leave_suspended_run:
  assumes "base_ok s" "pxCurrentTCBs s' = pxCurrentTCBs s" "xSchedulerRunning s' = xSchedulerRunning s"
    "uxSchedulerSuspended s' = uxSchedulerSuspended s" "pxCurrentTCBs s c = Some t \<longrightarrow> uxSchedulerSuspended s c = 0"
  shows "leave_suspended c t s' = Inr (tell t s')"
proof -
  have "xSchedulerRunning s" using base_okD(6) [OF assms(1)] by (simp add: cur_ok_def)
  moreover have "pxCurrentTCBs s c = Some t \<Longrightarrow> pxCurrentTCBs s (other c) \<noteq> Some t"
    using one_core [OF assms(1), of c t "other c"] by auto
  ultimately show ?thesis using assms(2-) by (cases c) (auto simp: leave_suspended_def tell_def)
qed

lemma suspend_ok:
  assumes ok: "sched_ok s" and ml: "may_leave c target s"
    and h: "h = Some target \<or> h = None \<and> pxCurrentTCBs s c = Some target"
  obtains s' where "vTaskSuspend c h s = Inr s'" "sched_ok s'" "container s' (StateItem target) = Some SuspendedTaskList"
    "pxCurrentTCBs s' = pxCurrentTCBs s" "uxSchedulerSuspended s' = uxSchedulerSuspended s"
proof -
  note base = sched_okD(2) [OF ok]
  from ml have live: "tcb_live s target" and nt: "container s (StateItem target) \<noteq> Some TasksWaitingTermination"
    and ni: "\<not> is_idle s target" and on: "pxCurrentTCBs s c = Some target \<longrightarrow> uxSchedulerSuspended s c = 0"
    by (auto simp: may_leave_def)
  obtain l where l: "container s (StateItem target) = Some l" using live_place [OF ok live] by blast
  have tgt: "prvGetTCBFromHandle c h s = Inr target" using h by (auto simp: prvGetTCBFromHandle_def current_def)
  obtain Y1 Y2 where r1: "remove_state target s = Inr (without (StateItem target) Y1 s)"
    and r2: "unlink_event target (without (StateItem target) Y1 s) = Inr (without (EventItem target) Y2 (without (StateItem target) Y1 s))"
    and lists2: "lists_ok (without (EventItem target) Y2 (without (StateItem target) Y1 s))"
    using unlink_both_run [OF sched_okD(1) [OF ok] l] by blast
  let ?s2 = "without (EventItem target) Y2 (without (StateItem target) Y1 s)"
  have "container ?s2 (StateItem target) = None" by simp
  from insert_end_run [OF lists2 this] obtain X where
    r3: "insert_end SuspendedTaskList (StateItem target) ?s2 = Inr (?s2\<lparr>items := (items ?s2)(SuspendedTaskList := X),
       container := (container ?s2)(StateItem target := Some SuspendedTaskList)\<rparr>)"
    and lists3: "lists_ok (?s2\<lparr>items := (items ?s2)(SuspendedTaskList := X),
       container := (container ?s2)(StateItem target := Some SuspendedTaskList)\<rparr>)" by blast
  define s4 where "s4 = upd_task target stop_waiting_notification (?s2\<lparr>items := (items ?s2)(SuspendedTaskList := X),
       container := (container ?s2)(StateItem target := Some SuspendedTaskList)\<rparr>)"
  have attr: "same_attributes s s4"
    by (simp add: s4_def same_attributes_def attributes_def stop_waiting_notification_def without_def)
  have f4: "container s4 = (container s)(StateItem target := Some SuspendedTaskList, EventItem target := None)"
    "reason s4 = reason s" "xYieldPending s4 = xYieldPending s" "item_value s4 = item_value s"
    "uxDeletedTasksWaitingCleanUp s4 = uxDeletedTasksWaitingCleanUp s" "pxDelayedTaskList s4 = pxDelayedTaskList s"
    "pxOverflowDelayedTaskList s4 = pxOverflowDelayedTaskList s" "xTickCount s4 = xTickCount s"
    "xNextTaskUnblockTime s4 = xNextTaskUnblockTime s"
    by (simp_all add: s4_def fun_upd_twist without_def)
  note cur4 = same_attributesD(6,7,10) [OF attr]
  have "left_for target SuspendedTaskList None s (tell target s4)" using attr f4 by (simp add: left_for_def)
  then have "base_ok (tell target s4)"
    by (rule left_for_base [OF base _ live nt ni]) (rule tell_due [OF base f4(2,3) cur4(2)], assumption)+
  moreover have "delay_ok (tell target s4)"
    by (rule moved_delay [OF sched_okD(3) [OF ok], of target])
       (use delay_two [OF sched_okD(3) [OF ok]] in \<open>auto simp: f4\<close>)
  moreover have "lists_ok (tell target s4)" using lists3 by (simp add: lists_ok_def s4_def)
  moreover have "wake_order (tell target s4) d" if "d = DelayedTaskList1 \<or> d = DelayedTaskList2" for d
    using that sched_okD(4,5) [OF ok] wake_order_filter [of s d] unfolding wake_order_def by (auto simp: s4_def without_def)
  ultimately have "sched_ok (tell target s4)" by (simp add: sched_ok_def)
  then have ok5: "sched_ok (tell target (prvResetNextTaskUnblockTime s4))"
    using reset_next_ok by (fastforce simp: tell_def reset_yield [symmetric] split: if_splits)
  have run4: "xSchedulerRunning s4" using cur4(1) base_okD(6) [OF base] by (simp add: cur_ok_def)
  have leave: "leave_suspended c target (prvResetNextTaskUnblockTime s4) = Inr (tell target (prvResetNextTaskUnblockTime s4))"
    by (rule leave_suspended_run [OF base]) (use cur4 on in simp_all)
  have "vTaskSuspend c h s = Inr (tell target (prvResetNextTaskUnblockTime s4))"
    by (simp only: vTaskSuspend_def tgt r1 r2 r3 res_simps Let_def s4_def [symmetric] run4 if_True leave)
  then show thesis by (rule that [OF _ ok5]) (use cur4 in \<open>simp_all add: f4 tell_def\<close>)
qed

lemma resume_ok:
  assumes ok: "sched_ok s"
  obtains s' where "vTaskResume c (Some t) s = Inr s'" "sched_ok s'"
proof (cases "\<not> taskIS_CURRENTLY_RUNNING s t \<and> prvTaskIsTaskSuspended t s")
  case False
  then have "vTaskResume c (Some t) s = Inr s" by (simp only: vTaskResume_def option.case if_False)
  then show thesis using ok by (rule that)
next
  case True
  then have at: "container s (StateItem t) = Some SuspendedTaskList" and ev: "container s (EventItem t) = None"
    by (simp_all add: prvTaskIsTaskSuspended_def)
  have live: "tcb_live s t" and pr: "prio s t < configMAX_PRIORITIES" and nt: "container s (StateItem t) \<noteq> Some TasksWaitingTermination"
    using blocked_live [OF ok, of t] at by auto
  obtain s2 where run: "bind_res (remove_state t s) (prvAddTaskToReadyList t) = Inr s2" and res: "ready_result t s s2"
    using ready_plain [OF sched_okD(1) [OF ok] at pr ev] by blast
  have ok2: "sched_ok s2" by (rule ready_result_sched [OF res ok live nt])
  have "prio s2 = prio s" using res by (auto simp: ready_result_def)
  then obtain y s3 where y: "prvIsYieldRequiredSMP c t (prio s2 t) True s2 = Inr (y, s3)" and ok3: "sched_ok s3"
    using yield_required_ok [OF ok2] pr by metis
  from run obtain s1 where "remove_state t s = Inr s1" "prvAddTaskToReadyList t s1 = Inr s2"
    by (auto simp: bind_res_eq_Inr_iff)
  then have "vTaskResume c (Some t) s = Inr (if y then esp_crosscore_int_send_yield c s3 else s3)"
    using True y by (simp add: vTaskResume_def)
  then show thesis by (rule that) (use ok3 send_yield_ok(5) in auto)
qed

text \<open>
  An interrupt may resume a task that its core can schedule, or one that it must put aside while its own
  core is suspended. (The code also puts a task aside when only the core it is pinned to is suspended.)
\<close>

definition may_resume_isr :: "core \<Rightarrow> task \<Rightarrow> sched \<Rightarrow> bool" where
  "may_resume_isr c t s \<longleftrightarrow> prvCheckTaskCanBeScheduledSMP s t \<or> uxSchedulerSuspended s c \<noteq> 0"

lemma resume_from_isr_ok:
  assumes ok: "sched_ok s" and mr: "may_resume_isr c t s"
  obtains y s' where "xTaskResumeFromISR c (Some t) s = Inr (y, s')" "sched_ok s'"
proof (cases "prvTaskIsTaskSuspended t s")
  case False
  then show thesis using that [of False s] ok by (simp add: xTaskResumeFromISR_def)
next
  case True
  then have at: "container s (StateItem t) = Some SuspendedTaskList" and ev: "container s (EventItem t) = None"
    by (simp_all add: prvTaskIsTaskSuspended_def)
  have live: "tcb_live s t" and pr: "prio s t < configMAX_PRIORITIES"
    using blocked_live [OF ok, of t] at by auto
  show thesis
  proof (cases "prvCheckTaskCanBeScheduledSMP s t")
    case can: True
    obtain y s1 where y: "prvIsYieldRequiredSMP c t (prio s t) True s = Inr (y, s1)" and ok1: "sched_ok s1"
      and s1: "s1 = s \<or> s1 = esp_crosscore_int_send_yield (other c) s" using yield_required_ok [OF ok pr] by blast
    let ?s2 = "if y then set_yield_pending c True s1 else s1"
    have ok2: "sched_ok ?s2" using ok1 set_yield_pending_ok(5) by simp
    have same: "container ?s2 = container s" "prio ?s2 = prio s" "tcb_live ?s2 = tcb_live s" using s1 by auto
    then have at2: "container ?s2 (StateItem t) = Some SuspendedTaskList" and ev2: "container ?s2 (EventItem t) = None"
      and pr2: "prio ?s2 t < configMAX_PRIORITIES" using at ev pr by simp_all
    obtain s4 where run: "bind_res (remove_state t ?s2) (prvAddTaskToReadyList t) = Inr s4" and res: "ready_result t ?s2 s4"
      using ready_plain [OF sched_okD(1) [OF ok2] at2 pr2 ev2] by blast
    have ok4: "sched_ok s4" by (rule ready_result_sched [OF res ok2]) (use live same at in simp_all)
    from run obtain s3 where "remove_state t ?s2 = Inr s3" "prvAddTaskToReadyList t s3 = Inr s4"
      by (auto simp: bind_res_eq_Inr_iff)
    then have "xTaskResumeFromISR c (Some t) s = Inr (y, s4)"
      using True can y by (simp add: xTaskResumeFromISR_def Let_def)
    then show thesis by (rule that [OF _ ok4])
  next
    case False
    then have susp: "uxSchedulerSuspended s c \<noteq> 0" using mr by (simp add: may_resume_isr_def)
    obtain X where ins: "insert_end (PendingReady c) (EventItem t) s =
        Inr (s\<lparr>items := (items s)(PendingReady c := X), container := (container s)(EventItem t := Some (PendingReady c))\<rparr>)"
      and lists: "lists_ok (s\<lparr>items := (items s)(PendingReady c := X), container := (container s)(EventItem t := Some (PendingReady c))\<rparr>)"
      using insert_end_run [OF sched_okD(1) [OF ok] ev] by blast
    have "sched_ok (s\<lparr>items := (items s)(PendingReady c := X), container := (container s)(EventItem t := Some (PendingReady c))\<rparr>)"
    proof (rule pending_ok [OF ok _ susp, where t = t and X = "(items s)(PendingReady c := X)" and Y = "cursor s"])
      show "is_blocked (container s (StateItem t))" by (simp add: at)
    qed (use lists sched_okD(4,5) [OF ok] in \<open>simp_all add: wake_order_def\<close>)
    moreover have "xTaskResumeFromISR c (Some t) s = Inr (False,
        s\<lparr>items := (items s)(PendingReady c := X), container := (container s)(EventItem t := Some (PendingReady c))\<rparr>)"
      using ins True False by (simp add: xTaskResumeFromISR_def)
    ultimately show thesis using that by blast
  qed
qed

section \<open>Deleting tasks\<close>

lemma card_remove:
  assumes "finite A" "t \<in> A"
  shows "of_nat (card (A - {t})) = (of_nat (card A) - 1 :: u32)"
proof -
  have "(of_nat (card A) :: u32) = of_nat (Suc (card (A - {t})))" by (simp only: card.remove [OF assms])
  then show ?thesis by (simp only: of_nat_Suc add_diff_cancel_left')
qed

lemma freed_base:
  assumes ok: "base_ok s" and live: "tcb_live s t" and ni: "\<not> is_idle s t" and nr: "\<not> taskIS_CURRENTLY_RUNNING s t"
    and cont: "container s' = (container s)(StateItem t := None, EventItem t := None)"
    and live': "tcb_live s' = (tcb_live s)(t := False)"
    and same: "tcb s' = tcb s" "uxTopReadyPriority s' = uxTopReadyPriority s" "xSchedulerRunning s' = xSchedulerRunning s"
      "pxCurrentTCBs s' = pxCurrentTCBs s" "xIdleTaskHandle s' = xIdleTaskHandle s"
      "uxSchedulerSuspended s' = uxSchedulerSuspended s" "switch_due s' = switch_due s"
    and n: "uxCurrentNumberOfTasks s' = uxCurrentNumberOfTasks s - 1"
      "uxDeletedTasksWaitingCleanUp s' = uxDeletedTasksWaitingCleanUp s -
         (if container s (StateItem t) = Some TasksWaitingTermination then 1 else 0)"
  shows "base_ok s'"
  unfolding base_ok_def
proof (intro conjI)
  have pr: "prio s' = prio s" by (simp add: prio_def fun_eq_iff same)
  show "typed s'" using base_okD(1) [OF ok] by (auto simp: typed_def cont)
  show "ready_ok s'" using base_okD(2) [OF ok] by (auto simp: ready_ok_def cont same pr)
  have "tcb_live s' u \<longleftrightarrow> container s' (StateItem u) \<noteq> None" for u
    using base_okD(3) [OF ok] by (cases "u = t") (simp_all add: live_ok_def cont live')
  moreover have "tcb_live s' u \<Longrightarrow> tcb_live s u" for u by (simp add: live' split: if_splits)
  ultimately show "live_ok s'" using base_okD(3) [OF ok] unfolding live_ok_def same pr by blast
  show "wait_ok s'" using base_okD(4) [OF ok] by (auto simp: wait_ok_def cont)
  show "idle_ok s'"
    unfolding idle_ok_def same
  proof
    fix c
    obtain u where u: "xIdleTaskHandle s c = Some u" "xCoreID (tcb s u) = Some c" "is_ready (container s (StateItem u))"
      using base_okD(5) [OF ok] unfolding idle_ok_def by blast
    moreover have "u \<noteq> t" using u(1) ni by (cases c) (auto simp: is_idle_def)
    ultimately show "\<exists>u. xIdleTaskHandle s c = Some u \<and> xCoreID (tcb s u) = Some c \<and> is_ready (container s' (StateItem u))"
      by (auto simp: cont)
  qed
  show "cur_ok s'"
    unfolding cur_ok_def same
  proof (intro conjI allI)
    show "xSchedulerRunning s" "pxCurrentTCBs s Core0 \<noteq> pxCurrentTCBs s Core1"
      using base_okD(6) [OF ok] by (simp_all add: cur_ok_def)
    fix c
    obtain u where u: "pxCurrentTCBs s c = Some u" "tcb_live s u" "taskIS_AFFINITY_COMPATIBLE c s u"
      "is_ready (container s (StateItem u)) \<or> switch_due s c" using current_run [OF base_okD(6) [OF ok]] by blast
    moreover have "u \<noteq> t" using u(1) nr by (cases c) (auto simp: taskIS_CURRENTLY_RUNNING_def)
    ultimately show "\<exists>u. pxCurrentTCBs s c = Some u \<and> tcb_live s' u \<and> taskIS_AFFINITY_COMPATIBLE c s' u \<and>
          (is_ready (container s' (StateItem u)) \<or> switch_due s c)"
      by (auto simp: cont live' affinity_cong [OF same(1)])
  qed
  show "pend_ok s'" using base_okD(7) [OF ok] by (auto simp: pend_ok_def cont same)
  let ?D = "\<lambda>s. {u. container s (StateItem u) = Some TasksWaitingTermination}" and ?L = "{u. tcb_live s u}"
  note cnt = base_okD(8) [OF ok, unfolded count_ok_def]
  have fin: "finite ?L" using cnt by simp
  have finD: "finite (?D s)" using base_okD(3) [OF ok] by (auto simp: live_ok_def intro: finite_subset [OF _ fin])
  have L': "{u. tcb_live s' u} = ?L - {t}" by (auto simp: live')
  have "card (?L - {t}) < 2 ^ 32" using card_Diff1_le [of ?L t] cnt by linarith
  moreover have "of_nat (card (?L - {t})) = uxCurrentNumberOfTasks s - 1"
    using card_remove [OF fin, of t] live cnt by simp
  moreover have D': "?D s' = ?D s - {t}" by (auto simp: cont)
  have "of_nat (card (?D s - {t})) = uxDeletedTasksWaitingCleanUp s -
      (if container s (StateItem t) = Some TasksWaitingTermination then 1 else 0)"
  proof (cases "t \<in> ?D s")
    case True
    then show ?thesis using card_remove [OF finD True] cnt by simp
  next
    case False
    then have "?D s - {t} = ?D s" by blast
    then show ?thesis using cnt False by simp
  qed
  ultimately show "count_ok s'" unfolding count_ok_def L' D' n using fin by simp
qed

text \<open>The state after the control block of a task has been freed.\<close>

definition freed :: "task \<Rightarrow> (list_id \<Rightarrow> item option) \<Rightarrow> u32 \<Rightarrow> sched \<Rightarrow> sched" where
  "freed t Y number s =
     s\<lparr>items := (\<lambda>l. filter (kept t) (items s l)), cursor := Y,
       container := (container s)(StateItem t := None, EventItem t := None), tcb_live := (tcb_live s)(t := False),
       uxCurrentNumberOfTasks := uxCurrentNumberOfTasks s - 1,
       uxDeletedTasksWaitingCleanUp := uxDeletedTasksWaitingCleanUp s -
         (if container s (StateItem t) = Some TasksWaitingTermination then 1 else 0),
       uxTaskNumber := number\<rparr>"

lemma freed_ok:
  assumes ok: "sched_ok s" and live: "tcb_live s t" and ni: "\<not> is_idle s t" and nr: "\<not> taskIS_CURRENTLY_RUNNING s t"
    and lists: "lists_ok (freed t Y number s)"
  shows "sched_ok (freed t Y number s)"
proof -
  have "base_ok (freed t Y number s)"
    by (rule freed_base [OF sched_okD(2) [OF ok] live ni nr]) (simp_all add: freed_def fun_eq_iff switch_due_def)
  moreover have "delay_ok (freed t Y number s)"
    by (rule moved_delay [OF sched_okD(3) [OF ok], of t]) (simp_all add: freed_def)
  moreover have "wake_order (freed t Y number s) d" if "d = DelayedTaskList1 \<or> d = DelayedTaskList2" for d
    using that sched_okD(4,5) [OF ok] wake_order_filter [of s d "kept t"] by (auto simp: wake_order_def freed_def)
  ultimately show ?thesis using lists by (simp add: sched_ok_def)
qed

lemma terminating_task:
  assumes "sched_ok s" "i \<in> set (items s TasksWaitingTermination)"
  obtains t where "i = StateItem t" "container s (StateItem t) = Some TasksWaitingTermination"
    "container s (EventItem t) = None" "tcb_live s t" "\<not> is_idle s t"
proof -
  note base = sched_okD(2) [OF assms(1)]
  have at: "container s i = Some TasksWaitingTermination"
    using assms(2) by (simp add: lists_okD(2) [OF sched_okD(1) [OF assms(1)]])
  then obtain t where i: "i = StateItem t"
    using base_okD(1) [OF base] by (cases i) (auto simp: typed_def)
  have "is_ready (container s (StateItem u))" if "is_idle s u" for u
    using that base_okD(5) [OF base] by (auto simp: is_idle_def idle_ok_def core_all)
  from this [of t] have "\<not> is_idle s t" using at i by auto
  moreover have "container s (EventItem t) = None" using base_okD(4) [OF base] at i by (auto simp: wait_ok_def)
  moreover have "tcb_live s t" using base_okD(3) [OF base] at i by (simp add: live_ok_def)
  ultimately show thesis using that i at by blast
qed

lemma cleanup_step:
  assumes ok: "sched_ok s" and at: "container s (StateItem t) = Some TasksWaitingTermination"
    and ev: "container s (EventItem t) = None" and live: "tcb_live s t" "\<not> is_idle s t" "\<not> taskIS_CURRENTLY_RUNNING s t"
  obtains s1 where "remove_state t s = Inr s1"
    "sched_ok (prvDeleteTCB t (s1\<lparr>uxCurrentNumberOfTasks := uxCurrentNumberOfTasks s1 - 1,
                 uxDeletedTasksWaitingCleanUp := uxDeletedTasksWaitingCleanUp s1 - 1\<rparr>))"
proof -
  note lists = sched_okD(1) [OF ok]
  obtain Y where r: "remove_state t s = Inr (without (StateItem t) Y s)" and ok1: "lists_ok (without (StateItem t) Y s)"
    using remove_state_run [OF lists at] by blast
  let ?s1 = "without (StateItem t) Y s"
  have "EventItem t \<notin> set (items s l)" for l using ev by (simp add: lists_okD(2) [OF lists])
  then have "filter (\<lambda>j. j \<noteq> StateItem t) (items s l) = filter (kept t) (items s l)" for l
    by (intro filter_cong) (auto simp: kept_def)
  moreover have "(container s)(StateItem t := None, EventItem t := None) = (container s)(StateItem t := None)"
    using ev by (auto simp: fun_eq_iff)
  ultimately have eq: "prvDeleteTCB t (?s1\<lparr>uxCurrentNumberOfTasks := uxCurrentNumberOfTasks ?s1 - 1,
      uxDeletedTasksWaitingCleanUp := uxDeletedTasksWaitingCleanUp ?s1 - 1\<rparr>) = freed t Y (uxTaskNumber s) s"
    using at by (simp add: prvDeleteTCB_def freed_def without_def)
  have "lists_ok (freed t Y (uxTaskNumber s) s)" unfolding eq [symmetric] using ok1 by (simp add: prvDeleteTCB_def lists_ok_def)
  from freed_ok [OF ok live this] r show thesis using that unfolding eq [symmetric] by blast
qed

lemma check_termination_run:
  assumes "sched_ok s"
  shows "\<exists>s'. check_termination n s = Inr s' \<and> sched_ok s'"
  using assms
proof (induction n arbitrary: s)
  case (Suc n)
  show ?case
  proof (cases "filter (\<lambda>i. \<not> taskIS_CURRENTLY_RUNNING s (owner i)) (items s TasksWaitingTermination)")
    case Nil
    then show ?thesis using Suc.prems by simp
  next
    case (Cons i js)
    then have "i \<in> set (filter (\<lambda>i. \<not> taskIS_CURRENTLY_RUNNING s (owner i)) (items s TasksWaitingTermination))" by simp
    then have i: "i \<in> set (items s TasksWaitingTermination)" "\<not> taskIS_CURRENTLY_RUNNING s (owner i)" by simp_all
    obtain t where t: "i = StateItem t" "container s (StateItem t) = Some TasksWaitingTermination"
      "container s (EventItem t) = None" "tcb_live s t" "\<not> is_idle s t" using terminating_task [OF Suc.prems i(1)] by blast
    obtain s1 where "remove_state t s = Inr s1" and ok1: "sched_ok (prvDeleteTCB t (s1\<lparr>uxCurrentNumberOfTasks := uxCurrentNumberOfTasks s1 - 1,
                 uxDeletedTasksWaitingCleanUp := uxDeletedTasksWaitingCleanUp s1 - 1\<rparr>))"
      using cleanup_step [OF Suc.prems t(2-5)] i(2) t(1) by auto
    with Suc.IH [OF ok1] Cons t(1) show ?thesis by simp
  qed
qed simp

lemma cleanup_ok:
  assumes "sched_ok s"
  obtains s' where "prvCheckTasksWaitingTermination s = Inr s'" "sched_ok s'"
  using check_termination_run [OF assms] by (auto simp: prvCheckTasksWaitingTermination_def)

lemma delete_ok:
  assumes ok: "sched_ok s" and ml: "may_leave c t s" and h: "h = Some t \<or> h = None \<and> pxCurrentTCBs s c = Some t"
  obtains s' where "vTaskDelete c h s = Inr s'" "sched_ok s'"
proof -
  note base = sched_okD(2) [OF ok]
  from ml have live: "tcb_live s t" and nt: "container s (StateItem t) \<noteq> Some TasksWaitingTermination"
    and ni: "\<not> is_idle s t" and on: "pxCurrentTCBs s c = Some t \<longrightarrow> uxSchedulerSuspended s c = 0"
    by (auto simp: may_leave_def)
  obtain l where l: "container s (StateItem t) = Some l" using live_place [OF ok live] by blast
  have tgt: "prvGetTCBFromHandle c h s = Inr t" using h by (auto simp: prvGetTCBFromHandle_def current_def)
  obtain Y1 Y2 where r1: "remove_state t s = Inr (without (StateItem t) Y1 s)"
    and r2: "unlink_event t (without (StateItem t) Y1 s) = Inr (without (EventItem t) Y2 (without (StateItem t) Y1 s))"
    and lists2: "lists_ok (without (EventItem t) Y2 (without (StateItem t) Y1 s))"
    using unlink_both_run [OF sched_okD(1) [OF ok] l] by blast
  let ?s2 = "without (EventItem t) Y2 (without (StateItem t) Y1 s)"
  define s3 where "s3 = ?s2\<lparr>uxTaskNumber := uxTaskNumber ?s2 + 1\<rparr>"
  have cur3: "pxCurrentTCBs s3 = pxCurrentTCBs s" by (simp add: s3_def)
  have lists3: "lists_ok s3" using lists2 by (simp add: s3_def lists_ok_def)
  have items3: "items s3 l = filter (kept t) (items s l)" for l by (simp add: s3_def filter_kept)
  show thesis
  proof (cases "taskIS_CURRENTLY_RUNNING s t")
    case False
    then have nr: "pxCurrentTCBs s k \<noteq> Some t" for k by (cases k) (auto simp: taskIS_CURRENTLY_RUNNING_def)
    let ?f = "prvDeleteTCB t (s3\<lparr>uxCurrentNumberOfTasks := uxCurrentNumberOfTasks s3 - 1\<rparr>)"
    have eq: "?f = freed t Y2 (uxTaskNumber s + 1) s"
      using nt by (simp add: s3_def prvDeleteTCB_def freed_def without_def filter_kept)
    have "lists_ok (freed t Y2 (uxTaskNumber s + 1) s)"
      unfolding eq [symmetric] using lists3 by (simp add: prvDeleteTCB_def lists_ok_def)
    then have "sched_ok ?f" unfolding eq by (rule freed_ok [OF ok live ni False])
    then have "sched_ok (prvResetNextTaskUnblockTime ?f)" by (rule reset_next_ok)
    moreover have "prvResetNextTaskUnblockTime ?f =
        prvDeleteTCB t (prvResetNextTaskUnblockTime (s3\<lparr>uxCurrentNumberOfTasks := uxCurrentNumberOfTasks s3 - 1\<rparr>))"
      by (simp add: prvDeleteTCB_def prvResetNextTaskUnblockTime_def split: list.split)
    moreover have "vTaskDelete c h s = Inr (prvDeleteTCB t (prvResetNextTaskUnblockTime
        (s3\<lparr>uxCurrentNumberOfTasks := uxCurrentNumberOfTasks s3 - 1\<rparr>)))"
      by (simp only: vTaskDelete_def tgt r1 r2 res_simps Let_def s3_def [symmetric] cur3 nr simp_thms if_False)
    ultimately show thesis using that by simp
  next
    case True
    then have run: "pxCurrentTCBs s c = Some t \<or> pxCurrentTCBs s (other c) = Some t"
      by (cases c) (auto simp: taskIS_CURRENTLY_RUNNING_def)
    have "container s3 (StateItem t) = None" by (simp add: s3_def)
    from insert_end_run [OF lists3 this] obtain X where
      r4: "insert_end TasksWaitingTermination (StateItem t) s3 = Inr (s3\<lparr>items := (items s3)(TasksWaitingTermination := X),
         container := (container s3)(StateItem t := Some TasksWaitingTermination)\<rparr>)"
      and lists4: "lists_ok (s3\<lparr>items := (items s3)(TasksWaitingTermination := X),
         container := (container s3)(StateItem t := Some TasksWaitingTermination)\<rparr>)" by blast
    define s4 where "s4 = s3\<lparr>items := (items s3)(TasksWaitingTermination := X),
         container := (container s3)(StateItem t := Some TasksWaitingTermination)\<rparr>"
    define s5 where "s5 = s4\<lparr>uxDeletedTasksWaitingCleanUp := uxDeletedTasksWaitingCleanUp s4 + 1\<rparr>"
    have attr: "same_attributes s s5" by (simp add: s5_def s4_def s3_def same_attributes_def without_def)
    have f5: "container s5 = (container s)(StateItem t := Some TasksWaitingTermination, EventItem t := None)"
      "reason s5 = reason s" "xYieldPending s5 = xYieldPending s" "item_value s5 = item_value s"
      "uxDeletedTasksWaitingCleanUp s5 = uxDeletedTasksWaitingCleanUp s + 1" "pxDelayedTaskList s5 = pxDelayedTaskList s"
      "pxOverflowDelayedTaskList s5 = pxOverflowDelayedTaskList s" "xTickCount s5 = xTickCount s"
      "xNextTaskUnblockTime s5 = xNextTaskUnblockTime s"
      by (simp_all add: s5_def s4_def s3_def fun_upd_twist without_def)
    note cur5 = same_attributesD(6,7,10) [OF attr]
    have "left_for t TasksWaitingTermination None s (tell t s5)" using attr f5 by (simp add: left_for_def)
    then have "base_ok (tell t s5)"
      by (rule left_for_base [OF base _ live nt ni]) (rule tell_due [OF base f5(2,3) cur5(2)], assumption)+
    moreover have "delay_ok (tell t s5)"
      by (rule moved_delay [OF sched_okD(3) [OF ok], of t])
         (use delay_two [OF sched_okD(3) [OF ok]] in \<open>auto simp: f5\<close>)
    moreover have "lists_ok (tell t s5)" using lists4 by (simp add: lists_ok_def s5_def s4_def)
    moreover have "wake_order (tell t s5) d" if "d = DelayedTaskList1 \<or> d = DelayedTaskList2" for d
      using that sched_okD(4,5) [OF ok] wake_order_filter [of s d "kept t"] unfolding wake_order_def
      by (auto simp: f5(4), auto simp: s5_def s4_def items3)
    ultimately have ok5: "sched_ok (tell t s5)" by (simp add: sched_ok_def)
    have one: "pxCurrentTCBs s c = Some t \<Longrightarrow> pxCurrentTCBs s (other c) \<noteq> Some t"
      using one_core [OF base, of c t "other c"] by auto
    have running: "xSchedulerRunning s" using base_okD(6) [OF base] by (simp add: cur_ok_def)
    have "(if pxCurrentTCBs s c = Some t
           then if xSchedulerRunning s5
                then assert_res (\<not> taskIS_SCHEDULER_SUSPENDED c s5) (Inr (esp_crosscore_int_send_yield c s5)) else Inr s5
           else Inr (esp_crosscore_int_send_yield (other c) s5)) = Inr (tell t s5)"
      using run one on running cur5 by (cases c) (auto simp: tell_def taskIS_SCHEDULER_SUSPENDED_def)
    then have "vTaskDelete c h s = Inr (tell t s5)"
      using run by (simp only: vTaskDelete_def tgt r1 r2 r4 res_simps Let_def s3_def [symmetric] s4_def [symmetric]
          s5_def [symmetric] cur3 if_True)
    then show thesis using ok5 by (rule that)
  qed
qed

section \<open>Priorities\<close>

lemma set_value_sel [simp]:
  fixes s :: sched
  shows "items (set_value i v s) = items s" "cursor (set_value i v s) = cursor s"
  "container (set_value i v s) = container s" "tcb (set_value i v s) = tcb s" "prio (set_value i v s) = prio s"
  "tcb_live (set_value i v s) = tcb_live s" "pxCurrentTCBs (set_value i v s) = pxCurrentTCBs s"
  "reason (set_value i v s) = reason s" "uxSchedulerSuspended (set_value i v s) = uxSchedulerSuspended s"
  by (simp_all add: set_value_def prio_def fun_eq_iff)

lemma set_event_value_ok:
  assumes ok: "sched_ok s"
  shows "sched_ok (set_value (EventItem t) v s)"
proof -
  note lists = sched_okD(1) [OF ok] and base = sched_okD(2) [OF ok]
  have "base_ok (set_value (EventItem t) v s)"
    by (rule base_ok_frame [OF base]) (simp_all add: set_value_def switch_due_def)
  moreover have "delay_ok (set_value (EventItem t) v s)" using sched_okD(3) [OF ok] by (simp add: set_value_def delay_ok_def)
  moreover have "wake_order (set_value (EventItem t) v s) d" if d: "d = DelayedTaskList1 \<or> d = DelayedTaskList2" for d
  proof -
    have "EventItem t \<notin> set (items s d)"
      using delayed_list_items [OF lists base_okD(1) [OF base] _ d, of "EventItem t"] by blast
    then have eq: "((item_value s)(EventItem t := v)) i = item_value s i" if "i \<in> set (items s d)" for i using that by auto
    have srt: "sorted_wrt (\<lambda>i j. item_value s i \<le> item_value s j) (items s d)"
      using d sched_okD(4,5) [OF ok] by (auto simp: wake_order_def)
    have "sorted_wrt (\<lambda>i j. ((item_value s)(EventItem t := v)) i \<le> ((item_value s)(EventItem t := v)) j) (items s d)"
      by (rule sorted_wrt_mono_rel [OF _ srt]) (simp only: eq)
    moreover have "item_value (set_value (EventItem t) v s) = (item_value s)(EventItem t := v)" by (simp add: set_value_def)
    ultimately show ?thesis by (simp only: wake_order_def set_value_sel)
  qed
  ultimately show ?thesis using lists by (simp add: sched_ok_def lists_ok_def)
qed

lemma reset_event_value_ok: "sched_ok s \<Longrightarrow> sched_ok (reset_event_value t p s)"
  by (simp add: reset_event_value_def set_event_value_ok)

lemma reset_event_value_sel [simp]:
  "items (reset_event_value t p s) = items s" "container (reset_event_value t p s) = container s"
  "tcb (reset_event_value t p s) = tcb s" "prio (reset_event_value t p s) = prio s"
  "tcb_live (reset_event_value t p s) = tcb_live s" "pxCurrentTCBs (reset_event_value t p s) = pxCurrentTCBs s"
  by (simp_all add: reset_event_value_def)

text \<open>An update of a control block that sets priorities in range.\<close>

definition reprio :: "(tskTCB \<Rightarrow> tskTCB) \<Rightarrow> tskTCB \<Rightarrow> bool" where
  "reprio f b \<longleftrightarrow> uxPriority (f b) < configMAX_PRIORITIES \<and> uxBasePriority (f b) < configMAX_PRIORITIES \<and> xCoreID (f b) = xCoreID b"

lemma affinity_reprio:
  assumes "reprio f (tcb s t)" "tcb s' = (tcb s)(t := f (tcb s t))"
  shows "taskIS_AFFINITY_COMPATIBLE c s' u = taskIS_AFFINITY_COMPATIBLE c s u" "xCoreID (tcb s' u) = xCoreID (tcb s u)"
  using assms by (simp_all add: reprio_def taskIS_AFFINITY_COMPATIBLE_def)

lemma reprio_base:
  assumes ok: "base_ok s" and f: "reprio f (tcb s t)" and live: "tcb_live s t"
    and tcb: "tcb s' = (tcb s)(t := f (tcb s t))"
    and cont: "container s' = container s \<and> \<not> is_ready (container s (StateItem t)) \<and> uxTopReadyPriority s' = uxTopReadyPriority s \<or>
       container s' = (container s)(StateItem t := Some (ReadyTasks (unat (uxPriority (f (tcb s t)))))) \<and>
       is_ready (container s (StateItem t)) \<and> uxTopReadyPriority s' = max (uxTopReadyPriority s) (uxPriority (f (tcb s t)))"
    and same: "tcb_live s' = tcb_live s" "xSchedulerRunning s' = xSchedulerRunning s"
      "pxCurrentTCBs s' = pxCurrentTCBs s" "xIdleTaskHandle s' = xIdleTaskHandle s"
      "uxCurrentNumberOfTasks s' = uxCurrentNumberOfTasks s"
      "uxDeletedTasksWaitingCleanUp s' = uxDeletedTasksWaitingCleanUp s"
      "uxSchedulerSuspended s' = uxSchedulerSuspended s" "switch_due s' = switch_due s"
  shows "base_ok s'"
  unfolding base_ok_def
proof (intro conjI)
  note aff = affinity_reprio [OF f tcb]
  have pr: "prio s' u = (if u = t then uxPriority (f (tcb s t)) else prio s u)" for u by (simp add: prio_def tcb)
  have ready: "is_ready (container s' (StateItem u)) = is_ready (container s (StateItem u))" for u
    using cont by (cases "u = t") auto
  have rest: "container s' (StateItem u) = container s (StateItem u) \<or>
      u = t \<and> is_ready (container s (StateItem u)) \<and> is_ready (container s' (StateItem u))" for u
    using cont by (cases "u = t") auto
  have ev: "container s' (EventItem u) = container s (EventItem u)" for u using cont by auto
  have blk: "is_blocked (container s' (StateItem u)) = is_blocked (container s (StateItem u))" for u
    using rest [of u] by (auto simp: is_ready_def)
  have twt: "container s' (StateItem u) = Some TasksWaitingTermination \<longleftrightarrow> container s (StateItem u) = Some TasksWaitingTermination"
    and none: "container s' (StateItem u) = None \<longleftrightarrow> container s (StateItem u) = None" for u
    using rest [of u] by (auto simp: is_ready_def)
  show "typed s'" using base_okD(1) [OF ok] unfolding typed_def ready blk twt none ev .
  have le: "uxTopReadyPriority s \<le> uxTopReadyPriority s'" "uxTopReadyPriority s' < configMAX_PRIORITIES"
    using cont f base_okD(2) [OF ok] by (auto simp: ready_ok_def reprio_def max_def)
  have "p = unat (prio s' u) \<and> prio s' u \<le> uxTopReadyPriority s'" if "container s' (StateItem u) = Some (ReadyTasks p)" for u p
  proof (cases "u = t")
    case True
    then show ?thesis using cont that by (auto simp: pr max_def)
  next
    case False
    then have "container s (StateItem u) = Some (ReadyTasks p)" using cont that by auto
    then have "p = unat (prio s u) \<and> prio s u \<le> uxTopReadyPriority s" using base_okD(2) [OF ok] by (simp add: ready_ok_def)
    then show ?thesis using False le(1) by (auto simp: pr)
  qed
  then show "ready_ok s'" using le(2) by (simp add: ready_ok_def)
  have "tcb_live s u \<longrightarrow> prio s' u < configMAX_PRIORITIES \<and> uxBasePriority (tcb s' u) < configMAX_PRIORITIES" for u
    using base_okD(3) [OF ok] f by (auto simp: live_ok_def pr reprio_def tcb)
  then show "live_ok s'" using base_okD(3) [OF ok] unfolding live_ok_def same none by blast
  show "wait_ok s'" using base_okD(4) [OF ok] unfolding wait_ok_def blk ev .
  show "idle_ok s'" using base_okD(5) [OF ok] unfolding idle_ok_def same aff ready .
  show "cur_ok s'" using base_okD(6) [OF ok] unfolding cur_ok_def same aff ready .
  show "pend_ok s'" using base_okD(7) [OF ok] unfolding pend_ok_def same ev .
  show "count_ok s'" using base_okD(8) [OF ok] unfolding count_ok_def same twt .
qed

lemma reprio_waiting_ok:
  assumes ok: "sched_ok s" and f: "reprio f (tcb s t)" and live: "tcb_live s t" and nr: "\<not> is_ready (container s (StateItem t))"
  shows "sched_ok (upd_task t f s)"
proof -
  have "base_ok (upd_task t f s)"
    by (rule reprio_base [OF sched_okD(2) [OF ok] f live]) (use nr in \<open>simp_all add: switch_due_def fun_eq_iff\<close>)
  then show ?thesis using sched_okD [OF ok] by (simp add: sched_ok_def lists_ok_def delay_ok_def wake_order_def)
qed

lemma requeue_run:
  assumes ok: "sched_ok s" and f: "reprio f (tcb s t)" and live: "tcb_live s t" and r: "is_ready (container s (StateItem t))"
  obtains s2 s' where "remove_state t s = Inr s2" "prvAddTaskToReadyList t (upd_task t f s2) = Inr s'" "sched_ok s'"
proof -
  note lists = sched_okD(1) [OF ok]
  obtain p where at: "container s (StateItem t) = Some (ReadyTasks p)" using ready_place [OF r] by blast
  note ev = event_free [OF ok r]
  obtain Y where r1: "remove_state t s = Inr (without (StateItem t) Y s)" and ok1: "lists_ok (without (StateItem t) Y s)"
    using remove_state_run [OF lists at] by blast
  let ?u = "upd_task t f s"
  have eq: "upd_task t f (without (StateItem t) Y s) = without (StateItem t) Y ?u" by (rule upd_without)
  have "lists_ok (without (StateItem t) Y ?u)" using ok1 unfolding eq [symmetric] by (simp add: lists_ok_def)
  moreover have pr: "prio ?u t = uxPriority (f (tcb s t))" by (simp add: prio_def)
  then have "prio (without (StateItem t) Y ?u) t < configMAX_PRIORITIES" using f by (simp add: reprio_def)
  ultimately obtain X where r2: "prvAddTaskToReadyList t (without (StateItem t) Y ?u) = Inr (readied X Y t ?u)"
    and lists2: "lists_ok (readied X Y t ?u)"
    and X: "\<And>l. \<forall>p. l \<noteq> ReadyTasks p \<Longrightarrow> X l = filter (\<lambda>j. j \<noteq> StateItem t) (items s l)"
    using add_ready_run [of "without (StateItem t) Y ?u" t] ev by auto
  have cont: "container (readied X Y t ?u) = (container s)(StateItem t := Some (ReadyTasks (unat (uxPriority (f (tcb s t))))))"
    using ev pr by (auto simp: fun_eq_iff)
  have "base_ok (readied X Y t ?u)"
    by (rule reprio_base [OF sched_okD(2) [OF ok] f live]) (use r cont pr in \<open>simp_all add: switch_due_def fun_eq_iff\<close>)
  moreover have "delay_ok (readied X Y t ?u)"
    by (rule readied_delay) (use sched_okD(3) [OF ok] in \<open>simp add: delay_ok_def\<close>)
  moreover have "wake_order (readied X Y t ?u) d" if "d = DelayedTaskList1 \<or> d = DelayedTaskList2" for d
    using that sched_okD(4,5) [OF ok] wake_order_filter [of s d "\<lambda>j. j \<noteq> StateItem t"] by (auto simp: wake_order_def X)
  ultimately have "sched_ok (readied X Y t ?u)" using lists2 by (simp add: sched_ok_def)
  with r1 r2 show thesis unfolding eq [symmetric] by (rule that)
qed

lemma remove_state_upd:
  "remove_state t (upd_task u f s) = bind_res (remove_state t s) (\<lambda>s'. Inr (upd_task u f s'))"
  by (simp add: remove_state_def remove_item_def upd_task_def bind_res_def split: option.splits sum.splits)

lemma remove_state_set_value:
  "remove_state t (set_value i v s) = bind_res (remove_state t s) (\<lambda>s'. Inr (set_value i v s'))"
  by (simp add: remove_state_def remove_item_def set_value_def bind_res_def split: option.splits sum.splits)

lemma add_ready_set_value:
  "prvAddTaskToReadyList t (set_value i v s) = bind_res (prvAddTaskToReadyList t s) (\<lambda>s'. Inr (set_value i v s'))"
  by (simp add: prvAddTaskToReadyList_def ready_list_def taskRECORD_READY_PRIORITY_def insert_end_def set_value_def
      bind_res_def prio_def Let_def split: option.splits sum.splits)

lemma requeue_ready_run:
  assumes ok: "sched_ok s" and f: "reprio f (tcb s t)" and live: "tcb_live s t" and old: "prio s t = old"
  obtains s' where "requeue_ready old t (reset_event_value t p (upd_task t f s)) = Inr s'" "sched_ok s'"
proof -
  let ?b = "item_value s (EventItem t) AND taskEVENT_LIST_ITEM_VALUE_IN_USE = 0"
  define g where "g s = (if ?b then set_value (EventItem t) (configMAX_PRIORITIES - p) s else s)" for s :: sched
  have g: "reset_event_value t p (upd_task t f s) = g (upd_task t f s)" by (simp add: reset_event_value_def g_def)
  have gok: "sched_ok r \<Longrightarrow> sched_ok (g r)" for r by (simp add: g_def set_event_value_ok)
  have grem: "remove_state t (g r) = bind_res (remove_state t r) (\<lambda>s'. Inr (g s'))" for r
    by (cases "remove_state t r") (simp_all add: g_def remove_state_set_value)
  have gadd: "prvAddTaskToReadyList t (g r) = bind_res (prvAddTaskToReadyList t r) (\<lambda>s'. Inr (g s'))" for r
    by (cases "prvAddTaskToReadyList t r") (simp_all add: g_def add_ready_set_value)
  have gc: "container (g r) = container r" for r by (simp add: g_def)
  have l: "ready_list old = Inr (ReadyTasks (unat old))"
    using ready_list_prio [OF sched_okD(2) [OF ok] live] old by simp
  have iff: "container s (StateItem t) = Some (ReadyTasks (unat old)) \<longleftrightarrow> is_ready (container s (StateItem t))"
    using base_okD(2) [OF sched_okD(2) [OF ok]] old by (auto simp: ready_ok_def is_ready_def)
  show thesis
  proof (cases "is_ready (container s (StateItem t))")
    case True
    obtain s2 s' where "remove_state t s = Inr s2" "prvAddTaskToReadyList t (upd_task t f s2) = Inr s'" "sched_ok s'"
      using requeue_run [OF ok f live True] by blast
    then show thesis using True iff gok by (intro that [of "g s'"]) (simp_all add: requeue_ready_def l g gc grem gadd remove_state_upd)
  next
    case False
    then show thesis using iff gok reprio_waiting_ok [OF ok f live False]
      by (intro that [of "g (upd_task t f s)"]) (simp_all add: requeue_ready_def l g gc)
  qed
qed

lemma priority_set_ok:
  assumes ok: "sched_ok s" and live: "tcb_live s t" and p: "p < configMAX_PRIORITIES"
    and h: "h = Some t \<or> h = None \<and> pxCurrentTCBs s c = Some t"
  obtains s' where "vTaskPrioritySet c h p s = Inr s'" "sched_ok s'"
proof -
  have tgt: "prvGetTCBFromHandle c h s = Inr t" using h by (auto simp: prvGetTCBFromHandle_def current_def)
  let ?base = "uxBasePriority (tcb s t)"
  show thesis
  proof (cases "?base = p")
    case True
    then show thesis using that [of s] ok p by (simp add: vTaskPrioritySet_def tgt Let_def)
  next
    case False
    have "\<exists>y s1. (if ?base < p
               then (if taskIS_CURRENTLY_RUNNING s t then Inr (False, s) else prvIsYieldRequiredSMP c t p True s)
               else if pxCurrentTCBs s c = Some t then Inr (True, s)
               else if pxCurrentTCBs s (other c) = Some t then Inr (False, esp_crosscore_int_send_yield (other c) s)
               else Inr (False, s)) = Inr (y, s1) \<and> sched_ok s1 \<and> (s1 = s \<or> s1 = esp_crosscore_int_send_yield (other c) s)"
    proof (cases "?base < p \<and> \<not> taskIS_CURRENTLY_RUNNING s t")
      case True
      then show ?thesis using yield_required_ok [OF ok p, of c t True] by (simp only: if_True if_False simp_thms) metis
    next
      case False
      then show ?thesis using ok send_yield_ok(5) [OF ok, of "other c"]
        by (simp split: if_split) (auto intro: exI [of _ False] exI [of _ True])
    qed
    then obtain y s1 where y: "(if ?base < p
               then (if taskIS_CURRENTLY_RUNNING s t then Inr (False, s) else prvIsYieldRequiredSMP c t p True s)
               else if pxCurrentTCBs s c = Some t then Inr (True, s)
               else if pxCurrentTCBs s (other c) = Some t then Inr (False, esp_crosscore_int_send_yield (other c) s)
               else Inr (False, s)) = Inr (y, s1)" and ok1: "sched_ok s1"
      and s1: "s1 = s \<or> s1 = esp_crosscore_int_send_yield (other c) s" by blast
    let ?f = "\<lambda>b :: tskTCB. (if uxBasePriority b = uxPriority b then b\<lparr>uxPriority := p\<rparr> else b)\<lparr>uxBasePriority := p\<rparr>"
    have live1: "tcb_live s1 t" using s1 live by auto
    then have "prio s1 t < configMAX_PRIORITIES" using live_place [OF ok1] by blast
    then have "reprio ?f (tcb s1 t)" using p by (simp add: reprio_def prio_def)
    then obtain s3 where r: "requeue_ready (prio s1 t) t (reset_event_value t p (upd_task t ?f s1)) = Inr s3"
      and ok3: "sched_ok s3" using requeue_ready_run [OF ok1 _ live1 refl] by blast
    have "vTaskPrioritySet c h p s = Inr (if y then esp_crosscore_int_send_yield c s3 else s3)"
      by (simp only: vTaskPrioritySet_def p tgt res_simps Let_def False y r case_prod_conv if_True not_False_eq_True)
    then show thesis by (rule that) (use ok3 send_yield_ok(5) in auto)
  qed
qed

lemma priority_inherit_ok:
  assumes ok: "sched_ok s" and live: "\<And>t. h = Some t \<Longrightarrow> tcb_live s t"
  obtains r s' where "xTaskPriorityInherit_smp c h s = Inr (r, s')" "sched_ok s'"
proof (cases h)
  case None
  then show thesis using that [of False s] ok by (simp add: xTaskPriorityInherit_smp_def)
next
  case (Some t)
  obtain cur where cur: "current c s = Inr cur" "tcb_live s cur" using current_run [OF base_okD(6) [OF sched_okD(2) [OF ok]]] by blast
  let ?p = "prio s cur" and ?f = "\<lambda>b :: tskTCB. b\<lparr>uxPriority := prio s cur\<rparr>"
  have p: "?p < configMAX_PRIORITIES" using live_place [OF ok cur(2)] by blast
  have lt: "tcb_live s t" using live Some by simp
  show thesis
  proof (cases "prio s t < ?p")
    case False
    then show thesis using that [of "uxBasePriority (tcb s t) < ?p" s] ok Some cur by (simp add: xTaskPriorityInherit_smp_def Let_def)
  next
    case True
    let ?s = "reset_event_value t ?p s"
    have ok1: "sched_ok ?s" by (rule reset_event_value_ok [OF ok])
    have l: "ready_list (prio ?s t) = Inr (ReadyTasks (unat (prio s t)))" using ready_list_prio [OF sched_okD(2) [OF ok] lt] by simp
    have iff: "container s (StateItem t) = Some (ReadyTasks (unat (prio s t))) \<longleftrightarrow> is_ready (container s (StateItem t))"
      using base_okD(2) [OF sched_okD(2) [OF ok]] by (auto simp: ready_ok_def is_ready_def)
    have "uxBasePriority (tcb s t) < configMAX_PRIORITIES"
      using base_okD(3) [OF sched_okD(2) [OF ok]] lt by (simp add: live_ok_def)
    then have f: "reprio ?f (tcb ?s t)" using p by (simp add: reprio_def)
    have run: "xTaskPriorityInherit_smp c h s =
        (if is_ready (container s (StateItem t))
         then bind_res (remove_state t ?s) (\<lambda>s2. bind_res (prvAddTaskToReadyList t (upd_task t ?f s2)) (\<lambda>s3. Inr (True, s3)))
         else Inr (True, upd_task t ?f ?s))"
      using True Some cur iff l by (simp add: xTaskPriorityInherit_smp_def Let_def)
    show thesis
    proof (cases "is_ready (container s (StateItem t))")
      case r: True
      from requeue_run [OF ok1 f] lt r obtain s2 s3 where "remove_state t ?s = Inr s2"
        "prvAddTaskToReadyList t (upd_task t ?f s2) = Inr s3" "sched_ok s3" by auto
      with run r show thesis by (intro that [of True s3]) simp_all
    next
      case r: False
      then have "sched_ok (upd_task t ?f ?s)" using reprio_waiting_ok [OF ok1 f] lt by simp
      with run r show thesis by (intro that) simp_all
    qed
  qed
qed

lemma priority_disinherit_ok:
  assumes ok: "sched_ok s" and h: "\<And>t. h = Some t \<Longrightarrow> pxCurrentTCBs s c = Some t \<and> uxMutexesHeld (tcb s t) \<noteq> 0 \<and>
     is_ready (container s (StateItem t))"
  obtains r s' where "xTaskPriorityDisinherit_smp c h s = Inr (r, s')" "sched_ok s'"
proof (cases h)
  case None
  then show thesis using that [of False s] ok by (simp add: xTaskPriorityDisinherit_smp_def)
next
  case (Some t)
  with h have cur: "pxCurrentTCBs s c = Some t" and held: "uxMutexesHeld (tcb s t) \<noteq> 0"
    and r: "is_ready (container s (StateItem t))" by auto
  let ?s1 = "upd_task t (\<lambda>b. b\<lparr>uxMutexesHeld := uxMutexesHeld b - 1\<rparr>) s"
  have ok1: "sched_ok ?s1" by (rule upd_task_ok [OF ok]) (simp add: attributes_def)
  let ?b = "tcb ?s1 t" and ?f = "\<lambda>b :: tskTCB. b\<lparr>uxPriority := uxBasePriority b\<rparr>"
  show thesis
  proof (cases "uxPriority ?b \<noteq> uxBasePriority ?b \<and> uxMutexesHeld ?b = 0")
    case False
    have "xTaskPriorityDisinherit_smp c h s = Inr (False, ?s1)"
      by (simp only: xTaskPriorityDisinherit_smp_def Some option.case cur held res_simps not_False_eq_True Let_def False if_False simp_thms)
    then show thesis using ok1 by (rule that)
  next
    case True
    have lt: "tcb_live s t" using base_okD(3) [OF sched_okD(2) [OF ok]] r by (auto simp: live_ok_def)
    then have "uxBasePriority (tcb s t) < configMAX_PRIORITIES"
      using base_okD(3) [OF sched_okD(2) [OF ok]] by (simp add: live_ok_def)
    then have f: "reprio ?f ?b" by (simp add: reprio_def)
    obtain s2 s3 where run: "remove_state t ?s1 = Inr s2" "prvAddTaskToReadyList t (upd_task t ?f s2) = Inr s3" and ok3: "sched_ok s3"
      using requeue_run [OF ok1 f] lt r by auto
    let ?v = "configMAX_PRIORITIES - prio (upd_task t ?f s2) t"
    have "xTaskPriorityDisinherit_smp c h s = Inr (True, set_value (EventItem t) ?v s3)"
      by (simp only: xTaskPriorityDisinherit_smp_def Some option.case cur held res_simps not_False_eq_True Let_def True if_True
          run add_ready_set_value simp_thms)
    then show thesis by (rule that [OF _ set_event_value_ok [OF ok3]])
  qed
qed

lemma priority_timeout_ok:
  assumes ok: "sched_ok s" and w: "w < configMAX_PRIORITIES"
    and h: "\<And>t. h = Some t \<Longrightarrow> tcb_live s t \<and> pxCurrentTCBs s c \<noteq> Some t \<and> uxMutexesHeld (tcb s t) \<noteq> 0"
  obtains s' where "vTaskPriorityDisinheritAfterTimeout_smp c h w s = Inr s'" "sched_ok s'"
proof (cases h)
  case None
  then show thesis using that [of s] ok by (simp add: vTaskPriorityDisinheritAfterTimeout_smp_def)
next
  case (Some t)
  with h have lt: "tcb_live s t" and cur: "pxCurrentTCBs s c \<noteq> Some t" and held: "uxMutexesHeld (tcb s t) \<noteq> 0" by auto
  let ?b = "tcb s t"
  let ?use = "if uxBasePriority ?b < w then w else uxBasePriority ?b"
  let ?f = "\<lambda>b :: tskTCB. b\<lparr>uxPriority := ?use\<rparr>"
  have run: "vTaskPriorityDisinheritAfterTimeout_smp c h w s =
      (if uxPriority ?b \<noteq> ?use \<and> uxMutexesHeld ?b = 1
       then requeue_ready (prio s t) t (reset_event_value t ?use (upd_task t ?f s)) else Inr s)"
    by (simp only: vTaskPriorityDisinheritAfterTimeout_smp_def Some option.case cur held res_simps not_False_eq_True Let_def prio_def)
  have base: "uxBasePriority ?b < configMAX_PRIORITIES"
    using base_okD(3) [OF sched_okD(2) [OF ok]] lt by (simp add: live_ok_def)
  then have "reprio ?f ?b" using w by (simp add: reprio_def)
  then obtain s' where "requeue_ready (prio s t) t (reset_event_value t ?use (upd_task t ?f s)) = Inr s'" "sched_ok s'"
    using requeue_ready_run [OF ok _ lt refl] by blast
  then show thesis using run ok that [of s] that [of s'] by (metis (full_types))
qed

section \<open>Creating tasks\<close>

lemma fresh_task:
  assumes "base_ok s" "\<not> tcb_live s t"
  shows "container s (StateItem t) = None" "container s (EventItem t) = None" "\<And>c. pxCurrentTCBs s c \<noteq> Some t"
    "\<not> is_idle s t"
proof -
  show st: "container s (StateItem t) = None" using base_okD(3) [OF assms(1)] assms(2) by (simp add: live_ok_def)
  then show "container s (EventItem t) = None" using base_okD(4) [OF assms(1)] by (auto simp: wait_ok_def)
  show "pxCurrentTCBs s c \<noteq> Some t" for c
    using current_run [OF base_okD(6) [OF assms(1)], of c] assms(2) by (metis option.inject)
  show "\<not> is_idle s t"
    using base_okD(5) [OF assms(1)] st by (auto simp: is_idle_def idle_ok_def core_all)
qed

lemma new_task_base:
  assumes ok: "base_ok s" and fresh: "\<not> tcb_live s t" and room: "card {u. tcb_live s u} + 1 < 2 ^ 32"
    and b: "uxPriority b < configMAX_PRIORITIES" "uxBasePriority b < configMAX_PRIORITIES"
    and new: "tcb s' = (tcb s)(t := b)" "tcb_live s' = (tcb_live s)(t := True)"
      "container s' = (container s)(StateItem t := Some (ReadyTasks (unat (uxPriority b))))"
      "uxTopReadyPriority s' = max (uxTopReadyPriority s) (uxPriority b)"
      "uxCurrentNumberOfTasks s' = uxCurrentNumberOfTasks s + 1"
    and same: "xSchedulerRunning s' = xSchedulerRunning s" "pxCurrentTCBs s' = pxCurrentTCBs s"
      "xIdleTaskHandle s' = xIdleTaskHandle s" "uxDeletedTasksWaitingCleanUp s' = uxDeletedTasksWaitingCleanUp s"
      "uxSchedulerSuspended s' = uxSchedulerSuspended s" "switch_due s' = switch_due s"
  shows "base_ok s'"
  unfolding base_ok_def
proof (intro conjI)
  note fr = fresh_task [OF ok fresh]
  have pr: "prio s' u = (if u = t then uxPriority b else prio s u)" for u by (simp add: prio_def new)
  show "typed s'" using base_okD(1) [OF ok] by (simp add: typed_def new)
  have "prio s' u \<le> uxTopReadyPriority s' \<and> p = unat (prio s' u)" if "container s' (StateItem u) = Some (ReadyTasks p)" for u p
    using that base_okD(2) [OF ok] by (cases "u = t") (auto simp: ready_ok_def new pr max_def intro: order_trans less_imp_le)
  then show "ready_ok s'" using base_okD(2) [OF ok] b by (auto simp: ready_ok_def new max_def)
  have "tcb_live s' u \<longleftrightarrow> container s' (StateItem u) \<noteq> None" for u
    using base_okD(3) [OF ok] by (cases "u = t") (simp_all add: live_ok_def new)
  moreover have "prio s' u < configMAX_PRIORITIES \<and> uxBasePriority (tcb s' u) < configMAX_PRIORITIES" if "tcb_live s' u" for u
    using base_okD(3) [OF ok] b that by (cases "u = t") (simp_all add: live_ok_def new pr)
  ultimately show "live_ok s'" unfolding live_ok_def by blast
  show "wait_ok s'" using base_okD(4) [OF ok] fr(2) by (auto simp: wait_ok_def new)
  show "idle_ok s'"
    unfolding idle_ok_def same
  proof
    fix c
    obtain u where u: "xIdleTaskHandle s c = Some u" "xCoreID (tcb s u) = Some c" "is_ready (container s (StateItem u))"
      using base_okD(5) [OF ok] unfolding idle_ok_def by blast
    moreover have "u \<noteq> t" using u(1) fr(4) by (cases c) (auto simp: is_idle_def)
    ultimately show "\<exists>u. xIdleTaskHandle s c = Some u \<and> xCoreID (tcb s' u) = Some c \<and> is_ready (container s' (StateItem u))"
      by (auto simp: new)
  qed
  show "cur_ok s'"
    unfolding cur_ok_def same
  proof (intro conjI allI)
    show "xSchedulerRunning s" "pxCurrentTCBs s Core0 \<noteq> pxCurrentTCBs s Core1"
      using base_okD(6) [OF ok] by (simp_all add: cur_ok_def)
    fix c
    obtain u where u: "pxCurrentTCBs s c = Some u" "tcb_live s u" "taskIS_AFFINITY_COMPATIBLE c s u"
      "is_ready (container s (StateItem u)) \<or> switch_due s c" using current_run [OF base_okD(6) [OF ok]] by blast
    moreover have "u \<noteq> t" using u(1) fr(3) by auto
    ultimately show "\<exists>u. pxCurrentTCBs s c = Some u \<and> tcb_live s' u \<and> taskIS_AFFINITY_COMPATIBLE c s' u \<and>
          (is_ready (container s' (StateItem u)) \<or> switch_due s c)"
      by (auto simp: new taskIS_AFFINITY_COMPATIBLE_def)
  qed
  show "pend_ok s'" using base_okD(7) [OF ok] by (simp add: pend_ok_def new same)
  note cnt = base_okD(8) [OF ok, unfolded count_ok_def]
  have L: "{u. tcb_live s' u} = insert t {u. tcb_live s u}" by (auto simp: new)
  have card: "card {u. tcb_live s' u} = Suc (card {u. tcb_live s u})" unfolding L using cnt fresh by simp
  have D: "{u. container s' (StateItem u) = Some TasksWaitingTermination} =
           {u. container s (StateItem u) = Some TasksWaitingTermination}" using fr(1) by (auto simp: new)
  have "finite {u. tcb_live s' u}" unfolding L using cnt by simp
  then show "count_ok s'" unfolding count_ok_def card D using cnt room by (simp add: same new(5))
qed

lemma lists_ok_fresh:
  assumes "lists_ok (s :: sched)" "items s' = items s" "cursor s' = cursor s" "container s' = container s"
  shows "lists_ok s'"
  using assms by (simp add: lists_ok_def)

lemma create_ok:
  assumes ok: "sched_ok s" and p: "p < configMAX_PRIORITIES"
    and block: "\<And>t. block = Some t \<Longrightarrow> \<not> tcb_live s t" and room: "card {u. tcb_live s u} + 1 < 2 ^ 32"
  obtains r s' where "xTaskCreatePinnedToCore c stack block p core s = Inr (r, s')" "sched_ok s'"
    "r \<longleftrightarrow> stack \<and> block \<noteq> None"
proof (cases "if stack then block else None")
  case None
  then show thesis using that [of False s] ok by (auto simp: xTaskCreatePinnedToCore_def split: if_splits)
next
  case (Some t)
  then have st: "stack" "block = Some t" by (auto split: if_splits)
  note base = sched_okD(2) [OF ok] and fr = fresh_task [OF sched_okD(2) [OF ok] block [OF st(2)]]
  define b where "b = \<lparr>uxPriority = p, uxBasePriority = p, uxMutexesHeld = 0, xCoreID = core,
                ulNotifiedValue = 0, ucNotifyState = taskNOT_WAITING_NOTIFICATION, ucDelayAborted = False\<rparr>"
  define s4 where "s4 = s\<lparr>tcb := (tcb s)(t := b), tcb_live := (tcb_live s)(t := True),
      item_value := (item_value s)(StateItem t := 0, EventItem t := configMAX_PRIORITIES - p),
      uxCurrentNumberOfTasks := uxCurrentNumberOfTasks s + 1, uxTaskNumber := uxTaskNumber s + 1\<rparr>"
  have cont: "(container s)(StateItem t := None, EventItem t := None) = container s" using fr(1,2) by (auto simp: fun_eq_iff)
  obtain t0 t1 where cur: "pxCurrentTCBs s Core0 = Some t0" "pxCurrentTCBs s Core1 = Some t1"
    using current_run [OF base_okD(6) [OF base]] by metis
  have running: "xSchedulerRunning s" using base_okD(6) [OF base] by (simp add: cur_ok_def)
  have one: "uxCurrentNumberOfTasks s \<noteq> 0" using count_pos [OF base] by auto
  have init: "prvInitialiseNewTask t p core s = Inr (s\<lparr>tcb := (tcb s)(t := b), tcb_live := (tcb_live s)(t := True),
      item_value := (item_value s)(StateItem t := 0, EventItem t := configMAX_PRIORITIES - p)\<rparr>)" (is "_ = Inr ?s1")
    using p by (simp add: prvInitialiseNewTask_def b_def cont)
  have "prio s4 t = p" by (simp add: prio_def s4_def b_def)
  have lists4: "lists_ok s4" by (rule lists_ok_fresh [OF sched_okD(1) [OF ok]]) (simp_all add: s4_def)
  obtain X where add: "prvAddTaskToReadyList t s4 = Inr (readied X (cursor s4) t s4)"
    and lists5: "lists_ok (readied X (cursor s4) t s4)" and X: "\<And>l. \<forall>p. l \<noteq> ReadyTasks p \<Longrightarrow> X l = items s4 l"
    using add_ready_run [OF lists4, of t] fr(1,2) p \<open>prio s4 t = p\<close> by (auto simp: s4_def)
  let ?s5 = "readied X (cursor s4) t s4"
  have "base_ok ?s5"
  proof (rule new_task_base [OF base block [OF st(2)] room, of b])
    show "container ?s5 = (container s)(StateItem t := Some (ReadyTasks (unat (uxPriority b))))"
      using fr(2) \<open>prio s4 t = p\<close> by (auto simp: s4_def b_def fun_eq_iff)
  qed (use p \<open>prio s4 t = p\<close> in \<open>simp_all add: s4_def b_def switch_due_def fun_eq_iff\<close>)
  moreover have "delay_ok ?s5"
    by (rule moved_delay [OF sched_okD(3) [OF ok], of t]) (use delay_two [OF sched_okD(3) [OF ok]] in \<open>auto simp: s4_def\<close>)
  moreover have "wake_order ?s5 d" if d: "d = DelayedTaskList1 \<or> d = DelayedTaskList2" for d
  proof -
    have "StateItem t \<notin> set (items s d)" "EventItem t \<notin> set (items s d)"
      using fr(1,2) by (simp_all add: lists_okD(2) [OF sched_okD(1) [OF ok]])
    then have eq: "item_value s4 i = item_value s i" if "i \<in> set (items s d)" for i using that by (auto simp: s4_def)
    have srt: "sorted_wrt (\<lambda>i j. item_value s i \<le> item_value s j) (items s d)"
      using d sched_okD(4,5) [OF ok] by (auto simp: wake_order_def)
    have "sorted_wrt (\<lambda>i j. item_value s4 i \<le> item_value s4 j) (items s d)"
      by (rule sorted_wrt_mono_rel [OF _ srt]) (simp only: eq)
    moreover have "X d = items s d" using d X by (auto simp: s4_def)
    ultimately show ?thesis by (simp only: wake_order_def readied_sel)
  qed
  ultimately have ok5: "sched_ok ?s5" using lists5 by (simp add: sched_ok_def)
  have "prio ?s5 t < configMAX_PRIORITIES" using p \<open>prio s4 t = p\<close> by simp
  then obtain y s6 where y: "prvIsYieldRequiredSMP c t (prio ?s5 t) True ?s5 = Inr (y, s6)" and ok6: "sched_ok s6"
    using yield_required_ok [OF ok5] by blast
  have "prvAddNewTaskToReadyList c t ?s1 = Inr (if y then esp_crosscore_int_send_yield c s6 else s6)"
  proof -
    have s4: "?s1\<lparr>uxCurrentNumberOfTasks := uxCurrentNumberOfTasks s + 1, uxTaskNumber := uxTaskNumber s + 1\<rparr> = s4"
      by (simp add: s4_def)
    have r5: "xSchedulerRunning ?s5" using running by (simp add: s4_def)
    show ?thesis
      using one cur running add y r5 by (simp add: prvAddNewTaskToReadyList_def adopt_new_task_def Let_def s4)
  qed
  then have "xTaskCreatePinnedToCore c stack block p core s = Inr (True, if y then esp_crosscore_int_send_yield c s6 else s6)"
    using st init by (simp add: xTaskCreatePinnedToCore_def)
  then show thesis by (rule that) (use ok6 st send_yield_ok(5) in auto)
qed

section \<open>The start\<close>

text \<open>
  The kernel as \<^verbatim>\<open>esp_startup_start_app\<close> leaves it: the main task and the timer task are ready with
  priority 1, the timer task being current on core 0, the idle task of core 1 on core 1.
\<close>

definition new_tcb :: "u32 \<Rightarrow> core option \<Rightarrow> tskTCB" where
  "new_tcb p core = \<lparr>uxPriority = p, uxBasePriority = p, uxMutexesHeld = 0, xCoreID = core,
     ulNotifiedValue = 0, ucNotifyState = taskNOT_WAITING_NOTIFICATION, ucDelayAborted = False\<rparr>"

lemma new_tcb_sel [simp]:
  "uxPriority (new_tcb p core) = p" "uxBasePriority (new_tcb p core) = p" "xCoreID (new_tcb p core) = core"
  by (simp_all add: new_tcb_def)

definition new_values :: "task \<Rightarrow> u32 \<Rightarrow> (item \<Rightarrow> u32) \<Rightarrow> item \<Rightarrow> u32" where
  "new_values t p v = v(StateItem t := 0, EventItem t := configMAX_PRIORITIES - p)"

definition boot_state :: "task \<Rightarrow> (core \<Rightarrow> task) \<Rightarrow> task \<Rightarrow> (task \<Rightarrow> tskTCB) \<Rightarrow> (item \<Rightarrow> u32) \<Rightarrow> sched" where
  "boot_state main idle tmr mem vals =
     (reset_state mem vals)
       \<lparr>items := (\<lambda>_. [])(ReadyTasks 0 := [StateItem (idle Core0), StateItem (idle Core1)],
                          ReadyTasks 1 := [StateItem main, StateItem tmr]),
        item_value := new_values tmr 1 (new_values (idle Core1) 0 (new_values (idle Core0) 0 (new_values main 1 vals))),
        container := (\<lambda>_. None)(StateItem main := Some (ReadyTasks 1), StateItem (idle Core0) := Some (ReadyTasks 0),
                                StateItem (idle Core1) := Some (ReadyTasks 0), StateItem tmr := Some (ReadyTasks 1)),
        pxCurrentTCBs := (\<lambda>_. None)(Core1 := Some (idle Core1), Core0 := Some tmr),
        tcb := mem(main := new_tcb 1 (Some Core0), idle Core0 := new_tcb 0 (Some Core0),
                   idle Core1 := new_tcb 0 (Some Core1), tmr := new_tcb 1 None),
        tcb_live := (\<lambda>_. False)(main := True, idle Core0 := True, idle Core1 := True, tmr := True),
        uxCurrentNumberOfTasks := 4, uxTopReadyPriority := 1, uxTaskNumber := 4, xSchedulerRunning := True,
        xNextTaskUnblockTime := portMAX_DELAY,
        xIdleTaskHandle := (\<lambda>_. None)(Core0 := Some (idle Core0), Core1 := Some (idle Core1))\<rparr>"

definition start_added :: "task \<Rightarrow> u32 \<Rightarrow> core option \<Rightarrow> (core \<Rightarrow> task option) \<Rightarrow> sched \<Rightarrow> sched" where
  "start_added t p core cur s =
     s\<lparr>items := (items s)(ReadyTasks (unat p) := items s (ReadyTasks (unat p)) @ [StateItem t]),
       item_value := new_values t p (item_value s),
       container := (container s)(StateItem t := Some (ReadyTasks (unat p)), EventItem t := None),
       pxCurrentTCBs := cur, tcb := (tcb s)(t := new_tcb p core), tcb_live := (tcb_live s)(t := True),
       uxCurrentNumberOfTasks := uxCurrentNumberOfTasks s + 1,
       uxTopReadyPriority := max (uxTopReadyPriority s) p, uxTaskNumber := uxTaskNumber s + 1\<rparr>"

lemma adopt_only: "adopt_new_task t s = s\<lparr>pxCurrentTCBs := pxCurrentTCBs (adopt_new_task t s)\<rparr>"
  by (simp add: adopt_new_task_def Let_def)

lemma adopt_cong:
  assumes "pxCurrentTCBs s' = pxCurrentTCBs s" "tcb s' = tcb s" "xSchedulerRunning s' = xSchedulerRunning s"
  shows "pxCurrentTCBs (adopt_new_task t s') = pxCurrentTCBs (adopt_new_task t s)"
proof -
  have upd: "pxCurrentTCBs (r\<lparr>pxCurrentTCBs := x\<rparr>) = x" for r :: sched and x by simp
  show ?thesis
    unfolding adopt_new_task_def Let_def prio_def taskIS_AFFINITY_COMPATIBLE_def assms if_distrib [of pxCurrentTCBs] upd ..
qed

text \<open>A task created before the scheduler runs; its core follows from the tasks that are there already.\<close>

lemma start_create:
  assumes "\<not> xSchedulerRunning s" "p < configMAX_PRIORITIES" "cursor s = (\<lambda>_. None)"
    "uxCurrentNumberOfTasks s = 0 \<Longrightarrow> items s = (\<lambda>_. []) \<and> pxDelayedTaskList s = DelayedTaskList1 \<and> pxOverflowDelayedTaskList s = DelayedTaskList2"
    and cur: "cur = pxCurrentTCBs (adopt_new_task t (s\<lparr>tcb := (tcb s)(t := new_tcb p core)\<rparr>))"
  shows "xTaskCreateStaticPinnedToCore c t p core s = Inr (start_added t p core cur s)"
proof -
  let ?s1 = "s\<lparr>tcb := (tcb s)(t := new_tcb p core), tcb_live := (tcb_live s)(t := True),
              container := (container s)(StateItem t := None, EventItem t := None),
              item_value := new_values t p (item_value s)\<rparr>"
  let ?s2 = "?s1\<lparr>uxCurrentNumberOfTasks := uxCurrentNumberOfTasks s + 1\<rparr>"
  have "prvInitialiseNewTask t p core s = Inr ?s1" using assms(2) by (simp add: prvInitialiseNewTask_def new_tcb_def new_values_def)
  moreover have "(if uxCurrentNumberOfTasks ?s2 = 1 then prvInitialiseTaskLists ?s2 else ?s2) = ?s2"
    using assms(3,4) by (auto simp: prvInitialiseTaskLists_def intro!: sched.equality)
  moreover have "adopt_new_task t ?s2 = ?s2\<lparr>pxCurrentTCBs := cur\<rparr>"
    using adopt_only [of t ?s2] adopt_cong [of ?s2 "s\<lparr>tcb := (tcb s)(t := new_tcb p core)\<rparr>" t] unfolding cur by simp
  moreover have "prvAddTaskToReadyList t (?s2\<lparr>pxCurrentTCBs := cur, uxTaskNumber := uxTaskNumber s + 1\<rparr>) =
      Inr (start_added t p core cur s)"
  proof -
    define s3 where "s3 = ?s2\<lparr>pxCurrentTCBs := cur, uxTaskNumber := uxTaskNumber s + 1\<rparr>"
    let ?l = "ReadyTasks (unat p)" and ?m = "s3\<lparr>uxTopReadyPriority := max (uxTopReadyPriority s3) p\<rparr>"
    have pr: "prio s3 t = p" by (simp add: s3_def prio_def)
    have rec: "taskRECORD_READY_PRIORITY p s3 = ?m" by (simp add: taskRECORD_READY_PRIORITY_def max_def not_less)
    have f: "container s3 (StateItem t) = None" "cursor s3 = (\<lambda>_. None)" using assms(3) by (simp_all add: s3_def)
    have "prvAddTaskToReadyList t s3 =
        Inr (?m\<lparr>items := (items s3)(?l := items s3 ?l @ [StateItem t]), container := (container s3)(StateItem t := Some ?l)\<rparr>)"
      using assms(2) f by (simp add: prvAddTaskToReadyList_def pr rec ready_list_def insert_end_def put_before_def)
    moreover have "?m\<lparr>items := (items s3)(?l := items s3 ?l @ [StateItem t]), container := (container s3)(StateItem t := Some ?l)\<rparr> =
        start_added t p core cur s"
      by (rule sched.equality) (simp_all add: start_added_def s3_def fun_upd_twist)
    ultimately show ?thesis by (simp add: s3_def)
  qed
  ultimately show ?thesis
    using assms(1) by (simp add: xTaskCreateStaticPinnedToCore_def prvAddNewTaskToReadyList_def Let_def start_added_def)
qed

lemma boot_run:
  assumes dist: "distinct [main, idle Core0, idle Core1, tmr]"
  shows "esp_startup_start_app main idle tmr (reset_state mem vals) = Inr (boot_state main idle tmr mem vals)"
proof -
  let ?s0 = "reset_state mem vals"
  let ?s1 = "start_added main 1 (Some Core0) ((\<lambda>_. None)(Core0 := Some main)) ?s0"
  let ?s2 = "start_added (idle Core0) 0 (Some Core0) ((\<lambda>_. None)(Core0 := Some main)) ?s1"
  let ?t2 = "?s2\<lparr>xIdleTaskHandle := (xIdleTaskHandle ?s2)(Core0 := Some (idle Core0))\<rparr>"
  let ?s3 = "start_added (idle Core1) 0 (Some Core1) ((\<lambda>_. None)(Core0 := Some main, Core1 := Some (idle Core1))) ?t2"
  let ?t3 = "?s3\<lparr>xIdleTaskHandle := (xIdleTaskHandle ?s3)(Core1 := Some (idle Core1))\<rparr>"
  let ?s4 = "start_added tmr 1 None ((\<lambda>_. None)(Core0 := Some tmr, Core1 := Some (idle Core1))) ?t3"
  note defs = start_added_def reset_state_def adopt_new_task_def Let_def prio_def taskIS_AFFINITY_COMPATIBLE_def
    configMAX_PRIORITIES_def
  have r1: "xTaskCreateStaticPinnedToCore Core0 main 1 (Some Core0) ?s0 = Inr ?s1"
    by (rule start_create) (simp_all add: defs fun_eq_iff)
  have r2: "xTaskCreateStaticPinnedToCore Core0 (idle Core0) 0 (Some Core0) ?s1 = Inr ?s2"
    by (rule start_create) (use dist in \<open>auto simp: defs fun_eq_iff\<close>)
  have r3: "xTaskCreateStaticPinnedToCore Core0 (idle Core1) 0 (Some Core1) ?t2 = Inr ?s3"
    by (rule start_create) (use dist in \<open>auto simp: defs fun_eq_iff\<close>)
  have r4: "xTaskCreateStaticPinnedToCore Core0 tmr 1 None ?t3 = Inr ?s4"
    by (rule start_create) (use dist in \<open>auto simp: defs fun_eq_iff\<close>)
  have "xTaskCreatePinnedToCore Core0 True (Some main) 1 (Some Core0) ?s0 = Inr (True, ?s1)"
    using r1 by (auto simp: xTaskCreateStaticPinnedToCore_def xTaskCreatePinnedToCore_def bind_res_eq_Inr_iff)
  moreover have "?s4\<lparr>xNextTaskUnblockTime := portMAX_DELAY, xSchedulerRunning := True, xTickCount := 0\<rparr> =
      boot_state main idle tmr mem vals"
    by (rule sched.equality)
       (use dist in \<open>simp_all add: start_added_def reset_state_def boot_state_def fun_eq_iff\<close>)
  ultimately show ?thesis
    using r2 r3 r4 by (simp add: esp_startup_start_app_def vTaskStartScheduler_def prvCreateIdleTasks_def)
qed

lemma boot_sel [simp]:
  "items (boot_state main idle tmr mem vals) = (\<lambda>_. [])(ReadyTasks 0 := [StateItem (idle Core0), StateItem (idle Core1)],
     ReadyTasks 1 := [StateItem main, StateItem tmr])"
  "container (boot_state main idle tmr mem vals) = (\<lambda>_. None)(StateItem main := Some (ReadyTasks 1),
     StateItem (idle Core0) := Some (ReadyTasks 0), StateItem (idle Core1) := Some (ReadyTasks 0), StateItem tmr := Some (ReadyTasks 1))"
  "cursor (boot_state main idle tmr mem vals) = (\<lambda>_. None)"
  "pxCurrentTCBs (boot_state main idle tmr mem vals) = (\<lambda>_. None)(Core1 := Some (idle Core1), Core0 := Some tmr)"
  "tcb (boot_state main idle tmr mem vals) = mem(main := new_tcb 1 (Some Core0), idle Core0 := new_tcb 0 (Some Core0),
     idle Core1 := new_tcb 0 (Some Core1), tmr := new_tcb 1 None)"
  "tcb_live (boot_state main idle tmr mem vals) = (\<lambda>_. False)(main := True, idle Core0 := True, idle Core1 := True, tmr := True)"
  "uxTopReadyPriority (boot_state main idle tmr mem vals) = 1" "xSchedulerRunning (boot_state main idle tmr mem vals)"
  "xIdleTaskHandle (boot_state main idle tmr mem vals) = (\<lambda>_. None)(Core0 := Some (idle Core0), Core1 := Some (idle Core1))"
  "uxCurrentNumberOfTasks (boot_state main idle tmr mem vals) = 4"
  "uxDeletedTasksWaitingCleanUp (boot_state main idle tmr mem vals) = 0"
  "pxDelayedTaskList (boot_state main idle tmr mem vals) = DelayedTaskList1"
  "pxOverflowDelayedTaskList (boot_state main idle tmr mem vals) = DelayedTaskList2"
  "uxSchedulerSuspended (boot_state main idle tmr mem vals) = (\<lambda>_. 0)"
  "xTickCount (boot_state main idle tmr mem vals) = 0"
  by (simp_all add: boot_state_def reset_state_def)

lemma boot_ok:
  assumes dist: "distinct [main, idle Core0, idle Core1, tmr]"
  shows "sched_ok (boot_state main idle tmr mem vals)" (is "sched_ok ?s")
proof -
  have ne: "main \<noteq> idle Core0" "main \<noteq> idle Core1" "main \<noteq> tmr" "idle Core0 \<noteq> idle Core1" "idle Core0 \<noteq> tmr" "idle Core1 \<noteq> tmr"
    using dist by auto
  have pr: "prio ?s t = (if t = main \<or> t = tmr then 1 else if t = idle Core0 \<or> t = idle Core1 then 0 else uxPriority (mem t))" for t
    using ne by (simp add: prio_def)
  have "lists_ok ?s" using ne by (auto simp: lists_ok_def)
  moreover have "typed ?s" by (simp add: typed_def)
  moreover have "ready_ok ?s" using ne by (auto simp: ready_ok_def pr configMAX_PRIORITIES_def split: if_splits)
  moreover have "live_ok ?s" using ne by (auto simp: live_ok_def pr configMAX_PRIORITIES_def)
  moreover have "wait_ok ?s" "pend_ok ?s" by (simp_all add: wait_ok_def pend_ok_def)
  moreover have "idle_ok ?s" using ne by (simp add: idle_ok_def core_all)
  moreover have "cur_ok ?s" using ne by (simp add: cur_ok_def core_all taskIS_AFFINITY_COMPATIBLE_def)
  moreover have "count_ok ?s"
  proof -
    have "{t. tcb_live ?s t} = {main, idle Core0, idle Core1, tmr}" by auto
    moreover have "card {main, idle Core0, idle Core1, tmr} = 4" using ne by simp
    moreover have "{t. container ?s (StateItem t) = Some TasksWaitingTermination} = {}" by auto
    ultimately show ?thesis unfolding count_ok_def by (simp only:) simp
  qed
  moreover have "delay_ok ?s" by (simp add: delay_ok_def)
  ultimately show ?thesis by (simp add: sched_ok_def base_ok_def wake_order_def)
qed

end
