(* ===== verification/TaskNotify.thy ===== *)
theory TaskNotify
  imports SchedulerTasks
begin

text \<open>
  Task notifications (\<^verbatim>\<open>tasks.c\<close>): a word and a state in every control block, through which tasks and
  interrupts wake a task without a queue. \<^verbatim>\<open>configTASK_NOTIFICATION_ARRAY_ENTRIES\<close> is 1 in the
  configuration of the firmware. A wait consists of two critical sections with the blocking in between, during
  which anything may happen: they are two definitions, and the function is their composition over what
  happens in between. The theory ends with what every other call of the kernel leaves of the
  notifications and the event items, by rules for sequences of calls (\<^verbatim>\<open>ensures\<close>).
\<close>

unbundle bit_operations_syntax

section \<open>Operations\<close>

definition configTASK_NOTIFICATION_ARRAY_ENTRIES :: u32 where
  "configTASK_NOTIFICATION_ARRAY_ENTRIES = 1"

datatype eNotifyAction =
    eNoAction
  | eSetBits
  | eIncrement
  | eSetValueWithOverwrite
  | eSetValueWithoutOverwrite

definition set_note :: "task \<Rightarrow> u32 \<Rightarrow> notify_state \<Rightarrow> sched \<Rightarrow> sched" where
  "set_note t v st = upd_task t (\<lambda>b. b\<lparr>ulNotifiedValue := v, ucNotifyState := st\<rparr>)"

definition note_value :: "sched \<Rightarrow> task \<Rightarrow> u32" where
  "note_value s t = ulNotifiedValue (tcb s t)"

definition note_state :: "sched \<Rightarrow> task \<Rightarrow> notify_state" where
  "note_state s t = ucNotifyState (tcb s t)"

text \<open>The end of the first critical section of both waits: block for a while, if asked to.\<close>

definition block_for_note :: "core \<Rightarrow> u32 \<Rightarrow> sched \<Rightarrow> sched res" where
  "block_for_note c xTicksToWait s =
     (if 0 < xTicksToWait
      then bind_res (prvAddCurrentTaskToDelayedList c xTicksToWait True s) (\<lambda>s1.
             Inr (esp_crosscore_int_send_yield c s1))
      else Inr s)"

definition notify_take_enter :: "core \<Rightarrow> u32 \<Rightarrow> u32 \<Rightarrow> sched \<Rightarrow> sched res" where
  "notify_take_enter c uxIndexToWait xTicksToWait s =
     assert_res (uxIndexToWait < configTASK_NOTIFICATION_ARRAY_ENTRIES)
      (bind_res (current c s) (\<lambda>t.
        if note_value s t = 0
        then block_for_note c xTicksToWait (set_note t (note_value s t) taskWAITING_NOTIFICATION s)
        else Inr s))"

definition notify_take_leave :: "core \<Rightarrow> bool \<Rightarrow> sched \<Rightarrow> (u32 \<times> sched) res" where
  "notify_take_leave c xClearCountOnExit s =
     bind_res (current c s) (\<lambda>t.
       let ulReturn = note_value s t;
           v = (if ulReturn \<noteq> 0 then (if xClearCountOnExit then 0 else ulReturn - 1) else ulReturn)
       in Inr (ulReturn, set_note t v taskNOT_WAITING_NOTIFICATION s))"

text \<open>
  \<^term>\<open>between\<close> is what happens from the first critical section until the caller enters the second, and
  the core it then runs on.
\<close>

definition ulTaskGenericNotifyTake ::
  "core \<Rightarrow> u32 \<Rightarrow> bool \<Rightarrow> u32 \<Rightarrow> (sched \<Rightarrow> (core \<times> sched) res) \<Rightarrow> sched \<Rightarrow> (u32 \<times> sched) res" where
  "ulTaskGenericNotifyTake c uxIndexToWait xClearCountOnExit xTicksToWait between s =
     bind_res (notify_take_enter c uxIndexToWait xTicksToWait s) (\<lambda>s1.
     bind_res (between s1) (\<lambda>(c', s2). notify_take_leave c' xClearCountOnExit s2))"

definition notify_wait_enter :: "core \<Rightarrow> u32 \<Rightarrow> u32 \<Rightarrow> u32 \<Rightarrow> sched \<Rightarrow> sched res" where
  "notify_wait_enter c uxIndexToWait ulBitsToClearOnEntry xTicksToWait s =
     assert_res (uxIndexToWait < configTASK_NOTIFICATION_ARRAY_ENTRIES)
      (bind_res (current c s) (\<lambda>t.
        if note_state s t \<noteq> taskNOTIFICATION_RECEIVED
        then block_for_note c xTicksToWait
               (set_note t (note_value s t AND NOT ulBitsToClearOnEntry) taskWAITING_NOTIFICATION s)
        else Inr s))"

text \<open>Returns whether a notification was received, and the value stored through \<^verbatim>\<open>pulNotificationValue\<close>.\<close>

definition notify_wait_leave :: "core \<Rightarrow> u32 \<Rightarrow> sched \<Rightarrow> (bool \<times> u32 \<times> sched) res" where
  "notify_wait_leave c ulBitsToClearOnExit s =
     bind_res (current c s) (\<lambda>t.
       let got = (note_state s t = taskNOTIFICATION_RECEIVED);
           v = (if got then note_value s t AND NOT ulBitsToClearOnExit else note_value s t)
       in Inr (got, note_value s t, set_note t v taskNOT_WAITING_NOTIFICATION s))"

definition xTaskGenericNotifyWait ::
  "core \<Rightarrow> u32 \<Rightarrow> u32 \<Rightarrow> u32 \<Rightarrow> u32 \<Rightarrow> (sched \<Rightarrow> (core \<times> sched) res) \<Rightarrow> sched \<Rightarrow> (bool \<times> u32 \<times> sched) res" where
  "xTaskGenericNotifyWait c uxIndexToWait ulBitsToClearOnEntry ulBitsToClearOnExit xTicksToWait between s =
     bind_res (notify_wait_enter c uxIndexToWait ulBitsToClearOnEntry xTicksToWait s) (\<lambda>s1.
     bind_res (between s1) (\<lambda>(c', s2). notify_wait_leave c' ulBitsToClearOnExit s2))"

text \<open>The switch over \<^verbatim>\<open>eAction\<close>: the result of the call and the new value, for the state and value on entry.\<close>

definition notify_action :: "eNotifyAction \<Rightarrow> u32 \<Rightarrow> notify_state \<Rightarrow> u32 \<Rightarrow> bool \<times> u32" where
  "notify_action eAction ulValue ucOriginalNotifyState v =
     (case eAction of
        eSetBits \<Rightarrow> (True, v OR ulValue)
      | eIncrement \<Rightarrow> (True, v + 1)
      | eSetValueWithOverwrite \<Rightarrow> (True, ulValue)
      | eSetValueWithoutOverwrite \<Rightarrow>
          if ucOriginalNotifyState \<noteq> taskNOTIFICATION_RECEIVED then (True, ulValue) else (False, v)
      | eNoAction \<Rightarrow> (True, v))"

text \<open>Returns the result and the value stored through \<^verbatim>\<open>pulPreviousNotificationValue\<close>.\<close>

definition xTaskGenericNotify ::
  "core \<Rightarrow> TaskHandle_t \<Rightarrow> u32 \<Rightarrow> u32 \<Rightarrow> eNotifyAction \<Rightarrow> sched \<Rightarrow> (bool \<times> u32 \<times> sched) res" where
  "xTaskGenericNotify c xTaskToNotify uxIndexToNotify ulValue eAction s =
     assert_res (uxIndexToNotify < configTASK_NOTIFICATION_ARRAY_ENTRIES)
      (case xTaskToNotify of
         None \<Rightarrow> Inl Assert_failed
       | Some t \<Rightarrow>
           let ucOriginalNotifyState = note_state s t;
               (xReturn, v) = notify_action eAction ulValue ucOriginalNotifyState (note_value s t);
               s1 = set_note t v taskNOTIFICATION_RECEIVED s
           in if ucOriginalNotifyState = taskWAITING_NOTIFICATION
              then bind_res (remove_state t s1) (\<lambda>s2.
                   bind_res (prvAddTaskToReadyList t s2) (\<lambda>s3.
                   assert_res (container s3 (EventItem t) = None)
                   (bind_res (prvIsYieldRequiredSMP c t (prio s3 t) False s3) (\<lambda>(y, s4).
                     Inr (xReturn, note_value s t, if y then esp_crosscore_int_send_yield c s4 else s4)))))
              else Inr (xReturn, note_value s t, s1))"

text \<open>
  The end of both calls for interrupts, with whether a task was woken that should run now
  (\<^verbatim>\<open>pxHigherPriorityTaskWoken\<close>).
\<close>

definition wake_from_isr :: "core \<Rightarrow> task \<Rightarrow> sched \<Rightarrow> (bool \<times> sched) res" where
  "wake_from_isr c t s =
     assert_res (container s (EventItem t) = None)
      (bind_res (if prvCheckTaskCanBeScheduledSMP s t
                 then bind_res (remove_state t s) (prvAddTaskToReadyList t)
                 else insert_end (PendingReady c) (EventItem t) s) (\<lambda>s1.
       bind_res (prvIsYieldRequiredSMP c t (prio s1 t) False s1) (\<lambda>(y, s2).
         Inr (y, if y then set_yield_pending c True s2 else s2))))"

definition xTaskGenericNotifyFromISR ::
  "core \<Rightarrow> TaskHandle_t \<Rightarrow> u32 \<Rightarrow> u32 \<Rightarrow> eNotifyAction \<Rightarrow> sched \<Rightarrow> (bool \<times> u32 \<times> bool \<times> sched) res" where
  "xTaskGenericNotifyFromISR c xTaskToNotify uxIndexToNotify ulValue eAction s =
     (case xTaskToNotify of
        None \<Rightarrow> Inl Assert_failed
      | Some t \<Rightarrow>
          assert_res (uxIndexToNotify < configTASK_NOTIFICATION_ARRAY_ENTRIES)
          (let ucOriginalNotifyState = note_state s t;
               (xReturn, v) = notify_action eAction ulValue ucOriginalNotifyState (note_value s t);
               s1 = set_note t v taskNOTIFICATION_RECEIVED s
           in if ucOriginalNotifyState = taskWAITING_NOTIFICATION
              then bind_res (wake_from_isr c t s1) (\<lambda>(woken, s2). Inr (xReturn, note_value s t, woken, s2))
              else Inr (xReturn, note_value s t, False, s1)))"

definition vTaskGenericNotifyGiveFromISR :: "core \<Rightarrow> TaskHandle_t \<Rightarrow> u32 \<Rightarrow> sched \<Rightarrow> (bool \<times> sched) res" where
  "vTaskGenericNotifyGiveFromISR c xTaskToNotify uxIndexToNotify s =
     (case xTaskToNotify of
        None \<Rightarrow> Inl Assert_failed
      | Some t \<Rightarrow>
          assert_res (uxIndexToNotify < configTASK_NOTIFICATION_ARRAY_ENTRIES)
          (let s1 = set_note t (note_value s t + 1) taskNOTIFICATION_RECEIVED s
           in if note_state s t = taskWAITING_NOTIFICATION then wake_from_isr c t s1 else Inr (False, s1)))"

definition xTaskGenericNotifyStateClear :: "core \<Rightarrow> TaskHandle_t \<Rightarrow> u32 \<Rightarrow> sched \<Rightarrow> (bool \<times> sched) res" where
  "xTaskGenericNotifyStateClear c xTask uxIndexToClear s =
     assert_res (uxIndexToClear < configTASK_NOTIFICATION_ARRAY_ENTRIES)
      (bind_res (prvGetTCBFromHandle c xTask s) (\<lambda>t.
        if note_state s t = taskNOTIFICATION_RECEIVED
        then Inr (True, set_note t (note_value s t) taskNOT_WAITING_NOTIFICATION s)
        else Inr (False, s)))"

text \<open>The one call that does not check its index: beyond the array it would read and write other fields.\<close>

definition ulTaskGenericNotifyValueClear :: "core \<Rightarrow> TaskHandle_t \<Rightarrow> u32 \<Rightarrow> u32 \<Rightarrow> sched \<Rightarrow> (u32 \<times> sched) res" where
  "ulTaskGenericNotifyValueClear c xTask uxIndexToClear ulBitsToClear s =
     bind_res (prvGetTCBFromHandle c xTask s) (\<lambda>t.
       if uxIndexToClear < configTASK_NOTIFICATION_ARRAY_ENTRIES
       then Inr (note_value s t, set_note t (note_value s t AND NOT ulBitsToClear) (note_state s t) s)
       else Inl Out_of_bounds)"

section \<open>Reading and writing notifications\<close>

lemma set_note_sel [simp]:
  "note_value (set_note t v st s) u = (if u = t then v else note_value s u)"
  "note_state (set_note t v st s) u = (if u = t then st else note_state s u)"
  "prio (set_note t v st s) = prio s" "container (set_note t v st s) = container s"
  "pxCurrentTCBs (set_note t v st s) = pxCurrentTCBs s" "tcb_live (set_note t v st s) = tcb_live s"
  "uxSchedulerSuspended (set_note t v st s) = uxSchedulerSuspended s" "items (set_note t v st s) = items s"
  "xIdleTaskHandle (set_note t v st s) = xIdleTaskHandle s" "reason (set_note t v st s) = reason s"
  "taskIS_AFFINITY_COMPATIBLE c (set_note t v st s) u = taskIS_AFFINITY_COMPATIBLE c s u"
  "prvCheckTaskCanBeScheduledSMP (set_note t v st s) u = prvCheckTaskCanBeScheduledSMP s u"
  "xTickCount (set_note t v st s) = xTickCount s"
  by (simp_all add: set_note_def note_value_def note_state_def prio_def fun_eq_iff taskIS_AFFINITY_COMPATIBLE_def
      prvCheckTaskCanBeScheduledSMP_def split: option.split)

lemma set_note_ok: "sched_ok s \<Longrightarrow> sched_ok (set_note t v st s)"
  unfolding set_note_def by (rule upd_task_ok) (simp_all add: attributes_def)

lemma array_index [simp]: "0 < configTASK_NOTIFICATION_ARRAY_ENTRIES"
  by (simp add: configTASK_NOTIFICATION_ARRAY_ENTRIES_def)

section \<open>The calls keep the invariant\<close>

text \<open>Only tasks whose event item is free wait for a notification.\<close>

definition notes_ok :: "sched \<Rightarrow> bool" where
  "notes_ok s \<longleftrightarrow> (\<forall>t. note_state s t = taskWAITING_NOTIFICATION \<longrightarrow> container s (EventItem t) = None)"

lemma block_for_note_ok:
  assumes ok: "sched_ok s" and n: "0 < n \<Longrightarrow> may_block c s"
  obtains s' where "block_for_note c n s = Inr s'" "sched_ok s'"
proof (cases "0 < n")
  case True
  from n [OF True] obtain t where r: "pxCurrentTCBs s c = Some t" "is_ready (container s (StateItem t))" "\<not> is_idle s t"
    by (auto simp: may_block_def)
  obtain s' where "prvAddCurrentTaskToDelayedList c n True s = Inr s'" "sched_ok (esp_crosscore_int_send_yield c s')"
    using block_run [OF ok r True, of True] by blast
  then show thesis using True by (intro that) (simp_all add: block_for_note_def)
next
  case False
  then show thesis using that ok by (simp add: block_for_note_def)
qed

lemma may_block_set_note [simp]: "may_block c (set_note t v st s) = may_block c s"
  by (simp add: may_block_def is_idle_def)

lemma current_task:
  assumes "sched_ok s"
  obtains t where "current c s = Inr t" "pxCurrentTCBs s c = Some t"
  using current_run [OF base_okD(6) [OF sched_okD(2) [OF assms]]] by blast

lemma take_enter_ok:
  assumes ok: "sched_ok s" and n: "0 < n \<Longrightarrow> may_block c s"
  obtains s' where "notify_take_enter c 0 n s = Inr s'" "sched_ok s'"
proof -
  obtain t where t: "current c s = Inr t" using current_task [OF ok] by blast
  obtain s' where "block_for_note c n (set_note t (note_value s t) taskWAITING_NOTIFICATION s) = Inr s'" "sched_ok s'"
    by (rule block_for_note_ok [OF set_note_ok [OF ok], where c = c and n = n]) (use n in auto)
  then show thesis using that [of s'] that [of s] t ok by (cases "note_value s t = 0") (auto simp: notify_take_enter_def)
qed

lemma wait_enter_ok:
  assumes ok: "sched_ok s" and n: "0 < n \<Longrightarrow> may_block c s"
  obtains s' where "notify_wait_enter c 0 bits n s = Inr s'" "sched_ok s'"
proof -
  obtain t where t: "current c s = Inr t" using current_task [OF ok] by blast
  obtain s' where "block_for_note c n (set_note t (note_value s t AND NOT bits) taskWAITING_NOTIFICATION s) = Inr s'" "sched_ok s'"
    by (rule block_for_note_ok [OF set_note_ok [OF ok], where c = c and n = n]) (use n in auto)
  then show thesis using that [of s'] that [of s] t ok
    by (cases "note_state s t = taskNOTIFICATION_RECEIVED") (auto simp: notify_wait_enter_def)
qed

lemma take_leave_ok:
  assumes ok: "sched_ok s"
  obtains r s' where "notify_take_leave c clear s = Inr (r, s')" "sched_ok s'"
proof -
  obtain t where "current c s = Inr t" using current_task [OF ok] by blast
  then show thesis by (intro that [OF _ set_note_ok [OF ok]]) (simp add: notify_take_leave_def Let_def)
qed

lemma wait_leave_ok:
  assumes ok: "sched_ok s"
  obtains r v s' where "notify_wait_leave c bits s = Inr (r, v, s')" "sched_ok s'"
proof -
  obtain t where "current c s = Inr t" using current_task [OF ok] by blast
  then show thesis by (intro that [OF _ set_note_ok [OF ok]]) (simp add: notify_wait_leave_def Let_def)
qed

text \<open>Notifying a task that exists: it is made ready if it waits.\<close>

definition may_notify :: "task \<Rightarrow> sched \<Rightarrow> bool" where
  "may_notify t s \<longleftrightarrow> tcb_live s t \<and> container s (StateItem t) \<noteq> Some TasksWaitingTermination"

lemma wake_run:
  assumes ok: "sched_ok s" and m: "may_notify t s" and ev: "container s (EventItem t) = None"
  obtains s2 s3 where "remove_state t s = Inr s2" "prvAddTaskToReadyList t s2 = Inr s3" "ready_result t s s3" "sched_ok s3"
    "prio s3 t < configMAX_PRIORITIES"
proof -
  obtain l where l: "container s (StateItem t) = Some l" and pr: "prio s t < configMAX_PRIORITIES"
    using live_place [OF ok] m by (auto simp: may_notify_def)
  obtain s3 where run: "bind_res (remove_state t s) (prvAddTaskToReadyList t) = Inr s3" and res: "ready_result t s s3"
    using ready_plain [OF sched_okD(1) [OF ok] l pr ev] by blast
  have "sched_ok s3" by (rule ready_result_sched [OF res ok]) (use m in \<open>simp_all add: may_notify_def\<close>)
  moreover have "prio s3 t < configMAX_PRIORITIES" using res pr by (auto simp: ready_result_def)
  ultimately show thesis using that run res by (auto simp: bind_res_eq_Inr_iff)
qed

lemma may_notify_set_note [simp]: "may_notify t (set_note u v st s) = may_notify t s"
  by (simp add: may_notify_def)

lemma notify_ok:
  assumes ok: "sched_ok s" and free: "notes_ok s" and m: "may_notify t s"
  obtains r v s' where "xTaskGenericNotify c (Some t) 0 val act s = Inr (r, v, s')" "sched_ok s'"
proof -
  obtain r v where a: "notify_action act val (note_state s t) (note_value s t) = (r, v)" by force
  let ?s1 = "set_note t v taskNOTIFICATION_RECEIVED s"
  have ok1: "sched_ok ?s1" by (rule set_note_ok [OF ok])
  show thesis
  proof (cases "note_state s t = taskWAITING_NOTIFICATION")
    case False
    then show thesis using that ok1 a by (simp add: xTaskGenericNotify_def)
  next
    case True
    then have "container ?s1 (EventItem t) = None" using free by (simp add: notes_ok_def)
    from wake_run [OF ok1 _ this] m obtain s2 s3 where w: "remove_state t ?s1 = Inr s2" "prvAddTaskToReadyList t s2 = Inr s3"
      "ready_result t ?s1 s3" "sched_ok s3" "prio s3 t < configMAX_PRIORITIES" by auto
    obtain y s4 where y: "prvIsYieldRequiredSMP c t (prio s3 t) False s3 = Inr (y, s4)" "sched_ok s4"
      using yield_required_ok [OF w(4,5)] by blast
    have "container s3 (EventItem t) = None" using w(3) by (auto simp: ready_result_def)
    then have "xTaskGenericNotify c (Some t) 0 val act s = Inr (r, note_value s t, if y then esp_crosscore_int_send_yield c s4 else s4)"
      using True a w(1,2) y(1) by (simp add: xTaskGenericNotify_def)
    then show thesis by (rule that) (use y(2) send_yield_ok(5) in auto)
  qed
qed

text \<open>
  From an interrupt: like resuming, with the restriction that a task which must be put aside has
  already blocked.
\<close>

definition may_notify_isr :: "core \<Rightarrow> task \<Rightarrow> sched \<Rightarrow> bool" where
  "may_notify_isr c t s \<longleftrightarrow> may_notify t s \<and>
     (prvCheckTaskCanBeScheduledSMP s t \<or>
      uxSchedulerSuspended s c \<noteq> 0 \<and>
      container s (StateItem t) \<in> {Some DelayedTaskList1, Some DelayedTaskList2, Some SuspendedTaskList})"

lemma may_notify_isr_set_note [simp]: "may_notify_isr c t (set_note u v st s) = may_notify_isr c t s"
  by (simp add: may_notify_isr_def)

lemma wake_from_isr_ok:
  assumes ok: "sched_ok s" and ev: "container s (EventItem t) = None" and m: "may_notify_isr c t s"
  obtains y s' where "wake_from_isr c t s = Inr (y, s')" "sched_ok s'"
proof -
  have "\<exists>s1. (if prvCheckTaskCanBeScheduledSMP s t then bind_res (remove_state t s) (prvAddTaskToReadyList t)
      else insert_end (PendingReady c) (EventItem t) s) = Inr s1 \<and> sched_ok s1 \<and> prio s1 t < configMAX_PRIORITIES"
  proof (cases "prvCheckTaskCanBeScheduledSMP s t")
    case True
    have "may_notify t s" using m by (simp add: may_notify_isr_def)
    from wake_run [OF ok this ev] obtain s2 s3 where "remove_state t s = Inr s2" "prvAddTaskToReadyList t s2 = Inr s3" "sched_ok s3"
      "prio s3 t < configMAX_PRIORITIES" by blast
    then show ?thesis using True by simp
  next
    case False
    then have susp: "uxSchedulerSuspended s c \<noteq> 0" and bl: "is_blocked (container s (StateItem t))"
      using m by (auto simp: may_notify_isr_def is_blocked_def)
    obtain X where ins: "insert_end (PendingReady c) (EventItem t) s =
        Inr (s\<lparr>items := (items s)(PendingReady c := X), container := (container s)(EventItem t := Some (PendingReady c))\<rparr>)" (is "_ = Inr ?s1")
      and lists: "lists_ok (s\<lparr>items := (items s)(PendingReady c := X), container := (container s)(EventItem t := Some (PendingReady c))\<rparr>)"
      using insert_end_run [OF sched_okD(1) [OF ok] ev] by blast
    have "sched_ok ?s1"
      by (rule pending_ok [OF ok bl susp, where X = "(items s)(PendingReady c := X)" and Y = "cursor s"])
         (use lists sched_okD(4,5) [OF ok] in \<open>simp_all add: wake_order_def\<close>)
    moreover have "prio ?s1 t < configMAX_PRIORITIES"
      using live_place [OF ok, of t] m by (auto simp: may_notify_isr_def may_notify_def prio_def)
    ultimately show ?thesis using False ins by simp
  qed
  then obtain s1 where s1: "(if prvCheckTaskCanBeScheduledSMP s t then bind_res (remove_state t s) (prvAddTaskToReadyList t)
      else insert_end (PendingReady c) (EventItem t) s) = Inr s1" "sched_ok s1" "prio s1 t < configMAX_PRIORITIES" by blast
  obtain y s2 where y: "prvIsYieldRequiredSMP c t (prio s1 t) False s1 = Inr (y, s2)" "sched_ok s2"
    using yield_required_ok [OF s1(2,3)] by blast
  have "wake_from_isr c t s = Inr (y, if y then set_yield_pending c True s2 else s2)"
    by (simp only: wake_from_isr_def ev res_simps simp_thms s1(1) y(1) case_prod_conv)
  then show thesis by (rule that) (use y(2) set_yield_pending_ok(5) in auto)
qed

lemma notify_isr_ok:
  assumes ok: "sched_ok s" and free: "notes_ok s" and m: "may_notify_isr c t s"
  obtains r v w s' where "xTaskGenericNotifyFromISR c (Some t) 0 val act s = Inr (r, v, w, s')" "sched_ok s'"
proof -
  obtain r v where a: "notify_action act val (note_state s t) (note_value s t) = (r, v)" by force
  note ok1 = set_note_ok [OF ok, of t v taskNOTIFICATION_RECEIVED]
  show thesis
  proof (cases "note_state s t = taskWAITING_NOTIFICATION")
    case True
    then have "container s (EventItem t) = None" using free by (simp add: notes_ok_def)
    then obtain y s' where "wake_from_isr c t (set_note t v taskNOTIFICATION_RECEIVED s) = Inr (y, s')" "sched_ok s'"
      using wake_from_isr_ok [OF ok1, of t c] m by auto
    then show thesis using that True a by (simp add: xTaskGenericNotifyFromISR_def)
  qed (use that ok1 a in \<open>simp add: xTaskGenericNotifyFromISR_def\<close>)
qed

lemma give_isr_ok:
  assumes ok: "sched_ok s" and free: "notes_ok s" and m: "may_notify_isr c t s"
  obtains w s' where "vTaskGenericNotifyGiveFromISR c (Some t) 0 s = Inr (w, s')" "sched_ok s'"
proof -
  note ok1 = set_note_ok [OF ok, of t "note_value s t + 1" taskNOTIFICATION_RECEIVED]
  show thesis
  proof (cases "note_state s t = taskWAITING_NOTIFICATION")
    case True
    then have "container s (EventItem t) = None" using free by (simp add: notes_ok_def)
    then obtain y s' where "wake_from_isr c t (set_note t (note_value s t + 1) taskNOTIFICATION_RECEIVED s) = Inr (y, s')" "sched_ok s'"
      using wake_from_isr_ok [OF ok1, of t c] m by auto
    then show thesis using that True by (simp add: vTaskGenericNotifyGiveFromISR_def Let_def)
  qed (use that ok1 in \<open>simp add: vTaskGenericNotifyGiveFromISR_def Let_def\<close>)
qed

section \<open>What the other calls leave alone\<close>

text \<open>A property of the result of a call, if it returns.\<close>

definition ensures :: "'a res \<Rightarrow> ('a \<Rightarrow> bool) \<Rightarrow> bool" where
  "ensures r P \<longleftrightarrow> (\<forall>x. r = Inr x \<longrightarrow> P x)"

lemma ensures_simps [simp]:
  "ensures (Inr x) P = P x" "ensures (Inl e) P"
  "ensures (bind_res m f) P = ensures m (\<lambda>x. ensures (f x) P)"
  "ensures (assert_res b r) P = (b \<longrightarrow> ensures r P)"
  by (auto simp: ensures_def bind_res_eq_Inr_iff assert_res_eq_Inr_iff)

lemma ensures_mono: "ensures r P \<Longrightarrow> (\<And>x. P x \<Longrightarrow> Q x) \<Longrightarrow> ensures r Q"
  by (simp add: ensures_def)

lemma ensuresD: "ensures r P \<Longrightarrow> r = Inr x \<Longrightarrow> P x"
  by (simp add: ensures_def)

definition mailbox :: "sched \<Rightarrow> task \<Rightarrow> u32 \<times> notify_state" where
  "mailbox s t = (note_value s t, note_state s t)"

text \<open>The notifications are \<^term>\<open>N\<close>, and the event items of the tasks in \<^term>\<open>F\<close> are free.\<close>

definition frame :: "(task \<Rightarrow> u32 \<times> notify_state) \<Rightarrow> task set \<Rightarrow> sched \<Rightarrow> bool" where
  "frame N F s \<longleftrightarrow> mailbox s = N \<and> (\<forall>t \<in> F. container s (EventItem t) = None)"

lemma frame_cong:
  assumes "frame N F s" "tcb s' = tcb s" "\<And>t. t \<in> F \<Longrightarrow> container s' (EventItem t) = container s (EventItem t)"
  shows "frame N F s'"
  using assms by (simp add: frame_def mailbox_def note_value_def note_state_def fun_eq_iff)

lemma frame_event: "frame N F s \<Longrightarrow> container s (EventItem t) \<noteq> None \<Longrightarrow> t \<notin> F"
  by (auto simp: frame_def)

text \<open>Assignments to fields that are neither control blocks nor containers.\<close>

lemma frame_fields [simp]:
  "frame N F (s\<lparr>xTickCount := a\<rparr>) = frame N F s" "frame N F (s\<lparr>pxCurrentTCBs := b\<rparr>) = frame N F s"
  "frame N F (s\<lparr>xNextTaskUnblockTime := a\<rparr>) = frame N F s" "frame N F (s\<lparr>uxTopReadyPriority := a\<rparr>) = frame N F s"
  "frame N F (s\<lparr>xPendedTicks := a\<rparr>) = frame N F s" "frame N F (s\<lparr>uxSchedulerSuspended := g\<rparr>) = frame N F s"
  "frame N F (s\<lparr>uxTaskNumber := a\<rparr>) = frame N F s" "frame N F (s\<lparr>uxDeletedTasksWaitingCleanUp := a\<rparr>) = frame N F s"
  "frame N F (s\<lparr>uxCurrentNumberOfTasks := a\<rparr>) = frame N F s" "frame N F (s\<lparr>reason := h\<rparr>) = frame N F s"
  "frame N F (s\<lparr>tcb_live := k\<rparr>) = frame N F s" "frame N F (s\<lparr>cursor := x\<rparr>) = frame N F s" "frame N F (s\<lparr>xYieldPending := h\<rparr>) = frame N F s"
  "frame N F (set_yield_pending c y s) = frame N F s" "frame N F (esp_crosscore_int_send_yield c s) = frame N F s"
  "frame N F (prvDeleteTCB t s) = frame N F s" "frame N F (vTaskSuspendAll c s) = frame N F s"
  "frame N F (reset_index l s) = frame N F s" "frame N F (set_value i a s) = frame N F s"
  "frame N F (prvResetNextTaskUnblockTime s) = frame N F s" "frame N F (taskRECORD_READY_PRIORITY a s) = frame N F s"
  "frame N F (s\<lparr>pxDelayedTaskList := l, pxOverflowDelayedTaskList := l', xNumOfOverflows := a\<rparr>) = frame N F s"
  by (simp_all add: frame_def mailbox_def note_value_def note_state_def fun_eq_iff set_yield_pending_def
      esp_crosscore_int_send_yield_def prvDeleteTCB_def vTaskSuspendAll_def reset_index_def set_value_def
      prvResetNextTaskUnblockTime_def taskRECORD_READY_PRIORITY_def split: list.split)

lemma frame_upd [simp]:
  assumes "\<And>b. ulNotifiedValue (f b) = ulNotifiedValue b" "\<And>b. ucNotifyState (f b) = ucNotifyState b"
  shows "frame N F (upd_task t f s) = frame N F s"
  using assms by (auto simp: frame_def mailbox_def note_value_def note_state_def fun_eq_iff)

text \<open>
  Rules for the calls: whatever follows from the frame holds of their result. The lists of state items
  may change; an event item enters a list only if its task is not in \<^term>\<open>F\<close>.
\<close>

named_theorems frame_rules

definition foreign :: "task set \<Rightarrow> item \<Rightarrow> bool" where
  "foreign F i \<longleftrightarrow> (case i of StateItem _ \<Rightarrow> True | EventItem t \<Rightarrow> t \<notin> F)"

lemma foreign_simps [simp]: "foreign F (StateItem t)" "foreign F (EventItem t) = (t \<notin> F)"
  by (simp_all add: foreign_def)

lemma frame_remove_item [frame_rules]:
  assumes "frame N F s" "\<And>n s1. frame N F s1 \<Longrightarrow> foreign F i \<Longrightarrow> P (n, s1)"
  shows "ensures (remove_item i s) P"
proof (cases "container s i")
  case (Some l)
  have "foreign F i" using assms(1) Some by (cases i) (auto simp: frame_def)
  moreover have "frame N F s1" if "container s1 = (container s)(i := None)" "tcb s1 = tcb s" for s1
    using assms(1) that by (auto simp: frame_def mailbox_def note_value_def note_state_def fun_eq_iff)
  ultimately show ?thesis using Some assms(2) by (simp add: remove_item_def Let_def)
qed (simp add: remove_item_def)

lemma frame_insert_end [frame_rules]:
  assumes "frame N F s" "foreign F i" "\<And>s1. frame N F s1 \<Longrightarrow> P s1"
  shows "ensures (insert_end l i s) P"
proof -
  have "frame N F s1" if "container s1 = (container s)(i := Some l)" "tcb s1 = tcb s" for s1
    using assms(1,2) that by (auto simp: frame_def mailbox_def note_value_def note_state_def fun_eq_iff foreign_def split: item.splits)
  then show ?thesis using assms(3) by (simp add: insert_end_def)
qed

lemma frame_insert_sorted [frame_rules]:
  assumes "frame N F s" "foreign F i" "\<And>s1. frame N F s1 \<Longrightarrow> P s1"
  shows "ensures (insert_sorted l i s) P"
proof -
  have "frame N F s1" if "container s1 = (container s)(i := Some l)" "tcb s1 = tcb s" for s1
    using assms(1,2) that by (auto simp: frame_def mailbox_def note_value_def note_state_def fun_eq_iff foreign_def split: item.splits)
  then show ?thesis using assms(3) by (simp add: insert_sorted_def)
qed

lemma frame_next_entry [frame_rules]:
  assumes "frame N F (s :: sched)" "\<And>y s1. frame N F s1 \<Longrightarrow> P (y, s1)"
  shows "ensures (next_entry l s) P"
  using assms(1) by (auto simp: next_entry_def Let_def  intro!: frame_rules assms(2) split: option.splits)

lemma frame_pure [frame_rules]:
  "(\<And>t. P t) \<Longrightarrow> ensures (current c s) P" "(\<And>l. Q l) \<Longrightarrow> ensures (ready_list p) Q"
  "(\<And>t. P t) \<Longrightarrow> ensures (prvGetTCBFromHandle c h s) P" "(\<And>b. R b) \<Longrightarrow> ensures (yields_core c t p s) R"
  "(\<And>b. R b) \<Longrightarrow> ensures (time_slice c s) R" "(\<And>x. S x) \<Longrightarrow> ensures (eTaskGetState h s) S"
  "(\<And>t. T t) \<Longrightarrow> ensures (deref h) T"
  by (simp_all add: ensures_def)

lemma frame_remove_state [frame_rules]:
  assumes "frame N F s" "\<And>s1. frame N F s1 \<Longrightarrow> P s1"
  shows "ensures (remove_state t s) P"
  using assms(1) by (auto simp: remove_state_def Let_def  intro!: frame_rules assms(2))

lemma frame_unlink_event [frame_rules]:
  assumes "frame N F s" "\<And>s1. frame N F s1 \<Longrightarrow> P s1"
  shows "ensures (unlink_event t s) P"
  using assms(1) by (auto simp: unlink_event_def Let_def  intro!: frame_rules assms(2))

lemma frame_prvAddTaskToReadyList [frame_rules]:
  assumes "frame N F s" "\<And>s1. frame N F s1 \<Longrightarrow> P s1"
  shows "ensures (prvAddTaskToReadyList t s) P"
  using assms(1) by (auto simp: prvAddTaskToReadyList_def Let_def  intro!: frame_rules assms(2))

lemma frame_prvIsYieldRequiredSMP [frame_rules]:
  assumes "frame N F s" "\<And>y s1. frame N F s1 \<Longrightarrow> P (y, s1)"
  shows "ensures (prvIsYieldRequiredSMP c t p eq s) P"
  using assms(1) by (auto simp: prvIsYieldRequiredSMP_def Let_def  intro!: frame_rules assms(2))

lemma frame_taskSWITCH_DELAYED_LISTS [frame_rules]:
  assumes "frame N F s" "\<And>s1. frame N F s1 \<Longrightarrow> P s1"
  shows "ensures (taskSWITCH_DELAYED_LISTS  s) P"
  using assms(1) by (auto simp: taskSWITCH_DELAYED_LISTS_def Let_def  intro!: frame_rules assms(2))

lemma frame_prvAddCurrentTaskToDelayedList [frame_rules]:
  assumes "frame N F s" "\<And>s1. frame N F s1 \<Longrightarrow> P s1"
  shows "ensures (prvAddCurrentTaskToDelayedList c n forever s) P"
  using assms(1) by (auto simp: prvAddCurrentTaskToDelayedList_def Let_def  intro!: frame_rules assms(2))

lemma frame_walk_ready_list [frame_rules]:
  assumes "frame N F s" "\<And>y s1. frame N F s1 \<Longrightarrow> P (y, s1)"
  shows "ensures (walk_ready_list n c l first cur s) P"
  using assms(1) by (induction n c l first cur s rule: walk_ready_list.induct) (auto intro!: frame_rules assms(2))

lemma frame_search_priority [frame_rules]:
  assumes "frame N F s" "\<And>y s1. frame N F s1 \<Longrightarrow> P (y, s1)"
  shows "ensures (search_priority c l s) P"
  using assms(1) by (auto simp: search_priority_def Let_def intro!: frame_rules assms(2))

lemma frame_search_from [frame_rules]:
  assumes "frame N F s" "\<And>y s1. frame N F s1 \<Longrightarrow> P (y, s1)"
  shows "ensures (search_from c p b s) P"
  using assms(1)
proof (induction p arbitrary: b s)
  case 0 then show ?case by (subst search_from.simps) (auto intro!: frame_rules assms(2))
next
  case (Suc p) then show ?case by (subst search_from.simps) (auto intro!: frame_rules assms(2))
qed

lemma frame_prvSelectHighestPriorityTaskSMP [frame_rules]:
  assumes "frame N F s" "\<And>s1. frame N F s1 \<Longrightarrow> P s1"
  shows "ensures (prvSelectHighestPriorityTaskSMP c s) P"
  using assms(1) by (auto simp: prvSelectHighestPriorityTaskSMP_def Let_def intro!: frame_rules assms(2))

lemma frame_vTaskSwitchContext [frame_rules]:
  assumes "frame N F s" "\<And>s1. frame N F s1 \<Longrightarrow> P s1"
  shows "ensures (vTaskSwitchContext c s) P"
  using assms(1) by (auto simp: vTaskSwitchContext_def Let_def intro!: frame_rules assms(2))

lemma frame_esp_crosscore_isr [frame_rules]:
  assumes "frame N F s" "\<And>s1. frame N F s1 \<Longrightarrow> P s1"
  shows "ensures (esp_crosscore_isr c s) P"
  using assms(1) by (auto simp: esp_crosscore_isr_def Let_def intro!: frame_rules assms(2))

lemma frame_tick_preempt [frame_rules]:
  assumes "frame N F s" "\<And>y s1. frame N F s1 \<Longrightarrow> P (y, s1)"
  shows "ensures (tick_preempt t sw s) P"
  using assms(1) by (auto simp: tick_preempt_def Let_def intro!: frame_rules assms(2))

lemma frame_unblock_expired [frame_rules]:
  assumes "frame N F s" "\<And>y s1. frame N F s1 \<Longrightarrow> P (y, s1)"
  shows "ensures (unblock_expired n now sw s) P"
  using assms(1)
  by (induction n now sw s rule: unblock_expired.induct) (auto simp: Let_def intro!: frame_rules assms(2) split: list.split)

lemma frame_xTaskIncrementTick [frame_rules]:
  assumes "frame N F s" "\<And>y s1. frame N F s1 \<Longrightarrow> P (y, s1)"
  shows "ensures (xTaskIncrementTick c s) P"
  using assms(1) by (auto simp: xTaskIncrementTick_def Let_def simp del: unblock_expired.simps intro!: frame_rules assms(2))

lemma frame_xTaskIncrementTickOtherCores [frame_rules]:
  assumes "frame N F s" "\<And>y s1. frame N F s1 \<Longrightarrow> P (y, s1)"
  shows "ensures (xTaskIncrementTickOtherCores c s) P"
  using assms(1) by (auto simp: xTaskIncrementTickOtherCores_def Let_def intro!: frame_rules assms(2))

lemma frame_xPortSysTickHandler [frame_rules]:
  assumes "frame N F s" "\<And>s1. frame N F s1 \<Longrightarrow> P s1"
  shows "ensures (xPortSysTickHandler c s) P"
  using assms(1) by (auto simp: xPortSysTickHandler_def Let_def intro!: frame_rules assms(2))

lemma frame_move_pending [frame_rules]:
  assumes "frame N F s" "\<And>y s1. frame N F s1 \<Longrightarrow> P (y, s1)"
  shows "ensures (move_pending n c moved s) P"
  using assms(1)
proof (induction n arbitrary: moved s)
  case 0 then show ?case by (subst move_pending.simps) (auto intro!: assms(2) split: list.split)
next
  case (Suc n) then show ?case by (subst move_pending.simps) (auto simp: Let_def intro!: frame_rules assms(2) split: list.split)
qed

lemma frame_unwind_ticks [frame_rules]:
  assumes "frame N F s" "\<And>s1. frame N F s1 \<Longrightarrow> P s1"
  shows "ensures (unwind_ticks n c s) P"
  using assms(1) by (induction n arbitrary: s) (auto intro!: frame_rules assms(2))

lemma frame_xTaskResumeAll [frame_rules]:
  assumes "frame N F s" "\<And>y s1. frame N F s1 \<Longrightarrow> P (y, s1)"
  shows "ensures (xTaskResumeAll c s) P"
  using assms(1) by (auto simp: xTaskResumeAll_def Let_def intro!: frame_rules assms(2))

lemma frame_xTaskCatchUpTicks [frame_rules]:
  assumes "frame N F s" "\<And>y s1. frame N F s1 \<Longrightarrow> P (y, s1)"
  shows "ensures (xTaskCatchUpTicks c n s) P"
  using assms(1) by (auto simp: xTaskCatchUpTicks_def Let_def intro!: frame_rules assms(2))

lemma frame_vTaskDelay_smp [frame_rules]:
  assumes "frame N F s" "\<And>s1. frame N F s1 \<Longrightarrow> P s1"
  shows "ensures (vTaskDelay_smp c n s) P"
  using assms(1) by (auto simp: vTaskDelay_smp_def Let_def intro!: frame_rules assms(2))

lemma frame_xTaskDelayUntil [frame_rules]:
  assumes "frame N F s" "\<And>y v s1. frame N F s1 \<Longrightarrow> P (y, v, s1)"
  shows "ensures (xTaskDelayUntil c prev n s) P"
  using assms(1) by (auto simp: xTaskDelayUntil_def Let_def intro!: frame_rules assms(2) split: option.split)

lemma frame_xTaskAbortDelay [frame_rules]:
  assumes "frame N F s" "\<And>y s1. frame N F s1 \<Longrightarrow> P (y, s1)"
  shows "ensures (xTaskAbortDelay c h s) P"
  using assms(1) by (auto simp: xTaskAbortDelay_def Let_def intro!: frame_rules assms(2))

lemma frame_vTaskResume [frame_rules]:
  assumes "frame N F s" "\<And>s1. frame N F s1 \<Longrightarrow> P s1"
  shows "ensures (vTaskResume c h s) P"
  using assms(1) by (auto simp: vTaskResume_def Let_def intro!: frame_rules assms(2) split: option.split)

lemma frame_requeue_ready [frame_rules]:
  assumes "frame N F s" "\<And>s1. frame N F s1 \<Longrightarrow> P s1"
  shows "ensures (requeue_ready old t s) P"
  using assms(1) by (auto simp: requeue_ready_def Let_def intro!: frame_rules assms(2))

lemma frame_reset_event_value [simp]: "frame N F (reset_event_value t p s) = frame N F s"
  by (simp add: reset_event_value_def)

lemma frame_vTaskPrioritySet [frame_rules]:
  assumes "frame N F s" "\<And>s1. frame N F s1 \<Longrightarrow> P s1"
  shows "ensures (vTaskPrioritySet c h p s) P"
  using assms(1) by (auto simp: vTaskPrioritySet_def Let_def intro!: frame_rules assms(2) split: option.split list.split)

lemma frame_xTaskPriorityInherit_smp [frame_rules]:
  assumes "frame N F s" "\<And>y s1. frame N F s1 \<Longrightarrow> P (y, s1)"
  shows "ensures (xTaskPriorityInherit_smp c h s) P"
  using assms(1) by (auto simp: xTaskPriorityInherit_smp_def Let_def intro!: frame_rules assms(2) split: option.split list.split)

lemma frame_xTaskPriorityDisinherit_smp [frame_rules]:
  assumes "frame N F s" "\<And>y s1. frame N F s1 \<Longrightarrow> P (y, s1)"
  shows "ensures (xTaskPriorityDisinherit_smp c h s) P"
  using assms(1) by (auto simp: xTaskPriorityDisinherit_smp_def Let_def intro!: frame_rules assms(2) split: option.split list.split)

lemma frame_vTaskPriorityDisinheritAfterTimeout_smp [frame_rules]:
  assumes "frame N F s" "\<And>s1. frame N F s1 \<Longrightarrow> P s1"
  shows "ensures (vTaskPriorityDisinheritAfterTimeout_smp c h w s) P"
  using assms(1) by (auto simp: vTaskPriorityDisinheritAfterTimeout_smp_def Let_def intro!: frame_rules assms(2) split: option.split list.split)

lemma frame_xTaskRemoveFromEventList_smp [frame_rules]:
  assumes "frame N F s" "\<And>y s1. frame N F s1 \<Longrightarrow> P (y, s1)"
  shows "ensures (xTaskRemoveFromEventList_smp c e s) P"
  using assms(1) by (auto simp: xTaskRemoveFromEventList_smp_def Let_def intro!: frame_rules assms(2) split: option.split list.split; blast)

lemma frame_vTaskDelete [frame_rules]:
  assumes "frame N F s" "\<And>s1. frame N F s1 \<Longrightarrow> P s1"
  shows "ensures (vTaskDelete c h s) P"
  using assms(1) by (auto simp: vTaskDelete_def Let_def intro!: frame_rules assms(2) split: option.split list.split)

lemma frame_check_termination [frame_rules]:
  assumes "frame N F s" "\<And>s1. frame N F s1 \<Longrightarrow> P s1"
  shows "ensures (check_termination n s) P"
  using assms(1) by (induction n arbitrary: s) (auto simp: Let_def intro!: frame_rules assms(2) split: list.split)

lemma frame_prvCheckTasksWaitingTermination [frame_rules]:
  assumes "frame N F s" "\<And>s1. frame N F s1 \<Longrightarrow> P s1"
  shows "ensures (prvCheckTasksWaitingTermination  s) P"
  using assms(1) by (auto simp: prvCheckTasksWaitingTermination_def Let_def intro!: frame_rules assms(2))

section \<open>What the remaining calls do to notifications\<close>

lemma frame_set_note: "frame N F s \<Longrightarrow> frame (N(t := (v, st))) F (set_note t v st s)"
  by (auto simp: frame_def mailbox_def fun_eq_iff)

lemma frame_less: "frame N F s \<Longrightarrow> G \<subseteq> F \<Longrightarrow> frame N G s"
  by (auto simp: frame_def)

lemma frame_start: "frame (mailbox s) {t. container s (EventItem t) = None} s"
  by (simp add: frame_def)

lemma frame_get: "frame N F s \<Longrightarrow> N t = (note_value s t, note_state s t)"
  by (auto simp: frame_def mailbox_def)

lemma frame_block_for_note [frame_rules]:
  assumes "frame N F s" "\<And>s1. frame N F s1 \<Longrightarrow> P s1"
  shows "ensures (block_for_note c n s) P"
  using assms(1) by (auto simp: block_for_note_def intro!: frame_rules assms(2))

lemma frame_leave_suspended [frame_rules]:
  assumes "frame N F s" "\<And>s1. frame N F s1 \<Longrightarrow> P s1"
  shows "ensures (leave_suspended c t s) P"
  using assms(1) by (auto simp: leave_suspended_def intro!: frame_rules assms(2))

text \<open>A suspended task no longer waits for a notification.\<close>

definition stopped :: "u32 \<times> notify_state \<Rightarrow> u32 \<times> notify_state" where
  "stopped m = (if snd m = taskWAITING_NOTIFICATION then (fst m, taskNOT_WAITING_NOTIFICATION) else m)"

lemma frame_stop_waiting:
  assumes "frame N F s"
  shows "frame (N(t := stopped (N t))) F (upd_task t stop_waiting_notification s)"
proof -
  have "N = mailbox s" using assms by (simp add: frame_def)
  then show ?thesis
    using assms by (auto simp: frame_def mailbox_def fun_eq_iff stopped_def stop_waiting_notification_def note_value_def note_state_def)
qed

lemma suspend_notes:
  assumes "frame N F s" "prvGetTCBFromHandle c h s = Inr t"
  shows "ensures (vTaskSuspend c h s) (frame (N(t := stopped (N t))) F)"
  using assms(1) by (auto simp: vTaskSuspend_def assms(2) Let_def intro!: frame_rules frame_stop_waiting)

lemma place_notes:
  assumes "frame N F s" "pxCurrentTCBs s c = Some t"
  shows "ensures (vTaskPlaceOnEventList_smp c e n s) (frame N (F - {t}))"
    "ensures (vTaskPlaceOnEventListRestricted c e n b s) (frame N (F - {t}))"
  using frame_less [OF assms(1), of "F - {t}"] assms(2)
  by (auto simp: vTaskPlaceOnEventList_smp_def vTaskPlaceOnEventListRestricted_def current_def intro!: frame_rules)

lemma resume_isr_notes:
  assumes "frame N F s"
  shows "ensures (xTaskResumeFromISR c (Some t) s) (\<lambda>(y, s'). frame N (if prvCheckTaskCanBeScheduledSMP s t then F else F - {t}) s')"
proof (cases "prvCheckTaskCanBeScheduledSMP s t")
  case True then show ?thesis using assms by (auto simp: xTaskResumeFromISR_def Let_def intro!: frame_rules)
next
  case False then show ?thesis using frame_less [OF assms, of "F - {t}"] by (auto simp: xTaskResumeFromISR_def intro!: frame_rules)
qed

lemma adopt_frame [simp]: "frame N F (adopt_new_task t s) = frame N F s"
  by (simp add: adopt_new_task_def Let_def)

lemma initialise_lists_frame [simp]: "frame N F (prvInitialiseTaskLists s) = frame N F s"
  by (simp add: prvInitialiseTaskLists_def frame_def mailbox_def note_value_def note_state_def fun_eq_iff)

lemma frame_add_new [frame_rules]:
  assumes "frame N F s" "\<And>s1. frame N F s1 \<Longrightarrow> P s1"
  shows "ensures (prvAddNewTaskToReadyList c t s) P"
  using assms(1) by (auto simp: prvAddNewTaskToReadyList_def Let_def intro!: frame_rules assms(2))

lemma create_notes:
  assumes "frame N F s"
  shows "ensures (xTaskCreatePinnedToCore c stack block p core s)
    (\<lambda>(y, s'). frame (case (if stack then block else None) of None \<Rightarrow> N | Some t \<Rightarrow> N(t := (0, taskNOT_WAITING_NOTIFICATION))) F s')"
proof (cases "if stack then block else None")
  case None then show ?thesis using assms by (simp add: xTaskCreatePinnedToCore_def)
next
  case (Some t)
  have "ensures (prvInitialiseNewTask t p core s) (frame (N(t := (0, taskNOT_WAITING_NOTIFICATION))) F)"
    using assms by (auto simp: prvInitialiseNewTask_def frame_def mailbox_def note_value_def note_state_def fun_eq_iff)
  then have "ensures (prvInitialiseNewTask t p core s)
      (\<lambda>s1. ensures (prvAddNewTaskToReadyList c t s1) (frame (N(t := (0, taskNOT_WAITING_NOTIFICATION))) F))"
    by (rule ensures_mono) (rule frame_add_new)
  then show ?thesis using Some by (simp add: xTaskCreatePinnedToCore_def)
qed

text \<open>The notification calls themselves.\<close>

definition note_taken :: "bool \<Rightarrow> u32 \<times> notify_state \<Rightarrow> u32 \<times> notify_state" where
  "note_taken clear m = ((if fst m \<noteq> 0 then (if clear then 0 else fst m - 1) else 0), taskNOT_WAITING_NOTIFICATION)"

definition note_waited :: "u32 \<Rightarrow> u32 \<times> notify_state \<Rightarrow> u32 \<times> notify_state" where
  "note_waited bits m =
     ((if snd m = taskNOTIFICATION_RECEIVED then fst m AND NOT bits else fst m), taskNOT_WAITING_NOTIFICATION)"

definition note_posted :: "eNotifyAction \<Rightarrow> u32 \<Rightarrow> u32 \<times> notify_state \<Rightarrow> u32 \<times> notify_state" where
  "note_posted act v m =
     ((case act of
         eNoAction \<Rightarrow> fst m
       | eSetBits \<Rightarrow> fst m OR v
       | eIncrement \<Rightarrow> fst m + 1
       | eSetValueWithOverwrite \<Rightarrow> v
       | eSetValueWithoutOverwrite \<Rightarrow> if snd m = taskNOTIFICATION_RECEIVED then fst m else v),
      taskNOTIFICATION_RECEIVED)"

lemma action_posted: "notify_action act v st w = (r, x) \<Longrightarrow> note_posted act v (w, st) = (x, taskNOTIFICATION_RECEIVED)"
  by (cases act) (auto simp: notify_action_def note_posted_def split: if_splits)

definition note_entered :: "bool \<Rightarrow> u32 \<Rightarrow> u32 \<times> notify_state \<Rightarrow> u32 \<times> notify_state" where
  "note_entered ready bits m = (if ready then m else (fst m AND NOT bits, taskWAITING_NOTIFICATION))"

lemma take_enter_notes:
  assumes "frame N F s" "pxCurrentTCBs s c = Some t"
  shows "ensures (notify_take_enter c i n s) (frame (N(t := note_entered (fst (N t) \<noteq> 0) 0 (N t))) F)"
  using frame_set_note [OF assms(1), of t "note_value s t" taskWAITING_NOTIFICATION] assms frame_get [OF assms(1), of t]
  by (auto simp: notify_take_enter_def current_def note_entered_def fun_upd_idem intro!: frame_rules)

lemma wait_enter_notes:
  assumes "frame N F s" "pxCurrentTCBs s c = Some t"
  shows "ensures (notify_wait_enter c i bits n s) (frame (N(t := note_entered (snd (N t) = taskNOTIFICATION_RECEIVED) bits (N t))) F)"
  using frame_set_note [OF assms(1), of t "note_value s t AND NOT bits" taskWAITING_NOTIFICATION] assms frame_get [OF assms(1), of t]
  by (auto simp: notify_wait_enter_def current_def note_entered_def fun_upd_idem intro!: frame_rules)

lemma leave_notes:
  assumes "frame N F s" "pxCurrentTCBs s c = Some t"
  shows "ensures (notify_take_leave c clear s) (\<lambda>(r, s'). r = fst (N t) \<and> frame (N(t := note_taken clear (N t))) F s')"
    "ensures (notify_wait_leave c bits s) (\<lambda>(r, v, s'). r = (snd (N t) = taskNOTIFICATION_RECEIVED) \<and> v = fst (N t) \<and>
       frame (N(t := note_waited bits (N t))) F s')"
  using frame_set_note [OF assms(1), of t] assms frame_get [OF assms(1), of t]
  by (auto simp: notify_take_leave_def notify_wait_leave_def current_def note_taken_def note_waited_def Let_def)

lemma notify_notes:
  assumes "frame N F s"
  shows "ensures (xTaskGenericNotify c (Some t) i val act s) (\<lambda>(r, v, s'). frame (N(t := note_posted act val (N t))) F s')"
proof -
  obtain r v where a: "notify_action act val (note_state s t) (note_value s t) = (r, v)" by force
  then have "frame (N(t := note_posted act val (N t))) F (set_note t v taskNOTIFICATION_RECEIVED s)"
    using frame_set_note [OF assms, of t] frame_get [OF assms, of t] by (simp add: action_posted)
  then show ?thesis using a by (auto simp: xTaskGenericNotify_def Let_def intro!: frame_rules)
qed

lemma frame_wake_from_isr [frame_rules]:
  assumes "frame N F s" "t \<notin> F" "\<And>y s1. frame N F s1 \<Longrightarrow> P (y, s1)"
  shows "ensures (wake_from_isr c t s) P"
  using assms(1,2) by (auto simp: wake_from_isr_def intro!: frame_rules assms(3))

lemma notify_isr_notes:
  assumes "frame N F s" "t \<notin> F"
  shows "ensures (xTaskGenericNotifyFromISR c (Some t) i val act s) (\<lambda>(r, v, w, s'). frame (N(t := note_posted act val (N t))) F s')"
    "ensures (vTaskGenericNotifyGiveFromISR c (Some t) i s) (\<lambda>(w, s'). frame (N(t := note_posted eIncrement 0 (N t))) F s')"
proof -
  obtain r v where a: "notify_action act val (note_state s t) (note_value s t) = (r, v)" by force
  then have "frame (N(t := note_posted act val (N t))) F (set_note t v taskNOTIFICATION_RECEIVED s)"
    using frame_set_note [OF assms(1), of t] frame_get [OF assms(1), of t] by (simp add: action_posted)
  then show "ensures (xTaskGenericNotifyFromISR c (Some t) i val act s) (\<lambda>(r, v, w, s'). frame (N(t := note_posted act val (N t))) F s')"
    using a assms(2) by (auto simp: xTaskGenericNotifyFromISR_def Let_def intro!: frame_rules)
  have "frame (N(t := note_posted eIncrement 0 (N t))) F (set_note t (note_value s t + 1) taskNOTIFICATION_RECEIVED s)"
    using frame_set_note [OF assms(1), of t] frame_get [OF assms(1), of t] by (simp add: note_posted_def)
  then show "ensures (vTaskGenericNotifyGiveFromISR c (Some t) i s) (\<lambda>(w, s'). frame (N(t := note_posted eIncrement 0 (N t))) F s')"
    using assms(2) by (auto simp: vTaskGenericNotifyGiveFromISR_def Let_def intro!: frame_rules)
qed

lemma clear_notes:
  assumes "frame N F s" "prvGetTCBFromHandle c h s = Inr t"
  shows "ensures (xTaskGenericNotifyStateClear c h i s) (\<lambda>(r, s').
      frame (N(t := if snd (N t) = taskNOTIFICATION_RECEIVED then (fst (N t), taskNOT_WAITING_NOTIFICATION) else N t)) F s')"
    "ensures (ulTaskGenericNotifyValueClear c h i bits s) (\<lambda>(r, s'). frame (N(t := (fst (N t) AND NOT bits, snd (N t)))) F s')"
  using frame_set_note [OF assms(1), of t] assms frame_get [OF assms(1), of t]
  by (auto simp: xTaskGenericNotifyStateClear_def ulTaskGenericNotifyValueClear_def fun_upd_idem)

end
