(* ===== verification/KernelRun.thy ===== *)
theory KernelRun
  imports TaskNotify
begin

text \<open>
  The kernel in operation: the calls tasks and interrupts make, the guard \<^verbatim>\<open>permitted\<close> under which
  they are considered, and the states that a kernel started by \<^verbatim>\<open>esp_startup_start_app\<close> can reach by such
  calls. Every permitted call returns in every reachable state. The theorems on scheduling follow: the highest priority runs,
  a delayed task wakes in the right tick, a resumed task preempts.
\<close>

section \<open>Guarded machines\<close>

inductive reaches :: "('s \<Rightarrow> bool) \<Rightarrow> ('k \<Rightarrow> 's \<Rightarrow> bool) \<Rightarrow> ('k \<Rightarrow> 's \<Rightarrow> 's res) \<Rightarrow> 's \<Rightarrow> bool"
  for start permits step where
  reaches_start: "start s \<Longrightarrow> reaches start permits step s"
| reaches_call: "reaches start permits step s \<Longrightarrow> permits k s \<Longrightarrow> step k s = Inr s' \<Longrightarrow> reaches start permits step s'"

text \<open>A machine whose permitted steps return and keep an invariant never gets stuck.\<close>

locale guarded_machine =
  fixes start :: "'s \<Rightarrow> bool" and permits :: "'k \<Rightarrow> 's \<Rightarrow> bool" and step :: "'k \<Rightarrow> 's \<Rightarrow> 's res" and inv :: "'s \<Rightarrow> bool"
  assumes start_inv: "start s \<Longrightarrow> inv s"
    and step_inv: "inv s \<Longrightarrow> permits k s \<Longrightarrow> \<exists>s'. step k s = Inr s' \<and> inv s'"
begin

lemma reaches_inv: "reaches start permits step s \<Longrightarrow> inv s"
proof (induction rule: reaches.induct)
  case (reaches_call s k s')
  then show ?case using step_inv [of s k] by auto
qed (rule start_inv)

lemma not_stuck:
  assumes "reaches start permits step s" "permits k s"
  shows "\<exists>s'. step k s = Inr s' \<and> reaches start permits step s'"
  using step_inv [OF reaches_inv [OF assms(1)] assms(2)] reaches_call [OF assms] by blast

end

section \<open>Kernel calls\<close>

datatype kcall =
    SysTick core
  | CrossCoreInt core
  | SuspendAll core
  | ResumeAll core
  | CatchUpTicks core u32
  | Delay core u32
  | DelayUntil core u32 u32
  | WaitEvent core nat u32
  | WaitEventRestricted core nat u32 bool
  | SignalEvent core nat
  | AbortDelay core task
  | SuspendTask core TaskHandle_t
  | ResumeTask core task
  | ResumeFromISR core task
  | SetPriority core TaskHandle_t u32
  | Inherit core TaskHandle_t
  | Disinherit core TaskHandle_t
  | DisinheritAfterTimeout core TaskHandle_t u32
  | CreateTask core bool "task option" u32 "core option"
  | DeleteTask core TaskHandle_t
  | IdleCleanUp
  | NotifyTake core u32
  | NotifyTakeEnd core bool
  | NotifyWait core u32 u32
  | NotifyWaitEnd core u32
  | Notify core task u32 eNotifyAction
  | NotifyFromISR core task u32 eNotifyAction
  | NotifyGiveFromISR core task
  | NotifyStateClear core TaskHandle_t
  | NotifyValueClear core TaskHandle_t u32

text \<open>
  The state after a call. A caller that has queued itself for an event yields before it leaves its
  critical section, as the functions of \<^verbatim>\<open>queue.c\<close> do. A wait for a notification is two calls,
  one for each critical section.
\<close>

definition state_of :: "('a \<times> sched) res \<Rightarrow> sched res" where
  "state_of r = bind_res r (\<lambda>(_, s). Inr s)"

definition state_of3 :: "('a \<times> 'b \<times> sched) res \<Rightarrow> sched res" where
  "state_of3 r = bind_res r (\<lambda>(_, _, s). Inr s)"

definition then_yield :: "core \<Rightarrow> sched res \<Rightarrow> sched res" where
  "then_yield c r = bind_res r (\<lambda>s. Inr (esp_crosscore_int_send_yield c s))"

fun kstep :: "kcall \<Rightarrow> sched \<Rightarrow> sched res" where
  "kstep (SysTick c) s = xPortSysTickHandler c s"
| "kstep (CrossCoreInt c) s = esp_crosscore_isr c s"
| "kstep (SuspendAll c) s = Inr (vTaskSuspendAll c s)"
| "kstep (ResumeAll c) s = state_of (xTaskResumeAll c s)"
| "kstep (CatchUpTicks c n) s = state_of (xTaskCatchUpTicks c n s)"
| "kstep (Delay c n) s = vTaskDelay_smp c n s"
| "kstep (DelayUntil c prev n) s = state_of3 (xTaskDelayUntil c (Some prev) n s)"
| "kstep (WaitEvent c e n) s = then_yield c (vTaskPlaceOnEventList_smp c e n s)"
| "kstep (WaitEventRestricted c e n b) s = then_yield c (vTaskPlaceOnEventListRestricted c e n b s)"
| "kstep (SignalEvent c e) s = state_of (xTaskRemoveFromEventList_smp c e s)"
| "kstep (AbortDelay c t) s = state_of (xTaskAbortDelay c (Some t) s)"
| "kstep (SuspendTask c h) s = vTaskSuspend c h s"
| "kstep (ResumeTask c t) s = vTaskResume c (Some t) s"
| "kstep (ResumeFromISR c t) s = state_of (xTaskResumeFromISR c (Some t) s)"
| "kstep (SetPriority c h p) s = vTaskPrioritySet c h p s"
| "kstep (Inherit c h) s = state_of (xTaskPriorityInherit_smp c h s)"
| "kstep (Disinherit c h) s = state_of (xTaskPriorityDisinherit_smp c h s)"
| "kstep (DisinheritAfterTimeout c h p) s = vTaskPriorityDisinheritAfterTimeout_smp c h p s"
| "kstep (CreateTask c stack block p core) s = state_of (xTaskCreatePinnedToCore c stack block p core s)"
| "kstep (DeleteTask c h) s = vTaskDelete c h s"
| "kstep IdleCleanUp s = prvCheckTasksWaitingTermination s"
| "kstep (NotifyTake c n) s = notify_take_enter c 0 n s"
| "kstep (NotifyTakeEnd c clear) s = state_of (notify_take_leave c clear s)"
| "kstep (NotifyWait c bits n) s = notify_wait_enter c 0 bits n s"
| "kstep (NotifyWaitEnd c bits) s = state_of3 (notify_wait_leave c bits s)"
| "kstep (Notify c t v act) s = state_of3 (xTaskGenericNotify c (Some t) 0 v act s)"
| "kstep (NotifyFromISR c t v act) s =
     bind_res (xTaskGenericNotifyFromISR c (Some t) 0 v act s) (\<lambda>(_, _, _, s'). Inr s')"
| "kstep (NotifyGiveFromISR c t) s = state_of (vTaskGenericNotifyGiveFromISR c (Some t) 0 s)"
| "kstep (NotifyStateClear c h) s = state_of (xTaskGenericNotifyStateClear c h 0 s)"
| "kstep (NotifyValueClear c h bits) s = state_of (ulTaskGenericNotifyValueClear c h 0 bits s)"

text \<open>
  The guard of the calls. A task blocks only itself, while it is ready, is not an idle task and its
  core's scheduler is not suspended; idle tasks and tasks already deleted are neither suspended nor
  deleted; handles are those of existing tasks, priorities are in range; \<^verbatim>\<open>xTaskResumeAll\<close> pairs with
  \<^verbatim>\<open>vTaskSuspendAll\<close>, whose nesting does not overflow; a mutex is given back by its holder. A task that
  waits for a notification does not wait for an event before that wait has ended; tasks that are already
  deleted are not notified, and an interrupt does not resume a task that waits for a notification if
  it would have to be put aside (what happens then is shown in \<^verbatim>\<open>KernelNotify\<close>).

  Some of this is the documentation's, and the guard is narrower than it in two places. It leaves
  out the blocking calls of a task that the other core has just suspended or deleted, a race which the
  kernel expects for deletion (the comment in \<^verbatim>\<open>prvAddCurrentTaskToDelayedList\<close>) and loses for suspension
  (a property below). And it leaves out that an interrupt notifies or resumes, from a core whose
  scheduler runs, a task pinned to the other core while that core's scheduler is suspended: the
  documentation does not forbid it, and another property below shows where the task ends up. The theorems about
  reachable states hold for what is reached without such calls.
\<close>

definition blockable :: "core \<Rightarrow> sched \<Rightarrow> bool" where
  "blockable c s \<longleftrightarrow> uxSchedulerSuspended s c = 0 \<and>
     (case pxCurrentTCBs s c of None \<Rightarrow> False
      | Some t \<Rightarrow> (case container s (StateItem t) of Some (ReadyTasks _) \<Rightarrow> True | _ \<Rightarrow> False) \<and> \<not> is_idle s t)"

definition executes :: "core \<Rightarrow> sched \<Rightarrow> bool" where
  "executes c s \<longleftrightarrow>
     (case pxCurrentTCBs s c of None \<Rightarrow> False
      | Some t \<Rightarrow> (case container s (StateItem t) of Some (ReadyTasks _) \<Rightarrow> True | _ \<Rightarrow> False))"

definition awaits_note :: "core \<Rightarrow> sched \<Rightarrow> bool" where
  "awaits_note c s \<longleftrightarrow>
     (case pxCurrentTCBs s c of None \<Rightarrow> False | Some t \<Rightarrow> note_state s t = taskWAITING_NOTIFICATION)"

definition target :: "core \<Rightarrow> TaskHandle_t \<Rightarrow> sched \<Rightarrow> task option" where
  "target c h s = (case h of None \<Rightarrow> pxCurrentTCBs s c | Some t \<Rightarrow> Some t)"

definition holder_ok :: "(task \<Rightarrow> bool) \<Rightarrow> TaskHandle_t \<Rightarrow> bool" where
  "holder_ok P h = (case h of None \<Rightarrow> True | Some t \<Rightarrow> P t)"

fun permitted :: "kcall \<Rightarrow> sched \<Rightarrow> bool" where
  "permitted (SuspendAll c) s = (uxSchedulerSuspended s c + 1 \<noteq> 0)"
| "permitted (ResumeAll c) s = (uxSchedulerSuspended s c \<noteq> 0)"
| "permitted (CatchUpTicks c n) s = (uxSchedulerSuspended s c = 0)"
| "permitted (Delay c n) s = blockable c s"
| "permitted (DelayUntil c prev n) s = (blockable c s \<and> 0 < n)"
| "permitted (WaitEvent c e n) s = (blockable c s \<and> 0 < n \<and> \<not> awaits_note c s)"
| "permitted (WaitEventRestricted c e n b) s = (blockable c s \<and> (0 < n \<or> b) \<and> \<not> awaits_note c s)"
| "permitted (SuspendTask c h) s = (case target c h s of None \<Rightarrow> False | Some t \<Rightarrow> may_leave c t s)"
| "permitted (DeleteTask c h) s = (case target c h s of None \<Rightarrow> False | Some t \<Rightarrow> may_leave c t s)"
| "permitted (ResumeFromISR c t) s =
     (may_resume_isr c t s \<and> (prvCheckTaskCanBeScheduledSMP s t \<or> note_state s t \<noteq> taskWAITING_NOTIFICATION))"
| "permitted (SetPriority c h p) s =
     (p < configMAX_PRIORITIES \<and> (case target c h s of None \<Rightarrow> False | Some t \<Rightarrow> tcb_live s t))"
| "permitted (Inherit c h) s = holder_ok (tcb_live s) h"
| "permitted (Disinherit c h) s =
     holder_ok (\<lambda>t. pxCurrentTCBs s c = Some t \<and> uxMutexesHeld (tcb s t) \<noteq> 0 \<and> blockable c s) h"
| "permitted (DisinheritAfterTimeout c h p) s =
     (p < configMAX_PRIORITIES \<and>
      holder_ok (\<lambda>t. tcb_live s t \<and> pxCurrentTCBs s c \<noteq> Some t \<and> uxMutexesHeld (tcb s t) \<noteq> 0) h)"
| "permitted (CreateTask c stack block p core) s =
     (p < configMAX_PRIORITIES \<and> holder_ok (\<lambda>t. \<not> tcb_live s t) block \<and> uxCurrentNumberOfTasks s + 1 \<noteq> 0)"
| "permitted (NotifyTake c n) s = (executes c s \<and> (0 < n \<longrightarrow> blockable c s))"
| "permitted (NotifyWait c bits n) s = (executes c s \<and> (0 < n \<longrightarrow> blockable c s))"
| "permitted (Notify c t v act) s = may_notify t s"
| "permitted (NotifyFromISR c t v act) s = may_notify_isr c t s"
| "permitted (NotifyGiveFromISR c t) s = may_notify_isr c t s"
| "permitted _ s = True"

text \<open>
  The states in which the scheduler has just been started, by \<^verbatim>\<open>esp_startup_start_app\<close> on the reset state.
  The ipc tasks, which a constructor of \<^verbatim>\<open>esp_ipc.c\<close> creates on the chip before that, are not part of it;
  tasks created afterwards are covered by the calls.
\<close>

definition started :: "sched \<Rightarrow> bool" where
  "started s \<longleftrightarrow> (\<exists>main idle tmr mem vals. distinct [main, idle Core0, idle Core1, tmr] \<and>
     esp_startup_start_app main idle tmr (reset_state mem vals) = Inr s)"

abbreviation kreach :: "sched \<Rightarrow> bool" where
  "kreach \<equiv> reaches started permitted kstep"

lemma blockable_may_block: "blockable c s \<Longrightarrow> may_block c s"
  by (auto simp: blockable_def may_block_def is_ready_def split: option.splits list_id.splits)

lemma target_handle:
  assumes "target c h s = Some t"
  shows "h = Some t \<or> h = None \<and> pxCurrentTCBs s c = Some t"
  using assms by (auto simp: target_def split: option.splits)

lemma task_room:
  assumes "sched_ok s" "uxCurrentNumberOfTasks s + 1 \<noteq> 0"
  shows "card {t. tcb_live s t} + 1 < 2 ^ 32"
proof (rule ccontr)
  assume "\<not> card {t. tcb_live s t} + 1 < 2 ^ 32"
  moreover have "card {t. tcb_live s t} < 2 ^ 32" "uxCurrentNumberOfTasks s = of_nat (card {t. tcb_live s t})"
    using base_okD(8) [OF sched_okD(2) [OF assms(1)]] by (simp_all add: count_ok_def)
  ultimately have "uxCurrentNumberOfTasks s = of_nat (2 ^ 32 - 1)" by (metis Suc_eq_plus1 Suc_lessI diff_Suc_1)
  then show False using assms(2) by simp
qed

definition interrupt_call :: "kcall \<Rightarrow> bool" where
  "interrupt_call k = (case k of SysTick _ \<Rightarrow> True | CrossCoreInt _ \<Rightarrow> True | SuspendAll _ \<Rightarrow> True | ResumeAll _ \<Rightarrow> True | CatchUpTicks _ _ \<Rightarrow> True | IdleCleanUp \<Rightarrow> True | _ \<Rightarrow> False)"

definition block_call :: "kcall \<Rightarrow> bool" where
  "block_call k = (case k of Delay _ _ \<Rightarrow> True | DelayUntil _ _ _ \<Rightarrow> True | WaitEvent _ _ _ \<Rightarrow> True | WaitEventRestricted _ _ _ _ \<Rightarrow> True | SignalEvent _ _ \<Rightarrow> True | AbortDelay _ _ \<Rightarrow> True | _ \<Rightarrow> False)"

definition task_call :: "kcall \<Rightarrow> bool" where
  "task_call k = (case k of SuspendTask _ _ \<Rightarrow> True | ResumeTask _ _ \<Rightarrow> True | ResumeFromISR _ _ \<Rightarrow> True | CreateTask _ _ _ _ _ \<Rightarrow> True | DeleteTask _ _ \<Rightarrow> True | _ \<Rightarrow> False)"

definition priority_call :: "kcall \<Rightarrow> bool" where
  "priority_call k = (case k of SetPriority _ _ _ \<Rightarrow> True | Inherit _ _ \<Rightarrow> True | Disinherit _ _ \<Rightarrow> True | DisinheritAfterTimeout _ _ _ \<Rightarrow> True | _ \<Rightarrow> False)"

definition note_call :: "kcall \<Rightarrow> bool" where
  "note_call k = (case k of NotifyTake _ _ \<Rightarrow> True | NotifyTakeEnd _ _ \<Rightarrow> True | NotifyWait _ _ _ \<Rightarrow> True | NotifyWaitEnd _ _ \<Rightarrow> True
     | Notify _ _ _ _ \<Rightarrow> True | NotifyFromISR _ _ _ _ \<Rightarrow> True | NotifyGiveFromISR _ _ \<Rightarrow> True
     | NotifyStateClear _ _ \<Rightarrow> True | NotifyValueClear _ _ _ \<Rightarrow> True | _ \<Rightarrow> False)"

text \<open>Interrupts, the suspension of the scheduler and the idle task.\<close>

lemma kstep_ok_interrupt:
  assumes ok: "sched_ok s" and pm: "permitted k s" and call: "interrupt_call k"
  shows "\<exists>s'. kstep k s = Inr s' \<and> sched_ok s'"
  using call
proof (cases k)
  case (SysTick c) then show ?thesis using systick_ok [OF ok] by auto
next
  case (CrossCoreInt c) then show ?thesis using crosscore_isr_ok [OF ok] by auto
next
  case (SuspendAll c) then show ?thesis using suspend_all_ok [OF ok] pm by simp
next
  case (ResumeAll c)
  then have "uxSchedulerSuspended s c \<noteq> 0" using pm by simp
  then obtain y s' where "xTaskResumeAll c s = Inr (y, s')" "sched_ok s'" using resume_all_ok [OF ok] by blast
  then show ?thesis using ResumeAll by (simp add: state_of_def)
next
  case (CatchUpTicks c n)
  then have "uxSchedulerSuspended s c = 0" using pm by simp
  then obtain y s' where "xTaskCatchUpTicks c n s = Inr (y, s')" "sched_ok s'" using catch_up_ok [OF ok] by blast
  then show ?thesis using CatchUpTicks by (simp add: state_of_def)
next
  case IdleCleanUp
  then show ?thesis using cleanup_ok [OF ok] by auto
qed (simp_all add: interrupt_call_def)

text \<open>Blocking and waking.\<close>

lemma kstep_ok_block:
  assumes ok: "sched_ok s" and pm: "permitted k s" and call: "block_call k"
  shows "\<exists>s'. kstep k s = Inr s' \<and> sched_ok s'"
  using call
proof (cases k)
  case (Delay c n)
  then obtain s' where "vTaskDelay_smp c n s = Inr s'" "sched_ok s'" using delay_call_ok [OF ok blockable_may_block] pm by auto
  then show ?thesis using Delay by simp
next
  case (DelayUntil c prev n)
  then have "blockable c s" "0 < n" using pm by auto
  then obtain d w s' where "xTaskDelayUntil c (Some prev) n s = Inr (d, w, s')" "sched_ok s'"
    using delay_until_call_ok [OF ok blockable_may_block] by blast
  then show ?thesis using DelayUntil by (simp add: state_of3_def)
next
  case (WaitEvent c e n)
  then have "blockable c s" "0 < n" using pm by auto
  then obtain s' where "vTaskPlaceOnEventList_smp c e n s = Inr s'" "sched_ok (esp_crosscore_int_send_yield c s')"
    using place_on_event_list_ok [OF ok blockable_may_block] by blast
  then show ?thesis using WaitEvent by (simp add: then_yield_def)
next
  case (WaitEventRestricted c e n b)
  then have "blockable c s" "0 < n \<or> b" using pm by auto
  then obtain s' where "vTaskPlaceOnEventListRestricted c e n b s = Inr s'" "sched_ok (esp_crosscore_int_send_yield c s')"
    using place_restricted_ok [OF ok blockable_may_block] by blast
  then show ?thesis using WaitEventRestricted by (simp add: then_yield_def)
next
  case (SignalEvent c e)
  obtain y s' where "xTaskRemoveFromEventList_smp c e s = Inr (y, s')" "sched_ok s'" using remove_from_event_list_ok [OF ok] by blast
  then show ?thesis using SignalEvent by (simp add: state_of_def)
next
  case (AbortDelay c t)
  obtain y s' where "xTaskAbortDelay c (Some t) s = Inr (y, s')" "sched_ok s'" using abort_delay_ok [OF ok] by blast
  then show ?thesis using AbortDelay by (simp add: state_of_def)
qed (simp_all add: block_call_def)

text \<open>The life of tasks.\<close>

lemma kstep_ok_task:
  assumes ok: "sched_ok s" and pm: "permitted k s" and call: "task_call k"
  shows "\<exists>s'. kstep k s = Inr s' \<and> sched_ok s'"
  using call
proof (cases k)
  case (SuspendTask c h)
  then obtain t where t: "target c h s = Some t" "may_leave c t s" using pm by (auto split: option.splits)
  obtain s' where "vTaskSuspend c h s = Inr s'" "sched_ok s'" using suspend_ok [OF ok t(2) target_handle [OF t(1)]] by blast
  then show ?thesis using SuspendTask by simp
next
  case (ResumeTask c t)
  obtain s' where "vTaskResume c (Some t) s = Inr s'" "sched_ok s'" using resume_ok [OF ok] by blast
  then show ?thesis using ResumeTask by simp
next
  case (ResumeFromISR c t)
  then have "may_resume_isr c t s" using pm by simp
  then obtain y s' where "xTaskResumeFromISR c (Some t) s = Inr (y, s')" "sched_ok s'" using resume_from_isr_ok [OF ok] by blast
  then show ?thesis using ResumeFromISR by (simp add: state_of_def)
next
  case (CreateTask c stack block p core)
  have "\<not> tcb_live s t" if "block = Some t" for t using pm CreateTask that by (simp add: holder_ok_def)
  moreover have "p < configMAX_PRIORITIES" "card {t. tcb_live s t} + 1 < 2 ^ 32" using pm CreateTask task_room [OF ok] by simp_all
  ultimately obtain y s' where "xTaskCreatePinnedToCore c stack block p core s = Inr (y, s')" "sched_ok s'"
    using create_ok [OF ok] by metis
  then show ?thesis using CreateTask by (simp add: state_of_def)
next
  case (DeleteTask c h)
  then obtain t where t: "target c h s = Some t" "may_leave c t s" using pm by (auto split: option.splits)
  obtain s' where "vTaskDelete c h s = Inr s'" "sched_ok s'" using delete_ok [OF ok t(2) target_handle [OF t(1)]] by blast
  then show ?thesis using DeleteTask by simp
qed (simp_all add: task_call_def)

text \<open>Priorities.\<close>

lemma kstep_ok_priority:
  assumes ok: "sched_ok s" and pm: "permitted k s" and call: "priority_call k"
  shows "\<exists>s'. kstep k s = Inr s' \<and> sched_ok s'"
  using call
proof (cases k)
  case (SetPriority c h p)
  then obtain t where t: "target c h s = Some t" "tcb_live s t" "p < configMAX_PRIORITIES" using pm by (auto split: option.splits)
  obtain s' where "vTaskPrioritySet c h p s = Inr s'" "sched_ok s'" using priority_set_ok [OF ok t(2,3) target_handle [OF t(1)]] by blast
  then show ?thesis using SetPriority by simp
next
  case (Inherit c h)
  then have "\<And>t. h = Some t \<Longrightarrow> tcb_live s t" using pm by (simp add: holder_ok_def)
  then obtain y s' where "xTaskPriorityInherit_smp c h s = Inr (y, s')" "sched_ok s'" using priority_inherit_ok [OF ok] by blast
  then show ?thesis using Inherit by (simp add: state_of_def)
next
  case (Disinherit c h)
  have "pxCurrentTCBs s c = Some t \<and> uxMutexesHeld (tcb s t) \<noteq> 0 \<and> is_ready (container s (StateItem t))" if "h = Some t" for t
    using pm Disinherit that blockable_may_block [of c s] by (auto simp: holder_ok_def may_block_def)
  then obtain y s' where "xTaskPriorityDisinherit_smp c h s = Inr (y, s')" "sched_ok s'" using priority_disinherit_ok [OF ok] by blast
  then show ?thesis using Disinherit by (simp add: state_of_def)
next
  case (DisinheritAfterTimeout c h p)
  have "tcb_live s t \<and> pxCurrentTCBs s c \<noteq> Some t \<and> uxMutexesHeld (tcb s t) \<noteq> 0" if "h = Some t" for t
    using pm DisinheritAfterTimeout that by (auto simp: holder_ok_def)
  then obtain s' where "vTaskPriorityDisinheritAfterTimeout_smp c h p s = Inr s'" "sched_ok s'"
    using priority_timeout_ok [OF ok, of p h c] pm DisinheritAfterTimeout by auto
  then show ?thesis using DisinheritAfterTimeout by simp
qed (simp_all add: priority_call_def)

text \<open>Notifications.\<close>

lemma handle_run:
  assumes "sched_ok s"
  obtains t where "prvGetTCBFromHandle c h s = Inr t"
proof (cases h)
  case None then show thesis using current_task [OF assms, of c] that by (auto simp: prvGetTCBFromHandle_def)
next
  case (Some t) then show thesis using that by (simp add: prvGetTCBFromHandle_def)
qed

lemma kstep_ok_note:
  assumes ok: "sched_ok s" and free: "notes_ok s" and pm: "permitted k s" and call: "note_call k"
  shows "\<exists>s'. kstep k s = Inr s' \<and> sched_ok s'"
  using call
proof (cases k)
  case (NotifyTake c n)
  then have "0 < n \<Longrightarrow> may_block c s" using pm blockable_may_block by simp
  then obtain s' where "notify_take_enter c 0 n s = Inr s'" "sched_ok s'" by (rule take_enter_ok [OF ok])
  then show ?thesis using NotifyTake by simp
next
  case (NotifyTakeEnd c clear)
  obtain r s' where "notify_take_leave c clear s = Inr (r, s')" "sched_ok s'" using take_leave_ok [OF ok] by blast
  then show ?thesis using NotifyTakeEnd by (simp add: state_of_def)
next
  case (NotifyWait c bits n)
  then have "0 < n \<Longrightarrow> may_block c s" using pm blockable_may_block by simp
  then obtain s' where "notify_wait_enter c 0 bits n s = Inr s'" "sched_ok s'" by (rule wait_enter_ok [OF ok])
  then show ?thesis using NotifyWait by simp
next
  case (NotifyWaitEnd c bits)
  obtain r v s' where "notify_wait_leave c bits s = Inr (r, v, s')" "sched_ok s'" using wait_leave_ok [OF ok] by blast
  then show ?thesis using NotifyWaitEnd by (simp add: state_of3_def)
next
  case (Notify c t v act)
  then have "may_notify t s" using pm by simp
  then obtain r w s' where "xTaskGenericNotify c (Some t) 0 v act s = Inr (r, w, s')" "sched_ok s'" using notify_ok [OF ok free] by blast
  then show ?thesis using Notify by (simp add: state_of3_def)
next
  case (NotifyFromISR c t v act)
  then have "may_notify_isr c t s" using pm by simp
  then obtain r w y s' where "xTaskGenericNotifyFromISR c (Some t) 0 v act s = Inr (r, w, y, s')" "sched_ok s'"
    using notify_isr_ok [OF ok free] by blast
  then show ?thesis using NotifyFromISR by simp
next
  case (NotifyGiveFromISR c t)
  then have "may_notify_isr c t s" using pm by simp
  then obtain y s' where "vTaskGenericNotifyGiveFromISR c (Some t) 0 s = Inr (y, s')" "sched_ok s'" using give_isr_ok [OF ok free] by blast
  then show ?thesis using NotifyGiveFromISR by (simp add: state_of_def)
next
  case (NotifyStateClear c h)
  obtain t where "prvGetTCBFromHandle c h s = Inr t" using handle_run [OF ok] by blast
  then show ?thesis using NotifyStateClear ok set_note_ok [OF ok] by (simp add: state_of_def xTaskGenericNotifyStateClear_def)
next
  case (NotifyValueClear c h bits)
  obtain t where "prvGetTCBFromHandle c h s = Inr t" using handle_run [OF ok] by blast
  then show ?thesis using NotifyValueClear set_note_ok [OF ok] by (simp add: state_of_def ulTaskGenericNotifyValueClear_def)
qed (simp_all add: note_call_def)

lemma kstep_ok:
  assumes "sched_ok s" "notes_ok s" "permitted k s"
  shows "\<exists>s'. kstep k s = Inr s' \<and> sched_ok s'"
  using kstep_ok_interrupt [OF assms(1,3)] kstep_ok_block [OF assms(1,3)] kstep_ok_task [OF assms(1,3)]
    kstep_ok_priority [OF assms(1,3)] kstep_ok_note [OF assms]
  by (cases k) (simp_all add: interrupt_call_def block_call_def task_call_def priority_call_def note_call_def)

section \<open>Mailboxes\<close>

text \<open>
  What a call means for the notification value and state of a task, seen as a mailbox: the abstract
  specification of notifications. Calls that are not listed leave it alone.
\<close>

fun mailbox_step :: "kcall \<Rightarrow> sched \<Rightarrow> task \<Rightarrow> u32 \<times> notify_state \<Rightarrow> u32 \<times> notify_state" where
  "mailbox_step (NotifyTake c n) s t m = (if pxCurrentTCBs s c = Some t then note_entered (fst m \<noteq> 0) 0 m else m)"
| "mailbox_step (NotifyTakeEnd c clear) s t m = (if pxCurrentTCBs s c = Some t then note_taken clear m else m)"
| "mailbox_step (NotifyWait c bits n) s t m =
     (if pxCurrentTCBs s c = Some t then note_entered (snd m = taskNOTIFICATION_RECEIVED) bits m else m)"
| "mailbox_step (NotifyWaitEnd c bits) s t m = (if pxCurrentTCBs s c = Some t then note_waited bits m else m)"
| "mailbox_step (Notify c u v act) s t m = (if u = t then note_posted act v m else m)"
| "mailbox_step (NotifyFromISR c u v act) s t m = (if u = t then note_posted act v m else m)"
| "mailbox_step (NotifyGiveFromISR c u) s t m = (if u = t then note_posted eIncrement 0 m else m)"
| "mailbox_step (NotifyStateClear c h) s t m =
     (if target c h s = Some t \<and> snd m = taskNOTIFICATION_RECEIVED then (fst m, taskNOT_WAITING_NOTIFICATION) else m)"
| "mailbox_step (NotifyValueClear c h bits) s t m =
     (if target c h s = Some t then (fst m AND NOT bits, snd m) else m)"
| "mailbox_step (SuspendTask c h) s t m = (if target c h s = Some t then stopped m else m)"
| "mailbox_step (CreateTask c stack block p core) s t m =
     (if stack \<and> block = Some t then (0, taskNOT_WAITING_NOTIFICATION) else m)"
| "mailbox_step _ s t m = m"

definition mailboxes_after :: "kcall \<Rightarrow> sched \<Rightarrow> task \<Rightarrow> u32 \<times> notify_state" where
  "mailboxes_after k s = (\<lambda>t. mailbox_step k s t (mailbox s t))"

text \<open>The mailboxes after the call, and who can still wait for a notification.\<close>

definition posted :: "kcall \<Rightarrow> sched \<Rightarrow> sched \<Rightarrow> bool" where
  "posted k s s' \<longleftrightarrow> mailbox s' = mailboxes_after k s \<and> notes_ok s'"

lemma postedI:
  assumes "frame (mailboxes_after k s) F s'" "\<And>t. snd (mailboxes_after k s t) = taskWAITING_NOTIFICATION \<Longrightarrow> t \<in> F"
  shows "posted k s s'"
proof -
  have m: "mailbox s' = mailboxes_after k s" and f: "\<And>t. t \<in> F \<Longrightarrow> container s' (EventItem t) = None"
    using assms(1) by (simp_all add: frame_def)
  have "note_state s' t = snd (mailboxes_after k s t)" for t by (simp add: m [symmetric] mailbox_def)
  then show ?thesis using assms(2) f m by (simp add: posted_def notes_ok_def)
qed

abbreviation free_events :: "sched \<Rightarrow> task set" where
  "free_events s \<equiv> {t. container s (EventItem t) = None}"

lemma waiting_free: "notes_ok s \<Longrightarrow> snd (mailbox s t) = taskWAITING_NOTIFICATION \<Longrightarrow> t \<in> free_events s"
  by (simp add: notes_ok_def mailbox_def)

lemma executes_free:
  assumes "sched_ok s" "executes c s" "pxCurrentTCBs s c = Some t"
  shows "t \<in> free_events s"
  using event_free [OF assms(1), of t] assms(2,3) by (auto simp: executes_def is_ready_def split: option.splits list_id.splits)

lemma target_get: "prvGetTCBFromHandle c h s = Inr t \<Longrightarrow> target c h s = Some t"
  by (auto simp: prvGetTCBFromHandle_def target_def current_def deref_eq_Inr_iff split: option.splits)

lemma mailboxes_upd:
  assumes "\<And>u. u \<noteq> t \<Longrightarrow> mailbox_step k s u (mailbox s u) = mailbox s u" "mailbox_step k s t (mailbox s t) = m"
  shows "(mailbox s)(t := m) = mailboxes_after k s"
  using assms by (auto simp: mailboxes_after_def fun_eq_iff)

text \<open>Calls that leave the mailboxes alone and give no event item away.\<close>

definition quiet_call :: "kcall \<Rightarrow> bool" where
  "quiet_call k \<longleftrightarrow> interrupt_call k \<or> priority_call k \<or>
     (case k of Delay _ _ \<Rightarrow> True | DelayUntil _ _ _ \<Rightarrow> True | SignalEvent _ _ \<Rightarrow> True | AbortDelay _ _ \<Rightarrow> True
      | ResumeTask _ _ \<Rightarrow> True | DeleteTask _ _ \<Rightarrow> True | _ \<Rightarrow> False)"

lemma quiet_posted:
  assumes free: "notes_ok s" and call: "quiet_call k"
  shows "ensures (kstep k s) (posted k s)"
proof -
  have "mailboxes_after k s = mailbox s"
    using call by (cases k) (auto simp: mailboxes_after_def quiet_call_def interrupt_call_def priority_call_def)
  then have post: "posted k s s'" if "frame (mailbox s) (free_events s) s'" for s'
    using that waiting_free [OF free] by (intro postedI) auto
  have "ensures (kstep k s) (frame (mailbox s) (free_events s))"
    using call frame_start [of s]
    by (cases k) (auto simp: quiet_call_def interrupt_call_def priority_call_def state_of_def state_of3_def intro!: frame_rules)
  then show ?thesis by (rule ensures_mono) (rule post)
qed

text \<open>Calls that may queue the event item of one task, which does not wait for a notification.\<close>

lemma queue_posted:
  assumes same: "mailboxes_after k s = mailbox s" and free: "notes_ok s" and t: "note_state s t \<noteq> taskWAITING_NOTIFICATION"
    and f: "frame (mailbox s) (free_events s - {t}) s'"
  shows "posted k s s'"
proof (rule postedI)
  show "frame (mailboxes_after k s) (free_events s - {t}) s'" using f same by simp
  show "u \<in> free_events s - {t}" if "snd (mailboxes_after k s u) = taskWAITING_NOTIFICATION" for u
    using waiting_free [OF free, of u] that same t by (auto simp: mailbox_def)
qed

text \<open>Calls that change one mailbox, of a task whose event item is free if it waits afterwards.\<close>

lemma mail_posted:
  assumes free: "notes_ok s" and f: "frame ((mailbox s)(t := m)) F s'" and F: "free_events s - {t} \<subseteq> F"
    and m: "(mailbox s)(t := m) = mailboxes_after k s" and w: "snd m = taskWAITING_NOTIFICATION \<Longrightarrow> t \<in> F"
  shows "posted k s s'"
proof (rule postedI)
  show "frame (mailboxes_after k s) F s'" using f m by simp
  show "u \<in> F" if "snd (mailboxes_after k s u) = taskWAITING_NOTIFICATION" for u
  proof (cases "u = t")
    case True then show ?thesis using that w by (simp add: m [symmetric])
  next
    case False then show ?thesis using that F waiting_free [OF free, of u] by (auto simp: m [symmetric])
  qed
qed

lemma wait_posted:
  assumes ok: "sched_ok s" and free: "notes_ok s" and nw: "\<not> awaits_note c s" and same: "mailboxes_after k s = mailbox s"
    and r: "\<And>t. pxCurrentTCBs s c = Some t \<Longrightarrow> ensures r (frame (mailbox s) (free_events s - {t}))"
  shows "ensures (then_yield c r) (posted k s)"
proof -
  obtain t where t: "pxCurrentTCBs s c = Some t" using current_task [OF ok] by blast
  have w: "note_state s t \<noteq> taskWAITING_NOTIFICATION" using nw t by (simp add: awaits_note_def)
  have "ensures r (\<lambda>s1. posted k s (esp_crosscore_int_send_yield c s1))"
    by (rule ensures_mono [OF r [OF t]]) (rule queue_posted [OF same free w], simp)
  then show ?thesis by (simp add: then_yield_def)
qed

lemma queueing_posted:
  assumes ok: "sched_ok s" and free: "notes_ok s" and pm: "permitted k s"
    and call: "case k of WaitEvent _ _ _ \<Rightarrow> True | WaitEventRestricted _ _ _ _ \<Rightarrow> True | ResumeFromISR _ _ \<Rightarrow> True | _ \<Rightarrow> False"
  shows "ensures (kstep k s) (posted k s)"
proof -
  have same: "mailboxes_after k s = mailbox s" using call by (cases k) (auto simp: mailboxes_after_def)
  show ?thesis using call
  proof (cases k)
    case (WaitEvent c e n)
    have "ensures (then_yield c (vTaskPlaceOnEventList_smp c e n s)) (posted k s)"
      by (rule wait_posted [OF ok free _ same place_notes(1) [OF frame_start]]) (use pm WaitEvent in auto)
    then show ?thesis using WaitEvent by simp
  next
    case (WaitEventRestricted c e n b)
    have "ensures (then_yield c (vTaskPlaceOnEventListRestricted c e n b s)) (posted k s)"
      by (rule wait_posted [OF ok free _ same place_notes(2) [OF frame_start]]) (use pm WaitEventRestricted in auto)
    then show ?thesis using WaitEventRestricted by simp
  next
    case (ResumeFromISR c t)
    have post: "posted k s s'"
      if f: "frame (mailbox s) (if prvCheckTaskCanBeScheduledSMP s t then free_events s else free_events s - {t}) s'" for s'
    proof (cases "prvCheckTaskCanBeScheduledSMP s t")
      case True
      then show ?thesis using f same waiting_free [OF free] by (intro postedI) auto
    next
      case False
      then have "note_state s t \<noteq> taskWAITING_NOTIFICATION" using pm ResumeFromISR by simp
      then show ?thesis using queue_posted [OF same free] f False by simp
    qed
    have "ensures (xTaskResumeFromISR c (Some t) s) (\<lambda>(y, s'). posted k s s')"
      by (rule ensures_mono [OF resume_isr_notes [OF frame_start]]) (use post in auto)
    then show ?thesis using ResumeFromISR by (simp add: state_of_def split_def)
  qed simp_all
qed

text \<open>Calls that change a mailbox.\<close>

lemma handle_posted:
  assumes ok: "sched_ok s" and free: "notes_ok s"
    and call: "case k of SuspendTask _ _ \<Rightarrow> True | NotifyStateClear _ _ \<Rightarrow> True | NotifyValueClear _ _ _ \<Rightarrow> True | _ \<Rightarrow> False"
  shows "ensures (kstep k s) (posted k s)"
  using call
proof (cases k)
  case (SuspendTask c h)
  obtain t where t: "prvGetTCBFromHandle c h s = Inr t" using handle_run [OF ok] by blast
  have "ensures (vTaskSuspend c h s) (posted k s)"
    by (rule ensures_mono [OF suspend_notes [OF frame_start t]], erule mail_posted [OF free])
       (use target_get [OF t] waiting_free [OF free, of t] SuspendTask in
         \<open>auto simp: stopped_def fun_eq_iff mailboxes_after_def split: if_splits\<close>)
  then show ?thesis using SuspendTask by simp
next
  case (NotifyStateClear c h)
  obtain t where t: "prvGetTCBFromHandle c h s = Inr t" using handle_run [OF ok] by blast
  have "ensures (xTaskGenericNotifyStateClear c h 0 s) (\<lambda>(y, s'). posted k s s')"
    by (rule ensures_mono [OF clear_notes(1) [OF frame_start t]], clarify, erule mail_posted [OF free])
       (use target_get [OF t] waiting_free [OF free, of t] NotifyStateClear in
         \<open>auto simp: fun_eq_iff mailboxes_after_def split: if_splits\<close>)
  then show ?thesis using NotifyStateClear by (simp add: state_of_def split_def)
next
  case (NotifyValueClear c h bits)
  obtain t where t: "prvGetTCBFromHandle c h s = Inr t" using handle_run [OF ok] by blast
  have "ensures (ulTaskGenericNotifyValueClear c h 0 bits s) (\<lambda>(y, s'). posted k s s')"
    by (rule ensures_mono [OF clear_notes(2) [OF frame_start t]], clarify, erule mail_posted [OF free])
       (use target_get [OF t] waiting_free [OF free, of t] NotifyValueClear in
         \<open>auto simp: fun_eq_iff mailboxes_after_def split: if_splits\<close>)
  then show ?thesis using NotifyValueClear by (simp add: state_of_def split_def)
qed simp_all

lemma caller_posted:
  assumes ok: "sched_ok s" and free: "notes_ok s" and pm: "permitted k s"
    and call: "case k of NotifyTake _ _ \<Rightarrow> True | NotifyTakeEnd _ _ \<Rightarrow> True | NotifyWait _ _ _ \<Rightarrow> True | NotifyWaitEnd _ _ \<Rightarrow> True | _ \<Rightarrow> False"
  shows "ensures (kstep k s) (posted k s)"
  using call
proof (cases k)
  case (NotifyTake c n)
  obtain t where t: "pxCurrentTCBs s c = Some t" using current_task [OF ok] by blast
  have "t \<in> free_events s" using executes_free [OF ok _ t] pm NotifyTake by simp
  then have "ensures (notify_take_enter c 0 n s) (posted k s)"
    by (intro ensures_mono [OF take_enter_notes [OF frame_start t]], elim mail_posted [OF free])
       (use t NotifyTake in \<open>auto simp: fun_eq_iff mailboxes_after_def\<close>)
  then show ?thesis using NotifyTake by simp
next
  case (NotifyTakeEnd c clear)
  obtain t where t: "pxCurrentTCBs s c = Some t" using current_task [OF ok] by blast
  have "ensures (notify_take_leave c clear s) (\<lambda>(r, s'). posted k s s')"
    by (rule ensures_mono [OF leave_notes(1) [OF frame_start t]], clarify, erule mail_posted [OF free])
       (use t NotifyTakeEnd in \<open>auto simp: fun_eq_iff mailboxes_after_def note_taken_def\<close>)
  then show ?thesis using NotifyTakeEnd by (simp add: state_of_def split_def)
next
  case (NotifyWait c bits n)
  obtain t where t: "pxCurrentTCBs s c = Some t" using current_task [OF ok] by blast
  have "t \<in> free_events s" using executes_free [OF ok _ t] pm NotifyWait by simp
  then have "ensures (notify_wait_enter c 0 bits n s) (posted k s)"
    by (intro ensures_mono [OF wait_enter_notes [OF frame_start t]], elim mail_posted [OF free])
       (use t NotifyWait in \<open>auto simp: fun_eq_iff mailboxes_after_def\<close>)
  then show ?thesis using NotifyWait by simp
next
  case (NotifyWaitEnd c bits)
  obtain t where t: "pxCurrentTCBs s c = Some t" using current_task [OF ok] by blast
  have "ensures (notify_wait_leave c bits s) (\<lambda>(r, v, s'). posted k s s')"
    by (rule ensures_mono [OF leave_notes(2) [OF frame_start t]], clarify, erule mail_posted [OF free])
       (use t NotifyWaitEnd in \<open>auto simp: fun_eq_iff mailboxes_after_def note_waited_def\<close>)
  then show ?thesis using NotifyWaitEnd by (simp add: state_of3_def split_def)
qed simp_all

lemma post_posted:
  assumes free: "notes_ok s"
    and call: "case k of Notify _ _ _ _ \<Rightarrow> True | NotifyFromISR _ _ _ _ \<Rightarrow> True | NotifyGiveFromISR _ _ \<Rightarrow> True | CreateTask _ _ _ _ _ \<Rightarrow> True | _ \<Rightarrow> False"
  shows "ensures (kstep k s) (posted k s)"
  using call
proof (cases k)
  case (Notify c t v act)
  have "ensures (xTaskGenericNotify c (Some t) 0 v act s) (\<lambda>(r, v, s'). posted k s s')"
    by (rule ensures_mono [OF notify_notes [OF frame_start]], clarify, erule mail_posted [OF free])
       (use Notify in \<open>auto simp: fun_eq_iff mailboxes_after_def note_posted_def\<close>)
  then show ?thesis using Notify by (simp add: state_of3_def split_def)
next
  case (NotifyFromISR c t v act)
  have f: "frame (mailbox s) (free_events s - {t}) s" by (rule frame_less [OF frame_start]) simp
  have "ensures (xTaskGenericNotifyFromISR c (Some t) 0 v act s) (\<lambda>(r, v, w, s'). posted k s s')"
    by (rule ensures_mono [OF notify_isr_notes(1) [OF f]], simp, clarify, erule mail_posted [OF free])
       (use NotifyFromISR in \<open>auto simp: fun_eq_iff mailboxes_after_def note_posted_def\<close>)
  then show ?thesis using NotifyFromISR by (simp add: split_def)
next
  case (NotifyGiveFromISR c t)
  have f: "frame (mailbox s) (free_events s - {t}) s" by (rule frame_less [OF frame_start]) simp
  have "ensures (vTaskGenericNotifyGiveFromISR c (Some t) 0 s) (\<lambda>(w, s'). posted k s s')"
    by (rule ensures_mono [OF notify_isr_notes(2) [OF f]], simp, clarify, erule mail_posted [OF free])
       (use NotifyGiveFromISR in \<open>auto simp: fun_eq_iff mailboxes_after_def note_posted_def\<close>)
  then show ?thesis using NotifyGiveFromISR by (simp add: state_of_def split_def)
next
  case (CreateTask c stack block p core)
  have "mailboxes_after k s = (case (if stack then block else None) of None \<Rightarrow> mailbox s
      | Some t \<Rightarrow> (mailbox s)(t := (0, taskNOT_WAITING_NOTIFICATION)))"
    using CreateTask by (auto simp: mailboxes_after_def fun_eq_iff split: option.splits)
  then have post: "posted k s s'" if "frame (case (if stack then block else None) of None \<Rightarrow> mailbox s
      | Some t \<Rightarrow> (mailbox s)(t := (0, taskNOT_WAITING_NOTIFICATION))) (free_events s) s'" for s'
    using that waiting_free [OF free] by (intro postedI [where F = "free_events s"]) (auto split: option.splits if_splits)
  have "ensures (xTaskCreatePinnedToCore c stack block p core s) (\<lambda>(y, s'). posted k s s')"
    by (rule ensures_mono [OF create_notes [OF frame_start]]) (use post in auto)
  then show ?thesis using CreateTask by (simp add: state_of_def split_def)
qed simp_all

lemma kstep_posted:
  assumes "sched_ok s" "notes_ok s" "permitted k s"
  shows "ensures (kstep k s) (posted k s)"
  using quiet_posted [OF assms(2), of k] queueing_posted [OF assms] handle_posted [OF assms(1,2), of k] caller_posted [OF assms]
    post_posted [OF assms(2), of k]
  by (cases k) (simp_all add: quiet_call_def interrupt_call_def priority_call_def)

definition kernel_ok :: "sched \<Rightarrow> bool" where
  "kernel_ok s \<longleftrightarrow> sched_ok s \<and> notes_ok s"

lemma kernel_okD: "kernel_ok s \<Longrightarrow> sched_ok s" "kernel_ok s \<Longrightarrow> notes_ok s"
  by (simp_all add: kernel_ok_def)

lemma boot_notes:
  assumes "distinct [main, idle Core0, idle Core1, tmr]"
  shows "notes_ok (boot_state main idle tmr mem vals)"
  using assms by (simp add: notes_ok_def)

interpretation kernel: guarded_machine started permitted kstep kernel_ok
proof unfold_locales
  show "kernel_ok s" if "started s" for s
    using that boot_run boot_ok boot_notes unfolding started_def kernel_ok_def by (metis Inr_inject)
  show "\<exists>s'. kstep k s = Inr s' \<and> kernel_ok s'" if inv: "kernel_ok s" and pm: "permitted k s" for s k
  proof -
    note ok = kernel_okD [OF inv]
    obtain s' where s': "kstep k s = Inr s'" "sched_ok s'" using kstep_ok [OF ok pm] by blast
    have "posted k s s'" by (rule ensuresD [OF kstep_posted [OF ok pm] s'(1)])
    then show ?thesis using s' by (simp add: kernel_ok_def posted_def)
  qed
qed

lemmas reached_ok = kernel_okD(1) [OF kernel.reaches_inv]

section \<open>Safety\<close>

text \<open>A kernel whose four first tasks have the control blocks 0 to 3.\<close>

definition first_kernel :: sched where
  "first_kernel = boot_state 0 (case_core 1 2) 3 (\<lambda>_. new_tcb 0 None) (\<lambda>_. 0)"

lemma first_kernel_started: "started first_kernel"
  unfolding started_def first_kernel_def
  by (intro exI [of _ 0] exI [of _ "case_core 1 2"] exI [of _ 3] exI [of _ "\<lambda>_. new_tcb 0 None"] exI [of _ "\<lambda>_. 0"])
     (simp add: boot_run)

lemma first_kernel_reached: "kreach first_kernel"
  using first_kernel_started by (rule reaches_start)

lemma first_kernel_sel [simp]:
  "pxCurrentTCBs first_kernel = (\<lambda>_. None)(Core1 := Some 2, Core0 := Some 3)"
  "container first_kernel = (\<lambda>_. None)(StateItem 0 := Some (ReadyTasks 1), StateItem 1 := Some (ReadyTasks 0),
     StateItem 2 := Some (ReadyTasks 0), StateItem 3 := Some (ReadyTasks 1))"
  "tcb first_kernel = (\<lambda>_. new_tcb 0 None)(0 := new_tcb 1 (Some Core0), 1 := new_tcb 0 (Some Core0),
     2 := new_tcb 0 (Some Core1), 3 := new_tcb 1 None)"
  "tcb_live first_kernel = (\<lambda>_. False)(0 := True, 1 := True, 2 := True, 3 := True)"
  "items first_kernel = (\<lambda>_. [])(ReadyTasks 0 := [StateItem 1, StateItem 2], ReadyTasks 1 := [StateItem 0, StateItem 3])"
  "xIdleTaskHandle first_kernel = (\<lambda>_. None)(Core0 := Some 1, Core1 := Some 2)"
  "uxSchedulerSuspended first_kernel = (\<lambda>_. 0)"
  by (simp_all add: first_kernel_def)

text \<open>
  C2. From the start of the scheduler on, every call that the guard \<^term>\<open>permitted\<close> admits returns: no
  assertion of \<^verbatim>\<open>tasks.c\<close> fails, no null pointer is dereferenced, no list is corrupted or indexed
  outside \<^verbatim>\<open>pxReadyTasksLists\<close>, no loop runs for ever; and it leads to such a state again.
\<close>

theorem kernel_calls_return:
  assumes "kreach s" "permitted k s"
  shows "\<exists>s'. kstep k s = Inr s' \<and> kreach s'"
  using assms by (rule kernel.not_stuck)

theorem kernel_calls_return_witness:
  "permitted (Delay Core0 5) first_kernel \<and> (\<exists>s'. kstep (Delay Core0 5) first_kernel = Inr s' \<and> kreach s')"
proof -
  have p: "permitted (Delay Core0 5) first_kernel" by (simp add: blockable_def is_idle_def)
  with kernel_calls_return [OF first_kernel_reached p] show ?thesis by blast
qed

text \<open>
  C12. In every state the kernel reaches by permitted calls, each core runs a task whose control block is allocated and
  that is not pinned to the other core, never the same task on both; every item in any list belongs
  to an allocated task, a task is in exactly one state list if it is allocated and in none otherwise,
  and \<^verbatim>\<open>uxCurrentNumberOfTasks\<close> is the number of allocated tasks.
\<close>

theorem kernel_tasks_consistent:
  assumes "kreach s"
  shows "(\<exists>t. pxCurrentTCBs s c = Some t \<and> tcb_live s t \<and> taskIS_AFFINITY_COMPATIBLE c s t) \<and>
    pxCurrentTCBs s Core0 \<noteq> pxCurrentTCBs s Core1 \<and>
    (\<forall>l. distinct (items s l) \<and> (\<forall>i \<in> set (items s l). tcb_live s (owner i))) \<and>
    (tcb_live s t \<longleftrightarrow> (\<exists>!l. StateItem t \<in> set (items s l))) \<and>
    uxCurrentNumberOfTasks s = of_nat (card {t. tcb_live s t})"
proof (intro conjI allI ballI)
  have ok: "sched_ok s" by (rule reached_ok [OF assms])
  note lists = sched_okD(1) [OF ok] and base = sched_okD(2) [OF ok]
  have live: "tcb_live s u \<longleftrightarrow> container s (StateItem u) \<noteq> None" for u
    using base_okD(3) [OF base] by (simp add: live_ok_def)
  show "\<exists>t. pxCurrentTCBs s c = Some t \<and> tcb_live s t \<and> taskIS_AFFINITY_COMPATIBLE c s t"
    using current_run [OF base_okD(6) [OF base]] by blast
  show "pxCurrentTCBs s Core0 \<noteq> pxCurrentTCBs s Core1" using base_okD(6) [OF base] by (simp add: cur_ok_def)
  show "distinct (items s l)" for l by (rule lists_okD(1) [OF lists])
  show "tcb_live s (owner i)" if "i \<in> set (items s l)" for i l
  proof (cases i)
    case (StateItem u) then show ?thesis using that by (simp add: live lists_okD(2) [OF lists])
  next
    case (EventItem u)
    then have "container s (EventItem u) \<noteq> None" using that by (simp add: lists_okD(2) [OF lists])
    then have "is_blocked (container s (StateItem u))" using base_okD(4) [OF base] by (simp add: wait_ok_def)
    then have "container s (StateItem u) \<noteq> None" by (cases "container s (StateItem u)") auto
    then show ?thesis using EventItem live by simp
  qed
  show "tcb_live s t \<longleftrightarrow> (\<exists>!l. StateItem t \<in> set (items s l))" unfolding live lists_okD(2) [OF lists] by auto
  show "uxCurrentNumberOfTasks s = of_nat (card {t. tcb_live s t})" using base_okD(8) [OF base] by (simp add: count_ok_def)
qed

theorem kernel_tasks_consistent_witness:
  "tcb_live first_kernel 3 \<and> (\<exists>!l. StateItem 3 \<in> set (items first_kernel l)) \<and>
   uxCurrentNumberOfTasks first_kernel = of_nat (card {t. tcb_live first_kernel t})"
  using kernel_tasks_consistent [OF first_kernel_reached, of Core0 3] by simp

section \<open>Scheduling\<close>

lemma switch_chosen:
  assumes ok: "sched_ok s" and on: "uxSchedulerSuspended s c = 0"
  obtains q t Y T where
    "vTaskSwitchContext c s = Inr (picked c (ReadyTasks q) t ((set_yield_pending c False s)\<lparr>cursor := Y, uxTopReadyPriority := T\<rparr>))"
    "chosen c s q t" "\<forall>q' t'. runnable c s q' t' \<longrightarrow> q' \<le> q"
proof -
  let ?s = "set_yield_pending c False s"
  note base = sched_okD(2) [OF ok]
  have "\<exists>t. pxCurrentTCBs s k = Some t \<and> tcb_live s t \<and> taskIS_AFFINITY_COMPATIBLE k s t \<and>
          (is_ready (container s (StateItem t)) \<or> switch_due ?s k \<or> k = c)" for k
    using base_okD(6) [OF base] unfolding cur_ok_def switch_due_def by (cases "k = c") (simp_all, blast+)
  with base_okD [OF base] have sw: "switching c ?s"
    by (simp add: switching_def cur_ok_def taskIS_AFFINITY_COMPATIBLE_def)
  have d: "lists_ok ?s" "delay_ok ?s" "wake_order ?s DelayedTaskList1" "wake_order ?s DelayedTaskList2"
    using sched_okD [OF ok] by (simp_all add: set_yield_pending_ok)
  show thesis
  proof (rule select_run [OF sw d])
    fix q t Y T
    assume run: "prvSelectHighestPriorityTaskSMP c ?s = Inr (picked c (ReadyTasks q) t (?s\<lparr>cursor := Y, uxTopReadyPriority := T\<rparr>))"
      and ch: "chosen c ?s q t" and best: "\<And>q' t'. runnable c ?s q' t' \<Longrightarrow> q' \<le> q"
    have "vTaskSwitchContext c s = Inr (picked c (ReadyTasks q) t (?s\<lparr>cursor := Y, uxTopReadyPriority := T\<rparr>))"
      using run on by (simp add: vTaskSwitchContext_def)
    then show thesis by (rule that) (use ch best in simp_all)
  qed
qed

text \<open>
  C4. A context switch on a core whose scheduler is not suspended chooses, among the ready tasks that
  may run on it and do not run on the other core, one of the highest priority; of those the one that
  comes first in its list, which it moves to the end (round robin).
\<close>

theorem switch_selects_highest_priority:
  assumes "kreach s" "uxSchedulerSuspended s c = 0"
  shows "\<exists>s' t. vTaskSwitchContext c s = Inr s' \<and> pxCurrentTCBs s' c = Some t \<and>
    pxCurrentTCBs s' (other c) = pxCurrentTCBs s (other c) \<and>
    find (\<lambda>i. pxCurrentTCBs s (other c) \<noteq> Some (owner i) \<and> taskIS_AFFINITY_COMPATIBLE c s (owner i))
      (items s (ReadyTasks (unat (prio s t)))) = Some (StateItem t) \<and>
    items s' (ReadyTasks (unat (prio s t))) =
      removeAll (StateItem t) (items s (ReadyTasks (unat (prio s t)))) @ [StateItem t] \<and>
    (\<forall>u. is_ready (container s (StateItem u)) \<and> pxCurrentTCBs s (other c) \<noteq> Some u \<and>
         taskIS_AFFINITY_COMPATIBLE c s u \<longrightarrow> prio s u \<le> prio s t)"
proof -
  have ok: "sched_ok s" by (rule reached_ok [OF assms(1)])
  note lists = sched_okD(1) [OF ok] and base = sched_okD(2) [OF ok]
  obtain q t Y T where run: "vTaskSwitchContext c s =
      Inr (picked c (ReadyTasks q) t ((set_yield_pending c False s)\<lparr>cursor := Y, uxTopReadyPriority := T\<rparr>))"
    and ch: "chosen c s q t" and best: "\<forall>q' t'. runnable c s q' t' \<longrightarrow> q' \<le> q"
    using switch_chosen [OF ok assms(2)] by metis
  let ?s' = "picked c (ReadyTasks q) t ((set_yield_pending c False s)\<lparr>cursor := Y, uxTopReadyPriority := T\<rparr>)"
  have pq: "p = unat (prio s u)" if "ready_at s p u" for p u
    using that base_okD(2) [OF base] by (simp add: ready_ok_def ready_at_def)
  have q: "q = unat (prio s t)" using ch pq by (simp add: chosen_def runnable_def)
  have suit: "suitable c s = (\<lambda>i. pxCurrentTCBs s (other c) \<noteq> Some (owner i) \<and> taskIS_AFFINITY_COMPATIBLE c s (owner i))"
    by (simp add: suitable_def fun_eq_iff)
  have "prio s u \<le> prio s t" if u: "is_ready (container s (StateItem u))" "pxCurrentTCBs s (other c) \<noteq> Some u"
      "taskIS_AFFINITY_COMPATIBLE c s u" for u
  proof -
    obtain p where "ready_at s p u" using ready_place [OF u(1)] by (auto simp: ready_at_def)
    then have "runnable c s p u" "p = unat (prio s u)" using u pq by (simp_all add: runnable_def suitable_def)
    then show ?thesis using best q by (auto simp: word_le_nat_alt)
  qed
  moreover have "find (suitable c s) (items s (ReadyTasks q)) = Some (StateItem t)" using ch by (simp add: chosen_def)
  ultimately show ?thesis using run unfolding suit q by (intro exI [of _ ?s'] exI [of _ t]) (simp add: q removeAll_as_filter)
qed

theorem switch_selects_highest_priority_witness:
  "\<exists>s'. vTaskSwitchContext Core0 first_kernel = Inr s' \<and> pxCurrentTCBs s' Core0 = Some 0 \<and>
     items s' (ReadyTasks 1) = [StateItem 3, StateItem 0]"
proof -
  have "uxSchedulerSuspended first_kernel Core0 = 0" by simp
  from switch_selects_highest_priority [OF first_kernel_reached this] obtain s' t where
    run: "vTaskSwitchContext Core0 first_kernel = Inr s'" "pxCurrentTCBs s' Core0 = Some t"
    and f: "find (\<lambda>i. pxCurrentTCBs first_kernel Core1 \<noteq> Some (owner i) \<and> taskIS_AFFINITY_COMPATIBLE Core0 first_kernel (owner i))
      (items first_kernel (ReadyTasks (unat (prio first_kernel t)))) = Some (StateItem t)"
    and its: "items s' (ReadyTasks (unat (prio first_kernel t))) =
      removeAll (StateItem t) (items first_kernel (ReadyTasks (unat (prio first_kernel t)))) @ [StateItem t]"
    and best: "\<forall>u. is_ready (container first_kernel (StateItem u)) \<and> pxCurrentTCBs first_kernel Core1 \<noteq> Some u \<and>
         taskIS_AFFINITY_COMPATIBLE Core0 first_kernel u \<longrightarrow> prio first_kernel u \<le> prio first_kernel t" by auto
  have "1 \<le> prio first_kernel t" using best [rule_format, of 0] by (simp add: prio_def taskIS_AFFINITY_COMPATIBLE_def)
  then have pt: "prio first_kernel t = 1" by (simp add: prio_def split: if_splits)
  then have "t = 0" using f by (simp add: taskIS_AFFINITY_COMPATIBLE_def split: if_splits)
  then show ?thesis using run its pt by auto
qed

section \<open>Waking\<close>

text \<open>Interrupts, their sequences, and the ticks that core 0 counts in one.\<close>

definition is_interrupt :: "kcall \<Rightarrow> bool" where
  "is_interrupt k = (case k of SysTick _ \<Rightarrow> True | CrossCoreInt _ \<Rightarrow> True | _ \<Rightarrow> False)"

primrec krun :: "kcall list \<Rightarrow> sched \<Rightarrow> sched res" where
  "krun [] s = Inr s"
| "krun (k # ks) s = bind_res (kstep k s) (krun ks)"

definition ticks_in :: "kcall list \<Rightarrow> nat" where
  "ticks_in ks = length (filter (\<lambda>k. k = SysTick Core0) ks)"

text \<open>A task that wakes in \<^term>\<open>m\<close> ticks, or is ready again.\<close>

definition sleeping :: "nat \<Rightarrow> task \<Rightarrow> sched \<Rightarrow> bool" where
  "sleeping m t s \<longleftrightarrow> m < 2 ^ 32 \<and>
     (if m = 0 then container s (StateItem t) = Some (ReadyTasks (unat (prio s t)))
      else container s (StateItem t) \<in> {Some DelayedTaskList1, Some DelayedTaskList2} \<and>
           item_value s (StateItem t) = xTickCount s + of_nat m)"

lemma sleeping_calm: "calm s s' \<Longrightarrow> sleeping m t s' = sleeping m t s"
  by (simp add: calm_def sleeping_def prio_def)

lemma sleeping_tick:
  assumes t: "ticked s s'" and sl: "sleeping m t s"
  shows "sleeping (m - 1) t s'"
proof -
  have same: "tcb s' = tcb s" "item_value s' = item_value s" "xTickCount s' = xTickCount s + 1"
    and cont: "container s' (StateItem t) = (if tick_wakes s t then Some (ReadyTasks (unat (prio s t))) else container s (StateItem t))"
    using t by (simp_all add: ticked_def same_tasks_def)
  have pr: "prio s' = prio s" by (simp add: prio_def fun_eq_iff same)
  show ?thesis
  proof (cases m)
    case 0
    then have "\<not> tick_wakes s t" using sl by (simp add: sleeping_def tick_wakes_def)
    then show ?thesis using sl 0 by (simp add: sleeping_def cont pr)
  next
    case (Suc j)
    have "(of_nat m :: u32) = 1 \<longleftrightarrow> m = 1"
      using sl by (simp add: sleeping_def word_unat_eq_iff unat_of_nat take_bit_nat_eq_self)
    then have "tick_wakes s t \<longleftrightarrow> m = 1" using sl Suc by (auto simp: sleeping_def tick_wakes_def)
    then show ?thesis using sl Suc by (cases j) (simp_all add: sleeping_def cont pr same)
  qed
qed

lemma interrupt_run:
  assumes ok: "sched_ok s" and on: "uxSchedulerSuspended s Core0 = 0" and int: "is_interrupt k" and sl: "sleeping m t s"
  shows "\<exists>s'. kstep k s = Inr s' \<and> sched_ok s' \<and> uxSchedulerSuspended s' Core0 = 0 \<and>
     sleeping (m - ticks_in [k]) t s'"
proof (cases k)
  case (SysTick c)
  obtain s' where s': "xPortSysTickHandler c s = Inr s'" "sched_ok s'" "systick_effect c s s'" using systick_ok [OF ok] by blast
  from s'(3) obtain s1 where cl: "calm s1 s'" and eff: "if c = Core0 then ticked s s1 else calm s s1"
    using on by (auto simp: systick_effect_def split: if_splits)
  have "sleeping (m - ticks_in [k]) t s1 \<and> uxSchedulerSuspended s1 Core0 = 0"
  proof (cases c)
    case Core0
    then have "ticked s s1" "m - ticks_in [k] = m - 1" using eff SysTick by (simp_all add: ticks_in_def)
    then show ?thesis using sleeping_tick [OF _ sl] on by (simp add: ticked_def same_tasks_def)
  next
    case Core1
    then have "calm s s1" "m - ticks_in [k] = m" using eff SysTick by (simp_all add: ticks_in_def)
    then show ?thesis using sleeping_calm [of s s1] sl on by (simp add: calm_def)
  qed
  then have "sleeping (m - ticks_in [k]) t s' \<and> uxSchedulerSuspended s' Core0 = 0"
    using cl sleeping_calm [OF cl] by (simp add: calm_def)
  with s' SysTick show ?thesis by simp
next
  case (CrossCoreInt c)
  obtain s' where s': "esp_crosscore_isr c s = Inr s'" "sched_ok s'" "calm s s'" using crosscore_isr_ok [OF ok] by blast
  have "uxSchedulerSuspended s' Core0 = 0" using s'(3) on by (simp add: calm_def)
  moreover have "sleeping (m - ticks_in [k]) t s'" using sleeping_calm [OF s'(3)] sl by (simp add: CrossCoreInt ticks_in_def)
  ultimately show ?thesis using s' CrossCoreInt by simp
qed (use int in \<open>simp_all add: is_interrupt_def\<close>)

lemma interrupts_run:
  assumes "sched_ok s" "uxSchedulerSuspended s Core0 = 0" "list_all is_interrupt ks" "sleeping m t s"
  shows "\<exists>s'. krun ks s = Inr s' \<and> sleeping (m - ticks_in ks) t s'"
  using assms
proof (induction ks arbitrary: s m)
  case (Cons k ks)
  obtain s1 where k: "kstep k s = Inr s1" "sched_ok s1" "uxSchedulerSuspended s1 Core0 = 0" "sleeping (m - ticks_in [k]) t s1"
    using interrupt_run [OF Cons.prems(1,2) _ Cons.prems(4), of k] Cons.prems(3) by auto
  have "ticks_in (k # ks) = ticks_in [k] + ticks_in ks" by (simp add: ticks_in_def)
  then show ?case using Cons.IH [OF k(2,3) _ k(4)] Cons.prems(3) k(1) by auto
qed (simp add: ticks_in_def)

lemma delay_sleeps:
  assumes ok: "sched_ok s" and b: "blockable c s" and cur: "pxCurrentTCBs s c = Some t" and n: "0 < n"
  obtains s1 where "vTaskDelay_smp c n s = Inr s1" "sched_ok s1" "sleeping (unat n) t s1" "prio s1 = prio s"
    "uxSchedulerSuspended s1 = uxSchedulerSuspended s"
proof -
  have r: "is_ready (container s (StateItem t))" "\<not> is_idle s t" and on: "uxSchedulerSuspended s c = 0"
    using b cur by (auto simp: blockable_def split: option.splits list_id.splits)
  obtain s' where run: "prvAddCurrentTaskToDelayedList c n False s = Inr s'" and p: "parked_at n (wake_place n False s) t s s'"
    and ok': "sched_ok (esp_crosscore_int_send_yield c s')" using block_run [OF ok cur r n] by blast
  have pl: "wake_place n False s \<in> {DelayedTaskList1, DelayedTaskList2}"
    using delay_two [OF sched_okD(3) [OF ok]] by (auto simp: wake_place_def)
  from p obtain X Y V N where s': "s' = parked X Y (wake_place n False s) V N t s"
    and v: "wake_place n False s \<noteq> SuspendedTaskList \<longrightarrow> V (StateItem t) = xTickCount s + n" unfolding parked_at_def by blast
  have "unat n \<noteq> 0" "unat n < 2 ^ 32" using n unsigned_less [of n] by (auto simp: unat_eq_0)
  then have "sleeping (unat n) t (esp_crosscore_int_send_yield c s')"
    using pl v by (auto simp: sleeping_def s')
  moreover have "prio s' = prio s" "uxSchedulerSuspended s' = uxSchedulerSuspended s"
    by (auto simp: s' prio_def fun_eq_iff parked_def)
  moreover have "vTaskDelay_smp c n s = Inr (esp_crosscore_int_send_yield c s')"
    using run n on by (simp add: vTaskDelay_smp_def taskIS_SCHEDULER_SUSPENDED_def)
  ultimately show thesis using ok' by (intro that [of "esp_crosscore_int_send_yield c s'"]) simp_all
qed

text \<open>
  C6. While the scheduler of core 0 is running, a task that delays itself by \<^term>\<open>n\<close> ticks is woken by the \<^term>\<open>n\<close>-th tick that core 0 counts: however
  tick and cross-core interrupts of the two cores follow one another, it stays in a delayed list as long
  as there were fewer ticks, and is in the ready list of its priority from the \<^term>\<open>n\<close>-th on, also when
  the tick count wraps around in between.
\<close>

theorem delayed_task_wakes:
  assumes "kreach s" "blockable c s" "pxCurrentTCBs s c = Some t" "0 < n" "uxSchedulerSuspended s Core0 = 0"
    "list_all is_interrupt ks"
  shows "\<exists>s1 s2. vTaskDelay_smp c n s = Inr s1 \<and> krun ks s1 = Inr s2 \<and>
    (if ticks_in ks < unat n then container s2 (StateItem t) \<in> {Some DelayedTaskList1, Some DelayedTaskList2}
     else container s2 (StateItem t) = Some (ReadyTasks (unat (prio s2 t))))"
proof -
  obtain s1 where s1: "vTaskDelay_smp c n s = Inr s1" "sched_ok s1" "sleeping (unat n) t s1"
      "uxSchedulerSuspended s1 = uxSchedulerSuspended s"
    using delay_sleeps [OF reached_ok [OF assms(1)] assms(2-4)] by blast
  obtain s2 where "krun ks s1 = Inr s2" "sleeping (unat n - ticks_in ks) t s2"
    using interrupts_run [OF s1(2) _ assms(6) s1(3)] s1(4) assms(5) by auto
  with s1(1) show ?thesis by (auto simp: sleeping_def split: if_splits)
qed

theorem delayed_task_wakes_witness:
  "\<exists>s1 s2. vTaskDelay_smp Core0 2 first_kernel = Inr s1 \<and>
     krun [CrossCoreInt Core0, SysTick Core0, SysTick Core1, SysTick Core0] s1 = Inr s2 \<and>
     container s2 (StateItem 3) = Some (ReadyTasks (unat (prio s2 3)))"
proof -
  have b: "blockable Core0 first_kernel" by (simp add: blockable_def is_idle_def)
  have c: "pxCurrentTCBs first_kernel Core0 = Some 3" by simp
  have i: "list_all is_interrupt [CrossCoreInt Core0, SysTick Core0, SysTick Core1, SysTick Core0]"
    by (simp add: is_interrupt_def)
  have u: "uxSchedulerSuspended first_kernel Core0 = 0" by simp
  have "\<not> ticks_in [CrossCoreInt Core0, SysTick Core0, SysTick Core1, SysTick Core0] < unat (2 :: u32)"
    by (simp add: ticks_in_def)
  with delayed_task_wakes [OF first_kernel_reached b c _ u i, of 2] show ?thesis by auto
qed

section \<open>Preemption\<close>

text \<open>A core that a task may take over: it may run there, its scheduler runs, and the task there is not more urgent.\<close>

definition gives_way :: "sched \<Rightarrow> task \<Rightarrow> core \<Rightarrow> bool" where
  "gives_way s t k \<longleftrightarrow> taskIS_AFFINITY_COMPATIBLE k s t \<and> uxSchedulerSuspended s k = 0 \<and>
     (case pxCurrentTCBs s k of None \<Rightarrow> False | Some b \<Rightarrow> prio s b \<le> prio s t)"

lemma yields_core_equal:
  assumes ok: "sched_ok s" and p: "prio s t < configMAX_PRIORITIES"
  shows "yields_core k t (prio s t + 1) s = Inr (gives_way s t k)"
proof -
  obtain b where b: "current k s = Inr b" "pxCurrentTCBs s k = Some b" using current_run [OF base_okD(6) [OF sched_okD(2) [OF ok]]] by blast
  have "prio s t + 1 \<noteq> 0"
  proof
    assume "prio s t + 1 = 0"
    from word_at_top [OF this, of "configMAX_PRIORITIES"] p show False by simp
  qed
  then have "unat (prio s t + 1) = Suc (unat (prio s t))" using unatSuc [of "prio s t"] by (simp add: add.commute)
  then have "prio s b < prio s t + 1 \<longleftrightarrow> prio s b \<le> prio s t" by (simp add: word_less_nat_alt word_le_nat_alt less_Suc_eq_le)
  then show ?thesis using b by (auto simp: yields_core_def gives_way_def)
qed

text \<open>
  Resuming a suspended task makes it ready at once, and if there is a core that it may take over
  (one it may run on, with the scheduler running and a task of no higher priority), then such a core is
  interrupted so that it switches: the calling core if it is one, else the other.
\<close>

theorem resumed_task_preempts:
  assumes "kreach s" "\<not> taskIS_CURRENTLY_RUNNING s t" "prvTaskIsTaskSuspended t s"
  shows "\<exists>s'. vTaskResume c (Some t) s = Inr s' \<and>
    container s' (StateItem t) = Some (ReadyTasks (unat (prio s t))) \<and>
    (if gives_way s t c then reason s' c
     else gives_way s t (other c) \<longrightarrow> reason s' (other c))"
proof -
  have ok: "sched_ok s" by (rule reached_ok [OF assms(1)])
  have at: "container s (StateItem t) = Some SuspendedTaskList" and ev: "container s (EventItem t) = None"
    using assms(3) by (simp_all add: prvTaskIsTaskSuspended_def)
  have live: "tcb_live s t" and pr: "prio s t < configMAX_PRIORITIES" and nt: "container s (StateItem t) \<noteq> Some TasksWaitingTermination"
    using blocked_live [OF ok, of t] at by auto
  obtain s2 where both: "bind_res (remove_state t s) (prvAddTaskToReadyList t) = Inr s2" and res: "ready_result t s s2"
    using ready_plain [OF sched_okD(1) [OF ok] at pr ev] by blast
  then obtain s1 where run: "remove_state t s = Inr s1" "prvAddTaskToReadyList t s1 = Inr s2"
    by (auto simp: bind_res_eq_Inr_iff)
  have ok2: "sched_ok s2" by (rule ready_result_sched [OF res ok live nt])
  from res obtain X Y where s2: "s2 = readied X Y t s" by (auto simp: ready_result_def)
  have gw: "gives_way s2 t k = gives_way s t k" for k
    by (simp add: s2 gives_way_def taskIS_AFFINITY_COMPATIBLE_def split: option.split)
  have "prio s2 t < configMAX_PRIORITIES" using pr by (simp add: s2)
  then have "prvIsYieldRequiredSMP c t (prio s2 t) True s2 =
      Inr (gives_way s t c, if \<not> gives_way s t c \<and> gives_way s t (other c) then esp_crosscore_int_send_yield (other c) s2 else s2)"
    using yields_core_equal [OF ok2] gw by (simp add: prvIsYieldRequiredSMP_def Let_def)
  then have "vTaskResume c (Some t) s = Inr (if gives_way s t c then esp_crosscore_int_send_yield c s2
      else if gives_way s t (other c) then esp_crosscore_int_send_yield (other c) s2 else s2)"
    using assms(2,3) run by (simp add: vTaskResume_def)
  then show ?thesis by (simp add: s2)
qed

text \<open>The main task of \<^term>\<open>first_kernel\<close> is ready on core 0 and does not run; here it is suspended.\<close>

lemma first_kernel_fields:
  "cursor first_kernel = (\<lambda>_. None)" "xSchedulerRunning first_kernel" "pxDelayedTaskList first_kernel = DelayedTaskList1"
  by (simp_all add: first_kernel_def)

definition main_suspended :: sched where
  "main_suspended = first_kernel\<lparr>items := (items first_kernel)(ReadyTasks 1 := [StateItem 3], SuspendedTaskList := [StateItem 0]),
     cursor := (\<lambda>_. None), container := (container first_kernel)(StateItem 0 := Some SuspendedTaskList),
     tcb := (tcb first_kernel)(0 := new_tcb 1 (Some Core0)), xNextTaskUnblockTime := portMAX_DELAY\<rparr>"

lemma main_suspended_run: "kstep (SuspendTask Core0 (Some 0)) first_kernel = Inr main_suspended"
proof -
  have "stop_waiting_notification (new_tcb p k) = new_tcb p k" for p k by (simp add: stop_waiting_notification_def new_tcb_def)
  then show ?thesis
    by (simp add: vTaskSuspend_def prvGetTCBFromHandle_def remove_state_def remove_item_def first_kernel_fields unlink_event_def
        insert_end_def put_before_def upd_task_def prvResetNextTaskUnblockTime_def leave_suspended_def main_suspended_def Let_def)
qed

lemma main_suspended_reached: "kreach main_suspended"
  by (rule reaches_call [OF first_kernel_reached _ main_suspended_run]) (simp add: target_def may_leave_def is_idle_def)

theorem resumed_task_preempts_witness:
  "\<exists>s'. vTaskResume Core1 (Some 0) main_suspended = Inr s' \<and> container s' (StateItem 0) = Some (ReadyTasks 1) \<and> reason s' Core0"
proof -
  have a: "\<not> taskIS_CURRENTLY_RUNNING main_suspended 0" "prvTaskIsTaskSuspended 0 main_suspended"
    by (simp_all add: taskIS_CURRENTLY_RUNNING_def prvTaskIsTaskSuspended_def main_suspended_def)
  have g: "\<not> gives_way main_suspended 0 Core1" "gives_way main_suspended 0 (other Core1)" "prio main_suspended 0 = 1"
    by (simp_all add: gives_way_def main_suspended_def taskIS_AFFINITY_COMPATIBLE_def prio_def)
  show ?thesis using resumed_task_preempts [OF main_suspended_reached a, of Core1] g by simp
qed

section \<open>Calls that are lost\<close>

text \<open>
  C17. A suspension can be lost. When a task that runs on the other core is suspended while that core is on
  its way into \<^verbatim>\<open>vTaskDelay\<close> (it waits for the kernel lock, so that the yield interrupt is still masked),
  \<^verbatim>\<open>prvAddCurrentTaskToDelayedList\<close> moves the task from the suspended list to a delayed list: it will be
  woken \<^term>\<open>n\<close> ticks later although nobody has resumed it.
\<close>

theorem suspension_lost_by_delay:
  assumes "kreach s" "permitted (SuspendTask c (Some t)) s" "pxCurrentTCBs s (other c) = Some t"
    "uxSchedulerSuspended s (other c) = 0" "0 < n"
  shows "\<exists>s1 s2. vTaskSuspend c (Some t) s = Inr s1 \<and> container s1 (StateItem t) = Some SuspendedTaskList \<and>
    vTaskDelay_smp (other c) n s1 = Inr s2 \<and>
    container s2 (StateItem t) \<in> {Some DelayedTaskList1, Some DelayedTaskList2} \<and>
    item_value s2 (StateItem t) = xTickCount s2 + n"
proof -
  have ok: "sched_ok s" by (rule reached_ok [OF assms(1)])
  have "may_leave c t s" using assms(2) by (simp add: target_def)
  then obtain s1 where s1: "vTaskSuspend c (Some t) s = Inr s1" "sched_ok s1"
      "container s1 (StateItem t) = Some SuspendedTaskList" "pxCurrentTCBs s1 = pxCurrentTCBs s"
      "uxSchedulerSuspended s1 = uxSchedulerSuspended s" using suspend_ok [OF ok, of c t "Some t"] by auto
  have cur: "pxCurrentTCBs s1 (other c) = Some t" using s1(4) assms(3) by simp
  note two = delay_two [OF sched_okD(3) [OF s1(2)]]
  obtain s' where run: "prvAddCurrentTaskToDelayedList (other c) n False s1 = Inr s'"
    and p: "parked_at n (wake_place n False s1) t s1 s'"
    using add_delayed_run [OF sched_okD(1) [OF s1(2)] cur s1(3) _ two sched_okD(4,5) [OF s1(2)]] by blast
  have pl: "wake_place n False s1 \<in> {DelayedTaskList1, DelayedTaskList2}" using two by (auto simp: wake_place_def)
  have "vTaskDelay_smp (other c) n s1 = Inr (esp_crosscore_int_send_yield (other c) s')"
    using run assms(4,5) s1(5) by (simp add: vTaskDelay_smp_def taskIS_SCHEDULER_SUSPENDED_def)
  moreover have "container s' (StateItem t) = Some (wake_place n False s1)" "item_value s' (StateItem t) = xTickCount s' + n"
    using p pl by (auto simp: parked_at_def)
  ultimately show ?thesis using s1(1,3) pl by auto
qed

theorem suspension_lost_by_delay_witness:
  "\<exists>s1 s2. vTaskSuspend Core1 (Some 3) first_kernel = Inr s1 \<and> container s1 (StateItem 3) = Some SuspendedTaskList \<and>
     vTaskDelay_smp Core0 7 s1 = Inr s2 \<and> container s2 (StateItem 3) \<in> {Some DelayedTaskList1, Some DelayedTaskList2}"
proof -
  have p: "permitted (SuspendTask Core1 (Some 3)) first_kernel" by (simp add: target_def may_leave_def is_idle_def)
  have c: "pxCurrentTCBs first_kernel (other Core1) = Some 3" "uxSchedulerSuspended first_kernel (other Core1) = 0" by simp_all
  show ?thesis using suspension_lost_by_delay [OF first_kernel_reached p c, of 7] by auto
qed

text \<open>
  C33. A resumption from an interrupt can be lost. When the task is pinned to the other core and that
  core's scheduler is suspended, \<^verbatim>\<open>xTaskResumeFromISR\<close> parks the task in the pending list of the core
  that took the interrupt, which the other core does not look at when its scheduler resumes; and from
  then on the task does not count as suspended, so that \<^verbatim>\<open>vTaskResume\<close> does nothing for it.
\<close>

theorem isr_resume_stranded:
  assumes "kreach s" "prvTaskIsTaskSuspended t s" "xCoreID (tcb s t) = Some (other c)" "uxSchedulerSuspended s (other c) \<noteq> 0"
  shows "\<exists>s1. xTaskResumeFromISR c (Some t) s = Inr (False, s1) \<and> EventItem t \<in> set (items s1 (PendingReady c)) \<and>
    items s1 (PendingReady (other c)) = items s (PendingReady (other c)) \<and>
    container s1 (StateItem t) = Some SuspendedTaskList \<and> vTaskResume k (Some t) s1 = Inr s1"
proof -
  have ok: "sched_ok s" by (rule reached_ok [OF assms(1)])
  have at: "container s (StateItem t) = Some SuspendedTaskList" and ev: "container s (EventItem t) = None"
    using assms(2) by (simp_all add: prvTaskIsTaskSuspended_def)
  have can: "\<not> prvCheckTaskCanBeScheduledSMP s t" using assms(3,4) by (simp add: prvCheckTaskCanBeScheduledSMP_def)
  obtain X where ins: "insert_end (PendingReady c) (EventItem t) s =
      Inr (s\<lparr>items := (items s)(PendingReady c := X), container := (container s)(EventItem t := Some (PendingReady c))\<rparr>)" (is "_ = Inr ?s1")
    and lists: "lists_ok (s\<lparr>items := (items s)(PendingReady c := X), container := (container s)(EventItem t := Some (PendingReady c))\<rparr>)"
    using insert_end_run [OF sched_okD(1) [OF ok] ev] by blast
  have "xTaskResumeFromISR c (Some t) s = Inr (False, ?s1)" using assms(2) can ins by (simp add: xTaskResumeFromISR_def)
  moreover have "EventItem t \<in> set (items ?s1 (PendingReady c))"
    using lists_okD(2) [OF lists, of "EventItem t" "PendingReady c"] by simp
  moreover have "vTaskResume k (Some t) ?s1 = Inr ?s1" by (simp add: vTaskResume_def prvTaskIsTaskSuspended_def)
  ultimately show ?thesis using at by (intro exI [of _ ?s1]) simp
qed

text \<open>The main task is pinned to core 0, whose scheduler is suspended here.\<close>

definition main_suspended_core0 :: sched where
  "main_suspended_core0 = vTaskSuspendAll Core0 main_suspended"

lemma main_suspended_core0_reached: "kreach main_suspended_core0"
  by (rule reaches_call [OF main_suspended_reached, of "SuspendAll Core0"])
     (simp_all add: main_suspended_core0_def main_suspended_def)

theorem isr_resume_stranded_witness:
  "\<exists>s1. xTaskResumeFromISR Core1 (Some 0) main_suspended_core0 = Inr (False, s1) \<and>
     EventItem 0 \<in> set (items s1 (PendingReady Core1)) \<and> vTaskResume Core0 (Some 0) s1 = Inr s1"
proof -
  have a: "prvTaskIsTaskSuspended 0 main_suspended_core0" "xCoreID (tcb main_suspended_core0 0) = Some (other Core1)"
    "uxSchedulerSuspended main_suspended_core0 (other Core1) \<noteq> 0"
    by (simp_all add: main_suspended_core0_def vTaskSuspendAll_def main_suspended_def prvTaskIsTaskSuspended_def)
  show ?thesis using isr_resume_stranded [OF main_suspended_core0_reached a, of Core0] by blast
qed

end
