(* ===== verification/KernelNotify.thy ===== *)
theory KernelNotify
  imports KernelRun
begin

text \<open>
  Notifications in the running kernel. The notification word of a task behaves as a mailbox that only the
  calls of \<^term>\<open>mailbox_step\<close> touch; no notification is lost while a task waits, whatever the kernel does
  meanwhile; a notified task is made ready and preempts. At the end, where the code goes wrong: a task
  that waits for a notification without time-out counts as suspended for the calls that resume.
\<close>

section \<open>Mailboxes\<close>

text \<open>
  C8. Task notifications implement mailboxes. For every permitted call in every state the kernel
  reaches, the call returns and the notification value and state of every task afterwards are those of
  the specification \<^term>\<open>mailbox_step\<close>: the calls that notify, wait for and clear notifications change the
  mailbox they address as specified, suspending a task ends its wait, creating one empties its mailbox,
  and no other call of the kernel changes any mailbox.
\<close>

theorem mailboxes_refine:
  assumes "kreach s" "permitted k s"
  shows "\<exists>s'. kstep k s = Inr s' \<and> (\<forall>t. mailbox s' t = mailbox_step k s t (mailbox s t))"
proof -
  note ok = kernel_okD [OF kernel.reaches_inv [OF assms(1)]]
  obtain s' where s': "kstep k s = Inr s'" using kernel.not_stuck [OF assms] by blast
  have "posted k s s'" by (rule ensuresD [OF kstep_posted [OF ok assms(2)] s'])
  then show ?thesis using s' by (simp add: posted_def mailboxes_after_def)
qed

theorem mailboxes_refine_witness:
  "\<exists>s'. kstep (Notify Core0 0 6 eSetBits) first_kernel = Inr s' \<and>
     mailbox s' 0 = (6, taskNOTIFICATION_RECEIVED) \<and> mailbox s' 3 = (0, taskNOT_WAITING_NOTIFICATION)"
proof -
  have p: "permitted (Notify Core0 0 6 eSetBits) first_kernel" by (simp add: may_notify_def)
  have m: "mailbox first_kernel u = (0, taskNOT_WAITING_NOTIFICATION)" for u
    by (simp add: mailbox_def note_value_def note_state_def new_tcb_def)
  show ?thesis using mailboxes_refine [OF first_kernel_reached p] by (auto simp: m note_posted_def)
qed

section \<open>Counting\<close>

text \<open>How often a call gives a notification to a task, and calls that do nothing else to its mailbox.\<close>

definition gives :: "task \<Rightarrow> kcall \<Rightarrow> nat" where
  "gives t k =
     (case k of Notify _ u _ act \<Rightarrow> if u = t \<and> act = eIncrement then 1 else 0
      | NotifyFromISR _ u _ act \<Rightarrow> if u = t \<and> act = eIncrement then 1 else 0
      | NotifyGiveFromISR _ u \<Rightarrow> if u = t then 1 else 0
      | _ \<Rightarrow> 0)"

definition spares :: "task \<Rightarrow> kcall \<Rightarrow> sched \<Rightarrow> bool" where
  "spares t k s =
     (case k of NotifyTake c _ \<Rightarrow> pxCurrentTCBs s c \<noteq> Some t
      | NotifyTakeEnd c _ \<Rightarrow> pxCurrentTCBs s c \<noteq> Some t
      | NotifyWait c _ _ \<Rightarrow> pxCurrentTCBs s c \<noteq> Some t
      | NotifyWaitEnd c _ \<Rightarrow> pxCurrentTCBs s c \<noteq> Some t
      | Notify _ u _ act \<Rightarrow> u = t \<longrightarrow> act = eIncrement
      | NotifyFromISR _ u _ act \<Rightarrow> u = t \<longrightarrow> act = eIncrement
      | NotifyValueClear c h _ \<Rightarrow> target c h s \<noteq> Some t
      | CreateTask _ stack block _ _ \<Rightarrow> \<not> (stack \<and> block = Some t)
      | _ \<Rightarrow> True)"

text \<open>What happens while a task is away: permitted calls that give it \<^term>\<open>n\<close> notifications.\<close>

inductive away :: "task \<Rightarrow> sched \<Rightarrow> nat \<Rightarrow> sched \<Rightarrow> bool" for t s where
  away_start: "away t s 0 s"
| away_call: "away t s n s1 \<Longrightarrow> permitted k s1 \<Longrightarrow> spares t k s1 \<Longrightarrow> kstep k s1 = Inr s2 \<Longrightarrow> away t s (n + gives t k) s2"

lemma spared_value:
  assumes "spares t k s"
  shows "fst (mailbox_step k s t m) = fst m + of_nat (gives t k)"
  using assms by (cases k) (auto simp: spares_def gives_def note_posted_def stopped_def)

lemma away_counts:
  assumes "away t s n s'" "kernel_ok s"
  shows "kernel_ok s' \<and> note_value s' t = note_value s t + of_nat n"
  using assms(1)
proof induction
  case (away_call n s1 k s2)
  then have ok: "sched_ok s1" "notes_ok s1" and v: "note_value s1 t = note_value s t + of_nat n" by (simp_all add: kernel_ok_def)
  obtain s2' where s2': "kstep k s1 = Inr s2'" "kernel_ok s2'"
    using kernel.step_inv [of s1 k] away_call by (auto simp: kernel_ok_def)
  have "posted k s1 s2" by (rule ensuresD [OF kstep_posted [OF ok away_call.hyps(2)] away_call.hyps(4)])
  then have "note_value s2 t = fst (mailbox_step k s1 t (mailbox s1 t))"
    by (metis posted_def mailboxes_after_def mailbox_def fst_conv)
  then have "note_value s2 t = note_value s1 t + of_nat (gives t k)" using spared_value [OF away_call.hyps(3)] by (simp add: mailbox_def)
  then show ?case using v s2' away_call.hyps(4) by simp
qed (use assms(2) in simp)

text \<open>
  C9. No notification is lost. If a task calls \<^verbatim>\<open>ulTaskNotifyTake\<close> and \<^term>\<open>m\<close> notifications that increment are given to it,
  by tasks and by interrupts of either core, until it runs again on some core, then the call returns
  the value at its start plus \<^term>\<open>m\<close> (as a 32-bit count), and leaves 0 or one less, as asked, whatever
  else the kernel does in the meantime: ticks, switches, time-outs, suspensions, notifications of
  other tasks. Only calls that overwrite or clear this task's value are excluded (\<^term>\<open>spares\<close>).
\<close>

theorem notifications_counted:
  assumes "kreach s" "permitted (NotifyTake c n) s" "pxCurrentTCBs s c = Some t"
    "notify_take_enter c 0 n s = Inr s1" "away t s1 m s2" "pxCurrentTCBs s2 c' = Some t"
  shows "\<exists>s3. ulTaskGenericNotifyTake c 0 clear n (\<lambda>_. Inr (c', s2)) s = Inr (note_value s t + of_nat m, s3) \<and>
    note_value s3 t = (if clear \<or> note_value s t + of_nat m = 0 then 0 else note_value s t + of_nat m - 1)"
proof -
  have inv: "kernel_ok s" by (rule kernel.reaches_inv [OF assms(1)])
  note ok = kernel_okD [OF inv]
  have run: "kstep (NotifyTake c n) s = Inr s1" using assms(4) by simp
  have "posted (NotifyTake c n) s s1" by (rule ensuresD [OF kstep_posted [OF ok assms(2)] run])
  then have "fst (mailbox s1 t) = fst (mailbox_step (NotifyTake c n) s t (mailbox s t))" by (simp add: posted_def mailboxes_after_def)
  then have v1: "note_value s1 t = note_value s t" by (simp add: mailbox_def note_entered_def assms(3))
  have "kernel_ok s1" using kernel.step_inv [OF inv assms(2)] run by auto
  from away_counts [OF assms(5) this] have v2: "note_value s2 t = note_value s t + of_nat m" using v1 by simp
  have "current c' s2 = Inr t" using assms(6) by (simp add: current_def)
  then show ?thesis using assms(4) v2 by (simp add: ulTaskGenericNotifyTake_def notify_take_leave_def Let_def)
qed

section \<open>Waking\<close>

text \<open>A core on which a task would take precedence over the one that runs there.\<close>

definition outranks :: "sched \<Rightarrow> task \<Rightarrow> core \<Rightarrow> bool" where
  "outranks s t k \<longleftrightarrow> taskIS_AFFINITY_COMPATIBLE k s t \<and> uxSchedulerSuspended s k = 0 \<and>
     (case pxCurrentTCBs s k of None \<Rightarrow> False | Some b \<Rightarrow> prio s b < prio s t)"

lemma yields_core_outranks:
  assumes "sched_ok s"
  shows "yields_core k t (prio s t) s = Inr (outranks s t k)"
proof -
  obtain b where "current k s = Inr b" "pxCurrentTCBs s k = Some b" using current_task [OF assms] by blast
  then show ?thesis by (auto simp: yields_core_def outranks_def)
qed

text \<open>
  C18. A notification wakes the task that waits for it: \<^verbatim>\<open>xTaskNotify\<close> succeeds, the task is in the ready list
  of its priority, its notification is marked as received with the value the action prescribes, and if
  there is a core on which the task takes precedence, such a core is interrupted so that it switches: the
  calling core if it is one, else the other.
\<close>

theorem notified_task_wakes:
  assumes "kreach s" "may_notify t s" "note_state s t = taskWAITING_NOTIFICATION"
  shows "\<exists>s'. xTaskGenericNotify c (Some t) 0 v act s = Inr (True, note_value s t, s') \<and>
    container s' (StateItem t) = Some (ReadyTasks (unat (prio s t))) \<and>
    mailbox s' t = note_posted act v (mailbox s t) \<and>
    (if outranks s t c then reason s' c else outranks s t (other c) \<longrightarrow> reason s' (other c))"
proof -
  note ok = kernel_okD [OF kernel.reaches_inv [OF assms(1)]]
  obtain w where a: "notify_action act v taskWAITING_NOTIFICATION (note_value s t) = (True, w)"
    by (cases act) (simp_all add: notify_action_def)
  let ?s1 = "set_note t w taskNOTIFICATION_RECEIVED s"
  have "container ?s1 (EventItem t) = None" using ok(2) assms(3) by (simp add: notes_ok_def)
  from wake_run [OF set_note_ok [OF ok(1)] _ this] assms(2) obtain s2 s3 where
    run: "remove_state t ?s1 = Inr s2" "prvAddTaskToReadyList t s2 = Inr s3" and res: "ready_result t ?s1 s3"
    and ok3: "sched_ok s3" and pr: "prio s3 t < configMAX_PRIORITIES" by auto
  from res obtain X Y where s3: "s3 = readied X Y t ?s1" by (auto simp: ready_result_def)
  have o: "outranks s3 t k = outranks s t k" for k
    by (simp add: s3 outranks_def affinity_cong [of "readied X Y t ?s1" ?s1] split: option.split)
  have "prvIsYieldRequiredSMP c t (prio s3 t) False s3 =
      Inr (outranks s t c, if \<not> outranks s t c \<and> outranks s t (other c) then esp_crosscore_int_send_yield (other c) s3 else s3)"
    using yields_core_outranks [OF ok3] o pr by (simp add: prvIsYieldRequiredSMP_def Let_def)
  moreover have "container s3 (EventItem t) = None" by (simp add: s3)
  ultimately have "xTaskGenericNotify c (Some t) 0 v act s = Inr (True, note_value s t,
      if outranks s t c then esp_crosscore_int_send_yield c s3
      else if outranks s t (other c) then esp_crosscore_int_send_yield (other c) s3 else s3)"
    using a assms(3) run by (simp add: xTaskGenericNotify_def)
  moreover have "mailbox s3 t = note_posted act v (mailbox s t)"
    using action_posted [OF a] assms(3) by (simp add: s3 mailbox_def note_value_def note_state_def set_note_def)
  ultimately show ?thesis by (simp add: s3 mailbox_def note_value_def note_state_def)
qed

section \<open>Resuming a task that waits for a notification\<close>

lemma live_prio: "sched_ok s \<Longrightarrow> tcb_live s t \<Longrightarrow> uxPriority (tcb s t) < configMAX_PRIORITIES"
  using live_place [of s t] by (auto simp: prio_def)

lemma add_ready_event:
  assumes "container s (StateItem t) = None" "prio s t < configMAX_PRIORITIES"
  obtains s' where "prvAddTaskToReadyList t s = Inr s'" "container s' (EventItem t) = container s (EventItem t)"
proof -
  have "container (taskRECORD_READY_PRIORITY p s) = container s" for p by (simp add: taskRECORD_READY_PRIORITY_def)
  with assms show thesis by (auto simp: prvAddTaskToReadyList_def ready_list_def insert_end_def Let_def intro: that)
qed

lemma notify_queued_fails:
  assumes lists: "lists_ok s" and w: "note_state s t = taskWAITING_NOTIFICATION" and at: "container s (StateItem t) = Some l"
    and ev: "container s (EventItem t) = Some e" and pr: "prio s t < configMAX_PRIORITIES"
  shows "xTaskGenericNotify c (Some t) 0 v act s = Inl Assert_failed"
proof -
  obtain r w' where a: "notify_action act v (note_state s t) (note_value s t) = (r, w')" by force
  let ?s1 = "set_note t w' taskNOTIFICATION_RECEIVED s"
  have "lists_ok ?s1" using lists by (simp add: set_note_def lists_ok_def)
  then obtain Y where r1: "remove_state t ?s1 = Inr (without (StateItem t) Y ?s1)"
    by (rule remove_state_run [where t = t and l = l]) (use at in auto)
  let ?s2 = "without (StateItem t) Y ?s1"
  obtain s3 where r2: "prvAddTaskToReadyList t ?s2 = Inr s3" and c3: "container s3 (EventItem t) = container ?s2 (EventItem t)"
    by (rule add_ready_event [of ?s2 t]) (use pr in auto)
  then have "container s3 (EventItem t) = Some e" using ev by simp
  with w a r1 r2 show ?thesis by (simp add: xTaskGenericNotify_def)
qed

text \<open>
  C19. A task that waits for a notification without time-out is in the list of suspended tasks.
  \<^verbatim>\<open>prvTaskIsTaskSuspended\<close> does not look at the notification state, as \<^verbatim>\<open>eTaskGetState\<close> does: the task is
  reported as blocked, but \<^verbatim>\<open>vTaskResume\<close> ends its wait without a notification. If an
  interrupt resumes it while no scheduler can take it, its event item is queued although it still waits
  for a notification, and the next notification fails the assertion that the item is free.
\<close>

theorem resume_breaks_notification:
  assumes "kreach s" "note_state s t = taskWAITING_NOTIFICATION" "container s (StateItem t) = Some SuspendedTaskList"
    "\<not> taskIS_CURRENTLY_RUNNING s t"
  shows "eTaskGetState (Some t) s = Inr eBlocked \<and>
    (\<exists>s'. vTaskResume c (Some t) s = Inr s' \<and> container s' (StateItem t) = Some (ReadyTasks (unat (prio s t))) \<and>
       mailbox s' t = mailbox s t) \<and>
    (\<not> prvCheckTaskCanBeScheduledSMP s t \<longrightarrow>
       (\<exists>s'. xTaskResumeFromISR c (Some t) s = Inr (False, s') \<and> xTaskGenericNotify k (Some t) 0 v act s' = Inl Assert_failed))"
proof (intro conjI impI)
  note ok = kernel_okD [OF kernel.reaches_inv [OF assms(1)]]
  have ev: "container s (EventItem t) = None" using ok(2) assms(2) by (simp add: notes_ok_def)
  have susp: "prvTaskIsTaskSuspended t s" using assms(3) ev by (simp add: prvTaskIsTaskSuspended_def)
  have live: "may_notify t s" using blocked_live [OF ok(1), of t] assms(3) by (auto simp: may_notify_def)
  show "eTaskGetState (Some t) s = Inr eBlocked"
    using assms(2-4) ev delay_two [OF sched_okD(3) [OF ok(1)]] by (auto simp: eTaskGetState_def note_state_def)
  show "\<exists>s'. vTaskResume c (Some t) s = Inr s' \<and> container s' (StateItem t) = Some (ReadyTasks (unat (prio s t))) \<and>
       mailbox s' t = mailbox s t"
  proof -
    from wake_run [OF ok(1) live ev] obtain s1 s2 where run: "remove_state t s = Inr s1" "prvAddTaskToReadyList t s1 = Inr s2"
      and res: "ready_result t s s2" and ok2: "sched_ok s2" and pr: "prio s2 t < configMAX_PRIORITIES" by blast
    from res obtain X Y where s2: "s2 = readied X Y t s" by (auto simp: ready_result_def)
    obtain y s3 where y: "prvIsYieldRequiredSMP c t (prio s2 t) True s2 = Inr (y, s3)"
      and s3: "s3 = s2 \<or> s3 = esp_crosscore_int_send_yield (other c) s2" using yield_required_ok [OF ok2 pr] by blast
    have "vTaskResume c (Some t) s = Inr (if y then esp_crosscore_int_send_yield c s3 else s3)"
      using assms(4) susp run y by (simp add: vTaskResume_def)
    then show ?thesis using s3 by (auto simp: s2 mailbox_def note_value_def note_state_def)
  qed
  show "\<exists>s'. xTaskResumeFromISR c (Some t) s = Inr (False, s') \<and> xTaskGenericNotify k (Some t) 0 v act s' = Inl Assert_failed"
    if aside: "\<not> prvCheckTaskCanBeScheduledSMP s t"
  proof -
    obtain X where ins: "insert_end (PendingReady c) (EventItem t) s =
        Inr (s\<lparr>items := (items s)(PendingReady c := X), container := (container s)(EventItem t := Some (PendingReady c))\<rparr>)" (is "_ = Inr ?s1")
      and lists: "lists_ok (s\<lparr>items := (items s)(PendingReady c := X), container := (container s)(EventItem t := Some (PendingReady c))\<rparr>)"
      using insert_end_run [OF sched_okD(1) [OF ok(1)] ev] by blast
    have "xTaskGenericNotify k (Some t) 0 v act ?s1 = Inl Assert_failed"
      by (rule notify_queued_fails [OF lists]) (use assms(2,3) ok(1) live in \<open>simp_all add: note_state_def prio_def may_notify_def live_prio\<close>)
    moreover have "xTaskResumeFromISR c (Some t) s = Inr (False, ?s1)" using susp aside ins by (simp add: xTaskResumeFromISR_def)
    ultimately show ?thesis by blast
  qed
qed

section \<open>The timer task waits\<close>

text \<open>
  Concrete states for the witnesses: the timer task of \<^term>\<open>first_kernel\<close>, which runs on core 0, waits for a
  notification without time-out, and the core switches to the main task.
\<close>

definition timer_blocked :: sched where
  "timer_blocked = first_kernel\<lparr>items := (items first_kernel)(ReadyTasks 1 := [StateItem 0], SuspendedTaskList := [StateItem 3]),
     cursor := (\<lambda>_. None), container := (container first_kernel)(StateItem 3 := Some SuspendedTaskList),
     tcb := (tcb first_kernel)(3 := (new_tcb 1 None)\<lparr>ucNotifyState := taskWAITING_NOTIFICATION\<rparr>),
     reason := (reason first_kernel)(Core0 := True)\<rparr>"

lemma timer_blocked_run: "kstep (NotifyTake Core0 portMAX_DELAY) first_kernel = Inr timer_blocked"
  by (simp add: notify_take_enter_def current_def note_value_def new_tcb_def block_for_note_def portMAX_DELAY_def
      prvAddCurrentTaskToDelayedList_def remove_state_def remove_item_def first_kernel_fields insert_end_def put_before_def
      upd_task_def set_note_def esp_crosscore_int_send_yield_def timer_blocked_def Let_def)

lemma timer_blocked_reached: "kreach timer_blocked"
  by (rule reaches_call [OF first_kernel_reached _ timer_blocked_run]) (simp add: executes_def blockable_def is_idle_def)

definition timer_waits :: sched where
  "timer_waits = timer_blocked\<lparr>pxCurrentTCBs := (pxCurrentTCBs timer_blocked)(Core0 := Some 0),
     reason := (reason timer_blocked)(Core0 := False), xYieldPending := (xYieldPending timer_blocked)(Core0 := False)\<rparr>"

lemma timer_waits_run: "kstep (CrossCoreInt Core0) timer_blocked = Inr timer_waits"
  by (simp add: esp_crosscore_isr_def timer_blocked_def timer_waits_def item_after_def walk_ready_list.simps reset_index_def remove_state_def remove_item_def insert_end_def put_before_def set_yield_pending_def configMAX_PRIORITIES_def taskIS_AFFINITY_COMPATIBLE_def boot_state_def reset_state_def new_tcb_def Let_def vTaskSwitchContext_def prvSelectHighestPriorityTaskSMP_def
      first_kernel_def search_from.simps ready_list_def search_priority_def next_entry_def,
      simp add: fun_eq_iff)


lemma timer_waits_reached: "kreach timer_waits"
  by (rule reaches_call [OF timer_blocked_reached _ timer_waits_run]) simp

lemma timer_waits_sel [simp]:
  "pxCurrentTCBs timer_waits = (\<lambda>_. None)(Core1 := Some 2, Core0 := Some 0)"
  "container timer_waits (StateItem 3) = Some SuspendedTaskList" "tcb_live timer_waits 3"
  "tcb timer_waits = (tcb first_kernel)(3 := (new_tcb 1 None)\<lparr>ucNotifyState := taskWAITING_NOTIFICATION\<rparr>)"
  "uxSchedulerSuspended timer_waits = (\<lambda>_. 0)"
  by (simp_all add: timer_waits_def timer_blocked_def fun_eq_iff)

lemma timer_waits_note [simp]: "note_state timer_waits 3 = taskWAITING_NOTIFICATION" "note_value timer_waits 3 = 0"
  by (simp_all add: note_state_def note_value_def new_tcb_def)

theorem notified_task_wakes_witness:
  "\<exists>s'. xTaskGenericNotify Core1 (Some 3) 0 7 eSetValueWithOverwrite timer_waits = Inr (True, 0, s') \<and>
     container s' (StateItem 3) = Some (ReadyTasks 1) \<and> mailbox s' 3 = (7, taskNOTIFICATION_RECEIVED) \<and> reason s' Core1"
proof -
  have m: "may_notify 3 timer_waits" by (simp add: may_notify_def)
  have o: "outranks timer_waits 3 Core1" "prio timer_waits 3 = 1"
    by (simp_all add: outranks_def prio_def taskIS_AFFINITY_COMPATIBLE_def)
  show ?thesis
    using notified_task_wakes [OF timer_waits_reached m timer_waits_note(1), of Core1 7 eSetValueWithOverwrite] o
    by (auto simp: mailbox_def note_posted_def)
qed

text \<open>Both schedulers are suspended, so that no core can take the timer task.\<close>

definition timer_aside :: sched where
  "timer_aside = vTaskSuspendAll Core1 (vTaskSuspendAll Core0 timer_waits)"

lemma timer_aside_reached: "kreach timer_aside"
proof (rule reaches_call [of _ _ _ _ "SuspendAll Core1"])
  show "kreach (vTaskSuspendAll Core0 timer_waits)"
    by (rule reaches_call [OF timer_waits_reached, of "SuspendAll Core0"]) simp_all
qed (simp_all add: timer_aside_def vTaskSuspendAll_def)

theorem resume_breaks_notification_witness:
  "eTaskGetState (Some 3) timer_aside = Inr eBlocked \<and>
   (\<exists>s'. vTaskResume Core0 (Some 3) timer_aside = Inr s' \<and> container s' (StateItem 3) = Some (ReadyTasks 1)) \<and>
   (\<exists>s'. xTaskResumeFromISR Core0 (Some 3) timer_aside = Inr (False, s') \<and>
      xTaskGenericNotify Core1 (Some 3) 0 1 eIncrement s' = Inl Assert_failed)"
proof -
  have a: "note_state timer_aside 3 = taskWAITING_NOTIFICATION" "container timer_aside (StateItem 3) = Some SuspendedTaskList"
    "\<not> taskIS_CURRENTLY_RUNNING timer_aside 3" "\<not> prvCheckTaskCanBeScheduledSMP timer_aside 3" "prio timer_aside 3 = 1"
    by (simp_all add: timer_aside_def vTaskSuspendAll_def note_state_def taskIS_CURRENTLY_RUNNING_def
        prvCheckTaskCanBeScheduledSMP_def prio_def)
  show ?thesis using resume_breaks_notification [OF timer_aside_reached a(1-3), of Core0 Core1 1 eIncrement] a(4,5) by auto
qed

text \<open>The waiting timer task is given two notifications by interrupts of core 1 before core 0 has switched.\<close>

definition timer_given :: sched where
  "timer_given = timer_blocked\<lparr>items := (items first_kernel)(ReadyTasks 1 := [StateItem 0, StateItem 3], SuspendedTaskList := []),
     container := container first_kernel, tcb := (tcb first_kernel)(3 := (new_tcb 1 None)\<lparr>ulNotifiedValue := 1, ucNotifyState := taskNOTIFICATION_RECEIVED\<rparr>),
     xYieldPending := (xYieldPending timer_blocked)(Core1 := True)\<rparr>"

lemma timer_given_run: "kstep (NotifyGiveFromISR Core1 3) timer_blocked = Inr timer_given"
  by (simp add: state_of_def vTaskGenericNotifyGiveFromISR_def timer_blocked_def timer_given_def note_state_def note_value_def new_tcb_def
      set_note_def upd_task_def wake_from_isr_def prvCheckTaskCanBeScheduledSMP_def remove_state_def remove_item_def
      prvAddTaskToReadyList_def taskRECORD_READY_PRIORITY_def ready_list_def configMAX_PRIORITIES_def insert_end_def put_before_def prio_def
      first_kernel_def boot_state_def reset_state_def prvIsYieldRequiredSMP_def yields_core_def current_def
      taskIS_AFFINITY_COMPATIBLE_def set_yield_pending_def Let_def,
      simp add: fun_eq_iff)

theorem notifications_counted_witness:
  "\<exists>s2 s3. notify_take_enter Core0 0 portMAX_DELAY first_kernel = Inr timer_blocked \<and> away 3 timer_blocked 2 s2 \<and>
     ulTaskGenericNotifyTake Core0 0 True portMAX_DELAY (\<lambda>_. Inr (Core0, s2)) first_kernel = Inr (2, s3) \<and> note_value s3 3 = 0"
proof -
  let ?s2 = "set_note 3 2 taskNOTIFICATION_RECEIVED timer_given" and ?k = "NotifyGiveFromISR Core1 3"
  have n: "note_state timer_given 3 = taskNOTIFICATION_RECEIVED" "note_value timer_given 3 = 1" "note_value first_kernel 3 = 0"
    by (simp_all add: timer_given_def note_state_def note_value_def new_tcb_def)
  have p: "permitted ?k timer_blocked" "permitted ?k timer_given" "permitted (NotifyTake Core0 portMAX_DELAY) first_kernel"
    by (simp_all add: timer_blocked_def timer_given_def may_notify_isr_def may_notify_def prvCheckTaskCanBeScheduledSMP_def
        executes_def blockable_def is_idle_def)
  have "kstep ?k timer_given = Inr ?s2" by (simp add: state_of_def vTaskGenericNotifyGiveFromISR_def n Let_def)
  then have a: "away 3 timer_blocked 2 ?s2"
    using away_call [where t = 3, OF away_call [OF away_start p(1) _ timer_given_run] p(2)] by (simp add: spares_def gives_def numeral_2_eq_2)
  have c: "pxCurrentTCBs first_kernel Core0 = Some 3" "pxCurrentTCBs ?s2 Core0 = Some 3"
    by (simp_all add: timer_given_def timer_blocked_def)
  have e: "notify_take_enter Core0 0 portMAX_DELAY first_kernel = Inr timer_blocked" using timer_blocked_run by simp
  show ?thesis
    using notifications_counted [OF first_kernel_reached p(3) c(1) e a c(2), of True] a e n(3) by auto
qed

end
