(* ===== verification/Spec2Isabelle.thy ===== *)
theory Spec2Isabelle
  imports TemperatureMonitoring PwrMonitoring SensorController UserInterface TriggerDriver LedDriver AdcController UartTx AppMain
    KernelNotify
begin

text \<open>
  A verification development for the ESP32-S3 laser driver firmware
  (\<^verbatim>\<open>src/Source/Laser_Driver/main\<close>) and for the parts of its SDK (\<^verbatim>\<open>src/Source/SDK/components\<close>, ESP-IDF and
  FreeRTOS) that the firmware's behaviour rests on.

  \<^bold>\<open>The program.\<close> The firmware is a set of modules, each with static state, most of them guarded by
  a FreeRTOS mutex and driven by a task or by calls from other modules. The sensor controller
  powers the sensors, waits for them, requests measurements and publishes temperatures and power
  values through the two monitoring modules; the ADC controller shares the converter between
  three kinds of sampling; the LED driver maps LEDs to pins and PWM channels; the user interface
  passes events through a queue to its task; the trigger driver debounces a push button (its
  file is not in the build and does not compile: what its undeclared \<^verbatim>\<open>trigger_release\<close> stands for is a
  parameter); the shell's
  serial line passes characters from the UART driver's interrupt handler, through its ring buffer and
  its event queue, to a listener task. The entry point (\<^verbatim>\<open>main.c\<close>) starts a task that only sleeps and
  initialises none of them. Underneath, the FreeRTOS kernel in its two-core configuration decides which
  task runs on which core.

  \<^bold>\<open>Conventions.\<close> A function of the source is a definition of the same name. Static variables are
  the fields of one record per module, passed in and returned updated; C integers keep their width
  (\<^verbatim>\<open>uint32_t\<close> is \<^typ>\<open>u32\<close>, with wrapping arithmetic). Every operation that can get stuck returns a
  \<^typ>\<open>'a res\<close>: the \<^term>\<open>Inl\<close> side names a failed assertion, a null or freed pointer, an access
  out of bounds, a division by zero, or a wait that nothing ends. A pointer argument that may be
  null is an option or a flag, a value stored through an out pointer is a component of the result.
  Whatever comes from outside (allocations, task creation, pin levels, conversions, fuses) is an
  argument. A task that blocks is resumed in the kernel and queue states of its environment
  (\<^typ>\<open>env\<close>), one per resumption, so that every interleaving of other tasks is covered; an exhausted
  environment is the wait that nothing ends. Log output is left out.

  \<^bold>\<open>Theories.\<close>
  \<^item> \<^verbatim>\<open>Prelude\<close>: integer types, results and faults, byte memory, shared lemmas (collection
    \<^verbatim>\<open>res_simps\<close>).
  \<^item> \<^verbatim>\<open>FreeRTOS_Tasks\<close> (\<^verbatim>\<open>tasks.c\<close>, \<^verbatim>\<open>list.c\<close>): timeouts, event lists, mutex ownership and priority inheritance.
  \<^item> \<^verbatim>\<open>KernelList\<close> (\<^verbatim>\<open>list.c\<close>, \<^verbatim>\<open>list.h\<close>): the kernel's lists as pointers in a heap, and as sequences with a
    cursor. The locale \<^verbatim>\<open>simulation\<close> is the contract of an implementation against a specification; the linked
    lists are its interpretation, so that the theories above work with sequences.
  \<^item> \<^verbatim>\<open>Scheduler\<close> (\<^verbatim>\<open>tasks.c\<close>, \<^verbatim>\<open>freertos_tasks_c_additions.h\<close>, \<^verbatim>\<open>crosscore_int.c\<close>, \<^verbatim>\<open>port_systick.c\<close>,
    \<^verbatim>\<open>app_startup.c\<close>): the scheduler of the two cores. The record \<^typ>\<open>sched\<close> holds the variables of \<^verbatim>\<open>tasks.c\<close>, the
    lists, the control blocks and the pending yield interrupts; each function that takes the kernel lock is
    one definition, the core that calls it an argument. \<^verbatim>\<open>SchedulerInv\<close>: the invariant \<^verbatim>\<open>sched_ok\<close> (where the items of a
    task may be, how wake times relate to the tick count, that a core whose task is no longer ready
    has a switch pending), the tick and the choice of a task. \<^verbatim>\<open>SchedulerSteps\<close>: interrupts, suspending the
    scheduler, blocking and waking. \<^verbatim>\<open>SchedulerTasks\<close>: suspending, deleting and creating tasks, priorities, and
    the start. \<^verbatim>\<open>TaskNotify\<close>: task notifications, and rules for what a sequence of calls leaves of notifications and
    event items. \<^verbatim>\<open>KernelRun\<close>: the calls of the kernel as a step function with the guard \<^verbatim>\<open>permitted\<close>,
    as an interpretation of the locale \<^verbatim>\<open>guarded_machine\<close>: no permitted call ever gets stuck. The guard is
    narrower than the documentation: it leaves out blocking calls of a task that the other core has just
    suspended or deleted, and interrupts that wake a task pinned to the other core while that one's
    scheduler is suspended. The start does not include the ipc tasks that a constructor creates before. The
    highest priority runs, delayed tasks wake in the right tick, resumed tasks preempt; two calls that can be lost.
    \<^verbatim>\<open>KernelNotify\<close>: notifications implement the mailboxes of \<^verbatim>\<open>mailbox_step\<close>, none is lost while a task
    waits, a notified task preempts; what goes wrong when a task that waits for one is resumed.
    The firmware's modules are not composed with this scheduler: their blocking calls are resumed by their
    environment, which covers every order in which a scheduler could run other tasks.
  \<^item> \<^verbatim>\<open>FreeRTOS_Queue\<close> (\<^verbatim>\<open>queue.c\<close>, \<^verbatim>\<open>semphr.h\<close>): queues over byte memory, semaphores and mutexes. The
    locale \<^verbatim>\<open>bounded_fifo\<close> is the contract of a bounded queue and \<^verbatim>\<open>lock\<close> that of a mutex; the model's queue
    and mutex are interpretations, and so are the event channel of the user interface and the
    mutexes of the LED driver and the ADC controller. Lemmas: the ring of items is a list (refinement),
    send and receive on every branch, creation, and mutex cycles that restore the kernel.
  \<^item> \<^verbatim>\<open>Gpio\<close> (\<^verbatim>\<open>gpio.c\<close>, \<^verbatim>\<open>rtc_io.c\<close>): pins as registers; a configuration changes exactly its pins.
  \<^item> \<^verbatim>\<open>Ledc\<close> (\<^verbatim>\<open>ledc.c\<close>): timers, channels, duties and the fade service with its interrupt. Fades end at
    their target if the hardware moves the duty as documented (\<^verbatim>\<open>fades_as_documented\<close>, the one
    hypothesis about hardware; the identity on the register values satisfies it).
  \<^item> \<^verbatim>\<open>AdcDriver\<close> (\<^verbatim>\<open>adc_oneshot.c\<close>, \<^verbatim>\<open>adc_continuous.c\<close>, \<^verbatim>\<open>adc_share_hw_ctrl.c\<close>): driver contexts in a heap, locks and
    reference counts, and which callbacks the DMA interrupt calls. \<^verbatim>\<open>AdcCali\<close>: curve fitting with
    terms of 64 bits and a sum of 32 against its polynomial on unbounded integers: where they agree, and by
    how much they differ where the quadratic term has wrapped once.
  \<^item> \<^verbatim>\<open>TempConversion\<close>, \<^verbatim>\<open>TemperatureMonitoring\<close> (\<^verbatim>\<open>Sensors/tempConversion.c\<close>, \<^verbatim>\<open>temperatureMonitoring.c\<close>): table
    lookup and 16-bit interpolation. The conversion equals truncated linear interpolation while its
    products fit 16 bits; where that is with the firmware's own table; its two out-of-bounds reads.
  \<^item> \<^verbatim>\<open>PwrMonitoring\<close> (\<^verbatim>\<open>Sensors/pwrMonitoring.c\<close>): values and their mutex.
  \<^item> \<^verbatim>\<open>SensorController\<close> (\<^verbatim>\<open>Sensors/sensorController.c\<close>): the task's loop against an abstract state machine,
    with the invariant that the sensors are powered only between their two steps; when the cycle
    completes and when it stalls.
  \<^item> \<^verbatim>\<open>UserInterface\<close> (\<^verbatim>\<open>UserInterface/userInterface.c\<close>): posted events arrive in order.
  \<^item> \<^verbatim>\<open>TriggerDriver\<close> (\<^verbatim>\<open>UserInterface/triggerDriver.c\<close>): the task refines a debouncing
    specification for every meaning of the undeclared name that lets the counter count to three.
  \<^item> \<^verbatim>\<open>LedDriverCfg\<close>, \<^verbatim>\<open>LedDriver\<close> (\<^verbatim>\<open>Config/ledDriver_cfg.c\<close>, \<^verbatim>\<open>UserInterface/led/ledDriver.c\<close>): the table of LEDs as a
    store of slots (locale \<^verbatim>\<open>slot_store\<close>), duties and colours as shares of a period, frequencies through
    the two roundings, fades, and what is wrong with states, frequencies and colour fades.
  \<^item> \<^verbatim>\<open>AdcController\<close> (\<^verbatim>\<open>HWI/adcController.c\<close>): the operations run under the mutex as they do alone
    (\<^verbatim>\<open>locked_adc_eq\<close>); exact means, exclusive ownership, the cycle of continuous sampling, and its faults.
  \<^item> \<^verbatim>\<open>RingBuffer\<close> (\<^verbatim>\<open>esp_ringbuf/ringbuf.c\<close>): the three kinds of buffer over byte memory, item headers in the
    storage included. The locale \<^verbatim>\<open>lending_fifo\<close> is the contract of a channel that lends its oldest
    elements; byte buffers are its interpretation: the four pointers stand for the lists of lent and
    waiting bytes, and every sequence of sends, receives and returns behaves as on lists.
  \<^item> \<^verbatim>\<open>NoSplit\<close> (\<^verbatim>\<open>ringbuf.c\<close>): no-split buffers as queues of items. Headers, filler and padding in the
    storage are a chain of entries; the locale \<^verbatim>\<open>item_queue\<close> is the contract of a queue that lends one item, and the
    buffer is its interpretation. Lemmas: acquiring, copying, receiving and returning along the chain, around
    the end of the storage as well, and that the reported free size is exact; two ways in which a
    reader or a writer with several items breaks the buffer, the first for every full buffer.
  \<^item> \<^verbatim>\<open>Uart\<close> (\<^verbatim>\<open>esp_driver_uart/src/uart.c\<close>): registers, the driver object of a port, interrupt masks, the
    queue of pattern positions, the interrupt handler, reading and flushing. Lemmas: the received stream
    is the waiting bytes of the ring buffer and the stash behind them; the handler appends to it what it
    takes from the FIFO, a read takes its front, a flush empties it; all loops end.
  \<^item> \<^verbatim>\<open>UartConfig\<close> (\<^verbatim>\<open>uart.c\<close>, \<^verbatim>\<open>uart_ll.h\<close>, \<^verbatim>\<open>uart_hal.c\<close>): baud rate dividers, the format of a character, flow
    control, modes, thresholds and clock gating, with the widths of the register fields.
  \<^item> \<^verbatim>\<open>UartDriver\<close> (\<^verbatim>\<open>uart.c\<close>, \<^verbatim>\<open>uart_periph.c\<close>): pins, installation and removal, parameters and writing.
    Installation yields a well-formed port, with or without a transmit buffer and an event queue (shown in
    \<^verbatim>\<open>UartTx\<close>), or leaves nothing behind; only the memory for pattern positions is not checked.
  \<^item> \<^verbatim>\<open>ShellCom\<close> (\<^verbatim>\<open>HWI/shellComUART.c\<close>, \<^verbatim>\<open>Config/myShell_cfg.c\<close>): initialisation, the listener task and printing. The
    step relation \<^verbatim>\<open>line_step\<close> interleaves arriving bytes, interrupts, draining and reading; its invariant is
    that no byte is duplicated, changed or overtaken, and none is lost without an overflow.
  \<^item> \<^verbatim>\<open>UartTx\<close> (\<^verbatim>\<open>uart.c\<close>, \<^verbatim>\<open>shellComUART.c\<close>): the transmit side from a write to the line. The items in the ring buffer, the
    item in work and the driver's counters stand for one stream of bytes: a write appends to it, the
    interrupt handler moves its front to the FIFO, and it is sent completely. The step relation
    \<^verbatim>\<open>duplex_step\<close> adds printing (when 24 bytes are free, and as one step) and transmitting to \<^verbatim>\<open>line_step\<close>:
    the two directions do not disturb each other.
  \<^item> \<^verbatim>\<open>AppMain\<close> (\<^verbatim>\<open>main.c\<close>): when the main task is reached, and that it only sleeps.

  \<^bold>\<open>Bounds and fuel.\<close> Blocking calls recurse on their environment and loops of tasks on a number of
  iterations, for all of which the theorems are stated; a fade needs at most 16385 interrupts, the
  number of duty values; scans recurse on the rest of their table. The mean of a one-shot
  measurement is exact up to 1048576 samples, for which the sum of 12-bit readings fits 32 bits. The
  walks over items of a ring buffer get one turn per byte of storage and two more, enough since every
  item has a header; the loop that updates pattern positions gets the length of their ring, the loop
  that drains events the number of waiting events, the loop that reads bytes twice the bytes asked for
  and the resumptions given, the loop of the transmit interrupt one turn per waiting item and per byte
  of room in the FIFO. The walk over a ready list gets its length, the loop over the delayed list its length
  and one more, the loop over a pending list its length; the loop of the idle task is bounded by the
  count of deleted tasks, which each turn lowers. Running out of these is the fault \<^term>\<open>Diverges\<close>, which the theorems exclude.

  \<^bold>\<open>Not modelled.\<close> Event groups, software timers, tickless idle, run-time statistics,
  stacks and thread-local storage of the kernel; the interrupt latency between a yield request and the
  switch, other than as a later step; register writes without a later effect on the
  program (pad analogue settings); SDK functions the firmware does not call; the shell library, a
  submodule without files here, which is an argument of the listener task; queue sets, the reference
  counts of the RTC clock, sleep retention and power management of the UART driver; what is printed.

  \<^bold>\<open>Open.\<close> Writes that wait for room while the interrupt handler runs, transmissions that end with a
  break, stopping and deconfiguring PWM timers, counting semaphores, and the
  composition of the sensor controller with the ADC controller that the firmware leaves open.
\<close>

end
